(* ===== verification/Prelude.thy ===== *)
theory Prelude
  imports Main "HOL-Library.Word"
begin

text \<open>
  Shared vocabulary of the development: machine integers, the status codes the
  sources return, C byte views (pointer and size), scans over fixed tables, and
  the counting lemmas that the table invariants rest on.
\<close>

section \<open>Machine integers and constants\<close>

type_synonym u8 = "8 word"
type_synonym u32 = "32 word"
type_synonym u64 = "64 word"

abbreviation UINT32_MAX :: u32 where "UINT32_MAX \<equiv> - 1"
abbreviation UINT64_MAX :: u64 where "UINT64_MAX \<equiv> - 1"

definition SCXML_EVENT_METADATA_CAPACITY :: nat where
  "SCXML_EVENT_METADATA_CAPACITY = 256"

definition SCXML_EVENT_DATA_CAPACITY :: nat where
  "SCXML_EVENT_DATA_CAPACITY = 4096"

section \<open>Status codes\<close>

text \<open>
  The codes of the \<^verbatim>\<open>salts/error_codes.h\<close> header that the sources name. A
  callback may hand back any other integer, which is kept as such.
\<close>

datatype salts_status =
    SALTS_OK | SALTS_EINVAL | SALTS_ENOMEM | SALTS_ENOENT | SALTS_EBUSY
  | SALTS_EALREADY | SALTS_ENOBUFS | SALTS_ESHUTDOWN | SALTS_EPROTO
  | SALTS_EMSGSIZE | SALTS_ENOTSUP | SALTS_ERANGE | SALTS_ENOTCONN
  | SALTS_EPERM | SALTS_EIO | SALTS_ECANCELED | SALTS_ETIMEDOUT | SALTS_ENOSPC
  | SALTS_OTHER int

datatype cflow_mailbox_status =
    CFLOW_MAILBOX_OK | CFLOW_MAILBOX_EMPTY | CFLOW_MAILBOX_FULL
  | CFLOW_MAILBOX_CLOSED | CFLOW_MAILBOX_INVALID_ARGUMENT
  | CFLOW_MAILBOX_CANCELLED | CFLOW_MAILBOX_TYPE_MISMATCH
  | CFLOW_MAILBOX_BUFFER_TOO_SMALL | CFLOW_MAILBOX_ALLOCATION_FAILED

datatype scxml_adapter_status =
    SCXML_ADAPTER_ACCEPTED | SCXML_ADAPTER_ERROR_EXECUTION
  | SCXML_ADAPTER_ERROR_COMMUNICATION | SCXML_ADAPTER_FULL
  | SCXML_ADAPTER_CLOSED | SCXML_ADAPTER_INVALID_CONTRACT

datatype scxml_content_kind =
    SCXML_CONTENT_INVALID | SCXML_CONTENT_SCALAR | SCXML_CONTENT_TEXT_UTF8
  | SCXML_CONTENT_XML_UTF8 | SCXML_CONTENT_CMETA

section \<open>Byte views\<close>

text \<open>
  A C argument pair \<^verbatim>\<open>(const char *data, size_t size)\<close>: either the NULL pointer
  with whatever size the caller claims, or a pointer to exactly \<^verbatim>\<open>size\<close> bytes.
\<close>

datatype cbytes = CNull nat | CBytes string

fun csize :: "cbytes \<Rightarrow> nat" where
  "csize (CNull n) = n"
| "csize (CBytes s) = length s"

fun cdata :: "cbytes \<Rightarrow> string" where
  "cdata (CNull n) = []"
| "cdata (CBytes s) = s"

fun is_cnull :: "cbytes \<Rightarrow> bool" where
  "is_cnull (CNull n) = True"
| "is_cnull (CBytes s) = False"

text \<open>\<^verbatim>\<open>memchr(data, '\0', size) != NULL\<close>\<close>

definition has_nul :: "string \<Rightarrow> bool" where
  "has_nul s = (CHR 0x00 \<in> set s)"

text \<open>The same for a buffer of bytes.\<close>

datatype cview = VNull nat | VBytes "u8 list"

fun vsize :: "cview \<Rightarrow> nat" where
  "vsize (VNull n) = n"
| "vsize (VBytes bs) = length bs"

fun vdata :: "cview \<Rightarrow> u8 list" where
  "vdata (VNull n) = []"
| "vdata (VBytes bs) = bs"

fun is_vnull :: "cview \<Rightarrow> bool" where
  "is_vnull (VNull n) = True"
| "is_vnull (VBytes bs) = False"

section \<open>Sessions and events\<close>

text \<open>A Session pointer is a number.\<close>

type_synonym session = nat

record event_metadata =
  md_send_id :: string
  md_origin :: "string option"
  md_origin_type :: "string option"
  md_kind :: scxml_content_kind
  md_bytes :: cbytes

text \<open>
  A C argument pair \<^verbatim>\<open>(const T *items, size_t count)\<close>: the NULL pointer with whatever
  count the caller claims, or exactly \<^verbatim>\<open>count\<close> items.
\<close>

datatype 'a carray = ANull nat | AItems "'a list"

fun acount :: "'a carray \<Rightarrow> nat" where
  "acount (ANull n) = n"
| "acount (AItems xs) = length xs"

fun aitems :: "'a carray \<Rightarrow> 'a list" where
  "aitems (ANull n) = []"
| "aitems (AItems xs) = xs"

fun is_anull :: "'a carray \<Rightarrow> bool" where
  "is_anull (ANull n) = True"
| "is_anull (AItems xs) = False"

text \<open>A scalar. A double is kept as its bit pattern, a signed integer as a word.\<close>

datatype scxml_payload_value =
    SCXML_PAYLOAD_VALUE_INVALID | SCXML_PAYLOAD_VALUE_BOOL bool | SCXML_PAYLOAD_VALUE_SINT u64
  | SCXML_PAYLOAD_VALUE_UINT u64 | SCXML_PAYLOAD_VALUE_FLOAT u64 | SCXML_PAYLOAD_VALUE_STRING cbytes

text \<open>A content view; the schema and the object of a CMETA view are not read by the code below.\<close>

record content_view =
  cv_kind :: scxml_content_kind
  cv_scalar :: scxml_payload_value
  cv_bytes :: cbytes

record scxml_payload_entry =
  en_name :: cbytes
  en_value :: content_view

text \<open>The payload of a send: none, one content view, named values, or an unknown kind.\<close>

datatype scxml_payload_view =
    SCXML_PAYLOAD_NONE | SCXML_PAYLOAD_CONTENT content_view
  | SCXML_PAYLOAD_NAMED "scxml_payload_entry carray" | SCXML_PAYLOAD_OTHER nat

record scxml_send_request =
  sr_event :: cbytes
  sr_target :: cbytes
  sr_type :: cbytes
  sr_id :: cbytes
  sr_delay_ms :: u64
  sr_payload :: scxml_payload_view

section \<open>Scans over fixed tables\<close>

text \<open>The index of the first row that satisfies a condition (a loop with a break).\<close>

fun first_index :: "('a \<Rightarrow> bool) \<Rightarrow> 'a list \<Rightarrow> nat option" where
  "first_index P [] = None"
| "first_index P (x # xs) = (if P x then Some 0 else map_option Suc (first_index P xs))"

text \<open>
  The loop that keeps the best candidate seen so far and replaces it only by a
  strictly smaller one.
\<close>

fun scan_best :: "('a \<Rightarrow> bool) \<Rightarrow> ('a \<Rightarrow> 'a \<Rightarrow> bool) \<Rightarrow> nat \<Rightarrow> 'a list
    \<Rightarrow> (nat \<times> 'a) option \<Rightarrow> (nat \<times> 'a) option" where
  "scan_best P lt i [] best = best"
| "scan_best P lt i (x # xs) best =
     scan_best P lt (Suc i) xs
       (if P x \<and> (case best of None \<Rightarrow> True | Some (j, b) \<Rightarrow> lt x b)
        then Some (i, x) else best)"

definition earliest_row :: "('a \<Rightarrow> bool) \<Rightarrow> ('a \<Rightarrow> 'a \<Rightarrow> bool) \<Rightarrow> 'a list \<Rightarrow> nat option" where
  "earliest_row P lt xs = map_option fst (scan_best P lt 0 xs None)"

text \<open>How many rows satisfy a condition.\<close>

definition count_if :: "('a \<Rightarrow> bool) \<Rightarrow> 'a list \<Rightarrow> nat" where
  "count_if P xs = length (filter P xs)"

section \<open>Lemmas on the scans\<close>

lemma first_index_None_iff: "first_index P xs = None \<longleftrightarrow> (\<forall>x\<in>set xs. \<not> P x)"
  by (induction xs) auto

lemma first_index_SomeD:
  "first_index P xs = Some i \<Longrightarrow>
     i < length xs \<and> P (xs ! i) \<and> (\<forall>j<i. \<not> P (xs ! j))"
proof (induction xs arbitrary: i)
  case Nil
  then show ?case by simp
next
  case (Cons x xs)
  then show ?case
    by (force split: if_splits simp: nth_Cons less_Suc_eq_0_disj split: nat.splits)
qed

lemma first_index_ex: "i < length xs \<Longrightarrow> P (xs ! i) \<Longrightarrow> \<exists>j. first_index P xs = Some j"
  by (metis first_index_None_iff not_Some_eq nth_mem)

text \<open>
  A strict weak order on rows is what the selection loops need to return the least
  candidate, and the first among equals.
\<close>

locale row_order =
  fixes lt :: "'a \<Rightarrow> 'a \<Rightarrow> bool"
  assumes lt_asym: "lt x y \<Longrightarrow> \<not> lt y x"
    and lt_cotrans: "lt x z \<Longrightarrow> lt x y \<or> lt y z"
begin

lemma lt_irrefl: "\<not> lt x x"
  using lt_asym by blast

lemma le_less_trans: "\<not> lt y x \<Longrightarrow> lt y z \<Longrightarrow> lt x z"
  using lt_cotrans by blast

lemma scan_best_SomeD:
  "scan_best P lt i xs best = Some (j, b) \<Longrightarrow>
     (best = Some (j, b) \<or> (i \<le> j \<and> j < i + length xs \<and> b = xs ! (j - i) \<and> P b)) \<and>
     (\<forall>x\<in>set xs. P x \<longrightarrow> \<not> lt x b) \<and>
     (\<forall>k a. best = Some (k, a) \<longrightarrow> \<not> lt a b)"
proof (induction xs arbitrary: i best)
  case Nil
  then show ?case using lt_irrefl by auto
next
  case (Cons x xs)
  let ?best = "if P x \<and> (case best of None \<Rightarrow> True | Some (j, b) \<Rightarrow> lt x b)
     then Some (i, x) else best"
  have IH: "(?best = Some (j, b) \<or> (Suc i \<le> j \<and> j < Suc i + length xs \<and> b = xs ! (j - Suc i) \<and> P b)) \<and>
     (\<forall>x\<in>set xs. P x \<longrightarrow> \<not> lt x b) \<and> (\<forall>k a. ?best = Some (k, a) \<longrightarrow> \<not> lt a b)"
    using Cons.IH [of "Suc i" ?best] Cons.prems by simp
  have pos: "best = Some (j, b) \<or> (i \<le> j \<and> j < i + length (x # xs) \<and> b = (x # xs) ! (j - i) \<and> P b)"
  proof (cases "?best = Some (j, b)")
    case True
    then show ?thesis by (auto split: if_splits)
  next
    case False
    with IH have "Suc i \<le> j \<and> j < Suc i + length xs \<and> b = xs ! (j - Suc i) \<and> P b" by blast
    moreover from this have "j - i = Suc (j - Suc i)" by arith
    ultimately show ?thesis by auto
  qed
  have low: "(P x \<longrightarrow> \<not> lt x b) \<and> (\<forall>k a. best = Some (k, a) \<longrightarrow> \<not> lt a b)"
  proof (cases "P x \<and> (case best of None \<Rightarrow> True | Some (j, b) \<Rightarrow> lt x b)")
    case True
    with IH have "\<not> lt x b" by auto
    with True show ?thesis
      by (cases best) (auto dest: lt_asym lt_cotrans)
  next
    case False
    show ?thesis
    proof (cases best)
      case None
      with False show ?thesis by auto
    next
      case (Some p)
      obtain k a where p: "p = (k, a)" by (cases p)
      from False Some p have px: "P x \<longrightarrow> \<not> lt x a" by auto
      from IH False Some p have "\<not> lt a b" by auto
      with px Some p show ?thesis using lt_cotrans by auto
    qed
  qed
  from pos low IH show ?case by auto
qed

lemma scan_best_NoneD:
  "scan_best P lt i xs best = None \<Longrightarrow> best = None \<and> (\<forall>x\<in>set xs. \<not> P x)"
proof (induction xs arbitrary: i best)
  case Nil
  then show ?case by simp
next
  case (Cons x xs)
  let ?best = "if P x \<and> (case best of None \<Rightarrow> True | Some (j, b) \<Rightarrow> lt x b)
     then Some (i, x) else best"
  from Cons.prems have "scan_best P lt (Suc i) xs ?best = None" by (simp only: scan_best.simps)
  then have "?best = None \<and> (\<forall>x\<in>set xs. \<not> P x)" by (rule Cons.IH)
  then show ?case by (cases best) (auto split: if_splits)
qed

lemma earliest_row_SomeD:
  assumes "earliest_row P lt xs = Some i"
  shows "i < length xs \<and> P (xs ! i) \<and> (\<forall>x\<in>set xs. P x \<longrightarrow> \<not> lt x (xs ! i))"
proof -
  from assms obtain b where "scan_best P lt 0 xs None = Some (i, b)"
    by (auto simp: earliest_row_def)
  from scan_best_SomeD [OF this] show ?thesis by auto
qed

lemma earliest_row_NoneD: "earliest_row P lt xs = None \<Longrightarrow> x \<in> set xs \<Longrightarrow> \<not> P x"
  by (auto simp: earliest_row_def dest: scan_best_NoneD)

lemma scan_best_no_candidate: "\<forall>x\<in>set xs. \<not> P x \<Longrightarrow> scan_best P lt i xs best = best"
  by (induction xs arbitrary: i) auto

lemma earliest_row_None_iff: "earliest_row P lt xs = None \<longleftrightarrow> (\<forall>x\<in>set xs. \<not> P x)"
  using earliest_row_NoneD scan_best_no_candidate [of xs P 0 None]
  by (auto simp: earliest_row_def)

lemma earliest_row_exists:
  "i < length xs \<Longrightarrow> P (xs ! i) \<Longrightarrow> \<exists>j. earliest_row P lt xs = Some j"
  by (metis earliest_row_NoneD not_None_eq nth_mem)

end

section \<open>Counting\<close>

lemma count_if_Nil [simp]: "count_if P [] = 0"
  by (simp add: count_if_def)

lemma count_if_Cons [simp]: "count_if P (x # xs) = (if P x then 1 else 0) + count_if P xs"
  by (simp add: count_if_def)

lemma count_if_append [simp]: "count_if P (xs @ ys) = count_if P xs + count_if P ys"
  by (simp add: count_if_def)

lemma count_if_le: "count_if P xs \<le> length xs"
  by (simp add: count_if_def)

lemma count_if_replicate [simp]: "count_if P (replicate n x) = (if P x then n else 0)"
  by (induction n) auto

lemma count_if_zero_iff: "count_if P xs = 0 \<longleftrightarrow> (\<forall>x\<in>set xs. \<not> P x)"
  by (auto simp: count_if_def filter_empty_conv)

lemma count_if_pos: "i < length xs \<Longrightarrow> P (xs ! i) \<Longrightarrow> 0 < count_if P xs"
  by (metis count_if_zero_iff neq0_conv nth_mem)

lemma count_if_mono: "(\<And>x. x \<in> set xs \<Longrightarrow> P x \<Longrightarrow> Q x) \<Longrightarrow> count_if P xs \<le> count_if Q xs"
  by (induction xs) (auto simp: le_SucI)

lemma count_if_update:
  "i < length xs \<Longrightarrow>
     count_if P (xs[i := y]) + (if P (xs ! i) then 1 else 0) =
     count_if P xs + (if P y then 1 else 0)"
proof (induction xs arbitrary: i)
  case Nil
  then show ?case by simp
next
  case (Cons x xs)
  show ?case
  proof (cases i)
    case 0
    then show ?thesis by simp
  next
    case (Suc j)
    with Cons.prems Cons.IH [of j] show ?thesis by (simp split: if_splits)
  qed
qed

lemma count_if_update_same:
  "i < length xs \<Longrightarrow> P y = P (xs ! i) \<Longrightarrow> count_if P (xs[i := y]) = count_if P xs"
  using count_if_update [of i xs P y] by (auto split: if_splits)

lemma count_if_update_add:
  "i < length xs \<Longrightarrow> \<not> P (xs ! i) \<Longrightarrow> P y \<Longrightarrow> count_if P (xs[i := y]) = Suc (count_if P xs)"
  using count_if_update [of i xs P y] by simp

lemma count_if_update_del:
  "i < length xs \<Longrightarrow> P (xs ! i) \<Longrightarrow> \<not> P y \<Longrightarrow> count_if P (xs[i := y]) = count_if P xs - 1"
  using count_if_update [of i xs P y] by simp

lemma count_if_all: "count_if P xs = length xs \<longleftrightarrow> (\<forall>x\<in>set xs. P x)"
  by (metis count_if_def filter_id_conv length_filter_less less_irrefl)

lemma count_if_less_ex:
  assumes "count_if P xs < length xs" shows "\<exists>i<length xs. \<not> P (xs ! i)"
proof -
  from assms have "\<not> (\<forall>x\<in>set xs. P x)" using count_if_all by (metis less_irrefl)
  then show ?thesis by (metis in_set_conv_nth)
qed

section \<open>Results as tuples\<close>

lemma pair_split: "x = (fst x, snd x)"
  by simp

lemma triple_split: "x = (fst x, fst (snd x), snd (snd x))"
  by simp

section \<open>Updated tables\<close>

lemma nth_update_cases:
  "j < length xs \<Longrightarrow> (xs[i := y]) ! j = (if i = j then y else xs ! j)"
  by simp

lemma all_set_updateI:
  "(\<forall>x\<in>set xs. P x) \<Longrightarrow> P y \<Longrightarrow> \<forall>x\<in>set (xs[i := y]). P x"
  using set_update_subset_insert by fastforce

lemma set_update_memD: "x \<in> set (xs[i := y]) \<Longrightarrow> x = y \<or> x \<in> set xs"
  using set_update_subset_insert by fastforce

section \<open>Saturating and guarded word increments\<close>

lemma unat_Suc_guard: "(w :: 'a :: len word) \<noteq> - 1 \<Longrightarrow> unat (w + 1) = Suc (unat w)"
  by (metis add.commute add_eq_0_iff unatSuc)

lemma unat_UINT32_MAX: "unat UINT32_MAX = 4294967295"
  by (simp add: unsigned_minus_1_eq_mask mask_eq_exp_minus_1)

lemma less_Suc_guard: "(w :: 'a :: len word) \<noteq> - 1 \<Longrightarrow> w < w + 1"
  by (simp add: word_less_nat_alt unat_Suc_guard)

lemma le_less_Suc_guard: "(w :: 'a :: len word) \<noteq> - 1 \<Longrightarrow> v \<le> w \<Longrightarrow> v < w + 1"
  using less_Suc_guard by (meson le_less_trans)

lemma Suc_guard_nonzero: "(w :: 'a :: len word) \<noteq> - 1 \<Longrightarrow> w + 1 \<noteq> 0"
  using less_Suc_guard [of w] word_not_simps(1) by metis

section \<open>Unique keys in a table\<close>

definition unique_by :: "('a \<Rightarrow> bool) \<Rightarrow> ('a \<Rightarrow> 'k) \<Rightarrow> 'a list \<Rightarrow> bool" where
  "unique_by P key xs \<longleftrightarrow> (\<forall>i<length xs. \<forall>j<length xs.
     P (xs ! i) \<longrightarrow> P (xs ! j) \<longrightarrow> key (xs ! i) = key (xs ! j) \<longrightarrow> i = j)"

lemma unique_by_update:
  assumes "unique_by P key xs" "i < length xs"
    and "P y \<Longrightarrow> (\<forall>j<length xs. j \<noteq> i \<longrightarrow> P (xs ! j) \<longrightarrow> key (xs ! j) \<noteq> key y)"
  shows "unique_by P key (xs[i := y])"
  unfolding unique_by_def
proof (intro allI impI)
  fix a b
  assume "a < length (xs[i := y])" "b < length (xs[i := y])" "P (xs[i := y] ! a)"
    "P (xs[i := y] ! b)" "key (xs[i := y] ! a) = key (xs[i := y] ! b)"
  with assms show "a = b"
    by (cases "a = i"; cases "b = i") (auto simp: unique_by_def)
qed

lemma unique_by_update_fresh:
  fixes key :: "'a \<Rightarrow> 'k :: order"
  assumes "unique_by P key xs" "i < length xs" "\<And>x. P x \<Longrightarrow> x \<in> set xs \<Longrightarrow> key x < key y"
  shows "unique_by P key (xs[i := y])"
  using assms(1,2)
  by (rule unique_by_update) (metis assms(3) less_irrefl nth_mem)

lemma unique_by_update_same:
  assumes "unique_by P key xs" "i < length xs" "P y \<Longrightarrow> P (xs ! i) \<and> key y = key (xs ! i)"
  shows "unique_by P key (xs[i := y])"
  using assms(1,2)
proof (rule unique_by_update)
  assume "P y"
  with assms(3) have "P (xs ! i)" "key y = key (xs ! i)" by auto
  with assms(1,2) show "\<forall>j<length xs. j \<noteq> i \<longrightarrow> P (xs ! j) \<longrightarrow> key (xs ! j) \<noteq> key y"
    by (metis unique_by_def)
qed

lemma unique_byD:
  "unique_by P key xs \<Longrightarrow> i < length xs \<Longrightarrow> j < length xs \<Longrightarrow> P (xs ! i) \<Longrightarrow> P (xs ! j) \<Longrightarrow>
     key (xs ! i) = key (xs ! j) \<Longrightarrow> i = j"
  by (simp add: unique_by_def)

lemma unique_by_inj:
  "unique_by P key xs \<Longrightarrow> (\<And>x. Q x \<Longrightarrow> P x) \<Longrightarrow> inj_on key {x \<in> set xs. Q x}"
  unfolding inj_on_def unique_by_def by (auto simp: in_set_conv_nth)

lemma unique_by_count_one:
  "unique_by P (\<lambda>x. ()) xs \<Longrightarrow> count_if P xs \<le> 1"
proof (induction xs)
  case (Cons x xs)
  show ?case
  proof (cases "P x")
    case True
    have "\<not> P (xs ! j)" if "j < length xs" for j
      using Cons.prems True that unfolding unique_by_def by (metis Suc_less_eq length_Cons nat.distinct(1)
          nth_Cons_0 nth_Cons_Suc zero_less_Suc)
    then have "count_if P xs = 0" by (auto simp: count_if_zero_iff in_set_conv_nth)
    then show ?thesis using True by simp
  next
    case False
    have "unique_by P (\<lambda>x. ()) xs"
      using Cons.prems unfolding unique_by_def by (metis Suc_less_eq length_Cons nat.inject nth_Cons_Suc)
    with Cons.IH False show ?thesis by simp
  qed
qed simp

end
