(* ===== verification/Host_Router.thy ===== *)
theory Host_Router
  imports Prelude
begin

text \<open>
  Model of \<^verbatim>\<open>src/scxml_host_router.c\<close>: the bounded host delivery boundary. It owns
  endpoint identities (slot and generation), accepted but not yet transferred events
  (rows), invoke aliases and cancellation tickets.

  Conventions. A table is a list whose length is the capacity given at initialisation.
  A pointer to a row or a ticket is its index. A buffer with its size is a string. A
  Session pointer is a number, NULL is \<open>None\<close>. A call on a NULL handle or with a NULL
  result pointer is refused by the sources before anything is read, and is not a call
  of the model. Each definition up to the drain and timer loops is one section of the
  code that runs under the router mutex.
\<close>

section \<open>Data\<close>

type_synonym row_id = nat
type_synonym cancel_id = nat

record session_ref =
  ref_slot :: u32
  ref_generation :: u32

definition null_ref :: session_ref where
  "null_ref = \<lparr>ref_slot = 0, ref_generation = 0\<rparr>"

record host_endpoint =
  ep_session :: "session option"
  ep_generation :: u32
  ep_parent :: session_ref
  ep_location :: string
  ep_live :: bool
  ep_active :: bool
  ep_accessible :: bool

record host_invoke_route =
  rt_owner :: session_ref
  rt_target :: session_ref
  rt_id :: string
  rt_live :: bool

datatype host_row_state =
    ROW_FREE | ROW_RESERVED | ROW_DELAYED | ROW_FIRING | ROW_READY | ROW_INFLIGHT

record host_row =
  row_state :: host_row_state
  row_target :: session_ref
  row_source :: session_ref
  row_sequence :: u64
  row_identity :: u64
  row_delay_ms :: u64
  row_deadline_ns :: u64
  row_fire_won_cancel :: bool
  row_name :: string
  row_text :: string
  row_content_kind :: scxml_content_kind
  row_send_id :: string

record host_cancel_row =
  cx_target :: "row_id option"
  cx_source :: session_ref
  cx_target_identity :: u64
  cx_in_use :: bool

record host_router =
  r_endpoints :: "host_endpoint list"
  r_rows :: "host_row list"
  r_invoke_routes :: "host_invoke_route list"
  r_cancel_rows :: "host_cancel_row list"
  r_clock :: "nat option"
  r_timer_capacity :: nat
  r_timer_pending :: nat
  r_cancel_pending :: nat
  r_invoke_count :: nat
  r_max_text_bytes :: nat
  r_endpoint_count :: nat
  r_pending :: nat
  r_reserved :: nat
  r_high_water :: nat
  r_next_sequence :: u64
  r_next_row_identity :: u64
  r_timer_fired :: u64
  r_timer_cancelled :: u64
  r_cancel_prepared :: u64
  r_cancel_committed :: u64
  r_cancel_discarded :: u64
  r_cancel_fire_won :: u64
  r_timer_done_failed :: u64
  r_prepared :: u64
  r_committed :: u64
  r_discarded :: u64
  r_delivered :: u64
  r_cancelled :: u64
  r_rejected_full :: u64
  r_stale_refs :: u64
  r_delivery_errors :: u64
  r_invariant_failures :: u64
  r_closed :: bool
  r_draining :: bool
  r_timer_running :: bool

abbreviation endpoint_capacity :: "host_router \<Rightarrow> nat" where
  "endpoint_capacity r \<equiv> length (r_endpoints r)"
abbreviation event_capacity :: "host_router \<Rightarrow> nat" where
  "event_capacity r \<equiv> length (r_rows r)"
abbreviation invoke_capacity :: "host_router \<Rightarrow> nat" where
  "invoke_capacity r \<equiv> length (r_invoke_routes r)"
abbreviation cancel_capacity :: "host_router \<Rightarrow> nat" where
  "cancel_capacity r \<equiv> length (r_cancel_rows r)"

text \<open>The zeroed rows that \<^verbatim>\<open>calloc\<close> and the release code leave behind.\<close>

definition blank_endpoint :: host_endpoint where
  "blank_endpoint = \<lparr>ep_session = None, ep_generation = 0, ep_parent = null_ref,
     ep_location = [], ep_live = False, ep_active = False, ep_accessible = False\<rparr>"

definition blank_route :: host_invoke_route where
  "blank_route = \<lparr>rt_owner = null_ref, rt_target = null_ref, rt_id = [], rt_live = False\<rparr>"

definition blank_row :: host_row where
  "blank_row = \<lparr>row_state = ROW_FREE, row_target = null_ref, row_source = null_ref,
     row_sequence = 0, row_identity = 0, row_delay_ms = 0, row_deadline_ns = 0,
     row_fire_won_cancel = False, row_name = [], row_text = [],
     row_content_kind = SCXML_CONTENT_INVALID, row_send_id = []\<rparr>"

definition blank_cancel :: host_cancel_row where
  "blank_cancel = \<lparr>cx_target = None, cx_source = null_ref, cx_target_identity = 0,
     cx_in_use = False\<rparr>"

text \<open>
  The CFlow clock is code outside the repository: its validity check, its reading and
  the deadline arithmetic are parameters. One value of this record is the clock at one
  instant.
\<close>

record clock_ops =
  clock_valid :: "nat option \<Rightarrow> bool"
  clock_now :: "nat option \<Rightarrow> u64"
  deadline_after_ms :: "u64 \<Rightarrow> u64 \<Rightarrow> u64"

section \<open>References and fields\<close>

definition matches :: "host_router \<Rightarrow> session_ref \<Rightarrow> bool" where
  "matches r target \<longleftrightarrow>
     ref_generation target \<noteq> 0 \<and>
     unat (ref_slot target) < endpoint_capacity r \<and>
     ep_live (r_endpoints r ! unat (ref_slot target)) \<and>
     ep_generation (r_endpoints r ! unat (ref_slot target)) = ref_generation target"

definition refs_equal :: "session_ref \<Rightarrow> session_ref \<Rightarrow> bool" where
  "refs_equal a b \<longleftrightarrow> ref_generation a \<noteq> 0 \<and> ref_slot a = ref_slot b \<and>
     ref_generation a = ref_generation b"

definition valid_invoke_id :: "cbytes \<Rightarrow> bool" where
  "valid_invoke_id ident \<longleftrightarrow> \<not> is_cnull ident \<and> csize ident \<noteq> 0 \<and>
     csize ident \<le> SCXML_EVENT_METADATA_CAPACITY - 2 \<and>
     \<not> has_nul (cdata ident) \<and> CHR ''#'' \<notin> set (cdata ident)"

definition valid_fields :: "host_router \<Rightarrow> cbytes \<Rightarrow> cbytes \<Rightarrow> bool" where
  "valid_fields r name txt \<longleftrightarrow> \<not> is_cnull name \<and> csize name \<noteq> 0 \<and>
     csize name \<le> SCXML_EVENT_METADATA_CAPACITY \<and> \<not> has_nul (cdata name) \<and>
     csize txt \<le> r_max_text_bytes r \<and> (csize txt = 0 \<or> \<not> is_cnull txt)"

section \<open>Rows: reserve, commit, release\<close>

definition timed_state :: "host_row_state \<Rightarrow> bool" where
  "timed_state st \<longleftrightarrow> st = ROW_RESERVED \<or> st = ROW_DELAYED \<or> st = ROW_FIRING"

definition release_locked :: "row_id \<Rightarrow> host_router \<Rightarrow> host_router" where
  "release_locked i r =
     (let row = r_rows r ! i in
      if row_state row = ROW_FREE \<or> r_pending r = 0
      then r\<lparr>r_invariant_failures := r_invariant_failures r + 1\<rparr>
      else
        let r1 = (if row_state row = ROW_RESERVED
                  then if r_reserved r \<noteq> 0 then r\<lparr>r_reserved := r_reserved r - 1\<rparr>
                       else r\<lparr>r_invariant_failures := r_invariant_failures r + 1\<rparr>
                  else r);
            r2 = (if row_delay_ms row \<noteq> 0 \<and> timed_state (row_state row)
                  then if r_timer_pending r1 \<noteq> 0
                       then r1\<lparr>r_timer_pending := r_timer_pending r1 - 1\<rparr>
                       else r1\<lparr>r_invariant_failures := r_invariant_failures r1 + 1\<rparr>
                  else r1)
        in r2\<lparr>r_rows := (r_rows r2)[i := blank_row], r_pending := r_pending r2 - 1\<rparr>)"

definition reserve_locked ::
  "session_ref \<Rightarrow> string \<Rightarrow> cbytes \<Rightarrow> host_router \<Rightarrow> row_id option \<times> host_router" where
  "reserve_locked target name txt r =
     (if r_pending r = event_capacity r \<or> r_next_row_identity r = UINT64_MAX
      then (None, r\<lparr>r_rejected_full := r_rejected_full r + 1\<rparr>)
      else case first_index (\<lambda>row. row_state row = ROW_FREE) (r_rows r) of
        None \<Rightarrow> (None, r\<lparr>r_invariant_failures := r_invariant_failures r + 1\<rparr>)
      | Some i \<Rightarrow>
          (Some i,
           r\<lparr>r_rows := (r_rows r)[i := (r_rows r ! i)\<lparr>
                row_state := ROW_RESERVED,
                row_identity := r_next_row_identity r + 1,
                row_target := target,
                row_content_kind := (if is_cnull txt then SCXML_CONTENT_INVALID
                                     else SCXML_CONTENT_TEXT_UTF8),
                row_name := name,
                row_text := cdata txt\<rparr>],
             r_next_row_identity := r_next_row_identity r + 1,
             r_pending := r_pending r + 1,
             r_reserved := r_reserved r + 1,
             r_high_water := (if r_pending r + 1 > r_high_water r
                              then r_pending r + 1 else r_high_water r)\<rparr>))"

definition commit_locked :: "clock_ops \<Rightarrow> row_id \<Rightarrow> host_router \<Rightarrow> host_router" where
  "commit_locked clk i r =
     (let row = r_rows r ! i in
      if row_state row \<noteq> ROW_RESERVED
      then r\<lparr>r_invariant_failures := r_invariant_failures r + 1\<rparr>
      else if r_closed r \<or> \<not> matches r (row_target row) \<or> r_next_sequence r = UINT64_MAX
      then release_locked i (r\<lparr>r_cancelled := r_cancelled r + 1\<rparr>)
      else
        let row1 = row\<lparr>row_sequence := r_next_sequence r + 1\<rparr>;
            row2 = (if row_delay_ms row \<noteq> 0
                    then row1\<lparr>row_deadline_ns :=
                                deadline_after_ms clk (clock_now clk (r_clock r)) (row_delay_ms row),
                              row_state := ROW_DELAYED\<rparr>
                    else row1\<lparr>row_state := ROW_READY\<rparr>)
        in r\<lparr>r_reserved := r_reserved r - 1,
             r_next_sequence := r_next_sequence r + 1,
             r_rows := (r_rows r)[i := row2],
             r_committed := r_committed r + 1\<rparr>)"

definition ticket_commit :: "clock_ops \<Rightarrow> row_id \<Rightarrow> host_router \<Rightarrow> host_router" where
  "ticket_commit clk i r = commit_locked clk i r"

definition ticket_discard :: "row_id \<Rightarrow> host_router \<Rightarrow> host_router" where
  "ticket_discard i r =
     (if row_state (r_rows r ! i) \<noteq> ROW_RESERVED
      then r\<lparr>r_invariant_failures := r_invariant_failures r + 1\<rparr>
      else release_locked i (r\<lparr>r_discarded := r_discarded r + 1\<rparr>))"

section \<open>Initialisation\<close>

record host_router_config =
  cfg_endpoint_capacity :: nat
  cfg_event_capacity :: nat
  cfg_max_text_bytes :: nat
  cfg_invoke_capacity :: nat
  cfg_clock :: "nat option"
  cfg_timer_capacity :: nat
  cfg_cancel_capacity :: nat

text \<open>The platform's \<^verbatim>\<open>SIZE_MAX\<close> and the sizes of the row structures.\<close>

record router_abi =
  abi_size_max :: nat
  abi_sizeof_endpoint :: nat
  abi_sizeof_row :: nat
  abi_sizeof_route :: nat
  abi_sizeof_cancel :: nat

definition fresh_router :: "host_router_config \<Rightarrow> host_router" where
  "fresh_router cfg =
     \<lparr>r_endpoints = replicate (cfg_endpoint_capacity cfg) blank_endpoint,
      r_rows = replicate (cfg_event_capacity cfg) blank_row,
      r_invoke_routes = replicate (cfg_invoke_capacity cfg) blank_route,
      r_cancel_rows = replicate (cfg_cancel_capacity cfg) blank_cancel,
      r_clock = cfg_clock cfg,
      r_timer_capacity = cfg_timer_capacity cfg,
      r_timer_pending = 0, r_cancel_pending = 0, r_invoke_count = 0,
      r_max_text_bytes = cfg_max_text_bytes cfg,
      r_endpoint_count = 0, r_pending = 0, r_reserved = 0, r_high_water = 0,
      r_next_sequence = 0, r_next_row_identity = 0, r_timer_fired = 0,
      r_timer_cancelled = 0, r_cancel_prepared = 0, r_cancel_committed = 0,
      r_cancel_discarded = 0, r_cancel_fire_won = 0, r_timer_done_failed = 0,
      r_prepared = 0, r_committed = 0, r_discarded = 0, r_delivered = 0,
      r_cancelled = 0, r_rejected_full = 0, r_stale_refs = 0,
      r_delivery_errors = 0, r_invariant_failures = 0,
      r_closed = False, r_draining = False, r_timer_running = False\<rparr>"

text \<open>
  \<open>alloc_ok\<close> says whether the allocations and the mutex initialisation succeed; the
  first argument is what the handle holds (\<open>None\<close> for a NULL \<^verbatim>\<open>impl\<close>).
\<close>

definition scxml_host_router_init ::
  "router_abi \<Rightarrow> clock_ops \<Rightarrow> bool \<Rightarrow> host_router option \<Rightarrow> host_router_config
     \<Rightarrow> salts_status \<times> host_router option" where
  "scxml_host_router_init abi clk alloc_ok handle cfg =
     (if handle \<noteq> None \<or>
         cfg_endpoint_capacity cfg = 0 \<or>
         cfg_endpoint_capacity cfg > unat UINT32_MAX \<or>
         cfg_endpoint_capacity cfg > abi_size_max abi div abi_sizeof_endpoint abi \<or>
         cfg_event_capacity cfg = 0 \<or>
         cfg_event_capacity cfg > abi_size_max abi div abi_sizeof_row abi \<or>
         cfg_invoke_capacity cfg > abi_size_max abi div abi_sizeof_route abi \<or>
         cfg_cancel_capacity cfg > abi_size_max abi div abi_sizeof_cancel abi \<or>
         cfg_timer_capacity cfg > cfg_event_capacity cfg \<or>
         (cfg_timer_capacity cfg \<noteq> 0) \<noteq> (cfg_clock cfg \<noteq> None) \<or>
         (cfg_timer_capacity cfg \<noteq> 0 \<and>
           (cfg_cancel_capacity cfg = 0 \<or> \<not> clock_valid clk (cfg_clock cfg))) \<or>
         (cfg_timer_capacity cfg = 0 \<and> cfg_cancel_capacity cfg \<noteq> 0) \<or>
         cfg_max_text_bytes cfg = 0 \<or>
         cfg_max_text_bytes cfg > SCXML_EVENT_METADATA_CAPACITY
      then (SALTS_EINVAL, handle)
      else if \<not> alloc_ok then (SALTS_ENOMEM, handle)
      else (SALTS_OK, Some (fresh_router cfg)))"

section \<open>Endpoints\<close>

definition free_endpoint :: "host_endpoint \<Rightarrow> bool" where
  "free_endpoint p \<longleftrightarrow> \<not> ep_live p \<and> ep_generation p \<noteq> UINT32_MAX"

definition scxml_host_router_reserve ::
  "host_router \<Rightarrow> salts_status \<times> session_ref \<times> host_router" where
  "scxml_host_router_reserve r =
     (if r_closed r then (SALTS_ESHUTDOWN, null_ref, r)
      else case first_index free_endpoint (r_endpoints r) of
        None \<Rightarrow> (SALTS_ENOBUFS, null_ref, r)
      | Some i \<Rightarrow>
          let g = ep_generation (r_endpoints r ! i) + 1 in
          (SALTS_OK, \<lparr>ref_slot = of_nat i, ref_generation = g\<rparr>,
           r\<lparr>r_endpoints := (r_endpoints r)[i :=
                blank_endpoint\<lparr>ep_generation := g, ep_live := True, ep_active := False\<rparr>],
             r_endpoint_count := r_endpoint_count r + 1\<rparr>))"

text \<open>
  The Session's generated location, read before the lock is taken. The Session module
  is a parameter here: \<open>copy_location s\<close> is the location string, or \<open>None\<close> when
  \<^verbatim>\<open>scxml_session_copy_location\<close> does not return OK. Its \<^verbatim>\<open>required\<close> is the length
  with the final NUL.
\<close>

definition usable_location :: "(session \<Rightarrow> string option) \<Rightarrow> session \<Rightarrow> string option" where
  "usable_location copy_location s =
     (case copy_location s of
        None \<Rightarrow> None
      | Some loc \<Rightarrow> if length loc + 1 \<le> 1 \<or> length loc + 1 > SCXML_EVENT_METADATA_CAPACITY + 1
                    then None else Some loc)"

definition scxml_host_router_activate ::
  "(session \<Rightarrow> string option) \<Rightarrow> session_ref \<Rightarrow> session \<Rightarrow> host_router
     \<Rightarrow> salts_status \<times> host_router" where
  "scxml_host_router_activate copy_location ref s r =
     (case usable_location copy_location s of
        None \<Rightarrow> (SALTS_EINVAL, r)
      | Some loc \<Rightarrow>
          if r_closed r then (SALTS_ESHUTDOWN, r)
          else if \<not> matches r ref
          then (SALTS_ENOENT, r\<lparr>r_stale_refs := r_stale_refs r + 1\<rparr>)
          else
            let i = unat (ref_slot ref); p = r_endpoints r ! i in
            if ep_active p \<or> ep_session p \<noteq> None then (SALTS_EALREADY, r)
            else if \<exists>q\<in>set (r_endpoints r). ep_active q \<and>
                      (ep_session q = Some s \<or> ep_location q = loc)
            then (SALTS_EALREADY, r)
            else (SALTS_OK,
              r\<lparr>r_endpoints := (r_endpoints r)[i :=
                   p\<lparr>ep_session := Some s, ep_active := True, ep_location := loc\<rparr>]\<rparr>))"

definition scxml_host_router_attach ::
  "(session \<Rightarrow> string option) \<Rightarrow> session \<Rightarrow> host_router
     \<Rightarrow> salts_status \<times> session_ref \<times> host_router" where
  "scxml_host_router_attach copy_location s r =
     (case usable_location copy_location s of
        None \<Rightarrow> (SALTS_EINVAL, null_ref, r)
      | Some loc \<Rightarrow>
          if r_closed r then (SALTS_ESHUTDOWN, null_ref, r)
          else if \<exists>q\<in>set (r_endpoints r). ep_live q \<and>
                    (ep_session q = Some s \<or> ep_location q = loc)
          then (SALTS_EALREADY, null_ref, r)
          else case first_index free_endpoint (r_endpoints r) of
            None \<Rightarrow> (SALTS_ENOBUFS, null_ref, r)
          | Some i \<Rightarrow>
              let p = r_endpoints r ! i; g = ep_generation p + 1 in
              (SALTS_OK, \<lparr>ref_slot = of_nat i, ref_generation = g\<rparr>,
               r\<lparr>r_endpoints := (r_endpoints r)[i :=
                    p\<lparr>ep_live := True, ep_active := True, ep_session := Some s,
                      ep_parent := null_ref, ep_accessible := False,
                      ep_location := loc, ep_generation := g\<rparr>],
                 r_endpoint_count := r_endpoint_count r + 1\<rparr>))"

definition scxml_host_router_detach ::
  "session_ref \<Rightarrow> host_router \<Rightarrow> salts_status \<times> host_router" where
  "scxml_host_router_detach target r =
     (if \<not> matches r target
      then (SALTS_ENOENT, r\<lparr>r_stale_refs := r_stale_refs r + 1\<rparr>)
      else if \<exists>row\<in>set (r_rows r). row_state row \<noteq> ROW_FREE \<and>
                (refs_equal (row_target row) target \<or> refs_equal (row_source row) target)
      then (SALTS_EBUSY, r)
      else if \<exists>cx\<in>set (r_cancel_rows r). cx_in_use cx \<and> refs_equal (cx_source cx) target
      then (SALTS_EBUSY, r)
      else if \<exists>p\<in>set (r_endpoints r). ep_live p \<and> refs_equal (ep_parent p) target
      then (SALTS_EBUSY, r)
      else if \<exists>rt\<in>set (r_invoke_routes r). rt_live rt \<and>
                (refs_equal (rt_owner rt) target \<or> refs_equal (rt_target rt) target)
      then (SALTS_EBUSY, r)
      else
        let i = unat (ref_slot target) in
        (SALTS_OK,
         r\<lparr>r_endpoints := (r_endpoints r)[i :=
              (r_endpoints r ! i)\<lparr>ep_live := False, ep_active := False, ep_session := None,
                ep_parent := null_ref, ep_accessible := False, ep_location := []\<rparr>],
           r_endpoint_count := r_endpoint_count r - 1\<rparr>))"

text \<open>
  The loops of close, cancel and abort that drop rows: each matching row is released
  and counted, and a row that still waits for its deadline counts as a cancelled timer.
\<close>

definition cancel_row_if ::
  "(host_row \<Rightarrow> bool) \<Rightarrow> row_id \<Rightarrow> host_router \<times> nat \<Rightarrow> host_router \<times> nat" where
  "cancel_row_if P i st =
     (case st of (r, n) \<Rightarrow>
        let row = r_rows r ! i in
        if P row
        then let r1 = (if row_state row = ROW_DELAYED
                       then r\<lparr>r_timer_cancelled := r_timer_cancelled r + 1\<rparr> else r);
                 r2 = release_locked i r1
             in (r2\<lparr>r_cancelled := r_cancelled r2 + 1\<rparr>, n + 1)
        else (r, n))"

definition cancel_rows :: "(host_row \<Rightarrow> bool) \<Rightarrow> host_router \<Rightarrow> host_router \<times> nat" where
  "cancel_rows P r = fold (cancel_row_if P) [0..<event_capacity r] (r, 0)"

definition abort_locked :: "session_ref \<Rightarrow> host_router \<Rightarrow> salts_status \<times> host_router" where
  "abort_locked ref r =
     (if \<not> matches r ref
      then (SALTS_ENOENT, r\<lparr>r_stale_refs := r_stale_refs r + 1\<rparr>)
      else if ep_active (r_endpoints r ! unat (ref_slot ref)) then (SALTS_EBUSY, r)
      else if \<exists>row\<in>set (r_rows r).
                (refs_equal (row_source row) ref \<or> refs_equal (row_target row) ref) \<and>
                (row_state row = ROW_RESERVED \<or> row_state row = ROW_INFLIGHT \<or>
                 row_state row = ROW_FIRING)
      then (SALTS_EBUSY, r)
      else (SALTS_OK,
            fst (cancel_rows (\<lambda>row. (row_state row = ROW_READY \<or> row_state row = ROW_DELAYED) \<and>
                   (refs_equal (row_source row) ref \<or> refs_equal (row_target row) ref)) r)))"

definition scxml_host_router_abort ::
  "session_ref \<Rightarrow> host_router \<Rightarrow> salts_status \<times> host_router" where
  "scxml_host_router_abort ref r =
     (case abort_locked ref r of
        (st, r1) \<Rightarrow> if st \<noteq> SALTS_OK then (st, r1) else scxml_host_router_detach ref r1)"

section \<open>Relations between endpoints\<close>

text \<open>
  The walk from the new parent towards the root, at most \<open>endpoint_capacity\<close> steps.
\<close>

fun ancestor_walk :: "host_router \<Rightarrow> session_ref \<Rightarrow> nat \<Rightarrow> session_ref \<Rightarrow> salts_status" where
  "ancestor_walk r child 0 ancestor =
     (if ref_generation ancestor \<noteq> 0 then SALTS_EINVAL else SALTS_OK)"
| "ancestor_walk r child (Suc steps) ancestor =
     (if ref_generation ancestor = 0 then SALTS_OK
      else if refs_equal ancestor child then SALTS_EINVAL
      else if \<not> matches r ancestor then SALTS_ENOENT
      else ancestor_walk r child steps
             (ep_parent (r_endpoints r ! unat (ref_slot ancestor))))"

definition scxml_host_router_set_parent ::
  "session_ref \<Rightarrow> session_ref \<Rightarrow> host_router \<Rightarrow> salts_status \<times> host_router" where
  "scxml_host_router_set_parent child parent r =
     (let clear = (ref_slot parent = 0 \<and> ref_generation parent = 0) in
      if \<not> clear \<and> refs_equal child parent then (SALTS_EINVAL, r)
      else if r_closed r then (SALTS_ESHUTDOWN, r)
      else if \<not> matches r child \<or> (\<not> clear \<and> \<not> matches r parent)
      then (SALTS_ENOENT, r\<lparr>r_stale_refs := r_stale_refs r + 1\<rparr>)
      else
        let walk = (if clear then SALTS_OK
                    else ancestor_walk r child (endpoint_capacity r) parent) in
        if walk = SALTS_ENOENT
        then (SALTS_ENOENT, r\<lparr>r_stale_refs := r_stale_refs r + 1\<rparr>)
        else if walk \<noteq> SALTS_OK then (walk, r)
        else
          let i = unat (ref_slot child) in
          (SALTS_OK,
           r\<lparr>r_endpoints := (r_endpoints r)[i :=
                (r_endpoints r ! i)\<lparr>ep_parent := if clear then null_ref else parent\<rparr>]\<rparr>))"

definition scxml_host_router_set_external_access ::
  "session_ref \<Rightarrow> bool \<Rightarrow> host_router \<Rightarrow> salts_status \<times> host_router" where
  "scxml_host_router_set_external_access ref enabled r =
     (if r_closed r then (SALTS_ESHUTDOWN, r)
      else if \<not> matches r ref
      then (SALTS_ENOENT, r\<lparr>r_stale_refs := r_stale_refs r + 1\<rparr>)
      else
        let i = unat (ref_slot ref) in
        (SALTS_OK,
         r\<lparr>r_endpoints := (r_endpoints r)[i :=
              (r_endpoints r ! i)\<lparr>ep_accessible := enabled\<rparr>]\<rparr>))"

definition route_for :: "session_ref \<Rightarrow> string \<Rightarrow> host_invoke_route \<Rightarrow> bool" where
  "route_for owner ident rt \<longleftrightarrow> rt_live rt \<and> refs_equal (rt_owner rt) owner \<and> rt_id rt = ident"

definition scxml_host_router_bind_invoke ::
  "session_ref \<Rightarrow> cbytes \<Rightarrow> session_ref \<Rightarrow> host_router \<Rightarrow> salts_status \<times> host_router" where
  "scxml_host_router_bind_invoke source ident target r =
     (if \<not> valid_invoke_id ident \<or> refs_equal source target then (SALTS_EINVAL, r)
      else if r_closed r then (SALTS_ESHUTDOWN, r)
      else if \<not> matches r source \<or> \<not> matches r target
      then (SALTS_ENOENT, r\<lparr>r_stale_refs := r_stale_refs r + 1\<rparr>)
      else if \<exists>rt\<in>set (r_invoke_routes r). route_for source (cdata ident) rt
      then (SALTS_EALREADY, r)
      else case first_index (\<lambda>rt. \<not> rt_live rt) (r_invoke_routes r) of
        None \<Rightarrow> (SALTS_ENOBUFS, r)
      | Some i \<Rightarrow>
          (SALTS_OK,
           r\<lparr>r_invoke_routes := (r_invoke_routes r)[i :=
                \<lparr>rt_owner = source, rt_target = target, rt_id = cdata ident, rt_live = True\<rparr>],
             r_invoke_count := r_invoke_count r + 1\<rparr>))"

definition scxml_host_router_unbind_invoke ::
  "session_ref \<Rightarrow> cbytes \<Rightarrow> host_router \<Rightarrow> salts_status \<times> host_router" where
  "scxml_host_router_unbind_invoke source ident r =
     (if \<not> valid_invoke_id ident then (SALTS_EINVAL, r)
      else if \<not> matches r source
      then (SALTS_ENOENT, r\<lparr>r_stale_refs := r_stale_refs r + 1\<rparr>)
      else case first_index (route_for source (cdata ident)) (r_invoke_routes r) of
        None \<Rightarrow> (SALTS_ENOENT, r)
      | Some i \<Rightarrow>
          (SALTS_OK,
           r\<lparr>r_invoke_routes := (r_invoke_routes r)[i := blank_route],
             r_invoke_count := r_invoke_count r - 1\<rparr>))"

section \<open>Target resolution\<close>

definition resolve_relative :: "host_router \<Rightarrow> session_ref \<Rightarrow> string \<Rightarrow> session_ref" where
  "resolve_relative r source target =
     (if target = [] then source
      else if target = ''#_parent'' then ep_parent (r_endpoints r ! unat (ref_slot source))
      else if length target > 2 \<and> target ! 0 = CHR ''#'' \<and> target ! 1 = CHR ''_''
      then (case first_index (route_for source (drop 2 target)) (r_invoke_routes r) of
              None \<Rightarrow> null_ref
            | Some i \<Rightarrow> rt_target (r_invoke_routes r ! i))
      else null_ref)"

definition resolve_locked ::
  "host_router \<Rightarrow> session_ref \<Rightarrow> string \<Rightarrow> salts_status \<times> session_ref" where
  "resolve_locked r source target =
     (if \<not> matches r source then (SALTS_ENOENT, null_ref)
      else
        let rel = resolve_relative r source target;
            resolved =
              (if ref_generation rel = 0 \<and> target \<noteq> []
               then (case first_index (\<lambda>p. ep_live p \<and> ep_accessible p \<and> ep_location p = target)
                            (r_endpoints r) of
                       None \<Rightarrow> rel
                     | Some i \<Rightarrow> \<lparr>ref_slot = of_nat i,
                                  ref_generation = ep_generation (r_endpoints r ! i)\<rparr>)
               else rel)
        in if \<not> matches r resolved then (SALTS_ENOENT, null_ref) else (SALTS_OK, resolved))"

definition scxml_host_router_resolve ::
  "session_ref \<Rightarrow> cbytes \<Rightarrow> host_router \<Rightarrow> salts_status \<times> session_ref \<times> host_router" where
  "scxml_host_router_resolve source target r =
     (if csize target \<noteq> 0 \<and> is_cnull target then (SALTS_EINVAL, null_ref, r)
      else if r_closed r then (SALTS_ESHUTDOWN, null_ref, r)
      else case resolve_locked r source (cdata target) of
        (st, resolved) \<Rightarrow>
          (st, resolved,
           if st = SALTS_ENOENT \<and> \<not> matches r source
           then r\<lparr>r_stale_refs := r_stale_refs r + 1\<rparr> else r))"

section \<open>Send tickets\<close>

definition pending_delayed :: "session_ref \<Rightarrow> string \<Rightarrow> host_row \<Rightarrow> bool" where
  "pending_delayed source sid row \<longleftrightarrow>
     row_delay_ms row \<noteq> 0 \<and> timed_state (row_state row) \<and>
     refs_equal (row_source row) source \<and> row_send_id row = sid"

definition scxml_host_router_prepare_target ::
  "session_ref \<Rightarrow> cbytes \<Rightarrow> cbytes \<Rightarrow> cbytes \<Rightarrow> content_view option \<Rightarrow> u64 \<Rightarrow> host_router
     \<Rightarrow> salts_status \<times> row_id option \<times> host_router" where
  "scxml_host_router_prepare_target source target name send_id content delay_ms r =
     (if csize target \<noteq> 0 \<and> is_cnull target \<or>
         csize send_id > SCXML_EVENT_METADATA_CAPACITY \<or>
         csize send_id \<noteq> 0 \<and> (is_cnull send_id \<or> has_nul (cdata send_id)) \<or>
         delay_ms \<noteq> 0 \<and> (csize send_id = 0 \<or> r_clock r = None \<or> r_timer_capacity r = 0)
      then (SALTS_EINVAL, None, r)
      else
        let kind = (case content of None \<Rightarrow> SCXML_CONTENT_INVALID | Some c \<Rightarrow> cv_kind c);
            txt = (case content of None \<Rightarrow> CNull 0 | Some c \<Rightarrow> cv_bytes c) in
        if content \<noteq> None \<and> kind \<noteq> SCXML_CONTENT_TEXT_UTF8 \<and> kind \<noteq> SCXML_CONTENT_XML_UTF8
        then (SALTS_ENOTSUP, None, r)
        else if content \<noteq> None \<and> csize txt > r_max_text_bytes r
        then (SALTS_EMSGSIZE, None, r)
        else if \<not> valid_fields r name txt then (SALTS_EINVAL, None, r)
        else if r_closed r then (SALTS_ESHUTDOWN, None, r)
        else case resolve_locked r source (cdata target) of
          (st, resolved) \<Rightarrow>
            if st \<noteq> SALTS_OK
            then (st, None, if \<not> matches r source
                            then r\<lparr>r_stale_refs := r_stale_refs r + 1\<rparr> else r)
            else if delay_ms \<noteq> 0 \<and> r_timer_pending r \<ge> r_timer_capacity r
            then (SALTS_ENOBUFS, None, r\<lparr>r_rejected_full := r_rejected_full r + 1\<rparr>)
            else if delay_ms \<noteq> 0 \<and>
                 (\<exists>row\<in>set (r_rows r). pending_delayed source (cdata send_id) row)
            then (SALTS_EALREADY, None, r)
            else case reserve_locked resolved (cdata name) txt r of
              (None, r1) \<Rightarrow> (SALTS_ENOBUFS, None, r1)
            | (Some i, r1) \<Rightarrow>
                (SALTS_OK, Some i,
                 r1\<lparr>r_rows := (r_rows r1)[i := (r_rows r1 ! i)\<lparr>
                       row_source := source, row_delay_ms := delay_ms,
                       row_content_kind := kind, row_send_id := cdata send_id\<rparr>],
                    r_timer_pending := (if delay_ms \<noteq> 0 then r_timer_pending r1 + 1
                                        else r_timer_pending r1),
                    r_prepared := r_prepared r1 + 1\<rparr>))"

definition scxml_host_router_prepare ::
  "session_ref \<Rightarrow> cbytes \<Rightarrow> cbytes \<Rightarrow> host_router
     \<Rightarrow> salts_status \<times> row_id option \<times> host_router" where
  "scxml_host_router_prepare target name txt r =
     (if \<not> valid_fields r name txt then (SALTS_EINVAL, None, r)
      else if r_closed r then (SALTS_ESHUTDOWN, None, r)
      else if \<not> matches r target
      then (SALTS_ENOENT, None, r\<lparr>r_stale_refs := r_stale_refs r + 1\<rparr>)
      else case reserve_locked target (cdata name) txt r of
        (None, r1) \<Rightarrow> (SALTS_ENOBUFS, None, r1)
      | (Some i, r1) \<Rightarrow> (SALTS_OK, Some i, r1\<lparr>r_prepared := r_prepared r1 + 1\<rparr>))"

definition scxml_host_router_enqueue ::
  "clock_ops \<Rightarrow> session_ref \<Rightarrow> cbytes \<Rightarrow> cbytes \<Rightarrow> host_router
     \<Rightarrow> salts_status \<times> host_router" where
  "scxml_host_router_enqueue clk target name txt r =
     (if \<not> valid_fields r name txt then (SALTS_EINVAL, r)
      else if r_closed r then (SALTS_ESHUTDOWN, r)
      else if \<not> matches r target
      then (SALTS_ENOENT, r\<lparr>r_stale_refs := r_stale_refs r + 1\<rparr>)
      else if r_next_sequence r = UINT64_MAX then (SALTS_ERANGE, r)
      else case reserve_locked target (cdata name) txt r of
        (None, r1) \<Rightarrow> (SALTS_ENOBUFS, r1)
      | (Some i, r1) \<Rightarrow>
          (SALTS_OK, commit_locked clk i (r1\<lparr>r_prepared := r_prepared r1 + 1\<rparr>)))"

section \<open>Cancellation tickets\<close>

definition cancel_release_locked :: "cancel_id \<Rightarrow> host_router \<Rightarrow> host_router" where
  "cancel_release_locked k r =
     (if \<not> cx_in_use (r_cancel_rows r ! k) \<or> r_cancel_pending r = 0
      then r\<lparr>r_invariant_failures := r_invariant_failures r + 1\<rparr>
      else r\<lparr>r_cancel_rows := (r_cancel_rows r)[k := blank_cancel],
             r_cancel_pending := r_cancel_pending r - 1\<rparr>)"

text \<open>The effect of a cancellation on the row it targets, before its ticket is released.\<close>

definition cancel_apply :: "host_cancel_row \<Rightarrow> host_router \<Rightarrow> host_router" where
  "cancel_apply cx r =
     (case cx_target cx of
        None \<Rightarrow> r\<lparr>r_cancel_fire_won := r_cancel_fire_won r + 1\<rparr>
      | Some i \<Rightarrow>
          let row = r_rows r ! i in
          if row_identity row = cx_target_identity cx \<and>
             refs_equal (row_source row) (cx_source cx) \<and>
             (row_state row = ROW_RESERVED \<or> row_state row = ROW_DELAYED)
          then release_locked i (r\<lparr>r_timer_cancelled := r_timer_cancelled r + 1,
                                   r_cancelled := r_cancelled r + 1\<rparr>)
          else
            let r1 = (if row_identity row = cx_target_identity cx \<and> row_state row = ROW_FIRING
                      then r\<lparr>r_rows := (r_rows r)[i := row\<lparr>row_fire_won_cancel := True\<rparr>]\<rparr>
                      else r)
            in r1\<lparr>r_cancel_fire_won := r_cancel_fire_won r1 + 1\<rparr>)"

definition cancel_commit :: "cancel_id \<Rightarrow> host_router \<Rightarrow> host_router" where
  "cancel_commit k r =
     (if \<not> cx_in_use (r_cancel_rows r ! k)
      then r\<lparr>r_invariant_failures := r_invariant_failures r + 1\<rparr>
      else
        let r1 = cancel_apply (r_cancel_rows r ! k) r
        in cancel_release_locked k (r1\<lparr>r_cancel_committed := r_cancel_committed r1 + 1\<rparr>))"

definition cancel_discard :: "cancel_id \<Rightarrow> host_router \<Rightarrow> host_router" where
  "cancel_discard k r =
     (if \<not> cx_in_use (r_cancel_rows r ! k)
      then r\<lparr>r_invariant_failures := r_invariant_failures r + 1\<rparr>
      else cancel_release_locked k (r\<lparr>r_cancel_discarded := r_cancel_discarded r + 1\<rparr>))"

definition cancel_candidate :: "session_ref \<Rightarrow> string \<Rightarrow> host_row \<Rightarrow> bool" where
  "cancel_candidate source sid row \<longleftrightarrow>
     row_delay_ms row \<noteq> 0 \<and> row_state row \<noteq> ROW_FREE \<and>
     refs_equal (row_source row) source \<and> row_send_id row = sid"

definition scxml_host_router_prepare_cancel ::
  "session_ref \<Rightarrow> cbytes \<Rightarrow> host_router \<Rightarrow> salts_status \<times> cancel_id option \<times> host_router" where
  "scxml_host_router_prepare_cancel source send_id r =
     (if is_cnull send_id \<or> csize send_id = 0 \<or>
         csize send_id > SCXML_EVENT_METADATA_CAPACITY \<or> has_nul (cdata send_id) \<or>
         cancel_capacity r = 0
      then (SALTS_EINVAL, None, r)
      else if r_closed r then (SALTS_ESHUTDOWN, None, r)
      else if \<not> matches r source
      then (SALTS_ENOENT, None, r\<lparr>r_stale_refs := r_stale_refs r + 1\<rparr>)
      else case first_index (cancel_candidate source (cdata send_id)) (r_rows r) of
        None \<Rightarrow> (SALTS_ENOENT, None, r)
      | Some i \<Rightarrow>
          if r_cancel_pending r \<ge> cancel_capacity r
          then (SALTS_ENOBUFS, None, r\<lparr>r_rejected_full := r_rejected_full r + 1\<rparr>)
          else case first_index (\<lambda>cx. \<not> cx_in_use cx) (r_cancel_rows r) of
            None \<Rightarrow> (SALTS_EPROTO, None,
                     r\<lparr>r_invariant_failures := r_invariant_failures r + 1\<rparr>)
          | Some k \<Rightarrow>
              (SALTS_OK, Some k,
               r\<lparr>r_cancel_rows := (r_cancel_rows r)[k :=
                    \<lparr>cx_target = Some i, cx_source = source,
                     cx_target_identity = row_identity (r_rows r ! i), cx_in_use = True\<rparr>],
                 r_cancel_pending := r_cancel_pending r + 1,
                 r_cancel_prepared := r_cancel_prepared r + 1\<rparr>))"

definition scxml_host_router_supports_delayed :: "clock_ops \<Rightarrow> host_router \<Rightarrow> bool" where
  "scxml_host_router_supports_delayed clk r \<longleftrightarrow>
     \<not> r_closed r \<and> r_clock r \<noteq> None \<and> clock_valid clk (r_clock r) \<and>
     r_timer_capacity r \<noteq> 0 \<and> cancel_capacity r \<noteq> 0"

section \<open>Timers\<close>

definition due_row :: "clock_ops \<Rightarrow> host_router \<Rightarrow> host_row \<Rightarrow> bool" where
  "due_row clk r row \<longleftrightarrow>
     row_state row = ROW_DELAYED \<and> row_deadline_ns row \<le> clock_now clk (r_clock r) \<and>
     matches r (row_source row) \<and>
     ep_active (r_endpoints r ! unat (ref_slot (row_source row)))"

definition due_before :: "host_row \<Rightarrow> host_row \<Rightarrow> bool" where
  "due_before a b \<longleftrightarrow> row_deadline_ns a < row_deadline_ns b \<or>
     (row_deadline_ns a = row_deadline_ns b \<and> row_sequence a < row_sequence b)"

datatype due_claim =
    Due_Closed
  | Due_None
  | Due_Claimed row_id "session option" string host_router

definition run_due_claim :: "clock_ops \<Rightarrow> host_router \<Rightarrow> due_claim" where
  "run_due_claim clk r =
     (if r_closed r then Due_Closed
      else case earliest_row (due_row clk r) due_before (r_rows r) of
        None \<Rightarrow> Due_None
      | Some i \<Rightarrow>
          let row = r_rows r ! i in
          Due_Claimed i (ep_session (r_endpoints r ! unat (ref_slot (row_source row))))
            (row_send_id row)
            (r\<lparr>r_rows := (r_rows r)[i := row\<lparr>row_state := ROW_FIRING\<rparr>]\<rparr>))"

definition cancel_raced :: "row_id \<Rightarrow> host_router \<Rightarrow> bool" where
  "cancel_raced i r \<longleftrightarrow> row_fire_won_cancel (r_rows r ! i) \<or>
     (\<exists>cx\<in>set (r_cancel_rows r). cx_in_use cx \<and> cx_target cx = Some i \<and>
        cx_target_identity cx = row_identity (r_rows r ! i))"

text \<open>The flag of the result says whether one more timer counts as fired.\<close>

definition run_due_settle ::
  "row_id \<Rightarrow> bool \<Rightarrow> host_router \<Rightarrow> salts_status \<times> bool \<times> host_router" where
  "run_due_settle i settled r =
     (let row = r_rows r ! i; lost = (\<not> settled \<and> \<not> cancel_raced i r) in
      if row_state row \<noteq> ROW_FIRING
      then (SALTS_EPROTO, False, r\<lparr>r_invariant_failures := r_invariant_failures r + 1\<rparr>)
      else if lost \<or> r_closed r
      then let r1 = (if lost then r\<lparr>r_timer_done_failed := r_timer_done_failed r + 1\<rparr> else r) in
           (if lost then SALTS_EPROTO else SALTS_OK, False,
            release_locked i (r1\<lparr>r_timer_cancelled := r_timer_cancelled r1 + 1,
                                 r_cancelled := r_cancelled r1 + 1\<rparr>))
      else if r_timer_pending r = 0
      then (SALTS_EPROTO, False,
            release_locked i (r\<lparr>r_invariant_failures := r_invariant_failures r + 1\<rparr>))
      else (SALTS_OK, True,
            r\<lparr>r_timer_pending := r_timer_pending r - 1,
              r_rows := (r_rows r)[i := row\<lparr>row_state := ROW_READY\<rparr>],
              r_timer_fired := r_timer_fired r + 1\<rparr>))"

lemma release_locked_closed [simp]: "r_closed (release_locked i r) = r_closed r"
  by (simp add: release_locked_def Let_def)

lemma run_due_settle_not_fired_closed:
  "run_due_settle i settled r = (SALTS_OK, False, r') \<Longrightarrow> r_closed r'"
  by (auto simp: run_due_settle_def Let_def split: if_splits)

lemma run_due_claim_not_closed:
  "run_due_claim clk r = Due_Claimed i s sid r1 \<Longrightarrow> \<not> r_closed r"
  by (auto simp: run_due_claim_def split: if_splits)

text \<open>
  The timer loop. \<open>report_done\<close> is the Session call made with the mutex released: it may
  change the router (another thread runs then) and its own world \<open>'w\<close>. The loop stops
  after \<open>max_fires\<close> fired timers; a pass that fires nothing without an error has seen the
  router closed, and the next pass stops there.
\<close>

function run_due_loop ::
  "clock_ops \<Rightarrow> (session option \<Rightarrow> string \<Rightarrow> host_router \<times> 'w \<Rightarrow> bool \<times> host_router \<times> 'w)
     \<Rightarrow> nat \<Rightarrow> nat \<Rightarrow> host_router \<Rightarrow> 'w \<Rightarrow> salts_status \<times> nat \<times> host_router \<times> 'w" where
  "run_due_loop clk report_done max_fires count r w =
     (if count < max_fires then
        (case run_due_claim clk r of
           Due_Closed \<Rightarrow> (SALTS_ESHUTDOWN, count, r, w)
         | Due_None \<Rightarrow> (SALTS_OK, count, r, w)
         | Due_Claimed i s sid r1 \<Rightarrow>
             (case report_done s sid (r1, w) of (settled, r2, w2) \<Rightarrow>
               (case run_due_settle i settled r2 of (st, fired, r3) \<Rightarrow>
                  if st \<noteq> SALTS_OK then (st, count, r3, w2)
                  else run_due_loop clk report_done max_fires
                         (if fired then count + 1 else count) r3 w2)))
      else (SALTS_OK, count, r, w))"
  by pat_completeness auto
termination
  by (relation "measure (\<lambda>(clk, report_done, m, count, r, w).
       2 * (m - count) + (if r_closed r then 0 else 1))")
     (auto simp: run_due_claim_not_closed dest: run_due_settle_not_fired_closed [OF sym])

declare run_due_loop.simps [simp del]

definition run_due_begin :: "host_router \<Rightarrow> salts_status \<times> host_router" where
  "run_due_begin r =
     (if r_closed r then (SALTS_ESHUTDOWN, r)
      else if r_timer_running r then (SALTS_EBUSY, r)
      else (SALTS_OK, r\<lparr>r_timer_running := True\<rparr>))"

definition scxml_host_router_run_due ::
  "clock_ops \<Rightarrow> (session option \<Rightarrow> string \<Rightarrow> host_router \<times> 'w \<Rightarrow> bool \<times> host_router \<times> 'w)
     \<Rightarrow> nat \<Rightarrow> host_router \<Rightarrow> 'w \<Rightarrow> salts_status \<times> nat \<times> host_router \<times> 'w" where
  "scxml_host_router_run_due clk report_done max_fires r w =
     (if max_fires = 0 \<or> r_clock r = None then (SALTS_EINVAL, 0, r, w)
      else case run_due_begin r of (st, r1) \<Rightarrow>
        if st \<noteq> SALTS_OK then (st, 0, r1, w)
        else case run_due_loop clk report_done max_fires 0 r1 w of (st', n, r2, w2) \<Rightarrow>
          (st', n, r2\<lparr>r_timer_running := False\<rparr>, w2))"

section \<open>Delivery\<close>

definition row_metadata :: "host_router \<Rightarrow> host_row \<Rightarrow> event_metadata" where
  "row_metadata r row =
     (let origin = (if ref_generation (row_source row) \<noteq> 0
                    then Some (ep_location (r_endpoints r ! unat (ref_slot (row_source row))))
                    else None) in
      \<lparr>md_send_id = row_send_id row,
       md_origin = origin,
       md_origin_type = (if origin \<noteq> None then Some ''scxml'' else None),
       md_kind = row_content_kind row,
       md_bytes = (if row_content_kind row \<noteq> SCXML_CONTENT_INVALID
                   then CBytes (row_text row) else CNull (length (row_text row)))\<rparr>)"

definition ready_row :: "host_row \<Rightarrow> bool" where
  "ready_row row \<longleftrightarrow> row_state row = ROW_READY"

definition sequence_before :: "host_row \<Rightarrow> host_row \<Rightarrow> bool" where
  "sequence_before a b \<longleftrightarrow> row_sequence a < row_sequence b"

datatype drain_claim =
    Drain_Idle
  | Drain_Break cflow_mailbox_status host_router
  | Drain_Claimed row_id "session option" string event_metadata host_router

definition drain_claim :: "host_router \<Rightarrow> drain_claim" where
  "drain_claim r =
     (if r_closed r then Drain_Break CFLOW_MAILBOX_CLOSED r
      else case earliest_row ready_row sequence_before (r_rows r) of
        None \<Rightarrow> Drain_Idle
      | Some i \<Rightarrow>
          let row = r_rows r ! i;
              stale = r\<lparr>r_stale_refs := r_stale_refs r + 1,
                        r_delivery_errors := r_delivery_errors r + 1\<rparr> in
          if \<not> matches r (row_target row)
          then Drain_Break CFLOW_MAILBOX_INVALID_ARGUMENT stale
          else if \<not> ep_active (r_endpoints r ! unat (ref_slot (row_target row)))
          then Drain_Break CFLOW_MAILBOX_FULL r
          else if ref_generation (row_source row) \<noteq> 0 \<and> \<not> matches r (row_source row)
          then Drain_Break CFLOW_MAILBOX_INVALID_ARGUMENT stale
          else if ref_generation (row_source row) \<noteq> 0 \<and>
                  \<not> ep_active (r_endpoints r ! unat (ref_slot (row_source row)))
          then Drain_Break CFLOW_MAILBOX_FULL r
          else Drain_Claimed i (ep_session (r_endpoints r ! unat (ref_slot (row_target row))))
                 (row_name row) (row_metadata r row)
                 (r\<lparr>r_rows := (r_rows r)[i := row\<lparr>row_state := ROW_INFLIGHT\<rparr>]\<rparr>))"

text \<open>The flag of the result says whether the event counts as delivered and the loop goes on.\<close>

definition drain_settle ::
  "row_id \<Rightarrow> cflow_mailbox_status \<Rightarrow> host_router \<Rightarrow> cflow_mailbox_status \<times> bool \<times> host_router" where
  "drain_settle i status r =
     (let row = r_rows r ! i in
      if row_state row \<noteq> ROW_INFLIGHT
      then (CFLOW_MAILBOX_INVALID_ARGUMENT, False,
            r\<lparr>r_invariant_failures := r_invariant_failures r + 1\<rparr>)
      else if status = CFLOW_MAILBOX_OK
      then let r1 = release_locked i r in
           (CFLOW_MAILBOX_OK, True, r1\<lparr>r_delivered := r_delivered r1 + 1\<rparr>)
      else if r_closed r
      then (CFLOW_MAILBOX_CLOSED, False,
            release_locked i (r\<lparr>r_cancelled := r_cancelled r + 1\<rparr>))
      else
        let r1 = r\<lparr>r_rows := (r_rows r)[i := row\<lparr>row_state := ROW_READY\<rparr>]\<rparr> in
        (status, False,
         if status \<noteq> CFLOW_MAILBOX_FULL
         then r1\<lparr>r_delivery_errors := r_delivery_errors r1 + 1\<rparr> else r1))"

text \<open>
  The delivery loop: at most \<open>n\<close> more events. \<open>try_send\<close> is the Session admission
  \<^verbatim>\<open>scxml_session_try_send_named_with_metadata\<close>, called with the mutex released, so it
  may see other threads change the router.
\<close>

fun drain_loop ::
  "(session option \<Rightarrow> string \<Rightarrow> event_metadata \<Rightarrow> host_router \<times> 'w
       \<Rightarrow> cflow_mailbox_status \<times> host_router \<times> 'w)
     \<Rightarrow> nat \<Rightarrow> cflow_mailbox_status \<Rightarrow> nat \<Rightarrow> host_router \<Rightarrow> 'w
     \<Rightarrow> cflow_mailbox_status \<times> nat \<times> host_router \<times> 'w" where
  "drain_loop try_send 0 result count r w = (result, count, r, w)"
| "drain_loop try_send (Suc n) result count r w =
     (case drain_claim r of
        Drain_Idle \<Rightarrow> (result, count, r, w)
      | Drain_Break st r1 \<Rightarrow> (st, count, r1, w)
      | Drain_Claimed i s name md r1 \<Rightarrow>
          (case try_send s name md (r1, w) of (status, r2, w2) \<Rightarrow>
            (case drain_settle i status r2 of (st, delivered, r3) \<Rightarrow>
               if delivered then drain_loop try_send n st (count + 1) r3 w2
               else (st, count, r3, w2))))"

definition drain_begin :: "host_router \<Rightarrow> cflow_mailbox_status \<times> host_router" where
  "drain_begin r =
     (if r_draining r then (CFLOW_MAILBOX_INVALID_ARGUMENT, r)
      else if r_closed r then (CFLOW_MAILBOX_CLOSED, r)
      else (CFLOW_MAILBOX_OK, r\<lparr>r_draining := True\<rparr>))"

definition scxml_host_router_drain ::
  "(session option \<Rightarrow> string \<Rightarrow> event_metadata \<Rightarrow> host_router \<times> 'w
       \<Rightarrow> cflow_mailbox_status \<times> host_router \<times> 'w)
     \<Rightarrow> nat \<Rightarrow> host_router \<Rightarrow> 'w \<Rightarrow> cflow_mailbox_status \<times> nat \<times> host_router \<times> 'w" where
  "scxml_host_router_drain try_send max_events r w =
     (if max_events = 0 then (CFLOW_MAILBOX_INVALID_ARGUMENT, 0, r, w)
      else case drain_begin r of (st, r1) \<Rightarrow>
        if st \<noteq> CFLOW_MAILBOX_OK then (st, 0, r1, w)
        else case drain_loop try_send max_events CFLOW_MAILBOX_EMPTY 0 r1 w of (st', n, r2, w2) \<Rightarrow>
          (st', n, r2\<lparr>r_draining := False\<rparr>, w2))"

section \<open>Cancellation, closing, destruction\<close>

definition scxml_host_router_cancel ::
  "session_ref \<Rightarrow> host_router \<Rightarrow> salts_status \<times> nat \<times> host_router" where
  "scxml_host_router_cancel target r =
     (if \<not> matches r target
      then (SALTS_ENOENT, 0, r\<lparr>r_stale_refs := r_stale_refs r + 1\<rparr>)
      else case cancel_rows (\<lambda>row. row_state row = ROW_READY \<and>
               ref_slot (row_target row) = ref_slot target \<and>
               ref_generation (row_target row) = ref_generation target) r of
        (r1, n) \<Rightarrow> (SALTS_OK, n, r1))"

definition scxml_host_router_cancel_source ::
  "session_ref \<Rightarrow> host_router \<Rightarrow> salts_status \<times> nat \<times> host_router" where
  "scxml_host_router_cancel_source source r =
     (if \<not> matches r source
      then (SALTS_ENOENT, 0, r\<lparr>r_stale_refs := r_stale_refs r + 1\<rparr>)
      else case cancel_rows (\<lambda>row. (row_state row = ROW_READY \<or> row_state row = ROW_DELAYED) \<and>
               refs_equal (row_source row) source) r of
        (r1, n) \<Rightarrow> (SALTS_OK, n, r1))"

definition scxml_host_router_source_is_quiescent :: "host_router \<Rightarrow> session_ref \<Rightarrow> bool" where
  "scxml_host_router_source_is_quiescent r source \<longleftrightarrow>
     matches r source \<and>
     \<not> (\<exists>row\<in>set (r_rows r). row_state row \<noteq> ROW_FREE \<and> refs_equal (row_source row) source) \<and>
     \<not> (\<exists>cx\<in>set (r_cancel_rows r). cx_in_use cx \<and> refs_equal (cx_source cx) source)"

definition scxml_host_router_close :: "host_router \<Rightarrow> salts_status \<times> host_router" where
  "scxml_host_router_close r =
     (if r_closed r then (SALTS_EALREADY, r)
      else (SALTS_OK,
            fst (cancel_rows (\<lambda>row. row_state row = ROW_READY \<or> row_state row = ROW_DELAYED)
                   (r\<lparr>r_closed := True\<rparr>))))"

definition scxml_host_router_is_quiescent :: "host_router \<Rightarrow> bool" where
  "scxml_host_router_is_quiescent r \<longleftrightarrow>
     r_closed r \<and> \<not> r_draining r \<and> \<not> r_timer_running r \<and>
     r_pending r = 0 \<and> r_timer_pending r = 0 \<and> r_cancel_pending r = 0 \<and>
     r_endpoint_count r = 0 \<and> r_invoke_count r = 0"

definition scxml_host_router_destroy ::
  "host_router option \<Rightarrow> salts_status \<times> host_router option" where
  "scxml_host_router_destroy handle =
     (case handle of
        None \<Rightarrow> (SALTS_OK, None)
      | Some r \<Rightarrow> if \<not> scxml_host_router_is_quiescent r then (SALTS_EBUSY, handle)
                  else (SALTS_OK, None))"

end
