(* ===== verification/Host_Router_Inv.thy ===== *)
theory Host_Router_Inv
  imports Host_Router
begin

text \<open>
  The invariant of the host router and its preservation by every section that runs under
  the router mutex. The invariant says that the counters agree with the tables, that every
  reference held by a row, an endpoint, an alias or a cancellation ticket names a live
  endpoint of the same generation, that sequence numbers, row identities and pending
  send ids are unique, and that every prepared event is accounted for.
\<close>

section \<open>The invariant\<close>

definition nonfree :: "host_row \<Rightarrow> bool" where
  "nonfree row \<longleftrightarrow> row_state row \<noteq> ROW_FREE"

definition reserved_row :: "host_row \<Rightarrow> bool" where
  "reserved_row row \<longleftrightarrow> row_state row = ROW_RESERVED"

definition timed :: "host_row \<Rightarrow> bool" where
  "timed row \<longleftrightarrow> row_delay_ms row \<noteq> 0 \<and> timed_state (row_state row)"

definition published :: "host_row \<Rightarrow> bool" where
  "published row \<longleftrightarrow> row_state row \<noteq> ROW_FREE \<and> row_state row \<noteq> ROW_RESERVED"

definition awaiting :: "host_row \<Rightarrow> bool" where
  "awaiting row \<longleftrightarrow> row_state row = ROW_DELAYED \<or> row_state row = ROW_FIRING"

definition live_ref :: "host_endpoint list \<Rightarrow> session_ref \<Rightarrow> bool" where
  "live_ref eps ref \<longleftrightarrow> ref_generation ref \<noteq> 0 \<and> unat (ref_slot ref) < length eps \<and>
     ep_live (eps ! unat (ref_slot ref)) \<and>
     ep_generation (eps ! unat (ref_slot ref)) = ref_generation ref"

definition pinned :: "host_endpoint list \<Rightarrow> session_ref \<Rightarrow> bool" where
  "pinned eps ref \<longleftrightarrow> ref_generation ref \<noteq> 0 \<longrightarrow> live_ref eps ref"

definition counters_ok :: "host_router \<Rightarrow> bool" where
  "counters_ok r \<longleftrightarrow>
     r_pending r = count_if nonfree (r_rows r) \<and>
     r_reserved r = count_if reserved_row (r_rows r) \<and>
     r_timer_pending r = count_if timed (r_rows r) \<and>
     r_timer_pending r \<le> r_timer_capacity r \<and>
     r_pending r \<le> r_high_water r \<and> r_high_water r \<le> event_capacity r \<and>
     r_cancel_pending r = count_if cx_in_use (r_cancel_rows r) \<and>
     r_endpoint_count r = count_if ep_live (r_endpoints r) \<and>
     r_invoke_count r = count_if rt_live (r_invoke_routes r)"

definition rows_clean :: "host_row list \<Rightarrow> bool" where
  "rows_clean rows \<longleftrightarrow> (\<forall>row\<in>set rows. (\<not> nonfree row \<longrightarrow> row = blank_row) \<and>
     (awaiting row \<longrightarrow> row_delay_ms row \<noteq> 0))"

definition rows_pinned :: "host_endpoint list \<Rightarrow> host_row list \<Rightarrow> bool" where
  "rows_pinned eps rows \<longleftrightarrow> (\<forall>row\<in>set rows. nonfree row \<longrightarrow>
     live_ref eps (row_target row) \<and> pinned eps (row_source row) \<and>
     (row_delay_ms row \<noteq> 0 \<longrightarrow> live_ref eps (row_source row)))"

definition parents_pinned :: "host_endpoint list \<Rightarrow> host_endpoint list \<Rightarrow> bool" where
  "parents_pinned eps ps \<longleftrightarrow> (\<forall>p\<in>set ps. ep_live p \<longrightarrow> pinned eps (ep_parent p))"

definition routes_pinned :: "host_endpoint list \<Rightarrow> host_invoke_route list \<Rightarrow> bool" where
  "routes_pinned eps rts \<longleftrightarrow> (\<forall>rt\<in>set rts. rt_live rt \<longrightarrow>
     live_ref eps (rt_owner rt) \<and> live_ref eps (rt_target rt))"

definition cancels_pinned :: "host_endpoint list \<Rightarrow> host_cancel_row list \<Rightarrow> bool" where
  "cancels_pinned eps cxs \<longleftrightarrow> (\<forall>cx\<in>set cxs. cx_in_use cx \<longrightarrow> live_ref eps (cx_source cx))"

definition cancels_bounded :: "nat \<Rightarrow> host_cancel_row list \<Rightarrow> bool" where
  "cancels_bounded n cxs \<longleftrightarrow> (\<forall>cx\<in>set cxs. \<forall>i. cx_target cx = Some i \<longrightarrow> i < n)"

definition sequences_ok :: "u64 \<Rightarrow> host_row list \<Rightarrow> bool" where
  "sequences_ok nxt rows \<longleftrightarrow> unique_by published row_sequence rows \<and>
     (\<forall>row\<in>set rows. published row \<longrightarrow> row_sequence row \<le> nxt)"

definition identities_ok :: "u64 \<Rightarrow> host_row list \<Rightarrow> bool" where
  "identities_ok nxt rows \<longleftrightarrow> unique_by nonfree row_identity rows \<and>
     (\<forall>row\<in>set rows. nonfree row \<longrightarrow> row_identity row \<noteq> 0 \<and> row_identity row \<le> nxt)"

definition send_ids_unique :: "host_row list \<Rightarrow> bool" where
  "send_ids_unique rows \<longleftrightarrow> unique_by timed (\<lambda>row. (row_source row, row_send_id row)) rows"

definition endpoints_ok :: "host_endpoint list \<Rightarrow> bool" where
  "endpoints_ok eps \<longleftrightarrow> length eps \<le> unat UINT32_MAX \<and>
     (\<forall>p\<in>set eps. (ep_live p \<longrightarrow> ep_generation p \<noteq> 0) \<and> (ep_active p \<longrightarrow> ep_live p) \<and>
        (ep_active p \<longleftrightarrow> ep_session p \<noteq> None) \<and> (\<not> ep_live p \<longrightarrow> ep_parent p = null_ref))"

definition conserved :: "host_router \<Rightarrow> bool" where
  "conserved r \<longleftrightarrow>
     r_prepared r = of_nat (r_pending r) + r_discarded r + r_delivered r + r_cancelled r"

definition core_inv :: "host_router \<Rightarrow> bool" where
  "core_inv r \<longleftrightarrow>
     counters_ok r \<and> rows_clean (r_rows r) \<and>
     rows_pinned (r_endpoints r) (r_rows r) \<and>
     parents_pinned (r_endpoints r) (r_endpoints r) \<and>
     routes_pinned (r_endpoints r) (r_invoke_routes r) \<and>
     cancels_pinned (r_endpoints r) (r_cancel_rows r) \<and>
     cancels_bounded (event_capacity r) (r_cancel_rows r) \<and>
     sequences_ok (r_next_sequence r) (r_rows r) \<and>
     identities_ok (r_next_row_identity r) (r_rows r) \<and>
     send_ids_unique (r_rows r) \<and> endpoints_ok (r_endpoints r)"

definition router_inv :: "host_router \<Rightarrow> bool" where
  "router_inv r \<longleftrightarrow> core_inv r \<and> conserved r"

named_theorems inv_defs "the conjuncts of the router invariant"
named_theorems row_kind_defs "row classifications"

lemmas [row_kind_defs] = nonfree_def reserved_row_def timed_def published_def timed_state_def
  awaiting_def
lemmas [inv_defs] = counters_ok_def rows_clean_def rows_pinned_def parents_pinned_def
  routes_pinned_def cancels_pinned_def cancels_bounded_def sequences_ok_def identities_ok_def
  send_ids_unique_def endpoints_ok_def conserved_def

lemma matches_live_ref: "matches r ref = live_ref (r_endpoints r) ref"
  by (simp add: matches_def live_ref_def)

lemma blank_row_kinds [simp]:
  "\<not> nonfree blank_row" "\<not> reserved_row blank_row" "\<not> timed blank_row" "\<not> published blank_row"
  "\<not> awaiting blank_row"
  by (simp_all add: row_kind_defs blank_row_def)

lemma published_nonfree: "published row \<Longrightarrow> nonfree row"
  by (simp add: row_kind_defs)

lemma timed_nonfree: "timed row \<Longrightarrow> nonfree row"
  by (auto simp: row_kind_defs)

lemma core_invD:
  assumes "core_inv r"
  shows "counters_ok r" "rows_clean (r_rows r)" "rows_pinned (r_endpoints r) (r_rows r)"
    "parents_pinned (r_endpoints r) (r_endpoints r)"
    "routes_pinned (r_endpoints r) (r_invoke_routes r)"
    "cancels_pinned (r_endpoints r) (r_cancel_rows r)"
    "cancels_bounded (event_capacity r) (r_cancel_rows r)"
    "sequences_ok (r_next_sequence r) (r_rows r)"
    "identities_ok (r_next_row_identity r) (r_rows r)" "send_ids_unique (r_rows r)"
    "endpoints_ok (r_endpoints r)"
  using assms by (simp_all add: core_inv_def)

lemma router_invD: "router_inv r \<Longrightarrow> core_inv r" "router_inv r \<Longrightarrow> conserved r"
  by (simp_all add: router_inv_def)

text \<open>The statistics counters do not enter the core invariant.\<close>

lemma core_inv_statistics [simp]:
  "core_inv (r\<lparr>r_timer_fired := x\<rparr>) = core_inv r"
  "core_inv (r\<lparr>r_timer_cancelled := x\<rparr>) = core_inv r"
  "core_inv (r\<lparr>r_cancel_prepared := x\<rparr>) = core_inv r"
  "core_inv (r\<lparr>r_cancel_committed := x\<rparr>) = core_inv r"
  "core_inv (r\<lparr>r_cancel_discarded := x\<rparr>) = core_inv r"
  "core_inv (r\<lparr>r_cancel_fire_won := x\<rparr>) = core_inv r"
  "core_inv (r\<lparr>r_timer_done_failed := x\<rparr>) = core_inv r"
  "core_inv (r\<lparr>r_prepared := x\<rparr>) = core_inv r"
  "core_inv (r\<lparr>r_committed := x\<rparr>) = core_inv r"
  "core_inv (r\<lparr>r_discarded := x\<rparr>) = core_inv r"
  "core_inv (r\<lparr>r_delivered := x\<rparr>) = core_inv r"
  "core_inv (r\<lparr>r_cancelled := x\<rparr>) = core_inv r"
  "core_inv (r\<lparr>r_rejected_full := x\<rparr>) = core_inv r"
  "core_inv (r\<lparr>r_stale_refs := x\<rparr>) = core_inv r"
  "core_inv (r\<lparr>r_delivery_errors := x\<rparr>) = core_inv r"
  "core_inv (r\<lparr>r_invariant_failures := x\<rparr>) = core_inv r"
  "core_inv (r\<lparr>r_closed := b\<rparr>) = core_inv r"
  "core_inv (r\<lparr>r_draining := b\<rparr>) = core_inv r"
  "core_inv (r\<lparr>r_timer_running := b\<rparr>) = core_inv r"
  by (simp_all add: core_inv_def counters_ok_def)

section \<open>Live references under endpoint updates\<close>

lemma live_ref_update:
  assumes "live_ref eps ref" "ep_live (eps ! i) \<Longrightarrow> ep_live p \<and> ep_generation p = ep_generation (eps ! i)"
  shows "live_ref (eps[i := p]) ref"
  using assms by (cases "i = unat (ref_slot ref)") (auto simp: live_ref_def)

lemma live_ref_update_other:
  assumes "live_ref eps ref" "live_ref eps target" "\<not> refs_equal ref target"
  shows "live_ref (eps[unat (ref_slot target) := p]) ref"
proof -
  have "ref_slot ref \<noteq> ref_slot target"
    using assms by (auto simp: live_ref_def refs_equal_def)
  then have "unat (ref_slot ref) \<noteq> unat (ref_slot target)" by (metis word_unat_eq_iff)
  with assms show ?thesis by (auto simp: live_ref_def)
qed

lemma pinned_null [simp]: "pinned eps null_ref"
  by (simp add: pinned_def null_ref_def)

lemma pinned_live: "live_ref eps ref \<Longrightarrow> pinned eps ref"
  by (simp add: pinned_def)

lemma refs_equal_iff: "ref_generation b \<noteq> 0 \<Longrightarrow> refs_equal a b \<longleftrightarrow> a = b"
  by (auto simp: refs_equal_def)

lemma refs_equal_eqD: "refs_equal a b \<Longrightarrow> a = b"
  by (simp add: refs_equal_def)

text \<open>All references of the router survive an endpoint update that keeps live generations.\<close>

lemma pinned_all_mono:
  assumes "\<And>ref. live_ref eps ref \<Longrightarrow> live_ref eps' ref"
  shows "rows_pinned eps rows \<Longrightarrow> rows_pinned eps' rows"
    "parents_pinned eps ps \<Longrightarrow> parents_pinned eps' ps"
    "routes_pinned eps rts \<Longrightarrow> routes_pinned eps' rts"
    "cancels_pinned eps cxs \<Longrightarrow> cancels_pinned eps' cxs"
  using assms by (auto simp: rows_pinned_def parents_pinned_def routes_pinned_def
      cancels_pinned_def pinned_def)

section \<open>Release\<close>

lemma counters_pending_pos:
  "counters_ok r \<Longrightarrow> i < event_capacity r \<Longrightarrow> nonfree (r_rows r ! i) \<Longrightarrow> 0 < r_pending r"
  by (metis counters_ok_def count_if_pos)

lemma counters_reserved_pos:
  "counters_ok r \<Longrightarrow> i < event_capacity r \<Longrightarrow> reserved_row (r_rows r ! i) \<Longrightarrow> 0 < r_reserved r"
  by (metis counters_ok_def count_if_pos)

lemma counters_timer_pos:
  "counters_ok r \<Longrightarrow> i < event_capacity r \<Longrightarrow> timed (r_rows r ! i) \<Longrightarrow> 0 < r_timer_pending r"
  by (metis counters_ok_def count_if_pos)

text \<open>Under the invariant, releasing an occupied row never takes an error branch.\<close>

lemma release_locked_eq:
  assumes "counters_ok r" "i < event_capacity r" "nonfree (r_rows r ! i)"
  shows "release_locked i r =
    r\<lparr>r_rows := (r_rows r)[i := blank_row], r_pending := r_pending r - 1,
      r_reserved := (if reserved_row (r_rows r ! i) then r_reserved r - 1 else r_reserved r),
      r_timer_pending := (if timed (r_rows r ! i) then r_timer_pending r - 1
                          else r_timer_pending r)\<rparr>"
  using counters_pending_pos [OF assms] counters_reserved_pos [OF assms(1,2)]
    counters_timer_pos [OF assms(1,2)] assms(3)
  by (auto simp: release_locked_def Let_def nonfree_def reserved_row_def timed_def)

section \<open>Row transitions\<close>

lemma awaiting_delay:
  assumes "core_inv r" "i < event_capacity r" "awaiting (r_rows r ! i)"
  shows "row_delay_ms (r_rows r ! i) \<noteq> 0"
  using core_invD(2) [OF assms(1)] assms(2,3) by (auto simp: rows_clean_def)

text \<open>Everything of the core invariant that a row transition leaves alone.\<close>

definition same_tables :: "host_router \<Rightarrow> host_router \<Rightarrow> bool" where
  "same_tables r r' \<longleftrightarrow>
     r_endpoints r' = r_endpoints r \<and> r_invoke_routes r' = r_invoke_routes r \<and>
     r_cancel_rows r' = r_cancel_rows r \<and> r_timer_capacity r' = r_timer_capacity r \<and>
     r_cancel_pending r' = r_cancel_pending r \<and> r_endpoint_count r' = r_endpoint_count r \<and>
     r_invoke_count r' = r_invoke_count r"

lemma core_inv_release:
  assumes inv: "core_inv r" and i: "i < event_capacity r" and nf: "nonfree (r_rows r ! i)"
  shows "core_inv (release_locked i r)"
proof -
  note D = core_invD [OF inv]
  have cnt: "count_if nonfree ((r_rows r)[i := blank_row]) = count_if nonfree (r_rows r) - 1"
    "count_if reserved_row ((r_rows r)[i := blank_row]) =
       count_if reserved_row (r_rows r) - (if reserved_row (r_rows r ! i) then 1 else 0)"
    "count_if timed ((r_rows r)[i := blank_row]) =
       count_if timed (r_rows r) - (if timed (r_rows r ! i) then 1 else 0)"
    using i nf by (auto simp: count_if_update_del count_if_update_same)
  have "counters_ok (release_locked i r)"
    using D(1) cnt unfolding release_locked_eq [OF D(1) i nf] counters_ok_def by auto
  moreover have "rows_clean ((r_rows r)[i := blank_row])"
    "rows_pinned (r_endpoints r) ((r_rows r)[i := blank_row])"
    using D(2,3) unfolding rows_clean_def rows_pinned_def by (auto dest!: set_update_memD)
  moreover have "sequences_ok (r_next_sequence r) ((r_rows r)[i := blank_row])"
    "identities_ok (r_next_row_identity r) ((r_rows r)[i := blank_row])"
    "send_ids_unique ((r_rows r)[i := blank_row])"
    using D(8,9,10) i unfolding sequences_ok_def identities_ok_def send_ids_unique_def
    by (auto dest!: set_update_memD intro!: unique_by_update)
  ultimately show ?thesis
    using D by (simp add: core_inv_def release_locked_eq [OF D(1) i nf])
qed

text \<open>A published row changes state, keeping what the other tables may refer to.\<close>

lemma core_inv_restate:
  assumes inv: "core_inv r" and i: "i < event_capacity r" and same: "same_tables r r'"
    and pub: "published (r_rows r ! i)" "published row"
    and keep: "row_target row = row_target (r_rows r ! i)"
      "row_source row = row_source (r_rows r ! i)"
      "row_sequence row = row_sequence (r_rows r ! i)"
      "row_identity row = row_identity (r_rows r ! i)"
      "row_delay_ms row = row_delay_ms (r_rows r ! i)"
      "row_send_id row = row_send_id (r_rows r ! i)"
    and tm: "timed row \<Longrightarrow> timed (r_rows r ! i)"
    and dl: "awaiting row \<Longrightarrow> row_delay_ms row \<noteq> 0"
    and fields: "r_rows r' = (r_rows r)[i := row]" "r_pending r' = r_pending r"
      "r_reserved r' = r_reserved r" "r_high_water r' = r_high_water r"
      "r_next_sequence r' = r_next_sequence r"
      "r_next_row_identity r' = r_next_row_identity r"
      "r_timer_pending r' =
         r_timer_pending r - (if timed (r_rows r ! i) \<and> \<not> timed row then 1 else 0)"
  shows "core_inv r'"
proof -
  note D = core_invD [OF inv]
  have kinds: "nonfree (r_rows r ! i)" "nonfree row" "\<not> reserved_row (r_rows r ! i)"
    "\<not> reserved_row row"
    using pub by (auto simp: row_kind_defs)
  have mem: "r_rows r ! i \<in> set (r_rows r)" using i by simp
  have tm': "timed row \<longrightarrow> timed (r_rows r ! i)" using tm by blast
  have cnt: "count_if nonfree ((r_rows r)[i := row]) = count_if nonfree (r_rows r)"
    "count_if reserved_row ((r_rows r)[i := row]) = count_if reserved_row (r_rows r)"
    "count_if timed ((r_rows r)[i := row]) =
       count_if timed (r_rows r) - (if timed (r_rows r ! i) \<and> \<not> timed row then 1 else 0)"
    using i kinds tm' by (auto simp: count_if_update_del count_if_update_same)
  have "counters_ok r'"
    using D(1) cnt same fields unfolding counters_ok_def same_tables_def by auto
  moreover have "rows_clean (r_rows r')" "rows_pinned (r_endpoints r') (r_rows r')"
    using D(2,3) kinds mem same fields(1) keep dl unfolding rows_clean_def rows_pinned_def same_tables_def
    by (auto dest!: set_update_memD)
  moreover have "sequences_ok (r_next_sequence r') (r_rows r')"
    "identities_ok (r_next_row_identity r') (r_rows r')" "send_ids_unique (r_rows r')"
    using D(8,9,10) i kinds mem keep pub tm fields
    unfolding sequences_ok_def identities_ok_def send_ids_unique_def
    by (auto dest!: set_update_memD intro!: unique_by_update_same)
  ultimately show ?thesis
    using D same fields by (simp add: core_inv_def same_tables_def)
qed

text \<open>A reserved row is published under the next sequence number.\<close>

lemma core_inv_publish:
  assumes inv: "core_inv r" and i: "i < event_capacity r" and same: "same_tables r r'"
    and res: "reserved_row (r_rows r ! i)" and pub: "published row"
    and keep: "row_target row = row_target (r_rows r ! i)"
      "row_source row = row_source (r_rows r ! i)"
      "row_identity row = row_identity (r_rows r ! i)"
      "row_delay_ms row = row_delay_ms (r_rows r ! i)"
      "row_send_id row = row_send_id (r_rows r ! i)"
    and tm: "timed row = timed (r_rows r ! i)"
    and dl: "awaiting row \<Longrightarrow> row_delay_ms row \<noteq> 0"
    and guard: "r_next_sequence r \<noteq> UINT64_MAX" "row_sequence row = r_next_sequence r + 1"
    and fields: "r_rows r' = (r_rows r)[i := row]" "r_pending r' = r_pending r"
      "r_reserved r' = r_reserved r - 1" "r_high_water r' = r_high_water r"
      "r_next_sequence r' = r_next_sequence r + 1"
      "r_next_row_identity r' = r_next_row_identity r"
      "r_timer_pending r' = r_timer_pending r"
  shows "core_inv r'"
proof -
  note D = core_invD [OF inv]
  have kinds: "nonfree (r_rows r ! i)" "nonfree row" "\<not> published (r_rows r ! i)"
    "\<not> reserved_row row"
    using pub res by (auto simp: row_kind_defs)
  have mem: "r_rows r ! i \<in> set (r_rows r)" using i by simp
  have less: "published x \<Longrightarrow> x \<in> set (r_rows r) \<Longrightarrow> row_sequence x < r_next_sequence r + 1" for x
    using D(8) guard(1) by (auto simp: sequences_ok_def intro: le_less_Suc_guard)
  have cnt: "count_if nonfree ((r_rows r)[i := row]) = count_if nonfree (r_rows r)"
    "count_if reserved_row ((r_rows r)[i := row]) = count_if reserved_row (r_rows r) - 1"
    "count_if timed ((r_rows r)[i := row]) = count_if timed (r_rows r)"
    using i kinds tm res by (auto simp: count_if_update_del count_if_update_same)
  have "counters_ok r'"
    using D(1) cnt same fields unfolding counters_ok_def same_tables_def by auto
  moreover have "rows_clean (r_rows r')" "rows_pinned (r_endpoints r') (r_rows r')"
    using D(2,3) kinds mem same fields(1) keep dl unfolding rows_clean_def rows_pinned_def same_tables_def
    by (auto dest!: set_update_memD)
  moreover have "sequences_ok (r_next_sequence r') (r_rows r')"
    unfolding sequences_ok_def fields
  proof
    show "unique_by published row_sequence ((r_rows r)[i := row])"
      using D(8) i less guard(2) by (auto simp: sequences_ok_def intro!: unique_by_update_fresh)
    show "\<forall>x\<in>set ((r_rows r)[i := row]). published x \<longrightarrow> row_sequence x \<le> r_next_sequence r + 1"
      using less guard(2) by (intro all_set_updateI) (auto intro: less_imp_le)
  qed
  moreover have "identities_ok (r_next_row_identity r') (r_rows r')" "send_ids_unique (r_rows r')"
    using D(9,10) i kinds mem keep tm fields
    unfolding identities_ok_def send_ids_unique_def
    by (auto dest!: set_update_memD intro!: unique_by_update_same)
  ultimately show ?thesis
    using D same fields by (simp add: core_inv_def same_tables_def)
qed

text \<open>A free row is reserved under the next identity.\<close>

lemma core_inv_alloc:
  assumes inv: "core_inv r" and i: "i < event_capacity r" and same: "same_tables r r'"
    and free: "\<not> nonfree (r_rows r ! i)" and res: "reserved_row row"
    and live: "live_ref (r_endpoints r) (row_target row)" "pinned (r_endpoints r) (row_source row)"
      "row_delay_ms row \<noteq> 0 \<Longrightarrow> live_ref (r_endpoints r) (row_source row)"
    and fresh: "row_delay_ms row \<noteq> 0 \<Longrightarrow> r_timer_pending r < r_timer_capacity r"
      "\<And>x. row_delay_ms row \<noteq> 0 \<Longrightarrow> x \<in> set (r_rows r) \<Longrightarrow> timed x \<Longrightarrow>
         row_source x = row_source row \<Longrightarrow> row_send_id x \<noteq> row_send_id row"
    and guard: "r_next_row_identity r \<noteq> UINT64_MAX" "row_identity row = r_next_row_identity r + 1"
    and fields: "r_rows r' = (r_rows r)[i := row]" "r_pending r' = r_pending r + 1"
      "r_reserved r' = r_reserved r + 1"
      "r_high_water r' = (if r_pending r + 1 > r_high_water r then r_pending r + 1 else r_high_water r)"
      "r_next_sequence r' = r_next_sequence r"
      "r_next_row_identity r' = r_next_row_identity r + 1"
      "r_timer_pending r' = r_timer_pending r + (if row_delay_ms row \<noteq> 0 then 1 else 0)"
  shows "core_inv r'"
proof -
  note D = core_invD [OF inv]
  have kinds: "nonfree row" "\<not> published row" "\<not> published (r_rows r ! i)" "\<not> timed (r_rows r ! i)"
    "\<not> reserved_row (r_rows r ! i)" "timed row \<longleftrightarrow> row_delay_ms row \<noteq> 0"
    "\<not> awaiting row"
    using free res by (auto simp: row_kind_defs)
  have less: "nonfree x \<Longrightarrow> x \<in> set (r_rows r) \<Longrightarrow> row_identity x < r_next_row_identity r + 1" for x
    using D(9) guard(1) by (auto simp: identities_ok_def intro: le_less_Suc_guard)
  have cnt: "count_if nonfree ((r_rows r)[i := row]) = count_if nonfree (r_rows r) + 1"
    "count_if reserved_row ((r_rows r)[i := row]) = count_if reserved_row (r_rows r) + 1"
    "count_if timed ((r_rows r)[i := row]) =
       count_if timed (r_rows r) + (if row_delay_ms row \<noteq> 0 then 1 else 0)"
    using i kinds free res by (auto simp: count_if_update_add count_if_update_same)
  have room: "count_if nonfree (r_rows r) + 1 \<le> event_capacity r"
    using count_if_le [of nonfree "(r_rows r)[i := row]"] cnt(1) by simp
  have "counters_ok r'"
    using D(1) cnt room fresh(1) same fields unfolding counters_ok_def same_tables_def by auto
  moreover have "rows_clean (r_rows r')" "rows_pinned (r_endpoints r') (r_rows r')"
    using D(2,3) kinds same fields(1) live unfolding rows_clean_def rows_pinned_def same_tables_def
    by (auto dest!: set_update_memD)
  moreover have "identities_ok (r_next_row_identity r') (r_rows r')"
    unfolding identities_ok_def fields
  proof
    show "unique_by nonfree row_identity ((r_rows r)[i := row])"
      using D(9) i less guard(2) by (auto simp: identities_ok_def intro!: unique_by_update_fresh)
    show "\<forall>x\<in>set ((r_rows r)[i := row]). nonfree x \<longrightarrow>
        row_identity x \<noteq> 0 \<and> row_identity x \<le> r_next_row_identity r + 1"
      using less guard D(9) Suc_guard_nonzero [OF guard(1)]
      by (intro all_set_updateI) (auto simp: identities_ok_def intro: less_imp_le)
  qed
  moreover have "send_ids_unique (r_rows r')"
    using D(10) i kinds fresh(2) fields
    by (auto simp: send_ids_unique_def intro!: unique_by_update)
  moreover have "sequences_ok (r_next_sequence r') (r_rows r')"
    using D(8) i kinds fields
    by (auto simp: sequences_ok_def dest!: set_update_memD intro!: unique_by_update)
  ultimately show ?thesis
    using D same fields by (simp add: core_inv_def same_tables_def)
qed

section \<open>Frame of a release\<close>

lemma release_locked_frame [simp]:
  "r_endpoints (release_locked i r) = r_endpoints r"
  "r_invoke_routes (release_locked i r) = r_invoke_routes r"
  "r_cancel_rows (release_locked i r) = r_cancel_rows r"
  "r_cancel_pending (release_locked i r) = r_cancel_pending r"
  "event_capacity (release_locked i r) = event_capacity r"
  "r_prepared (release_locked i r) = r_prepared r"
  "r_discarded (release_locked i r) = r_discarded r"
  "r_delivered (release_locked i r) = r_delivered r"
  "r_cancelled (release_locked i r) = r_cancelled r"
  "r_clock (release_locked i r) = r_clock r"
  "r_next_sequence (release_locked i r) = r_next_sequence r"
  by (simp_all add: release_locked_def Let_def)

lemma of_nat_pred: "0 < n \<Longrightarrow> (of_nat (n - 1) :: u64) = of_nat n - 1"
  by (simp add: of_nat_diff)

text \<open>
  One event has been counted as settled while its row is still occupied; releasing the row
  restores the balance.
\<close>

definition overcounted :: "host_router \<Rightarrow> bool" where
  "overcounted r \<longleftrightarrow>
     r_prepared r + 1 = of_nat (r_pending r) + r_discarded r + r_delivered r + r_cancelled r"

lemma router_inv_release:
  assumes inv: "core_inv r" and i: "i < event_capacity r" and nf: "nonfree (r_rows r ! i)"
    and over: "overcounted r"
  shows "router_inv (release_locked i r)"
proof -
  note cnt = core_invD(1) [OF inv]
  have "conserved (release_locked i r)"
    using over counters_pending_pos [OF cnt i nf]
    by (simp add: conserved_def overcounted_def release_locked_eq [OF cnt i nf] of_nat_pred algebra_simps)
  with core_inv_release [OF inv i nf] show ?thesis by (simp add: router_inv_def)
qed

section \<open>Endpoint operations\<close>

text \<open>Everything of the core invariant that an endpoint update leaves alone.\<close>

definition same_but_endpoints :: "host_router \<Rightarrow> host_router \<Rightarrow> bool" where
  "same_but_endpoints r r' \<longleftrightarrow>
     r_rows r' = r_rows r \<and> r_invoke_routes r' = r_invoke_routes r \<and>
     r_cancel_rows r' = r_cancel_rows r \<and> r_timer_capacity r' = r_timer_capacity r \<and>
     r_timer_pending r' = r_timer_pending r \<and> r_cancel_pending r' = r_cancel_pending r \<and>
     r_invoke_count r' = r_invoke_count r \<and> r_pending r' = r_pending r \<and>
     r_reserved r' = r_reserved r \<and> r_high_water r' = r_high_water r \<and>
     r_next_sequence r' = r_next_sequence r \<and> r_next_row_identity r' = r_next_row_identity r \<and>
     r_prepared r' = r_prepared r \<and> r_discarded r' = r_discarded r \<and>
     r_delivered r' = r_delivered r \<and> r_cancelled r' = r_cancelled r"

definition endpoint_ok :: "host_endpoint \<Rightarrow> bool" where
  "endpoint_ok p \<longleftrightarrow> (ep_live p \<longrightarrow> ep_generation p \<noteq> 0) \<and> (ep_active p \<longrightarrow> ep_live p) \<and>
     (ep_active p \<longleftrightarrow> ep_session p \<noteq> None) \<and> (\<not> ep_live p \<longrightarrow> ep_parent p = null_ref)"

lemma endpoints_okD: "endpoints_ok eps \<Longrightarrow> p \<in> set eps \<Longrightarrow> endpoint_ok p"
  by (simp add: endpoints_ok_def endpoint_ok_def)

lemma router_inv_endpoint_update:
  assumes inv: "router_inv r" and same: "same_but_endpoints r r'"
    and eps: "r_endpoints r' = (r_endpoints r)[i := p]" and i: "i < endpoint_capacity r"
    and cnt: "r_endpoint_count r' = count_if ep_live ((r_endpoints r)[i := p])"
    and ok: "endpoint_ok p"
    and refs: "rows_pinned ((r_endpoints r)[i := p]) (r_rows r)"
      "routes_pinned ((r_endpoints r)[i := p]) (r_invoke_routes r)"
      "cancels_pinned ((r_endpoints r)[i := p]) (r_cancel_rows r)"
      "parents_pinned ((r_endpoints r)[i := p]) ((r_endpoints r)[i := p])"
  shows "router_inv r'"
proof -
  note D = core_invD [OF router_invD(1) [OF inv]]
  have "counters_ok r'"
    using D(1) same cnt eps by (simp add: counters_ok_def same_but_endpoints_def)
  moreover have "endpoints_ok (r_endpoints r')"
    using D(11) ok eps unfolding endpoints_ok_def endpoint_ok_def
    by (auto dest!: set_update_memD)
  moreover have "conserved r'"
    using router_invD(2) [OF inv] same by (simp add: conserved_def same_but_endpoints_def)
  ultimately show ?thesis
    using D refs same eps by (simp add: router_inv_def core_inv_def same_but_endpoints_def)
qed

text \<open>An endpoint changes while its live generation stays.\<close>

lemma router_inv_endpoint_keep:
  assumes inv: "router_inv r" and same: "same_but_endpoints r r'"
    and eps: "r_endpoints r' = (r_endpoints r)[i := p]" and i: "i < endpoint_capacity r"
    and cnt: "r_endpoint_count r' = count_if ep_live ((r_endpoints r)[i := p])"
    and ok: "endpoint_ok p"
    and keep: "ep_live (r_endpoints r ! i) \<Longrightarrow>
      ep_live p \<and> ep_generation p = ep_generation (r_endpoints r ! i)"
    and par: "pinned ((r_endpoints r)[i := p]) (ep_parent p)"
  shows "router_inv r'"
proof -
  note D = core_invD [OF router_invD(1) [OF inv]]
  have mono: "live_ref (r_endpoints r) ref \<Longrightarrow> live_ref ((r_endpoints r)[i := p]) ref" for ref
    by (rule live_ref_update) (use keep in blast)+
  have "parents_pinned ((r_endpoints r)[i := p]) ((r_endpoints r)[i := p])"
    using pinned_all_mono(2) [OF mono D(4)] par
    by (auto simp: parents_pinned_def dest!: set_update_memD)
  with router_inv_endpoint_update [OF inv same eps i cnt ok pinned_all_mono(1) [OF mono D(3)]
      pinned_all_mono(3) [OF mono D(5)] pinned_all_mono(4) [OF mono D(6)]]
  show ?thesis by blast
qed

lemma counters_endpoints: "router_inv r \<Longrightarrow> r_endpoint_count r = count_if ep_live (r_endpoints r)"
  by (simp add: router_inv_def core_inv_def counters_ok_def)

lemma conserved_statistics [simp]:
  "conserved (r\<lparr>r_stale_refs := x\<rparr>) = conserved r"
  "conserved (r\<lparr>r_rejected_full := x\<rparr>) = conserved r"
  "conserved (r\<lparr>r_invariant_failures := x\<rparr>) = conserved r"
  "conserved (r\<lparr>r_delivery_errors := x\<rparr>) = conserved r"
  "conserved (r\<lparr>r_cancel_fire_won := x\<rparr>) = conserved r"
  "conserved (r\<lparr>r_cancel_committed := x\<rparr>) = conserved r"
  "conserved (r\<lparr>r_cancel_discarded := x\<rparr>) = conserved r"
  "conserved (r\<lparr>r_timer_cancelled := x\<rparr>) = conserved r"
  "conserved (r\<lparr>r_timer_done_failed := x\<rparr>) = conserved r"
  "conserved (r\<lparr>r_closed := b\<rparr>) = conserved r"
  "conserved (r\<lparr>r_draining := b\<rparr>) = conserved r"
  "conserved (r\<lparr>r_timer_running := b\<rparr>) = conserved r"
  by (simp_all add: conserved_def)

lemma router_inv_statistics [simp]:
  "router_inv (r\<lparr>r_stale_refs := x\<rparr>) = router_inv r"
  "router_inv (r\<lparr>r_rejected_full := x\<rparr>) = router_inv r"
  "router_inv (r\<lparr>r_invariant_failures := x\<rparr>) = router_inv r"
  "router_inv (r\<lparr>r_delivery_errors := x\<rparr>) = router_inv r"
  "router_inv (r\<lparr>r_cancel_fire_won := x\<rparr>) = router_inv r"
  "router_inv (r\<lparr>r_cancel_committed := x\<rparr>) = router_inv r"
  "router_inv (r\<lparr>r_cancel_discarded := x\<rparr>) = router_inv r"
  "router_inv (r\<lparr>r_timer_cancelled := x\<rparr>) = router_inv r"
  "router_inv (r\<lparr>r_timer_done_failed := x\<rparr>) = router_inv r"
  "router_inv (r\<lparr>r_closed := b\<rparr>) = router_inv r"
  "router_inv (r\<lparr>r_draining := b\<rparr>) = router_inv r"
  "router_inv (r\<lparr>r_timer_running := b\<rparr>) = router_inv r"
  by (simp_all add: router_inv_def)

lemma reserve_inv:
  assumes inv: "router_inv r" and op: "scxml_host_router_reserve r = (st, ref, r')"
  shows "router_inv r'"
proof (cases "r_closed r \<or> first_index free_endpoint (r_endpoints r) = None")
  case True
  with op inv show ?thesis by (auto simp: scxml_host_router_reserve_def split: if_splits)
next
  case False
  then obtain i where i: "first_index free_endpoint (r_endpoints r) = Some i" by auto
  from first_index_SomeD [OF this] have I: "i < endpoint_capacity r"
    "\<not> ep_live (r_endpoints r ! i)" "ep_generation (r_endpoints r ! i) \<noteq> UINT32_MAX"
    by (auto simp: free_endpoint_def)
  let ?p = "blank_endpoint\<lparr>ep_generation := ep_generation (r_endpoints r ! i) + 1,
              ep_live := True, ep_active := False\<rparr>"
  from False i op have r': "r' = r\<lparr>r_endpoints := (r_endpoints r)[i := ?p],
      r_endpoint_count := r_endpoint_count r + 1\<rparr>"
    by (auto simp: scxml_host_router_reserve_def Let_def)
  show ?thesis
    by (rule router_inv_endpoint_keep [OF inv, where i = i and p = ?p])
       (use I in \<open>simp_all add: r' same_but_endpoints_def count_if_update_add counters_endpoints [OF inv]
          endpoint_ok_def blank_endpoint_def Suc_guard_nonzero\<close>)
qed

lemma activate_inv:
  assumes inv: "router_inv r" and op: "scxml_host_router_activate copy_location ref s r = (st, r')"
  shows "router_inv r'"
proof (cases "st = SALTS_OK")
  case False
  with op inv show ?thesis
    by (auto simp: scxml_host_router_activate_def Let_def split: option.splits if_splits)
next
  case True
  let ?i = "unat (ref_slot ref)" let ?p = "r_endpoints r ! ?i"
  from True op obtain loc where m: "matches r ref" and r': "r' = r\<lparr>r_endpoints := (r_endpoints r)[?i :=
      ?p\<lparr>ep_session := Some s, ep_active := True, ep_location := loc\<rparr>]\<rparr>"
    by (auto simp: scxml_host_router_activate_def Let_def split: option.splits if_splits)
  note D = core_invD [OF router_invD(1) [OF inv]]
  from m have I: "?i < endpoint_capacity r" "ep_live ?p" by (auto simp: matches_def)
  then have mem: "?p \<in> set (r_endpoints r)" by simp
  with D(4) I(2) have par: "pinned (r_endpoints r) (ep_parent ?p)" by (simp add: parents_pinned_def)
  show ?thesis
    by (rule router_inv_endpoint_keep [OF inv, where i = ?i and
            p = "?p\<lparr>ep_session := Some s, ep_active := True, ep_location := loc\<rparr>"])
       (use I endpoints_okD [OF D(11) mem] par in \<open>auto simp: r' same_but_endpoints_def
          count_if_update_same counters_endpoints [OF inv] endpoint_ok_def pinned_def
          intro: live_ref_update\<close>)
qed

lemma attach_inv:
  assumes inv: "router_inv r" and op: "scxml_host_router_attach copy_location s r = (st, ref, r')"
  shows "router_inv r'"
proof (cases "st = SALTS_OK")
  case False
  with op inv show ?thesis
    by (auto simp: scxml_host_router_attach_def Let_def split: option.splits if_splits)
next
  case True
  with op obtain loc i where fi: "first_index free_endpoint (r_endpoints r) = Some i"
    and r': "r' = r\<lparr>r_endpoints := (r_endpoints r)[i := (r_endpoints r ! i)
        \<lparr>ep_live := True, ep_active := True, ep_session := Some s, ep_parent := null_ref,
          ep_accessible := False, ep_location := loc,
          ep_generation := ep_generation (r_endpoints r ! i) + 1\<rparr>],
      r_endpoint_count := r_endpoint_count r + 1\<rparr>"
    by (auto simp: scxml_host_router_attach_def Let_def split: option.splits if_splits)
  from first_index_SomeD [OF fi] have I: "i < endpoint_capacity r"
    "\<not> ep_live (r_endpoints r ! i)" "ep_generation (r_endpoints r ! i) \<noteq> UINT32_MAX"
    by (auto simp: free_endpoint_def)
  show ?thesis
    by (rule router_inv_endpoint_keep [OF inv, where i = i])
       (use I in \<open>auto simp: r' same_but_endpoints_def count_if_update_add counters_endpoints [OF inv]
          endpoint_ok_def Suc_guard_nonzero\<close>)
qed

lemma pinned_all_detach:
  assumes "live_ref eps target" and "eps' = eps[unat (ref_slot target) := p]"
  shows "rows_pinned eps rows \<Longrightarrow> \<forall>row\<in>set rows. nonfree row \<longrightarrow>
       \<not> refs_equal (row_target row) target \<and> \<not> refs_equal (row_source row) target \<Longrightarrow>
       rows_pinned eps' rows"
    "parents_pinned eps ps \<Longrightarrow> \<forall>q\<in>set ps. ep_live q \<longrightarrow> \<not> refs_equal (ep_parent q) target \<Longrightarrow>
       parents_pinned eps' ps"
    "routes_pinned eps rts \<Longrightarrow> \<forall>rt\<in>set rts. rt_live rt \<longrightarrow>
       \<not> refs_equal (rt_owner rt) target \<and> \<not> refs_equal (rt_target rt) target \<Longrightarrow>
       routes_pinned eps' rts"
    "cancels_pinned eps cxs \<Longrightarrow> \<forall>cx\<in>set cxs. cx_in_use cx \<longrightarrow> \<not> refs_equal (cx_source cx) target \<Longrightarrow>
       cancels_pinned eps' cxs"
  using assms by (auto simp: rows_pinned_def parents_pinned_def routes_pinned_def
      cancels_pinned_def pinned_def intro: live_ref_update_other)

lemma detach_inv:
  assumes inv: "router_inv r" and op: "scxml_host_router_detach target r = (st, r')"
  shows "router_inv r'"
proof (cases "st = SALTS_OK")
  case False
  with op inv show ?thesis
    by (auto simp: scxml_host_router_detach_def Let_def split: if_splits)
next
  case True
  let ?i = "unat (ref_slot target)"
  let ?p = "(r_endpoints r ! ?i)\<lparr>ep_live := False, ep_active := False, ep_session := None,
                ep_parent := null_ref, ep_accessible := False, ep_location := []\<rparr>"
  note D = core_invD [OF router_invD(1) [OF inv]]
  from True op have m: "live_ref (r_endpoints r) target"
    and r': "r' = r\<lparr>r_endpoints := (r_endpoints r)[?i := ?p], r_endpoint_count := r_endpoint_count r - 1\<rparr>"
    and unref: "\<forall>row\<in>set (r_rows r). nonfree row \<longrightarrow>
         \<not> refs_equal (row_target row) target \<and> \<not> refs_equal (row_source row) target"
      "\<forall>q\<in>set (r_endpoints r). ep_live q \<longrightarrow> \<not> refs_equal (ep_parent q) target"
      "\<forall>rt\<in>set (r_invoke_routes r). rt_live rt \<longrightarrow>
         \<not> refs_equal (rt_owner rt) target \<and> \<not> refs_equal (rt_target rt) target"
      "\<forall>cx\<in>set (r_cancel_rows r). cx_in_use cx \<longrightarrow> \<not> refs_equal (cx_source cx) target"
    by (auto simp: scxml_host_router_detach_def Let_def matches_live_ref nonfree_def split: if_splits)
  from m have I: "?i < endpoint_capacity r" "ep_live (r_endpoints r ! ?i)" by (auto simp: live_ref_def)
  note det = pinned_all_detach [OF m refl, where p = ?p]
  have par: "parents_pinned ((r_endpoints r)[?i := ?p]) ((r_endpoints r)[?i := ?p])"
    using det(2) [OF D(4) unref(2)] by (auto simp: parents_pinned_def dest!: set_update_memD)
  show ?thesis
    by (rule router_inv_endpoint_update [OF inv, where i = ?i and p = ?p])
       (use I det(1) [OF D(3) unref(1)] det(3) [OF D(5) unref(3)] det(4) [OF D(6) unref(4)] par in
         \<open>simp_all add: r' same_but_endpoints_def count_if_update_del counters_endpoints [OF inv]
            endpoint_ok_def\<close>)
qed

lemma set_parent_inv:
  assumes inv: "router_inv r" and op: "scxml_host_router_set_parent child parent r = (st, r')"
  shows "router_inv r'"
proof (cases "st = SALTS_OK")
  case False
  with op inv show ?thesis
    by (auto simp: scxml_host_router_set_parent_def Let_def split: if_splits)
next
  case True
  let ?i = "unat (ref_slot child)"
  from True op obtain par where m: "matches r child"
    and r': "r' = r\<lparr>r_endpoints := (r_endpoints r)[?i := (r_endpoints r ! ?i)\<lparr>ep_parent := par\<rparr>]\<rparr>"
    and par: "pinned (r_endpoints r) par"
    by (auto simp: scxml_host_router_set_parent_def Let_def matches_live_ref pinned_live split: if_splits)
  note D = core_invD [OF router_invD(1) [OF inv]]
  from m have I: "?i < endpoint_capacity r" "ep_live (r_endpoints r ! ?i)" by (auto simp: matches_def)
  then have mem: "r_endpoints r ! ?i \<in> set (r_endpoints r)" by simp
  show ?thesis
    by (rule router_inv_endpoint_keep [OF inv, where i = ?i and p = "(r_endpoints r ! ?i)\<lparr>ep_parent := par\<rparr>"])
       (use I endpoints_okD [OF D(11) mem] par in \<open>auto simp: r' same_but_endpoints_def
          count_if_update_same counters_endpoints [OF inv] endpoint_ok_def pinned_def
          intro: live_ref_update\<close>)
qed

lemma set_external_access_inv:
  assumes inv: "router_inv r" and op: "scxml_host_router_set_external_access ref enabled r = (st, r')"
  shows "router_inv r'"
proof (cases "st = SALTS_OK")
  case False
  with op inv show ?thesis
    by (auto simp: scxml_host_router_set_external_access_def Let_def split: if_splits)
next
  case True
  let ?i = "unat (ref_slot ref)" let ?p = "r_endpoints r ! ?i"
  from True op have m: "matches r ref"
    and r': "r' = r\<lparr>r_endpoints := (r_endpoints r)[?i := ?p\<lparr>ep_accessible := enabled\<rparr>]\<rparr>"
    by (auto simp: scxml_host_router_set_external_access_def Let_def split: if_splits)
  note D = core_invD [OF router_invD(1) [OF inv]]
  from m have I: "?i < endpoint_capacity r" "ep_live ?p" by (auto simp: matches_def)
  then have mem: "?p \<in> set (r_endpoints r)" by simp
  with D(4) I(2) have par: "pinned (r_endpoints r) (ep_parent ?p)" by (simp add: parents_pinned_def)
  show ?thesis
    by (rule router_inv_endpoint_keep [OF inv, where i = ?i and p = "?p\<lparr>ep_accessible := enabled\<rparr>"])
       (use I endpoints_okD [OF D(11) mem] par in \<open>auto simp: r' same_but_endpoints_def
          count_if_update_same counters_endpoints [OF inv] endpoint_ok_def pinned_def
          intro: live_ref_update\<close>)
qed

section \<open>Aliases and resolution\<close>

lemma bind_invoke_inv:
  assumes inv: "router_inv r" and op: "scxml_host_router_bind_invoke source ident target r = (st, r')"
  shows "router_inv r'"
proof (cases "st = SALTS_OK")
  case False
  with op inv show ?thesis
    by (auto simp: scxml_host_router_bind_invoke_def split: if_splits option.splits)
next
  case True
  with op obtain i where fi: "first_index (\<lambda>rt. \<not> rt_live rt) (r_invoke_routes r) = Some i"
    and m: "matches r source" "matches r target"
    and r': "r' = r\<lparr>r_invoke_routes := (r_invoke_routes r)[i :=
        \<lparr>rt_owner = source, rt_target = target, rt_id = cdata ident, rt_live = True\<rparr>],
        r_invoke_count := r_invoke_count r + 1\<rparr>"
    by (auto simp: scxml_host_router_bind_invoke_def split: if_splits option.splits)
  from first_index_SomeD [OF fi] have I: "i < invoke_capacity r" "\<not> rt_live (r_invoke_routes r ! i)"
    by auto
  note D = core_invD [OF router_invD(1) [OF inv]]
  have "routes_pinned (r_endpoints r) (r_invoke_routes r')"
    using D(5) m by (auto simp: r' routes_pinned_def matches_live_ref dest!: set_update_memD)
  moreover have "counters_ok r'"
    using D(1) I by (simp add: r' counters_ok_def count_if_update_add)
  ultimately show ?thesis
    using D router_invD(2) [OF inv] by (simp add: r' router_inv_def core_inv_def conserved_def)
qed

lemma unbind_invoke_inv:
  assumes inv: "router_inv r" and op: "scxml_host_router_unbind_invoke source ident r = (st, r')"
  shows "router_inv r'"
proof (cases "st = SALTS_OK")
  case False
  with op inv show ?thesis
    by (auto simp: scxml_host_router_unbind_invoke_def split: if_splits option.splits)
next
  case True
  with op obtain i where fi: "first_index (route_for source (cdata ident)) (r_invoke_routes r) = Some i"
    and r': "r' = r\<lparr>r_invoke_routes := (r_invoke_routes r)[i := blank_route],
        r_invoke_count := r_invoke_count r - 1\<rparr>"
    by (auto simp: scxml_host_router_unbind_invoke_def split: if_splits option.splits)
  from first_index_SomeD [OF fi] have I: "i < invoke_capacity r" "rt_live (r_invoke_routes r ! i)"
    by (auto simp: route_for_def)
  note D = core_invD [OF router_invD(1) [OF inv]]
  have "routes_pinned (r_endpoints r) (r_invoke_routes r')"
    using D(5) by (auto simp: r' routes_pinned_def blank_route_def dest!: set_update_memD)
  moreover have "counters_ok r'"
    using D(1) I by (simp add: r' counters_ok_def count_if_update_del blank_route_def)
  ultimately show ?thesis
    using D router_invD(2) [OF inv] by (simp add: r' router_inv_def core_inv_def conserved_def)
qed

lemma resolve_inv:
  "router_inv r \<Longrightarrow> scxml_host_router_resolve source target r = (st, ref, r') \<Longrightarrow> router_inv r'"
  by (auto simp: scxml_host_router_resolve_def split: if_splits prod.splits)

lemma resolve_locked_live:
  "resolve_locked r source target = (SALTS_OK, ref) \<Longrightarrow>
     live_ref (r_endpoints r) ref \<and> live_ref (r_endpoints r) source"
  by (auto simp: resolve_locked_def Let_def matches_live_ref split: if_splits)

section \<open>Send tickets\<close>

lemma reserve_locked_None_inv:
  "router_inv r \<Longrightarrow> reserve_locked target name txt r = (None, r') \<Longrightarrow> router_inv r'"
  by (auto simp: reserve_locked_def split: if_splits option.splits)

lemma reserve_locked_SomeD:
  assumes "core_inv r" "reserve_locked target name txt r = (Some i, r1)"
  shows "i < event_capacity r" "\<not> nonfree (r_rows r ! i)" "r_rows r ! i = blank_row"
    "r_next_row_identity r \<noteq> UINT64_MAX"
    "r1 = r\<lparr>r_rows := (r_rows r)[i := blank_row\<lparr>row_state := ROW_RESERVED,
              row_identity := r_next_row_identity r + 1, row_target := target,
              row_content_kind := (if is_cnull txt then SCXML_CONTENT_INVALID
                                   else SCXML_CONTENT_TEXT_UTF8),
              row_name := name, row_text := cdata txt\<rparr>],
            r_next_row_identity := r_next_row_identity r + 1,
            r_pending := r_pending r + 1, r_reserved := r_reserved r + 1,
            r_high_water := (if r_pending r + 1 > r_high_water r
                             then r_pending r + 1 else r_high_water r)\<rparr>"
proof -
  from assms(2) have fi: "first_index (\<lambda>row. row_state row = ROW_FREE) (r_rows r) = Some i"
    and g: "r_next_row_identity r \<noteq> UINT64_MAX"
    by (auto simp: reserve_locked_def split: if_splits option.splits)
  from first_index_SomeD [OF fi] show i: "i < event_capacity r" and free: "\<not> nonfree (r_rows r ! i)"
    by (auto simp: nonfree_def)
  with core_invD(2) [OF assms(1)] show blank: "r_rows r ! i = blank_row"
    by (auto simp: rows_clean_def)
  show "r_next_row_identity r \<noteq> UINT64_MAX" by (rule g)
  show "r1 = r\<lparr>r_rows := (r_rows r)[i := blank_row\<lparr>row_state := ROW_RESERVED,
              row_identity := r_next_row_identity r + 1, row_target := target,
              row_content_kind := (if is_cnull txt then SCXML_CONTENT_INVALID
                                   else SCXML_CONTENT_TEXT_UTF8),
              row_name := name, row_text := cdata txt\<rparr>],
            r_next_row_identity := r_next_row_identity r + 1,
            r_pending := r_pending r + 1, r_reserved := r_reserved r + 1,
            r_high_water := (if r_pending r + 1 > r_high_water r
                             then r_pending r + 1 else r_high_water r)\<rparr>"
    using assms(2) fi blank by (auto simp: reserve_locked_def split: if_splits)
qed

lemma overcounted_bump:
  "conserved r \<Longrightarrow> overcounted (r\<lparr>r_cancelled := r_cancelled r + 1\<rparr>)"
  "conserved r \<Longrightarrow> overcounted (r\<lparr>r_discarded := r_discarded r + 1\<rparr>)"
  by (simp_all add: conserved_def overcounted_def algebra_simps)

lemma overcounted_statistics [simp]:
  "overcounted (r\<lparr>r_timer_cancelled := x\<rparr>) = overcounted r"
  "overcounted (r\<lparr>r_timer_done_failed := x\<rparr>) = overcounted r"
  by (simp_all add: overcounted_def)

lemma prepare_inv:
  assumes inv: "router_inv r" and op: "scxml_host_router_prepare target name txt r = (st, t, r')"
  shows "router_inv r'"
proof (cases "st = SALTS_OK")
  case False
  with op inv show ?thesis
    by (auto simp: scxml_host_router_prepare_def split: if_splits prod.splits option.splits
        dest: reserve_locked_None_inv)
next
  case True
  with op obtain i r1 where res: "reserve_locked target (cdata name) txt r = (Some i, r1)"
    and m: "matches r target" and r': "r' = r1\<lparr>r_prepared := r_prepared r1 + 1\<rparr>"
    by (auto simp: scxml_host_router_prepare_def split: if_splits prod.splits option.splits)
  note core = router_invD(1) [OF inv]
  note R = reserve_locked_SomeD [OF core res]
  have "core_inv r1"
    by (rule core_inv_alloc [OF core R(1) _ R(2), where row = "r_rows r1 ! i"])
       (use m R(1,4) in \<open>simp_all add: R(5) same_tables_def matches_live_ref reserved_row_def
          blank_row_def\<close>)
  moreover have "conserved r'"
    using router_invD(2) [OF inv] by (simp add: r' R(5) conserved_def algebra_simps)
  ultimately show ?thesis by (simp add: router_inv_def r')
qed

lemma prepare_target_OK:
  assumes "scxml_host_router_prepare_target source target name send_id content delay_ms r
             = (SALTS_OK, t, r')"
  obtains i r1 resolved kind body where
    "reserve_locked resolved (cdata name) body r = (Some i, r1)" "t = Some i"
    "resolve_locked r source (cdata target) = (SALTS_OK, resolved)"
    "delay_ms \<noteq> 0 \<Longrightarrow> r_timer_pending r < r_timer_capacity r"
    "delay_ms \<noteq> 0 \<Longrightarrow> \<not> (\<exists>row\<in>set (r_rows r). pending_delayed source (cdata send_id) row)"
    "kind = (case content of None \<Rightarrow> SCXML_CONTENT_INVALID | Some c \<Rightarrow> cv_kind c)"
    "body = (case content of None \<Rightarrow> CNull 0 | Some c \<Rightarrow> cv_bytes c)"
    "r' = r1\<lparr>r_rows := (r_rows r1)[i := (r_rows r1 ! i)\<lparr>
             row_source := source, row_delay_ms := delay_ms,
             row_content_kind := kind, row_send_id := cdata send_id\<rparr>],
          r_timer_pending := (if delay_ms \<noteq> 0 then r_timer_pending r1 + 1 else r_timer_pending r1),
          r_prepared := r_prepared r1 + 1\<rparr>"
  using assms unfolding scxml_host_router_prepare_target_def Let_def
  by (auto split: if_splits prod.splits option.splits simp: not_le)

lemma prepare_target_not_OK_inv:
  assumes "router_inv r" "st \<noteq> SALTS_OK"
    "scxml_host_router_prepare_target source target name send_id content delay_ms r = (st, t, r')"
  shows "router_inv r'"
  using assms unfolding scxml_host_router_prepare_target_def Let_def
  by (auto split: if_splits prod.splits option.splits dest: reserve_locked_None_inv)

lemma prepare_target_inv:
  assumes inv: "router_inv r"
    and op: "scxml_host_router_prepare_target source target name send_id content delay_ms r = (st, t, r')"
  shows "router_inv r'"
proof (cases "st = SALTS_OK")
  case False
  from prepare_target_not_OK_inv [OF inv False op] show ?thesis .
next
  case True
  with op have "scxml_host_router_prepare_target source target name send_id content delay_ms r
             = (SALTS_OK, t, r')" by simp
  then obtain i r1 resolved kind body where
    res: "reserve_locked resolved (cdata name) body r = (Some i, r1)"
    and rs: "resolve_locked r source (cdata target) = (SALTS_OK, resolved)"
    and room: "delay_ms \<noteq> 0 \<Longrightarrow> r_timer_pending r < r_timer_capacity r"
    and fresh: "delay_ms \<noteq> 0 \<Longrightarrow> \<not> (\<exists>row\<in>set (r_rows r). pending_delayed source (cdata send_id) row)"
    and r': "r' = r1\<lparr>r_rows := (r_rows r1)[i := (r_rows r1 ! i)\<lparr>
             row_source := source, row_delay_ms := delay_ms,
             row_content_kind := kind, row_send_id := cdata send_id\<rparr>],
          r_timer_pending := (if delay_ms \<noteq> 0 then r_timer_pending r1 + 1 else r_timer_pending r1),
          r_prepared := r_prepared r1 + 1\<rparr>"
    by (rule prepare_target_OK) blast
  note core = router_invD(1) [OF inv]
  note R = reserve_locked_SomeD [OF core res]
  from resolve_locked_live [OF rs] have live: "live_ref (r_endpoints r) resolved"
    "live_ref (r_endpoints r) source" by auto
  then have src: "refs_equal source source" by (simp add: refs_equal_def live_ref_def)
  have uniq: "row_send_id x \<noteq> cdata send_id"
    if "delay_ms \<noteq> 0" "x \<in> set (r_rows r)" "timed x" "row_source x = source" for x
    using fresh [OF that(1)] that src by (auto simp: pending_delayed_def timed_def)
  have "core_inv r'"
    by (rule core_inv_alloc [OF core R(1) _ R(2), where row = "r_rows r' ! i"])
       (use R(1,4) live room uniq in \<open>simp_all add: r' R(5) same_tables_def pinned_live
          reserved_row_def blank_row_def\<close>)
  moreover have "conserved r'"
    using router_invD(2) [OF inv] by (simp add: r' R(5) conserved_def algebra_simps)
  ultimately show ?thesis by (simp add: router_inv_def)
qed

lemma commit_locked_inv:
  assumes inv: "router_inv r" and i: "i < event_capacity r"
  shows "router_inv (commit_locked clk i r)"
proof -
  let ?row = "r_rows r ! i"
  note core = router_invD(1) [OF inv]
  consider (bad) "row_state ?row \<noteq> ROW_RESERVED"
    | (drop) "row_state ?row = ROW_RESERVED"
        "r_closed r \<or> \<not> matches r (row_target ?row) \<or> r_next_sequence r = UINT64_MAX"
    | (publish) "row_state ?row = ROW_RESERVED"
        "\<not> (r_closed r \<or> \<not> matches r (row_target ?row) \<or> r_next_sequence r = UINT64_MAX)"
    by blast
  then show ?thesis
  proof cases
    case bad
    with inv show ?thesis by (simp add: commit_locked_def)
  next
    case drop
    then have "commit_locked clk i r = release_locked i (r\<lparr>r_cancelled := r_cancelled r + 1\<rparr>)"
      by (simp add: commit_locked_def)
    moreover have "router_inv (release_locked i (r\<lparr>r_cancelled := r_cancelled r + 1\<rparr>))"
      by (rule router_inv_release)
         (use core i drop(1) overcounted_bump(1) [OF router_invD(2) [OF inv]] in
           \<open>simp_all add: nonfree_def\<close>)
    ultimately show ?thesis by simp
  next
    case publish
    have "core_inv (commit_locked clk i r)"
      by (rule core_inv_publish [OF core i, where
            row = "r_rows (commit_locked clk i r) ! i"])
         (use publish i in \<open>auto simp: commit_locked_def Let_def same_tables_def row_kind_defs\<close>)
    moreover have "conserved (commit_locked clk i r)"
      using publish router_invD(2) [OF inv] by (simp add: commit_locked_def Let_def conserved_def)
    ultimately show ?thesis by (simp add: router_inv_def)
  qed
qed

lemma ticket_commit_inv:
  "router_inv r \<Longrightarrow> i < event_capacity r \<Longrightarrow> router_inv (ticket_commit clk i r)"
  by (simp add: ticket_commit_def commit_locked_inv)

lemma ticket_discard_inv:
  assumes inv: "router_inv r" and i: "i < event_capacity r"
  shows "router_inv (ticket_discard i r)"
proof (cases "row_state (r_rows r ! i) = ROW_RESERVED")
  case False
  with inv show ?thesis by (simp add: ticket_discard_def)
next
  case True
  then have "ticket_discard i r = release_locked i (r\<lparr>r_discarded := r_discarded r + 1\<rparr>)"
    by (simp add: ticket_discard_def)
  moreover have "router_inv (release_locked i (r\<lparr>r_discarded := r_discarded r + 1\<rparr>))"
    by (rule router_inv_release)
       (use router_invD [OF inv] i True overcounted_bump(2) in \<open>simp_all add: nonfree_def\<close>)
  ultimately show ?thesis by simp
qed

lemma enqueue_inv:
  assumes inv: "router_inv r" and op: "scxml_host_router_enqueue clk target name txt r = (st, r')"
  shows "router_inv r'"
proof (cases "st = SALTS_OK")
  case False
  with op inv show ?thesis
    by (auto simp: scxml_host_router_enqueue_def split: if_splits prod.splits option.splits
        dest: reserve_locked_None_inv)
next
  case True
  with op obtain i r1 where res: "reserve_locked target (cdata name) txt r = (Some i, r1)"
    and v: "valid_fields r name txt" "\<not> r_closed r" "matches r target"
    and r': "r' = commit_locked clk i (r1\<lparr>r_prepared := r_prepared r1 + 1\<rparr>)"
    by (auto simp: scxml_host_router_enqueue_def split: if_splits prod.splits option.splits)
  have "scxml_host_router_prepare target name txt r =
      (SALTS_OK, Some i, r1\<lparr>r_prepared := r_prepared r1 + 1\<rparr>)"
    using v res by (simp add: scxml_host_router_prepare_def)
  from prepare_inv [OF inv this] show ?thesis
    using reserve_locked_SomeD(1,5) [OF router_invD(1) [OF inv] res]
    by (simp add: r' commit_locked_inv)
qed

section \<open>Cancellation tickets\<close>

lemma router_inv_cancel_rows:
  assumes inv: "router_inv r" and k: "k < cancel_capacity r"
    and r': "r' = r\<lparr>r_cancel_rows := (r_cancel_rows r)[k := cx], r_cancel_pending := n\<rparr>"
    and n: "n = count_if cx_in_use ((r_cancel_rows r)[k := cx])"
    and live: "cx_in_use cx \<Longrightarrow> live_ref (r_endpoints r) (cx_source cx)"
    and bound: "\<And>i. cx_target cx = Some i \<Longrightarrow> i < event_capacity r"
  shows "router_inv r'"
proof -
  note D = core_invD [OF router_invD(1) [OF inv]]
  have "cancels_pinned (r_endpoints r) ((r_cancel_rows r)[k := cx])"
    using D(6) live by (auto simp: cancels_pinned_def dest!: set_update_memD)
  moreover have "cancels_bounded (event_capacity r) ((r_cancel_rows r)[k := cx])"
    using D(7) bound by (auto simp: cancels_bounded_def dest!: set_update_memD)
  moreover have "counters_ok r'"
    using D(1) n by (simp add: r' counters_ok_def)
  ultimately show ?thesis
    using D router_invD(2) [OF inv] by (simp add: r' router_inv_def core_inv_def conserved_def)
qed

lemma cancel_release_inv:
  assumes inv: "router_inv r" and k: "k < cancel_capacity r"
  shows "router_inv (cancel_release_locked k r)"
proof (cases "\<not> cx_in_use (r_cancel_rows r ! k) \<or> r_cancel_pending r = 0")
  case True
  with inv show ?thesis by (simp add: cancel_release_locked_def)
next
  case False
  have "r_cancel_pending r = count_if cx_in_use (r_cancel_rows r)"
    using core_invD(1) [OF router_invD(1) [OF inv]] by (simp add: counters_ok_def)
  with False k show ?thesis
    by (intro router_inv_cancel_rows [OF inv k, where cx = blank_cancel and n = "r_cancel_pending r - 1"])
       (simp_all add: cancel_release_locked_def count_if_update_del blank_cancel_def)
qed

lemma prepare_cancel_inv:
  assumes inv: "router_inv r" and op: "scxml_host_router_prepare_cancel source send_id r = (st, t, r')"
  shows "router_inv r'"
proof (cases "st = SALTS_OK")
  case False
  with op inv show ?thesis
    by (auto simp: scxml_host_router_prepare_cancel_def split: if_splits option.splits)
next
  case True
  with op obtain i k where m: "matches r source"
    and fi: "first_index (cancel_candidate source (cdata send_id)) (r_rows r) = Some i"
    and fk: "first_index (\<lambda>cx. \<not> cx_in_use cx) (r_cancel_rows r) = Some k"
    and r': "r' = r\<lparr>r_cancel_rows := (r_cancel_rows r)[k :=
           \<lparr>cx_target = Some i, cx_source = source,
            cx_target_identity = row_identity (r_rows r ! i), cx_in_use = True\<rparr>],
         r_cancel_pending := r_cancel_pending r + 1,
         r_cancel_prepared := r_cancel_prepared r + 1\<rparr>"
    by (auto simp: scxml_host_router_prepare_cancel_def split: if_splits option.splits)
  from first_index_SomeD [OF fk] have K: "k < cancel_capacity r" "\<not> cx_in_use (r_cancel_rows r ! k)"
    by auto
  from first_index_SomeD [OF fi] have I: "i < event_capacity r" by auto
  have n: "r_cancel_pending r = count_if cx_in_use (r_cancel_rows r)"
    using core_invD(1) [OF router_invD(1) [OF inv]] by (simp add: counters_ok_def)
  let ?cx = "\<lparr>cx_target = Some i, cx_source = source,
            cx_target_identity = row_identity (r_rows r ! i), cx_in_use = True\<rparr>"
  have "router_inv (r\<lparr>r_cancel_rows := (r_cancel_rows r)[k := ?cx],
         r_cancel_pending := r_cancel_pending r + 1\<rparr>)"
    by (rule router_inv_cancel_rows [OF inv K(1), where cx = ?cx and n = "r_cancel_pending r + 1"])
       (use K n I m in \<open>auto simp: count_if_update_add matches_live_ref\<close>)
  moreover have "r' = (r\<lparr>r_cancel_rows := (r_cancel_rows r)[k := ?cx],
         r_cancel_pending := r_cancel_pending r + 1\<rparr>)\<lparr>r_cancel_prepared := r_cancel_prepared r + 1\<rparr>"
    by (simp add: r')
  ultimately show ?thesis by (simp add: router_inv_def conserved_def)
qed

lemma cancel_apply_inv:
  assumes inv: "router_inv r" and cx: "\<And>i. cx_target cx = Some i \<Longrightarrow> i < event_capacity r"
  shows "router_inv (cancel_apply cx r)"
proof (cases "cx_target cx")
  case None
  with inv show ?thesis by (simp add: cancel_apply_def)
next
  case (Some i)
  let ?row = "r_rows r ! i"
  have i: "i < event_capacity r" using cx Some by simp
  note core = router_invD(1) [OF inv]
  consider (won) "row_identity ?row = cx_target_identity cx"
      "refs_equal (row_source ?row) (cx_source cx)"
      "row_state ?row = ROW_RESERVED \<or> row_state ?row = ROW_DELAYED"
    | (firing) "row_identity ?row = cx_target_identity cx" "row_state ?row = ROW_FIRING"
    | (other) "\<not> (row_identity ?row = cx_target_identity cx \<and>
        refs_equal (row_source ?row) (cx_source cx) \<and>
        (row_state ?row = ROW_RESERVED \<or> row_state ?row = ROW_DELAYED))"
        "\<not> (row_identity ?row = cx_target_identity cx \<and> row_state ?row = ROW_FIRING)"
    by blast
  then show ?thesis
  proof cases
    case won
    then have "cancel_apply cx r = release_locked i
        (r\<lparr>r_timer_cancelled := r_timer_cancelled r + 1, r_cancelled := r_cancelled r + 1\<rparr>)"
      using Some by (simp add: cancel_apply_def)
    moreover have "router_inv (release_locked i
        (r\<lparr>r_timer_cancelled := r_timer_cancelled r + 1, r_cancelled := r_cancelled r + 1\<rparr>))"
      by (rule router_inv_release)
         (use core i won overcounted_bump(1) [OF router_invD(2) [OF inv]] in
           \<open>auto simp: nonfree_def overcounted_def\<close>)
    ultimately show ?thesis by simp
  next
    case firing
    have "core_inv (r\<lparr>r_rows := (r_rows r)[i := ?row\<lparr>row_fire_won_cancel := True\<rparr>]\<rparr>)"
      by (rule core_inv_restate [OF core i, where row = "?row\<lparr>row_fire_won_cancel := True\<rparr>"])
         (use firing awaiting_delay [OF core i] in \<open>auto simp: same_tables_def row_kind_defs\<close>)
    with firing Some router_invD(2) [OF inv] show ?thesis
      by (simp add: cancel_apply_def router_inv_def conserved_def)
  next
    case other
    then have "cancel_apply cx r = r\<lparr>r_cancel_fire_won := r_cancel_fire_won r + 1\<rparr>"
      using Some by (auto simp: cancel_apply_def Let_def)
    with inv show ?thesis by simp
  qed
qed

lemma cancel_apply_frame [simp]:
  "r_cancel_rows (cancel_apply cx r) = r_cancel_rows r"
  "r_endpoints (cancel_apply cx r) = r_endpoints r"
  "event_capacity (cancel_apply cx r) = event_capacity r"
  "r_closed (cancel_apply cx r) = r_closed r"
  by (simp_all add: cancel_apply_def Let_def split: option.splits)

lemma cancel_commit_inv:
  assumes inv: "router_inv r" and k: "k < cancel_capacity r"
  shows "router_inv (cancel_commit k r)"
proof (cases "cx_in_use (r_cancel_rows r ! k)")
  case False
  with inv show ?thesis by (simp add: cancel_commit_def)
next
  case True
  have "r_cancel_rows r ! k \<in> set (r_cancel_rows r)" using k by simp
  then have "cx_target (r_cancel_rows r ! k) = Some i \<Longrightarrow> i < event_capacity r" for i
    using core_invD(7) [OF router_invD(1) [OF inv]] by (auto simp: cancels_bounded_def)
  then have "router_inv (cancel_apply (r_cancel_rows r ! k) r)" by (rule cancel_apply_inv [OF inv])
  with True k show ?thesis by (simp add: cancel_commit_def Let_def cancel_release_inv)
qed

lemma cancel_discard_inv:
  "router_inv r \<Longrightarrow> k < cancel_capacity r \<Longrightarrow> router_inv (cancel_discard k r)"
  by (simp add: cancel_discard_def cancel_release_inv)

section \<open>Timers and delivery\<close>

interpretation due_order: row_order due_before
  by unfold_locales (auto simp: due_before_def)

interpretation sequence_order: row_order sequence_before
  by unfold_locales (auto simp: sequence_before_def)

lemma run_due_claimD:
  assumes "run_due_claim clk r = Due_Claimed i s sid r1"
  shows "\<not> r_closed r" "i < event_capacity r" "due_row clk r (r_rows r ! i)"
    "\<And>x. x \<in> set (r_rows r) \<Longrightarrow> due_row clk r x \<Longrightarrow> \<not> due_before x (r_rows r ! i)"
    "s = ep_session (r_endpoints r ! unat (ref_slot (row_source (r_rows r ! i))))"
    "sid = row_send_id (r_rows r ! i)"
    "r1 = r\<lparr>r_rows := (r_rows r)[i := (r_rows r ! i)\<lparr>row_state := ROW_FIRING\<rparr>]\<rparr>"
proof -
  from assms have e: "earliest_row (due_row clk r) due_before (r_rows r) = Some i"
    by (auto simp: run_due_claim_def Let_def split: if_splits option.splits)
  note S = due_order.earliest_row_SomeD [OF e]
  show "\<not> r_closed r" using assms by (rule run_due_claim_not_closed)
  show "i < event_capacity r" "due_row clk r (r_rows r ! i)" using S by auto
  show "\<And>x. x \<in> set (r_rows r) \<Longrightarrow> due_row clk r x \<Longrightarrow> \<not> due_before x (r_rows r ! i)" using S by blast
  show "s = ep_session (r_endpoints r ! unat (ref_slot (row_source (r_rows r ! i))))"
    "sid = row_send_id (r_rows r ! i)"
    "r1 = r\<lparr>r_rows := (r_rows r)[i := (r_rows r ! i)\<lparr>row_state := ROW_FIRING\<rparr>]\<rparr>"
    using assms e by (auto simp: run_due_claim_def Let_def split: if_splits)
qed

lemma run_due_claim_inv:
  assumes inv: "router_inv r" and op: "run_due_claim clk r = Due_Claimed i s sid r1"
  shows "router_inv r1"
proof -
  note C = run_due_claimD [OF op]
  have "core_inv r1"
    by (rule core_inv_restate [OF router_invD(1) [OF inv] C(2), where
          row = "(r_rows r ! i)\<lparr>row_state := ROW_FIRING\<rparr>"])
       (use C(3) awaiting_delay [OF router_invD(1) [OF inv] C(2)] in
         \<open>auto simp: C(7) same_tables_def row_kind_defs due_row_def\<close>)
  with router_invD(2) [OF inv] show ?thesis by (simp add: C(7) router_inv_def conserved_def)
qed

lemma run_due_settle_inv:
  assumes inv: "router_inv r" and i: "i < event_capacity r"
    and op: "run_due_settle i settled r = (st, fired, r')"
  shows "router_inv r'"
proof -
  let ?row = "r_rows r ! i" let ?lost = "\<not> settled \<and> \<not> cancel_raced i r"
  note core = router_invD(1) [OF inv]
  consider (bad) "row_state ?row \<noteq> ROW_FIRING"
    | (drop) "row_state ?row = ROW_FIRING" "?lost \<or> r_closed r"
    | (fire) "row_state ?row = ROW_FIRING" "\<not> (?lost \<or> r_closed r)"
    by blast
  then show ?thesis
  proof cases
    case bad
    with op inv show ?thesis by (auto simp: run_due_settle_def Let_def)
  next
    case drop
    define r1 where "r1 = (if ?lost then r\<lparr>r_timer_done_failed := r_timer_done_failed r + 1\<rparr> else r)"
    have r': "r' = release_locked i (r1\<lparr>r_timer_cancelled := r_timer_cancelled r1 + 1,
        r_cancelled := r_cancelled r1 + 1\<rparr>)"
      using drop op by (auto simp: run_due_settle_def Let_def r1_def)
    have "router_inv r1" "r_rows r1 = r_rows r" using inv by (simp_all add: r1_def)
    then have "router_inv (release_locked i (r1\<lparr>r_timer_cancelled := r_timer_cancelled r1 + 1,
        r_cancelled := r_cancelled r1 + 1\<rparr>))"
      by (intro router_inv_release)
         (use i drop(1) in \<open>auto simp: nonfree_def router_inv_def overcounted_def conserved_def\<close>)
    then show ?thesis by (simp add: r')
  next
    case fire
    have "?row \<in> set (r_rows r)" using i by simp
    with core_invD(2) [OF core] fire(1) have "timed ?row"
      by (auto simp: rows_clean_def row_kind_defs)
    with counters_timer_pos [OF core_invD(1) [OF core] i] have "r_timer_pending r \<noteq> 0" by auto
    then have r': "r' = r\<lparr>r_timer_pending := r_timer_pending r - 1,
        r_rows := (r_rows r)[i := ?row\<lparr>row_state := ROW_READY\<rparr>],
        r_timer_fired := r_timer_fired r + 1\<rparr>"
      using fire op by (auto simp: run_due_settle_def Let_def)
    have "core_inv r'"
      by (rule core_inv_restate [OF core i, where row = "?row\<lparr>row_state := ROW_READY\<rparr>"])
         (use fire(1) \<open>timed ?row\<close> in \<open>auto simp: r' same_tables_def row_kind_defs\<close>)
    with router_invD(2) [OF inv] show ?thesis by (simp add: r' router_inv_def conserved_def)
  qed
qed

lemma drain_claimD:
  assumes "drain_claim r = Drain_Claimed i s name md r1"
  shows "\<not> r_closed r" "i < event_capacity r" "ready_row (r_rows r ! i)"
    "\<And>x. x \<in> set (r_rows r) \<Longrightarrow> ready_row x \<Longrightarrow> \<not> sequence_before x (r_rows r ! i)"
    "matches r (row_target (r_rows r ! i))"
    "s = ep_session (r_endpoints r ! unat (ref_slot (row_target (r_rows r ! i))))"
    "name = row_name (r_rows r ! i)" "md = row_metadata r (r_rows r ! i)"
    "r1 = r\<lparr>r_rows := (r_rows r)[i := (r_rows r ! i)\<lparr>row_state := ROW_INFLIGHT\<rparr>]\<rparr>"
proof -
  from assms have e: "earliest_row ready_row sequence_before (r_rows r) = Some i"
    by (auto simp: drain_claim_def Let_def split: if_splits option.splits)
  note S = sequence_order.earliest_row_SomeD [OF e]
  show "i < event_capacity r" "ready_row (r_rows r ! i)" using S by auto
  show "\<And>x. x \<in> set (r_rows r) \<Longrightarrow> ready_row x \<Longrightarrow> \<not> sequence_before x (r_rows r ! i)" using S by blast
  show "\<not> r_closed r" "matches r (row_target (r_rows r ! i))"
    "s = ep_session (r_endpoints r ! unat (ref_slot (row_target (r_rows r ! i))))"
    "name = row_name (r_rows r ! i)" "md = row_metadata r (r_rows r ! i)"
    "r1 = r\<lparr>r_rows := (r_rows r)[i := (r_rows r ! i)\<lparr>row_state := ROW_INFLIGHT\<rparr>]\<rparr>"
    using assms e by (auto simp: drain_claim_def Let_def split: if_splits)
qed

lemma drain_claim_inv:
  assumes inv: "router_inv r" and op: "drain_claim r = Drain_Claimed i s name md r1"
  shows "router_inv r1"
proof -
  note C = drain_claimD [OF op]
  have "core_inv r1"
    by (rule core_inv_restate [OF router_invD(1) [OF inv] C(2), where
          row = "(r_rows r ! i)\<lparr>row_state := ROW_INFLIGHT\<rparr>"])
       (use C(3) in \<open>auto simp: C(9) same_tables_def row_kind_defs ready_row_def\<close>)
  with router_invD(2) [OF inv] show ?thesis by (simp add: C(9) router_inv_def conserved_def)
qed

lemma drain_break_inv:
  "router_inv r \<Longrightarrow> drain_claim r = Drain_Break st r1 \<Longrightarrow> router_inv r1"
  by (auto simp: drain_claim_def Let_def split: if_splits option.splits)

lemma drain_settle_inv:
  assumes inv: "router_inv r" and i: "i < event_capacity r"
    and op: "drain_settle i status r = (st, delivered, r')"
  shows "router_inv r'"
proof -
  let ?row = "r_rows r ! i"
  note core = router_invD(1) [OF inv]
  consider (bad) "row_state ?row \<noteq> ROW_INFLIGHT"
    | (ok) "row_state ?row = ROW_INFLIGHT" "status = CFLOW_MAILBOX_OK"
    | (closed) "row_state ?row = ROW_INFLIGHT" "status \<noteq> CFLOW_MAILBOX_OK" "r_closed r"
    | (retry) "row_state ?row = ROW_INFLIGHT" "status \<noteq> CFLOW_MAILBOX_OK" "\<not> r_closed r"
    by blast
  then show ?thesis
  proof cases
    case bad
    with op inv show ?thesis by (auto simp: drain_settle_def Let_def)
  next
    case ok
    then have nf: "nonfree ?row" by (simp add: nonfree_def)
    have r': "r' = (release_locked i r)\<lparr>r_delivered := r_delivered r + 1\<rparr>"
      using ok op by (auto simp: drain_settle_def Let_def)
    have "conserved r'"
      using router_invD(2) [OF inv] counters_pending_pos [OF core_invD(1) [OF core] i nf]
      by (simp add: r' conserved_def release_locked_eq [OF core_invD(1) [OF core] i nf] of_nat_pred algebra_simps)
    with core_inv_release [OF core i nf] show ?thesis by (simp add: r' router_inv_def)
  next
    case closed
    then have "r' = release_locked i (r\<lparr>r_cancelled := r_cancelled r + 1\<rparr>)"
      using op by (auto simp: drain_settle_def Let_def)
    moreover have "router_inv (release_locked i (r\<lparr>r_cancelled := r_cancelled r + 1\<rparr>))"
      by (rule router_inv_release)
         (use core i closed(1) overcounted_bump(1) [OF router_invD(2) [OF inv]] in
           \<open>simp_all add: nonfree_def\<close>)
    ultimately show ?thesis by simp
  next
    case retry
    let ?r = "r\<lparr>r_rows := (r_rows r)[i := ?row\<lparr>row_state := ROW_READY\<rparr>]\<rparr>"
    have "core_inv ?r"
      by (rule core_inv_restate [OF core i, where row = "?row\<lparr>row_state := ROW_READY\<rparr>"])
         (use retry(1) in \<open>auto simp: same_tables_def row_kind_defs\<close>)
    then have "router_inv ?r"
      using router_invD(2) [OF inv] by (simp add: router_inv_def conserved_def)
    then show ?thesis using retry op by (auto simp: drain_settle_def Let_def split: if_splits)
  qed
qed

section \<open>Loops that drop rows\<close>

lemma cancel_row_if_inv:
  assumes "router_inv r" "i < event_capacity r" "P (r_rows r ! i) \<Longrightarrow> nonfree (r_rows r ! i)"
  shows "router_inv (fst (cancel_row_if P i (r, n)))"
proof (cases "P (r_rows r ! i)")
  case False
  with assms show ?thesis by (simp add: cancel_row_if_def Let_def)
next
  case True
  define r1 where "r1 = (if row_state (r_rows r ! i) = ROW_DELAYED
     then r\<lparr>r_timer_cancelled := r_timer_cancelled r + 1\<rparr> else r)"
  have r1: "router_inv r1" "r_rows r1 = r_rows r" using assms(1) by (simp_all add: r1_def)
  have nf: "nonfree (r_rows r1 ! i)" "i < event_capacity r1" using assms True r1 by simp_all
  note core = router_invD(1) [OF r1(1)]
  have "conserved ((release_locked i r1)\<lparr>r_cancelled := r_cancelled (release_locked i r1) + 1\<rparr>)"
    using router_invD(2) [OF r1(1)] counters_pending_pos [OF core_invD(1) [OF core] nf(2,1)]
    by (simp add: conserved_def release_locked_eq [OF core_invD(1) [OF core] nf(2,1)] of_nat_pred
        algebra_simps)
  with core_inv_release [OF core nf(2,1)] True show ?thesis
    by (simp add: cancel_row_if_def Let_def r1_def [symmetric] router_inv_def)
qed

lemma cancel_row_if_frame [simp]:
  "r_endpoints (fst (cancel_row_if P i st)) = r_endpoints (fst st)"
  "r_invoke_routes (fst (cancel_row_if P i st)) = r_invoke_routes (fst st)"
  "r_cancel_rows (fst (cancel_row_if P i st)) = r_cancel_rows (fst st)"
  "r_closed (fst (cancel_row_if P i st)) = r_closed (fst st)"
  "event_capacity (fst (cancel_row_if P i st)) = event_capacity (fst st)"
  by (simp_all add: cancel_row_if_def Let_def split: prod.splits)

lemma fold_cancel_inv:
  assumes "\<And>row. P row \<Longrightarrow> nonfree row"
  shows "router_inv (fst st) \<Longrightarrow> \<forall>i\<in>set is. i < event_capacity (fst st) \<Longrightarrow>
    router_inv (fst (fold (cancel_row_if P) is st))"
proof (induction "is" arbitrary: st)
  case Nil
  then show ?case by simp
next
  case (Cons i "is")
  have "router_inv (fst (cancel_row_if P i st))"
    using cancel_row_if_inv [of "fst st" i P "snd st"] Cons.prems assms by simp
  with Cons show ?case by simp
qed

lemma cancel_rows_inv:
  "router_inv r \<Longrightarrow> (\<And>row. P row \<Longrightarrow> nonfree row) \<Longrightarrow> router_inv (fst (cancel_rows P r))"
  unfolding cancel_rows_def by (rule fold_cancel_inv) auto

lemma abort_locked_inv:
  assumes "router_inv r" "abort_locked ref r = (st, r')" shows "router_inv r'"
proof -
  have "router_inv (fst (cancel_rows (\<lambda>row. (row_state row = ROW_READY \<or> row_state row = ROW_DELAYED) \<and>
      (refs_equal (row_source row) ref \<or> refs_equal (row_target row) ref)) r))"
    by (rule cancel_rows_inv [OF assms(1)]) (auto simp: nonfree_def)
  with assms show ?thesis by (auto simp: abort_locked_def split: if_splits)
qed

lemma abort_inv:
  assumes "router_inv r" "scxml_host_router_abort ref r = (st, r')" shows "router_inv r'"
  using assms by (auto simp: scxml_host_router_abort_def split: prod.splits if_splits
      intro: abort_locked_inv detach_inv)

lemma cancel_inv:
  assumes "router_inv r" "scxml_host_router_cancel target r = (st, n, r')" shows "router_inv r'"
proof -
  have "router_inv (fst (cancel_rows (\<lambda>row. row_state row = ROW_READY \<and>
      ref_slot (row_target row) = ref_slot target \<and>
      ref_generation (row_target row) = ref_generation target) r))"
    by (rule cancel_rows_inv [OF assms(1)]) (auto simp: nonfree_def)
  with assms show ?thesis by (auto simp: scxml_host_router_cancel_def split: if_splits prod.splits)
qed

lemma cancel_source_inv:
  assumes "router_inv r" "scxml_host_router_cancel_source source r = (st, n, r')"
  shows "router_inv r'"
proof -
  have "router_inv (fst (cancel_rows (\<lambda>row. (row_state row = ROW_READY \<or> row_state row = ROW_DELAYED) \<and>
      refs_equal (row_source row) source) r))"
    by (rule cancel_rows_inv [OF assms(1)]) (auto simp: nonfree_def)
  with assms show ?thesis by (auto simp: scxml_host_router_cancel_source_def split: if_splits prod.splits)
qed

lemma close_inv:
  assumes "router_inv r" "scxml_host_router_close r = (st, r')" shows "router_inv r'"
proof -
  have "router_inv (fst (cancel_rows (\<lambda>row. row_state row = ROW_READY \<or> row_state row = ROW_DELAYED)
      (r\<lparr>r_closed := True\<rparr>)))"
    by (rule cancel_rows_inv) (use assms(1) in \<open>auto simp: nonfree_def\<close>)
  with assms show ?thesis by (auto simp: scxml_host_router_close_def split: if_splits)
qed

end
