(* ===== verification/Host_Router_Safety.thy ===== *)
theory Host_Router_Safety
  imports Host_Router_Inv
begin

text \<open>
  The router as a transition system and what holds in every reachable state. One rule of
  \<open>router_step\<close> is one section under the router mutex, so a run is any interleaving of
  the threads that use the router, also in the middle of a drain or of a timer pass.
\<close>

section \<open>The transition system\<close>

inductive router_step :: "host_router \<Rightarrow> host_router \<Rightarrow> bool" where
  reserve: "scxml_host_router_reserve r = (st, ref, r') \<Longrightarrow> router_step r r'"
| activate: "scxml_host_router_activate loc ref s r = (st, r') \<Longrightarrow> router_step r r'"
| attach: "scxml_host_router_attach loc s r = (st, ref, r') \<Longrightarrow> router_step r r'"
| detach: "scxml_host_router_detach ref r = (st, r') \<Longrightarrow> router_step r r'"
| abort: "abort_locked ref r = (st, r') \<Longrightarrow> router_step r r'"
| set_parent: "scxml_host_router_set_parent child parent r = (st, r') \<Longrightarrow> router_step r r'"
| access: "scxml_host_router_set_external_access ref b r = (st, r') \<Longrightarrow> router_step r r'"
| bind: "scxml_host_router_bind_invoke source ident target r = (st, r') \<Longrightarrow> router_step r r'"
| unbind: "scxml_host_router_unbind_invoke source ident r = (st, r') \<Longrightarrow> router_step r r'"
| resolve: "scxml_host_router_resolve source addr r = (st, ref, r') \<Longrightarrow> router_step r r'"
| prepare_target: "scxml_host_router_prepare_target source addr name sid content delay r = (st, t, r')
    \<Longrightarrow> router_step r r'"
| prepare: "scxml_host_router_prepare target name body r = (st, t, r') \<Longrightarrow> router_step r r'"
| enqueue: "scxml_host_router_enqueue clk target name body r = (st, r') \<Longrightarrow> router_step r r'"
| commit: "i < event_capacity r \<Longrightarrow> router_step r (ticket_commit clk i r)"
| discard: "i < event_capacity r \<Longrightarrow> router_step r (ticket_discard i r)"
| prepare_cancel: "scxml_host_router_prepare_cancel source sid r = (st, t, r') \<Longrightarrow> router_step r r'"
| cancel_commit: "k < cancel_capacity r \<Longrightarrow> router_step r (cancel_commit k r)"
| cancel_discard: "k < cancel_capacity r \<Longrightarrow> router_step r (cancel_discard k r)"
| run_due_begin: "run_due_begin r = (st, r') \<Longrightarrow> router_step r r'"
| run_due_claim: "run_due_claim clk r = Due_Claimed i s sid r' \<Longrightarrow> router_step r r'"
| run_due_settle: "i < event_capacity r \<Longrightarrow> run_due_settle i settled r = (st, fired, r') \<Longrightarrow>
    router_step r r'"
| run_due_end: "router_step r (r\<lparr>r_timer_running := False\<rparr>)"
| drain_begin: "drain_begin r = (mst, r') \<Longrightarrow> router_step r r'"
| drain_claim: "drain_claim r = Drain_Claimed i s name md r' \<Longrightarrow> router_step r r'"
| drain_break: "drain_claim r = Drain_Break mst r' \<Longrightarrow> router_step r r'"
| drain_settle: "i < event_capacity r \<Longrightarrow> drain_settle i status r = (mst, delivered, r') \<Longrightarrow>
    router_step r r'"
| drain_end: "router_step r (r\<lparr>r_draining := False\<rparr>)"
| cancel: "scxml_host_router_cancel target r = (st, n, r') \<Longrightarrow> router_step r r'"
| cancel_source: "scxml_host_router_cancel_source source r = (st, n, r') \<Longrightarrow> router_step r r'"
| close: "scxml_host_router_close r = (st, r') \<Longrightarrow> router_step r r'"

inductive router_steps :: "host_router \<Rightarrow> host_router \<Rightarrow> bool" where
  refl: "router_steps r r"
| step: "router_steps r r' \<Longrightarrow> router_step r' r'' \<Longrightarrow> router_steps r r''"

text \<open>A router that came out of a successful initialisation, after any run.\<close>

inductive router_reachable :: "host_router \<Rightarrow> bool" where
  init: "scxml_host_router_init abi clk alloc_ok None cfg = (SALTS_OK, Some r) \<Longrightarrow> router_reachable r"
| step: "router_reachable r \<Longrightarrow> router_step r r' \<Longrightarrow> router_reachable r'"

lemma router_reachable_steps: "router_steps r r' \<Longrightarrow> router_reachable r \<Longrightarrow> router_reachable r'"
  by (induction rule: router_steps.induct) (auto intro: router_reachable.step)

section \<open>The invariant holds in every reachable state\<close>

lemma fresh_router_inv:
  assumes "cfg_endpoint_capacity cfg \<le> unat UINT32_MAX"
  shows "router_inv (fresh_router cfg)"
  using assms
  by (auto simp: fresh_router_def router_inv_def core_inv_def inv_defs unique_by_def
      blank_endpoint_def blank_route_def blank_cancel_def blank_row_def row_kind_defs)

lemma init_inv:
  assumes "scxml_host_router_init abi clk alloc_ok None cfg = (SALTS_OK, Some r)"
  shows "router_inv r"
proof -
  from assms have "r = fresh_router cfg" "cfg_endpoint_capacity cfg \<le> unat UINT32_MAX"
    by (auto simp: scxml_host_router_init_def not_less split: if_splits)
  then show ?thesis by (simp add: fresh_router_inv)
qed

lemma run_due_begin_inv: "router_inv r \<Longrightarrow> run_due_begin r = (st, r') \<Longrightarrow> router_inv r'"
  by (auto simp: run_due_begin_def split: if_splits)

lemma drain_begin_inv: "router_inv r \<Longrightarrow> drain_begin r = (st, r') \<Longrightarrow> router_inv r'"
  by (auto simp: drain_begin_def split: if_splits)

lemmas operation_inv = reserve_inv activate_inv attach_inv detach_inv abort_locked_inv
  set_parent_inv set_external_access_inv bind_invoke_inv unbind_invoke_inv resolve_inv
  prepare_target_inv prepare_inv enqueue_inv ticket_commit_inv ticket_discard_inv
  prepare_cancel_inv cancel_commit_inv cancel_discard_inv run_due_claim_inv
  run_due_settle_inv drain_claim_inv drain_break_inv drain_settle_inv cancel_inv
  cancel_source_inv close_inv run_due_begin_inv drain_begin_inv

lemma router_step_inv: "router_step r r' \<Longrightarrow> router_inv r \<Longrightarrow> router_inv r'"
  by (induction rule: router_step.induct)
     (erule (2) operation_inv [rotated] | erule (1) operation_inv [rotated] | simp)+

lemma router_reachable_inv: "router_reachable r \<Longrightarrow> router_inv r"
  by (induction rule: router_reachable.induct) (auto intro: init_inv router_step_inv)

section \<open>Generations only advance\<close>

text \<open>
  No slot ever returns to an older generation, and a slot that is live in a generation
  was live in it before (it is made live only together with a new generation).
\<close>

definition endpoints_advance :: "host_endpoint list \<Rightarrow> host_endpoint list \<Rightarrow> bool" where
  "endpoints_advance eps eps' \<longleftrightarrow> length eps' = length eps \<and>
     (\<forall>i<length eps. ep_generation (eps ! i) \<le> ep_generation (eps' ! i) \<and>
        (ep_generation (eps' ! i) = ep_generation (eps ! i) \<and> ep_live (eps' ! i) \<longrightarrow> ep_live (eps ! i)))"

lemma endpoints_advance_refl [simp]: "endpoints_advance eps eps"
  by (simp add: endpoints_advance_def)

lemma endpoints_advance_update:
  assumes "ep_generation (eps ! i) < ep_generation p \<or>
    (ep_generation p = ep_generation (eps ! i) \<and> (ep_live p \<longrightarrow> ep_live (eps ! i)))"
  shows "endpoints_advance eps (eps[i := p])"
  unfolding endpoints_advance_def
proof (intro conjI allI impI)
  fix j
  assume j: "j < length eps"
  show "ep_generation (eps ! j) \<le> ep_generation (eps[i := p] ! j)"
    using assms j by (cases "j = i") auto
  show "ep_live (eps ! j)"
    if "ep_generation (eps[i := p] ! j) = ep_generation (eps ! j) \<and> ep_live (eps[i := p] ! j)"
    using assms j that by (cases "j = i") auto
qed simp

lemma reserve_locked_frame:
  "reserve_locked target name body r = (t, r') \<Longrightarrow>
     r_endpoints r' = r_endpoints r \<and> r_invoke_routes r' = r_invoke_routes r \<and>
     r_cancel_rows r' = r_cancel_rows r \<and> r_clock r' = r_clock r \<and> r_closed r' = r_closed r"
  by (auto simp: reserve_locked_def split: if_splits option.splits)

lemma commit_locked_frame [simp]:
  "r_endpoints (commit_locked clk i r) = r_endpoints r"
  "r_closed (commit_locked clk i r) = r_closed r"
  "event_capacity (commit_locked clk i r) = event_capacity r"
  by (simp_all add: commit_locked_def Let_def)

lemma cancel_release_frame [simp]:
  "r_endpoints (cancel_release_locked k r) = r_endpoints r"
  "r_rows (cancel_release_locked k r) = r_rows r"
  "r_closed (cancel_release_locked k r) = r_closed r"
  by (simp_all add: cancel_release_locked_def)

lemma fold_cancel_frame:
  "r_endpoints (fst (fold (cancel_row_if P) is st)) = r_endpoints (fst st) \<and>
   r_closed (fst (fold (cancel_row_if P) is st)) = r_closed (fst st) \<and>
   event_capacity (fst (fold (cancel_row_if P) is st)) = event_capacity (fst st)"
  by (induction "is" arbitrary: st) simp_all

lemma cancel_rows_frame [simp]:
  "r_endpoints (fst (cancel_rows P r)) = r_endpoints r"
  "r_closed (fst (cancel_rows P r)) = r_closed r"
  "event_capacity (fst (cancel_rows P r)) = event_capacity r"
  by (simp_all add: cancel_rows_def fold_cancel_frame)

lemma cancel_rows_endpoints: "cancel_rows P r = (r', n) \<Longrightarrow> r_endpoints r' = r_endpoints r"
  by (metis cancel_rows_frame(1) fst_conv)

lemma row_step_endpoints:
  "scxml_host_router_bind_invoke source ident target r = (st, r') \<Longrightarrow> r_endpoints r' = r_endpoints r"
  "scxml_host_router_unbind_invoke source ident r = (st, r') \<Longrightarrow> r_endpoints r' = r_endpoints r"
  "scxml_host_router_resolve source addr r = (st, ref, r') \<Longrightarrow> r_endpoints r' = r_endpoints r"
  "scxml_host_router_prepare target name body r = (st, t, r') \<Longrightarrow> r_endpoints r' = r_endpoints r"
  "scxml_host_router_enqueue clk target name body r = (st, r') \<Longrightarrow> r_endpoints r' = r_endpoints r"
  "scxml_host_router_prepare_cancel source sid r = (st, k, r') \<Longrightarrow> r_endpoints r' = r_endpoints r"
  "run_due_begin r = (st, r') \<Longrightarrow> r_endpoints r' = r_endpoints r"
  "run_due_claim clk r = Due_Claimed i s sid' r' \<Longrightarrow> r_endpoints r' = r_endpoints r"
  "run_due_settle i settled r = (st, fired, r') \<Longrightarrow> r_endpoints r' = r_endpoints r"
  "drain_begin r = (mst, r') \<Longrightarrow> r_endpoints r' = r_endpoints r"
  "drain_claim r = Drain_Claimed i s nm md r' \<Longrightarrow> r_endpoints r' = r_endpoints r"
  "drain_claim r = Drain_Break mst r' \<Longrightarrow> r_endpoints r' = r_endpoints r"
  "drain_settle i status r = (mst, delivered, r') \<Longrightarrow> r_endpoints r' = r_endpoints r"
  "abort_locked ref' r = (st, r') \<Longrightarrow> r_endpoints r' = r_endpoints r"
  "scxml_host_router_cancel target r = (st, n, r') \<Longrightarrow> r_endpoints r' = r_endpoints r"
  "scxml_host_router_cancel_source source r = (st, n, r') \<Longrightarrow> r_endpoints r' = r_endpoints r"
  "scxml_host_router_close r = (st, r') \<Longrightarrow> r_endpoints r' = r_endpoints r"
  by (auto simp: scxml_host_router_bind_invoke_def scxml_host_router_unbind_invoke_def
      scxml_host_router_resolve_def scxml_host_router_prepare_def scxml_host_router_enqueue_def
      scxml_host_router_prepare_cancel_def run_due_begin_def run_due_claim_def run_due_settle_def
      drain_begin_def drain_claim_def drain_settle_def abort_locked_def scxml_host_router_cancel_def
      scxml_host_router_cancel_source_def scxml_host_router_close_def Let_def
      split: if_splits option.splits prod.splits
      dest: reserve_locked_frame cancel_rows_endpoints)

lemma prepare_target_endpoints:
  "scxml_host_router_prepare_target source addr name sid content delay r = (st, t, r')
     \<Longrightarrow> r_endpoints r' = r_endpoints r"
  unfolding scxml_host_router_prepare_target_def Let_def
  by (auto split: if_splits option.splits prod.splits dest: reserve_locked_frame)

lemma ticket_endpoints:
  "r_endpoints (ticket_commit clk i r) = r_endpoints r"
  "r_endpoints (ticket_discard i r) = r_endpoints r"
  "r_endpoints (cancel_commit k r) = r_endpoints r"
  "r_endpoints (cancel_discard k r) = r_endpoints r"
  by (simp_all add: ticket_commit_def ticket_discard_def cancel_commit_def cancel_discard_def Let_def)

lemma endpoint_step_advance:
  "scxml_host_router_reserve r = (st, ref, r') \<Longrightarrow> endpoints_advance (r_endpoints r) (r_endpoints r')"
  "scxml_host_router_activate loc ref0 s r = (st, r') \<Longrightarrow> endpoints_advance (r_endpoints r) (r_endpoints r')"
  "scxml_host_router_attach loc s r = (st, ref, r') \<Longrightarrow> endpoints_advance (r_endpoints r) (r_endpoints r')"
  "scxml_host_router_detach ref0 r = (st, r') \<Longrightarrow> endpoints_advance (r_endpoints r) (r_endpoints r')"
  "scxml_host_router_set_parent ref0 par r = (st, r') \<Longrightarrow> endpoints_advance (r_endpoints r) (r_endpoints r')"
  "scxml_host_router_set_external_access ref0 b r = (st, r') \<Longrightarrow>
     endpoints_advance (r_endpoints r) (r_endpoints r')"
  by (auto simp: scxml_host_router_reserve_def scxml_host_router_activate_def
      scxml_host_router_attach_def scxml_host_router_detach_def scxml_host_router_set_parent_def
      scxml_host_router_set_external_access_def Let_def free_endpoint_def
      split: if_splits option.splits dest!: first_index_SomeD
      intro!: endpoints_advance_update less_Suc_guard)

lemma router_step_advance: "router_step r r' \<Longrightarrow> endpoints_advance (r_endpoints r) (r_endpoints r')"
  by (induction rule: router_step.induct)
     (erule endpoint_step_advance
      | simp add: ticket_endpoints row_step_endpoints prepare_target_endpoints)+

section \<open>A concrete router\<close>

text \<open>A small router with one attached Session and one queued event, for the witnesses.\<close>

definition demo_abi :: router_abi where
  "demo_abi = \<lparr>abi_size_max = 1000, abi_sizeof_endpoint = 1, abi_sizeof_row = 1,
     abi_sizeof_route = 1, abi_sizeof_cancel = 1\<rparr>"

definition demo_clk :: "u64 \<Rightarrow> clock_ops" where
  "demo_clk t = \<lparr>clock_valid = (\<lambda>c. True), clock_now = (\<lambda>c. t),
     deadline_after_ms = (\<lambda>now d. now + d)\<rparr>"

definition demo_cfg :: host_router_config where
  "demo_cfg = \<lparr>cfg_endpoint_capacity = 2, cfg_event_capacity = 3, cfg_max_text_bytes = 16,
     cfg_invoke_capacity = 1, cfg_clock = Some 0, cfg_timer_capacity = 3,
     cfg_cancel_capacity = 1\<rparr>"

definition demo_ref :: session_ref where
  "demo_ref = \<lparr>ref_slot = 0, ref_generation = 1\<rparr>"

definition demo_attached :: host_router where
  "demo_attached = snd (snd (scxml_host_router_attach (\<lambda>s. Some ''#_scxml_a'') 7 (fresh_router demo_cfg)))"

definition demo_queued :: host_router where
  "demo_queued = snd (scxml_host_router_enqueue (demo_clk 0) demo_ref (CBytes ''tick'') (CBytes ''x'')
     demo_attached)"

lemma demo_fresh_reachable: "router_reachable (fresh_router demo_cfg)"
  by (rule router_reachable.init [of demo_abi "demo_clk 0" True demo_cfg])
     (simp add: scxml_host_router_init_def demo_abi_def demo_cfg_def demo_clk_def
        SCXML_EVENT_METADATA_CAPACITY_def unat_UINT32_MAX)

lemmas reachable_attach = router_reachable.step [OF _ router_step.attach [OF triple_split]]
lemmas reachable_enqueue = router_reachable.step [OF _ router_step.enqueue [OF pair_split]]

lemma demo_attached_reachable: "router_reachable demo_attached"
  unfolding demo_attached_def by (rule reachable_attach [OF demo_fresh_reachable])

lemma demo_queued_reachable: "router_reachable demo_queued"
  unfolding demo_queued_def by (rule reachable_enqueue [OF demo_attached_reachable])

section \<open>Safety properties\<close>

text \<open>
  Property (C1). In every state a router can reach, whatever the interleaving of its callers,
  the counters are exact: \<^verbatim>\<open>pending\<close>, \<^verbatim>\<open>reserved\<close>, \<^verbatim>\<open>timer_pending\<close>,
  \<^verbatim>\<open>cancel_pending\<close>, \<^verbatim>\<open>endpoint_count\<close> and \<^verbatim>\<open>invoke_count\<close> are the numbers
  of occupied rows of each kind, and the bounds of the configuration are never exceeded.
\<close>

theorem router_counters_exact:
  assumes "router_reachable r"
  shows "r_pending r = count_if (\<lambda>row. row_state row \<noteq> ROW_FREE) (r_rows r) \<and>
    r_reserved r = count_if (\<lambda>row. row_state row = ROW_RESERVED) (r_rows r) \<and>
    r_timer_pending r =
      count_if (\<lambda>row. row_delay_ms row \<noteq> 0 \<and> timed_state (row_state row)) (r_rows r) \<and>
    r_cancel_pending r = count_if cx_in_use (r_cancel_rows r) \<and>
    r_endpoint_count r = count_if ep_live (r_endpoints r) \<and>
    r_invoke_count r = count_if rt_live (r_invoke_routes r) \<and>
    r_pending r \<le> r_high_water r \<and> r_high_water r \<le> event_capacity r \<and>
    r_timer_pending r \<le> r_timer_capacity r"
proof -
  have "counters_ok r" using router_reachable_inv [OF assms] by (simp add: router_inv_def core_inv_def)
  moreover have "nonfree = (\<lambda>row. row_state row \<noteq> ROW_FREE)"
    "reserved_row = (\<lambda>row. row_state row = ROW_RESERVED)"
    "timed = (\<lambda>row. row_delay_ms row \<noteq> 0 \<and> timed_state (row_state row))"
    by (auto simp: nonfree_def reserved_row_def timed_def)
  ultimately show ?thesis by (simp add: counters_ok_def)
qed

theorem router_counters_exact_witness:
  "r_pending demo_queued = 1 \<and> r_pending demo_queued \<le> event_capacity demo_queued \<and>
   r_endpoint_count demo_queued = count_if ep_live (r_endpoints demo_queued)"
proof -
  have "r_pending demo_queued = 1" by code_simp
  with router_counters_exact [OF demo_queued_reachable] show ?thesis by linarith
qed

text \<open>
  Every prepared event is accounted for exactly once: in every reachable state the
  number of prepared events is the number still held by the router plus those discarded,
  delivered and cancelled (as 64-bit counters).
\<close>

theorem router_conservation:
  assumes "router_reachable r"
  shows "r_prepared r = of_nat (r_pending r) + r_discarded r + r_delivered r + r_cancelled r"
  using router_reachable_inv [OF assms] by (simp add: router_inv_def conserved_def)

theorem router_conservation_witness:
  "r_prepared demo_queued = 1 \<and>
   r_prepared demo_queued = of_nat (r_pending demo_queued) + r_discarded demo_queued +
     r_delivered demo_queued + r_cancelled demo_queued"
proof -
  have "r_prepared demo_queued = 1" by code_simp
  with router_conservation [OF demo_queued_reachable] show ?thesis by simp
qed

text \<open>
  No dangling identity: in every reachable state the target of every held event,
  its source if it has one, the parent of every live endpoint, both ends of every alias and
  the source of every cancellation ticket name a live endpoint of exactly that generation.
  So delivery never meets a stale reference.
\<close>

theorem router_no_stale_reference:
  assumes "router_reachable r"
  shows "(\<forall>row\<in>set (r_rows r). row_state row \<noteq> ROW_FREE \<longrightarrow>
      matches r (row_target row) \<and>
      (ref_generation (row_source row) \<noteq> 0 \<longrightarrow> matches r (row_source row))) \<and>
    (\<forall>p\<in>set (r_endpoints r). ep_live p \<longrightarrow> ref_generation (ep_parent p) \<noteq> 0 \<longrightarrow>
      matches r (ep_parent p)) \<and>
    (\<forall>rt\<in>set (r_invoke_routes r). rt_live rt \<longrightarrow> matches r (rt_owner rt) \<and> matches r (rt_target rt)) \<and>
    (\<forall>cx\<in>set (r_cancel_rows r). cx_in_use cx \<longrightarrow> matches r (cx_source cx)) \<and>
    (\<forall>r'. drain_claim r \<noteq> Drain_Break CFLOW_MAILBOX_INVALID_ARGUMENT r')"
proof -
  note D = core_invD [OF router_invD(1) [OF router_reachable_inv [OF assms]]]
  have rows: "\<forall>row\<in>set (r_rows r). row_state row \<noteq> ROW_FREE \<longrightarrow> matches r (row_target row) \<and>
      (ref_generation (row_source row) \<noteq> 0 \<longrightarrow> matches r (row_source row))"
    using D(3) by (auto simp: rows_pinned_def pinned_def nonfree_def matches_live_ref)
  moreover have "drain_claim r \<noteq> Drain_Break CFLOW_MAILBOX_INVALID_ARGUMENT r'" for r'
  proof
    assume "drain_claim r = Drain_Break CFLOW_MAILBOX_INVALID_ARGUMENT r'"
    then obtain i where e: "earliest_row ready_row sequence_before (r_rows r) = Some i"
      and bad: "\<not> matches r (row_target (r_rows r ! i)) \<or>
        ref_generation (row_source (r_rows r ! i)) \<noteq> 0 \<and> \<not> matches r (row_source (r_rows r ! i))"
      by (auto simp: drain_claim_def Let_def split: if_splits option.splits)
    from sequence_order.earliest_row_SomeD [OF e]
    have "r_rows r ! i \<in> set (r_rows r)" "row_state (r_rows r ! i) \<noteq> ROW_FREE"
      by (auto simp: ready_row_def)
    with rows bad show False by blast
  qed
  ultimately show ?thesis
    using D(4,5,6) by (auto simp: parents_pinned_def pinned_def routes_pinned_def
        cancels_pinned_def matches_live_ref)
qed

theorem router_no_stale_reference_witness:
  "matches demo_queued (row_target (r_rows demo_queued ! 0))"
proof -
  have "r_rows demo_queued ! 0 \<in> set (r_rows demo_queued)" by (rule nth_mem) code_simp
  moreover have "row_state (r_rows demo_queued ! 0) \<noteq> ROW_FREE" by code_simp
  ultimately show ?thesis using router_no_stale_reference [OF demo_queued_reachable] by blast
qed

lemma retired_step:
  assumes "endpoints_advance eps eps'" "i < length eps"
    and "g < ep_generation (eps ! i) \<or> g = ep_generation (eps ! i) \<and> \<not> ep_live (eps ! i)"
  shows "i < length eps' \<and>
    (g < ep_generation (eps' ! i) \<or> g = ep_generation (eps' ! i) \<and> \<not> ep_live (eps' ! i))"
proof -
  from assms(1,2) have "i < length eps'" "ep_generation (eps ! i) \<le> ep_generation (eps' ! i)"
    "ep_generation (eps' ! i) = ep_generation (eps ! i) \<Longrightarrow> ep_live (eps' ! i) \<Longrightarrow> ep_live (eps ! i)"
    by (auto simp: endpoints_advance_def)
  with assms(3) show ?thesis by (auto simp: order_le_less)
qed

lemma retired_steps:
  assumes "router_steps r r'" "i < endpoint_capacity r"
    and "g < ep_generation (r_endpoints r ! i) \<or>
      g = ep_generation (r_endpoints r ! i) \<and> \<not> ep_live (r_endpoints r ! i)"
  shows "i < endpoint_capacity r' \<and> (g < ep_generation (r_endpoints r' ! i) \<or>
      g = ep_generation (r_endpoints r' ! i) \<and> \<not> ep_live (r_endpoints r' ! i))"
  using assms
proof (induction rule: router_steps.induct)
  case (refl r)
  then show ?case by blast
next
  case (step r r' r'')
  then show ?case using retired_step [OF router_step_advance [OF step.hyps(2)]] by blast
qed

text \<open>
  A detached reference is dead for ever: once \<^verbatim>\<open>scxml_host_router_detach\<close> has
  returned OK for a reference, no later state of the router accepts it again, however its
  slot is reused.
\<close>

theorem router_detached_never_matches:
  assumes "scxml_host_router_detach ref r = (SALTS_OK, r')" and "router_steps r' r''"
  shows "\<not> matches r'' ref"
proof -
  let ?i = "unat (ref_slot ref)"
  from assms(1) have "?i < endpoint_capacity r'"
    "ref_generation ref = ep_generation (r_endpoints r' ! ?i)" "\<not> ep_live (r_endpoints r' ! ?i)"
    by (auto simp: scxml_host_router_detach_def Let_def matches_def split: if_splits)
  with retired_steps [OF assms(2)] have "ref_generation ref < ep_generation (r_endpoints r'' ! ?i) \<or>
      ref_generation ref = ep_generation (r_endpoints r'' ! ?i) \<and> \<not> ep_live (r_endpoints r'' ! ?i)"
    by blast
  then show ?thesis by (auto simp: matches_def)
qed

definition demo_reused :: host_router where
  "demo_reused = snd (snd (scxml_host_router_attach (\<lambda>s. Some ''#_scxml_b'') 8
     (snd (scxml_host_router_detach demo_ref demo_attached))))"

theorem router_detached_never_matches_witness:
  "ep_live (r_endpoints demo_reused ! 0) \<and> \<not> matches demo_reused demo_ref"
proof -
  have "scxml_host_router_detach demo_ref demo_attached =
      (SALTS_OK, snd (scxml_host_router_detach demo_ref demo_attached))"
    by (rule prod_eqI) (simp, code_simp, simp)
  moreover have "router_steps (snd (scxml_host_router_detach demo_ref demo_attached)) demo_reused"
    unfolding demo_reused_def
    by (rule router_steps.step [OF router_steps.refl router_step.attach [OF triple_split]])
  ultimately have "\<not> matches demo_reused demo_ref" by (rule router_detached_never_matches)
  moreover have "ep_live (r_endpoints demo_reused ! 0)" by code_simp
  ultimately show ?thesis by blast
qed

end
