(* ===== verification/Row_Queue.thy ===== *)
theory Row_Queue
  imports Prelude "HOL-Library.Multiset" "HOL-Library.Product_Lexorder"
begin

text \<open>
  A table of rows with unique keys, seen as a queue: the candidate rows in key order. A
  selection loop that keeps the row with the smallest key takes the head of this queue,
  and changing one row removes, appends or inserts one element.
\<close>

section \<open>Rows in key order\<close>

definition row_queue :: "('a \<Rightarrow> bool) \<Rightarrow> ('a \<Rightarrow> 'k :: linorder) \<Rightarrow> 'a list \<Rightarrow> 'a list" where
  "row_queue P key xs = sort_key key (filter P xs)"

lemma set_row_queue [simp]: "set (row_queue P key xs) = {x \<in> set xs. P x}"
  by (simp add: row_queue_def)

lemma length_row_queue: "length (row_queue P key xs) = count_if P xs"
  by (simp add: row_queue_def count_if_def)

lemma row_queue_empty_iff: "row_queue P key xs = [] \<longleftrightarrow> (\<forall>x\<in>set xs. \<not> P x)"
  by (metis (mono_tags, lifting) count_if_zero_iff length_0_conv length_row_queue)

lemma row_queue_cong: "(\<And>x. x \<in> set xs \<Longrightarrow> P x = Q x) \<Longrightarrow> row_queue P key xs = row_queue Q key xs"
  by (simp add: row_queue_def cong: filter_cong)

lemma row_queue_outside:
  assumes "\<not> P (xs ! i)" "\<not> P y" shows "row_queue P key (xs[i := y]) = row_queue P key xs"
proof -
  have "filter P (xs[i := y]) = filter P xs"
    using assms
  proof (induction xs arbitrary: i)
    case (Cons x xs)
    then show ?case by (cases i) auto
  qed simp
  then show ?thesis by (simp add: row_queue_def)
qed

lemma mset_filter_update:
  assumes "i < length xs"
  shows "add_mset (xs ! i) (mset (xs[i := y])) = add_mset y (mset xs)"
proof -
  have "xs ! i \<in># mset xs" using assms by simp
  then have "add_mset (xs ! i) (mset xs - {#xs ! i#}) = mset xs" by (rule insert_DiffM)
  then show ?thesis using assms by (simp add: mset_update add_mset_commute)
qed

lemma mset_filter_leave:
  assumes "i < length xs" "P (xs ! i)" "\<not> P y"
  shows "filter_mset P (mset xs) = add_mset (xs ! i) (filter_mset P (mset (xs[i := y])))"
  using mset_filter_update [OF assms(1), of y] assms(2,3)
  by (metis (no_types, lifting) filter_mset_add_mset)

lemma mset_filter_enter:
  assumes "i < length xs" "\<not> P (xs ! i)" "P y"
  shows "filter_mset P (mset (xs[i := y])) = add_mset y (filter_mset P (mset xs))"
  using mset_filter_update [OF assms(1), of y] assms(2,3)
  by (metis (no_types, lifting) filter_mset_add_mset)

section \<open>The selection loop takes the head\<close>

text \<open>A comparison of rows that is the order of their keys.\<close>

locale keyed_rows =
  fixes lt :: "'a \<Rightarrow> 'a \<Rightarrow> bool" and key :: "'a \<Rightarrow> 'k :: linorder"
  assumes lt_key: "lt a b \<longleftrightarrow> key a < key b"

sublocale keyed_rows \<subseteq> row_order lt
  by unfold_locales (auto simp: lt_key)

context keyed_rows
begin

lemma row_queue_pop:
  assumes e: "earliest_row P lt xs = Some i" and inj: "inj_on key {x \<in> set xs. P x}" and y: "\<not> P y"
  shows "row_queue P key xs = xs ! i # row_queue P key (xs[i := y])"
proof -
  note S = earliest_row_SomeD [OF e]
  have "\<forall>x\<in>set (filter P (xs[i := y])). key (xs ! i) \<le> key x"
    using S y by (auto simp: lt_key not_less dest!: set_update_memD)
  then have "sorted (map key (xs ! i # row_queue P key (xs[i := y])))"
    by (auto simp: row_queue_def)
  moreover have "mset (filter P xs) = mset (xs ! i # row_queue P key (xs[i := y]))"
    using S y by (simp add: row_queue_def mset_filter_leave)
  ultimately show ?thesis
    unfolding row_queue_def using inj by (intro sort_key_inj_key_eq) auto
qed

lemma row_queue_push:
  assumes i: "i < length xs" "\<not> P (xs ! i)" and y: "P y"
    and top: "\<forall>x\<in>set xs. P x \<longrightarrow> key x < key y" and inj: "inj_on key {x \<in> set xs. P x}"
  shows "row_queue P key (xs[i := y]) = row_queue P key xs @ [y]"
proof -
  have sub: "set (filter P (xs[i := y])) \<subseteq> insert y {x \<in> set xs. P x}"
    by (auto dest!: set_update_memD)
  have "inj_on key (insert y {x \<in> set xs. P x})" using inj top by (auto simp: inj_on_def)
  then have "inj_on key (set (filter P (xs[i := y])))" using sub by (rule inj_on_subset)
  moreover have "sorted (map key (row_queue P key xs @ [y]))"
    using top by (auto simp: row_queue_def sorted_append intro: less_imp_le)
  moreover have "mset (filter P (xs[i := y])) = mset (row_queue P key xs @ [y])"
    using i y by (simp add: row_queue_def mset_filter_enter)
  ultimately show ?thesis unfolding row_queue_def by (intro sort_key_inj_key_eq) simp_all
qed

lemma row_queue_insert:
  assumes i: "i < length xs" "\<not> P (xs ! i)" and y: "P y"
    and inj: "inj_on key (insert y {x \<in> set xs. P x})"
  shows "row_queue P key (xs[i := y]) = insort_key key y (row_queue P key xs)"
proof -
  have "set (filter P (xs[i := y])) \<subseteq> insert y {x \<in> set xs. P x}"
    by (auto dest!: set_update_memD)
  with inj have "inj_on key (set (filter P (xs[i := y])))" by (rule inj_on_subset)
  moreover have "sorted (map key (insort_key key y (row_queue P key xs)))"
    by (simp add: row_queue_def sorted_insort_key)
  moreover have "mset (filter P (xs[i := y])) = mset (insort_key key y (row_queue P key xs))"
    using i y by (simp add: row_queue_def mset_filter_enter)
  ultimately show ?thesis unfolding row_queue_def by (intro sort_key_inj_key_eq) simp_all
qed

end

section \<open>Delivery in order\<close>

text \<open>
  The list program of a delivery pass: offer the events in order, stop at the first one
  whose endpoints are not published yet or that the Session refuses, and keep it.
\<close>

fun queue_drain ::
  "('x \<Rightarrow> bool) \<Rightarrow> ('x \<Rightarrow> 'd) \<Rightarrow> ('d list \<Rightarrow> 'd \<Rightarrow> cflow_mailbox_status) \<Rightarrow> nat
     \<Rightarrow> cflow_mailbox_status \<Rightarrow> 'd list \<Rightarrow> 'x list \<Rightarrow> cflow_mailbox_status \<times> 'd list \<times> 'x list" where
  "queue_drain ok f admit 0 st w q = (st, w, q)"
| "queue_drain ok f admit (Suc n) st w [] = (st, w, [])"
| "queue_drain ok f admit (Suc n) st w (x # q) =
     (if \<not> ok x then (CFLOW_MAILBOX_FULL, w, x # q)
      else if admit w (f x) = CFLOW_MAILBOX_OK
      then queue_drain ok f admit n CFLOW_MAILBOX_OK (w @ [f x]) q
      else (admit w (f x), w, x # q))"

lemma queue_drain_prefix:
  assumes "queue_drain ok f admit n st w q = (st', w', q')"
  shows "\<exists>k\<le>n. k \<le> length q \<and> w' = w @ map f (take k q) \<and> q' = drop k q"
  using assms
proof (induction n arbitrary: st w q)
  case 0
  then show ?case by simp
next
  case (Suc n)
  show ?case
  proof (cases q)
    case Nil
    with Suc.prems show ?thesis by simp
  next
    case (Cons x xs)
    show ?thesis
    proof (cases "ok x \<and> admit w (f x) = CFLOW_MAILBOX_OK")
      case True
      with Suc.prems Cons Suc.IH [of CFLOW_MAILBOX_OK "w @ [f x]" xs] obtain k where
        "k \<le> n" "k \<le> length xs" "w' = (w @ [f x]) @ map f (take k xs)" "q' = drop k xs" by auto
      with Cons show ?thesis by (intro exI [of _ "Suc k"]) simp
    next
      case False
      with Suc.prems Cons show ?thesis by (intro exI [of _ 0]) (auto split: if_splits)
    qed
  qed
qed

text \<open>
  The contract of a delivery loop over a queue: what one pass does when the queue is empty,
  when its head may not be dispatched, and when the receiver refuses or accepts the head.
  Any loop with these laws runs the list program above on its queue.
\<close>

locale fifo_drain =
  fixes loop :: "nat \<Rightarrow> cflow_mailbox_status \<Rightarrow> nat \<Rightarrow> 's \<Rightarrow> 'd list
      \<Rightarrow> cflow_mailbox_status \<times> nat \<times> 's \<times> 'd list"
    and good :: "'s \<Rightarrow> bool" and queue :: "'s \<Rightarrow> 'x list"
    and ready :: "'s \<Rightarrow> 'x \<Rightarrow> bool" and item :: "'s \<Rightarrow> 'x \<Rightarrow> 'd"
    and admit :: "'d list \<Rightarrow> 'd \<Rightarrow> cflow_mailbox_status"
  assumes loop_done: "loop 0 st k s w = (st, k, s, w)"
    and loop_empty: "good s \<Longrightarrow> queue s = [] \<Longrightarrow> loop (Suc n) st k s w = (st, k, s, w)"
    and loop_blocked: "good s \<Longrightarrow> queue s = x # q \<Longrightarrow> \<not> ready s x \<Longrightarrow>
      loop (Suc n) st k s w = (CFLOW_MAILBOX_FULL, k, s, w)"
    and loop_refused: "good s \<Longrightarrow> queue s = x # q \<Longrightarrow> ready s x \<Longrightarrow>
      admit w (item s x) \<noteq> CFLOW_MAILBOX_OK \<Longrightarrow>
      \<exists>s'. loop (Suc n) st k s w = (admit w (item s x), k, s', w) \<and> queue s' = queue s"
    and loop_accepted: "good s \<Longrightarrow> queue s = x # q \<Longrightarrow> ready s x \<Longrightarrow>
      admit w (item s x) = CFLOW_MAILBOX_OK \<Longrightarrow>
      \<exists>s'. loop (Suc n) st k s w = loop n CFLOW_MAILBOX_OK (k + 1) s' (w @ [item s x]) \<and>
        good s' \<and> queue s' = q \<and> ready s' = ready s \<and> item s' = item s"
begin

lemma drain_refines:
  assumes "good s" "loop n st0 k s w = (st, k', s', w')"
  shows "queue_drain (ready s) (item s) admit n st0 w (queue s) = (st, w', queue s') \<and>
    k' + length w = k + length w'"
  using assms
proof (induction n arbitrary: st0 k s w)
  case 0
  then show ?case by (simp add: loop_done)
next
  case (Suc n)
  show ?case
  proof (cases "queue s")
    case Nil
    with Suc.prems show ?thesis by (simp add: loop_empty)
  next
    case (Cons x q)
    consider (blocked) "\<not> ready s x"
      | (refused) "ready s x" "admit w (item s x) \<noteq> CFLOW_MAILBOX_OK"
      | (accepted) "ready s x" "admit w (item s x) = CFLOW_MAILBOX_OK" by blast
    then show ?thesis
    proof cases
      case blocked
      with Suc.prems Cons loop_blocked [OF Suc.prems(1) Cons blocked] show ?thesis by simp
    next
      case refused
      with Suc.prems(2) Cons loop_refused [OF Suc.prems(1) Cons refused, of n st0 k] show ?thesis by auto
    next
      case accepted
      from loop_accepted [OF Suc.prems(1) Cons accepted, of n st0 k] obtain t where
        t: "loop (Suc n) st0 k s w = loop n CFLOW_MAILBOX_OK (k + 1) t (w @ [item s x])" "good t"
          "queue t = q" "ready t = ready s" "item t = item s" by blast
      from Suc.IH [OF t(2) t(1) [symmetric, unfolded Suc.prems(2)]] show ?thesis
        using Cons accepted t(3-5) by simp
    qed
  qed
qed

end

end
