(* ===== verification/Host_Router_Queue.thy ===== *)
theory Host_Router_Queue
  imports Host_Router_Safety Row_Queue
begin

text \<open>
  The router as a queue. The abstract view of the delivery loop is the list of ready rows in
  commit order, and of the timer loop the list of due rows in deadline order. The lemmas
  show that the two loops, with their scans over the row table, refine list programs.
\<close>

section \<open>Abstract views\<close>

definition due_key :: "host_row \<Rightarrow> u64 \<times> u64" where
  "due_key row = (row_deadline_ns row, row_sequence row)"

definition ready_queue :: "host_router \<Rightarrow> host_row list" where
  "ready_queue r = row_queue ready_row row_sequence (r_rows r)"

definition due_queue :: "clock_ops \<Rightarrow> host_router \<Rightarrow> host_row list" where
  "due_queue clk r = row_queue (due_row clk r) due_key (r_rows r)"

text \<open>What the Session admission sees of one event.\<close>

type_synonym delivery = "session option \<times> string \<times> event_metadata"

definition delivery :: "host_router \<Rightarrow> host_row \<Rightarrow> delivery" where
  "delivery r row =
     (ep_session (r_endpoints r ! unat (ref_slot (row_target row))), row_name row, row_metadata r row)"

definition dispatchable :: "host_router \<Rightarrow> host_row \<Rightarrow> bool" where
  "dispatchable r row \<longleftrightarrow> ep_active (r_endpoints r ! unat (ref_slot (row_target row))) \<and>
     (ref_generation (row_source row) \<noteq> 0 \<longrightarrow>
        ep_active (r_endpoints r ! unat (ref_slot (row_source row))))"

text \<open>A Session admission that decides by what it has accepted so far, and logs it.\<close>

definition admission ::
  "(delivery list \<Rightarrow> delivery \<Rightarrow> cflow_mailbox_status) \<Rightarrow> session option \<Rightarrow> string \<Rightarrow> event_metadata
     \<Rightarrow> host_router \<times> delivery list \<Rightarrow> cflow_mailbox_status \<times> host_router \<times> delivery list" where
  "admission admit s name md st =
     (case st of (r, w) \<Rightarrow>
        if admit w (s, name, md) = CFLOW_MAILBOX_OK
        then (CFLOW_MAILBOX_OK, r, w @ [(s, name, md)])
        else (admit w (s, name, md), r, w))"

text \<open>A Session registry that settles every send, and logs it.\<close>

definition settle_all ::
  "session option \<Rightarrow> string \<Rightarrow> host_router \<times> (session option \<times> string) list
     \<Rightarrow> bool \<times> host_router \<times> (session option \<times> string) list" where
  "settle_all s sid st = (case st of (r, w) \<Rightarrow> (True, r, w @ [(s, sid)]))"

definition due_report :: "host_router \<Rightarrow> host_row \<Rightarrow> session option \<times> string" where
  "due_report r row =
     (ep_session (r_endpoints r ! unat (ref_slot (row_source row))), row_send_id row)"

interpretation by_sequence: keyed_rows sequence_before row_sequence
  by unfold_locales (simp add: sequence_before_def)

interpretation by_deadline: keyed_rows due_before due_key
  by unfold_locales (auto simp: due_before_def due_key_def less_prod_def)

section \<open>Unique keys\<close>

lemma ready_inj:
  assumes "router_inv r" shows "inj_on row_sequence {x \<in> set (r_rows r). ready_row x}"
  using core_invD(8) [OF router_invD(1) [OF assms]]
  by (auto simp: sequences_ok_def published_def ready_row_def intro: unique_by_inj)

lemma due_inj: assumes "router_inv r" shows "inj_on due_key {x \<in> set (r_rows r). due_row clk r x}"
proof -
  have "inj_on row_sequence {x \<in> set (r_rows r). due_row clk r x}"
    using core_invD(8) [OF router_invD(1) [OF assms]]
    by (auto simp: sequences_ok_def published_def due_row_def intro: unique_by_inj)
  then show ?thesis by (auto simp: inj_on_def due_key_def)
qed

lemma ready_below_next:
  assumes "router_inv r" "r_next_sequence r \<noteq> UINT64_MAX" "x \<in> set (r_rows r)" "ready_row x"
  shows "row_sequence x < r_next_sequence r + 1"
proof -
  from assms core_invD(8) [OF router_invD(1) [OF assms(1)]] have "row_sequence x \<le> r_next_sequence r"
    by (auto simp: sequences_ok_def published_def ready_row_def)
  then show ?thesis by (rule le_less_Suc_guard [OF assms(2)])
qed

section \<open>One delivery\<close>

lemma row_metadata_endpoints: "r_endpoints r' = r_endpoints r \<Longrightarrow> row_metadata r' = row_metadata r"
  by (rule ext) (simp add: row_metadata_def)

lemma delivery_endpoints:
  assumes "r_endpoints r' = r_endpoints r"
  shows "delivery r' = delivery r" "dispatchable r' = dispatchable r"
  by (simp_all add: delivery_def dispatchable_def fun_eq_iff assms row_metadata_endpoints [OF assms])

text \<open>What the head of the queue does to one pass of the delivery loop.\<close>

lemma drain_claim_cases:
  assumes inv: "router_inv r" and op: "\<not> r_closed r"
  shows "(ready_queue r = [] \<and> drain_claim r = Drain_Idle) \<or>
    (\<exists>i. i < event_capacity r \<and> ready_row (r_rows r ! i) \<and>
       (\<forall>y. \<not> ready_row y \<longrightarrow> ready_queue r =
          r_rows r ! i # row_queue ready_row row_sequence ((r_rows r)[i := y])) \<and>
       drain_claim r =
         (if dispatchable r (r_rows r ! i)
          then Drain_Claimed i (ep_session (r_endpoints r ! unat (ref_slot (row_target (r_rows r ! i)))))
                 (row_name (r_rows r ! i)) (row_metadata r (r_rows r ! i))
                 (r\<lparr>r_rows := (r_rows r)[i := (r_rows r ! i)\<lparr>row_state := ROW_INFLIGHT\<rparr>]\<rparr>)
          else Drain_Break CFLOW_MAILBOX_FULL r))"
proof (cases "earliest_row ready_row sequence_before (r_rows r)")
  case None
  then have "ready_queue r = []"
    by (simp add: ready_queue_def row_queue_empty_iff sequence_order.earliest_row_None_iff)
  with op None show ?thesis by (simp add: drain_claim_def)
next
  case (Some i)
  note S = sequence_order.earliest_row_SomeD [OF Some]
  have "r_rows r ! i \<in> set (r_rows r)" using S by simp
  with S core_invD(3) [OF router_invD(1) [OF inv]]
  have "matches r (row_target (r_rows r ! i)) \<and>
      (ref_generation (row_source (r_rows r ! i)) \<noteq> 0 \<longrightarrow> matches r (row_source (r_rows r ! i)))"
    by (auto simp: rows_pinned_def pinned_def nonfree_def ready_row_def matches_live_ref)
  then show ?thesis
    using S op Some by_sequence.row_queue_pop [OF Some ready_inj [OF inv]]
    by (auto simp: drain_claim_def Let_def dispatchable_def ready_queue_def)
qed

lemma drain_settle_accepted:
  assumes inv: "router_inv r" and i: "i < event_capacity r" and st: "ready_row (r_rows r ! i)"
  defines "r1 \<equiv> r\<lparr>r_rows := (r_rows r)[i := (r_rows r ! i)\<lparr>row_state := ROW_INFLIGHT\<rparr>]\<rparr>"
  assumes r1: "router_inv r1"
  shows "\<exists>r3. drain_settle i CFLOW_MAILBOX_OK r1 = (CFLOW_MAILBOX_OK, True, r3) \<and>
    r_rows r3 = (r_rows r)[i := blank_row] \<and> r_endpoints r3 = r_endpoints r \<and>
    r_closed r3 = r_closed r"
proof -
  have row: "r_rows r1 ! i = (r_rows r ! i)\<lparr>row_state := ROW_INFLIGHT\<rparr>" "i < event_capacity r1"
    using i by (simp_all add: r1_def)
  then have nf: "nonfree (r_rows r1 ! i)" by (simp add: nonfree_def)
  note rel = release_locked_eq [OF core_invD(1) [OF router_invD(1) [OF r1]] row(2) nf]
  show ?thesis using row by (simp add: drain_settle_def Let_def rel) (simp add: r1_def)
qed

lemma drain_settle_refused:
  assumes "i < event_capacity r" "ready_row (r_rows r ! i)" "st \<noteq> CFLOW_MAILBOX_OK" "\<not> r_closed r"
  shows "\<exists>r3. drain_settle i st
      (r\<lparr>r_rows := (r_rows r)[i := (r_rows r ! i)\<lparr>row_state := ROW_INFLIGHT\<rparr>]\<rparr>) = (st, False, r3) \<and>
    r_rows r3 = r_rows r \<and> r_endpoints r3 = r_endpoints r"
proof -
  have "(r_rows r ! i)\<lparr>row_state := ROW_READY\<rparr> = r_rows r ! i"
    using assms(2) by (simp add: ready_row_def)
  then have "(r_rows r)[i := (r_rows r ! i)\<lparr>row_state := ROW_READY\<rparr>] = r_rows r"
    by (metis list_update_id)
  with assms(1,3,4) show ?thesis by (auto simp: drain_settle_def Let_def)
qed

section \<open>The delivery loop\<close>

lemma drain_loop_head:
  assumes inv: "router_inv r" and opn: "\<not> r_closed r" and q: "ready_queue r = x # q"
    and disp: "dispatchable r x"
  shows "if admit w (delivery r x) = CFLOW_MAILBOX_OK
    then \<exists>r3. drain_loop (admission admit) (Suc n) st k r w =
        drain_loop (admission admit) n CFLOW_MAILBOX_OK (k + 1) r3 (w @ [delivery r x]) \<and>
      router_inv r3 \<and> \<not> r_closed r3 \<and> r_endpoints r3 = r_endpoints r \<and> ready_queue r3 = q
    else \<exists>r3. drain_loop (admission admit) (Suc n) st k r w = (admit w (delivery r x), k, r3, w) \<and>
      ready_queue r3 = x # q"
proof -
  from drain_claim_cases [OF inv opn] q obtain i where i: "i < event_capacity r" "ready_row (r_rows r ! i)"
    and pop: "\<forall>y. \<not> ready_row y \<longrightarrow>
      x # q = r_rows r ! i # row_queue ready_row row_sequence ((r_rows r)[i := y])"
    and claim0: "drain_claim r = (if dispatchable r (r_rows r ! i)
      then Drain_Claimed i (ep_session (r_endpoints r ! unat (ref_slot (row_target (r_rows r ! i)))))
             (row_name (r_rows r ! i)) (row_metadata r (r_rows r ! i))
             (r\<lparr>r_rows := (r_rows r)[i := (r_rows r ! i)\<lparr>row_state := ROW_INFLIGHT\<rparr>]\<rparr>)
      else Drain_Break CFLOW_MAILBOX_FULL r)"
    by auto
  have hd: "x = r_rows r ! i" "q = row_queue ready_row row_sequence ((r_rows r)[i := blank_row])"
    using pop [rule_format, of blank_row] by (simp_all add: ready_row_def blank_row_def)
  let ?r1 = "r\<lparr>r_rows := (r_rows r)[i := x\<lparr>row_state := ROW_INFLIGHT\<rparr>]\<rparr>"
  have claim: "drain_claim r = Drain_Claimed i
      (ep_session (r_endpoints r ! unat (ref_slot (row_target x)))) (row_name x) (row_metadata r x) ?r1"
    using claim0 disp hd(1) by simp
  have r1: "router_inv ?r1" by (rule drain_claim_inv [OF inv claim])
  show ?thesis
  proof (cases "admit w (delivery r x) = CFLOW_MAILBOX_OK")
    case True
    from drain_settle_accepted [OF inv i] r1 hd(1) obtain r3 where
      settle: "drain_settle i CFLOW_MAILBOX_OK ?r1 = (CFLOW_MAILBOX_OK, True, r3)"
      and r3: "r_rows r3 = (r_rows r)[i := blank_row]" "r_endpoints r3 = r_endpoints r"
        "r_closed r3 = r_closed r" by auto
    have "router_inv r3" by (rule drain_settle_inv [OF r1 _ settle]) (simp add: i)
    with True claim settle r3 opn hd(2) show ?thesis
      by (auto simp: admission_def delivery_def ready_queue_def)
  next
    case False
    from drain_settle_refused [OF i False opn] hd(1) obtain r3 where
      "drain_settle i (admit w (delivery r x)) ?r1 = (admit w (delivery r x), False, r3)"
      "r_rows r3 = r_rows r" by auto
    with False claim q show ?thesis by (auto simp: admission_def delivery_def ready_queue_def)
  qed
qed

lemma drain_loop_blocked:
  assumes "router_inv r" "\<not> r_closed r"
  shows "ready_queue r = [] \<Longrightarrow> drain_loop (admission admit) (Suc n) st k r w = (st, k, r, w)"
    and "ready_queue r = x # q \<Longrightarrow> \<not> dispatchable r x \<Longrightarrow>
      drain_loop (admission admit) (Suc n) st k r w = (CFLOW_MAILBOX_FULL, k, r, w)"
proof -
  have nr: "\<not> ready_row blank_row" by (simp add: ready_row_def blank_row_def)
  show "ready_queue r = [] \<Longrightarrow> drain_loop (admission admit) (Suc n) st k r w = (st, k, r, w)"
    using drain_claim_cases [OF assms] nr by fastforce
  show "ready_queue r = x # q \<Longrightarrow> \<not> dispatchable r x \<Longrightarrow>
      drain_loop (admission admit) (Suc n) st k r w = (CFLOW_MAILBOX_FULL, k, r, w)"
    using drain_claim_cases [OF assms] nr by fastforce
qed

interpretation router_fifo: fifo_drain "drain_loop (admission admit)" "\<lambda>r. router_inv r \<and> \<not> r_closed r"
  ready_queue dispatchable delivery admit for admit
proof unfold_locales
  fix n st k r w x q
  assume ok: "router_inv r \<and> \<not> r_closed r" and q: "ready_queue r = x # q" and disp: "dispatchable r x"
  show "\<exists>s'. drain_loop (admission admit) (Suc n) st k r w =
      drain_loop (admission admit) n CFLOW_MAILBOX_OK (k + 1) s' (w @ [delivery r x]) \<and>
    (router_inv s' \<and> \<not> r_closed s') \<and> ready_queue s' = q \<and> dispatchable s' = dispatchable r \<and>
    delivery s' = delivery r" if acc: "admit w (delivery r x) = CFLOW_MAILBOX_OK"
  proof -
    from drain_loop_head [of r x q admit w n st k] ok q disp acc obtain s' where
      "drain_loop (admission admit) (Suc n) st k r w =
        drain_loop (admission admit) n CFLOW_MAILBOX_OK (k + 1) s' (w @ [delivery r x])"
      "router_inv s'" "\<not> r_closed s'" "ready_queue s' = q" and e: "r_endpoints s' = r_endpoints r"
      by auto
    with delivery_endpoints [OF e] show ?thesis by blast
  qed
  show "\<exists>s'. drain_loop (admission admit) (Suc n) st k r w = (admit w (delivery r x), k, s', w) \<and>
    ready_queue s' = ready_queue r" if "admit w (delivery r x) \<noteq> CFLOW_MAILBOX_OK"
    using drain_loop_head [of r x q admit w n st k] ok q disp that by auto
qed (use drain_loop_blocked in \<open>simp_all add: conj_commute\<close>)

section \<open>The timer loop\<close>

lemma due_row_frame:
  "r_endpoints r' = r_endpoints r \<Longrightarrow> r_clock r' = r_clock r \<Longrightarrow> due_row clk r' = due_row clk r"
  by (simp add: due_row_def fun_eq_iff matches_live_ref)

lemma run_due_settle_fires:
  assumes inv: "router_inv r" and claim: "run_due_claim clk r = Due_Claimed i s sid r1"
  shows "\<exists>r3. run_due_settle i True r1 = (SALTS_OK, True, r3) \<and>
    r_rows r3 = (r_rows r)[i := (r_rows r ! i)\<lparr>row_state := ROW_READY\<rparr>] \<and>
    r_endpoints r3 = r_endpoints r \<and> r_clock r3 = r_clock r \<and> r_closed r3 = r_closed r"
proof -
  note C = run_due_claimD [OF claim]
  have inv1: "router_inv r1" by (rule run_due_claim_inv [OF inv claim])
  have i1: "i < event_capacity r1" "row_state (r_rows r1 ! i) = ROW_FIRING"
    using C(2) by (simp_all add: C(7))
  have "awaiting (r_rows r1 ! i)" using i1(2) by (simp add: awaiting_def)
  with awaiting_delay [OF router_invD(1) [OF inv1] i1(1)] i1(2) have "timed (r_rows r1 ! i)"
    by (simp add: timed_def timed_state_def)
  with counters_timer_pos [OF core_invD(1) [OF router_invD(1) [OF inv1]] i1(1)]
  have "r_timer_pending r1 \<noteq> 0" by simp
  with i1 C(1) show ?thesis by (simp add: run_due_settle_def Let_def C(7))
qed

lemma run_due_claim_cases:
  assumes inv: "router_inv r" and opn: "\<not> r_closed r"
  shows "(due_queue clk r = [] \<and> run_due_claim clk r = Due_None) \<or>
    (\<exists>i s sid r1 q. run_due_claim clk r = Due_Claimed i s sid r1 \<and> (s, sid) = due_report r (r_rows r ! i) \<and>
       due_queue clk r = r_rows r ! i # q \<and>
       row_queue (due_row clk r) due_key ((r_rows r)[i := (r_rows r ! i)\<lparr>row_state := ROW_READY\<rparr>]) = q)"
proof (cases "earliest_row (due_row clk r) due_before (r_rows r)")
  case None
  then have "due_queue clk r = []"
    by (simp add: due_queue_def row_queue_empty_iff due_order.earliest_row_None_iff)
  with opn None show ?thesis by (simp add: run_due_claim_def)
next
  case (Some i)
  have "\<not> due_row clk r ((r_rows r ! i)\<lparr>row_state := ROW_READY\<rparr>)" by (simp add: due_row_def)
  from by_deadline.row_queue_pop [OF Some due_inj [OF inv] this] opn Some show ?thesis
    by (simp add: run_due_claim_def Let_def due_queue_def due_report_def)
qed

lemma run_due_loop_refines:
  assumes "router_inv r" "\<not> r_closed r" "n = m - k" "k \<le> m"
  shows "\<exists>r'. run_due_loop clk settle_all m k r w =
      (SALTS_OK, k + min n (length (due_queue clk r)), r',
       w @ map (due_report r) (take n (due_queue clk r))) \<and>
    router_inv r' \<and> due_queue clk r' = drop n (due_queue clk r)"
  using assms
proof (induction n arbitrary: k r w)
  case 0
  then show ?case by (simp add: run_due_loop.simps)
next
  case (Suc n)
  note inv = Suc.prems(1) and opn = Suc.prems(2)
  have k: "k < m" "n = m - (k + 1)" "k + 1 \<le> m" using Suc.prems(3,4) by auto
  from run_due_claim_cases [OF inv opn, of clk] show ?case
  proof (elim disjE conjE exE)
    assume "due_queue clk r = []" "run_due_claim clk r = Due_None"
    then show ?thesis using k(1) inv by (simp add: run_due_loop.simps [of clk settle_all m k])
  next
    fix i s sid r1 q
    assume claim: "run_due_claim clk r = Due_Claimed i s sid r1"
      and rep: "(s, sid) = due_report r (r_rows r ! i)" and q: "due_queue clk r = r_rows r ! i # q"
      and q': "row_queue (due_row clk r) due_key
        ((r_rows r)[i := (r_rows r ! i)\<lparr>row_state := ROW_READY\<rparr>]) = q"
    from run_due_settle_fires [OF inv claim] obtain r3 where
      settle: "run_due_settle i True r1 = (SALTS_OK, True, r3)"
      and r3: "r_rows r3 = (r_rows r)[i := (r_rows r ! i)\<lparr>row_state := ROW_READY\<rparr>]"
        "r_endpoints r3 = r_endpoints r" "r_clock r3 = r_clock r" "r_closed r3 = r_closed r" by blast
    have inv3: "router_inv r3"
      by (rule run_due_settle_inv [OF run_due_claim_inv [OF inv claim] _ settle])
         (use run_due_claimD(2,7) [OF claim] in simp)
    have q3: "due_queue clk r3 = q" using q' by (simp add: due_queue_def due_row_frame [OF r3(2,3)] r3(1))
    have rep3: "due_report r3 = due_report r" by (simp add: due_report_def fun_eq_iff r3)
    have "run_due_loop clk settle_all m k r w =
        run_due_loop clk settle_all m (k + 1) r3 (w @ [due_report r (r_rows r ! i)])"
      using k(1) claim settle rep by (simp add: run_due_loop.simps [of clk settle_all m k] settle_all_def)
    with Suc.IH [of r3 "k + 1" "w @ [due_report r (r_rows r ! i)]"] inv3 opn r3(4) k(2,3) q q3 rep3
    show ?thesis by simp
  qed
qed

section \<open>Publication\<close>

text \<open>Committing an immediate send appends to the queue; a fired timer enters at its commit number.\<close>

lemma commit_locked_appends:
  assumes inv: "router_inv r" and i: "i < event_capacity r" "row_state (r_rows r ! i) = ROW_RESERVED"
    and opn: "\<not> r_closed r" "r_next_sequence r \<noteq> UINT64_MAX" and now: "row_delay_ms (r_rows r ! i) = 0"
  shows "ready_queue (commit_locked clk i r) = ready_queue r @
    [(r_rows r ! i)\<lparr>row_sequence := r_next_sequence r + 1, row_state := ROW_READY\<rparr>]"
proof -
  let ?y = "(r_rows r ! i)\<lparr>row_sequence := r_next_sequence r + 1, row_state := ROW_READY\<rparr>"
  have "r_rows r ! i \<in> set (r_rows r)" using i by simp
  with core_invD(3) [OF router_invD(1) [OF inv]] i(2) have "matches r (row_target (r_rows r ! i))"
    by (auto simp: rows_pinned_def nonfree_def matches_live_ref)
  then have rows: "r_rows (commit_locked clk i r) = (r_rows r)[i := ?y]"
    using i opn now by (simp add: commit_locked_def Let_def)
  have "row_queue ready_row row_sequence ((r_rows r)[i := ?y]) =
      row_queue ready_row row_sequence (r_rows r) @ [?y]"
    by (rule by_sequence.row_queue_push)
       (use i ready_below_next [OF inv opn(2)] ready_inj [OF inv] in \<open>auto simp: ready_row_def\<close>)
  then show ?thesis by (simp add: ready_queue_def rows)
qed

section \<open>Properties\<close>

definition demo_two :: host_router where
  "demo_two = snd (scxml_host_router_enqueue (demo_clk 0) demo_ref (CBytes ''tock'') (CBytes ''y'')
     demo_queued)"

text \<open>A delayed send from the demo Session to itself, prepared and committed at time 0.\<close>

definition demo_send :: "string \<Rightarrow> u64 \<Rightarrow> row_id \<Rightarrow> host_router \<Rightarrow> host_router" where
  "demo_send sid delay i r = ticket_commit (demo_clk 0) i
     (snd (snd (scxml_host_router_prepare_target demo_ref (CBytes []) (CBytes sid) (CBytes sid) None
        delay r)))"

definition demo_delayed :: host_router where
  "demo_delayed = demo_send ''soon'' 5 1 (demo_send ''late'' 9 0 demo_attached)"

lemma reserve_locked_capacity:
  "reserve_locked target name body r = (t, r') \<Longrightarrow> event_capacity r' = event_capacity r"
  by (auto simp: reserve_locked_def split: if_splits option.splits)

lemma prepare_target_capacity:
  "scxml_host_router_prepare_target source addr name sid content delay r = (st, t, r') \<Longrightarrow>
     event_capacity r' = event_capacity r"
  unfolding scxml_host_router_prepare_target_def Let_def
  by (auto split: if_splits option.splits prod.splits dest: reserve_locked_capacity)

lemma demo_send_reachable:
  assumes "router_reachable r" "i < event_capacity r"
  shows "router_reachable (demo_send sid delay i r)"
proof -
  let ?p = "scxml_host_router_prepare_target demo_ref (CBytes []) (CBytes sid) (CBytes sid) None delay r"
  have "router_reachable (snd (snd ?p))"
    by (rule router_reachable.step [OF assms(1) router_step.prepare_target [OF triple_split]])
  moreover have "i < event_capacity (snd (snd ?p))"
    using assms(2) prepare_target_capacity [OF triple_split] by metis
  ultimately show ?thesis
    unfolding demo_send_def by (auto intro: router_reachable.step router_step.commit)
qed

lemma demo_delayed_reachable: "router_reachable demo_delayed"
  unfolding demo_delayed_def
  by (intro demo_send_reachable demo_attached_reachable) code_simp+

lemma demo_two_reachable: "router_reachable demo_two"
  unfolding demo_two_def by (rule reachable_enqueue [OF demo_queued_reachable])

text \<open>
  Property (C2). Delivery is a FIFO refinement: on any reachable open router that nobody drains,
  \<^verbatim>\<open>scxml_host_router_drain\<close>, which scans the row table, behaves as the list program that
  offers the ready events to the Session in commit order, at most \<open>max_events\<close> of them,
  stops at the first one that is refused or whose endpoints are not published, and keeps that
  one and all later ones, in order. The reported count is the number of events handed over.
\<close>

theorem router_drain_refines_queue:
  assumes "router_reachable r" "\<not> r_closed r" "\<not> r_draining r" "max_events \<noteq> 0"
    and "scxml_host_router_drain (admission admit) max_events r w = (st, n, r', w')"
  shows "queue_drain (dispatchable r) (delivery r) admit max_events CFLOW_MAILBOX_EMPTY w (ready_queue r) =
      (st, w', ready_queue r') \<and> length w' = length w + n"
proof -
  let ?r = "r\<lparr>r_draining := True\<rparr>"
  have inv: "router_inv ?r" using router_reachable_inv [OF assms(1)] by simp
  have frame: "delivery ?r = delivery r" "dispatchable ?r = dispatchable r"
    by (rule delivery_endpoints, simp)+
  have q: "ready_queue (x\<lparr>r_draining := b\<rparr>) = ready_queue x" for x b by (simp add: ready_queue_def)
  from assms obtain r2 where "drain_loop (admission admit) max_events CFLOW_MAILBOX_EMPTY 0 ?r w =
      (st, n, r2, w')" "r' = r2\<lparr>r_draining := False\<rparr>"
    by (auto simp: scxml_host_router_drain_def drain_begin_def split: prod.splits)
  with router_fifo.drain_refines [OF _ this(1)] inv assms(2) show ?thesis by (simp add: frame q)
qed

theorem router_drain_refines_queue_witness:
  "map (\<lambda>d. fst (snd d)) (snd (snd (snd (scxml_host_router_drain
     (admission (\<lambda>w d. if length w < 1 then CFLOW_MAILBOX_OK else CFLOW_MAILBOX_FULL)) 5 demo_two [])))) =
   [''tick''] \<and>
   map row_name (snd (snd (queue_drain (dispatchable demo_two) (delivery demo_two)
     (\<lambda>w d. if length w < 1 then CFLOW_MAILBOX_OK else CFLOW_MAILBOX_FULL) 5 CFLOW_MAILBOX_EMPTY []
     (ready_queue demo_two)))) = [''tock'']"
proof -
  let ?admit = "\<lambda>w d. if length w < (1::nat) then CFLOW_MAILBOX_OK else CFLOW_MAILBOX_FULL"
  let ?run = "scxml_host_router_drain (admission ?admit) 5 demo_two []"
  obtain st n r' w' where run: "?run = (st, n, r', w')" by (cases ?run)
  have "\<not> r_closed demo_two" "\<not> r_draining demo_two" by code_simp+
  from router_drain_refines_queue [OF demo_two_reachable this _ run]
  have q: "queue_drain (dispatchable demo_two) (delivery demo_two) ?admit 5 CFLOW_MAILBOX_EMPTY []
      (ready_queue demo_two) = (st, w', ready_queue r')" by simp
  have "map (\<lambda>d. fst (snd d)) (snd (snd (snd ?run))) = [''tick'']" by code_simp
  moreover have "map row_name (ready_queue (fst (snd (snd ?run)))) = [''tock'']" by code_simp
  ultimately show ?thesis using run q by simp
qed

text \<open>
  Property (C17). The timer pass fires in deadline order: on any reachable open router that runs no
  timer pass, when the Session settles every send, \<^verbatim>\<open>scxml_host_router_run_due\<close> reports
  the due sends in order of deadline and commit number, at most \<open>max_fires\<close> of them,
  returns OK with their number, and leaves exactly the later ones due.
\<close>

theorem router_run_due_in_deadline_order:
  assumes "router_reachable r" "\<not> r_closed r" "\<not> r_timer_running r" "r_clock r \<noteq> None" "max_fires \<noteq> 0"
  shows "\<exists>r'. scxml_host_router_run_due clk settle_all max_fires r w =
      (SALTS_OK, min max_fires (length (due_queue clk r)), r',
       w @ map (due_report r) (take max_fires (due_queue clk r))) \<and>
    due_queue clk r' = drop max_fires (due_queue clk r)"
proof -
  let ?r = "r\<lparr>r_timer_running := True\<rparr>"
  have inv: "router_inv ?r" using router_reachable_inv [OF assms(1)] by simp
  have q: "due_queue clk (x\<lparr>r_timer_running := b\<rparr>) = due_queue clk x" for x b
    using due_row_frame [of "x\<lparr>r_timer_running := b\<rparr>" x clk] by (simp add: due_queue_def)
  have rep: "due_report ?r = due_report r" by (simp add: due_report_def fun_eq_iff)
  from run_due_loop_refines [OF inv, of max_fires max_fires 0 clk w] assms(2)
  obtain r2 where "run_due_loop clk settle_all max_fires 0 ?r w =
      (SALTS_OK, min max_fires (length (due_queue clk r)), r2,
       w @ map (due_report r) (take max_fires (due_queue clk r)))"
    "due_queue clk r2 = drop max_fires (due_queue clk r)" by (auto simp: q rep)
  with assms show ?thesis by (simp add: scxml_host_router_run_due_def run_due_begin_def q)
qed

theorem router_run_due_in_deadline_order_witness:
  "map snd (snd (snd (snd (scxml_host_router_run_due (demo_clk 20) settle_all 4 demo_delayed [])))) =
   [''soon'', ''late'']"
proof -
  have "\<not> r_closed demo_delayed" "\<not> r_timer_running demo_delayed" "r_clock demo_delayed \<noteq> None"
    by code_simp+
  from router_run_due_in_deadline_order [OF demo_delayed_reachable this, of 4 "demo_clk 20" "[]"]
  obtain r' where "scxml_host_router_run_due (demo_clk 20) settle_all 4 demo_delayed [] =
      (SALTS_OK, min 4 (length (due_queue (demo_clk 20) demo_delayed)), r',
       map (due_report demo_delayed) (take 4 (due_queue (demo_clk 20) demo_delayed)))" by auto
  moreover have "map snd (map (due_report demo_delayed) (take 4 (due_queue (demo_clk 20) demo_delayed))) =
      [''soon'', ''late'']" by code_simp
  ultimately show ?thesis by simp
qed

end
