(* ===== verification/Host_Router_Identity.thy ===== *)
theory Host_Router_Identity
  imports Host_Router_Queue
begin

text \<open>
  Row identities and cancellation. A row keeps its identity, source and send id from its
  reservation to its release, whatever the threads do in between, so a cancellation ticket,
  which remembers a row and its identity, can only ever reach the send it was made for.
\<close>

section \<open>How one row evolves\<close>

definition row_evolves :: "u64 \<Rightarrow> host_row \<Rightarrow> host_row \<Rightarrow> bool" where
  "row_evolves nxt row row' \<longleftrightarrow> row_identity row' = 0 \<or> nxt < row_identity row' \<or>
     (row_identity row' = row_identity row \<and> row_source row' = row_source row \<and>
      row_send_id row' = row_send_id row \<and> row_delay_ms row' = row_delay_ms row \<and>
      row_target row' = row_target row \<and> row_name row' = row_name row \<and> row_text row' = row_text row)"

definition table_evolves :: "host_router \<Rightarrow> host_router \<Rightarrow> bool" where
  "table_evolves r r' \<longleftrightarrow> event_capacity r' = event_capacity r \<and>
     r_next_row_identity r \<le> r_next_row_identity r' \<and>
     (\<forall>i<event_capacity r. row_evolves (r_next_row_identity r) (r_rows r ! i) (r_rows r' ! i))"

lemma row_evolves_refl [simp]: "row_evolves nxt row row"
  by (simp add: row_evolves_def)

lemma row_evolves_blank [simp]: "row_evolves nxt row blank_row"
  by (simp add: row_evolves_def blank_row_def)

lemma row_evolves_restate [simp]:
  "row_evolves nxt row (row\<lparr>row_state := s\<rparr>)"
  "row_evolves nxt row (row\<lparr>row_sequence := q, row_state := s\<rparr>)"
  "row_evolves nxt row (row\<lparr>row_sequence := q, row_deadline_ns := d, row_state := s\<rparr>)"
  "row_evolves nxt row (row\<lparr>row_fire_won_cancel := b\<rparr>)"
  by (simp_all add: row_evolves_def)

lemma table_evolves_refl:
  "r_rows r' = r_rows r \<Longrightarrow> r_next_row_identity r' = r_next_row_identity r \<Longrightarrow> table_evolves r r'"
  by (simp add: table_evolves_def)

lemma table_evolves_update:
  assumes "r_rows r' = (r_rows r)[i := row]" "r_next_row_identity r \<le> r_next_row_identity r'"
    and "row_evolves (r_next_row_identity r) (r_rows r ! i) row"
  shows "table_evolves r r'"
  unfolding table_evolves_def
proof (intro conjI allI impI)
  fix j
  assume "j < event_capacity r"
  with assms show "row_evolves (r_next_row_identity r) (r_rows r ! j) (r_rows r' ! j)"
    by (cases "j = i") simp_all
qed (use assms in simp_all)

lemma table_evolves_trans:
  assumes "table_evolves r r'" "table_evolves r' r''" shows "table_evolves r r''"
  unfolding table_evolves_def
proof (intro conjI allI impI)
  fix i
  assume "i < event_capacity r"
  with assms have "row_evolves (r_next_row_identity r) (r_rows r ! i) (r_rows r' ! i)"
    "row_evolves (r_next_row_identity r') (r_rows r' ! i) (r_rows r'' ! i)"
    "r_next_row_identity r \<le> r_next_row_identity r'"
    by (simp_all add: table_evolves_def)
  then show "row_evolves (r_next_row_identity r) (r_rows r ! i) (r_rows r'' ! i)"
    by (auto simp: row_evolves_def intro: le_less_trans)
qed (use assms in \<open>auto simp: table_evolves_def\<close>)

section \<open>Every step lets the rows evolve\<close>

lemma release_locked_next [simp]: "r_next_row_identity (release_locked i r) = r_next_row_identity r"
  by (simp add: release_locked_def Let_def)

lemma release_locked_rows:
  "r_rows (release_locked i r) = r_rows r \<or> r_rows (release_locked i r) = (r_rows r)[i := blank_row]"
  by (simp add: release_locked_def Let_def)

lemma table_evolves_statistics [simp]:
  "table_evolves r (r'\<lparr>r_cancelled := x\<rparr>) = table_evolves r r'"
  "table_evolves r (r'\<lparr>r_timer_cancelled := x\<rparr>) = table_evolves r r'"
  "table_evolves r (r'\<lparr>r_timer_done_failed := x\<rparr>) = table_evolves r r'"
  "table_evolves r (r'\<lparr>r_discarded := x\<rparr>) = table_evolves r r'"
  "table_evolves r (r'\<lparr>r_delivered := x\<rparr>) = table_evolves r r'"
  "table_evolves r (r'\<lparr>r_invariant_failures := x\<rparr>) = table_evolves r r'"
  "table_evolves r (r'\<lparr>r_cancel_fire_won := x\<rparr>) = table_evolves r r'"
  "table_evolves r (r'\<lparr>r_cancel_committed := x\<rparr>) = table_evolves r r'"
  "table_evolves r (r'\<lparr>r_delivery_errors := x\<rparr>) = table_evolves r r'"
  by (simp_all add: table_evolves_def)

lemma table_evolves_same [simp]: "table_evolves r r"
  by (simp add: table_evolves_refl)

lemma release_evolves [intro]: "table_evolves r r1 \<Longrightarrow> table_evolves r (release_locked i r1)"
  using release_locked_rows [of i r1]
  by (auto elim!: table_evolves_trans intro: table_evolves_refl
      table_evolves_update [where row = blank_row and i = i])

lemma reserve_evolves:
  assumes "reserve_locked target name body r = (t, r1)"
    and "r_next_row_identity r' = r_next_row_identity r1"
    and "r_rows r' = r_rows r1 \<or> (\<exists>i. t = Some i \<and> (\<exists>s k d sid. r_rows r' = (r_rows r1)[i :=
      (r_rows r1 ! i)\<lparr>row_source := s, row_delay_ms := d, row_content_kind := k, row_send_id := sid\<rparr>]))"
  shows "table_evolves r r'"
proof (cases t)
  case None
  with assms show ?thesis
    by (intro table_evolves_refl) (auto simp: reserve_locked_def split: if_splits option.splits)
next
  case (Some i)
  with assms(1) have n: "r_next_row_identity r1 = r_next_row_identity r + 1"
    "r_next_row_identity r < r_next_row_identity r + 1" "i < event_capacity r"
    and rows: "\<exists>x. r_rows r1 = (r_rows r)[i := x] \<and> row_identity x = r_next_row_identity r + 1"
    by (auto simp: reserve_locked_def less_Suc_guard dest: first_index_SomeD
        split: if_splits option.splits)
  from rows assms(3) Some obtain y where "r_rows r' = (r_rows r)[i := y]"
    "row_identity y = r_next_row_identity r + 1" using n(3) by fastforce
  with n assms(2) show ?thesis
    by (intro table_evolves_update [where i = i and row = y]) (auto simp: row_evolves_def)
qed

lemma commit_evolves: "table_evolves r (commit_locked clk i r)"
proof (cases "row_state (r_rows r ! i) = ROW_RESERVED \<and> \<not> (r_closed r \<or>
    \<not> matches r (row_target (r_rows r ! i)) \<or> r_next_sequence r = UINT64_MAX)")
  case True
  then have "\<exists>row. r_rows (commit_locked clk i r) = (r_rows r)[i := row] \<and>
      row_evolves (r_next_row_identity r) (r_rows r ! i) row"
    by (auto simp: commit_locked_def Let_def intro!: exI row_evolves_restate)
  moreover from True have "r_next_row_identity (commit_locked clk i r) = r_next_row_identity r"
    by (simp add: commit_locked_def Let_def)
  ultimately show ?thesis by (auto intro: table_evolves_update)
next
  case False
  then show ?thesis by (auto simp: commit_locked_def Let_def release_evolves)
qed

lemma enqueue_evolves:
  "scxml_host_router_enqueue clk target name body r = (st, r') \<Longrightarrow> table_evolves r r'"
  by (auto simp: scxml_host_router_enqueue_def split: if_splits prod.splits option.splits
      intro: table_evolves_refl reserve_evolves
        table_evolves_trans [OF reserve_evolves commit_evolves])

lemma prepare_target_evolves:
  assumes "scxml_host_router_prepare_target source addr name sid content delay r = (st, t, r')"
  shows "table_evolves r r'"
proof (cases "st = SALTS_OK")
  case True
  with assms have "scxml_host_router_prepare_target source addr name sid content delay r = (SALTS_OK, t, r')"
    by simp
  then obtain i r1 resolved kind body where "reserve_locked resolved (cdata name) body r = (Some i, r1)"
    "t = Some i" "r' = r1\<lparr>r_rows := (r_rows r1)[i := (r_rows r1 ! i)\<lparr>
             row_source := source, row_delay_ms := delay,
             row_content_kind := kind, row_send_id := cdata sid\<rparr>],
          r_timer_pending := (if delay \<noteq> 0 then r_timer_pending r1 + 1 else r_timer_pending r1),
          r_prepared := r_prepared r1 + 1\<rparr>"
    by (rule prepare_target_OK) blast
  then show ?thesis by (intro reserve_evolves) (simp, simp, simp, blast)
next
  case False
  then show ?thesis
    using assms unfolding scxml_host_router_prepare_target_def Let_def
    by (auto split: if_splits prod.splits option.splits intro: table_evolves_refl reserve_evolves)
qed

lemma cancel_row_if_evolves: "table_evolves (fst st) (fst (cancel_row_if P i st))"
  by (simp add: cancel_row_if_def Let_def release_evolves split: prod.splits)

lemma fold_cancel_evolves: "table_evolves (fst st) (fst (fold (cancel_row_if P) is st))"
proof (induction "is" arbitrary: st)
  case Nil
  show ?case by (simp add: table_evolves_refl)
next
  case (Cons i "is")
  from table_evolves_trans [OF cancel_row_if_evolves Cons.IH] show ?case by simp
qed

lemma cancel_rows_evolves: "table_evolves r (fst (cancel_rows P r))"
  using fold_cancel_evolves [of "(r, 0)"] by (simp add: cancel_rows_def)

lemma cancel_rows_evolves': "cancel_rows P r = (r', n) \<Longrightarrow> table_evolves r r'"
  by (metis cancel_rows_evolves fst_conv)

lemma restate_evolves:
  "row_evolves (r_next_row_identity r) (r_rows r ! i) row \<Longrightarrow> table_evolves r (r\<lparr>r_rows := (r_rows r)[i := row]\<rparr>)"
  by (rule table_evolves_update [where i = i and row = row]) simp_all

lemma cancel_apply_evolves: "table_evolves r (cancel_apply cx r)"
  by (auto simp: cancel_apply_def Let_def restate_evolves release_evolves split: option.splits)

lemma cancel_ticket_evolves:
  "table_evolves r (cancel_commit k r)" "table_evolves r (cancel_discard k r)"
proof -
  have "table_evolves (cancel_apply (r_cancel_rows r ! k) r) (cancel_commit k r)" if "cx_in_use (r_cancel_rows r ! k)"
    using that by (auto simp: cancel_commit_def Let_def cancel_release_locked_def intro: table_evolves_refl)
  with cancel_apply_evolves show "table_evolves r (cancel_commit k r)"
    by (cases "cx_in_use (r_cancel_rows r ! k)")
       (auto simp: cancel_commit_def intro: table_evolves_refl table_evolves_trans)
  show "table_evolves r (cancel_discard k r)"
    by (auto simp: cancel_discard_def cancel_release_locked_def intro: table_evolves_refl)
qed

lemma ticket_evolves:
  "table_evolves r (ticket_commit clk i r)" "table_evolves r (ticket_discard i r)"
  by (simp_all add: ticket_commit_def ticket_discard_def commit_evolves release_evolves)

lemma settle_evolves:
  "run_due_settle i settled r = (st, fired, r') \<Longrightarrow> table_evolves r r'"
  "drain_settle i status r = (mst, delivered, r') \<Longrightarrow> table_evolves r r'"
  by (auto simp: run_due_settle_def drain_settle_def Let_def release_evolves split: if_splits
      intro: table_evolves_refl table_evolves_update)

lemma claim_evolves:
  "run_due_claim clk r = Due_Claimed i s sid r' \<Longrightarrow> table_evolves r r'"
  "drain_claim r = Drain_Claimed i s nm md r' \<Longrightarrow> table_evolves r r'"
  "drain_claim r = Drain_Break mst r' \<Longrightarrow> table_evolves r r'"
  by (auto simp: run_due_claim_def drain_claim_def Let_def split: if_splits option.splits
      intro: table_evolves_refl table_evolves_update)

lemma endpoint_op_evolves:
  "scxml_host_router_reserve r = (st, ref, r') \<Longrightarrow> table_evolves r r'"
  "scxml_host_router_activate loc ref0 s r = (st, r') \<Longrightarrow> table_evolves r r'"
  "scxml_host_router_attach loc s r = (st, ref, r') \<Longrightarrow> table_evolves r r'"
  "scxml_host_router_detach ref0 r = (st, r') \<Longrightarrow> table_evolves r r'"
  "scxml_host_router_set_parent ref0 par r = (st, r') \<Longrightarrow> table_evolves r r'"
  "scxml_host_router_set_external_access ref0 b r = (st, r') \<Longrightarrow> table_evolves r r'"
  "scxml_host_router_bind_invoke source ident target r = (st, r') \<Longrightarrow> table_evolves r r'"
  "scxml_host_router_unbind_invoke source ident r = (st, r') \<Longrightarrow> table_evolves r r'"
  "scxml_host_router_resolve source addr r = (st, ref, r') \<Longrightarrow> table_evolves r r'"
  "scxml_host_router_prepare_cancel source sid r = (st, k, r') \<Longrightarrow> table_evolves r r'"
  "run_due_begin r = (st, r') \<Longrightarrow> table_evolves r r'"
  "drain_begin r = (mst, r') \<Longrightarrow> table_evolves r r'"
  by (auto simp: scxml_host_router_reserve_def scxml_host_router_activate_def
      scxml_host_router_attach_def scxml_host_router_detach_def scxml_host_router_set_parent_def
      scxml_host_router_set_external_access_def scxml_host_router_bind_invoke_def
      scxml_host_router_unbind_invoke_def scxml_host_router_resolve_def
      scxml_host_router_prepare_cancel_def run_due_begin_def drain_begin_def Let_def
      split: if_splits option.splits prod.splits intro: table_evolves_refl)

lemma row_op_evolves:
  "scxml_host_router_prepare target name body r = (st, t, r') \<Longrightarrow> table_evolves r r'"
  "abort_locked ref0 r = (st, r') \<Longrightarrow> table_evolves r r'"
  "scxml_host_router_cancel target r = (st, n, r') \<Longrightarrow> table_evolves r r'"
  "scxml_host_router_cancel_source target r = (st, n, r') \<Longrightarrow> table_evolves r r'"
  by (auto simp: scxml_host_router_prepare_def abort_locked_def scxml_host_router_cancel_def
      scxml_host_router_cancel_source_def split: if_splits option.splits prod.splits
      intro: table_evolves_refl reserve_evolves cancel_rows_evolves cancel_rows_evolves')

lemma close_evolves:
  assumes "scxml_host_router_close r = (st, r')" shows "table_evolves r r'"
proof -
  have "table_evolves r (r\<lparr>r_closed := True\<rparr>)" by (simp add: table_evolves_refl)
  from table_evolves_trans [OF this cancel_rows_evolves] assms show ?thesis
    by (auto simp: scxml_host_router_close_def split: if_splits intro: table_evolves_refl)
qed

lemma router_step_evolves: "router_step r r' \<Longrightarrow> table_evolves r r'"
  by (induction rule: router_step.induct)
     (erule endpoint_op_evolves row_op_evolves prepare_target_evolves enqueue_evolves
        claim_evolves settle_evolves close_evolves
      | rule ticket_evolves cancel_ticket_evolves | simp add: table_evolves_refl)+

lemma router_steps_evolves: "router_steps r r' \<Longrightarrow> table_evolves r r'"
  by (induction rule: router_steps.induct)
     (auto intro: table_evolves_refl table_evolves_trans router_step_evolves)

section \<open>Cancellation\<close>

text \<open>The row a ticket names keeps source and send id for as long as it keeps the identity.\<close>

lemma identity_keeps_send:
  assumes "table_evolves r r'" "i < event_capacity r" "nonfree (r_rows r ! i)" "router_inv r"
    and "row_identity (r_rows r' ! i) = row_identity (r_rows r ! i)"
  shows "row_source (r_rows r' ! i) = row_source (r_rows r ! i) \<and>
    row_send_id (r_rows r' ! i) = row_send_id (r_rows r ! i) \<and>
    row_delay_ms (r_rows r' ! i) = row_delay_ms (r_rows r ! i) \<and>
    row_target (r_rows r' ! i) = row_target (r_rows r ! i) \<and>
    row_name (r_rows r' ! i) = row_name (r_rows r ! i) \<and> row_text (r_rows r' ! i) = row_text (r_rows r ! i)"
proof -
  have "r_rows r ! i \<in> set (r_rows r)" using assms(2) by simp
  with core_invD(9) [OF router_invD(1) [OF assms(4)]] assms(3)
  have "row_identity (r_rows r ! i) \<le> r_next_row_identity r" "row_identity (r_rows r ! i) \<noteq> 0"
    by (auto simp: identities_ok_def)
  moreover have "row_evolves (r_next_row_identity r) (r_rows r ! i) (r_rows r' ! i)"
    using assms(1,2) by (simp add: table_evolves_def)
  ultimately show ?thesis using assms(5) by (auto simp: row_evolves_def)
qed

text \<open>An identity that was given up never comes back: rows that have it at both ends had it all the time.\<close>

lemma identity_kept_between:
  assumes "table_evolves r r1" "table_evolves r1 r2" "i < event_capacity r" "nonfree (r_rows r ! i)" "router_inv r"
    and same: "row_identity (r_rows r2 ! i) = row_identity (r_rows r ! i)"
  shows "row_identity (r_rows r1 ! i) = row_identity (r_rows r ! i)"
proof -
  have "r_rows r ! i \<in> set (r_rows r)" using assms(3) by simp
  with core_invD(9) [OF router_invD(1) [OF assms(5)]] assms(4)
  have "row_identity (r_rows r ! i) \<le> r_next_row_identity r" "row_identity (r_rows r ! i) \<noteq> 0"
    by (auto simp: identities_ok_def)
  moreover have "row_evolves (r_next_row_identity r1) (r_rows r1 ! i) (r_rows r2 ! i)"
    "r_next_row_identity r \<le> r_next_row_identity r1"
    using assms(1-3) by (simp_all add: table_evolves_def)
  ultimately show ?thesis using same by (auto simp: row_evolves_def)
qed

lemma identified_nonfree:
  assumes "router_inv r" "i < event_capacity r" "row_identity (r_rows r ! i) \<noteq> 0"
  shows "nonfree (r_rows r ! i)"
  using core_invD(2) [OF router_invD(1) [OF assms(1)]] assms(2,3)
  by (auto simp: rows_clean_def blank_row_def dest!: bspec [of _ _ "r_rows r ! i"])

lemma prepare_cancel_OK:
  assumes "scxml_host_router_prepare_cancel source sid r = (SALTS_OK, Some k, r')"
  obtains i where "first_index (cancel_candidate source (cdata sid)) (r_rows r) = Some i"
    "first_index (\<lambda>cx. \<not> cx_in_use cx) (r_cancel_rows r) = Some k"
    "r' = r\<lparr>r_cancel_rows := (r_cancel_rows r)[k := \<lparr>cx_target = Some i, cx_source = source,
        cx_target_identity = row_identity (r_rows r ! i), cx_in_use = True\<rparr>],
      r_cancel_pending := r_cancel_pending r + 1, r_cancel_prepared := r_cancel_prepared r + 1\<rparr>"
    "matches r source"
  using assms by (auto simp: scxml_host_router_prepare_cancel_def split: if_splits option.splits)

text \<open>Which row a cancellation may change.\<close>

lemma cancel_commit_rows:
  "r_rows (cancel_commit k r) =
     (if cx_in_use (r_cancel_rows r ! k) then r_rows (cancel_apply (r_cancel_rows r ! k) r) else r_rows r)"
  by (simp add: cancel_commit_def Let_def cancel_release_locked_def)

lemma cancel_apply_changed:
  assumes "r_rows (cancel_apply cx r) ! j \<noteq> r_rows r ! j"
  shows "cx_target cx = Some j \<and> row_identity (r_rows r ! j) = cx_target_identity cx"
proof (cases "cx_target cx")
  case None
  with assms show ?thesis by (simp add: cancel_apply_def)
next
  case (Some i)
  have other: "r_rows (release_locked i x) ! j = r_rows x ! j" if "i \<noteq> j" for x
    using release_locked_rows [of i x] that by auto
  with assms Some show ?thesis
    by (cases "i = j") (auto simp: cancel_apply_def Let_def split: if_splits)
qed

section \<open>Concrete runs\<close>

definition demo_ticket :: host_router where
  "demo_ticket = snd (snd (scxml_host_router_prepare_cancel demo_ref (CBytes ''late'') demo_delayed))"

text \<open>A delayed send that has fired and still waits for delivery, and a second one with its id.\<close>

definition demo_fired :: host_router where
  "demo_fired = (case run_due_claim (demo_clk 20) (demo_send ''a'' 5 0 demo_attached) of
     Due_Claimed i s sid r \<Rightarrow> snd (snd (run_due_settle i True r)) | _ \<Rightarrow> demo_send ''a'' 5 0 demo_attached)"

definition demo_resent :: host_router where
  "demo_resent = demo_send ''a'' 5 1 demo_fired"

definition demo_missed :: host_router where
  "demo_missed = snd (snd (scxml_host_router_prepare_cancel demo_ref (CBytes ''a'') demo_resent))"

lemma demo_missed_step:
  "scxml_host_router_prepare_cancel demo_ref (CBytes ''a'') demo_resent = (SALTS_OK, Some 0, demo_missed)"
  unfolding demo_missed_def by (rule prod_eqI) (simp, code_simp, rule prod_eqI, simp, code_simp, simp)

lemma demo_resent_reachable: "router_reachable demo_resent"
proof -
  let ?s = "demo_send ''a'' 5 0 demo_attached"
  have s: "router_reachable ?s" by (intro demo_send_reachable demo_attached_reachable) code_simp
  have "router_reachable demo_fired"
  proof (cases "run_due_claim (demo_clk 20) ?s")
    case (Due_Claimed i x sid r)
    then have "router_reachable r" by (rule router_reachable.step [OF s router_step.run_due_claim])
    moreover have "i < event_capacity r"
      using Due_Claimed by (auto simp: run_due_claim_def Let_def split: if_splits option.splits dest: due_order.earliest_row_SomeD)
    ultimately show ?thesis using Due_Claimed
      by (auto simp: demo_fired_def intro: router_reachable.step router_step.run_due_settle [OF _ triple_split])
  qed (use s in \<open>simp_all add: demo_fired_def\<close>)
  then show ?thesis unfolding demo_resent_def by (rule demo_send_reachable) code_simp
qed

lemma demo_ticket_step:
  "scxml_host_router_prepare_cancel demo_ref (CBytes ''late'') demo_delayed = (SALTS_OK, Some 0, demo_ticket)"
  unfolding demo_ticket_def by (rule prod_eqI) (simp, code_simp, rule prod_eqI, simp, code_simp, simp)

lemma demo_ticket_reachable: "router_reachable demo_ticket"
  by (rule router_reachable.step [OF demo_delayed_reachable router_step.prepare_cancel [OF demo_ticket_step]])

section \<open>Properties\<close>

text \<open>
  Property (C3). A cancellation reaches only the send it was prepared for: take a ticket for a send id
  of a source, let any steps of any threads follow, and commit the ticket while it is still
  held. The only row the commit can change is the one that was selected, the first occupied row with
  that source and send id, and only while it holds that very send: its identity, which is issued once,
  is the one it had when the ticket was taken, and it had it in every state in between, so the row
  was never released; source, target, send id, event, content and delay are unchanged. A row that was
  released and reused is never touched, also not when the new send has the same source and send id.
\<close>

theorem cancel_ticket_no_aba:
  assumes "router_reachable r"
    and "scxml_host_router_prepare_cancel source sid r = (SALTS_OK, Some k, r1)"
    and "router_steps r1 r2" and "r_cancel_rows r2 ! k = r_cancel_rows r1 ! k"
    and "r_rows (cancel_commit k r2) ! j \<noteq> r_rows r2 ! j"
  shows "first_index (cancel_candidate source (cdata sid)) (r_rows r) = Some j \<and>
    row_identity (r_rows r2 ! j) = row_identity (r_rows r ! j) \<and>
    (\<forall>q. router_steps r1 q \<and> router_steps q r2 \<longrightarrow>
       nonfree (r_rows q ! j) \<and> row_identity (r_rows q ! j) = row_identity (r_rows r ! j)) \<and>
    row_source (r_rows r2 ! j) = source \<and> row_send_id (r_rows r2 ! j) = cdata sid \<and>
    row_delay_ms (r_rows r2 ! j) \<noteq> 0 \<and> row_delay_ms (r_rows r2 ! j) = row_delay_ms (r_rows r ! j) \<and>
    row_target (r_rows r2 ! j) = row_target (r_rows r ! j) \<and>
    row_name (r_rows r2 ! j) = row_name (r_rows r ! j) \<and> row_text (r_rows r2 ! j) = row_text (r_rows r ! j)"
proof -
  from assms(2) obtain i where
    i: "first_index (cancel_candidate source (cdata sid)) (r_rows r) = Some i"
    and k: "first_index (\<lambda>cx. \<not> cx_in_use cx) (r_cancel_rows r) = Some k"
    and r1: "r1 = r\<lparr>r_cancel_rows := (r_cancel_rows r)[k := \<lparr>cx_target = Some i, cx_source = source,
        cx_target_identity = row_identity (r_rows r ! i), cx_in_use = True\<rparr>],
      r_cancel_pending := r_cancel_pending r + 1, r_cancel_prepared := r_cancel_prepared r + 1\<rparr>"
    by (rule prepare_cancel_OK)
  note I = first_index_SomeD [OF i]
  have rows1: "r_rows r1 = r_rows r" by (simp add: r1)
  have inv1: "router_inv r1" by (rule prepare_cancel_inv [OF router_reachable_inv [OF assms(1)] assms(2)])
  have reach1: "router_reachable r1"
    by (rule router_reachable.step [OF assms(1) router_step.prepare_cancel [OF assms(2)]])
  have "r_cancel_rows r2 ! k = \<lparr>cx_target = Some i, cx_source = source,
      cx_target_identity = row_identity (r_rows r1 ! i), cx_in_use = True\<rparr>"
    using first_index_SomeD [OF k] assms(4) by (simp add: r1)
  with assms(5) cancel_apply_changed [of "r_cancel_rows r2 ! k" r2 j]
  have ij: "i = j" and same: "row_identity (r_rows r2 ! j) = row_identity (r_rows r1 ! j)"
    by (auto simp: cancel_commit_rows split: if_splits)
  have len: "j < event_capacity r1" and nf: "nonfree (r_rows r1 ! j)"
    using I ij by (auto simp: rows1 cancel_candidate_def nonfree_def)
  have id: "row_identity (r_rows r1 ! j) \<noteq> 0"
    using core_invD(9) [OF router_invD(1) [OF inv1]] len nf by (auto simp: identities_ok_def)
  have between: "nonfree (r_rows q ! j) \<and> row_identity (r_rows q ! j) = row_identity (r_rows r ! j)"
    if "router_steps r1 q" "router_steps q r2" for q
  proof -
    note ev = router_steps_evolves [OF that(1)]
    have q: "row_identity (r_rows q ! j) = row_identity (r_rows r1 ! j)"
      by (rule identity_kept_between [OF ev router_steps_evolves [OF that(2)] len nf inv1 same])
    have "router_inv q" by (rule router_reachable_inv [OF router_reachable_steps [OF that(1) reach1]])
    moreover have "j < event_capacity q" using ev len by (simp add: table_evolves_def)
    ultimately show ?thesis using identified_nonfree [of q j] q id by (simp add: rows1)
  qed
  from identity_keeps_send [OF router_steps_evolves [OF assms(3)] len nf inv1 same] I between i ij same show ?thesis
    by (auto simp: rows1 cancel_candidate_def dest: refs_equal_eqD)
qed

theorem cancel_ticket_no_aba_witness:
  "row_source (r_rows demo_ticket ! 0) = demo_ref \<and> row_send_id (r_rows demo_ticket ! 0) = ''late''"
proof -
  have "row_state (r_rows (cancel_commit 0 demo_ticket) ! 0) = ROW_FREE"
    "row_state (r_rows demo_ticket ! 0) = ROW_DELAYED" by code_simp+
  then have "r_rows (cancel_commit 0 demo_ticket) ! 0 \<noteq> r_rows demo_ticket ! 0" by auto
  from cancel_ticket_no_aba [OF demo_delayed_reachable demo_ticket_step router_steps.refl _ this]
  show ?thesis by simp
qed

text \<open>
  Of a timer and a cancellation exactly one wins: committing a ticket whose row still
  holds the send it was taken for frees the row when the send has not started to fire, and is
  counted as a cancelled timer; when the timer pass has claimed the row, the cancellation is
  counted as lost and the timer pass publishes the event even though the Session no longer
  knows the send; when the event is already published, the row is left alone.
\<close>

theorem cancel_race_one_winner:
  assumes "router_reachable r" and k: "k < cancel_capacity r" "cx_in_use (r_cancel_rows r ! k)"
    and row: "cx_target (r_cancel_rows r ! k) = Some i" "row_state (r_rows r ! i) \<noteq> ROW_FREE"
      "row_identity (r_rows r ! i) = cx_target_identity (r_cancel_rows r ! k)"
      "row_source (r_rows r ! i) = cx_source (r_cancel_rows r ! k)"
  shows "if row_state (r_rows r ! i) = ROW_RESERVED \<or> row_state (r_rows r ! i) = ROW_DELAYED
    then r_rows (cancel_commit k r) = (r_rows r)[i := blank_row] \<and>
      r_timer_cancelled (cancel_commit k r) = r_timer_cancelled r + 1 \<and>
      r_cancel_fire_won (cancel_commit k r) = r_cancel_fire_won r
    else r_cancel_fire_won (cancel_commit k r) = r_cancel_fire_won r + 1 \<and>
      r_timer_cancelled (cancel_commit k r) = r_timer_cancelled r \<and>
      (if row_state (r_rows r ! i) = ROW_FIRING
       then r_closed r \<or>
         (\<exists>r'. run_due_settle i False (cancel_commit k r) = (SALTS_OK, True, r') \<and> ready_row (r_rows r' ! i))
       else r_rows (cancel_commit k r) = r_rows r)"
proof -
  let ?cx = "r_cancel_rows r ! k" and ?row = "r_rows r ! i"
  have inv: "router_inv r" by (rule router_reachable_inv [OF assms(1)])
  note core = router_invD(1) [OF inv]
  have cx: "?cx \<in> set (r_cancel_rows r)" using k by simp
  have i: "i < event_capacity r" using core_invD(7) [OF core] cx row(1) by (auto simp: cancels_bounded_def)
  have "ref_generation (cx_source ?cx) \<noteq> 0"
    using core_invD(6) [OF core] cx k(2) by (auto simp: cancels_pinned_def live_ref_def)
  then have src: "refs_equal (row_source ?row) (cx_source ?cx)" using row(4) by (simp add: refs_equal_def)
  have nf: "nonfree ?row" using row(2) by (simp add: nonfree_def)
  let ?r = "r\<lparr>r_timer_cancelled := r_timer_cancelled r + 1, r_cancelled := r_cancelled r + 1\<rparr>"
  have "counters_ok ?r" using core_invD(1) [OF core] by (simp add: counters_ok_def)
  note rel = release_locked_eq [OF this, of i]
  have inv': "router_inv (cancel_commit k r)" by (rule cancel_commit_inv [OF inv k(1)])
  have fire: "\<exists>r'. run_due_settle i False (cancel_commit k r) = (SALTS_OK, True, r') \<and> ready_row (r_rows r' ! i)"
    if "row_state ?row = ROW_FIRING" "\<not> r_closed r"
  proof -
    have rows: "r_rows (cancel_commit k r) = (r_rows r)[i := ?row\<lparr>row_fire_won_cancel := True\<rparr>]"
      using that k(2) row(1,3) by (simp add: cancel_commit_rows cancel_apply_def Let_def)
    have "timed (r_rows (cancel_commit k r) ! i)"
      using awaiting_delay [OF core i] that i by (simp add: rows timed_def awaiting_def timed_state_def)
    with counters_timer_pos [OF core_invD(1) [OF router_invD(1) [OF inv']], of i] i
    have "r_timer_pending (cancel_commit k r) \<noteq> 0" by (simp add: rows)
    moreover have "r_closed (cancel_commit k r) = r_closed r" by (simp add: cancel_commit_def Let_def)
    ultimately show ?thesis using that i
      by (simp add: run_due_settle_def Let_def rows cancel_raced_def ready_row_def)
  qed
  show ?thesis
  proof (cases "row_state ?row = ROW_RESERVED \<or> row_state ?row = ROW_DELAYED")
    case True
    with k(2) row src i nf show ?thesis
      by (simp add: cancel_commit_def Let_def cancel_apply_def cancel_release_locked_def rel)
  next
    case False
    then have "r_cancel_fire_won (cancel_commit k r) = r_cancel_fire_won r + 1"
      "r_timer_cancelled (cancel_commit k r) = r_timer_cancelled r"
      "row_state ?row \<noteq> ROW_FIRING \<Longrightarrow> r_rows (cancel_commit k r) = r_rows r"
      using k(2) row by (auto simp: cancel_commit_def Let_def cancel_apply_def cancel_release_locked_def)
    with False show ?thesis using fire by (cases "row_state ?row = ROW_FIRING"; cases "r_closed r") simp_all
  qed
qed

theorem cancel_race_one_winner_witness:
  "r_rows (cancel_commit 0 demo_ticket) = (r_rows demo_ticket)[0 := blank_row] \<and>
   r_timer_cancelled (cancel_commit 0 demo_ticket) = 1"
proof -
  have c: "0 < cancel_capacity demo_ticket" "cx_in_use (r_cancel_rows demo_ticket ! 0)"
    "cx_target (r_cancel_rows demo_ticket ! 0) = Some 0" "row_state (r_rows demo_ticket ! 0) \<noteq> ROW_FREE"
    "row_identity (r_rows demo_ticket ! 0) = cx_target_identity (r_cancel_rows demo_ticket ! 0)"
    "row_source (r_rows demo_ticket ! 0) = cx_source (r_cancel_rows demo_ticket ! 0)" by code_simp+
  have "row_state (r_rows demo_ticket ! 0) = ROW_DELAYED" "r_timer_cancelled demo_ticket = 0" by code_simp+
  with cancel_race_one_winner [OF demo_ticket_reachable c] show ?thesis by simp
qed

text \<open>
  A cancellation that commits frees the pending send: when no other occupied row carries
  the same source and send id (a fired one that still waits for delivery would), preparing
  and committing a cancellation of a delayed send frees exactly its row.
\<close>

theorem cancel_frees_pending_send:
  assumes "router_reachable r" "scxml_host_router_prepare_cancel source sid r = (SALTS_OK, Some k, r1)"
    and i: "i < event_capacity r" "row_state (r_rows r ! i) = ROW_DELAYED"
      "cancel_candidate source (cdata sid) (r_rows r ! i)"
    and only: "\<forall>j<event_capacity r. cancel_candidate source (cdata sid) (r_rows r ! j) \<longrightarrow> j = i"
  shows "r_rows (cancel_commit k r1) = (r_rows r)[i := blank_row]"
proof -
  have inv1: "router_inv r1"
    by (rule prepare_cancel_inv [OF router_reachable_inv [OF assms(1)] assms(2)])
  from assms(2) obtain j where
    j: "first_index (cancel_candidate source (cdata sid)) (r_rows r) = Some j"
    and k: "first_index (\<lambda>cx. \<not> cx_in_use cx) (r_cancel_rows r) = Some k"
    and r1: "r1 = r\<lparr>r_cancel_rows := (r_cancel_rows r)[k := \<lparr>cx_target = Some j, cx_source = source,
        cx_target_identity = row_identity (r_rows r ! j), cx_in_use = True\<rparr>],
      r_cancel_pending := r_cancel_pending r + 1, r_cancel_prepared := r_cancel_prepared r + 1\<rparr>"
    by (rule prepare_cancel_OK)
  have ji: "j = i" using first_index_SomeD [OF j] only by simp
  have cx: "r_cancel_rows r1 ! k = \<lparr>cx_target = Some i, cx_source = source,
      cx_target_identity = row_identity (r_rows r ! i), cx_in_use = True\<rparr>"
    using first_index_SomeD [OF k] by (simp add: r1 ji)
  let ?r = "r1\<lparr>r_timer_cancelled := r_timer_cancelled r1 + 1, r_cancelled := r_cancelled r1 + 1\<rparr>"
  have "counters_ok ?r" using core_invD(1) [OF router_invD(1) [OF inv1]] by (simp add: counters_ok_def)
  from release_locked_eq [OF this, of i] have "r_rows (release_locked i ?r) = (r_rows r1)[i := blank_row]"
    using i by (simp add: r1 nonfree_def)
  with i cx show ?thesis
    by (simp add: cancel_commit_rows cancel_apply_def Let_def cancel_candidate_def) (simp add: r1)
qed

theorem cancel_frees_pending_send_witness:
  "r_rows (cancel_commit 0 demo_ticket) = (r_rows demo_delayed)[0 := blank_row]"
proof -
  have "0 < event_capacity demo_delayed" "row_state (r_rows demo_delayed ! 0) = ROW_DELAYED"
    "cancel_candidate demo_ref (cdata (CBytes ''late'')) (r_rows demo_delayed ! 0)"
    "\<forall>j<event_capacity demo_delayed. cancel_candidate demo_ref (cdata (CBytes ''late''))
       (r_rows demo_delayed ! j) \<longrightarrow> j = 0" by code_simp+
  from cancel_frees_pending_send [OF demo_delayed_reachable demo_ticket_step this] show ?thesis .
qed

text \<open>
  Property (C18). Without that proviso a cancellation misses a live delayed send. In any reachable router,
  when the first row with the source and send id has already fired and only waits for delivery, while
  another row holds a delayed send with the same id, which the router accepts, then every cancellation
  of that id that is granted is spent on the fired row: committed at once it changes no row and counts a lost race,
  and whatever happens before it is committed, the row of the pending send is left alone by it.
\<close>

theorem cancel_misses_live_send:
  assumes "router_reachable r" "first_index (cancel_candidate source (cdata sid)) (r_rows r) = Some i"
    and "row_state (r_rows r ! i) = ROW_READY \<or> row_state (r_rows r ! i) = ROW_INFLIGHT"
    and "row_state (r_rows r ! j) = ROW_DELAYED"
    and "scxml_host_router_prepare_cancel source sid r = (SALTS_OK, Some k, r1)"
    and "router_steps r1 r2" "r_cancel_rows r2 ! k = r_cancel_rows r1 ! k"
  shows "r_rows (cancel_commit k r1) = r_rows r \<and>
    r_cancel_fire_won (cancel_commit k r1) = r_cancel_fire_won r + 1 \<and>
    r_rows (cancel_commit k r2) ! j = r_rows r2 ! j"
proof -
  from assms(2,5) have
    k: "first_index (\<lambda>cx. \<not> cx_in_use cx) (r_cancel_rows r) = Some k"
    and r1: "r1 = r\<lparr>r_cancel_rows := (r_cancel_rows r)[k := \<lparr>cx_target = Some i, cx_source = source,
        cx_target_identity = row_identity (r_rows r ! i), cx_in_use = True\<rparr>],
      r_cancel_pending := r_cancel_pending r + 1, r_cancel_prepared := r_cancel_prepared r + 1\<rparr>"
    by (auto elim!: prepare_cancel_OK)
  have cx: "r_cancel_rows r1 ! k = \<lparr>cx_target = Some i, cx_source = source,
      cx_target_identity = row_identity (r_rows r ! i), cx_in_use = True\<rparr>"
    using first_index_SomeD [OF k] by (simp add: r1)
  have cand: "cancel_candidate source (cdata sid) (r_rows r ! i)" using first_index_SomeD [OF assms(2)] by simp
  have "i \<noteq> j" using assms(3,4) by auto
  then have "r_rows (cancel_commit k r2) ! j = r_rows r2 ! j"
    using cancel_apply_changed [of "r_cancel_rows r2 ! k" r2 j] assms(7) cx by (auto simp: cancel_commit_rows)
  moreover have "r_rows (cancel_commit k r1) = r_rows r \<and>
      r_cancel_fire_won (cancel_commit k r1) = r_cancel_fire_won r + 1"
    using cand assms(3) cx
    by (auto simp: cancel_commit_def Let_def cancel_apply_def cancel_release_locked_def cancel_candidate_def r1)
  ultimately show ?thesis by blast
qed

theorem cancel_misses_live_send_witness:
  "row_state (r_rows (cancel_commit 0 demo_missed) ! 1) = ROW_DELAYED \<and>
   row_send_id (r_rows (cancel_commit 0 demo_missed) ! 1) = ''a'' \<and>
   r_cancel_fire_won (cancel_commit 0 demo_missed) = 1"
proof -
  have d: "first_index (cancel_candidate demo_ref (cdata (CBytes ''a''))) (r_rows demo_resent) = Some 0"
    "row_state (r_rows demo_resent ! 0) = ROW_READY" "row_state (r_rows demo_resent ! 1) = ROW_DELAYED"
    "row_send_id (r_rows demo_resent ! 1) = ''a''" "r_cancel_fire_won demo_resent = 0"
    by code_simp+
  from cancel_misses_live_send [OF demo_resent_reachable d(1) disjI1 [OF d(2)] d(3) demo_missed_step
      router_steps.refl HOL.refl] d(3-5)
  show ?thesis by simp
qed

end
