(* ===== verification/Host_Router_Topology.thy ===== *)
theory Host_Router_Topology
  imports Host_Router_Safety
begin

text \<open>
  Relations between endpoints: the parent relation stays a forest, addresses resolve only to
  endpoints the sender may see, and a closed router publishes nothing more and can be
  destroyed once its endpoints are gone.
\<close>

section \<open>The parent forest\<close>

text \<open>\<open>depth eps n ref\<close>: the chain of parents from \<open>ref\<close> has \<open>n\<close> live endpoints and ends.\<close>

inductive depth :: "host_endpoint list \<Rightarrow> nat \<Rightarrow> session_ref \<Rightarrow> bool" where
  root: "ref_generation ref = 0 \<Longrightarrow> depth eps 0 ref"
| up: "live_ref eps ref \<Longrightarrow> depth eps n (ep_parent (eps ! unat (ref_slot ref))) \<Longrightarrow> depth eps (Suc n) ref"

text \<open>\<open>ancestor_of eps a b\<close>: \<open>a\<close> is \<open>b\<close> or one of its ancestors.\<close>

inductive ancestor_of :: "host_endpoint list \<Rightarrow> session_ref \<Rightarrow> session_ref \<Rightarrow> bool" where
  here: "ancestor_of eps a a"
| up: "live_ref eps b \<Longrightarrow> ancestor_of eps a (ep_parent (eps ! unat (ref_slot b))) \<Longrightarrow> ancestor_of eps a b"

inductive_cases depthE: "depth eps n ref"
inductive_cases ancestor_ofE: "ancestor_of eps a b"

definition forest :: "host_endpoint list \<Rightarrow> bool" where
  "forest eps \<longleftrightarrow> (\<forall>p\<in>set eps. ep_live p \<longrightarrow> (\<exists>n. depth eps n (ep_parent p)))"

lemma live_ref_generation: "live_ref eps ref \<Longrightarrow> ref_generation ref \<noteq> 0"
  by (simp add: live_ref_def)

lemma depth_0 [simp]: "depth eps 0 ref \<longleftrightarrow> ref_generation ref = 0"
  by (auto elim: depthE intro: depth.root)

lemma depth_Suc [simp]: "depth eps (Suc n) ref \<longleftrightarrow>
    live_ref eps ref \<and> depth eps n (ep_parent (eps ! unat (ref_slot ref)))"
  by (auto elim: depthE intro: depth.up)

lemma depth_null: "ref_generation ref = 0 \<Longrightarrow> \<exists>n. depth eps n ref"
  by (rule exI [of _ 0]) simp

lemma depth_step: "live_ref eps ref \<Longrightarrow> \<exists>n. depth eps n (ep_parent (eps ! unat (ref_slot ref))) \<Longrightarrow>
    \<exists>n. depth eps n ref"
  by (auto intro: depth.up)

lemma depth_unique: "depth eps n ref \<Longrightarrow> depth eps m ref \<Longrightarrow> n = m"
proof (induction n arbitrary: m ref)
  case 0
  then show ?case by (cases m) (simp_all add: live_ref_def)
next
  case (Suc n)
  then show ?case by (cases m) (auto simp: live_ref_def)
qed

lemma live_refs_slot_inj: "inj_on (\<lambda>ref. unat (ref_slot ref)) {ref. live_ref eps ref}"
  by (auto simp: inj_on_def live_ref_def word_unat_eq_iff)

text \<open>No chain is longer than the endpoint table, so a walk of that many steps sees all of it.\<close>

lemma depth_chain:
  "depth eps n ref \<Longrightarrow> \<exists>xs. length xs = n \<and> distinct xs \<and>
     (\<forall>x\<in>set xs. live_ref eps x \<and> (\<exists>m\<le>n. depth eps m x))"
proof (induction rule: depth.induct)
  case (root ref eps)
  then show ?case by simp
next
  case (up eps ref n)
  then obtain xs where xs: "length xs = n" "distinct xs"
    "\<forall>x\<in>set xs. live_ref eps x \<and> (\<exists>m\<le>n. depth eps m x)" by blast
  have "depth eps (Suc n) ref" using up.hyps by (rule depth.up)
  with xs(3) have "ref \<notin> set xs" by (metis depth_unique Suc_n_not_le_n)
  moreover have "\<forall>x\<in>set (ref # xs). live_ref eps x \<and> (\<exists>m\<le>Suc n. depth eps m x)"
    using xs(3) up.hyps(1) \<open>depth eps (Suc n) ref\<close> by (metis le_SucI order_refl set_ConsD)
  ultimately show ?case using xs(1,2) by (intro exI [of _ "ref # xs"]) simp
qed

lemma depth_bound: assumes "depth eps n ref" shows "n \<le> length eps"
proof -
  from depth_chain [OF assms] obtain xs where xs: "length xs = n" "distinct xs"
    "\<forall>x\<in>set xs. live_ref eps x" by blast
  have "inj_on (\<lambda>ref. unat (ref_slot ref)) (set xs)"
    by (rule inj_on_subset [OF live_refs_slot_inj]) (use xs(3) in auto)
  then have "card (set xs) \<le> card {..<length eps}"
    by (rule card_inj_on_le) (use xs(3) in \<open>auto simp: live_ref_def\<close>)
  then show ?thesis using xs(1,2) by (simp add: distinct_card)
qed

lemma ancestor_walk_exact:
  "depth (r_endpoints r) n ref \<Longrightarrow> n \<le> steps \<Longrightarrow> ref_generation child \<noteq> 0 \<Longrightarrow>
     ancestor_walk r child steps ref = (if ancestor_of (r_endpoints r) child ref then SALTS_EINVAL else SALTS_OK)"
proof (induction steps arbitrary: n ref)
  case 0
  then have "ref_generation ref = 0" by (auto elim: depthE)
  then have "\<not> ancestor_of (r_endpoints r) child ref"
    using 0(3) by (auto elim: ancestor_ofE dest: live_ref_generation)
  with \<open>ref_generation ref = 0\<close> show ?case by simp
next
  case (Suc steps)
  from Suc.prems(1) show ?case
  proof (cases rule: depth.cases)
    case root
    then have "\<not> ancestor_of (r_endpoints r) child ref"
      using Suc.prems(3) by (auto elim: ancestor_ofE dest: live_ref_generation)
    with root show ?thesis by simp
  next
    case (up m)
    then have gen: "ref_generation ref \<noteq> 0" by (simp add: live_ref_generation)
    have "ancestor_of (r_endpoints r) child ref \<longleftrightarrow> ref = child \<or>
        ancestor_of (r_endpoints r) child (ep_parent (r_endpoints r ! unat (ref_slot ref)))"
      using up(2) by (auto elim: ancestor_ofE intro: ancestor_of.intros)
    with up gen Suc.IH [OF up(3)] Suc.prems show ?thesis
      by (auto simp: matches_live_ref refs_equal_iff intro: ancestor_of.here)
  qed
qed

section \<open>Endpoint updates keep the forest\<close>

lemma depth_keep:
  assumes "ep_live (eps ! i) \<Longrightarrow> ep_live p \<and> ep_generation p = ep_generation (eps ! i) \<and>
    ep_parent p = ep_parent (eps ! i)"
  shows "depth eps n ref \<Longrightarrow> depth (eps[i := p]) n ref"
proof (induction n arbitrary: ref)
  case 0
  then show ?case by (auto elim!: depthE intro: depth.root)
next
  case (Suc n)
  then have ref: "live_ref eps ref" "depth eps n (ep_parent (eps ! unat (ref_slot ref)))"
    by (auto elim: depthE)
  have "live_ref (eps[i := p]) ref" using ref(1) assms by (intro live_ref_update) auto
  moreover have "ep_parent (eps[i := p] ! unat (ref_slot ref)) = ep_parent (eps ! unat (ref_slot ref))"
    using ref(1) assms by (cases "unat (ref_slot ref) = i") (auto simp: live_ref_def)
  ultimately show ?case using Suc.IH [OF ref(2)] by (simp add: depth.up)
qed

lemma forest_keep:
  assumes "forest eps" "ep_live (eps ! i) \<Longrightarrow> ep_live p \<and> ep_generation p = ep_generation (eps ! i) \<and>
    ep_parent p = ep_parent (eps ! i)"
    and "ep_live p \<Longrightarrow> ep_live (eps ! i) \<or> ep_parent p = null_ref"
  shows "forest (eps[i := p])"
proof (cases "i < length eps")
  case True
  have old: "\<exists>n. depth (eps[i := p]) n (ep_parent q)" if "q \<in> set eps" "ep_live q" for q
    using assms(1) that depth_keep [OF assms(2)] unfolding forest_def by blast
  have "\<exists>n. depth (eps[i := p]) n (ep_parent p)" if "ep_live p"
  proof (cases "ep_live (eps ! i)")
    case True
    with assms(2) old [of "eps ! i"] \<open>i < length eps\<close> show ?thesis by simp
  next
    case False
    with assms(3) that show ?thesis by (auto simp: null_ref_def intro!: depth_null)
  qed
  with old show ?thesis unfolding forest_def by (auto dest!: set_update_memD)
next
  case False
  with assms(1) show ?thesis by (simp add: list_update_beyond)
qed

lemma depth_detach:
  assumes "live_ref eps target" "\<And>q. q \<in> set eps \<Longrightarrow> ep_live q \<Longrightarrow> ep_parent q \<noteq> target"
  shows "depth eps n ref \<Longrightarrow> ref \<noteq> target \<Longrightarrow> depth (eps[unat (ref_slot target) := p]) n ref"
proof (induction n arbitrary: ref)
  case 0
  then show ?case by (auto elim!: depthE intro: depth.root)
next
  case (Suc n)
  then have ref: "live_ref eps ref" "depth eps n (ep_parent (eps ! unat (ref_slot ref)))"
    by (auto elim: depthE)
  have slot: "unat (ref_slot ref) \<noteq> unat (ref_slot target)"
    using ref(1) assms(1) Suc.prems(2) live_refs_slot_inj by (auto simp: inj_on_def)
  have "eps ! unat (ref_slot ref) \<in> set eps" "ep_live (eps ! unat (ref_slot ref))"
    using ref(1) by (auto simp: live_ref_def)
  with Suc.IH [OF ref(2)] assms(2)
  have "depth (eps[unat (ref_slot target) := p]) n (ep_parent (eps ! unat (ref_slot ref)))" by blast
  moreover have "live_ref (eps[unat (ref_slot target) := p]) ref"
    using ref(1) slot by (simp add: live_ref_def)
  ultimately show ?case using slot by (simp add: depth.up)
qed

lemma forest_detach:
  assumes "forest eps" "live_ref eps target" "\<And>q. q \<in> set eps \<Longrightarrow> ep_live q \<Longrightarrow> ep_parent q \<noteq> target"
    and "\<not> ep_live p"
  shows "forest (eps[unat (ref_slot target) := p])"
  using assms depth_detach [OF assms(2,3)] unfolding forest_def
  by (auto dest!: set_update_memD) blast

lemma depth_reparent:
  assumes walk: "ancestor_walk r child steps parent = SALTS_OK" and child: "live_ref (r_endpoints r) child"
    and eps: "eps' = (r_endpoints r)[unat (ref_slot child) :=
      (r_endpoints r ! unat (ref_slot child))\<lparr>ep_parent := parent\<rparr>]"
  shows "\<exists>n. depth eps' n parent"
proof -
  have "\<exists>n. depth eps' n ref" if "ancestor_walk r child steps ref = SALTS_OK" for ref
    using that
  proof (induction steps arbitrary: ref)
    case 0
    then show ?case by (auto split: if_splits intro: depth.root)
  next
    case (Suc steps)
    show ?case
    proof (cases "ref_generation ref = 0")
      case True
      then show ?thesis by (auto intro: depth.root)
    next
      case False
      with Suc.prems have live: "live_ref (r_endpoints r) ref" "ref \<noteq> child"
        "ancestor_walk r child steps (ep_parent (r_endpoints r ! unat (ref_slot ref))) = SALTS_OK"
        by (auto simp: matches_live_ref refs_equal_def split: if_splits)
      have slot: "unat (ref_slot ref) \<noteq> unat (ref_slot child)"
        using live child live_refs_slot_inj by (auto simp: inj_on_def)
      have "live_ref eps' ref" using live(1) slot by (simp add: eps live_ref_def)
      then show ?thesis by (rule depth_step) (use Suc.IH [OF live(3)] slot in \<open>simp add: eps\<close>)
    qed
  qed
  with walk show ?thesis by blast
qed

lemma forest_reparent:
  assumes "forest eps" "live_ref eps child" "\<exists>n. depth eps' n parent"
    and eps: "eps' = eps[unat (ref_slot child) := (eps ! unat (ref_slot child))\<lparr>ep_parent := parent\<rparr>]"
  shows "forest eps'"
proof -
  have keep: "\<exists>m. depth eps' m ref" if "depth eps n ref" for n ref
    using that
  proof (induction n arbitrary: ref)
    case 0
    then show ?case by (auto elim!: depthE intro: depth.root)
  next
    case (Suc n)
    then have ref: "live_ref eps ref" "depth eps n (ep_parent (eps ! unat (ref_slot ref)))"
      by (auto elim: depthE)
    have "live_ref eps' ref" using ref(1) unfolding eps by (rule live_ref_update) simp
    moreover have "\<exists>m. depth eps' m (ep_parent (eps' ! unat (ref_slot ref)))"
    proof (cases "unat (ref_slot ref) = unat (ref_slot child)")
      case True
      with assms(2,3) show ?thesis by (simp add: eps live_ref_def)
    next
      case False
      with Suc.IH [OF ref(2)] show ?thesis by (simp add: eps)
    qed
    ultimately show ?case by (auto intro: depth.up)
  qed
  have "\<exists>n. depth eps' n (ep_parent p)" if p: "p \<in> set eps'" "ep_live p" for p
  proof -
    from p(1) have "p = (eps ! unat (ref_slot child))\<lparr>ep_parent := parent\<rparr> \<or> p \<in> set eps"
      unfolding eps by (rule set_update_memD)
    with assms(1,3) keep p(2) show ?thesis unfolding forest_def by fastforce
  qed
  then show ?thesis by (simp add: forest_def)
qed

section \<open>The forest in every reachable state\<close>

lemma update_forest:
  "forest (r_endpoints r) \<Longrightarrow> scxml_host_router_reserve r = (st, ref, r') \<Longrightarrow> forest (r_endpoints r')"
  "forest (r_endpoints r) \<Longrightarrow> scxml_host_router_activate loc ref0 s r = (st, r') \<Longrightarrow> forest (r_endpoints r')"
  "forest (r_endpoints r) \<Longrightarrow> scxml_host_router_attach loc s r = (st, ref, r') \<Longrightarrow> forest (r_endpoints r')"
  "forest (r_endpoints r) \<Longrightarrow> scxml_host_router_set_external_access ref0 b r = (st, r') \<Longrightarrow>
     forest (r_endpoints r')"
  by (auto simp: scxml_host_router_reserve_def scxml_host_router_activate_def
      scxml_host_router_attach_def scxml_host_router_set_external_access_def Let_def free_endpoint_def
      blank_endpoint_def split: if_splits option.splits dest!: first_index_SomeD intro!: forest_keep)

lemma detach_forest:
  assumes "forest (r_endpoints r)" "scxml_host_router_detach target r = (st, r')"
  shows "forest (r_endpoints r')"
proof (cases "st = SALTS_OK")
  case True
  have "live_ref (r_endpoints r) target"
    and "\<And>q. q \<in> set (r_endpoints r) \<Longrightarrow> ep_live q \<Longrightarrow> \<not> refs_equal (ep_parent q) target"
    and r': "r_endpoints r' = (r_endpoints r)[unat (ref_slot target) :=
      (r_endpoints r ! unat (ref_slot target))\<lparr>ep_live := False, ep_active := False, ep_session := None,
        ep_parent := null_ref, ep_accessible := False, ep_location := []\<rparr>]"
    using assms(2) True
    by (auto simp: scxml_host_router_detach_def Let_def matches_live_ref split: if_splits)
  then have "forest ((r_endpoints r)[unat (ref_slot target) :=
      (r_endpoints r ! unat (ref_slot target))\<lparr>ep_live := False, ep_active := False, ep_session := None,
        ep_parent := null_ref, ep_accessible := False, ep_location := []\<rparr>])"
    by (intro forest_detach assms(1)) (auto simp: refs_equal_def live_ref_def)
  then show ?thesis by (simp add: r')
next
  case False
  with assms show ?thesis by (auto simp: scxml_host_router_detach_def Let_def split: if_splits)
qed

lemma set_parent_forest:
  assumes "forest (r_endpoints r)" "scxml_host_router_set_parent child parent r = (st, r')"
  shows "forest (r_endpoints r')"
proof (cases "st = SALTS_OK")
  case True
  define par where "par = (if ref_slot parent = 0 \<and> ref_generation parent = 0 then null_ref else parent)"
  have child: "live_ref (r_endpoints r) child"
    and walk: "par = null_ref \<or> ancestor_walk r child (endpoint_capacity r) par = SALTS_OK"
    and r': "r_endpoints r' = (r_endpoints r)[unat (ref_slot child) :=
      (r_endpoints r ! unat (ref_slot child))\<lparr>ep_parent := par\<rparr>]"
    using assms(2) True
    by (auto simp: scxml_host_router_set_parent_def Let_def matches_live_ref par_def split: if_splits)
  have "\<exists>n. depth (r_endpoints r') n par"
    using walk depth_reparent [OF _ child r'] by (auto simp: null_ref_def intro: depth_null)
  from forest_reparent [OF assms(1) child this r'] show ?thesis .
next
  case False
  with assms show ?thesis
    by (auto simp: scxml_host_router_set_parent_def Let_def split: if_splits)
qed

lemma router_step_forest: "router_step r r' \<Longrightarrow> forest (r_endpoints r) \<Longrightarrow> forest (r_endpoints r')"
  by (induction rule: router_step.induct)
     (erule (1) update_forest [rotated] detach_forest [rotated] set_parent_forest [rotated]
      | simp add: ticket_endpoints row_step_endpoints prepare_target_endpoints)+

lemma router_reachable_forest: "router_reachable r \<Longrightarrow> forest (r_endpoints r)"
proof (induction rule: router_reachable.induct)
  case (init abi clk alloc_ok cfg r)
  then have "r = fresh_router cfg" by (auto simp: scxml_host_router_init_def split: if_splits)
  then show ?case by (simp add: forest_def fresh_router_def blank_endpoint_def)
next
  case (step r r')
  then show ?case by (blast intro: router_step_forest)
qed

section \<open>Closing\<close>

text \<open>Rows that a delivery or a timer pass would still pick up.\<close>

definition waiting :: "host_row \<Rightarrow> bool" where
  "waiting row \<longleftrightarrow> row_state row = ROW_READY \<or> row_state row = ROW_DELAYED"

definition closed_shrinks :: "host_router \<Rightarrow> host_router \<Rightarrow> bool" where
  "closed_shrinks r r' \<longleftrightarrow> r_closed r' = r_closed r \<and>
     (r_closed r \<longrightarrow> (\<forall>x\<in>set (r_rows r'). waiting x \<longrightarrow> x \<in> set (r_rows r)))"

lemma closed_shrinks_same: "r_rows r' = r_rows r \<Longrightarrow> r_closed r' = r_closed r \<Longrightarrow> closed_shrinks r r'"
  by (simp add: closed_shrinks_def)

lemma closed_shrinks_open: "\<not> r_closed r \<Longrightarrow> \<not> r_closed r' \<Longrightarrow> closed_shrinks r r'"
  by (simp add: closed_shrinks_def)

lemma closed_shrinks_trans: "closed_shrinks r r' \<Longrightarrow> closed_shrinks r' r'' \<Longrightarrow> closed_shrinks r r''"
  by (auto simp: closed_shrinks_def)

lemma release_set: "x \<in> set (r_rows (release_locked i r)) \<Longrightarrow> x = blank_row \<or> x \<in> set (r_rows r)"
  by (auto simp: release_locked_def Let_def split: if_splits dest!: set_update_memD)

lemma closed_shrinks_release:
  "r_rows r1 = r_rows r \<Longrightarrow> r_closed r1 = r_closed r \<Longrightarrow> closed_shrinks r (release_locked i r1)"
  by (auto simp: closed_shrinks_def waiting_def blank_row_def dest!: release_set)

lemma closed_shrinks_delivered [simp]:
  "closed_shrinks r (r'\<lparr>r_delivered := n\<rparr>) = closed_shrinks r r'"
  "closed_shrinks r (r'\<lparr>r_cancelled := n\<rparr>) = closed_shrinks r r'"
  by (simp_all add: closed_shrinks_def)

lemma cancel_row_if_shrinks: "closed_shrinks (fst st) (fst (cancel_row_if P i st))"
  by (auto simp: cancel_row_if_def Let_def split: prod.splits
      intro: closed_shrinks_same closed_shrinks_release)

lemma cancel_rows_shrinks: "closed_shrinks r (fst (cancel_rows P r))"
proof -
  have "closed_shrinks (fst st) (fst (fold (cancel_row_if P) is st))" for st "is"
  proof (induction "is" arbitrary: st)
    case Nil
    show ?case by (simp add: closed_shrinks_same)
  next
    case (Cons i "is")
    from closed_shrinks_trans [OF cancel_row_if_shrinks Cons.IH] show ?case by simp
  qed
  from this [of "(r, 0)"] show ?thesis by (simp add: cancel_rows_def)
qed

lemma cancel_rows_shrinks': "cancel_rows P r = (r', n) \<Longrightarrow> closed_shrinks r r'"
  by (metis cancel_rows_shrinks fst_conv)

lemma endpoint_op_shrinks:
  "scxml_host_router_reserve r = (st, ref, r') \<Longrightarrow> closed_shrinks r r'"
  "scxml_host_router_activate loc ref0 s r = (st, r') \<Longrightarrow> closed_shrinks r r'"
  "scxml_host_router_attach loc s r = (st, ref, r') \<Longrightarrow> closed_shrinks r r'"
  "scxml_host_router_detach ref0 r = (st, r') \<Longrightarrow> closed_shrinks r r'"
  "scxml_host_router_set_parent ref0 par r = (st, r') \<Longrightarrow> closed_shrinks r r'"
  "scxml_host_router_set_external_access ref0 b r = (st, r') \<Longrightarrow> closed_shrinks r r'"
  "scxml_host_router_bind_invoke source ident target r = (st, r') \<Longrightarrow> closed_shrinks r r'"
  "scxml_host_router_unbind_invoke source ident r = (st, r') \<Longrightarrow> closed_shrinks r r'"
  "scxml_host_router_resolve source addr r = (st, ref, r') \<Longrightarrow> closed_shrinks r r'"
  "scxml_host_router_prepare_cancel source sid r = (st, k, r') \<Longrightarrow> closed_shrinks r r'"
  "run_due_begin r = (st, r') \<Longrightarrow> closed_shrinks r r'"
  "drain_begin r = (mst, r') \<Longrightarrow> closed_shrinks r r'"
  by (auto simp: scxml_host_router_reserve_def scxml_host_router_activate_def
      scxml_host_router_attach_def scxml_host_router_detach_def scxml_host_router_set_parent_def
      scxml_host_router_set_external_access_def scxml_host_router_bind_invoke_def
      scxml_host_router_unbind_invoke_def scxml_host_router_resolve_def
      scxml_host_router_prepare_cancel_def run_due_begin_def drain_begin_def Let_def
      split: if_splits option.splits prod.splits intro: closed_shrinks_same)

lemma admission_shrinks:
  "scxml_host_router_prepare target name body r = (st, t, r') \<Longrightarrow> closed_shrinks r r'"
  "scxml_host_router_enqueue clk target name body r = (st, r') \<Longrightarrow> closed_shrinks r r'"
  by (auto simp: scxml_host_router_prepare_def scxml_host_router_enqueue_def
      split: if_splits option.splits prod.splits dest!: reserve_locked_frame
      intro: closed_shrinks_same closed_shrinks_open)

lemma prepare_target_shrinks:
  "scxml_host_router_prepare_target source addr name sid content delay r = (st, t, r') \<Longrightarrow>
     closed_shrinks r r'"
  unfolding scxml_host_router_prepare_target_def Let_def
  by (auto split: if_splits option.splits prod.splits dest!: reserve_locked_frame
      intro: closed_shrinks_same closed_shrinks_open)

lemma row_op_shrinks:
  "abort_locked ref0 r = (st, r') \<Longrightarrow> closed_shrinks r r'"
  "scxml_host_router_cancel target r = (st, n, r') \<Longrightarrow> closed_shrinks r r'"
  "scxml_host_router_cancel_source target r = (st, n, r') \<Longrightarrow> closed_shrinks r r'"
  by (auto simp: abort_locked_def scxml_host_router_cancel_def scxml_host_router_cancel_source_def
      split: if_splits option.splits prod.splits
      intro: closed_shrinks_same cancel_rows_shrinks cancel_rows_shrinks')

lemma settle_shrinks:
  "run_due_settle i settled r = (st, fired, r') \<Longrightarrow> closed_shrinks r r'"
  "drain_settle i status r = (mst, delivered, r') \<Longrightarrow> closed_shrinks r r'"
  "run_due_claim clk r = Due_Claimed i s sid r' \<Longrightarrow> closed_shrinks r r'"
  "drain_claim r = Drain_Claimed i s nm md r' \<Longrightarrow> closed_shrinks r r'"
  "drain_claim r = Drain_Break mst r' \<Longrightarrow> closed_shrinks r r'"
  by (auto simp: run_due_settle_def drain_settle_def run_due_claim_def drain_claim_def Let_def
      split: if_splits option.splits
      intro: closed_shrinks_same closed_shrinks_release closed_shrinks_open)

lemma ticket_shrinks:
  "closed_shrinks r (ticket_commit clk i r)" "closed_shrinks r (ticket_discard i r)"
  by (cases "r_closed r";
      auto simp: ticket_commit_def ticket_discard_def commit_locked_def Let_def
        intro: closed_shrinks_same closed_shrinks_release closed_shrinks_open)+

lemma cancel_ticket_shrinks:
  "closed_shrinks r (cancel_commit k r)" "closed_shrinks r (cancel_discard k r)"
proof -
  have flag: "closed_shrinks r (r\<lparr>r_rows := (r_rows r)[i := (r_rows r ! i)\<lparr>row_fire_won_cancel := b\<rparr>],
      r_cancel_fire_won := n\<rparr>)" if "row_state (r_rows r ! i) = ROW_FIRING" for i b n
    using that by (auto simp: closed_shrinks_def waiting_def dest!: set_update_memD)
  have "closed_shrinks r (cancel_apply cx r)" for cx
    by (auto simp: cancel_apply_def Let_def flag split: option.splits
        intro: closed_shrinks_same closed_shrinks_release)
  moreover have "closed_shrinks (cancel_apply (r_cancel_rows r ! k) r) (cancel_commit k r)"
    if "cx_in_use (r_cancel_rows r ! k)"
    using that by (auto simp: cancel_commit_def Let_def cancel_release_locked_def intro: closed_shrinks_same)
  ultimately show "closed_shrinks r (cancel_commit k r)"
    by (cases "cx_in_use (r_cancel_rows r ! k)")
       (auto simp: cancel_commit_def intro: closed_shrinks_same closed_shrinks_trans)
  show "closed_shrinks r (cancel_discard k r)"
    by (auto simp: cancel_discard_def cancel_release_locked_def intro: closed_shrinks_same)
qed

text \<open>The loops that drop rows blank exactly the rows they select.\<close>

lemma fold_cancel_rows:
  assumes inv: "router_inv r" and P: "\<And>row. P row \<Longrightarrow> nonfree row"
  shows "n \<le> event_capacity r \<Longrightarrow> r_rows (fst (fold (cancel_row_if P) [0..<n] (r, 0))) =
    map (\<lambda>row. if P row then blank_row else row) (take n (r_rows r)) @ drop n (r_rows r)"
proof (induction n)
  case 0
  then show ?case by simp
next
  case (Suc n)
  define st where "st = fold (cancel_row_if P) [0..<n] (r, 0)"
  have rows: "r_rows (fst st) =
      map (\<lambda>row. if P row then blank_row else row) (take n (r_rows r)) @ drop n (r_rows r)"
    using Suc by (simp add: st_def)
  have inv': "router_inv (fst st)"
    unfolding st_def by (rule fold_cancel_inv) (use P inv Suc.prems in auto)
  have n: "n < event_capacity r" "r_rows (fst st) ! n = r_rows r ! n" "n < event_capacity (fst st)"
    using Suc.prems by (simp_all add: rows nth_append)
  have upd: "r_rows (fst (cancel_row_if P n st)) =
      (r_rows (fst st))[n := if P (r_rows r ! n) then blank_row else r_rows r ! n]"
  proof (cases "P (r_rows r ! n)")
    case True
    let ?r1 = "if row_state (r_rows (fst st) ! n) = ROW_DELAYED
      then (fst st)\<lparr>r_timer_cancelled := r_timer_cancelled (fst st) + 1\<rparr> else fst st"
    have "counters_ok ?r1" using core_invD(1) [OF router_invD(1) [OF inv']] by (simp add: counters_ok_def)
    from release_locked_eq [OF this, of n] True n P have
      "r_rows (release_locked n ?r1) = (r_rows (fst st))[n := blank_row]" by simp
    moreover obtain x m where "st = (x, m)" by (cases st)
    ultimately show ?thesis using True n by (auto simp: cancel_row_if_def Let_def split: if_splits)
  next
    case False
    moreover obtain x m where "st = (x, m)" by (cases st)
    ultimately have "fst (cancel_row_if P n st) = fst st" using n by (simp add: cancel_row_if_def Let_def)
    then show ?thesis using False n list_update_id [of "r_rows (fst st)" n] by simp
  qed
  have "fold (cancel_row_if P) [0..<Suc n] (r, 0) = cancel_row_if P n st" by (simp add: st_def)
  then show ?case using n(1) by (simp add: upd rows list_update_append take_Suc_conv_app_nth
        flip: Cons_nth_drop_Suc)
qed

lemma cancel_rows_rows:
  "router_inv r \<Longrightarrow> (\<And>row. P row \<Longrightarrow> nonfree row) \<Longrightarrow>
     r_rows (fst (cancel_rows P r)) = map (\<lambda>row. if P row then blank_row else row) (r_rows r)"
  using fold_cancel_rows [of r P "event_capacity r"] by (simp add: cancel_rows_def)

lemma close_no_waiting:
  assumes "router_inv r" "scxml_host_router_close r = (SALTS_OK, r')"
  shows "\<forall>x\<in>set (r_rows r'). \<not> waiting x"
proof -
  have "r_rows r' = map (\<lambda>row. if row_state row = ROW_READY \<or> row_state row = ROW_DELAYED then blank_row
      else row) (r_rows r)"
    using assms cancel_rows_rows [of "r\<lparr>r_closed := True\<rparr>"
        "\<lambda>row. row_state row = ROW_READY \<or> row_state row = ROW_DELAYED"]
    by (fastforce simp: scxml_host_router_close_def nonfree_def split: if_splits)
  then show ?thesis by (auto simp: waiting_def blank_row_def)
qed

lemma router_step_shrinks:
  assumes "router_step r r'"
  shows "closed_shrinks r r' \<or> (\<not> r_closed r \<and> scxml_host_router_close r = (SALTS_OK, r'))"
  using assms
proof (induction rule: router_step.induct)
  case (close r st r')
  then show ?case by (auto simp: scxml_host_router_close_def split: if_splits intro: closed_shrinks_same)
qed (rule disjI1, (erule endpoint_op_shrinks admission_shrinks prepare_target_shrinks row_op_shrinks
         settle_shrinks | rule ticket_shrinks cancel_ticket_shrinks | simp add: closed_shrinks_same))+

lemma router_step_closed:
  assumes "router_step r r'" "router_inv r" "r_closed r \<longrightarrow> (\<forall>x\<in>set (r_rows r). \<not> waiting x)"
  shows "r_closed r' \<longrightarrow> (\<forall>x\<in>set (r_rows r'). \<not> waiting x)"
  using router_step_shrinks [OF assms(1)] assms(2,3)
  by (auto simp: closed_shrinks_def dest: close_no_waiting)

lemma router_reachable_closed:
  "router_reachable r \<Longrightarrow> r_closed r \<longrightarrow> (\<forall>x\<in>set (r_rows r). \<not> waiting x)"
proof (induction rule: router_reachable.induct)
  case (init abi clk alloc_ok cfg r)
  then have "r = fresh_router cfg" by (auto simp: scxml_host_router_init_def split: if_splits)
  then show ?case by (simp add: fresh_router_def)
next
  case (step r r')
  then show ?case using router_step_closed router_reachable_inv by blast
qed

section \<open>Properties\<close>

definition demo_family :: host_router where
  "demo_family = snd (snd (scxml_host_router_attach (\<lambda>s. Some ''#_scxml_b'') 8 demo_attached))"

definition demo_ref2 :: session_ref where
  "demo_ref2 = \<lparr>ref_slot = 1, ref_generation = 1\<rparr>"

definition demo_child :: host_router where
  "demo_child = snd (scxml_host_router_set_parent demo_ref demo_ref2 demo_family)"

definition demo_closed :: host_router where
  "demo_closed = snd (scxml_host_router_close demo_queued)"

definition demo_gone :: host_router where
  "demo_gone = snd (scxml_host_router_detach demo_ref demo_closed)"

lemma demo_child_reachable: "router_reachable demo_child"
  unfolding demo_child_def demo_family_def
  by (rule router_reachable.step [OF reachable_attach [OF demo_attached_reachable]
        router_step.set_parent [OF pair_split]])

lemma demo_closed_reachable: "router_reachable demo_closed"
  unfolding demo_closed_def
  by (rule router_reachable.step [OF demo_queued_reachable router_step.close [OF pair_split]])

lemma demo_gone_reachable: "router_reachable demo_gone"
  unfolding demo_gone_def
  by (rule router_reachable.step [OF demo_closed_reachable router_step.detach [OF pair_split]])

text \<open>
  The parent relation is a forest in every reachable state: from every live endpoint the
  chain of parents ends after at most \<^verbatim>\<open>endpoint_capacity\<close> endpoints. So the bounded walk
  of \<^verbatim>\<open>scxml_host_router_set_parent\<close> is exact: on an open router with two live endpoints it
  refuses with EINVAL, changing nothing, exactly when the child is the parent or one of its
  ancestors, and otherwise stores the parent.
\<close>

theorem router_parents_forest:
  assumes "router_reachable r" and "\<not> r_closed r" "matches r child" "matches r parent"
  shows "(\<forall>p\<in>set (r_endpoints r). ep_live p \<longrightarrow>
      (\<exists>n\<le>endpoint_capacity r. depth (r_endpoints r) n (ep_parent p))) \<and>
    scxml_host_router_set_parent child parent r =
      (if ancestor_of (r_endpoints r) child parent then (SALTS_EINVAL, r)
       else (SALTS_OK, r\<lparr>r_endpoints := (r_endpoints r)[unat (ref_slot child) :=
          (r_endpoints r ! unat (ref_slot child))\<lparr>ep_parent := parent\<rparr>]\<rparr>))"
proof
  have forest: "forest (r_endpoints r)" by (rule router_reachable_forest [OF assms(1)])
  then show "\<forall>p\<in>set (r_endpoints r). ep_live p \<longrightarrow>
      (\<exists>n\<le>endpoint_capacity r. depth (r_endpoints r) n (ep_parent p))"
    unfolding forest_def by (metis depth_bound)
  have live: "live_ref (r_endpoints r) parent" "ref_generation child \<noteq> 0" "ref_generation parent \<noteq> 0"
    using assms(3,4) by (simp_all add: matches_live_ref live_ref_def)
  then obtain n where "depth (r_endpoints r) n (ep_parent (r_endpoints r ! unat (ref_slot parent)))"
    using forest by (auto simp: forest_def live_ref_def)
  then have d: "depth (r_endpoints r) (Suc n) parent" by (rule depth.up [OF live(1)])
  note walk = ancestor_walk_exact [OF d depth_bound [OF d] live(2)]
  show "scxml_host_router_set_parent child parent r =
      (if ancestor_of (r_endpoints r) child parent then (SALTS_EINVAL, r)
       else (SALTS_OK, r\<lparr>r_endpoints := (r_endpoints r)[unat (ref_slot child) :=
          (r_endpoints r ! unat (ref_slot child))\<lparr>ep_parent := parent\<rparr>]\<rparr>))"
    using assms(2-4) live(2,3) walk
    by (auto simp: scxml_host_router_set_parent_def Let_def refs_equal_iff intro: ancestor_of.here)
qed

theorem router_parents_forest_witness:
  "scxml_host_router_set_parent demo_ref2 demo_ref demo_child = (SALTS_EINVAL, demo_child)"
proof -
  have "\<not> r_closed demo_child" "matches demo_child demo_ref2" "matches demo_child demo_ref"
    by code_simp+
  note spec = router_parents_forest [OF demo_child_reachable this]
  have "ep_parent (r_endpoints demo_child ! unat (ref_slot demo_ref)) = demo_ref2" by code_simp
  then have "ancestor_of (r_endpoints demo_child) demo_ref2 demo_ref"
    using \<open>matches demo_child demo_ref\<close> by (metis ancestor_of.intros matches_live_ref)
  with spec show ?thesis by simp
qed

text \<open>
  Property (C19). Addressing respects visibility: when \<^verbatim>\<open>scxml_host_router_resolve\<close> returns OK, the
  result is a live endpoint, and it is the source itself (empty address), the source's
  parent (\<open>#_parent\<close>), the target of an alias the source has bound under the identifier
  after \<open>#_\<close>, or an endpoint that was made externally accessible and whose location is the
  address.
\<close>

theorem resolve_only_visible:
  assumes "router_reachable r" and "scxml_host_router_resolve source address r = (SALTS_OK, ref, r')"
  shows "matches r ref \<and> r' = r \<and>
    (cdata address = [] \<and> ref = source \<or>
     cdata address = ''#_parent'' \<and> ref = ep_parent (r_endpoints r ! unat (ref_slot source)) \<or>
     (\<exists>rt\<in>set (r_invoke_routes r). route_for source (drop 2 (cdata address)) rt \<and>
        take 2 (cdata address) = ''#_'' \<and> ref = rt_target rt) \<or>
     (\<exists>p\<in>set (r_endpoints r). ep_live p \<and> ep_accessible p \<and> ep_location p = cdata address \<and>
        p = r_endpoints r ! unat (ref_slot ref)))"
proof -
  let ?a = "cdata address"
  let ?rel = "resolve_relative r source ?a"
  let ?open = "\<lambda>p. ep_live p \<and> ep_accessible p \<and> ep_location p = ?a"
  have m: "matches r ref" "r' = r" and src: "ref = ?rel \<or> (\<exists>i. first_index ?open (r_endpoints r) = Some i \<and>
      ref = \<lparr>ref_slot = of_nat i, ref_generation = ep_generation (r_endpoints r ! i)\<rparr>)"
    using assms(2) by (auto simp: scxml_host_router_resolve_def resolve_locked_def Let_def
        split: if_splits option.splits prod.splits)
  from src show ?thesis
  proof
    assume rel: "ref = ?rel"
    have gen: "ref_generation ref \<noteq> 0" using m(1) by (simp add: matches_def)
    have two: "length ?a > 2 \<Longrightarrow> take 2 ?a = [?a ! 0, ?a ! 1]"
      by (cases ?a; cases "tl ?a") auto
    show ?thesis using rel gen m two
      by (auto simp: resolve_relative_def null_ref_def split: if_splits option.splits
          dest!: first_index_SomeD)
  next
    assume "\<exists>i. first_index ?open (r_endpoints r) = Some i \<and>
      ref = \<lparr>ref_slot = of_nat i, ref_generation = ep_generation (r_endpoints r ! i)\<rparr>"
    then obtain i where i: "first_index ?open (r_endpoints r) = Some i"
      "ref = \<lparr>ref_slot = of_nat i, ref_generation = ep_generation (r_endpoints r ! i)\<rparr>" by blast
    note I = first_index_SomeD [OF i(1)]
    have "endpoint_capacity r \<le> unat UINT32_MAX"
      using core_invD(11) [OF router_invD(1) [OF router_reachable_inv [OF assms(1)]]]
      by (simp add: endpoints_ok_def)
    with I have "unat (ref_slot ref) = i"
      by (simp add: i(2) unat_UINT32_MAX unsigned_of_nat take_bit_nat_eq_self)
    with I m show ?thesis by auto
  qed
qed

definition demo_open :: host_router where
  "demo_open = snd (scxml_host_router_set_external_access demo_ref2 True demo_family)"

lemma demo_open_reachable: "router_reachable demo_open"
  unfolding demo_open_def demo_family_def
  by (rule router_reachable.step [OF reachable_attach [OF demo_attached_reachable]
        router_step.access [OF pair_split]])

theorem resolve_only_visible_witness:
  "\<exists>p\<in>set (r_endpoints demo_open). ep_accessible p \<and> ep_location p = ''#_scxml_b''"
proof -
  have run: "scxml_host_router_resolve demo_ref (CBytes ''#_scxml_b'') demo_open =
      (SALTS_OK, demo_ref2, snd (snd (scxml_host_router_resolve demo_ref (CBytes ''#_scxml_b'') demo_open)))"
    by (intro prod_eqI) (simp, code_simp, simp, code_simp, simp)
  have "r_invoke_routes demo_open = [blank_route]" by code_simp
  then have "\<not> (\<exists>rt\<in>set (r_invoke_routes demo_open). route_for demo_ref (drop 2 ''#_scxml_b'') rt)"
    by (simp add: route_for_def blank_route_def)
  with resolve_only_visible [OF demo_open_reachable run] show ?thesis by auto
qed

text \<open>
  A closed router publishes nothing: in every reachable state of a closed router no row is
  ready or waits for a deadline, and this stays so whatever tickets are committed or
  discarded afterwards; a delivery pass answers CLOSED and a timer pass ESHUTDOWN, and both
  leave the router as it is.
\<close>

theorem closed_router_publishes_nothing:
  assumes "router_reachable r" "r_closed r" "router_steps r r'"
  shows "r_closed r' \<and> (\<forall>row\<in>set (r_rows r'). row_state row \<noteq> ROW_READY \<and> row_state row \<noteq> ROW_DELAYED) \<and>
    drain_claim r' = Drain_Break CFLOW_MAILBOX_CLOSED r' \<and> run_due_claim clk r' = Due_Closed \<and>
    (n \<noteq> 0 \<and> \<not> r_draining r' \<longrightarrow>
      scxml_host_router_drain try_send n r' w = (CFLOW_MAILBOX_CLOSED, 0, r', w)) \<and>
    (n \<noteq> 0 \<and> r_clock r' \<noteq> None \<longrightarrow>
      scxml_host_router_run_due clk report n r' w' = (SALTS_ESHUTDOWN, 0, r', w'))"
proof -
  have reach: "router_reachable r'" using assms(1,3) by (simp add: router_reachable_steps)
  have "r_closed r'" using assms(3,2)
  proof (induction rule: router_steps.induct)
    case (refl r)
    then show ?case .
  next
    case (step r r' r'')
    then show ?case using router_step_shrinks by (auto simp: closed_shrinks_def)
  qed
  moreover have "\<forall>row\<in>set (r_rows r'). row_state row \<noteq> ROW_READY \<and> row_state row \<noteq> ROW_DELAYED"
    using router_reachable_closed [OF reach] calculation by (auto simp: waiting_def)
  ultimately show ?thesis
    by (auto simp: drain_claim_def run_due_claim_def scxml_host_router_drain_def drain_begin_def
        scxml_host_router_run_due_def run_due_begin_def)
qed

theorem closed_router_publishes_nothing_witness:
  "r_closed demo_gone \<and> drain_claim demo_gone = Drain_Break CFLOW_MAILBOX_CLOSED demo_gone"
proof -
  have steps: "router_steps demo_closed demo_gone"
    unfolding demo_gone_def
    by (rule router_steps.step [OF router_steps.refl router_step.detach [OF pair_split]])
  have "r_closed demo_closed" by code_simp
  note P = closed_router_publishes_nothing [OF demo_closed_reachable this steps]
  show ?thesis by (rule conjI [OF conjunct1 [OF P] conjunct1 [OF conjunct2 [OF conjunct2 [OF P]]]])
qed

text \<open>
  Detaching the endpoints is enough to destroy a closed router: in every reachable closed
  state with no live endpoint and no pass running, every table is empty, so the router is
  quiescent and \<^verbatim>\<open>scxml_host_router_destroy\<close> frees it.
\<close>

theorem closed_router_destroyable:
  assumes "router_reachable r" "r_closed r" "r_endpoint_count r = 0" "\<not> r_draining r" "\<not> r_timer_running r"
  shows "r_pending r = 0 \<and> r_timer_pending r = 0 \<and> r_cancel_pending r = 0 \<and> r_invoke_count r = 0 \<and>
    scxml_host_router_destroy (Some r) = (SALTS_OK, None)"
proof -
  note core = router_invD(1) [OF router_reachable_inv [OF assms(1)]]
  note C = core_invD(1) [OF core, unfolded counters_ok_def]
  have dead: "\<not> live_ref (r_endpoints r) ref" for ref
  proof -
    have "count_if ep_live (r_endpoints r) = 0" using C assms(3) by simp
    then show ?thesis by (auto simp: count_if_zero_iff live_ref_def)
  qed
  have rows: "count_if nonfree (r_rows r) = 0" "count_if timed (r_rows r) = 0"
    using core_invD(3) [OF core] dead
    by (auto simp: count_if_zero_iff rows_pinned_def dest: timed_nonfree)
  have "count_if cx_in_use (r_cancel_rows r) = 0" "count_if rt_live (r_invoke_routes r) = 0"
    using core_invD(5,6) [OF core] dead
    by (auto simp: count_if_zero_iff cancels_pinned_def routes_pinned_def)
  with C rows assms show ?thesis
    by (auto simp: scxml_host_router_destroy_def scxml_host_router_is_quiescent_def)
qed

theorem closed_router_destroyable_witness:
  "scxml_host_router_destroy (Some demo_gone) = (SALTS_OK, None)"
proof -
  have "r_closed demo_gone" "r_endpoint_count demo_gone = 0" "\<not> r_draining demo_gone"
    "\<not> r_timer_running demo_gone" by code_simp+
  from closed_router_destroyable [OF demo_gone_reachable this] show ?thesis by blast
qed

end
