(* ===== verification/Cnet_Domain_Fence.thy ===== *)
theory Cnet_Domain_Fence
  imports Prelude
begin

text \<open>
  Model of \<^verbatim>\<open>src/scxml_cnet_domain_fence.c\<close>: the gate of a CNet domain. It names the
  generation that may submit operations, one staged successor and one draining predecessor.
  The thread token of the caller (\<^verbatim>\<open>cmeta_thread_current_token\<close>) is the argument \<open>self\<close>.
  A callback receives the fence, so it may try to enter it again.
\<close>

section \<open>State and operations\<close>

record domain_fence =
  fn_owner_thread :: "nat option"
  fn_current :: u64
  fn_staged :: u64
  fn_draining :: u64
  fn_latest :: u64
  fn_epoch :: u64
  fn_accepted :: u64
  fn_rejected :: u64
  fn_switches :: u64
  fn_retired :: u64
  fn_failed_submissions :: u64
  fn_closed :: bool
  fn_submitting :: bool

definition check_owner :: "nat option \<Rightarrow> domain_fence \<Rightarrow> salts_status" where
  "check_owner self f = (if fn_owner_thread f = self then SALTS_OK else SALTS_EINVAL)"

definition attached :: "domain_fence \<Rightarrow> nat" where
  "attached f = of_bool (fn_current f \<noteq> 0) + of_bool (fn_staged f \<noteq> 0) + of_bool (fn_draining f \<noteq> 0)"

definition fresh_fence :: "nat option \<Rightarrow> domain_fence" where
  "fresh_fence owner = \<lparr>fn_owner_thread = owner, fn_current = 0, fn_staged = 0, fn_draining = 0,
     fn_latest = 0, fn_epoch = 0, fn_accepted = 0, fn_rejected = 0, fn_switches = 0, fn_retired = 0,
     fn_failed_submissions = 0, fn_closed = False, fn_submitting = False\<rparr>"

definition scxml_cnet_domain_fence_init ::
  "nat option \<Rightarrow> bool \<Rightarrow> domain_fence option \<Rightarrow> salts_status \<times> domain_fence option" where
  "scxml_cnet_domain_fence_init self alloc_ok handle =
     (if handle \<noteq> None then (SALTS_EINVAL, handle)
      else if self = None then (SALTS_EINVAL, handle)
      else if \<not> alloc_ok then (SALTS_ENOMEM, handle)
      else (SALTS_OK, Some (fresh_fence self)))"

definition scxml_cnet_domain_fence_attach ::
  "nat option \<Rightarrow> u64 \<Rightarrow> domain_fence \<Rightarrow> salts_status \<times> domain_fence" where
  "scxml_cnet_domain_fence_attach self generation f =
     (if check_owner self f \<noteq> SALTS_OK \<or> generation = 0 then (SALTS_EINVAL, f)
      else if fn_submitting f then (SALTS_EBUSY, f)
      else if fn_closed f then (SALTS_ESHUTDOWN, f)
      else if generation \<le> fn_latest f then (SALTS_EALREADY, f)
      else if attached f = 2 \<or> fn_draining f \<noteq> 0 \<or> fn_staged f \<noteq> 0 then (SALTS_EBUSY, f)
      else if fn_current f = 0
      then if fn_epoch f = UINT64_MAX then (SALTS_ERANGE, f)
           else (SALTS_OK, f\<lparr>fn_current := generation, fn_epoch := fn_epoch f + 1,
                            fn_latest := generation\<rparr>)
      else (SALTS_OK, f\<lparr>fn_staged := generation, fn_latest := generation\<rparr>))"

definition scxml_cnet_domain_fence_activate ::
  "nat option \<Rightarrow> u64 \<Rightarrow> domain_fence \<Rightarrow> salts_status \<times> domain_fence" where
  "scxml_cnet_domain_fence_activate self staged_generation f =
     (if check_owner self f \<noteq> SALTS_OK \<or> staged_generation = 0 then (SALTS_EINVAL, f)
      else if fn_submitting f \<or> fn_draining f \<noteq> 0 then (SALTS_EBUSY, f)
      else if fn_closed f then (SALTS_ESHUTDOWN, f)
      else if fn_staged f \<noteq> staged_generation then (SALTS_ENOENT, f)
      else if fn_current f = 0 \<or> fn_epoch f = UINT64_MAX then (SALTS_EPROTO, f)
      else (SALTS_OK, f\<lparr>fn_draining := fn_current f, fn_current := fn_staged f, fn_staged := 0,
                       fn_epoch := fn_epoch f + 1, fn_switches := fn_switches f + 1\<rparr>))"

definition scxml_cnet_domain_fence_try_submit ::
  "nat option \<Rightarrow> u64 \<Rightarrow> (domain_fence \<times> 'w \<Rightarrow> salts_status \<times> domain_fence \<times> 'w) option
     \<Rightarrow> domain_fence \<times> 'w \<Rightarrow> salts_status \<times> domain_fence \<times> 'w" where
  "scxml_cnet_domain_fence_try_submit self generation submit fw =
     (case fw of (f, w) \<Rightarrow>
      case submit of None \<Rightarrow> (SALTS_EINVAL, f, w)
      | Some call \<Rightarrow>
        if check_owner self f \<noteq> SALTS_OK \<or> generation = 0 then (SALTS_EINVAL, f, w)
        else if fn_submitting f then (SALTS_EBUSY, f, w)
        else if fn_closed f then (SALTS_ESHUTDOWN, f, w)
        else if generation \<noteq> fn_current f
        then (SALTS_EPERM, f\<lparr>fn_rejected := fn_rejected f + 1\<rparr>, w)
        else (case call (f\<lparr>fn_submitting := True\<rparr>, w) of (status, f1, w1) \<Rightarrow>
          let f2 = f1\<lparr>fn_submitting := False\<rparr> in
          (status,
           if status = SALTS_OK then f2\<lparr>fn_accepted := fn_accepted f2 + 1\<rparr>
           else f2\<lparr>fn_failed_submissions := fn_failed_submissions f2 + 1\<rparr>, w1)))"

text \<open>Which of the three generations a retirement names, in the order of the code's tests.\<close>

datatype fence_slot = Slot_Draining | Slot_Staged | Slot_Current

definition retire_slot :: "u64 \<Rightarrow> domain_fence \<Rightarrow> fence_slot option" where
  "retire_slot generation f =
     (if generation = fn_draining f then Some Slot_Draining
      else if generation = fn_staged f then Some Slot_Staged
      else if generation = fn_current f then Some Slot_Current
      else None)"

fun clear_slot :: "fence_slot \<Rightarrow> domain_fence \<Rightarrow> domain_fence" where
  "clear_slot Slot_Draining f = f\<lparr>fn_draining := 0\<rparr>"
| "clear_slot Slot_Staged f = f\<lparr>fn_staged := 0\<rparr>"
| "clear_slot Slot_Current f = f\<lparr>fn_current := 0\<rparr>"

definition scxml_cnet_domain_fence_retire ::
  "nat option \<Rightarrow> u64 \<Rightarrow> (domain_fence \<times> 'w \<Rightarrow> bool \<times> domain_fence \<times> 'w) option
     \<Rightarrow> domain_fence \<times> 'w \<Rightarrow> salts_status \<times> domain_fence \<times> 'w" where
  "scxml_cnet_domain_fence_retire self generation is_quiescent fw =
     (case fw of (f, w) \<Rightarrow>
      if check_owner self f \<noteq> SALTS_OK \<or> generation = 0 then (SALTS_EINVAL, f, w)
      else if fn_submitting f then (SALTS_EBUSY, f, w)
      else case retire_slot generation f of
        None \<Rightarrow> (SALTS_ENOENT, f, w)
      | Some slot \<Rightarrow>
          if slot = Slot_Current \<and> \<not> fn_closed f then (SALTS_EBUSY, f, w)
          else case is_quiescent of
            None \<Rightarrow>
              if slot \<noteq> Slot_Staged then (SALTS_EINVAL, f, w)
              else let f1 = clear_slot slot f in (SALTS_OK, f1\<lparr>fn_retired := fn_retired f1 + 1\<rparr>, w)
          | Some probe \<Rightarrow>
              (case probe (f\<lparr>fn_submitting := True\<rparr>, w) of (ready, f1, w1) \<Rightarrow>
                 let f2 = f1\<lparr>fn_submitting := False\<rparr> in
                 if \<not> ready then (SALTS_EBUSY, f2, w1)
                 else let f3 = clear_slot slot f2 in
                      (SALTS_OK, f3\<lparr>fn_retired := fn_retired f3 + 1\<rparr>, w1)))"

definition scxml_cnet_domain_fence_close ::
  "nat option \<Rightarrow> domain_fence \<Rightarrow> salts_status \<times> domain_fence" where
  "scxml_cnet_domain_fence_close self f =
     (if check_owner self f \<noteq> SALTS_OK then (SALTS_EINVAL, f)
      else if fn_submitting f then (SALTS_EBUSY, f)
      else if fn_closed f then (SALTS_EALREADY, f)
      else (SALTS_OK, f\<lparr>fn_closed := True\<rparr>))"

definition scxml_cnet_domain_fence_destroy ::
  "nat option \<Rightarrow> domain_fence option \<Rightarrow> salts_status \<times> domain_fence option" where
  "scxml_cnet_domain_fence_destroy self handle =
     (case handle of
        None \<Rightarrow> (SALTS_OK, None)
      | Some f \<Rightarrow>
          if check_owner self f \<noteq> SALTS_OK then (SALTS_EINVAL, handle)
          else if fn_submitting f \<or> \<not> fn_closed f \<or> attached f \<noteq> 0 then (SALTS_EBUSY, handle)
          else (SALTS_OK, None))"

section \<open>Callbacks cannot move the fence\<close>

text \<open>
  What a callback may do to the fence: any sequence of its own operations. Every one of
  them is refused while a submission runs, before any nested callback, so the world of a
  nested call does not matter.
\<close>

inductive fence_call :: "domain_fence \<Rightarrow> domain_fence \<Rightarrow> bool" where
  none: "fence_call f f"
| attach: "fence_call f f1 \<Longrightarrow> scxml_cnet_domain_fence_attach self g f1 = (st, f2) \<Longrightarrow> fence_call f f2"
| activate: "fence_call f f1 \<Longrightarrow> scxml_cnet_domain_fence_activate self g f1 = (st, f2) \<Longrightarrow> fence_call f f2"
| submit: "fence_call f f1 \<Longrightarrow>
    scxml_cnet_domain_fence_try_submit self g cb (f1, ()) = (st, f2, w2) \<Longrightarrow> fence_call f f2"
| retire: "fence_call f f1 \<Longrightarrow>
    scxml_cnet_domain_fence_retire self g pr (f1, ()) = (st, f2, w2) \<Longrightarrow> fence_call f f2"
| close: "fence_call f f1 \<Longrightarrow> scxml_cnet_domain_fence_close self f1 = (st, f2) \<Longrightarrow> fence_call f f2"

lemma reentrant_refused:
  assumes "fn_submitting f"
  shows "scxml_cnet_domain_fence_attach self g f = (st, f') \<Longrightarrow> f' = f"
    "scxml_cnet_domain_fence_activate self g f = (st, f') \<Longrightarrow> f' = f"
    "scxml_cnet_domain_fence_try_submit self g cb (f, w) = (st, f', w') \<Longrightarrow> f' = f \<and> w' = w"
    "scxml_cnet_domain_fence_retire self g pr (f, w) = (st, f', w') \<Longrightarrow> f' = f \<and> w' = w"
    "scxml_cnet_domain_fence_close self f = (st, f') \<Longrightarrow> f' = f"
  using assms
  by (auto simp: scxml_cnet_domain_fence_attach_def scxml_cnet_domain_fence_activate_def
      scxml_cnet_domain_fence_try_submit_def scxml_cnet_domain_fence_retire_def
      scxml_cnet_domain_fence_close_def split: if_splits option.splits)

lemma fence_call_submitting: "fence_call f f' \<Longrightarrow> fn_submitting f \<Longrightarrow> f' = f"
  by (induction rule: fence_call.induct) (auto dest: reentrant_refused)

text \<open>A callback that reaches the fence only through its operations leaves it unchanged.\<close>

definition well_behaved :: "(domain_fence \<times> 'w \<Rightarrow> 'b \<times> domain_fence \<times> 'w) \<Rightarrow> bool" where
  "well_behaved cb \<longleftrightarrow> (\<forall>f w. fence_call f (fst (snd (cb (f, w)))))"

lemma well_behaved_frame: "well_behaved cb \<Longrightarrow> fn_submitting f \<Longrightarrow> fst (snd (cb (f, w))) = f"
  using fence_call_submitting unfolding well_behaved_def by blast

section \<open>Runs of the fence\<close>

inductive fence_step :: "domain_fence \<Rightarrow> domain_fence \<Rightarrow> bool" where
  attach: "scxml_cnet_domain_fence_attach self g f = (st, f') \<Longrightarrow> fence_step f f'"
| activate: "scxml_cnet_domain_fence_activate self g f = (st, f') \<Longrightarrow> fence_step f f'"
| submit: "well_behaved cb \<Longrightarrow>
    scxml_cnet_domain_fence_try_submit self g (Some cb) (f, ()) = (st, f', w') \<Longrightarrow> fence_step f f'"
| retire: "(\<forall>probe. pr = Some probe \<longrightarrow> well_behaved probe) \<Longrightarrow>
    scxml_cnet_domain_fence_retire self g pr (f, ()) = (st, f', w') \<Longrightarrow> fence_step f f'"
| close: "scxml_cnet_domain_fence_close self f = (st, f') \<Longrightarrow> fence_step f f'"

inductive fence_steps :: "domain_fence \<Rightarrow> domain_fence \<Rightarrow> bool" where
  refl: "fence_steps f f"
| step: "fence_steps f f' \<Longrightarrow> fence_step f' f'' \<Longrightarrow> fence_steps f f''"

definition fence_inv :: "domain_fence \<Rightarrow> bool" where
  "fence_inv f \<longleftrightarrow> \<not> fn_submitting f \<and>
     (fn_staged f = 0 \<or> fn_draining f = 0) \<and>
     fn_current f \<le> fn_latest f \<and> fn_staged f \<le> fn_latest f \<and> fn_draining f \<le> fn_latest f \<and>
     (fn_staged f \<noteq> 0 \<longrightarrow> fn_current f < fn_staged f) \<and>
     (fn_draining f \<noteq> 0 \<and> fn_current f \<noteq> 0 \<longrightarrow> fn_draining f < fn_current f) \<and>
     (fn_current f = 0 \<longrightarrow> fn_latest f = 0 \<or> fn_closed f) \<and>
     fn_epoch f = fn_switches f + of_bool (fn_latest f \<noteq> 0)"

lemma fresh_fence_inv: "fence_inv (fresh_fence owner)"
  by (simp add: fence_inv_def fresh_fence_def)

lemma fence_inv_statistics [simp]:
  "fence_inv (f\<lparr>fn_rejected := x\<rparr>) = fence_inv f"
  "fence_inv (f\<lparr>fn_accepted := x\<rparr>) = fence_inv f"
  "fence_inv (f\<lparr>fn_failed_submissions := x\<rparr>) = fence_inv f"
  "fence_inv (f\<lparr>fn_retired := x\<rparr>) = fence_inv f"
  by (simp_all add: fence_inv_def)

lemma submit_effect:
  assumes "well_behaved cb" "scxml_cnet_domain_fence_try_submit self g (Some cb) (f, w) = (st, f', w')"
    and "\<not> fn_submitting f"
  shows "f' = f \<or> f' = f\<lparr>fn_rejected := fn_rejected f + 1\<rparr> \<or> f' = f\<lparr>fn_accepted := fn_accepted f + 1\<rparr> \<or>
    f' = f\<lparr>fn_failed_submissions := fn_failed_submissions f + 1\<rparr>"
  using assms well_behaved_frame [OF assms(1), of "f\<lparr>fn_submitting := True\<rparr>" w]
  by (auto simp: scxml_cnet_domain_fence_try_submit_def Let_def split: if_splits prod.splits)

lemma retire_effect:
  assumes "\<forall>probe. pr = Some probe \<longrightarrow> well_behaved probe"
    and "scxml_cnet_domain_fence_retire self g pr (f, w) = (st, f', w')" "\<not> fn_submitting f"
  shows "f' = f \<or> (\<exists>slot. retire_slot g f = Some slot \<and> g \<noteq> 0 \<and> (slot = Slot_Current \<longrightarrow> fn_closed f) \<and>
    f' = (clear_slot slot f)\<lparr>fn_retired := fn_retired f + 1\<rparr>)"
proof -
  have retired: "fn_retired (clear_slot slot f) = fn_retired f" for slot by (cases slot) simp_all
  have "f\<lparr>fn_submitting := False\<rparr> = f" using assms(3) by simp
  then have same: "clear_slot slot (f\<lparr>fn_submitting := False\<rparr>) = clear_slot slot f" for slot
    by (simp only:)
  show ?thesis
  proof (cases pr)
    case None
    with assms(2) retired show ?thesis
      by (auto simp: scxml_cnet_domain_fence_retire_def Let_def split: if_splits option.splits)
  next
    case (Some probe)
    with assms(1) have "well_behaved probe" by blast
    moreover obtain ready f1 w1 where run: "probe (f\<lparr>fn_submitting := True\<rparr>, w) = (ready, f1, w1)"
      by (cases "probe (f\<lparr>fn_submitting := True\<rparr>, w)")
    ultimately have "f1 = f\<lparr>fn_submitting := True\<rparr>"
      using well_behaved_frame [of probe "f\<lparr>fn_submitting := True\<rparr>" w] by simp
    with run have "probe (f\<lparr>fn_submitting := True\<rparr>, w) = (ready, f\<lparr>fn_submitting := True\<rparr>, w1)"
      by (simp only:)
    with Some assms(2) retired same show ?thesis
      by (auto simp: scxml_cnet_domain_fence_retire_def Let_def split: if_splits option.splits)
  qed
qed

lemma attach_effect:
  assumes "scxml_cnet_domain_fence_attach self g f = (st, f')"
  shows "f' = f \<or> (\<not> fn_closed f \<and> fn_latest f < g \<and> fn_draining f = 0 \<and> fn_staged f = 0 \<and>
    (if fn_current f = 0
     then f' = f\<lparr>fn_current := g, fn_epoch := fn_epoch f + 1, fn_latest := g\<rparr>
     else f' = f\<lparr>fn_staged := g, fn_latest := g\<rparr>))"
proof (cases "st = SALTS_OK")
  case True
  with assms show ?thesis
    by (simp add: scxml_cnet_domain_fence_attach_def not_le split: if_splits)
next
  case False
  with assms show ?thesis by (simp add: scxml_cnet_domain_fence_attach_def split: if_splits)
qed

lemma activate_effect:
  assumes "scxml_cnet_domain_fence_activate self g f = (st, f')"
  shows "f' = f \<or> (\<not> fn_closed f \<and> fn_draining f = 0 \<and> fn_staged f \<noteq> 0 \<and> fn_current f \<noteq> 0 \<and>
    f' = f\<lparr>fn_draining := fn_current f, fn_current := fn_staged f, fn_staged := 0,
      fn_epoch := fn_epoch f + 1, fn_switches := fn_switches f + 1\<rparr>)"
  using assms by (simp add: scxml_cnet_domain_fence_activate_def split: if_splits)

lemma fence_step_inv: "fence_step f f' \<Longrightarrow> fence_inv f \<Longrightarrow> fence_inv f'"
proof (induction rule: fence_step.induct)
  case (attach self g f st f')
  from attach_effect [OF attach.hyps] show ?case
  proof
    assume a: "\<not> fn_closed f \<and> fn_latest f < g \<and> fn_draining f = 0 \<and> fn_staged f = 0 \<and>
      (if fn_current f = 0
       then f' = f\<lparr>fn_current := g, fn_epoch := fn_epoch f + 1, fn_latest := g\<rparr>
       else f' = f\<lparr>fn_staged := g, fn_latest := g\<rparr>)"
    then have "g \<noteq> 0" "fn_current f < g \<or> fn_current f = 0" "fn_current f \<noteq> 0 \<longrightarrow> fn_latest f \<noteq> 0"
      using attach.prems by (auto simp: fence_inv_def)
    with a attach.prems show ?thesis
      by (cases "fn_current f = 0") (simp_all add: fence_inv_def less_imp_le)
  qed (use attach.prems in simp)
next
  case (activate self g f st f')
  from activate_effect [OF activate.hyps] activate.prems show ?case
    by (elim disjE) (simp_all add: fence_inv_def less_imp_le)
next
  case (submit cb self g f st f' w')
  then have "\<not> fn_submitting f" by (simp add: fence_inv_def)
  from submit_effect [OF submit.hyps this] submit.prems show ?case by (elim disjE) simp_all
next
  case (retire pr self g f st f' w')
  then have "\<not> fn_submitting f" by (simp add: fence_inv_def)
  from retire_effect [OF retire.hyps this] show ?case
  proof (elim disjE exE conjE)
    fix slot
    assume "slot = Slot_Current \<longrightarrow> fn_closed f" "f' = (clear_slot slot f)\<lparr>fn_retired := fn_retired f + 1\<rparr>"
    with retire.prems show ?thesis by (cases slot) (auto simp: fence_inv_def word_gt_0)
  qed (use retire.prems in simp)
next
  case (close self f st f')
  then show ?case by (auto simp: scxml_cnet_domain_fence_close_def fence_inv_def split: if_splits)
qed

lemma fence_steps_inv: "fence_steps f f' \<Longrightarrow> fence_inv f \<Longrightarrow> fence_inv f'"
  by (induction rule: fence_steps.induct) (auto intro: fence_step_inv)

text \<open>The current generation only moves forward, until a closed fence gives it up.\<close>

lemma fence_step_current:
  assumes "fence_step f f'" "fence_inv f"
  shows "fn_latest f \<le> fn_latest f' \<and> (fn_closed f \<longrightarrow> fn_closed f') \<and>
    (fn_current f' = fn_current f \<or> fn_current f < fn_current f' \<or> (fn_current f' = 0 \<and> fn_closed f'))"
  using assms
proof (induction rule: fence_step.induct)
  case (attach self g f st f')
  from attach_effect [OF attach.hyps] attach.prems show ?case
    by (elim disjE) (simp_all add: fence_inv_def less_imp_le split: if_splits)
next
  case (activate self g f st f')
  from activate_effect [OF activate.hyps] activate.prems show ?case
    by (elim disjE) (simp_all add: fence_inv_def)
next
  case (submit cb self g f st f' w')
  then have "\<not> fn_submitting f" by (simp add: fence_inv_def)
  from submit_effect [OF submit.hyps this] show ?case by auto
next
  case (retire pr self g f st f' w')
  then have "\<not> fn_submitting f" by (simp add: fence_inv_def)
  from retire_effect [OF retire.hyps this] show ?case
  proof (elim disjE exE conjE)
    fix slot
    assume "slot = Slot_Current \<longrightarrow> fn_closed f" "f' = (clear_slot slot f)\<lparr>fn_retired := fn_retired f + 1\<rparr>"
    then show ?thesis by (cases slot) auto
  qed simp
next
  case (close self f st f')
  then show ?case by (auto simp: scxml_cnet_domain_fence_close_def split: if_splits)
qed

lemma fence_closed_current:
  assumes "fence_step f f'" "fence_inv f" "fn_closed f" "fn_current f = 0"
  shows "fn_current f' = 0"
  using assms
proof (induction rule: fence_step.induct)
  case (submit cb self g f st f' w')
  then have "\<not> fn_submitting f" by (simp add: fence_inv_def)
  from submit_effect [OF submit.hyps this] submit.prems show ?case by auto
next
  case (retire pr self g f st f' w')
  then have "\<not> fn_submitting f" by (simp add: fence_inv_def)
  from retire_effect [OF retire.hyps this] show ?case
  proof (elim disjE exE conjE)
    fix slot
    assume "f' = (clear_slot slot f)\<lparr>fn_retired := fn_retired f + 1\<rparr>"
    with retire.prems show ?thesis by (cases slot) auto
  qed (use retire.prems in simp)
qed (auto simp: scxml_cnet_domain_fence_attach_def scxml_cnet_domain_fence_activate_def
      scxml_cnet_domain_fence_close_def split: if_splits)

section \<open>Properties\<close>

definition demo_fence :: domain_fence where
  "demo_fence = snd (scxml_cnet_domain_fence_attach (Some 1) 8
     (snd (scxml_cnet_domain_fence_attach (Some 1) 5 (fresh_fence (Some 1)))))"

definition demo_switched :: domain_fence where
  "demo_switched = snd (scxml_cnet_domain_fence_activate (Some 1) 8 demo_fence)"

lemma demo_fence_steps: "fence_steps (fresh_fence (Some 1)) demo_fence"
  unfolding demo_fence_def
  by (rule fence_steps.step [OF fence_steps.step [OF fence_steps.refl fence_step.attach [OF pair_split]]
        fence_step.attach [OF pair_split]])

text \<open>
  Property (C20). In every state a fence can reach, with callbacks that touch it only through its
  operations: at most two generations are attached, a staged one is newer and a draining one
  older than the current one, no submission is left marked as running, and the admission
  epoch counts the first attachment and every switch.
\<close>

theorem fence_generations_ordered:
  assumes "fence_steps (fresh_fence owner) f"
  shows "attached f \<le> 2 \<and> \<not> fn_submitting f \<and>
    (fn_staged f \<noteq> 0 \<longrightarrow> fn_current f < fn_staged f) \<and>
    (fn_draining f \<noteq> 0 \<and> fn_current f \<noteq> 0 \<longrightarrow> fn_draining f < fn_current f) \<and>
    fn_epoch f = fn_switches f + of_bool (fn_latest f \<noteq> 0)"
  using fence_steps_inv [OF assms fresh_fence_inv] by (auto simp: fence_inv_def attached_def)

theorem fence_generations_ordered_witness:
  "attached demo_fence = 2 \<and> fn_current demo_fence < fn_staged demo_fence"
proof -
  have "attached demo_fence = 2" "fn_staged demo_fence \<noteq> 0" by code_simp+
  with fence_generations_ordered [OF demo_fence_steps] show ?thesis by blast
qed

text \<open>
  A switch is final: once \<^verbatim>\<open>scxml_cnet_domain_fence_activate\<close> has returned OK, the
  generation it replaced is never admitted again. In every later state a submission with
  that generation does not run its callback and does not return OK.
\<close>

theorem fence_switch_is_final:
  assumes "fence_steps (fresh_fence owner) f" "scxml_cnet_domain_fence_activate self g f = (SALTS_OK, f1)"
    and "fence_steps f1 f2"
  shows "fst (scxml_cnet_domain_fence_try_submit caller (fn_current f) (Some cb) (f2, w)) \<noteq> SALTS_OK \<and>
    snd (snd (scxml_cnet_domain_fence_try_submit caller (fn_current f) (Some cb) (f2, w))) = w"
proof -
  have inv: "fence_inv f" by (rule fence_steps_inv [OF assms(1) fresh_fence_inv])
  have step: "fence_step f f1" by (rule fence_step.activate [OF assms(2)])
  have start: "fn_current f \<noteq> 0 \<and> fn_current f < fn_current f1 \<and> fence_inv f1"
    using assms(2) inv fence_step_inv [OF step inv]
    by (auto simp: scxml_cnet_domain_fence_activate_def fence_inv_def split: if_splits)
  have "fence_inv f2 \<and> (fn_current f < fn_current f2 \<or> (fn_current f2 = 0 \<and> fn_closed f2))"
    using assms(3) start
  proof (induction rule: fence_steps.induct)
    case (refl f1)
    then show ?case by blast
  next
    case (step f1 f2 f3)
    then have IH: "fence_inv f2" "fn_current f < fn_current f2 \<or> fn_current f2 = 0 \<and> fn_closed f2" by auto
    from fence_step_current [OF step.hyps(2) IH(1)] fence_step_inv [OF step.hyps(2) IH(1)] IH(2)
    show ?case using fence_closed_current [OF step.hyps(2) IH(1)] by (auto intro: less_trans)
  qed
  then have "fn_current f \<noteq> fn_current f2" using start by auto
  then show ?thesis by (auto simp: scxml_cnet_domain_fence_try_submit_def)
qed

theorem fence_switch_is_final_witness:
  "fst (scxml_cnet_domain_fence_try_submit (Some 1) 5 (Some (\<lambda>fw. (SALTS_OK, fst fw, Suc (snd fw))))
     (demo_switched, 0)) = SALTS_EPERM \<and>
   snd (snd (scxml_cnet_domain_fence_try_submit (Some 1) 5
     (Some (\<lambda>fw. (SALTS_OK, fst fw, Suc (snd fw)))) (demo_switched, 0))) = 0"
proof -
  have act: "scxml_cnet_domain_fence_activate (Some 1) 8 demo_fence = (SALTS_OK, demo_switched)"
    unfolding demo_switched_def by (rule prod_eqI) (simp, code_simp, simp)
  have five: "fn_current demo_fence = 5" by code_simp
  have "fst (scxml_cnet_domain_fence_try_submit (Some 1) 5
      (Some (\<lambda>fw. (SALTS_OK, fst fw, Suc (snd fw)))) (demo_switched, 0)) = SALTS_EPERM" by code_simp
  from conjI [OF this conjunct2 [OF fence_switch_is_final
        [OF demo_fence_steps act fence_steps.refl, unfolded five]]] show ?thesis .
qed

end
