(* ===== verification/Cnet_Ingress.thy ===== *)
theory Cnet_Ingress
  imports Row_Queue
begin

text \<open>
  Model of \<^verbatim>\<open>src/scxml_cnet_ingress.c\<close>: received byte chunks, stored as hexadecimal text
  in a ring buffer and handed to a Session in order. CNet and the Session are outside: the
  status of \<^verbatim>\<open>cnet_receive\<close> is an argument, and the Session admission is a function on a
  world \<open>'w\<close>.
\<close>

unbundle bit_operations_syntax

section \<open>State\<close>

record cnet_connection =
  conn_slot :: nat
  conn_generation :: nat

datatype cnet_connection_state =
    CNET_CONNECTION_CONNECTED | CNET_CONNECTION_CLOSING | CNET_CONNECTION_CLOSED
  | CNET_CONNECTION_FAILED | CNET_CONNECTION_OTHER nat

datatype cnet_message_kind = CNET_MESSAGE_BYTES | CNET_MESSAGE_OTHER nat

record cnet_receive_view =
  rv_kind :: cnet_message_kind
  rv_data :: cview

text \<open>A chunk is its hexadecimal text; a zeroed chunk is the empty text.\<close>

record cnet_ingress =
  ig_session :: session
  ig_connection :: cnet_connection
  ig_rows :: "string list"
  ig_max_chunk_bytes :: nat
  ig_head :: nat
  ig_pending :: nat
  ig_peak_pending :: nat
  ig_event_name :: string
  ig_bound :: bool
  ig_connected :: bool
  ig_armed :: bool
  ig_closed :: bool
  ig_terminal :: bool
  ig_failed :: bool
  ig_first_error :: salts_status
  ig_received :: u64
  ig_delivered :: u64
  ig_cancelled :: u64
  ig_rejected_full :: u64
  ig_rejected_oversize :: u64
  ig_stale_callbacks :: u64

abbreviation ig_capacity :: "cnet_ingress \<Rightarrow> nat" where
  "ig_capacity ig \<equiv> length (ig_rows ig)"

section \<open>Callbacks of the connection\<close>

definition connection_matches :: "cnet_ingress \<Rightarrow> cnet_connection \<Rightarrow> bool" where
  "connection_matches ig c \<longleftrightarrow> ig_bound ig \<and> conn_slot (ig_connection ig) = conn_slot c \<and>
     conn_generation (ig_connection ig) = conn_generation c"

definition mark_failure :: "salts_status \<Rightarrow> cnet_ingress \<Rightarrow> cnet_ingress" where
  "mark_failure error ig =
     (if \<not> ig_failed ig then ig\<lparr>ig_failed := True, ig_first_error := error\<rparr> else ig)"

text \<open>\<open>error\<close> is the status of the error record, if CNet passes one.\<close>

definition observe_state ::
  "cnet_connection \<Rightarrow> cnet_connection_state \<Rightarrow> salts_status option \<Rightarrow> cnet_ingress \<Rightarrow> cnet_ingress" where
  "observe_state c state error ig =
     (if \<not> connection_matches ig c
      then ig\<lparr>ig_stale_callbacks := ig_stale_callbacks ig + 1\<rparr>
      else if state = CNET_CONNECTION_CONNECTED then ig\<lparr>ig_connected := True\<rparr>
      else if state = CNET_CONNECTION_CLOSING then ig\<lparr>ig_connected := False\<rparr>
      else if state = CNET_CONNECTION_CLOSED \<or> state = CNET_CONNECTION_FAILED
      then let ig1 = ig\<lparr>ig_connected := False, ig_armed := False, ig_terminal := True\<rparr> in
           if state = CNET_CONNECTION_FAILED
           then mark_failure (case error of None \<Rightarrow> SALTS_EIO
                              | Some st \<Rightarrow> if st \<noteq> SALTS_OK then st else SALTS_EIO) ig1
           else ig1
      else ig)"

definition hex_digits :: string where
  "hex_digits = ''0123456789abcdef''"

definition hex_byte :: "u8 \<Rightarrow> string" where
  "hex_byte b = [hex_digits ! unat (drop_bit 4 b), hex_digits ! unat (b AND 0x0f)]"

definition hex_text :: "u8 list \<Rightarrow> string" where
  "hex_text bs = concat (map hex_byte bs)"

definition observe_receive ::
  "cnet_connection \<Rightarrow> cnet_receive_view option \<Rightarrow> cnet_ingress \<Rightarrow> cnet_ingress" where
  "observe_receive c view ig =
     (if \<not> connection_matches ig c
      then ig\<lparr>ig_stale_callbacks := ig_stale_callbacks ig + 1\<rparr>
      else if \<not> ig_armed ig then mark_failure SALTS_EPROTO ig
      else
        let ig1 = ig\<lparr>ig_armed := False\<rparr> in
        if ig_closed ig1 then ig1\<lparr>ig_cancelled := ig_cancelled ig1 + 1\<rparr>
        else case view of
          None \<Rightarrow> mark_failure SALTS_EPROTO ig1
        | Some v \<Rightarrow>
            if rv_kind v \<noteq> CNET_MESSAGE_BYTES \<or> vsize (rv_data v) \<noteq> 0 \<and> is_vnull (rv_data v)
            then mark_failure SALTS_EPROTO ig1
            else if vsize (rv_data v) > ig_max_chunk_bytes ig1
            then mark_failure SALTS_EMSGSIZE
                   (ig1\<lparr>ig_rejected_oversize := ig_rejected_oversize ig1 + 1\<rparr>)
            else if ig_pending ig1 \<ge> ig_capacity ig1
            then mark_failure SALTS_ENOBUFS (ig1\<lparr>ig_rejected_full := ig_rejected_full ig1 + 1\<rparr>)
            else
              let index = (ig_head ig1 + ig_pending ig1) mod ig_capacity ig1 in
              ig1\<lparr>ig_rows := (ig_rows ig1)[index := hex_text (vdata (rv_data v))],
                  ig_pending := ig_pending ig1 + 1,
                  ig_received := ig_received ig1 + 1,
                  ig_peak_pending := (if ig_pending ig1 + 1 > ig_peak_pending ig1
                                      then ig_pending ig1 + 1 else ig_peak_pending ig1)\<rparr>)"

section \<open>Operations of the owner\<close>

record cnet_ingress_config =
  ic_client :: "nat option"
  ic_session :: "session option"
  ic_event_name :: cbytes
  ic_capacity :: nat
  ic_max_chunk_bytes :: nat

definition fresh_ingress :: "session \<Rightarrow> cnet_ingress_config \<Rightarrow> cnet_ingress" where
  "fresh_ingress s cfg =
     \<lparr>ig_session = s, ig_connection = \<lparr>conn_slot = 0, conn_generation = 0\<rparr>,
      ig_rows = replicate (ic_capacity cfg) [], ig_max_chunk_bytes = ic_max_chunk_bytes cfg,
      ig_head = 0, ig_pending = 0, ig_peak_pending = 0, ig_event_name = cdata (ic_event_name cfg),
      ig_bound = False, ig_connected = False, ig_armed = False, ig_closed = False,
      ig_terminal = False, ig_failed = False, ig_first_error = SALTS_OK, ig_received = 0,
      ig_delivered = 0, ig_cancelled = 0, ig_rejected_full = 0, ig_rejected_oversize = 0,
      ig_stale_callbacks = 0\<rparr>"

text \<open>
  \<open>max_capacity\<close> is \<^verbatim>\<open>SIZE_MAX / sizeof(scxml_cnet_chunk)\<close>; a Session handle without
  an implementation is \<open>None\<close>, as a NULL one.
\<close>

definition scxml_cnet_ingress_init ::
  "nat \<Rightarrow> bool \<Rightarrow> cnet_ingress option \<Rightarrow> cnet_ingress_config \<Rightarrow> salts_status \<times> cnet_ingress option" where
  "scxml_cnet_ingress_init max_capacity alloc_ok handle cfg =
     (case ic_session cfg of None \<Rightarrow> (SALTS_EINVAL, handle)
      | Some s \<Rightarrow>
        if handle \<noteq> None \<or> ic_client cfg = None \<or> is_cnull (ic_event_name cfg) \<or>
           csize (ic_event_name cfg) = 0 \<or>
           csize (ic_event_name cfg) > SCXML_EVENT_METADATA_CAPACITY \<or>
           has_nul (cdata (ic_event_name cfg)) \<or>
           ic_capacity cfg = 0 \<or> ic_capacity cfg > max_capacity \<or>
           ic_max_chunk_bytes cfg = 0 \<or>
           ic_max_chunk_bytes cfg > SCXML_EVENT_METADATA_CAPACITY div 2
        then (SALTS_EINVAL, handle)
        else if \<not> alloc_ok then (SALTS_ENOMEM, handle)
        else (SALTS_OK, Some (fresh_ingress s cfg)))"

definition scxml_cnet_ingress_bind ::
  "cnet_connection \<Rightarrow> cnet_ingress \<Rightarrow> salts_status \<times> cnet_ingress" where
  "scxml_cnet_ingress_bind c ig =
     (if conn_generation c = 0 then (SALTS_EINVAL, ig)
      else if ig_bound ig \<or> ig_closed ig then (SALTS_EBUSY, ig)
      else (SALTS_OK, ig\<lparr>ig_connection := c, ig_bound := True\<rparr>))"

text \<open>
  \<open>receive\<close> is \<^verbatim>\<open>cnet_receive\<close>: its status, and the ingress after any callback it makes
  before it returns.
\<close>

definition scxml_cnet_ingress_arm ::
  "(cnet_connection \<Rightarrow> cnet_ingress \<Rightarrow> salts_status \<times> cnet_ingress) \<Rightarrow> cnet_ingress
     \<Rightarrow> salts_status \<times> cnet_ingress" where
  "scxml_cnet_ingress_arm receive ig =
     (if \<not> ig_bound ig then (SALTS_EINVAL, ig)
      else if ig_closed ig \<or> ig_terminal ig then (SALTS_ESHUTDOWN, ig)
      else if ig_failed ig then (ig_first_error ig, ig)
      else if \<not> ig_connected ig then (SALTS_ENOTCONN, ig)
      else if ig_armed ig then (SALTS_EBUSY, ig)
      else if ig_pending ig = ig_capacity ig
      then (SALTS_ENOBUFS, ig\<lparr>ig_rejected_full := ig_rejected_full ig + 1\<rparr>)
      else case receive (ig_connection ig) (ig\<lparr>ig_armed := True\<rparr>) of (status, ig1) \<Rightarrow>
        (status, if status \<noteq> SALTS_OK then ig1\<lparr>ig_armed := False\<rparr> else ig1))"

definition chunk_metadata :: "string \<Rightarrow> event_metadata" where
  "chunk_metadata hex = \<lparr>md_send_id = [], md_origin = None, md_origin_type = None,
     md_kind = SCXML_CONTENT_TEXT_UTF8, md_bytes = CBytes hex\<rparr>"

text \<open>The loop: at most \<open>n\<close> more events; \<open>None\<close> when it ends without a refusal.\<close>

fun ingress_drain_loop ::
  "(session \<Rightarrow> string \<Rightarrow> event_metadata \<Rightarrow> 'w \<Rightarrow> cflow_mailbox_status \<times> 'w) \<Rightarrow> nat \<Rightarrow> nat
     \<Rightarrow> cnet_ingress \<Rightarrow> 'w \<Rightarrow> cflow_mailbox_status option \<times> nat \<times> cnet_ingress \<times> 'w" where
  "ingress_drain_loop try_send 0 completed ig w = (None, completed, ig, w)"
| "ingress_drain_loop try_send (Suc n) completed ig w =
     (if ig_pending ig = 0 then (None, completed, ig, w)
      else case try_send (ig_session ig) (ig_event_name ig)
                  (chunk_metadata (ig_rows ig ! ig_head ig)) w of (status, w1) \<Rightarrow>
        if status \<noteq> CFLOW_MAILBOX_OK
        then (Some status, completed,
              if status \<noteq> CFLOW_MAILBOX_FULL then mark_failure SALTS_EPROTO ig else ig, w1)
        else ingress_drain_loop try_send n (completed + 1)
               (ig\<lparr>ig_rows := (ig_rows ig)[ig_head ig := []],
                   ig_head := (ig_head ig + 1) mod ig_capacity ig,
                   ig_pending := ig_pending ig - 1,
                   ig_delivered := ig_delivered ig + 1\<rparr>) w1)"

definition scxml_cnet_ingress_drain ::
  "(session \<Rightarrow> string \<Rightarrow> event_metadata \<Rightarrow> 'w \<Rightarrow> cflow_mailbox_status \<times> 'w) \<Rightarrow> nat
     \<Rightarrow> cnet_ingress \<Rightarrow> 'w \<Rightarrow> cflow_mailbox_status \<times> nat \<times> cnet_ingress \<times> 'w" where
  "scxml_cnet_ingress_drain try_send max_events ig w =
     (if max_events = 0 then (CFLOW_MAILBOX_INVALID_ARGUMENT, 0, ig, w)
      else if ig_closed ig then (CFLOW_MAILBOX_CLOSED, 0, ig, w)
      else if ig_failed ig then (CFLOW_MAILBOX_INVALID_ARGUMENT, 0, ig, w)
      else case ingress_drain_loop try_send max_events 0 ig w of (st, completed, ig1, w1) \<Rightarrow>
        (case st of Some status \<Rightarrow> status
         | None \<Rightarrow> if completed \<noteq> 0 then CFLOW_MAILBOX_OK else CFLOW_MAILBOX_EMPTY,
         completed, ig1, w1))"

definition scxml_cnet_ingress_close :: "cnet_ingress \<Rightarrow> salts_status \<times> cnet_ingress" where
  "scxml_cnet_ingress_close ig =
     (if ig_closed ig then (SALTS_EALREADY, ig)
      else (SALTS_OK, ig\<lparr>ig_closed := True, ig_cancelled := ig_cancelled ig + of_nat (ig_pending ig),
                        ig_rows := replicate (ig_capacity ig) [], ig_pending := 0, ig_head := 0\<rparr>))"

definition scxml_cnet_ingress_is_quiescent :: "cnet_ingress \<Rightarrow> bool" where
  "scxml_cnet_ingress_is_quiescent ig \<longleftrightarrow>
     ig_closed ig \<and> \<not> ig_armed ig \<and> ig_pending ig = 0 \<and> (\<not> ig_bound ig \<or> ig_terminal ig)"

definition scxml_cnet_ingress_destroy ::
  "cnet_ingress option \<Rightarrow> salts_status \<times> cnet_ingress option" where
  "scxml_cnet_ingress_destroy handle =
     (case handle of None \<Rightarrow> (SALTS_OK, None)
      | Some ig \<Rightarrow> if \<not> scxml_cnet_ingress_is_quiescent ig then (SALTS_EBUSY, handle)
                   else (SALTS_OK, None))"

section \<open>Hexadecimal text\<close>

definition unhex_digit :: "char \<Rightarrow> nat" where
  "unhex_digit c = (case first_index (\<lambda>d. d = c) hex_digits of None \<Rightarrow> 0 | Some n \<Rightarrow> n)"

fun unhex :: "string \<Rightarrow> u8 list" where
  "unhex (a # b # s) = of_nat (16 * unhex_digit a + unhex_digit b) # unhex s"
| "unhex s = []"

lemma unhex_digit_nth: "n < 16 \<Longrightarrow> unhex_digit (hex_digits ! n) = n"
proof -
  have "\<forall>n<16. unhex_digit (hex_digits ! n) = n" by code_simp
  then show "n < 16 \<Longrightarrow> ?thesis" by blast
qed

lemma nibbles: "unat (drop_bit 4 b) = unat b div 16" "unat (b AND 0x0f) = unat b mod 16" for b :: u8
proof -
  show "unat (drop_bit 4 b) = unat b div 16" by (simp add: drop_bit_eq_div unat_div_distrib)
  have "b AND 0x0f = take_bit 4 b" by (simp add: take_bit_eq_mask mask_eq_exp_minus_1)
  then show "unat (b AND 0x0f) = unat b mod 16" by (simp add: take_bit_eq_mod unat_mod_distrib)
qed

lemma unat_byte: "unat (b :: u8) < 256"
  using unsigned_less [of b] by simp

lemma unhex_hex_byte: "unhex (hex_byte b @ s) = b # unhex s"
proof -
  have "unat b div 16 < 16" using unat_byte [of b] by simp
  then have "16 * unhex_digit (hex_digits ! unat (drop_bit 4 b)) +
      unhex_digit (hex_digits ! unat (b AND 0x0f)) = unat b"
    by (simp add: nibbles unhex_digit_nth)
  then show ?thesis by (simp add: hex_byte_def)
qed

lemma unhex_hex_text: "unhex (hex_text bs) = bs"
  by (induction bs) (simp_all add: hex_text_def unhex_hex_byte)

lemma length_hex_text [simp]: "length (hex_text bs) = 2 * length bs"
  by (induction bs) (simp_all add: hex_text_def hex_byte_def)

section \<open>The ring buffer as a queue\<close>

definition ig_queue :: "cnet_ingress \<Rightarrow> string list" where
  "ig_queue ig = map (\<lambda>i. ig_rows ig ! ((ig_head ig + i) mod ig_capacity ig)) [0..<ig_pending ig]"

text \<open>
  An armed receive has room for its chunk; the counters of an open ingress account for
  every stored chunk.
\<close>

definition ig_inv :: "cnet_ingress \<Rightarrow> bool" where
  "ig_inv ig \<longleftrightarrow> ig_head ig < ig_capacity ig \<and> ig_pending ig \<le> ig_peak_pending ig \<and>
     ig_peak_pending ig \<le> ig_capacity ig \<and>
     (ig_armed ig \<longrightarrow> ig_bound ig \<and> \<not> ig_terminal ig \<and> ig_pending ig < ig_capacity ig) \<and>
     (ig_closed ig \<longrightarrow> ig_pending ig = 0) \<and>
     (\<forall>hex\<in>set (ig_rows ig). length hex \<le> 2 * ig_max_chunk_bytes ig) \<and>
     (\<not> ig_closed ig \<longrightarrow> ig_cancelled ig = 0 \<and> ig_received ig = ig_delivered ig + of_nat (ig_pending ig))"

lemma length_ig_queue [simp]: "length (ig_queue ig) = ig_pending ig"
  by (simp add: ig_queue_def)

lemma ig_queue_empty_iff: "ig_queue ig = [] \<longleftrightarrow> ig_pending ig = 0"
  by (metis length_0_conv length_ig_queue)

lemma mark_failure_frame [simp]:
  "ig_rows (mark_failure e ig) = ig_rows ig" "ig_head (mark_failure e ig) = ig_head ig"
  "ig_pending (mark_failure e ig) = ig_pending ig" "ig_queue (mark_failure e ig) = ig_queue ig"
  "ig_inv (mark_failure e ig) = ig_inv ig"
  by (simp_all add: mark_failure_def ig_queue_def ig_inv_def)

text \<open>Storing behind the live window appends; clearing the head and moving it on drops one.\<close>

lemma ring_push:
  assumes "head < n" "pending < n" "length rows = n"
  shows "map (\<lambda>i. rows[(head + pending) mod n := x] ! ((head + i) mod n)) [0..<Suc pending] =
    map (\<lambda>i. rows ! ((head + i) mod n)) [0..<pending] @ [x]"
proof -
  have "(head + i) mod n \<noteq> (head + pending) mod n" if "i < pending" for i
  proof
    assume "(head + i) mod n = (head + pending) mod n"
    moreover have "(head + i) mod n = (if head + i < n then head + i else head + i - n)"
      "(head + pending) mod n = (if head + pending < n then head + pending else head + pending - n)"
      using assms that by (simp_all add: mod_if)
    ultimately show False using that assms by (auto split: if_splits)
  qed
  then have "\<forall>i\<in>{0..<pending}. (head + pending) mod n \<noteq> (head + i) mod n" by fastforce
  moreover have "(head + pending) mod n < length rows" using assms by simp
  ultimately show ?thesis by simp
qed

lemma ring_pop:
  assumes "head < n" "0 < pending" "pending \<le> n" "length rows = n"
  shows "map (\<lambda>i. rows ! ((head + i) mod n)) [0..<pending] =
    rows ! head # map (\<lambda>i. rows[head := y] ! (((head + 1) mod n + i) mod n)) [0..<pending - 1]"
proof -
  obtain m where m: "pending = Suc m" using assms(2) by (cases pending) auto
  have "rows[head := y] ! (((head + 1) mod n + i) mod n) = rows ! ((head + Suc i) mod n)" if "i < m" for i
  proof -
    have e: "((head + 1) mod n + i) mod n = (head + Suc i) mod n"
      by (metis Suc_eq_plus1 add.commute add_Suc_right mod_add_left_eq)
    have "(head + Suc i) mod n \<noteq> head"
      using assms that m by (auto simp: mod_if)
    then show ?thesis by (simp only: e nth_list_update_neq)
  qed
  then have "map (\<lambda>i. rows[head := y] ! (((head + 1) mod n + i) mod n)) [0..<m] =
      map (\<lambda>i. rows ! ((head + Suc i) mod n)) [0..<m]" by simp
  then show ?thesis using assms(1)
    by (simp add: m upt_rec [of 0 "Suc m"] map_Suc_upt [symmetric] del: upt_Suc)
qed

section \<open>The invariant\<close>

inductive ingress_step :: "cnet_ingress \<Rightarrow> cnet_ingress \<Rightarrow> bool" where
  state: "ingress_step ig (observe_state c st err ig)"
| receive: "ingress_step ig (observe_receive c view ig)"
| bind: "scxml_cnet_ingress_bind c ig = (st, ig') \<Longrightarrow> ingress_step ig ig'"
| arm: "scxml_cnet_ingress_arm (\<lambda>c ig. (status, ig)) ig = (st, ig') \<Longrightarrow> ingress_step ig ig'"
| send: "scxml_cnet_ingress_drain (\<lambda>s nm md w. (verdict, w)) 1 ig () = (mst, k, ig', w') \<Longrightarrow>
    ingress_step ig ig'"
| close: "scxml_cnet_ingress_close ig = (st, ig') \<Longrightarrow> ingress_step ig ig'"

inductive ingress_reachable :: "cnet_ingress \<Rightarrow> bool" where
  init: "scxml_cnet_ingress_init max_capacity alloc_ok None cfg = (SALTS_OK, Some ig) \<Longrightarrow>
    ingress_reachable ig"
| step: "ingress_reachable ig \<Longrightarrow> ingress_step ig ig' \<Longrightarrow> ingress_reachable ig'"

lemma observe_state_inv: "ig_inv ig \<Longrightarrow> ig_inv (observe_state c st err ig)"
proof -
  assume "ig_inv ig"
  then have "ig_inv (ig\<lparr>ig_connected := False, ig_armed := False, ig_terminal := True\<rparr>)"
    "ig_inv (ig\<lparr>ig_connected := b\<rparr>)" "ig_inv (ig\<lparr>ig_stale_callbacks := n\<rparr>)" for b n
    by (simp_all add: ig_inv_def)
  with \<open>ig_inv ig\<close> show ?thesis by (simp add: observe_state_def Let_def)
qed

lemma observe_receive_inv:
  assumes "ig_inv ig" shows "ig_inv (observe_receive c view ig)"
proof -
  have disarm: "ig_inv (ig\<lparr>ig_armed := False\<rparr>)" "ig_inv (ig\<lparr>ig_stale_callbacks := n\<rparr>)"
    "ig_inv (ig\<lparr>ig_armed := False, ig_rejected_oversize := n\<rparr>)"
    "ig_inv (ig\<lparr>ig_armed := False, ig_rejected_full := n\<rparr>)"
    "ig_closed ig \<Longrightarrow> ig_inv (ig\<lparr>ig_armed := False, ig_cancelled := n\<rparr>)" for n
    using assms by (simp_all add: ig_inv_def)
  have store: "ig_inv (ig\<lparr>ig_armed := False, ig_rows := (ig_rows ig)[i := hex], ig_pending := ig_pending ig + 1,
      ig_received := ig_received ig + 1, ig_peak_pending :=
        (if ig_pending ig + 1 > ig_peak_pending ig then ig_pending ig + 1 else ig_peak_pending ig)\<rparr>)"
    if "\<not> ig_closed ig" "ig_pending ig < ig_capacity ig" "length hex \<le> 2 * ig_max_chunk_bytes ig" for i hex
    using assms that by (auto simp: ig_inv_def dest!: set_update_memD)
  have len: "length (hex_text (vdata v)) \<le> 2 * ig_max_chunk_bytes ig" if "vsize v \<le> ig_max_chunk_bytes ig" for v
    using that by (cases v) simp_all
  show ?thesis
    using assms disarm store len by (auto simp: observe_receive_def Let_def not_less not_le split: option.splits)
qed

lemma ingress_pop_inv:
  assumes "ig_inv ig" "ig_pending ig \<noteq> 0"
  shows "ig_inv (ig\<lparr>ig_rows := (ig_rows ig)[ig_head ig := []], ig_head := (ig_head ig + 1) mod ig_capacity ig,
    ig_pending := ig_pending ig - 1, ig_delivered := ig_delivered ig + 1\<rparr>)"
proof -
  have "(ig_head ig + 1) mod ig_capacity ig < ig_capacity ig"
    using assms(1) by (intro mod_less_divisor) (auto simp: ig_inv_def)
  then show ?thesis
    using assms by (cases "ig_pending ig") (auto simp: ig_inv_def dest!: set_update_memD)
qed

lemma ingress_drain_loop_inv:
  "ig_inv ig \<Longrightarrow> ingress_drain_loop try_send n k ig w = (st, k', ig', w') \<Longrightarrow> ig_inv ig'"
proof (induction n arbitrary: k ig w)
  case 0
  then show ?case by simp
next
  case (Suc n)
  obtain status w1 where t: "try_send (ig_session ig) (ig_event_name ig)
      (chunk_metadata (ig_rows ig ! ig_head ig)) w = (status, w1)" by fastforce
  show ?case
    using Suc.prems Suc.IH [OF ingress_pop_inv [OF Suc.prems(1)]] t by (auto split: if_splits)
qed

lemma ingress_step_inv: "ingress_step ig ig' \<Longrightarrow> ig_inv ig \<Longrightarrow> ig_inv ig'"
proof (induction rule: ingress_step.induct)
  case (arm status ig st ig')
  then show ?case
    by (auto simp: scxml_cnet_ingress_arm_def ig_inv_def split: if_splits)
next
  case (send verdict ig mst k ig' w')
  then show ?case
    by (auto simp: scxml_cnet_ingress_drain_def simp del: ingress_drain_loop.simps
        split: if_splits prod.splits dest: ingress_drain_loop_inv)
next
  case (bind c ig st ig')
  then show ?case by (auto simp: scxml_cnet_ingress_bind_def ig_inv_def split: if_splits)
next
  case (close ig st ig')
  then show ?case by (auto simp: scxml_cnet_ingress_close_def ig_inv_def split: if_splits)
qed (simp_all add: observe_state_inv observe_receive_inv)

lemma ingress_reachable_inv: "ingress_reachable ig \<Longrightarrow> ig_inv ig"
proof (induction rule: ingress_reachable.induct)
  case (init max_capacity alloc_ok cfg ig)
  then show ?case
    by (auto simp: scxml_cnet_ingress_init_def fresh_ingress_def ig_inv_def split: if_splits option.splits)
qed (rule ingress_step_inv)

section \<open>Delivery in order\<close>

text \<open>A Session admission that decides by what it has accepted so far, and logs it.\<close>

type_synonym chunk_event = "session \<times> string \<times> event_metadata"

definition chunk_admission ::
  "(chunk_event list \<Rightarrow> chunk_event \<Rightarrow> cflow_mailbox_status) \<Rightarrow> session \<Rightarrow> string \<Rightarrow> event_metadata
     \<Rightarrow> chunk_event list \<Rightarrow> cflow_mailbox_status \<times> chunk_event list" where
  "chunk_admission admit s name md w =
     (if admit w (s, name, md) = CFLOW_MAILBOX_OK then (CFLOW_MAILBOX_OK, w @ [(s, name, md)])
      else (admit w (s, name, md), w))"

definition chunk_event :: "cnet_ingress \<Rightarrow> string \<Rightarrow> chunk_event" where
  "chunk_event ig hex = (ig_session ig, ig_event_name ig, chunk_metadata hex)"

text \<open>The status a pass reports when its loop is entered with status \<open>st\<close>.\<close>

definition ingress_pass ::
  "(chunk_event list \<Rightarrow> chunk_event \<Rightarrow> cflow_mailbox_status) \<Rightarrow> nat \<Rightarrow> cflow_mailbox_status \<Rightarrow> nat
     \<Rightarrow> cnet_ingress \<Rightarrow> chunk_event list \<Rightarrow> cflow_mailbox_status \<times> nat \<times> cnet_ingress \<times> chunk_event list" where
  "ingress_pass admit n st k ig w =
     (case ingress_drain_loop (chunk_admission admit) n k ig w of (r, k', ig', w') \<Rightarrow>
        (case r of Some status \<Rightarrow> status | None \<Rightarrow> if k' = k then st else CFLOW_MAILBOX_OK, k', ig', w'))"

lemma ingress_drain_loop_count:
  "ingress_drain_loop try_send n k ig w = (st, k', ig', w') \<Longrightarrow> k \<le> k'"
proof (induction n arbitrary: k ig w)
  case (Suc n)
  then show ?case by (fastforce split: if_splits prod.splits)
qed simp

interpretation ingress_fifo: fifo_drain "ingress_pass admit" ig_inv ig_queue "\<lambda>ig hex. True" chunk_event admit
  for admit
proof unfold_locales
  fix n st k ig w x q
  assume inv: "ig_inv ig" and q: "ig_queue ig = x # q"
  define ig1 where "ig1 = ig\<lparr>ig_rows := (ig_rows ig)[ig_head ig := []],
    ig_head := (ig_head ig + 1) mod ig_capacity ig,
    ig_pending := ig_pending ig - 1, ig_delivered := ig_delivered ig + 1\<rparr>"
  have pend: "ig_pending ig \<noteq> 0" using q ig_queue_empty_iff by force
  have pop: "ig_queue ig = ig_rows ig ! ig_head ig # ig_queue ig1"
    using ring_pop [of "ig_head ig" "ig_capacity ig" "ig_pending ig" "ig_rows ig" "[]"] inv pend
    by (simp add: ig_queue_def ig1_def ig_inv_def)
  then have x: "ig_rows ig ! ig_head ig = x" "ig_queue ig1 = q" using q by simp_all
  show "\<exists>s'. ingress_pass admit (Suc n) st k ig w = (admit w (chunk_event ig x), k, s', w) \<and>
      ig_queue s' = ig_queue ig" if "admit w (chunk_event ig x) \<noteq> CFLOW_MAILBOX_OK"
    using that pend x by (simp add: ingress_pass_def chunk_admission_def chunk_event_def)
  have ev: "chunk_event ig1 = chunk_event ig" by (simp add: chunk_event_def ig1_def fun_eq_iff)
  show "\<exists>s'. ingress_pass admit (Suc n) st k ig w =
      ingress_pass admit n CFLOW_MAILBOX_OK (k + 1) s' (w @ [chunk_event ig x]) \<and>
      ig_inv s' \<and> ig_queue s' = q \<and> (\<lambda>hex. True) = (\<lambda>hex. True) \<and> chunk_event s' = chunk_event ig"
    if "admit w (chunk_event ig x) = CFLOW_MAILBOX_OK"
  proof -
    have "ingress_drain_loop (chunk_admission admit) (Suc n) k ig w =
        ingress_drain_loop (chunk_admission admit) n (k + 1) ig1 (w @ [chunk_event ig x])"
      using that pend x(1) by (simp add: chunk_admission_def chunk_event_def ig1_def)
    moreover obtain r k' ig' w' where
      "ingress_drain_loop (chunk_admission admit) n (k + 1) ig1 (w @ [chunk_event ig x]) = (r, k', ig', w')"
      by (cases "ingress_drain_loop (chunk_admission admit) n (k + 1) ig1 (w @ [chunk_event ig x])")
    moreover from this have "k' \<noteq> k" using ingress_drain_loop_count by fastforce
    ultimately have "ingress_pass admit (Suc n) st k ig w =
        ingress_pass admit n CFLOW_MAILBOX_OK (k + 1) ig1 (w @ [chunk_event ig x])"
      by (simp add: ingress_pass_def del: ingress_drain_loop.simps split: option.split)
    with ingress_pop_inv [OF inv pend] x(2) ev show ?thesis by (auto simp: ig1_def)
  qed
qed (simp_all add: ingress_pass_def ig_queue_empty_iff)

section \<open>Properties\<close>

definition demo_conn :: cnet_connection where
  "demo_conn = \<lparr>conn_slot = 3, conn_generation = 1\<rparr>"

definition demo_ingress_cfg :: cnet_ingress_config where
  "demo_ingress_cfg = \<lparr>ic_client = Some 0, ic_session = Some 7, ic_event_name = CBytes ''bytes'',
     ic_capacity = 2, ic_max_chunk_bytes = 4\<rparr>"

definition demo_armed :: cnet_ingress where
  "demo_armed = snd (scxml_cnet_ingress_arm (\<lambda>c ig. (SALTS_OK, ig))
     (observe_state demo_conn CNET_CONNECTION_CONNECTED None
       (snd (scxml_cnet_ingress_bind demo_conn (fresh_ingress 7 demo_ingress_cfg)))))"

definition demo_view :: cnet_receive_view where
  "demo_view = \<lparr>rv_kind = CNET_MESSAGE_BYTES, rv_data = VBytes [0x0a, 0xff]\<rparr>"

lemma demo_armed_reachable: "ingress_reachable demo_armed"
proof -
  have "ingress_reachable (fresh_ingress 7 demo_ingress_cfg)"
    by (rule ingress_reachable.init [of 100 True demo_ingress_cfg])
       (simp add: scxml_cnet_ingress_init_def demo_ingress_cfg_def SCXML_EVENT_METADATA_CAPACITY_def has_nul_def)
  then show ?thesis
    unfolding demo_armed_def
    by (rule ingress_reachable.step [OF ingress_reachable.step [OF ingress_reachable.step
          [OF _ ingress_step.bind [OF pair_split]] ingress_step.state] ingress_step.arm [OF pair_split]])
qed

text \<open>
  Property (C21). The ring buffer of the CNet ingress is a FIFO queue: on any reachable open ingress that
  has not failed, \<^verbatim>\<open>scxml_cnet_ingress_drain\<close> behaves as the list program that offers the
  stored chunks to the Session in order of arrival, at most \<open>max_events\<close> of them, and keeps
  the first refused one and all later ones. Head, count and wrap-around are exact.
\<close>

theorem ingress_drain_refines_queue:
  assumes "ingress_reachable ig" "\<not> ig_closed ig" "\<not> ig_failed ig" "max_events \<noteq> 0"
    and "scxml_cnet_ingress_drain (chunk_admission admit) max_events ig w = (st, n, ig', w')"
  shows "queue_drain (\<lambda>hex. True) (chunk_event ig) admit max_events CFLOW_MAILBOX_EMPTY w (ig_queue ig) =
      (st, w', ig_queue ig') \<and> length w' = length w + n"
proof -
  have "ingress_pass admit max_events CFLOW_MAILBOX_EMPTY 0 ig w = (st, n, ig', w')"
    using assms(2-5) by (auto simp: scxml_cnet_ingress_drain_def ingress_pass_def
        split: prod.splits option.splits if_splits)
  from ingress_fifo.drain_refines [OF ingress_reachable_inv [OF assms(1)] this] show ?thesis by simp
qed

theorem ingress_drain_refines_queue_witness:
  "queue_drain (\<lambda>hex. True) (chunk_event (observe_receive demo_conn (Some demo_view) demo_armed))
     (\<lambda>w d. CFLOW_MAILBOX_OK) 5 CFLOW_MAILBOX_EMPTY []
     (ig_queue (observe_receive demo_conn (Some demo_view) demo_armed)) =
   (CFLOW_MAILBOX_OK, [(7, ''bytes'', chunk_metadata ''0aff'')], [])"
proof -
  let ?ig = "observe_receive demo_conn (Some demo_view) demo_armed"
  let ?run = "scxml_cnet_ingress_drain (chunk_admission (\<lambda>w d. CFLOW_MAILBOX_OK)) 5 ?ig []"
  obtain st n ig' w' where run: "?run = (st, n, ig', w')" by (cases ?run)
  have reach: "ingress_reachable ?ig"
    by (rule ingress_reachable.step [OF demo_armed_reachable ingress_step.receive])
  have "\<not> ig_closed ?ig" "\<not> ig_failed ?ig" by code_simp+
  from ingress_drain_refines_queue [OF reach this _ run]
  have "queue_drain (\<lambda>hex. True) (chunk_event ?ig) (\<lambda>w d. CFLOW_MAILBOX_OK) 5 CFLOW_MAILBOX_EMPTY []
      (ig_queue ?ig) = (st, w', ig_queue ig')" by simp
  moreover have "fst ?run = CFLOW_MAILBOX_OK" "snd (snd (snd ?run)) = [(7, ''bytes'', chunk_metadata ''0aff'')]"
    "ig_queue (fst (snd (snd ?run))) = []" by code_simp+
  ultimately show ?thesis using run by simp
qed

text \<open>
  An armed receive always has room and loses nothing: on any reachable open ingress whose
  connection is armed, a received view of at most \<^verbatim>\<open>max_chunk_bytes\<close> bytes is appended to
  the queue as hexadecimal text that decodes to exactly these bytes and fits an event, the
  ingress is disarmed, and no failure is recorded.
\<close>

theorem ingress_receive_appends:
  assumes "ingress_reachable ig" "ig_armed ig" "\<not> ig_closed ig" "length bs \<le> ig_max_chunk_bytes ig"
  defines "ig' \<equiv> observe_receive (ig_connection ig) (Some \<lparr>rv_kind = CNET_MESSAGE_BYTES, rv_data = VBytes bs\<rparr>) ig"
  shows "ig_queue ig' = ig_queue ig @ [hex_text bs] \<and> unhex (hex_text bs) = bs \<and>
    length (hex_text bs) = 2 * length bs \<and> \<not> ig_armed ig' \<and> ig_failed ig' = ig_failed ig \<and>
    ig_rejected_full ig' = ig_rejected_full ig"
proof -
  have inv: "ig_inv ig" by (rule ingress_reachable_inv [OF assms(1)])
  then have room: "ig_pending ig < ig_capacity ig" "ig_head ig < ig_capacity ig" "ig_bound ig"
    using assms(2) by (auto simp: ig_inv_def)
  have ig': "ig' = ig\<lparr>ig_armed := False,
      ig_rows := (ig_rows ig)[(ig_head ig + ig_pending ig) mod ig_capacity ig := hex_text bs],
      ig_pending := ig_pending ig + 1, ig_received := ig_received ig + 1,
      ig_peak_pending := (if ig_pending ig + 1 > ig_peak_pending ig then ig_pending ig + 1
                          else ig_peak_pending ig)\<rparr>"
    using assms(2-4) room by (simp add: ig'_def observe_receive_def connection_matches_def Let_def)
  have "ig_queue ig' = ig_queue ig @ [hex_text bs]"
    using ring_push [OF room(2,1) refl, of "hex_text bs"] by (simp add: ig_queue_def ig')
  then show ?thesis by (simp add: ig' unhex_hex_text)
qed

theorem ingress_receive_appends_witness:
  "ig_queue (observe_receive demo_conn (Some demo_view) demo_armed) = [''0aff'']"
proof -
  have "ig_armed demo_armed" "\<not> ig_closed demo_armed"
    "length [0x0a, 0xff :: u8] \<le> ig_max_chunk_bytes demo_armed" by code_simp+
  note spec = ingress_receive_appends [OF demo_armed_reachable this]
  have "ig_connection demo_armed = demo_conn" "ig_queue demo_armed = []" "hex_text [0x0a, 0xff] = ''0aff''"
    by code_simp+
  with spec show ?thesis by (simp add: demo_view_def)
qed

text \<open>
  Every chunk of an open ingress is accounted for: in every reachable open state the
  chunks received are those delivered and those still stored, at most as many as the ring
  has rows, and each stored text is at most twice the chunk bound; closing moves exactly the
  stored chunks to the cancelled ones.
\<close>

theorem ingress_accounts_for_chunks:
  assumes "ingress_reachable ig" "\<not> ig_closed ig"
  shows "ig_received ig = ig_delivered ig + of_nat (length (ig_queue ig)) \<and>
    length (ig_queue ig) \<le> ig_capacity ig \<and>
    (\<forall>hex\<in>set (ig_rows ig). length hex \<le> 2 * ig_max_chunk_bytes ig) \<and>
    ig_cancelled (snd (scxml_cnet_ingress_close ig)) = of_nat (length (ig_queue ig)) \<and>
    ig_queue (snd (scxml_cnet_ingress_close ig)) = []"
  using ingress_reachable_inv [OF assms(1)] assms(2)
  by (auto simp: ig_inv_def scxml_cnet_ingress_close_def ig_queue_empty_iff)

theorem ingress_accounts_for_chunks_witness:
  "ig_cancelled (snd (scxml_cnet_ingress_close (observe_receive demo_conn (Some demo_view) demo_armed))) = 1"
proof -
  let ?ig = "observe_receive demo_conn (Some demo_view) demo_armed"
  have reach: "ingress_reachable ?ig"
    by (rule ingress_reachable.step [OF demo_armed_reachable ingress_step.receive])
  have "\<not> ig_closed ?ig" "length (ig_queue ?ig) = 1" by code_simp+
  with ingress_accounts_for_chunks [OF reach] show ?thesis by simp
qed

end
