(* ===== verification/Cnet_Frame_Ingress.thy ===== *)
theory Cnet_Frame_Ingress
  imports Cnet_Ingress Host_Router_Queue
begin

text \<open>
  Model of \<^verbatim>\<open>src/scxml_cnet_frame_ingress.c\<close>: frames with a two-byte big-endian length
  are put together from received chunks and enqueued at the host router as hexadecimal text.

  The copied chunk is kept as the number of consumed bytes and the bytes not read yet:
  \<^verbatim>\<open>chunk_pos\<close> is \<open>fi_chunk_done\<close> and \<^verbatim>\<open>chunk_size\<close> is \<open>fi_chunk_done\<close> plus the length of
  \<open>fi_chunk_rest\<close>. Header and frame buffers are the bytes stored so far.
\<close>

section \<open>State\<close>

record frame_ingress =
  fi_target :: session_ref
  fi_connection :: cnet_connection
  fi_max_receive_bytes :: nat
  fi_max_frame_bytes :: nat
  fi_chunk_done :: nat
  fi_chunk_rest :: "u8 list"
  fi_frame :: "u8 list"
  fi_frame_expected :: nat
  fi_header :: "u8 list"
  fi_event_name :: string
  fi_bound :: bool
  fi_connected :: bool
  fi_armed :: bool
  fi_terminal :: bool
  fi_closed :: bool
  fi_failed :: bool
  fi_first_error :: salts_status
  fi_received_chunks :: u64
  fi_accepted_frames :: u64
  fi_rejected_frames :: u64
  fi_host_full :: u64
  fi_cancelled_bytes :: u64
  fi_stale_callbacks :: u64

definition fi_chunk_size :: "frame_ingress \<Rightarrow> nat" where
  "fi_chunk_size fi = fi_chunk_done fi + length (fi_chunk_rest fi)"

section \<open>Callbacks of the connection\<close>

definition fi_matches :: "frame_ingress \<Rightarrow> cnet_connection \<Rightarrow> bool" where
  "fi_matches fi c \<longleftrightarrow> fi_bound fi \<and> conn_slot (fi_connection fi) = conn_slot c \<and>
     conn_generation (fi_connection fi) = conn_generation c"

definition mark_error :: "salts_status \<Rightarrow> frame_ingress \<Rightarrow> frame_ingress" where
  "mark_error status fi =
     (if \<not> fi_failed fi
      then fi\<lparr>fi_first_error := status, fi_failed := True,
              fi_rejected_frames := fi_rejected_frames fi + 1\<rparr>
      else fi)"

definition on_state ::
  "cnet_connection \<Rightarrow> cnet_connection_state \<Rightarrow> salts_status option \<Rightarrow> frame_ingress \<Rightarrow> frame_ingress" where
  "on_state c state error fi =
     (if \<not> fi_matches fi c then fi\<lparr>fi_stale_callbacks := fi_stale_callbacks fi + 1\<rparr>
      else if state = CNET_CONNECTION_CONNECTED then fi\<lparr>fi_connected := True\<rparr>
      else if state = CNET_CONNECTION_CLOSING then fi\<lparr>fi_connected := False\<rparr>
      else if state = CNET_CONNECTION_CLOSED \<or> state = CNET_CONNECTION_FAILED
      then let fi1 = fi\<lparr>fi_connected := False, fi_terminal := True, fi_armed := False\<rparr> in
           if state = CNET_CONNECTION_FAILED
           then mark_error (case error of None \<Rightarrow> SALTS_EIO
                            | Some st \<Rightarrow> if st \<noteq> SALTS_OK then st else SALTS_EIO) fi1
           else fi1
      else fi)"

definition on_receive ::
  "cnet_connection \<Rightarrow> cnet_receive_view option \<Rightarrow> frame_ingress \<Rightarrow> frame_ingress" where
  "on_receive c view fi =
     (if \<not> fi_matches fi c then fi\<lparr>fi_stale_callbacks := fi_stale_callbacks fi + 1\<rparr>
      else if \<not> fi_armed fi then mark_error SALTS_EPROTO fi
      else
        let fi1 = fi\<lparr>fi_armed := False\<rparr> in
        if fi_closed fi1
        then (case view of None \<Rightarrow> fi1
              | Some v \<Rightarrow> fi1\<lparr>fi_cancelled_bytes := fi_cancelled_bytes fi1 + of_nat (vsize (rv_data v))\<rparr>)
        else case view of
          None \<Rightarrow> mark_error SALTS_EPROTO fi1
        | Some v \<Rightarrow>
            if rv_kind v \<noteq> CNET_MESSAGE_BYTES \<or> vsize (rv_data v) = 0 \<or> is_vnull (rv_data v)
            then mark_error SALTS_EPROTO fi1
            else if vsize (rv_data v) > fi_max_receive_bytes fi1 then mark_error SALTS_EMSGSIZE fi1
            else if fi_chunk_done fi1 \<noteq> fi_chunk_size fi1 \<or> fi_chunk_size fi1 \<noteq> 0
            then mark_error SALTS_EBUSY fi1
            else fi1\<lparr>fi_chunk_rest := vdata (rv_data v), fi_chunk_done := 0,
                     fi_received_chunks := fi_received_chunks fi1 + 1\<rparr>)"

section \<open>Operations of the owner\<close>

record frame_ingress_config =
  fc_client :: "nat option"
  fc_router :: "nat option"
  fc_target :: session_ref
  fc_event_name :: cbytes
  fc_max_frame_bytes :: nat
  fc_max_receive_bytes :: nat

definition fresh_frame_ingress :: "frame_ingress_config \<Rightarrow> frame_ingress" where
  "fresh_frame_ingress cfg =
     \<lparr>fi_target = fc_target cfg, fi_connection = \<lparr>conn_slot = 0, conn_generation = 0\<rparr>,
      fi_max_receive_bytes = fc_max_receive_bytes cfg, fi_max_frame_bytes = fc_max_frame_bytes cfg,
      fi_chunk_done = 0, fi_chunk_rest = [], fi_frame = [], fi_frame_expected = 0, fi_header = [],
      fi_event_name = cdata (fc_event_name cfg), fi_bound = False, fi_connected = False,
      fi_armed = False, fi_terminal = False, fi_closed = False, fi_failed = False,
      fi_first_error = SALTS_OK, fi_received_chunks = 0, fi_accepted_frames = 0,
      fi_rejected_frames = 0, fi_host_full = 0, fi_cancelled_bytes = 0, fi_stale_callbacks = 0\<rparr>"

definition scxml_cnet_frame_ingress_init ::
  "bool \<Rightarrow> frame_ingress option \<Rightarrow> frame_ingress_config \<Rightarrow> salts_status \<times> frame_ingress option" where
  "scxml_cnet_frame_ingress_init alloc_ok handle cfg =
     (if handle \<noteq> None \<or> fc_client cfg = None \<or> fc_router cfg = None \<or>
         ref_generation (fc_target cfg) = 0 \<or> is_cnull (fc_event_name cfg) \<or>
         csize (fc_event_name cfg) = 0 \<or>
         csize (fc_event_name cfg) > SCXML_EVENT_METADATA_CAPACITY \<or>
         has_nul (cdata (fc_event_name cfg)) \<or>
         fc_max_frame_bytes cfg = 0 \<or>
         fc_max_frame_bytes cfg > SCXML_EVENT_METADATA_CAPACITY div 2 \<or>
         fc_max_receive_bytes cfg = 0 \<or> fc_max_receive_bytes cfg > SCXML_EVENT_DATA_CAPACITY
      then (SALTS_EINVAL, handle)
      else if \<not> alloc_ok then (SALTS_ENOMEM, handle)
      else (SALTS_OK, Some (fresh_frame_ingress cfg)))"

definition scxml_cnet_frame_ingress_bind ::
  "cnet_connection \<Rightarrow> frame_ingress \<Rightarrow> salts_status \<times> frame_ingress" where
  "scxml_cnet_frame_ingress_bind c fi =
     (if conn_generation c = 0 then (SALTS_EINVAL, fi)
      else if fi_bound fi \<or> fi_closed fi then (SALTS_EBUSY, fi)
      else (SALTS_OK, fi\<lparr>fi_bound := True, fi_connection := c\<rparr>))"

definition scxml_cnet_frame_ingress_arm ::
  "(cnet_connection \<Rightarrow> frame_ingress \<Rightarrow> salts_status \<times> frame_ingress) \<Rightarrow> frame_ingress
     \<Rightarrow> salts_status \<times> frame_ingress" where
  "scxml_cnet_frame_ingress_arm receive fi =
     (if \<not> fi_bound fi then (SALTS_EINVAL, fi)
      else if fi_closed fi \<or> fi_terminal fi then (SALTS_ESHUTDOWN, fi)
      else if fi_failed fi then (fi_first_error fi, fi)
      else if \<not> fi_connected fi then (SALTS_ENOTCONN, fi)
      else if fi_armed fi then (SALTS_EBUSY, fi)
      else if fi_chunk_size fi \<noteq> 0 \<or>
              (fi_frame_expected fi \<noteq> 0 \<and> length (fi_frame fi) = fi_frame_expected fi)
      then (SALTS_ENOBUFS, fi)
      else case receive (fi_connection fi) (fi\<lparr>fi_armed := True\<rparr>) of (status, fi1) \<Rightarrow>
        (status, if status \<noteq> SALTS_OK then fi1\<lparr>fi_armed := False\<rparr> else fi1))"

text \<open>\<open>enqueue\<close> is the router call, on the router state \<open>'r\<close>; the frame is complete.\<close>

definition publish_frame ::
  "(session_ref \<Rightarrow> string \<Rightarrow> string \<Rightarrow> 'r \<Rightarrow> salts_status \<times> 'r) \<Rightarrow> frame_ingress \<Rightarrow> 'r
     \<Rightarrow> salts_status \<times> frame_ingress \<times> 'r" where
  "publish_frame enqueue fi r =
     (case enqueue (fi_target fi) (fi_event_name fi)
             (hex_text (take (fi_frame_expected fi) (fi_frame fi))) r of (status, r1) \<Rightarrow>
        (status,
         if status = SALTS_OK
         then fi\<lparr>fi_accepted_frames := fi_accepted_frames fi + 1, fi_frame := [], fi_header := [],
                 fi_frame_expected := 0\<rparr>
         else if status = SALTS_ENOBUFS then fi\<lparr>fi_host_full := fi_host_full fi + 1\<rparr>
         else mark_error status fi, r1))"

lemma mark_error_frame [simp]:
  "fi_chunk_rest (mark_error e fi) = fi_chunk_rest fi" "fi_chunk_done (mark_error e fi) = fi_chunk_done fi"
  "fi_header (mark_error e fi) = fi_header fi" "fi_frame (mark_error e fi) = fi_frame fi"
  "fi_frame_expected (mark_error e fi) = fi_frame_expected fi"
  "fi_max_frame_bytes (mark_error e fi) = fi_max_frame_bytes fi"
  "fi_target (mark_error e fi) = fi_target fi" "fi_event_name (mark_error e fi) = fi_event_name fi"
  by (simp_all add: mark_error_def)

lemma publish_frame_rest [simp]:
  "publish_frame enqueue fi r = (st, fi1, r1) \<Longrightarrow> fi_chunk_rest fi1 = fi_chunk_rest fi"
  by (auto simp: publish_frame_def split: prod.splits if_splits)

text \<open>
  The loop: \<open>Some status\<close> when it returns from within, \<open>None\<close> when it is left at the end of
  the chunk or of the frame budget.
\<close>

function frame_loop ::
  "(session_ref \<Rightarrow> string \<Rightarrow> string \<Rightarrow> 'r \<Rightarrow> salts_status \<times> 'r) \<Rightarrow> nat \<Rightarrow> nat \<Rightarrow> frame_ingress \<Rightarrow> 'r
     \<Rightarrow> salts_status option \<times> nat \<times> frame_ingress \<times> 'r" where
  "frame_loop enqueue max_frames accepted fi r =
     (if accepted < max_frames then
        if fi_frame_expected fi \<noteq> 0 \<and> length (fi_frame fi) = fi_frame_expected fi
        then (case publish_frame enqueue fi r of (status, fi1, r1) \<Rightarrow>
                if status \<noteq> SALTS_OK then (Some status, accepted, fi1, r1)
                else frame_loop enqueue max_frames (accepted + 1) fi1 r1)
        else (case fi_chunk_rest fi of
                [] \<Rightarrow> (None, accepted, fi\<lparr>fi_chunk_done := 0\<rparr>, r)
              | b # rest \<Rightarrow>
                  let fi1 = fi\<lparr>fi_chunk_rest := rest, fi_chunk_done := fi_chunk_done fi + 1\<rparr> in
                  if length (fi_header fi) \<noteq> 2
                  then let fi2 = fi1\<lparr>fi_header := fi_header fi1 @ [b]\<rparr> in
                       if length (fi_header fi2) = 2
                       then let fi3 = fi2\<lparr>fi_frame_expected :=
                                  unat (fi_header fi2 ! 0) * 256 + unat (fi_header fi2 ! 1)\<rparr> in
                            if fi_frame_expected fi3 = 0 \<or> fi_frame_expected fi3 > fi_max_frame_bytes fi3
                            then let fi4 = mark_error (if fi_frame_expected fi3 = 0 then SALTS_EPROTO
                                                       else SALTS_EMSGSIZE) fi3
                                 in (Some (fi_first_error fi4), accepted, fi4, r)
                            else frame_loop enqueue max_frames accepted fi3 r
                       else frame_loop enqueue max_frames accepted fi2 r
                  else frame_loop enqueue max_frames accepted
                         (fi1\<lparr>fi_frame := fi_frame fi1 @ [b]\<rparr>) r)
      else (None, accepted, fi, r))"
  by pat_completeness auto
termination
  by (relation "measure (\<lambda>(enqueue, m, accepted, fi, r). (m - accepted) + length (fi_chunk_rest fi))")
     (auto dest: publish_frame_rest [OF sym])

declare frame_loop.simps [simp del]

text \<open>A terminal connection leaves a truncated frame behind.\<close>

definition truncated :: "frame_ingress \<Rightarrow> bool" where
  "truncated fi \<longleftrightarrow> fi_terminal fi \<and> fi_chunk_size fi = 0 \<and>
     ((fi_frame_expected fi = 0 \<and> fi_header fi \<noteq> []) \<or>
      (fi_frame_expected fi \<noteq> 0 \<and> length (fi_frame fi) \<noteq> fi_frame_expected fi))"

definition frame_process ::
  "(session_ref \<Rightarrow> string \<Rightarrow> string \<Rightarrow> 'r \<Rightarrow> salts_status \<times> 'r) \<Rightarrow> nat \<Rightarrow> frame_ingress \<Rightarrow> 'r
     \<Rightarrow> salts_status \<times> nat \<times> frame_ingress \<times> 'r" where
  "frame_process enqueue max_frames fi r =
     (if max_frames = 0 then (SALTS_EINVAL, 0, fi, r)
      else if fi_closed fi then (SALTS_ESHUTDOWN, 0, fi, r)
      else if fi_failed fi then (fi_first_error fi, 0, fi, r)
      else case frame_loop enqueue max_frames 0 fi r of
        (Some status, accepted, fi1, r1) \<Rightarrow> (status, accepted, fi1, r1)
      | (None, accepted, fi1, r1) \<Rightarrow>
          let fi2 = (if fi_chunk_rest fi1 = [] then fi1\<lparr>fi_chunk_done := 0\<rparr> else fi1) in
          if truncated fi2
          then let fi3 = mark_error SALTS_EPROTO fi2 in (fi_first_error fi3, accepted, fi3, r1)
          else (SALTS_OK, accepted, fi2, r1))"

definition scxml_cnet_frame_ingress_process ::
  "clock_ops \<Rightarrow> nat \<Rightarrow> frame_ingress \<Rightarrow> host_router
     \<Rightarrow> salts_status \<times> nat \<times> frame_ingress \<times> host_router" where
  "scxml_cnet_frame_ingress_process clk =
     frame_process (\<lambda>target name body. scxml_host_router_enqueue clk target (CBytes name) (CBytes body))"

definition scxml_cnet_frame_ingress_close :: "frame_ingress \<Rightarrow> salts_status \<times> frame_ingress" where
  "scxml_cnet_frame_ingress_close fi =
     (if fi_closed fi then (SALTS_EALREADY, fi)
      else (SALTS_OK,
        fi\<lparr>fi_closed := True,
           fi_cancelled_bytes := fi_cancelled_bytes fi +
             of_nat (length (fi_chunk_rest fi) + length (fi_frame fi) + length (fi_header fi)),
           fi_chunk_rest := [], fi_chunk_done := 0, fi_frame := [], fi_frame_expected := 0,
           fi_header := []\<rparr>))"

definition scxml_cnet_frame_ingress_is_quiescent :: "frame_ingress \<Rightarrow> bool" where
  "scxml_cnet_frame_ingress_is_quiescent fi \<longleftrightarrow>
     fi_closed fi \<and> \<not> fi_armed fi \<and> (\<not> fi_bound fi \<or> fi_terminal fi)"

definition scxml_cnet_frame_ingress_destroy ::
  "frame_ingress option \<Rightarrow> salts_status \<times> frame_ingress option" where
  "scxml_cnet_frame_ingress_destroy handle =
     (case handle of None \<Rightarrow> (SALTS_OK, None)
      | Some fi \<Rightarrow> if \<not> scxml_cnet_frame_ingress_is_quiescent fi then (SALTS_EBUSY, handle)
                   else (SALTS_OK, None))"

section \<open>The wire format\<close>

definition encode_frame :: "u8 list \<Rightarrow> u8 list" where
  "encode_frame bs = [of_nat (length bs div 256), of_nat (length bs mod 256)] @ bs"

definition header_value :: "u8 list \<Rightarrow> nat" where
  "header_value h = unat (h ! 0) * 256 + unat (h ! 1)"

text \<open>The bytes received and not yet handed to the router.\<close>

definition unsent :: "frame_ingress \<Rightarrow> u8 list" where
  "unsent fi = fi_header fi @ fi_frame fi @ fi_chunk_rest fi"

definition fi_ok :: "frame_ingress \<Rightarrow> bool" where
  "fi_ok fi \<longleftrightarrow> \<not> fi_failed fi \<and> fi_max_frame_bytes fi < 65536 \<and>
     (if length (fi_header fi) = 2
      then fi_frame_expected fi = header_value (fi_header fi) \<and> 0 < fi_frame_expected fi \<and>
        fi_frame_expected fi \<le> fi_max_frame_bytes fi \<and> length (fi_frame fi) \<le> fi_frame_expected fi
      else length (fi_header fi) < 2 \<and> fi_frame fi = [] \<and> fi_frame_expected fi = 0)"

definition frame_complete :: "frame_ingress \<Rightarrow> bool" where
  "frame_complete fi \<longleftrightarrow> fi_frame_expected fi \<noteq> 0 \<and> length (fi_frame fi) = fi_frame_expected fi"

text \<open>A complete header that announces no frame or too large a one.\<close>

definition bad_header :: "frame_ingress \<Rightarrow> bool" where
  "bad_header fi \<longleftrightarrow> length (fi_header fi) = 2 \<and>
     (header_value (fi_header fi) = 0 \<or> fi_max_frame_bytes fi < header_value (fi_header fi))"

lemma chunk_done_frame [simp]:
  "fi_ok (fi\<lparr>fi_chunk_done := n\<rparr>) = fi_ok fi"
  "frame_complete (fi\<lparr>fi_chunk_done := n\<rparr>) = frame_complete fi"
  "unsent (fi\<lparr>fi_chunk_done := n\<rparr>) = unsent fi"
  by (simp_all add: fi_ok_def frame_complete_def unsent_def)

lemma fi_ok_frame [simp]:
  "fi_ok (fi\<lparr>fi_stale_callbacks := n\<rparr>) = fi_ok fi" "fi_ok (fi\<lparr>fi_connected := b\<rparr>) = fi_ok fi"
  "fi_ok (fi\<lparr>fi_terminal := b\<rparr>) = fi_ok fi" "fi_ok (fi\<lparr>fi_armed := b\<rparr>) = fi_ok fi"
  "fi_ok (fi\<lparr>fi_cancelled_bytes := n\<rparr>) = fi_ok fi" "fi_ok (fi\<lparr>fi_bound := b\<rparr>) = fi_ok fi"
  "fi_ok (fi\<lparr>fi_connection := c\<rparr>) = fi_ok fi" "fi_ok (fi\<lparr>fi_chunk_rest := bs\<rparr>) = fi_ok fi"
  "fi_ok (fi\<lparr>fi_received_chunks := n\<rparr>) = fi_ok fi"
  by (simp_all add: fi_ok_def)

lemma header_value_encode: "length bs < 65536 \<Longrightarrow> header_value (encode_frame bs) = length bs"
  by (simp add: header_value_def encode_frame_def unsigned_of_nat take_bit_nat_eq_self)

lemma encode_header: "length h = 2 \<Longrightarrow> header_value h = length bs \<Longrightarrow> encode_frame bs = h @ bs"
proof -
  assume a: "length h = 2" "header_value h = length bs"
  then obtain x y where h: "h = [x, y]" by (auto simp: length_Suc_conv numeral_2_eq_2)
  have "length bs div 256 = unat x" "length bs mod 256 = unat y"
    using a(2) unat_byte [of y] by (simp_all add: h header_value_def flip: a(2))
  then show ?thesis by (simp add: encode_frame_def h)
qed

lemma encode_frame_eq_append:
  assumes "encode_frame p @ xs = encode_frame q @ ys" "length p < 65536" "length q < 65536"
  shows "p = q \<and> xs = ys"
proof -
  have h: "take 2 (encode_frame b @ zs) = take 2 (encode_frame b)" for b zs by (simp add: encode_frame_def)
  have v: "header_value (take 2 (encode_frame b)) = header_value (encode_frame b)" for b
    by (simp add: header_value_def encode_frame_def)
  have "header_value (encode_frame p) = header_value (encode_frame q)"
    using assms(1) h v by metis
  with assms(2,3) have "length p = length q" by (simp add: header_value_encode)
  with assms(1) show ?thesis by (simp add: encode_frame_def)
qed

lemma encoded_prefix:
  assumes "concat (map encode_frame ps) @ rest = concat (map encode_frame qs)"
    and "\<forall>p\<in>set ps. length p < 65536" "\<forall>q\<in>set qs. length q < 65536"
  shows "ps = take (length ps) qs \<and> rest = concat (map encode_frame (drop (length ps) qs))"
  using assms
proof (induction ps arbitrary: qs)
  case Nil
  then show ?case by simp
next
  case (Cons p ps)
  show ?case
  proof (cases qs)
    case Nil
    with Cons.prems show ?thesis by (simp add: encode_frame_def)
  next
    case (Cons q qs')
    with Cons.prems encode_frame_eq_append [of p "concat (map encode_frame ps) @ rest" q] have
      "p = q" "concat (map encode_frame ps) @ rest = concat (map encode_frame qs')" by auto
    with Cons.IH [of qs'] Cons.prems \<open>qs = q # qs'\<close> show ?thesis by simp
  qed
qed

section \<open>What the loop hands to its sink\<close>

lemma frame_loop_stop: "m \<le> a \<Longrightarrow> frame_loop enqueue m a fi r = (None, a, fi, r)"
  by (simp add: frame_loop.simps)

lemma frame_loop_publish:
  assumes "a < m" "frame_complete fi" "publish_frame enqueue fi r = (st, fi1, r1)"
  shows "frame_loop enqueue m a fi r =
    (if st \<noteq> SALTS_OK then (Some st, a, fi1, r1) else frame_loop enqueue m (a + 1) fi1 r1)"
  using assms by (subst frame_loop.simps) (simp add: frame_complete_def)

lemma frame_loop_end:
  assumes "a < m" "\<not> frame_complete fi" "fi_chunk_rest fi = []"
  shows "frame_loop enqueue m a fi r = (None, a, fi\<lparr>fi_chunk_done := 0\<rparr>, r)"
proof -
  have "\<not> (fi_frame_expected fi \<noteq> 0 \<and> length (fi_frame fi) = fi_frame_expected fi)"
    using assms(2) by (simp add: frame_complete_def)
  then show ?thesis using assms(1,3) by (subst frame_loop.simps) (simp only: if_True if_False list.case)
qed

lemma frame_loop_read:
  assumes "a < m" "\<not> frame_complete fi" "fi_chunk_rest fi = b # rest"
  defines "fi1 \<equiv> fi\<lparr>fi_chunk_rest := rest, fi_chunk_done := fi_chunk_done fi + 1\<rparr>"
  defines "fi2 \<equiv> fi1\<lparr>fi_header := fi_header fi @ [b]\<rparr>"
  defines "v \<equiv> header_value (fi_header fi @ [b])"
  shows "frame_loop enqueue m a fi r =
    (if length (fi_header fi) = 2 then frame_loop enqueue m a (fi1\<lparr>fi_frame := fi_frame fi @ [b]\<rparr>) r
     else if length (fi_header fi) + 1 = 2
     then if v = 0 \<or> fi_max_frame_bytes fi < v
          then let fi4 = mark_error (if v = 0 then SALTS_EPROTO else SALTS_EMSGSIZE)
                           (fi2\<lparr>fi_frame_expected := v\<rparr>)
               in (Some (fi_first_error fi4), a, fi4, r)
          else frame_loop enqueue m a (fi2\<lparr>fi_frame_expected := v\<rparr>) r
     else frame_loop enqueue m a fi2 r)"
proof -
  have "\<not> (fi_frame_expected fi \<noteq> 0 \<and> length (fi_frame fi) = fi_frame_expected fi)"
    using assms(2) by (simp add: frame_complete_def)
  then show ?thesis
    using assms(1,3) by (subst frame_loop.simps) (simp only: if_True if_False list.case Let_def fi1_def
        fi2_def v_def header_value_def, simp)
qed

text \<open>
  The contract of the sink: an accepted frame is appended to its log, a refused one leaves
  the log alone.
\<close>

locale frame_sink =
  fixes enqueue :: "session_ref \<Rightarrow> string \<Rightarrow> string \<Rightarrow> 'r \<Rightarrow> salts_status \<times> 'r"
    and good :: "'r \<Rightarrow> bool" and log :: "'r \<Rightarrow> (session_ref \<times> string \<times> string) list"
  assumes accepted: "good r \<Longrightarrow> enqueue t n x r = (SALTS_OK, r') \<Longrightarrow> good r' \<and> log r' = log r @ [(t, n, x)]"
    and refused: "good r \<Longrightarrow> enqueue t n x r = (st, r') \<Longrightarrow> st \<noteq> SALTS_OK \<Longrightarrow> good r' \<and> log r' = log r"
begin

definition handed :: "frame_ingress \<Rightarrow> u8 list list \<Rightarrow> frame_ingress \<Rightarrow> 'r \<Rightarrow> 'r \<Rightarrow> bool" where
  "handed fi ps fi' r r' \<longleftrightarrow> unsent fi = concat (map encode_frame ps) @ unsent fi' \<and>
     (\<forall>p\<in>set ps. p \<noteq> [] \<and> length p \<le> fi_max_frame_bytes fi) \<and> good r' \<and>
     log r' = log r @ map (\<lambda>p. (fi_target fi, fi_event_name fi, hex_text p)) ps \<and>
     fi_max_frame_bytes fi' = fi_max_frame_bytes fi \<and> fi_target fi' = fi_target fi \<and>
     fi_event_name fi' = fi_event_name fi \<and> fi_terminal fi' = fi_terminal fi \<and>
     fi_armed fi' = fi_armed fi \<and> fi_chunk_size fi' \<le> fi_chunk_size fi"

lemma handed_trans:
  "handed fi ps fi1 r r1 \<Longrightarrow> handed fi1 qs fi2 r1 r2 \<Longrightarrow> handed fi (ps @ qs) fi2 r r2"
  by (auto simp: handed_def)

lemma handed_none:
  "good r \<Longrightarrow> unsent fi' = unsent fi \<Longrightarrow> fi_max_frame_bytes fi' = fi_max_frame_bytes fi \<Longrightarrow>
   fi_target fi' = fi_target fi \<Longrightarrow> fi_event_name fi' = fi_event_name fi \<Longrightarrow>
   fi_terminal fi' = fi_terminal fi \<Longrightarrow> fi_armed fi' = fi_armed fi \<Longrightarrow>
   fi_chunk_size fi' \<le> fi_chunk_size fi \<Longrightarrow> handed fi [] fi' r r"
  by (simp add: handed_def)

lemma publish_frame_handed:
  assumes "good r" "fi_ok fi" "frame_complete fi" "publish_frame enqueue fi r = (st, fi1, r1)"
  shows "if st = SALTS_OK then handed fi [fi_frame fi] fi1 r r1 \<and> fi_ok fi1
    else handed fi [] fi1 r r1 \<and> (fi_failed fi1 \<or> fi_ok fi1)"
proof -
  obtain r2 where e: "enqueue (fi_target fi) (fi_event_name fi) (hex_text (fi_frame fi)) r = (st, r2)"
    and fi1: "fi1 = (if st = SALTS_OK
         then fi\<lparr>fi_accepted_frames := fi_accepted_frames fi + 1, fi_frame := [], fi_header := [],
                 fi_frame_expected := 0\<rparr>
         else if st = SALTS_ENOBUFS then fi\<lparr>fi_host_full := fi_host_full fi + 1\<rparr>
         else mark_error st fi)" "r1 = r2"
    using assms(3,4) by (auto simp: publish_frame_def frame_complete_def split: prod.splits)
  have h: "length (fi_header fi) = 2" "header_value (fi_header fi) = length (fi_frame fi)"
    "fi_frame fi \<noteq> []" "length (fi_frame fi) \<le> fi_max_frame_bytes fi"
    using assms(2,3) by (auto simp: fi_ok_def frame_complete_def split: if_splits)
  show ?thesis
  proof (cases "st = SALTS_OK")
    case True
    then show ?thesis
      using accepted [OF assms(1)] e h encode_header [OF h(1,2)] assms(2)
      by (auto simp: handed_def fi1 unsent_def fi_ok_def fi_chunk_size_def)
  next
    case False
    then show ?thesis
      using refused [OF assms(1) e] assms(2)
      by (auto simp: handed_def fi1 unsent_def mark_error_def fi_chunk_size_def fi_ok_def)
  qed
qed

lemma frame_loop_byte:
  assumes "good r" "fi_ok fi" "\<not> frame_complete fi" "fi_chunk_rest fi = b # rest" "a < m"
  shows "(\<exists>fi1. frame_loop enqueue m a fi r = frame_loop enqueue m a fi1 r \<and> fi_ok fi1 \<and>
      handed fi [] fi1 r r \<and> fi_chunk_rest fi1 = rest) \<or>
    (\<exists>e fi1. frame_loop enqueue m a fi r = (Some e, a, fi1, r) \<and> e \<noteq> SALTS_OK \<and> fi_failed fi1 \<and>
      handed fi [] fi1 r r)"
proof -
  let ?fi = "fi\<lparr>fi_chunk_rest := rest, fi_chunk_done := fi_chunk_done fi + 1\<rparr>"
  let ?hd = "?fi\<lparr>fi_header := fi_header fi @ [b]\<rparr>"
  let ?ex = "?hd\<lparr>fi_frame_expected := header_value (fi_header fi @ [b])\<rparr>"
  note loop = frame_loop_read [OF assms(5,3,4), of enqueue r]
  consider (frame) "length (fi_header fi) = 2" | (first) "fi_header fi = []"
    | (second) "length (fi_header fi) = 1"
    using assms(2) by (auto simp: fi_ok_def less_2_cases_iff split: if_splits)
  then show ?thesis
  proof cases
    case frame
    let ?fr = "?fi\<lparr>fi_frame := fi_frame fi @ [b]\<rparr>"
    have "frame_loop enqueue m a fi r = frame_loop enqueue m a ?fr r"
      using loop frame by simp
    moreover have "fi_ok ?fr" using assms(2,3) frame by (auto simp: fi_ok_def frame_complete_def)
    moreover have "handed fi [] ?fr r r" by (rule handed_none) (simp_all add: assms unsent_def fi_chunk_size_def)
    ultimately show ?thesis by (intro disjI1 exI [of _ ?fr]) simp
  next
    case first
    have "frame_loop enqueue m a fi r = frame_loop enqueue m a ?hd r"
      using loop first by simp
    moreover have "fi_ok ?hd" using assms(2) first by (auto simp: fi_ok_def)
    moreover have "handed fi [] ?hd r r"
      using assms(2) first by (intro handed_none) (simp_all add: assms unsent_def fi_ok_def fi_chunk_size_def)
    ultimately show ?thesis by (intro disjI1 exI [of _ ?hd]) simp
  next
    case second
    have empty: "fi_frame fi = []" using assms(2) second by (auto simp: fi_ok_def)
    have h: "handed fi [] ?ex r r" "handed fi [] (mark_error e ?ex) r r" for e
      by (intro handed_none; simp add: assms unsent_def empty mark_error_def fi_chunk_size_def)+
    show ?thesis
    proof (cases "header_value (fi_header fi @ [b]) = 0 \<or>
        fi_max_frame_bytes fi < header_value (fi_header fi @ [b])")
      case True
      then obtain e where "frame_loop enqueue m a fi r = (Some (fi_first_error (mark_error e ?ex)), a,
          mark_error e ?ex, r)" and e: "e \<noteq> SALTS_OK"
        using loop second by (auto simp: Let_def)
      moreover have "fi_first_error (mark_error e ?ex) \<noteq> SALTS_OK" "fi_failed (mark_error e ?ex)"
        using e assms(2) by (auto simp: mark_error_def fi_ok_def)
      ultimately show ?thesis using h by blast
    next
      case False
      have "frame_loop enqueue m a fi r = frame_loop enqueue m a ?ex r"
        using loop second False by simp
      moreover have "fi_ok ?ex" using assms(2) second False empty by (auto simp: fi_ok_def)
      ultimately show ?thesis using h by (intro disjI1 exI [of _ ?ex]) simp
    qed
  qed
qed

lemma frame_loop_handed:
  assumes "good r" "fi_ok fi" "frame_loop enqueue m a fi r = (st, a', fi', r')"
  shows "\<exists>ps. handed fi ps fi' r r' \<and> a' = a + length ps \<and>
    (case st of
       None \<Rightarrow> fi_ok fi' \<and> (m \<le> a' \<or> fi_chunk_rest fi' = [] \<and> \<not> frame_complete fi')
     | Some e \<Rightarrow> e \<noteq> SALTS_OK \<and> (fi_failed fi' \<or> fi_ok fi'))"
  using assms
proof (induction "(m - a) + length (fi_chunk_rest fi)" arbitrary: a fi r rule: less_induct)
  case less
  have self: "handed fi [] fi r r" by (rule handed_none) (simp_all add: less.prems)
  consider (stop) "m \<le> a" | (full) "a < m" "frame_complete fi"
    | (empty) "a < m" "\<not> frame_complete fi" "fi_chunk_rest fi = []"
    | (byte) b rest where "a < m" "\<not> frame_complete fi" "fi_chunk_rest fi = b # rest"
    by (metis neq_Nil_conv not_less)
  then show ?case
  proof cases
    case stop
    with less.prems frame_loop_stop [OF stop, of enqueue fi r] self show ?thesis by auto
  next
    case full
    obtain s fi1 r1 where pub: "publish_frame enqueue fi r = (s, fi1, r1)"
      by (cases "publish_frame enqueue fi r")
    note P = publish_frame_handed [OF less.prems(1,2) full(2) pub]
    show ?thesis
    proof (cases "s = SALTS_OK")
      case True
      then have h: "handed fi [fi_frame fi] fi1 r r1" "fi_ok fi1" "good r1" using P by (auto simp: handed_def)
      have "frame_loop enqueue m (a + 1) fi1 r1 = (st, a', fi', r')"
        using less.prems(3) frame_loop_publish [OF full pub] True by simp
      moreover have "m - (a + 1) + length (fi_chunk_rest fi1) < m - a + length (fi_chunk_rest fi)"
        using full(1) publish_frame_rest [OF pub] by simp
      ultimately obtain ps where
        "handed fi1 ps fi' r1 r'" "a' = a + 1 + length ps"
        "case st of None \<Rightarrow> fi_ok fi' \<and> (m \<le> a' \<or> fi_chunk_rest fi' = [] \<and> \<not> frame_complete fi')
         | Some e \<Rightarrow> e \<noteq> SALTS_OK \<and> (fi_failed fi' \<or> fi_ok fi')" using less.hyps [OF _ h(3,2)] by blast
      with handed_trans [OF h(1)] show ?thesis by (intro exI [of _ "[fi_frame fi] @ ps"]) auto
    next
      case False
      then have "handed fi [] fi1 r r1" "fi_failed fi1 \<or> fi_ok fi1" "(st, a', fi', r') = (Some s, a, fi1, r1)"
        using P less.prems(3) frame_loop_publish [OF full pub] by simp_all
      with False show ?thesis by (intro exI [of _ "[]"]) simp
    qed
  next
    case empty
    then have "fi' = fi\<lparr>fi_chunk_done := 0\<rparr>" "a' = a" "st = None" "r' = r"
      using less.prems(3) frame_loop_end [OF empty, of enqueue r] by auto
    moreover have "handed fi [] (fi\<lparr>fi_chunk_done := 0\<rparr>) r r"
      by (rule handed_none) (simp_all add: less.prems unsent_def fi_chunk_size_def)
    ultimately show ?thesis
      using less.prems(2) empty by (intro exI [of _ "[]"]) simp
  next
    case byte
    from frame_loop_byte [OF less.prems(1,2) byte(2,3,1)] show ?thesis
    proof (elim disjE exE conjE)
      fix fi1
      assume e: "frame_loop enqueue m a fi r = frame_loop enqueue m a fi1 r" and ok: "fi_ok fi1"
        and h: "handed fi [] fi1 r r" and "fi_chunk_rest fi1 = rest"
      then obtain ps where "handed fi1 ps fi' r r'" "a' = a + length ps"
        "case st of None \<Rightarrow> fi_ok fi' \<and> (m \<le> a' \<or> fi_chunk_rest fi' = [] \<and> \<not> frame_complete fi')
         | Some e \<Rightarrow> e \<noteq> SALTS_OK \<and> (fi_failed fi' \<or> fi_ok fi')"
        using less.hyps [of a fi1 r] less.prems byte by auto
      with handed_trans [OF h] show ?thesis by (intro exI [of _ ps]) auto
    next
      fix e fi1
      assume "frame_loop enqueue m a fi r = (Some e, a, fi1, r)" "e \<noteq> SALTS_OK" "fi_failed fi1"
        "handed fi [] fi1 r r"
      with less.prems(3) show ?thesis by (intro exI [of _ "[]"]) auto
    qed
  qed
qed

end

section \<open>The router as the sink\<close>

definition router_enqueue ::
  "clock_ops \<Rightarrow> session_ref \<Rightarrow> string \<Rightarrow> string \<Rightarrow> host_router \<Rightarrow> salts_status \<times> host_router" where
  "router_enqueue clk target name body = scxml_host_router_enqueue clk target (CBytes name) (CBytes body)"

definition router_log :: "host_router \<Rightarrow> (session_ref \<times> string \<times> string) list" where
  "router_log r = map (\<lambda>row. (row_target row, row_name row, row_text row)) (ready_queue r)"

lemma enqueue_ready:
  assumes inv: "router_inv r" and op: "scxml_host_router_enqueue clk t (CBytes n) (CBytes x) r = (SALTS_OK, r')"
  shows "router_log r' = router_log r @ [(t, n, x)]"
proof -
  from op obtain i r1 where res: "reserve_locked t n (CBytes x) r = (Some i, r1)"
    and r': "r' = commit_locked clk i (r1\<lparr>r_prepared := r_prepared r1 + 1\<rparr>)"
    and opn: "\<not> r_closed r" "r_next_sequence r \<noteq> UINT64_MAX" and m: "matches r t"
    by (auto simp: scxml_host_router_enqueue_def split: if_splits prod.splits option.splits)
  let ?r = "r1\<lparr>r_prepared := r_prepared r1 + 1\<rparr>"
  note core = router_invD(1) [OF inv]
  note R = reserve_locked_SomeD [OF core res]
  have "core_inv r1"
    by (rule core_inv_alloc [OF core R(1) _ R(2), where row = "r_rows r1 ! i"])
       (use m R(1,4) in \<open>simp_all add: R(5) same_tables_def matches_live_ref reserved_row_def blank_row_def\<close>)
  moreover have "conserved ?r"
    using router_invD(2) [OF inv] by (simp add: R(5) conserved_def algebra_simps)
  ultimately have inv1: "router_inv ?r" by (simp add: router_inv_def)
  have row: "row_state (r_rows ?r ! i) = ROW_RESERVED" "row_delay_ms (r_rows ?r ! i) = 0"
    "row_target (r_rows ?r ! i) = t" "row_name (r_rows ?r ! i) = n" "row_text (r_rows ?r ! i) = x"
    "i < event_capacity ?r"
    using R(1) by (simp_all add: R(5) blank_row_def)
  have "ready_queue ?r = ready_queue r"
    using R(3) row_queue_outside [of ready_row "r_rows r" i "r_rows r1 ! i" row_sequence] row(1) R(1)
    by (simp add: ready_queue_def R(5) ready_row_def blank_row_def)
  moreover have "ready_queue r' = ready_queue ?r @
      [(r_rows ?r ! i)\<lparr>row_sequence := r_next_sequence ?r + 1, row_state := ROW_READY\<rparr>]"
    unfolding r' by (rule commit_locked_appends [OF inv1]) (use row opn in \<open>simp_all add: R(5)\<close>)
  ultimately show ?thesis using row by (simp add: router_log_def)
qed

lemma enqueue_refused:
  assumes "scxml_host_router_enqueue clk t n x r = (st, r')" "st \<noteq> SALTS_OK"
  shows "r_rows r' = r_rows r"
  using assms
  by (auto simp: scxml_host_router_enqueue_def reserve_locked_def split: if_splits prod.splits option.splits)

interpretation router_sink: frame_sink "router_enqueue clk" router_inv router_log for clk
proof unfold_locales
  fix r t n x r' st
  assume inv: "router_inv r"
  show "router_inv r' \<and> router_log r' = router_log r @ [(t, n, x)]"
    if "router_enqueue clk t n x r = (SALTS_OK, r')"
    using that enqueue_ready [OF inv] enqueue_inv [OF inv] by (simp add: router_enqueue_def)
  show "router_inv r' \<and> router_log r' = router_log r"
    if "router_enqueue clk t n x r = (st, r')" "st \<noteq> SALTS_OK"
    using that enqueue_refused enqueue_inv [OF inv]
    by (auto simp: router_enqueue_def router_log_def ready_queue_def)
qed

section \<open>The invariant\<close>

definition fi_inv :: "frame_ingress \<Rightarrow> bool" where
  "fi_inv fi \<longleftrightarrow> (fi_failed fi \<or> fi_ok fi) \<and> fi_max_frame_bytes fi < 65536 \<and>
     (fi_armed fi \<longrightarrow> fi_chunk_size fi = 0)"

lemma process_unfold:
  "scxml_cnet_frame_ingress_process clk = frame_process (router_enqueue clk)"
  by (simp add: scxml_cnet_frame_ingress_process_def router_enqueue_def [abs_def])

lemma router_handed_fail:
  "router_sink.handed fi ps fi1 r r1 \<Longrightarrow> router_sink.handed fi ps (mark_error e fi1) r r1"
  by (auto simp: router_sink.handed_def unsent_def fi_chunk_size_def mark_error_def)

lemma router_handed_reset:
  "router_sink.handed fi ps fi1 r r1 \<Longrightarrow> router_sink.handed fi ps (fi1\<lparr>fi_chunk_done := 0\<rparr>) r r1"
  by (auto simp: router_sink.handed_def fi_chunk_size_def)

lemma process_handed:
  assumes inv: "router_inv r" "fi_ok fi" "\<not> fi_closed fi" "n \<noteq> 0"
    and op: "scxml_cnet_frame_ingress_process clk n fi r = (st, k, fi', r')"
  shows "\<exists>ps. router_sink.handed fi ps fi' r r' \<and> k = length ps \<and> (fi_failed fi' \<or> fi_ok fi') \<and>
    (st = SALTS_OK \<longrightarrow> fi_ok fi' \<and> (k < n \<longrightarrow> fi_chunk_size fi' = 0 \<and> \<not> frame_complete fi'))"
proof -
  obtain st1 k1 fi1 r1 where loop: "frame_loop (router_enqueue clk) n 0 fi r = (st1, k1, fi1, r1)"
    by (cases "frame_loop (router_enqueue clk) n 0 fi r")
  from router_sink.frame_loop_handed [OF inv(1,2) loop] obtain ps where
    h: "router_sink.handed fi ps fi1 r r1" "k1 = length ps"
    and c: "case st1 of None \<Rightarrow> fi_ok fi1 \<and> (n \<le> k1 \<or> fi_chunk_rest fi1 = [] \<and> \<not> frame_complete fi1)
      | Some e \<Rightarrow> e \<noteq> SALTS_OK \<and> (fi_failed fi1 \<or> fi_ok fi1)" by auto
  have nf: "\<not> fi_failed fi" using inv(2) by (simp add: fi_ok_def)
  show ?thesis
  proof (cases st1)
    case (Some e)
    then have "(st, k, fi', r') = (e, k1, fi1, r1)"
      using op inv(3,4) nf loop by (simp add: process_unfold frame_process_def)
    with h c Some show ?thesis by auto
  next
    case None
    define fi2 where "fi2 = (if fi_chunk_rest fi1 = [] then fi1\<lparr>fi_chunk_done := 0\<rparr> else fi1)"
    have h2: "router_sink.handed fi ps fi2 r r1" "fi_ok fi2" "frame_complete fi2 = frame_complete fi1"
      "fi_chunk_rest fi2 = fi_chunk_rest fi1"
      using h router_handed_reset c None by (auto simp: fi2_def)
    have empty: "fi_chunk_rest fi1 = [] \<Longrightarrow> fi_chunk_size fi2 = 0" by (simp add: fi2_def fi_chunk_size_def)
    show ?thesis
    proof (cases "truncated fi2")
      case True
      then have "st = SALTS_EPROTO" "k = k1" "fi' = mark_error SALTS_EPROTO fi2" "r' = r1"
        using op inv(3,4) nf loop None h2(2)
        by (auto simp: process_unfold frame_process_def Let_def fi2_def mark_error_def fi_ok_def)
      moreover have "fi_failed (mark_error SALTS_EPROTO fi2)" by (simp add: mark_error_def)
      ultimately show ?thesis using h(2) router_handed_fail [OF h2(1)] by (intro exI [of _ ps]) simp
    next
      case False
      then have "(st, k, fi', r') = (SALTS_OK, k1, fi2, r1)"
        using op inv(3,4) nf loop None by (simp add: process_unfold frame_process_def Let_def fi2_def)
      with h(2) h2 c None empty show ?thesis by auto
    qed
  qed
qed

inductive frame_step :: "frame_ingress \<Rightarrow> frame_ingress \<Rightarrow> bool" where
  state: "frame_step fi (on_state c st err fi)"
| receive: "frame_step fi (on_receive c view fi)"
| bind: "scxml_cnet_frame_ingress_bind c fi = (st, fi') \<Longrightarrow> frame_step fi fi'"
| arm: "scxml_cnet_frame_ingress_arm (\<lambda>c fi. (status, fi)) fi = (st, fi') \<Longrightarrow> frame_step fi fi'"
| process: "router_reachable r \<Longrightarrow> scxml_cnet_frame_ingress_process clk n fi r = (st, k, fi', r') \<Longrightarrow>
    frame_step fi fi'"
| close: "scxml_cnet_frame_ingress_close fi = (st, fi') \<Longrightarrow> frame_step fi fi'"

inductive frame_reachable :: "frame_ingress \<Rightarrow> bool" where
  init: "scxml_cnet_frame_ingress_init alloc_ok None cfg = (SALTS_OK, Some fi) \<Longrightarrow> frame_reachable fi"
| step: "frame_reachable fi \<Longrightarrow> frame_step fi fi' \<Longrightarrow> frame_reachable fi'"

lemma fi_inv_mark: "fi_max_frame_bytes fi < 65536 \<Longrightarrow> (fi_armed fi \<longrightarrow> fi_chunk_size fi = 0) \<Longrightarrow>
    fi_inv (mark_error e fi)"
  by (auto simp: fi_inv_def mark_error_def fi_chunk_size_def)

lemma fi_inv_flags:
  assumes "fi_inv fi"
  shows "fi_inv (fi\<lparr>fi_stale_callbacks := n\<rparr>)" "fi_inv (fi\<lparr>fi_connected := b\<rparr>)"
    "fi_inv (fi\<lparr>fi_connected := False, fi_terminal := True, fi_armed := False\<rparr>)"
    "fi_inv (fi\<lparr>fi_armed := False\<rparr>)" "fi_inv (fi\<lparr>fi_armed := False, fi_cancelled_bytes := n\<rparr>)"
    "fi_inv (fi\<lparr>fi_bound := b, fi_connection := c\<rparr>)"
    "fi_chunk_size fi = 0 \<Longrightarrow> fi_inv (fi\<lparr>fi_armed := b\<rparr>)"
    "fi_inv (fi\<lparr>fi_armed := False, fi_chunk_rest := bs, fi_chunk_done := 0, fi_received_chunks := n\<rparr>)"
  using assms by (simp_all add: fi_inv_def fi_chunk_size_def)

lemma fi_inv_mark_flags:
  assumes "fi_inv fi"
  shows "fi_inv (mark_error e fi)" "fi_inv (mark_error e (fi\<lparr>fi_armed := False\<rparr>))"
    "fi_inv (mark_error e (fi\<lparr>fi_connected := False, fi_terminal := True, fi_armed := False\<rparr>))"
proof -
  have "fi_max_frame_bytes fi < 65536" "fi_armed fi \<longrightarrow> fi_chunk_size fi = 0"
    using assms by (simp_all add: fi_inv_def)
  then show "fi_inv (mark_error e fi)" "fi_inv (mark_error e (fi\<lparr>fi_armed := False\<rparr>))"
    "fi_inv (mark_error e (fi\<lparr>fi_connected := False, fi_terminal := True, fi_armed := False\<rparr>))"
    by (simp_all add: fi_inv_mark)
qed

lemma on_state_inv: assumes "fi_inv fi" shows "fi_inv (on_state c st err fi)"
  using assms fi_inv_flags(1-3) [OF assms] fi_inv_mark_flags [OF assms]
  by (simp add: on_state_def Let_def)

lemma on_receive_inv: assumes "fi_inv fi" shows "fi_inv (on_receive c view fi)"
proof (cases view)
  case None
  then show ?thesis
    using fi_inv_flags [OF assms] fi_inv_mark_flags [OF assms] by (simp add: on_receive_def Let_def)
next
  case (Some v)
  then show ?thesis
    using fi_inv_flags [OF assms] fi_inv_mark_flags [OF assms] by (simp add: on_receive_def Let_def)
qed

lemma process_inv:
  assumes "router_inv r" "fi_inv fi" "scxml_cnet_frame_ingress_process clk n fi r = (st, k, fi', r')"
  shows "fi_inv fi'"
proof (cases "n = 0 \<or> fi_closed fi \<or> fi_failed fi")
  case True
  with assms show ?thesis by (auto simp: process_unfold frame_process_def split: if_splits)
next
  case False
  with assms(2) have ok: "fi_ok fi" "\<not> fi_closed fi" "n \<noteq> 0" by (auto simp: fi_inv_def)
  from process_handed [OF assms(1) ok assms(3)] obtain ps where
    h: "router_sink.handed fi ps fi' r r'" and f: "fi_failed fi' \<or> fi_ok fi'" by blast
  from h have "fi_max_frame_bytes fi' = fi_max_frame_bytes fi" "fi_armed fi' = fi_armed fi"
    "fi_chunk_size fi' \<le> fi_chunk_size fi" by (simp_all add: router_sink.handed_def)
  with assms(2) f show ?thesis unfolding fi_inv_def by linarith
qed

lemma frame_step_inv: "frame_step fi fi' \<Longrightarrow> fi_inv fi \<Longrightarrow> fi_inv fi'"
proof (induction rule: frame_step.induct)
  case (bind c fi st fi')
  then show ?case by (auto simp: scxml_cnet_frame_ingress_bind_def fi_inv_flags split: if_splits)
next
  case (arm status fi st fi')
  then show ?case by (auto simp: scxml_cnet_frame_ingress_arm_def fi_inv_flags split: if_splits)
next
  case (process r clk n fi st k fi' r')
  then show ?case using process_inv router_reachable_inv by blast
next
  case (close fi st fi')
  then show ?case
    by (auto simp: scxml_cnet_frame_ingress_close_def fi_inv_def fi_ok_def fi_chunk_size_def split: if_splits)
qed (simp_all add: on_state_inv on_receive_inv)

lemma frame_reachable_inv: "frame_reachable fi \<Longrightarrow> fi_inv fi"
proof (induction rule: frame_reachable.induct)
  case (init alloc_ok cfg fi)
  then show ?case
    by (auto simp: scxml_cnet_frame_ingress_init_def fresh_frame_ingress_def fi_inv_def fi_ok_def
        fi_chunk_size_def SCXML_EVENT_METADATA_CAPACITY_def split: if_splits)
qed (rule frame_step_inv)

section \<open>Properties\<close>

definition demo_frame_cfg :: frame_ingress_config where
  "demo_frame_cfg = \<lparr>fc_client = Some 0, fc_router = Some 0, fc_target = demo_ref,
     fc_event_name = CBytes ''frame'', fc_max_frame_bytes = 4, fc_max_receive_bytes = 16\<rparr>"

definition demo_frame_armed :: frame_ingress where
  "demo_frame_armed = snd (scxml_cnet_frame_ingress_arm (\<lambda>c fi. (SALTS_OK, fi))
     (on_state demo_conn CNET_CONNECTION_CONNECTED None
       (snd (scxml_cnet_frame_ingress_bind demo_conn (fresh_frame_ingress demo_frame_cfg)))))"

text \<open>A frame of two bytes and the header of the next one, received in one chunk.\<close>

definition demo_frame_chunk :: frame_ingress where
  "demo_frame_chunk = on_receive demo_conn
     (Some \<lparr>rv_kind = CNET_MESSAGE_BYTES, rv_data = VBytes [0, 2, 0xab, 0x01, 0]\<rparr>) demo_frame_armed"

lemma demo_frame_armed_reachable: "frame_reachable demo_frame_armed"
proof -
  have "frame_reachable (fresh_frame_ingress demo_frame_cfg)"
    by (rule frame_reachable.init [of True demo_frame_cfg])
       (simp add: scxml_cnet_frame_ingress_init_def demo_frame_cfg_def demo_ref_def has_nul_def
          SCXML_EVENT_METADATA_CAPACITY_def SCXML_EVENT_DATA_CAPACITY_def)
  then show ?thesis
    unfolding demo_frame_armed_def
    by (rule frame_reachable.step [OF frame_reachable.step [OF frame_reachable.step
          [OF _ frame_step.bind [OF pair_split]] frame_step.state] frame_step.arm [OF pair_split]])
qed

lemma demo_frame_chunk_reachable: "frame_reachable demo_frame_chunk"
  unfolding demo_frame_chunk_def by (rule frame_reachable.step [OF demo_frame_armed_reachable frame_step.receive])

text \<open>
  Deframing loses and invents nothing: on any reachable frame ingress that is open and has
  not failed, and any reachable router, \<^verbatim>\<open>scxml_cnet_frame_ingress_process\<close> hands the router
  exactly \<open>k\<close> frames, in order, as hexadecimal text for the configured target and event name;
  the bytes received before the call are the length-prefixed encodings of these frames
  followed by the bytes still held. This holds for every status, also when the router is full
  in the middle of a chunk. With status OK and budget left, nothing decodable is held back.
\<close>

theorem frame_process_conserves_bytes:
  assumes "router_reachable r" "frame_reachable fi" "\<not> fi_closed fi" "\<not> fi_failed fi" "n \<noteq> 0"
    and "scxml_cnet_frame_ingress_process clk n fi r = (st, k, fi', r')"
  shows "\<exists>ps. length ps = k \<and> (\<forall>p\<in>set ps. p \<noteq> [] \<and> length p \<le> fi_max_frame_bytes fi) \<and>
    unsent fi = concat (map encode_frame ps) @ unsent fi' \<and>
    router_log r' = router_log r @ map (\<lambda>p. (fi_target fi, fi_event_name fi, hex_text p)) ps \<and>
    (st = SALTS_OK \<and> k < n \<longrightarrow> fi_chunk_rest fi' = [] \<and> \<not> frame_complete fi')"
proof -
  have "fi_ok fi" using frame_reachable_inv [OF assms(2)] assms(4) by (simp add: fi_inv_def)
  from process_handed [OF router_reachable_inv [OF assms(1)] this assms(3,5,6)] obtain ps where
    "router_sink.handed fi ps fi' r r'" "k = length ps"
    "st = SALTS_OK \<longrightarrow> fi_ok fi' \<and> (k < n \<longrightarrow> fi_chunk_size fi' = 0 \<and> \<not> frame_complete fi')" by blast
  then show ?thesis by (intro exI [of _ ps]) (auto simp: router_sink.handed_def fi_chunk_size_def)
qed

theorem frame_process_conserves_bytes_witness:
  "\<exists>ps. length ps = 1 \<and> [0, 2, 0xab, 0x01, 0] = concat (map encode_frame ps) @ [0]"
proof -
  let ?run = "scxml_cnet_frame_ingress_process (demo_clk 0) 3 demo_frame_chunk demo_attached"
  obtain st k fi' r' where run: "?run = (st, k, fi', r')" by (cases ?run)
  have "\<not> fi_closed demo_frame_chunk" "\<not> fi_failed demo_frame_chunk" by code_simp+
  from frame_process_conserves_bytes [OF demo_attached_reachable demo_frame_chunk_reachable this _ run]
  obtain ps where "length ps = k" "unsent demo_frame_chunk = concat (map encode_frame ps) @ unsent fi'" by auto
  moreover have "unsent demo_frame_chunk = [0, 2, 0xab, 0x01, 0]" by code_simp
  moreover have "unsent (fst (snd (snd ?run))) = [0]" "fst (snd ?run) = 1" by code_simp+
  ultimately show ?thesis using run by (intro exI [of _ ps]) simp
qed

text \<open>
  Property (C4). Round trip over any fragmentation: when the bytes held and those still to come are the
  encodings of the frames a sender sent, each of 1 to \<^verbatim>\<open>max_frame_bytes\<close> bytes, then the frames
  handed to the router are the first \<open>k\<close> of them, the bytes left are the encodings of the
  others, and no header is ever taken for a protocol error.
\<close>

theorem frame_stream_roundtrip:
  assumes "router_reachable r" "frame_reachable fi" "\<not> fi_closed fi" "\<not> fi_failed fi" "n \<noteq> 0"
    and "scxml_cnet_frame_ingress_process clk n fi r = (st, k, fi', r')"
    and stream: "unsent fi @ future = concat (map encode_frame sent)"
    and sent: "\<forall>p\<in>set sent. p \<noteq> [] \<and> length p \<le> fi_max_frame_bytes fi"
  shows "router_log r' = router_log r @ map (\<lambda>p. (fi_target fi, fi_event_name fi, hex_text p)) (take k sent) \<and>
    unsent fi' @ future = concat (map encode_frame (drop k sent)) \<and> \<not> bad_header fi'"
proof -
  have ok: "fi_ok fi" "fi_max_frame_bytes fi < 65536"
    using frame_reachable_inv [OF assms(2)] assms(4) by (auto simp: fi_inv_def)
  from process_handed [OF router_reachable_inv [OF assms(1)] ok(1) assms(3,5,6)] obtain ps where
    h: "router_sink.handed fi ps fi' r r'" "k = length ps" by blast
  have eq: "concat (map encode_frame ps) @ (unsent fi' @ future) = concat (map encode_frame sent)"
    and small: "\<forall>p\<in>set ps. length p < 65536" "\<forall>p\<in>set sent. length p < 65536"
    using h(1) stream sent ok(2) by (auto simp: router_sink.handed_def)
  note D = encoded_prefix [OF eq small]
  have "\<not> bad_header fi'"
  proof
    assume bad: "bad_header fi'"
    then have len: "length (fi_header fi') = 2" by (simp add: bad_header_def)
    have "drop k sent \<noteq> []" using D len by (auto simp: h(2) unsent_def)
    then obtain q qs where q: "drop k sent = q # qs" by (cases "drop k sent") auto
    have "header_value (fi_header fi') = header_value (encode_frame q)"
    proof -
      have "fi_header fi' @ (fi_frame fi' @ fi_chunk_rest fi' @ future) = encode_frame q @ concat (map encode_frame qs)"
        using D q by (simp add: h(2) unsent_def)
      then have "fi_header fi' ! i = encode_frame q ! i" if "i < 2" for i
        using len that by (metis (no_types, lifting) encode_frame_def length_append length_Cons list.size(3)
            nth_append numeral_2_eq_2 trans_less_add1)
      then show ?thesis by (simp add: header_value_def)
    qed
    moreover have "q \<in> set sent" using q by (metis in_set_dropD list.set_intros(1))
    ultimately show False
      using bad sent small(2) h(1) by (auto simp: bad_header_def header_value_encode router_sink.handed_def)
  qed
  moreover have "ps = take k sent" "unsent fi' @ future = concat (map encode_frame (drop k sent))"
    using D h(2) by simp_all
  ultimately show ?thesis using h(1) by (auto simp: router_sink.handed_def)
qed

theorem frame_stream_roundtrip_witness:
  "map (\<lambda>e. snd (snd e)) (router_log (snd (snd (snd (scxml_cnet_frame_ingress_process (demo_clk 0) 3
     demo_frame_chunk demo_attached))))) = [''ab01'']"
proof -
  let ?run = "scxml_cnet_frame_ingress_process (demo_clk 0) 3 demo_frame_chunk demo_attached"
  obtain st k fi' r' where run: "?run = (st, k, fi', r')" by (cases ?run)
  have c: "\<not> fi_closed demo_frame_chunk" "\<not> fi_failed demo_frame_chunk" by code_simp+
  have s: "unsent demo_frame_chunk @ [1, 7] = concat (map encode_frame [[0xab, 0x01], [7]])"
    "\<forall>p\<in>set [[0xab, 0x01], [7]]. p \<noteq> [] \<and> length p \<le> fi_max_frame_bytes demo_frame_chunk" by code_simp+
  from frame_stream_roundtrip [OF demo_attached_reachable demo_frame_chunk_reachable c _ run s]
  have "router_log r' = router_log demo_attached @ map (\<lambda>p. (fi_target demo_frame_chunk,
      fi_event_name demo_frame_chunk, hex_text p)) (take k [[0xab, 0x01], [7]])" by simp
  moreover have "router_log demo_attached = []" "fst (snd ?run) = 1" "hex_text [0xab, 0x01] = ''ab01''"
    by code_simp+
  ultimately show ?thesis using run by simp
qed

text \<open>
  Credit protects received bytes: on any reachable open frame ingress whose receive is
  armed, a view of 1 to \<^verbatim>\<open>max_receive_bytes\<close> bytes is appended to the bytes held, and no
  failure is recorded; the buffer that the callback overwrites is always empty.
\<close>

theorem frame_receive_appends:
  assumes "frame_reachable fi" "fi_armed fi" "\<not> fi_closed fi" "fi_bound fi" "bs \<noteq> []"
    "length bs \<le> fi_max_receive_bytes fi"
  shows "unsent (on_receive (fi_connection fi) (Some \<lparr>rv_kind = CNET_MESSAGE_BYTES, rv_data = VBytes bs\<rparr>) fi) =
      unsent fi @ bs \<and>
    fi_failed (on_receive (fi_connection fi) (Some \<lparr>rv_kind = CNET_MESSAGE_BYTES, rv_data = VBytes bs\<rparr>) fi) =
      fi_failed fi"
proof -
  have "fi_chunk_size fi = 0" using frame_reachable_inv [OF assms(1)] assms(2) by (simp add: fi_inv_def)
  with assms(2-6) show ?thesis
    by (simp add: on_receive_def fi_matches_def Let_def fi_chunk_size_def unsent_def)
qed

theorem frame_receive_appends_witness: "unsent demo_frame_chunk = [0, 2, 0xab, 0x01, 0]"
proof -
  have "fi_armed demo_frame_armed" "\<not> fi_closed demo_frame_armed" "fi_bound demo_frame_armed"
    "[0, 2, 0xab, 0x01, 0 :: u8] \<noteq> []"
    "length [0, 2, 0xab, 0x01, 0 :: u8] \<le> fi_max_receive_bytes demo_frame_armed" by code_simp+
  note spec = frame_receive_appends [OF demo_frame_armed_reachable this]
  have "fi_connection demo_frame_armed = demo_conn" "unsent demo_frame_armed = []" by code_simp+
  with spec show ?thesis by (simp add: demo_frame_chunk_def)
qed

end
