(* ===== verification/Http_Codec.thy ===== *)
theory Http_Codec
  imports Prelude
begin

text \<open>
  Model of \<^verbatim>\<open>src/chttp_event_io_codec.c\<close>: the bodies of the BasicHTTP Event I/O processor.
  A send is encoded as a form (\<^verbatim>\<open>application/x-www-form-urlencoded\<close>) or as text, and a received
  form is decoded into an event name and application entries.

  The validity check of the string library (\<^verbatim>\<open>vstr_utf8_valid\<close>) and the decimal point of the
  C locale, which \<^verbatim>\<open>snprintf\<close> uses, are the fields of the environment. Sizes are natural
  numbers, checked against \<^verbatim>\<open>SIZE_MAX\<close> where the code does so.
\<close>

section \<open>Sizes and characters\<close>

record codec_env =
  env_utf8_valid :: "string \<Rightarrow> bool"
  env_decimal_point :: string

definition SIZE_MAX :: nat where "SIZE_MAX = 2 ^ 64 - 1"

definition checked_add :: "nat \<Rightarrow> nat \<Rightarrow> nat option" where
  "checked_add left right = (if left > SIZE_MAX - right then None else Some (left + right))"

definition scxml_chttp_codec_utf8_valid :: "codec_env \<Rightarrow> cbytes \<Rightarrow> bool" where
  "scxml_chttp_codec_utf8_valid env d =
     (if csize d = 0 then True
      else \<not> is_cnull d \<and> \<not> has_nul (cdata d) \<and> env_utf8_valid env (cdata d))"

definition char_between :: "char \<Rightarrow> char \<Rightarrow> char \<Rightarrow> bool" where
  "char_between lo hi c \<longleftrightarrow> (of_char lo :: nat) \<le> of_char c \<and> (of_char c :: nat) \<le> of_char hi"

definition is_digit :: "char \<Rightarrow> bool" where
  "is_digit c = char_between (CHR ''0'') (CHR ''9'') c"

definition form_unreserved :: "char \<Rightarrow> bool" where
  "form_unreserved c \<longleftrightarrow>
     char_between (CHR ''A'') (CHR ''Z'') c \<or> char_between (CHR ''a'') (CHR ''z'') c \<or>
     char_between (CHR ''0'') (CHR ''9'') c \<or>
     c = CHR ''-'' \<or> c = CHR ''.'' \<or> c = CHR ''_'' \<or> c = CHR ''~''"

section \<open>Encoding one component\<close>

fun form_size_from :: "nat \<Rightarrow> string \<Rightarrow> nat option" where
  "form_size_from required [] = Some required"
| "form_size_from required (c # s) =
     (case checked_add required (if form_unreserved c \<or> c = CHR '' '' then 1 else 3) of
        None \<Rightarrow> None
      | Some required' \<Rightarrow> form_size_from required' s)"

definition form_encoded_size :: "codec_env \<Rightarrow> cbytes \<Rightarrow> nat \<Rightarrow> nat option" where
  "form_encoded_size env d limit =
     (if csize d > limit \<or> \<not> scxml_chttp_codec_utf8_valid env d then None
      else form_size_from 0 (cdata d))"

definition hex_upper :: string where
  "hex_upper = ''0123456789ABCDEF''"

definition form_encode_char :: "char \<Rightarrow> string" where
  "form_encode_char c =
     (if form_unreserved c then [c]
      else if c = CHR '' '' then ''+''
      else [CHR ''%'', hex_upper ! (of_char c div 16), hex_upper ! (of_char c mod 16)])"

definition form_encode :: "string \<Rightarrow> string" where
  "form_encode s = concat (map form_encode_char s)"

section \<open>Text of scalars\<close>

definition digit_char :: "nat \<Rightarrow> char" where
  "digit_char d = char_of (48 + d)"

fun dec_text :: "nat \<Rightarrow> string" where
  "dec_text n = (if n < 10 then [digit_char n] else dec_text (n div 10) @ [digit_char (n mod 10)])"

declare dec_text.simps [simp del]

lemma dec_text_nonempty: "dec_text n \<noteq> []"
  by (subst dec_text.simps) simp

definition int_text :: "int \<Rightarrow> string" where
  "int_text i = (if i < 0 then CHR ''-'' # dec_text (nat (- i)) else dec_text (nat i))"

text \<open>
  \<^verbatim>\<open>isfinite\<close> and \<^verbatim>\<open>snprintf("%.17g")\<close> on an IEEE double in the default rounding mode. The
  value is the fraction \<open>num / den\<close>; it is rounded half to even to 17 significant digits
  with decimal exponent \<open>x\<close>, then written in fixed or exponent style without trailing zeros.
\<close>

definition double_exponent :: "u64 \<Rightarrow> nat" where
  "double_exponent w = (unat w div 2 ^ 52) mod 2 ^ 11"

definition double_fraction :: "u64 \<Rightarrow> nat \<times> nat" where
  "double_fraction w =
     (let e = double_exponent w; f = unat w mod 2 ^ 52;
          m = (if e = 0 then f else f + 2 ^ 52); e' = (if e = 0 then 1 else e)
      in if e' \<ge> 1075 then (m * 2 ^ (e' - 1075), 1) else (m, 2 ^ (1075 - e')))"

definition isfinite :: "u64 \<Rightarrow> bool" where
  "isfinite w = (double_exponent w \<noteq> 2047)"

definition scale10 :: "int \<Rightarrow> nat \<times> nat \<Rightarrow> nat \<times> nat" where
  "scale10 x r = (if x \<ge> 0 then (fst r, snd r * 10 ^ nat x) else (fst r * 10 ^ nat (- x), snd r))"

definition decimal_range :: "int list" where
  "decimal_range = [- 324..308]"

definition decimal_exponent :: "nat \<times> nat \<Rightarrow> int" where
  "decimal_exponent r =
     (case find (\<lambda>x. snd (scale10 x r) \<le> fst (scale10 x r)) (rev decimal_range) of
        None \<Rightarrow> - 324 | Some x \<Rightarrow> x)"

definition round_half_even :: "nat \<times> nat \<Rightarrow> nat" where
  "round_half_even r =
     (let q = fst r div snd r; t = 2 * (fst r mod snd r)
      in if t > snd r \<or> t = snd r \<and> odd q then q + 1 else q)"

definition strip_zeros :: "string \<Rightarrow> string" where
  "strip_zeros s = rev (dropWhile (\<lambda>c. c = CHR ''0'') (rev s))"

record float_text =
  ft_negative :: bool
  ft_integer :: string
  ft_fraction :: string
  ft_exponent :: "int option"

definition float_parts :: "u64 \<Rightarrow> float_text" where
  "float_parts w =
     (let neg = (unat w div 2 ^ 63 = 1); r = double_fraction w in
      if fst r = 0
      then \<lparr>ft_negative = neg, ft_integer = ''0'', ft_fraction = '''', ft_exponent = None\<rparr>
      else
        let x0 = decimal_exponent r; n0 = round_half_even (scale10 (x0 - 16) r);
            carry = (n0 \<ge> 10 ^ 17); x = (if carry then x0 + 1 else x0);
            ds = dec_text (if carry then 10 ^ 16 else n0)
        in if x < - 4 \<or> x \<ge> 17
           then \<lparr>ft_negative = neg, ft_integer = take 1 ds, ft_fraction = strip_zeros (drop 1 ds),
                 ft_exponent = Some x\<rparr>
           else if x \<ge> 0
           then \<lparr>ft_negative = neg, ft_integer = take (nat x + 1) ds,
                 ft_fraction = strip_zeros (drop (nat x + 1) ds), ft_exponent = None\<rparr>
           else \<lparr>ft_negative = neg, ft_integer = ''0'',
                 ft_fraction = strip_zeros (replicate (nat (- x) - 1) (CHR ''0'') @ ds),
                 ft_exponent = None\<rparr>)"

definition exponent_text :: "int \<Rightarrow> string" where
  "exponent_text x =
     CHR ''e'' # (if x < 0 then CHR ''-'' else CHR ''+'') #
     (let ds = dec_text (nat (abs x)) in if length ds < 2 then CHR ''0'' # ds else ds)"

definition float_render :: "string \<Rightarrow> float_text \<Rightarrow> string" where
  "float_render point t =
     (if ft_negative t then ''-'' else '''') @ ft_integer t @
     (if ft_fraction t = [] then [] else point @ ft_fraction t) @
     (case ft_exponent t of None \<Rightarrow> [] | Some x \<Rightarrow> exponent_text x)"

text \<open>\<^verbatim>\<open>canonicalize_float_text\<close>: rewrite the text to use a dot, or fail.\<close>

definition is_sign :: "char \<Rightarrow> bool" where
  "is_sign c \<longleftrightarrow> c = CHR ''+'' \<or> c = CHR ''-''"

definition is_exp :: "char \<Rightarrow> bool" where
  "is_exp c \<longleftrightarrow> c = CHR ''e'' \<or> c = CHR ''E''"

definition take_sign :: "string \<Rightarrow> string \<times> string" where
  "take_sign s = (if s \<noteq> [] \<and> is_sign (hd s) then ([hd s], tl s) else ([], s))"

definition take_digits :: "string \<Rightarrow> (string \<times> string) option" where
  "take_digits s =
     (if s = [] \<or> \<not> is_digit (hd s) then None else Some (takeWhile is_digit s, dropWhile is_digit s))"

definition take_fraction :: "string \<Rightarrow> (string \<times> string) option" where
  "take_fraction s =
     (if s \<noteq> [] \<and> \<not> is_exp (hd s)
      then (case take_digits (dropWhile (\<lambda>c. \<not> is_digit c \<and> \<not> is_exp c) s) of
              None \<Rightarrow> None | Some (ds, rest) \<Rightarrow> Some (CHR ''.'' # ds, rest))
      else Some ([], s))"

definition take_exponent :: "string \<Rightarrow> (string \<times> string) option" where
  "take_exponent s =
     (if s \<noteq> [] \<and> is_exp (hd s)
      then (case take_sign (tl s) of (sg, s1) \<Rightarrow>
            case take_digits s1 of
              None \<Rightarrow> None | Some (ds, rest) \<Rightarrow> Some (CHR ''e'' # sg @ ds, rest))
      else Some ([], s))"

definition canonicalize_float_text :: "string \<Rightarrow> string option" where
  "canonicalize_float_text s =
     (case take_sign s of (sg, s1) \<Rightarrow>
      case take_digits s1 of None \<Rightarrow> None
      | Some (ints, s2) \<Rightarrow>
        case take_fraction s2 of None \<Rightarrow> None
        | Some (frac, s3) \<Rightarrow>
          case take_exponent s3 of None \<Rightarrow> None
          | Some (ex, s4) \<Rightarrow> if s4 \<noteq> [] then None else Some (sg @ ints @ frac @ ex))"

definition bounded_text :: "string \<Rightarrow> string option" where
  "bounded_text s = (if length s \<ge> 64 then None else Some s)"

fun scalar_text :: "codec_env \<Rightarrow> scxml_payload_value \<Rightarrow> cbytes option" where
  "scalar_text env (SCXML_PAYLOAD_VALUE_STRING d) =
     (if scxml_chttp_codec_utf8_valid env d then Some d else None)"
| "scalar_text env (SCXML_PAYLOAD_VALUE_BOOL b) =
     map_option CBytes (bounded_text (if b then ''true'' else ''false''))"
| "scalar_text env (SCXML_PAYLOAD_VALUE_SINT w) = map_option CBytes (bounded_text (int_text (sint w)))"
| "scalar_text env (SCXML_PAYLOAD_VALUE_UINT w) = map_option CBytes (bounded_text (dec_text (unat w)))"
| "scalar_text env (SCXML_PAYLOAD_VALUE_FLOAT w) =
     (if isfinite w
      then (case bounded_text (float_render (env_decimal_point env) (float_parts w)) of
              None \<Rightarrow> None
            | Some s \<Rightarrow> map_option CBytes (canonicalize_float_text s))
      else None)"
| "scalar_text env SCXML_PAYLOAD_VALUE_INVALID = None"

section \<open>Encoding a send\<close>

definition FORM_MEDIA_TYPE :: string where "FORM_MEDIA_TYPE = ''application/x-www-form-urlencoded''"
definition TEXT_MEDIA_TYPE :: string where "TEXT_MEDIA_TYPE = ''text/plain; charset=utf-8''"
definition XML_MEDIA_TYPE :: string where "XML_MEDIA_TYPE = ''application/xml; charset=utf-8''"
definition RESERVED_EVENT_NAME :: string where "RESERVED_EVENT_NAME = ''_scxmleventname''"
definition DEFAULT_EVENT_NAME :: string where "DEFAULT_EVENT_NAME = ''HTTP.POST''"

record codec_limits =
  max_event_name_bytes :: nat
  max_form_entry_count :: nat
  max_form_name_bytes :: nat
  max_form_value_bytes :: nat
  max_encoded_body_bytes :: nat

definition add_form_field_size ::
  "codec_env \<Rightarrow> nat \<Rightarrow> bool \<Rightarrow> cbytes \<Rightarrow> nat \<Rightarrow> cbytes \<Rightarrow> nat \<Rightarrow> nat option" where
  "add_form_field_size env so_far has_prior name name_limit val val_limit =
     (if csize name = 0 then None
      else case form_encoded_size env name name_limit of None \<Rightarrow> None
      | Some encoded_name \<Rightarrow>
        case form_encoded_size env val val_limit of None \<Rightarrow> None
        | Some encoded_value \<Rightarrow>
          case (if has_prior then checked_add so_far 1 else Some so_far) of None \<Rightarrow> None
          | Some r1 \<Rightarrow>
            case checked_add r1 encoded_name of None \<Rightarrow> None
            | Some r2 \<Rightarrow>
              case checked_add r2 1 of None \<Rightarrow> None
              | Some r3 \<Rightarrow> checked_add r3 encoded_value)"

definition write_form_field :: "bool \<Rightarrow> string \<Rightarrow> string \<Rightarrow> string" where
  "write_form_field has_prior name val =
     (if has_prior then ''&'' else '''') @ form_encode name @ ''='' @ form_encode val"

definition is_reserved_name :: "cbytes \<Rightarrow> bool" where
  "is_reserved_name name \<longleftrightarrow>
     \<not> is_cnull name \<and> csize name = length RESERVED_EVENT_NAME \<and> cdata name = RESERVED_EVENT_NAME"

text \<open>The measuring pass over the named entries: bytes, fields and whether the event name is set.\<close>

fun measure_entries ::
  "codec_env \<Rightarrow> codec_limits \<Rightarrow> scxml_payload_entry list \<Rightarrow> nat \<Rightarrow> nat \<Rightarrow> bool \<Rightarrow> (nat \<times> nat) option" where
  "measure_entries env lim [] required field_count has_reserved = Some (required, field_count)"
| "measure_entries env lim (e # es) required field_count has_reserved =
     (let is_reserved = is_reserved_name (en_name e) in
      if is_reserved \<and> has_reserved \<or> cv_kind (en_value e) \<noteq> SCXML_CONTENT_SCALAR then None
      else case scalar_text env (cv_scalar (en_value e)) of None \<Rightarrow> None
      | Some val \<Rightarrow>
        if is_reserved \<and> csize val = 0 then None
        else case add_form_field_size env required (field_count \<noteq> 0) (en_name e)
                    (if is_reserved then length RESERVED_EVENT_NAME else max_form_name_bytes lim) val
                    (if is_reserved then max_event_name_bytes lim else max_form_value_bytes lim) of
               None \<Rightarrow> None
             | Some required' \<Rightarrow>
                 measure_entries env lim es required' (field_count + 1) (has_reserved \<or> is_reserved))"

text \<open>The writing pass.\<close>

fun write_entries :: "codec_env \<Rightarrow> scxml_payload_entry list \<Rightarrow> nat \<Rightarrow> string option" where
  "write_entries env [] field_count = Some []"
| "write_entries env (e # es) field_count =
     (case scalar_text env (cv_scalar (en_value e)) of None \<Rightarrow> None
      | Some val \<Rightarrow>
          map_option ((@) (write_form_field (field_count \<noteq> 0) (cdata (en_name e)) (cdata val)))
            (write_entries env es (field_count + 1)))"

record encoded_body =
  eb_media_type :: string
  eb_body :: string

text \<open>The status, the required size and, when accepted, the media type and the bytes written.\<close>

type_synonym encode_result = "scxml_adapter_status \<times> nat \<times> encoded_body option"

definition encode_content :: "codec_env \<Rightarrow> codec_limits \<Rightarrow> bool \<Rightarrow> nat \<Rightarrow> content_view \<Rightarrow> encode_result" where
  "encode_content env lim body_null body_capacity content =
     (case (if cv_kind content = SCXML_CONTENT_SCALAR
            then map_option (\<lambda>d. (d, TEXT_MEDIA_TYPE)) (scalar_text env (cv_scalar content))
            else if cv_kind content = SCXML_CONTENT_TEXT_UTF8 \<or> cv_kind content = SCXML_CONTENT_XML_UTF8
            then if scxml_chttp_codec_utf8_valid env (cv_bytes content)
                 then Some (cv_bytes content,
                        if cv_kind content = SCXML_CONTENT_XML_UTF8 then XML_MEDIA_TYPE else TEXT_MEDIA_TYPE)
                 else None
            else None) of
        None \<Rightarrow> (SCXML_ADAPTER_ERROR_EXECUTION, 0, None)
      | Some (d, media_type) \<Rightarrow>
          if csize d > max_encoded_body_bytes lim then (SCXML_ADAPTER_ERROR_EXECUTION, csize d, None)
          else if csize d > body_capacity \<or> csize d \<noteq> 0 \<and> body_null
          then (SCXML_ADAPTER_FULL, csize d, None)
          else (SCXML_ADAPTER_ACCEPTED, csize d,
                Some \<lparr>eb_media_type = media_type, eb_body = cdata d\<rparr>))"

text \<open>The field that carries the event name, when the send names an event.\<close>

definition measure_event :: "codec_env \<Rightarrow> codec_limits \<Rightarrow> cbytes \<Rightarrow> (nat \<times> nat) option" where
  "measure_event env lim event =
     (if csize event \<noteq> 0
      then if max_form_entry_count lim = 0 then None
           else map_option (\<lambda>required. (required, 1))
             (add_form_field_size env 0 False (CBytes RESERVED_EVENT_NAME) (length RESERVED_EVENT_NAME)
               event (max_event_name_bytes lim))
      else if \<not> is_cnull event then None else Some (0, 0))"

definition measure_form :: "codec_env \<Rightarrow> codec_limits \<Rightarrow> cbytes \<Rightarrow> scxml_payload_entry carray
    \<Rightarrow> (nat \<times> nat) option" where
  "measure_form env lim event entries =
     (case measure_event env lim event of None \<Rightarrow> None
      | Some (required, field_count) \<Rightarrow>
          if acount entries \<noteq> 0 \<and> is_anull entries \<or>
             acount entries > max_form_entry_count lim - field_count
          then None
          else measure_entries env lim (aitems entries) required field_count (csize event \<noteq> 0))"

definition encode_form :: "codec_env \<Rightarrow> codec_limits \<Rightarrow> bool \<Rightarrow> nat \<Rightarrow> cbytes \<Rightarrow> scxml_payload_entry carray
    \<Rightarrow> encode_result" where
  "encode_form env lim body_null body_capacity event entries =
     (case measure_form env lim event entries of
        None \<Rightarrow> (SCXML_ADAPTER_ERROR_EXECUTION, 0, None)
      | Some (required, field_count) \<Rightarrow>
          if field_count = 0 then (SCXML_ADAPTER_ERROR_EXECUTION, 0, None)
          else if required > max_encoded_body_bytes lim
          then (SCXML_ADAPTER_ERROR_EXECUTION, required, None)
          else if required > body_capacity \<or> required \<noteq> 0 \<and> body_null
          then (SCXML_ADAPTER_FULL, required, None)
          else
            let head = (if csize event \<noteq> 0
                        then write_form_field False RESERVED_EVENT_NAME (cdata event) else '''')
            in case write_entries env (aitems entries) (if csize event \<noteq> 0 then 1 else 0) of
                 None \<Rightarrow> (SCXML_ADAPTER_INVALID_CONTRACT, required, None)
               | Some tail \<Rightarrow>
                   (SCXML_ADAPTER_ACCEPTED, required,
                    Some \<lparr>eb_media_type = FORM_MEDIA_TYPE, eb_body = head @ tail\<rparr>))"

definition scxml_chttp_codec_encode ::
  "codec_env \<Rightarrow> scxml_send_request \<Rightarrow> codec_limits \<Rightarrow> bool \<Rightarrow> nat \<Rightarrow> encode_result" where
  "scxml_chttp_codec_encode env request lim body_null body_capacity =
     (if body_capacity \<noteq> 0 \<and> body_null then (SCXML_ADAPTER_INVALID_CONTRACT, 0, None)
      else case sr_payload request of
        SCXML_PAYLOAD_CONTENT content \<Rightarrow> encode_content env lim body_null body_capacity content
      | SCXML_PAYLOAD_NONE \<Rightarrow>
          encode_form env lim body_null body_capacity (sr_event request) (AItems [])
      | SCXML_PAYLOAD_NAMED entries \<Rightarrow>
          encode_form env lim body_null body_capacity (sr_event request) entries
      | SCXML_PAYLOAD_OTHER k \<Rightarrow> (SCXML_ADAPTER_ERROR_EXECUTION, 0, None))"

section \<open>Decoding a form\<close>

definition hex_value :: "char \<Rightarrow> nat option" where
  "hex_value c =
     (if char_between (CHR ''0'') (CHR ''9'') c then Some (of_char c - of_char (CHR ''0''))
      else if char_between (CHR ''A'') (CHR ''F'') c then Some (of_char c - of_char (CHR ''A'') + 10)
      else if char_between (CHR ''a'') (CHR ''f'') c then Some (of_char c - of_char (CHR ''a'') + 10)
      else None)"

definition hex_pair :: "string \<Rightarrow> char option" where
  "hex_pair s =
     (case s of h # l # rest \<Rightarrow>
        (case (hex_value h, hex_value l) of
           (Some high, Some low) \<Rightarrow> Some (char_of (16 * high + low)) | _ \<Rightarrow> None)
      | _ \<Rightarrow> None)"

text \<open>The loop of \<^verbatim>\<open>decode_component\<close>; a decoded NUL is an error.\<close>

function decode_bytes :: "string \<Rightarrow> string option" where
  "decode_bytes [] = Some []"
| "decode_bytes (c # s) =
     (if c = CHR ''%'' then
        (case hex_pair s of None \<Rightarrow> None
         | Some v \<Rightarrow> if v = CHR 0x00 then None else map_option (Cons v) (decode_bytes (drop 2 s)))
      else let v = (if c = CHR ''+'' then CHR '' '' else c) in
        if v = CHR 0x00 then None else map_option (Cons v) (decode_bytes s))"
  by pat_completeness auto
termination by (relation "measure length") auto

definition decode_component :: "codec_env \<Rightarrow> string \<Rightarrow> string option" where
  "decode_component env s =
     (case decode_bytes s of None \<Rightarrow> None
      | Some d \<Rightarrow> if scxml_chttp_codec_utf8_valid env (CBytes d) then Some d else None)"

datatype decode_status =
    SCXML_CHTTP_DECODE_OK | SCXML_CHTTP_DECODE_BAD_REQUEST | SCXML_CHTTP_DECODE_UNSUPPORTED_MEDIA
  | SCXML_CHTTP_DECODE_LIMIT_EXCEEDED | SCXML_CHTTP_DECODE_FAILED

text \<open>
  The variables of the loop that outlive one field: bytes used of the text storage, fields
  seen, event name (set or not) and the entries stored so far. The text of a component is
  stored at the used offset, so an entry is modelled by its strings.
\<close>

record decode_state =
  dc_text_used :: nat
  dc_total_entries :: nat
  dc_event :: "string option"
  dc_entries :: "(string \<times> string) list"

definition is_amp :: "char \<Rightarrow> bool" where "is_amp c \<longleftrightarrow> c = CHR ''&''"
definition is_equals :: "char \<Rightarrow> bool" where "is_equals c \<longleftrightarrow> c = CHR ''=''"

definition split_field :: "string \<Rightarrow> string \<times> string" where
  "split_field field = (takeWhile (\<lambda>c. \<not> is_equals c) field, drop 1 (dropWhile (\<lambda>c. \<not> is_equals c) field))"

definition store_field :: "codec_limits \<Rightarrow> nat \<Rightarrow> string \<Rightarrow> string \<Rightarrow> decode_state
    \<Rightarrow> decode_status + decode_state" where
  "store_field lim entry_capacity name val st =
     (if name = RESERVED_EVENT_NAME
      then if dc_event st \<noteq> None \<or> val = [] then Inl SCXML_CHTTP_DECODE_BAD_REQUEST
           else if length val > max_event_name_bytes lim then Inl SCXML_CHTTP_DECODE_LIMIT_EXCEEDED
           else Inr (st\<lparr>dc_event := Some val\<rparr>)
      else if length name > max_form_name_bytes lim \<or> length val > max_form_value_bytes lim \<or>
              length (dc_entries st) \<ge> entry_capacity
      then Inl SCXML_CHTTP_DECODE_LIMIT_EXCEEDED
      else Inr (st\<lparr>dc_entries := dc_entries st @ [(name, val)]\<rparr>))"

definition decode_field :: "codec_env \<Rightarrow> codec_limits \<Rightarrow> nat \<Rightarrow> string \<Rightarrow> decode_state
    \<Rightarrow> decode_status + decode_state" where
  "decode_field env lim entry_capacity field st =
     (if field = [] then Inl SCXML_CHTTP_DECODE_BAD_REQUEST
      else let st1 = st\<lparr>dc_total_entries := dc_total_entries st + 1\<rparr> in
      if dc_total_entries st1 > max_form_entry_count lim then Inl SCXML_CHTTP_DECODE_LIMIT_EXCEEDED
      else case decode_component env (fst (split_field field)) of
        None \<Rightarrow> Inl SCXML_CHTTP_DECODE_BAD_REQUEST
      | Some name \<Rightarrow>
          if name = [] then Inl SCXML_CHTTP_DECODE_BAD_REQUEST
          else case decode_component env (snd (split_field field)) of
            None \<Rightarrow> Inl SCXML_CHTTP_DECODE_BAD_REQUEST
          | Some val \<Rightarrow>
              store_field lim entry_capacity name val
                (st1\<lparr>dc_text_used := dc_text_used st1 + length name + length val\<rparr>))"

function decode_fields :: "codec_env \<Rightarrow> codec_limits \<Rightarrow> nat \<Rightarrow> string \<Rightarrow> decode_state
    \<Rightarrow> decode_status + decode_state" where
  "decode_fields env lim entry_capacity source st =
     (if source = [] then Inr st
      else case decode_field env lim entry_capacity (takeWhile (\<lambda>c. \<not> is_amp c) source) st of
        Inl e \<Rightarrow> Inl e
      | Inr st1 \<Rightarrow>
          (case dropWhile (\<lambda>c. \<not> is_amp c) source of
             [] \<Rightarrow> Inr st1
           | amp # rest \<Rightarrow>
               if rest = [] then Inl SCXML_CHTTP_DECODE_BAD_REQUEST
               else decode_fields env lim entry_capacity rest st1))"
  by pat_completeness auto
termination
proof (relation "measure (\<lambda>(env, lim, cap, source, st). length source)", goal_cases)
  case (2 env lim cap source st st1 amp rest)
  then have "length (dropWhile (\<lambda>c. \<not> is_amp c) source) = Suc (length rest)" by simp
  then show ?case using length_dropWhile_le [of "\<lambda>c. \<not> is_amp c" source] by simp
qed simp

declare decode_fields.simps [simp del]

record decoded_form =
  df_event :: string
  df_entries :: "(string \<times> string) list"

definition decode_start :: decode_state where
  "decode_start = \<lparr>dc_text_used = 0, dc_total_entries = 0, dc_event = None, dc_entries = []\<rparr>"

definition scxml_chttp_codec_decode_form ::
  "codec_env \<Rightarrow> cbytes \<Rightarrow> codec_limits \<Rightarrow> nat \<Rightarrow> bool \<Rightarrow> nat \<Rightarrow> bool
     \<Rightarrow> decode_status \<times> nat \<times> decoded_form option" where
  "scxml_chttp_codec_decode_form env body lim entry_capacity entries_null text_capacity text_null =
     (let failed = (\<lambda>status. (status, csize body, None)) in
      if csize body \<noteq> 0 \<and> is_cnull body \<or> entry_capacity \<noteq> 0 \<and> entries_null \<or>
         text_capacity \<noteq> 0 \<and> text_null
      then failed SCXML_CHTTP_DECODE_FAILED
      else if csize body > max_encoded_body_bytes lim \<or> csize body > text_capacity \<or>
              csize body \<noteq> 0 \<and> text_null
      then failed SCXML_CHTTP_DECODE_LIMIT_EXCEEDED
      else case decode_fields env lim entry_capacity (cdata body) decode_start of
        Inl status \<Rightarrow> failed status
      | Inr st \<Rightarrow>
          (SCXML_CHTTP_DECODE_OK, csize body,
           Some \<lparr>df_event = (case dc_event st of None \<Rightarrow> DEFAULT_EVENT_NAME | Some e \<Rightarrow> e),
                 df_entries = dc_entries st\<rparr>))"

end
