(* ===== verification/Http_Codec_Roundtrip.thy ===== *)
theory Http_Codec_Roundtrip
  imports Http_Codec
begin

text \<open>
  The codec loses nothing: a form that the encoder accepts decodes to the fields that were
  sent, the writing pass fills exactly the size the measuring pass computed, a decoded form
  stays within the storage and the configured limits, and the text of a number does not
  depend on the C locale.
\<close>

section \<open>One component\<close>

lemma hex_value_upper: "d < 16 \<Longrightarrow> hex_value (hex_upper ! d) = Some d"
  by (simp add: numeral_eq_Suc less_Suc_eq)
     (elim disjE; simp add: hex_value_def char_between_def hex_upper_def)

lemma hex_upper_mem: "d < 16 \<Longrightarrow> hex_upper ! d \<in> set hex_upper"
  by (rule nth_mem) (simp add: hex_upper_def)

lemma high_nibble: "(of_char c :: nat) div 16 < 16"
  by (rule less_mult_imp_div_less) (simp add: nat_of_char_less_256)

lemma hex_pair_upper: "hex_pair (hex_upper ! (of_char c div 16) # hex_upper ! (of_char c mod 16) # s) = Some c"
  by (simp add: hex_pair_def hex_value_upper high_nibble)

lemma unreserved_plain:
  "form_unreserved c \<Longrightarrow> c \<noteq> CHR ''%'' \<and> c \<noteq> CHR ''+'' \<and> c \<noteq> CHR 0x00 \<and> c \<noteq> CHR ''&'' \<and> c \<noteq> CHR ''=''"
  by (auto simp: form_unreserved_def char_between_def)

lemma decode_encode_char:
  assumes "c \<noteq> CHR 0x00"
  shows "decode_bytes (form_encode_char c @ s) = map_option (Cons c) (decode_bytes s)"
proof (cases "form_unreserved c")
  case True
  from unreserved_plain [OF True] show ?thesis by (simp add: form_encode_char_def True)
next
  case False
  then show ?thesis using assms by (auto simp: form_encode_char_def hex_pair_upper)
qed

lemma decode_encode: "\<not> has_nul s \<Longrightarrow> decode_bytes (form_encode s) = Some s"
  by (induction s) (auto simp: form_encode_def has_nul_def decode_encode_char)

lemma encoded_chars: "x \<in> set (form_encode s) \<Longrightarrow> \<not> is_amp x \<and> \<not> is_equals x"
proof -
  assume "x \<in> set (form_encode s)"
  then obtain c where "x \<in> set (form_encode_char c)" by (auto simp: form_encode_def)
  then have "form_unreserved x \<or> x = CHR ''+'' \<or> x = CHR ''%'' \<or> x \<in> set hex_upper"
    by (auto simp: form_encode_char_def hex_upper_mem high_nibble split: if_splits)
  then show ?thesis
    using unreserved_plain by (auto simp: is_amp_def is_equals_def hex_upper_def)
qed

lemma utf8_valid_size: "scxml_chttp_codec_utf8_valid env d \<Longrightarrow> length (cdata d) = csize d"
  by (cases d) (auto simp: scxml_chttp_codec_utf8_valid_def split: if_splits)

lemma utf8_valid_data:
  "scxml_chttp_codec_utf8_valid env d \<Longrightarrow> scxml_chttp_codec_utf8_valid env (CBytes (cdata d))"
  by (cases d) (auto simp: scxml_chttp_codec_utf8_valid_def)

lemma utf8_valid_no_nul: "scxml_chttp_codec_utf8_valid env (CBytes s) \<Longrightarrow> \<not> has_nul s"
  by (auto simp: scxml_chttp_codec_utf8_valid_def has_nul_def split: if_splits)

lemma decode_component_encode:
  "scxml_chttp_codec_utf8_valid env (CBytes s) \<Longrightarrow> decode_component env (form_encode s) = Some s"
  by (simp add: decode_component_def decode_encode utf8_valid_no_nul)

section \<open>The measuring pass\<close>

lemma checked_add_SomeD: "checked_add a b = Some n \<Longrightarrow> n = a + b"
  by (auto simp: checked_add_def split: if_splits)

lemma form_size_from_length: "form_size_from r s = Some n \<Longrightarrow> n = r + length (form_encode s)"
proof (induction s arbitrary: r)
  case Nil
  then show ?case by (simp add: form_encode_def)
next
  case (Cons c s)
  from Cons.prems obtain r' where r': "checked_add r (if form_unreserved c \<or> c = CHR '' '' then 1 else 3) = Some r'"
    and "form_size_from r' s = Some n" by (auto split: option.splits)
  from Cons.IH [OF this(2)] checked_add_SomeD [OF r'] show ?case
    by (simp add: form_encode_def form_encode_char_def)
qed

lemma form_encoded_size_SomeD:
  "form_encoded_size env d limit = Some n \<Longrightarrow>
     n = length (form_encode (cdata d)) \<and> scxml_chttp_codec_utf8_valid env d \<and> csize d \<le> limit"
  by (auto simp: form_encoded_size_def dest: form_size_from_length split: if_splits)

lemma add_form_field_size_SomeD:
  assumes "add_form_field_size env so_far has_prior name name_limit val val_limit = Some n"
  shows "n = so_far + length (write_form_field has_prior (cdata name) (cdata val)) \<and> csize name \<noteq> 0 \<and>
    scxml_chttp_codec_utf8_valid env name \<and> csize name \<le> name_limit \<and>
    scxml_chttp_codec_utf8_valid env val \<and> csize val \<le> val_limit"
  using assms
  by (auto simp: add_form_field_size_def write_form_field_def
      dest!: form_encoded_size_SomeD checked_add_SomeD split: option.splits if_splits)

section \<open>Forms as lists of fields\<close>

text \<open>The text of one field, of the fields after the first, and of a whole form.\<close>

definition field_text :: "string \<times> string \<Rightarrow> string" where
  "field_text f = form_encode (fst f) @ ''='' @ form_encode (snd f)"

definition form_tail :: "(string \<times> string) list \<Rightarrow> string" where
  "form_tail fs = concat (map (\<lambda>f. ''&'' @ field_text f) fs)"

definition form_text :: "(string \<times> string) list \<Rightarrow> string" where
  "form_text fs = (case fs of [] \<Rightarrow> [] | f # fs' \<Rightarrow> field_text f @ form_tail fs')"

text \<open>The fields of a send: the event name first, then the entries with their texts.\<close>

definition entry_field :: "codec_env \<Rightarrow> scxml_payload_entry \<Rightarrow> string \<times> string" where
  "entry_field env e = (cdata (en_name e),
     case scalar_text env (cv_scalar (en_value e)) of None \<Rightarrow> [] | Some d \<Rightarrow> cdata d)"

fun payload_entries :: "scxml_payload_view \<Rightarrow> scxml_payload_entry list" where
  "payload_entries (SCXML_PAYLOAD_NAMED entries) = aitems entries"
| "payload_entries _ = []"

definition event_fields :: "cbytes \<Rightarrow> (string \<times> string) list" where
  "event_fields event = (if csize event \<noteq> 0 then [(RESERVED_EVENT_NAME, cdata event)] else [])"

definition send_fields :: "codec_env \<Rightarrow> scxml_send_request \<Rightarrow> (string \<times> string) list" where
  "send_fields env req =
     event_fields (sr_event req) @ map (entry_field env) (payload_entries (sr_payload req))"

text \<open>What the encoder has checked of the fields, given whether the event name is already set.\<close>

fun fields_ok :: "codec_env \<Rightarrow> codec_limits \<Rightarrow> bool \<Rightarrow> (string \<times> string) list \<Rightarrow> bool" where
  "fields_ok env lim has [] = True"
| "fields_ok env lim has (f # fs) \<longleftrightarrow>
     fst f \<noteq> [] \<and> scxml_chttp_codec_utf8_valid env (CBytes (fst f)) \<and>
     scxml_chttp_codec_utf8_valid env (CBytes (snd f)) \<and>
     (if fst f = RESERVED_EVENT_NAME
      then \<not> has \<and> snd f \<noteq> [] \<and> length (snd f) \<le> max_event_name_bytes lim
      else length (fst f) \<le> max_form_name_bytes lim \<and> length (snd f) \<le> max_form_value_bytes lim) \<and>
     fields_ok env lim (has \<or> fst f = RESERVED_EVENT_NAME) fs"

lemma write_form_field_text:
  "write_form_field has_prior n v = (if has_prior then ''&'' else '''') @ field_text (n, v)"
  by (simp add: write_form_field_def field_text_def)

definition rest_text :: "nat \<Rightarrow> (string \<times> string) list \<Rightarrow> string" where
  "rest_text k fs = (if k = 0 then form_text fs else form_tail fs)"

lemma rest_text_Cons: "rest_text k (f # fs) = (if k = 0 then '''' else ''&'') @ field_text f @ rest_text (Suc k) fs"
  by (simp add: rest_text_def form_text_def form_tail_def)

lemma rest_text_Nil: "rest_text k [] = []"
  by (simp add: rest_text_def form_text_def form_tail_def)

lemma is_reserved_name_iff:
  "scxml_chttp_codec_utf8_valid env name \<Longrightarrow> is_reserved_name name \<longleftrightarrow> cdata name = RESERVED_EVENT_NAME"
  by (cases name) (auto simp: is_reserved_name_def RESERVED_EVENT_NAME_def)

lemma measure_entries_SomeD:
  assumes "measure_entries env lim es required k has = Some (n, k')"
  shows "n = required + length (rest_text k (map (entry_field env) es)) \<and> k' = k + length es \<and>
    fields_ok env lim has (map (entry_field env) es) \<and>
    write_entries env es k = Some (rest_text k (map (entry_field env) es))"
  using assms
proof (induction es arbitrary: required k has)
  case Nil
  then show ?case by (simp add: rest_text_Nil)
next
  case (Cons e es)
  let ?res = "is_reserved_name (en_name e)"
  from Cons.prems obtain val required' where
    val: "scalar_text env (cv_scalar (en_value e)) = Some val"
    and res: "\<not> (?res \<and> has)" "\<not> (?res \<and> csize val = 0)"
    and add: "add_form_field_size env required (k \<noteq> 0) (en_name e)
      (if ?res then length RESERVED_EVENT_NAME else max_form_name_bytes lim) val
      (if ?res then max_event_name_bytes lim else max_form_value_bytes lim) = Some required'"
    and rest: "measure_entries env lim es required' (k + 1) (has \<or> ?res) = Some (n, k')"
    by (auto simp: Let_def split: if_splits option.splits)
  note A = add_form_field_size_SomeD [OF add]
  have name: "?res \<longleftrightarrow> cdata (en_name e) = RESERVED_EVENT_NAME" using A is_reserved_name_iff by blast
  have sizes: "length (cdata (en_name e)) = csize (en_name e)" "length (cdata val) = csize val"
    using A utf8_valid_size by blast+
  have field: "entry_field env e = (cdata (en_name e), cdata val)"
    by (simp add: entry_field_def val)
  have valid: "scxml_chttp_codec_utf8_valid env (CBytes (cdata (en_name e)))"
    "scxml_chttp_codec_utf8_valid env (CBytes (cdata val))"
    using A utf8_valid_data by blast+
  have limits: "if cdata (en_name e) = RESERVED_EVENT_NAME
      then \<not> has \<and> cdata val \<noteq> [] \<and> length (cdata val) \<le> max_event_name_bytes lim
      else length (cdata (en_name e)) \<le> max_form_name_bytes lim \<and>
        length (cdata val) \<le> max_form_value_bytes lim"
    using A res name sizes by (auto split: if_splits)
  have "cdata (en_name e) \<noteq> []" using A sizes by auto
  with valid limits field name Cons.IH [OF rest]
  have "fields_ok env lim has (map (entry_field env) (e # es))" by simp
  then show ?case
    using field Cons.IH [OF rest] A val
    by (cases "k = 0") (simp_all add: rest_text_Cons write_form_field_text split: if_splits)
qed

section \<open>The decoding pass\<close>

lemma takeWhile_field:
  "takeWhile (\<lambda>c. \<not> is_amp c) (field_text f @ form_tail fs) = field_text f"
  "dropWhile (\<lambda>c. \<not> is_amp c) (field_text f @ form_tail fs) = form_tail fs"
proof -
  have chars: "\<And>x. x \<in> set (field_text f) \<Longrightarrow> \<not> is_amp x"
    using encoded_chars by (auto simp: field_text_def is_amp_def)
  have tail: "takeWhile (\<lambda>c. \<not> is_amp c) (form_tail fs) = []"
    "dropWhile (\<lambda>c. \<not> is_amp c) (form_tail fs) = form_tail fs"
    by (cases fs; simp add: form_tail_def is_amp_def)+
  from chars tail show "takeWhile (\<lambda>c. \<not> is_amp c) (field_text f @ form_tail fs) = field_text f"
    "dropWhile (\<lambda>c. \<not> is_amp c) (field_text f @ form_tail fs) = form_tail fs"
    by (simp_all add: takeWhile_append2 dropWhile_append2)
qed

lemma split_field_text: "split_field (field_text f) = (form_encode (fst f), form_encode (snd f))"
proof -
  have "\<And>x. x \<in> set (form_encode (fst f)) \<Longrightarrow> \<not> is_equals x" using encoded_chars by blast
  then show ?thesis
    by (simp add: split_field_def field_text_def takeWhile_append2 dropWhile_append2 is_equals_def)
qed

lemma field_text_nonempty: "field_text f \<noteq> []"
  by (simp add: field_text_def)

lemma decode_field_text:
  assumes "fst f \<noteq> []" "scxml_chttp_codec_utf8_valid env (CBytes (fst f))"
    "scxml_chttp_codec_utf8_valid env (CBytes (snd f))" "dc_total_entries st < max_form_entry_count lim"
  shows "decode_field env lim cap (field_text f) st =
    store_field lim cap (fst f) (snd f)
      (st\<lparr>dc_total_entries := dc_total_entries st + 1,
          dc_text_used := dc_text_used st + length (fst f) + length (snd f)\<rparr>)"
  using assms
  by (simp add: decode_field_def split_field_text decode_component_encode field_text_nonempty)

text \<open>The application entries of a list of fields.\<close>

definition application_fields :: "(string \<times> string) list \<Rightarrow> (string \<times> string) list" where
  "application_fields fs = filter (\<lambda>f. fst f \<noteq> RESERVED_EVENT_NAME) fs"

lemma decode_fields_step:
  assumes "decode_field env lim cap (field_text f) st = Inr st1"
  shows "decode_fields env lim cap (form_text (f # fs)) st = decode_fields env lim cap (form_text fs) st1"
proof -
  have "decode_fields env lim cap (form_text (f # fs)) st =
      (case form_tail fs of [] \<Rightarrow> Inr st1
       | amp # rest \<Rightarrow> if rest = [] then Inl SCXML_CHTTP_DECODE_BAD_REQUEST
           else decode_fields env lim cap rest st1)"
    by (subst decode_fields.simps)
       (simp only: assms form_text_def list.case takeWhile_field sum.case append_is_Nil_conv
         field_text_nonempty simp_thms if_False)
  also have "\<dots> = decode_fields env lim cap (form_text fs) st1"
  proof (cases fs)
    case Nil
    then show ?thesis by (simp add: form_tail_def form_text_def decode_fields.simps)
  next
    case (Cons g gs)
    then show ?thesis by (simp add: form_tail_def form_text_def field_text_nonempty)
  qed
  finally show ?thesis .
qed

lemma decode_fields_form:
  assumes "fields_ok env lim (dc_event st \<noteq> None) fs"
    "dc_total_entries st + length fs \<le> max_form_entry_count lim"
    "length (dc_entries st) + length (application_fields fs) \<le> cap"
  shows "\<exists>st'. decode_fields env lim cap (form_text fs) st = Inr st' \<and>
    dc_entries st' = dc_entries st @ application_fields fs \<and>
    dc_event st' = (case dc_event st of None \<Rightarrow> map_of fs RESERVED_EVENT_NAME | Some e \<Rightarrow> Some e)"
  using assms
proof (induction fs arbitrary: st)
  case Nil
  then show ?case
    by (auto simp: form_text_def application_fields_def decode_fields.simps split: option.splits)
next
  case (Cons f fs)
  let ?st = "st\<lparr>dc_total_entries := dc_total_entries st + 1,
     dc_text_used := dc_text_used st + length (fst f) + length (snd f)\<rparr>"
  let ?st1 = "if fst f = RESERVED_EVENT_NAME then ?st\<lparr>dc_event := Some (snd f)\<rparr>
     else ?st\<lparr>dc_entries := dc_entries ?st @ [f]\<rparr>"
  have "decode_field env lim cap (field_text f) st = store_field lim cap (fst f) (snd f) ?st"
    using Cons.prems by (intro decode_field_text) auto
  also have "\<dots> = Inr ?st1"
    using Cons.prems by (auto simp: store_field_def application_fields_def split: if_splits)
  finally have step: "decode_field env lim cap (field_text f) st = Inr ?st1" .
  have "\<exists>st'. decode_fields env lim cap (form_text fs) ?st1 = Inr st' \<and>
    dc_entries st' = dc_entries ?st1 @ application_fields fs \<and>
    dc_event st' = (case dc_event ?st1 of None \<Rightarrow> map_of fs RESERVED_EVENT_NAME | Some e \<Rightarrow> Some e)"
    using Cons.prems by (intro Cons.IH) (auto simp: application_fields_def split: if_splits)
  then show ?case
    using Cons.prems decode_fields_step [OF step]
    by (cases f) (auto simp: application_fields_def split: if_splits option.splits)
qed

section \<open>Whole sends\<close>

lemma measure_event_SomeD:
  assumes "measure_event env lim event = Some (required, k)"
  shows "k = length (event_fields event) \<and> required = length (form_text (event_fields event)) \<and>
    fields_ok env lim False (event_fields event) \<and> k \<le> max_form_entry_count lim"
proof (cases "csize event = 0")
  case True
  with assms show ?thesis
    by (auto simp: measure_event_def event_fields_def form_text_def split: if_splits)
next
  case False
  with assms have k: "k = 1" "max_form_entry_count lim \<noteq> 0"
    and add: "add_form_field_size env 0 False (CBytes RESERVED_EVENT_NAME) (length RESERVED_EVENT_NAME)
      event (max_event_name_bytes lim) = Some required"
    by (auto simp: measure_event_def split: if_splits)
  note A = add_form_field_size_SomeD [OF add]
  have "length (cdata event) = csize event" using A utf8_valid_size by blast
  then show ?thesis
    using A k False utf8_valid_data [of env event]
    by (auto simp: event_fields_def form_text_def form_tail_def write_form_field_text
        RESERVED_EVENT_NAME_def)
qed

lemma form_text_append:
  "length (event_fields event) = k \<Longrightarrow>
     form_text (event_fields event @ fs) = form_text (event_fields event) @ rest_text k fs"
  by (auto simp: event_fields_def form_text_def rest_text_def form_tail_def)

lemma fields_ok_append:
  "fields_ok env lim has (event_fields event @ fs) \<longleftrightarrow>
     fields_ok env lim has (event_fields event) \<and> fields_ok env lim (has \<or> csize event \<noteq> 0) fs"
  by (auto simp: event_fields_def)

lemma measure_form_SomeD:
  assumes "measure_form env lim event entries = Some (n, k)"
  defines "fs \<equiv> event_fields event @ map (entry_field env) (aitems entries)"
  shows "n = length (form_text fs) \<and> k = length fs \<and> k \<le> max_form_entry_count lim \<and>
    fields_ok env lim False fs \<and>
    (\<exists>tail. write_entries env (aitems entries) (if csize event \<noteq> 0 then 1 else 0) = Some tail \<and>
       form_text fs = form_text (event_fields event) @ tail)"
proof -
  from assms(1) obtain required j where ev: "measure_event env lim event = Some (required, j)"
    and guard: "\<not> (acount entries \<noteq> 0 \<and> is_anull entries)" "acount entries \<le> max_form_entry_count lim - j"
    and me: "measure_entries env lim (aitems entries) required j (csize event \<noteq> 0) = Some (n, k)"
    by (auto simp: measure_form_def split: option.splits if_splits)
  note E = measure_event_SomeD [OF ev] and M = measure_entries_SomeD [OF me]
  have j: "j = (if csize event \<noteq> 0 then 1 else 0)" using E by (simp add: event_fields_def)
  have "length (aitems entries) = acount entries" using guard(1) by (cases entries) auto
  then have "k \<le> max_form_entry_count lim" using E M guard(2) by linarith
  moreover have "form_text fs = form_text (event_fields event) @ rest_text j (map (entry_field env) (aitems entries))"
    unfolding fs_def using E by (intro form_text_append) simp
  moreover have "fields_ok env lim False fs" unfolding fs_def fields_ok_append using E M by simp
  ultimately show ?thesis using E M j fs_def by auto
qed

lemma encode_form_accepted:
  assumes "encode_form env lim body_null cap event entries = (SCXML_ADAPTER_ACCEPTED, n, out)"
  defines "fs \<equiv> event_fields event @ map (entry_field env) (aitems entries)"
  shows "out = Some \<lparr>eb_media_type = FORM_MEDIA_TYPE, eb_body = form_text fs\<rparr> \<and> n = length (form_text fs) \<and>
    n \<le> max_encoded_body_bytes lim \<and> n \<le> cap \<and> length fs \<le> max_form_entry_count lim \<and>
    fields_ok env lim False fs"
proof -
  from assms(1) obtain k where m: "measure_form env lim event entries = Some (n, k)"
    and bounds: "n \<le> max_encoded_body_bytes lim" "n \<le> cap"
    by (auto simp: encode_form_def Let_def split: option.splits if_splits)
  note M = measure_form_SomeD [OF m, folded fs_def]
  have "form_text (event_fields event) =
      (if csize event \<noteq> 0 then write_form_field False RESERVED_EVENT_NAME (cdata event) else '''')"
    by (simp add: event_fields_def form_text_def form_tail_def write_form_field_text)
  with assms(1) m M bounds show ?thesis
    by (auto simp: encode_form_def Let_def split: if_splits)
qed

lemma encode_content_accepted:
  assumes "encode_content env lim body_null cap content = (SCXML_ADAPTER_ACCEPTED, n, out)"
  shows "\<exists>eb. out = Some eb \<and> length (eb_body eb) = n \<and> n \<le> max_encoded_body_bytes lim \<and> n \<le> cap \<and>
    eb_media_type eb \<noteq> FORM_MEDIA_TYPE"
proof -
  have size: "scalar_text env v = Some d \<Longrightarrow> length (cdata d) = csize d" for v d
    by (cases v) (auto simp: utf8_valid_size split: if_splits option.splits)
  show ?thesis using assms size
    by (auto simp: encode_content_def utf8_valid_size FORM_MEDIA_TYPE_def TEXT_MEDIA_TYPE_def
        XML_MEDIA_TYPE_def split: option.splits if_splits)
qed

section \<open>Properties\<close>

text \<open>
  Property (C5). Round trip: when \<^verbatim>\<open>scxml_chttp_codec_encode\<close> accepts a send as a form,
  \<^verbatim>\<open>scxml_chttp_codec_decode_form\<close> with the same limits, room for the application entries and
  text storage for the body returns OK with exactly the application entries that were sent,
  in order and with duplicates, and the event name that was sent (\<^verbatim>\<open>HTTP.POST\<close> if there was none).
\<close>

theorem form_roundtrip:
  assumes "scxml_chttp_codec_encode env req lim body_null cap = (SCXML_ADAPTER_ACCEPTED, n, Some eb)"
    and "eb_media_type eb = FORM_MEDIA_TYPE"
    and "length (application_fields (send_fields env req)) \<le> entry_capacity" "n \<le> text_capacity"
  shows "scxml_chttp_codec_decode_form env (CBytes (eb_body eb)) lim entry_capacity False text_capacity False =
    (SCXML_CHTTP_DECODE_OK, n, Some
       \<lparr>df_event = (case map_of (send_fields env req) RESERVED_EVENT_NAME of
                      None \<Rightarrow> DEFAULT_EVENT_NAME | Some e \<Rightarrow> e),
        df_entries = application_fields (send_fields env req)\<rparr>)"
proof -
  let ?fs = "send_fields env req"
  obtain entries where enc: "encode_form env lim body_null cap (sr_event req) entries =
      (SCXML_ADAPTER_ACCEPTED, n, Some eb)" "payload_entries (sr_payload req) = aitems entries"
    using assms(1,2) encode_content_accepted
    by (fastforce simp: scxml_chttp_codec_encode_def split: if_splits scxml_payload_view.splits)
  have F: "?fs = event_fields (sr_event req) @ map (entry_field env) (aitems entries)"
    by (simp add: send_fields_def enc(2))
  note A = encode_form_accepted [OF enc(1), folded F]
  obtain st where "decode_fields env lim entry_capacity (form_text ?fs) decode_start = Inr st"
    "dc_entries st = application_fields ?fs" "dc_event st = map_of ?fs RESERVED_EVENT_NAME"
    using decode_fields_form [of env lim decode_start ?fs entry_capacity] A assms(3)
    by (auto simp: decode_start_def)
  with A assms(4) show ?thesis
    by (auto simp: scxml_chttp_codec_decode_form_def Let_def)
qed

definition demo_env :: codec_env where
  "demo_env = \<lparr>env_utf8_valid = (\<lambda>s. True), env_decimal_point = '',''\<rparr>"

definition demo_limits :: codec_limits where
  "demo_limits = \<lparr>max_event_name_bytes = 16, max_form_entry_count = 4, max_form_name_bytes = 16,
     max_form_value_bytes = 16, max_encoded_body_bytes = 128\<rparr>"

definition demo_entry :: "string \<Rightarrow> scxml_payload_value \<Rightarrow> scxml_payload_entry" where
  "demo_entry name v = \<lparr>en_name = CBytes name,
     en_value = \<lparr>cv_kind = SCXML_CONTENT_SCALAR, cv_scalar = v, cv_bytes = CNull 0\<rparr>\<rparr>"

definition demo_form :: scxml_send_request where
  "demo_form = \<lparr>sr_event = CBytes ''go'', sr_target = CBytes ''t'', sr_type = CNull 0, sr_id = CNull 0,
     sr_delay_ms = 0, sr_payload = SCXML_PAYLOAD_NAMED (AItems
       [demo_entry ''a b'' (SCXML_PAYLOAD_VALUE_STRING (CBytes ''x&y='')),
        demo_entry ''a b'' (SCXML_PAYLOAD_VALUE_BOOL True)])\<rparr>"

definition demo_body :: encoded_body where
  "demo_body = \<lparr>eb_media_type = FORM_MEDIA_TYPE, eb_body = ''_scxmleventname=go&a+b=x%26y%3D&a+b=true''\<rparr>"

lemma demo_form_encodes:
  "scxml_chttp_codec_encode demo_env demo_form demo_limits False 128 =
     (SCXML_ADAPTER_ACCEPTED, 40, Some demo_body)"
  "application_fields (send_fields demo_env demo_form) = [(''a b'', ''x&y=''), (''a b'', ''true'')]"
  by (simp_all add: scxml_chttp_codec_encode_def encode_form_def measure_form_def measure_event_def
      add_form_field_size_def form_encoded_size_def checked_add_def SIZE_MAX_def form_unreserved_def
      char_between_def is_reserved_name_def write_form_field_def form_encode_def form_encode_char_def
      hex_upper_def scxml_chttp_codec_utf8_valid_def has_nul_def bounded_text_def demo_env_def
      demo_form_def demo_limits_def demo_body_def demo_entry_def RESERVED_EVENT_NAME_def
      send_fields_def event_fields_def entry_field_def application_fields_def)

theorem form_roundtrip_witness:
  "scxml_chttp_codec_decode_form demo_env (CBytes (eb_body demo_body)) demo_limits 2 False 64 False =
    (SCXML_CHTTP_DECODE_OK, 40, Some
       \<lparr>df_event = (case map_of (send_fields demo_env demo_form) RESERVED_EVENT_NAME of
                      None \<Rightarrow> DEFAULT_EVENT_NAME | Some e \<Rightarrow> e),
        df_entries = application_fields (send_fields demo_env demo_form)\<rparr>)"
  by (rule form_roundtrip [OF demo_form_encodes(1)])
     (simp_all add: demo_body_def demo_form_encodes(2))

text \<open>
  The two passes agree: whatever the send, when it is accepted the body holds exactly the
  number of bytes that the measuring pass reported, which fits the buffer and the configured
  limit; and the writing pass never meets a value it cannot print, so the only way to get
  INVALID_CONTRACT is a NULL buffer with a claimed capacity.
\<close>

theorem encode_writes_measured_size:
  assumes "scxml_chttp_codec_encode env req lim body_null cap = (status, n, out)"
  shows "(status = SCXML_ADAPTER_ACCEPTED \<longrightarrow>
      (\<exists>eb. out = Some eb \<and> length (eb_body eb) = n) \<and> n \<le> cap \<and> n \<le> max_encoded_body_bytes lim) \<and>
    (status \<noteq> SCXML_ADAPTER_ACCEPTED \<longrightarrow> out = None) \<and>
    (status = SCXML_ADAPTER_FULL \<longrightarrow> cap < n \<and> n \<le> max_encoded_body_bytes lim \<or> body_null) \<and>
    (status = SCXML_ADAPTER_INVALID_CONTRACT \<longleftrightarrow> cap \<noteq> 0 \<and> body_null)"
proof -
  have form: "encode_form env lim body_null cap event entries = (status, n, out) \<Longrightarrow>
      (status \<noteq> SCXML_ADAPTER_ACCEPTED \<longrightarrow> out = None) \<and>
      (status = SCXML_ADAPTER_FULL \<longrightarrow> cap < n \<and> n \<le> max_encoded_body_bytes lim \<or> body_null) \<and>
      status \<noteq> SCXML_ADAPTER_INVALID_CONTRACT" for event entries
    using measure_form_SomeD [of env lim event entries]
    by (fastforce simp: encode_form_def Let_def split: option.splits if_splits)
  have content: "encode_content env lim body_null cap content = (status, n, out) \<Longrightarrow>
      (status \<noteq> SCXML_ADAPTER_ACCEPTED \<longrightarrow> out = None) \<and>
      (status = SCXML_ADAPTER_FULL \<longrightarrow> cap < n \<and> n \<le> max_encoded_body_bytes lim \<or> body_null) \<and>
      status \<noteq> SCXML_ADAPTER_INVALID_CONTRACT" for content
    by (auto simp: encode_content_def split: option.splits if_splits)
  show ?thesis
  proof (cases "cap \<noteq> 0 \<and> body_null")
    case True
    with assms show ?thesis by (auto simp: scxml_chttp_codec_encode_def)
  next
    case False
    show ?thesis
    proof (cases "sr_payload req")
      case (SCXML_PAYLOAD_CONTENT c)
      with assms False have "encode_content env lim body_null cap c = (status, n, out)"
        by (auto simp: scxml_chttp_codec_encode_def split: if_splits)
      with content encode_content_accepted False show ?thesis by blast
    next
      case SCXML_PAYLOAD_NONE
      with assms False have "encode_form env lim body_null cap (sr_event req) (AItems []) = (status, n, out)"
        by (auto simp: scxml_chttp_codec_encode_def split: if_splits)
      with form encode_form_accepted False show ?thesis by fastforce
    next
      case (SCXML_PAYLOAD_NAMED es)
      with assms False have "encode_form env lim body_null cap (sr_event req) es = (status, n, out)"
        by (auto simp: scxml_chttp_codec_encode_def split: if_splits)
      with form encode_form_accepted False show ?thesis by fastforce
    next
      case (SCXML_PAYLOAD_OTHER k)
      with assms False show ?thesis by (auto simp: scxml_chttp_codec_encode_def split: if_splits)
    qed
  qed
qed

theorem encode_writes_measured_size_witness:
  "length (eb_body demo_body) = 40 \<and> (40::nat) \<le> 128"
  using encode_writes_measured_size [OF demo_form_encodes(1)] by simp

section \<open>Bounds of a decoded form\<close>

lemma decode_bytes_length: "decode_bytes s = Some d \<Longrightarrow> length d \<le> length s"
proof (induction s arbitrary: d rule: decode_bytes.induct)
  case 1
  then show ?case by simp
next
  case (2 c s)
  show ?case
  proof (cases "c = CHR ''%''")
    case True
    with 2(3) obtain v d' where v: "hex_pair s = Some v" "v \<noteq> CHR 0x00"
      and d': "decode_bytes (drop 2 s) = Some d'" "d = v # d'"
      by (auto split: option.splits if_splits)
    from 2(1) [OF True v d'(1)] d'(2) show ?thesis by simp
  next
    case False
    let ?v = "if c = CHR ''+'' then CHR '' '' else c"
    from False 2(3) obtain d' where d': "?v \<noteq> CHR 0x00" "decode_bytes s = Some d'" "d = ?v # d'"
      by (auto simp: Let_def split: if_splits)
    from 2(2) [OF False refl d'(1,2)] d'(3) show ?thesis by simp
  qed
qed

lemma decode_component_SomeD:
  "decode_component env s = Some d \<Longrightarrow> length d \<le> length s \<and> scxml_chttp_codec_utf8_valid env (CBytes d)"
  by (auto simp: decode_component_def dest: decode_bytes_length split: option.splits if_splits)

text \<open>What the loop maintains: storage used, fields counted and the limits of what is stored.\<close>

definition stored_ok :: "codec_env \<Rightarrow> codec_limits \<Rightarrow> nat \<Rightarrow> decode_state \<Rightarrow> bool" where
  "stored_ok env lim cap st \<longleftrightarrow>
     sum_list (map (\<lambda>f. length (fst f) + length (snd f)) (dc_entries st)) +
       (case dc_event st of None \<Rightarrow> 0 | Some e \<Rightarrow> length e) \<le> dc_text_used st \<and>
     length (dc_entries st) \<le> cap \<and> length (dc_entries st) \<le> dc_total_entries st \<and>
     dc_total_entries st \<le> max_form_entry_count lim \<and>
     (\<forall>f\<in>set (dc_entries st). fst f \<noteq> [] \<and> fst f \<noteq> RESERVED_EVENT_NAME \<and>
        length (fst f) \<le> max_form_name_bytes lim \<and> length (snd f) \<le> max_form_value_bytes lim \<and>
        scxml_chttp_codec_utf8_valid env (CBytes (fst f)) \<and> scxml_chttp_codec_utf8_valid env (CBytes (snd f))) \<and>
     (\<forall>e. dc_event st = Some e \<longrightarrow> e \<noteq> [] \<and> length e \<le> max_event_name_bytes lim \<and>
        scxml_chttp_codec_utf8_valid env (CBytes e))"

lemma split_field_length: "field \<noteq> [] \<Longrightarrow> length (fst (split_field field)) + length (snd (split_field field)) \<le> length field"
proof -
  have "length field = length (takeWhile (\<lambda>c. \<not> is_equals c) field) + length (dropWhile (\<lambda>c. \<not> is_equals c) field)"
    by (metis length_append takeWhile_dropWhile_id)
  then show ?thesis by (simp add: split_field_def)
qed

lemma decode_field_stored:
  assumes "decode_field env lim cap field st = Inr st'" "stored_ok env lim cap st"
  shows "stored_ok env lim cap st' \<and> dc_text_used st' \<le> dc_text_used st + length field"
proof -
  from assms(1) obtain name val where field: "field \<noteq> []"
    and count: "dc_total_entries st + 1 \<le> max_form_entry_count lim"
    and name: "decode_component env (fst (split_field field)) = Some name" "name \<noteq> []"
    and val: "decode_component env (snd (split_field field)) = Some val"
    and st': "store_field lim cap name val (st\<lparr>dc_total_entries := dc_total_entries st + 1,
        dc_text_used := dc_text_used st + length name + length val\<rparr>) = Inr st'"
    by (auto simp: decode_field_def Let_def split: if_splits option.splits)
  note N = decode_component_SomeD [OF name(1)] and V = decode_component_SomeD [OF val]
  have "length name + length val \<le> length field"
    using N V split_field_length [OF field] by linarith
  moreover have "stored_ok env lim cap st'"
    using st' assms(2) count name(2) N V
    by (auto simp: store_field_def stored_ok_def split: if_splits)
  moreover have "dc_text_used st' = dc_text_used st + length name + length val"
    using st' by (auto simp: store_field_def split: if_splits)
  ultimately show ?thesis by simp
qed

lemma decode_fields_stored:
  "decode_fields env lim cap source st = Inr st' \<Longrightarrow> stored_ok env lim cap st \<Longrightarrow>
     stored_ok env lim cap st' \<and> dc_text_used st' \<le> dc_text_used st + length source"
proof (induction env lim cap source st rule: decode_fields.induct)
  case (1 env lim cap source st)
  let ?field = "takeWhile (\<lambda>c. \<not> is_amp c) source" and ?rest = "dropWhile (\<lambda>c. \<not> is_amp c) source"
  have len: "length source = length ?field + length ?rest" by (metis length_append takeWhile_dropWhile_id)
  show ?case
  proof (cases "source = []")
    case True
    with 1(2,3) show ?thesis by (simp add: decode_fields.simps)
  next
    case False
    with 1(2) obtain st1 where st1: "decode_field env lim cap ?field st = Inr st1"
      by (subst (asm) decode_fields.simps) (auto split: sum.splits)
    note F = decode_field_stored [OF st1 1(3)]
    show ?thesis
    proof (cases ?rest)
      case Nil
      with 1(2) False st1 have "st' = st1" by (subst (asm) decode_fields.simps) simp
      with F len show ?thesis by simp
    next
      case (Cons amp rest)
      with 1(2) False st1 have rest: "rest \<noteq> []" "decode_fields env lim cap rest st1 = Inr st'"
        by (subst (asm) decode_fields.simps; simp split: if_splits)+
      from 1(1) [OF False st1 Cons rest(1) rest(2)] F Cons len show ?thesis by simp
    qed
  qed
qed

text \<open>
  A decoded form stays within its storage and limits, whatever the peer sends: when
  \<^verbatim>\<open>scxml_chttp_codec_decode_form\<close> returns OK, the texts of the entries and of a received event
  name together are no longer than the body, hence fit the text storage; there are at most
  as many entries as the entry storage and the entry limit allow; and every name and value
  respects its limit, is not the reserved name, and is valid text without NUL.
\<close>

theorem decode_form_bounds:
  assumes "scxml_chttp_codec_decode_form env body lim entry_capacity entries_null text_capacity text_null =
    (SCXML_CHTTP_DECODE_OK, n, Some form)"
  shows "sum_list (map (\<lambda>f. length (fst f) + length (snd f)) (df_entries form)) +
      (if df_event form = DEFAULT_EVENT_NAME then 0 else length (df_event form)) \<le> csize body \<and>
    csize body \<le> text_capacity \<and> csize body \<le> max_encoded_body_bytes lim \<and>
    length (df_entries form) \<le> entry_capacity \<and> length (df_entries form) \<le> max_form_entry_count lim \<and>
    (\<forall>f\<in>set (df_entries form). fst f \<noteq> [] \<and> fst f \<noteq> RESERVED_EVENT_NAME \<and>
       length (fst f) \<le> max_form_name_bytes lim \<and> length (snd f) \<le> max_form_value_bytes lim \<and>
       \<not> has_nul (fst f) \<and> \<not> has_nul (snd f)) \<and>
    (df_event form \<noteq> DEFAULT_EVENT_NAME \<longrightarrow>
       df_event form \<noteq> [] \<and> length (df_event form) \<le> max_event_name_bytes lim \<and> \<not> has_nul (df_event form))"
proof -
  from assms obtain st where run: "decode_fields env lim entry_capacity (cdata body) decode_start = Inr st"
    and form: "df_entries form = dc_entries st"
      "df_event form = (case dc_event st of None \<Rightarrow> DEFAULT_EVENT_NAME | Some e \<Rightarrow> e)"
    and caps: "csize body \<le> text_capacity" "csize body \<le> max_encoded_body_bytes lim"
      "\<not> (csize body \<noteq> 0 \<and> is_cnull body)"
    by (auto simp: scxml_chttp_codec_decode_form_def Let_def split: if_splits sum.splits)
  have "stored_ok env lim entry_capacity decode_start" by (simp add: stored_ok_def decode_start_def)
  from decode_fields_stored [OF run this]
  have S: "stored_ok env lim entry_capacity st" and "dc_text_used st \<le> length (cdata body)"
    by (simp_all add: decode_start_def)
  moreover have "length (cdata body) = csize body" using caps(3) by (cases body) auto
  ultimately have "dc_text_used st \<le> csize body" by simp
  with S caps form utf8_valid_no_nul show ?thesis
    by (cases "dc_event st") (auto simp: stored_ok_def)
qed

theorem decode_form_bounds_witness:
  "sum_list (map (\<lambda>f. length (fst f) + length (snd f)) [(''a b'', ''x&y=''), (''a b'', ''true'')]) \<le> (40::nat)"
proof -
  have "scxml_chttp_codec_decode_form demo_env (CBytes (eb_body demo_body)) demo_limits 2 False 64 False =
    (SCXML_CHTTP_DECODE_OK, 40, Some \<lparr>df_event = ''go'', df_entries = [(''a b'', ''x&y=''), (''a b'', ''true'')]\<rparr>)"
    by code_simp
  from decode_form_bounds [OF this] show ?thesis by simp
qed

section \<open>Numbers\<close>

lemma digit_char_digit: "d < 10 \<Longrightarrow> is_digit (digit_char d)"
  by (simp add: is_digit_def char_between_def digit_char_def)

lemma dec_text_digits: "\<forall>c\<in>set (dec_text n). is_digit c"
proof (induction n rule: dec_text.induct)
  case (1 n)
  then show ?case by (subst dec_text.simps) (auto simp: digit_char_digit)
qed

lemma dec_text_length: "n < 10 ^ k \<Longrightarrow> 0 < k \<Longrightarrow> length (dec_text n) \<le> k"
proof (induction n arbitrary: k rule: dec_text.induct)
  case (1 n)
  show ?case
  proof (cases "n < 10")
    case True
    with 1(3) show ?thesis by (subst dec_text.simps) simp
  next
    case False
    obtain j where j: "k = Suc j" using 1(3) by (cases k) auto
    with 1(2) False have "n div 10 < 10 ^ j" "0 < j" by (cases j; auto simp: less_mult_imp_div_less)+
    from 1(1) [OF False this] False j show ?thesis by (subst dec_text.simps) simp
  qed
qed

lemma strip_zeros_set: "c \<in> set (strip_zeros s) \<Longrightarrow> c \<in> set s"
  by (auto simp: strip_zeros_def dest: set_dropWhileD)

lemma strip_zeros_length: "length (strip_zeros s) \<le> length s"
  using length_dropWhile_le [of _ "rev s"] by (simp add: strip_zeros_def)

definition float_text_ok :: "float_text \<Rightarrow> bool" where
  "float_text_ok t \<longleftrightarrow> ft_integer t \<noteq> [] \<and> (\<forall>c\<in>set (ft_integer t). is_digit c) \<and>
     (\<forall>c\<in>set (ft_fraction t). is_digit c) \<and>
     length (ft_integer t) \<le> 17 \<and> length (ft_fraction t) \<le> 20 \<and>
     (\<forall>x. ft_exponent t = Some x \<longrightarrow> abs x < 1000)"

lemma decimal_exponent_range: "- 324 \<le> decimal_exponent r \<and> decimal_exponent r \<le> 308"
proof (cases "find (\<lambda>x. snd (scale10 x r) \<le> fst (scale10 x r)) (rev decimal_range)")
  case None
  then show ?thesis by (simp add: decimal_exponent_def)
next
  case (Some x)
  then have "x \<in> set decimal_range" by (metis find_Some_iff nth_mem set_rev)
  then have "x \<in> {- 324..308}" by (simp only: decimal_range_def set_upto)
  with Some show ?thesis by (simp add: decimal_exponent_def)
qed

lemma zero_is_digit: "is_digit (CHR ''0'')"
  by (simp add: is_digit_def char_between_def)

lemma float_parts_ok: "float_text_ok (float_parts w)"
proof -
  define r where "r = double_fraction w"
  define x0 where "x0 = decimal_exponent r"
  define n0 where "n0 = round_half_even (scale10 (x0 - 16) r)"
  define x where "x = (if n0 \<ge> 10 ^ 17 then x0 + 1 else x0)"
  define ds where "ds = dec_text (if n0 \<ge> 10 ^ 17 then 10 ^ 16 else n0)"
  have dl: "length ds \<le> 17" unfolding ds_def by (rule dec_text_length) auto
  have dd: "\<forall>c\<in>set ds. is_digit c" "ds \<noteq> []" unfolding ds_def by (simp_all add: dec_text_digits dec_text_nonempty)
  have sub: "c \<in> set (take k ds) \<Longrightarrow> is_digit c" "c \<in> set (strip_zeros (drop k ds)) \<Longrightarrow> is_digit c" for c k
    using dd(1) by (auto dest: in_set_takeD strip_zeros_set in_set_dropD)
  have lead: "c \<in> set (strip_zeros (replicate k (CHR ''0'') @ ds)) \<Longrightarrow> is_digit c" for c k
    using dd(1) zero_is_digit by (auto dest!: strip_zeros_set)
  have len: "length (strip_zeros (drop k ds)) \<le> 20" "length (take k ds) \<le> 17" for k
    using dl strip_zeros_length [of "drop k ds"] by simp_all
  have lenlead: "k \<le> 3 \<Longrightarrow> length (strip_zeros (replicate k (CHR ''0'') @ ds)) \<le> 20" for k
    using dl strip_zeros_length [of "replicate k (CHR ''0'') @ ds"] by simp
  have range: "abs x < 1000" using decimal_exponent_range [of r] by (auto simp: x_def x0_def abs_if)
  have parts: "float_parts w = (if fst r = 0
      then \<lparr>ft_negative = (unat w div 2 ^ 63 = 1), ft_integer = ''0'', ft_fraction = '''', ft_exponent = None\<rparr>
      else if x < - 4 \<or> x \<ge> 17
      then \<lparr>ft_negative = (unat w div 2 ^ 63 = 1), ft_integer = take 1 ds,
            ft_fraction = strip_zeros (drop 1 ds), ft_exponent = Some x\<rparr>
      else if x \<ge> 0
      then \<lparr>ft_negative = (unat w div 2 ^ 63 = 1), ft_integer = take (nat x + 1) ds,
            ft_fraction = strip_zeros (drop (nat x + 1) ds), ft_exponent = None\<rparr>
      else \<lparr>ft_negative = (unat w div 2 ^ 63 = 1), ft_integer = ''0'',
            ft_fraction = strip_zeros (replicate (nat (- x) - 1) (CHR ''0'') @ ds), ft_exponent = None\<rparr>)"
    unfolding float_parts_def Let_def r_def x0_def n0_def x_def ds_def by simp
  have small: "\<not> (x < - 4 \<or> x \<ge> 17) \<Longrightarrow> nat (- x) - 1 \<le> 3" by linarith
  show ?thesis
    unfolding parts float_text_ok_def
    using dd(2) zero_is_digit sub lead len lenlead small range by auto
qed

lemma exponent_text_digits:
  "\<exists>sg ds. exponent_text x = CHR ''e'' # sg # ds \<and> is_sign sg \<and> ds \<noteq> [] \<and> (\<forall>c\<in>set ds. is_digit c)"
proof -
  let ?ds = "if length (dec_text (nat \<bar>x\<bar>)) < 2 then CHR ''0'' # dec_text (nat \<bar>x\<bar>) else dec_text (nat \<bar>x\<bar>)"
  have "exponent_text x = CHR ''e'' # (if x < 0 then CHR ''-'' else CHR ''+'') # ?ds"
    by (simp add: exponent_text_def Let_def)
  moreover have "\<forall>c\<in>set ?ds. is_digit c" using dec_text_digits zero_is_digit by simp
  ultimately show ?thesis by (intro exI conjI) (auto simp: is_sign_def dec_text_nonempty)
qed

lemma take_digits_append:
  assumes "ds \<noteq> []" "\<forall>c\<in>set ds. is_digit c" "s = [] \<or> \<not> is_digit (hd s)"
  shows "take_digits (ds @ s) = Some (ds, s)"
  using assms
  by (cases ds; cases s) (auto simp: take_digits_def takeWhile_append2 dropWhile_append2)

lemma exp_not_digit: "is_exp c \<Longrightarrow> \<not> is_digit c"
  by (auto simp: is_exp_def is_digit_def char_between_def)

lemma sign_not_digit: "is_sign c \<Longrightarrow> \<not> is_digit c"
  by (auto simp: is_sign_def is_digit_def char_between_def)

lemma take_exponent_text: "take_exponent (exponent_text x) = Some (exponent_text x, [])"
proof -
  obtain sg ds where e: "exponent_text x = CHR ''e'' # sg # ds" "is_sign sg" "ds \<noteq> []"
    "\<forall>c\<in>set ds. is_digit c" using exponent_text_digits by blast
  from take_digits_append [OF e(3,4), of "[]"] e show ?thesis
    by (simp add: take_exponent_def take_sign_def is_exp_def)
qed

text \<open>A decimal point that the canonical form can replace.\<close>

definition good_point :: "string \<Rightarrow> bool" where
  "good_point p \<longleftrightarrow> p \<noteq> [] \<and> (\<forall>c\<in>set p. \<not> is_digit c \<and> \<not> is_exp c)"

definition exponent_part :: "float_text \<Rightarrow> string" where
  "exponent_part t = (case ft_exponent t of None \<Rightarrow> [] | Some x \<Rightarrow> exponent_text x)"

lemma exponent_part_hd: "exponent_part t = [] \<or> is_exp (hd (exponent_part t))"
  by (cases "ft_exponent t") (auto simp: exponent_part_def exponent_text_def is_exp_def)

lemma take_exponent_part: "take_exponent (exponent_part t) = Some (exponent_part t, [])"
  by (cases "ft_exponent t")
     (simp_all add: exponent_part_def take_exponent_text, simp add: take_exponent_def)

lemma take_fraction_part:
  assumes "good_point p" "\<forall>c\<in>set (ft_fraction t). is_digit c" "ft_fraction t \<noteq> []"
  shows "take_fraction (p @ ft_fraction t @ exponent_part t) = Some (CHR ''.'' # ft_fraction t, exponent_part t)"
proof -
  obtain f fs where f: "ft_fraction t = f # fs" using assms(3) by (cases "ft_fraction t") auto
  have skip: "dropWhile (\<lambda>c. \<not> is_digit c \<and> \<not> is_exp c) (p @ ft_fraction t @ exponent_part t) =
      ft_fraction t @ exponent_part t"
    using assms f by (simp add: good_point_def dropWhile_append2)
  have "take_digits (ft_fraction t @ exponent_part t) = Some (ft_fraction t, exponent_part t)"
    using assms exponent_part_hd exp_not_digit by (intro take_digits_append) blast+
  moreover have "p @ ft_fraction t @ exponent_part t \<noteq> []" "\<not> is_exp (hd (p @ ft_fraction t @ exponent_part t))"
    using assms(1) by (cases p; auto simp: good_point_def)+
  ultimately show ?thesis by (simp add: take_fraction_def skip)
qed

lemma canonicalize_render:
  assumes "float_text_ok t" "good_point p"
  shows "canonicalize_float_text (float_render p t) = Some (float_render ''.'' t)"
proof -
  let ?frac = "\<lambda>p. if ft_fraction t = [] then [] else p @ ft_fraction t"
  have render: "float_render p t = (if ft_negative t then ''-'' else '''') @ ft_integer t @ ?frac p @ exponent_part t" for p
    by (simp add: float_render_def exponent_part_def)
  have int: "ft_integer t \<noteq> []" "\<forall>c\<in>set (ft_integer t). is_digit c" "\<forall>c\<in>set (ft_fraction t). is_digit c"
    using assms(1) by (auto simp: float_text_ok_def)
  obtain c cs where c: "ft_integer t = c # cs" using int(1) by (cases "ft_integer t") auto
  have nosign: "\<not> is_sign c" using int(2) c sign_not_digit by auto
  have s1: "take_sign (float_render p t) =
      (if ft_negative t then ''-'' else '''', ft_integer t @ ?frac p @ exponent_part t)"
    by (simp add: render take_sign_def c nosign) (simp add: is_sign_def)
  have "?frac p @ exponent_part t = [] \<or> \<not> is_digit (hd (?frac p @ exponent_part t))"
    using assms(2) exponent_part_hd exp_not_digit by (cases p) (auto simp: good_point_def)
  then have s2: "take_digits (ft_integer t @ ?frac p @ exponent_part t) = Some (ft_integer t, ?frac p @ exponent_part t)"
    by (rule take_digits_append [OF int(1,2)])
  have s3: "take_fraction (?frac p @ exponent_part t) = Some (?frac ''.'', exponent_part t)"
    using take_fraction_part [OF assms(2) int(3)] exponent_part_hd by (auto simp: take_fraction_def)
  show ?thesis
    by (simp add: canonicalize_float_text_def s1 s2 s3 take_exponent_part render [of "''.''"])
qed

text \<open>
  The text of a number does not depend on the C locale: for every decimal point of at most
  eight characters that are neither digits nor exponent letters, a finite double is printed
  as in the C locale, within the 64 byte buffer; an infinite one or a NaN is refused.
\<close>

theorem float_text_locale_independent:
  assumes "good_point (env_decimal_point env)" "length (env_decimal_point env) \<le> 8"
  shows "scalar_text env (SCXML_PAYLOAD_VALUE_FLOAT w) =
    (if isfinite w then Some (CBytes (float_render ''.'' (float_parts w))) else None)"
proof -
  let ?t = "float_parts w"
  note ok = float_parts_ok [of w]
  have ex: "length (exponent_part ?t) \<le> 5"
  proof (cases "ft_exponent ?t")
    case (Some x)
    with ok have "nat \<bar>x\<bar> < 10 ^ 3" by (auto simp: float_text_ok_def)
    from dec_text_length [OF this] Some show ?thesis by (simp add: exponent_part_def exponent_text_def Let_def)
  qed (simp add: exponent_part_def)
  have "length (float_render (env_decimal_point env) ?t) \<le>
      1 + length (ft_integer ?t) + (length (env_decimal_point env) + length (ft_fraction ?t)) +
      length (exponent_part ?t)"
    by (simp add: float_render_def exponent_part_def)
  with ok ex assms(2) have "length (float_render (env_decimal_point env) ?t) < 64"
    unfolding float_text_ok_def by linarith
  then show ?thesis by (simp add: bounded_text_def canonicalize_render [OF ok assms(1)])
qed

theorem float_text_locale_independent_witness:
  "scalar_text demo_env (SCXML_PAYLOAD_VALUE_FLOAT 0x3FF8000000000000) =
    (if isfinite 0x3FF8000000000000 then Some (CBytes (float_render ''.'' (float_parts 0x3FF8000000000000))) else None)"
  by (rule float_text_locale_independent)
     (simp_all add: demo_env_def good_point_def is_digit_def is_exp_def char_between_def)

end
