(* ===== verification/Host_Event_IO.thy ===== *)
theory Host_Event_IO
  imports Host_Router_Identity Host_Router_Topology
begin

text \<open>
  Model of \<^verbatim>\<open>src/scxml_host_event_io.c\<close>: the Event I/O adapter through which a Session sends
  into the host router. A binding names its source endpoint; the router it points to is the
  last argument of the operations. Error texts are part of the results.
\<close>

section \<open>State and operations\<close>

definition SCXML_HOST_EVENT_PROCESSOR_URI :: string where
  "SCXML_HOST_EVENT_PROCESSOR_URI = ''http://www.w3.org/TR/scxml/#SCXMLEventProcessor''"

record host_binding =
  hb_source :: session_ref
  hb_closed :: bool
  hb_delayed_enabled :: bool

definition invalid_type :: string where
  "invalid_type = ''Host only accepts the canonical SCXML Event Processor URI''"
definition invalid_payload :: string where
  "invalid_payload = ''Host Event I/O only supports bounded TEXT_UTF8/XML_UTF8 content''"
definition invalid_delay :: string where
  "invalid_delay = ''Host Event I/O does not advertise delayed sends''"
definition invalid_target :: string where
  "invalid_target = ''Missing or inaccessible SCXML Session target''"

text \<open>The status switch at the end of \<^verbatim>\<open>host_prepare_send\<close>.\<close>

fun send_result :: "salts_status \<Rightarrow> scxml_adapter_status \<times> string option" where
  "send_result SALTS_OK = (SCXML_ADAPTER_ACCEPTED, None)"
| "send_result SALTS_ENOBUFS = (SCXML_ADAPTER_FULL, None)"
| "send_result SALTS_ESHUTDOWN = (SCXML_ADAPTER_CLOSED, None)"
| "send_result SALTS_ENOENT = (SCXML_ADAPTER_ERROR_COMMUNICATION, Some invalid_target)"
| "send_result SALTS_EMSGSIZE =
     (SCXML_ADAPTER_ERROR_EXECUTION, Some ''Host content exceeds configured storage bound'')"
| "send_result SALTS_ENOTSUP = (SCXML_ADAPTER_ERROR_EXECUTION, Some invalid_payload)"
| "send_result SALTS_EINVAL = (SCXML_ADAPTER_INVALID_CONTRACT, None)"
| "send_result _ = (SCXML_ADAPTER_ERROR_EXECUTION, Some ''Host routing admission failed'')"

text \<open>The content view handed to the router: none, or text or XML; other payloads are refused.\<close>

definition host_content :: "scxml_payload_view \<Rightarrow> content_view option option" where
  "host_content payload =
     (case payload of
        SCXML_PAYLOAD_CONTENT content \<Rightarrow>
          if cv_kind content \<noteq> SCXML_CONTENT_TEXT_UTF8 \<and> cv_kind content \<noteq> SCXML_CONTENT_XML_UTF8
          then None else Some (Some content)
      | SCXML_PAYLOAD_NONE \<Rightarrow> Some None
      | _ \<Rightarrow> None)"

definition host_prepare_send ::
  "scxml_send_request \<Rightarrow> host_binding \<Rightarrow> host_router
     \<Rightarrow> scxml_adapter_status \<times> string option \<times> row_id option \<times> host_router" where
  "host_prepare_send request hb r =
     (if is_cnull (sr_event request) \<or> csize (sr_event request) = 0 \<or>
         csize (sr_event request) > SCXML_EVENT_METADATA_CAPACITY \<or>
         csize (sr_target request) \<noteq> 0 \<and> is_cnull (sr_target request) \<or>
         csize (sr_type request) \<noteq> 0 \<and> is_cnull (sr_type request) \<or>
         csize (sr_id request) \<noteq> 0 \<and> is_cnull (sr_id request)
      then (SCXML_ADAPTER_INVALID_CONTRACT, None, None, r)
      else if hb_closed hb then (SCXML_ADAPTER_CLOSED, None, None, r)
      else if csize (sr_type request) \<noteq> 0 \<and>
              (csize (sr_type request) \<noteq> length SCXML_HOST_EVENT_PROCESSOR_URI \<or>
               cdata (sr_type request) \<noteq> SCXML_HOST_EVENT_PROCESSOR_URI)
      then (SCXML_ADAPTER_ERROR_EXECUTION, Some invalid_type, None, r)
      else if sr_delay_ms request \<noteq> 0 \<and> \<not> hb_delayed_enabled hb
      then (SCXML_ADAPTER_ERROR_EXECUTION, Some invalid_delay, None, r)
      else case host_content (sr_payload request) of
        None \<Rightarrow> (SCXML_ADAPTER_ERROR_EXECUTION, Some invalid_payload, None, r)
      | Some content \<Rightarrow>
          (case scxml_host_router_prepare_target (hb_source hb) (sr_target request) (sr_event request)
                  (sr_id request) content (sr_delay_ms request) r of
             (status, ticket, r1) \<Rightarrow>
               (fst (send_result status), snd (send_result status), ticket, r1)))"

fun cancel_result :: "salts_status \<Rightarrow> scxml_adapter_status \<times> string option" where
  "cancel_result SALTS_OK = (SCXML_ADAPTER_ACCEPTED, None)"
| "cancel_result SALTS_ENOBUFS = (SCXML_ADAPTER_FULL, None)"
| "cancel_result SALTS_ESHUTDOWN = (SCXML_ADAPTER_CLOSED, None)"
| "cancel_result SALTS_ENOENT =
     (SCXML_ADAPTER_ERROR_COMMUNICATION, Some ''The delayed sendid is no longer owned by this Session'')"
| "cancel_result SALTS_EINVAL = (SCXML_ADAPTER_INVALID_CONTRACT, None)"
| "cancel_result _ =
     (SCXML_ADAPTER_ERROR_EXECUTION, Some ''Host delayed-send cancel admission failed'')"

definition host_prepare_cancel ::
  "cbytes \<Rightarrow> host_binding \<Rightarrow> host_router
     \<Rightarrow> scxml_adapter_status \<times> string option \<times> cancel_id option \<times> host_router" where
  "host_prepare_cancel send_id hb r =
     (if is_cnull send_id \<or> csize send_id = 0 \<or> csize send_id > SCXML_EVENT_METADATA_CAPACITY
      then (SCXML_ADAPTER_INVALID_CONTRACT, None, None, r)
      else if hb_closed hb then (SCXML_ADAPTER_CLOSED, None, None, r)
      else if \<not> hb_delayed_enabled hb then (SCXML_ADAPTER_INVALID_CONTRACT, None, None, r)
      else (case scxml_host_router_prepare_cancel (hb_source hb) send_id r of
              (status, ticket, r1) \<Rightarrow>
                (fst (cancel_result status), snd (cancel_result status), ticket, r1)))"

definition host_close :: "host_binding \<Rightarrow> host_router \<Rightarrow> host_binding \<times> host_router" where
  "host_close hb r =
     (if hb_closed hb then (hb, r)
      else case scxml_host_router_cancel_source (hb_source hb) r of
        (status, cancelled, r1) \<Rightarrow> (hb\<lparr>hb_closed := True\<rparr>, r1))"

definition host_quiescent :: "host_binding \<Rightarrow> host_router \<Rightarrow> bool" where
  "host_quiescent hb r \<longleftrightarrow> hb_closed hb \<and> scxml_host_router_source_is_quiescent r (hb_source hb)"

definition binding_init ::
  "clock_ops \<Rightarrow> bool \<Rightarrow> host_binding option \<Rightarrow> session_ref \<Rightarrow> bool \<Rightarrow> host_router
     \<Rightarrow> salts_status \<times> host_binding option \<times> host_router" where
  "binding_init clk alloc_ok handle source delayed r =
     (if handle \<noteq> None then (SALTS_EINVAL, handle, r)
      else if delayed \<and> \<not> scxml_host_router_supports_delayed clk r then (SALTS_EINVAL, handle, r)
      else case scxml_host_router_resolve source (CNull 0) r of
        (status, resolved, r1) \<Rightarrow>
          if status \<noteq> SALTS_OK then (status, handle, r1)
          else if \<not> alloc_ok then (SALTS_ENOMEM, handle, r1)
          else (SALTS_OK, Some \<lparr>hb_source = resolved, hb_closed = False, hb_delayed_enabled = delayed\<rparr>, r1))"

definition scxml_host_event_io_binding_init ::
  "clock_ops \<Rightarrow> bool \<Rightarrow> host_binding option \<Rightarrow> session_ref \<Rightarrow> host_router
     \<Rightarrow> salts_status \<times> host_binding option \<times> host_router" where
  "scxml_host_event_io_binding_init clk alloc_ok handle source r =
     binding_init clk alloc_ok handle source False r"

definition scxml_host_event_io_binding_init_delayed ::
  "clock_ops \<Rightarrow> bool \<Rightarrow> host_binding option \<Rightarrow> session_ref \<Rightarrow> host_router
     \<Rightarrow> salts_status \<times> host_binding option \<times> host_router" where
  "scxml_host_event_io_binding_init_delayed clk alloc_ok handle source r =
     binding_init clk alloc_ok handle source True r"

definition scxml_host_event_io_binding_destroy ::
  "host_binding option \<Rightarrow> host_router \<Rightarrow> salts_status \<times> host_binding option" where
  "scxml_host_event_io_binding_destroy handle r =
     (case handle of
        None \<Rightarrow> (SALTS_OK, None)
      | Some hb \<Rightarrow> if \<not> host_quiescent hb r then (SALTS_EBUSY, handle) else (SALTS_OK, None))"

section \<open>Sends\<close>

lemma send_result_accepted [simp]: "fst (send_result st) = SCXML_ADAPTER_ACCEPTED \<longleftrightarrow> st = SALTS_OK"
  by (cases st) simp_all

lemma send_result_communication:
  "fst (send_result st) = SCXML_ADAPTER_ERROR_COMMUNICATION \<longleftrightarrow> st = SALTS_ENOENT"
  by (cases st) simp_all

lemma send_result_text:
  "snd (send_result st) \<noteq> None \<longleftrightarrow> fst (send_result st) = SCXML_ADAPTER_ERROR_EXECUTION \<or>
     fst (send_result st) = SCXML_ADAPTER_ERROR_COMMUNICATION"
  by (cases st) simp_all




section \<open>Properties\<close>



definition demo_binding :: host_binding where
  "demo_binding = \<lparr>hb_source = demo_ref, hb_closed = False, hb_delayed_enabled = False\<rparr>"

definition demo_request :: scxml_send_request where
  "demo_request = \<lparr>sr_event = CBytes ''ping'', sr_target = CNull 0, sr_type = CNull 0, sr_id = CBytes ''s1'',
     sr_delay_ms = 0, sr_payload = SCXML_PAYLOAD_CONTENT \<lparr>cv_kind = SCXML_CONTENT_TEXT_UTF8,
       cv_scalar = SCXML_PAYLOAD_VALUE_INVALID, cv_bytes = CBytes ''x''\<rparr>\<rparr>"

definition demo_sent :: host_router where
  "demo_sent = snd (snd (snd (host_prepare_send demo_request demo_binding demo_queued)))"



lemma reserve_locked_None_tables:
  "reserve_locked target name body r = (None, r') \<Longrightarrow>
     r_rows r' = r_rows r \<and> r_endpoints r' = r_endpoints r \<and> r_invoke_routes r' = r_invoke_routes r \<and>
     r_cancel_rows r' = r_cancel_rows r \<and> r_pending r' = r_pending r"
  by (auto simp: reserve_locked_def split: if_splits option.splits)

lemma resolve_locked_status: "fst (resolve_locked r source target) = SALTS_OK \<or>
    fst (resolve_locked r source target) = SALTS_ENOENT"
  by (simp add: resolve_locked_def Let_def)

lemma prepare_target_refusal:
  assumes "scxml_host_router_prepare_target source target name sid content delay r = (status, t, r')"
    "status \<noteq> SALTS_OK"
  shows "t = None \<and> r_rows r' = r_rows r \<and> r_endpoints r' = r_endpoints r \<and>
    r_invoke_routes r' = r_invoke_routes r \<and> r_cancel_rows r' = r_cancel_rows r \<and> r_pending r' = r_pending r \<and>
    (status = SALTS_ENOENT \<longrightarrow> fst (resolve_locked r source (cdata target)) = SALTS_ENOENT)"
  using assms unfolding scxml_host_router_prepare_target_def Let_def
  by (auto split: if_splits prod.splits option.splits dest: reserve_locked_None_tables)

text \<open>
  A refused send leaves no trace in the router's tables and is reported faithfully: there is
  no ticket, every row, endpoint, alias and cancellation ticket is as before, an error text
  is set exactly when the status asks the Session for an error event, and
  a communication error is reported only when the target does not resolve for this source.
\<close>

theorem host_send_refusal:
  assumes "host_prepare_send request hb r = (st, err, t, r1)" "st \<noteq> SCXML_ADAPTER_ACCEPTED"
  shows "t = None \<and> r_rows r1 = r_rows r \<and> r_endpoints r1 = r_endpoints r \<and>
    r_invoke_routes r1 = r_invoke_routes r \<and> r_cancel_rows r1 = r_cancel_rows r \<and> r_pending r1 = r_pending r \<and>
    (err \<noteq> None \<longleftrightarrow> st = SCXML_ADAPTER_ERROR_EXECUTION \<or> st = SCXML_ADAPTER_ERROR_COMMUNICATION) \<and>
    (st = SCXML_ADAPTER_ERROR_COMMUNICATION \<longrightarrow>
       fst (resolve_locked r (hb_source hb) (cdata (sr_target request))) = SALTS_ENOENT)"
proof -
  consider (early) "t = None" "r1 = r" "st \<noteq> SCXML_ADAPTER_ERROR_COMMUNICATION"
      "err \<noteq> None \<longleftrightarrow> st = SCXML_ADAPTER_ERROR_EXECUTION"
    | (router) content status where "st = fst (send_result status)" "err = snd (send_result status)"
      "scxml_host_router_prepare_target (hb_source hb) (sr_target request) (sr_event request)
         (sr_id request) content (sr_delay_ms request) r = (status, t, r1)"
    using assms(1) unfolding host_prepare_send_def
    by (auto split: if_splits option.splits prod.splits)
  then show ?thesis
  proof cases
    case early
    then show ?thesis by simp
  next
    case router
    with assms(2) have "status \<noteq> SALTS_OK" by auto
    from prepare_target_refusal [OF router(3) this] router(1,2)
      send_result_text [of status] send_result_communication [of status] show ?thesis by simp
  qed
qed

theorem host_send_refusal_witness:
  "snd (snd (snd (host_prepare_send (demo_request\<lparr>sr_target := CBytes ''#_nobody''\<rparr>) demo_binding demo_queued))) =
     demo_queued \<and>
   fst (resolve_locked demo_queued demo_ref ''#_nobody'') = SALTS_ENOENT"
proof -
  have "host_prepare_send (demo_request\<lparr>sr_target := CBytes ''#_nobody''\<rparr>) demo_binding demo_queued =
      (SCXML_ADAPTER_ERROR_COMMUNICATION, Some invalid_target, None, demo_queued)"
    by code_simp
  from this host_send_refusal [OF this] show ?thesis by (simp add: demo_binding_def demo_request_def)
qed

lemma cancel_rows_tickets: "r_cancel_rows (fst (cancel_rows P r)) = r_cancel_rows r"
proof -
  have "r_cancel_rows (fst (fold (cancel_row_if P) is st)) = r_cancel_rows (fst st)" for "is" st
    by (induction "is" arbitrary: st) simp_all
  from this [of _ "(r, 0)"] show ?thesis by (simp add: cancel_rows_def)
qed

text \<open>
  Closing a binding cancels its own waiting events and nothing else: on any reachable router,
  closing an open binding of a live source frees exactly the ready and delayed rows of that
  source. Afterwards the binding admits no send and no cancellation, whatever the router
  does, and it can be destroyed exactly when no ticket, delivery, firing timer or
  cancellation of the source is left.
\<close>

theorem host_close_isolates:
  assumes "router_reachable r" "\<not> hb_closed hb" "matches r (hb_source hb)" "host_close hb r = (hb', r')"
  shows "r_rows r' = map (\<lambda>row. if (row_state row = ROW_READY \<or> row_state row = ROW_DELAYED) \<and>
      refs_equal (row_source row) (hb_source hb) then blank_row else row) (r_rows r) \<and>
    host_close hb' r2 = (hb', r2) \<and>
    fst (host_prepare_send request hb' r2) \<noteq> SCXML_ADAPTER_ACCEPTED \<and>
    snd (snd (host_prepare_send request hb' r2)) = (None, r2) \<and>
    fst (host_prepare_cancel sid hb' r2) \<noteq> SCXML_ADAPTER_ACCEPTED \<and>
    snd (snd (host_prepare_cancel sid hb' r2)) = (None, r2) \<and>
    (scxml_host_event_io_binding_destroy (Some hb') r' = (SALTS_OK, None) \<longleftrightarrow>
       (\<forall>row\<in>set (r_rows r). refs_equal (row_source row) (hb_source hb) \<longrightarrow>
          row_state row \<noteq> ROW_RESERVED \<and> row_state row \<noteq> ROW_FIRING \<and> row_state row \<noteq> ROW_INFLIGHT) \<and>
       (\<forall>cx\<in>set (r_cancel_rows r). cx_in_use cx \<longrightarrow> \<not> refs_equal (cx_source cx) (hb_source hb)))"
proof -
  let ?P = "\<lambda>row. (row_state row = ROW_READY \<or> row_state row = ROW_DELAYED) \<and>
    refs_equal (row_source row) (hb_source hb)"
  have hb': "hb' = hb\<lparr>hb_closed := True\<rparr>" and r': "r' = fst (cancel_rows ?P r)"
    using assms(2,3,4) by (auto simp: host_close_def scxml_host_router_cancel_source_def split: prod.splits)
  have rows: "r_rows r' = map (\<lambda>row. if ?P row then blank_row else row) (r_rows r)"
    unfolding r' by (rule cancel_rows_rows) (auto simp: nonfree_def router_reachable_inv [OF assms(1)])
  have live: "matches r' ref = matches r ref" for ref by (simp add: r' matches_live_ref)
  have cx: "r_cancel_rows r' = r_cancel_rows r" unfolding r' by (rule cancel_rows_tickets)
  have kept: "row_state (if ?P row then blank_row else row) \<noteq> ROW_FREE \<and>
      refs_equal (row_source (if ?P row then blank_row else row)) (hb_source hb) \<longleftrightarrow>
      refs_equal (row_source row) (hb_source hb) \<and>
        (row_state row = ROW_RESERVED \<or> row_state row = ROW_FIRING \<or> row_state row = ROW_INFLIGHT)" for row
    by (cases "row_state row") (auto simp: blank_row_def)
  have "(\<exists>row\<in>set (r_rows r'). row_state row \<noteq> ROW_FREE \<and> refs_equal (row_source row) (hb_source hb)) \<longleftrightarrow>
      (\<exists>row\<in>set (r_rows r). refs_equal (row_source row) (hb_source hb) \<and>
         (row_state row = ROW_RESERVED \<or> row_state row = ROW_FIRING \<or> row_state row = ROW_INFLIGHT))"
    unfolding rows set_map bex_simps kept ..
  then have "scxml_host_event_io_binding_destroy (Some hb') r' = (SALTS_OK, None) \<longleftrightarrow>
       (\<forall>row\<in>set (r_rows r). refs_equal (row_source row) (hb_source hb) \<longrightarrow>
          row_state row \<noteq> ROW_RESERVED \<and> row_state row \<noteq> ROW_FIRING \<and> row_state row \<noteq> ROW_INFLIGHT) \<and>
       (\<forall>cx\<in>set (r_cancel_rows r). cx_in_use cx \<longrightarrow> \<not> refs_equal (cx_source cx) (hb_source hb))"
    using assms(3)
    by (auto simp: scxml_host_event_io_binding_destroy_def host_quiescent_def hb' live cx
        scxml_host_router_source_is_quiescent_def)
  then show ?thesis
    using rows by (simp add: hb' host_close_def host_prepare_send_def host_prepare_cancel_def)
qed

definition demo_own :: host_router where
  "demo_own = ticket_commit (demo_clk 0) 1 demo_sent"

lemma demo_own_reachable: "router_reachable demo_own"
proof -
  have "router_step demo_queued demo_sent"
    by (rule router_step.prepare_target [where source = demo_ref and addr = "CNull 0" and name = "CBytes ''ping''"
        and sid = "CBytes ''s1''" and delay = 0 and content = "Some \<lparr>cv_kind = SCXML_CONTENT_TEXT_UTF8,
       cv_scalar = SCXML_PAYLOAD_VALUE_INVALID, cv_bytes = CBytes ''x''\<rparr>" and st = SALTS_OK and t = "Some 1"])
       code_simp
  then have "router_reachable demo_sent" by (rule router_reachable.step [OF demo_queued_reachable])
  moreover have "1 < event_capacity demo_sent" by code_simp
  ultimately show ?thesis unfolding demo_own_def
    by (meson router_reachable.step router_step.commit)
qed

theorem host_close_isolates_witness:
  "map row_state (r_rows (snd (host_close demo_binding demo_own))) = [ROW_READY, ROW_FREE, ROW_FREE] \<and>
   scxml_host_event_io_binding_destroy (Some (fst (host_close demo_binding demo_own)))
     (snd (host_close demo_binding demo_own)) = (SALTS_OK, None)"
proof -
  have m: "\<not> hb_closed demo_binding" "matches demo_own (hb_source demo_binding)"
    "\<forall>cx\<in>set (r_cancel_rows demo_own). \<not> cx_in_use cx" by code_simp+
  have s: "\<forall>row\<in>set (r_rows demo_own). refs_equal (row_source row) (hb_source demo_binding) \<longrightarrow>
      row_state row \<noteq> ROW_RESERVED \<and> row_state row \<noteq> ROW_FIRING \<and> row_state row \<noteq> ROW_INFLIGHT" by code_simp
  have rows: "map row_state (map (\<lambda>row. if (row_state row = ROW_READY \<or> row_state row = ROW_DELAYED) \<and>
      refs_equal (row_source row) (hb_source demo_binding) then blank_row else row) (r_rows demo_own)) =
      [ROW_READY, ROW_FREE, ROW_FREE]" by code_simp
  from host_close_isolates [OF demo_own_reachable m(1,2) pair_split] m(3) s rows show ?thesis by simp
qed

end
