(* ===== verification/Cnet_Egress.thy ===== *)
theory Cnet_Egress
  imports Row_Queue Cnet_Ingress
begin

text \<open>
  Model of \<^verbatim>\<open>src/scxml_cnet_egress.c\<close>: sends of a Session are reserved and committed on its
  executor, and an explicit pump on the CNet owner thread writes them to one connection. The
  row is kept until CNet reports that the write completed. One section under the egress mutex
  is one definition. The memory pool and \<^verbatim>\<open>cnet_send_buffer\<close>, which run without the mutex,
  are arguments of the pump; they receive the egress, since other threads and synchronous
  callbacks may enter it meanwhile.
\<close>

section \<open>State\<close>

datatype egress_row_state =
    EGRESS_FREE | EGRESS_RESERVED | EGRESS_READY | EGRESS_SUBMITTING | EGRESS_SUBMITTED

record egress_row =
  er_state :: egress_row_state
  er_sequence :: u64
  er_bytes :: string

record cnet_egress =
  eg_connection :: cnet_connection
  eg_rows :: "egress_row list"
  eg_max_payload_bytes :: nat
  eg_pending :: nat
  eg_high_water :: nat
  eg_next_sequence :: u64
  eg_prepared :: u64
  eg_committed :: u64
  eg_discarded :: u64
  eg_submitted :: u64
  eg_completed :: u64
  eg_cancelled :: u64
  eg_rejected_full :: u64
  eg_transient_full :: u64
  eg_stale_callbacks :: u64
  eg_invariant_failures :: u64
  eg_bound :: bool
  eg_connected :: bool
  eg_terminal :: bool
  eg_closed :: bool
  eg_failed :: bool
  eg_pumping :: bool
  eg_first_error :: salts_status

abbreviation eg_capacity :: "cnet_egress \<Rightarrow> nat" where
  "eg_capacity e \<equiv> length (eg_rows e)"

definition blank_egress_row :: egress_row where
  "blank_egress_row = \<lparr>er_state = EGRESS_FREE, er_sequence = 0, er_bytes = []\<rparr>"

definition eg_matches :: "cnet_egress \<Rightarrow> cnet_connection \<Rightarrow> bool" where
  "eg_matches e c \<longleftrightarrow> eg_bound e \<and> conn_slot (eg_connection e) = conn_slot c \<and>
     conn_generation (eg_connection e) = conn_generation c"

definition set_failure :: "salts_status \<Rightarrow> cnet_egress \<Rightarrow> cnet_egress" where
  "set_failure status e =
     (if \<not> eg_failed e then e\<lparr>eg_failed := True, eg_first_error := status\<rparr> else e)"

definition release_row :: "nat \<Rightarrow> cnet_egress \<Rightarrow> cnet_egress" where
  "release_row i e =
     (if er_state (eg_rows e ! i) = EGRESS_FREE \<or> eg_pending e = 0
      then e\<lparr>eg_invariant_failures := eg_invariant_failures e + 1\<rparr>
      else e\<lparr>eg_rows := (eg_rows e)[i := blank_egress_row], eg_pending := eg_pending e - 1\<rparr>)"

text \<open>Setting the state of one row.\<close>

definition set_row_state :: "nat \<Rightarrow> egress_row_state \<Rightarrow> cnet_egress \<Rightarrow> cnet_egress" where
  "set_row_state i st e = e\<lparr>eg_rows := (eg_rows e)[i := (eg_rows e ! i)\<lparr>er_state := st\<rparr>]\<rparr>"

definition egress_before :: "egress_row \<Rightarrow> egress_row \<Rightarrow> bool" where
  "egress_before a b \<longleftrightarrow> er_sequence a < er_sequence b"

definition earliest :: "egress_row_state \<Rightarrow> cnet_egress \<Rightarrow> nat option" where
  "earliest st e = earliest_row (\<lambda>row. er_state row = st) egress_before (eg_rows e)"

definition cancel_row :: "nat \<Rightarrow> cnet_egress \<Rightarrow> cnet_egress" where
  "cancel_row i e = release_row i (e\<lparr>eg_cancelled := eg_cancelled e + 1\<rparr>)"

section \<open>Tickets\<close>

definition egress_ticket_commit :: "nat \<Rightarrow> cnet_egress \<Rightarrow> cnet_egress" where
  "egress_ticket_commit i e =
     (if er_state (eg_rows e ! i) \<noteq> EGRESS_RESERVED
      then e\<lparr>eg_invariant_failures := eg_invariant_failures e + 1\<rparr>
      else if eg_closed e \<or> eg_terminal e then cancel_row i e
      else e\<lparr>eg_rows := (eg_rows e)[i := (eg_rows e ! i)\<lparr>er_state := EGRESS_READY,
                                         er_sequence := eg_next_sequence e + 1\<rparr>],
             eg_next_sequence := eg_next_sequence e + 1,
             eg_committed := eg_committed e + 1\<rparr>)"

definition egress_ticket_discard :: "nat \<Rightarrow> cnet_egress \<Rightarrow> cnet_egress" where
  "egress_ticket_discard i e =
     (if er_state (eg_rows e ! i) \<noteq> EGRESS_RESERVED
      then e\<lparr>eg_invariant_failures := eg_invariant_failures e + 1\<rparr>
      else release_row i (e\<lparr>eg_discarded := eg_discarded e + 1\<rparr>))"

definition SCXML_CNET_RAW_PROCESSOR_URI :: string where
  "SCXML_CNET_RAW_PROCESSOR_URI = ''urn:turboscxml:cnet-raw:1''"
definition SCXML_CNET_BOUND_TARGET :: string where
  "SCXML_CNET_BOUND_TARGET = ''cnet://bound''"
definition unsupported_type :: string where
  "unsupported_type = ''CNet raw-byte profile requires explicit urn:turboscxml:cnet-raw:1 type''"
definition unsupported_target :: string where
  "unsupported_target = ''CNet raw-byte profile requires cnet://bound target''"
definition unsupported_payload :: string where
  "unsupported_payload = ''CNet raw-byte profile accepts only event-name or TEXT_UTF8 content bytes''"
definition unsupported_delay :: string where
  "unsupported_delay = ''CNet raw-byte profile does not implement delayed sends''"

definition raw_bytes :: "scxml_send_request \<Rightarrow> cbytes option" where
  "raw_bytes request =
     (case sr_payload request of
        SCXML_PAYLOAD_NONE \<Rightarrow> Some (sr_event request)
      | SCXML_PAYLOAD_CONTENT c \<Rightarrow>
          if cv_kind c = SCXML_CONTENT_TEXT_UTF8 then Some (cv_bytes c) else None
      | _ \<Rightarrow> None)"

text \<open>The section of \<^verbatim>\<open>prepare_send\<close> under the mutex.\<close>

definition reserve_row :: "string \<Rightarrow> cnet_egress \<Rightarrow> scxml_adapter_status \<times> nat option \<times> cnet_egress" where
  "reserve_row bytes e =
     (if eg_closed e \<or> eg_terminal e \<or> eg_failed e then (SCXML_ADAPTER_CLOSED, None, e)
      else if eg_pending e = eg_capacity e
      then (SCXML_ADAPTER_FULL, None, e\<lparr>eg_rejected_full := eg_rejected_full e + 1\<rparr>)
      else case first_index (\<lambda>row. er_state row = EGRESS_FREE) (eg_rows e) of
        None \<Rightarrow> (SCXML_ADAPTER_INVALID_CONTRACT, None,
                 e\<lparr>eg_invariant_failures := eg_invariant_failures e + 1\<rparr>)
      | Some i \<Rightarrow>
          (SCXML_ADAPTER_ACCEPTED, Some i,
           e\<lparr>eg_rows := (eg_rows e)[i := \<lparr>er_state = EGRESS_RESERVED, er_sequence = 0, er_bytes = bytes\<rparr>],
             eg_prepared := eg_prepared e + 1,
             eg_pending := eg_pending e + 1,
             eg_high_water := (if eg_pending e + 1 > eg_high_water e then eg_pending e + 1
                               else eg_high_water e)\<rparr>))"

definition egress_prepare_send ::
  "scxml_send_request \<Rightarrow> cnet_egress
     \<Rightarrow> scxml_adapter_status \<times> string option \<times> nat option \<times> cnet_egress" where
  "egress_prepare_send request e =
     (if csize (sr_event request) \<noteq> 0 \<and> is_cnull (sr_event request) \<or>
         csize (sr_target request) \<noteq> 0 \<and> is_cnull (sr_target request) \<or>
         csize (sr_type request) \<noteq> 0 \<and> is_cnull (sr_type request) \<or>
         csize (sr_id request) \<noteq> 0 \<and> is_cnull (sr_id request)
      then (SCXML_ADAPTER_INVALID_CONTRACT, None, None, e)
      else if csize (sr_type request) \<noteq> length SCXML_CNET_RAW_PROCESSOR_URI \<or>
              cdata (sr_type request) \<noteq> SCXML_CNET_RAW_PROCESSOR_URI
      then (SCXML_ADAPTER_ERROR_EXECUTION, Some unsupported_type, None, e)
      else if csize (sr_target request) \<noteq> length SCXML_CNET_BOUND_TARGET \<or>
              cdata (sr_target request) \<noteq> SCXML_CNET_BOUND_TARGET
      then (SCXML_ADAPTER_ERROR_COMMUNICATION, Some unsupported_target, None, e)
      else if sr_delay_ms request \<noteq> 0
      then (SCXML_ADAPTER_ERROR_EXECUTION, Some unsupported_delay, None, e)
      else case raw_bytes request of
        None \<Rightarrow> (SCXML_ADAPTER_ERROR_EXECUTION, Some unsupported_payload, None, e)
      | Some d \<Rightarrow>
          if is_cnull d \<or> csize d = 0 \<or> csize d > eg_max_payload_bytes e
          then (SCXML_ADAPTER_ERROR_EXECUTION, Some unsupported_payload, None, e)
          else (case reserve_row (cdata d) e of (st, t, e1) \<Rightarrow> (st, None, t, e1)))"

section \<open>Callbacks of the connection\<close>

definition cancel_row_when :: "(egress_row \<Rightarrow> bool) \<Rightarrow> nat \<Rightarrow> cnet_egress \<Rightarrow> cnet_egress" where
  "cancel_row_when P i e = (if P (eg_rows e ! i) then cancel_row i e else e)"

definition cancel_rows_where :: "(egress_row \<Rightarrow> bool) \<Rightarrow> cnet_egress \<Rightarrow> cnet_egress" where
  "cancel_rows_where P e = fold (cancel_row_when P) [0..<eg_capacity e] e"

definition egress_observe_state ::
  "cnet_connection \<Rightarrow> cnet_connection_state \<Rightarrow> salts_status option \<Rightarrow> cnet_egress \<Rightarrow> cnet_egress" where
  "egress_observe_state c state error e =
     (if \<not> eg_matches e c then e\<lparr>eg_stale_callbacks := eg_stale_callbacks e + 1\<rparr>
      else if state = CNET_CONNECTION_CONNECTED then e\<lparr>eg_connected := True\<rparr>
      else if state = CNET_CONNECTION_CLOSING then e\<lparr>eg_connected := False\<rparr>
      else if state = CNET_CONNECTION_CLOSED \<or> state = CNET_CONNECTION_FAILED
      then let e1 = e\<lparr>eg_connected := False, eg_terminal := True\<rparr>;
               e2 = (if state = CNET_CONNECTION_FAILED
                     then set_failure (case error of None \<Rightarrow> SALTS_EIO
                            | Some st \<Rightarrow> if st \<noteq> SALTS_OK then st else SALTS_EIO) e1
                     else e1)
           in cancel_rows_where (\<lambda>row. er_state row = EGRESS_READY \<or> er_state row = EGRESS_SUBMITTED) e2
      else e)"

definition egress_observe_send :: "cnet_connection \<Rightarrow> nat \<Rightarrow> cnet_egress \<Rightarrow> cnet_egress" where
  "egress_observe_send c written e =
     (if \<not> eg_matches e c \<or> eg_terminal e
      then e\<lparr>eg_stale_callbacks := eg_stale_callbacks e + 1\<rparr>
      else case earliest EGRESS_SUBMITTED e of
        None \<Rightarrow> set_failure SALTS_EPROTO (e\<lparr>eg_invariant_failures := eg_invariant_failures e + 1\<rparr>)
      | Some i \<Rightarrow>
          release_row i
            (if length (er_bytes (eg_rows e ! i)) = written then e\<lparr>eg_completed := eg_completed e + 1\<rparr>
             else set_failure SALTS_EPROTO e))"

definition adapter_close :: "cnet_egress \<Rightarrow> cnet_egress" where
  "adapter_close e =
     (if eg_closed e then e
      else cancel_rows_where (\<lambda>row. er_state row = EGRESS_READY) (e\<lparr>eg_closed := True\<rparr>))"

definition adapter_quiescent :: "cnet_egress \<Rightarrow> bool" where
  "adapter_quiescent e \<longleftrightarrow>
     eg_closed e \<and> eg_pending e = 0 \<and> \<not> eg_pumping e \<and> (\<not> eg_bound e \<or> eg_terminal e)"

section \<open>Setting up and closing\<close>

record cnet_egress_config =
  ec_client_null :: bool
  ec_capacity :: nat
  ec_max_payload_bytes :: nat

definition fresh_egress :: "cnet_egress_config \<Rightarrow> cnet_egress" where
  "fresh_egress cfg = \<lparr>eg_connection = \<lparr>conn_slot = 0, conn_generation = 0\<rparr>,
     eg_rows = replicate (ec_capacity cfg) blank_egress_row,
     eg_max_payload_bytes = ec_max_payload_bytes cfg, eg_pending = 0, eg_high_water = 0,
     eg_next_sequence = 0, eg_prepared = 0, eg_committed = 0, eg_discarded = 0, eg_submitted = 0,
     eg_completed = 0, eg_cancelled = 0, eg_rejected_full = 0, eg_transient_full = 0,
     eg_stale_callbacks = 0, eg_invariant_failures = 0, eg_bound = False, eg_connected = False,
     eg_terminal = False, eg_closed = False, eg_failed = False, eg_pumping = False,
     eg_first_error = SALTS_OK\<rparr>"

text \<open>\<open>row_limit\<close> is \<^verbatim>\<open>SIZE_MAX / sizeof(scxml_cnet_egress_row)\<close>.\<close>

definition scxml_cnet_egress_init ::
  "nat \<Rightarrow> bool \<Rightarrow> cnet_egress option \<Rightarrow> cnet_egress_config \<Rightarrow> salts_status \<times> cnet_egress option" where
  "scxml_cnet_egress_init row_limit alloc_ok handle cfg =
     (if handle \<noteq> None \<or> ec_client_null cfg \<or> ec_capacity cfg = 0 \<or> ec_capacity cfg > row_limit \<or>
         ec_max_payload_bytes cfg = 0 \<or> ec_max_payload_bytes cfg > SCXML_EVENT_METADATA_CAPACITY
      then (SALTS_EINVAL, handle)
      else if \<not> alloc_ok then (SALTS_ENOMEM, handle)
      else (SALTS_OK, Some (fresh_egress cfg)))"

definition scxml_cnet_egress_bind :: "cnet_connection \<Rightarrow> cnet_egress \<Rightarrow> salts_status \<times> cnet_egress" where
  "scxml_cnet_egress_bind c e =
     (if conn_generation c = 0 then (SALTS_EINVAL, e)
      else if eg_bound e \<or> eg_closed e then (SALTS_EBUSY, e)
      else (SALTS_OK, e\<lparr>eg_connection := c, eg_bound := True\<rparr>))"

definition scxml_cnet_egress_close :: "cnet_egress \<Rightarrow> salts_status \<times> cnet_egress" where
  "scxml_cnet_egress_close e =
     (if eg_closed e then (SALTS_EALREADY, e) else (SALTS_OK, adapter_close e))"

definition scxml_cnet_egress_is_quiescent :: "cnet_egress \<Rightarrow> bool" where
  "scxml_cnet_egress_is_quiescent e = adapter_quiescent e"

definition scxml_cnet_egress_destroy :: "cnet_egress option \<Rightarrow> salts_status \<times> cnet_egress option" where
  "scxml_cnet_egress_destroy handle =
     (case handle of
        None \<Rightarrow> (SALTS_OK, None)
      | Some e \<Rightarrow> if \<not> adapter_quiescent e then (SALTS_EBUSY, handle) else (SALTS_OK, None))"

section \<open>The pump\<close>

definition pump_begin :: "cnet_egress \<Rightarrow> salts_status \<times> cnet_egress" where
  "pump_begin e =
     (if eg_pumping e then (SALTS_EBUSY, e)
      else if eg_closed e \<or> eg_terminal e \<or> eg_failed e then (SALTS_ESHUTDOWN, e)
      else if \<not> eg_bound e \<or> \<not> eg_connected e then (SALTS_ENOTCONN, e)
      else (SALTS_OK, e\<lparr>eg_pumping := True\<rparr>))"

definition pump_claim :: "cnet_egress \<Rightarrow> (nat \<times> string \<times> cnet_egress) option" where
  "pump_claim e =
     (case earliest EGRESS_READY e of
        None \<Rightarrow> None
      | Some i \<Rightarrow>
          if eg_closed e \<or> eg_terminal e then None
          else Some (i, er_bytes (eg_rows e ! i), set_row_state i EGRESS_SUBMITTING e))"

definition pump_no_buffer :: "nat \<Rightarrow> cnet_egress \<Rightarrow> cnet_egress" where
  "pump_no_buffer i e =
     (if eg_closed e then cancel_row i e else set_row_state i EGRESS_READY e)"

text \<open>The section after \<^verbatim>\<open>cnet_send_buffer\<close>: the result, the count and the egress.\<close>

definition pump_settle ::
  "nat \<Rightarrow> salts_status \<Rightarrow> salts_status \<Rightarrow> nat \<Rightarrow> cnet_egress \<Rightarrow> salts_status \<times> nat \<times> cnet_egress" where
  "pump_settle i status result completed e =
     (if er_state (eg_rows e ! i) \<noteq> EGRESS_SUBMITTING
      then (SALTS_EPROTO, completed,
            set_failure SALTS_EPROTO (e\<lparr>eg_invariant_failures := eg_invariant_failures e + 1\<rparr>))
      else if status = SALTS_OK
      then (result, completed + 1,
            (set_row_state i EGRESS_SUBMITTED e)\<lparr>eg_submitted := eg_submitted e + 1\<rparr>)
      else if eg_closed e \<or> eg_terminal e then (status, completed, cancel_row i e)
      else if status = SALTS_ENOBUFS \<or> status = SALTS_EBUSY
      then (status, completed,
            (set_row_state i EGRESS_READY e)\<lparr>eg_transient_full := eg_transient_full e + 1\<rparr>)
      else (status, completed, release_row i (set_failure status e)))"

text \<open>
  The loop. It counts only accepted writes, so with a \<^verbatim>\<open>cnet_send_buffer\<close> that returned OK but
  changed the state of the row it would not progress; the value \<^term>\<open>None\<close> means that it does
  not return.
\<close>

partial_function (option) pump_loop ::
  "(nat \<Rightarrow> cnet_egress \<times> 'w \<Rightarrow> bool \<times> cnet_egress \<times> 'w) \<Rightarrow>
   (cnet_connection \<Rightarrow> string \<Rightarrow> cnet_egress \<times> 'w \<Rightarrow> salts_status \<times> cnet_egress \<times> 'w) \<Rightarrow>
   nat \<Rightarrow> salts_status \<Rightarrow> nat \<Rightarrow> cnet_egress \<Rightarrow> 'w \<Rightarrow> (salts_status \<times> nat \<times> cnet_egress \<times> 'w) option" where
  "pump_loop get_buffer send_buffer max_writes result completed e w =
     (if completed < max_writes then
        (case pump_claim e of
           None \<Rightarrow> Some (result, completed, e, w)
         | Some (i, bytes, e1) \<Rightarrow>
             (case get_buffer (length bytes) (e1, w) of (ok, e2, w2) \<Rightarrow>
                if \<not> ok then Some (SALTS_ENOMEM, completed, pump_no_buffer i e2, w2)
                else if eg_closed e2 \<or> eg_terminal e2
                then Some (result, completed, cancel_row i e2, w2)
                else (case send_buffer (eg_connection e2) bytes (e2, w2) of (status, e3, w3) \<Rightarrow>
                  (case pump_settle i status result completed e3 of (result', completed', e4) \<Rightarrow>
                    if status \<noteq> SALTS_OK then Some (result', completed', e4, w3)
                    else pump_loop get_buffer send_buffer max_writes result' completed' e4 w3))))
      else Some (result, completed, e, w))"

declare pump_loop.simps [code]

definition scxml_cnet_egress_pump ::
  "(nat \<Rightarrow> cnet_egress \<times> 'w \<Rightarrow> bool \<times> cnet_egress \<times> 'w) \<Rightarrow>
   (cnet_connection \<Rightarrow> string \<Rightarrow> cnet_egress \<times> 'w \<Rightarrow> salts_status \<times> cnet_egress \<times> 'w) \<Rightarrow>
   nat \<Rightarrow> cnet_egress \<Rightarrow> 'w \<Rightarrow> (salts_status \<times> nat \<times> cnet_egress \<times> 'w) option" where
  "scxml_cnet_egress_pump get_buffer send_buffer max_writes e w =
     (if max_writes = 0 then Some (SALTS_EINVAL, 0, e, w)
      else case pump_begin e of (st, e1) \<Rightarrow>
        if st \<noteq> SALTS_OK then Some (st, 0, e1, w)
        else map_option (\<lambda>(result, completed, e2, w2). (result, completed, e2\<lparr>eg_pumping := False\<rparr>, w2))
               (pump_loop get_buffer send_buffer max_writes SALTS_OK 0 e1 w))"

end
