(* ===== verification/Cnet_Egress_Inv.thy ===== *)
theory Cnet_Egress_Inv
  imports Cnet_Egress
begin

text \<open>
  The invariant of the CNet egress: exact counters, clean free rows, unique commit numbers, at
  most one row in the hands of the pump, and lane order, by which rows already written precede
  the row being written, which precedes the rows that wait.
\<close>

section \<open>The invariant\<close>

definition busy :: "egress_row \<Rightarrow> bool" where
  "busy row \<longleftrightarrow> er_state row \<noteq> EGRESS_FREE"

definition submitting :: "egress_row \<Rightarrow> bool" where
  "submitting row \<longleftrightarrow> er_state row = EGRESS_SUBMITTING"

definition in_lane :: "egress_row \<Rightarrow> bool" where
  "in_lane row \<longleftrightarrow> er_state row = EGRESS_READY \<or> er_state row = EGRESS_SUBMITTING \<or>
     er_state row = EGRESS_SUBMITTED"

fun lane_rank :: "egress_row_state \<Rightarrow> nat" where
  "lane_rank EGRESS_SUBMITTED = 0"
| "lane_rank EGRESS_SUBMITTING = 1"
| "lane_rank _ = 2"

definition lane_before :: "egress_row \<Rightarrow> egress_row \<Rightarrow> bool" where
  "lane_before a b \<longleftrightarrow> in_lane a \<and> in_lane b \<and> lane_rank (er_state a) < lane_rank (er_state b)"

text \<open>What holds of one row on its own, and of two rows of the table.\<close>

definition egress_row_ok :: "nat \<Rightarrow> u64 \<Rightarrow> egress_row \<Rightarrow> bool" where
  "egress_row_ok mx next_seq row \<longleftrightarrow>
     (\<not> busy row \<longrightarrow> row = blank_egress_row) \<and>
     (busy row \<longrightarrow> er_bytes row \<noteq> [] \<and> length (er_bytes row) \<le> mx) \<and>
     (in_lane row \<longrightarrow> er_sequence row \<le> next_seq)"

definition pair_ok :: "egress_row \<Rightarrow> egress_row \<Rightarrow> bool" where
  "pair_ok a b \<longleftrightarrow>
     (in_lane a \<and> in_lane b \<longrightarrow> er_sequence a \<noteq> er_sequence b) \<and>
     \<not> (submitting a \<and> submitting b) \<and>
     (lane_before a b \<longrightarrow> er_sequence a < er_sequence b) \<and>
     (lane_before b a \<longrightarrow> er_sequence b < er_sequence a)"

definition rows_ok :: "nat \<Rightarrow> u64 \<Rightarrow> egress_row list \<Rightarrow> bool" where
  "rows_ok mx next_seq rows \<longleftrightarrow> (\<forall>row\<in>set rows. egress_row_ok mx next_seq row) \<and>
     (\<forall>i<length rows. \<forall>j<length rows. i \<noteq> j \<longrightarrow> pair_ok (rows ! i) (rows ! j))"

definition eg_core :: "cnet_egress \<Rightarrow> bool" where
  "eg_core e \<longleftrightarrow> rows_ok (eg_max_payload_bytes e) (eg_next_sequence e) (eg_rows e) \<and>
     eg_pending e = count_if busy (eg_rows e) \<and>
     eg_pending e \<le> eg_high_water e \<and> eg_high_water e \<le> eg_capacity e \<and>
     eg_max_payload_bytes e \<le> SCXML_EVENT_METADATA_CAPACITY \<and>
     (\<not> eg_failed e \<longrightarrow>
        eg_prepared e = of_nat (eg_pending e) + eg_discarded e + eg_completed e + eg_cancelled e)"

definition eg_inv :: "cnet_egress \<Rightarrow> bool" where
  "eg_inv e \<longleftrightarrow> eg_core e \<and>
     (\<not> eg_pumping e \<longrightarrow> (\<forall>row\<in>set (eg_rows e). \<not> submitting row)) \<and>
     (eg_closed e \<or> eg_terminal e \<longrightarrow> (\<forall>row\<in>set (eg_rows e). er_state row \<noteq> EGRESS_READY))"

section \<open>Changing one row\<close>

lemma pair_ok_sym: "pair_ok a b = pair_ok b a"
  by (auto simp: pair_ok_def)

lemma rows_ok_update:
  assumes "rows_ok mx nx rows" "i < length rows" "nx \<le> nx'" "egress_row_ok mx nx' y"
    and "\<And>j. j < length rows \<Longrightarrow> j \<noteq> i \<Longrightarrow> pair_ok (rows ! j) y"
  shows "rows_ok mx nx' (rows[i := y])"
proof -
  have single: "egress_row_ok mx nx' row" if "row \<in> set rows" for row
    using assms(1,3) that by (auto simp: rows_ok_def egress_row_ok_def)
  have "\<forall>row\<in>set (rows[i := y]). egress_row_ok mx nx' row"
    using single assms(4) by (intro all_set_updateI) auto
  moreover have "pair_ok (rows[i := y] ! a) (rows[i := y] ! b)"
    if "a < length rows" "b < length rows" "a \<noteq> b" for a b
    using that assms(1,2,5) pair_ok_sym [of y]
    by (cases "a = i"; cases "b = i") (auto simp: rows_ok_def)
  ultimately show ?thesis by (simp add: rows_ok_def)
qed

lemma rows_okD:
  "rows_ok mx nx rows \<Longrightarrow> i < length rows \<Longrightarrow> egress_row_ok mx nx (rows ! i)"
  "rows_ok mx nx rows \<Longrightarrow> i < length rows \<Longrightarrow> j < length rows \<Longrightarrow> i \<noteq> j \<Longrightarrow> pair_ok (rows ! i) (rows ! j)"
  by (simp_all add: rows_ok_def)

lemma blank_row_ok [simp]: "egress_row_ok mx nx blank_egress_row" "pair_ok a blank_egress_row"
  "\<not> busy blank_egress_row" "\<not> in_lane blank_egress_row" "\<not> submitting blank_egress_row"
  "er_state blank_egress_row = EGRESS_FREE"
  by (simp_all add: egress_row_ok_def pair_ok_def busy_def in_lane_def submitting_def lane_before_def
      blank_egress_row_def)

lemmas lane_simps = busy_def in_lane_def submitting_def lane_before_def

lemma eg_coreD:
  assumes "eg_core e"
  shows "rows_ok (eg_max_payload_bytes e) (eg_next_sequence e) (eg_rows e)"
    "eg_pending e = count_if busy (eg_rows e)" "eg_pending e \<le> eg_high_water e"
    "eg_high_water e \<le> eg_capacity e"
  using assms by (simp_all add: eg_core_def)

lemma release_row_rows:
  assumes "eg_pending e = count_if busy (eg_rows e)" "i < eg_capacity e" "busy (eg_rows e ! i)"
  shows "release_row i e = e\<lparr>eg_rows := (eg_rows e)[i := blank_egress_row], eg_pending := eg_pending e - 1\<rparr>"
  using assms count_if_pos [of i "eg_rows e" busy] by (simp add: release_row_def busy_def)

text \<open>Releasing a row, where the caller has counted it or the egress has failed.\<close>

lemma release_row_core:
  assumes core: "eg_core e" and i: "i < eg_capacity e" "busy (eg_rows e ! i)"
    and e1: "eg_rows e1 = eg_rows e" "eg_pending e1 = eg_pending e" "eg_high_water e1 = eg_high_water e"
      "eg_max_payload_bytes e1 = eg_max_payload_bytes e" "eg_next_sequence e1 = eg_next_sequence e"
    and count: "\<not> eg_failed e1 \<Longrightarrow> \<not> eg_failed e \<and> eg_prepared e1 = eg_prepared e \<and>
      eg_discarded e1 + eg_completed e1 + eg_cancelled e1 = eg_discarded e + eg_completed e + eg_cancelled e + 1"
  shows "eg_core (release_row i e1)"
proof -
  note C = eg_coreD [OF core]
  have pos: "0 < eg_pending e" using C(2) i count_if_pos by metis
  have rel: "release_row i e1 =
      e1\<lparr>eg_rows := (eg_rows e1)[i := blank_egress_row], eg_pending := eg_pending e1 - 1\<rparr>"
    using C(2) i by (intro release_row_rows) (simp_all add: e1)
  have "rows_ok (eg_max_payload_bytes e) (eg_next_sequence e) ((eg_rows e)[i := blank_egress_row])"
    by (rule rows_ok_update [OF C(1) i(1)]) simp_all
  moreover have "count_if busy ((eg_rows e)[i := blank_egress_row]) = eg_pending e - 1"
    using C(2) i by (simp add: count_if_update_del)
  moreover have "eg_prepared e1 = of_nat (eg_pending e - 1) + eg_discarded e1 + eg_completed e1 + eg_cancelled e1"
    if "\<not> eg_failed e1"
  proof -
    have "eg_prepared e = of_nat (eg_pending e) + eg_discarded e + eg_completed e + eg_cancelled e"
      using core count [OF that] by (simp add: eg_core_def)
    moreover have "(of_nat (eg_pending e) :: u64) = of_nat (eg_pending e - 1) + 1"
      using pos by (metis Suc_diff_1 of_nat_Suc add.commute)
    ultimately show ?thesis using count [OF that] by (simp add: algebra_simps)
  qed
  moreover have "eg_pending e - 1 \<le> eg_high_water e" using C(3) by simp
  ultimately show ?thesis
    using core by (simp add: eg_core_def rel e1)
qed

lemma cancel_row_core:
  assumes "eg_core e" "i < eg_capacity e" "busy (eg_rows e ! i)"
  shows "eg_core (cancel_row i e)"
  unfolding cancel_row_def
  by (rule release_row_core [OF assms]) (simp_all add: algebra_simps)

lemma cancel_row_rows:
  assumes "eg_core e" "i < eg_capacity e" "busy (eg_rows e ! i)"
  shows "eg_rows (cancel_row i e) = (eg_rows e)[i := blank_egress_row]"
  using eg_coreD(2) [OF assms(1)] assms(2,3) unfolding cancel_row_def by (subst release_row_rows) simp_all

text \<open>Changing the state of an occupied row.\<close>

lemma set_row_state_core:
  assumes core: "eg_core e" and i: "i < eg_capacity e" "in_lane (eg_rows e ! i)"
    and st: "st = EGRESS_READY \<or> st = EGRESS_SUBMITTING \<or> st = EGRESS_SUBMITTED"
    and pair: "\<And>j. j < eg_capacity e \<Longrightarrow> j \<noteq> i \<Longrightarrow>
      pair_ok (eg_rows e ! j) ((eg_rows e ! i)\<lparr>er_state := st\<rparr>)"
  shows "eg_core (set_row_state i st e)"
proof -
  note C = eg_coreD [OF core]
  let ?y = "(eg_rows e ! i)\<lparr>er_state := st\<rparr>"
  have "egress_row_ok (eg_max_payload_bytes e) (eg_next_sequence e) ?y"
    using rows_okD(1) [OF C(1) i(1)] i(2) st by (auto simp: egress_row_ok_def lane_simps)
  then have "rows_ok (eg_max_payload_bytes e) (eg_next_sequence e) ((eg_rows e)[i := ?y])"
    using pair by (intro rows_ok_update [OF C(1) i(1)]) simp_all
  moreover have "count_if busy ((eg_rows e)[i := ?y]) = eg_pending e"
    unfolding C(2) using i st by (intro count_if_update_same) (auto simp: lane_simps)
  ultimately show ?thesis using core by (simp add: eg_core_def set_row_state_def)
qed

section \<open>Selection\<close>

interpretation egress_order: keyed_rows egress_before er_sequence
  by unfold_locales (simp add: egress_before_def)

lemma earliest_SomeD:
  assumes "earliest st e = Some i"
  shows "i < eg_capacity e" "er_state (eg_rows e ! i) = st"
    "\<And>j. j < eg_capacity e \<Longrightarrow> er_state (eg_rows e ! j) = st \<Longrightarrow> er_sequence (eg_rows e ! i) \<le> er_sequence (eg_rows e ! j)"
  using egress_order.earliest_row_SomeD [OF assms [unfolded earliest_def]]
  by (auto simp: egress_before_def not_less)

lemma pair_laneD:
  assumes "pair_ok a b"
  shows "in_lane a \<Longrightarrow> in_lane b \<Longrightarrow> er_sequence a \<noteq> er_sequence b" "\<not> (submitting a \<and> submitting b)"
    "lane_before a b \<Longrightarrow> er_sequence a < er_sequence b" "lane_before b a \<Longrightarrow> er_sequence b < er_sequence a"
  using assms by (auto simp: pair_ok_def)

text \<open>The three moves of the pump.\<close>

lemma claim_core:
  assumes core: "eg_core e" and i: "earliest EGRESS_READY e = Some i"
    and none: "\<forall>row\<in>set (eg_rows e). \<not> submitting row"
  shows "eg_core (set_row_state i EGRESS_SUBMITTING e)"
proof (rule set_row_state_core [OF core])
  note S = earliest_SomeD [OF i]
  show "i < eg_capacity e" "in_lane (eg_rows e ! i)" using S by (auto simp: lane_simps)
  fix j assume j: "j < eg_capacity e" "j \<noteq> i"
  note P = rows_okD(2) [OF eg_coreD(1) [OF core] j(1) S(1) j(2)]
  have "\<not> submitting (eg_rows e ! j)" using none j(1) by simp
  moreover have "er_state (eg_rows e ! j) = EGRESS_READY \<Longrightarrow> er_sequence (eg_rows e ! i) < er_sequence (eg_rows e ! j)"
    using S(3) [OF j(1)] pair_laneD(1) [OF P] S(2) by (auto simp: lane_simps order_le_less)
  ultimately show "pair_ok (eg_rows e ! j) ((eg_rows e ! i)\<lparr>er_state := EGRESS_SUBMITTING\<rparr>)"
    using P S(2) by (cases "er_state (eg_rows e ! j)") (auto simp: pair_ok_def lane_simps)
qed simp

lemma settle_core:
  assumes core: "eg_core e" and i: "i < eg_capacity e" "submitting (eg_rows e ! i)"
    and st: "st = EGRESS_READY \<or> st = EGRESS_SUBMITTED"
  shows "eg_core (set_row_state i st e)"
proof (rule set_row_state_core [OF core i(1)])
  show "in_lane (eg_rows e ! i)" using i by (auto simp: lane_simps)
  show "st = EGRESS_READY \<or> st = EGRESS_SUBMITTING \<or> st = EGRESS_SUBMITTED" using st by auto
  fix j assume j: "j < eg_capacity e" "j \<noteq> i"
  note P = rows_okD(2) [OF eg_coreD(1) [OF core] j(1) i(1) j(2)]
  then show "pair_ok (eg_rows e ! j) ((eg_rows e ! i)\<lparr>er_state := st\<rparr>)"
    using i(2) st by (cases "er_state (eg_rows e ! j)") (auto simp: pair_ok_def lane_simps)
qed

lemma commit_core:
  assumes core: "eg_core e" and i: "i < eg_capacity e" "er_state (eg_rows e ! i) = EGRESS_RESERVED"
    and room: "eg_next_sequence e \<noteq> UINT64_MAX"
  shows "eg_core (e\<lparr>eg_rows := (eg_rows e)[i := (eg_rows e ! i)\<lparr>er_state := EGRESS_READY,
      er_sequence := eg_next_sequence e + 1\<rparr>], eg_next_sequence := eg_next_sequence e + 1,
      eg_committed := eg_committed e + 1\<rparr>)"
proof -
  note C = eg_coreD [OF core]
  let ?y = "(eg_rows e ! i)\<lparr>er_state := EGRESS_READY, er_sequence := eg_next_sequence e + 1\<rparr>"
  have below: "in_lane (eg_rows e ! j) \<Longrightarrow> er_sequence (eg_rows e ! j) < eg_next_sequence e + 1"
    if "j < eg_capacity e" for j
    using rows_okD(1) [OF C(1) that] le_less_Suc_guard [OF room] by (simp add: egress_row_ok_def)
  have "rows_ok (eg_max_payload_bytes e) (eg_next_sequence e + 1) ((eg_rows e)[i := ?y])"
  proof (rule rows_ok_update [OF C(1) i(1)])
    show "eg_next_sequence e \<le> eg_next_sequence e + 1" using less_Suc_guard [OF room] by simp
    show "egress_row_ok (eg_max_payload_bytes e) (eg_next_sequence e + 1) ?y"
      using rows_okD(1) [OF C(1) i(1)] i(2) by (auto simp: egress_row_ok_def lane_simps)
    fix j assume "j < eg_capacity e" "j \<noteq> i"
    with below [of j] show "pair_ok (eg_rows e ! j) ?y"
      by (cases "er_state (eg_rows e ! j)") (auto simp: pair_ok_def lane_simps)
  qed
  moreover have "count_if busy ((eg_rows e)[i := ?y]) = eg_pending e"
    unfolding C(2) using i by (intro count_if_update_same) (auto simp: lane_simps)
  ultimately show ?thesis using core by (simp add: eg_core_def)
qed

lemma reserve_core:
  assumes core: "eg_core e" and i: "i < eg_capacity e" "er_state (eg_rows e ! i) = EGRESS_FREE"
    and bytes: "bytes \<noteq> []" "length bytes \<le> eg_max_payload_bytes e"
  shows "eg_core (e\<lparr>eg_rows := (eg_rows e)[i := \<lparr>er_state = EGRESS_RESERVED, er_sequence = 0, er_bytes = bytes\<rparr>],
      eg_prepared := eg_prepared e + 1, eg_pending := eg_pending e + 1,
      eg_high_water := (if eg_pending e + 1 > eg_high_water e then eg_pending e + 1 else eg_high_water e)\<rparr>)"
proof -
  note C = eg_coreD [OF core]
  let ?y = "\<lparr>er_state = EGRESS_RESERVED, er_sequence = 0, er_bytes = bytes\<rparr>"
  have "rows_ok (eg_max_payload_bytes e) (eg_next_sequence e) ((eg_rows e)[i := ?y])"
    by (rule rows_ok_update [OF C(1) i(1)])
       (use bytes in \<open>auto simp: egress_row_ok_def pair_ok_def lane_simps\<close>)
  moreover have n: "count_if busy ((eg_rows e)[i := ?y]) = eg_pending e + 1"
    unfolding C(2) using i by (simp add: count_if_update_add lane_simps)
  moreover have "eg_pending e + 1 \<le> eg_capacity e"
    using n count_if_le [of busy "(eg_rows e)[i := ?y]"] by simp
  ultimately show ?thesis using core by (auto simp: eg_core_def algebra_simps)
qed

section \<open>Operations\<close>

lemma eg_core_statistics [simp]:
  "eg_core (e\<lparr>eg_invariant_failures := x\<rparr>) = eg_core e"
  "eg_core (e\<lparr>eg_rejected_full := x\<rparr>) = eg_core e"
  "eg_core (e\<lparr>eg_stale_callbacks := x\<rparr>) = eg_core e"
  "eg_core (e\<lparr>eg_transient_full := x\<rparr>) = eg_core e"
  "eg_core (e\<lparr>eg_submitted := x\<rparr>) = eg_core e"
  "eg_core (e\<lparr>eg_connected := b\<rparr>) = eg_core e"
  "eg_core (e\<lparr>eg_terminal := b\<rparr>) = eg_core e"
  "eg_core (e\<lparr>eg_closed := b\<rparr>) = eg_core e"
  "eg_core (e\<lparr>eg_pumping := b\<rparr>) = eg_core e"
  "eg_core (e\<lparr>eg_bound := b\<rparr>) = eg_core e"
  "eg_core (e\<lparr>eg_connection := c\<rparr>) = eg_core e"
  by (simp_all add: eg_core_def)

lemma set_failure_frame [simp]:
  "eg_rows (set_failure st e) = eg_rows e" "eg_pumping (set_failure st e) = eg_pumping e"
  "eg_closed (set_failure st e) = eg_closed e" "eg_terminal (set_failure st e) = eg_terminal e"
  "eg_bound (set_failure st e) = eg_bound e" "eg_failed (set_failure st e)"
  "eg_pending (set_failure st e) = eg_pending e" "eg_high_water (set_failure st e) = eg_high_water e"
  "eg_max_payload_bytes (set_failure st e) = eg_max_payload_bytes e"
  "eg_next_sequence (set_failure st e) = eg_next_sequence e"
  "eg_connection (set_failure st e) = eg_connection e"
  by (simp_all add: set_failure_def)

lemma set_failure_core [simp]: "eg_core e \<Longrightarrow> eg_core (set_failure st e)"
  by (simp add: set_failure_def eg_core_def)

lemma release_row_frame [simp]:
  "eg_pumping (release_row i e) = eg_pumping e" "eg_closed (release_row i e) = eg_closed e"
  "eg_terminal (release_row i e) = eg_terminal e" "eg_bound (release_row i e) = eg_bound e"
  "eg_capacity (release_row i e) = eg_capacity e" "eg_connection (release_row i e) = eg_connection e"
  "eg_failed (release_row i e) = eg_failed e" "eg_next_sequence (release_row i e) = eg_next_sequence e"
  by (simp_all add: release_row_def)

lemma cancel_row_frame [simp]:
  "eg_pumping (cancel_row i e) = eg_pumping e" "eg_closed (cancel_row i e) = eg_closed e"
  "eg_terminal (cancel_row i e) = eg_terminal e" "eg_bound (cancel_row i e) = eg_bound e"
  "eg_capacity (cancel_row i e) = eg_capacity e" "eg_connection (cancel_row i e) = eg_connection e"
  "eg_failed (cancel_row i e) = eg_failed e" "eg_next_sequence (cancel_row i e) = eg_next_sequence e"
  by (simp_all add: cancel_row_def)

lemma fold_cancel_where:
  assumes core: "eg_core e" and P: "\<And>row. P row \<Longrightarrow> busy row" and cap: "\<forall>i\<in>set ks. i < eg_capacity e"
  shows "eg_core (fold (cancel_row_when P) ks e) \<and>
    eg_rows (fold (cancel_row_when P) ks e) =
      map (\<lambda>k. if k \<in> set ks \<and> P (eg_rows e ! k) then blank_egress_row else eg_rows e ! k) [0..<eg_capacity e] \<and>
    eg_pumping (fold (cancel_row_when P) ks e) = eg_pumping e \<and>
    eg_closed (fold (cancel_row_when P) ks e) = eg_closed e \<and>
    eg_terminal (fold (cancel_row_when P) ks e) = eg_terminal e \<and>
    eg_bound (fold (cancel_row_when P) ks e) = eg_bound e"
  using core cap
proof (induction ks arbitrary: e)
  case Nil
  then show ?case by (simp add: map_nth)
next
  case (Cons i ks)
  let ?e = "cancel_row_when P i e"
  have i: "i < eg_capacity e" using Cons.prems by simp
  have core: "eg_core ?e" and rows: "eg_rows ?e = (if P (eg_rows e ! i) then (eg_rows e)[i := blank_egress_row] else eg_rows e)"
    using Cons.prems(1) i P [of "eg_rows e ! i"]
    by (auto simp: cancel_row_when_def cancel_row_core cancel_row_rows)
  have frame: "eg_pumping ?e = eg_pumping e" "eg_closed ?e = eg_closed e" "eg_terminal ?e = eg_terminal e"
    "eg_bound ?e = eg_bound e" "eg_capacity ?e = eg_capacity e"
    by (simp_all add: cancel_row_when_def)
  have noP: "\<not> P blank_egress_row" using P by fastforce
  have "(if k \<in> set ks \<and> P (eg_rows ?e ! k) then blank_egress_row else eg_rows ?e ! k) =
      (if k \<in> set (i # ks) \<and> P (eg_rows e ! k) then blank_egress_row else eg_rows e ! k)"
    if "k < eg_capacity e" for k
    using that noP i by (cases "k = i") (auto simp: rows)
  moreover note Cons.IH [OF core] Cons.prems(2) frame
  ultimately show ?case by (simp cong: map_cong)
qed

lemma cancel_rows_where:
  assumes core: "eg_core e" and P: "\<And>row. P row \<Longrightarrow> busy row"
  shows "eg_core (cancel_rows_where P e)"
    "eg_rows (cancel_rows_where P e) = map (\<lambda>row. if P row then blank_egress_row else row) (eg_rows e)"
    "eg_pumping (cancel_rows_where P e) = eg_pumping e" "eg_closed (cancel_rows_where P e) = eg_closed e"
    "eg_terminal (cancel_rows_where P e) = eg_terminal e" "eg_bound (cancel_rows_where P e) = eg_bound e"
proof -
  note F = fold_cancel_where [OF core P, where ks = "[0..<eg_capacity e]", folded cancel_rows_where_def]
  show "eg_core (cancel_rows_where P e)" "eg_pumping (cancel_rows_where P e) = eg_pumping e"
    "eg_closed (cancel_rows_where P e) = eg_closed e" "eg_terminal (cancel_rows_where P e) = eg_terminal e"
    "eg_bound (cancel_rows_where P e) = eg_bound e"
    using F by simp_all
  show "eg_rows (cancel_rows_where P e) = map (\<lambda>row. if P row then blank_egress_row else row) (eg_rows e)"
    using F by (auto intro: nth_equalityI)
qed

lemma eg_invD:
  assumes "eg_inv e"
  shows "eg_core e" "\<not> eg_pumping e \<Longrightarrow> row \<in> set (eg_rows e) \<Longrightarrow> \<not> submitting row"
    "eg_closed e \<or> eg_terminal e \<Longrightarrow> row \<in> set (eg_rows e) \<Longrightarrow> er_state row \<noteq> EGRESS_READY"
  using assms by (auto simp: eg_inv_def)

lemma eg_inv_rowI:
  assumes "eg_inv e" "eg_core e1" "eg_rows e1 = (eg_rows e)[i := y]" "eg_pumping e1 = eg_pumping e"
    "eg_closed e1 = eg_closed e" "eg_terminal e1 = eg_terminal e"
    and "submitting y \<Longrightarrow> eg_pumping e" "er_state y = EGRESS_READY \<Longrightarrow> \<not> eg_closed e \<and> \<not> eg_terminal e"
  shows "eg_inv e1"
proof -
  have rows: "row \<in> set (eg_rows e1) \<Longrightarrow> row = y \<or> row \<in> set (eg_rows e)" for row
    using assms(3) by (metis set_update_memD)
  have "\<forall>row\<in>set (eg_rows e1). \<not> submitting row" if "\<not> eg_pumping e1"
    using rows that assms(4,7) eg_invD(2) [OF assms(1)] by metis
  moreover have "\<forall>row\<in>set (eg_rows e1). er_state row \<noteq> EGRESS_READY" if "eg_closed e1 \<or> eg_terminal e1"
    using rows that assms(5,6,8) eg_invD(3) [OF assms(1)] by metis
  ultimately show ?thesis using assms(2) by (simp add: eg_inv_def)
qed

lemma eg_inv_statistics [simp]:
  "eg_inv (e\<lparr>eg_invariant_failures := x\<rparr>) = eg_inv e" "eg_inv (e\<lparr>eg_rejected_full := x\<rparr>) = eg_inv e"
  "eg_inv (e\<lparr>eg_stale_callbacks := x\<rparr>) = eg_inv e" "eg_inv (e\<lparr>eg_transient_full := x\<rparr>) = eg_inv e"
  "eg_inv (e\<lparr>eg_submitted := x\<rparr>) = eg_inv e" "eg_inv (e\<lparr>eg_connected := b\<rparr>) = eg_inv e"
  by (simp_all add: eg_inv_def)

lemma set_failure_inv [simp]: "eg_inv e \<Longrightarrow> eg_inv (set_failure st e)"
  by (simp add: eg_inv_def)

lemma cancel_row_inv:
  assumes "eg_inv e" "i < eg_capacity e" "busy (eg_rows e ! i)"
  shows "eg_inv (cancel_row i e)"
  by (rule eg_inv_rowI [OF assms(1) cancel_row_core cancel_row_rows]) (use assms eg_invD(1) in simp_all)

lemma reserve_row_inv:
  assumes "eg_inv e" "bytes \<noteq> []" "length bytes \<le> eg_max_payload_bytes e" "reserve_row bytes e = (st, t, e')"
  shows "eg_inv e'"
proof (cases t)
  case None
  with assms(1,4) show ?thesis by (auto simp: reserve_row_def split: if_splits option.splits)
next
  case (Some i)
  with assms(4) have i: "first_index (\<lambda>row. er_state row = EGRESS_FREE) (eg_rows e) = Some i"
    and e': "e' = e\<lparr>eg_rows := (eg_rows e)[i := \<lparr>er_state = EGRESS_RESERVED, er_sequence = 0, er_bytes = bytes\<rparr>],
      eg_prepared := eg_prepared e + 1, eg_pending := eg_pending e + 1,
      eg_high_water := (if eg_pending e + 1 > eg_high_water e then eg_pending e + 1 else eg_high_water e)\<rparr>"
    by (auto simp: reserve_row_def split: if_splits option.splits)
  note I = first_index_SomeD [OF i]
  have "eg_core e'" unfolding e' by (rule reserve_core) (use assms I eg_invD(1) in auto)
  then show ?thesis
    by (rule eg_inv_rowI [OF assms(1), where i = i
        and y = "\<lparr>er_state = EGRESS_RESERVED, er_sequence = 0, er_bytes = bytes\<rparr>"])
       (simp_all add: e' lane_simps)
qed

lemma prepare_send_inv:
  assumes "eg_inv e" "egress_prepare_send request e = (st, err, t, e')"
  shows "eg_inv e'"
proof -
  have nonempty: "\<not> is_cnull d \<Longrightarrow> csize d \<noteq> 0 \<Longrightarrow> cdata d \<noteq> [] \<and> length (cdata d) = csize d" for d
    by (cases d) auto
  show ?thesis
    using assms nonempty
    by (auto simp: egress_prepare_send_def dest!: reserve_row_inv [rotated 3]
        split: if_splits option.splits prod.splits)
qed

lemma egress_ticket_commit_inv:
  assumes inv: "eg_inv e" and i: "i < eg_capacity e" and room: "eg_next_sequence e \<noteq> UINT64_MAX"
  shows "eg_inv (egress_ticket_commit i e)"
proof -
  consider (bad) "er_state (eg_rows e ! i) \<noteq> EGRESS_RESERVED"
    | (drop) "er_state (eg_rows e ! i) = EGRESS_RESERVED" "eg_closed e \<or> eg_terminal e"
    | (publish) "er_state (eg_rows e ! i) = EGRESS_RESERVED" "\<not> (eg_closed e \<or> eg_terminal e)" by blast
  then show ?thesis
  proof cases
    case bad
    with inv show ?thesis by (simp add: egress_ticket_commit_def)
  next
    case drop
    with inv i show ?thesis by (simp add: egress_ticket_commit_def cancel_row_inv busy_def)
  next
    case publish
    note core = commit_core [OF eg_invD(1) [OF inv] i publish(1) room]
    have eq: "egress_ticket_commit i e = e\<lparr>eg_rows := (eg_rows e)[i := (eg_rows e ! i)\<lparr>er_state := EGRESS_READY,
        er_sequence := eg_next_sequence e + 1\<rparr>], eg_next_sequence := eg_next_sequence e + 1,
        eg_committed := eg_committed e + 1\<rparr>"
      using publish by (simp add: egress_ticket_commit_def)
    show ?thesis unfolding eq
      by (rule eg_inv_rowI [OF inv core, where i = i and y = "(eg_rows e ! i)\<lparr>er_state := EGRESS_READY,
        er_sequence := eg_next_sequence e + 1\<rparr>"]) (use publish in \<open>simp_all add: lane_simps\<close>)
  qed
qed

lemma egress_ticket_discard_inv:
  assumes inv: "eg_inv e" and i: "i < eg_capacity e"
  shows "eg_inv (egress_ticket_discard i e)"
proof (cases "er_state (eg_rows e ! i) = EGRESS_RESERVED")
  case False
  with inv show ?thesis by (simp add: egress_ticket_discard_def)
next
  case True
  let ?e = "e\<lparr>eg_discarded := eg_discarded e + 1\<rparr>"
  have busy: "busy (eg_rows e ! i)" using True by (simp add: busy_def)
  have "eg_core (release_row i ?e)"
    by (rule release_row_core [OF eg_invD(1) [OF inv] i busy]) (simp_all add: algebra_simps)
  moreover have "eg_rows (release_row i ?e) = (eg_rows e)[i := blank_egress_row]"
    using eg_coreD(2) [OF eg_invD(1) [OF inv]] i busy by (subst release_row_rows) simp_all
  ultimately have "eg_inv (release_row i ?e)" by (rule eg_inv_rowI [OF inv]) simp_all
  with True show ?thesis by (simp add: egress_ticket_discard_def)
qed

lemma cancel_rows_where_inv:
  assumes "eg_core e" "\<And>row. P row \<Longrightarrow> busy row"
    and "\<And>row. row \<in> set (eg_rows e) \<Longrightarrow> \<not> eg_pumping e \<Longrightarrow> \<not> submitting row"
    and "\<And>row. er_state row = EGRESS_READY \<Longrightarrow> P row"
  shows "eg_inv (cancel_rows_where P e)"
proof -
  note W = cancel_rows_where [where P = P, OF assms(1,2)]
  have "\<forall>row\<in>set (eg_rows (cancel_rows_where P e)). er_state row \<noteq> EGRESS_READY"
    using assms(4) by (auto simp: W(2))
  moreover have "\<forall>row\<in>set (eg_rows (cancel_rows_where P e)). \<not> submitting row"
    if "\<not> eg_pumping (cancel_rows_where P e)"
    using assms(3) that by (auto simp: W(2,3))
  ultimately show ?thesis using W(1) by (simp add: eg_inv_def)
qed

lemma egress_observe_state_inv:
  assumes inv: "eg_inv e" shows "eg_inv (egress_observe_state c state error e)"
proof -
  note D = eg_invD [OF inv]
  let ?P = "\<lambda>row. er_state row = EGRESS_READY \<or> er_state row = EGRESS_SUBMITTED"
  have sweep: "eg_inv (cancel_rows_where ?P e1)"
    if "eg_core e1" "eg_rows e1 = eg_rows e" "eg_pumping e1 = eg_pumping e" for e1
    by (rule cancel_rows_where_inv) (use that D in \<open>auto simp: lane_simps\<close>)
  show ?thesis
    using inv D(1) by (auto simp: egress_observe_state_def Let_def intro!: sweep)
qed

lemma adapter_close_inv:
  assumes inv: "eg_inv e" shows "eg_inv (adapter_close e)"
proof (cases "eg_closed e")
  case True
  with inv show ?thesis by (simp add: adapter_close_def)
next
  case False
  have "eg_inv (cancel_rows_where (\<lambda>row. er_state row = EGRESS_READY) (e\<lparr>eg_closed := True\<rparr>))"
    by (rule cancel_rows_where_inv) (use eg_invD [OF inv] in \<open>auto simp: lane_simps\<close>)
  with False show ?thesis by (simp add: adapter_close_def)
qed

lemma observe_send_inv:
  assumes inv: "eg_inv e" shows "eg_inv (egress_observe_send c n e)"
proof (cases "earliest EGRESS_SUBMITTED e")
  case None
  with inv show ?thesis by (simp add: egress_observe_send_def)
next
  case (Some i)
  note S = earliest_SomeD [OF Some]
  note core = eg_invD(1) [OF inv]
  let ?e = "if length (er_bytes (eg_rows e ! i)) = n then e\<lparr>eg_completed := eg_completed e + 1\<rparr>
    else set_failure SALTS_EPROTO e"
  have busy: "busy (eg_rows e ! i)" using S(2) by (simp add: busy_def)
  have "eg_core (release_row i ?e)"
    by (rule release_row_core [OF core S(1) busy]) (auto simp: algebra_simps)
  moreover have "eg_rows (release_row i ?e) = (eg_rows e)[i := blank_egress_row]"
    using eg_coreD(2) [OF core] S(1) busy by (subst release_row_rows) auto
  ultimately have "eg_inv (release_row i ?e)" by (rule eg_inv_rowI [OF inv]) auto
  with inv Some show ?thesis by (simp add: egress_observe_send_def)
qed

section \<open>The pump\<close>

lemma set_row_state_frame [simp]:
  "eg_pumping (set_row_state i st e) = eg_pumping e" "eg_closed (set_row_state i st e) = eg_closed e"
  "eg_terminal (set_row_state i st e) = eg_terminal e" "eg_capacity (set_row_state i st e) = eg_capacity e"
  "eg_connection (set_row_state i st e) = eg_connection e" "eg_bound (set_row_state i st e) = eg_bound e"
  "eg_failed (set_row_state i st e) = eg_failed e" "eg_submitted (set_row_state i st e) = eg_submitted e"
  "eg_transient_full (set_row_state i st e) = eg_transient_full e"
  by (simp_all add: set_row_state_def)

lemma set_row_state_rows: "eg_rows (set_row_state i st e) = (eg_rows e)[i := (eg_rows e ! i)\<lparr>er_state := st\<rparr>]"
  by (simp add: set_row_state_def)

lemma pump_claim_SomeD:
  assumes "pump_claim e = Some (i, bytes, e1)"
  shows "earliest EGRESS_READY e = Some i" "\<not> eg_closed e" "\<not> eg_terminal e"
    "bytes = er_bytes (eg_rows e ! i)" "e1 = set_row_state i EGRESS_SUBMITTING e"
  using assms by (auto simp: pump_claim_def split: option.splits if_splits)

lemma pump_claim_inv:
  assumes inv: "eg_inv e" and pumping: "eg_pumping e" and none: "\<forall>row\<in>set (eg_rows e). \<not> submitting row"
    and claim: "pump_claim e = Some (i, bytes, e1)"
  shows "eg_inv e1" "eg_pumping e1" "i < eg_capacity e1" "submitting (eg_rows e1 ! i)"
proof -
  note P = pump_claim_SomeD [OF claim]
  show "eg_inv e1" unfolding P(5)
    by (rule eg_inv_rowI [OF inv claim_core [OF eg_invD(1) [OF inv] P(1) none] set_row_state_rows])
       (use pumping in simp_all)
  show "eg_pumping e1" "i < eg_capacity e1" "submitting (eg_rows e1 ! i)"
    using pumping earliest_SomeD [OF P(1)] by (simp_all add: P(5) set_row_state_rows submitting_def)
qed

lemma return_row_inv:
  assumes inv: "eg_inv e" and i: "i < eg_capacity e" "submitting (eg_rows e ! i)"
    and st: "st = EGRESS_READY \<and> \<not> eg_closed e \<and> \<not> eg_terminal e \<or> st = EGRESS_SUBMITTED"
  shows "eg_inv (set_row_state i st e)"
proof (rule eg_inv_rowI [OF inv _ set_row_state_rows])
  show "eg_core (set_row_state i st e)" using eg_invD(1) [OF inv] i st by (auto intro: settle_core)
qed (use st in \<open>auto simp: submitting_def\<close>)

lemma pump_no_buffer_inv:
  assumes "eg_inv e" "i < eg_capacity e" "submitting (eg_rows e ! i)" "\<not> eg_terminal e"
  shows "eg_inv (pump_no_buffer i e)"
  using assms
  by (auto simp: pump_no_buffer_def intro!: cancel_row_inv return_row_inv) (simp add: lane_simps)

lemma pump_settle_inv:
  assumes inv: "eg_inv e" and i: "i < eg_capacity e" "submitting (eg_rows e ! i)"
    and op: "pump_settle i status result k e = (result', k', e')"
  shows "eg_inv e'"
proof -
  note core = eg_invD(1) [OF inv]
  have busy: "busy (eg_rows e ! i)" using i(2) by (simp add: lane_simps)
  have failed: "eg_inv (release_row i (set_failure st e))" for st
  proof -
    have "eg_core (release_row i (set_failure st e))"
      by (rule release_row_core [OF core i(1) busy]) simp_all
    moreover have "eg_rows (release_row i (set_failure st e)) = (eg_rows e)[i := blank_egress_row]"
      using eg_coreD(2) [OF core] i(1) busy by (subst release_row_rows) simp_all
    ultimately show ?thesis by (rule eg_inv_rowI [OF inv]) simp_all
  qed
  show ?thesis
    using op i(2) inv i busy failed
    by (auto simp: pump_settle_def submitting_def [symmetric] return_row_inv cancel_row_inv split: if_splits)
qed

end
