(* ===== verification/Cnet_Egress_Pump.thy ===== *)
theory Cnet_Egress_Pump
  imports Cnet_Egress_Inv
begin

text \<open>
  The egress as a transition system and its properties: exact accounting, a pump that always
  returns and writes in commit order, completions matched to writes in order, and an orderly
  shutdown.
\<close>

section \<open>The transition system\<close>

text \<open>
  What the executor and the owner of the handle may do at any time. A commit number is taken
  only while the 64-bit counter has not run out.
\<close>

inductive egress_call :: "cnet_egress \<Rightarrow> cnet_egress \<Rightarrow> bool" where
  prepare: "egress_prepare_send request e = (st, err, t, e') \<Longrightarrow> egress_call e e'"
| commit: "i < eg_capacity e \<Longrightarrow> eg_next_sequence e \<noteq> UINT64_MAX \<Longrightarrow> egress_call e (egress_ticket_commit i e)"
| discard: "i < eg_capacity e \<Longrightarrow> egress_call e (egress_ticket_discard i e)"
| close: "egress_call e (adapter_close e)"
| bind: "scxml_cnet_egress_bind c e = (st, e') \<Longrightarrow> egress_call e e'"

text \<open>The callbacks of the connection, which run on the owner thread of CNet.\<close>

inductive egress_callback :: "cnet_egress \<Rightarrow> cnet_egress \<Rightarrow> bool" where
  state: "egress_callback e (egress_observe_state c state error e)"
| send: "egress_callback e (egress_observe_send c n e)"

definition idle_lane :: "cnet_egress \<Rightarrow> bool" where
  "idle_lane e \<longleftrightarrow> (\<forall>row\<in>set (eg_rows e). \<not> submitting row)"

text \<open>
  One step: a call, a callback, or a section of a running pump. The pump runs on the owner
  thread, so no terminal callback falls between its claim and its request for memory.
\<close>

inductive egress_step :: "cnet_egress \<Rightarrow> cnet_egress \<Rightarrow> bool" where
  call: "egress_call e e' \<Longrightarrow> egress_step e e'"
| callback: "egress_callback e e' \<Longrightarrow> egress_step e e'"
| pump_begin: "pump_begin e = (st, e') \<Longrightarrow> egress_step e e'"
| claim: "eg_pumping e \<Longrightarrow> idle_lane e \<Longrightarrow> pump_claim e = Some (i, bytes, e') \<Longrightarrow> egress_step e e'"
| no_buffer: "i < eg_capacity e \<Longrightarrow> submitting (eg_rows e ! i) \<Longrightarrow> \<not> eg_terminal e \<Longrightarrow>
    egress_step e (pump_no_buffer i e)"
| abandon: "i < eg_capacity e \<Longrightarrow> submitting (eg_rows e ! i) \<Longrightarrow> eg_closed e \<or> eg_terminal e \<Longrightarrow>
    egress_step e (cancel_row i e)"
| settle: "i < eg_capacity e \<Longrightarrow> submitting (eg_rows e ! i) \<Longrightarrow>
    pump_settle i status result k e = (result', k', e') \<Longrightarrow> egress_step e e'"
| pump_end: "idle_lane e \<Longrightarrow> egress_step e (e\<lparr>eg_pumping := False\<rparr>)"

inductive egress_reachable :: "cnet_egress \<Rightarrow> bool" where
  init: "scxml_cnet_egress_init row_limit alloc_ok None cfg = (SALTS_OK, Some e) \<Longrightarrow> egress_reachable e"
| step: "egress_reachable e \<Longrightarrow> egress_step e e' \<Longrightarrow> egress_reachable e'"

lemma fresh_egress_inv: "ec_max_payload_bytes cfg \<le> SCXML_EVENT_METADATA_CAPACITY \<Longrightarrow> eg_inv (fresh_egress cfg)"
  by (simp add: eg_inv_def eg_core_def fresh_egress_def rows_ok_def)

lemma bind_inv: "eg_inv e \<Longrightarrow> scxml_cnet_egress_bind c e = (st, e') \<Longrightarrow> eg_inv e'"
  by (auto simp: scxml_cnet_egress_bind_def eg_inv_def split: if_splits)

lemma egress_call_inv: "egress_call e e' \<Longrightarrow> eg_inv e \<Longrightarrow> eg_inv e'"
  by (induction rule: egress_call.induct)
     (auto intro: prepare_send_inv egress_ticket_commit_inv egress_ticket_discard_inv adapter_close_inv bind_inv)

lemma egress_callback_inv: "egress_callback e e' \<Longrightarrow> eg_inv e \<Longrightarrow> eg_inv e'"
  by (induction rule: egress_callback.induct) (auto intro: egress_observe_state_inv observe_send_inv)

lemma pump_begin_inv: "pump_begin e = (st, e') \<Longrightarrow> eg_inv e \<Longrightarrow> eg_inv e'"
  by (auto simp: pump_begin_def eg_inv_def split: if_splits)

lemma submitting_busy: "submitting row \<Longrightarrow> busy row"
  by (simp add: submitting_def busy_def)

lemma egress_step_inv: "egress_step e e' \<Longrightarrow> eg_inv e \<Longrightarrow> eg_inv e'"
proof (induction rule: egress_step.induct)
  case (call e e')
  then show ?case by (rule egress_call_inv)
next
  case (callback e e')
  then show ?case by (rule egress_callback_inv)
next
  case (pump_begin e st e')
  then show ?case by (rule pump_begin_inv)
next
  case (claim e i bytes e')
  from claim(4,1) claim(2) [unfolded idle_lane_def] claim(3) show ?case by (rule pump_claim_inv(1))
next
  case (no_buffer i e)
  from no_buffer(4,1-3) show ?case by (rule pump_no_buffer_inv)
next
  case (abandon i e)
  from abandon(4,1) submitting_busy [OF abandon(2)] show ?case by (rule cancel_row_inv)
next
  case (settle i e status result k result' k' e')
  from settle(4,1,2,3) show ?case by (rule pump_settle_inv)
next
  case (pump_end e)
  then show ?case by (simp add: eg_inv_def idle_lane_def)
qed

lemma egress_reachable_inv: "egress_reachable e \<Longrightarrow> eg_inv e"
proof (induction rule: egress_reachable.induct)
  case (init row_limit alloc_ok cfg e)
  then show ?case
    by (auto simp: scxml_cnet_egress_init_def fresh_egress_inv split: if_splits)
next
  case (step e e')
  then show ?case by (auto intro: egress_step_inv)
qed

section \<open>Others leave the row of the pump alone\<close>

definition keeps_lane :: "cnet_egress \<Rightarrow> cnet_egress \<Rightarrow> bool" where
  "keeps_lane e e' \<longleftrightarrow> eg_capacity e' = eg_capacity e \<and> eg_pumping e' = eg_pumping e \<and>
     (\<forall>k<eg_capacity e. submitting (eg_rows e' ! k) = submitting (eg_rows e ! k))"

lemma keeps_lane_refl: "keeps_lane e e"
  by (simp add: keeps_lane_def)

lemma keeps_lane_trans: "keeps_lane e e1 \<Longrightarrow> keeps_lane e1 e2 \<Longrightarrow> keeps_lane e e2"
  by (simp add: keeps_lane_def)

lemma keeps_lane_rowI:
  assumes "eg_rows e' = eg_rows e \<or> eg_rows e' = (eg_rows e)[i := y]" "eg_pumping e' = eg_pumping e"
    "\<not> submitting (eg_rows e ! i)" "\<not> submitting y"
  shows "keeps_lane e e'"
  using assms by (auto simp: keeps_lane_def nth_update_cases split: if_splits)

lemma release_row_table:
  "eg_rows (release_row i e) = eg_rows e \<or> eg_rows (release_row i e) = (eg_rows e)[i := blank_egress_row]"
  by (simp add: release_row_def)

lemma cancel_row_table:
  "eg_rows (cancel_row i e) = eg_rows e \<or> eg_rows (cancel_row i e) = (eg_rows e)[i := blank_egress_row]"
  using release_row_table [of i "e\<lparr>eg_cancelled := eg_cancelled e + 1\<rparr>"] by (simp add: cancel_row_def)

lemma cancel_rows_where_lane:
  assumes "eg_core e" "\<And>row. P row \<Longrightarrow> busy row \<and> \<not> submitting row"
  shows "keeps_lane e (cancel_rows_where P e)"
proof -
  have busy: "\<And>row. P row \<Longrightarrow> busy row" using assms(2) by blast
  note W = cancel_rows_where [where P = P, OF assms(1) busy]
  show ?thesis using assms(2) by (auto simp: keeps_lane_def W(2,3))
qed

lemma reserve_row_lane:
  assumes "reserve_row bytes e = (st, t, e')"
  shows "keeps_lane e e'" "eg_terminal e' = eg_terminal e"
proof -
  show "keeps_lane e e'"
  proof (cases t)
    case None
    with assms show ?thesis by (auto simp: reserve_row_def keeps_lane_def split: if_splits option.splits)
  next
    case (Some i)
    with assms have i: "first_index (\<lambda>row. er_state row = EGRESS_FREE) (eg_rows e) = Some i"
      and rows: "eg_rows e' = (eg_rows e)[i := \<lparr>er_state = EGRESS_RESERVED, er_sequence = 0, er_bytes = bytes\<rparr>]"
        "eg_pumping e' = eg_pumping e"
      by (auto simp: reserve_row_def split: if_splits option.splits)
    show ?thesis
      by (rule keeps_lane_rowI [OF disjI2 [OF rows(1)] rows(2)])
         (use first_index_SomeD [OF i] in \<open>simp_all add: submitting_def\<close>)
  qed
  show "eg_terminal e' = eg_terminal e"
    using assms by (auto simp: reserve_row_def split: if_splits option.splits)
qed

lemma egress_call_lane:
  assumes "egress_call e e'" "eg_inv e" shows "keeps_lane e e' \<and> eg_terminal e' = eg_terminal e"
  using assms
proof (induction rule: egress_call.induct)
  case (prepare request e st err t e')
  then show ?case
    by (auto simp: egress_prepare_send_def keeps_lane_refl dest: reserve_row_lane
        split: if_splits option.splits prod.splits)
next
  case (commit i e)
  show ?case
  proof (cases "er_state (eg_rows e ! i) = EGRESS_RESERVED")
    case True
    then have "\<not> submitting (eg_rows e ! i)" by (simp add: submitting_def)
    with True show ?thesis
      using keeps_lane_rowI [OF cancel_row_table [of i e]]
      by (auto simp: egress_ticket_commit_def submitting_def intro!: keeps_lane_rowI [OF disjI2])
  next
    case False
    then show ?thesis by (simp add: egress_ticket_commit_def keeps_lane_def)
  qed
next
  case (discard i e)
  have "keeps_lane e (release_row i (e\<lparr>eg_discarded := eg_discarded e + 1\<rparr>))"
    if "er_state (eg_rows e ! i) = EGRESS_RESERVED"
    using release_row_table [of i "e\<lparr>eg_discarded := eg_discarded e + 1\<rparr>"] that
    by (intro keeps_lane_rowI [where i = i and y = blank_egress_row]) (simp_all add: submitting_def)
  then show ?case by (auto simp: egress_ticket_discard_def keeps_lane_def)
next
  case (close e)
  let ?e = "e\<lparr>eg_closed := True\<rparr>" and ?P = "\<lambda>row. er_state row = EGRESS_READY"
  have core: "eg_core ?e" using eg_invD(1) [OF close] by simp
  have "keeps_lane ?e (cancel_rows_where ?P ?e)"
    by (rule cancel_rows_where_lane [OF core]) (simp add: lane_simps)
  moreover have "eg_terminal (cancel_rows_where ?P ?e) = eg_terminal ?e"
    by (rule cancel_rows_where(5) [OF core]) (simp add: lane_simps)
  ultimately show ?case by (auto simp: adapter_close_def keeps_lane_def)
next
  case (bind c e st e')
  then show ?case by (auto simp: scxml_cnet_egress_bind_def keeps_lane_def split: if_splits)
qed

lemma egress_callback_lane:
  assumes "egress_callback e e'" "eg_inv e" shows "keeps_lane e e'"
  using assms
proof (induction rule: egress_callback.induct)
  case (state e c state error)
  let ?P = "\<lambda>row. er_state row = EGRESS_READY \<or> er_state row = EGRESS_SUBMITTED"
  have sweep: "keeps_lane e (cancel_rows_where ?P e1)"
    if "eg_core e1" "eg_rows e1 = eg_rows e" "eg_pumping e1 = eg_pumping e" for e1
  proof -
    have "keeps_lane e1 (cancel_rows_where ?P e1)"
      by (rule cancel_rows_where_lane [OF that(1)]) (auto simp: lane_simps)
    then show ?thesis using that(2,3) by (simp add: keeps_lane_def)
  qed
  show ?case
    using eg_invD(1) [OF state]
    by (auto simp: egress_observe_state_def Let_def intro!: sweep) (simp_all add: keeps_lane_def)
next
  case (send e c n)
  show ?case
  proof (cases "earliest EGRESS_SUBMITTED e")
    case None
    then show ?thesis by (auto simp: egress_observe_send_def keeps_lane_def)
  next
    case (Some i)
    let ?e = "if length (er_bytes (eg_rows e ! i)) = n then e\<lparr>eg_completed := eg_completed e + 1\<rparr>
      else set_failure SALTS_EPROTO e"
    have "eg_rows ?e = eg_rows e" by simp
    with release_row_table [of i ?e] have
      "eg_rows (release_row i ?e) = eg_rows e \<or> eg_rows (release_row i ?e) = (eg_rows e)[i := blank_egress_row]"
      by metis
    then have "keeps_lane e (release_row i ?e)"
      by (rule keeps_lane_rowI) (use earliest_SomeD(2) [OF Some] in \<open>auto simp: submitting_def\<close>)
    with Some show ?thesis by (auto simp: egress_observe_send_def keeps_lane_def)
  qed
qed

section \<open>Running the pump\<close>

text \<open>What other threads do while the pump does not hold the mutex, and with callbacks.\<close>

inductive egress_calls :: "cnet_egress \<Rightarrow> cnet_egress \<Rightarrow> bool" where
  refl: "egress_calls e e"
| step: "egress_calls e e1 \<Longrightarrow> egress_call e1 e2 \<Longrightarrow> egress_calls e e2"

inductive egress_entries :: "cnet_egress \<Rightarrow> cnet_egress \<Rightarrow> bool" where
  refl: "egress_entries e e"
| call: "egress_entries e e1 \<Longrightarrow> egress_call e1 e2 \<Longrightarrow> egress_entries e e2"
| callback: "egress_entries e e1 \<Longrightarrow> egress_callback e1 e2 \<Longrightarrow> egress_entries e e2"

text \<open>
  The contract of the pool and of CNet: they reach the egress only through its operations,
  CNet also through its callbacks.
\<close>

definition pool_contract :: "(nat \<Rightarrow> cnet_egress \<times> 'w \<Rightarrow> bool \<times> cnet_egress \<times> 'w) \<Rightarrow> bool" where
  "pool_contract get_buffer \<longleftrightarrow> (\<forall>n e w. egress_calls e (fst (snd (get_buffer n (e, w)))))"

definition cnet_contract ::
  "(cnet_connection \<Rightarrow> string \<Rightarrow> cnet_egress \<times> 'w \<Rightarrow> salts_status \<times> cnet_egress \<times> 'w) \<Rightarrow> bool" where
  "cnet_contract send_buffer \<longleftrightarrow> (\<forall>c bytes e w. egress_entries e (fst (snd (send_buffer c bytes (e, w)))))"

lemma egress_calls_reachable:
  "egress_calls e e' \<Longrightarrow> egress_reachable e \<Longrightarrow> egress_reachable e' \<and> keeps_lane e e' \<and> eg_terminal e' = eg_terminal e"
proof (induction rule: egress_calls.induct)
  case (refl e)
  then show ?case by (simp add: keeps_lane_refl)
next
  case (step e e1 e2)
  then have "egress_reachable e1" by simp
  with step(2) have "egress_reachable e2" "keeps_lane e1 e2 \<and> eg_terminal e2 = eg_terminal e1"
    using egress_call_lane [OF step(2)] egress_reachable_inv
    by (auto intro: egress_reachable.step egress_step.call)
  with step show ?case by (auto intro: keeps_lane_trans)
qed

lemma egress_entries_reachable:
  "egress_entries e e' \<Longrightarrow> egress_reachable e \<Longrightarrow> egress_reachable e' \<and> keeps_lane e e'"
proof (induction rule: egress_entries.induct)
  case (refl e)
  then show ?case by (simp add: keeps_lane_refl)
next
  case (call e e1 e2)
  then have "egress_reachable e1" by simp
  with call(2) have "egress_reachable e2" "keeps_lane e1 e2"
    using egress_call_lane [OF call(2)] egress_reachable_inv
    by (auto intro: egress_reachable.step egress_step.call)
  with call show ?case by (auto intro: keeps_lane_trans)
next
  case (callback e e1 e2)
  then have "egress_reachable e1" by simp
  with callback(2) have "egress_reachable e2" "keeps_lane e1 e2"
    using egress_callback_lane [OF callback(2)] egress_reachable_inv
    by (auto intro: egress_reachable.step egress_step.callback)
  with callback show ?case by (auto intro: keeps_lane_trans)
qed

text \<open>The pump thread between two iterations: it runs and holds no row.\<close>

definition pump_ready :: "cnet_egress \<Rightarrow> bool" where
  "pump_ready e \<longleftrightarrow> egress_reachable e \<and> eg_pumping e \<and> idle_lane e"

definition pump_holds :: "nat \<Rightarrow> cnet_egress \<Rightarrow> bool" where
  "pump_holds i e \<longleftrightarrow> egress_reachable e \<and> eg_pumping e \<and> i < eg_capacity e \<and> submitting (eg_rows e ! i)"

lemma pump_claim_holds:
  assumes "pump_ready e" "pump_claim e = Some (i, bytes, e1)"
  shows "pump_holds i e1" "\<not> eg_terminal e1"
proof -
  have "egress_reachable e1"
    using assms by (auto simp: pump_ready_def intro: egress_reachable.step egress_step.claim)
  moreover note pump_claim_inv(2-4) [OF egress_reachable_inv _ _ assms(2)]
  ultimately show "pump_holds i e1" using assms(1) by (simp add: pump_holds_def pump_ready_def idle_lane_def)
  show "\<not> eg_terminal e1" using pump_claim_SomeD [OF assms(2)] by simp
qed

lemma pump_holds_keeps: "pump_holds i e \<Longrightarrow> egress_reachable e' \<Longrightarrow> keeps_lane e e' \<Longrightarrow> pump_holds i e'"
  by (auto simp: pump_holds_def keeps_lane_def)

text \<open>When the pump gives its row back, the lane is idle again.\<close>

lemma pump_release_ready:
  assumes h: "pump_holds i e" and r: "egress_reachable e'" and p: "eg_pumping e' = eg_pumping e"
    and rows: "eg_rows e' = (eg_rows e)[i := y]" "\<not> submitting y"
  shows "pump_ready e'"
proof -
  have ok: "rows_ok (eg_max_payload_bytes e) (eg_next_sequence e) (eg_rows e)"
    using h by (simp add: pump_holds_def eg_coreD(1) eg_invD(1) egress_reachable_inv)
  have "\<not> submitting (eg_rows e' ! k)" if "k < eg_capacity e'" for k
    using that rows h pair_laneD(2) [OF rows_okD(2) [OF ok]]
    by (cases "k = i") (auto simp: pump_holds_def)
  then have "idle_lane e'" by (auto simp: idle_lane_def in_set_conv_nth)
  with h r p show ?thesis by (simp add: pump_ready_def pump_holds_def)
qed

lemma pump_cancel_ready:
  assumes h: "pump_holds i e" and c: "eg_closed e \<or> eg_terminal e"
  shows "pump_ready (cancel_row i e)"
proof (rule pump_release_ready [OF h])
  show "egress_reachable (cancel_row i e)"
    using h c by (auto simp: pump_holds_def intro: egress_reachable.step egress_step.abandon)
  show "eg_rows (cancel_row i e) = (eg_rows e)[i := blank_egress_row]"
    using h by (intro cancel_row_rows) (auto simp: pump_holds_def submitting_busy eg_invD(1) egress_reachable_inv)
qed simp_all

lemma pump_no_buffer_ready:
  assumes h: "pump_holds i e" and t: "\<not> eg_terminal e"
  shows "pump_ready (pump_no_buffer i e)"
proof (cases "eg_closed e")
  case True
  with pump_cancel_ready [OF h] show ?thesis by (simp add: pump_no_buffer_def)
next
  case False
  have r: "egress_reachable (pump_no_buffer i e)"
    using h t by (auto simp: pump_holds_def intro: egress_reachable.step egress_step.no_buffer)
  show ?thesis
    by (rule pump_release_ready [OF h r, where y = "(eg_rows e ! i)\<lparr>er_state := EGRESS_READY\<rparr>"])
       (use False in \<open>simp_all add: pump_no_buffer_def set_row_state_rows submitting_def\<close>)
qed

lemma pump_settle_ready:
  assumes h: "pump_holds i e" and op: "pump_settle i status result k e = (result', k', e')"
  shows "pump_ready e'" "status = SALTS_OK \<Longrightarrow> k' = k + 1 \<and> result' = result"
    "status \<noteq> SALTS_OK \<Longrightarrow> k' = k \<and> result' = status"
proof -
  have s: "er_state (eg_rows e ! i) = EGRESS_SUBMITTING" using h by (simp add: pump_holds_def submitting_def)
  have core: "eg_core e" using h by (simp add: pump_holds_def eg_invD(1) egress_reachable_inv)
  have busy: "busy (eg_rows e ! i)" "i < eg_capacity e" using h by (simp_all add: pump_holds_def submitting_busy)
  have r: "egress_reachable e'"
    using h op by (auto simp: pump_holds_def intro: egress_reachable.step egress_step.settle)
  have released: "eg_rows (release_row i (set_failure st e)) = (eg_rows e)[i := blank_egress_row]" for st
    using eg_coreD(2) [OF core] busy by (subst release_row_rows) simp_all
  show "status = SALTS_OK \<Longrightarrow> k' = k + 1 \<and> result' = result" "status \<noteq> SALTS_OK \<Longrightarrow> k' = k \<and> result' = status"
    using op s by (auto simp: pump_settle_def split: if_splits)
  show "pump_ready e'"
  proof (rule pump_release_ready [OF h r])
    show "eg_pumping e' = eg_pumping e"
      using op s by (auto simp: pump_settle_def split: if_splits)
    let ?y = "if status = SALTS_OK then (eg_rows e ! i)\<lparr>er_state := EGRESS_SUBMITTED\<rparr>
      else if eg_closed e \<or> eg_terminal e then blank_egress_row
      else if status = SALTS_ENOBUFS \<or> status = SALTS_EBUSY then (eg_rows e ! i)\<lparr>er_state := EGRESS_READY\<rparr>
      else blank_egress_row"
    show "eg_rows e' = (eg_rows e)[i := ?y]"
      using op s cancel_row_rows [OF core busy(2,1)] released
      by (auto simp: pump_settle_def set_row_state_rows split: if_splits)
    show "\<not> submitting ?y" by (auto simp: submitting_def blank_egress_row_def)
  qed
qed

lemma pump_loop_returns:
  assumes pool: "pool_contract get_buffer" and cnet: "cnet_contract send_buffer" and "pump_ready e" "k \<le> m"
  shows "\<exists>st n e' w'. pump_loop get_buffer send_buffer m result k e w = Some (st, n, e', w') \<and>
    k \<le> n \<and> n \<le> m \<and> pump_ready e'"
  using assms(3,4)
proof (induction "m - k" arbitrary: k e w result rule: less_induct)
  case less
  show ?case
  proof (cases "k < m \<and> pump_claim e \<noteq> None")
    case False
    then have "pump_loop get_buffer send_buffer m result k e w = Some (result, k, e, w)"
      by (subst pump_loop.simps) (cases "pump_claim e"; simp)
    with less.prems show ?thesis by simp
  next
    case True
    then obtain i bytes e1 where c: "pump_claim e = Some (i, bytes, e1)" by auto
    obtain ok e2 w2 where b: "get_buffer (length bytes) (e1, w) = (ok, e2, w2)" by (rule prod_cases3)
    note H = pump_claim_holds [OF less.prems(1) c]
    have "egress_calls e1 e2" using pool b by (metis pool_contract_def fst_conv snd_conv)
    with H have e2: "egress_reachable e2" "keeps_lane e1 e2" "\<not> eg_terminal e2"
      using egress_calls_reachable by (auto simp: pump_holds_def)
    note H2 = pump_holds_keeps [OF H(1) e2(1,2)]
    show ?thesis
    proof (cases "ok \<and> \<not> (eg_closed e2 \<or> eg_terminal e2)")
      case False
      have "pump_ready (pump_no_buffer i e2)" "eg_closed e2 \<or> eg_terminal e2 \<Longrightarrow> pump_ready (cancel_row i e2)"
        using pump_no_buffer_ready [OF H2 e2(3)] pump_cancel_ready [OF H2] by auto
      with False True less.prems(2) show ?thesis by (subst pump_loop.simps) (auto simp: c b)
    next
      case ok: True
      obtain status e3 w3 where s: "send_buffer (eg_connection e2) bytes (e2, w2) = (status, e3, w3)"
        by (rule prod_cases3)
      have "egress_entries e2 e3" using cnet s by (metis cnet_contract_def fst_conv snd_conv)
      with e2(1) have e3: "egress_reachable e3" "keeps_lane e2 e3" using egress_entries_reachable by auto
      obtain result' k' e4 where st: "pump_settle i status result k e3 = (result', k', e4)" by (rule prod_cases3)
      note S = pump_settle_ready [OF pump_holds_keeps [OF H2 e3] st]
      have loop: "pump_loop get_buffer send_buffer m result k e w =
          (if status \<noteq> SALTS_OK then Some (result', k', e4, w3)
           else pump_loop get_buffer send_buffer m result' k' e4 w3)"
        using True ok by (subst pump_loop.simps) (simp add: c b s st)
      show ?thesis
      proof (cases "status = SALTS_OK")
        case True
        with S(2) have k': "k' = k + 1" by simp
        with \<open>k < m \<and> pump_claim e \<noteq> None\<close> have "m - k' < m - k" "k' \<le> m" by auto
        from less.hyps [OF this(1) S(1) this(2), of result' w3] k' show ?thesis
          unfolding loop using True by fastforce
      next
        case False
        with S less.prems(2) loop show ?thesis by auto
      qed
    qed
  qed
qed

section \<open>Properties\<close>

text \<open>
  Property (C22). The accounting of the egress is exact: in every state it can reach, whatever the
  interleaving of the Session's executor, the pump and the callbacks of the connection,
  \<^verbatim>\<open>pending\<close> is the number of occupied rows and never exceeds the capacity, every held payload
  has 1 to \<^verbatim>\<open>max_payload_bytes\<close> bytes, at most one row is in the hands of the pump, and until
  a failure is recorded every prepared send is held, discarded, completed or cancelled.
\<close>

theorem egress_accounting:
  assumes "egress_reachable e"
  shows "eg_pending e = count_if (\<lambda>row. er_state row \<noteq> EGRESS_FREE) (eg_rows e) \<and>
    eg_pending e \<le> eg_high_water e \<and> eg_high_water e \<le> eg_capacity e \<and>
    (\<forall>row\<in>set (eg_rows e). er_state row \<noteq> EGRESS_FREE \<longrightarrow>
       er_bytes row \<noteq> [] \<and> length (er_bytes row) \<le> eg_max_payload_bytes e) \<and>
    count_if (\<lambda>row. er_state row = EGRESS_SUBMITTING) (eg_rows e) \<le> of_bool (eg_pumping e) \<and>
    (\<not> eg_failed e \<longrightarrow>
       eg_prepared e = of_nat (eg_pending e) + eg_discarded e + eg_completed e + eg_cancelled e)"
proof -
  have inv: "eg_inv e" using assms by (rule egress_reachable_inv)
  note core = eg_invD(1) [OF inv]
  have busy: "busy = (\<lambda>row. er_state row \<noteq> EGRESS_FREE)" by (auto simp: busy_def)
  have sub: "submitting = (\<lambda>row. er_state row = EGRESS_SUBMITTING)" by (auto simp: submitting_def)
  have "count_if submitting (eg_rows e) \<le> of_bool (eg_pumping e)"
  proof (cases "eg_pumping e")
    case True
    have "unique_by submitting (\<lambda>row. ()) (eg_rows e)"
      unfolding unique_by_def using pair_laneD(2) [OF rows_okD(2) [OF eg_coreD(1) [OF core]]] by metis
    then show ?thesis using True unique_by_count_one by fastforce
  next
    case False
    with eg_invD(2) [OF inv] have "count_if submitting (eg_rows e) = 0" by (simp add: count_if_zero_iff)
    then show ?thesis by simp
  qed
  then show ?thesis
    using core rows_okD(1) [OF eg_coreD(1) [OF core]]
    by (auto simp: eg_core_def busy sub in_set_conv_nth egress_row_ok_def)
qed

text \<open>A connected egress with two rows, and the same with two committed sends.\<close>

definition demo_egress_cfg :: cnet_egress_config where
  "demo_egress_cfg = \<lparr>ec_client_null = False, ec_capacity = 2, ec_max_payload_bytes = 8\<rparr>"

definition demo_connected :: cnet_egress where
  "demo_connected = egress_observe_state demo_conn CNET_CONNECTION_CONNECTED None
     (snd (scxml_cnet_egress_bind demo_conn (fresh_egress demo_egress_cfg)))"

definition demo_raw :: "string \<Rightarrow> scxml_send_request" where
  "demo_raw s = \<lparr>sr_event = CBytes s, sr_target = CBytes SCXML_CNET_BOUND_TARGET,
     sr_type = CBytes SCXML_CNET_RAW_PROCESSOR_URI, sr_id = CNull 0, sr_delay_ms = 0,
     sr_payload = SCXML_PAYLOAD_NONE\<rparr>"

definition demo_send_raw :: "string \<Rightarrow> nat \<Rightarrow> cnet_egress \<Rightarrow> cnet_egress" where
  "demo_send_raw s i e = egress_ticket_commit i (snd (snd (snd (egress_prepare_send (demo_raw s) e))))"

definition demo_two_raw :: cnet_egress where
  "demo_two_raw = demo_send_raw ''two'' 1 (demo_send_raw ''one'' 0 demo_connected)"

lemma quad_split: "x = (fst x, fst (snd x), fst (snd (snd x)), snd (snd (snd x)))"
  by simp

lemmas reachable_egress_call = egress_reachable.step [OF _ egress_step.call]

lemma demo_connected_reachable: "egress_reachable demo_connected"
proof -
  have "egress_reachable (fresh_egress demo_egress_cfg)"
    by (rule egress_reachable.init [of 100 True demo_egress_cfg])
       (simp add: scxml_cnet_egress_init_def demo_egress_cfg_def SCXML_EVENT_METADATA_CAPACITY_def)
  then have "egress_reachable (snd (scxml_cnet_egress_bind demo_conn (fresh_egress demo_egress_cfg)))"
    by (rule reachable_egress_call [OF _ egress_call.bind [OF pair_split]])
  then show ?thesis unfolding demo_connected_def
    by (rule egress_reachable.step [OF _ egress_step.callback [OF egress_callback.state]])
qed

lemma demo_send_raw_reachable:
  assumes "egress_reachable e" "i < eg_capacity e" "eg_next_sequence e \<noteq> UINT64_MAX"
  shows "egress_reachable (demo_send_raw s i e)"
proof -
  let ?e = "snd (snd (snd (egress_prepare_send (demo_raw s) e)))"
  have "egress_reachable ?e"
    by (rule reachable_egress_call [OF assms(1) egress_call.prepare [OF quad_split]])
  moreover have "eg_capacity ?e = eg_capacity e" "eg_next_sequence ?e = eg_next_sequence e"
    by (auto simp: egress_prepare_send_def reserve_row_def split: option.splits)
  ultimately show ?thesis using assms(2,3) unfolding demo_send_raw_def
    by (intro reachable_egress_call [OF _ egress_call.commit]) simp_all
qed

lemma demo_two_raw_reachable: "egress_reachable demo_two_raw"
proof -
  have "0 < eg_capacity demo_connected" "eg_next_sequence demo_connected \<noteq> UINT64_MAX"
    "1 < eg_capacity (demo_send_raw ''one'' 0 demo_connected)"
    "eg_next_sequence (demo_send_raw ''one'' 0 demo_connected) \<noteq> UINT64_MAX" by code_simp+
  then show ?thesis unfolding demo_two_raw_def
    by (intro demo_send_raw_reachable demo_connected_reachable)
qed

theorem egress_accounting_witness:
  "eg_pending demo_two_raw = 2 \<and> eg_prepared demo_two_raw = of_nat 2 + eg_discarded demo_two_raw +
     eg_completed demo_two_raw + eg_cancelled demo_two_raw"
proof -
  have "\<not> eg_failed demo_two_raw" "eg_pending demo_two_raw = 2" by code_simp+
  with egress_accounting [OF demo_two_raw_reachable] show ?thesis by metis
qed

lemma egress_pump_result:
  assumes "egress_reachable e" "pool_contract get_buffer" "cnet_contract send_buffer"
  shows "\<exists>st n e' w'. scxml_cnet_egress_pump get_buffer send_buffer max_writes e w = Some (st, n, e', w') \<and>
    n \<le> max_writes \<and> egress_reachable e' \<and>
    (max_writes \<noteq> 0 \<and> fst (pump_begin e) = SALTS_OK \<longrightarrow>
       \<not> eg_pumping e' \<and> idle_lane e')"
proof (cases "max_writes \<noteq> 0 \<and> fst (pump_begin e) = SALTS_OK")
  case False
  obtain st e1 where b: "pump_begin e = (st, e1)" by (rule prod.exhaust)
  have "egress_reachable e1" using assms(1) b by (auto intro: egress_reachable.step egress_step.pump_begin)
  with False assms(1) b show ?thesis by (auto simp: scxml_cnet_egress_pump_def)
next
  case True
  let ?e = "e\<lparr>eg_pumping := True\<rparr>"
  from True have b: "pump_begin e = (SALTS_OK, ?e)" "\<not> eg_pumping e"
    by (auto simp: pump_begin_def split: if_splits)
  have "pump_ready ?e"
    using assms(1) b eg_invD(2) [OF egress_reachable_inv [OF assms(1)]]
    by (auto simp: pump_ready_def idle_lane_def intro: egress_reachable.step egress_step.pump_begin)
  from pump_loop_returns [OF assms(2,3) this le0, of max_writes SALTS_OK w] obtain st n e1 w1 where
    l: "pump_loop get_buffer send_buffer max_writes SALTS_OK 0 ?e w = Some (st, n, e1, w1)" "n \<le> max_writes"
      "pump_ready e1" by auto
  moreover have "egress_reachable (e1\<lparr>eg_pumping := False\<rparr>)" "idle_lane e1"
    using l(3) by (auto simp: pump_ready_def intro: egress_reachable.step egress_step.pump_end)
  ultimately show ?thesis
    using True b by (auto simp: scxml_cnet_egress_pump_def idle_lane_def)
qed

text \<open>
  Property (C23). The pump always returns: on every reachable egress, with any memory pool and any CNet that
  reach the egress only through its operations and callbacks, possibly in the middle of the
  pump, \<^verbatim>\<open>scxml_cnet_egress_pump\<close> terminates. It reports at most \<^verbatim>\<open>max_writes\<close> writes, leaves a
  reachable egress, and, when it was admitted, clears the pumping mark and holds no row.
\<close>

theorem egress_pump_returns:
  assumes "egress_reachable e" "pool_contract get_buffer" "cnet_contract send_buffer"
  shows "\<exists>st n e' w'. scxml_cnet_egress_pump get_buffer send_buffer max_writes e w = Some (st, n, e', w') \<and>
    n \<le> max_writes \<and> egress_reachable e' \<and>
    (max_writes \<noteq> 0 \<and> fst (pump_begin e) = SALTS_OK \<longrightarrow>
       \<not> eg_pumping e' \<and> (\<forall>row\<in>set (eg_rows e'). er_state row \<noteq> EGRESS_SUBMITTING))"
  using egress_pump_result [OF assms, of max_writes w]
  by (auto simp: idle_lane_def submitting_def)

text \<open>A pool that never runs out, and a CNet that takes every write and repeats that it is connected.\<close>

definition plain_pool :: "nat \<Rightarrow> cnet_egress \<times> string list \<Rightarrow> bool \<times> cnet_egress \<times> string list" where
  "plain_pool n x = (True, x)"

definition demo_eager :: "cnet_connection \<Rightarrow> string \<Rightarrow> cnet_egress \<times> string list
    \<Rightarrow> salts_status \<times> cnet_egress \<times> string list" where
  "demo_eager c bytes x = (SALTS_OK, egress_observe_state c CNET_CONNECTION_CONNECTED None (fst x), snd x @ [bytes])"

theorem egress_pump_returns_witness:
  "\<exists>st n e' w'. scxml_cnet_egress_pump plain_pool demo_eager 5 demo_two_raw [] = Some (st, n, e', w') \<and>
    n \<le> 5 \<and> egress_reachable e' \<and> \<not> eg_pumping e'"
proof -
  have p: "pool_contract plain_pool" by (auto simp: pool_contract_def plain_pool_def intro: egress_calls.refl)
  have c: "cnet_contract demo_eager"
    by (auto simp: cnet_contract_def demo_eager_def intro: egress_entries.intros egress_callback.state)
  have "fst (pump_begin demo_two_raw) = SALTS_OK" by code_simp
  with egress_pump_returns [OF demo_two_raw_reachable p c, of 5 "[]"] show ?thesis by auto
qed

section \<open>Order of writes\<close>

definition waiting_queue :: "cnet_egress \<Rightarrow> egress_row list" where
  "waiting_queue e = row_queue (\<lambda>row. er_state row = EGRESS_READY) er_sequence (eg_rows e)"

definition written_queue :: "cnet_egress \<Rightarrow> egress_row list" where
  "written_queue e = row_queue (\<lambda>row. er_state row = EGRESS_SUBMITTED) er_sequence (eg_rows e)"

lemma lane_inj:
  assumes "rows_ok mx nx rows" "\<And>row. P row \<Longrightarrow> in_lane row"
  shows "inj_on er_sequence {row \<in> set rows. P row}"
proof -
  have "unique_by in_lane er_sequence rows"
    unfolding unique_by_def using pair_laneD(1) [OF rows_okD(2) [OF assms(1)]] by metis
  then show ?thesis using assms(2) by (rule unique_by_inj)
qed

lemma written_before_waiting:
  assumes ok: "rows_ok mx nx rows" and i: "i < length rows" "er_state (rows ! i) = EGRESS_READY"
    and x: "x \<in> set rows" "er_state x = EGRESS_SUBMITTED"
  shows "er_sequence x < er_sequence (rows ! i)"
proof -
  obtain j where j: "j < length rows" "x = rows ! j" using x(1) by (auto simp: in_set_conv_nth)
  with i x have "j \<noteq> i" by auto
  from pair_laneD(3) [OF rows_okD(2) [OF ok j(1) i(1) this]] j x i show ?thesis by (simp add: lane_simps)
qed

text \<open>One accepted write moves the head of the waiting rows to the end of the written ones.\<close>

lemma write_moves_head:
  assumes core: "eg_core e" and i: "earliest EGRESS_READY e = Some i"
    and e': "eg_rows e' = (eg_rows e)[i := (eg_rows e ! i)\<lparr>er_state := EGRESS_SUBMITTED\<rparr>]"
  shows "waiting_queue e = eg_rows e ! i # waiting_queue e'"
    "written_queue e' = written_queue e @ [(eg_rows e ! i)\<lparr>er_state := EGRESS_SUBMITTED\<rparr>]"
proof -
  note ok = eg_coreD(1) [OF core] and S = earliest_SomeD [OF i]
  have inj: "inj_on er_sequence {row \<in> set (eg_rows e). er_state row = EGRESS_READY}"
    "inj_on er_sequence {row \<in> set (eg_rows e). er_state row = EGRESS_SUBMITTED}"
    by (rule lane_inj [OF ok]; simp add: lane_simps)+
  show "waiting_queue e = eg_rows e ! i # waiting_queue e'"
    unfolding waiting_queue_def e'
    by (rule egress_order.row_queue_pop [OF i [unfolded earliest_def] inj(1)]) simp
  show "written_queue e' = written_queue e @ [(eg_rows e ! i)\<lparr>er_state := EGRESS_SUBMITTED\<rparr>]"
    unfolding written_queue_def e'
    by (rule egress_order.row_queue_push [OF S(1) _ _ _ inj(2)])
       (use S(2) written_before_waiting [OF ok S(1,2)] in auto)
qed

text \<open>
  A CNet that looks only at what it has been given: it takes a write or answers ENOBUFS. The
  number of writes it takes from a queue, and the pump against it.
\<close>

definition admitting :: "(string list \<Rightarrow> string \<Rightarrow> bool) \<Rightarrow> cnet_connection \<Rightarrow> string
    \<Rightarrow> cnet_egress \<times> string list \<Rightarrow> salts_status \<times> cnet_egress \<times> string list" where
  "admitting admit c bytes x =
     (if admit (snd x) bytes then (SALTS_OK, fst x, snd x @ [bytes]) else (SALTS_ENOBUFS, x))"

fun admitted :: "(string list \<Rightarrow> string \<Rightarrow> bool) \<Rightarrow> nat \<Rightarrow> string list \<Rightarrow> string list \<Rightarrow> nat" where
  "admitted admit 0 w q = 0"
| "admitted admit (Suc n) w [] = 0"
| "admitted admit (Suc n) w (x # q) = (if admit w x then Suc (admitted admit n (w @ [x]) q) else 0)"

lemma waiting_empty: "pump_claim e = None \<Longrightarrow> \<not> eg_closed e \<Longrightarrow> \<not> eg_terminal e \<Longrightarrow> waiting_queue e = []"
  by (auto simp: pump_claim_def earliest_def waiting_queue_def row_queue_empty_iff
      egress_order.earliest_row_None_iff split: option.splits)

lemma pump_loop_writes:
  fixes w :: "string list"
  assumes "pump_ready e" "\<not> eg_closed e" "\<not> eg_terminal e" "k \<le> m"
    and "q = map er_bytes (waiting_queue e)" "n = admitted admit (m - k) w q"
  shows "\<exists>e'. pump_loop plain_pool (admitting admit) m SALTS_OK k e w =
      Some (if n < m - k \<and> n < length q then SALTS_ENOBUFS else SALTS_OK, k + n, e', w @ take n q) \<and>
    waiting_queue e' = drop n (waiting_queue e) \<and>
    written_queue e' = written_queue e @
      map (\<lambda>row. row\<lparr>er_state := EGRESS_SUBMITTED\<rparr>) (take n (waiting_queue e))"
  using assms
proof (induction "m - k" arbitrary: k e w q n)
  case 0
  then show ?case by (subst pump_loop.simps) simp
next
  case (Suc d)
  have km: "k < m" "m - k = Suc d" "d = m - Suc k" using Suc.hyps(2) by linarith+
  show ?case
  proof (cases "pump_claim e")
    case None
    with Suc.prems km show ?thesis by (subst pump_loop.simps) (simp add: waiting_empty)
  next
    case (Some c)
    obtain i bytes e1 where c: "c = (i, bytes, e1)" by (rule prod_cases3)
    note P = pump_claim_SomeD [OF Some [unfolded c]]
    let ?x = "eg_rows e ! i"
    let ?e2 = "(set_row_state i EGRESS_SUBMITTED e1)\<lparr>eg_submitted := eg_submitted e1 + 1\<rparr>"
    have core: "eg_core e" using Suc.prems(1) by (simp add: pump_ready_def eg_invD(1) egress_reachable_inv)
    have i: "i < eg_capacity e" using earliest_SomeD(1) [OF P(1)] .
    have rows2: "eg_rows ?e2 = (eg_rows e)[i := ?x\<lparr>er_state := EGRESS_SUBMITTED\<rparr>]"
      using i by (simp add: P(5) set_row_state_rows)
    note M = write_moves_head [OF core P(1) rows2]
    have H: "pump_holds i e1" using pump_claim_holds(1) [OF Suc.prems(1) Some [unfolded c]] .
    have sub: "er_state (eg_rows e1 ! i) = EGRESS_SUBMITTING" using H by (simp add: pump_holds_def submitting_def)
    have flags: "\<not> eg_closed e1" "\<not> eg_terminal e1" using Suc.prems(2,3) by (simp_all add: P(5))
    show ?thesis
    proof (cases "admit w (er_bytes ?x)")
      case True
      have set1: "pump_settle i SALTS_OK SALTS_OK k e1 = (SALTS_OK, Suc k, ?e2)"
        using sub by (simp add: pump_settle_def)
      have loop: "pump_loop plain_pool (admitting admit) m SALTS_OK k e w =
          pump_loop plain_pool (admitting admit) m SALTS_OK (Suc k) ?e2 (w @ [er_bytes ?x])"
        using km True flags by (subst pump_loop.simps) (simp add: Some c plain_pool_def admitting_def P(4) set1)
      have ready: "pump_ready ?e2" using pump_settle_ready(1) [OF H set1] .
      have n: "n = Suc (admitted admit (m - Suc k) (w @ [er_bytes ?x]) (map er_bytes (waiting_queue ?e2)))"
        using Suc.prems(5,6) M(1) True km by simp
      define e2 where "e2 = ?e2"
      define n' where "n' = admitted admit (m - Suc k) (w @ [er_bytes ?x]) (map er_bytes (waiting_queue e2))"
      have "\<not> eg_closed e2" "\<not> eg_terminal e2" "Suc k \<le> m" using flags km by (simp_all add: e2_def)
      from Suc.hyps(1) [OF km(3) ready [folded e2_def] this HOL.refl n'_def] obtain e' where
        "pump_loop plain_pool (admitting admit) m SALTS_OK (Suc k) e2 (w @ [er_bytes ?x]) =
          Some (if n' < m - Suc k \<and> n' < length (map er_bytes (waiting_queue e2)) then SALTS_ENOBUFS else SALTS_OK,
            Suc k + n', e', (w @ [er_bytes ?x]) @ take n' (map er_bytes (waiting_queue e2)))"
        "waiting_queue e' = drop n' (waiting_queue e2)"
        "written_queue e' = written_queue e2 @
          map (\<lambda>row. row\<lparr>er_state := EGRESS_SUBMITTED\<rparr>) (take n' (waiting_queue e2))" by blast
      moreover have "n = Suc n'" "q = er_bytes ?x # map er_bytes (waiting_queue e2)" "m - k = Suc (m - Suc k)"
        using n Suc.prems(5) M(1) km by (simp_all add: n'_def e2_def)
      ultimately show ?thesis using M loop [folded e2_def] by (simp add: e2_def [symmetric])
    next
      case False
      have set1: "pump_settle i SALTS_ENOBUFS SALTS_OK k e1 = (SALTS_ENOBUFS, k,
          (set_row_state i EGRESS_READY e1)\<lparr>eg_transient_full := eg_transient_full e1 + 1\<rparr>)"
        using sub flags by (simp add: pump_settle_def)
      have same: "(eg_rows e)[i := ?x\<lparr>er_state := EGRESS_READY\<rparr>] = eg_rows e"
        using earliest_SomeD(2) [OF P(1)] i by (intro list_update_same_conv [THEN iffD2]) auto
      have "n = 0" "0 < length q" using Suc.prems(5,6) M(1) False km by simp_all
      with km False flags show ?thesis
        by (subst pump_loop.simps)
           (simp add: Some c plain_pool_def admitting_def P(4,5) set1 [unfolded P(5)] waiting_queue_def
             written_queue_def set_row_state_rows same i)
    qed
  qed
qed

text \<open>
  Property (C11). Writes leave in commit order and none is lost: on every reachable egress where the pump is
  admitted, against a CNet that takes writes until it has no room, the pump hands over
  exactly the payloads of the first \<open>n\<close> committed rows, in commit order, where \<open>n\<close> is what CNet
  admits within \<^verbatim>\<open>max_writes\<close>; these rows join the end of the rows that await completion, the
  others keep waiting in order, and ENOBUFS is returned exactly when CNet refused one.
\<close>

theorem egress_pump_commit_order:
  fixes w :: "string list"
  assumes "egress_reachable e" "fst (pump_begin e) = SALTS_OK" "max_writes \<noteq> 0"
    and "q = map er_bytes (waiting_queue e)" "n = admitted admit max_writes w q"
  shows "\<exists>e'. scxml_cnet_egress_pump plain_pool (admitting admit) max_writes e w =
      Some (if n < max_writes \<and> n < length q then SALTS_ENOBUFS else SALTS_OK, n, e', w @ take n q) \<and>
    waiting_queue e' = drop n (waiting_queue e) \<and>
    written_queue e' = written_queue e @
      map (\<lambda>row. row\<lparr>er_state := EGRESS_SUBMITTED\<rparr>) (take n (waiting_queue e))"
proof -
  let ?e = "e\<lparr>eg_pumping := True\<rparr>"
  from assms(2) have b: "pump_begin e = (SALTS_OK, ?e)" "\<not> eg_pumping e" "\<not> eg_closed e" "\<not> eg_terminal e"
    by (auto simp: pump_begin_def split: if_splits)
  have "pump_ready ?e"
    using assms(1) b eg_invD(2) [OF egress_reachable_inv [OF assms(1)]]
    by (auto simp: pump_ready_def idle_lane_def intro: egress_reachable.step egress_step.pump_begin)
  from pump_loop_writes [OF this, of 0 max_writes q n admit w] b assms(4,5) obtain e1 where
    "pump_loop plain_pool (admitting admit) max_writes SALTS_OK 0 ?e w =
      Some (if n < max_writes \<and> n < length q then SALTS_ENOBUFS else SALTS_OK, n, e1, w @ take n q)"
    "waiting_queue e1 = drop n (waiting_queue e)"
    "written_queue e1 = written_queue e @
      map (\<lambda>row. row\<lparr>er_state := EGRESS_SUBMITTED\<rparr>) (take n (waiting_queue e))"
    by (auto simp: waiting_queue_def written_queue_def)
  then show ?thesis
    using assms(3) b by (auto simp: scxml_cnet_egress_pump_def waiting_queue_def written_queue_def)
qed

theorem egress_pump_commit_order_witness:
  "\<exists>e'. scxml_cnet_egress_pump plain_pool (admitting (\<lambda>w b. length w < 1)) 5 demo_two_raw [] =
      Some (SALTS_ENOBUFS, 1, e', [''one'']) \<and> map er_bytes (waiting_queue e') = [''two''] \<and>
    map er_bytes (written_queue e') = [''one'']"
proof -
  have b: "fst (pump_begin demo_two_raw) = SALTS_OK" by code_simp
  have q: "[''one'', ''two''] = map er_bytes (waiting_queue demo_two_raw)" by code_simp
  have wr: "written_queue demo_two_raw = []" by code_simp
  have n: "1 = admitted (\<lambda>w b. length w < 1) 5 [] [''one'', ''two'']" by code_simp
  obtain x y where xy: "waiting_queue demo_two_raw = [x, y]" "er_bytes x = ''one''" "er_bytes y = ''two''"
    using q by (auto simp: Cons_eq_map_conv)
  from egress_pump_commit_order [OF demo_two_raw_reachable b _ q n] xy wr show ?thesis by auto
qed

text \<open>
  Completions are matched to writes in order: on every reachable egress whose connection is not
  terminal, the send callback with the size of the oldest written payload releases exactly
  that row and counts a completion; any other size releases it too but records a protocol
  failure; and a completion when nothing is written is a protocol failure that changes no row.
\<close>

theorem egress_completions_in_order:
  fixes size_written :: nat
  assumes "egress_reachable e" "eg_matches e c" "\<not> eg_terminal e"
  defines "e' \<equiv> egress_observe_send c size_written e"
  shows "case written_queue e of
      [] \<Rightarrow> eg_rows e' = eg_rows e \<and> eg_failed e'
    | row # rest \<Rightarrow> written_queue e' = rest \<and> waiting_queue e' = waiting_queue e \<and>
        eg_pending e' + 1 = eg_pending e \<and>
        (if size_written = length (er_bytes row)
         then eg_completed e' = eg_completed e + 1 \<and> eg_failed e' = eg_failed e
         else eg_completed e' = eg_completed e \<and> eg_failed e')"
proof -
  have core: "eg_core e" using assms(1) by (simp add: eg_invD(1) egress_reachable_inv)
  note ok = eg_coreD(1) [OF core]
  show ?thesis
  proof (cases "earliest EGRESS_SUBMITTED e")
    case None
    then have "written_queue e = []"
      by (simp add: written_queue_def row_queue_empty_iff earliest_def egress_order.earliest_row_None_iff)
    with None assms(2,3) show ?thesis by (simp add: e'_def egress_observe_send_def)
  next
    case (Some i)
    note S = earliest_SomeD [OF Some]
    let ?row = "eg_rows e ! i"
    have inj: "inj_on er_sequence {row \<in> set (eg_rows e). er_state row = EGRESS_SUBMITTED}"
      by (rule lane_inj [OF ok]) (simp add: lane_simps)
    have busy: "busy ?row" using S(2) by (simp add: busy_def)
    have pos: "0 < eg_pending e" using eg_coreD(2) [OF core] S(1) busy count_if_pos by metis
    have e': "e' = (if length (er_bytes ?row) = size_written then e\<lparr>eg_completed := eg_completed e + 1\<rparr>
        else set_failure SALTS_EPROTO e)
        \<lparr>eg_rows := (eg_rows e)[i := blank_egress_row], eg_pending := eg_pending e - 1\<rparr>"
      using assms(2,3) Some S(1) busy eg_coreD(2) [OF core]
      by (simp add: e'_def egress_observe_send_def release_row_rows)
    have head: "written_queue e = ?row # row_queue (\<lambda>row. er_state row = EGRESS_SUBMITTED) er_sequence
        ((eg_rows e)[i := blank_egress_row])"
      unfolding written_queue_def
      by (rule egress_order.row_queue_pop [OF Some [unfolded earliest_def] inj]) simp
    have wait: "waiting_queue e' = waiting_queue e"
      using S(2) by (simp add: e' waiting_queue_def row_queue_outside)
    show ?thesis
      using wait pos by (simp add: head) (simp add: e' written_queue_def set_failure_def)
  qed
qed

definition demo_written :: cnet_egress where
  "demo_written = (case scxml_cnet_egress_pump plain_pool (admitting (\<lambda>w b. True)) 2 demo_two_raw [] of
     Some (st, n, e', w') \<Rightarrow> e' | None \<Rightarrow> demo_two_raw)"

lemma demo_written_reachable: "egress_reachable demo_written"
proof -
  have p: "pool_contract plain_pool" by (auto simp: pool_contract_def plain_pool_def intro: egress_calls.refl)
  have c: "cnet_contract (admitting admit)" for admit
    by (auto simp: cnet_contract_def admitting_def intro: egress_entries.refl)
  show ?thesis
    using egress_pump_result [OF demo_two_raw_reachable p c, of "\<lambda>w b. True" 2 "[]"]
    by (auto simp: demo_written_def)
qed

theorem egress_completions_in_order_witness:
  "map er_bytes (written_queue (egress_observe_send demo_conn 3 demo_written)) = [''two''] \<and>
   eg_completed (egress_observe_send demo_conn 3 demo_written) = 1"
proof -
  have m: "eg_matches demo_written demo_conn" "\<not> eg_terminal demo_written" "eg_completed demo_written = 0"
    by code_simp+
  have q: "map er_bytes (written_queue demo_written) = [''one'', ''two'']" by code_simp
  then obtain x y where xy: "written_queue demo_written = [x, y]" "er_bytes x = ''one''" "er_bytes y = ''two''"
    by (auto simp: map_eq_Cons_conv)
  from egress_completions_in_order [OF demo_written_reachable m(1,2), of 3] xy m(3) show ?thesis by simp
qed

text \<open>
  Property (C24). Orderly shutdown: on every reachable egress that is closed, whose tickets are settled and
  whose pump does not run, the terminal callback of the bound connection releases every row
  that still waits for a completion, after which the egress is quiescent and
  \<^verbatim>\<open>scxml_cnet_egress_destroy\<close> frees it. Before the callback a bound egress refuses to be destroyed.
\<close>

theorem egress_shutdown:
  assumes "egress_reachable e" "eg_closed e" "\<not> eg_pumping e" "eg_matches e c"
    and "\<forall>row\<in>set (eg_rows e). er_state row \<noteq> EGRESS_RESERVED"
    and "state = CNET_CONNECTION_CLOSED \<or> state = CNET_CONNECTION_FAILED"
  shows "eg_pending (egress_observe_state c state error e) = 0 \<and>
    scxml_cnet_egress_destroy (Some (egress_observe_state c state error e)) = (SALTS_OK, None) \<and>
    (\<not> eg_terminal e \<longrightarrow> scxml_cnet_egress_destroy (Some e) = (SALTS_EBUSY, Some e))"
proof -
  note inv = egress_reachable_inv [OF assms(1)]
  let ?P = "\<lambda>row. er_state row = EGRESS_READY \<or> er_state row = EGRESS_SUBMITTED"
  let ?e1 = "e\<lparr>eg_connected := False, eg_terminal := True\<rparr>"
  let ?st = "case error of None \<Rightarrow> SALTS_EIO | Some st \<Rightarrow> if st \<noteq> SALTS_OK then st else SALTS_EIO"
  define e2 where "e2 = (if state = CNET_CONNECTION_FAILED then set_failure ?st ?e1 else ?e1)"
  have obs: "egress_observe_state c state error e = cancel_rows_where ?P e2"
    using assms(4,6) by (auto simp: egress_observe_state_def Let_def e2_def)
  have core: "eg_core e2" and frame: "eg_rows e2 = eg_rows e" "eg_pumping e2 = eg_pumping e"
    "eg_closed e2 = eg_closed e" "eg_terminal e2"
    using eg_invD(1) [OF inv] by (simp_all add: e2_def)
  have busyP: "?P row \<Longrightarrow> busy row" for row by (auto simp: lane_simps)
  note W = cancel_rows_where [where P = ?P, OF core busyP]
  have only: "\<not> busy row \<or> er_state row = EGRESS_SUBMITTED" if "row \<in> set (eg_rows e)" for row
    using assms(2,3,5) that eg_invD(2,3) [OF inv]
    by (cases "er_state row") (auto simp: lane_simps)
  have "eg_rows (cancel_rows_where ?P e2) = map (\<lambda>row. if ?P row then blank_egress_row else row) (eg_rows e)"
    using W(2) frame(1) by simp
  with only have "\<forall>row\<in>set (eg_rows (cancel_rows_where ?P e2)). \<not> busy row" by auto
  then have pending: "eg_pending (cancel_rows_where ?P e2) = 0"
    using eg_coreD(2) [OF W(1)] by (simp add: count_if_zero_iff)
  moreover have "adapter_quiescent (cancel_rows_where ?P e2)"
    unfolding adapter_quiescent_def using pending W(3-6) frame assms(2,3) by simp
  moreover have "eg_bound e" using assms(4) by (simp add: eg_matches_def)
  ultimately show ?thesis
    unfolding obs by (simp add: scxml_cnet_egress_destroy_def adapter_quiescent_def)
qed

theorem egress_shutdown_witness:
  "scxml_cnet_egress_destroy (Some (egress_observe_state demo_conn CNET_CONNECTION_CLOSED None
     (adapter_close demo_written))) = (SALTS_OK, None)"
proof -
  have r: "egress_reachable (adapter_close demo_written)"
    by (rule reachable_egress_call [OF demo_written_reachable egress_call.close])
  have "eg_closed (adapter_close demo_written)" "\<not> eg_pumping (adapter_close demo_written)"
    "eg_matches (adapter_close demo_written) demo_conn"
    "\<forall>row\<in>set (eg_rows (adapter_close demo_written)). er_state row \<noteq> EGRESS_RESERVED" by code_simp+
  from egress_shutdown [OF r this, of CNET_CONNECTION_CLOSED None] show ?thesis by simp
qed

end
