(* ===== verification/Http_Egress.thy ===== *)
theory Http_Egress
  imports Http_Codec
begin

text \<open>
  Model of \<^verbatim>\<open>src/chttp_event_io_egress.c\<close> on the state of \<^verbatim>\<open>src/chttp_event_io_internal.h\<close>: the
  outbound half of the BasicHTTP processor. A send is reserved and encoded while it is
  prepared, published by its ticket, and posted by the worker thread, one request per binding
  at a time.

  Conventions. A binding is allocated on the heap: a pointer to it is an index into
  \<open>hp_bindings\<close>, which grows with each allocation and holds \<^term>\<open>None\<close> for a freed object. A
  pointer to a row or a cancellation ticket is its index. A C string is its characters
  before the terminator, NULL is \<^term>\<open>None\<close>. The guarded decrement \<^verbatim>\<open>if (n != 0) --n\<close> is the
  truncated subtraction of natural numbers. One section under the processor mutex is one
  definition. The resolver, the HTTP client and the Session reports, which run without the
  mutex, are arguments on the processor and a world \<open>'w\<close>, since other threads may use the
  processor meanwhile. The test hooks that make the next cancellation fail or delay a
  completion are instances of these arguments.
\<close>

section \<open>State\<close>

datatype http_processor_state =
    SCXML_CHTTP_PROCESSOR_INITIALIZED | SCXML_CHTTP_PROCESSOR_RUNNING
  | SCXML_CHTTP_PROCESSOR_STOPPING | SCXML_CHTTP_PROCESSOR_STOPPED

datatype http_binding_state =
    SCXML_CHTTP_BINDING_RESERVED | SCXML_CHTTP_BINDING_ACTIVE
  | SCXML_CHTTP_BINDING_CLOSING | SCXML_CHTTP_BINDING_QUIESCENT

datatype http_row_state =
    SCXML_CHTTP_EGRESS_FREE | SCXML_CHTTP_EGRESS_RESERVED | SCXML_CHTTP_EGRESS_READY
  | SCXML_CHTTP_EGRESS_SUBMITTING | SCXML_CHTTP_EGRESS_SUBMITTED | SCXML_CHTTP_EGRESS_COMPLETING

datatype http_outcome =
    SCXML_CHTTP_EGRESS_COMPLETED | SCXML_CHTTP_EGRESS_FAILED | SCXML_CHTTP_EGRESS_CANCELLED

record chttp_request =
  rq_slot :: u32
  rq_generation :: u32

record http_endpoint =
  ep_binding :: "nat option"
  ep_generation :: u32
  ep_endpoint :: string
  ep_access_uri :: string

text \<open>The sizes of \<^verbatim>\<open>send_id\<close>, \<^verbatim>\<open>body\<close> and \<^verbatim>\<open>media_type\<close> are the lengths of the strings.\<close>

record http_row =
  hr_binding :: "nat option"
  hr_generation :: u32
  hr_state :: http_row_state
  hr_connection_uri :: string
  hr_authority :: string
  hr_target :: string
  hr_send_id :: string
  hr_body :: string
  hr_media_type :: string
  hr_delay_ms :: u64
  hr_due_ms :: u64
  hr_commit_sequence :: u64
  hr_request :: chttp_request
  hr_cancel_requested :: bool

record http_cancel_ticket =
  ct_target_index :: nat
  ct_target_generation :: u32
  ct_reserved :: bool

text \<open>The descriptor of a downstream adapter; its functions are arguments where they are called.\<close>

record event_io_adapter =
  ea_abi_version :: u32
  ea_struct_size :: nat
  ea_capabilities :: u64
  ea_prepare_send_set :: bool
  ea_prepare_cancel_set :: bool
  ea_close_set :: bool
  ea_is_quiescent_set :: bool

record http_binding =
  bd_endpoint_index :: nat
  bd_endpoint_generation :: u32
  bd_state :: http_binding_state
  bd_downstream :: event_io_adapter
  bd_decode_set :: bool
  bd_session :: "session option"
  bd_program :: "nat option"
  bd_active_callbacks :: nat
  bd_outbound_references :: nat
  bd_next_commit_sequence :: u64
  bd_downstream_close_called :: bool

text \<open>The part of the configuration that the operations below read.\<close>

record http_config =
  hc_limits :: codec_limits
  hc_max_access_uri_bytes :: nat
  hc_endpoint_capacity :: nat
  hc_egress_capacity :: nat
  hc_advertised_authority :: string
  hc_base_path :: string
  hc_bound_port :: nat
  hc_max_request_body_bytes :: nat

record http_processor =
  hp_config :: http_config
  hp_state :: http_processor_state
  hp_bindings :: "http_binding option list"
  hp_endpoints :: "http_endpoint list"
  hp_rows :: "http_row list"
  hp_cancel_tickets :: "http_cancel_ticket list"
  hp_live_bindings :: nat
  hp_queued_egress :: nat
  hp_in_flight_egress :: nat
  hp_egress_accepted :: u64
  hp_egress_completed :: u64
  hp_egress_failed :: u64
  hp_egress_cancelled :: u64
  hp_ingress_requests :: u64
  hp_ingress_admitted :: u64
  hp_ingress_rejected :: u64
  hp_invariant_failures :: u64

abbreviation egress_capacity :: "http_processor \<Rightarrow> nat" where
  "egress_capacity p \<equiv> length (hp_rows p)"

text \<open>Dereferencing a binding, and the two field updates through a pointer.\<close>

definition http_binding_at :: "http_processor \<Rightarrow> nat \<Rightarrow> http_binding" where
  "http_binding_at p b = the (hp_bindings p ! b)"

definition upd_row :: "nat \<Rightarrow> (http_row \<Rightarrow> http_row) \<Rightarrow> http_processor \<Rightarrow> http_processor" where
  "upd_row i f p = p\<lparr>hp_rows := (hp_rows p)[i := f (hp_rows p ! i)]\<rparr>"

definition upd_binding :: "nat \<Rightarrow> (http_binding \<Rightarrow> http_binding) \<Rightarrow> http_processor \<Rightarrow> http_processor" where
  "upd_binding b f p = p\<lparr>hp_bindings := (hp_bindings p)[b := Some (f (http_binding_at p b))]\<rparr>"

definition invariant_failure :: "http_processor \<Rightarrow> http_processor" where
  "invariant_failure p = p\<lparr>hp_invariant_failures := hp_invariant_failures p + 1\<rparr>"

definition http_open :: "http_processor \<Rightarrow> nat \<Rightarrow> bool" where
  "http_open p b \<longleftrightarrow> bd_state (http_binding_at p b) = SCXML_CHTTP_BINDING_RESERVED \<or>
     bd_state (http_binding_at p b) = SCXML_CHTTP_BINDING_ACTIVE"

section \<open>Rows and their tickets\<close>

fun bounded_string_size :: "string option \<Rightarrow> nat \<Rightarrow> nat option" where
  "bounded_string_size None maximum = None"
| "bounded_string_size (Some s) maximum =
     (if s = [] \<or> length s > maximum then None else Some (length s))"

definition valid_connection_uri :: "string \<Rightarrow> bool" where
  "valid_connection_uri uri \<longleftrightarrow>
     length uri > length ''tcp://'' \<and> take (length ''tcp://'') uri = ''tcp://'' \<or>
     length uri > length ''pipe://'' \<and> take (length ''pipe://'') uri = ''pipe://''"

text \<open>The cleared row keeps its generation and its text buffers.\<close>

definition cleared_row :: "http_row \<Rightarrow> http_row" where
  "cleared_row row = \<lparr>hr_binding = None, hr_generation = hr_generation row,
     hr_state = SCXML_CHTTP_EGRESS_FREE, hr_connection_uri = hr_connection_uri row,
     hr_authority = hr_authority row, hr_target = hr_target row, hr_send_id = [], hr_body = [],
     hr_media_type = [], hr_delay_ms = 0, hr_due_ms = 0, hr_commit_sequence = 0,
     hr_request = \<lparr>rq_slot = 0, rq_generation = 0\<rparr>, hr_cancel_requested = False\<rparr>"

definition reset_row_locked :: "nat \<Rightarrow> http_processor \<Rightarrow> http_processor" where
  "reset_row_locked i p =
     upd_row i cleared_row
       (case hr_binding (hp_rows p ! i) of
          None \<Rightarrow> p
        | Some b \<Rightarrow>
            upd_binding b (\<lambda>bd. bd\<lparr>bd_outbound_references := bd_outbound_references bd - 1\<rparr>) p)"

text \<open>Release of a row that is counted as queued.\<close>

definition release_queued :: "nat \<Rightarrow> http_processor \<Rightarrow> http_processor" where
  "release_queued i p = reset_row_locked i (p\<lparr>hp_queued_egress := hp_queued_egress p - 1\<rparr>)"

definition abort_reserved :: "nat \<Rightarrow> http_processor \<Rightarrow> http_processor" where
  "abort_reserved i p =
     (if hr_state (hp_rows p ! i) = SCXML_CHTTP_EGRESS_RESERVED then release_queued i p
      else invariant_failure p)"

definition due_time :: "u64 \<Rightarrow> u64 \<Rightarrow> u64" where
  "due_time now delay = (if delay > UINT64_MAX - now then UINT64_MAX else now + delay)"

definition egress_commit :: "u64 \<Rightarrow> nat \<Rightarrow> http_processor \<Rightarrow> http_processor" where
  "egress_commit now i p =
     (case hr_binding (hp_rows p ! i) of
        None \<Rightarrow> invariant_failure p
      | Some b \<Rightarrow>
          if hr_state (hp_rows p ! i) \<noteq> SCXML_CHTTP_EGRESS_RESERVED then invariant_failure p
          else if hp_state p \<noteq> SCXML_CHTTP_PROCESSOR_RUNNING \<or> \<not> http_open p b then release_queued i p
          else
            let next = bd_next_commit_sequence (http_binding_at p b) in
            upd_row i (\<lambda>row. row\<lparr>hr_state := SCXML_CHTTP_EGRESS_READY, hr_commit_sequence := next,
                                 hr_due_ms := due_time now (hr_delay_ms row)\<rparr>)
              (upd_binding b (\<lambda>bd. bd\<lparr>bd_next_commit_sequence := if next + 1 = 0 then 1 else next + 1\<rparr>) p))"

definition egress_discard :: "nat \<Rightarrow> http_processor \<Rightarrow> http_processor" where
  "egress_discard i p =
     (if hr_state (hp_rows p ! i) = SCXML_CHTTP_EGRESS_RESERVED then release_queued i p
      else invariant_failure p)"

section \<open>Preparing a send\<close>

record http_resolved =
  rs_connection_uri :: "string option"
  rs_authority :: "string option"
  rs_target :: "string option"

definition next_generation :: "u32 \<Rightarrow> u32" where
  "next_generation g = (if g + 1 = 0 then g + 1 + 1 else g + 1)"

text \<open>The first section: the index of the reserved row, or the status to return.\<close>

definition prepare_reserve ::
  "nat \<Rightarrow> scxml_send_request \<Rightarrow> http_processor \<Rightarrow> (scxml_adapter_status + nat) \<times> http_processor" where
  "prepare_reserve b request p =
     (if hp_state p \<noteq> SCXML_CHTTP_PROCESSOR_RUNNING \<or> \<not> http_open p b then (Inl SCXML_ADAPTER_CLOSED, p)
      else case first_index (\<lambda>row. hr_state row = SCXML_CHTTP_EGRESS_FREE) (hp_rows p) of
        None \<Rightarrow> (Inl SCXML_ADAPTER_FULL, p)
      | Some i \<Rightarrow>
          (Inr i,
           (upd_binding b (\<lambda>bd. bd\<lparr>bd_outbound_references := bd_outbound_references bd + 1\<rparr>)
              (upd_row i (\<lambda>row. row\<lparr>hr_generation := next_generation (hr_generation row),
                 hr_state := SCXML_CHTTP_EGRESS_RESERVED, hr_binding := Some b,
                 hr_delay_ms := sr_delay_ms request, hr_send_id := cdata (sr_id request)\<rparr>) p))
             \<lparr>hp_queued_egress := hp_queued_egress p + 1\<rparr>))"

definition resolved_ok :: "nat \<Rightarrow> salts_status \<Rightarrow> http_resolved \<Rightarrow> bool" where
  "resolved_ok maximum status resolved \<longleftrightarrow> status = SALTS_OK \<and>
     bounded_string_size (rs_connection_uri resolved) maximum \<noteq> None \<and>
     bounded_string_size (rs_authority resolved) maximum \<noteq> None \<and>
     bounded_string_size (rs_target resolved) maximum \<noteq> None \<and>
     valid_connection_uri (the (rs_connection_uri resolved)) \<and> hd (the (rs_target resolved)) = CHR ''/''"

text \<open>The copies into the reserved row, which no other thread touches.\<close>

definition copy_target :: "nat \<Rightarrow> http_resolved \<Rightarrow> http_processor \<Rightarrow> http_processor" where
  "copy_target i resolved p =
     upd_row i (\<lambda>row. row\<lparr>hr_connection_uri := the (rs_connection_uri resolved),
       hr_authority := the (rs_authority resolved), hr_target := the (rs_target resolved)\<rparr>) p"

definition store_body :: "nat \<Rightarrow> encoded_body \<Rightarrow> http_processor \<Rightarrow> http_processor" where
  "store_body i encoded p =
     upd_row i (\<lambda>row. row\<lparr>hr_body := eb_body encoded, hr_media_type := eb_media_type encoded\<rparr>) p"

definition prepare_finish :: "nat \<Rightarrow> nat \<Rightarrow> http_processor \<Rightarrow> scxml_adapter_status \<times> nat option \<times> http_processor" where
  "prepare_finish b i p =
     (if hr_state (hp_rows p ! i) \<noteq> SCXML_CHTTP_EGRESS_RESERVED \<or> \<not> http_open p b
      then (SCXML_ADAPTER_CLOSED, None,
            if hr_state (hp_rows p ! i) = SCXML_CHTTP_EGRESS_RESERVED then release_queued i p else p)
      else (SCXML_ADAPTER_ACCEPTED, Some i, p\<lparr>hp_egress_accepted := hp_egress_accepted p + 1\<rparr>))"

definition target_empty :: string where "target_empty = ''BasicHTTP target is empty''"
definition target_denied :: string where "target_denied = ''BasicHTTP target was denied''"

text \<open>The whole call: status, error text, the row of the ticket.\<close>

definition scxml_chttp_egress_prepare_send ::
  "codec_env \<Rightarrow> (string \<Rightarrow> http_processor \<times> 'w \<Rightarrow> (salts_status \<times> http_resolved) \<times> http_processor \<times> 'w) \<Rightarrow>
   nat \<Rightarrow> scxml_send_request \<Rightarrow> http_processor \<times> 'w \<Rightarrow>
   (scxml_adapter_status \<times> string option \<times> nat option) \<times> http_processor \<times> 'w" where
  "scxml_chttp_egress_prepare_send env resolve b request s =
     (if csize (sr_target request) = 0 then ((SCXML_ADAPTER_ERROR_COMMUNICATION, Some target_empty, None), s)
      else if is_cnull (sr_target request) \<or> is_cnull (sr_id request) \<and> csize (sr_id request) \<noteq> 0 \<or>
              csize (sr_id request) > SCXML_EVENT_METADATA_CAPACITY
      then ((SCXML_ADAPTER_INVALID_CONTRACT, None, None), s)
      else case prepare_reserve b request (fst s) of
        (Inl status, p) \<Rightarrow> ((status, None, None), p, snd s)
      | (Inr i, p) \<Rightarrow>
          (case resolve (cdata (sr_target request)) (p, snd s) of ((status, resolved), p1, w1) \<Rightarrow>
            if \<not> resolved_ok (hc_max_access_uri_bytes (hp_config p1)) status resolved
            then ((SCXML_ADAPTER_ERROR_COMMUNICATION, Some target_denied, None), abort_reserved i p1, w1)
            else
              let p2 = copy_target i resolved p1 in
              case scxml_chttp_codec_encode env request (hc_limits (hp_config p1)) False
                     (max_encoded_body_bytes (hc_limits (hp_config p1))) of
                (SCXML_ADAPTER_ACCEPTED, n, Some encoded) \<Rightarrow>
                  (case prepare_finish b i (store_body i encoded p2) of
                    (st, t, p3) \<Rightarrow> ((st, None, t), p3, w1))
              | (st, n, out) \<Rightarrow> ((st, None, None), abort_reserved i p2, w1)))"

section \<open>Cancellation tickets\<close>

definition http_cancel_discard :: "nat \<Rightarrow> http_processor \<Rightarrow> http_processor" where
  "http_cancel_discard k p =
     (let ticket = hp_cancel_tickets p ! k in
      if ct_reserved ticket
      then p\<lparr>hp_cancel_tickets := (hp_cancel_tickets p)[k := ticket\<lparr>ct_reserved := False\<rparr>]\<rparr>
      else invariant_failure p)"

definition in_client :: "http_row_state \<Rightarrow> bool" where
  "in_client st \<longleftrightarrow> st = SCXML_CHTTP_EGRESS_SUBMITTING \<or> st = SCXML_CHTTP_EGRESS_SUBMITTED"

text \<open>What cancelling and closing do to one row: free it while it waits, mark it while the client has it.\<close>

definition cancel_or_mark :: "nat \<Rightarrow> http_processor \<Rightarrow> http_processor" where
  "cancel_or_mark i p =
     (if hr_state (hp_rows p ! i) = SCXML_CHTTP_EGRESS_READY
      then release_queued i (p\<lparr>hp_egress_cancelled := hp_egress_cancelled p + 1\<rparr>)
      else if in_client (hr_state (hp_rows p ! i))
      then upd_row i (\<lambda>row. row\<lparr>hr_cancel_requested := True\<rparr>) p
      else p)"

definition http_cancel_commit :: "nat \<Rightarrow> http_processor \<Rightarrow> http_processor" where
  "http_cancel_commit k p =
     (let ticket = hp_cancel_tickets p ! k in
      if \<not> ct_reserved ticket \<or> ct_target_index ticket \<ge> egress_capacity p then invariant_failure p
      else
        let p1 = p\<lparr>hp_cancel_tickets := (hp_cancel_tickets p)[k := ticket\<lparr>ct_reserved := False\<rparr>]\<rparr> in
        if hr_generation (hp_rows p ! ct_target_index ticket) \<noteq> ct_target_generation ticket then p1
        else cancel_or_mark (ct_target_index ticket) p1)"

definition http_cancel_target :: "nat \<Rightarrow> string \<Rightarrow> http_row \<Rightarrow> bool" where
  "http_cancel_target b send_id row \<longleftrightarrow> hr_binding row = Some b \<and> hr_send_id row = send_id \<and>
     hr_state row \<noteq> SCXML_CHTTP_EGRESS_FREE"

text \<open>Status, ticket, and whether the send id belongs to this processor.\<close>

definition scxml_chttp_egress_prepare_cancel ::
  "nat \<Rightarrow> cbytes \<Rightarrow> http_processor \<Rightarrow> scxml_adapter_status \<times> nat option \<times> bool \<times> http_processor" where
  "scxml_chttp_egress_prepare_cancel b send_id p =
     (if is_cnull send_id \<and> csize send_id \<noteq> 0 then (SCXML_ADAPTER_INVALID_CONTRACT, None, False, p)
      else if hp_state p \<noteq> SCXML_CHTTP_PROCESSOR_RUNNING \<or> \<not> http_open p b
      then (SCXML_ADAPTER_CLOSED, None, False, p)
      else case (if is_cnull send_id then None
                 else first_index (http_cancel_target b (cdata send_id)) (hp_rows p)) of
        None \<Rightarrow> (SCXML_ADAPTER_ACCEPTED, None, False, p)
      | Some i \<Rightarrow>
          (case first_index (\<lambda>ticket. \<not> ct_reserved ticket) (hp_cancel_tickets p) of
             None \<Rightarrow> (SCXML_ADAPTER_FULL, None, True, p)
           | Some k \<Rightarrow>
               (SCXML_ADAPTER_ACCEPTED, Some k, True,
                p\<lparr>hp_cancel_tickets := (hp_cancel_tickets p)
                    [k := \<lparr>ct_target_index = i, ct_target_generation = hr_generation (hp_rows p ! i),
                           ct_reserved = True\<rparr>]\<rparr>)))"

text \<open>The loop of the binding close, over all rows in order.\<close>

definition close_row :: "nat \<Rightarrow> nat \<Rightarrow> http_processor \<Rightarrow> http_processor" where
  "close_row b i p = (if hr_binding (hp_rows p ! i) \<noteq> Some b then p else cancel_or_mark i p)"

definition scxml_chttp_egress_close_binding_locked :: "nat \<Rightarrow> http_processor \<Rightarrow> http_processor" where
  "scxml_chttp_egress_close_binding_locked b p = fold (close_row b) [0..<egress_capacity p] p"

section \<open>The worker\<close>

definition committed_state :: "http_row_state \<Rightarrow> bool" where
  "committed_state st \<longleftrightarrow> st \<noteq> SCXML_CHTTP_EGRESS_FREE \<and> st \<noteq> SCXML_CHTTP_EGRESS_RESERVED"

definition earlier_row_blocks_locked :: "http_processor \<Rightarrow> nat \<Rightarrow> bool" where
  "earlier_row_blocks_locked p c \<longleftrightarrow>
     list_ex (\<lambda>j. j \<noteq> c \<and> hr_binding (hp_rows p ! j) = hr_binding (hp_rows p ! c) \<and>
                  committed_state (hr_state (hp_rows p ! j)) \<and>
                  hr_commit_sequence (hp_rows p ! j) < hr_commit_sequence (hp_rows p ! c))
             [0..<egress_capacity p]"

definition submittable :: "http_processor \<Rightarrow> u64 \<Rightarrow> nat \<Rightarrow> bool" where
  "submittable p now i \<longleftrightarrow> hr_state (hp_rows p ! i) = SCXML_CHTTP_EGRESS_READY \<and>
     bd_state (http_binding_at p (the (hr_binding (hp_rows p ! i)))) = SCXML_CHTTP_BINDING_ACTIVE \<and>
     hr_due_ms (hp_rows p ! i) \<le> now \<and> \<not> earlier_row_blocks_locked p i"

definition select_ready_locked :: "http_processor \<Rightarrow> u64 \<Rightarrow> nat option" where
  "select_ready_locked p now =
     earliest_row (submittable p now) (\<lambda>i j. hr_due_ms (hp_rows p ! i) < hr_due_ms (hp_rows p ! j))
       [0..<egress_capacity p]"

text \<open>
  Completion: the first section takes the row out of the client and says what to report (an
  error to a Session, the end of a delayed send); the last one frees the row.
\<close>

definition count_outcome :: "http_outcome \<Rightarrow> http_processor \<Rightarrow> http_processor" where
  "count_outcome outcome p =
     (case outcome of
        SCXML_CHTTP_EGRESS_COMPLETED \<Rightarrow> p\<lparr>hp_egress_completed := hp_egress_completed p + 1\<rparr>
      | SCXML_CHTTP_EGRESS_CANCELLED \<Rightarrow> p\<lparr>hp_egress_cancelled := hp_egress_cancelled p + 1\<rparr>
      | SCXML_CHTTP_EGRESS_FAILED \<Rightarrow> p\<lparr>hp_egress_failed := hp_egress_failed p + 1\<rparr>)"

record http_report =
  rp_error :: "session option"
  rp_send_done :: "(session \<times> string) option"

definition completion_report :: "http_outcome \<Rightarrow> http_row \<Rightarrow> http_binding \<Rightarrow> http_report" where
  "completion_report outcome row bd =
     \<lparr>rp_error = (if outcome = SCXML_CHTTP_EGRESS_FAILED \<and> bd_state bd = SCXML_CHTTP_BINDING_ACTIVE
                 then bd_session bd else None),
      rp_send_done = (if hr_delay_ms row \<noteq> 0 \<and> hr_send_id row \<noteq> []
                      then map_option (\<lambda>session. (session, hr_send_id row)) (bd_session bd) else None)\<rparr>"

definition complete_begin :: "http_outcome \<Rightarrow> nat \<Rightarrow> http_processor \<Rightarrow> http_report option \<times> http_processor" where
  "complete_begin outcome i p =
     (let row = hp_rows p ! i in
      case hr_binding row of
        None \<Rightarrow> (None, invariant_failure p)
      | Some b \<Rightarrow>
          if \<not> in_client (hr_state row) then (None, invariant_failure p)
          else (Some (completion_report outcome row (http_binding_at p b)),
                count_outcome outcome
                  ((upd_row i (\<lambda>row. row\<lparr>hr_state := SCXML_CHTTP_EGRESS_COMPLETING\<rparr>) p)
                     \<lparr>hp_in_flight_egress := hp_in_flight_egress p - 1\<rparr>)))"

definition complete_end :: "nat \<Rightarrow> http_processor \<Rightarrow> http_processor" where
  "complete_end i p =
     (if hr_state (hp_rows p ! i) = SCXML_CHTTP_EGRESS_COMPLETING then reset_row_locked i p
      else invariant_failure p)"

record 'w http_session_ops =
  so_report_error :: "session \<Rightarrow> http_processor \<times> 'w \<Rightarrow> http_processor \<times> 'w"
  so_report_send_done :: "session \<Rightarrow> string \<Rightarrow> http_processor \<times> 'w \<Rightarrow> http_processor \<times> 'w"

definition send_reports :: "'w http_session_ops \<Rightarrow> http_report \<Rightarrow> http_processor \<times> 'w \<Rightarrow> http_processor \<times> 'w" where
  "send_reports ops r s =
     (let s1 = (case rp_error r of None \<Rightarrow> s | Some session \<Rightarrow> so_report_error ops session s) in
      case rp_send_done r of None \<Rightarrow> s1 | Some (session, send_id) \<Rightarrow> so_report_send_done ops session send_id s1)"

definition complete_row ::
  "'w http_session_ops \<Rightarrow> http_outcome \<Rightarrow> nat \<Rightarrow>
   http_processor \<times> 'w \<Rightarrow> http_processor \<times> 'w" where
  "complete_row ops outcome i s =
     (case complete_begin outcome i (fst s) of
        (None, p) \<Rightarrow> (p, snd s)
      | (Some r, p) \<Rightarrow> (case send_reports ops r (p, snd s) of (p1, w1) \<Rightarrow> (complete_end i p1, w1)))"

definition request_outcome :: "salts_status option \<Rightarrow> nat option \<Rightarrow> http_outcome" where
  "request_outcome error response =
     (if error = Some SALTS_ECANCELED then SCXML_CHTTP_EGRESS_CANCELLED
      else case (error, response) of
        (None, Some code) \<Rightarrow>
          if code < 200 \<or> code \<ge> 300 then SCXML_CHTTP_EGRESS_FAILED else SCXML_CHTTP_EGRESS_COMPLETED
      | _ \<Rightarrow> SCXML_CHTTP_EGRESS_FAILED)"

definition request_complete ::
  "'w http_session_ops \<Rightarrow> nat \<Rightarrow> salts_status option \<Rightarrow> nat option \<Rightarrow>
   http_processor \<times> 'w \<Rightarrow> http_processor \<times> 'w" where
  "request_complete ops i error response s = complete_row ops (request_outcome error response) i s"

text \<open>One cancellation of a request that the client has.\<close>

definition cancel_pick :: "http_processor \<Rightarrow> (nat \<times> chttp_request) option \<times> http_processor" where
  "cancel_pick p =
     (case first_index (\<lambda>row. hr_state row = SCXML_CHTTP_EGRESS_SUBMITTED \<and> hr_cancel_requested row) (hp_rows p) of
        None \<Rightarrow> (None, p)
      | Some i \<Rightarrow> (Some (i, hr_request (hp_rows p ! i)),
                   upd_row i (\<lambda>row. row\<lparr>hr_cancel_requested := False\<rparr>) p))"

definition still_submitted :: "nat \<Rightarrow> chttp_request \<Rightarrow> http_processor \<Rightarrow> bool" where
  "still_submitted i request p \<longleftrightarrow> hr_state (hp_rows p ! i) = SCXML_CHTTP_EGRESS_SUBMITTED \<and>
     rq_slot (hr_request (hp_rows p ! i)) = rq_slot request \<and>
     rq_generation (hr_request (hp_rows p ! i)) = rq_generation request"

definition cancel_unknown :: "nat \<Rightarrow> chttp_request \<Rightarrow> http_processor \<Rightarrow> http_processor" where
  "cancel_unknown i request p = (if still_submitted i request p then invariant_failure p else p)"

definition cancel_retry :: "nat \<Rightarrow> chttp_request \<Rightarrow> salts_status \<Rightarrow> http_processor \<Rightarrow> http_processor" where
  "cancel_retry i request status p =
     (if still_submitted i request p
      then (let p1 = upd_row i (\<lambda>row. row\<lparr>hr_cancel_requested := True\<rparr>) p in
            if status \<noteq> SALTS_ENOBUFS \<and> status \<noteq> SALTS_EBUSY then invariant_failure p1 else p1)
      else p)"

definition scxml_chttp_egress_cancel_one ::
  "(chttp_request \<Rightarrow> http_processor \<times> 'w \<Rightarrow> salts_status \<times> http_processor \<times> 'w) \<Rightarrow>
   'w http_session_ops \<Rightarrow>
   http_processor \<times> 'w \<Rightarrow> bool \<times> http_processor \<times> 'w" where
  "scxml_chttp_egress_cancel_one request_cancel ops s =
     (case cancel_pick (fst s) of
        (None, p) \<Rightarrow> (False, p, snd s)
      | (Some (i, request), p) \<Rightarrow>
          (case request_cancel request (p, snd s) of (status, p1, w1) \<Rightarrow>
             if status = SALTS_OK \<or> status = SALTS_EALREADY then (True, p1, w1)
             else if status = SALTS_ENOENT
             then (True, complete_row ops SCXML_CHTTP_EGRESS_CANCELLED i (cancel_unknown i request p1, w1))
             else (False, cancel_retry i request status p1, w1)))"

text \<open>One submission. What the client is given is a request record.\<close>

record http_post =
  po_connection_uri :: string
  po_authority :: string
  po_target :: string
  po_content_type :: string
  po_body :: string
  po_row :: nat

definition submit_claim :: "u64 \<Rightarrow> http_processor \<Rightarrow> (http_post \<times> http_processor) option" where
  "submit_claim now p =
     (case select_ready_locked p now of
        None \<Rightarrow> None
      | Some i \<Rightarrow>
          (let row = hp_rows p ! i in
           Some (\<lparr>po_connection_uri = hr_connection_uri row, po_authority = hr_authority row,
                  po_target = hr_target row, po_content_type = hr_media_type row,
                  po_body = hr_body row, po_row = i\<rparr>,
                 (upd_row i (\<lambda>row. row\<lparr>hr_state := SCXML_CHTTP_EGRESS_SUBMITTING\<rparr>) p)
                   \<lparr>hp_queued_egress := hp_queued_egress p - 1,
                    hp_in_flight_egress := hp_in_flight_egress p + 1\<rparr>)))"

text \<open>The section after the client call; \<^term>\<open>None\<close> means that the row has to be completed as failed.\<close>

definition submit_settle :: "nat \<Rightarrow> salts_status \<Rightarrow> chttp_request \<Rightarrow> http_processor \<Rightarrow> bool option \<times> http_processor" where
  "submit_settle i status request p =
     (if status = SALTS_OK \<and> hr_state (hp_rows p ! i) = SCXML_CHTTP_EGRESS_SUBMITTING
      then (Some True, upd_row i (\<lambda>row. row\<lparr>hr_request := request, hr_state := SCXML_CHTTP_EGRESS_SUBMITTED\<rparr>) p)
      else if status = SALTS_ENOBUFS \<and> hr_state (hp_rows p ! i) = SCXML_CHTTP_EGRESS_SUBMITTING
      then (Some False,
            (upd_row i (\<lambda>row. row\<lparr>hr_state := SCXML_CHTTP_EGRESS_READY\<rparr>) p)
              \<lparr>hp_queued_egress := hp_queued_egress p + 1, hp_in_flight_egress := hp_in_flight_egress p - 1\<rparr>)
      else (None, p))"

definition scxml_chttp_egress_submit_one ::
  "(http_post \<Rightarrow> http_processor \<times> 'w \<Rightarrow> (salts_status \<times> chttp_request) \<times> http_processor \<times> 'w) \<Rightarrow>
   'w http_session_ops \<Rightarrow> u64 \<Rightarrow>
   http_processor \<times> 'w \<Rightarrow> bool \<times> http_processor \<times> 'w" where
  "scxml_chttp_egress_submit_one submit ops now s =
     (case submit_claim now (fst s) of
        None \<Rightarrow> (False, s)
      | Some (post, p) \<Rightarrow>
          (case submit post (p, snd s) of ((status, request), p1, w1) \<Rightarrow>
             (case submit_settle (po_row post) status request p1 of
                (Some result, p2) \<Rightarrow> (result, p2, w1)
              | (None, p2) \<Rightarrow> (True, complete_row ops SCXML_CHTTP_EGRESS_FAILED (po_row post) (p2, w1)))))"

end
