(* ===== verification/Http_Binding.thy ===== *)
theory Http_Binding
  imports Http_Egress
begin

text \<open>
  Model of the binding part of \<^verbatim>\<open>src/chttp_event_io.c\<close>: the composite Event I/O adapter that a Session
  sees (BasicHTTP sends are kept, everything else goes to the downstream adapter), the life
  cycle of a binding and of its endpoint, and the states of the processor around it. The
  functions of the downstream adapter and the outcomes of the UUID and heap calls are arguments.
\<close>

unbundle bit_operations_syntax

section \<open>Processor states\<close>

definition blank_http_row :: http_row where
  "blank_http_row = \<lparr>hr_binding = None, hr_generation = 0, hr_state = SCXML_CHTTP_EGRESS_FREE,
     hr_connection_uri = [], hr_authority = [], hr_target = [], hr_send_id = [], hr_body = [],
     hr_media_type = [], hr_delay_ms = 0, hr_due_ms = 0, hr_commit_sequence = 0,
     hr_request = \<lparr>rq_slot = 0, rq_generation = 0\<rparr>, hr_cancel_requested = False\<rparr>"

text \<open>The tables and counters that a successful \<^verbatim>\<open>scxml_chttp_processor_init\<close> leaves.\<close>

definition fresh_http_processor :: "http_config \<Rightarrow> http_processor" where
  "fresh_http_processor cfg = \<lparr>hp_config = cfg, hp_state = SCXML_CHTTP_PROCESSOR_INITIALIZED,
     hp_bindings = [],
     hp_endpoints = replicate (hc_endpoint_capacity cfg)
       \<lparr>ep_binding = None, ep_generation = 0, ep_endpoint = [], ep_access_uri = []\<rparr>,
     hp_rows = replicate (hc_egress_capacity cfg) blank_http_row,
     hp_cancel_tickets = replicate (hc_egress_capacity cfg)
       \<lparr>ct_target_index = 0, ct_target_generation = 0, ct_reserved = False\<rparr>,
     hp_live_bindings = 0, hp_queued_egress = 0, hp_in_flight_egress = 0, hp_egress_accepted = 0,
     hp_egress_completed = 0, hp_egress_failed = 0, hp_egress_cancelled = 0, hp_ingress_requests = 0,
     hp_ingress_admitted = 0, hp_ingress_rejected = 0, hp_invariant_failures = 0\<rparr>"

text \<open>The section of \<^verbatim>\<open>scxml_chttp_processor_start\<close> that publishes RUNNING once the worker is ready.\<close>

definition start_publish :: "http_processor \<Rightarrow> http_processor" where
  "start_publish p =
     (if hp_state p \<noteq> SCXML_CHTTP_PROCESSOR_INITIALIZED then p
      else p\<lparr>hp_state := SCXML_CHTTP_PROCESSOR_RUNNING\<rparr>)"

text \<open>The first section of \<^verbatim>\<open>scxml_chttp_processor_stop\<close>; \<open>active\<close> is its flag \<^verbatim>\<open>stop_active\<close>.\<close>

definition stop_begin :: "bool \<Rightarrow> http_processor \<Rightarrow> salts_status \<times> http_processor" where
  "stop_begin active p =
     (if hp_live_bindings p \<noteq> 0 \<or> active then (SALTS_EBUSY, p)
      else if hp_state p = SCXML_CHTTP_PROCESSOR_STOPPED then (SALTS_EALREADY, p)
      else if hp_state p = SCXML_CHTTP_PROCESSOR_INITIALIZED then (SALTS_EBUSY, p)
      else (SALTS_OK, p\<lparr>hp_state := SCXML_CHTTP_PROCESSOR_STOPPING\<rparr>))"

section \<open>The composite adapter\<close>

definition SCXML_BASIC_HTTP_EVENT_PROCESSOR_URI :: string where
  "SCXML_BASIC_HTTP_EVENT_PROCESSOR_URI = ''http://www.w3.org/TR/scxml/#BasicHTTPEventProcessor''"

definition text_equal :: "cbytes \<Rightarrow> string \<Rightarrow> bool" where
  "text_equal left right \<longleftrightarrow> csize left = length right \<and>
     (csize left = 0 \<or> \<not> is_cnull left \<and> cdata left = right)"

text \<open>What a prepared effect can be: none, a row, a cancellation, or one of the downstream adapter.\<close>

datatype 't http_ticket = No_Ticket | Row_Ticket nat | Cancel_Ticket nat | Downstream_Ticket 't

definition composite_prepare_send ::
  "codec_env \<Rightarrow> (string \<Rightarrow> http_processor \<times> 'w \<Rightarrow> (salts_status \<times> http_resolved) \<times> http_processor \<times> 'w) \<Rightarrow>
   (scxml_send_request \<Rightarrow> http_processor \<times> 'w \<Rightarrow> (scxml_adapter_status \<times> string option \<times> 't option) \<times> http_processor \<times> 'w) \<Rightarrow>
   nat \<Rightarrow> scxml_send_request \<Rightarrow> http_processor \<times> 'w \<Rightarrow>
   (scxml_adapter_status \<times> string option \<times> 't http_ticket) \<times> http_processor \<times> 'w" where
  "composite_prepare_send env resolve downstream b request s =
     (if \<not> http_open (fst s) b then ((SCXML_ADAPTER_CLOSED, None, No_Ticket), s)
      else if text_equal (sr_type request) SCXML_BASIC_HTTP_EVENT_PROCESSOR_URI
      then (case scxml_chttp_egress_prepare_send env resolve b request s of ((st, err, t), s1) \<Rightarrow>
              ((st, err, case t of None \<Rightarrow> No_Ticket | Some i \<Rightarrow> Row_Ticket i), s1))
      else (case downstream request s of ((st, err, t), s1) \<Rightarrow>
              ((st, err, case t of None \<Rightarrow> No_Ticket | Some t \<Rightarrow> Downstream_Ticket t), s1)))"

definition SCXML_EVENT_IO_CAP_SEND :: u64 where "SCXML_EVENT_IO_CAP_SEND = 1"
definition SCXML_EVENT_IO_CAP_DELAYED_SEND :: u64 where "SCXML_EVENT_IO_CAP_DELAYED_SEND = 2"
definition SCXML_EVENT_IO_CAP_CANCEL :: u64 where "SCXML_EVENT_IO_CAP_CANCEL = 4"
definition SCXML_EVENT_IO_CAP_PAYLOAD :: u64 where "SCXML_EVENT_IO_CAP_PAYLOAD = 8"
definition SCXML_EVENT_IO_CAP_CONTENT :: u64 where "SCXML_EVENT_IO_CAP_CONTENT = 16"

definition composite_prepare_cancel ::
  "(cbytes \<Rightarrow> http_processor \<times> 'w \<Rightarrow> (scxml_adapter_status \<times> string option \<times> 't option) \<times> http_processor \<times> 'w) \<Rightarrow>
   nat \<Rightarrow> cbytes \<Rightarrow> http_processor \<times> 'w \<Rightarrow>
   (scxml_adapter_status \<times> string option \<times> 't http_ticket) \<times> http_processor \<times> 'w" where
  "composite_prepare_cancel downstream b send_id s =
     (if \<not> http_open (fst s) b then ((SCXML_ADAPTER_CLOSED, None, No_Ticket), s)
      else if ea_capabilities (bd_downstream (http_binding_at (fst s) b)) AND SCXML_EVENT_IO_CAP_CANCEL = 0 \<or>
              \<not> ea_prepare_cancel_set (bd_downstream (http_binding_at (fst s) b))
      then ((SCXML_ADAPTER_INVALID_CONTRACT, None, No_Ticket), s)
      else case scxml_chttp_egress_prepare_cancel b send_id (fst s) of (st, t, handled, p1) \<Rightarrow>
        if handled \<or> st \<noteq> SCXML_ADAPTER_ACCEPTED
        then ((st, None, case t of None \<Rightarrow> No_Ticket | Some k \<Rightarrow> Cancel_Ticket k), p1, snd s)
        else (case downstream send_id (p1, snd s) of ((st, err, t), s1) \<Rightarrow>
                ((st, err, case t of None \<Rightarrow> No_Ticket | Some t \<Rightarrow> Downstream_Ticket t), s1)))"

text \<open>The section under the mutex, and whether the downstream adapter has to be closed.\<close>

definition close_locked :: "nat \<Rightarrow> http_processor \<Rightarrow> bool \<times> http_processor" where
  "close_locked b p =
     (let p1 = (if http_open p b
                then scxml_chttp_egress_close_binding_locked b
                       (upd_binding b (\<lambda>bd. bd\<lparr>bd_state := SCXML_CHTTP_BINDING_CLOSING\<rparr>) p)
                else p) in
      if bd_downstream_close_called (http_binding_at p1 b) then (False, p1)
      else (True, upd_binding b (\<lambda>bd. bd\<lparr>bd_downstream_close_called := True\<rparr>) p1))"

definition composite_close ::
  "(http_processor \<times> 'w \<Rightarrow> http_processor \<times> 'w) \<Rightarrow> nat \<Rightarrow> http_processor \<times> 'w \<Rightarrow> http_processor \<times> 'w" where
  "composite_close downstream_close b s =
     (case close_locked b (fst s) of (close_downstream, p1) \<Rightarrow>
        if close_downstream then downstream_close (p1, snd s) else (p1, snd s))"

definition quiescent_settle :: "bool \<Rightarrow> nat \<Rightarrow> http_processor \<Rightarrow> bool \<times> http_processor" where
  "quiescent_settle downstream_quiescent b p =
     (let bd = http_binding_at p b in
      if bd_state bd = SCXML_CHTTP_BINDING_CLOSING \<and> downstream_quiescent \<and>
         bd_active_callbacks bd = 0 \<and> bd_outbound_references bd = 0
      then (True, upd_binding b (\<lambda>bd. bd\<lparr>bd_state := SCXML_CHTTP_BINDING_QUIESCENT,
                                         bd_session := None, bd_program := None\<rparr>) p)
      else (False, p))"

definition composite_is_quiescent ::
  "(http_processor \<times> 'w \<Rightarrow> bool \<times> http_processor \<times> 'w) \<Rightarrow> nat \<Rightarrow> http_processor \<times> 'w \<Rightarrow>
   bool \<times> http_processor \<times> 'w" where
  "composite_is_quiescent downstream_quiescent b s =
     (if bd_state (http_binding_at (fst s) b) = SCXML_CHTTP_BINDING_QUIESCENT then (True, s)
      else if bd_state (http_binding_at (fst s) b) \<noteq> SCXML_CHTTP_BINDING_CLOSING then (False, s)
      else case downstream_quiescent s of (q, p1, w1) \<Rightarrow>
        (case quiescent_settle q b p1 of (result, p2) \<Rightarrow> (result, p2, w1)))"

section \<open>Life cycle of a binding\<close>

definition authority_has_port :: "string \<Rightarrow> bool" where
  "authority_has_port authority \<longleftrightarrow> authority \<noteq> [] \<and>
     (if hd authority = CHR ''[''
      then CHR '']'' \<in> set authority \<and>
           (let rest = dropWhile (\<lambda>c. c \<noteq> CHR '']'') authority in length rest > 1 \<and> rest ! 1 = CHR '':'')
      else CHR '':'' \<in> set authority)"

definition access_uri :: "http_config \<Rightarrow> string \<Rightarrow> string" where
  "access_uri cfg endpoint =
     ''http://'' @ hc_advertised_authority cfg @
     (if authority_has_port (hc_advertised_authority cfg) then [] else '':'' @ dec_text (hc_bound_port cfg)) @
     hc_base_path cfg @ (if last (hc_base_path cfg) = CHR ''/'' then [] else ''/'') @ endpoint"

definition build_access_uri :: "http_config \<Rightarrow> string \<Rightarrow> salts_status \<times> string" where
  "build_access_uri cfg endpoint =
     (if length (access_uri cfg endpoint) > hc_max_access_uri_bytes cfg then (SALTS_ENOSPC, [])
      else (SALTS_OK, access_uri cfg endpoint))"

definition SCXML_ADAPTER_ABI :: u32 where "SCXML_ADAPTER_ABI = 1"

text \<open>\<open>adapter_size\<close> is \<^verbatim>\<open>sizeof(scxml_event_io_adapter)\<close>.\<close>

definition downstream_adapter_valid :: "nat \<Rightarrow> event_io_adapter \<Rightarrow> bool" where
  "downstream_adapter_valid adapter_size adapter \<longleftrightarrow>
     (let known = SCXML_EVENT_IO_CAP_SEND OR SCXML_EVENT_IO_CAP_DELAYED_SEND OR SCXML_EVENT_IO_CAP_CANCEL OR
            SCXML_EVENT_IO_CAP_PAYLOAD OR SCXML_EVENT_IO_CAP_CONTENT;
          required = SCXML_EVENT_IO_CAP_SEND OR SCXML_EVENT_IO_CAP_PAYLOAD OR SCXML_EVENT_IO_CAP_CONTENT;
          optional_pair = SCXML_EVENT_IO_CAP_DELAYED_SEND OR SCXML_EVENT_IO_CAP_CANCEL in
      ea_abi_version adapter = SCXML_ADAPTER_ABI \<and> ea_struct_size adapter = adapter_size \<and>
      ea_capabilities adapter AND NOT known = 0 \<and> ea_capabilities adapter AND required = required \<and>
      ea_prepare_send_set adapter \<and> ea_close_set adapter \<and> ea_is_quiescent_set adapter \<and>
      (ea_capabilities adapter AND optional_pair = 0 \<or>
       ea_capabilities adapter AND optional_pair = optional_pair \<and> ea_prepare_cancel_set adapter))"

definition composite_capabilities :: "event_io_adapter \<Rightarrow> u64" where
  "composite_capabilities adapter =
     (let optional_pair = SCXML_EVENT_IO_CAP_DELAYED_SEND OR SCXML_EVENT_IO_CAP_CANCEL;
          required = SCXML_EVENT_IO_CAP_SEND OR SCXML_EVENT_IO_CAP_PAYLOAD OR SCXML_EVENT_IO_CAP_CONTENT in
      if ea_capabilities adapter AND optional_pair = optional_pair then required OR optional_pair else required)"

definition new_binding :: "nat \<Rightarrow> u32 \<Rightarrow> event_io_adapter \<Rightarrow> bool \<Rightarrow> http_binding" where
  "new_binding index generation adapter decode_set = \<lparr>bd_endpoint_index = index,
     bd_endpoint_generation = generation, bd_state = SCXML_CHTTP_BINDING_RESERVED,
     bd_downstream = adapter, bd_decode_set = decode_set, bd_session = None, bd_program = None,
     bd_active_callbacks = 0, bd_outbound_references = 0, bd_next_commit_sequence = 1,
     bd_downstream_close_called = False\<rparr>"

text \<open>
  The initialisation after the argument checks. \<open>uuid\<close> and \<open>formatted\<close> are the results of the
  UUID calls; a failed attempt may already have advanced the generation of the endpoint.
\<close>

definition scxml_chttp_binding_init ::
  "nat \<Rightarrow> salts_status \<Rightarrow> bool \<Rightarrow> salts_status \<times> string \<Rightarrow> event_io_adapter \<Rightarrow> bool \<Rightarrow> http_processor \<Rightarrow>
   salts_status \<times> nat option \<times> http_processor" where
  "scxml_chttp_binding_init adapter_size uuid alloc_ok formatted adapter decode_set p =
     (if \<not> downstream_adapter_valid adapter_size adapter then (SALTS_EINVAL, None, p)
      else if uuid \<noteq> SALTS_OK then (uuid, None, p)
      else if \<not> alloc_ok then (SALTS_ENOMEM, None, p)
      else if hp_state p \<noteq> SCXML_CHTTP_PROCESSOR_RUNNING then (SALTS_EBUSY, None, p)
      else case first_index (\<lambda>ep. ep_binding ep = None) (hp_endpoints p) of
        None \<Rightarrow> (SALTS_ENOBUFS, None, p)
      | Some e \<Rightarrow>
          let ep = hp_endpoints p ! e;
              ep1 = ep\<lparr>ep_generation := next_generation (ep_generation ep)\<rparr> in
          if fst formatted \<noteq> SALTS_OK
          then (fst formatted, None, p\<lparr>hp_endpoints := (hp_endpoints p)[e := ep1]\<rparr>)
          else case build_access_uri (hp_config p) (snd formatted) of (st, uri) \<Rightarrow>
            if st \<noteq> SALTS_OK
            then (st, None, p\<lparr>hp_endpoints := (hp_endpoints p)
                    [e := ep1\<lparr>ep_binding := None, ep_endpoint := [], ep_access_uri := []\<rparr>]\<rparr>)
            else (SALTS_OK, Some (length (hp_bindings p)),
                  p\<lparr>hp_endpoints := (hp_endpoints p)
                      [e := ep1\<lparr>ep_binding := Some (length (hp_bindings p)),
                               ep_endpoint := snd formatted, ep_access_uri := uri\<rparr>],
                    hp_bindings := hp_bindings p @ [Some (new_binding e (ep_generation ep1) adapter decode_set)],
                    hp_live_bindings := hp_live_bindings p + 1\<rparr>))"

text \<open>The access URI that the Session advertises.\<close>

definition scxml_chttp_binding_ioprocessor :: "nat \<Rightarrow> http_processor \<Rightarrow> string option" where
  "scxml_chttp_binding_ioprocessor b p =
     (let bd = http_binding_at p b; ep = hp_endpoints p ! bd_endpoint_index bd in
      if ep_binding ep = Some b \<and> ep_generation ep = bd_endpoint_generation bd \<and> http_open p b
      then Some (ep_access_uri ep) else None)"

definition activate_locked :: "nat \<Rightarrow> session \<Rightarrow> nat \<Rightarrow> http_processor \<Rightarrow> salts_status \<times> http_processor" where
  "activate_locked b session program p =
     (if bd_state (http_binding_at p b) = SCXML_CHTTP_BINDING_ACTIVE then (SALTS_EALREADY, p)
      else if bd_state (http_binding_at p b) \<noteq> SCXML_CHTTP_BINDING_RESERVED \<or>
              hp_state p \<noteq> SCXML_CHTTP_PROCESSOR_RUNNING then (SALTS_EBUSY, p)
      else (SALTS_OK, upd_binding b (\<lambda>bd. bd\<lparr>bd_session := Some session, bd_program := Some program,
                        bd_state := SCXML_CHTTP_BINDING_ACTIVE\<rparr>) p))"

text \<open>\<open>session_matches\<close> is \<^verbatim>\<open>scxml_session_matches_event_io\<close> on the descriptor, which runs without the mutex.\<close>

definition scxml_chttp_binding_activate ::
  "(string \<Rightarrow> http_processor \<times> 'w \<Rightarrow> bool \<times> http_processor \<times> 'w) \<Rightarrow> nat \<Rightarrow> session \<Rightarrow> nat \<Rightarrow>
   http_processor \<times> 'w \<Rightarrow> salts_status \<times> http_processor \<times> 'w" where
  "scxml_chttp_binding_activate session_matches b session program s =
     (case scxml_chttp_binding_ioprocessor b (fst s) of
        None \<Rightarrow> (SALTS_EINVAL, s)
      | Some uri \<Rightarrow>
          (case session_matches uri s of (ok, p1, w1) \<Rightarrow>
             if \<not> ok then (SALTS_EINVAL, p1, w1)
             else (case activate_locked b session program p1 of (st, p2) \<Rightarrow> (st, p2, w1))))"

text \<open>The section of \<^verbatim>\<open>scxml_chttp_binding_destroy\<close> after the quiescence test, with the release of the object.\<close>

definition destroy_locked :: "nat \<Rightarrow> http_processor \<Rightarrow> salts_status \<times> http_processor" where
  "destroy_locked b p =
     (let bd = http_binding_at p b; e = bd_endpoint_index bd; ep = hp_endpoints p ! e in
      if ep_binding ep \<noteq> Some b \<or> ep_generation ep \<noteq> bd_endpoint_generation bd
      then (SALTS_EIO, invariant_failure p)
      else (SALTS_OK, p\<lparr>hp_endpoints := (hp_endpoints p)
                          [e := ep\<lparr>ep_binding := None, ep_endpoint := [], ep_access_uri := []\<rparr>],
                        hp_live_bindings := hp_live_bindings p - 1,
                        hp_bindings := (hp_bindings p)[b := None]\<rparr>))"

definition scxml_chttp_binding_destroy ::
  "(http_processor \<times> 'w \<Rightarrow> bool \<times> http_processor \<times> 'w) \<Rightarrow> nat \<Rightarrow> http_processor \<times> 'w \<Rightarrow>
   salts_status \<times> http_processor \<times> 'w" where
  "scxml_chttp_binding_destroy downstream_quiescent b s =
     (case composite_is_quiescent downstream_quiescent b s of (q, p1, w1) \<Rightarrow>
        if \<not> q then (SALTS_EBUSY, p1, w1)
        else (case destroy_locked b p1 of (st, p2) \<Rightarrow> (st, p2, w1)))"

end
