(* ===== verification/Xml_Names.thy ===== *)
theory Xml_Names
  imports Prelude
begin

text \<open>
  Model of the name tests of \<^verbatim>\<open>src/scxml_analyze.c\<close>: the UTF-8 decoder and the XML name classes
  that decide which event names a document or a network peer may use. A view with its cursor
  is the string that is left; code points are natural numbers.
\<close>

section \<open>Decoding one code point\<close>

text \<open>The width and the payload bits of a lead byte above 0x7f.\<close>

definition lead_bits :: "nat \<Rightarrow> (nat \<times> nat) option" where
  "lead_bits lead =
     (if 0xc2 \<le> lead \<and> lead \<le> 0xdf then Some (2, lead mod 0x20)
      else if 0xe0 \<le> lead \<and> lead \<le> 0xef then Some (3, lead mod 0x10)
      else if 0xf0 \<le> lead \<and> lead \<le> 0xf4 then Some (4, lead mod 0x08)
      else None)"

text \<open>The loop over the continuation bytes: a byte \<open>10xxxxxx\<close> adds six bits.\<close>

fun continue_bits :: "nat \<Rightarrow> string \<Rightarrow> nat option" where
  "continue_bits value [] = Some value"
| "continue_bits value (c # cs) =
     (if of_char c div 0x40 \<noteq> (2 :: nat) then None
      else continue_bits (value * 0x40 + of_char c mod 0x40) cs)"

definition decode_utf8 :: "string \<Rightarrow> (nat \<times> string) option" where
  "decode_utf8 s =
     (let lead = of_char (hd s) :: nat in
      if lead \<le> 0x7f then Some (lead, tl s)
      else case lead_bits lead of
        None \<Rightarrow> None
      | Some (width, bits) \<Rightarrow>
          if width > length s then None
          else case continue_bits bits (take (width - 1) (tl s)) of
            None \<Rightarrow> None
          | Some value \<Rightarrow>
              if width = 3 \<and> value < 0x800 \<or> width = 4 \<and> value < 0x10000 \<or>
                 0xd800 \<le> value \<and> value \<le> 0xdfff \<or> value > 0x10ffff
              then None else Some (value, drop width s))"

section \<open>Names\<close>

definition is_ncname_start :: "nat \<Rightarrow> bool" where
  "is_ncname_start c \<longleftrightarrow> c = 0x5f \<or> 0x41 \<le> c \<and> c \<le> 0x5a \<or> 0x61 \<le> c \<and> c \<le> 0x7a \<or>
     0xc0 \<le> c \<and> c \<le> 0xd6 \<or> 0xd8 \<le> c \<and> c \<le> 0xf6 \<or> 0xf8 \<le> c \<and> c \<le> 0x2ff \<or>
     0x370 \<le> c \<and> c \<le> 0x37d \<or> 0x37f \<le> c \<and> c \<le> 0x1fff \<or> 0x200c \<le> c \<and> c \<le> 0x200d \<or>
     0x2070 \<le> c \<and> c \<le> 0x218f \<or> 0x2c00 \<le> c \<and> c \<le> 0x2fef \<or> 0x3001 \<le> c \<and> c \<le> 0xd7ff \<or>
     0xf900 \<le> c \<and> c \<le> 0xfdcf \<or> 0xfdf0 \<le> c \<and> c \<le> 0xfffd \<or> 0x10000 \<le> c \<and> c \<le> 0xeffff"

definition is_ncname_char :: "nat \<Rightarrow> bool" where
  "is_ncname_char c \<longleftrightarrow> is_ncname_start c \<or> c = 0x2d \<or> c = 0x2e \<or> 0x30 \<le> c \<and> c \<le> 0x39 \<or> c = 0xb7 \<or>
     0x300 \<le> c \<and> c \<le> 0x36f \<or> 0x203f \<le> c \<and> c \<le> 0x2040"

lemma decode_utf8_shorter: "s \<noteq> [] \<Longrightarrow> decode_utf8 s = Some (c, rest) \<Longrightarrow> length rest < length s"
  by (auto simp: decode_utf8_def Let_def lead_bits_def split: if_splits option.splits)

text \<open>The loop of both tests: every code point that is left belongs to the class.\<close>

function all_codepoints :: "(nat \<Rightarrow> bool) \<Rightarrow> string \<Rightarrow> bool" where
  "all_codepoints P s =
     (if s = [] then True
      else case decode_utf8 s of None \<Rightarrow> False | Some (c, rest) \<Rightarrow> P c \<and> all_codepoints P rest)"
  by pat_completeness auto
termination
  by (relation "measure (length \<circ> snd)") (auto simp: decode_utf8_shorter)

declare all_codepoints.simps [simp del]

definition scxml_analyze_is_xml_ncname :: "cbytes \<Rightarrow> bool" where
  "scxml_analyze_is_xml_ncname name \<longleftrightarrow> \<not> is_cnull name \<and> csize name \<noteq> 0 \<and>
     (case decode_utf8 (cdata name) of
        None \<Rightarrow> False | Some (c, rest) \<Rightarrow> is_ncname_start c \<and> all_codepoints is_ncname_char rest)"

definition scxml_analyze_is_xml_nmtoken :: "cbytes \<Rightarrow> bool" where
  "scxml_analyze_is_xml_nmtoken token \<longleftrightarrow> \<not> is_cnull token \<and> csize token \<noteq> 0 \<and>
     all_codepoints (\<lambda>c. is_ncname_char c \<or> c = 0x3a) (cdata token)"

section \<open>The UTF-8 encoding\<close>

text \<open>The encoding of a Unicode scalar value, from the standard.\<close>

definition scalar_value :: "nat \<Rightarrow> bool" where
  "scalar_value c \<longleftrightarrow> c \<le> 0x10ffff \<and> \<not> (0xd800 \<le> c \<and> c \<le> 0xdfff)"

definition utf8_encode :: "nat \<Rightarrow> string" where
  "utf8_encode c = map char_of
     (if c \<le> 0x7f then [c]
      else if c \<le> 0x7ff then [0xc0 + c div 0x40, 0x80 + c mod 0x40]
      else if c \<le> 0xffff then [0xe0 + c div 0x1000, 0x80 + c div 0x40 mod 0x40, 0x80 + c mod 0x40]
      else [0xf0 + c div 0x40000, 0x80 + c div 0x1000 mod 0x40, 0x80 + c div 0x40 mod 0x40, 0x80 + c mod 0x40])"


lemma base_digits:
  fixes m :: nat
  assumes "m < k" shows "(q * k + m) div k = q" "(q * k + m) mod k = m"
  using assms by simp_all

lemma of_char_byte: "n < 256 \<Longrightarrow> of_char (char_of n :: char) = (n :: nat)"
  by simp

lemma continue_bits_byte:
  fixes m :: nat
  assumes "m < 0x40" shows "continue_bits v (char_of (0x80 + m) # cs) = continue_bits (v * 0x40 + m) cs"
proof -
  have "of_char (char_of (0x80 + m) :: char) = 0x80 + m" using assms by (intro of_char_byte) simp
  moreover have "(0x80 + m) div 0x40 = 2" "(0x80 + m) mod 0x40 = m" 
    using base_digits [OF assms, of 2] by simp_all
  ultimately show ?thesis by simp
qed

lemma lead_bits_byte:
  "2 \<le> d \<Longrightarrow> d < 0x20 \<Longrightarrow> lead_bits (0xc0 + d) = Some (2, d)"
  "d < 0x10 \<Longrightarrow> lead_bits (0xe0 + d) = Some (3, d)"
  "d < 5 \<Longrightarrow> lead_bits (0xf0 + d) = Some (4, d)"
proof -
  show "lead_bits (0xc0 + d) = Some (2, d)" if "2 \<le> d" "d < 0x20"
  proof -
    have "(0xc0 + d) mod 0x20 = d" using base_digits(2) [OF that(2), of 6] by simp
    then show ?thesis using that by (simp add: lead_bits_def)
  qed
  show "lead_bits (0xe0 + d) = Some (3, d)" if "d < 0x10"
  proof -
    have "(0xe0 + d) mod 0x10 = d" using base_digits(2) [OF that, of 14] by simp
    then show ?thesis using that by (simp add: lead_bits_def)
  qed
  show "lead_bits (0xf0 + d) = Some (4, d)" if "d < 5"
  proof -
    have "d < 8" using that by simp
    from base_digits(2) [OF this, of 30] have "(0xf0 + d) mod 8 = d" by simp
    then show ?thesis using that by (simp add: lead_bits_def)
  qed
qed

text \<open>Decoding a lead byte with its continuation bytes.\<close>

lemma decode_utf8_lead:
  assumes "lead_bits lead = Some (width, bits)" "0x7f < lead" "lead < 256" "length cs = width - 1"
    "continue_bits bits cs = Some c" "0 < width"
    "\<not> (width = 3 \<and> c < 0x800)" "\<not> (width = 4 \<and> c < 0x10000)" "scalar_value c"
  shows "decode_utf8 (char_of lead # cs @ rest) = Some (c, rest)"
proof -
  have "of_char (char_of lead :: char) = lead" using assms(3) by (rule of_char_byte)
  moreover have "\<not> length (char_of lead # cs @ rest) < width" using assms(4) by simp
  moreover have "drop width (char_of lead # cs @ rest) = rest" using assms(4,6) by (cases width) auto
  moreover have "take (width - 1) (cs @ rest) = cs" using assms(4) by simp
  ultimately show ?thesis using assms
    by (simp add: decode_utf8_def Let_def scalar_value_def del: take_append)
qed

lemma decode_utf8_encode:
  assumes "scalar_value c" shows "decode_utf8 (utf8_encode c @ rest) = Some (c, rest)"
proof -
  have m: "n mod 0x40 < 0x40" for n :: nat by simp
  consider "c \<le> 0x7f" | "0x7f < c" "c \<le> 0x7ff" | "0x7ff < c" "c \<le> 0xffff" | "0xffff < c" by linarith
  then show ?thesis
  proof cases
    case 1
    then show ?thesis by (simp add: decode_utf8_def utf8_encode_def)
  next
    case 2
    have d: "2 \<le> c div 0x40" "c div 0x40 < 0x20" using 2 by auto
    have "continue_bits (c div 0x40) [char_of (0x80 + c mod 0x40)] = Some c"
      by (simp only: continue_bits_byte [OF m] continue_bits.simps(1) div_mult_mod_eq)
    with decode_utf8_lead [OF lead_bits_byte(1) [OF d], of "[char_of (0x80 + c mod 0x40)]" c rest] d assms
    show ?thesis using 2 by (simp add: utf8_encode_def)
  next
    case 3
    have d: "c div 0x1000 < 0x10" using 3 by auto
    have "c div 0x1000 = c div 0x40 div 0x40" by (simp add: div_mult2_eq [symmetric])
    then have "(c div 0x1000 * 0x40 + c div 0x40 mod 0x40) * 0x40 + c mod 0x40 = c"
      by (simp only: div_mult_mod_eq)
    then have "continue_bits (c div 0x1000)
        [char_of (0x80 + c div 0x40 mod 0x40), char_of (0x80 + c mod 0x40)] = Some c"
      by (simp only: continue_bits_byte [OF m] continue_bits.simps(1))
    from decode_utf8_lead [OF lead_bits_byte(2) [OF d] _ _ _ this] d assms 3
    show ?thesis by (simp add: utf8_encode_def)
  next
    case 4
    have d: "c div 0x40000 < 5" using assms by (auto simp: scalar_value_def)
    have e: "c div 0x40000 = c div 0x40 div 0x40 div 0x40" "c div 0x1000 = c div 0x40 div 0x40"
      by (simp_all add: div_mult2_eq [symmetric])
    have "((c div 0x40000 * 0x40 + c div 0x1000 mod 0x40) * 0x40 + c div 0x40 mod 0x40) * 0x40 + c mod 0x40 = c"
      by (simp only: e div_mult_mod_eq)
    then have "continue_bits (c div 0x40000) [char_of (0x80 + c div 0x1000 mod 0x40),
        char_of (0x80 + c div 0x40 mod 0x40), char_of (0x80 + c mod 0x40)] = Some c"
      by (simp only: continue_bits_byte [OF m] continue_bits.simps(1))
    from decode_utf8_lead [OF lead_bits_byte(3) [OF d] _ _ _ this] d assms 4
    show ?thesis by (simp add: utf8_encode_def)
  qed
qed

lemma continuation_byte:
  assumes "of_char a div 0x40 = (2 :: nat)" shows "a = char_of (0x80 + of_char a mod 0x40 :: nat)"
proof -
  have "of_char a = of_char a div 0x40 * 0x40 + (of_char a mod 0x40 :: nat)" by simp
  then have "of_char a = (0x80 + of_char a mod 0x40 :: nat)" using assms by simp
  then show ?thesis by (metis char_of_char)
qed

lemma continue_bits_snoc:
  "continue_bits v (cs @ [a]) = Some c \<longleftrightarrow>
     continue_bits v cs = Some (c div 0x40) \<and> a = char_of (0x80 + c mod 0x40)"
proof (induction cs arbitrary: v)
  case Nil
  show ?case
  proof
    assume L: "continue_bits v ([] @ [a]) = Some c"
    then have "of_char a div 0x40 = (2 :: nat)" "c = v * 0x40 + of_char a mod 0x40" by (auto split: if_splits)
    moreover from this(2) have "c div 0x40 = v" "c mod 0x40 = of_char a mod 0x40" by simp_all
    ultimately show "continue_bits v [] = Some (c div 0x40) \<and> a = char_of (0x80 + c mod 0x40)"
      using continuation_byte by simp
  next
    assume R: "continue_bits v [] = Some (c div 0x40) \<and> a = char_of (0x80 + c mod 0x40)"
    have m: "c mod 0x40 < 0x40" by simp
    have "continue_bits v [char_of (0x80 + c mod 0x40)] = Some (v * 0x40 + c mod 0x40)"
      by (simp only: continue_bits_byte [OF m] continue_bits.simps(1))
    moreover have "v = c div 0x40" using R by simp
    ultimately show "continue_bits v ([] @ [a]) = Some c" using R by (simp only: append_Nil div_mult_mod_eq)
  qed
qed simp

lemma lead_bitsD:
  assumes "lead_bits lead = Some (width, bits)" "lead < 256"
  shows "width = 2 \<and> lead = 0xc0 + bits \<and> 2 \<le> bits \<and> bits < 0x20 \<or> width = 3 \<and> lead = 0xe0 + bits \<and> bits < 0x10 \<or>
    width = 4 \<and> lead = 0xf0 + bits \<and> bits < 5"
proof -
  consider "0xc2 \<le> lead" "lead \<le> 0xdf" "width = 2" "bits = lead mod 0x20"
    | "0xe0 \<le> lead" "lead \<le> 0xef" "width = 3" "bits = lead mod 0x10"
    | "0xf0 \<le> lead" "lead \<le> 0xf4" "width = 4" "bits = lead mod 8"
    using assms by (auto simp: lead_bits_def split: if_splits)
  then show ?thesis
  proof cases
    case 1
    then have "lead - 0xc0 < 0x20" "lead = 6 * 0x20 + (lead - 0xc0)" by auto
    then have "bits = lead - 0xc0" using 1(4) base_digits(2) by metis
    then show ?thesis using 1 by auto
  next
    case 2
    then have "lead - 0xe0 < 0x10" "lead = 14 * 0x10 + (lead - 0xe0)" by auto
    then have "bits = lead - 0xe0" using 2(4) base_digits(2) by metis
    then show ?thesis using 2 by auto
  next
    case 3
    then have "lead - 0xf0 < 8" "lead = 30 * 8 + (lead - 0xf0)" by auto
    then have "bits = lead - 0xf0" using 3(4) base_digits(2) by metis
    then show ?thesis using 3 by auto
  qed
qed

lemma encode_decode_utf8:
  assumes "s \<noteq> []" "decode_utf8 s = Some (c, rest)"
  shows "scalar_value c \<and> s = utf8_encode c @ rest"
proof -
  obtain a t where s: "s = a # t" using assms(1) by (cases s) auto
  define lead where "lead = (of_char a :: nat)"
  have a: "a = char_of lead" "lead < 256" by (simp_all add: lead_def)
  show ?thesis
  proof (cases "lead \<le> 0x7f")
    case True
    then show ?thesis using assms(2) s a
      by (auto simp: decode_utf8_def Let_def lead_def [symmetric] utf8_encode_def scalar_value_def)
  next
    case False
    then obtain width bits where l: "lead_bits lead = Some (width, bits)" "width \<le> length s"
      and c: "continue_bits bits (take (width - 1) t) = Some c" "rest = drop width s"
        "\<not> (width = 3 \<and> c < 0x800)" "\<not> (width = 4 \<and> c < 0x10000)" and sv: "scalar_value c"
      using assms(2) s
      by (auto simp: decode_utf8_def Let_def lead_def [symmetric] scalar_value_def split: if_splits option.splits)
    from lead_bitsD [OF l(1) a(2)] show ?thesis
    proof (elim disjE conjE)
      assume w: "width = 2" "lead = 0xc0 + bits" "2 \<le> bits" "bits < 0x20"
      then obtain x u where t: "t = x # u" using l(2) s by (cases t) auto
      have "continue_bits bits ([] @ [x]) = Some c" using c(1) t w(1) by simp
      then have "bits = c div 0x40" "x = char_of (0x80 + c mod 0x40)"
        unfolding continue_bits_snoc by auto
      moreover from this(1) w have "0x7f < c" "c \<le> 0x7ff" by auto
      ultimately show ?thesis using w(1,2) t s a c(2) sv by (simp add: utf8_encode_def)
    next
      assume w: "width = 3" "lead = 0xe0 + bits" "bits < 0x10"
      then obtain x y u where t: "t = x # y # u" using l(2) s by (cases t; cases "tl t") auto
      have "continue_bits bits (([] @ [x]) @ [y]) = Some c" using c(1) t w(1) by simp
      then have b: "bits = c div 0x40 div 0x40" "x = char_of (0x80 + c div 0x40 mod 0x40)"
          "y = char_of (0x80 + c mod 0x40)"
        unfolding continue_bits_snoc by auto
      moreover have "c div 0x1000 = bits" using b(1) by (simp add: div_mult2_eq [symmetric])
      moreover from this w c(3) have "0x7ff < c" "c \<le> 0xffff" by auto
      ultimately show ?thesis using w(1,2) t s a c(2) sv by (simp add: utf8_encode_def)
    next
      assume w: "width = 4" "lead = 0xf0 + bits" "bits < 5"
      then obtain x y z u where t: "t = x # y # z # u"
        using l(2) s by (cases t; cases "tl t"; cases "tl (tl t)") auto
      have "take (width - 1) t = (([] @ [x]) @ [y]) @ [z]" using t w(1) by simp
      with c(1) have "continue_bits bits ((([] @ [x]) @ [y]) @ [z]) = Some c" by (simp only:)
      then have b: "bits = c div 0x40 div 0x40 div 0x40" "x = char_of (0x80 + c div 0x40 div 0x40 mod 0x40)"
          "y = char_of (0x80 + c div 0x40 mod 0x40)" "z = char_of (0x80 + c mod 0x40)"
        unfolding continue_bits_snoc by simp_all
      moreover have "c div 0x40000 = bits" "c div 0x1000 = c div 0x40 div 0x40"
        using b(1) by (simp_all add: div_mult2_eq [symmetric])
      moreover from w c(4) have "0xffff < c" by auto
      moreover have "s = char_of lead # x # y # z # rest" using w(1) t s a(1) c(2) by simp
      ultimately show ?thesis using w(2) sv by (simp add: utf8_encode_def)
    qed
  qed
qed

section \<open>Names exactly\<close>

lemma utf8_encode_nonempty: "utf8_encode c \<noteq> []"
  by (simp add: utf8_encode_def)

lemma decode_utf8_iff:
  "s \<noteq> [] \<Longrightarrow> decode_utf8 s = Some (c, rest) \<longleftrightarrow> scalar_value c \<and> s = utf8_encode c @ rest"
  using encode_decode_utf8 decode_utf8_encode by blast

lemma all_codepoints_iff:
  "all_codepoints P s \<longleftrightarrow> (\<exists>cs. (\<forall>c\<in>set cs. scalar_value c \<and> P c) \<and> s = concat (map utf8_encode cs))"
proof (induction s rule: length_induct)
  case (1 s)
  show ?case
  proof (cases "s = []")
    case True
    then have "s = concat (map utf8_encode [])" by simp
    with True show ?thesis by (metis all_codepoints.simps empty_iff list.set(1))
  next
    case False
    note dec = decode_utf8_iff [OF False]
    show ?thesis
    proof
      assume "all_codepoints P s"
      with False obtain c rest where d: "decode_utf8 s = Some (c, rest)" "P c" "all_codepoints P rest"
        by (subst (asm) all_codepoints.simps) (auto split: option.splits)
      moreover from 1 decode_utf8_shorter [OF False d(1)] d(3) obtain cs
        where "\<forall>c\<in>set cs. scalar_value c \<and> P c" "rest = concat (map utf8_encode cs)" by blast
      ultimately show "\<exists>cs. (\<forall>c\<in>set cs. scalar_value c \<and> P c) \<and> s = concat (map utf8_encode cs)"
        using dec by (intro exI [of _ "c # cs"]) auto
    next
      assume "\<exists>cs. (\<forall>c\<in>set cs. scalar_value c \<and> P c) \<and> s = concat (map utf8_encode cs)"
      then obtain c cs where cs: "\<forall>c\<in>set (c # cs). scalar_value c \<and> P c" "s = concat (map utf8_encode (c # cs))"
        using False by (metis concat.simps(1) list.map(1) neq_Nil_conv)
      then have d: "decode_utf8 s = Some (c, concat (map utf8_encode cs))" using dec by simp
      have "all_codepoints P (concat (map utf8_encode cs))"
        using 1 decode_utf8_shorter [OF False d] cs(1) by (metis list.set_intros(2))
      then show "all_codepoints P s" using d cs(1) by (subst all_codepoints.simps) auto
    qed
  qed
qed

text \<open>
  Property (C25). The event name test is exact: \<^verbatim>\<open>scxml_analyze_is_xml_nmtoken\<close> accepts a byte string exactly
  when it is the UTF-8 encoding of a non-empty sequence of Unicode scalar values that all are
  XML name characters or colons. Overlong forms, surrogates, truncated sequences and stray
  continuation bytes are never accepted, and the decoder inverts the encoding.
\<close>

theorem nmtoken_exact:
  "(scxml_analyze_is_xml_nmtoken (CBytes s) \<longleftrightarrow>
     s \<noteq> [] \<and> (\<exists>cs. s = concat (map utf8_encode cs) \<and>
       (\<forall>c\<in>set cs. scalar_value c \<and> (is_ncname_char c \<or> c = 0x3a)))) \<and>
   (scalar_value c \<longrightarrow> decode_utf8 (utf8_encode c @ rest) = Some (c, rest))"
  using all_codepoints_iff [of "\<lambda>c. is_ncname_char c \<or> c = 0x3a" s] decode_utf8_encode
  by (auto simp: scxml_analyze_is_xml_nmtoken_def)

theorem nmtoken_exact_witness:
  "scalar_value 0x20ac \<and> decode_utf8 (utf8_encode 0x20ac @ ''x'') = Some (0x20ac, ''x'')"
  using nmtoken_exact [of "''x''" "0x20ac" "''x''"] by (simp add: scalar_value_def)

end
