(* ===== verification/Http_Ingress.thy ===== *)
theory Http_Ingress
  imports Http_Binding Xml_Names
begin

text \<open>
  Model of \<^verbatim>\<open>src/chttp_event_io_ingress.c\<close>: the handler of a POST to the endpoint of a binding. It
  finds the binding, holds it while the request is decoded and offered to the Session, and
  answers with an HTTP status. The decoder of the binding and the Session admission, which run
  without the processor mutex, are arguments. \<^verbatim>\<open>tolower\<close> is that of the C locale.
\<close>

section \<open>Classification\<close>

definition ascii_lower :: "char \<Rightarrow> char" where
  "ascii_lower c = (if char_between (CHR ''A'') (CHR ''Z'') c then char_of (of_char c + 32 :: nat) else c)"

definition ascii_equal_fold :: "string \<Rightarrow> string \<Rightarrow> bool" where
  "ascii_equal_fold left right \<longleftrightarrow> map ascii_lower left = map ascii_lower right"

fun is_form_content_type :: "string option \<Rightarrow> bool" where
  "is_form_content_type None = False"
| "is_form_content_type (Some t) \<longleftrightarrow>
     length t \<ge> length FORM_MEDIA_TYPE \<and>
     ascii_equal_fold (take (length FORM_MEDIA_TYPE) t) FORM_MEDIA_TYPE \<and>
     (case dropWhile (\<lambda>c. c = CHR '' '' \<or> c = CHR 0x09) (drop (length FORM_MEDIA_TYPE) t) of
        [] \<Rightarrow> True | c # _ \<Rightarrow> c = CHR '';'')"

fun decode_status_to_http :: "decode_status \<Rightarrow> nat" where
  "decode_status_to_http SCXML_CHTTP_DECODE_BAD_REQUEST = 400"
| "decode_status_to_http SCXML_CHTTP_DECODE_LIMIT_EXCEEDED = 400"
| "decode_status_to_http SCXML_CHTTP_DECODE_UNSUPPORTED_MEDIA = 415"
| "decode_status_to_http SCXML_CHTTP_DECODE_FAILED = 422"
| "decode_status_to_http SCXML_CHTTP_DECODE_OK = 500"

fun mailbox_status_to_http :: "cflow_mailbox_status \<Rightarrow> nat" where
  "mailbox_status_to_http CFLOW_MAILBOX_OK = 204"
| "mailbox_status_to_http CFLOW_MAILBOX_FULL = 503"
| "mailbox_status_to_http CFLOW_MAILBOX_CLOSED = 410"
| "mailbox_status_to_http CFLOW_MAILBOX_CANCELLED = 410"
| "mailbox_status_to_http CFLOW_MAILBOX_INVALID_ARGUMENT = 422"
| "mailbox_status_to_http CFLOW_MAILBOX_TYPE_MISMATCH = 422"
| "mailbox_status_to_http CFLOW_MAILBOX_BUFFER_TOO_SMALL = 422"
| "mailbox_status_to_http CFLOW_MAILBOX_ALLOCATION_FAILED = 500"
| "mailbox_status_to_http CFLOW_MAILBOX_EMPTY = 500"

section \<open>Sections under the mutex\<close>

definition ingress_count :: "http_processor \<Rightarrow> http_processor" where
  "ingress_count p = p\<lparr>hp_ingress_requests := hp_ingress_requests p + 1\<rparr>"

definition ingress_reject :: "http_processor \<Rightarrow> http_processor" where
  "ingress_reject p = p\<lparr>hp_ingress_rejected := hp_ingress_rejected p + 1\<rparr>"

text \<open>The held binding and its Session, or the status of the refusal.\<close>

definition ingress_enter :: "string \<Rightarrow> http_processor \<Rightarrow> (nat + nat \<times> session) \<times> http_processor" where
  "ingress_enter endpoint p =
     (case first_index (\<lambda>ep. ep_binding ep \<noteq> None \<and> ep_endpoint ep = endpoint) (hp_endpoints p) of
        None \<Rightarrow> (Inl 404, p)
      | Some e \<Rightarrow>
          let b = the (ep_binding (hp_endpoints p ! e)); bd = http_binding_at p b in
          if bd_state bd \<noteq> SCXML_CHTTP_BINDING_ACTIVE \<or> bd_session bd = None \<or> bd_program bd = None
          then (Inl 410, p)
          else (Inr (b, the (bd_session bd)),
                upd_binding b (\<lambda>bd. bd\<lparr>bd_active_callbacks := bd_active_callbacks bd + 1\<rparr>) p))"

definition ingress_leave :: "nat \<Rightarrow> nat \<Rightarrow> http_processor \<Rightarrow> http_processor" where
  "ingress_leave http_status b p =
     (let p1 = (if http_status = 204 then p\<lparr>hp_ingress_admitted := hp_ingress_admitted p + 1\<rparr>
                else ingress_reject p) in
      if bd_active_callbacks (http_binding_at p1 b) \<noteq> 0
      then upd_binding b (\<lambda>bd. bd\<lparr>bd_active_callbacks := bd_active_callbacks bd - 1\<rparr>) p1
      else invariant_failure p1)"

section \<open>The handler\<close>

record http_request =
  hq_endpoint :: "string option"
  hq_content_type :: "string option"
  hq_body :: cbytes

text \<open>Event name and form entries of the request, or the status of the refusal.\<close>

definition ingress_form :: "codec_env \<Rightarrow> http_config \<Rightarrow> http_request \<Rightarrow> nat + string \<times> (string \<times> string) list" where
  "ingress_form env cfg request =
     (if is_form_content_type (hq_content_type request) then
        (case scxml_chttp_codec_decode_form env (hq_body request) (hc_limits cfg)
                (max_form_entry_count (hc_limits cfg)) False (hc_max_request_body_bytes cfg + 1) False of
           (SCXML_CHTTP_DECODE_OK, n, Some form) \<Rightarrow> Inr (df_event form, df_entries form)
         | (st, n, out) \<Rightarrow> Inl (decode_status_to_http st))
      else Inr (DEFAULT_EVENT_NAME, []))"

text \<open>The data of an event without a decoder: the body as text.\<close>

definition text_content :: "cbytes \<Rightarrow> content_view" where
  "text_content body =
     (if csize body \<noteq> 0
      then \<lparr>cv_kind = SCXML_CONTENT_TEXT_UTF8, cv_scalar = SCXML_PAYLOAD_VALUE_INVALID, cv_bytes = body\<rparr>
      else \<lparr>cv_kind = SCXML_CONTENT_INVALID, cv_scalar = SCXML_PAYLOAD_VALUE_INVALID, cv_bytes = CNull 0\<rparr>)"

record 'w http_ingress_ops =
  io_decode :: "nat \<Rightarrow> (string \<times> string) list \<Rightarrow> cbytes \<Rightarrow> http_processor \<times> 'w \<Rightarrow>
    (decode_status \<times> content_view) \<times> http_processor \<times> 'w"
  io_try_send :: "session \<Rightarrow> string \<Rightarrow> content_view \<Rightarrow> http_processor \<times> 'w \<Rightarrow>
    cflow_mailbox_status \<times> http_processor \<times> 'w"

text \<open>The part between the two sections, for a held binding \<open>b\<close>.\<close>

definition ingress_deliver ::
  "codec_env \<Rightarrow> 'w http_ingress_ops \<Rightarrow> bool \<Rightarrow> nat \<Rightarrow> session \<Rightarrow> http_request \<Rightarrow> http_processor \<times> 'w \<Rightarrow>
   nat \<times> http_processor \<times> 'w" where
  "ingress_deliver env ops decode_set b session request s =
     (case ingress_form env (hp_config (fst s)) request of
        Inl status \<Rightarrow> (status, s)
      | Inr (event_name, entries) \<Rightarrow>
          if \<not> scxml_analyze_is_xml_nmtoken (CBytes event_name) then (400, s)
          else if decode_set then
            (case io_decode ops b entries (hq_body request) s of ((st, data), s1) \<Rightarrow>
               if st \<noteq> SCXML_CHTTP_DECODE_OK then (decode_status_to_http st, s1)
               else (case io_try_send ops session event_name data s1 of (st, s2) \<Rightarrow>
                       (mailbox_status_to_http st, s2)))
          else if \<not> scxml_chttp_codec_utf8_valid env (hq_body request) then (422, s)
          else (case io_try_send ops session event_name (text_content (hq_body request)) s of (st, s1) \<Rightarrow>
                  (mailbox_status_to_http st, s1)))"

definition ingress_handler ::
  "codec_env \<Rightarrow> 'w http_ingress_ops \<Rightarrow> http_request \<Rightarrow> http_processor \<times> 'w \<Rightarrow> nat \<times> http_processor \<times> 'w" where
  "ingress_handler env ops request s =
     (let p = ingress_count (fst s) in
      case hq_endpoint request of
        None \<Rightarrow> (404, ingress_reject p, snd s)
      | Some endpoint \<Rightarrow>
          (case ingress_enter endpoint p of
             (Inl status, p1) \<Rightarrow> (status, ingress_reject p1, snd s)
           | (Inr (b, session), p1) \<Rightarrow>
               (case ingress_deliver env ops (bd_decode_set (http_binding_at p1 b)) b session request (p1, snd s) of
                  (status, p2, w2) \<Rightarrow> (status, ingress_leave status b p2, w2))))"

end
