(* ===== verification/Http_Inv.thy ===== *)
theory Http_Inv
  imports Http_Ingress
begin

text \<open>
  The invariant of the BasicHTTP processor: no row refers to a freed binding, references and
  queue lengths are counted exactly, commit numbers are unique per binding, and the row of a
  binding that is in the hands of the client precedes all its other committed rows.
\<close>

section \<open>The invariant\<close>

definition holds_binding :: "nat \<Rightarrow> http_row \<Rightarrow> bool" where
  "holds_binding b row \<longleftrightarrow> hr_binding row = Some b"

definition queued_row :: "http_row \<Rightarrow> bool" where
  "queued_row row \<longleftrightarrow> hr_state row = SCXML_CHTTP_EGRESS_RESERVED \<or> hr_state row = SCXML_CHTTP_EGRESS_READY"

definition client_row :: "http_row \<Rightarrow> bool" where
  "client_row row \<longleftrightarrow> in_client (hr_state row)"

definition committed_row :: "http_row \<Rightarrow> bool" where
  "committed_row row \<longleftrightarrow> committed_state (hr_state row)"

text \<open>A row whose request is being submitted, runs, or is being completed.\<close>

definition active_row :: "http_row \<Rightarrow> bool" where
  "active_row row \<longleftrightarrow> client_row row \<or> hr_state row = SCXML_CHTTP_EGRESS_COMPLETING"

definition http_row_ok :: "http_binding option list \<Rightarrow> http_row \<Rightarrow> bool" where
  "http_row_ok bs row \<longleftrightarrow>
     (case hr_binding row of
        None \<Rightarrow> hr_state row = SCXML_CHTTP_EGRESS_FREE
      | Some b \<Rightarrow> hr_state row \<noteq> SCXML_CHTTP_EGRESS_FREE \<and> hr_generation row \<noteq> 0 \<and> b < length bs \<and>
          (case bs ! b of
             None \<Rightarrow> False
           | Some bd \<Rightarrow> committed_row row \<longrightarrow> hr_commit_sequence row < bd_next_commit_sequence bd))"

definition precedes :: "http_row \<Rightarrow> http_row \<Rightarrow> bool" where
  "precedes x y \<longleftrightarrow> hr_binding x = hr_binding y \<and> committed_row x \<and> committed_row y \<longrightarrow>
     hr_commit_sequence x \<noteq> hr_commit_sequence y \<and>
     (active_row x \<longrightarrow> hr_commit_sequence x < hr_commit_sequence y)"

definition http_rows_ok :: "http_binding option list \<Rightarrow> http_row list \<Rightarrow> bool" where
  "http_rows_ok bs rows \<longleftrightarrow> (\<forall>row\<in>set rows. http_row_ok bs row) \<and>
     (\<forall>i<length rows. \<forall>j<length rows. i \<noteq> j \<longrightarrow> precedes (rows ! i) (rows ! j)) \<and>
     (\<forall>b<length bs. \<forall>bd. bs ! b = Some bd \<longrightarrow> bd_outbound_references bd = count_if (holds_binding b) rows)"

definition binding_ok :: "http_binding \<Rightarrow> bool" where
  "binding_ok bd \<longleftrightarrow> (bd_state bd = SCXML_CHTTP_BINDING_QUIESCENT \<longrightarrow> bd_outbound_references bd = 0 \<and> bd_active_callbacks bd = 0) \<and>
     (bd_state bd = SCXML_CHTTP_BINDING_ACTIVE \<longrightarrow> bd_session bd \<noteq> None \<and> bd_program bd \<noteq> None)"

definition http_endpoints_ok :: "http_binding option list \<Rightarrow> http_endpoint list \<Rightarrow> bool" where
  "http_endpoints_ok bs eps \<longleftrightarrow>
     (\<forall>b<length bs. \<forall>bd. bs ! b = Some bd \<longrightarrow> bd_endpoint_index bd < length eps \<and>
        ep_binding (eps ! bd_endpoint_index bd) = Some b \<and>
        ep_generation (eps ! bd_endpoint_index bd) = bd_endpoint_generation bd) \<and>
     (\<forall>e<length eps. \<forall>b. ep_binding (eps ! e) = Some b \<longrightarrow>
        (\<exists>bd. b < length bs \<and> bs ! b = Some bd \<and> bd_endpoint_index bd = e))"

definition http_inv :: "http_processor \<Rightarrow> bool" where
  "http_inv p \<longleftrightarrow> http_rows_ok (hp_bindings p) (hp_rows p) \<and>
     (\<forall>b bd. b < length (hp_bindings p) \<longrightarrow> hp_bindings p ! b = Some bd \<longrightarrow> binding_ok bd) \<and>
     http_endpoints_ok (hp_bindings p) (hp_endpoints p) \<and>
     hp_live_bindings p = count_if (\<lambda>ep. ep_binding ep \<noteq> None) (hp_endpoints p) \<and>
     hp_queued_egress p = count_if queued_row (hp_rows p) \<and>
     hp_in_flight_egress p = count_if client_row (hp_rows p) \<and>
     length (hp_cancel_tickets p) = egress_capacity p"

definition live_binding :: "http_processor \<Rightarrow> nat \<Rightarrow> bool" where
  "live_binding p b \<longleftrightarrow> b < length (hp_bindings p) \<and> hp_bindings p ! b \<noteq> None"

lemmas http_state_defs = queued_row_def client_row_def committed_row_def active_row_def in_client_def
  committed_state_def

section \<open>Changing one row\<close>

text \<open>
  One row changes, and its binding with it. The new row keeps its place in the order of its
  binding, or it is new there and comes last; it may become active only as the first.
\<close>

lemma http_rows_ok_update:
  assumes ok: "http_rows_ok bs rows" and i: "i < length rows" and b: "b < length bs" "bs ! b = Some bd"
    and y: "http_row_ok (bs[b := Some bd']) y"
    and later: "bd_next_commit_sequence bd \<le> bd_next_commit_sequence bd'"
    and refs: "bd_outbound_references bd' + of_bool (holds_binding b (rows ! i)) =
      bd_outbound_references bd + of_bool (holds_binding b y)"
    and other: "\<And>c. c \<noteq> b \<Longrightarrow> holds_binding c y = holds_binding c (rows ! i)"
    and order: "committed_row y \<Longrightarrow>
      committed_row (rows ! i) \<and> hr_binding y = hr_binding (rows ! i) \<and> hr_commit_sequence y = hr_commit_sequence (rows ! i) \<or>
      hr_binding y = Some b \<and> hr_commit_sequence y = bd_next_commit_sequence bd \<and> \<not> active_row y"
    and first: "active_row y \<Longrightarrow> active_row (rows ! i) \<or>
      (\<forall>j<length rows. j \<noteq> i \<longrightarrow> hr_binding (rows ! j) = hr_binding y \<longrightarrow> committed_row (rows ! j) \<longrightarrow>
         hr_commit_sequence y \<le> hr_commit_sequence (rows ! j))"
  shows "http_rows_ok (bs[b := Some bd']) (rows[i := y])"
proof -
  let ?bs = "bs[b := Some bd']"
  have rows: "http_row_ok bs row" if "row \<in> set rows" for row using ok that by (simp add: http_rows_ok_def)
  have prec: "precedes (rows ! j) (rows ! k)" if "j < length rows" "k < length rows" "j \<noteq> k" for j k
    using ok that by (simp add: http_rows_ok_def)
  have row': "http_row_ok ?bs row" if "row \<in> set rows" for row
    using rows [OF that] b later
    by (auto simp: http_row_ok_def nth_list_update intro: less_le_trans split: option.splits)
  have below: "hr_commit_sequence (rows ! j) < bd_next_commit_sequence bd"
    if "j < length rows" "hr_binding (rows ! j) = Some b" "committed_row (rows ! j)" for j
    using rows [OF nth_mem [OF that(1)]] that b by (auto simp: http_row_ok_def)
  have py: "precedes y (rows ! j) \<and> precedes (rows ! j) y" if j: "j < length rows" "j \<noteq> i" for j
  proof (cases "hr_binding (rows ! j) = hr_binding y \<and> committed_row (rows ! j) \<and> committed_row y")
    case True
    note P = prec [OF j(1) i] prec [OF i j(1)]
    show ?thesis
    proof (cases "committed_row (rows ! i) \<and> hr_binding y = hr_binding (rows ! i) \<and>
        hr_commit_sequence y = hr_commit_sequence (rows ! i)")
      case same: True
      with True P j(2) have ne: "hr_commit_sequence (rows ! j) \<noteq> hr_commit_sequence y"
        and jact: "active_row (rows ! j) \<longrightarrow> hr_commit_sequence (rows ! j) < hr_commit_sequence y"
        and iact: "active_row (rows ! i) \<longrightarrow> hr_commit_sequence y < hr_commit_sequence (rows ! j)"
        unfolding precedes_def by metis+
      from first j True ne iact have "active_row y \<longrightarrow> hr_commit_sequence y < hr_commit_sequence (rows ! j)"
        by (metis le_neq_trans)
      with ne jact show ?thesis unfolding precedes_def by metis
    next
      case False
      with order True have new: "hr_binding y = Some b" "hr_commit_sequence y = bd_next_commit_sequence bd"
        "\<not> active_row y"
        by blast+
      from below [OF j(1)] True new
      have "hr_commit_sequence (rows ! j) < hr_commit_sequence y" by metis
      then show ?thesis using new(3) by (auto simp: precedes_def)
    qed
  qed (auto simp: precedes_def)
  have cnt: "bd_outbound_references x = count_if (holds_binding c) (rows[i := y])"
    if c: "c < length bs" "?bs ! c = Some x" for c x
  proof (cases "c = b")
    case True
    have "bd_outbound_references bd = count_if (holds_binding b) rows"
      using ok b by (simp add: http_rows_ok_def)
    with refs count_if_update [OF i, of "holds_binding b" y] True c show ?thesis by (auto split: if_splits)
  next
    case False
    then have "bd_outbound_references x = count_if (holds_binding c) rows"
      using ok c by (simp add: http_rows_ok_def)
    with count_if_update_same [OF i other [OF False]] show ?thesis by simp
  qed
  show ?thesis
    unfolding http_rows_ok_def
  proof (intro conjI)
    show "\<forall>row\<in>set (rows[i := y]). http_row_ok ?bs row" using row' y by (intro all_set_updateI) auto
    show "\<forall>j<length (rows[i := y]). \<forall>k<length (rows[i := y]). j \<noteq> k \<longrightarrow> precedes (rows[i := y] ! j) (rows[i := y] ! k)"
      using prec py i by (auto simp: nth_list_update)
    show "\<forall>c<length ?bs. \<forall>x. ?bs ! c = Some x \<longrightarrow> bd_outbound_references x = count_if (holds_binding c) (rows[i := y])"
      using cnt by simp
  qed
qed

lemma http_rows_ok_binding:
  assumes "http_rows_ok bs rows" "b < length bs" "bs ! b = Some bd"
    and "bd_next_commit_sequence bd \<le> bd_next_commit_sequence bd'"
    and "bd_outbound_references bd' = bd_outbound_references bd"
  shows "http_rows_ok (bs[b := Some bd']) rows"
  unfolding http_rows_ok_def
proof (intro conjI)
  have "http_row_ok (bs[b := Some bd']) row" if "http_row_ok bs row" for row
    using that assms(2-4)
    by (auto simp: http_row_ok_def nth_list_update intro: less_le_trans split: option.splits)
  then show "\<forall>row\<in>set rows. http_row_ok (bs[b := Some bd']) row" using assms(1) by (simp add: http_rows_ok_def)
  show "\<forall>i<length rows. \<forall>j<length rows. i \<noteq> j \<longrightarrow> precedes (rows ! i) (rows ! j)"
    using assms(1) by (simp add: http_rows_ok_def)
  show "\<forall>c<length (bs[b := Some bd']). \<forall>x. bs[b := Some bd'] ! c = Some x \<longrightarrow>
      bd_outbound_references x = count_if (holds_binding c) rows"
    using assms by (auto simp: http_rows_ok_def nth_list_update)
qed

lemma http_endpoints_ok_binding:
  assumes "http_endpoints_ok bs eps" "b < length bs" "bs ! b = Some bd"
    and "bd_endpoint_index bd' = bd_endpoint_index bd" "bd_endpoint_generation bd' = bd_endpoint_generation bd"
  shows "http_endpoints_ok (bs[b := Some bd']) eps"
proof -
  have origin: "\<exists>x. c < length bs \<and> bs ! c = Some x \<and> bd_endpoint_index x = e"
    if "e < length eps" "ep_binding (eps ! e) = Some c" for e c
    using assms(1) that by (auto simp: http_endpoints_ok_def)
  have "\<exists>x. c < length (bs[b := Some bd']) \<and> bs[b := Some bd'] ! c = Some x \<and> bd_endpoint_index x = e"
    if "e < length eps" "ep_binding (eps ! e) = Some c" for e c
    using origin [OF that] assms(3,4) by (cases "c = b") auto
  with assms show ?thesis unfolding http_endpoints_ok_def by (auto simp: nth_list_update)
qed

lemma http_invD:
  assumes "http_inv p"
  shows "http_rows_ok (hp_bindings p) (hp_rows p)"
    "b < length (hp_bindings p) \<Longrightarrow> hp_bindings p ! b = Some bd \<Longrightarrow> binding_ok bd"
    "http_endpoints_ok (hp_bindings p) (hp_endpoints p)"
    "hp_live_bindings p = count_if (\<lambda>ep. ep_binding ep \<noteq> None) (hp_endpoints p)"
    "hp_queued_egress p = count_if queued_row (hp_rows p)"
    "hp_in_flight_egress p = count_if client_row (hp_rows p)"
    "length (hp_cancel_tickets p) = egress_capacity p"
  using assms by (auto simp: http_inv_def)

lemma http_inv_row_ok: "http_inv p \<Longrightarrow> i < egress_capacity p \<Longrightarrow> http_row_ok (hp_bindings p) (hp_rows p ! i)"
  using http_invD(1) by (auto simp: http_rows_ok_def)

text \<open>The whole invariant after a change of one row and its binding.\<close>

lemma http_inv_update:
  assumes inv: "http_inv p" and i: "i < egress_capacity p"
    and b: "b < length (hp_bindings p)" "hp_bindings p ! b = Some bd"
    and p': "hp_rows p' = (hp_rows p)[i := y]" "hp_bindings p' = (hp_bindings p)[b := Some bd']"
      "hp_endpoints p' = hp_endpoints p" "hp_live_bindings p' = hp_live_bindings p"
      "length (hp_cancel_tickets p') = length (hp_cancel_tickets p)"
      "hp_queued_egress p' + of_bool (queued_row (hp_rows p ! i)) = hp_queued_egress p + of_bool (queued_row y)"
      "hp_in_flight_egress p' + of_bool (client_row (hp_rows p ! i)) = hp_in_flight_egress p + of_bool (client_row y)"
    and bd': "binding_ok bd'" "bd_endpoint_index bd' = bd_endpoint_index bd"
      "bd_endpoint_generation bd' = bd_endpoint_generation bd"
    and rows: "http_rows_ok ((hp_bindings p)[b := Some bd']) ((hp_rows p)[i := y])"
  shows "http_inv p'"
proof -
  have "hp_queued_egress p' = count_if queued_row (hp_rows p')"
    using p'(1,6) http_invD(5) [OF inv] count_if_update [OF i, of queued_row y] by (auto split: if_splits)
  moreover have "hp_in_flight_egress p' = count_if client_row (hp_rows p')"
    using p'(1,7) http_invD(6) [OF inv] count_if_update [OF i, of client_row y] by (auto split: if_splits)
  moreover have "binding_ok x" if "c < length (hp_bindings p')" "hp_bindings p' ! c = Some x" for c x
    using http_invD(2) [OF inv] that p'(2) bd'(1) by (cases "c = b") auto
  moreover have "http_endpoints_ok (hp_bindings p') (hp_endpoints p')"
    using http_endpoints_ok_binding [OF http_invD(3) [OF inv] b bd'(2,3)] p'(2,3) by simp
  ultimately show ?thesis using rows p' http_invD(4,7) [OF inv] unfolding http_inv_def by simp
qed

lemma http_inv_binding:
  assumes inv: "http_inv p" and b: "live_binding p b"
    and bd': "binding_ok (f (http_binding_at p b))" "\<And>bd. bd_endpoint_index (f bd) = bd_endpoint_index bd"
      "\<And>bd. bd_endpoint_generation (f bd) = bd_endpoint_generation bd"
      "\<And>bd. bd_next_commit_sequence (f bd) = bd_next_commit_sequence bd"
      "\<And>bd. bd_outbound_references (f bd) = bd_outbound_references bd"
  shows "http_inv (upd_binding b f p)"
proof -
  obtain bd where bd: "b < length (hp_bindings p)" "hp_bindings p ! b = Some bd"
    using b by (auto simp: live_binding_def)
  then have at: "http_binding_at p b = bd" by (simp add: http_binding_at_def)
  have "binding_ok x" if "c < length (hp_bindings p)" "(hp_bindings p)[b := Some (f bd)] ! c = Some x" for c x
    using http_invD(2) [OF inv] that bd'(1) at by (cases "c = b") auto
  moreover have "http_endpoints_ok ((hp_bindings p)[b := Some (f bd)]) (hp_endpoints p)"
    using http_invD(3) [OF inv] bd by (rule http_endpoints_ok_binding) (simp_all add: bd')
  moreover have "http_rows_ok ((hp_bindings p)[b := Some (f bd)]) (hp_rows p)"
    using http_invD(1) [OF inv] bd by (rule http_rows_ok_binding) (simp_all add: bd')
  ultimately show ?thesis
    using inv at unfolding http_inv_def upd_binding_def by simp
qed

lemma http_inv_statistics:
  "http_inv p \<Longrightarrow> http_inv (p\<lparr>hp_egress_accepted := a\<rparr>)" "http_inv p \<Longrightarrow> http_inv (p\<lparr>hp_egress_completed := a\<rparr>)"
  "http_inv p \<Longrightarrow> http_inv (p\<lparr>hp_egress_failed := a\<rparr>)" "http_inv p \<Longrightarrow> http_inv (p\<lparr>hp_egress_cancelled := a\<rparr>)"
  "http_inv p \<Longrightarrow> http_inv (p\<lparr>hp_ingress_requests := a\<rparr>)" "http_inv p \<Longrightarrow> http_inv (p\<lparr>hp_ingress_admitted := a\<rparr>)"
  "http_inv p \<Longrightarrow> http_inv (p\<lparr>hp_ingress_rejected := a\<rparr>)" "http_inv p \<Longrightarrow> http_inv (p\<lparr>hp_invariant_failures := a\<rparr>)"
  "http_inv p \<Longrightarrow> http_inv (p\<lparr>hp_state := st\<rparr>)" "http_inv p \<Longrightarrow> http_inv (p\<lparr>hp_config := c\<rparr>)"
  "http_inv p \<Longrightarrow> length ts = length (hp_cancel_tickets p) \<Longrightarrow> http_inv (p\<lparr>hp_cancel_tickets := ts\<rparr>)"
  by (simp_all add: http_inv_def)

section \<open>Releasing a row\<close>

lemma live_rowE:
  assumes "http_inv p" "i < egress_capacity p" "hr_state (hp_rows p ! i) \<noteq> SCXML_CHTTP_EGRESS_FREE"
  obtains b bd where "hr_binding (hp_rows p ! i) = Some b" "b < length (hp_bindings p)"
    "hp_bindings p ! b = Some bd" "http_binding_at p b = bd" "live_binding p b" "binding_ok bd"
    "bd_outbound_references bd \<noteq> 0"
    "committed_row (hp_rows p ! i) \<longrightarrow> hr_commit_sequence (hp_rows p ! i) < bd_next_commit_sequence bd"
proof -
  note ok = http_inv_row_ok [OF assms(1,2)]
  then obtain b where b: "hr_binding (hp_rows p ! i) = Some b" "b < length (hp_bindings p)"
    using assms(3) by (auto simp: http_row_ok_def split: option.splits)
  with ok obtain bd where bd: "hp_bindings p ! b = Some bd"
    "committed_row (hp_rows p ! i) \<longrightarrow> hr_commit_sequence (hp_rows p ! i) < bd_next_commit_sequence bd"
    by (auto simp: http_row_ok_def split: option.splits)
  have "bd_outbound_references bd = count_if (holds_binding b) (hp_rows p)"
    using http_invD(1) [OF assms(1)] b(2) bd(1) by (simp add: http_rows_ok_def)
  moreover have "0 < count_if (holds_binding b) (hp_rows p)"
    using assms(2) b(1) by (intro count_if_pos) (auto simp: holds_binding_def)
  ultimately show ?thesis
    using that [OF b bd(1)] bd http_invD(2) [OF assms(1) b(2) bd(1)] b(2)
    by (simp add: http_binding_at_def live_binding_def)
qed

lemma cleared_row_facts [simp]:
  "hr_state (cleared_row row) = SCXML_CHTTP_EGRESS_FREE" "hr_binding (cleared_row row) = None"
  "hr_generation (cleared_row row) = hr_generation row"
  by (simp_all add: cleared_row_def)

lemma cleared_row_kinds [simp]:
  "\<not> queued_row (cleared_row row)" "\<not> client_row (cleared_row row)" "\<not> committed_row (cleared_row row)"
  "\<not> active_row (cleared_row row)" "\<not> holds_binding b (cleared_row row)" "http_row_ok bs (cleared_row row)"
  by (simp_all add: http_state_defs holds_binding_def http_row_ok_def)

lemma binding_ok_drop:
  "binding_ok bd \<Longrightarrow> binding_ok (bd\<lparr>bd_outbound_references := bd_outbound_references bd - 1\<rparr>)"
  by (auto simp: binding_ok_def)

lemma reset_row_eq:
  "hr_binding (hp_rows p ! i) = Some b \<Longrightarrow> reset_row_locked i p =
     p\<lparr>hp_bindings := (hp_bindings p)[b := Some ((http_binding_at p b)
         \<lparr>bd_outbound_references := bd_outbound_references (http_binding_at p b) - 1\<rparr>)],
       hp_rows := (hp_rows p)[i := cleared_row (hp_rows p ! i)]\<rparr>"
  by (simp add: reset_row_locked_def upd_row_def upd_binding_def)

lemma http_binding_at_frame [simp]:
  "http_binding_at (p\<lparr>hp_queued_egress := q\<rparr>) b = http_binding_at p b"
  "http_binding_at (p\<lparr>hp_rows := rows\<rparr>) b = http_binding_at p b"
  by (simp_all add: http_binding_at_def)

lemma reset_row_inv:
  assumes inv: "http_inv p" and i: "i < egress_capacity p"
    and st: "hr_state (hp_rows p ! i) \<noteq> SCXML_CHTTP_EGRESS_FREE"
    and q: "q + of_bool (queued_row (hp_rows p ! i)) = hp_queued_egress p" and c: "\<not> client_row (hp_rows p ! i)"
  shows "http_inv (reset_row_locked i (p\<lparr>hp_queued_egress := q\<rparr>))"
proof -
  from inv i st obtain b bd where b: "hr_binding (hp_rows p ! i) = Some b" "b < length (hp_bindings p)"
    "hp_bindings p ! b = Some bd" "http_binding_at p b = bd" "binding_ok bd" "bd_outbound_references bd \<noteq> 0"
    by (rule live_rowE)
  let ?bd = "bd\<lparr>bd_outbound_references := bd_outbound_references bd - 1\<rparr>"
  have "http_rows_ok ((hp_bindings p)[b := Some ?bd]) ((hp_rows p)[i := cleared_row (hp_rows p ! i)])"
    using http_invD(1) [OF inv] i b(2,3)
    by (rule http_rows_ok_update) (use b in \<open>auto simp: holds_binding_def\<close>)
  moreover have "reset_row_locked i (p\<lparr>hp_queued_egress := q\<rparr>) =
      p\<lparr>hp_queued_egress := q, hp_bindings := (hp_bindings p)[b := Some ?bd],
        hp_rows := (hp_rows p)[i := cleared_row (hp_rows p ! i)]\<rparr>"
    using reset_row_eq [of "p\<lparr>hp_queued_egress := q\<rparr>" i b] b(1,4) by simp
  ultimately show ?thesis
    using i b(2,3) q c binding_ok_drop [OF b(5)]
    by - (rule http_inv_update [where p = p and i = i and b = b and bd = bd and bd' = ?bd
            and y = "cleared_row (hp_rows p ! i)"], rule inv, simp_all)
qed

lemma release_queued_inv:
  assumes "http_inv p" "i < egress_capacity p" "queued_row (hp_rows p ! i)"
  shows "http_inv (release_queued i p)"
proof -
  have "0 < count_if queued_row (hp_rows p)" using assms(2,3) by (rule count_if_pos)
  then have "hp_queued_egress p - 1 + of_bool (queued_row (hp_rows p ! i)) = hp_queued_egress p"
    using http_invD(5) [OF assms(1)] assms(3) by simp
  with assms show ?thesis
    unfolding release_queued_def by (intro reset_row_inv) (auto simp: http_state_defs)
qed

lemma reset_completing_inv:
  assumes "http_inv p" "i < egress_capacity p" "hr_state (hp_rows p ! i) = SCXML_CHTTP_EGRESS_COMPLETING"
  shows "http_inv (reset_row_locked i p)"
  using reset_row_inv [of p i "hp_queued_egress p"] assms by (simp add: http_state_defs)

text \<open>What a release does to the tables.\<close>

lemma reset_row_rows [simp]: "hp_rows (reset_row_locked i p) = (hp_rows p)[i := cleared_row (hp_rows p ! i)]"
  by (simp add: reset_row_locked_def upd_row_def upd_binding_def split: option.splits)

lemma release_queued_rows [simp]: "hp_rows (release_queued i p) = (hp_rows p)[i := cleared_row (hp_rows p ! i)]"
  by (simp add: release_queued_def)

section \<open>Changing a row in place\<close>

lemma restate_inv:
  assumes inv: "http_inv p" and i: "i < egress_capacity p"
    and st: "hr_state (hp_rows p ! i) \<noteq> SCXML_CHTTP_EGRESS_FREE"
    and y: "hr_binding y = hr_binding (hp_rows p ! i)" "hr_generation y = hr_generation (hp_rows p ! i)"
      "hr_commit_sequence y = hr_commit_sequence (hp_rows p ! i)"
      "committed_row y = committed_row (hp_rows p ! i)" "hr_state y \<noteq> SCXML_CHTTP_EGRESS_FREE"
    and q: "q + of_bool (queued_row (hp_rows p ! i)) = hp_queued_egress p + of_bool (queued_row y)"
      "f + of_bool (client_row (hp_rows p ! i)) = hp_in_flight_egress p + of_bool (client_row y)"
    and first: "active_row y \<Longrightarrow> active_row (hp_rows p ! i) \<or>
      (\<forall>j<egress_capacity p. j \<noteq> i \<longrightarrow> hr_binding (hp_rows p ! j) = hr_binding y \<longrightarrow> committed_row (hp_rows p ! j) \<longrightarrow>
         hr_commit_sequence y \<le> hr_commit_sequence (hp_rows p ! j))"
  shows "http_inv (p\<lparr>hp_rows := (hp_rows p)[i := y], hp_queued_egress := q, hp_in_flight_egress := f\<rparr>)"
proof -
  from inv i st obtain b bd where b: "hr_binding (hp_rows p ! i) = Some b" "b < length (hp_bindings p)"
    "hp_bindings p ! b = Some bd" "binding_ok bd"
    "committed_row (hp_rows p ! i) \<longrightarrow> hr_commit_sequence (hp_rows p ! i) < bd_next_commit_sequence bd"
    by (rule live_rowE)
  have gen: "hr_generation (hp_rows p ! i) \<noteq> 0"
    using http_inv_row_ok [OF inv i] b(1) by (simp add: http_row_ok_def)
  have ok: "http_row_ok ((hp_bindings p)[b := Some bd]) y"
    using y b gen by (simp add: http_row_ok_def)
  have "http_rows_ok ((hp_bindings p)[b := Some bd]) ((hp_rows p)[i := y])"
    using http_invD(1) [OF inv] i b(2,3) ok
    by (rule http_rows_ok_update) (use y first in \<open>auto simp: holds_binding_def\<close>)
  moreover have "(hp_bindings p)[b := Some bd] = hp_bindings p" using b(3) by (metis list_update_id)
  ultimately show ?thesis
    using i b q
    by - (rule http_inv_update [where p = p and i = i and b = b and bd = bd and bd' = bd and y = y], rule inv, simp_all)
qed

text \<open>The same, for changes that do not move the row between the queue, the client and completion.\<close>

lemma upd_row_inv:
  assumes "http_inv p" "i < egress_capacity p" "hr_state (hp_rows p ! i) \<noteq> SCXML_CHTTP_EGRESS_FREE"
    and "hr_binding (f (hp_rows p ! i)) = hr_binding (hp_rows p ! i)"
      "hr_generation (f (hp_rows p ! i)) = hr_generation (hp_rows p ! i)"
      "hr_commit_sequence (f (hp_rows p ! i)) = hr_commit_sequence (hp_rows p ! i)"
      "hr_state (f (hp_rows p ! i)) = hr_state (hp_rows p ! i) \<or>
       in_client (hr_state (f (hp_rows p ! i))) \<and> in_client (hr_state (hp_rows p ! i))"
  shows "http_inv (upd_row i f p)"
proof -
  have kinds: "queued_row (f (hp_rows p ! i)) = queued_row (hp_rows p ! i)"
    "client_row (f (hp_rows p ! i)) = client_row (hp_rows p ! i)"
    "committed_row (f (hp_rows p ! i)) = committed_row (hp_rows p ! i)"
    "active_row (f (hp_rows p ! i)) = active_row (hp_rows p ! i)"
    "hr_state (f (hp_rows p ! i)) \<noteq> SCXML_CHTTP_EGRESS_FREE"
    using assms(3,7) by (auto simp: http_state_defs)
  from restate_inv [OF assms(1-6) kinds(3,5), of "hp_queued_egress p" "hp_in_flight_egress p"] kinds
  show ?thesis by (simp add: upd_row_def)
qed

section \<open>The operations of the egress\<close>

lemma invariant_failure_inv [simp]: "http_inv p \<Longrightarrow> http_inv (invariant_failure p)"
  by (simp add: invariant_failure_def http_inv_statistics)

lemma abort_reserved_inv: "http_inv p \<Longrightarrow> i < egress_capacity p \<Longrightarrow> http_inv (abort_reserved i p)"
  by (simp add: abort_reserved_def release_queued_inv queued_row_def)

lemma egress_discard_inv: "http_inv p \<Longrightarrow> i < egress_capacity p \<Longrightarrow> http_inv (egress_discard i p)"
  by (simp add: egress_discard_def release_queued_inv queued_row_def)

lemma http_reserve_inv:
  assumes inv: "http_inv p" and live: "live_binding p b" and run: "prepare_reserve b request p = (r, p')"
  shows "http_inv p'"
proof (cases r)
  case (Inl st)
  with run have "p' = p" by (auto simp: prepare_reserve_def split: if_splits option.splits)
  with inv show ?thesis by simp
next
  case (Inr i)
  obtain bd where bd: "b < length (hp_bindings p)" "hp_bindings p ! b = Some bd"
    using live by (auto simp: live_binding_def)
  then have at: "http_binding_at p b = bd" by (simp add: http_binding_at_def)
  define y where "y = (hp_rows p ! i)\<lparr>hr_generation := next_generation (hr_generation (hp_rows p ! i)),
    hr_state := SCXML_CHTTP_EGRESS_RESERVED, hr_binding := Some b, hr_delay_ms := sr_delay_ms request,
    hr_send_id := cdata (sr_id request)\<rparr>"
  let ?bd = "bd\<lparr>bd_outbound_references := bd_outbound_references bd + 1\<rparr>"
  from run Inr have first: "first_index (\<lambda>row. hr_state row = SCXML_CHTTP_EGRESS_FREE) (hp_rows p) = Some i"
    and "open": "http_open p b"
    and p': "p' = p\<lparr>hp_rows := (hp_rows p)[i := y], hp_bindings := (hp_bindings p)[b := Some ?bd],
      hp_queued_egress := hp_queued_egress p + 1\<rparr>"
    by (auto simp: prepare_reserve_def upd_row_def upd_binding_def at y_def split: if_splits option.splits)
  from first_index_SomeD [OF first] have i: "i < egress_capacity p"
    and free: "hr_state (hp_rows p ! i) = SCXML_CHTTP_EGRESS_FREE" by auto
  have none: "hr_binding (hp_rows p ! i) = None"
    using http_inv_row_ok [OF inv i] free by (auto simp: http_row_ok_def split: option.splits)
  have y: "hr_state y = SCXML_CHTTP_EGRESS_RESERVED" "hr_binding y = Some b" "hr_generation y \<noteq> 0"
    by (auto simp: y_def next_generation_def)
  have "http_rows_ok ((hp_bindings p)[b := Some ?bd]) ((hp_rows p)[i := y])"
    using http_invD(1) [OF inv] i bd
    by (rule http_rows_ok_update) (use y none bd in \<open>auto simp: holds_binding_def http_state_defs http_row_ok_def\<close>)
  moreover have "binding_ok ?bd"
    using http_invD(2) [OF inv bd] "open" at by (auto simp: binding_ok_def http_open_def)
  ultimately show ?thesis
    using i bd y free p'
    by - (rule http_inv_update [where p = p and i = i and b = b and bd = bd and bd' = ?bd and y = y], rule inv,
        simp_all add: http_state_defs)
qed

lemma http_commit_inv:
  assumes inv: "http_inv p" and i: "i < egress_capacity p"
    and room: "\<And>b. hr_binding (hp_rows p ! i) = Some b \<Longrightarrow> bd_next_commit_sequence (http_binding_at p b) \<noteq> UINT64_MAX"
  shows "http_inv (egress_commit now i p)"
proof (cases "hr_state (hp_rows p ! i) = SCXML_CHTTP_EGRESS_RESERVED")
  case True
  then have st: "hr_state (hp_rows p ! i) \<noteq> SCXML_CHTTP_EGRESS_FREE" by simp
  from inv i st obtain b bd where b: "hr_binding (hp_rows p ! i) = Some b" "b < length (hp_bindings p)"
    "hp_bindings p ! b = Some bd" "http_binding_at p b = bd" "binding_ok bd"
    by (rule live_rowE)
  show ?thesis
  proof (cases "hp_state p \<noteq> SCXML_CHTTP_PROCESSOR_RUNNING \<or> \<not> http_open p b")
    case True
    then show ?thesis using b release_queued_inv [OF inv i] \<open>hr_state _ = SCXML_CHTTP_EGRESS_RESERVED\<close>
      by (simp add: egress_commit_def queued_row_def)
  next
    case False
    let ?next = "bd_next_commit_sequence bd"
    let ?bd = "bd\<lparr>bd_next_commit_sequence := ?next + 1\<rparr>"
    define y where "y = (hp_rows p ! i)\<lparr>hr_state := SCXML_CHTTP_EGRESS_READY, hr_commit_sequence := ?next,
      hr_due_ms := due_time now (hr_delay_ms (hp_rows p ! i))\<rparr>"
    have room': "?next \<noteq> UINT64_MAX" using room [OF b(1)] b(4) by simp
    note grow = Suc_guard_nonzero [OF room'] less_Suc_guard [OF room']
    have p': "egress_commit now i p = p\<lparr>hp_bindings := (hp_bindings p)[b := Some ?bd], hp_rows := (hp_rows p)[i := y]\<rparr>"
      using b False True grow(1)
      by (simp add: egress_commit_def Let_def upd_row_def upd_binding_def y_def)
    have y: "hr_state y = SCXML_CHTTP_EGRESS_READY" "hr_binding y = Some b" "hr_commit_sequence y = ?next"
      "hr_generation y = hr_generation (hp_rows p ! i)"
      by (simp_all add: y_def b)
    have "hr_generation (hp_rows p ! i) \<noteq> 0" using http_inv_row_ok [OF inv i] b(1) by (simp add: http_row_ok_def)
    then have ok: "http_row_ok ((hp_bindings p)[b := Some ?bd]) y" using y b grow by (simp add: http_row_ok_def)
    have "http_rows_ok ((hp_bindings p)[b := Some ?bd]) ((hp_rows p)[i := y])"
      using http_invD(1) [OF inv] i b(2,3) ok
      by (rule http_rows_ok_update) (use y b grow in \<open>auto simp: holds_binding_def http_state_defs less_imp_le\<close>)
    moreover have "binding_ok ?bd" using b(5) by (simp add: binding_ok_def)
    ultimately show ?thesis
      using i b y True unfolding p'
      by - (rule http_inv_update [where p = p and i = i and b = b and bd = bd and bd' = ?bd and y = y], rule inv,
          simp_all add: http_state_defs)
  qed
qed (use inv in \<open>auto simp: egress_commit_def split: option.splits\<close>)

lemma prepare_finish_inv:
  "http_inv p \<Longrightarrow> i < egress_capacity p \<Longrightarrow> prepare_finish b i p = (st, t, p') \<Longrightarrow> http_inv p'"
  by (auto simp: prepare_finish_def http_inv_statistics release_queued_inv queued_row_def split: if_splits)

lemma cancel_or_mark_inv:
  assumes "http_inv p" "i < egress_capacity p" shows "http_inv (cancel_or_mark i p)"
proof -
  have "http_inv (release_queued i (p\<lparr>hp_egress_cancelled := a\<rparr>))"
    if "hr_state (hp_rows p ! i) = SCXML_CHTTP_EGRESS_READY" for a
    using assms that by (intro release_queued_inv http_inv_statistics) (auto simp: queued_row_def)
  moreover have "http_inv (upd_row i (\<lambda>row. row\<lparr>hr_cancel_requested := True\<rparr>) p)"
    if "in_client (hr_state (hp_rows p ! i))"
    using assms that by (intro upd_row_inv) (auto simp: in_client_def)
  ultimately show ?thesis using assms by (simp add: cancel_or_mark_def)
qed

lemma egress_capacity_frame [simp]:
  "egress_capacity (upd_row i f p) = egress_capacity p" "egress_capacity (upd_binding b g p) = egress_capacity p"
  "egress_capacity (cancel_or_mark i p) = egress_capacity p" "egress_capacity (close_row b i p) = egress_capacity p"
  by (simp_all add: upd_row_def upd_binding_def cancel_or_mark_def close_row_def)

lemma fold_close_inv:
  assumes "http_inv p" "\<forall>i\<in>set js. i < egress_capacity p"
  shows "http_inv (fold (close_row b) js p)"
  using assms
proof (induction js arbitrary: p)
  case (Cons j js)
  then have "http_inv (close_row b j p)" by (simp add: close_row_def cancel_or_mark_inv)
  with Cons.IH [of "close_row b j p"] Cons.prems(2) show ?case by simp
qed simp

lemma close_binding_inv: "http_inv p \<Longrightarrow> http_inv (scxml_chttp_egress_close_binding_locked b p)"
  unfolding scxml_chttp_egress_close_binding_locked_def by (rule fold_close_inv) auto

lemma http_cancel_discard_inv: "http_inv p \<Longrightarrow> http_inv (http_cancel_discard k p)"
  by (simp add: http_cancel_discard_def Let_def http_inv_statistics)

lemma http_cancel_commit_inv:
  assumes "http_inv p" shows "http_inv (http_cancel_commit k p)"
proof -
  have "http_inv (p\<lparr>hp_cancel_tickets := (hp_cancel_tickets p)[k := t]\<rparr>)" for t
    using assms by (rule http_inv_statistics) simp
  then show ?thesis using assms cancel_or_mark_inv
    by (simp add: http_cancel_commit_def Let_def)
qed

lemma http_prepare_cancel_inv:
  "http_inv p \<Longrightarrow> scxml_chttp_egress_prepare_cancel b send_id p = (st, t, handled, p') \<Longrightarrow> http_inv p'"
  by (auto simp: scxml_chttp_egress_prepare_cancel_def http_inv_statistics split: if_splits option.splits)

section \<open>The worker\<close>

text \<open>The selection prefers the earliest due time among the submittable rows.\<close>

interpretation due_index: row_order "\<lambda>i j. (due i :: u64) < due j" for due
  by unfold_locales auto

lemma select_ready_SomeD:
  assumes "select_ready_locked p now = Some i"
  shows "i < egress_capacity p \<and> submittable p now i \<and>
    (\<forall>j<egress_capacity p. submittable p now j \<longrightarrow> hr_due_ms (hp_rows p ! i) \<le> hr_due_ms (hp_rows p ! j))"
  using due_index.earliest_row_SomeD [OF assms [unfolded select_ready_locked_def]] by (auto simp: not_less)

lemma select_ready_None_iff:
  "select_ready_locked p now = None \<longleftrightarrow> (\<forall>i<egress_capacity p. \<not> submittable p now i)"
  using due_index.earliest_row_None_iff [where due = "\<lambda>i. hr_due_ms (hp_rows p ! i)" and P = "submittable p now"
      and xs = "[0..<egress_capacity p]"]
  by (auto simp: select_ready_locked_def)

lemma submittable_first:
  assumes "submittable p now i" "j < egress_capacity p" "j \<noteq> i" "hr_binding (hp_rows p ! j) = hr_binding (hp_rows p ! i)"
    "committed_row (hp_rows p ! j)"
  shows "hr_commit_sequence (hp_rows p ! i) \<le> hr_commit_sequence (hp_rows p ! j)"
  using assms by (auto simp: submittable_def earlier_row_blocks_locked_def list_ex_iff committed_row_def not_less)

lemma submit_claim_inv:
  assumes inv: "http_inv p" and run: "submit_claim now p = Some (post, p')"
  shows "http_inv p'"
proof -
  from run obtain i where sel: "select_ready_locked p now = Some i"
    and p': "p' = p\<lparr>hp_rows := (hp_rows p)[i := (hp_rows p ! i)\<lparr>hr_state := SCXML_CHTTP_EGRESS_SUBMITTING\<rparr>],
      hp_queued_egress := hp_queued_egress p - 1, hp_in_flight_egress := hp_in_flight_egress p + 1\<rparr>"
    by (auto simp: submit_claim_def Let_def upd_row_def split: option.splits)
  from select_ready_SomeD [OF sel] have i: "i < egress_capacity p" and sub: "submittable p now i" by auto
  then have st: "hr_state (hp_rows p ! i) = SCXML_CHTTP_EGRESS_READY" by (simp add: submittable_def)
  have "queued_row (hp_rows p ! i)" using st by (simp add: queued_row_def)
  then have "0 < count_if queued_row (hp_rows p)" by (rule count_if_pos [OF i])
  with http_invD(5) [OF inv] have "0 < hp_queued_egress p" by simp
  then show ?thesis unfolding p'
    using st submittable_first [OF sub]
    by (intro restate_inv [OF inv i]) (simp_all add: http_state_defs)
qed

lemma in_flight_pos:
  "http_inv p \<Longrightarrow> i < egress_capacity p \<Longrightarrow> in_client (hr_state (hp_rows p ! i)) \<Longrightarrow> 0 < hp_in_flight_egress p"
  using http_invD(6) count_if_pos [of i "hp_rows p" client_row] by (simp add: client_row_def)

lemma submit_settle_inv:
  assumes inv: "http_inv p" and i: "i < egress_capacity p" and run: "submit_settle i status request p = (r, p')"
  shows "http_inv p'"
proof -
  let ?sub = "hr_state (hp_rows p ! i) = SCXML_CHTTP_EGRESS_SUBMITTING"
  have pos: "0 < hp_in_flight_egress p" if ?sub
    using in_flight_pos [OF inv i] that by (simp add: in_client_def)
  consider "\<not> ?sub \<or> status \<noteq> SALTS_OK \<and> status \<noteq> SALTS_ENOBUFS" | "?sub" "status = SALTS_OK" | "?sub" "status = SALTS_ENOBUFS"
    by blast
  then show ?thesis
  proof cases
    case 1
    then have "p' = p" using run by (auto simp: submit_settle_def)
    with inv show ?thesis by simp
  next
    case 2
    then have "p' = upd_row i (\<lambda>row. row\<lparr>hr_request := request, hr_state := SCXML_CHTTP_EGRESS_SUBMITTED\<rparr>) p"
      using run by (simp add: submit_settle_def)
    then show ?thesis using 2(1) by (simp add: upd_row_inv [OF inv i] in_client_def)
  next
    case 3
    then have p': "p' = p\<lparr>hp_rows := (hp_rows p)[i := (hp_rows p ! i)\<lparr>hr_state := SCXML_CHTTP_EGRESS_READY\<rparr>],
        hp_queued_egress := hp_queued_egress p + 1, hp_in_flight_egress := hp_in_flight_egress p - 1\<rparr>"
      using run by (simp add: submit_settle_def upd_row_def)
    show ?thesis unfolding p' using 3(1) pos
      by (intro restate_inv [OF inv i]) (simp_all add: http_state_defs)
  qed
qed

lemma count_outcome_inv: "http_inv p \<Longrightarrow> http_inv (count_outcome outcome p)"
  by (simp add: count_outcome_def http_inv_statistics split: http_outcome.split)

lemma complete_begin_inv:
  assumes inv: "http_inv p" and i: "i < egress_capacity p" and run: "complete_begin outcome i p = (r, p')"
  shows "http_inv p'"
proof -
  let ?q = "p\<lparr>hp_rows := (hp_rows p)[i := (hp_rows p ! i)\<lparr>hr_state := SCXML_CHTTP_EGRESS_COMPLETING\<rparr>],
    hp_in_flight_egress := hp_in_flight_egress p - 1\<rparr>"
  show ?thesis
  proof (cases "hr_binding (hp_rows p ! i) = None \<or> \<not> in_client (hr_state (hp_rows p ! i))")
    case True
    then have "p' = invariant_failure p"
      using run by (auto simp: complete_begin_def Let_def split: option.splits)
    with inv show ?thesis by simp
  next
    case False
    then have p': "p' = count_outcome outcome ?q"
      using run by (auto simp: complete_begin_def Let_def upd_row_def split: option.splits)
    have "http_inv (p\<lparr>hp_rows := (hp_rows p)[i := (hp_rows p ! i)\<lparr>hr_state := SCXML_CHTTP_EGRESS_COMPLETING\<rparr>],
        hp_queued_egress := hp_queued_egress p, hp_in_flight_egress := hp_in_flight_egress p - 1\<rparr>)"
      using False in_flight_pos [OF inv i]
      by (intro restate_inv [OF inv i]) (auto simp: http_state_defs)
    then have "http_inv ?q" by simp
    with p' show ?thesis by (simp add: count_outcome_inv)
  qed
qed

lemma complete_end_inv: "http_inv p \<Longrightarrow> i < egress_capacity p \<Longrightarrow> http_inv (complete_end i p)"
  by (simp add: complete_end_def reset_completing_inv)

lemma cancel_pick_inv:
  assumes inv: "http_inv p" and run: "cancel_pick p = (r, p')" shows "http_inv p'"
proof -
  let ?P = "\<lambda>row. hr_state row = SCXML_CHTTP_EGRESS_SUBMITTED \<and> hr_cancel_requested row"
  show ?thesis
  proof (cases "first_index ?P (hp_rows p)")
    case None
    with run inv show ?thesis by (simp add: cancel_pick_def)
  next
    case (Some i)
    with run have p': "p' = upd_row i (\<lambda>row. row\<lparr>hr_cancel_requested := False\<rparr>) p" by (simp add: cancel_pick_def)
    from first_index_SomeD [OF Some] show ?thesis unfolding p' by (intro upd_row_inv [OF inv]) auto
  qed
qed

lemma cancel_unknown_inv: "http_inv p \<Longrightarrow> http_inv (cancel_unknown i request p)"
  by (simp add: cancel_unknown_def)

lemma cancel_retry_inv:
  assumes "http_inv p" "i < egress_capacity p" shows "http_inv (cancel_retry i request status p)"
proof -
  have "http_inv (upd_row i (\<lambda>row. row\<lparr>hr_cancel_requested := True\<rparr>) p)" if "still_submitted i request p"
    using assms that by (intro upd_row_inv) (auto simp: still_submitted_def)
  then show ?thesis using assms by (simp add: cancel_retry_def Let_def)
qed

section \<open>Life cycle of a binding\<close>

lemma live_bindingE:
  assumes "live_binding p b"
  obtains bd where "b < length (hp_bindings p)" "hp_bindings p ! b = Some bd" "http_binding_at p b = bd"
  using assms by (auto simp: live_binding_def http_binding_at_def)

lemma live_binding_ok: "http_inv p \<Longrightarrow> live_binding p b \<Longrightarrow> binding_ok (http_binding_at p b)"
  by (metis http_invD(2) live_bindingE)

lemma fresh_http_inv: "http_inv (fresh_http_processor cfg)"
  by (auto simp: http_inv_def fresh_http_processor_def http_rows_ok_def http_row_ok_def blank_http_row_def
      http_endpoints_ok_def http_state_defs precedes_def)

lemma activate_locked_inv:
  assumes "http_inv p" "live_binding p b" "activate_locked b session program p = (st, p')" shows "http_inv p'"
proof -
  have "http_inv (upd_binding b (\<lambda>bd. bd\<lparr>bd_session := Some session, bd_program := Some program,
      bd_state := SCXML_CHTTP_BINDING_ACTIVE\<rparr>) p)"
    using assms(1,2) by (rule http_inv_binding) (simp_all add: binding_ok_def)
  with assms(1,3) show ?thesis by (auto simp: activate_locked_def split: if_splits)
qed

lemma upd_binding_live: "live_binding p c \<Longrightarrow> live_binding (upd_binding b f p) c"
  by (cases "c = b") (auto simp: live_binding_def upd_binding_def)

lemma live_binding_frame [simp]:
  "live_binding (upd_row i g p) c \<longleftrightarrow> live_binding p c"
  "live_binding (p\<lparr>hp_queued_egress := n\<rparr>) c \<longleftrightarrow> live_binding p c"
  "live_binding (p\<lparr>hp_egress_cancelled := m\<rparr>) c \<longleftrightarrow> live_binding p c"
  by (simp_all add: live_binding_def upd_row_def)

lemma release_queued_live: "live_binding p c \<Longrightarrow> live_binding (release_queued i p) c"
  by (auto simp: release_queued_def reset_row_locked_def upd_binding_live split: option.splits)

lemma cancel_or_mark_live: "live_binding p c \<Longrightarrow> live_binding (cancel_or_mark i p) c"
  by (simp add: cancel_or_mark_def release_queued_live)

lemma fold_close_live: "live_binding p c \<Longrightarrow> live_binding (fold (close_row b) js p) c"
  by (induction js arbitrary: p) (auto simp: close_row_def cancel_or_mark_live)

lemma close_locked_inv:
  assumes inv: "http_inv p" and live: "live_binding p b" and run: "close_locked b p = (d, p')" shows "http_inv p'"
proof -
  let ?closing = "upd_binding b (\<lambda>bd. bd\<lparr>bd_state := SCXML_CHTTP_BINDING_CLOSING\<rparr>) p"
  define p1 where "p1 = (if http_open p b then scxml_chttp_egress_close_binding_locked b ?closing else p)"
  have "http_inv ?closing"
    using inv live by (rule http_inv_binding) (simp_all add: binding_ok_def)
  then have inv1: "http_inv p1" using inv by (simp add: p1_def close_binding_inv)
  have live1: "live_binding p1 b"
    using live fold_close_live [of ?closing b] upd_binding_live [OF live]
    by (simp add: p1_def scxml_chttp_egress_close_binding_locked_def)
  have "http_inv (upd_binding b (\<lambda>bd. bd\<lparr>bd_downstream_close_called := True\<rparr>) p1)"
    using inv1 live1 by (rule http_inv_binding)
      (use live_binding_ok [OF inv1 live1] in \<open>simp_all add: binding_ok_def\<close>)
  with inv1 run show ?thesis by (auto simp: close_locked_def Let_def p1_def [symmetric] split: if_splits)
qed

lemma quiescent_settle_inv:
  assumes inv: "http_inv p" and live: "live_binding p b" and run: "quiescent_settle q b p = (r, p')" shows "http_inv p'"
proof (cases "r")
  case True
  then have p': "p' = upd_binding b (\<lambda>bd. bd\<lparr>bd_state := SCXML_CHTTP_BINDING_QUIESCENT, bd_session := None,
      bd_program := None\<rparr>) p"
    and z: "bd_outbound_references (http_binding_at p b) = 0" "bd_active_callbacks (http_binding_at p b) = 0"
    using run by (auto simp: quiescent_settle_def Let_def split: if_splits)
  show ?thesis unfolding p' using inv live by (rule http_inv_binding) (use z in \<open>simp_all add: binding_ok_def\<close>)
next
  case False
  then have "p' = p" using run by (auto simp: quiescent_settle_def Let_def split: if_splits)
  with inv show ?thesis by simp
qed

text \<open>A quiescent binding has no rows, so freeing it leaves no dangling pointer.\<close>

lemma destroy_locked_inv:
  assumes inv: "http_inv p" and live: "live_binding p b"
    and q: "bd_state (http_binding_at p b) = SCXML_CHTTP_BINDING_QUIESCENT" and run: "destroy_locked b p = (st, p')"
  shows "http_inv p'"
proof -
  from live obtain bd where b: "b < length (hp_bindings p)" "hp_bindings p ! b = Some bd" "http_binding_at p b = bd"
    by (rule live_bindingE)
  let ?e = "bd_endpoint_index bd" and ?eps = "hp_endpoints p" and ?bs = "hp_bindings p"
  let ?ep = "(?eps ! ?e)\<lparr>ep_binding := None, ep_endpoint := [], ep_access_uri := []\<rparr>"
  have e: "?e < length ?eps" "ep_binding (?eps ! ?e) = Some b" "ep_generation (?eps ! ?e) = bd_endpoint_generation bd"
    using http_invD(3) [OF inv] b by (auto simp: http_endpoints_ok_def)
  then have p': "p' = p\<lparr>hp_endpoints := ?eps[?e := ?ep], hp_live_bindings := hp_live_bindings p - 1,
      hp_bindings := ?bs[b := None]\<rparr>"
    using run b(3) by (auto simp: destroy_locked_def Let_def)
  have "bd_outbound_references bd = 0" using live_binding_ok [OF inv live] q b(3) by (simp add: binding_ok_def)
  moreover have "bd_outbound_references bd = count_if (holds_binding b) (hp_rows p)"
    using http_invD(1) [OF inv] b by (simp add: http_rows_ok_def)
  ultimately have none: "hr_binding row \<noteq> Some b" if "row \<in> set (hp_rows p)" for row
    using that by (auto simp: count_if_zero_iff holds_binding_def)
  have "http_row_ok (?bs[b := None]) row" if "row \<in> set (hp_rows p)" for row
  proof -
    have "http_row_ok ?bs row" using http_invD(1) [OF inv] that by (simp add: http_rows_ok_def)
    with none [OF that] show ?thesis
      by (cases "hr_binding row") (auto simp: http_row_ok_def)
  qed
  then have rows: "http_rows_ok (?bs[b := None]) (hp_rows p)"
    using http_invD(1) [OF inv] b(1) by (auto simp: http_rows_ok_def nth_list_update split: if_splits)
  have eps: "http_endpoints_ok (?bs[b := None]) (?eps[?e := ?ep])"
  proof -
    have fwd: "bd_endpoint_index x < length ?eps \<and> ep_binding (?eps ! bd_endpoint_index x) = Some c \<and>
        ep_generation (?eps ! bd_endpoint_index x) = bd_endpoint_generation x"
      if "c < length ?bs" "?bs ! c = Some x" for c x
      using http_invD(3) [OF inv] that by (auto simp: http_endpoints_ok_def)
    have origin: "\<exists>x. c < length ?bs \<and> ?bs ! c = Some x \<and> bd_endpoint_index x = k"
      if "k < length ?eps" "ep_binding (?eps ! k) = Some c" for k c
      using http_invD(3) [OF inv] that by (auto simp: http_endpoints_ok_def)
    show ?thesis unfolding http_endpoints_ok_def
    proof (intro conjI allI impI)
      fix c x assume c: "c < length (?bs[b := None])" "?bs[b := None] ! c = Some x"
      with b(1) have cb: "c \<noteq> b" "c < length ?bs" "?bs ! c = Some x" by (auto simp: nth_list_update split: if_splits)
      with fwd [OF cb(2,3)] e(2) have "bd_endpoint_index x \<noteq> ?e" by auto
      with fwd [OF cb(2,3)] show "bd_endpoint_index x < length (?eps[?e := ?ep])"
        "ep_binding (?eps[?e := ?ep] ! bd_endpoint_index x) = Some c"
        "ep_generation (?eps[?e := ?ep] ! bd_endpoint_index x) = bd_endpoint_generation x" by auto
    next
      fix k c assume k: "k < length (?eps[?e := ?ep])" "ep_binding (?eps[?e := ?ep] ! k) = Some c"
      with e(1) have ke: "k \<noteq> ?e" "k < length ?eps" "ep_binding (?eps ! k) = Some c"
        by (auto simp: nth_list_update split: if_splits)
      from origin [OF ke(2,3)] obtain x where x: "c < length ?bs" "?bs ! c = Some x" "bd_endpoint_index x = k" by blast
      with ke(1) b(2) have "c \<noteq> b" by auto
      with x show "\<exists>x. c < length (?bs[b := None]) \<and> ?bs[b := None] ! c = Some x \<and> bd_endpoint_index x = k" by auto
    qed
  qed
  have "count_if (\<lambda>ep. ep_binding ep \<noteq> None) (?eps[?e := ?ep]) = count_if (\<lambda>ep. ep_binding ep \<noteq> None) ?eps - 1"
    using e by (intro count_if_update_del) auto
  moreover have "binding_ok x" if "c < length ?bs" "?bs[b := None] ! c = Some x" for c x
    using http_invD(2) [OF inv] that b(1) by (auto simp: nth_list_update split: if_splits)
  ultimately show ?thesis
    using rows eps http_invD(4-7) [OF inv] unfolding p' http_inv_def by simp
qed

lemma binding_init_inv:
  assumes inv: "http_inv p"
    and run: "scxml_chttp_binding_init adapter_size uuid alloc_ok formatted adapter decode_set p = (st, b, p')"
  shows "http_inv p'"
proof -
  let ?eps = "hp_endpoints p" and ?bs = "hp_bindings p"
  let ?ep1 = "\<lambda>e. (?eps ! e)\<lparr>ep_generation := next_generation (ep_generation (?eps ! e))\<rparr>"
  consider (same) "p' = p"
    | (gen) e y where "e < length ?eps" "ep_binding (?eps ! e) = None" "ep_binding y = None"
      "p' = p\<lparr>hp_endpoints := ?eps[e := y]\<rparr>"
    | (new) e y where "e < length ?eps" "ep_binding (?eps ! e) = None" "ep_binding y = Some (length ?bs)"
      "p' = p\<lparr>hp_endpoints := ?eps[e := y],
         hp_bindings := ?bs @ [Some (new_binding e (ep_generation y) adapter decode_set)],
         hp_live_bindings := hp_live_bindings p + 1\<rparr>"
  proof -
    have fresh: "e < length ?eps \<and> ep_binding (?eps ! e) = None"
      if "first_index (\<lambda>ep. ep_binding ep = None) ?eps = Some e" for e
      using first_index_SomeD [OF that] by simp
    show thesis
    proof (cases "first_index (\<lambda>ep. ep_binding ep = None) ?eps")
      case None
      with run have "p' = p" by (auto simp: scxml_chttp_binding_init_def split: if_splits)
      then show thesis by (rule that(1))
    next
      case (Some e)
      let ?ready = "downstream_adapter_valid adapter_size adapter \<and> uuid = SALTS_OK \<and> alloc_ok \<and>
        hp_state p = SCXML_CHTTP_PROCESSOR_RUNNING"
      obtain ust uri where uri: "build_access_uri (hp_config p) (snd formatted) = (ust, uri)" by fastforce
      consider "\<not> ?ready" | "?ready" "fst formatted \<noteq> SALTS_OK" | "?ready" "fst formatted = SALTS_OK" "ust \<noteq> SALTS_OK"
        | "?ready" "fst formatted = SALTS_OK" "ust = SALTS_OK" by blast
      then show thesis
      proof cases
        case 1
        with run have "p' = p" by (auto simp: scxml_chttp_binding_init_def split: if_splits)
        then show thesis by (rule that(1))
      next
        case 2
        with run Some have "p' = p\<lparr>hp_endpoints := ?eps[e := ?ep1 e]\<rparr>"
          by (simp add: scxml_chttp_binding_init_def Let_def)
        with fresh [OF Some] show thesis by (intro that(2) [of e "?ep1 e"]) simp_all
      next
        case 3
        let ?y = "?ep1 e\<lparr>ep_binding := None, ep_endpoint := [], ep_access_uri := []\<rparr>"
        from 3 run Some uri have "p' = p\<lparr>hp_endpoints := ?eps[e := ?y]\<rparr>"
          by (simp add: scxml_chttp_binding_init_def Let_def)
        with fresh [OF Some] show thesis by (intro that(2) [of e ?y]) simp_all
      next
        case 4
        let ?y = "?ep1 e\<lparr>ep_binding := Some (length ?bs), ep_endpoint := snd formatted, ep_access_uri := uri\<rparr>"
        from 4 run Some uri have "p' = p\<lparr>hp_endpoints := ?eps[e := ?y],
            hp_bindings := ?bs @ [Some (new_binding e (ep_generation ?y) adapter decode_set)],
            hp_live_bindings := hp_live_bindings p + 1\<rparr>"
          by (auto simp: scxml_chttp_binding_init_def Let_def)
        with fresh [OF Some] show thesis by (intro that(3) [of e ?y]) simp_all
      qed
    qed
  qed
  then show ?thesis
  proof cases
    case same
    with inv show ?thesis by simp
  next
    case gen
    have "http_endpoints_ok ?bs (?eps[e := y])"
      using http_invD(3) [OF inv] gen(1-3) by (auto simp: http_endpoints_ok_def nth_list_update split: if_splits)
    then show ?thesis
      using inv gen unfolding http_inv_def by (simp add: count_if_update_same)
  next
    case new
    let ?bd = "new_binding e (ep_generation y) adapter decode_set"
    have none: "count_if (holds_binding (length ?bs)) (hp_rows p) = 0"
      using http_invD(1) [OF inv]
      by (auto simp: count_if_zero_iff holds_binding_def http_rows_ok_def http_row_ok_def)
    have "http_row_ok (?bs @ [Some ?bd]) row" if "row \<in> set (hp_rows p)" for row
    proof -
      have "http_row_ok ?bs row" using http_invD(1) [OF inv] that by (simp add: http_rows_ok_def)
      then show ?thesis by (cases "hr_binding row") (auto simp: http_row_ok_def nth_append)
    qed
    then have rows: "http_rows_ok (?bs @ [Some ?bd]) (hp_rows p)"
      using http_invD(1) [OF inv] none
      by (auto simp: http_rows_ok_def nth_append less_Suc_eq new_binding_def)
    have eps: "http_endpoints_ok (?bs @ [Some ?bd]) (?eps[e := y])"
      using http_invD(3) [OF inv] new(1-3) unfolding http_endpoints_ok_def
      by (auto simp: nth_append nth_list_update less_Suc_eq new_binding_def split: if_splits)
    have "binding_ok x" if "c < length (?bs @ [Some ?bd])" "(?bs @ [Some ?bd]) ! c = Some x" for c x
      using http_invD(2) [OF inv] that
      by (auto simp: nth_append less_Suc_eq binding_ok_def new_binding_def split: if_splits)
    moreover have "count_if (\<lambda>ep. ep_binding ep \<noteq> None) (?eps[e := y]) =
        Suc (count_if (\<lambda>ep. ep_binding ep \<noteq> None) ?eps)"
      using new(1-3) by (intro count_if_update_add) auto
    ultimately show ?thesis
      using rows eps http_invD(4-7) [OF inv] new(4) unfolding http_inv_def by simp
  qed
qed

section \<open>Ingress\<close>

lemma endpoint_live:
  assumes "http_inv p" "e < length (hp_endpoints p)" "ep_binding (hp_endpoints p ! e) = Some b" shows "live_binding p b"
proof -
  obtain bd where "b < length (hp_bindings p)" "hp_bindings p ! b = Some bd"
    using http_invD(3) [OF assms(1)] assms(2,3) unfolding http_endpoints_ok_def by blast
  then show ?thesis by (simp add: live_binding_def)
qed

lemma ingress_enter_inv:
  assumes inv: "http_inv p" and run: "ingress_enter endpoint p = (r, p')" shows "http_inv p'"
proof (cases r)
  case (Inl st)
  then have "p' = p" using run by (auto simp: ingress_enter_def Let_def split: if_splits option.splits)
  with inv show ?thesis by simp
next
  case (Inr x)
  with run obtain e where e: "first_index (\<lambda>ep. ep_binding ep \<noteq> None \<and> ep_endpoint ep = endpoint) (hp_endpoints p) = Some e"
    by (auto simp: ingress_enter_def split: option.splits)
  obtain b where b: "ep_binding (hp_endpoints p ! e) = Some b" and "e < length (hp_endpoints p)"
    using first_index_SomeD [OF e] by auto
  then have live: "live_binding p b" using endpoint_live [OF inv] by blast
  from run Inr e b have p': "p' = upd_binding b (\<lambda>bd. bd\<lparr>bd_active_callbacks := bd_active_callbacks bd + 1\<rparr>) p"
    and act: "bd_state (http_binding_at p b) = SCXML_CHTTP_BINDING_ACTIVE"
    by (auto simp: ingress_enter_def Let_def split: if_splits)
  show ?thesis unfolding p' using inv live
    by (rule http_inv_binding) (use act live_binding_ok [OF inv live] in \<open>simp_all add: binding_ok_def\<close>)
qed

lemma ingress_leave_inv:
  assumes inv: "http_inv p" and live: "live_binding p b" shows "http_inv (ingress_leave status b p)"
proof -
  define p1 where "p1 = (if status = 204 then p\<lparr>hp_ingress_admitted := hp_ingress_admitted p + 1\<rparr> else ingress_reject p)"
  have inv1: "http_inv p1" using inv by (simp add: p1_def ingress_reject_def http_inv_statistics)
  have live1: "live_binding p1 b" using live by (simp add: p1_def ingress_reject_def live_binding_def)
  have "http_inv (upd_binding b (\<lambda>bd. bd\<lparr>bd_active_callbacks := bd_active_callbacks bd - 1\<rparr>) p1)"
    using inv1 live1
    by (rule http_inv_binding) (use live_binding_ok [OF inv1 live1] in \<open>auto simp: binding_ok_def\<close>)
  with inv1 show ?thesis by (simp add: ingress_leave_def Let_def p1_def [symmetric])
qed

end
