(* ===== verification/Http_Safety.thy ===== *)
theory Http_Safety
  imports Http_Inv
begin

text \<open>
  The BasicHTTP processor as a transition system and its properties: exact accounting without
  dangling pointers, one request per binding at a time in commit order, cancellation tickets
  that never reach a reused row, what closing a binding does, and a race that leaves a
  closed binding with a row that is never released.
\<close>

section \<open>The transition system\<close>

text \<open>
  One step is one section under the processor mutex, on behalf of a Session executor, the
  worker, a server thread or the owner of the handles. Pointers that callers pass are live. A
  commit number is taken only while the 64-bit counter has not run out.
\<close>

inductive http_step :: "http_processor \<Rightarrow> http_processor \<Rightarrow> bool" where
  port: "hp_state p = SCXML_CHTTP_PROCESSOR_INITIALIZED \<Longrightarrow>
    http_step p (p\<lparr>hp_config := (hp_config p)\<lparr>hc_bound_port := port\<rparr>\<rparr>)"
| start: "http_step p (start_publish p)"
| start_failed: "hp_state p = SCXML_CHTTP_PROCESSOR_INITIALIZED \<Longrightarrow>
    http_step p (p\<lparr>hp_state := SCXML_CHTTP_PROCESSOR_STOPPING\<rparr>)"
| stop: "stop_begin active p = (st, p') \<Longrightarrow> http_step p p'"
| stopped: "hp_state p = SCXML_CHTTP_PROCESSOR_STOPPING \<Longrightarrow> http_step p (p\<lparr>hp_state := SCXML_CHTTP_PROCESSOR_STOPPED\<rparr>)"
| init: "scxml_chttp_binding_init asize uuid alloc_ok formatted adapter decode_set p = (st, b, p') \<Longrightarrow> http_step p p'"
| activate: "live_binding p b \<Longrightarrow> activate_locked b session program p = (st, p') \<Longrightarrow> http_step p p'"
| close: "live_binding p b \<Longrightarrow> close_locked b p = (d, p') \<Longrightarrow> http_step p p'"
| quiescent: "live_binding p b \<Longrightarrow> quiescent_settle q b p = (r, p') \<Longrightarrow> http_step p p'"
| destroy: "live_binding p b \<Longrightarrow> bd_state (http_binding_at p b) = SCXML_CHTTP_BINDING_QUIESCENT \<Longrightarrow>
    destroy_locked b p = (st, p') \<Longrightarrow> http_step p p'"
| reserve: "live_binding p b \<Longrightarrow> prepare_reserve b request p = (r, p') \<Longrightarrow> http_step p p'"
| copy: "i < egress_capacity p \<Longrightarrow> hr_state (hp_rows p ! i) = SCXML_CHTTP_EGRESS_RESERVED \<Longrightarrow>
    http_step p (copy_target i resolved p)"
| store: "i < egress_capacity p \<Longrightarrow> hr_state (hp_rows p ! i) = SCXML_CHTTP_EGRESS_RESERVED \<Longrightarrow>
    http_step p (store_body i encoded p)"
| abort: "i < egress_capacity p \<Longrightarrow> http_step p (abort_reserved i p)"
| finish: "i < egress_capacity p \<Longrightarrow> live_binding p b \<Longrightarrow> prepare_finish b i p = (st, t, p') \<Longrightarrow> http_step p p'"
| commit: "i < egress_capacity p \<Longrightarrow>
    (\<And>b. hr_binding (hp_rows p ! i) = Some b \<Longrightarrow> bd_next_commit_sequence (http_binding_at p b) \<noteq> UINT64_MAX) \<Longrightarrow>
    http_step p (egress_commit now i p)"
| discard: "i < egress_capacity p \<Longrightarrow> http_step p (egress_discard i p)"
| prepare_cancel: "live_binding p b \<Longrightarrow> scxml_chttp_egress_prepare_cancel b send_id p = (st, t, handled, p') \<Longrightarrow>
    http_step p p'"
| cancel_commit: "k < length (hp_cancel_tickets p) \<Longrightarrow> http_step p (http_cancel_commit k p)"
| cancel_discard: "k < length (hp_cancel_tickets p) \<Longrightarrow> http_step p (http_cancel_discard k p)"
| submit_claim: "submit_claim now p = Some (post, p') \<Longrightarrow> http_step p p'"
| submit_settle: "i < egress_capacity p \<Longrightarrow> submit_settle i status request p = (r, p') \<Longrightarrow> http_step p p'"
| complete_begin: "i < egress_capacity p \<Longrightarrow> complete_begin outcome i p = (report, p') \<Longrightarrow> http_step p p'"
| complete_end: "i < egress_capacity p \<Longrightarrow> http_step p (complete_end i p)"
| cancel_pick: "cancel_pick p = (r, p') \<Longrightarrow> http_step p p'"
| cancel_unknown: "i < egress_capacity p \<Longrightarrow> http_step p (cancel_unknown i request p)"
| cancel_retry: "i < egress_capacity p \<Longrightarrow> http_step p (cancel_retry i request status p)"
| poll_failure: "http_step p (invariant_failure p)"
| ingress_count: "http_step p (ingress_count p)"
| ingress_reject: "http_step p (ingress_reject p)"
| ingress_enter: "ingress_enter endpoint p = (r, p') \<Longrightarrow> http_step p p'"
| ingress_leave: "live_binding p b \<Longrightarrow> http_step p (ingress_leave status b p)"

inductive http_steps :: "http_processor \<Rightarrow> http_processor \<Rightarrow> bool" where
  refl: "http_steps p p"
| step: "http_steps p q \<Longrightarrow> http_step q r \<Longrightarrow> http_steps p r"

inductive http_reachable :: "http_processor \<Rightarrow> bool" where
  init: "http_reachable (fresh_http_processor cfg)"
| step: "http_reachable p \<Longrightarrow> http_step p p' \<Longrightarrow> http_reachable p'"

lemma http_step_inv: "http_step p p' \<Longrightarrow> http_inv p \<Longrightarrow> http_inv p'"
proof (induction rule: http_step.induct)
  case (start p)
  then show ?case by (simp add: start_publish_def http_inv_statistics)
next
  case (stop active p st p')
  then show ?case by (auto simp: stop_begin_def http_inv_statistics split: if_splits)
next
  case (stopped p)
  then show ?case by (simp add: http_inv_statistics)
next
  case (init asize uuid alloc_ok formatted adapter decode_set p st b p')
  then show ?case using binding_init_inv by blast
next
  case (activate p b session program st p')
  then show ?case using activate_locked_inv by blast
next
  case (close p b d p')
  then show ?case using close_locked_inv by blast
next
  case (quiescent p b q r p')
  then show ?case using quiescent_settle_inv by blast
next
  case (destroy p b st p')
  then show ?case using destroy_locked_inv by blast
next
  case (reserve p b request r p')
  then show ?case using http_reserve_inv by blast
next
  case (copy i p resolved)
  then show ?case unfolding copy_target_def by (intro upd_row_inv) simp_all
next
  case (store i p encoded)
  then show ?case unfolding store_body_def by (intro upd_row_inv) simp_all
next
  case (commit i p now)
  then show ?case using http_commit_inv by blast
next
  case (cancel_unknown i p request)
  then show ?case by (simp add: cancel_unknown_inv)
next
  case (submit_claim now p post p')
  then show ?case using submit_claim_inv by blast
next
  case (submit_settle i p status request r p')
  then show ?case using submit_settle_inv by blast
next
  case (complete_begin i p outcome report p')
  then show ?case using complete_begin_inv by blast
next
  case (cancel_pick p r p')
  then show ?case using cancel_pick_inv by blast
next
  case (finish i p b st t p')
  then show ?case using prepare_finish_inv by blast
next
  case (prepare_cancel p b send_id st t handled p')
  then show ?case using http_prepare_cancel_inv by blast
next
  case (ingress_enter endpoint p r p')
  then show ?case using ingress_enter_inv by blast
qed (simp_all add: abort_reserved_inv egress_discard_inv http_cancel_commit_inv http_cancel_discard_inv
    complete_end_inv cancel_retry_inv ingress_count_def ingress_reject_def http_inv_statistics ingress_leave_inv)

lemma http_reachable_inv: "http_reachable p \<Longrightarrow> http_inv p"
  by (induction rule: http_reachable.induct) (auto intro: fresh_http_inv http_step_inv)

lemma http_steps_reachable: "http_steps p p' \<Longrightarrow> http_reachable p \<Longrightarrow> http_reachable p'"
  by (induction rule: http_steps.induct) (auto intro: http_reachable.step)

section \<open>How a row evolves\<close>

text \<open>
  Under one step a row keeps its generation, and then its binding and send id until it is
  freed, or it is reserved again and gets the next generation.
\<close>

definition keeps_row :: "http_row \<Rightarrow> http_row \<Rightarrow> bool" where
  "keeps_row x y \<longleftrightarrow> hr_generation y = hr_generation x \<and>
     (hr_state y = SCXML_CHTTP_EGRESS_FREE \<or>
      hr_state x \<noteq> SCXML_CHTTP_EGRESS_FREE \<and> hr_binding y = hr_binding x \<and> hr_send_id y = hr_send_id x)"

definition reuses_row :: "http_row \<Rightarrow> http_row \<Rightarrow> bool" where
  "reuses_row x y \<longleftrightarrow> hr_state x = SCXML_CHTTP_EGRESS_FREE \<and> hr_generation y = next_generation (hr_generation x)"

definition keeps_rows :: "http_processor \<Rightarrow> http_processor \<Rightarrow> bool" where
  "keeps_rows p p' \<longleftrightarrow> egress_capacity p' = egress_capacity p \<and>
     (\<forall>i<egress_capacity p. keeps_row (hp_rows p ! i) (hp_rows p' ! i))"

lemma keeps_row_refl [simp]: "keeps_row x x"
  by (auto simp: keeps_row_def)

lemma keeps_row_cleared [simp]: "keeps_row x (cleared_row x)"
  by (simp add: keeps_row_def)

lemma keeps_rows_same: "hp_rows p' = hp_rows p \<Longrightarrow> keeps_rows p p'"
  by (simp add: keeps_rows_def)

lemma keeps_rows_update:
  "hp_rows p' = (hp_rows p)[j := y] \<Longrightarrow> keeps_row (hp_rows p ! j) y \<Longrightarrow> keeps_rows p p'"
  by (simp add: keeps_rows_def nth_update_cases)

lemma keeps_rows_trans: "keeps_rows p q \<Longrightarrow> keeps_rows q r \<Longrightarrow> keeps_rows p r"
  by (fastforce simp: keeps_rows_def keeps_row_def)

lemma upd_row_keeps:
  "hr_state (hp_rows p ! j) \<noteq> SCXML_CHTTP_EGRESS_FREE \<Longrightarrow> (\<And>x. hr_binding (f x) = hr_binding x) \<Longrightarrow>
   (\<And>x. hr_generation (f x) = hr_generation x) \<Longrightarrow> (\<And>x. hr_send_id (f x) = hr_send_id x) \<Longrightarrow>
   keeps_rows p (upd_row j f p)"
  by (rule keeps_rows_update) (auto simp: upd_row_def keeps_row_def)

lemma reset_row_keeps: "keeps_rows p (reset_row_locked j p)"
  by (rule keeps_rows_update) auto

lemma release_queued_keeps: "keeps_rows p (release_queued j p)"
  by (rule keeps_rows_update) auto

lemma cancel_or_mark_keeps: "keeps_rows p (cancel_or_mark j p)"
proof -
  have "keeps_rows p (release_queued j (p\<lparr>hp_egress_cancelled := a\<rparr>))" for a
    by (rule keeps_rows_update) auto
  moreover have "in_client (hr_state (hp_rows p ! j)) \<Longrightarrow> keeps_rows p (upd_row j (\<lambda>row. row\<lparr>hr_cancel_requested := True\<rparr>) p)"
    by (rule upd_row_keeps) (auto simp: in_client_def)
  ultimately show ?thesis by (simp add: cancel_or_mark_def keeps_rows_same)
qed

lemma fold_close_keeps: "keeps_rows p (fold (close_row b) js p)"
proof (induction js arbitrary: p)
  case (Cons j js)
  have "keeps_rows p (close_row b j p)" by (simp add: close_row_def cancel_or_mark_keeps keeps_rows_same)
  with Cons.IH [of "close_row b j p"] show ?case by (auto intro: keeps_rows_trans)
qed (simp add: keeps_rows_same)

lemma hp_rows_frame [simp]:
  "hp_rows (upd_binding b f p) = hp_rows p" "hp_rows (invariant_failure p) = hp_rows p"
  "hp_rows (count_outcome outcome p) = hp_rows p"
  by (simp_all add: upd_binding_def invariant_failure_def count_outcome_def split: http_outcome.split)

lemma close_locked_keeps: "close_locked b p = (d, p') \<Longrightarrow> keeps_rows p p'"
proof -
  assume run: "close_locked b p = (d, p')"
  let ?q = "upd_binding b (\<lambda>bd. bd\<lparr>bd_state := SCXML_CHTTP_BINDING_CLOSING\<rparr>) p"
  have "keeps_rows p ?q" by (simp add: keeps_rows_same)
  then have "keeps_rows p (scxml_chttp_egress_close_binding_locked b ?q)"
    unfolding scxml_chttp_egress_close_binding_locked_def using fold_close_keeps keeps_rows_trans by blast
  moreover have "keeps_rows p q \<Longrightarrow> keeps_rows p (upd_binding b f q)" for q f
    by (simp add: keeps_rows_def)
  ultimately show ?thesis using run
    by (auto simp: close_locked_def Let_def keeps_rows_same split: if_splits)
qed

lemma reserve_reuses:
  assumes "prepare_reserve b request p = (r, p')"
  shows "keeps_rows p p' \<or> (\<exists>j y. j < egress_capacity p \<and> hp_rows p' = (hp_rows p)[j := y] \<and> reuses_row (hp_rows p ! j) y)"
proof (cases r)
  case (Inl st)
  then have "p' = p" using assms by (auto simp: prepare_reserve_def split: if_splits option.splits)
  then show ?thesis by (simp add: keeps_rows_same)
next
  case (Inr j)
  let ?y = "(hp_rows p ! j)\<lparr>hr_generation := next_generation (hr_generation (hp_rows p ! j)),
    hr_state := SCXML_CHTTP_EGRESS_RESERVED, hr_binding := Some b, hr_delay_ms := sr_delay_ms request,
    hr_send_id := cdata (sr_id request)\<rparr>"
  from Inr assms have first: "first_index (\<lambda>row. hr_state row = SCXML_CHTTP_EGRESS_FREE) (hp_rows p) = Some j"
    and rows: "hp_rows p' = (hp_rows p)[j := ?y]"
    by (auto simp: prepare_reserve_def upd_row_def upd_binding_def split: if_splits option.splits)
  from first_index_SomeD [OF first] have "j < egress_capacity p" "reuses_row (hp_rows p ! j) ?y"
    by (auto simp: reuses_row_def)
  with rows show ?thesis by blast
qed

lemma commit_keeps: "keeps_rows p (egress_commit now j p)"
proof (cases "hr_binding (hp_rows p ! j)")
  case None
  then show ?thesis by (simp add: egress_commit_def keeps_rows_same)
next
  case (Some b)
  have "keeps_rows p (upd_row j (\<lambda>row. row\<lparr>hr_state := SCXML_CHTTP_EGRESS_READY, hr_commit_sequence := n,
      hr_due_ms := due_time now (hr_delay_ms row)\<rparr>) (upd_binding b g p))"
    if "hr_state (hp_rows p ! j) = SCXML_CHTTP_EGRESS_RESERVED" for n g
    by (rule keeps_rows_update) (use that in \<open>auto simp: upd_row_def keeps_row_def\<close>)
  then show ?thesis using Some
    by (simp add: egress_commit_def Let_def keeps_rows_same release_queued_keeps)
qed

lemma cancel_commit_keeps: "keeps_rows p (http_cancel_commit k p)"
proof -
  have "keeps_rows p (cancel_or_mark j (p\<lparr>hp_cancel_tickets := ts\<rparr>))" for j ts
    by (rule keeps_rows_trans [OF _ cancel_or_mark_keeps]) (simp add: keeps_rows_same)
  then show ?thesis by (auto simp: http_cancel_commit_def Let_def keeps_rows_same)
qed

lemma submit_claim_keeps: "submit_claim now p = Some (post, p') \<Longrightarrow> keeps_rows p p'"
proof -
  assume run: "submit_claim now p = Some (post, p')"
  then obtain i where i: "select_ready_locked p now = Some i"
    "hp_rows p' = (hp_rows p)[i := (hp_rows p ! i)\<lparr>hr_state := SCXML_CHTTP_EGRESS_SUBMITTING\<rparr>]"
    by (auto simp: submit_claim_def Let_def upd_row_def split: option.splits)
  from select_ready_SomeD [OF i(1)] have "hr_state (hp_rows p ! i) = SCXML_CHTTP_EGRESS_READY"
    by (simp add: submittable_def)
  then show ?thesis using i(2) by (auto simp: keeps_row_def intro: keeps_rows_update)
qed

lemma submit_settle_keeps: "submit_settle j status request p = (r, p') \<Longrightarrow> keeps_rows p p'"
proof -
  assume run: "submit_settle j status request p = (r, p')"
  have "hp_rows p' = hp_rows p \<or> hr_state (hp_rows p ! j) = SCXML_CHTTP_EGRESS_SUBMITTING \<and>
      (\<exists>y. hp_rows p' = (hp_rows p)[j := y] \<and> keeps_row (hp_rows p ! j) y)"
    using run by (auto simp: submit_settle_def upd_row_def keeps_row_def split: if_splits)
  then show ?thesis by (auto intro: keeps_rows_same keeps_rows_update)
qed

lemma complete_begin_keeps: "complete_begin outcome j p = (r, p') \<Longrightarrow> keeps_rows p p'"
proof -
  assume run: "complete_begin outcome j p = (r, p')"
  have "hp_rows p' = hp_rows p \<or>
      (\<exists>y. hp_rows p' = (hp_rows p)[j := y] \<and> keeps_row (hp_rows p ! j) y)"
    using run by (auto simp: complete_begin_def Let_def upd_row_def keeps_row_def in_client_def split: if_splits option.splits)
  then show ?thesis by (auto intro: keeps_rows_same keeps_rows_update)
qed

lemma cancel_pick_keeps:
  assumes run: "cancel_pick p = (r, p')" shows "keeps_rows p p'"
proof (cases "first_index (\<lambda>row. hr_state row = SCXML_CHTTP_EGRESS_SUBMITTED \<and> hr_cancel_requested row) (hp_rows p)")
  case None
  with run show ?thesis by (simp add: cancel_pick_def keeps_rows_same)
next
  case (Some i)
  with run have p': "p' = upd_row i (\<lambda>row. row\<lparr>hr_cancel_requested := False\<rparr>) p" by (simp add: cancel_pick_def)
  show ?thesis unfolding p' by (rule upd_row_keeps) (use first_index_SomeD [OF Some] in auto)
qed

lemma cancel_retry_keeps: "keeps_rows p (cancel_retry j request status p)"
proof -
  have "still_submitted j request p \<Longrightarrow> keeps_rows p (upd_row j (\<lambda>row. row\<lparr>hr_cancel_requested := True\<rparr>) p)"
    by (rule upd_row_keeps) (auto simp: still_submitted_def)
  then show ?thesis by (auto simp: cancel_retry_def Let_def keeps_rows_def)
qed

lemma prepare_finish_keeps: "prepare_finish b j p = (st, t, p') \<Longrightarrow> keeps_rows p p'"
  by (auto simp: prepare_finish_def release_queued_keeps keeps_rows_same split: if_splits)

lemma table_ops_keep:
  "scxml_chttp_binding_init asize uuid alloc_ok formatted adapter decode_set p = (st, b, p') \<Longrightarrow> keeps_rows p p'"
  "activate_locked c session program p = (st, p') \<Longrightarrow> keeps_rows p p'"
  "quiescent_settle q c p = (r, p') \<Longrightarrow> keeps_rows p p'"
  "destroy_locked c p = (st, p') \<Longrightarrow> keeps_rows p p'"
  "stop_begin active p = (st, p') \<Longrightarrow> keeps_rows p p'"
  "scxml_chttp_egress_prepare_cancel c send_id p = (ast, t, handled, p') \<Longrightarrow> keeps_rows p p'"
  "ingress_enter endpoint p = (ir, p') \<Longrightarrow> keeps_rows p p'"
  by (auto simp: scxml_chttp_binding_init_def activate_locked_def quiescent_settle_def destroy_locked_def
      stop_begin_def scxml_chttp_egress_prepare_cancel_def ingress_enter_def Let_def
      split: if_splits option.splits prod.splits intro!: keeps_rows_same)

lemma http_step_rows:
  assumes "http_step p p'"
  shows "keeps_rows p p' \<or> (\<exists>j y. j < egress_capacity p \<and> hp_rows p' = (hp_rows p)[j := y] \<and> reuses_row (hp_rows p ! j) y)"
  using assms
proof cases
  case (reserve b request r)
  then show ?thesis using reserve_reuses by blast
next
  case (copy i resolved)
  then have "keeps_rows p p'" unfolding copy_target_def by (simp add: upd_row_keeps)
  then show ?thesis ..
next
  case (store i encoded)
  then have "keeps_rows p p'" unfolding store_body_def by (simp add: upd_row_keeps)
  then show ?thesis ..
next
  case (cancel_unknown i request)
  then have "keeps_rows p p'" by (simp add: cancel_unknown_def keeps_rows_same)
  then show ?thesis ..
next
  case (complete_end i)
  then have "keeps_rows p p'" by (simp add: complete_end_def keeps_rows_same reset_row_keeps)
  then show ?thesis ..
next
  case (abort i)
  then have "keeps_rows p p'" by (simp add: abort_reserved_def keeps_rows_same release_queued_keeps)
  then show ?thesis ..
next
  case (discard i)
  then have "keeps_rows p p'" by (simp add: egress_discard_def keeps_rows_same release_queued_keeps)
  then show ?thesis ..
next
  case (ingress_leave b status)
  then have "keeps_rows p p'" by (intro keeps_rows_same) (simp add: ingress_leave_def Let_def ingress_reject_def)
  then show ?thesis ..
qed (auto simp: start_publish_def http_cancel_discard_def Let_def ingress_count_def ingress_reject_def
    keeps_rows_same commit_keeps cancel_commit_keeps cancel_retry_keeps
    dest: table_ops_keep close_locked_keeps prepare_finish_keeps submit_claim_keeps submit_settle_keeps
      complete_begin_keeps cancel_pick_keeps)

section \<open>Generations\<close>

text \<open>The generation runs through the non-zero 32-bit numbers, so it comes back after \<open>2 ^ 32 - 1\<close> reservations.\<close>

lemma next_generation_unat:
  assumes "g \<noteq> 0" shows "unat (next_generation g) = unat g mod 4294967295 + 1"
proof (cases "g = UINT32_MAX")
  case True
  then show ?thesis by (simp add: next_generation_def unat_UINT32_MAX)
next
  case False
  then have "unat g \<noteq> unat UINT32_MAX" by (simp add: unat_arith_simps)
  moreover have "unat g \<le> unat UINT32_MAX" using word_order.extremum [of g] by (simp add: word_le_nat_alt)
  ultimately have "unat g < 4294967295" unfolding unat_UINT32_MAX by simp
  with False unat_Suc_guard [OF False] Suc_guard_nonzero [OF False] show ?thesis
    by (simp add: next_generation_def)
qed

lemma next_generation_nonzero: "next_generation g \<noteq> 0"
  by (auto simp: next_generation_def)

lemma generation_after:
  assumes "g \<noteq> 0"
  shows "unat ((next_generation ^^ n) g) = (unat g - 1 + n) mod 4294967295 + 1 \<and> (next_generation ^^ n) g \<noteq> 0"
proof (induction n)
  case 0
  have "unat g \<le> unat UINT32_MAX" using word_order.extremum [of g] by (simp add: word_le_nat_alt)
  then have "unat g \<le> 4294967295" by (simp only: unat_UINT32_MAX)
  moreover have "0 < unat g" using assms by (simp add: unat_gt_0)
  ultimately show ?case using assms by simp
next
  case (Suc n)
  then have "unat (next_generation ((next_generation ^^ n) g)) = ((unat g - 1 + n) mod 4294967295 + 1) mod 4294967295 + 1"
    by (simp add: next_generation_unat)
  then show ?case using next_generation_nonzero by (simp add: mod_simps)
qed

lemma generation_cycle:
  assumes "g \<noteq> 0" "0 < n" "n < 4294967295" shows "(next_generation ^^ n) g \<noteq> g"
proof
  assume eq: "(next_generation ^^ n) g = g"
  define u where "u = unat g - 1"
  have g: "unat g = (u + n) mod 4294967295 + 1"
    using generation_after [OF assms(1), of n] eq unfolding u_def by metis
  then have "(u + n) mod 4294967295 = u" unfolding u_def by linarith
  moreover from this have "u < 4294967295" by (metis mod_less_divisor zero_less_numeral)
  ultimately have "(u + n) mod 4294967295 = u mod 4294967295" by simp
  then have "4294967295 dvd n" by (metis add_diff_cancel_left' mod_eq_dvd_iff_nat le_add1)
  with assms(2,3) show False by (auto dest: dvd_imp_le)
qed

text \<open>Runs that count how often one row is reserved again.\<close>

inductive http_reuses :: "nat \<Rightarrow> nat \<Rightarrow> http_processor \<Rightarrow> http_processor \<Rightarrow> bool" for i where
  refl: "http_reuses i 0 p p"
| keep: "http_reuses i n p q \<Longrightarrow> http_step q r \<Longrightarrow> hr_generation (hp_rows r ! i) = hr_generation (hp_rows q ! i) \<Longrightarrow>
    http_reuses i n p r"
| reuse: "http_reuses i n p q \<Longrightarrow> http_step q r \<Longrightarrow> hr_generation (hp_rows r ! i) \<noteq> hr_generation (hp_rows q ! i) \<Longrightarrow>
    http_reuses i (Suc n) p r"

lemma step_row_cases:
  assumes "http_step q r" "i < egress_capacity q"
  shows "egress_capacity r = egress_capacity q \<and>
    (keeps_row (hp_rows q ! i) (hp_rows r ! i) \<or>
     hr_state (hp_rows q ! i) = SCXML_CHTTP_EGRESS_FREE \<and>
     hr_generation (hp_rows r ! i) = next_generation (hr_generation (hp_rows q ! i)))"
  using http_step_rows [OF assms(1)]
proof
  assume "keeps_rows q r"
  then show ?thesis using assms(2) by (auto simp: keeps_rows_def)
next
  assume "\<exists>j y. j < egress_capacity q \<and> hp_rows r = (hp_rows q)[j := y] \<and> reuses_row (hp_rows q ! j) y"
  then obtain j y where j: "j < egress_capacity q" "hp_rows r = (hp_rows q)[j := y]" "reuses_row (hp_rows q ! j) y"
    by blast
  show ?thesis
  proof (cases "j = i")
    case True
    with j show ?thesis by (simp add: reuses_row_def)
  next
    case False
    with j show ?thesis by simp
  qed
qed

lemma next_generation_neq: "next_generation g \<noteq> g"
proof (cases "g = 0")
  case False
  then show ?thesis using generation_cycle [of g 1] by simp
qed (simp add: next_generation_def)

lemma http_reuses_row:
  assumes "http_reuses i n p q" "i < egress_capacity p"
  shows "egress_capacity q = egress_capacity p \<and>
    hr_generation (hp_rows q ! i) = (next_generation ^^ n) (hr_generation (hp_rows p ! i)) \<and>
    (n = 0 \<longrightarrow> keeps_row (hp_rows p ! i) (hp_rows q ! i))"
  using assms
proof (induction rule: http_reuses.induct)
  case (refl p)
  then show ?case by simp
next
  case (keep n p q r)
  then have i: "i < egress_capacity q" by simp
  have "keeps_row (hp_rows q ! i) (hp_rows r ! i)"
    using step_row_cases [OF keep.hyps(2) i] keep.hyps(3) next_generation_neq by metis
  then show ?case using keep step_row_cases [OF keep.hyps(2) i] by (auto simp: keeps_row_def)
next
  case (reuse n p q r)
  then have i: "i < egress_capacity q" by simp
  from step_row_cases [OF reuse.hyps(2) i] reuse.hyps(3)
  have "hr_generation (hp_rows r ! i) = next_generation (hr_generation (hp_rows q ! i))" "egress_capacity r = egress_capacity q"
    by (auto simp: keeps_row_def)
  with reuse show ?case by simp
qed

section \<open>Properties\<close>

text \<open>
  Property (C26). Accounting of the BasicHTTP processor: in every reachable state, whatever the interleaving of
  executors, worker and server threads, the queue and in-flight counters are the numbers of
  such rows, the reference count of every binding is the number of its rows, the number of
  live bindings is the number of occupied endpoints, and no row points to a freed binding.
\<close>

theorem http_accounting:
  assumes "http_reachable p"
  shows "hp_queued_egress p = count_if (\<lambda>row. hr_state row = SCXML_CHTTP_EGRESS_RESERVED \<or>
      hr_state row = SCXML_CHTTP_EGRESS_READY) (hp_rows p) \<and>
    hp_in_flight_egress p = count_if (\<lambda>row. hr_state row = SCXML_CHTTP_EGRESS_SUBMITTING \<or>
      hr_state row = SCXML_CHTTP_EGRESS_SUBMITTED) (hp_rows p) \<and>
    hp_live_bindings p = count_if (\<lambda>ep. ep_binding ep \<noteq> None) (hp_endpoints p) \<and>
    (\<forall>row\<in>set (hp_rows p). hr_state row \<noteq> SCXML_CHTTP_EGRESS_FREE \<longrightarrow>
       (\<exists>b. hr_binding row = Some b \<and> live_binding p b)) \<and>
    (\<forall>b. live_binding p b \<longrightarrow> bd_outbound_references (http_binding_at p b) =
       count_if (\<lambda>row. hr_binding row = Some b) (hp_rows p))"
proof -
  have inv: "http_inv p" using assms by (rule http_reachable_inv)
  have kinds: "queued_row = (\<lambda>row. hr_state row = SCXML_CHTTP_EGRESS_RESERVED \<or> hr_state row = SCXML_CHTTP_EGRESS_READY)"
    "client_row = (\<lambda>row. hr_state row = SCXML_CHTTP_EGRESS_SUBMITTING \<or> hr_state row = SCXML_CHTTP_EGRESS_SUBMITTED)"
    by (auto simp: http_state_defs)
  have "\<exists>b. hr_binding row = Some b \<and> live_binding p b"
    if "row \<in> set (hp_rows p)" "hr_state row \<noteq> SCXML_CHTTP_EGRESS_FREE" for row
    using that live_rowE [OF inv] by (metis in_set_conv_nth)
  moreover have "bd_outbound_references (http_binding_at p b) = count_if (\<lambda>row. hr_binding row = Some b) (hp_rows p)"
    if "live_binding p b" for b
  proof -
    have "holds_binding b = (\<lambda>row. hr_binding row = Some b)" by (auto simp: holds_binding_def)
    with that http_invD(1) [OF inv] show ?thesis
      by (auto simp: http_rows_ok_def live_binding_def http_binding_at_def)
  qed
  ultimately show ?thesis using http_invD(4,5,6) [OF inv] unfolding kinds by blast
qed

text \<open>
  Property (C27). Requests of one Session leave one at a time and in commit order: in every reachable state,
  a row that is being submitted, runs or is being completed has an earlier commit number than
  every other committed row of its binding, so no two requests of a binding overlap. The row
  that the worker selects is due, belongs to an active binding, is the earliest committed one of its
  binding, and is due no later than any other row that could be sent; the worker idles only
  when there is no such row.
\<close>

theorem http_commit_order:
  assumes "http_reachable p" "i < egress_capacity p" "j < egress_capacity p" "i \<noteq> j"
    and "hr_binding (hp_rows p ! i) = hr_binding (hp_rows p ! j)"
    and "committed_state (hr_state (hp_rows p ! i))" "committed_state (hr_state (hp_rows p ! j))"
  shows "hr_commit_sequence (hp_rows p ! i) \<noteq> hr_commit_sequence (hp_rows p ! j) \<and>
    (hr_state (hp_rows p ! i) \<noteq> SCXML_CHTTP_EGRESS_READY \<longrightarrow>
       hr_state (hp_rows p ! j) = SCXML_CHTTP_EGRESS_READY \<and>
       hr_commit_sequence (hp_rows p ! i) < hr_commit_sequence (hp_rows p ! j)) \<and>
    (select_ready_locked p now = Some i \<longrightarrow>
       hr_state (hp_rows p ! i) = SCXML_CHTTP_EGRESS_READY \<and> hr_due_ms (hp_rows p ! i) \<le> now \<and>
       bd_state (http_binding_at p (the (hr_binding (hp_rows p ! i)))) = SCXML_CHTTP_BINDING_ACTIVE \<and>
       hr_state (hp_rows p ! j) = SCXML_CHTTP_EGRESS_READY \<and>
       hr_commit_sequence (hp_rows p ! i) < hr_commit_sequence (hp_rows p ! j) \<and>
       (\<forall>k<egress_capacity p. submittable p now k \<longrightarrow> hr_due_ms (hp_rows p ! i) \<le> hr_due_ms (hp_rows p ! k))) \<and>
    (select_ready_locked p now = None \<longleftrightarrow> (\<forall>k<egress_capacity p. \<not> submittable p now k))"
proof -
  have inv: "http_inv p" using assms(1) by (rule http_reachable_inv)
  have com: "committed_row (hp_rows p ! i)" "committed_row (hp_rows p ! j)"
    using assms(6,7) by (simp_all add: committed_row_def)
  have act: "active_row (hp_rows p ! k) \<longleftrightarrow> hr_state (hp_rows p ! k) \<noteq> SCXML_CHTTP_EGRESS_READY"
    if "committed_row (hp_rows p ! k)" for k
    using that by (cases "hr_state (hp_rows p ! k)") (auto simp: http_state_defs)
  have "precedes (hp_rows p ! i) (hp_rows p ! j)" "precedes (hp_rows p ! j) (hp_rows p ! i)"
    using http_invD(1) [OF inv] assms(2-4) by (auto simp: http_rows_ok_def)
  then have ne: "hr_commit_sequence (hp_rows p ! i) \<noteq> hr_commit_sequence (hp_rows p ! j)"
    and ij: "active_row (hp_rows p ! i) \<longrightarrow> hr_commit_sequence (hp_rows p ! i) < hr_commit_sequence (hp_rows p ! j)"
    and ji: "active_row (hp_rows p ! j) \<longrightarrow> hr_commit_sequence (hp_rows p ! j) < hr_commit_sequence (hp_rows p ! i)"
    using assms(5) com by (auto simp: precedes_def)
  have serial: "hr_state (hp_rows p ! j) = SCXML_CHTTP_EGRESS_READY"
    if "hr_commit_sequence (hp_rows p ! i) < hr_commit_sequence (hp_rows p ! j)"
    using ji act [OF com(2)] that less_asym by blast
  have sel: "submittable p now i \<and> hr_commit_sequence (hp_rows p ! i) < hr_commit_sequence (hp_rows p ! j) \<and>
      (\<forall>k<egress_capacity p. submittable p now k \<longrightarrow> hr_due_ms (hp_rows p ! i) \<le> hr_due_ms (hp_rows p ! k))"
    if "select_ready_locked p now = Some i"
    using select_ready_SomeD [OF that] submittable_first [of p now i j] assms(3-5) com(2) ne
    by (metis le_neq_trans)
  show ?thesis
    using ne ij serial act [OF com(1)] sel select_ready_None_iff by (auto simp: submittable_def)
qed

text \<open>
  Property (C28). A cancellation ticket reaches exactly the send it was prepared for: however many steps pass
  until it commits, as long as its row is reserved again fewer than \<open>2 ^ 32 - 1\<close> times, it frees
  the row if the send still waits, marks it if the client has the request, and changes no row
  otherwise, in particular not when the row was released and serves another send.
\<close>

theorem http_cancel_ticket_exact:
  assumes "http_reachable p" "scxml_chttp_egress_prepare_cancel b send_id p = (st, Some k, handled, p1)"
    and "i = ct_target_index (hp_cancel_tickets p1 ! k)"
    and "http_reuses i n p1 p2" "n < 2 ^ 32 - 1" "hp_cancel_tickets p2 ! k = hp_cancel_tickets p1 ! k"
  shows "hr_binding (hp_rows p ! i) = Some b \<and> hr_send_id (hp_rows p ! i) = cdata send_id \<and>
    (n = 0 \<and> hr_state (hp_rows p2 ! i) \<noteq> SCXML_CHTTP_EGRESS_FREE \<longrightarrow>
       hr_binding (hp_rows p2 ! i) = Some b \<and> hr_send_id (hp_rows p2 ! i) = cdata send_id) \<and>
    hp_rows (http_cancel_commit k p2) =
      (if n = 0 \<and> hr_state (hp_rows p2 ! i) = SCXML_CHTTP_EGRESS_READY
       then (hp_rows p2)[i := cleared_row (hp_rows p2 ! i)]
       else if n = 0 \<and> in_client (hr_state (hp_rows p2 ! i))
       then (hp_rows p2)[i := (hp_rows p2 ! i)\<lparr>hr_cancel_requested := True\<rparr>]
       else hp_rows p2)"
proof -
  have inv: "http_inv p" using assms(1) by (rule http_reachable_inv)
  obtain i' where target: "first_index (http_cancel_target b (cdata send_id)) (hp_rows p) = Some i'"
    and ticket: "hp_cancel_tickets p1 ! k = \<lparr>ct_target_index = i', ct_target_generation = hr_generation (hp_rows p ! i'),
      ct_reserved = True\<rparr>" and rows: "hp_rows p1 = hp_rows p"
    using assms(2)
    by (auto simp: scxml_chttp_egress_prepare_cancel_def dest: first_index_SomeD split: if_splits option.splits)
  then have i': "i' = i" using assms(3) by simp
  from first_index_SomeD [OF target] i' have i: "i < egress_capacity p" "hr_binding (hp_rows p ! i) = Some b"
    "hr_send_id (hp_rows p ! i) = cdata send_id" "hr_state (hp_rows p ! i) \<noteq> SCXML_CHTTP_EGRESS_FREE"
    by (auto simp: http_cancel_target_def)
  have gen: "hr_generation (hp_rows p ! i) \<noteq> 0"
    using http_inv_row_ok [OF inv i(1)] i(2) by (simp add: http_row_ok_def)
  from http_reuses_row [OF assms(4)] i(1) rows have q: "egress_capacity p2 = egress_capacity p"
    "hr_generation (hp_rows p2 ! i) = (next_generation ^^ n) (hr_generation (hp_rows p ! i))"
    "n = 0 \<longrightarrow> keeps_row (hp_rows p ! i) (hp_rows p2 ! i)" by auto
  have same: "hr_generation (hp_rows p2 ! i) = hr_generation (hp_rows p ! i) \<longleftrightarrow> n = 0"
    using q(2) generation_cycle [OF gen, of n] assms(5) by auto
  have "hp_rows (http_cancel_commit k p2) =
      (if n \<noteq> 0 then hp_rows p2 else hp_rows (cancel_or_mark i p2))"
    using assms(6) ticket i' i(1) q(1) same
    by (simp add: http_cancel_commit_def Let_def cancel_or_mark_def upd_row_def)
  moreover have "hp_rows (cancel_or_mark i p2) =
      (if hr_state (hp_rows p2 ! i) = SCXML_CHTTP_EGRESS_READY then (hp_rows p2)[i := cleared_row (hp_rows p2 ! i)]
       else if in_client (hr_state (hp_rows p2 ! i))
       then (hp_rows p2)[i := (hp_rows p2 ! i)\<lparr>hr_cancel_requested := True\<rparr>] else hp_rows p2)"
    by (simp add: cancel_or_mark_def upd_row_def)
  ultimately show ?thesis using i q(3) by (auto simp: keeps_row_def)
qed

section \<open>A row that nobody releases\<close>

text \<open>
  A waiting row of a closing binding, without a cancellation ticket: the worker submits only
  rows of active bindings, the cancellation loop looks only at submitted rows, and the close
  has already run.
\<close>

definition stranded :: "nat \<Rightarrow> nat \<Rightarrow> http_processor \<Rightarrow> bool" where
  "stranded b i p \<longleftrightarrow> live_binding p b \<and> bd_state (http_binding_at p b) = SCXML_CHTTP_BINDING_CLOSING \<and>
     i < egress_capacity p \<and> hr_state (hp_rows p ! i) = SCXML_CHTTP_EGRESS_READY \<and>
     hr_binding (hp_rows p ! i) = Some b \<and>
     (\<forall>t\<in>set (hp_cancel_tickets p). ct_reserved t \<longrightarrow>
        \<not> (ct_target_index t = i \<and> ct_target_generation t = hr_generation (hp_rows p ! i)))"

text \<open>What matters of a state for a stranded row.\<close>

definition same_fate :: "nat \<Rightarrow> nat \<Rightarrow> http_processor \<Rightarrow> http_processor \<Rightarrow> bool" where
  "same_fate b i p p' \<longleftrightarrow> (live_binding p b \<longrightarrow> live_binding p' b \<and>
       bd_state (http_binding_at p' b) = bd_state (http_binding_at p b)) \<and>
     egress_capacity p' = egress_capacity p \<and> hr_state (hp_rows p' ! i) = hr_state (hp_rows p ! i) \<and>
     hr_binding (hp_rows p' ! i) = hr_binding (hp_rows p ! i) \<and>
     hr_generation (hp_rows p' ! i) = hr_generation (hp_rows p ! i) \<and>
     hp_cancel_tickets p' = hp_cancel_tickets p"

lemma same_fate_refl [simp]: "same_fate b i p p"
  by (simp add: same_fate_def)

lemma same_fate_trans: "same_fate b i p q \<Longrightarrow> same_fate b i q r \<Longrightarrow> same_fate b i p r"
  by (simp add: same_fate_def)

lemma stranded_same_fate: "stranded b i p \<Longrightarrow> same_fate b i p p' \<Longrightarrow> stranded b i p'"
  by (simp add: stranded_def same_fate_def)

lemma same_fate_frame:
  "hp_bindings p' = hp_bindings p \<Longrightarrow> hp_rows p' = hp_rows p \<Longrightarrow> hp_cancel_tickets p' = hp_cancel_tickets p \<Longrightarrow>
   same_fate b i p p'"
  by (simp add: same_fate_def live_binding_def http_binding_at_def)

lemma same_fate_binding:
  assumes "c \<noteq> b \<or> (\<forall>bd. bd_state (f bd) = bd_state bd)" shows "same_fate b i p (upd_binding c f p)"
  using assms
  by (cases "c = b") (auto simp: same_fate_def live_binding_def http_binding_at_def upd_binding_def)

lemma same_fate_row:
  "j \<noteq> i \<or> (\<forall>x. hr_state (f x) = hr_state x \<and> hr_binding (f x) = hr_binding x \<and> hr_generation (f x) = hr_generation x)
   \<Longrightarrow> same_fate b i p (upd_row j f p)"
  by (cases "j < egress_capacity p")
     (auto simp: same_fate_def live_binding_def http_binding_at_def upd_row_def nth_list_update not_less
      list_update_beyond)

lemma same_fate_reset: "j \<noteq> i \<Longrightarrow> same_fate b i p (reset_row_locked j p)"
proof (cases "hr_binding (hp_rows p ! j)")
  case None
  then show "j \<noteq> i \<Longrightarrow> ?thesis" by (simp add: reset_row_locked_def same_fate_row)
next
  case (Some c)
  then show "j \<noteq> i \<Longrightarrow> ?thesis"
    unfolding reset_row_locked_def by (auto intro!: same_fate_trans [OF same_fate_binding same_fate_row])
qed

lemma same_fate_counters:
  "same_fate b i p (p\<lparr>hp_queued_egress := n\<rparr>)" "same_fate b i p (p\<lparr>hp_egress_cancelled := m\<rparr>)"
  "same_fate b i p (p\<lparr>hp_in_flight_egress := n\<rparr>)" "same_fate b i p (invariant_failure p)"
  "same_fate b i p (count_outcome outcome p)" "same_fate b i p (p\<lparr>hp_queued_egress := n, hp_in_flight_egress := k\<rparr>)"
  by (auto intro!: same_fate_frame simp: invariant_failure_def count_outcome_def split: http_outcome.split)

lemma same_fate_release: "j \<noteq> i \<Longrightarrow> same_fate b i p (release_queued j p)"
  unfolding release_queued_def by (rule same_fate_trans [OF same_fate_counters(1) same_fate_reset])

lemma same_fate_cancel_or_mark: "j \<noteq> i \<Longrightarrow> same_fate b i p (cancel_or_mark j p)"
  unfolding cancel_or_mark_def
  by (auto intro: same_fate_trans [OF same_fate_counters(2) same_fate_release] same_fate_row)

lemma same_fate_fold_close:
  "hr_binding (hp_rows p ! i) \<noteq> Some c \<Longrightarrow> same_fate b i p (fold (close_row c) js p)"
proof (induction js arbitrary: p)
  case (Cons j js)
  have "same_fate b i p (close_row c j p)"
    using Cons.prems by (cases "j = i") (auto simp: close_row_def same_fate_cancel_or_mark)
  with Cons.IH [of "close_row c j p"] Cons.prems show ?case
    by (auto simp: same_fate_def)
qed simp

lemma stranded_refs:
  assumes "http_inv p" "stranded b i p" shows "bd_outbound_references (http_binding_at p b) \<noteq> 0"
  using live_rowE [OF assms(1), of i] assms(2) unfolding stranded_def by fastforce

text \<open>The binding of a stranded row under the operations on bindings and endpoints.\<close>

lemma stranded_binding_ops:
  assumes inv: "http_inv p" and s: "stranded b i p"
  shows "scxml_chttp_binding_init asize uuid alloc_ok formatted adapter decode_set p = (st, nb, p') \<Longrightarrow> same_fate b i p p'"
    "activate_locked c session program p = (st, p') \<Longrightarrow> same_fate b i p p'"
    "quiescent_settle q c p = (r, p') \<Longrightarrow> same_fate b i p p'"
    "bd_state (http_binding_at p c) = SCXML_CHTTP_BINDING_QUIESCENT \<Longrightarrow> destroy_locked c p = (st, p') \<Longrightarrow> same_fate b i p p'"
    "close_locked c p = (d, p') \<Longrightarrow> same_fate b i p p'"
    "ingress_enter endpoint p = (ir, p') \<Longrightarrow> same_fate b i p p'"
    "same_fate b i p (ingress_leave status c p)"
proof -
  have b: "live_binding p b" "bd_state (http_binding_at p b) = SCXML_CHTTP_BINDING_CLOSING"
    "hr_binding (hp_rows p ! i) = Some b" using s by (auto simp: stranded_def)
  note refs = stranded_refs [OF inv s]
  show "same_fate b i p p'" if "scxml_chttp_binding_init asize uuid alloc_ok formatted adapter decode_set p = (st, nb, p')"
  proof -
    have "hp_rows p' = hp_rows p" "hp_cancel_tickets p' = hp_cancel_tickets p"
      "hp_bindings p' = hp_bindings p \<or> (\<exists>x. hp_bindings p' = hp_bindings p @ [x])"
      using that by (auto simp: scxml_chttp_binding_init_def Let_def split: if_splits option.splits prod.splits)
    then show ?thesis by (auto simp: same_fate_def live_binding_def http_binding_at_def nth_append)
  qed
  show "same_fate b i p p'" if "activate_locked c session program p = (st, p')"
    using that b(2) same_fate_binding [of c b]
    by (cases "c = b") (auto simp: activate_locked_def split: if_splits)
  show "same_fate b i p p'" if "quiescent_settle q c p = (r, p')"
    using that refs same_fate_binding [of c b]
    by (cases "c = b") (auto simp: quiescent_settle_def Let_def split: if_splits)
  show "same_fate b i p p'"
    if q: "bd_state (http_binding_at p c) = SCXML_CHTTP_BINDING_QUIESCENT" and run: "destroy_locked c p = (st, p')"
  proof -
    have "c \<noteq> b" using q b(2) by auto
    then have "hp_bindings p' ! b = hp_bindings p ! b" "hp_rows p' = hp_rows p" "hp_cancel_tickets p' = hp_cancel_tickets p"
      "length (hp_bindings p') = length (hp_bindings p)"
      using run by (auto simp: destroy_locked_def Let_def invariant_failure_def split: if_splits)
    then show ?thesis by (simp add: same_fate_def live_binding_def http_binding_at_def)
  qed
  show "same_fate b i p p'" if run: "close_locked c p = (d, p')"
  proof -
    let ?q = "if http_open p c then scxml_chttp_egress_close_binding_locked c
        (upd_binding c (\<lambda>bd. bd\<lparr>bd_state := SCXML_CHTTP_BINDING_CLOSING\<rparr>) p) else p"
    have "same_fate b i p ?q"
    proof (cases "http_open p c")
      case True
      then have "c \<noteq> b" using b(2) by (auto simp: http_open_def)
      then have "same_fate b i p (upd_binding c (\<lambda>bd. bd\<lparr>bd_state := SCXML_CHTTP_BINDING_CLOSING\<rparr>) p)"
        by (simp add: same_fate_binding)
      then have "same_fate b i p (scxml_chttp_egress_close_binding_locked c
          (upd_binding c (\<lambda>bd. bd\<lparr>bd_state := SCXML_CHTTP_BINDING_CLOSING\<rparr>) p))"
        unfolding scxml_chttp_egress_close_binding_locked_def
        by (rule same_fate_trans) (use b(3) \<open>c \<noteq> b\<close> in \<open>simp add: same_fate_fold_close\<close>)
      with True show ?thesis by simp
    qed simp
    moreover have "same_fate b i ?q (upd_binding c (\<lambda>bd. bd\<lparr>bd_downstream_close_called := True\<rparr>) ?q)"
      by (rule same_fate_binding) simp
    ultimately have "same_fate b i p (upd_binding c (\<lambda>bd. bd\<lparr>bd_downstream_close_called := True\<rparr>) ?q)"
      by (rule same_fate_trans)
    with \<open>same_fate b i p ?q\<close> run show ?thesis unfolding close_locked_def Let_def
      by (metis prod.inject)
  qed
  show "same_fate b i p p'" if run: "ingress_enter endpoint p = (ir, p')"
  proof -
    have "p' = p \<or> (\<exists>c n. p' = upd_binding c (\<lambda>bd. bd\<lparr>bd_active_callbacks := bd_active_callbacks bd + 1\<rparr>) p)"
      using run by (auto simp: ingress_enter_def Let_def split: if_splits option.splits)
    then show ?thesis by (auto intro: same_fate_binding)
  qed
  show "same_fate b i p (ingress_leave status c p)"
  proof -
    define q where "q = (if status = 204 then p\<lparr>hp_ingress_admitted := hp_ingress_admitted p + 1\<rparr> else ingress_reject p)"
    have q: "same_fate b i p q" by (rule same_fate_frame) (simp_all add: q_def ingress_reject_def)
    have "same_fate b i q (upd_binding c (\<lambda>bd. bd\<lparr>bd_active_callbacks := bd_active_callbacks bd - 1\<rparr>) q)"
      by (rule same_fate_binding) simp
    then have "same_fate b i p (upd_binding c (\<lambda>bd. bd\<lparr>bd_active_callbacks := bd_active_callbacks bd - 1\<rparr>) q)"
      by (rule same_fate_trans [OF q])
    moreover have "same_fate b i p (invariant_failure q)" by (rule same_fate_trans [OF q same_fate_counters(4)])
    ultimately show ?thesis by (simp add: ingress_leave_def Let_def q_def [symmetric])
  qed
qed

text \<open>A stranded row under the operations on rows.\<close>

lemma stranded_row_ops:
  assumes s: "stranded b i p"
  shows "prepare_reserve c request p = (r, p') \<Longrightarrow> same_fate b i p p'"
    "hr_state (hp_rows p ! j) = SCXML_CHTTP_EGRESS_RESERVED \<Longrightarrow> same_fate b i p (copy_target j resolved p)"
    "hr_state (hp_rows p ! j) = SCXML_CHTTP_EGRESS_RESERVED \<Longrightarrow> same_fate b i p (store_body j encoded p)"
    "same_fate b i p (abort_reserved j p)" "same_fate b i p (egress_discard j p)"
    "prepare_finish c j p = (st, t, p') \<Longrightarrow> same_fate b i p p'"
    "same_fate b i p (egress_commit now j p)"
    "submit_settle j status rq p = (sr, p') \<Longrightarrow> same_fate b i p p'"
    "complete_begin outcome j p = (rep, p') \<Longrightarrow> same_fate b i p p'"
    "same_fate b i p (complete_end j p)" "same_fate b i p (cancel_unknown j rq p)"
    "same_fate b i p (cancel_retry j rq status p)"
proof -
  have st: "hr_state (hp_rows p ! i) = SCXML_CHTTP_EGRESS_READY" using s by (simp add: stranded_def)
  have ne: "j \<noteq> i" if "hr_state (hp_rows p ! j) \<noteq> SCXML_CHTTP_EGRESS_READY" for j using that st by auto
  note fail = same_fate_counters(4)
  have release: "same_fate b i p (release_queued j p)" if "hr_state (hp_rows p ! j) = SCXML_CHTTP_EGRESS_RESERVED" for j
    using that ne by (simp add: same_fate_release)
  show "same_fate b i p p'" if run: "prepare_reserve c request p = (r, p')"
  proof (cases r)
    case (Inl x)
    then have "p' = p" using run by (auto simp: prepare_reserve_def split: if_splits option.splits)
    then show ?thesis by simp
  next
    case (Inr j)
    from run Inr have first: "first_index (\<lambda>row. hr_state row = SCXML_CHTTP_EGRESS_FREE) (hp_rows p) = Some j"
      by (auto simp: prepare_reserve_def split: if_splits option.splits)
    then have "j \<noteq> i" using first_index_SomeD [OF first] st by auto
    let ?f = "\<lambda>row. row\<lparr>hr_generation := next_generation (hr_generation row),
      hr_state := SCXML_CHTTP_EGRESS_RESERVED, hr_binding := Some c, hr_delay_ms := sr_delay_ms request,
      hr_send_id := cdata (sr_id request)\<rparr>"
    let ?g = "\<lambda>bd. bd\<lparr>bd_outbound_references := bd_outbound_references bd + 1\<rparr>"
    have "same_fate b i p (upd_row j ?f p)" using \<open>j \<noteq> i\<close> by (simp add: same_fate_row)
    moreover have "same_fate b i (upd_row j ?f p) (upd_binding c ?g (upd_row j ?f p))" by (rule same_fate_binding) simp
    ultimately have "same_fate b i p (upd_binding c ?g (upd_row j ?f p))" by (rule same_fate_trans)
    then have "same_fate b i p ((upd_binding c ?g (upd_row j ?f p))\<lparr>hp_queued_egress := hp_queued_egress p + 1\<rparr>)"
      using same_fate_counters(1) same_fate_trans by blast
    with run first show ?thesis by (auto simp: prepare_reserve_def split: if_splits)
  qed
  show "same_fate b i p (copy_target j resolved p)" "same_fate b i p (store_body j encoded p)"
    if "hr_state (hp_rows p ! j) = SCXML_CHTTP_EGRESS_RESERVED"
    using that ne [of j] by (simp_all add: copy_target_def store_body_def same_fate_row)
  show "same_fate b i p (abort_reserved j p)" "same_fate b i p (egress_discard j p)"
    by (simp_all add: abort_reserved_def egress_discard_def release fail)
  show "same_fate b i p p'" if "prepare_finish c j p = (st, t, p')"
    using that release by (auto simp: prepare_finish_def intro: same_fate_frame split: if_splits)
  show "same_fate b i p (egress_commit now j p)"
  proof (cases "hr_state (hp_rows p ! j) = SCXML_CHTTP_EGRESS_RESERVED")
    case True
    then have "j \<noteq> i" using ne [of j] by simp
    then have "same_fate b i p (upd_row j f (upd_binding c (\<lambda>bd. bd\<lparr>bd_next_commit_sequence := n\<rparr>) p))" for f c n
      by (intro same_fate_trans [OF same_fate_binding same_fate_row]) simp_all
    with True release show ?thesis by (simp add: egress_commit_def Let_def fail split: option.split)
  qed (simp add: egress_commit_def fail split: option.split)
  show "same_fate b i p p'" if run: "submit_settle j status rq p = (sr, p')"
  proof (cases "hr_state (hp_rows p ! j) = SCXML_CHTTP_EGRESS_SUBMITTING")
    case True
    then have row: "same_fate b i p (upd_row j f p)" for f using ne [of j] by (simp add: same_fate_row)
    then have "same_fate b i p ((upd_row j f p)\<lparr>hp_queued_egress := n, hp_in_flight_egress := k\<rparr>)" for f n k
      using same_fate_counters(6) same_fate_trans by blast
    with row run show ?thesis by (auto simp: submit_settle_def split: if_splits)
  qed (use run in \<open>auto simp: submit_settle_def split: if_splits\<close>)
  show "same_fate b i p p'" if run: "complete_begin outcome j p = (rep, p')"
  proof (cases "in_client (hr_state (hp_rows p ! j))")
    case True
    then have "j \<noteq> i" using ne [of j] by (auto simp: in_client_def)
    then have "same_fate b i p (upd_row j f p)" for f by (simp add: same_fate_row)
    then have "same_fate b i p ((upd_row j f p)\<lparr>hp_in_flight_egress := n\<rparr>)" for f n
      using same_fate_counters(3) same_fate_trans by blast
    then have "same_fate b i p (count_outcome outcome ((upd_row j f p)\<lparr>hp_in_flight_egress := n\<rparr>))" for f n
      using same_fate_counters(5) same_fate_trans by blast
    with run fail show ?thesis by (auto simp: complete_begin_def Let_def split: if_splits option.splits)
  qed (use run fail in \<open>auto simp: complete_begin_def Let_def split: if_splits option.splits\<close>)
  show "same_fate b i p (complete_end j p)"
    using ne [of j] same_fate_reset fail by (simp add: complete_end_def)
  show "same_fate b i p (cancel_unknown j rq p)" by (simp add: cancel_unknown_def fail)
  show "same_fate b i p (cancel_retry j rq status p)"
  proof -
    have row: "same_fate b i p (upd_row j (\<lambda>row. row\<lparr>hr_cancel_requested := True\<rparr>) p)" by (rule same_fate_row) simp
    then show ?thesis using same_fate_trans [OF row fail] by (simp add: cancel_retry_def Let_def)
  qed
qed

lemma stranded_worker_ops:
  assumes s: "stranded b i p"
  shows "submit_claim now p = Some (post, p') \<Longrightarrow> same_fate b i p p'" "cancel_pick p = (r, p') \<Longrightarrow> same_fate b i p p'"
proof -
  have st: "hr_binding (hp_rows p ! i) = Some b" "bd_state (http_binding_at p b) = SCXML_CHTTP_BINDING_CLOSING"
    using s by (simp_all add: stranded_def)
  show "same_fate b i p p'" if run: "submit_claim now p = Some (post, p')"
  proof -
    from run obtain j where sel: "select_ready_locked p now = Some j"
      and p': "p' = (upd_row j (\<lambda>row. row\<lparr>hr_state := SCXML_CHTTP_EGRESS_SUBMITTING\<rparr>) p)
        \<lparr>hp_queued_egress := hp_queued_egress p - 1, hp_in_flight_egress := hp_in_flight_egress p + 1\<rparr>"
      by (auto simp: submit_claim_def Let_def split: option.splits)
    from select_ready_SomeD [OF sel] st have "j \<noteq> i" by (auto simp: submittable_def)
    then have "same_fate b i p (upd_row j (\<lambda>row. row\<lparr>hr_state := SCXML_CHTTP_EGRESS_SUBMITTING\<rparr>) p)"
      by (simp add: same_fate_row)
    then show ?thesis unfolding p' by (rule same_fate_trans) (rule same_fate_counters)
  qed
  show "same_fate b i p p'" if "cancel_pick p = (r, p')"
    using that same_fate_row [of _ i "\<lambda>row. row\<lparr>hr_cancel_requested := False\<rparr>" b p]
    by (auto simp: cancel_pick_def split: option.splits)
qed

lemma stranded_tickets:
  assumes "stranded b i p" "same_fate b i p (p'\<lparr>hp_cancel_tickets := hp_cancel_tickets p\<rparr>)"
    and "\<And>t. t \<in> set (hp_cancel_tickets p') \<Longrightarrow> ct_reserved t \<Longrightarrow> t \<in> set (hp_cancel_tickets p) \<or> ct_target_index t \<noteq> i"
  shows "stranded b i p'"
  using assms by (fastforce simp: stranded_def same_fate_def live_binding_def http_binding_at_def)

lemma stranded_ticket_ops:
  assumes s: "stranded b i p"
  shows "scxml_chttp_egress_prepare_cancel c send_id p = (st, t, handled, p') \<Longrightarrow> stranded b i p'"
    "k < length (hp_cancel_tickets p) \<Longrightarrow> stranded b i (http_cancel_commit k p)"
    "k < length (hp_cancel_tickets p) \<Longrightarrow> stranded b i (http_cancel_discard k p)"
proof -
  have b: "hr_binding (hp_rows p ! i) = Some b" "bd_state (http_binding_at p b) = SCXML_CHTTP_BINDING_CLOSING"
    using s by (simp_all add: stranded_def)
  have spent: "stranded b i (p\<lparr>hp_cancel_tickets := (hp_cancel_tickets p)[k := u\<lparr>ct_reserved := False\<rparr>]\<rparr>)" for k u
    using s by (rule stranded_tickets) (auto intro: same_fate_frame dest: set_update_memD)
  show "stranded b i p'" if run: "scxml_chttp_egress_prepare_cancel c send_id p = (st, t, handled, p')"
  proof (cases "p' = p")
    case False
    then obtain j k where p': "p' = p\<lparr>hp_cancel_tickets := (hp_cancel_tickets p)[k :=
        \<lparr>ct_target_index = j, ct_target_generation = hr_generation (hp_rows p ! j), ct_reserved = True\<rparr>]\<rparr>"
      and j: "first_index (http_cancel_target c (cdata send_id)) (hp_rows p) = Some j" and c: "http_open p c"
      using run by (auto simp: scxml_chttp_egress_prepare_cancel_def split: if_splits option.splits)
    have "hr_binding (hp_rows p ! j) = Some c" using first_index_SomeD [OF j] by (simp add: http_cancel_target_def)
    moreover have "c \<noteq> b" using c b(2) by (auto simp: http_open_def)
    ultimately have "j \<noteq> i" using b(1) by auto
    then show ?thesis unfolding p'
      by (intro stranded_tickets [OF s]) (auto intro: same_fate_frame dest: set_update_memD)
  qed (use s in simp)
  show "stranded b i (http_cancel_discard k p)"
    using spent stranded_same_fate [OF s same_fate_counters(4)] by (simp add: http_cancel_discard_def Let_def)
  show "stranded b i (http_cancel_commit k p)" if k: "k < length (hp_cancel_tickets p)"
  proof -
    let ?t = "hp_cancel_tickets p ! k"
    let ?q = "p\<lparr>hp_cancel_tickets := (hp_cancel_tickets p)[k := ?t\<lparr>ct_reserved := False\<rparr>]\<rparr>"
    have "?t \<in> set (hp_cancel_tickets p)" using k by simp
    then have "ct_target_index ?t \<noteq> i"
      if "ct_reserved ?t" "hr_generation (hp_rows p ! ct_target_index ?t) = ct_target_generation ?t"
      using s that by (auto simp: stranded_def)
    then have "stranded b i (cancel_or_mark (ct_target_index ?t) ?q)"
      if "ct_reserved ?t" "hr_generation (hp_rows p ! ct_target_index ?t) = ct_target_generation ?t"
      using that stranded_same_fate [OF spent same_fate_cancel_or_mark] by blast
    with spent stranded_same_fate [OF s same_fate_counters(4)] show ?thesis
      by (simp add: http_cancel_commit_def Let_def)
  qed
qed

lemma stranded_step:
  assumes "http_step p p'" "http_inv p" "stranded b i p" shows "stranded b i p'"
proof -
  note fate = stranded_same_fate [OF assms(3)]
  have frame: "stranded b i q"
    if "hp_bindings q = hp_bindings p" "hp_rows q = hp_rows p" "hp_cancel_tickets q = hp_cancel_tickets p" for q
    using that by (intro fate same_fate_frame)
  show ?thesis using assms(1)
  proof cases
    case (prepare_cancel c send_id st t handled)
    then show ?thesis using stranded_ticket_ops(1) [OF assms(3)] by blast
  next
    case (cancel_commit k)
    then show ?thesis using stranded_ticket_ops(2) [OF assms(3)] by blast
  next
    case (cancel_discard k)
    then show ?thesis using stranded_ticket_ops(3) [OF assms(3)] by blast
  next
    case (port port)
    then show ?thesis by (intro frame) simp_all
  next
    case start
    then show ?thesis by (intro frame) (simp_all add: start_publish_def)
  next
    case start_failed
    then show ?thesis by (intro frame) simp_all
  next
    case (stop active st)
    then show ?thesis by (intro frame) (auto simp: stop_begin_def split: if_splits)
  next
    case stopped
    then show ?thesis by (intro frame) simp_all
  next
    case ingress_count
    then show ?thesis by (intro frame) (simp_all add: ingress_count_def)
  next
    case ingress_reject
    then show ?thesis by (intro frame) (simp_all add: ingress_reject_def)
  next
    case poll_failure
    then show ?thesis by (auto intro: fate same_fate_counters)
  qed (blast intro: fate stranded_binding_ops [OF assms(2,3)] stranded_row_ops [OF assms(3)]
      stranded_worker_ops [OF assms(3)])+
qed

lemma stranded_steps: "http_steps p p' \<Longrightarrow> http_reachable p \<Longrightarrow> stranded b i p \<Longrightarrow> stranded b i p' \<and> http_inv p'"
proof (induction rule: http_steps.induct)
  case (refl p)
  then show ?case by (simp add: http_reachable_inv)
next
  case (step p q r)
  then show ?case using stranded_step http_step_inv by blast
qed

section \<open>Closing a binding\<close>

definition closed_row :: "nat \<Rightarrow> http_row \<Rightarrow> http_row" where
  "closed_row b row =
     (if hr_binding row \<noteq> Some b then row
      else if hr_state row = SCXML_CHTTP_EGRESS_READY then cleared_row row
      else if in_client (hr_state row) then row\<lparr>hr_cancel_requested := True\<rparr> else row)"

lemma closed_row_holds:
  "holds_binding b (closed_row b row) \<longleftrightarrow> hr_binding row = Some b \<and> hr_state row \<noteq> SCXML_CHTTP_EGRESS_READY"
  by (simp add: closed_row_def holds_binding_def)

lemma close_row_rows: "hp_rows (close_row b i p) = (hp_rows p)[i := closed_row b (hp_rows p ! i)]"
  by (simp add: close_row_def cancel_or_mark_def closed_row_def upd_row_def)

lemma fold_close_rows:
  "n \<le> egress_capacity p \<Longrightarrow>
   hp_rows (fold (close_row b) [0..<n] p) = map (closed_row b) (take n (hp_rows p)) @ drop n (hp_rows p)"
proof (induction n)
  case (Suc n)
  let ?q = "fold (close_row b) [0..<n] p"
  from Suc have q: "hp_rows ?q = map (closed_row b) (take n (hp_rows p)) @ drop n (hp_rows p)" and n: "n < egress_capacity p"
    by simp_all
  have "hp_rows ?q ! n = hp_rows p ! n" using n by (simp add: q nth_append)
  then have "hp_rows (close_row b n ?q) = (map (closed_row b) (take n (hp_rows p)) @ drop n (hp_rows p))
      [n := closed_row b (hp_rows p ! n)]" by (simp add: close_row_rows q)
  also have "\<dots> = map (closed_row b) (take (Suc n) (hp_rows p)) @ drop (Suc n) (hp_rows p)"
    using n by (simp add: list_update_append take_Suc_conv_app_nth Cons_nth_drop_Suc [symmetric])
  finally show ?case by simp
qed simp

text \<open>What a close keeps: tickets, and the state and callback count of every binding.\<close>

definition binding_frame :: "nat \<Rightarrow> http_processor \<Rightarrow> http_processor \<Rightarrow> bool" where
  "binding_frame b p p' \<longleftrightarrow> hp_cancel_tickets p' = hp_cancel_tickets p \<and> hp_endpoints p' = hp_endpoints p \<and>
     (live_binding p b \<longrightarrow> live_binding p' b \<and> bd_state (http_binding_at p' b) = bd_state (http_binding_at p b) \<and>
      bd_active_callbacks (http_binding_at p' b) = bd_active_callbacks (http_binding_at p b))"

lemma binding_frame_reset: "binding_frame b p (reset_row_locked i (p\<lparr>hp_egress_cancelled := c, hp_queued_egress := q\<rparr>))"
proof (cases "hr_binding (hp_rows p ! i)")
  case (Some d)
  then show ?thesis
    by (cases "d = b")
       (auto simp: binding_frame_def reset_row_locked_def upd_row_def upd_binding_def live_binding_def http_binding_at_def)
qed (auto simp: binding_frame_def reset_row_locked_def upd_row_def live_binding_def http_binding_at_def)

lemma binding_frame_close_row: "binding_frame b p (close_row c i p)"
proof -
  have "binding_frame b p p" by (simp add: binding_frame_def)
  moreover have "binding_frame b p (upd_row i f p)" for f
    by (simp add: binding_frame_def upd_row_def live_binding_def http_binding_at_def)
  ultimately show ?thesis
    using binding_frame_reset [of b p i]
    by (simp add: close_row_def cancel_or_mark_def release_queued_def)
qed

lemma binding_frame_fold: "binding_frame b p (fold (close_row c) js p)"
proof (induction js arbitrary: p)
  case (Cons j js)
  with binding_frame_close_row [of b p c j] Cons [of "close_row c j p"] show ?case
    by (auto simp: binding_frame_def)
qed (simp add: binding_frame_def)

text \<open>What the close of one binding leaves alone.\<close>

definition only_binding :: "nat \<Rightarrow> http_processor \<Rightarrow> http_processor \<Rightarrow> bool" where
  "only_binding b p p' \<longleftrightarrow> length (hp_bindings p') = length (hp_bindings p) \<and>
     (\<forall>c. c \<noteq> b \<longrightarrow> hp_bindings p' ! c = hp_bindings p ! c) \<and>
     hp_endpoints p' = hp_endpoints p \<and> hp_cancel_tickets p' = hp_cancel_tickets p \<and>
     hp_state p' = hp_state p \<and> hp_config p' = hp_config p \<and>
     hp_live_bindings p' = hp_live_bindings p \<and> hp_in_flight_egress p' = hp_in_flight_egress p"

lemma only_binding_refl: "only_binding b p p"
  by (simp add: only_binding_def)

lemma only_binding_trans: "only_binding b p q \<Longrightarrow> only_binding b q r \<Longrightarrow> only_binding b p r"
  by (simp add: only_binding_def)

lemma only_binding_upd: "only_binding b p (upd_binding b f p)" "only_binding b p (upd_row i g p)"
  by (simp_all add: only_binding_def upd_binding_def upd_row_def)

lemma only_binding_close_row: "only_binding b p (close_row b i p)"
  by (auto simp: close_row_def cancel_or_mark_def release_queued_def reset_row_locked_def only_binding_def upd_row_def
      upd_binding_def)

lemma only_binding_fold: "only_binding b p (fold (close_row b) js p)"
proof (induction js arbitrary: p)
  case (Cons j js)
  from only_binding_trans [OF only_binding_close_row Cons.IH] show ?case by simp
qed (simp add: only_binding_refl)

lemma close_locked_only: "close_locked b p = (d, p') \<Longrightarrow> only_binding b p p'"
proof -
  assume run: "close_locked b p = (d, p')"
  let ?p1 = "if http_open p b then scxml_chttp_egress_close_binding_locked b
      (upd_binding b (\<lambda>bd. bd\<lparr>bd_state := SCXML_CHTTP_BINDING_CLOSING\<rparr>) p) else p"
  have p1: "only_binding b p ?p1"
    using only_binding_trans [OF only_binding_upd(1) only_binding_fold]
    by (simp add: scxml_chttp_egress_close_binding_locked_def only_binding_refl)
  have "p' = ?p1 \<or> p' = upd_binding b (\<lambda>bd. bd\<lparr>bd_downstream_close_called := True\<rparr>) ?p1"
    using run by (auto simp: close_locked_def Let_def split: if_splits)
  then show "only_binding b p p'" using p1 only_binding_trans [OF p1 only_binding_upd(1)] by metis
qed

lemma close_locked_effect:
  assumes "live_binding p b" "http_open p b" "close_locked b p = (d, p')"
  shows "hp_rows p' = map (closed_row b) (hp_rows p)" "hp_cancel_tickets p' = hp_cancel_tickets p" "live_binding p' b"
    "bd_state (http_binding_at p' b) = SCXML_CHTTP_BINDING_CLOSING" "hp_endpoints p' = hp_endpoints p"
    "bd_active_callbacks (http_binding_at p' b) = bd_active_callbacks (http_binding_at p b)"
proof -
  let ?c = "upd_binding b (\<lambda>bd. bd\<lparr>bd_state := SCXML_CHTTP_BINDING_CLOSING\<rparr>) p"
  define q where "q = scxml_chttp_egress_close_binding_locked b ?c"
  have len: "b < length (hp_bindings p)" using assms(1) by (simp add: live_binding_def)
  have c: "live_binding ?c b" "bd_state (http_binding_at ?c b) = SCXML_CHTTP_BINDING_CLOSING" "hp_rows ?c = hp_rows p"
    "hp_cancel_tickets ?c = hp_cancel_tickets p" "hp_endpoints ?c = hp_endpoints p"
    "bd_active_callbacks (http_binding_at ?c b) = bd_active_callbacks (http_binding_at p b)"
    using len by (simp_all add: live_binding_def http_binding_at_def upd_binding_def)
  have q: "hp_rows q = map (closed_row b) (hp_rows p)" "binding_frame b ?c q"
    using fold_close_rows [of "egress_capacity ?c" ?c b] binding_frame_fold [of b ?c]
    by (simp_all add: q_def scxml_chttp_egress_close_binding_locked_def c(3))
  have p': "p' = q \<or> p' = upd_binding b (\<lambda>bd. bd\<lparr>bd_downstream_close_called := True\<rparr>) q"
    using assms(2,3) by (auto simp: close_locked_def Let_def q_def split: if_splits)
  have fin: "binding_frame b ?c p' \<and> hp_rows p' = hp_rows q"
    using p'
  proof
    assume "p' = upd_binding b (\<lambda>bd. bd\<lparr>bd_downstream_close_called := True\<rparr>) q"
    then show ?thesis using q(2) c(1)
      by (auto simp: binding_frame_def live_binding_def http_binding_at_def upd_binding_def)
  qed (use q(2) in simp)
  show "hp_rows p' = map (closed_row b) (hp_rows p)" using fin q(1) by simp
  show "hp_cancel_tickets p' = hp_cancel_tickets p" "live_binding p' b" "hp_endpoints p' = hp_endpoints p"
    "bd_state (http_binding_at p' b) = SCXML_CHTTP_BINDING_CLOSING"
    "bd_active_callbacks (http_binding_at p' b) = bd_active_callbacks (http_binding_at p b)"
    using fin c by (simp_all add: binding_frame_def)
qed

text \<open>
  Property (C29). Closing a binding of a reachable processor frees exactly its waiting rows, marks exactly its
  rows in the client for cancellation, touches no row and no record of another binding, no endpoint, no
  cancellation ticket and no state of the processor, and admits nothing
  more. With a quiescent downstream adapter the binding can be destroyed right away exactly
  when it had no row in any other state and no request handler holds it.
\<close>

theorem http_close_isolates:
  assumes "http_reachable p" "live_binding p b" "http_open p b" "close_locked b p = (d, p')"
  shows "hp_rows p' = map (\<lambda>row. if hr_binding row \<noteq> Some b then row
      else if hr_state row = SCXML_CHTTP_EGRESS_READY then cleared_row row
      else if in_client (hr_state row) then row\<lparr>hr_cancel_requested := True\<rparr> else row) (hp_rows p) \<and>
    length (hp_bindings p') = length (hp_bindings p) \<and>
    (\<forall>c. c \<noteq> b \<longrightarrow> hp_bindings p' ! c = hp_bindings p ! c) \<and>
    hp_endpoints p' = hp_endpoints p \<and> hp_cancel_tickets p' = hp_cancel_tickets p \<and>
    hp_state p' = hp_state p \<and> hp_config p' = hp_config p \<and>
    hp_live_bindings p' = hp_live_bindings p \<and> hp_in_flight_egress p' = hp_in_flight_egress p \<and>
    prepare_reserve b request p' = (Inl SCXML_ADAPTER_CLOSED, p') \<and>
    (fst (scxml_chttp_binding_destroy (\<lambda>s. (True, s)) b (p', ())) = SALTS_OK \<longleftrightarrow>
       (\<forall>row\<in>set (hp_rows p). hr_binding row = Some b \<longrightarrow> hr_state row = SCXML_CHTTP_EGRESS_READY) \<and>
       bd_active_callbacks (http_binding_at p b) = 0)"
proof -
  note eff = close_locked_effect [OF assms(2-4)]
  have inv: "http_inv p" and inv': "http_inv p'"
    using assms http_reachable_inv http_step_inv http_step.close by blast+
  let ?bd = "http_binding_at p' b"
  obtain bd where bd: "b < length (hp_bindings p')" "hp_bindings p' ! b = Some bd" "http_binding_at p' b = bd"
    using eff(3) by (rule live_bindingE)
  have "bd_outbound_references ?bd = count_if (holds_binding b) (hp_rows p')"
    using http_invD(1) [OF inv'] bd by (simp add: http_rows_ok_def)
  then have refs: "bd_outbound_references ?bd = 0 \<longleftrightarrow>
      (\<forall>row\<in>set (hp_rows p). hr_binding row = Some b \<longrightarrow> hr_state row = SCXML_CHTTP_EGRESS_READY)"
    unfolding eff(1) by (simp add: count_if_zero_iff closed_row_holds)
  have ep: "bd_endpoint_index bd < length (hp_endpoints p')" "ep_binding (hp_endpoints p' ! bd_endpoint_index bd) = Some b"
    "ep_generation (hp_endpoints p' ! bd_endpoint_index bd) = bd_endpoint_generation bd"
    using http_invD(3) [OF inv'] bd by (auto simp: http_endpoints_ok_def)
  have "fst (scxml_chttp_binding_destroy (\<lambda>s. (True, s)) b (p', ())) =
      (if bd_active_callbacks ?bd = 0 \<and> bd_outbound_references ?bd = 0 then SALTS_OK else SALTS_EBUSY)"
    using eff(4) ep bd
    by (simp add: scxml_chttp_binding_destroy_def composite_is_quiescent_def quiescent_settle_def Let_def
        destroy_locked_def http_binding_at_def upd_binding_def)
  moreover have "prepare_reserve b request p' = (Inl SCXML_ADAPTER_CLOSED, p')"
    using eff(4) by (simp add: prepare_reserve_def http_open_def)
  moreover have "hp_rows p' = map (\<lambda>row. if hr_binding row \<noteq> Some b then row
      else if hr_state row = SCXML_CHTTP_EGRESS_READY then cleared_row row
      else if in_client (hr_state row) then row\<lparr>hr_cancel_requested := True\<rparr> else row) (hp_rows p)"
    unfolding eff(1) by (rule map_cong) (auto simp: closed_row_def)
  ultimately show ?thesis using refs eff(6) close_locked_only [OF assms(4)] by (simp add: only_binding_def)
qed

text \<open>
  Property (C30). A defect in the shutdown: when the binding closes while the worker is handing one of its rows
  to the client, and the client has no room, the row returns to the queue of a closing
  binding. From then on no step of any thread releases it: the binding never becomes
  quiescent, destroying it is refused even with a quiescent downstream adapter, and the
  processor cannot be stopped.
\<close>

theorem http_close_race_strands_row:
  assumes "http_reachable p" "i < egress_capacity p" "hr_state (hp_rows p ! i) = SCXML_CHTTP_EGRESS_SUBMITTING"
    and "hr_binding (hp_rows p ! i) = Some b" "http_open p b"
    and "\<forall>t\<in>set (hp_cancel_tickets p). ct_reserved t \<longrightarrow> ct_target_index t \<noteq> i"
    and "close_locked b p = (d, p1)" "submit_settle i SALTS_ENOBUFS request p1 = (r, p2)" "http_steps p2 p3"
  shows "fst (scxml_chttp_binding_destroy (\<lambda>s. (True, s)) b (p3, ())) = SALTS_EBUSY \<and>
    fst (stop_begin active p3) = SALTS_EBUSY \<and>
    hr_state (hp_rows p3 ! i) = SCXML_CHTTP_EGRESS_READY \<and> hr_binding (hp_rows p3 ! i) = Some b"
proof -
  have inv: "http_inv p" using assms(1) by (rule http_reachable_inv)
  have live: "live_binding p b" using live_rowE [OF inv assms(2)] assms(3,4) by (metis http_row_state.distinct(5) option.inject)
  note eff = close_locked_effect [OF live assms(5,7)]
  have len: "egress_capacity p1 = egress_capacity p" using eff(1) by simp
  have row: "hp_rows p1 ! i = (hp_rows p ! i)\<lparr>hr_cancel_requested := True\<rparr>"
    using assms(2-4) by (simp add: eff(1) closed_row_def in_client_def)
  then have p2: "p2 = (upd_row i (\<lambda>row. row\<lparr>hr_state := SCXML_CHTTP_EGRESS_READY\<rparr>) p1)
      \<lparr>hp_queued_egress := hp_queued_egress p1 + 1, hp_in_flight_egress := hp_in_flight_egress p1 - 1\<rparr>"
    using assms(3,8) by (simp add: submit_settle_def)
  have "stranded b i p2"
    using eff(2-4) assms(2,4,6) len row
    by (auto simp: p2 stranded_def upd_row_def live_binding_def http_binding_at_def)
  moreover have "http_reachable p2"
    using assms(1,2,7,8) live len http_step.close http_step.submit_settle http_reachable.step by metis
  ultimately have s: "stranded b i p3" "http_inv p3" using stranded_steps [OF assms(9)] by auto
  have st: "bd_state (http_binding_at p3 b) = SCXML_CHTTP_BINDING_CLOSING" "live_binding p3 b"
    using s(1) by (simp_all add: stranded_def)
  obtain bd where bd: "b < length (hp_bindings p3)" "hp_bindings p3 ! b = Some bd"
    using st(2) by (rule live_bindingE)
  have "bd_endpoint_index bd < length (hp_endpoints p3)" "ep_binding (hp_endpoints p3 ! bd_endpoint_index bd) = Some b"
    using http_invD(3) [OF s(2)] bd by (auto simp: http_endpoints_ok_def)
  then have "0 < hp_live_bindings p3"
    using http_invD(4) [OF s(2)] count_if_pos [of "bd_endpoint_index bd" "hp_endpoints p3" "\<lambda>ep. ep_binding ep \<noteq> None"]
    by simp
  with s(1) st stranded_refs [OF s(2,1)] show ?thesis
    by (simp add: stop_begin_def scxml_chttp_binding_destroy_def composite_is_quiescent_def quiescent_settle_def Let_def
        stranded_def)
qed

end
