(* ===== verification/Http_Demo.thy ===== *)
theory Http_Demo
  imports Http_Safety
begin

text \<open>
  A concrete run of the BasicHTTP processor: one binding, two committed sends, the first of them
  handed to the client. The properties of the processor are applied to its states.
\<close>

section \<open>A run\<close>

definition demo_http_cfg :: http_config where
  "demo_http_cfg = \<lparr>hc_limits = \<lparr>max_event_name_bytes = 64, max_form_entry_count = 8, max_form_name_bytes = 64,
       max_form_value_bytes = 64, max_encoded_body_bytes = 256\<rparr>,
     hc_max_access_uri_bytes = 128, hc_endpoint_capacity = 1, hc_egress_capacity = 2,
     hc_advertised_authority = ''host:80'', hc_base_path = ''/scxml'', hc_bound_port = 8080,
     hc_max_request_body_bytes = 256\<rparr>"

definition demo_adapter :: event_io_adapter where
  "demo_adapter = \<lparr>ea_abi_version = 1, ea_struct_size = 64, ea_capabilities = 31, ea_prepare_send_set = True,
     ea_prepare_cancel_set = True, ea_close_set = True, ea_is_quiescent_set = True\<rparr>"

definition demo_started :: http_processor where
  "demo_started = start_publish (fresh_http_processor demo_http_cfg)"

definition demo_bound :: http_processor where
  "demo_bound = snd (snd (scxml_chttp_binding_init 64 SALTS_OK True (SALTS_OK, ''e1'') demo_adapter False demo_started))"

definition demo_active :: http_processor where
  "demo_active = snd (activate_locked 0 7 1 demo_bound)"

definition demo_http_send :: "string \<Rightarrow> scxml_send_request" where
  "demo_http_send ident = \<lparr>sr_event = CBytes ''go'', sr_target = CBytes ''http://peer/'', sr_type = CNull 0,
     sr_id = CBytes ident, sr_delay_ms = 0, sr_payload = SCXML_PAYLOAD_NONE\<rparr>"

definition demo_commit :: "string \<Rightarrow> nat \<Rightarrow> http_processor \<Rightarrow> http_processor" where
  "demo_commit ident i p = egress_commit 100 i (snd (prepare_reserve 0 (demo_http_send ident) p))"

definition demo_waiting :: http_processor where
  "demo_waiting = demo_commit ''b'' 1 (demo_commit ''a'' 0 demo_active)"

definition demo_submitting :: http_processor where
  "demo_submitting = snd (the (submit_claim 200 demo_waiting))"


lemma demo_adapter_valid: "downstream_adapter_valid 64 demo_adapter"
  by (simp add: downstream_adapter_valid_def demo_adapter_def SCXML_ADAPTER_ABI_def SCXML_EVENT_IO_CAP_SEND_def
      SCXML_EVENT_IO_CAP_DELAYED_SEND_def SCXML_EVENT_IO_CAP_CANCEL_def SCXML_EVENT_IO_CAP_PAYLOAD_def
      SCXML_EVENT_IO_CAP_CONTENT_def)

lemma demo_uri: "build_access_uri demo_http_cfg ''e1'' = (SALTS_OK, ''http://host:80/scxml/e1'')"
  by (simp add: build_access_uri_def access_uri_def authority_has_port_def demo_http_cfg_def)

definition demo_bd :: http_binding where
  "demo_bd = \<lparr>bd_endpoint_index = 0, bd_endpoint_generation = 1, bd_state = SCXML_CHTTP_BINDING_ACTIVE,
     bd_downstream = demo_adapter, bd_decode_set = False, bd_session = Some 7, bd_program = Some 1,
     bd_active_callbacks = 0, bd_outbound_references = 0, bd_next_commit_sequence = 1,
     bd_downstream_close_called = False\<rparr>"

lemma demo_active_eq:
  "demo_active = (fresh_http_processor demo_http_cfg)
     \<lparr>hp_state := SCXML_CHTTP_PROCESSOR_RUNNING,
      hp_endpoints := [\<lparr>ep_binding = Some 0, ep_generation = 1, ep_endpoint = ''e1'',
        ep_access_uri = ''http://host:80/scxml/e1''\<rparr>],
      hp_bindings := [Some demo_bd], hp_live_bindings := 1\<rparr>"
proof -
  have cfg: "hc_endpoint_capacity demo_http_cfg = 1" by (simp add: demo_http_cfg_def)
  show ?thesis
    by (simp add: demo_active_def demo_bound_def demo_started_def start_publish_def scxml_chttp_binding_init_def
        demo_adapter_valid demo_uri cfg fresh_http_processor_def Let_def next_generation_def new_binding_def
        activate_locked_def http_binding_at_def upd_binding_def demo_bd_def)
qed


definition demo_row :: "string \<Rightarrow> u64 \<Rightarrow> http_row" where
  "demo_row ident n = blank_http_row\<lparr>hr_binding := Some 0, hr_generation := 1, hr_state := SCXML_CHTTP_EGRESS_READY,
     hr_send_id := ident, hr_due_ms := 100, hr_commit_sequence := n\<rparr>"

lemma demo_waiting_eq:
  "demo_waiting = demo_active\<lparr>hp_rows := [demo_row ''a'' 1, demo_row ''b'' 2],
     hp_bindings := [Some (demo_bd\<lparr>bd_outbound_references := 2, bd_next_commit_sequence := 3\<rparr>)],
     hp_queued_egress := 2\<rparr>"
proof -
  have rows: "hp_rows demo_active = [blank_http_row, blank_http_row]"
    by (simp add: demo_active_eq fresh_http_processor_def demo_http_cfg_def numeral_2_eq_2)
  have rest: "hp_bindings demo_active = [Some demo_bd]" "hp_state demo_active = SCXML_CHTTP_PROCESSOR_RUNNING"
    "hp_queued_egress demo_active = 0"
    by (simp_all add: demo_active_eq fresh_http_processor_def)
  show ?thesis
    by (simp add: demo_waiting_def demo_commit_def prepare_reserve_def rows rest http_open_def http_binding_at_def
        demo_bd_def blank_http_row_def upd_row_def upd_binding_def demo_http_send_def next_generation_def
        egress_commit_def Let_def due_time_def demo_row_def)
qed

definition demo_claimed_row :: http_row where
  "demo_claimed_row = (demo_row ''a'' 1)\<lparr>hr_state := SCXML_CHTTP_EGRESS_SUBMITTING\<rparr>"

lemma demo_select: "select_ready_locked demo_waiting 200 = Some 0"
  by (simp add: select_ready_locked_def earliest_row_def demo_waiting_eq demo_row_def submittable_def
      earlier_row_blocks_locked_def http_binding_at_def demo_bd_def committed_state_def upt_rec)

lemma demo_submitting_eq:
  "demo_submitting = demo_waiting\<lparr>hp_rows := [demo_claimed_row, demo_row ''b'' 2], hp_queued_egress := 1,
     hp_in_flight_egress := 1\<rparr>"
proof -
  have "hp_rows demo_waiting = [demo_row ''a'' 1, demo_row ''b'' 2]" "hp_queued_egress demo_waiting = 2"
    "hp_in_flight_egress demo_waiting = 0"
    by (simp_all add: demo_waiting_eq demo_active_eq fresh_http_processor_def)
  then show ?thesis
    by (simp add: demo_submitting_def submit_claim_def demo_select Let_def upd_row_def demo_claimed_row_def)
qed

section \<open>The run is reachable\<close>

lemma demo_active_reachable: "http_reachable demo_active"
proof -
  have "http_reachable demo_started" unfolding demo_started_def
    by (rule http_reachable.step [OF http_reachable.init http_step.start])
  then have "http_reachable demo_bound" unfolding demo_bound_def
    by (rule http_reachable.step) (rule http_step.init [OF triple_split])
  moreover have "live_binding demo_bound 0"
  proof -
    have cfg: "hc_endpoint_capacity demo_http_cfg = 1" by (simp add: demo_http_cfg_def)
    show ?thesis
      by (simp add: live_binding_def demo_bound_def demo_started_def start_publish_def scxml_chttp_binding_init_def
          demo_adapter_valid demo_uri cfg fresh_http_processor_def Let_def)
  qed
  ultimately show ?thesis unfolding demo_active_def
    by (rule http_reachable.step [OF _ http_step.activate [OF _ pair_split]])
qed

lemma demo_commit_reachable:
  assumes "http_reachable p" "live_binding p 0" "i < egress_capacity p"
    and "bd_next_commit_sequence (http_binding_at p 0) < 9"
    and "\<And>b. hr_binding (hp_rows (snd (prepare_reserve 0 (demo_http_send ident) p)) ! i) = Some b \<Longrightarrow> b = 0"
  shows "http_reachable (demo_commit ident i p)"
proof -
  let ?q = "snd (prepare_reserve 0 (demo_http_send ident) p)"
  have "http_reachable ?q"
    using assms(1) by (rule http_reachable.step) (rule http_step.reserve [OF assms(2) pair_split])
  moreover have "bd_next_commit_sequence (http_binding_at ?q 0) < 9 \<and> egress_capacity ?q = egress_capacity p"
    using assms(2,4)
    by (auto simp: prepare_reserve_def http_binding_at_def upd_row_def upd_binding_def live_binding_def split: option.split)
  ultimately show ?thesis unfolding demo_commit_def using assms(3,5)
    by (intro http_reachable.step [OF _ http_step.commit]) auto
qed

lemma demo_waiting_reachable: "http_reachable demo_waiting"
proof -
  have rows: "hp_rows demo_active = [blank_http_row, blank_http_row]"
    by (simp add: demo_active_eq fresh_http_processor_def demo_http_cfg_def numeral_2_eq_2)
  have rest: "hp_bindings demo_active = [Some demo_bd]" "hp_state demo_active = SCXML_CHTTP_PROCESSOR_RUNNING"
    by (simp_all add: demo_active_eq fresh_http_processor_def)
  note eval = demo_commit_def prepare_reserve_def rows rest http_open_def http_binding_at_def demo_bd_def
    blank_http_row_def upd_row_def upd_binding_def egress_commit_def Let_def live_binding_def
  have "http_reachable (demo_commit ''a'' 0 demo_active)"
    by (rule demo_commit_reachable [OF demo_active_reachable]) (simp_all add: eval)
  then show ?thesis unfolding demo_waiting_def
    by (rule demo_commit_reachable) (simp_all add: eval)
qed

lemma demo_submitting_reachable: "http_reachable demo_submitting"
proof -
  have "submit_claim 200 demo_waiting = Some (fst (the (submit_claim 200 demo_waiting)), demo_submitting)"
    by (simp add: demo_submitting_def submit_claim_def demo_select Let_def)
  then show ?thesis by (rule http_reachable.step [OF demo_waiting_reachable http_step.submit_claim])
qed

section \<open>The properties at the states of the run\<close>

lemma demo_rows:
  "hp_rows demo_waiting = [demo_row ''a'' 1, demo_row ''b'' 2]"
  "hp_rows demo_submitting = [demo_claimed_row, demo_row ''b'' 2]"
  by (simp_all add: demo_waiting_eq demo_submitting_eq)

lemma demo_bindings:
  "hp_bindings demo_waiting = [Some (demo_bd\<lparr>bd_outbound_references := 2, bd_next_commit_sequence := 3\<rparr>)]"
  "hp_bindings demo_submitting = [Some (demo_bd\<lparr>bd_outbound_references := 2, bd_next_commit_sequence := 3\<rparr>)]"
  by (simp_all add: demo_waiting_eq demo_submitting_eq)

lemma demo_tickets:
  "length (hp_cancel_tickets demo_waiting) = 2"
  "hp_cancel_tickets demo_submitting = hp_cancel_tickets (fresh_http_processor demo_http_cfg)"
  by (simp_all add: demo_waiting_eq demo_submitting_eq demo_active_eq fresh_http_processor_def demo_http_cfg_def)

lemma demo_http_open:
  "http_open demo_waiting 0" "http_open demo_submitting 0" "live_binding demo_waiting 0"
  by (simp_all add: http_open_def http_binding_at_def demo_bindings demo_bd_def live_binding_def)

lemma demo_row_simps [simp]:
  "hr_state (demo_row ident n) = SCXML_CHTTP_EGRESS_READY" "hr_binding (demo_row ident n) = Some 0"
  "hr_send_id (demo_row ident n) = ident" "hr_commit_sequence (demo_row ident n) = n"
  "hr_state demo_claimed_row = SCXML_CHTTP_EGRESS_SUBMITTING" "hr_binding demo_claimed_row = Some 0"
  "hr_commit_sequence demo_claimed_row = 1"
  by (simp_all add: demo_row_def demo_claimed_row_def)

theorem http_accounting_witness:
  "hp_queued_egress demo_waiting = 2 \<and> bd_outbound_references (http_binding_at demo_waiting 0) = 2"
  using http_accounting [OF demo_waiting_reachable] demo_http_open(3) by (simp add: demo_rows)

theorem http_commit_order_witness:
  "hr_commit_sequence (hp_rows demo_submitting ! 0) < hr_commit_sequence (hp_rows demo_submitting ! 1)"
  using http_commit_order [OF demo_submitting_reachable, of 0 1]
  by (simp add: demo_rows committed_state_def)

definition demo_cancel :: http_processor where
  "demo_cancel = snd (snd (snd (scxml_chttp_egress_prepare_cancel 0 (CBytes ''b'') demo_waiting)))"

lemma demo_cancel_eq:
  "scxml_chttp_egress_prepare_cancel 0 (CBytes ''b'') demo_waiting = (SCXML_ADAPTER_ACCEPTED, Some 0, True, demo_cancel)"
  "ct_target_index (hp_cancel_tickets demo_cancel ! 0) = 1" "hp_rows demo_cancel = hp_rows demo_waiting"
proof -
  have free: "first_index (\<lambda>ticket. \<not> ct_reserved ticket) (hp_cancel_tickets demo_waiting) = Some 0"
    by (simp add: demo_waiting_eq demo_active_eq fresh_http_processor_def demo_http_cfg_def numeral_2_eq_2)
  have target: "first_index (http_cancel_target 0 ''b'') (hp_rows demo_waiting) = Some 1"
    by (simp add: demo_rows http_cancel_target_def)
  have run: "hp_state demo_waiting = SCXML_CHTTP_PROCESSOR_RUNNING"
    by (simp add: demo_waiting_eq demo_active_eq)
  show "scxml_chttp_egress_prepare_cancel 0 (CBytes ''b'') demo_waiting = (SCXML_ADAPTER_ACCEPTED, Some 0, True, demo_cancel)"
    "ct_target_index (hp_cancel_tickets demo_cancel ! 0) = 1" "hp_rows demo_cancel = hp_rows demo_waiting"
    by (simp_all add: demo_cancel_def scxml_chttp_egress_prepare_cancel_def run demo_http_open free target demo_tickets(1))
qed

theorem http_cancel_ticket_exact_witness:
  "hp_rows (http_cancel_commit 0 demo_cancel) = [demo_row ''a'' 1, cleared_row (demo_row ''b'' 2)]"
  using http_cancel_ticket_exact [OF demo_waiting_reachable demo_cancel_eq(1) demo_cancel_eq(2) [symmetric] http_reuses.refl]
  by (simp add: demo_cancel_eq(3) demo_rows)

theorem http_close_isolates_witness:
  "hp_rows (snd (close_locked 0 demo_waiting)) = [cleared_row (demo_row ''a'' 1), cleared_row (demo_row ''b'' 2)] \<and>
   fst (scxml_chttp_binding_destroy (\<lambda>s. (True, s)) 0 (snd (close_locked 0 demo_waiting), ())) = SALTS_OK"
  using http_close_isolates [OF demo_waiting_reachable demo_http_open(3) demo_http_open(1) pair_split [of "close_locked 0 demo_waiting"]]
  by (simp add: demo_rows http_binding_at_def demo_bindings demo_bd_def)

theorem http_close_race_strands_row_witness:
  "fst (scxml_chttp_binding_destroy (\<lambda>s. (True, s)) 0
      (snd (submit_settle 0 SALTS_ENOBUFS \<lparr>rq_slot = 0, rq_generation = 0\<rparr> (snd (close_locked 0 demo_submitting))), ())) = SALTS_EBUSY"
proof -
  have idle: "\<forall>t\<in>set (hp_cancel_tickets demo_submitting). ct_reserved t \<longrightarrow> ct_target_index t \<noteq> 0"
    by (simp add: demo_tickets(2)) (simp add: fresh_http_processor_def)
  show ?thesis
    using http_close_race_strands_row [OF demo_submitting_reachable _ _ _ demo_http_open(2) idle pair_split pair_split http_steps.refl]
    by (simp add: demo_rows)
qed

end
