(* ===== verification/Http_Config.thy ===== *)
theory Http_Config
  imports Http_Binding "HOL-Library.Monad_Syntax"
begin

text \<open>
  Model of the admission part of \<^verbatim>\<open>src/chttp_event_io.c\<close>: the configuration check, the
  layout of the one storage block that holds every table and text buffer of a processor, the
  initialisation that carves it up, and the statistics snapshot. Sizes and alignments of the C types are a record of
  parameters; arithmetic on \<^verbatim>\<open>size_t\<close> is checked arithmetic on natural numbers.
\<close>

unbundle bit_operations_syntax

section \<open>The configuration\<close>

text \<open>The part of the CHTTP configurations that the processor reads itself.\<close>

record chttp_server_limits =
  sv_route_capacity :: nat
  sv_max_route_param_count :: nat
  sv_max_route_param_bytes :: nat
  sv_max_request_body_bytes :: nat
  sv_max_target_bytes :: nat
  sv_command_capacity :: nat

record chttp_client_limits =
  cl_max_request_body_bytes :: nat
  cl_command_capacity :: nat

record http_config_v1 =
  cv_abi_version :: u32
  cv_struct_size :: nat
  cv_server :: chttp_server_limits
  cv_client :: chttp_client_limits
  cv_advertised_authority :: "string option"
  cv_base_path :: "string option"
  cv_endpoint_capacity :: nat
  cv_egress_capacity :: nat
  cv_max_access_uri_bytes :: nat
  cv_limits :: codec_limits
  cv_request_timeout_ms :: u32
  cv_worker_poll_ms :: u32
  cv_resolve_set :: bool

text \<open>What the compiler and the UUID library decide: sizes, and pairs of alignment and size.\<close>

record http_abi =
  ab_config_size :: nat
  ab_uuid_string_size :: nat
  ab_form_entry :: "nat \<times> nat"
  ab_endpoint_row :: "nat \<times> nat"
  ab_egress_row :: "nat \<times> nat"
  ab_cancel_ticket :: "nat \<times> nat"

definition SCXML_CHTTP_ABI_V1 :: u32 where "SCXML_CHTTP_ABI_V1 = 1"

fun bounded_cstring_size :: "string option \<Rightarrow> nat \<Rightarrow> nat option" where
  "bounded_cstring_size None limit = None"
| "bounded_cstring_size (Some s) limit =
     (if limit = 0 \<or> s = [] \<or> length s > limit then None else Some (length s))"

definition is_power_of_two :: "nat \<Rightarrow> bool" where
  "is_power_of_two n \<longleftrightarrow> n \<noteq> 0 \<and> n AND (n - 1) = 0"

definition processor_config_valid :: "http_abi \<Rightarrow> http_config_v1 \<Rightarrow> (nat \<times> nat) option" where
  "processor_config_valid abi cfg =
     (if cv_abi_version cfg \<noteq> SCXML_CHTTP_ABI_V1 \<or> cv_struct_size cfg < ab_config_size abi \<or>
         cv_endpoint_capacity cfg = 0 \<or> cv_egress_capacity cfg = 0 \<or> cv_max_access_uri_bytes cfg = 0 \<or>
         max_event_name_bytes (cv_limits cfg) = 0 \<or>
         max_event_name_bytes (cv_limits cfg) > SCXML_EVENT_METADATA_CAPACITY \<or>
         max_form_entry_count (cv_limits cfg) = 0 \<or> max_form_name_bytes (cv_limits cfg) = 0 \<or>
         max_form_value_bytes (cv_limits cfg) = 0 \<or> max_encoded_body_bytes (cv_limits cfg) = 0 \<or>
         sv_route_capacity (cv_server cfg) = 0 \<or> sv_max_route_param_count (cv_server cfg) = 0 \<or>
         sv_max_route_param_bytes (cv_server cfg) < length ''endpoint'' + (ab_uuid_string_size abi - 1) + 2 \<or>
         cv_request_timeout_ms cfg = 0 \<or> cv_worker_poll_ms cfg = 0 \<or> \<not> cv_resolve_set cfg \<or>
         max_encoded_body_bytes (cv_limits cfg) > cl_max_request_body_bytes (cv_client cfg) \<or>
         max_encoded_body_bytes (cv_limits cfg) > sv_max_request_body_bytes (cv_server cfg) \<or>
         \<not> is_power_of_two (sv_command_capacity (cv_server cfg)) \<or>
         \<not> is_power_of_two (cl_command_capacity (cv_client cfg))
      then None
      else do {
        authority_size \<leftarrow> bounded_cstring_size (cv_advertised_authority cfg) (cv_max_access_uri_bytes cfg);
        base_path_size \<leftarrow> bounded_cstring_size (cv_base_path cfg) (cv_max_access_uri_bytes cfg);
        let authority = the (cv_advertised_authority cfg);
        let base_path = the (cv_base_path cfg);
        let endpoint_target_size = base_path_size + (if last base_path = CHR ''/'' then 0 else 1) +
              (ab_uuid_string_size abi - 1);
        if hd base_path \<noteq> CHR ''/'' \<or> sv_max_target_bytes (cv_server cfg) < endpoint_target_size \<or>
           list_ex (\<lambda>c. c = CHR ''/'' \<or> c = CHR ''?'' \<or> c = CHR ''#'') authority \<or>
           list_ex (\<lambda>c. c = CHR ''?'' \<or> c = CHR ''#'') base_path
        then None else Some (authority_size, base_path_size) })"

section \<open>The storage layout\<close>

record storage_layout =
  sl_total :: nat
  sl_authority :: nat
  sl_base_path :: nat
  sl_route_path :: nat
  sl_ingress_text :: nat
  sl_ingress_entries :: nat
  sl_endpoints :: nat
  sl_endpoint_uris :: nat
  sl_egress :: nat
  sl_cancel_tickets :: nat
  sl_connection_uris :: nat
  sl_authorities :: nat
  sl_targets :: nat
  sl_send_ids :: nat
  sl_bodies :: nat

definition checked_multiply :: "nat \<Rightarrow> nat \<Rightarrow> nat option" where
  "checked_multiply left right = (if left \<noteq> 0 \<and> right > SIZE_MAX div left then None else Some (left * right))"

text \<open>The offset of a slice and the new total.\<close>

definition layout_take :: "nat \<Rightarrow> nat \<Rightarrow> nat \<Rightarrow> nat \<Rightarrow> (nat \<times> nat) option" where
  "layout_take allocated alignment count width =
     (if alignment = 0 then None
      else do {
        padded \<leftarrow> checked_add allocated (alignment - 1);
        let aligned = padded - padded mod alignment;
        bytes \<leftarrow> checked_multiply count width;
        upper \<leftarrow> checked_add aligned bytes;
        Some (aligned, upper) })"

definition calculate_storage_layout :: "http_abi \<Rightarrow> http_config_v1 \<Rightarrow> nat \<Rightarrow> nat \<Rightarrow> storage_layout option" where
  "calculate_storage_layout abi cfg authority_size base_path_size = do {
     authority_bytes \<leftarrow> checked_add authority_size 1;
     base_path_bytes \<leftarrow> checked_add base_path_size 1;
     route_path_bytes \<leftarrow> checked_add base_path_size (if last (the (cv_base_path cfg)) = CHR ''/'' then 10 else 11);
     ingress_text_bytes \<leftarrow> checked_add (sv_max_request_body_bytes (cv_server cfg)) 1;
     string_stride \<leftarrow> checked_add (cv_max_access_uri_bytes cfg) 1;
     (authority, t1) \<leftarrow> layout_take 0 1 1 authority_bytes;
     (base_path, t2) \<leftarrow> layout_take t1 1 1 base_path_bytes;
     (route_path, t3) \<leftarrow> layout_take t2 1 1 route_path_bytes;
     (ingress_text, t4) \<leftarrow> layout_take t3 1 1 ingress_text_bytes;
     (ingress_entries, t5) \<leftarrow> layout_take t4 (fst (ab_form_entry abi)) (max_form_entry_count (cv_limits cfg))
        (snd (ab_form_entry abi));
     (endpoints, t6) \<leftarrow> layout_take t5 (fst (ab_endpoint_row abi)) (cv_endpoint_capacity cfg) (snd (ab_endpoint_row abi));
     (endpoint_uris, t7) \<leftarrow> layout_take t6 1 (cv_endpoint_capacity cfg) string_stride;
     (egress, t8) \<leftarrow> layout_take t7 (fst (ab_egress_row abi)) (cv_egress_capacity cfg) (snd (ab_egress_row abi));
     (cancel_tickets, t9) \<leftarrow> layout_take t8 (fst (ab_cancel_ticket abi)) (cv_egress_capacity cfg) (snd (ab_cancel_ticket abi));
     (connection_uris, t10) \<leftarrow> layout_take t9 1 (cv_egress_capacity cfg) string_stride;
     (authorities, t11) \<leftarrow> layout_take t10 1 (cv_egress_capacity cfg) string_stride;
     (targets, t12) \<leftarrow> layout_take t11 1 (cv_egress_capacity cfg) string_stride;
     (send_ids, t13) \<leftarrow> layout_take t12 1 (cv_egress_capacity cfg) (SCXML_EVENT_METADATA_CAPACITY + 1);
     (bodies, t14) \<leftarrow> layout_take t13 1 (cv_egress_capacity cfg) (max_encoded_body_bytes (cv_limits cfg));
     Some \<lparr>sl_total = t14, sl_authority = authority, sl_base_path = base_path, sl_route_path = route_path,
       sl_ingress_text = ingress_text, sl_ingress_entries = ingress_entries, sl_endpoints = endpoints,
       sl_endpoint_uris = endpoint_uris, sl_egress = egress, sl_cancel_tickets = cancel_tickets,
       sl_connection_uris = connection_uris, sl_authorities = authorities, sl_targets = targets,
       sl_send_ids = send_ids, sl_bodies = bodies\<rparr> }"

text \<open>The text that the initialisation prints into the slice of the route path.\<close>

definition route_path_text :: "string \<Rightarrow> string" where
  "route_path_text base_path = base_path @ (if last base_path = CHR ''/'' then '':endpoint'' else ''/:endpoint'')"

section \<open>Initialisation\<close>

definition copied_config :: "http_config_v1 \<Rightarrow> http_config" where
  "copied_config cfg = \<lparr>hc_limits = cv_limits cfg, hc_max_access_uri_bytes = cv_max_access_uri_bytes cfg,
     hc_endpoint_capacity = cv_endpoint_capacity cfg, hc_egress_capacity = cv_egress_capacity cfg,
     hc_advertised_authority = the (cv_advertised_authority cfg), hc_base_path = the (cv_base_path cfg),
     hc_bound_port = 0, hc_max_request_body_bytes = sv_max_request_body_bytes (cv_server cfg)\<rparr>"

text \<open>
  \<open>object_ok\<close>, \<open>storage_ok\<close>, \<open>mutex_ok\<close> and \<open>condition_ok\<close> are the outcomes of the allocations,
  \<open>server_init\<close> and \<open>route\<close> those of the two server calls.
\<close>

definition scxml_chttp_processor_init ::
  "http_abi \<Rightarrow> bool \<Rightarrow> bool \<Rightarrow> bool \<Rightarrow> bool \<Rightarrow> salts_status \<Rightarrow> salts_status \<Rightarrow> http_processor option \<Rightarrow> http_config_v1 \<Rightarrow>
   salts_status \<times> http_processor option" where
  "scxml_chttp_processor_init abi object_ok storage_ok mutex_ok condition_ok server_init route existing cfg =
     (if existing \<noteq> None then (SALTS_EALREADY, existing)
      else case processor_config_valid abi cfg of
        None \<Rightarrow> (SALTS_EINVAL, None)
      | Some (authority_size, base_path_size) \<Rightarrow>
          (case calculate_storage_layout abi cfg authority_size base_path_size of
             None \<Rightarrow> (SALTS_ERANGE, None)
           | Some layout \<Rightarrow>
               if \<not> object_ok \<or> \<not> storage_ok \<or> \<not> mutex_ok \<or> \<not> condition_ok then (SALTS_ENOMEM, None)
               else if server_init \<noteq> SALTS_OK then (server_init, None)
               else if route \<noteq> SALTS_OK then (route, None)
               else (SALTS_OK, Some (fresh_http_processor (copied_config cfg)))))"

section \<open>Statistics\<close>

record http_stats =
  st_egress_accepted :: u64
  st_egress_completed :: u64
  st_egress_failed :: u64
  st_egress_cancelled :: u64
  st_ingress_requests :: u64
  st_ingress_admitted :: u64
  st_ingress_rejected :: u64
  st_invariant_failures :: u64
  st_live_bindings :: nat
  st_queued_egress :: nat
  st_in_flight_egress :: nat
  st_active_callbacks :: nat
  st_outbound_references :: nat
  st_running :: bool
  st_stopping :: bool

definition scxml_chttp_processor_get_stats :: "http_processor \<Rightarrow> http_stats" where
  "scxml_chttp_processor_get_stats p =
     (let bound = List.map_filter ep_binding (hp_endpoints p) in
      \<lparr>st_egress_accepted = hp_egress_accepted p, st_egress_completed = hp_egress_completed p,
       st_egress_failed = hp_egress_failed p, st_egress_cancelled = hp_egress_cancelled p,
       st_ingress_requests = hp_ingress_requests p, st_ingress_admitted = hp_ingress_admitted p,
       st_ingress_rejected = hp_ingress_rejected p, st_invariant_failures = hp_invariant_failures p,
       st_live_bindings = hp_live_bindings p, st_queued_egress = hp_queued_egress p,
       st_in_flight_egress = hp_in_flight_egress p,
       st_active_callbacks = sum_list (map (\<lambda>b. bd_active_callbacks (http_binding_at p b)) bound),
       st_outbound_references = sum_list (map (\<lambda>b. bd_outbound_references (http_binding_at p b)) bound),
       st_running = (hp_state p = SCXML_CHTTP_PROCESSOR_RUNNING),
       st_stopping = (hp_state p = SCXML_CHTTP_PROCESSOR_STOPPING)\<rparr>)"

section \<open>Slices\<close>

lemma checked_multiply_SomeD: "checked_multiply a b = Some n \<Longrightarrow> n = a * b \<and> n \<le> SIZE_MAX"
  by (cases "a = 0") (auto simp: checked_multiply_def less_eq_div_iff_mult_less_eq mult.commute not_less split: if_splits)

lemma checked_multiply_fits: "a * b \<le> SIZE_MAX \<Longrightarrow> checked_multiply a b = Some (a * b)"
  by (auto simp: checked_multiply_def not_less [symmetric] div_less_iff_less_mult mult.commute
      dest: less_eq_div_iff_mult_less_eq [THEN iffD2, rotated])

lemma checked_add_fits: "a + b \<le> SIZE_MAX \<Longrightarrow> checked_add a b = Some (a + b)"
  by (simp add: checked_add_def)

lemma layout_takeD:
  assumes "layout_take t a n w = Some (off, upper)"
  shows "t \<le> off" "a dvd off" "upper = off + n * w" "upper \<le> SIZE_MAX"
proof -
  have a: "a \<noteq> 0" using assms by (cases "a = 0") (simp_all add: layout_take_def)
  with assms obtain bytes where *: "checked_multiply n w = Some bytes" "off = (t + (a - 1)) - (t + (a - 1)) mod a"
      "checked_add off bytes = Some upper"
    by (auto simp: layout_take_def Let_def bind_eq_Some_conv checked_add_def split: if_splits)
  have "(t + (a - 1)) mod a \<le> a - 1" using a by (simp add: less_Suc_eq_le [symmetric])
  with *(2) show "t \<le> off" by linarith
  show "a dvd off" unfolding *(2) by (metis dvd_minus_mod)
  show "upper = off + n * w" "upper \<le> SIZE_MAX"
    using *(3) checked_multiply_SomeD [OF *(1)] by (auto simp: checked_add_def split: if_splits)
qed

lemma layout_take_fits:
  assumes "0 < a" "t + (a - 1) + n * w \<le> SIZE_MAX"
  obtains off where "layout_take t a n w = Some (off, off + n * w)" "off \<le> t + (a - 1)"
proof
  let ?off = "(t + (a - 1)) - (t + (a - 1)) mod a"
  have "checked_add t (a - 1) = Some (t + (a - 1))" "checked_multiply n w = Some (n * w)"
    "checked_add ?off (n * w) = Some (?off + n * w)"
    using assms by (intro checked_add_fits checked_multiply_fits; simp)+
  then show "layout_take t a n w = Some (?off, ?off + n * w)" "?off \<le> t + (a - 1)"
    using assms(1) by (simp_all add: layout_take_def Let_def)
qed

definition precedes_slice :: "nat \<times> nat \<Rightarrow> nat \<times> nat \<Rightarrow> bool" where
  "precedes_slice x y \<longleftrightarrow> fst x + snd x \<le> fst y"

lemma transp_precedes_slice: "transp precedes_slice"
  by (auto simp: transp_def precedes_slice_def)

text \<open>The slices with their sizes in bytes, in the order of the block.\<close>

definition layout_slices :: "http_abi \<Rightarrow> http_config_v1 \<Rightarrow> storage_layout \<Rightarrow> (nat \<times> nat) list" where
  "layout_slices abi cfg l =
     (let base_path = the (cv_base_path cfg); stride = cv_max_access_uri_bytes cfg + 1;
          endpoints = cv_endpoint_capacity cfg; rows = cv_egress_capacity cfg in
      [(sl_authority l, length (the (cv_advertised_authority cfg)) + 1),
       (sl_base_path l, length base_path + 1),
       (sl_route_path l, length (route_path_text base_path) + 1),
       (sl_ingress_text l, sv_max_request_body_bytes (cv_server cfg) + 1),
       (sl_ingress_entries l, max_form_entry_count (cv_limits cfg) * snd (ab_form_entry abi)),
       (sl_endpoints l, endpoints * snd (ab_endpoint_row abi)),
       (sl_endpoint_uris l, endpoints * stride),
       (sl_egress l, rows * snd (ab_egress_row abi)),
       (sl_cancel_tickets l, rows * snd (ab_cancel_ticket abi)),
       (sl_connection_uris l, rows * stride),
       (sl_authorities l, rows * stride),
       (sl_targets l, rows * stride),
       (sl_send_ids l, rows * (SCXML_EVENT_METADATA_CAPACITY + 1)),
       (sl_bodies l, rows * max_encoded_body_bytes (cv_limits cfg))])"

lemma layout_addD: "checked_add a b = Some n \<Longrightarrow> n = a + b"
  by (auto simp: checked_add_def split: if_splits)

lemma layout_SomeE:
  assumes "calculate_storage_layout abi cfg authority_size base_path_size = Some l"
  obtains t1 t2 t3 t4 t5 t6 t7 t8 t9 t10 t11 t12 t13 where
    "layout_take 0 1 1 (authority_size + 1) = Some (sl_authority l, t1)"
    "layout_take t1 1 1 (base_path_size + 1) = Some (sl_base_path l, t2)"
    "layout_take t2 1 1 (base_path_size + (if last (the (cv_base_path cfg)) = CHR ''/'' then 10 else 11)) =
       Some (sl_route_path l, t3)"
    "layout_take t3 1 1 (sv_max_request_body_bytes (cv_server cfg) + 1) = Some (sl_ingress_text l, t4)"
    "layout_take t4 (fst (ab_form_entry abi)) (max_form_entry_count (cv_limits cfg)) (snd (ab_form_entry abi)) =
       Some (sl_ingress_entries l, t5)"
    "layout_take t5 (fst (ab_endpoint_row abi)) (cv_endpoint_capacity cfg) (snd (ab_endpoint_row abi)) =
       Some (sl_endpoints l, t6)"
    "layout_take t6 1 (cv_endpoint_capacity cfg) (cv_max_access_uri_bytes cfg + 1) = Some (sl_endpoint_uris l, t7)"
    "layout_take t7 (fst (ab_egress_row abi)) (cv_egress_capacity cfg) (snd (ab_egress_row abi)) =
       Some (sl_egress l, t8)"
    "layout_take t8 (fst (ab_cancel_ticket abi)) (cv_egress_capacity cfg) (snd (ab_cancel_ticket abi)) =
       Some (sl_cancel_tickets l, t9)"
    "layout_take t9 1 (cv_egress_capacity cfg) (cv_max_access_uri_bytes cfg + 1) = Some (sl_connection_uris l, t10)"
    "layout_take t10 1 (cv_egress_capacity cfg) (cv_max_access_uri_bytes cfg + 1) = Some (sl_authorities l, t11)"
    "layout_take t11 1 (cv_egress_capacity cfg) (cv_max_access_uri_bytes cfg + 1) = Some (sl_targets l, t12)"
    "layout_take t12 1 (cv_egress_capacity cfg) (SCXML_EVENT_METADATA_CAPACITY + 1) = Some (sl_send_ids l, t13)"
    "layout_take t13 1 (cv_egress_capacity cfg) (max_encoded_body_bytes (cv_limits cfg)) = Some (sl_bodies l, sl_total l)"
  using assms unfolding calculate_storage_layout_def
  by (clarsimp simp: bind_eq_Some_conv dest!: layout_addD)

lemma route_path_size: "length (route_path_text b) + 1 = length b + (if last b = CHR ''/'' then 10 else 11)"
  by (simp add: route_path_text_def)

lemma layout_SomeD:
  assumes l: "calculate_storage_layout abi cfg (length (the (cv_advertised_authority cfg)))
      (length (the (cv_base_path cfg))) = Some l"
  shows "sorted_wrt precedes_slice (layout_slices abi cfg l) \<and>
    fst (last (layout_slices abi cfg l)) + snd (last (layout_slices abi cfg l)) = sl_total l \<and>
    sl_total l \<le> SIZE_MAX \<and>
    fst (ab_form_entry abi) dvd sl_ingress_entries l \<and> fst (ab_endpoint_row abi) dvd sl_endpoints l \<and>
    fst (ab_egress_row abi) dvd sl_egress l \<and> fst (ab_cancel_ticket abi) dvd sl_cancel_tickets l"
  using l
proof (rule layout_SomeE)
  fix t1 t2 t3 t4 t5 t6 t7 t8 t9 t10 t11 t12 t13
  assume takes:
    "layout_take 0 1 1 (length (the (cv_advertised_authority cfg)) + 1) = Some (sl_authority l, t1)"
    "layout_take t1 1 1 (length (the (cv_base_path cfg)) + 1) = Some (sl_base_path l, t2)"
    "layout_take t2 1 1 (length (the (cv_base_path cfg)) + (if last (the (cv_base_path cfg)) = CHR ''/'' then 10 else 11)) =
       Some (sl_route_path l, t3)"
    "layout_take t3 1 1 (sv_max_request_body_bytes (cv_server cfg) + 1) = Some (sl_ingress_text l, t4)"
    "layout_take t4 (fst (ab_form_entry abi)) (max_form_entry_count (cv_limits cfg)) (snd (ab_form_entry abi)) =
       Some (sl_ingress_entries l, t5)"
    "layout_take t5 (fst (ab_endpoint_row abi)) (cv_endpoint_capacity cfg) (snd (ab_endpoint_row abi)) =
       Some (sl_endpoints l, t6)"
    "layout_take t6 1 (cv_endpoint_capacity cfg) (cv_max_access_uri_bytes cfg + 1) = Some (sl_endpoint_uris l, t7)"
    "layout_take t7 (fst (ab_egress_row abi)) (cv_egress_capacity cfg) (snd (ab_egress_row abi)) =
       Some (sl_egress l, t8)"
    "layout_take t8 (fst (ab_cancel_ticket abi)) (cv_egress_capacity cfg) (snd (ab_cancel_ticket abi)) =
       Some (sl_cancel_tickets l, t9)"
    "layout_take t9 1 (cv_egress_capacity cfg) (cv_max_access_uri_bytes cfg + 1) = Some (sl_connection_uris l, t10)"
    "layout_take t10 1 (cv_egress_capacity cfg) (cv_max_access_uri_bytes cfg + 1) = Some (sl_authorities l, t11)"
    "layout_take t11 1 (cv_egress_capacity cfg) (cv_max_access_uri_bytes cfg + 1) = Some (sl_targets l, t12)"
    "layout_take t12 1 (cv_egress_capacity cfg) (SCXML_EVENT_METADATA_CAPACITY + 1) = Some (sl_send_ids l, t13)"
    "layout_take t13 1 (cv_egress_capacity cfg) (max_encoded_body_bytes (cv_limits cfg)) = Some (sl_bodies l, sl_total l)"
  note below = takes [THEN layout_takeD(1)] and aligned = takes [THEN layout_takeD(2)]
    and ends = takes [THEN layout_takeD(3)] and small = takes [THEN layout_takeD(4)]
  have "sorted_wrt precedes_slice (layout_slices abi cfg l)"
    unfolding layout_slices_def Let_def sorted_wrt2 [OF transp_precedes_slice]
    using below ends by (simp add: precedes_slice_def flip: route_path_size)
  moreover have "fst (last (layout_slices abi cfg l)) + snd (last (layout_slices abi cfg l)) = sl_total l"
    using ends(14) by (simp add: layout_slices_def Let_def)
  ultimately show ?thesis using small(14) aligned(5,6,8,9) by simp
qed

text \<open>
  Property (C34). The storage block is carved up soundly: when the configuration is accepted and the layout
  computed, the fourteen slices lie one behind the other in one block whose size does not
  overflow, each is large enough for what the initialisation puts there (the copied authority
  and base path, the printed route, one form, the tables, and one buffer of every kind for each
  row), the tables are aligned for their types, and the accepted base path starts with a slash,
  so its last character is defined.
\<close>

theorem storage_layout_disjoint:
  assumes "processor_config_valid abi cfg = Some (authority_size, base_path_size)"
    and "calculate_storage_layout abi cfg authority_size base_path_size = Some l"
  shows "sorted_wrt (\<lambda>x y. fst x + snd x \<le> fst y) (layout_slices abi cfg l) \<and>
    sl_bodies l + cv_egress_capacity cfg * max_encoded_body_bytes (cv_limits cfg) = sl_total l \<and>
    sl_total l \<le> SIZE_MAX \<and>
    fst (ab_form_entry abi) dvd sl_ingress_entries l \<and> fst (ab_endpoint_row abi) dvd sl_endpoints l \<and>
    fst (ab_egress_row abi) dvd sl_egress l \<and> fst (ab_cancel_ticket abi) dvd sl_cancel_tickets l \<and>
    (\<exists>base_path. cv_base_path cfg = Some base_path \<and> base_path \<noteq> [] \<and> hd base_path = CHR ''/'')"
proof -
  from assms(1) obtain a b where strs: "cv_advertised_authority cfg = Some a" "cv_base_path cfg = Some b" "b \<noteq> []"
      "hd b = CHR ''/''" "authority_size = length a" "base_path_size = length b"
    unfolding processor_config_valid_def
    by (cases "cv_advertised_authority cfg"; cases "cv_base_path cfg")
       (auto simp: bind_eq_Some_conv Let_def split: if_splits)
  have "precedes_slice = (\<lambda>x y. fst x + snd x \<le> fst y)" by (simp add: precedes_slice_def fun_eq_iff)
  then show ?thesis using layout_SomeD [of abi cfg l] assms(2) strs
    by (simp add: layout_slices_def Let_def)
qed

definition demo_config :: http_config_v1 where
  "demo_config = \<lparr>cv_abi_version = 1, cv_struct_size = 400,
     cv_server = \<lparr>sv_route_capacity = 1, sv_max_route_param_count = 1, sv_max_route_param_bytes = 64,
       sv_max_request_body_bytes = 256, sv_max_target_bytes = 64, sv_command_capacity = 8\<rparr>,
     cv_client = \<lparr>cl_max_request_body_bytes = 256, cl_command_capacity = 8\<rparr>,
     cv_advertised_authority = Some ''host'', cv_base_path = Some ''/scxml'', cv_endpoint_capacity = 2,
     cv_egress_capacity = 3, cv_max_access_uri_bytes = 100,
     cv_limits = \<lparr>max_event_name_bytes = 64, max_form_entry_count = 8, max_form_name_bytes = 64,
       max_form_value_bytes = 64, max_encoded_body_bytes = 256\<rparr>,
     cv_request_timeout_ms = 1000, cv_worker_poll_ms = 5, cv_resolve_set = True\<rparr>"

definition demo_abi :: http_abi where
  "demo_abi = \<lparr>ab_config_size = 400, ab_uuid_string_size = 37, ab_form_entry = (8, 32),
     ab_endpoint_row = (8, 64), ab_egress_row = (8, 144), ab_cancel_ticket = (8, 24)\<rparr>"

lemma demo_config_valid: "processor_config_valid demo_abi demo_config = Some (4, 6)"
  by (simp add: processor_config_valid_def demo_abi_def demo_config_def SCXML_CHTTP_ABI_V1_def is_power_of_two_def
      SCXML_EVENT_METADATA_CAPACITY_def)

lemma demo_layout: "map_option sl_total (calculate_storage_layout demo_abi demo_config 4 6) = Some 3832"
  by (simp add: calculate_storage_layout_def layout_take_def checked_add_def checked_multiply_def SIZE_MAX_def
      demo_abi_def demo_config_def SCXML_EVENT_METADATA_CAPACITY_def)

theorem storage_layout_disjoint_witness:
  "sl_bodies (the (calculate_storage_layout demo_abi demo_config 4 6)) + 768 = 3832"
proof -
  obtain l where l: "calculate_storage_layout demo_abi demo_config 4 6 = Some l" "sl_total l = 3832"
    using demo_layout by auto
  then show ?thesis using storage_layout_disjoint [OF demo_config_valid l(1)]
    by (simp add: demo_config_def)
qed

end
