(* ===== verification/Http_Lifecycle.thy ===== *)
theory Http_Lifecycle
  imports Http_Safety Http_Config
begin

text \<open>
  Model of the life cycle in \<^verbatim>\<open>src/chttp_event_io.c\<close>: the worker thread, start, stop and
  destroy. The tables of the processor are the state of \<open>Http_Safety\<close>; the flags that the
  worker and its owner exchange are a record around it. Every section under the mutex is one function;
  what the server, the client and the thread library answer is an argument.

  The condition variable \<open>wake\<close> is the set of the threads that sleep on it: waiting adds a thread, a
  broadcast empties the set, and a thread in the set makes no step. A wake-up without a broadcast (the signals that
  the operations on the tables send, or a spurious one) may come at any time and only makes a thread look again.
\<close>

section \<open>The flags\<close>

datatype sleeper = Starting_Thread | Worker_Thread | Stopping_Thread

record http_system =
  sy_core :: http_processor
  sy_stop_active :: bool
  sy_stop_requested :: bool
  sy_stop_attempt_complete :: bool
  sy_worker_started :: bool
  sy_worker_ready :: bool
  sy_worker_exited :: bool
  sy_server_started :: bool
  sy_server_stopped :: bool
  sy_client_stopped :: bool
  sy_client_destroyed :: bool
  sy_stop_deadline_ms :: u64
  sy_stop_generation :: u64
  sy_worker_stop_status :: salts_status
  sy_worker_init_status :: salts_status
  sy_shutdown_terminal_status :: salts_status
  sy_asleep :: "sleeper set"

abbreviation sy_state :: "http_system \<Rightarrow> http_processor_state" where
  "sy_state s \<equiv> hp_state (sy_core s)"

text \<open>The memory is cleared, so every status starts as zero, which is \<^verbatim>\<open>SALTS_OK\<close>.\<close>

definition fresh_system :: "http_config \<Rightarrow> http_system" where
  "fresh_system cfg = \<lparr>sy_core = fresh_http_processor cfg, sy_stop_active = False, sy_stop_requested = False,
     sy_stop_attempt_complete = False, sy_worker_started = False, sy_worker_ready = False,
     sy_worker_exited = False, sy_server_started = False, sy_server_stopped = False,
     sy_client_stopped = True, sy_client_destroyed = True, sy_stop_deadline_ms = 0, sy_stop_generation = 0,
     sy_worker_stop_status = SALTS_OK, sy_worker_init_status = SALTS_OK,
     sy_shutdown_terminal_status = SALTS_OK, sy_asleep = {}\<rparr>"

definition cmeta_cond_wait :: "sleeper \<Rightarrow> http_system \<Rightarrow> http_system" where
  "cmeta_cond_wait x s = s\<lparr>sy_asleep := insert x (sy_asleep s)\<rparr>"

definition cmeta_cond_broadcast :: "http_system \<Rightarrow> http_system" where
  "cmeta_cond_broadcast s = s\<lparr>sy_asleep := {}\<rparr>"

definition set_state :: "http_processor_state \<Rightarrow> http_system \<Rightarrow> http_system" where
  "set_state st s = s\<lparr>sy_core := (sy_core s)\<lparr>hp_state := st\<rparr>\<rparr>"

section \<open>Deadlines\<close>

definition stop_deadline :: "u64 \<Rightarrow> u32 \<Rightarrow> u64" where
  "stop_deadline now timeout_ms =
     (if timeout_ms = 0 then UINT64_MAX
      else if now > UINT64_MAX - ucast timeout_ms then UINT64_MAX else now + ucast timeout_ms)"

definition remaining_timeout_ms :: "u64 \<Rightarrow> u64 \<Rightarrow> u32 option" where
  "remaining_timeout_ms now deadline_ms =
     (if deadline_ms = UINT64_MAX then Some 0
      else if now \<ge> deadline_ms then None
      else let remaining = deadline_ms - now;
               out = (if remaining > ucast UINT32_MAX then UINT32_MAX else ucast remaining) in
           Some (if out = 0 then 1 else out))"

section \<open>Start\<close>

datatype start_next = Start_Returns salts_status | Start_Unwinds salts_status | Start_Waits

text \<open>The test of the loop that waits for the worker.\<close>

definition start_sleep :: "http_system \<Rightarrow> http_system" where
  "start_sleep s = (if sy_worker_ready s then s else cmeta_cond_wait Starting_Thread s)"

text \<open>From the guard to the wait for the worker.\<close>

definition start_enter ::
  "salts_status \<Rightarrow> salts_status \<times> nat \<Rightarrow> salts_status \<Rightarrow> http_system \<Rightarrow> start_next \<times> http_system" where
  "start_enter server_start port create s =
     (if sy_state s \<noteq> SCXML_CHTTP_PROCESSOR_INITIALIZED \<or> sy_worker_started s
      then (Start_Returns (if sy_state s = SCXML_CHTTP_PROCESSOR_RUNNING then SALTS_EALREADY else SALTS_EBUSY), s)
      else if server_start \<noteq> SALTS_OK then (Start_Returns server_start, s)
      else let s1 = s\<lparr>sy_server_started := True\<rparr> in
        if fst port \<noteq> SALTS_OK then (Start_Unwinds (fst port), s1)
        else let s2 = s1\<lparr>sy_core := (sy_core s)\<lparr>hp_config := (hp_config (sy_core s))\<lparr>hc_bound_port := snd port\<rparr>\<rparr>,
                         sy_stop_requested := False, sy_worker_exited := False\<rparr> in
          if create \<noteq> SALTS_OK then (Start_Unwinds create, s2)
          else (Start_Waits, start_sleep (s2\<lparr>sy_worker_started := True\<rparr>)))"

text \<open>After the worker is ready; \<open>join\<close> is the outcome of joining a worker that failed.\<close>

definition start_ready :: "salts_status \<Rightarrow> http_system \<Rightarrow> start_next \<times> http_system" where
  "start_ready join s =
     (if sy_worker_init_status s \<noteq> SALTS_OK
      then (Start_Unwinds (sy_worker_init_status s), if join = SALTS_OK then s\<lparr>sy_worker_started := False\<rparr> else s)
      else (Start_Returns SALTS_OK, set_state SCXML_CHTTP_PROCESSOR_RUNNING s))"

definition start_unwind :: "salts_status \<Rightarrow> http_system \<Rightarrow> http_system" where
  "start_unwind server_stop s =
     (let s1 = (if server_stop = SALTS_OK then s\<lparr>sy_server_stopped := True\<rparr> else s) in
      set_state (if server_stop = SALTS_OK \<and> sy_client_destroyed s1 \<and> \<not> sy_worker_started s1
                 then SCXML_CHTTP_PROCESSOR_STOPPED else SCXML_CHTTP_PROCESSOR_STOPPING) s1)"

section \<open>The worker\<close>

datatype worker_pc =
    Worker_None
  | Worker_Created
  | Worker_Top
  | Worker_Working
  | Worker_Stopping u64 u64 bool bool
  | Worker_Waiting u64
  | Worker_Returned

text \<open>Publication of the outcome of the client initialisation.\<close>

definition worker_begin :: "salts_status \<Rightarrow> http_system \<Rightarrow> worker_pc \<times> http_system" where
  "worker_begin init_status s =
     (if init_status \<noteq> SALTS_OK then Worker_Returned else Worker_Top,
      cmeta_cond_broadcast (s\<lparr>sy_worker_init_status := init_status, sy_worker_ready := True,
        sy_client_stopped := (init_status \<noteq> SALTS_OK), sy_client_destroyed := (init_status \<noteq> SALTS_OK),
        sy_worker_exited := (init_status \<noteq> SALTS_OK)\<rparr>))"

text \<open>The top of the loop: read the request to stop, or go on with cancelling, submitting and polling.\<close>

definition worker_top :: "http_system \<Rightarrow> worker_pc" where
  "worker_top s =
     (if sy_stop_requested s
      then Worker_Stopping (sy_stop_generation s) (sy_stop_deadline_ms s) (sy_client_stopped s) (sy_client_destroyed s)
      else Worker_Working)"

text \<open>One attempt to stop and destroy the client; \<open>now\<close> is the clock, \<open>stop\<close> and \<open>destroy\<close> the answers.\<close>

definition worker_attempt ::
  "u64 \<Rightarrow> salts_status \<Rightarrow> salts_status \<Rightarrow> u64 \<Rightarrow> bool \<Rightarrow> bool \<Rightarrow> salts_status \<times> bool \<times> bool" where
  "worker_attempt now stop destroy deadline_ms stopped destroyed =
     (let stop_status = (if stopped then SALTS_OK
                         else if remaining_timeout_ms now deadline_ms = None then SALTS_ETIMEDOUT else stop);
          stopped1 = (stopped \<or> stop_status = SALTS_OK) in
      if stop_status = SALTS_OK \<and> \<not> destroyed then (destroy, stopped1, destroy = SALTS_OK)
      else (stop_status, stopped1, destroyed))"

definition worker_settle :: "u64 \<Rightarrow> salts_status \<times> bool \<times> bool \<Rightarrow> http_system \<Rightarrow> worker_pc \<times> http_system" where
  "worker_settle generation outcome s =
     (case outcome of (stop_status, stopped, destroyed) \<Rightarrow>
        let s1 = s\<lparr>sy_client_stopped := stopped, sy_client_destroyed := destroyed\<rparr> in
        if stop_status = SALTS_OK
        then (Worker_Returned,
              cmeta_cond_broadcast (s1\<lparr>sy_worker_stop_status := SALTS_OK, sy_stop_attempt_complete := True,
                                       sy_worker_exited := True\<rparr>))
        else if sy_stop_generation s1 = generation
        then (Worker_Waiting generation,
              cmeta_cond_wait Worker_Thread (cmeta_cond_broadcast
                (s1\<lparr>sy_worker_stop_status := stop_status, sy_stop_attempt_complete := True\<rparr>)))
        else (Worker_Top, s1))"

text \<open>What the client library answers to the worker.\<close>

record worker_env =
  we_init :: salts_status
  we_now :: u64
  we_stop :: salts_status
  we_destroy :: salts_status

text \<open>
  The next section of the worker, if it is not asleep or gone. Its pause between two rounds of work is a
  timed wait that always ends, so it is not recorded; its wait after a failed attempt to stop is not timed.
\<close>

fun worker_section :: "worker_env \<Rightarrow> worker_pc \<Rightarrow> http_system \<Rightarrow> (worker_pc \<times> http_system) option" where
  "worker_section env Worker_None s = None"
| "worker_section env Worker_Created s = Some (worker_begin (we_init env) s)"
| "worker_section env Worker_Top s = Some (worker_top s, s)"
| "worker_section env Worker_Working s = Some (Worker_Top, s)"
| "worker_section env (Worker_Stopping generation deadline_ms stopped destroyed) s =
     Some (worker_settle generation
       (worker_attempt (we_now env) (we_stop env) (we_destroy env) deadline_ms stopped destroyed) s)"
| "worker_section env (Worker_Waiting generation) s =
     (if Worker_Thread \<in> sy_asleep s then None
      else if sy_stop_generation s = generation then Some (Worker_Waiting generation, cmeta_cond_wait Worker_Thread s)
      else Some (Worker_Top, s))"
| "worker_section env Worker_Returned s = None"

section \<open>Stop\<close>

definition stop_enter :: "http_system \<Rightarrow> salts_status \<times> http_system" where
  "stop_enter s =
     (case stop_begin (sy_stop_active s) (sy_core s) of (status, core) \<Rightarrow>
        (status, if status = SALTS_OK then s\<lparr>sy_core := core, sy_stop_active := True\<rparr> else s))"

text \<open>
  The server phase: \<open>Inl\<close> is a jump to the end with a status, \<open>Inr\<close> the first status of a
  completed phase. \<open>settled\<close> says that the statistics of the server could be read and show it neither running nor stopping.
\<close>

definition stop_server :: "u32 option \<Rightarrow> salts_status \<Rightarrow> bool \<Rightarrow> http_system \<Rightarrow> (salts_status + salts_status) \<times> http_system" where
  "stop_server remaining server_stop settled s =
     (if \<not> sy_server_started s \<or> sy_server_stopped s then (Inr SALTS_OK, s)
      else if remaining = None then (Inl SALTS_ETIMEDOUT, s)
      else if server_stop = SALTS_OK then (Inr SALTS_OK, s\<lparr>sy_server_stopped := True\<rparr>)
      else if \<not> settled then (Inl server_stop, s)
      else let terminal = (if sy_shutdown_terminal_status s = SALTS_OK then server_stop
                           else sy_shutdown_terminal_status s) in
        (Inr terminal, s\<lparr>sy_shutdown_terminal_status := terminal, sy_server_stopped := True\<rparr>))"

definition next_stop_generation :: "u64 \<Rightarrow> u64" where
  "next_stop_generation g = (if g + 1 = 0 then 1 else g + 1)"

definition stop_request :: "u64 \<Rightarrow> http_system \<Rightarrow> http_system" where
  "stop_request deadline_ms s =
     (if sy_worker_exited s then s
      else cmeta_cond_broadcast (s\<lparr>sy_stop_generation := next_stop_generation (sy_stop_generation s),
             sy_stop_deadline_ms := deadline_ms, sy_stop_attempt_complete := False, sy_stop_requested := True\<rparr>))"

definition stop_wait_over :: "http_system \<Rightarrow> bool" where
  "stop_wait_over s \<longleftrightarrow> sy_stop_attempt_complete s \<or> sy_worker_exited s"

text \<open>The test of the loop that waits for the outcome.\<close>

definition stop_sleep :: "http_system \<Rightarrow> http_system" where
  "stop_sleep s = (if stop_wait_over s then s else cmeta_cond_wait Stopping_Thread s)"

definition stop_wait_status :: "http_system \<Rightarrow> salts_status" where
  "stop_wait_status s = (if sy_worker_exited s then SALTS_OK else sy_worker_stop_status s)"

definition stop_finish :: "salts_status \<Rightarrow> http_system \<Rightarrow> salts_status \<times> http_system" where
  "stop_finish status s =
     (if sy_server_stopped s \<and> \<not> sy_worker_started s \<and> sy_client_destroyed s
      then (if sy_shutdown_terminal_status s \<noteq> SALTS_OK then sy_shutdown_terminal_status s else status,
            (set_state SCXML_CHTTP_PROCESSOR_STOPPED s)\<lparr>sy_stop_active := False\<rparr>)
      else (status, s\<lparr>sy_stop_active := False\<rparr>))"

section \<open>Destroy\<close>

text \<open>The value is None once the memory is released.\<close>

definition scxml_chttp_processor_destroy :: "salts_status \<Rightarrow> http_system \<Rightarrow> salts_status \<times> http_system option" where
  "scxml_chttp_processor_destroy server_destroy s =
     (if sy_state s \<noteq> SCXML_CHTTP_PROCESSOR_STOPPED \<or> \<not> sy_client_destroyed s \<or> hp_live_bindings (sy_core s) \<noteq> 0
      then (SALTS_EBUSY, Some s)
      else if server_destroy \<noteq> SALTS_OK then (server_destroy, Some s)
      else (SALTS_OK, None))"

section \<open>The threads\<close>

datatype stop_pc =
    Stop_Idle
  | Stop_Server u64
  | Stop_Worker u64 salts_status
  | Stop_Waiting u64 salts_status
  | Stop_Joining salts_status
  | Stop_Finishing salts_status

text \<open>The worker, the thread that starts the processor and the one that stops it, between their sections.\<close>

record http_run =
  rn_system :: http_system
  rn_worker :: worker_pc
  rn_start_waits :: bool
  rn_stop :: stop_pc

definition fresh_run :: "http_config \<Rightarrow> http_run" where
  "fresh_run cfg = \<lparr>rn_system = fresh_system cfg, rn_worker = Worker_None, rn_start_waits = False, rn_stop = Stop_Idle\<rparr>"

text \<open>
  A start that has to unwind stops the server under the same lock, so it is one step with its
  section. The steps of the tables that leave the processor state alone are those of \<open>Http_Safety\<close>.
  A stop asks the worker only while the 64-bit generation has not run out.
\<close>

definition start_done :: "salts_status \<Rightarrow> start_next \<times> http_system \<Rightarrow> http_system" where
  "start_done server_stop result =
     (case result of (Start_Unwinds status, s) \<Rightarrow> start_unwind server_stop s | (_, s) \<Rightarrow> s)"

inductive life_step :: "http_run \<Rightarrow> http_run \<Rightarrow> bool" where
  core: "http_step (sy_core (rn_system r)) c \<Longrightarrow> hp_state c = sy_state (rn_system r) \<Longrightarrow>
    life_step r (r\<lparr>rn_system := (rn_system r)\<lparr>sy_core := c\<rparr>\<rparr>)"
| start: "start_enter server_start port create (rn_system r) = (after, s) \<Longrightarrow>
    life_step r (if after = Start_Waits then r\<lparr>rn_system := s, rn_worker := Worker_Created, rn_start_waits := True\<rparr>
                 else r\<lparr>rn_system := start_done server_stop (after, s)\<rparr>)"
| started: "rn_start_waits r \<Longrightarrow> Starting_Thread \<notin> sy_asleep (rn_system r) \<Longrightarrow> sy_worker_ready (rn_system r) \<Longrightarrow> start_ready join (rn_system r) = (after, s) \<Longrightarrow>
    life_step r (r\<lparr>rn_system := start_done server_stop (after, s), rn_start_waits := False,
      rn_worker := (if sy_worker_started s then rn_worker r else Worker_None)\<rparr>)"
| start_again: "rn_start_waits r \<Longrightarrow> Starting_Thread \<notin> sy_asleep (rn_system r) \<Longrightarrow> \<not> sy_worker_ready (rn_system r) \<Longrightarrow>
    life_step r (r\<lparr>rn_system := start_sleep (rn_system r)\<rparr>)"
| worker: "worker_section env (rn_worker r) (rn_system r) = Some (pc, s) \<Longrightarrow>
    life_step r (r\<lparr>rn_system := s, rn_worker := pc\<rparr>)"
| stop: "stop_enter (rn_system r) = (SALTS_OK, s) \<Longrightarrow>
    life_step r (r\<lparr>rn_system := s, rn_stop := Stop_Server deadline_ms\<rparr>)"
| stop_server: "rn_stop r = Stop_Server deadline_ms \<Longrightarrow> stop_server remaining server_stop settled (rn_system r) = (result, s) \<Longrightarrow>
    life_step r (r\<lparr>rn_system := s, rn_stop := (case result of Inl status \<Rightarrow> Stop_Finishing status
                                              | Inr first \<Rightarrow> Stop_Worker deadline_ms first)\<rparr>)"
| stop_worker: "rn_stop r = Stop_Worker deadline_ms first \<Longrightarrow> sy_stop_generation (rn_system r) \<noteq> UINT64_MAX \<Longrightarrow>
    life_step r (if sy_worker_started (rn_system r)
                 then r\<lparr>rn_system := stop_sleep (stop_request deadline_ms (rn_system r)), rn_stop := Stop_Waiting deadline_ms first\<rparr>
                 else r\<lparr>rn_stop := Stop_Finishing first\<rparr>)"
| stop_timeout: "rn_stop r = Stop_Waiting deadline_ms first \<Longrightarrow> deadline_ms \<noteq> UINT64_MAX \<Longrightarrow>
    \<not> stop_wait_over (rn_system r) \<Longrightarrow>
    life_step r (r\<lparr>rn_system := (rn_system r)\<lparr>sy_asleep := sy_asleep (rn_system r) - {Stopping_Thread}\<rparr>,
      rn_stop := Stop_Finishing SALTS_ETIMEDOUT\<rparr>)"
| stop_again: "rn_stop r = Stop_Waiting deadline_ms first \<Longrightarrow> Stopping_Thread \<notin> sy_asleep (rn_system r) \<Longrightarrow>
    \<not> stop_wait_over (rn_system r) \<Longrightarrow> life_step r (r\<lparr>rn_system := stop_sleep (rn_system r)\<rparr>)"
| stop_woken: "rn_stop r = Stop_Waiting deadline_ms first \<Longrightarrow> Stopping_Thread \<notin> sy_asleep (rn_system r) \<Longrightarrow>
    stop_wait_over (rn_system r) \<Longrightarrow>
    life_step r (r\<lparr>rn_stop := (if stop_wait_status (rn_system r) = SALTS_OK then Stop_Joining first
                              else Stop_Finishing (stop_wait_status (rn_system r)))\<rparr>)"
| wake: "life_step r (r\<lparr>rn_system := (rn_system r)\<lparr>sy_asleep := sy_asleep (rn_system r) - X\<rparr>\<rparr>)"
| stop_join: "rn_stop r = Stop_Joining first \<Longrightarrow> rn_worker r = Worker_Returned \<Longrightarrow>
    life_step r (if join = SALTS_OK
                 then r\<lparr>rn_system := (rn_system r)\<lparr>sy_worker_started := False\<rparr>, rn_worker := Worker_None,
                        rn_stop := Stop_Finishing first\<rparr>
                 else r\<lparr>rn_stop := Stop_Finishing join\<rparr>)"
| stop_finish: "rn_stop r = Stop_Finishing status \<Longrightarrow> stop_finish status (rn_system r) = (result, s) \<Longrightarrow>
    life_step r (r\<lparr>rn_system := s, rn_stop := Stop_Idle\<rparr>)"

inductive life_reachable :: "http_run \<Rightarrow> bool" where
  init: "life_reachable (fresh_run cfg)"
| step: "life_reachable r \<Longrightarrow> life_step r r' \<Longrightarrow> life_reachable r'"

section \<open>Bindings while the processor does not run\<close>

lemma live_frame [simp]:
  "hp_live_bindings (upd_row i f p) = hp_live_bindings p" "hp_live_bindings (upd_binding b g p) = hp_live_bindings p"
  "hp_live_bindings (invariant_failure p) = hp_live_bindings p"
  by (simp_all add: upd_row_def upd_binding_def invariant_failure_def)

lemma live_frame_reset [simp]: "hp_live_bindings (reset_row_locked i p) = hp_live_bindings p"
  by (simp add: reset_row_locked_def split: option.split)

lemma live_frame_release [simp]: "hp_live_bindings (release_queued i p) = hp_live_bindings p"
  by (simp add: release_queued_def)

lemma live_frame_cancel [simp]: "hp_live_bindings (cancel_or_mark i p) = hp_live_bindings p"
  by (simp add: cancel_or_mark_def)

lemma live_frame_close: "hp_live_bindings (fold (close_row b) js p) = hp_live_bindings p"
  by (induction js arbitrary: p) (simp_all add: close_row_def)

lemma http_step_live:
  assumes "http_step p p'" "hp_state p \<noteq> SCXML_CHTTP_PROCESSOR_RUNNING"
  shows "hp_live_bindings p' \<le> hp_live_bindings p"
  using assms
proof cases
  case (init asize uuid alloc_ok formatted adapter decode_set st b)
  with assms(2) show ?thesis by (auto simp: scxml_chttp_binding_init_def split: if_splits)
next
  case (close b d)
  then show ?thesis
    by (auto simp: close_locked_def Let_def scxml_chttp_egress_close_binding_locked_def live_frame_close split: if_splits)
next
  case (ingress_leave b status)
  then show ?thesis by (simp add: ingress_leave_def Let_def ingress_reject_def)
qed (auto simp: start_publish_def stop_begin_def activate_locked_def quiescent_settle_def destroy_locked_def Let_def
    prepare_reserve_def copy_target_def store_body_def abort_reserved_def prepare_finish_def egress_commit_def
    egress_discard_def scxml_chttp_egress_prepare_cancel_def http_cancel_commit_def http_cancel_discard_def
    submit_claim_def submit_settle_def complete_begin_def complete_end_def count_outcome_def cancel_pick_def
    cancel_unknown_def cancel_retry_def ingress_count_def ingress_reject_def ingress_enter_def
    split: if_splits option.splits http_outcome.splits)

section \<open>The invariant\<close>

fun worker_ok :: "worker_pc \<Rightarrow> http_system \<Rightarrow> bool" where
  "worker_ok Worker_None s = sy_client_destroyed s"
| "worker_ok Worker_Created s = (\<not> sy_worker_ready s \<and> sy_client_destroyed s \<and> \<not> sy_worker_exited s)"
| "worker_ok (Worker_Waiting g) s =
     (sy_worker_ready s \<and> \<not> sy_worker_exited s \<and> sy_worker_init_status s = SALTS_OK \<and>
      g \<le> sy_stop_generation s \<and> (sy_stop_generation s = g \<longrightarrow> sy_stop_attempt_complete s))"
| "worker_ok Worker_Returned s = (sy_worker_ready s \<and> sy_worker_exited s \<and> sy_client_destroyed s)"
| "worker_ok _ s = (sy_worker_ready s \<and> \<not> sy_worker_exited s \<and> sy_worker_init_status s = SALTS_OK)"

fun stop_ok :: "stop_pc \<Rightarrow> http_system \<Rightarrow> bool" where
  "stop_ok Stop_Idle s = True"
| "stop_ok (Stop_Server d) s = True"
| "stop_ok (Stop_Worker d first) s = sy_server_stopped s"
| "stop_ok (Stop_Waiting d first) s =
     (sy_server_stopped s \<and> sy_worker_started s \<and> (sy_worker_exited s \<or> sy_stop_requested s))"
| "stop_ok (Stop_Joining first) s = (sy_server_stopped s \<and> sy_worker_started s \<and> sy_worker_exited s)"
| "stop_ok (Stop_Finishing st) s = True"

definition phase_ok :: "http_run \<Rightarrow> bool" where
  "phase_ok r \<longleftrightarrow> (let s = rn_system r in
     (sy_state s \<noteq> SCXML_CHTTP_PROCESSOR_RUNNING \<longrightarrow> hp_live_bindings (sy_core s) = 0) \<and>
     (sy_state s = SCXML_CHTTP_PROCESSOR_INITIALIZED \<longrightarrow> rn_stop r = Stop_Idle \<and> rn_start_waits r = sy_worker_started s \<and>
        (if sy_worker_started s then sy_server_started s
         else \<not> sy_worker_ready s \<and> \<not> sy_stop_attempt_complete s)) \<and>
     (sy_state s \<noteq> SCXML_CHTTP_PROCESSOR_INITIALIZED \<longrightarrow> sy_server_started s \<and> \<not> rn_start_waits r \<and> rn_worker r \<noteq> Worker_Created) \<and>
     (sy_state s = SCXML_CHTTP_PROCESSOR_STOPPED \<longrightarrow> sy_server_stopped s \<and> \<not> sy_worker_started s) \<and>
     (rn_stop r \<noteq> Stop_Idle \<longrightarrow> sy_state s = SCXML_CHTTP_PROCESSOR_STOPPING) \<and>
     (sy_stop_active s \<longleftrightarrow> rn_stop r \<noteq> Stop_Idle) \<and>
     (sy_stop_attempt_complete s \<and> \<not> sy_worker_exited s \<longrightarrow> sy_worker_stop_status s \<noteq> SALTS_OK))"

definition life_inv :: "http_run \<Rightarrow> bool" where
  "life_inv r \<longleftrightarrow> http_reachable (sy_core (rn_system r)) \<and>
     (sy_worker_started (rn_system r) \<longleftrightarrow> rn_worker r \<noteq> Worker_None) \<and>
     worker_ok (rn_worker r) (rn_system r) \<and> stop_ok (rn_stop r) (rn_system r) \<and> phase_ok r"

lemma life_inv_fresh: "life_inv (fresh_run cfg)"
  by (simp add: life_inv_def phase_ok_def Let_def fresh_run_def fresh_system_def http_reachable.init)
     (simp add: fresh_http_processor_def)

lemma worker_ok_core [simp]: "worker_ok pc (s\<lparr>sy_core := c\<rparr>) = worker_ok pc s"
  by (cases pc) simp_all

lemma stop_ok_core [simp]: "stop_ok pc (s\<lparr>sy_core := c\<rparr>) = stop_ok pc s"
  by (cases pc) simp_all

lemma worker_ok_flags [simp]:
  "worker_ok pc (s\<lparr>sy_stop_active := b\<rparr>) = worker_ok pc s"
  "worker_ok pc (s\<lparr>sy_server_stopped := b\<rparr>) = worker_ok pc s"
  "worker_ok pc (s\<lparr>sy_shutdown_terminal_status := st\<rparr>) = worker_ok pc s"
  by (cases pc; simp)+

lemma worker_ok_asleep [simp]: "worker_ok pc (s\<lparr>sy_asleep := X\<rparr>) = worker_ok pc s"
  by (cases pc) simp_all

lemma stop_ok_asleep [simp]: "stop_ok pc (s\<lparr>sy_asleep := X\<rparr>) = stop_ok pc s"
  by (cases pc) simp_all

lemma stop_wait_over_asleep [simp]: "stop_wait_over (s\<lparr>sy_asleep := X\<rparr>) = stop_wait_over s"
  by (simp add: stop_wait_over_def)

lemma asleep_update: "\<exists>X. start_sleep s = s\<lparr>sy_asleep := X\<rparr>" "\<exists>X. stop_sleep s = s\<lparr>sy_asleep := X\<rparr>"
  "\<exists>X. s = s\<lparr>sy_asleep := X\<rparr>"
proof -
  have same: "s = s\<lparr>sy_asleep := sy_asleep s\<rparr>" by simp
  then show "\<exists>X. s = s\<lparr>sy_asleep := X\<rparr>" by blast
  show "\<exists>X. start_sleep s = s\<lparr>sy_asleep := X\<rparr>" "\<exists>X. stop_sleep s = s\<lparr>sy_asleep := X\<rparr>"
    using same unfolding start_sleep_def stop_sleep_def cmeta_cond_wait_def by metis+
qed

lemma life_inv_asleep:
  assumes "life_inv (r\<lparr>rn_system := s\<rparr>)" shows "life_inv (r\<lparr>rn_system := s\<lparr>sy_asleep := X\<rparr>\<rparr>)"
proof -
  have "phase_ok (r\<lparr>rn_system := s\<lparr>sy_asleep := X\<rparr>\<rparr>) = phase_ok (r\<lparr>rn_system := s\<rparr>)"
    by (simp add: phase_ok_def Let_def)
  with assms show ?thesis by (simp add: life_inv_def)
qed

lemma life_inv_core:
  assumes "life_inv r" "http_step (sy_core (rn_system r)) c" "hp_state c = sy_state (rn_system r)"
  shows "life_inv (r\<lparr>rn_system := (rn_system r)\<lparr>sy_core := c\<rparr>\<rparr>)"
proof -
  have "hp_live_bindings c = 0" if "sy_state (rn_system r) \<noteq> SCXML_CHTTP_PROCESSOR_RUNNING"
    using that assms(1) http_step_live [OF assms(2) that] by (simp add: life_inv_def phase_ok_def Let_def)
  with assms show ?thesis
    by (auto simp: life_inv_def phase_ok_def Let_def intro: http_reachable.step)
qed

lemma reachable_stopping:
  "http_reachable c \<Longrightarrow> hp_state c = SCXML_CHTTP_PROCESSOR_INITIALIZED \<Longrightarrow>
   http_reachable (c\<lparr>hp_state := SCXML_CHTTP_PROCESSOR_STOPPING\<rparr>)"
  by (erule http_reachable.step) (erule http_step.start_failed)

lemma reachable_stopped:
  assumes "http_reachable c" "hp_state c = SCXML_CHTTP_PROCESSOR_STOPPING"
  shows "http_reachable (c\<lparr>hp_state := SCXML_CHTTP_PROCESSOR_STOPPED\<rparr>)"
  using http_reachable.step [OF assms(1) http_step.stopped [OF assms(2)]] .

lemma reachable_unwound:
  assumes "http_reachable c" "hp_state c = SCXML_CHTTP_PROCESSOR_INITIALIZED"
    "st = SCXML_CHTTP_PROCESSOR_STOPPED \<or> st = SCXML_CHTTP_PROCESSOR_STOPPING"
  shows "http_reachable (c\<lparr>hp_state := st\<rparr>)"
  using reachable_stopping [OF assms(1,2)] reachable_stopped [OF reachable_stopping [OF assms(1,2)]] assms(3) by auto

lemma reachable_port:
  "http_reachable c \<Longrightarrow> hp_state c = SCXML_CHTTP_PROCESSOR_INITIALIZED \<Longrightarrow>
   http_reachable (c\<lparr>hp_config := (hp_config c)\<lparr>hc_bound_port := n\<rparr>\<rparr>)"
  by (erule http_reachable.step) (erule http_step.port)

lemma reachable_running:
  assumes "http_reachable c" "hp_state c = SCXML_CHTTP_PROCESSOR_INITIALIZED"
  shows "http_reachable (c\<lparr>hp_state := SCXML_CHTTP_PROCESSOR_RUNNING\<rparr>)"
  using http_reachable.step [OF assms(1) http_step.start] assms(2) by (simp add: start_publish_def)

lemma start_unwind_inv:
  assumes "http_reachable (sy_core s)" "sy_state s = SCXML_CHTTP_PROCESSOR_INITIALIZED" "hp_live_bindings (sy_core s) = 0"
    "sy_server_started s" "sy_worker_started s \<longleftrightarrow> rn_worker r \<noteq> Worker_None" "worker_ok (rn_worker r) s"
    "rn_worker r \<noteq> Worker_Created" "rn_stop r = Stop_Idle" "\<not> sy_stop_active s"
    "sy_stop_attempt_complete s \<and> \<not> sy_worker_exited s \<longrightarrow> sy_worker_stop_status s \<noteq> SALTS_OK"
  shows "life_inv (r\<lparr>rn_system := start_unwind server_stop s, rn_start_waits := False\<rparr>)"
  using assms reachable_unwound [OF assms(1,2)]
  by (simp add: life_inv_def phase_ok_def Let_def start_unwind_def set_state_def)

lemma life_inv_start:
  assumes inv: "life_inv r" and run: "start_enter server_start port create (rn_system r) = (after, s)"
  shows "life_inv (if after = Start_Waits then r\<lparr>rn_system := s, rn_worker := Worker_Created, rn_start_waits := True\<rparr>
                   else r\<lparr>rn_system := start_done server_stop (after, s)\<rparr>)"
proof (cases "sy_state (rn_system r) \<noteq> SCXML_CHTTP_PROCESSOR_INITIALIZED \<or> sy_worker_started (rn_system r) \<or> server_start \<noteq> SALTS_OK")
  case True
  with run have "s = rn_system r \<and> (\<exists>st. after = Start_Returns st)" by (auto simp: start_enter_def split: if_splits)
  with inv show ?thesis by (auto simp: start_done_def)
next
  case False
  then have idle: "sy_state (rn_system r) = SCXML_CHTTP_PROCESSOR_INITIALIZED" "rn_worker r = Worker_None"
      "\<not> sy_worker_started (rn_system r)" "\<not> rn_start_waits r" "rn_stop r = Stop_Idle" "\<not> sy_worker_ready (rn_system r)"
    using inv by (auto simp: life_inv_def phase_ok_def Let_def)
  have same: "r\<lparr>rn_system := x\<rparr> = r\<lparr>rn_system := x, rn_start_waits := False\<rparr>" for x using idle(4) by simp
  show ?thesis
  proof (cases "after = Start_Waits")
    case True
    with run False have s: "s = (rn_system r)\<lparr>sy_server_started := True,
        sy_core := (sy_core (rn_system r))\<lparr>hp_config := (hp_config (sy_core (rn_system r)))\<lparr>hc_bound_port := snd port\<rparr>\<rparr>,
        sy_stop_requested := False, sy_worker_exited := False, sy_worker_started := True,
        sy_asleep := insert Starting_Thread (sy_asleep (rn_system r))\<rparr>"
      using inv idle by (simp add: start_enter_def Let_def start_sleep_def cmeta_cond_wait_def life_inv_def split: if_splits)
    show ?thesis using True inv idle
      by (auto simp: s life_inv_def phase_ok_def Let_def intro: reachable_port)
  next
    case unwinds: False
    show ?thesis
    proof (cases "fst port = SALTS_OK")
      case True
      with run False unwinds have s: "after = Start_Unwinds create" "s = (rn_system r)\<lparr>sy_server_started := True,
          sy_core := (sy_core (rn_system r))\<lparr>hp_config := (hp_config (sy_core (rn_system r)))\<lparr>hc_bound_port := snd port\<rparr>\<rparr>,
          sy_stop_requested := False, sy_worker_exited := False\<rparr>"
        by (simp_all add: start_enter_def Let_def split: if_splits)
      show ?thesis unfolding s(1) start_done_def
        using inv idle
        by (simp only: start_next.case prod.case start_next.simps if_False, subst same, intro start_unwind_inv)
           (auto simp: s life_inv_def phase_ok_def Let_def intro: reachable_port)
    next
      case False
      with run \<open>\<not> (_ \<or> _ \<or> _)\<close> have s: "after = Start_Unwinds (fst port)" "s = (rn_system r)\<lparr>sy_server_started := True\<rparr>"
        by (simp_all add: start_enter_def Let_def split: if_splits)
      show ?thesis unfolding s(1) start_done_def
        using inv idle
        by (simp only: start_next.case prod.case start_next.simps if_False, subst same, intro start_unwind_inv)
           (auto simp: s life_inv_def phase_ok_def Let_def)
    qed
  qed
qed

lemma life_inv_started:
  assumes inv: "life_inv r" and waits: "rn_start_waits r" "sy_worker_ready (rn_system r)"
    and run: "start_ready join (rn_system r) = (after, s)"
  shows "life_inv (r\<lparr>rn_system := start_done server_stop (after, s), rn_start_waits := False,
      rn_worker := (if sy_worker_started s then rn_worker r else Worker_None)\<rparr>)"
proof -
  have state: "sy_state (rn_system r) = SCXML_CHTTP_PROCESSOR_INITIALIZED" "rn_stop r = Stop_Idle"
      "rn_worker r \<noteq> Worker_None" "rn_worker r \<noteq> Worker_Created"
    using inv waits by (auto simp: life_inv_def phase_ok_def Let_def)
  show ?thesis
  proof (cases "sy_worker_init_status (rn_system r) = SALTS_OK")
    case True
    with run have s: "after = Start_Returns SALTS_OK" "s = set_state SCXML_CHTTP_PROCESSOR_RUNNING (rn_system r)"
      by (simp_all add: start_ready_def)
    show ?thesis using inv state waits
      by (auto simp: s start_done_def set_state_def life_inv_def phase_ok_def Let_def intro: reachable_running)
  next
    case False
    have gone: "rn_worker r = Worker_Returned"
      using inv state waits False by (cases "rn_worker r") (simp_all add: life_inv_def)
    define s1 where "s1 = (if join = SALTS_OK then (rn_system r)\<lparr>sy_worker_started := False\<rparr> else rn_system r)"
    have s: "after = Start_Unwinds (sy_worker_init_status (rn_system r))" "s = s1"
      using run False by (simp_all add: start_ready_def s1_def)
    let ?r = "r\<lparr>rn_worker := (if sy_worker_started s1 then rn_worker r else Worker_None)\<rparr>"
    have "life_inv (?r\<lparr>rn_system := start_unwind server_stop s1, rn_start_waits := False\<rparr>)"
      by (rule start_unwind_inv) (use inv state waits gone in
        \<open>simp_all add: s1_def life_inv_def phase_ok_def Let_def split: if_splits\<close>)
    moreover have "?r\<lparr>rn_system := start_unwind server_stop s1, rn_start_waits := False\<rparr> =
      r\<lparr>rn_system := start_done server_stop (after, s), rn_start_waits := False,
        rn_worker := (if sy_worker_started s then rn_worker r else Worker_None)\<rparr>"
      by (cases r) (simp add: s start_done_def)
    ultimately show ?thesis by simp
  qed
qed

lemma life_inv_worker:
  assumes inv: "life_inv r" and run: "worker_section env (rn_worker r) (rn_system r) = Some (pc, s)"
  shows "life_inv (r\<lparr>rn_system := s, rn_worker := pc\<rparr>)"
proof (cases "rn_worker r")
  case Worker_Created
  with run inv show ?thesis
    by (cases "rn_stop r") (auto simp: worker_begin_def cmeta_cond_broadcast_def life_inv_def phase_ok_def Let_def split: if_splits)
next
  case Worker_Top
  with run inv show ?thesis by (auto simp: worker_top_def life_inv_def phase_ok_def Let_def split: if_splits)
next
  case Worker_Working
  with run inv show ?thesis by (auto simp: life_inv_def phase_ok_def Let_def)
next
  case (Worker_Waiting g)
  have same: "r\<lparr>rn_system := x, rn_worker := Worker_Waiting g\<rparr> = r\<lparr>rn_system := x\<rparr>" for x
    using Worker_Waiting by (cases r) simp
  consider (again) "pc = Worker_Waiting g" "s = (rn_system r)\<lparr>sy_asleep := insert Worker_Thread (sy_asleep (rn_system r))\<rparr>"
    | (awake) "pc = Worker_Top" "s = rn_system r"
    using run Worker_Waiting by (auto simp: cmeta_cond_wait_def split: if_splits)
  then show ?thesis
  proof cases
    case again
    then show ?thesis using inv life_inv_asleep [where r = r and s = "rn_system r"] by (simp add: same)
  next
    case awake
    have "sy_state (rn_system r) \<noteq> SCXML_CHTTP_PROCESSOR_STOPPED"
      using inv Worker_Waiting by (auto simp: life_inv_def phase_ok_def Let_def)
    then show ?thesis using awake inv Worker_Waiting by (simp add: life_inv_def phase_ok_def Let_def)
  qed
next
  case (Worker_Stopping g deadline_ms stopped destroyed)
  obtain st a b where out: "worker_attempt (we_now env) (we_stop env) (we_destroy env) deadline_ms stopped destroyed = (st, a, b)"
    by (rule prod_cases3)
  have b: "st = SALTS_OK \<Longrightarrow> b"
    using out by (auto simp: worker_attempt_def Let_def split: if_splits)
  have ready: "sy_worker_ready (rn_system r)" "\<not> sy_worker_exited (rn_system r)" "sy_worker_init_status (rn_system r) = SALTS_OK"
      "sy_state (rn_system r) \<noteq> SCXML_CHTTP_PROCESSOR_STOPPED"
    using inv by (auto simp: life_inv_def phase_ok_def Let_def Worker_Stopping)
  let ?s1 = "(rn_system r)\<lparr>sy_client_stopped := a, sy_client_destroyed := b\<rparr>"
  have stop: "stop_ok (rn_stop r) x" if "stop_ok (rn_stop r) (rn_system r)" "sy_server_stopped x = sy_server_stopped (rn_system r)"
      "sy_worker_started x = sy_worker_started (rn_system r)" "sy_stop_requested x = sy_stop_requested (rn_system r)"
      "sy_worker_exited (rn_system r) \<longrightarrow> sy_worker_exited x" for x
    using that by (cases "rn_stop r") auto
  consider (gone) "b" "pc = Worker_Returned" "s = ?s1\<lparr>sy_worker_stop_status := SALTS_OK, sy_stop_attempt_complete := True,
        sy_worker_exited := True, sy_asleep := {}\<rparr>"
    | (asleep) "st \<noteq> SALTS_OK" "sy_stop_generation (rn_system r) = g" "pc = Worker_Waiting g" "s = ?s1\<lparr>sy_worker_stop_status := st,
        sy_stop_attempt_complete := True, sy_asleep := {Worker_Thread}\<rparr>"
    | (again) "pc = Worker_Top" "s = ?s1"
    using run b by (auto simp: Worker_Stopping out worker_settle_def cmeta_cond_wait_def cmeta_cond_broadcast_def Let_def
        split: if_splits)
  then show ?thesis
  proof cases
    case gone
    have "stop_ok (rn_stop r) s" by (rule stop) (use inv gone in \<open>simp_all add: life_inv_def\<close>)
    with inv gone ready show ?thesis by (simp add: life_inv_def phase_ok_def Let_def Worker_Stopping)
  next
    case asleep
    have "stop_ok (rn_stop r) s" by (rule stop) (use inv asleep in \<open>simp_all add: life_inv_def\<close>)
    with inv asleep ready show ?thesis by (simp add: life_inv_def phase_ok_def Let_def Worker_Stopping)
  next
    case again
    have "stop_ok (rn_stop r) s" by (rule stop) (use inv again in \<open>simp_all add: life_inv_def\<close>)
    with inv again ready show ?thesis by (simp add: life_inv_def phase_ok_def Let_def Worker_Stopping)
  qed
qed (use run in simp_all)

lemma life_inv_stop_enter:
  assumes inv: "life_inv r" and run: "stop_enter (rn_system r) = (SALTS_OK, s)"
  shows "life_inv (r\<lparr>rn_system := s, rn_stop := Stop_Server deadline_ms\<rparr>)"
proof -
  from run have enter: "stop_begin (sy_stop_active (rn_system r)) (sy_core (rn_system r)) = (SALTS_OK, sy_core s)"
    "s = (rn_system r)\<lparr>sy_core := sy_core s, sy_stop_active := True\<rparr>"
    by (auto simp: stop_enter_def split: prod.splits if_splits)
  then have core: "sy_core s = (sy_core (rn_system r))\<lparr>hp_state := SCXML_CHTTP_PROCESSOR_STOPPING\<rparr>"
      "hp_live_bindings (sy_core (rn_system r)) = 0" "\<not> sy_stop_active (rn_system r)"
      "sy_state (rn_system r) \<noteq> SCXML_CHTTP_PROCESSOR_INITIALIZED"
    by (auto simp: stop_begin_def split: if_splits)
  have "http_reachable (sy_core s)"
    using inv http_reachable.step [OF _ http_step.stop [OF enter(1)]] by (simp add: life_inv_def)
  then show ?thesis using inv core enter(2)
    by (auto simp: life_inv_def phase_ok_def Let_def)
qed

lemma next_stop_generation_neq: "next_stop_generation g \<noteq> g"
  by (auto simp: next_stop_generation_def)

lemma worker_ok_request:
  assumes "worker_ok pc s" "sy_stop_generation s \<noteq> UINT64_MAX" shows "worker_ok pc (stop_request d s)"
proof -
  have "next_stop_generation (sy_stop_generation s) = sy_stop_generation s + 1"
    using assms(2) by (simp add: next_stop_generation_def Suc_guard_nonzero)
  moreover have "g < sy_stop_generation s + 1" if "g \<le> sy_stop_generation s" for g
    using le_less_Suc_guard [OF assms(2) that] .
  ultimately show ?thesis using assms(1)
    by (cases pc) (auto simp: stop_request_def cmeta_cond_broadcast_def intro: less_imp_le)
qed

lemma stop_request_frame:
  "sy_core (stop_request d s) = sy_core s" "sy_worker_started (stop_request d s) = sy_worker_started s"
  "sy_server_stopped (stop_request d s) = sy_server_stopped s" "sy_server_started (stop_request d s) = sy_server_started s"
  "sy_stop_active (stop_request d s) = sy_stop_active s" "sy_worker_exited (stop_request d s) = sy_worker_exited s"
  "sy_worker_exited s \<or> sy_stop_requested (stop_request d s)"
  "sy_worker_exited s \<or> \<not> sy_stop_attempt_complete (stop_request d s)"
  "sy_worker_exited s \<Longrightarrow> stop_request d s = s"
  by (auto simp: stop_request_def cmeta_cond_broadcast_def)

lemma life_step_inv: "life_step r r' \<Longrightarrow> life_inv r \<Longrightarrow> life_inv r'"
proof (induction rule: life_step.induct)
  case (core r c)
  then show ?case by (simp add: life_inv_core)
next
  case (start server_start port create r after s server_stop)
  show ?case using start(2,1) by (rule life_inv_start)
next
  case (started r join after s server_stop)
  show ?case using started(5,1,3,4) by (rule life_inv_started)
next
  case (start_again r)
  obtain X where "start_sleep (rn_system r) = (rn_system r)\<lparr>sy_asleep := X\<rparr>" using asleep_update(1) by blast
  with start_again show ?case using life_inv_asleep [where r = r and s = "rn_system r" and X = X] by simp
next
  case (worker env r pc s)
  show ?case using worker(2,1) by (rule life_inv_worker)
next
  case (stop r s deadline_ms)
  show ?case using stop(2,1) by (rule life_inv_stop_enter)
next
  case (stop_server r deadline_ms remaining server_stop settled result s)
  then have r: "rn_stop r = Stop_Server deadline_ms" "life_inv r" by simp_all
  have s: "sy_core s = sy_core (rn_system r)" "worker_ok pc s = worker_ok pc (rn_system r)"
      "sy_worker_started s = sy_worker_started (rn_system r)" "sy_server_started s = sy_server_started (rn_system r)"
      "sy_stop_active s = sy_stop_active (rn_system r)" "sy_worker_exited s = sy_worker_exited (rn_system r)"
      "sy_stop_attempt_complete s = sy_stop_attempt_complete (rn_system r)"
      "sy_worker_stop_status s = sy_worker_stop_status (rn_system r)" for pc
    using stop_server(2) by (auto simp: stop_server_def Let_def split: if_splits)
  have "\<exists>st. result = Inl st \<or> result = Inr st \<and> sy_server_stopped s"
    using stop_server(2) r by (auto simp: stop_server_def life_inv_def phase_ok_def Let_def split: if_splits)
  then have "stop_ok (case result of Inl status \<Rightarrow> Stop_Finishing status | Inr first \<Rightarrow> Stop_Worker deadline_ms first) s"
      "(case result of Inl status \<Rightarrow> Stop_Finishing status | Inr first \<Rightarrow> Stop_Worker deadline_ms first) \<noteq> Stop_Idle"
    by (auto split: sum.split)
  moreover have "sy_state (rn_system r) = SCXML_CHTTP_PROCESSOR_STOPPING" "sy_stop_active (rn_system r)"
    using r by (simp_all add: life_inv_def phase_ok_def Let_def)
  ultimately show ?case using r s by (simp add: life_inv_def phase_ok_def Let_def)
next
  case (stop_worker r deadline_ms first)
  show ?case
  proof (cases "sy_worker_started (rn_system r)")
    case True
    let ?s = "stop_request deadline_ms (rn_system r)"
    obtain X where X: "stop_sleep ?s = ?s\<lparr>sy_asleep := X\<rparr>" using asleep_update(2) by blast
    have "worker_ok (rn_worker r) ?s"
      using stop_worker by (intro worker_ok_request) (simp_all add: life_inv_def)
    moreover have "sy_stop_attempt_complete ?s \<and> \<not> sy_worker_exited ?s \<longrightarrow> sy_worker_stop_status ?s \<noteq> SALTS_OK"
      using stop_request_frame(8) [of "rn_system r" deadline_ms] by (auto simp: stop_request_frame(6))
    ultimately show ?thesis
      using stop_worker True stop_request_frame(7) [of "rn_system r" deadline_ms]
      by (simp add: life_inv_def phase_ok_def Let_def stop_request_frame(1-6) X)
  next
    case False
    with stop_worker show ?thesis by (auto simp: life_inv_def phase_ok_def Let_def)
  qed
next
  case (stop_timeout r deadline_ms first)
  then show ?case by (simp add: life_inv_def phase_ok_def Let_def)
next
  case (stop_again r deadline_ms first)
  obtain X where "stop_sleep (rn_system r) = (rn_system r)\<lparr>sy_asleep := X\<rparr>" using asleep_update(2) by blast
  with stop_again show ?case using life_inv_asleep [where r = r and s = "rn_system r" and X = X] by simp
next
  case (wake r X)
  then show ?case using life_inv_asleep [where r = r and s = "rn_system r"] by simp
next
  case (stop_woken r deadline_ms first)
  then show ?case
    by (simp add: life_inv_def phase_ok_def Let_def stop_wait_over_def stop_wait_status_def) blast
next
  case (stop_join r first join)
  then show ?case by (simp add: life_inv_def phase_ok_def Let_def)
next
  case (stop_finish r status result s)
  then have r: "rn_stop r = Stop_Finishing status" "life_inv r" "sy_state (rn_system r) = SCXML_CHTTP_PROCESSOR_STOPPING"
    by (simp_all add: life_inv_def phase_ok_def Let_def)
  then have core: "http_reachable ((sy_core (rn_system r))\<lparr>hp_state := SCXML_CHTTP_PROCESSOR_STOPPED\<rparr>)"
    by (intro reachable_stopped) (simp_all add: life_inv_def)
  show ?case
  proof (cases "sy_server_stopped (rn_system r) \<and> \<not> sy_worker_started (rn_system r) \<and> sy_client_destroyed (rn_system r)")
    case True
    with stop_finish(2) have "s = (set_state SCXML_CHTTP_PROCESSOR_STOPPED (rn_system r))\<lparr>sy_stop_active := False\<rparr>"
      by (simp add: stop_finish_def)
    with r core True show ?thesis by (simp add: set_state_def life_inv_def phase_ok_def Let_def)
  next
    case False
    with stop_finish(2) have "s = (rn_system r)\<lparr>sy_stop_active := False\<rparr>"
      by (auto simp: stop_finish_def split: if_splits)
    moreover have "stop_ok Stop_Idle s" by simp
    ultimately show ?thesis using r by (simp add: life_inv_def phase_ok_def Let_def)
  qed
qed

lemma life_reachable_inv: "life_reachable r \<Longrightarrow> life_inv r"
  by (induction rule: life_reachable.induct) (auto intro: life_inv_fresh life_step_inv)

section \<open>What STOPPED means\<close>

lemma stopped_step:
  assumes "life_step r r'" "life_inv r" "sy_state (rn_system r) = SCXML_CHTTP_PROCESSOR_STOPPED"
  shows "sy_state (rn_system r') = SCXML_CHTTP_PROCESSOR_STOPPED"
proof -
  have idle: "rn_worker r = Worker_None" "rn_stop r = Stop_Idle" "\<not> rn_start_waits r"
    using assms(2,3) by (auto simp: life_inv_def phase_ok_def Let_def)
  show ?thesis using assms(1)
  proof cases
    case (start server_start port create after s server_stop)
    then have "s = rn_system r \<and> after = Start_Returns SALTS_EBUSY" using assms(3) by (simp add: start_enter_def)
    with start(1) assms(3) show ?thesis by (simp add: start_done_def)
  next
    case (stop s deadline_ms)
    then show ?thesis using assms(3) by (auto simp: stop_enter_def stop_begin_def split: if_splits)
  qed (use idle assms(3) in auto)
qed

lemma no_binding_no_row:
  assumes "http_reachable p" "hp_live_bindings p = 0" "row \<in> set (hp_rows p)"
  shows "hr_state row = SCXML_CHTTP_EGRESS_FREE"
proof (rule ccontr)
  assume "hr_state row \<noteq> SCXML_CHTTP_EGRESS_FREE"
  have inv: "http_inv p" using assms(1) by (rule http_reachable_inv)
  obtain i where i: "i < egress_capacity p" "hp_rows p ! i = row" using assms(3) by (auto simp: in_set_conv_nth)
  obtain b where "live_binding p b" using live_rowE [OF inv i(1)] i(2) \<open>hr_state row \<noteq> _\<close> by metis
  then obtain bd where bd: "b < length (hp_bindings p)" "hp_bindings p ! b = Some bd" by (auto simp: live_binding_def)
  with inv have e: "bd_endpoint_index bd < length (hp_endpoints p)" "ep_binding (hp_endpoints p ! bd_endpoint_index bd) = Some b"
    by (auto simp: http_inv_def http_endpoints_ok_def)
  have "count_if (\<lambda>ep. ep_binding ep \<noteq> None) (hp_endpoints p) \<noteq> 0"
    using e by (auto simp: count_if_zero_iff intro!: bexI [of _ "hp_endpoints p ! bd_endpoint_index bd"])
  with inv assms(2) show False by (simp add: http_inv_def)
qed

text \<open>
  Property (C33). A stopped processor is torn down: in every reachable state, whatever the interleaving of the
  worker with the threads that start and stop the processor, STOPPED implies that the server is
  stopped, the worker thread is gone, the client is destroyed, no binding is live and no row of
  the table is in use. Every later step keeps this, and \<^verbatim>\<open>scxml_chttp_processor_destroy\<close> releases the
  memory in exactly the stopped states, provided that the server can be destroyed.
\<close>

theorem http_teardown_complete:
  assumes "life_reachable r" "sy_state (rn_system r) = SCXML_CHTTP_PROCESSOR_STOPPED"
  shows "sy_server_stopped (rn_system r) \<and> rn_worker r = Worker_None \<and> sy_client_destroyed (rn_system r) \<and>
    hp_live_bindings (sy_core (rn_system r)) = 0 \<and>
    (\<forall>row\<in>set (hp_rows (sy_core (rn_system r))). hr_state row = SCXML_CHTTP_EGRESS_FREE) \<and>
    (\<forall>r'. life_step r r' \<longrightarrow> sy_state (rn_system r') = SCXML_CHTTP_PROCESSOR_STOPPED) \<and>
    scxml_chttp_processor_destroy SALTS_OK (rn_system r) = (SALTS_OK, None)"
proof -
  have inv: "life_inv r" using assms(1) by (rule life_reachable_inv)
  with assms(2) have "sy_server_stopped (rn_system r)" "rn_worker r = Worker_None" "hp_live_bindings (sy_core (rn_system r)) = 0"
      "http_reachable (sy_core (rn_system r))"
    by (auto simp: life_inv_def phase_ok_def Let_def)
  moreover from this have "sy_client_destroyed (rn_system r)" using inv by (simp add: life_inv_def)
  ultimately show ?thesis
    using no_binding_no_row stopped_step [OF _ inv assms(2)] assms(2)
    by (auto simp: scxml_chttp_processor_destroy_def)
qed

section \<open>No wake-up is lost\<close>

text \<open>A thread sleeps only while what it waits for has not happened.\<close>

definition sleep_ok :: "http_run \<Rightarrow> bool" where
  "sleep_ok r \<longleftrightarrow> (let s = rn_system r in
     (Worker_Thread \<in> sy_asleep s \<longrightarrow> rn_worker r = Worker_Waiting (sy_stop_generation s)) \<and>
     (Stopping_Thread \<in> sy_asleep s \<longrightarrow> \<not> stop_wait_over s \<and> (\<exists>d first. rn_stop r = Stop_Waiting d first)) \<and>
     (Starting_Thread \<in> sy_asleep s \<longrightarrow> rn_start_waits r \<and> \<not> sy_worker_ready s))"

lemma sleep_okD:
  assumes "sleep_ok r"
  shows "Worker_Thread \<in> sy_asleep (rn_system r) \<Longrightarrow> rn_worker r = Worker_Waiting (sy_stop_generation (rn_system r))"
    "Stopping_Thread \<in> sy_asleep (rn_system r) \<Longrightarrow> \<not> stop_wait_over (rn_system r)"
    "Stopping_Thread \<in> sy_asleep (rn_system r) \<Longrightarrow> \<exists>d first. rn_stop r = Stop_Waiting d first"
    "Starting_Thread \<in> sy_asleep (rn_system r) \<Longrightarrow> rn_start_waits r \<and> \<not> sy_worker_ready (rn_system r)"
  using assms by (auto simp: sleep_ok_def Let_def)

lemma sleep_ok_nobody: "sy_asleep s = {} \<Longrightarrow> sleep_ok (r\<lparr>rn_system := s\<rparr>)"
  by (simp add: sleep_ok_def)

lemma sleep_ok_start:
  assumes "life_inv r" "sleep_ok r" "start_enter server_start port create (rn_system r) = (after, s)"
  shows "sleep_ok (if after = Start_Waits then r\<lparr>rn_system := s, rn_worker := Worker_Created, rn_start_waits := True\<rparr>
                   else r\<lparr>rn_system := start_done server_stop (after, s)\<rparr>)"
proof (cases "sy_state (rn_system r) \<noteq> SCXML_CHTTP_PROCESSOR_INITIALIZED \<or> sy_worker_started (rn_system r) \<or> server_start \<noteq> SALTS_OK")
  case True
  with assms(3) have "s = rn_system r \<and> (\<exists>st. after = Start_Returns st)" by (auto simp: start_enter_def split: if_splits)
  with assms(2) show ?thesis by (auto simp: start_done_def)
next
  case False
  then have idle: "rn_worker r = Worker_None" "rn_stop r = Stop_Idle" "\<not> rn_start_waits r" "\<not> sy_worker_ready (rn_system r)"
    using assms(1) by (auto simp: life_inv_def phase_ok_def Let_def)
  have "sy_asleep (rn_system r) = {}"
  proof -
    have "x \<notin> sy_asleep (rn_system r)" for x
      using sleep_okD [OF assms(2)] idle by (cases x) auto
    then show ?thesis by blast
  qed
  moreover from this assms(3) False idle(4) have "sy_asleep s = (if after = Start_Waits then {Starting_Thread} else {})"
      "after = Start_Waits \<longrightarrow> \<not> sy_worker_ready s"
    by (auto simp: start_enter_def Let_def start_sleep_def cmeta_cond_wait_def split: if_splits)
  ultimately show ?thesis
    by (auto simp: sleep_ok_def Let_def start_done_def start_unwind_def set_state_def split: start_next.split)
qed

lemma sleep_ok_worker:
  assumes "sleep_ok r" "worker_section env (rn_worker r) (rn_system r) = Some (pc, s)"
  shows "sleep_ok (r\<lparr>rn_system := s, rn_worker := pc\<rparr>)"
proof -
  have aw: "Worker_Thread \<notin> sy_asleep (rn_system r)" if "\<And>g. rn_worker r \<noteq> Worker_Waiting g"
    using sleep_okD(1) [OF assms(1)] that by blast
  show ?thesis
  proof (cases "rn_worker r")
    case Worker_Created
    then have "sy_asleep s = {}"
      using assms(2) by (auto simp: worker_begin_def cmeta_cond_broadcast_def)
    then show ?thesis by (simp add: sleep_ok_def)
  next
    case (Worker_Stopping g deadline_ms stopped destroyed)
    obtain st a b where out: "worker_attempt (we_now env) (we_stop env) (we_destroy env) deadline_ms stopped destroyed = (st, a, b)"
      by (rule prod_cases3)
    have "sy_asleep s = {} \<or> (sy_asleep s = {Worker_Thread} \<and> pc = Worker_Waiting (sy_stop_generation s)) \<or>
        s = (rn_system r)\<lparr>sy_client_stopped := a, sy_client_destroyed := b\<rparr>"
      using assms(2) Worker_Stopping out
      by (auto simp: worker_settle_def Let_def cmeta_cond_wait_def cmeta_cond_broadcast_def split: if_splits)
    then show ?thesis
      using assms(1) aw Worker_Stopping by (auto simp: sleep_ok_def Let_def stop_wait_over_def)
  next
    case (Worker_Waiting g)
    then show ?thesis using assms
      by (auto simp: sleep_ok_def Let_def cmeta_cond_wait_def stop_wait_over_def split: if_splits)
  qed (use assms aw in \<open>auto simp: sleep_ok_def Let_def\<close>)
qed

lemma sleep_ok_stop_worker:
  assumes "sleep_ok r" "rn_stop r = Stop_Worker deadline_ms first"
  shows "sleep_ok (r\<lparr>rn_system := stop_sleep (stop_request deadline_ms (rn_system r)), rn_stop := Stop_Waiting deadline_ms first\<rparr>)"
proof (cases "sy_worker_exited (rn_system r)")
  case True
  with assms show ?thesis
    by (auto simp: sleep_ok_def Let_def stop_request_def stop_sleep_def stop_wait_over_def)
next
  case False
  let ?s = "stop_request deadline_ms (rn_system r)"
  have "\<not> stop_wait_over ?s" "sy_asleep ?s = {}"
    using False by (simp_all add: stop_request_def stop_wait_over_def cmeta_cond_broadcast_def)
  then show ?thesis by (simp add: sleep_ok_def Let_def stop_sleep_def cmeta_cond_wait_def)
qed

lemma life_step_sleep: "life_step r r' \<Longrightarrow> life_inv r \<Longrightarrow> sleep_ok r \<Longrightarrow> sleep_ok r'"
proof (induction rule: life_step.induct)
  case (core r c)
  then show ?case by (auto simp: sleep_ok_def Let_def stop_wait_over_def)
next
  case (start server_start port create r after s server_stop)
  show ?case using start(2,3,1) by (rule sleep_ok_start)
next
  case (started r join after s server_stop)
  have "sy_state (rn_system r) = SCXML_CHTTP_PROCESSOR_INITIALIZED"
    using started(1,5) by (auto simp: life_inv_def phase_ok_def Let_def)
  then have idle: "Stopping_Thread \<notin> sy_asleep (rn_system r)"
    using started(5) sleep_okD(3) [OF started(6)] by (auto simp: life_inv_def phase_ok_def Let_def)
  have same: "sy_asleep (start_done server_stop (after, s)) = sy_asleep (rn_system r)"
    "sy_stop_generation (start_done server_stop (after, s)) = sy_stop_generation (rn_system r)"
    using started(4) by (auto simp: start_ready_def start_done_def start_unwind_def set_state_def Let_def split: if_splits)
  have "Worker_Thread \<in> sy_asleep (rn_system r) \<Longrightarrow> sy_worker_started s"
    using started(4,5) sleep_okD(1) [OF started(6)]
    by (auto simp: life_inv_def start_ready_def set_state_def split: if_splits)
  then show ?case using started(2) idle same sleep_okD(1) [OF started(6)]
    by (auto simp: sleep_ok_def Let_def)
next
  case (start_again r)
  then show ?case by (auto simp: sleep_ok_def Let_def start_sleep_def cmeta_cond_wait_def stop_wait_over_def)
next
  case (worker env r pc s)
  show ?case using worker(3,1) by (rule sleep_ok_worker)
next
  case (stop r s deadline_ms)
  then have "rn_stop r = Stop_Idle"
    by (auto simp: stop_enter_def stop_begin_def life_inv_def phase_ok_def Let_def split: prod.splits if_splits)
  with stop show ?case
    by (auto simp: stop_enter_def sleep_ok_def Let_def stop_wait_over_def split: prod.splits if_splits)
next
  case (stop_server r deadline_ms remaining server_stop settled result s)
  then show ?case
    by (auto simp: stop_server_def sleep_ok_def Let_def stop_wait_over_def split: if_splits)
next
  case (stop_worker r deadline_ms first)
  then show ?case using sleep_ok_stop_worker [of r deadline_ms first] by (auto simp: sleep_ok_def Let_def)
next
  case (stop_timeout r deadline_ms first)
  then show ?case by (auto simp: sleep_ok_def Let_def)
next
  case (stop_again r deadline_ms first)
  then show ?case by (auto simp: sleep_ok_def Let_def stop_sleep_def cmeta_cond_wait_def stop_wait_over_def)
next
  case (stop_woken r deadline_ms first)
  then show ?case by (auto simp: sleep_ok_def Let_def)
next
  case (wake r X)
  then show ?case by (auto simp: sleep_ok_def Let_def)
next
  case (stop_join r first join)
  then show ?case by (auto simp: sleep_ok_def Let_def)
next
  case (stop_finish r status result s)
  then show ?case by (auto simp: stop_finish_def sleep_ok_def Let_def stop_wait_over_def set_state_def split: if_splits)
qed

lemma life_reachable_sleep: "life_reachable r \<Longrightarrow> sleep_ok r"
proof (induction rule: life_reachable.induct)
  case (init cfg)
  show ?case by (simp add: sleep_ok_def fresh_run_def fresh_system_def)
next
  case (step r r')
  then show ?case using life_step_sleep life_reachable_inv by blast
qed






text \<open>
  Property (C32). No wake-up is lost between the threads that start and stop the processor and its worker. In
  every reachable state, whatever the interleaving and whatever spurious wake-ups there are, a thread that sleeps on the condition
  variable sleeps with good reason: the worker only until a stop is requested that it has not answered, the stopping thread
  only while its request is unanswered, the starting thread only until the worker is ready.
\<close>

theorem http_no_lost_wakeup:
  assumes "life_reachable r"
  shows "(Worker_Thread \<in> sy_asleep (rn_system r) \<longrightarrow>
      rn_worker r = Worker_Waiting (sy_stop_generation (rn_system r)) \<and> stop_wait_over (rn_system r)) \<and>
    (Stopping_Thread \<in> sy_asleep (rn_system r) \<longrightarrow> \<not> sy_stop_attempt_complete (rn_system r) \<and>
      \<not> sy_worker_exited (rn_system r)) \<and>
    (Starting_Thread \<in> sy_asleep (rn_system r) \<longrightarrow> \<not> sy_worker_ready (rn_system r))"
proof -
  have "life_inv r" using assms by (rule life_reachable_inv)
  then have "stop_wait_over (rn_system r)" if "rn_worker r = Worker_Waiting (sy_stop_generation (rn_system r))"
    using that by (simp add: life_inv_def stop_wait_over_def)
  with sleep_okD [OF life_reachable_sleep [OF assms]] show ?thesis by (auto simp: stop_wait_over_def)
qed


section \<open>A start that fails early\<close>

text \<open>
  Property (C35). A failed start can leave a processor that nothing can release. In every reachable state whose
  server was never started, a start whose \<^verbatim>\<open>chttp_server_start\<close> fails returns that status and changes
  nothing, and stop and destroy both answer \<^verbatim>\<open>SALTS_EBUSY\<close>, although the comment of
  \<^verbatim>\<open>scxml_chttp_processor_start\<close> in \<^verbatim>\<open>include/scxml/chttp_event_io.h\<close> tells the owner to stop and destroy the
  processor after a failure. So the memory can be released only after a start whose server did start.
\<close>

theorem http_failed_start_leaks:
  assumes "life_reachable r" "\<not> sy_server_started (rn_system r)" "server_start \<noteq> SALTS_OK"
  shows "start_enter server_start port create (rn_system r) = (Start_Returns server_start, rn_system r) \<and>
    stop_enter (rn_system r) = (SALTS_EBUSY, rn_system r) \<and>
    scxml_chttp_processor_destroy server_destroy (rn_system r) = (SALTS_EBUSY, Some (rn_system r))"
proof -
  have "sy_state (rn_system r) = SCXML_CHTTP_PROCESSOR_INITIALIZED" "\<not> sy_worker_started (rn_system r)"
    using life_reachable_inv [OF assms(1)] assms(2) by (auto simp: life_inv_def phase_ok_def Let_def split: if_splits)
  then show ?thesis using assms(3)
    by (simp add: start_enter_def stop_enter_def stop_begin_def scxml_chttp_processor_destroy_def)
qed

section \<open>A run of start and stop\<close>

lemmas cond_simps = cmeta_cond_broadcast_def cmeta_cond_wait_def start_sleep_def stop_sleep_def stop_wait_over_def

definition demo_env :: worker_env where
  "demo_env = \<lparr>we_init = SALTS_OK, we_now = 5, we_stop = SALTS_OK, we_destroy = SALTS_OK\<rparr>"

definition demo_created :: http_run where
  "demo_created = (let r = fresh_run (copied_config demo_config) in
     r\<lparr>rn_system := snd (start_enter SALTS_OK (SALTS_OK, 8080) SALTS_OK (rn_system r)), rn_worker := Worker_Created,
       rn_start_waits := True\<rparr>)"

definition worker_moves :: "http_run \<Rightarrow> http_run" where
  "worker_moves r = (case worker_section demo_env (rn_worker r) (rn_system r) of
     None \<Rightarrow> r | Some (pc, s) \<Rightarrow> r\<lparr>rn_system := s, rn_worker := pc\<rparr>)"

definition demo_ready :: http_run where
  "demo_ready = demo_created\<lparr>rn_system := snd (worker_begin SALTS_OK (rn_system demo_created)), rn_worker := Worker_Top\<rparr>"

definition demo_running :: http_run where
  "demo_running = demo_ready\<lparr>rn_system := set_state SCXML_CHTTP_PROCESSOR_RUNNING (rn_system demo_ready),
     rn_start_waits := False, rn_worker := Worker_Top\<rparr>"

definition demo_stop_waits :: http_run where
  "demo_stop_waits = demo_running\<lparr>rn_system := stop_sleep (stop_request 100
     (snd (stop_server (Some 50) SALTS_OK False (snd (stop_enter (rn_system demo_running)))))),
     rn_stop := Stop_Waiting 100 SALTS_OK\<rparr>"

definition demo_stopped :: http_run where
  "demo_stopped = (let r = worker_moves (worker_moves demo_stop_waits) in
     r\<lparr>rn_worker := Worker_None, rn_system := snd (stop_finish SALTS_OK ((rn_system r)\<lparr>sy_worker_started := False\<rparr>)),
       rn_stop := Stop_Idle\<rparr>)"

lemma worker_moves_reachable: "life_reachable r \<Longrightarrow> life_reachable (worker_moves r)"
  by (auto simp: worker_moves_def split: option.split intro: life_reachable.step life_step.worker)

lemma fresh_system_facts:
  "sy_state (fresh_system cfg) = SCXML_CHTTP_PROCESSOR_INITIALIZED" "hp_live_bindings (sy_core (fresh_system cfg)) = 0"
  "\<not> sy_stop_active (fresh_system cfg)" "\<not> sy_worker_started (fresh_system cfg)" "\<not> sy_server_stopped (fresh_system cfg)"
  "sy_stop_generation (fresh_system cfg) = 0" "sy_shutdown_terminal_status (fresh_system cfg) = SALTS_OK"
  "\<not> sy_stop_attempt_complete (fresh_system cfg)" "\<not> sy_worker_ready (fresh_system cfg)"
  by (simp_all add: fresh_system_def) (simp_all add: fresh_http_processor_def)

lemma demo_created_reachable: "life_reachable demo_created"
proof -
  let ?r = "fresh_run (copied_config demo_config)"
  have "start_enter SALTS_OK (SALTS_OK, 8080) SALTS_OK (rn_system ?r) = (Start_Waits, rn_system demo_created)"
    by (simp add: demo_created_def fresh_run_def start_enter_def cond_simps Let_def fresh_system_facts)
  from life_reachable.step [OF life_reachable.init life_step.start [OF this]] show ?thesis
    by (simp add: demo_created_def Let_def)
qed

lemma demo_ready_reachable: "life_reachable demo_ready"
proof -
  have "worker_section (demo_env\<lparr>we_init := SALTS_OK\<rparr>) (rn_worker demo_created) (rn_system demo_created) =
      Some (Worker_Top, rn_system demo_ready)"
    by (simp add: demo_created_def demo_ready_def Let_def worker_begin_def)
  from life_reachable.step [OF demo_created_reachable life_step.worker [OF this]] show ?thesis
    by (simp add: demo_ready_def)
qed

lemma demo_running_reachable: "life_reachable demo_running"
proof -
  have r: "rn_start_waits demo_ready" "Starting_Thread \<notin> sy_asleep (rn_system demo_ready)"
    "sy_worker_ready (rn_system demo_ready)" "rn_worker demo_ready = Worker_Top"
    and ready: "start_ready SALTS_OK (rn_system demo_ready) = (Start_Returns SALTS_OK, rn_system demo_running)"
      "sy_worker_started (rn_system demo_running)"
    by (simp_all add: demo_ready_def demo_running_def demo_created_def start_ready_def worker_begin_def Let_def
        fresh_run_def start_enter_def cond_simps fresh_system_facts set_state_def)
  from life_reachable.step [OF demo_ready_reachable life_step.started [OF r(1-3) ready(1)]]
  show ?thesis using r(4) ready by (simp add: demo_running_def start_done_def)
qed

lemma demo_running_facts:
  "hp_live_bindings (sy_core (rn_system demo_running)) = 0" "sy_state (rn_system demo_running) = SCXML_CHTTP_PROCESSOR_RUNNING"
  "\<not> sy_stop_active (rn_system demo_running)" "sy_server_started (rn_system demo_running)"
  "\<not> sy_server_stopped (rn_system demo_running)" "sy_worker_started (rn_system demo_running)"
  "sy_stop_generation (rn_system demo_running) = 0" "rn_worker demo_running = Worker_Top"
  "\<not> sy_client_stopped (rn_system demo_running)" "\<not> sy_client_destroyed (rn_system demo_running)"
  "sy_shutdown_terminal_status (rn_system demo_running) = SALTS_OK" "\<not> sy_worker_exited (rn_system demo_running)"
  by (simp_all add: demo_ready_def demo_running_def demo_created_def worker_begin_def Let_def
      fresh_run_def start_enter_def cond_simps fresh_system_facts set_state_def)

lemma demo_stop_waits_facts:
  "rn_worker demo_stop_waits = Worker_Top" "rn_stop demo_stop_waits = Stop_Waiting 100 SALTS_OK"
  "\<not> sy_client_stopped (rn_system demo_stop_waits)" "\<not> sy_client_destroyed (rn_system demo_stop_waits)"
  "sy_server_stopped (rn_system demo_stop_waits)" "sy_stop_requested (rn_system demo_stop_waits)"
  "\<not> sy_stop_attempt_complete (rn_system demo_stop_waits)" "\<not> sy_worker_exited (rn_system demo_stop_waits)"
  "sy_stop_deadline_ms (rn_system demo_stop_waits) = 100" "sy_shutdown_terminal_status (rn_system demo_stop_waits) = SALTS_OK"
  by (simp_all add: demo_stop_waits_def cond_simps stop_request_def stop_server_def stop_enter_def stop_begin_def demo_running_facts)

lemma demo_stop_waits_reachable: "life_reachable demo_stop_waits"
proof -
  define s1 where "s1 = snd (stop_enter (rn_system demo_running))"
  define s2 where "s2 = snd (stop_server (Some 50) SALTS_OK False s1)"
  have enter: "stop_enter (rn_system demo_running) = (SALTS_OK, s1)"
    and server: "stop_server (Some 50) SALTS_OK False s1 = (Inr SALTS_OK, s2)"
    and asks: "sy_worker_started s2" "sy_stop_generation s2 \<noteq> UINT64_MAX"
    by (simp_all add: s2_def s1_def stop_enter_def stop_begin_def stop_server_def demo_running_facts)
  have goal: "demo_stop_waits = demo_running\<lparr>rn_system := stop_sleep (stop_request 100 s2), rn_stop := Stop_Waiting 100 SALTS_OK\<rparr>"
    by (simp only: demo_stop_waits_def s1_def s2_def)
  have "life_reachable (demo_running\<lparr>rn_system := s1, rn_stop := Stop_Server 100\<rparr>)" (is "life_reachable ?r1")
    by (rule life_reachable.step [OF demo_running_reachable life_step.stop [OF enter]])
  moreover have "life_step ?r1 (?r1\<lparr>rn_system := s2, rn_stop := Stop_Worker 100 SALTS_OK\<rparr>)"
    using life_step.stop_server [of ?r1 100 "Some 50" SALTS_OK False "Inr SALTS_OK" s2] server by simp
  ultimately have "life_reachable (?r1\<lparr>rn_system := s2, rn_stop := Stop_Worker 100 SALTS_OK\<rparr>)" (is "life_reachable ?r2")
    by (rule life_reachable.step)
  moreover have "life_step ?r2 demo_stop_waits"
    using life_step.stop_worker [of ?r2 100 SALTS_OK] asks by (simp add: goal)
  ultimately show ?thesis by (rule life_reachable.step)
qed

lemma demo_stopped_reachable: "life_reachable demo_stopped"
proof -
  let ?r = "worker_moves (worker_moves demo_stop_waits)"
  have r: "rn_stop ?r = Stop_Waiting 100 SALTS_OK" "Stopping_Thread \<notin> sy_asleep (rn_system ?r)" "stop_wait_over (rn_system ?r)" "rn_worker ?r = Worker_Returned"
    "stop_wait_status (rn_system ?r) = SALTS_OK"
    by (simp_all add: worker_moves_def worker_top_def worker_settle_def cond_simps worker_attempt_def demo_env_def Let_def
        remaining_timeout_ms_def stop_wait_over_def stop_wait_status_def demo_stop_waits_facts)
  have "life_reachable ?r" by (intro worker_moves_reachable demo_stop_waits_reachable)
  then have "life_reachable (?r\<lparr>rn_stop := Stop_Joining SALTS_OK\<rparr>)" (is "life_reachable ?r1")
    using life_reachable.step [OF _ life_step.stop_woken [OF r(1-3)]] r(5) by simp
  then have "life_reachable (?r1\<lparr>rn_system := (rn_system ?r1)\<lparr>sy_worker_started := False\<rparr>, rn_worker := Worker_None,
      rn_stop := Stop_Finishing SALTS_OK\<rparr>)" (is "life_reachable ?r2")
    using life_reachable.step [OF _ life_step.stop_join [of ?r1 SALTS_OK SALTS_OK]] r(4) by simp
  from life_reachable.step [OF this life_step.stop_finish [of ?r2 SALTS_OK, OF _ pair_split]] show ?thesis
    by (simp add: demo_stopped_def Let_def)
qed

theorem http_teardown_complete_witness:
  "scxml_chttp_processor_destroy SALTS_OK (rn_system demo_stopped) = (SALTS_OK, None)"
proof -
  have "sy_state (rn_system demo_stopped) = SCXML_CHTTP_PROCESSOR_STOPPED"
    by (simp add: demo_stopped_def worker_moves_def worker_top_def worker_settle_def cond_simps worker_attempt_def demo_env_def Let_def
        remaining_timeout_ms_def stop_finish_def set_state_def demo_stop_waits_facts)
  with http_teardown_complete [OF demo_stopped_reachable] show ?thesis by blast
qed


theorem http_no_lost_wakeup_witness:
  "Stopping_Thread \<in> sy_asleep (rn_system demo_stop_waits) \<and> \<not> sy_stop_attempt_complete (rn_system demo_stop_waits)"
proof -
  have "Stopping_Thread \<in> sy_asleep (rn_system demo_stop_waits)"
    by (simp add: demo_stop_waits_def stop_sleep_def stop_wait_over_def cmeta_cond_wait_def stop_request_def
        cmeta_cond_broadcast_def stop_server_def stop_enter_def stop_begin_def demo_running_facts)
  with http_no_lost_wakeup [OF demo_stop_waits_reachable] show ?thesis by blast
qed

theorem http_failed_start_leaks_witness:
  "scxml_chttp_processor_destroy SALTS_OK (rn_system (fresh_run (copied_config demo_config))) =
     (SALTS_EBUSY, Some (rn_system (fresh_run (copied_config demo_config))))"
  using http_failed_start_leaks [OF life_reachable.init, of "copied_config demo_config" SALTS_EBUSY]
  by (simp add: fresh_run_def fresh_system_def)

end
