(* ===== verification/Session_State.thy ===== *)
theory Session_State
  imports Http_Codec
begin

text \<open>
  State of a Session (\<^verbatim>\<open>struct scxml_session_impl\<close> of \<^verbatim>\<open>src/scxml_impl.h\<close>): the part
  that the delayed-send registry, the invocation table and the event metadata slots live in.

  The statechart library (\<^verbatim>\<open>cflow\<close>) is not in the repository. What the Session code sees
  of it is the transaction a handler runs in: a ticket handed to \<^verbatim>\<open>stage_effect\<close> is either refused,
  or kept and later committed or discarded; an internal event handed to
  \<^verbatim>\<open>raise_internal\<close> is refused or queued; an external event offered to the mailbox is admitted or refused. The answers are the
  functions of \<open>host_ops\<close>; the kept tickets and the queued events are the fields \<open>sn_staged\<close>,
  \<open>sn_raised\<close> and \<open>sn_external\<close>, and \<open>sn_adapter_events\<close> holds the adapter errors its internal ingress
  admitted. \<open>sn_constructed\<close> and \<open>sn_destroyed\<close> count the event data
  objects whose life began and ended. An
  adapter's ticket is a number; \<open>sn_ticket_log\<close> records each call of its \<^verbatim>\<open>commit\<close> (True) and
  \<^verbatim>\<open>discard\<close> (False) function.
\<close>

unbundle bit_operations_syntax

section \<open>Rows\<close>

type_synonym event_id = nat
type_synonym state_id = nat
type_synonym adapter_ticket = nat

datatype scxml_execute_outcome =
    SCXML_EXECUTE_CONTINUE | SCXML_EXECUTE_BLOCK_ABORTED | SCXML_EXECUTE_FATAL

datatype scxml_delayed_state =
    SCXML_DELAYED_FREE | SCXML_DELAYED_RESERVED | SCXML_DELAYED_ACTIVE
  | SCXML_DELAYED_CANCEL_RESERVED

text \<open>The id points into the program, or to the row's own copy (\<open>ds_owned\<close>).\<close>

record scxml_delayed_send =
  ds_id :: string
  ds_owned :: bool
  ds_state :: scxml_delayed_state
  ds_previous :: scxml_delayed_state

definition no_delayed_send :: scxml_delayed_send where
  "no_delayed_send =
     \<lparr>ds_id = '''', ds_owned = False, ds_state = SCXML_DELAYED_FREE, ds_previous = SCXML_DELAYED_FREE\<rparr>"

text \<open>\<open>SCXML_PREPARED_NONE\<close> is the zero of a cleared slot; an index of None is \<^verbatim>\<open>SIZE_MAX\<close>.\<close>

datatype scxml_prepared_kind =
    SCXML_PREPARED_NONE | SCXML_PREPARED_SEND | SCXML_PREPARED_DELAYED_SEND | SCXML_PREPARED_CANCEL

record scxml_prepared_effect =
  pe_ticket :: "adapter_ticket option"
  pe_index :: "nat option"
  pe_kind :: scxml_prepared_kind
  pe_in_use :: bool

datatype scxml_invocation_state =
    SCXML_INVOCATION_INACTIVE | SCXML_INVOCATION_PENDING | SCXML_INVOCATION_START_RESERVED
  | SCXML_INVOCATION_FAIL_RESERVED | SCXML_INVOCATION_ACTIVE | SCXML_INVOCATION_FAILED

record scxml_invocation_row =
  ir_token :: u64
  ir_id :: string
  ir_owns_id :: bool
  ir_state :: scxml_invocation_state

definition invocation_row :: "scxml_invocation_state \<Rightarrow> scxml_invocation_row" where
  "invocation_row s = \<lparr>ir_token = 0, ir_id = '''', ir_owns_id = False, ir_state = s\<rparr>"

datatype scxml_invocation_effect_kind =
    SCXML_INVOCATION_EFFECT_NONE | SCXML_INVOCATION_EFFECT_ENTER | SCXML_INVOCATION_EFFECT_EXIT
  | SCXML_INVOCATION_EFFECT_START | SCXML_INVOCATION_EFFECT_FAIL
  | SCXML_INVOCATION_EFFECT_COMPLETE | SCXML_INVOCATION_EFFECT_FORWARD

record scxml_invocation_effect =
  ie_ticket :: "adapter_ticket option"
  ie_token :: u64
  ie_invocation :: nat
  ie_kind :: scxml_invocation_effect_kind
  ie_in_use :: bool

text \<open>
  A metadata row. The structured datum is an object of the schema \<open>mr_schema\<close>, constructed in the
  row while \<open>mr_object_live\<close>.
\<close>

record scxml_metadata_row =
  mr_session :: bool
  mr_token :: u64
  mr_in_use :: bool
  mr_name :: string
  mr_send_id :: string
  mr_origin :: string
  mr_origin_type :: string
  mr_invoke_id :: string
  mr_data :: string
  mr_schema :: "nat option"
  mr_object_live :: bool
  mr_object :: nat

definition no_metadata_row :: scxml_metadata_row where
  "no_metadata_row =
     \<lparr>mr_session = False, mr_token = 0, mr_in_use = False, mr_name = '''', mr_send_id = '''',
      mr_origin = '''', mr_origin_type = '''', mr_invoke_id = '''', mr_data = '''',
      mr_schema = None, mr_object_live = False, mr_object = 0\<rparr>"

datatype scxml_completion_state =
    SCXML_COMPLETION_DATA_FREE | SCXML_COMPLETION_DATA_BUILDING | SCXML_COMPLETION_DATA_READY
  | SCXML_COMPLETION_DATA_BOUND

record scxml_completion_slot =
  cs_state :: scxml_completion_state
  cs_parent :: state_id
  cs_sequence :: u64
  cs_data :: string
  cs_schema :: "nat option"
  cs_object_live :: bool
  cs_object :: nat

definition no_completion_slot :: scxml_completion_slot where
  "no_completion_slot =
     \<lparr>cs_state = SCXML_COMPLETION_DATA_FREE, cs_parent = 0, cs_sequence = 0, cs_data = '''',
      cs_schema = None, cs_object_live = False, cs_object = 0\<rparr>"

text \<open>What the program says of one \<^verbatim>\<open><invoke>\<close>.\<close>

record scxml_invocation_descriptor =
  iv_owner :: state_id
  iv_id :: string
  iv_owner_id_size :: nat
  iv_dynamic_id_max_size :: nat
  iv_done_event :: event_id
  iv_autoforward :: bool
  iv_has_id_location :: bool
  iv_type :: string
  iv_has_type_expr :: bool
  iv_src :: string
  iv_has_src_expr :: bool
  iv_has_payload :: bool
  iv_has_finalize :: bool

record scxml_invoke_stats =
  is_started :: u64
  is_start_failed :: u64
  is_cancelled :: u64
  is_cancel_failed :: u64
  is_completed :: u64
  is_returned_accepted :: u64
  is_returned_rejected :: u64
  is_forwarded :: u64
  is_forward_failed :: u64
  is_adapter_error_rejected :: u64
  is_active :: nat

text \<open>The system variables of the current event.\<close>

record scxml_system_values =
  sv_name :: string
  sv_type :: string
  sv_send_id :: string
  sv_origin :: string
  sv_origin_type :: string
  sv_invoke_id :: string
  sv_data :: string
  sv_schema :: "nat option"
  sv_object :: "nat option"

section \<open>The Session\<close>

definition SCXML_EXTERNAL_METADATA_TOKEN_BIT :: u64 where
  "SCXML_EXTERNAL_METADATA_TOKEN_BIT = push_bit 63 1"

text \<open>A ticket of the Session that the transaction keeps: the slot it points to.\<close>

datatype staged_ticket = Staged_Prepared nat | Staged_Invocation nat | Staged_Metadata nat

text \<open>
  Where the thread that exits a service has released the lock before the exit is finished: it holds the
  token and the id of the service it is about to cancel, or the status it is about to report.
\<close>

datatype unfinished_exit = Prepare_Cancel u64 string | Report_Failure scxml_adapter_status

record scxml_program_names =
  pn_names :: "(string \<times> event_id) list"
  pn_by_id :: "event_id \<Rightarrow> string option"
  pn_states :: "(state_id \<times> string) list"
  pn_unmatched :: event_id
  pn_execution_error :: event_id
  pn_communication_error :: event_id
  pn_root :: "nat option"

record scxml_session_impl =
  sn_program :: scxml_program_names
  sn_invocations :: "scxml_invocation_descriptor list"
  sn_has_event_io :: bool
  sn_has_invoke :: bool
  sn_session_id :: string
  sn_delayed_sends :: "scxml_delayed_send list"
  sn_prepared_effects :: "scxml_prepared_effect list"
  sn_invocation_rows :: "scxml_invocation_row list"
  sn_invocation_effects :: "scxml_invocation_effect list"
  sn_invoke_stats :: scxml_invoke_stats
  sn_metadata_rows :: "scxml_metadata_row list"
  sn_completion_slots :: "scxml_completion_slot list"
  sn_current_completion :: "nat option"
  sn_next_send_token :: u64
  sn_next_invocation_token :: u64
  sn_next_metadata_token :: u64
  sn_next_completion_sequence :: u64
  sn_failed_send_id :: "string option"
  sn_system :: scxml_system_values
  sn_current_schema :: "nat option"
  sn_current_live :: bool
  sn_current_object :: nat
  sn_staged :: "staged_ticket list"
  sn_unfinished :: "unfinished_exit option"
  sn_raised :: "(event_id \<times> u64) list"
  sn_external :: "(event_id \<times> u64) list"
  sn_adapter_events :: "event_id list"
  sn_ticket_log :: "(adapter_ticket \<times> bool) list"
  sn_constructed :: nat
  sn_destroyed :: nat

record host_ops =
  ho_stage :: "staged_ticket \<Rightarrow> bool"
  ho_raise :: "event_id \<Rightarrow> u64 \<Rightarrow> bool"
  ho_post :: "event_id \<Rightarrow> u64 \<Rightarrow> cflow_mailbox_status"

section \<open>Small operations\<close>

definition scxml_runtime_increment_u64 :: "u64 \<Rightarrow> u64" where
  "scxml_runtime_increment_u64 w = (if w \<noteq> UINT64_MAX then w + 1 else w)"

definition upd_stats :: "(scxml_invoke_stats \<Rightarrow> scxml_invoke_stats) \<Rightarrow> scxml_session_impl \<Rightarrow> scxml_session_impl"
where
  "upd_stats f s = s\<lparr>sn_invoke_stats := f (sn_invoke_stats s)\<rparr>"

text \<open>A call of an adapter ticket's function; a ticket without one is not called.\<close>

definition call_ticket :: "bool \<Rightarrow> adapter_ticket option \<Rightarrow> scxml_session_impl \<Rightarrow> scxml_session_impl" where
  "call_ticket c t s =
     (case t of None \<Rightarrow> s | Some k \<Rightarrow> s\<lparr>sn_ticket_log := sn_ticket_log s @ [(k, c)]\<rparr>)"

definition stage_effect :: "host_ops \<Rightarrow> staged_ticket \<Rightarrow> scxml_session_impl \<Rightarrow> bool \<times> scxml_session_impl" where
  "stage_effect ops t s =
     (if ho_stage ops t then (True, s\<lparr>sn_staged := sn_staged s @ [t]\<rparr>) else (False, s))"

definition raise_internal ::
  "host_ops \<Rightarrow> event_id \<Rightarrow> u64 \<Rightarrow> scxml_session_impl \<Rightarrow> bool \<times> scxml_session_impl" where
  "raise_internal ops e t s =
     (if ho_raise ops e t then (True, s\<lparr>sn_raised := sn_raised s @ [(e, t)]\<rparr>) else (False, s))"

definition post_external ::
  "host_ops \<Rightarrow> event_id \<Rightarrow> u64 \<Rightarrow> scxml_session_impl \<Rightarrow> cflow_mailbox_status \<times> scxml_session_impl" where
  "post_external ops e t s =
     (if ho_post ops e t = CFLOW_MAILBOX_OK
      then (CFLOW_MAILBOX_OK, s\<lparr>sn_external := sn_external s @ [(e, t)]\<rparr>) else (ho_post ops e t, s))"

text \<open>Ticket calls of the log that name one ticket.\<close>

definition ticket_calls :: "adapter_ticket \<Rightarrow> (adapter_ticket \<times> bool) list \<Rightarrow> nat" where
  "ticket_calls k log = length (filter (\<lambda>c. fst c = k) log)"

lemma ticket_calls_simps [simp]:
  "ticket_calls k [] = 0"
  "ticket_calls k (c # log) = (if fst c = k then 1 else 0) + ticket_calls k log"
  "ticket_calls k (xs @ ys) = ticket_calls k xs + ticket_calls k ys"
  by (simp_all add: ticket_calls_def)

lemma increment_u64_le: "w \<le> scxml_runtime_increment_u64 w"
  by (auto simp: scxml_runtime_increment_u64_def intro: less_imp_le [OF less_Suc_guard])

section \<open>A new Session\<close>

definition no_invoke_stats :: scxml_invoke_stats where
  "no_invoke_stats =
     \<lparr>is_started = 0, is_start_failed = 0, is_cancelled = 0, is_cancel_failed = 0, is_completed = 0,
      is_returned_accepted = 0, is_returned_rejected = 0, is_forwarded = 0, is_forward_failed = 0,
      is_adapter_error_rejected = 0, is_active = 0\<rparr>"

definition no_prepared_effect :: scxml_prepared_effect where
  "no_prepared_effect =
     \<lparr>pe_ticket = None, pe_index = None, pe_kind = SCXML_PREPARED_NONE, pe_in_use = False\<rparr>"

definition no_invocation_effect :: scxml_invocation_effect where
  "no_invocation_effect =
     \<lparr>ie_ticket = None, ie_token = 0, ie_invocation = 0, ie_kind = SCXML_INVOCATION_EFFECT_NONE,
      ie_in_use = False\<rparr>"

definition no_system_values :: scxml_system_values where
  "no_system_values =
     \<lparr>sv_name = '''', sv_type = '''', sv_send_id = '''', sv_origin = '''', sv_origin_type = '''',
      sv_invoke_id = '''', sv_data = '''', sv_schema = None, sv_object = None\<rparr>"

text \<open>The capacities of the tables the Session is given.\<close>

record session_capacities =
  cap_delayed :: nat
  cap_prepared :: nat
  cap_invocations :: nat
  cap_effects :: nat
  cap_metadata :: nat
  cap_completion :: nat

definition session_init ::
  "scxml_program_names \<Rightarrow> scxml_invocation_descriptor list \<Rightarrow> bool \<Rightarrow> bool \<Rightarrow> string \<Rightarrow> session_capacities
    \<Rightarrow> scxml_session_impl" where
  "session_init p ivs io invk ident cap =
     \<lparr>sn_program = p, sn_invocations = ivs, sn_has_event_io = io, sn_has_invoke = invk,
      sn_session_id = ident, sn_delayed_sends = replicate (cap_delayed cap) no_delayed_send,
      sn_prepared_effects = replicate (cap_prepared cap) no_prepared_effect,
      sn_invocation_rows = replicate (cap_invocations cap) (invocation_row SCXML_INVOCATION_INACTIVE),
      sn_invocation_effects = replicate (cap_effects cap) no_invocation_effect,
      sn_invoke_stats = no_invoke_stats,
      sn_metadata_rows = replicate (cap_metadata cap) no_metadata_row,
      sn_completion_slots = replicate (cap_completion cap) no_completion_slot,
      sn_current_completion = None, sn_next_send_token = 1, sn_next_invocation_token = 1,
      sn_next_metadata_token = SCXML_EXTERNAL_METADATA_TOKEN_BIT OR 1,
      sn_next_completion_sequence = 1, sn_failed_send_id = None, sn_system = no_system_values,
      sn_current_schema = None, sn_current_live = False, sn_current_object = 0,
      sn_staged = [], sn_unfinished = None, sn_raised = [], sn_external = [], sn_adapter_events = [], sn_ticket_log = [],
      sn_constructed = 0, sn_destroyed = 0\<rparr>"

end
