(* ===== verification/Session_Metadata.thy ===== *)
theory Session_Metadata
  imports Session_State
begin

text \<open>
  Metadata of events (\<^verbatim>\<open>src/scxml_runtime.c\<close>, \<^verbatim>\<open>src/scxml_session.c\<close>,
  \<^verbatim>\<open>src/scxml_analyze.c\<close>): a sender's fields are kept in a slot under a token that travels with the
  event, and are moved into the system variables when the event is observed; the data of a done event
  waits in a completion slot.

  The copy constructor of a structured datum and the validity of its descriptor belong to the CMeta
  library: \<open>data_ops\<close>.
\<close>

record data_ops =
  do_copy :: "nat \<Rightarrow> nat \<Rightarrow> nat option"
  do_valid :: "nat \<Rightarrow> bool"
  do_env :: codec_env
  do_nonfinite :: "u64 \<Rightarrow> string"

record event_content =
  ec_kind :: scxml_content_kind
  ec_scalar :: scxml_payload_value
  ec_bytes :: cbytes
  ec_schema :: "nat option"
  ec_object :: "nat option"

record scxml_event_metadata =
  em_abi_ok :: bool
  em_send_id :: cbytes
  em_origin :: cbytes
  em_origin_type :: cbytes
  em_invoke_id :: cbytes
  em_data :: event_content

section \<open>Tokens\<close>

definition next_metadata_token :: "u64 \<Rightarrow> u64" where
  "next_metadata_token token =
     (let n = SCXML_EXTERNAL_METADATA_TOKEN_BIT OR
              (((token AND NOT SCXML_EXTERNAL_METADATA_TOKEN_BIT) + 1)
               AND NOT SCXML_EXTERNAL_METADATA_TOKEN_BIT)
      in if n = SCXML_EXTERNAL_METADATA_TOKEN_BIT then n OR 1 else n)"

section \<open>Slots\<close>

definition upd_metadata ::
  "nat \<Rightarrow> (scxml_metadata_row \<Rightarrow> scxml_metadata_row) \<Rightarrow> scxml_session_impl \<Rightarrow> scxml_session_impl" where
  "upd_metadata i f s = s\<lparr>sn_metadata_rows := (sn_metadata_rows s)[i := f (sn_metadata_rows s ! i)]\<rparr>"

definition scxml_runtime_metadata_field_valid :: "cbytes \<Rightarrow> bool" where
  "scxml_runtime_metadata_field_valid d \<longleftrightarrow>
     csize d \<le> SCXML_EVENT_METADATA_CAPACITY \<and> (csize d = 0 \<or> \<not> is_cnull d)"

definition metadata_fields_valid :: "scxml_event_metadata \<Rightarrow> bool" where
  "metadata_fields_valid m \<longleftrightarrow>
     scxml_runtime_metadata_field_valid (em_send_id m) \<and>
     scxml_runtime_metadata_field_valid (em_origin m) \<and>
     scxml_runtime_metadata_field_valid (em_origin_type m) \<and>
     scxml_runtime_metadata_field_valid (em_invoke_id m)"

definition metadata_slot_free :: "scxml_metadata_row \<Rightarrow> bool" where
  "metadata_slot_free r \<longleftrightarrow> \<not> mr_in_use r \<and> \<not> mr_object_live r"

definition scxml_runtime_reserve_event_metadata ::
  "scxml_event_metadata \<Rightarrow> scxml_session_impl \<Rightarrow> (nat \<times> u64) option \<times> scxml_session_impl" where
  "scxml_runtime_reserve_event_metadata m s =
     (if \<not> metadata_fields_valid m then (None, s)
      else case first_index metadata_slot_free (sn_metadata_rows s) of
        None \<Rightarrow> (None, s)
      | Some i \<Rightarrow>
          let token = sn_next_metadata_token s;
              s1 = s\<lparr>sn_next_metadata_token := next_metadata_token token\<rparr>
          in (Some (i, token),
              upd_metadata i (\<lambda>r. r\<lparr>mr_session := True, mr_token := token, mr_in_use := True,
                mr_send_id := cdata (em_send_id m), mr_origin := cdata (em_origin m),
                mr_origin_type := cdata (em_origin_type m), mr_invoke_id := cdata (em_invoke_id m)\<rparr>) s1))"

definition scxml_runtime_release_event_metadata :: "nat \<Rightarrow> scxml_session_impl \<Rightarrow> scxml_session_impl" where
  "scxml_runtime_release_event_metadata i s =
     (let r = sn_metadata_rows s ! i in
      if \<not> mr_session r then s
      else if \<not> mr_in_use r then s
      else if \<not> mr_object_live r then upd_metadata i (\<lambda>_. no_metadata_row) s
      else upd_metadata i (\<lambda>_. no_metadata_row) (s\<lparr>sn_destroyed := sn_destroyed s + 1\<rparr>))"

section \<open>Content\<close>

fun scxml_runtime_scalar_value_to_text :: "data_ops \<Rightarrow> scxml_payload_value \<Rightarrow> nat \<Rightarrow> string option" where
  "scxml_runtime_scalar_value_to_text d (SCXML_PAYLOAD_VALUE_STRING b) cap =
     (if csize b > SCXML_EVENT_METADATA_CAPACITY then None else Some (cdata b))"
| "scxml_runtime_scalar_value_to_text d v cap =
     (case (case v of
              SCXML_PAYLOAD_VALUE_BOOL b \<Rightarrow> Some (if b then ''true'' else ''false'')
            | SCXML_PAYLOAD_VALUE_SINT w \<Rightarrow> Some (int_text (sint w))
            | SCXML_PAYLOAD_VALUE_UINT w \<Rightarrow> Some (dec_text (unat w))
            | SCXML_PAYLOAD_VALUE_FLOAT w \<Rightarrow>
                Some (if isfinite w then float_render (env_decimal_point (do_env d)) (float_parts w)
                      else do_nonfinite d w)
            | _ \<Rightarrow> None) of
        None \<Rightarrow> None
      | Some t \<Rightarrow> if length t \<ge> cap \<or> length t > SCXML_EVENT_METADATA_CAPACITY then None else Some t)"

definition scxml_analyze_attach_event_content ::
  "data_ops \<Rightarrow> event_content \<Rightarrow> nat \<Rightarrow> scxml_session_impl \<Rightarrow> bool \<times> scxml_session_impl" where
  "scxml_analyze_attach_event_content d c i s =
     (if \<not> mr_in_use (sn_metadata_rows s ! i) then (False, s)
      else case ec_kind c of
        SCXML_CONTENT_INVALID \<Rightarrow> (True, s)
      | SCXML_CONTENT_SCALAR \<Rightarrow>
          (case scxml_runtime_scalar_value_to_text d (ec_scalar c) (SCXML_EVENT_METADATA_CAPACITY + 1) of
             None \<Rightarrow> (False, s)
           | Some t \<Rightarrow> (True, upd_metadata i (\<lambda>r. r\<lparr>mr_data := t\<rparr>) s))
      | SCXML_CONTENT_CMETA \<Rightarrow>
          (case (pn_root (sn_program s), ec_schema c, ec_object c) of
             (Some root, Some schema, Some obj) \<Rightarrow>
               if schema \<noteq> root then (False, s)
               else (case do_copy d schema obj of
                       None \<Rightarrow> (False, s)
                     | Some copy \<Rightarrow>
                         (True, upd_metadata i
                            (\<lambda>r. r\<lparr>mr_schema := Some schema, mr_object_live := True, mr_object := copy\<rparr>)
                            (s\<lparr>sn_constructed := sn_constructed s + 1\<rparr>)))
           | _ \<Rightarrow> (False, s))
      | _ \<Rightarrow>
          (if csize (ec_bytes c) > SCXML_EVENT_METADATA_CAPACITY \<or>
              csize (ec_bytes c) \<noteq> 0 \<and> is_cnull (ec_bytes c) then (False, s)
           else (True, upd_metadata i (\<lambda>r. r\<lparr>mr_data := cdata (ec_bytes c)\<rparr>) s)))"

section \<open>Sending an event with metadata\<close>

definition scxml_session_try_send_metadata_impl ::
  "host_ops \<Rightarrow> data_ops \<Rightarrow> event_id \<Rightarrow> cbytes \<Rightarrow> scxml_event_metadata \<Rightarrow> scxml_session_impl
    \<Rightarrow> cflow_mailbox_status \<times> scxml_session_impl" where
  "scxml_session_try_send_metadata_impl ops d event name m s =
     (if \<not> em_abi_ok m \<or> \<not> metadata_fields_valid m then (CFLOW_MAILBOX_INVALID_ARGUMENT, s)
      else if \<not> scxml_runtime_metadata_field_valid name then (CFLOW_MAILBOX_INVALID_ARGUMENT, s)
      else case scxml_runtime_reserve_event_metadata m s of
        (None, s1) \<Rightarrow> (CFLOW_MAILBOX_FULL, s1)
      | (Some (i, token), s1) \<Rightarrow>
          (case scxml_analyze_attach_event_content d (em_data m) i
                  (upd_metadata i (\<lambda>r. r\<lparr>mr_name := cdata name\<rparr>) s1) of
             (False, s2) \<Rightarrow> (CFLOW_MAILBOX_INVALID_ARGUMENT, scxml_runtime_release_event_metadata i s2)
           | (True, s2) \<Rightarrow>
               (case post_external ops event token s2 of
                  (status, s3) \<Rightarrow>
                    (status, if status \<noteq> CFLOW_MAILBOX_OK
                             then scxml_runtime_release_event_metadata i s3 else s3))))"

text \<open>The declared names that an event name falls under: the name itself, or a prefix up to a dot.\<close>

definition name_covers :: "string \<Rightarrow> string \<times> event_id \<Rightarrow> bool" where
  "name_covers name c \<longleftrightarrow>
     length (fst c) \<le> length name \<and>
     (length (fst c) = length name \<or> name ! length (fst c) = CHR ''.'') \<and>
     take (length (fst c)) name = fst c"

definition longer_name :: "string \<times> event_id \<Rightarrow> string \<times> event_id \<Rightarrow> bool" where
  "longer_name x y \<longleftrightarrow> length (fst x) > length (fst y)"

definition representative_event :: "scxml_program_names \<Rightarrow> string \<Rightarrow> event_id" where
  "representative_event p name =
     (case earliest_row (name_covers name) longer_name (pn_names p) of
        None \<Rightarrow> pn_unmatched p
      | Some i \<Rightarrow> snd (pn_names p ! i))"

definition scxml_session_try_send_named_with_metadata ::
  "host_ops \<Rightarrow> data_ops \<Rightarrow> cbytes \<Rightarrow> scxml_event_metadata \<Rightarrow> scxml_session_impl
    \<Rightarrow> cflow_mailbox_status \<times> scxml_session_impl" where
  "scxml_session_try_send_named_with_metadata ops d name m s =
     (if is_cnull name \<or> csize name = 0 \<or> csize name > SCXML_EVENT_METADATA_CAPACITY
      then (CFLOW_MAILBOX_INVALID_ARGUMENT, s)
      else scxml_session_try_send_metadata_impl ops d
             (representative_event (sn_program s) (cdata name)) name m s)"

section \<open>Data of done events\<close>

definition upd_completion ::
  "nat \<Rightarrow> (scxml_completion_slot \<Rightarrow> scxml_completion_slot) \<Rightarrow> scxml_session_impl \<Rightarrow> scxml_session_impl" where
  "upd_completion i f s =
     s\<lparr>sn_completion_slots := (sn_completion_slots s)[i := f (sn_completion_slots s ! i)]\<rparr>"

definition completion_data_discard_payload :: "nat \<Rightarrow> scxml_session_impl \<Rightarrow> scxml_session_impl" where
  "completion_data_discard_payload i s =
     upd_completion i (\<lambda>c. c\<lparr>cs_object_live := False, cs_schema := None, cs_data := ''''\<rparr>)
       (if cs_object_live (sn_completion_slots s ! i) then s\<lparr>sn_destroyed := sn_destroyed s + 1\<rparr> else s)"

definition completion_data_release :: "nat \<Rightarrow> scxml_session_impl \<Rightarrow> scxml_session_impl" where
  "completion_data_release i s =
     upd_completion i (\<lambda>_. no_completion_slot) (completion_data_discard_payload i s)"

definition completion_data_reserve ::
  "state_id \<Rightarrow> scxml_session_impl \<Rightarrow> nat option \<times> scxml_session_impl" where
  "completion_data_reserve parent s =
     (if parent = 0 then (None, s)
      else if sn_next_completion_sequence s = UINT64_MAX then (None, s)
      else case first_index (\<lambda>c. cs_state c = SCXML_COMPLETION_DATA_FREE) (sn_completion_slots s) of
        None \<Rightarrow> (None, s)
      | Some i \<Rightarrow>
          (Some i, upd_completion i
             (\<lambda>c. c\<lparr>cs_state := SCXML_COMPLETION_DATA_BUILDING, cs_parent := parent,
                    cs_sequence := sn_next_completion_sequence s\<rparr>)
             (s\<lparr>sn_next_completion_sequence := sn_next_completion_sequence s + 1\<rparr>)))"

definition completion_data_publish_empty :: "nat \<Rightarrow> scxml_session_impl \<Rightarrow> scxml_session_impl" where
  "completion_data_publish_empty i s =
     upd_completion i (\<lambda>c. c\<lparr>cs_state := SCXML_COMPLETION_DATA_READY\<rparr>)
       (completion_data_discard_payload i s)"

definition completion_candidate :: "state_id \<Rightarrow> scxml_completion_slot \<Rightarrow> bool" where
  "completion_candidate parent c \<longleftrightarrow>
     cs_state c = SCXML_COMPLETION_DATA_READY \<and> cs_parent c = parent"

definition completion_older :: "scxml_completion_slot \<Rightarrow> scxml_completion_slot \<Rightarrow> bool" where
  "completion_older x y \<longleftrightarrow> cs_sequence x < cs_sequence y"

definition completion_data_bind_oldest ::
  "state_id \<Rightarrow> scxml_session_impl \<Rightarrow> nat option \<times> scxml_session_impl" where
  "completion_data_bind_oldest parent s =
     (case earliest_row (completion_candidate parent) completion_older (sn_completion_slots s) of
        None \<Rightarrow> (None, s)
      | Some i \<Rightarrow>
          (Some i, upd_completion i (\<lambda>c. c\<lparr>cs_state := SCXML_COMPLETION_DATA_BOUND\<rparr>) s))"

section \<open>Observing an event\<close>

definition upd_system ::
  "(scxml_system_values \<Rightarrow> scxml_system_values) \<Rightarrow> scxml_session_impl \<Rightarrow> scxml_session_impl" where
  "upd_system f s = s\<lparr>sn_system := f (sn_system s)\<rparr>"

definition scxml_runtime_clear_current_event_metadata :: "scxml_session_impl \<Rightarrow> scxml_session_impl" where
  "scxml_runtime_clear_current_event_metadata s =
     (let s1 = (case sn_current_completion s of
                  None \<Rightarrow> s
                | Some i \<Rightarrow>
                    (if i < length (sn_completion_slots s) then completion_data_release i s else s)
                      \<lparr>sn_current_completion := None\<rparr>);
          s2 = (if sn_current_live s1
                then s1\<lparr>sn_destroyed := sn_destroyed s1 + 1, sn_current_live := False\<rparr> else s1)
      in upd_system (\<lambda>v. v\<lparr>sv_send_id := '''', sv_origin := '''', sv_origin_type := '''',
            sv_invoke_id := '''', sv_data := '''', sv_schema := None, sv_object := None\<rparr>)
          (s2\<lparr>sn_current_schema := None\<rparr>))"

datatype observed_kind =
    CFLOW_STATECHART_OBSERVED_EXTERNAL | CFLOW_STATECHART_OBSERVED_INTERNAL
  | CFLOW_STATECHART_OBSERVED_COMPLETION

record observed_event =
  ob_kind :: observed_kind
  ob_event :: "event_id option"
  ob_completion :: state_id
  ob_token :: u64

definition find_state_program_name_by_id :: "scxml_program_names \<Rightarrow> state_id \<Rightarrow> string option" where
  "find_state_program_name_by_id p i =
     (if i = 0 then None
      else map_option (\<lambda>k. snd (pn_states p ! k)) (first_index (\<lambda>st. fst st = i) (pn_states p)))"

definition bind_completion_done_data ::
  "data_ops \<Rightarrow> state_id \<Rightarrow> scxml_session_impl \<Rightarrow> bool \<times> scxml_session_impl" where
  "bind_completion_done_data d completion s =
     (case completion_data_bind_oldest completion s of
        (None, s1) \<Rightarrow> (True, s1)
      | (Some i, s1) \<Rightarrow>
          let s2 = s1\<lparr>sn_current_completion := Some i\<rparr>; c = sn_completion_slots s2 ! i
          in if cs_object_live c
             then (case cs_schema c of
                     None \<Rightarrow> (False, s2)
                   | Some schema \<Rightarrow>
                       if \<not> do_valid d schema then (False, s2)
                       else (True, upd_system (\<lambda>v. v\<lparr>sv_data := '''', sv_schema := Some schema,
                                                     sv_object := Some (cs_object c)\<rparr>)
                                     (s2\<lparr>sn_current_schema := Some schema\<rparr>)))
             else if cs_schema c \<noteq> None \<or> length (cs_data c) > SCXML_EVENT_METADATA_CAPACITY
             then (False, s2)
             else (True, upd_system (\<lambda>v. v\<lparr>sv_data := cs_data c\<rparr>) s2))"

definition observe_completion :: "data_ops \<Rightarrow> state_id \<Rightarrow> scxml_session_impl \<Rightarrow> bool \<times> scxml_session_impl"
where
  "observe_completion d completion s =
     (case find_state_program_name_by_id (sn_program s) completion of
        None \<Rightarrow> (True, upd_system (\<lambda>v. v\<lparr>sv_name := '''', sv_type := ''internal''\<rparr>) s)
      | Some st \<Rightarrow>
          if length st > SCXML_EVENT_METADATA_CAPACITY + 1 - 12 then (False, s)
          else bind_completion_done_data d completion
                 (upd_system (\<lambda>v. v\<lparr>sv_name := ''done.state.'' @ st, sv_type := ''internal''\<rparr>) s))"

text \<open>The event carries the token of a metadata slot: the slot moves into the system variables.\<close>

definition observe_slot :: "data_ops \<Rightarrow> u64 \<Rightarrow> scxml_session_impl \<Rightarrow> bool \<times> scxml_session_impl" where
  "observe_slot d token s =
     (case first_index (\<lambda>r. mr_in_use r \<and> mr_token r = token) (sn_metadata_rows s) of
        None \<Rightarrow> (False, s)
      | Some i \<Rightarrow>
          let r = sn_metadata_rows s ! i;
              s1 = upd_system (\<lambda>v. v\<lparr>sv_name := (if mr_name r \<noteq> '''' then mr_name r else sv_name v),
                     sv_send_id := mr_send_id r, sv_origin := mr_origin r,
                     sv_origin_type := mr_origin_type r, sv_invoke_id := mr_invoke_id r,
                     sv_data := mr_data r\<rparr>) s
          in if \<not> mr_object_live r then (True, upd_metadata i (\<lambda>_. no_metadata_row) s1)
             else (case (case mr_schema r of None \<Rightarrow> None | Some schema \<Rightarrow>
                           map_option (\<lambda>copy. (schema, copy)) (do_copy d schema (mr_object r))) of
               None \<Rightarrow>
                 (False, upd_metadata i (\<lambda>_. no_metadata_row) (s1\<lparr>sn_destroyed := sn_destroyed s1 + 1\<rparr>))
             | Some (schema, copy) \<Rightarrow>
                 (True, upd_metadata i (\<lambda>_. no_metadata_row)
                    (upd_system (\<lambda>v. v\<lparr>sv_data := '''', sv_schema := Some schema, sv_object := Some copy\<rparr>)
                      (s1\<lparr>sn_constructed := sn_constructed s1 + 1, sn_destroyed := sn_destroyed s1 + 1,
                          sn_current_schema := Some schema, sn_current_live := True,
                          sn_current_object := copy\<rparr>)))))"

text \<open>The token of an invocation: the event comes from an invoked service.\<close>

definition live_invocation :: "u64 \<Rightarrow> scxml_invocation_row \<Rightarrow> bool" where
  "live_invocation token r \<longleftrightarrow> ir_state r = SCXML_INVOCATION_ACTIVE \<and> ir_token r = token"

definition observe_invocation ::
  "event_id \<Rightarrow> u64 \<Rightarrow> scxml_session_impl \<Rightarrow> bool \<times> scxml_session_impl" where
  "observe_invocation event token s =
     (case first_index (live_invocation token)
             (take (length (sn_invocations s)) (sn_invocation_rows s)) of
        None \<Rightarrow> (True, s)
      | Some i \<Rightarrow>
          let iv = sn_invocations s ! i; ident = ir_id (sn_invocation_rows s ! i)
          in if length ident > SCXML_EVENT_METADATA_CAPACITY then (False, s)
             else let s1 = upd_system (\<lambda>v. v\<lparr>sv_invoke_id := ident\<rparr>) s
             in if iv_has_id_location iv \<and> event = iv_done_event iv
                then (if length (''done.invoke.'' @ ident) > SCXML_EVENT_METADATA_CAPACITY then (False, s1)
                      else (True, upd_system (\<lambda>v. v\<lparr>sv_name := ''done.invoke.'' @ ident\<rparr>) s1))
                else (True, s1))"

definition metadata_token_bit :: "u64 \<Rightarrow> bool" where
  "metadata_token_bit token \<longleftrightarrow> token AND SCXML_EXTERNAL_METADATA_TOKEN_BIT \<noteq> 0"

definition scxml_runtime_observe_event ::
  "data_ops \<Rightarrow> observed_event \<Rightarrow> scxml_session_impl \<Rightarrow> bool \<times> scxml_session_impl" where
  "scxml_runtime_observe_event d ob s0 =
     (let s = scxml_runtime_clear_current_event_metadata s0 in
      if ob_kind ob = CFLOW_STATECHART_OBSERVED_COMPLETION
      then observe_completion d (ob_completion ob) s
      else case ob_event ob of
        None \<Rightarrow> (False, s)
      | Some event \<Rightarrow>
          if event = 0 \<or>
             event > length (pn_names (sn_program s)) \<and> event \<noteq> pn_unmatched (sn_program s)
          then (False, s)
          else case pn_by_id (sn_program s) event of
            None \<Rightarrow> (False, s)
          | Some name \<Rightarrow>
              let s1 = upd_system (\<lambda>v. v\<lparr>sv_name := name, sv_type :=
                     (if ob_kind ob = CFLOW_STATECHART_OBSERVED_EXTERNAL then ''external''
                      else if event = pn_execution_error (sn_program s) \<or>
                              event = pn_communication_error (sn_program s) then ''platform''
                      else ''internal'')\<rparr>) s
              in if ob_token ob = 0 \<or>
                    ob_kind ob \<noteq> CFLOW_STATECHART_OBSERVED_EXTERNAL \<and> \<not> metadata_token_bit (ob_token ob)
                 then (True, s1)
                 else if metadata_token_bit (ob_token ob) then observe_slot d (ob_token ob) s1
                 else observe_invocation event (ob_token ob) s1)"

end
