(* ===== verification/Session_Metadata_Inv.thy ===== *)
theory Session_Metadata_Inv
  imports Session_Metadata "HOL-Library.Sublist"
begin

text \<open>
  The invariant of the metadata slots, the life of the event data objects, and what a receiver
  sees of an event: the sender's fields.
\<close>

section \<open>Tokens\<close>

abbreviation TOKEN_BIT :: u64 where "TOKEN_BIT \<equiv> SCXML_EXTERNAL_METADATA_TOKEN_BIT"

lemma token_bit_value: "TOKEN_BIT = 9223372036854775808"
  by (simp add: SCXML_EXTERNAL_METADATA_TOKEN_BIT_def push_bit_eq_mult)

lemma bit_token_bit: "bit TOKEN_BIT n \<longleftrightarrow> n = 63"
  unfolding SCXML_EXTERNAL_METADATA_TOKEN_BIT_def bit_push_bit_iff by (auto simp: bit_1_iff)

lemma and_not_token_bit: "w AND NOT TOKEN_BIT = take_bit 63 w"
  by (rule bit_eqI) (auto simp: bit_token_bit bit_simps)

lemma or_token_bit: "bit w 63 \<Longrightarrow> TOKEN_BIT OR take_bit 63 w = w"
  by (rule bit_eqI) (auto simp: bit_token_bit bit_simps)

lemma metadata_token_bit_iff: "metadata_token_bit w \<longleftrightarrow> bit w 63"
proof -
  have "w AND TOKEN_BIT = (if bit w 63 then TOKEN_BIT else 0)"
    by (rule bit_eqI) (auto simp: bit_token_bit bit_simps)
  then show ?thesis by (simp add: metadata_token_bit_def token_bit_value)
qed

lemma bit63_iff: "bit (w :: u64) 63 \<longleftrightarrow> TOKEN_BIT \<le> w"
proof -
  have lt: "unat w < 2 ^ 64" using unsigned_less [of w] by simp
  have "bit w 63 \<longleftrightarrow> bit (unat w) 63"
    by (simp add: bit_unsigned_iff)
  also have "\<dots> \<longleftrightarrow> odd (unat w div 2 ^ 63)"
    by (rule bit_iff_odd)
  also have "\<dots> \<longleftrightarrow> 2 ^ 63 \<le> unat w"
  proof (cases "2 ^ 63 \<le> unat w")
    case True
    with lt have "unat w div 2 ^ 63 = 1" by (intro div_nat_eqI) simp_all
    with True show ?thesis by simp
  qed simp
  finally show ?thesis by (simp add: word_le_nat_alt token_bit_value)
qed

lemma unsigned_word_eqI: "unat (a :: u64) = unat b \<Longrightarrow> a = b"
  by (simp add: word_unat_eq_iff)

lemma take_bit_succ: "take_bit 63 (take_bit 63 (t :: u64) + 1) = take_bit 63 (t + 1)"
proof -
  have dvd: "(2 :: nat) ^ 63 dvd 2 ^ 64" by (rule le_imp_power_dvd) simp
  have "unat (take_bit 63 (take_bit 63 t + 1)) = (unat t mod 2 ^ 63 + 1) mod 2 ^ 63"
    unfolding unsigned_take_bit_eq take_bit_eq_mod unat_word_ariths
    using dvd by (simp add: mod_mod_cancel)
  also have "\<dots> = unat (take_bit 63 (t + 1))"
    unfolding unsigned_take_bit_eq take_bit_eq_mod unat_word_ariths
    using dvd by (simp add: mod_mod_cancel mod_simps)
  finally show ?thesis by (rule unsigned_word_eqI)
qed

lemma next_metadata_token_eq:
  assumes "TOKEN_BIT \<le> t"
  shows "next_metadata_token t = (if t = UINT64_MAX then TOKEN_BIT + 1 else t + 1)"
proof -
  have split: "((t AND NOT TOKEN_BIT) + 1) AND NOT TOKEN_BIT = take_bit 63 (t + 1)"
    unfolding and_not_token_bit by (rule take_bit_succ)
  show ?thesis
  proof (cases "t = UINT64_MAX")
    case True
    then show ?thesis
      by (simp add: next_metadata_token_def split [unfolded True] token_bit_value)
  next
    case False
    then have "TOKEN_BIT < t + 1" using assms less_Suc_guard [of t] by simp
    then have "bit (t + 1) 63" by (simp add: bit63_iff)
    then have "TOKEN_BIT OR take_bit 63 (t + 1) = t + 1" by (rule or_token_bit)
    moreover have "t + 1 \<noteq> TOKEN_BIT" using \<open>TOKEN_BIT < t + 1\<close> by (metis less_irrefl)
    ultimately show ?thesis
      using False unfolding next_metadata_token_def Let_def split by simp
  qed
qed

lemma next_metadata_token_bit: "TOKEN_BIT < t \<Longrightarrow> TOKEN_BIT < next_metadata_token t"
  using less_Suc_guard [of t] by (auto simp: next_metadata_token_eq token_bit_value)

section \<open>The invariant\<close>

definition metadata_row_ok :: "u64 \<Rightarrow> scxml_metadata_row \<Rightarrow> bool" where
  "metadata_row_ok next_token r \<longleftrightarrow>
     (\<not> mr_in_use r \<longrightarrow> r = no_metadata_row) \<and>
     (mr_in_use r \<longrightarrow> mr_session r \<and> TOKEN_BIT < mr_token r \<and> mr_token r < next_token) \<and>
     (mr_object_live r \<longrightarrow> mr_schema r \<noteq> None)"

definition live_objects :: "scxml_session_impl \<Rightarrow> nat" where
  "live_objects s = count_if mr_object_live (sn_metadata_rows s) +
     count_if cs_object_live (sn_completion_slots s) + (if sn_current_live s then 1 else 0)"

definition metadata_inv :: "scxml_session_impl \<Rightarrow> bool" where
  "metadata_inv s \<longleftrightarrow>
     (\<forall>r\<in>set (sn_metadata_rows s). metadata_row_ok (sn_next_metadata_token s) r) \<and>
     unique_by mr_in_use mr_token (sn_metadata_rows s) \<and>
     TOKEN_BIT < sn_next_metadata_token s"

definition objects_balanced :: "scxml_session_impl \<Rightarrow> bool" where
  "objects_balanced s \<longleftrightarrow> sn_constructed s = sn_destroyed s + live_objects s"

lemma metadata_row_ok_free [simp]: "metadata_row_ok t no_metadata_row"
  by (simp add: metadata_row_ok_def no_metadata_row_def)

lemma no_metadata_row_simps [simp]:
  "\<not> mr_in_use no_metadata_row" "\<not> mr_object_live no_metadata_row"
  by (simp_all add: no_metadata_row_def)

lemma no_completion_slot_simps [simp]:
  "cs_state no_completion_slot = SCXML_COMPLETION_DATA_FREE" "\<not> cs_object_live no_completion_slot"
  by (simp_all add: no_completion_slot_def)

lemma metadata_row_ok_mono: "metadata_row_ok t r \<Longrightarrow> t \<le> u \<Longrightarrow> metadata_row_ok u r"
  by (auto simp: metadata_row_ok_def)

lemma metadata_inv_row: "metadata_inv s \<Longrightarrow> i < length (sn_metadata_rows s) \<Longrightarrow>
    metadata_row_ok (sn_next_metadata_token s) (sn_metadata_rows s ! i)"
  by (auto simp: metadata_inv_def)

lemma metadata_inv_cong:
  "sn_metadata_rows t = sn_metadata_rows s \<Longrightarrow> sn_next_metadata_token t = sn_next_metadata_token s \<Longrightarrow>
     metadata_inv t = metadata_inv s"
  by (simp add: metadata_inv_def)

text \<open>The fields of the metadata component, and that an operation leaves them alone.\<close>

definition same_metadata :: "scxml_session_impl \<Rightarrow> scxml_session_impl \<Rightarrow> bool" where
  "same_metadata s t \<longleftrightarrow> sn_metadata_rows t = sn_metadata_rows s \<and>
     sn_next_metadata_token t = sn_next_metadata_token s"

lemma same_metadata_inv: "same_metadata s t \<Longrightarrow> metadata_inv t = metadata_inv s"
  by (simp add: same_metadata_def metadata_inv_def)

lemma upd_metadata_simps [simp]:
  "sn_metadata_rows (upd_metadata i f s) = (sn_metadata_rows s)[i := f (sn_metadata_rows s ! i)]"
  "sn_next_metadata_token (upd_metadata i f s) = sn_next_metadata_token s"
  "sn_completion_slots (upd_metadata i f s) = sn_completion_slots s"
  "sn_current_live (upd_metadata i f s) = sn_current_live s"
  "sn_constructed (upd_metadata i f s) = sn_constructed s"
  "sn_destroyed (upd_metadata i f s) = sn_destroyed s"
  "sn_external (upd_metadata i f s) = sn_external s"
  "sn_system (upd_metadata i f s) = sn_system s"
  "sn_program (upd_metadata i f s) = sn_program s"
  by (simp_all add: upd_metadata_def)

lemma upd_completion_simps [simp]:
  "sn_completion_slots (upd_completion i f s) = (sn_completion_slots s)[i := f (sn_completion_slots s ! i)]"
  "sn_metadata_rows (upd_completion i f s) = sn_metadata_rows s"
  "sn_next_metadata_token (upd_completion i f s) = sn_next_metadata_token s"
  "sn_current_live (upd_completion i f s) = sn_current_live s"
  "sn_constructed (upd_completion i f s) = sn_constructed s"
  "sn_destroyed (upd_completion i f s) = sn_destroyed s"
  "sn_external (upd_completion i f s) = sn_external s"
  "sn_program (upd_completion i f s) = sn_program s"
  "sn_next_completion_sequence (upd_completion i f s) = sn_next_completion_sequence s"
  "sn_current_completion (upd_completion i f s) = sn_current_completion s"
  by (simp_all add: upd_completion_def)

lemma upd_system_simps [simp]:
  "sn_metadata_rows (upd_system f s) = sn_metadata_rows s"
  "sn_next_metadata_token (upd_system f s) = sn_next_metadata_token s"
  "sn_completion_slots (upd_system f s) = sn_completion_slots s"
  "sn_current_live (upd_system f s) = sn_current_live s"
  "sn_constructed (upd_system f s) = sn_constructed s"
  "sn_destroyed (upd_system f s) = sn_destroyed s"
  "sn_external (upd_system f s) = sn_external s"
  "sn_system (upd_system f s) = f (sn_system s)"
  "sn_program (upd_system f s) = sn_program s"
  "sn_current_completion (upd_system f s) = sn_current_completion s"
  "sn_next_completion_sequence (upd_system f s) = sn_next_completion_sequence s"
  by (simp_all add: upd_system_def)

lemma post_external_simps [simp]:
  "sn_metadata_rows (snd (post_external ops e t s)) = sn_metadata_rows s"
  "sn_next_metadata_token (snd (post_external ops e t s)) = sn_next_metadata_token s"
  "sn_completion_slots (snd (post_external ops e t s)) = sn_completion_slots s"
  "sn_current_live (snd (post_external ops e t s)) = sn_current_live s"
  "sn_constructed (snd (post_external ops e t s)) = sn_constructed s"
  "sn_destroyed (snd (post_external ops e t s)) = sn_destroyed s"
  "fst (post_external ops e t s) = ho_post ops e t"
  by (simp_all add: post_external_def)

text \<open>Replacing one row keeps the invariant when the new row is in order and its token is its own.\<close>

lemma metadata_inv_update:
  assumes "metadata_inv s" "i < length (sn_metadata_rows s)"
    and "metadata_row_ok (sn_next_metadata_token s) r"
    and "mr_in_use r \<Longrightarrow> mr_in_use (sn_metadata_rows s ! i) \<and> mr_token r = mr_token (sn_metadata_rows s ! i)"
  shows "metadata_inv (s\<lparr>sn_metadata_rows := (sn_metadata_rows s)[i := r]\<rparr>)"
  using assms unique_by_update_same [of mr_in_use mr_token "sn_metadata_rows s" i r]
  by (auto simp: metadata_inv_def dest: set_update_memD)

section \<open>Operations on one slot\<close>

text \<open>Only slot \<open>i\<close> differs.\<close>

definition only_row :: "nat \<Rightarrow> scxml_session_impl \<Rightarrow> scxml_session_impl \<Rightarrow> bool" where
  "only_row i s t \<longleftrightarrow> length (sn_metadata_rows t) = length (sn_metadata_rows s) \<and>
     (\<forall>j<length (sn_metadata_rows s). j \<noteq> i \<longrightarrow> sn_metadata_rows t ! j = sn_metadata_rows s ! j)"

lemma only_row_refl [simp]: "only_row i s s"
  by (simp add: only_row_def)

lemma only_row_trans: "only_row i s t \<Longrightarrow> only_row i t u \<Longrightarrow> only_row i s u"
  by (simp add: only_row_def)

lemma only_row_upd: "sn_metadata_rows t = (sn_metadata_rows s)[i := r] \<Longrightarrow> only_row i s t"
  by (simp add: only_row_def)

definition session_data_ok :: "scxml_session_impl \<Rightarrow> bool" where
  "session_data_ok s \<longleftrightarrow> metadata_inv s \<and> objects_balanced s"

text \<open>Emptying a slot that holds no object, and one whose object has just been destroyed.\<close>

lemma slot_cleared:
  assumes ok: "session_data_ok s" and i: "i < length (sn_metadata_rows s)"
    and rows: "sn_metadata_rows t = (sn_metadata_rows s)[i := no_metadata_row]"
    and token: "sn_next_metadata_token t = sn_next_metadata_token s"
    and slots: "sn_completion_slots t = sn_completion_slots s"
    and count: "sn_constructed t + sn_destroyed s + (if sn_current_live s then 1 else 0)
              + (if mr_object_live (sn_metadata_rows s ! i) then 1 else 0)
            = sn_constructed s + sn_destroyed t + (if sn_current_live t then 1 else 0)"
  shows "session_data_ok t"
proof -
  have "metadata_inv (s\<lparr>sn_metadata_rows := (sn_metadata_rows s)[i := no_metadata_row]\<rparr>)"
    using ok i by (intro metadata_inv_update) (auto simp: session_data_ok_def)
  then have "metadata_inv t" by (simp add: metadata_inv_def rows token)
  moreover have "objects_balanced t"
    using ok count count_if_update [OF i, of mr_object_live no_metadata_row]
    unfolding session_data_ok_def objects_balanced_def live_objects_def rows slots
    by (auto split: if_splits)
  ultimately show ?thesis by (simp add: session_data_ok_def)
qed

lemma release_facts:
  assumes "session_data_ok s" "i < length (sn_metadata_rows s)"
  shows "session_data_ok (scxml_runtime_release_event_metadata i s)"
    and "only_row i s (scxml_runtime_release_event_metadata i s)"
    and "sn_external (scxml_runtime_release_event_metadata i s) = sn_external s"
    and "mr_in_use (sn_metadata_rows s ! i) \<Longrightarrow>
           sn_metadata_rows (scxml_runtime_release_event_metadata i s) ! i = no_metadata_row"
    and "sn_next_metadata_token (scxml_runtime_release_event_metadata i s) = sn_next_metadata_token s"
proof -
  let ?r = "sn_metadata_rows s ! i" and ?t = "scxml_runtime_release_event_metadata i s"
  have row: "metadata_row_ok (sn_next_metadata_token s) ?r"
    using assms by (simp add: session_data_ok_def metadata_inv_row)
  have "session_data_ok ?t \<and> only_row i s ?t \<and> sn_external ?t = sn_external s \<and>
      (mr_in_use ?r \<longrightarrow> sn_metadata_rows ?t ! i = no_metadata_row) \<and>
      sn_next_metadata_token ?t = sn_next_metadata_token s"
  proof (cases "mr_in_use ?r")
    case False
    then have "?t = s" by (simp add: scxml_runtime_release_event_metadata_def Let_def)
    with False assms show ?thesis by simp
  next
    case True
    with row have ses: "mr_session ?r" by (simp add: metadata_row_ok_def)
    show ?thesis
    proof (cases "mr_object_live ?r")
      case live: True
      let ?u = "upd_metadata i (\<lambda>_. no_metadata_row) (s\<lparr>sn_destroyed := sn_destroyed s + 1\<rparr>)"
      have eq: "?t = ?u"
        using True ses live by (simp add: scxml_runtime_release_event_metadata_def Let_def)
      have "session_data_ok ?u"
        by (rule slot_cleared [OF assms]) (simp_all add: live)
      then show ?thesis using assms by (simp add: eq only_row_upd)
    next
      case live: False
      let ?u = "upd_metadata i (\<lambda>_. no_metadata_row) s"
      have eq: "?t = ?u"
        using True ses live by (simp add: scxml_runtime_release_event_metadata_def Let_def)
      have "session_data_ok ?u"
        by (rule slot_cleared [OF assms]) (simp_all add: live)
      then show ?thesis using assms by (simp add: eq only_row_upd)
    qed
  qed
  then show "session_data_ok ?t" "only_row i s ?t" "sn_external ?t = sn_external s"
    "mr_in_use ?r \<Longrightarrow> sn_metadata_rows ?t ! i = no_metadata_row"
    "sn_next_metadata_token ?t = sn_next_metadata_token s"
    by auto
qed

definition reserved_row :: "scxml_event_metadata \<Rightarrow> u64 \<Rightarrow> scxml_metadata_row" where
  "reserved_row m token = no_metadata_row\<lparr>mr_session := True, mr_token := token, mr_in_use := True,
     mr_send_id := cdata (em_send_id m), mr_origin := cdata (em_origin m),
     mr_origin_type := cdata (em_origin_type m), mr_invoke_id := cdata (em_invoke_id m)\<rparr>"

lemma reserve_None: "scxml_runtime_reserve_event_metadata m s = (None, t) \<Longrightarrow> t = s"
  by (auto simp: scxml_runtime_reserve_event_metadata_def Let_def split: if_splits option.splits)

lemma reserve_Some:
  assumes ok: "session_data_ok s" and room: "sn_next_metadata_token s \<noteq> UINT64_MAX"
    and res: "scxml_runtime_reserve_event_metadata m s = (Some (i, token), t)"
  shows "i < length (sn_metadata_rows s)" "sn_metadata_rows s ! i = no_metadata_row"
    "token = sn_next_metadata_token s" "sn_next_metadata_token t = token + 1"
    "sn_metadata_rows t = (sn_metadata_rows s)[i := reserved_row m token]"
    "session_data_ok t" "sn_external t = sn_external s" "only_row i s t"
proof -
  from res have valid: "metadata_fields_valid m"
    by (simp add: scxml_runtime_reserve_event_metadata_def split: if_splits)
  from res valid have fi: "first_index metadata_slot_free (sn_metadata_rows s) = Some i"
    and token: "token = sn_next_metadata_token s"
    by (auto simp: scxml_runtime_reserve_event_metadata_def Let_def split: option.splits)
  from first_index_SomeD [OF fi] have i: "i < length (sn_metadata_rows s)"
    and free: "\<not> mr_in_use (sn_metadata_rows s ! i)" by (auto simp: metadata_slot_free_def)
  from metadata_inv_row [of s, OF _ i] ok free
  have row: "sn_metadata_rows s ! i = no_metadata_row"
    by (simp add: metadata_row_ok_def session_data_ok_def)
  have tok: "TOKEN_BIT < sn_next_metadata_token s" using ok by (simp add: session_data_ok_def metadata_inv_def)
  then have nxt: "next_metadata_token token = token + 1" using room token by (simp add: next_metadata_token_eq)
  have t: "t = upd_metadata i (\<lambda>r. r\<lparr>mr_session := True, mr_token := token, mr_in_use := True,
                mr_send_id := cdata (em_send_id m), mr_origin := cdata (em_origin m),
                mr_origin_type := cdata (em_origin_type m), mr_invoke_id := cdata (em_invoke_id m)\<rparr>)
              (s\<lparr>sn_next_metadata_token := token + 1\<rparr>)"
    using res valid fi nxt token by (simp add: scxml_runtime_reserve_event_metadata_def Let_def)
  have rows: "sn_metadata_rows t = (sn_metadata_rows s)[i := reserved_row m token]"
    and nt: "sn_next_metadata_token t = token + 1"
    and ex: "sn_external t = sn_external s" "sn_completion_slots t = sn_completion_slots s"
      "sn_current_live t = sn_current_live s" "sn_constructed t = sn_constructed s"
      "sn_destroyed t = sn_destroyed s"
    by (simp_all add: t row reserved_row_def)
  have less: "token < token + 1" using room token by (simp add: less_Suc_guard)
  have "unique_by mr_in_use mr_token (sn_metadata_rows t)"
    unfolding rows
  proof (rule unique_by_update_fresh)
    show "unique_by mr_in_use mr_token (sn_metadata_rows s)"
      using ok by (simp add: session_data_ok_def metadata_inv_def)
    show "mr_token x < mr_token (reserved_row m token)"
      if "mr_in_use x" "x \<in> set (sn_metadata_rows s)" for x
      using ok that token
      by (auto simp: session_data_ok_def metadata_inv_def metadata_row_ok_def reserved_row_def)
  qed (rule i)
  moreover have "\<forall>r\<in>set (sn_metadata_rows t). metadata_row_ok (sn_next_metadata_token t) r"
    unfolding rows nt
  proof (rule all_set_updateI)
    show "\<forall>x\<in>set (sn_metadata_rows s). metadata_row_ok (token + 1) x"
      using ok less token
      by (auto simp: session_data_ok_def metadata_inv_def intro: metadata_row_ok_mono less_imp_le)
    show "metadata_row_ok (token + 1) (reserved_row m token)"
      using tok less token by (simp add: metadata_row_ok_def reserved_row_def no_metadata_row_def)
  qed
  moreover have "TOKEN_BIT < sn_next_metadata_token t" using tok less token nt by simp
  ultimately have "metadata_inv t" by (simp add: metadata_inv_def)
  moreover have "objects_balanced t"
    using ok count_if_update_same [OF i, of mr_object_live "reserved_row m token"]
    by (simp add: session_data_ok_def objects_balanced_def live_objects_def ex rows row reserved_row_def)
  ultimately show "session_data_ok t" by (simp add: session_data_ok_def)
  show "i < length (sn_metadata_rows s)" "sn_metadata_rows s ! i = no_metadata_row"
    "token = sn_next_metadata_token s" "sn_next_metadata_token t = token + 1"
    "sn_metadata_rows t = (sn_metadata_rows s)[i := reserved_row m token]"
    "sn_external t = sn_external s" "only_row i s t"
    using i row token nt rows ex by (simp_all add: only_row_upd)
qed

section \<open>What a slot holds after a send\<close>

text \<open>A row with the content attached: the text, or a copy of the structured datum.\<close>

definition attached_row ::
  "data_ops \<Rightarrow> nat option \<Rightarrow> event_content \<Rightarrow> scxml_metadata_row \<Rightarrow> scxml_metadata_row option" where
  "attached_row d root c r =
     (case ec_kind c of
        SCXML_CONTENT_INVALID \<Rightarrow> Some r
      | SCXML_CONTENT_SCALAR \<Rightarrow>
          map_option (\<lambda>t. r\<lparr>mr_data := t\<rparr>)
            (scxml_runtime_scalar_value_to_text d (ec_scalar c) (SCXML_EVENT_METADATA_CAPACITY + 1))
      | SCXML_CONTENT_CMETA \<Rightarrow>
          (if root \<noteq> None \<and> ec_schema c = root \<and> ec_object c \<noteq> None
           then map_option (\<lambda>copy. r\<lparr>mr_schema := root, mr_object_live := True, mr_object := copy\<rparr>)
                  (do_copy d (the root) (the (ec_object c)))
           else None)
      | _ \<Rightarrow>
          (if scxml_runtime_metadata_field_valid (ec_bytes c)
           then Some (r\<lparr>mr_data := cdata (ec_bytes c)\<rparr>) else None))"

lemma attached_row_live:
  "attached_row d root c r = Some r' \<Longrightarrow> \<not> mr_object_live r \<Longrightarrow>
     mr_object_live r' \<longleftrightarrow> ec_kind c = SCXML_CONTENT_CMETA"
  by (auto simp: attached_row_def split: scxml_content_kind.splits if_splits)

lemma attached_row_fields:
  "attached_row d root c r = Some r' \<Longrightarrow>
     mr_token r' = mr_token r \<and> mr_in_use r' = mr_in_use r \<and> mr_session r' = mr_session r \<and>
     mr_name r' = mr_name r \<and> mr_send_id r' = mr_send_id r \<and> mr_origin r' = mr_origin r \<and>
     mr_origin_type r' = mr_origin_type r \<and> mr_invoke_id r' = mr_invoke_id r \<and>
     (mr_object_live r' \<longrightarrow> mr_object_live r \<or> mr_schema r' \<noteq> None)"
  by (auto simp: attached_row_def split: scxml_content_kind.splits if_splits)

lemma attach_eq:
  assumes "mr_in_use (sn_metadata_rows s ! i)" "i < length (sn_metadata_rows s)"
  shows "scxml_analyze_attach_event_content d c i s =
     (case attached_row d (pn_root (sn_program s)) c (sn_metadata_rows s ! i) of
        None \<Rightarrow> (False, s)
      | Some r \<Rightarrow>
          (True, s\<lparr>sn_metadata_rows := (sn_metadata_rows s)[i := r],
                   sn_constructed := sn_constructed s + (if ec_kind c = SCXML_CONTENT_CMETA then 1 else 0)\<rparr>))"
proof (cases "ec_kind c")
  case SCXML_CONTENT_CMETA
  then show ?thesis using assms
    by (auto simp: scxml_analyze_attach_event_content_def attached_row_def upd_metadata_def
        split: option.splits)
qed (use assms in \<open>auto simp: scxml_analyze_attach_event_content_def attached_row_def upd_metadata_def
        scxml_runtime_metadata_field_valid_def split: option.splits\<close>)

definition named_row :: "scxml_event_metadata \<Rightarrow> cbytes \<Rightarrow> u64 \<Rightarrow> scxml_metadata_row" where
  "named_row m name token = reserved_row m token\<lparr>mr_name := cdata name\<rparr>"

lemma named_row_simps [simp]:
  "mr_in_use (named_row m name token)" "mr_token (named_row m name token) = token"
  "mr_session (named_row m name token)" "\<not> mr_object_live (named_row m name token)"
  "mr_name (named_row m name token) = cdata name"
  "mr_send_id (named_row m name token) = cdata (em_send_id m)"
  "mr_origin (named_row m name token) = cdata (em_origin m)"
  "mr_origin_type (named_row m name token) = cdata (em_origin_type m)"
  "mr_invoke_id (named_row m name token) = cdata (em_invoke_id m)"
  by (simp_all add: named_row_def reserved_row_def no_metadata_row_def)

definition event_row ::
  "data_ops \<Rightarrow> nat option \<Rightarrow> cbytes \<Rightarrow> scxml_event_metadata \<Rightarrow> u64 \<Rightarrow> scxml_metadata_row option" where
  "event_row d root name m token = attached_row d root (em_data m) (named_row m name token)"

lemma event_row_fields:
  assumes "event_row d root name m token = Some r"
  shows "mr_token r = token" "mr_in_use r" "mr_session r" "mr_name r = cdata name"
    "mr_send_id r = cdata (em_send_id m)" "mr_origin r = cdata (em_origin m)"
    "mr_origin_type r = cdata (em_origin_type m)" "mr_invoke_id r = cdata (em_invoke_id m)"
    "mr_object_live r \<longrightarrow> mr_schema r \<noteq> None"
  using attached_row_fields [OF assms [unfolded event_row_def]] by auto

text \<open>Replacing a row in use by one under the same token.\<close>

lemma row_replaced:
  assumes ok: "session_data_ok s" and i: "i < length (sn_metadata_rows s)"
    and used: "mr_in_use (sn_metadata_rows s ! i)" "\<not> mr_object_live (sn_metadata_rows s ! i)"
    and r: "mr_in_use r" "mr_session r" "mr_token r = mr_token (sn_metadata_rows s ! i)"
      "mr_object_live r \<longrightarrow> mr_schema r \<noteq> None"
  shows "session_data_ok (s\<lparr>sn_metadata_rows := (sn_metadata_rows s)[i := r],
           sn_constructed := sn_constructed s + (if mr_object_live r then 1 else 0)\<rparr>)"
    (is "session_data_ok ?t")
proof -
  have "metadata_row_ok (sn_next_metadata_token s) (sn_metadata_rows s ! i)"
    using metadata_inv_row [of s, OF _ i] ok by (simp add: session_data_ok_def)
  then have "metadata_row_ok (sn_next_metadata_token s) r"
    using r used by (simp add: metadata_row_ok_def)
  then have "metadata_inv (s\<lparr>sn_metadata_rows := (sn_metadata_rows s)[i := r]\<rparr>)"
    using ok i used r by (intro metadata_inv_update) (auto simp: session_data_ok_def)
  then have "metadata_inv ?t" by (simp add: metadata_inv_def)
  moreover have "objects_balanced ?t"
    using ok count_if_update [OF i, of mr_object_live r] used
    by (simp add: session_data_ok_def objects_balanced_def live_objects_def split: if_splits)
  ultimately show ?thesis by (simp add: session_data_ok_def)
qed

text \<open>The rest of a send, once the slot is reserved and named.\<close>

lemma attach_post_facts:
  assumes ok: "session_data_ok s" and i: "i < length (sn_metadata_rows s)"
    and row: "sn_metadata_rows s ! i = named_row m name token"
    and res: "(case scxml_analyze_attach_event_content d (em_data m) i s of
             (False, s2) \<Rightarrow> (CFLOW_MAILBOX_INVALID_ARGUMENT, scxml_runtime_release_event_metadata i s2)
           | (True, s2) \<Rightarrow>
               (case post_external ops event token s2 of
                  (status, s3) \<Rightarrow>
                    (status, if status \<noteq> CFLOW_MAILBOX_OK
                             then scxml_runtime_release_event_metadata i s3 else s3))) = (status, t)"
  shows "session_data_ok t \<and> sn_next_metadata_token t = sn_next_metadata_token s \<and>
    (status = CFLOW_MAILBOX_OK \<longrightarrow>
       (\<exists>r. event_row d (pn_root (sn_program s)) name m token = Some r \<and>
          sn_metadata_rows t = (sn_metadata_rows s)[i := r] \<and>
          sn_external t = sn_external s @ [(event, token)])) \<and>
    (status \<noteq> CFLOW_MAILBOX_OK \<longrightarrow>
       only_row i s t \<and> sn_metadata_rows t ! i = no_metadata_row \<and> sn_external t = sn_external s)"
proof (cases "event_row d (pn_root (sn_program s)) name m token")
  case None
  then have att: "scxml_analyze_attach_event_content d (em_data m) i s = (False, s)"
    using i row by (simp add: attach_eq event_row_def)
  show ?thesis using res release_facts [OF ok i] row by (auto simp: att)
next
  case (Some r)
  note f = event_row_fields [OF Some]
  have live: "mr_object_live r \<longleftrightarrow> ec_kind (em_data m) = SCXML_CONTENT_CMETA"
    using attached_row_live [OF Some [unfolded event_row_def]] by simp
  define s2 where "s2 = s\<lparr>sn_metadata_rows := (sn_metadata_rows s)[i := r],
           sn_constructed := sn_constructed s + (if mr_object_live r then 1 else 0)\<rparr>"
  have att: "scxml_analyze_attach_event_content d (em_data m) i s = (True, s2)"
    using i row Some by (simp add: attach_eq event_row_def s2_def live)
  have ok2: "session_data_ok s2"
    unfolding s2_def using ok i row f by (intro row_replaced) auto
  have s2: "sn_metadata_rows s2 = (sn_metadata_rows s)[i := r]" "sn_external s2 = sn_external s"
    "sn_next_metadata_token s2 = sn_next_metadata_token s"
    by (simp_all add: s2_def)
  show ?thesis
  proof (cases "ho_post ops event token = CFLOW_MAILBOX_OK")
    case True
    then have t: "status = CFLOW_MAILBOX_OK" "t = s2\<lparr>sn_external := sn_external s2 @ [(event, token)]\<rparr>"
      using res by (auto simp: att post_external_def)
    have "session_data_ok t" using ok2
      by (simp add: t session_data_ok_def metadata_inv_def objects_balanced_def live_objects_def)
    then show ?thesis using Some by (simp add: t s2)
  next
    case False
    then have t: "status = ho_post ops event token" "t = scxml_runtime_release_event_metadata i s2"
      using res by (auto simp: att post_external_def)
    have i2: "i < length (sn_metadata_rows s2)" using i by (simp add: s2)
    have "only_row i s s2" by (rule only_row_upd) (rule s2)
    then show ?thesis
      using False release_facts [OF ok2 i2] f(2) i
      by (auto simp: t s2 intro: only_row_trans)
  qed
qed

lemma upd_stays [simp]:
  "sn_program (upd_metadata i f s) = sn_program s"
  "sn_program (scxml_runtime_release_event_metadata i s) = sn_program s"
  "sn_program (snd (post_external ops e k s)) = sn_program s"
  by (simp_all add: upd_metadata_def scxml_runtime_release_event_metadata_def Let_def post_external_def)

lemma attach_program: "sn_program (snd (scxml_analyze_attach_event_content d c i s)) = sn_program s"
  by (auto simp: scxml_analyze_attach_event_content_def split: scxml_content_kind.splits option.splits)

lemma reserve_program: "sn_program (snd (scxml_runtime_reserve_event_metadata m s)) = sn_program s"
  by (auto simp: scxml_runtime_reserve_event_metadata_def Let_def split: option.splits)

lemma send_metadata_program:
  assumes "scxml_session_try_send_metadata_impl ops d event name m s = (status, t)"
  shows "sn_program t = sn_program s"
proof -
  have "sn_program (snd (scxml_session_try_send_metadata_impl ops d event name m s)) = sn_program s"
    by (auto simp: scxml_session_try_send_metadata_impl_def split: prod.split option.split bool.split)
      (metis attach_program reserve_program snd_conv upd_stays)+
  with assms show ?thesis by simp
qed

lemma send_metadata_facts:
  assumes ok: "session_data_ok s" and room: "sn_next_metadata_token s \<noteq> UINT64_MAX"
    and send: "scxml_session_try_send_metadata_impl ops d event name m s = (status, t)"
  shows "session_data_ok t \<and> sn_program t = sn_program s \<and>
    sn_next_metadata_token t \<in> {sn_next_metadata_token s, sn_next_metadata_token s + 1} \<and>
    (status = CFLOW_MAILBOX_OK \<longrightarrow>
       (\<exists>i r. i < length (sn_metadata_rows s) \<and> sn_metadata_rows s ! i = no_metadata_row \<and>
         event_row d (pn_root (sn_program s)) name m (sn_next_metadata_token s) = Some r \<and>
         sn_metadata_rows t = (sn_metadata_rows s)[i := r] \<and>
         sn_external t = sn_external s @ [(event, sn_next_metadata_token s)])) \<and>
    (status \<noteq> CFLOW_MAILBOX_OK \<longrightarrow>
       sn_metadata_rows t = sn_metadata_rows s \<and> sn_external t = sn_external s)" (is ?P)
proof (cases "\<not> em_abi_ok m \<or> \<not> metadata_fields_valid m \<or> \<not> scxml_runtime_metadata_field_valid name")
  case True
  then show ?thesis using send ok
    by (auto simp: scxml_session_try_send_metadata_impl_def split: if_splits)
next
  case valid: False
  have progt: "sn_program t = sn_program s"
    using send by (rule send_metadata_program)
  obtain res s1 where rs: "scxml_runtime_reserve_event_metadata m s = (res, s1)" by fastforce
  show ?thesis
  proof (cases res)
    case None
    then show ?thesis using send ok rs valid reserve_None [of m s s1]
      by (auto simp: scxml_session_try_send_metadata_impl_def)
  next
    case (Some it)
    obtain i token where it: "it = (i, token)" by fastforce
    note R = reserve_Some [OF ok room rs [unfolded Some it]]
    define n where "n = upd_metadata i (\<lambda>r. r\<lparr>mr_name := cdata name\<rparr>) s1"
    have prog: "sn_program n = sn_program s"
      using rs Some it
      by (auto simp: n_def scxml_runtime_reserve_event_metadata_def Let_def split: if_splits option.splits)
    have rows: "sn_metadata_rows n = (sn_metadata_rows s)[i := named_row m name token]"
      using R by (simp add: n_def named_row_def)
    have n: "sn_external n = sn_external s" "sn_next_metadata_token n = token + 1"
      using R by (simp_all add: n_def)
    have i: "i < length (sn_metadata_rows n)" and row: "sn_metadata_rows n ! i = named_row m name token"
      using R by (simp_all add: rows)
    have nok: "session_data_ok n"
    proof -
      have "session_data_ok (s1\<lparr>sn_metadata_rows := (sn_metadata_rows s1)[i := named_row m name token],
           sn_constructed := sn_constructed s1 + (if mr_object_live (named_row m name token) then 1 else 0)\<rparr>)"
        using R by (intro row_replaced) (auto simp: reserved_row_def no_metadata_row_def)
      also have "s1\<lparr>sn_metadata_rows := (sn_metadata_rows s1)[i := named_row m name token],
           sn_constructed := sn_constructed s1 + (if mr_object_live (named_row m name token) then 1 else 0)\<rparr> = n"
        using R by (simp add: n_def upd_metadata_def named_row_def reserved_row_def)
      finally show ?thesis .
    qed
    have "(case scxml_analyze_attach_event_content d (em_data m) i n of
             (False, s2) \<Rightarrow> (CFLOW_MAILBOX_INVALID_ARGUMENT, scxml_runtime_release_event_metadata i s2)
           | (True, s2) \<Rightarrow>
               (case post_external ops event token s2 of
                  (status, s3) \<Rightarrow>
                    (status, if status \<noteq> CFLOW_MAILBOX_OK
                             then scxml_runtime_release_event_metadata i s3 else s3))) = (status, t)"
      using send valid rs Some it by (simp add: scxml_session_try_send_metadata_impl_def n_def)
    note A = attach_post_facts [OF nok i row this]
    show ?thesis
    proof (cases "status = CFLOW_MAILBOX_OK")
      case True
      with A obtain r where "event_row d (pn_root (sn_program s)) name m token = Some r"
        "sn_metadata_rows t = (sn_metadata_rows n)[i := r]" "sn_external t = sn_external n @ [(event, token)]"
        by (auto simp: prog)
      then show ?thesis using A True R progt by (auto simp: rows n)
    next
      case False
      with A have o: "only_row i n t" "sn_metadata_rows t ! i = no_metadata_row" by auto
      have "sn_metadata_rows t = sn_metadata_rows s"
        using o R(1,2) by (auto intro!: nth_equalityI simp: only_row_def rows nth_list_update)
      then show ?thesis using A False progt R(3) by (simp add: n)
    qed
  qed
qed

section \<open>Observation\<close>

lemma objects_balanced_cong:
  "sn_constructed t = sn_constructed s \<Longrightarrow> sn_destroyed t = sn_destroyed s \<Longrightarrow>
   sn_metadata_rows t = sn_metadata_rows s \<Longrightarrow> sn_completion_slots t = sn_completion_slots s \<Longrightarrow>
   sn_current_live t = sn_current_live s \<Longrightarrow> objects_balanced t = objects_balanced s"
  by (simp add: objects_balanced_def live_objects_def)

text \<open>What the metadata component owns; operations that leave it alone keep \<open>session_data_ok\<close>.\<close>

definition same_data :: "scxml_session_impl \<Rightarrow> scxml_session_impl \<Rightarrow> bool" where
  "same_data s t \<longleftrightarrow> sn_metadata_rows t = sn_metadata_rows s \<and>
     sn_next_metadata_token t = sn_next_metadata_token s \<and>
     sn_completion_slots t = sn_completion_slots s \<and> sn_current_live t = sn_current_live s \<and>
     sn_constructed t = sn_constructed s \<and> sn_destroyed t = sn_destroyed s \<and>
     sn_program t = sn_program s"

lemma same_data_ok: "same_data s t \<Longrightarrow> session_data_ok s \<Longrightarrow> session_data_ok t"
  by (simp add: same_data_def session_data_ok_def metadata_inv_def objects_balanced_def live_objects_def)

lemma same_data_refl [simp]: "same_data s s"
  by (simp add: same_data_def)

lemma same_data_trans: "same_data s t \<Longrightarrow> same_data t u \<Longrightarrow> same_data s u"
  by (simp add: same_data_def)

lemma same_data_upd_system [simp]: "same_data s (upd_system f s)"
  by (simp add: same_data_def)

lemma same_data_rows: "same_data s t \<Longrightarrow> sn_metadata_rows t = sn_metadata_rows s"
  by (simp add: same_data_def)

text \<open>The completion slots: the object of a slot is destroyed with its payload.\<close>

lemma completion_slot_update:
  assumes ok: "session_data_ok s" and i: "i < length (sn_completion_slots s)"
    and slots: "sn_completion_slots t = (sn_completion_slots s)[i := c]"
    and same: "sn_metadata_rows t = sn_metadata_rows s" "sn_constructed t = sn_constructed s"
      "sn_next_metadata_token t = sn_next_metadata_token s" "sn_current_live t = sn_current_live s"
    and live: "\<not> cs_object_live c \<and>
        sn_destroyed t = sn_destroyed s + (if cs_object_live (sn_completion_slots s ! i) then 1 else 0) \<or>
      cs_object_live c = cs_object_live (sn_completion_slots s ! i) \<and> sn_destroyed t = sn_destroyed s"
  shows "session_data_ok t"
  using ok live count_if_update [OF i, of cs_object_live c]
  by (auto simp: session_data_ok_def metadata_inv_def objects_balanced_def live_objects_def slots same
      split: if_splits)

lemma completion_release_facts:
  assumes "session_data_ok s" "i < length (sn_completion_slots s)"
  shows "session_data_ok (completion_data_release i s)"
    "sn_metadata_rows (completion_data_release i s) = sn_metadata_rows s"
    "sn_next_metadata_token (completion_data_release i s) = sn_next_metadata_token s"
    "sn_current_live (completion_data_release i s) = sn_current_live s"
    "sn_completion_slots (completion_data_release i s) = (sn_completion_slots s)[i := no_completion_slot]"
    "sn_program (completion_data_release i s) = sn_program s"
proof -
  let ?t = "completion_data_release i s"
  show slots: "sn_completion_slots ?t = (sn_completion_slots s)[i := no_completion_slot]"
    by (simp add: completion_data_release_def completion_data_discard_payload_def)
  show r: "sn_metadata_rows ?t = sn_metadata_rows s" "sn_next_metadata_token ?t = sn_next_metadata_token s"
    "sn_current_live ?t = sn_current_live s" "sn_program ?t = sn_program s"
    by (simp_all add: completion_data_release_def completion_data_discard_payload_def)
  show "session_data_ok ?t"
    by (rule completion_slot_update [OF assms slots])
      (simp_all add: r completion_data_release_def completion_data_discard_payload_def)
qed

lemma completion_publish_ok:
  assumes "session_data_ok s" "i < length (sn_completion_slots s)"
  shows "session_data_ok (completion_data_publish_empty i s)"
  by (rule completion_slot_update [OF assms, where
        c = "(sn_completion_slots s ! i)\<lparr>cs_object_live := False, cs_schema := None, cs_data := '''',
              cs_state := SCXML_COMPLETION_DATA_READY\<rparr>"])
    (use assms(2) in \<open>simp_all add: completion_data_publish_empty_def completion_data_discard_payload_def\<close>)

lemma completion_reserve_ok:
  assumes "session_data_ok s"
  shows "session_data_ok (snd (completion_data_reserve parent s))"
proof (cases "fst (completion_data_reserve parent s)")
  case None
  then have "snd (completion_data_reserve parent s) = s"
    by (auto simp: completion_data_reserve_def split: if_splits option.splits)
  with assms show ?thesis by simp
next
  case (Some i)
  then have fi: "first_index (\<lambda>c. cs_state c = SCXML_COMPLETION_DATA_FREE) (sn_completion_slots s) = Some i"
    and t: "snd (completion_data_reserve parent s) = upd_completion i
             (\<lambda>c. c\<lparr>cs_state := SCXML_COMPLETION_DATA_BUILDING, cs_parent := parent,
                    cs_sequence := sn_next_completion_sequence s\<rparr>)
             (s\<lparr>sn_next_completion_sequence := sn_next_completion_sequence s + 1\<rparr>)"
    by (auto simp: completion_data_reserve_def split: if_splits option.splits)
  show ?thesis
    using first_index_SomeD [OF fi]
    by (intro completion_slot_update [OF assms, where i = i and
          c = "(sn_completion_slots s ! i)\<lparr>cs_state := SCXML_COMPLETION_DATA_BUILDING, cs_parent := parent,
                    cs_sequence := sn_next_completion_sequence s\<rparr>"]) (simp_all add: t)
qed

lemma clear_facts:
  assumes "session_data_ok s"
  shows "session_data_ok (scxml_runtime_clear_current_event_metadata s)"
    "sn_metadata_rows (scxml_runtime_clear_current_event_metadata s) = sn_metadata_rows s"
    "sn_next_metadata_token (scxml_runtime_clear_current_event_metadata s) = sn_next_metadata_token s"
    "\<not> sn_current_live (scxml_runtime_clear_current_event_metadata s)"
    "sn_program (scxml_runtime_clear_current_event_metadata s) = sn_program s"
proof -
  define s1 where "s1 = (case sn_current_completion s of
                  None \<Rightarrow> s
                | Some i \<Rightarrow>
                    (if i < length (sn_completion_slots s) then completion_data_release i s else s)
                      \<lparr>sn_current_completion := None\<rparr>)"
  define s2 where "s2 = (if sn_current_live s1
                then s1\<lparr>sn_destroyed := sn_destroyed s1 + 1, sn_current_live := False\<rparr> else s1)"
  have s1: "session_data_ok s1" "sn_metadata_rows s1 = sn_metadata_rows s"
    "sn_next_metadata_token s1 = sn_next_metadata_token s" "sn_program s1 = sn_program s"
    using assms completion_release_facts [of s "the (sn_current_completion s)"]
    by (auto simp: s1_def session_data_ok_def metadata_inv_def objects_balanced_def live_objects_def
        split: option.splits)
  have s2: "session_data_ok s2" "sn_metadata_rows s2 = sn_metadata_rows s"
    "sn_next_metadata_token s2 = sn_next_metadata_token s" "\<not> sn_current_live s2"
    "sn_program s2 = sn_program s"
    using s1 by (auto simp: s2_def session_data_ok_def metadata_inv_def objects_balanced_def
        live_objects_def)
  have eq: "scxml_runtime_clear_current_event_metadata s =
      upd_system (\<lambda>v. v\<lparr>sv_send_id := '''', sv_origin := '''', sv_origin_type := '''',
            sv_invoke_id := '''', sv_data := '''', sv_schema := None, sv_object := None\<rparr>)
          (s2\<lparr>sn_current_schema := None\<rparr>)"
    unfolding scxml_runtime_clear_current_event_metadata_def Let_def s1_def [symmetric] s2_def [symmetric] ..
  have "same_data s2 (scxml_runtime_clear_current_event_metadata s)"
    unfolding eq by (simp add: same_data_def)
  then show "session_data_ok (scxml_runtime_clear_current_event_metadata s)"
    using s2(1) by (rule same_data_ok)
  from \<open>same_data s2 _\<close> s2 show "sn_metadata_rows (scxml_runtime_clear_current_event_metadata s) = sn_metadata_rows s"
    "sn_next_metadata_token (scxml_runtime_clear_current_event_metadata s) = sn_next_metadata_token s"
    "\<not> sn_current_live (scxml_runtime_clear_current_event_metadata s)"
    "sn_program (scxml_runtime_clear_current_event_metadata s) = sn_program s"
    by (simp_all add: same_data_def)
qed

interpretation completion_order: row_order completion_older
  by unfold_locales (auto simp: completion_older_def)

lemma bind_facts:
  assumes "session_data_ok s" "bind_completion_done_data d c s = (b, t)"
  shows "session_data_ok t \<and> sn_metadata_rows t = sn_metadata_rows s \<and>
    sn_next_metadata_token t = sn_next_metadata_token s"
proof (cases "earliest_row (completion_candidate c) completion_older (sn_completion_slots s)")
  case None
  then show ?thesis using assms by (auto simp: bind_completion_done_data_def completion_data_bind_oldest_def)
next
  case (Some i)
  define s2 where "s2 = (upd_completion i (\<lambda>c. c\<lparr>cs_state := SCXML_COMPLETION_DATA_BOUND\<rparr>) s)
    \<lparr>sn_current_completion := Some i\<rparr>"
  have i: "i < length (sn_completion_slots s)" using completion_order.earliest_row_SomeD [OF Some] by simp
  have "session_data_ok s2"
    by (rule completion_slot_update [OF assms(1) i, where
          c = "(sn_completion_slots s ! i)\<lparr>cs_state := SCXML_COMPLETION_DATA_BOUND\<rparr>"])
      (simp_all add: s2_def)
  moreover have "same_data s2 t"
    using assms(2) Some
    by (auto simp: bind_completion_done_data_def completion_data_bind_oldest_def s2_def Let_def
        same_data_def split: if_splits option.splits)
  ultimately show ?thesis using same_data_ok [of s2 t] by (auto simp: same_data_def s2_def)
qed

lemma observe_completion_facts:
  assumes "session_data_ok s" "observe_completion d c s = (b, t)"
  shows "session_data_ok t \<and> sn_metadata_rows t = sn_metadata_rows s \<and>
    sn_next_metadata_token t = sn_next_metadata_token s"
proof (cases "find_state_program_name_by_id (sn_program s) c")
  case None
  then have "same_data s t" using assms(2) by (auto simp: observe_completion_def)
  then show ?thesis using assms(1) same_data_ok [of s t] by (auto simp: same_data_def)
next
  case (Some st)
  define s1 where
    "s1 = upd_system (\<lambda>v. v\<lparr>sv_name := ''done.state.'' @ st, sv_type := ''internal''\<rparr>) s"
  have s1: "same_data s s1" by (simp add: s1_def)
  from same_data_ok [OF s1 assms(1)] have "session_data_ok s1" .
  from bind_facts [OF this] s1 assms Some show ?thesis
    by (auto simp: observe_completion_def s1_def same_data_def split: if_splits)
qed

lemma observe_invocation_data: "same_data s (snd (observe_invocation e token s))"
  by (simp add: observe_invocation_def Let_def same_data_def split: option.splits)

text \<open>What the receiver sees of a slot: the fields, and the text or a copy of the structured datum.\<close>

definition slot_view :: "data_ops \<Rightarrow> string \<Rightarrow> scxml_metadata_row \<Rightarrow> scxml_system_values \<Rightarrow> bool" where
  "slot_view d event_name r v \<longleftrightarrow>
     sv_name v = (if mr_name r \<noteq> '''' then mr_name r else event_name) \<and>
     sv_send_id v = mr_send_id r \<and> sv_origin v = mr_origin r \<and>
     sv_origin_type v = mr_origin_type r \<and> sv_invoke_id v = mr_invoke_id r \<and>
     (if mr_object_live r
      then sv_data v = '''' \<and> sv_schema v = mr_schema r \<and>
           sv_object v = do_copy d (the (mr_schema r)) (mr_object r)
      else sv_data v = mr_data r)"

lemma observe_slot_facts:
  assumes ok: "session_data_ok s" and cur: "\<not> sn_current_live s"
    and obs: "observe_slot d token s = (b, t)"
  shows "session_data_ok t \<and> sn_next_metadata_token t = sn_next_metadata_token s \<and>
    (\<forall>j<length (sn_metadata_rows s). mr_token (sn_metadata_rows s ! j) \<noteq> token \<longrightarrow>
       sn_metadata_rows t ! j = sn_metadata_rows s ! j) \<and>
    length (sn_metadata_rows t) = length (sn_metadata_rows s) \<and>
    (\<forall>i<length (sn_metadata_rows s). mr_in_use (sn_metadata_rows s ! i) \<longrightarrow>
       mr_token (sn_metadata_rows s ! i) = token \<longrightarrow>
       sn_metadata_rows t ! i = no_metadata_row \<and>
       (b \<longleftrightarrow> mr_object_live (sn_metadata_rows s ! i) \<longrightarrow>
          do_copy d (the (mr_schema (sn_metadata_rows s ! i))) (mr_object (sn_metadata_rows s ! i)) \<noteq> None) \<and>
       (b \<longrightarrow> slot_view d (sv_name (sn_system s)) (sn_metadata_rows s ! i) (sn_system t)))"
proof (cases "first_index (\<lambda>r. mr_in_use r \<and> mr_token r = token) (sn_metadata_rows s)")
  case None
  then have "t = s" using obs by (simp add: observe_slot_def)
  with ok None show ?thesis by (auto simp: first_index_None_iff)
next
  case (Some i)
  from first_index_SomeD [OF Some] have i: "i < length (sn_metadata_rows s)"
    and used: "mr_in_use (sn_metadata_rows s ! i)" "mr_token (sn_metadata_rows s ! i) = token" by auto
  define r where "r = sn_metadata_rows s ! i"
  have sch: "mr_object_live r \<Longrightarrow> mr_schema r \<noteq> None"
    using metadata_inv_row [of s, OF _ i] ok by (simp add: session_data_ok_def metadata_row_ok_def r_def)
  have uniq: "j = i" if "j < length (sn_metadata_rows s)" "mr_in_use (sn_metadata_rows s ! j)"
    "mr_token (sn_metadata_rows s ! j) = token" for j
    using ok that i used unique_byD [of mr_in_use mr_token "sn_metadata_rows s" j i]
    by (simp add: session_data_ok_def metadata_inv_def)
  have rows: "sn_metadata_rows t = (sn_metadata_rows s)[i := no_metadata_row]"
    "sn_next_metadata_token t = sn_next_metadata_token s"
    "sn_completion_slots t = sn_completion_slots s"
    using obs Some by (auto simp: observe_slot_def Let_def split: if_splits option.splits)
  have count: "sn_constructed t + sn_destroyed s + (if sn_current_live s then 1 else 0)
              + (if mr_object_live (sn_metadata_rows s ! i) then 1 else 0)
            = sn_constructed s + sn_destroyed t + (if sn_current_live t then 1 else 0)"
    using obs Some cur by (auto simp: observe_slot_def Let_def split: if_splits option.splits)
  have "session_data_ok t" by (rule slot_cleared [OF ok i rows count])
  moreover have b: "b \<longleftrightarrow> mr_object_live r \<longrightarrow> do_copy d (the (mr_schema r)) (mr_object r) \<noteq> None"
    using obs Some sch by (auto simp: observe_slot_def Let_def r_def split: if_splits option.splits)
  moreover have "b \<longrightarrow> slot_view d (sv_name (sn_system s)) r (sn_system t)"
    using obs Some by (auto simp: observe_slot_def Let_def r_def slot_view_def split: if_splits option.splits)
  moreover have "sn_metadata_rows t ! j = sn_metadata_rows s ! j"
    if "mr_token (sn_metadata_rows s ! j) \<noteq> token" for j
    using that used by (cases "j = i") (simp_all add: rows)
  moreover have "sn_metadata_rows t ! i = no_metadata_row" using i by (simp add: rows)
  moreover have "length (sn_metadata_rows t) = length (sn_metadata_rows s)" by (simp add: rows)
  ultimately show ?thesis
    using rows(2) uniq unfolding r_def by blast
qed

section \<open>Runs\<close>

text \<open>One call into the component, by the host or by the statechart library.\<close>

datatype meta_op =
    Meta_Send host_ops data_ops event_id cbytes scxml_event_metadata
  | Meta_Send_Named host_ops data_ops cbytes scxml_event_metadata
  | Meta_Observe data_ops observed_event
  | Meta_Reserve_Completion state_id
  | Meta_Publish_Completion nat

fun meta_step :: "meta_op \<Rightarrow> scxml_session_impl \<Rightarrow> scxml_session_impl" where
  "meta_step (Meta_Send ops d e name m) s = snd (scxml_session_try_send_metadata_impl ops d e name m s)"
| "meta_step (Meta_Send_Named ops d name m) s =
     snd (scxml_session_try_send_named_with_metadata ops d name m s)"
| "meta_step (Meta_Observe d ob) s = snd (scxml_runtime_observe_event d ob s)"
| "meta_step (Meta_Reserve_Completion p) s = snd (completion_data_reserve p s)"
| "meta_step (Meta_Publish_Completion i) s =
     (if i < length (sn_completion_slots s) then completion_data_publish_empty i s else s)"

definition meta_run :: "meta_op list \<Rightarrow> scxml_session_impl \<Rightarrow> scxml_session_impl" where
  "meta_run = fold meta_step"

fun observes :: "u64 \<Rightarrow> meta_op \<Rightarrow> bool" where
  "observes k (Meta_Observe d ob) = (ob_token ob = k)"
| "observes k _ = False"

text \<open>The slot under a token is as it was.\<close>

definition token_kept :: "u64 \<Rightarrow> scxml_session_impl \<Rightarrow> scxml_session_impl \<Rightarrow> bool" where
  "token_kept k s t \<longleftrightarrow> length (sn_metadata_rows t) = length (sn_metadata_rows s) \<and>
     (\<forall>i<length (sn_metadata_rows s). mr_in_use (sn_metadata_rows s ! i) \<longrightarrow>
        mr_token (sn_metadata_rows s ! i) = k \<longrightarrow> sn_metadata_rows t ! i = sn_metadata_rows s ! i)"

definition meta_progress :: "u64 \<Rightarrow> scxml_session_impl \<Rightarrow> scxml_session_impl \<Rightarrow> bool" where
  "meta_progress k s t \<longleftrightarrow> session_data_ok t \<and> sn_program t = sn_program s \<and> token_kept k s t \<and>
     sn_next_metadata_token t \<in> {sn_next_metadata_token s, sn_next_metadata_token s + 1}"

lemma meta_progress_same_rows:
  "session_data_ok t \<Longrightarrow> sn_program t = sn_program s \<Longrightarrow> sn_metadata_rows t = sn_metadata_rows s \<Longrightarrow>
     sn_next_metadata_token t = sn_next_metadata_token s \<Longrightarrow> meta_progress k s t"
  by (simp add: meta_progress_def token_kept_def)

lemma send_progress:
  assumes "session_data_ok s" "sn_next_metadata_token s \<noteq> UINT64_MAX"
  shows "meta_progress k s (snd (scxml_session_try_send_metadata_impl ops d e name m s))"
proof -
  obtain status t where send: "scxml_session_try_send_metadata_impl ops d e name m s = (status, t)"
    by fastforce
  note F = send_metadata_facts [OF assms send]
  have "token_kept k s t"
  proof (cases "status = CFLOW_MAILBOX_OK")
    case True
    with F obtain i r where "i < length (sn_metadata_rows s)" "sn_metadata_rows s ! i = no_metadata_row"
      "sn_metadata_rows t = (sn_metadata_rows s)[i := r]" by auto
    then show ?thesis by (auto simp: token_kept_def nth_list_update)
  next
    case False
    with F show ?thesis by (simp add: token_kept_def)
  qed
  with F show ?thesis by (simp add: meta_progress_def send)
qed

lemma send_named_eq:
  "snd (scxml_session_try_send_named_with_metadata ops d name m s) = s \<or>
   scxml_session_try_send_named_with_metadata ops d name m s =
     scxml_session_try_send_metadata_impl ops d (representative_event (sn_program s) (cdata name)) name m s"
  by (simp add: scxml_session_try_send_named_with_metadata_def)

lemma meta_progress_refl: "session_data_ok s \<Longrightarrow> meta_progress k s s"
  by (rule meta_progress_same_rows) simp_all

lemma observe_program: "sn_program (snd (scxml_runtime_observe_event d ob s)) = sn_program s"
proof -
  have "sn_program (snd (bind_completion_done_data d c u)) = sn_program u" for c u
    by (auto simp: bind_completion_done_data_def completion_data_bind_oldest_def Let_def split: option.splits)
  then have "sn_program (snd (observe_completion d c u)) = sn_program u" for c u
    by (auto simp: observe_completion_def split: option.split)
  moreover have "sn_program (snd (observe_slot d k u)) = sn_program u" for k u
    by (auto simp: observe_slot_def Let_def split: option.splits)
  moreover have "sn_program (snd (observe_invocation e k u)) = sn_program u" for e k u
    using observe_invocation_data [of u e k] by (simp add: same_data_def)
  moreover have "sn_program (scxml_runtime_clear_current_event_metadata s) = sn_program s"
    by (simp add: scxml_runtime_clear_current_event_metadata_def Let_def completion_data_release_def
        completion_data_discard_payload_def split: option.split)
  ultimately show ?thesis
    by (auto simp: scxml_runtime_observe_event_def Let_def split: option.split)
qed

definition event_known :: "scxml_program_names \<Rightarrow> event_id \<Rightarrow> string \<Rightarrow> bool" where
  "event_known p e name \<longleftrightarrow>
     e \<noteq> 0 \<and> (e \<le> length (pn_names p) \<or> e = pn_unmatched p) \<and> pn_by_id p e = Some name"

text \<open>The cases of an observation, over the state whose current event has been cleared.\<close>

lemma observe_cases:
  obtains (completion) "snd (scxml_runtime_observe_event d ob s) =
      snd (observe_completion d (ob_completion ob) (scxml_runtime_clear_current_event_metadata s))"
  | (plain) f where "snd (scxml_runtime_observe_event d ob s) =
      upd_system f (scxml_runtime_clear_current_event_metadata s)"
  | (slot) f where "scxml_runtime_observe_event d ob s =
      observe_slot d (ob_token ob) (upd_system f (scxml_runtime_clear_current_event_metadata s))"
  | (invocation) f e where "scxml_runtime_observe_event d ob s =
      observe_invocation e (ob_token ob) (upd_system f (scxml_runtime_clear_current_event_metadata s))"
proof -
  let ?c = "scxml_runtime_clear_current_event_metadata s"
  have id: "?c = upd_system (\<lambda>v. v) ?c" by (simp add: upd_system_def)
  note D = scxml_runtime_observe_event_def [of d ob s, unfolded Let_def]
  show thesis
  proof (cases "ob_kind ob = CFLOW_STATECHART_OBSERVED_COMPLETION")
    case True
    then show ?thesis by (intro completion) (simp add: D)
  next
    case kind: False
    show ?thesis
    proof (cases "snd (scxml_runtime_observe_event d ob s) = ?c")
      case True
      then show ?thesis using plain [of "\<lambda>v. v"] id by simp
    next
      case False
      then obtain e name where e: "ob_event ob = Some e" "pn_by_id (sn_program ?c) e = Some name"
        and known: "\<not> (e = 0 \<or> e > length (pn_names (sn_program ?c)) \<and> e \<noteq> pn_unmatched (sn_program ?c))"
        using kind by (auto simp: D split: option.splits if_splits)
      define f where "f = (\<lambda>v :: scxml_system_values. v\<lparr>sv_name := name, sv_type :=
                     (if ob_kind ob = CFLOW_STATECHART_OBSERVED_EXTERNAL then ''external''
                      else if e = pn_execution_error (sn_program ?c) \<or>
                              e = pn_communication_error (sn_program ?c) then ''platform''
                      else ''internal'')\<rparr>)"
      have eq: "scxml_runtime_observe_event d ob s =
          (if ob_token ob = 0 \<or>
              ob_kind ob \<noteq> CFLOW_STATECHART_OBSERVED_EXTERNAL \<and> \<not> metadata_token_bit (ob_token ob)
           then (True, upd_system f ?c)
           else if metadata_token_bit (ob_token ob) then observe_slot d (ob_token ob) (upd_system f ?c)
           else observe_invocation e (ob_token ob) (upd_system f ?c))"
        by (simp only: D if_not_P [OF kind] e option.case if_not_P [OF known] f_def)
      let ?A = "ob_token ob = 0 \<or>
        ob_kind ob \<noteq> CFLOW_STATECHART_OBSERVED_EXTERNAL \<and> \<not> metadata_token_bit (ob_token ob)"
      consider ?A | "\<not> ?A" "metadata_token_bit (ob_token ob)" | "\<not> ?A" "\<not> metadata_token_bit (ob_token ob)"
        by blast
      then show ?thesis
      proof cases
        case 1
        then show ?thesis by (intro plain [of f]) (simp only: eq if_True snd_conv)
      next
        case 2
        then show ?thesis by (intro slot [of f]) (simp only: eq if_False if_True)
      next
        case 3
        then show ?thesis by (intro invocation [of e f]) (simp only: eq if_False)
      qed
    qed
  qed
qed

lemma observe_progress:
  assumes ok: "session_data_ok s" and k: "ob_token ob \<noteq> k"
  shows "meta_progress k s (snd (scxml_runtime_observe_event d ob s))"
proof -
  let ?c = "scxml_runtime_clear_current_event_metadata s"
  note C = clear_facts [OF ok]
  have up: "session_data_ok (upd_system f ?c)" for f
    by (rule same_data_ok [OF _ C(1)]) simp
  show ?thesis
  proof (cases rule: observe_cases [of d ob s])
    case completion
    obtain b t where t: "observe_completion d (ob_completion ob) ?c = (b, t)" by fastforce
    from observe_completion_facts [OF C(1) t] C show ?thesis
      using observe_program [of d ob s] by (intro meta_progress_same_rows) (simp_all add: completion t)
  next
    case (plain f)
    then show ?thesis using C up [of f] by (intro meta_progress_same_rows) simp_all
  next
    case (slot f)
    obtain b t where t: "observe_slot d (ob_token ob) (upd_system f ?c) = (b, t)" by fastforce
    have "\<not> sn_current_live (upd_system f ?c)" using C by simp
    from observe_slot_facts [OF up this t] C k observe_program [of d ob s] show ?thesis
      by (auto simp: meta_progress_def token_kept_def slot t)
  next
    case (invocation f e)
    have "same_data (upd_system f ?c) (snd (scxml_runtime_observe_event d ob s))"
      unfolding invocation by (rule observe_invocation_data)
    then show ?thesis
      using C same_data_ok [OF _ up] by (intro meta_progress_same_rows) (auto simp: same_data_def)
  qed
qed

lemma observe_ok: "session_data_ok s \<Longrightarrow> session_data_ok (snd (scxml_runtime_observe_event d ob s))"
  using observe_progress [of s ob "ob_token ob + 1" d] by (simp add: meta_progress_def)

lemma meta_step_progress:
  assumes "session_data_ok s" "sn_next_metadata_token s \<noteq> UINT64_MAX" "\<not> observes k op"
  shows "meta_progress k s (meta_step op s)"
proof (cases op)
  case (Meta_Send ops d e name m)
  then show ?thesis using assms send_progress by simp
next
  case (Meta_Send_Named ops d name m)
  then show ?thesis
    using assms send_named_eq [of ops d name m s] meta_progress_refl send_progress by auto
next
  case (Meta_Observe d ob)
  then show ?thesis using assms observe_progress by simp
next
  case (Meta_Reserve_Completion p)
  have "sn_metadata_rows (snd (completion_data_reserve p s)) = sn_metadata_rows s \<and>
      sn_next_metadata_token (snd (completion_data_reserve p s)) = sn_next_metadata_token s \<and>
      sn_program (snd (completion_data_reserve p s)) = sn_program s"
    by (simp add: completion_data_reserve_def split: option.split)
  then show ?thesis
    using assms completion_reserve_ok [of s p] Meta_Reserve_Completion by (simp add: meta_progress_same_rows)
next
  case (Meta_Publish_Completion i)
  then show ?thesis
    using assms completion_publish_ok [of s i]
    by (auto intro!: meta_progress_same_rows
        simp: completion_data_publish_empty_def completion_data_discard_payload_def)
qed

lemma meta_progress_trans: "token_kept k s t \<Longrightarrow> token_kept k t u \<Longrightarrow> token_kept k s u"
  by (auto simp: token_kept_def)

lemma u64_succ_room:
  assumes "unat (w :: u64) + Suc n < 2 ^ 64"
  shows "w \<noteq> UINT64_MAX" "unat (w + 1) + n < 2 ^ 64"
proof -
  have m: "unat UINT64_MAX = 2 ^ 64 - 1"
    by (simp add: unsigned_minus_1_eq_mask mask_eq_exp_minus_1)
  have "unat w \<noteq> 2 ^ 64 - 1" using assms by simp
  then show ne: "w \<noteq> UINT64_MAX" using m by metis
  show "unat (w + 1) + n < 2 ^ 64" using assms unat_Suc_guard [OF ne] by simp
qed

lemma meta_run_progress:
  assumes "session_data_ok s" "\<forall>op\<in>set ops. \<not> observes k op"
    and "unat (sn_next_metadata_token s) + length ops < 2 ^ 64"
  shows "session_data_ok (meta_run ops s) \<and> sn_program (meta_run ops s) = sn_program s \<and>
    token_kept k s (meta_run ops s)"
  using assms
proof (induction ops arbitrary: s)
  case Nil
  then show ?case by (simp add: meta_run_def token_kept_def)
next
  case (Cons op ops)
  note room = u64_succ_room [of "sn_next_metadata_token s" "length ops"]
  have P: "meta_progress k s (meta_step op s)"
    using Cons.prems room by (intro meta_step_progress) simp_all
  have "unat (sn_next_metadata_token (meta_step op s)) + length ops < 2 ^ 64"
    using P Cons.prems(3) room(2) by (auto simp: meta_progress_def)
  with Cons.IH [of "meta_step op s"] P Cons.prems show ?case
    by (auto simp: meta_run_def meta_progress_def intro: meta_progress_trans)
qed

section \<open>Delivery\<close>

definition external_event :: "event_id \<Rightarrow> u64 \<Rightarrow> state_id \<Rightarrow> observed_event" where
  "external_event e token c = \<lparr>ob_kind = CFLOW_STATECHART_OBSERVED_EXTERNAL, ob_event = Some e,
     ob_completion = c, ob_token = token\<rparr>"

lemma observe_external_slot:
  assumes "event_known (sn_program s) e name" "metadata_token_bit token" "session_data_ok s"
  shows "\<exists>u. scxml_runtime_observe_event d (external_event e token c) s = observe_slot d token u \<and>
    sv_name (sn_system u) = name \<and> session_data_ok u \<and> \<not> sn_current_live u \<and>
    sn_metadata_rows u = sn_metadata_rows s"
proof -
  note C = clear_facts [OF assms(3)]
  have nz: "token \<noteq> 0" using assms(2) by (auto simp: metadata_token_bit_def)
  define u where "u = upd_system (\<lambda>v. v\<lparr>sv_name := name, sv_type := ''external''\<rparr>)
      (scxml_runtime_clear_current_event_metadata s)"
  have "scxml_runtime_observe_event d (external_event e token c) s = observe_slot d token u"
    using assms(1,2) nz
    by (auto simp: scxml_runtime_observe_event_def Let_def external_event_def C event_known_def u_def)
  moreover have "session_data_ok u" unfolding u_def by (rule same_data_ok [OF _ C(1)]) simp
  moreover have "sv_name (sn_system u) = name" "\<not> sn_current_live u"
    "sn_metadata_rows u = sn_metadata_rows s"
    using C by (simp_all add: u_def)
  ultimately show ?thesis by blast
qed

text \<open>What the receiver is to see of the content.\<close>

definition content_seen ::
  "data_ops \<Rightarrow> data_ops \<Rightarrow> nat option \<Rightarrow> event_content \<Rightarrow> scxml_system_values \<Rightarrow> bool" where
  "content_seen d d' root c v =
     (case ec_kind c of
        SCXML_CONTENT_INVALID \<Rightarrow> sv_data v = ''''
      | SCXML_CONTENT_SCALAR \<Rightarrow>
          scxml_runtime_scalar_value_to_text d (ec_scalar c) (SCXML_EVENT_METADATA_CAPACITY + 1)
            = Some (sv_data v)
      | SCXML_CONTENT_CMETA \<Rightarrow>
          sv_schema v = root \<and> sv_data v = '''' \<and>
          (\<exists>copy. do_copy d (the root) (the (ec_object c)) = Some copy \<and>
                  sv_object v = do_copy d' (the root) copy)
      | _ \<Rightarrow> sv_data v = cdata (ec_bytes c))"

lemma event_row_content:
  assumes "event_row d root name m token = Some r" "slot_view d' evname r v"
  shows "content_seen d d' root (em_data m) v"
  using assms
  by (auto simp: event_row_def attached_row_def content_seen_def slot_view_def named_row_def
      reserved_row_def no_metadata_row_def split: scxml_content_kind.splits if_splits)

text \<open>
  (C7)
  An accepted event arrives with exactly what its sender attached. After any number of other sends,
  observations of other events and done-data operations, observing it gives the sender's send id,
  origin, origin type and invoke id, its actual name when the sender gave one, and its content: the same
  text, or a copy of the structured datum. The observation succeeds unless that copy fails, and it empties
  the slot: a second event under the same token is refused as stale.
\<close>

theorem event_metadata_delivered:
  assumes ok: "session_data_ok s"
    and send: "scxml_session_try_send_metadata_impl ops d event name m s = (CFLOW_MAILBOX_OK, s1)"
    and token: "token = sn_next_metadata_token s"
    and other: "\<forall>op\<in>set w. \<not> observes token op"
    and room: "unat token + Suc (length w) < 2 ^ 64"
    and known: "event_known (sn_program s) event evname"
    and obs: "scxml_runtime_observe_event d' (external_event event token c) (meta_run w s1) = (b, t)"
  shows "(event, token) \<in> set (sn_external s1) \<and>
    (ec_kind (em_data m) \<noteq> SCXML_CONTENT_CMETA \<longrightarrow> b) \<and>
    (b \<longrightarrow> sv_send_id (sn_system t) = cdata (em_send_id m) \<and>
           sv_origin (sn_system t) = cdata (em_origin m) \<and>
           sv_origin_type (sn_system t) = cdata (em_origin_type m) \<and>
           sv_invoke_id (sn_system t) = cdata (em_invoke_id m) \<and>
           sv_name (sn_system t) = (if cdata name \<noteq> '''' then cdata name else evname) \<and>
           content_seen d d' (pn_root (sn_program s)) (em_data m) (sn_system t)) \<and>
    fst (scxml_runtime_observe_event d' (external_event event token c) t) = False"
proof -
  note R = u64_succ_room [of token "length w"]
  have ne: "token \<noteq> UINT64_MAX" using room R by simp
  have F: "session_data_ok s1" "sn_program s1 = sn_program s"
    "sn_next_metadata_token s1 = token \<or> sn_next_metadata_token s1 = token + 1"
    and ex: "\<exists>i r. i < length (sn_metadata_rows s) \<and>
      event_row d (pn_root (sn_program s)) name m token = Some r \<and>
      sn_metadata_rows s1 = (sn_metadata_rows s)[i := r] \<and> sn_external s1 = sn_external s @ [(event, token)]"
    using send_metadata_facts [OF ok _ send] ne token by auto
  from ex obtain i r where i: "i < length (sn_metadata_rows s)"
    and r: "event_row d (pn_root (sn_program s)) name m token = Some r"
    and rows: "sn_metadata_rows s1 = (sn_metadata_rows s)[i := r]"
    and ext: "sn_external s1 = sn_external s @ [(event, token)]" by blast
  have p1: "(event, token) \<in> set (sn_external s1)" by (simp add: ext)
  note f = event_row_fields [OF r]
  have bit: "metadata_token_bit token"
    using ok token
    by (simp add: session_data_ok_def metadata_inv_def metadata_token_bit_iff bit63_iff less_imp_le)
  have "unat (sn_next_metadata_token s1) + length w < 2 ^ 64"
    using F(3) R(2) room by auto
  from meta_run_progress [OF F(1) other this]
  have W: "session_data_ok (meta_run w s1)" "sn_program (meta_run w s1) = sn_program s"
    and kept: "token_kept token s1 (meta_run w s1)" using F(2) by auto
  have i1: "i < length (sn_metadata_rows (meta_run w s1))"
    using kept i rows by (simp add: token_kept_def)
  have row: "sn_metadata_rows (meta_run w s1) ! i = r"
    using kept i rows f by (simp add: token_kept_def)
  from observe_external_slot [of "meta_run w s1" event evname token d' c] known bit W
  obtain u where u: "scxml_runtime_observe_event d' (external_event event token c) (meta_run w s1)
        = observe_slot d' token u"
    and uu: "sv_name (sn_system u) = evname" "session_data_ok u" "\<not> sn_current_live u"
      "sn_metadata_rows u = sn_metadata_rows (meta_run w s1)" by auto
  note S = observe_slot_facts [OF uu(2,3) obs [unfolded u]]
  have at: "sn_metadata_rows t ! i = no_metadata_row"
    and b: "b \<longleftrightarrow> mr_object_live r \<longrightarrow> do_copy d' (the (mr_schema r)) (mr_object r) \<noteq> None"
    and view: "b \<longrightarrow> slot_view d' evname r (sn_system t)"
    using S i1 row f uu by auto
  have "mr_object_live r \<longleftrightarrow> ec_kind (em_data m) = SCXML_CONTENT_CMETA"
    using attached_row_live [OF r [unfolded event_row_def]] by simp
  then have p2: "ec_kind (em_data m) \<noteq> SCXML_CONTENT_CMETA \<longrightarrow> b" using b by simp
  have p3: "b \<longrightarrow> sv_send_id (sn_system t) = cdata (em_send_id m) \<and>
           sv_origin (sn_system t) = cdata (em_origin m) \<and>
           sv_origin_type (sn_system t) = cdata (em_origin_type m) \<and>
           sv_invoke_id (sn_system t) = cdata (em_invoke_id m) \<and>
           sv_name (sn_system t) = (if cdata name \<noteq> '''' then cdata name else evname) \<and>
           content_seen d d' (pn_root (sn_program s)) (em_data m) (sn_system t)"
    using view event_row_content [OF r, of d' evname "sn_system t"] f by (auto simp: slot_view_def)
  have len: "length (sn_metadata_rows t) = length (sn_metadata_rows u)" using S by simp
  have nz: "token \<noteq> 0" using bit by (auto simp: metadata_token_bit_def)
  have gone: "\<not> (mr_in_use (sn_metadata_rows t ! j) \<and> mr_token (sn_metadata_rows t ! j) = token)"
    if j: "j < length (sn_metadata_rows t)" for j
  proof (cases "mr_token (sn_metadata_rows u ! j) = token")
    case True
    have "mr_in_use (sn_metadata_rows u ! j)"
      using metadata_inv_row [of u j] uu(2) j len True nz
      by (auto simp: session_data_ok_def metadata_row_ok_def no_metadata_row_def)
    then show ?thesis using S True j len by simp
  next
    case False
    then show ?thesis using S j len by simp
  qed
  have "sn_program t = sn_program s"
    using observe_program [of d' "external_event event token c" "meta_run w s1"] obs W by simp
  then obtain u' where u': "scxml_runtime_observe_event d' (external_event event token c) t
        = observe_slot d' token u'" "sn_metadata_rows u' = sn_metadata_rows t"
    using observe_external_slot [of t event evname token d' c] known bit S by auto
  have "first_index (\<lambda>r. mr_in_use r \<and> mr_token r = token) (sn_metadata_rows t) = None"
    unfolding first_index_None_iff using gone by (metis in_set_conv_nth)
  then have "fst (scxml_runtime_observe_event d' (external_event event token c) t) = False"
    by (simp add: u' observe_slot_def)
  with p1 p2 p3 show ?thesis by blast
qed

section \<open>Runs from a new Session\<close>

lemma session_init_data_ok: "session_data_ok (session_init p ivs io invk ident cap)"
proof -
  have tok: "TOKEN_BIT OR 1 = TOKEN_BIT + 1" by (simp add: token_bit_value)
  show ?thesis
    by (simp add: session_data_ok_def metadata_inv_def objects_balanced_def live_objects_def
        session_init_def unique_by_def)
      (simp add: tok token_bit_value)
qed

lemma session_init_token: "sn_next_metadata_token (session_init p ivs io invk ident cap) = TOKEN_BIT + 1"
  by (simp add: session_init_def token_bit_value)

lemma meta_run_ok:
  assumes "session_data_ok s" "unat (sn_next_metadata_token s) + length ops < 2 ^ 64"
  shows "session_data_ok (meta_run ops s)"
  using assms
proof (induction ops arbitrary: s)
  case (Cons op ops)
  note room = u64_succ_room [of "sn_next_metadata_token s" "length ops"]
  obtain k where k: "\<not> observes k op"
  proof (cases op)
    case (Meta_Observe d ob)
    then show ?thesis by (intro that [of "ob_token ob + 1"]) simp
  qed auto
  have P: "meta_progress k s (meta_step op s)"
    using Cons.prems room k by (intro meta_step_progress) simp_all
  have "unat (sn_next_metadata_token (meta_step op s)) + length ops < 2 ^ 64"
    using P Cons.prems(2) room(2) by (auto simp: meta_progress_def)
  with Cons.IH [of "meta_step op s"] P show ?case by (simp add: meta_run_def meta_progress_def)
qed (simp add: meta_run_def)

text \<open>
  (C37)
  Event data neither leaks nor is destroyed twice. However sends (accepted, refused, with unusable
  content), observations and done-data operations follow one another, each structured datum ever
  constructed is either still held by one slot, or by the current event, or has been destroyed once; the
  slots in use carry distinct tokens, and a slot not in use is blank.
\<close>

theorem metadata_objects_conserved:
  assumes "length ops < 2 ^ 63 - 1"
  shows "let s = meta_run ops (session_init p ivs io invk ident cap) in
     sn_constructed s = sn_destroyed s + count_if mr_object_live (sn_metadata_rows s) +
       count_if cs_object_live (sn_completion_slots s) + (if sn_current_live s then 1 else 0) \<and>
     inj_on mr_token {r \<in> set (sn_metadata_rows s). mr_in_use r} \<and>
     (\<forall>r\<in>set (sn_metadata_rows s). mr_in_use r \<or> r = no_metadata_row)"
proof -
  let ?i = "session_init p ivs io invk ident cap"
  have "unat (sn_next_metadata_token ?i) = 2 ^ 63 + 1"
    by (simp add: session_init_token token_bit_value)
  then have "unat (sn_next_metadata_token ?i) + length ops < 2 ^ 64" using assms by simp
  from meta_run_ok [OF session_init_data_ok this]
  have ok: "session_data_ok (meta_run ops ?i)" .
  then have "inj_on mr_token {r \<in> set (sn_metadata_rows (meta_run ops ?i)). mr_in_use r}"
    by (intro unique_by_inj [of mr_in_use]) (auto simp: session_data_ok_def metadata_inv_def)
  with ok show ?thesis
    by (auto simp: Let_def session_data_ok_def metadata_inv_def metadata_row_ok_def
        objects_balanced_def live_objects_def)
qed

section \<open>The event a name stands for\<close>

interpretation name_order: row_order longer_name
  by unfold_locales (auto simp: longer_name_def)

lemma name_covers_iff:
  "name_covers name c \<longleftrightarrow> fst c = name \<or> prefix (fst c @ ''.'') name"
proof
  assume c: "name_covers name c"
  show "fst c = name \<or> prefix (fst c @ ''.'') name"
  proof (cases "length (fst c) = length name")
    case True
    with c show ?thesis by (simp add: name_covers_def)
  next
    case False
    then have "length (fst c) < length name" "name ! length (fst c) = CHR ''.''" "take (length (fst c)) name = fst c"
      using c by (auto simp: name_covers_def)
    then have "name = fst c @ CHR ''.'' # drop (Suc (length (fst c))) name"
      by (metis id_take_nth_drop)
    then show ?thesis by (metis append_Cons append_Nil append_assoc prefixI)
  qed
next
  assume "fst c = name \<or> prefix (fst c @ ''.'') name"
  then show "name_covers name c" by (auto simp: name_covers_def prefix_def nth_append)
qed

text \<open>
  An event sent by name is delivered as the declared event whose name is the longest one that is the
  name itself or a dotted prefix of it, and as the reserved unmatched event exactly when no declared name
  is either.
\<close>

theorem named_event_longest_prefix:
  "case filter (\<lambda>c. fst c = name \<or> prefix (fst c @ ''.'') name) (pn_names p) of
     [] \<Rightarrow> representative_event p name = pn_unmatched p
   | cs \<Rightarrow> \<exists>c\<in>set cs. representative_event p name = snd c \<and> (\<forall>c'\<in>set cs. length (fst c') \<le> length (fst c))"
proof (cases "earliest_row (name_covers name) longer_name (pn_names p)")
  case None
  then have "filter (\<lambda>c. fst c = name \<or> prefix (fst c @ ''.'') name) (pn_names p) = []"
    using name_order.earliest_row_NoneD [OF None] by (auto simp: filter_empty_conv name_covers_iff)
  with None show ?thesis by (simp add: representative_event_def)
next
  case (Some i)
  let ?cs = "filter (\<lambda>c. fst c = name \<or> prefix (fst c @ ''.'') name) (pn_names p)"
  from name_order.earliest_row_SomeD [OF Some]
  have i: "i < length (pn_names p)" "name_covers name (pn_names p ! i)"
    and best: "\<forall>x\<in>set (pn_names p). name_covers name x \<longrightarrow> \<not> longer_name x (pn_names p ! i)" by auto
  then have mem: "pn_names p ! i \<in> set ?cs" by (simp add: name_covers_iff)
  moreover have "\<forall>c'\<in>set ?cs. length (fst c') \<le> length (fst (pn_names p ! i))"
    using best by (auto simp: longer_name_def name_covers_iff not_less)
  moreover have "representative_event p name = snd (pn_names p ! i)"
    using Some by (simp add: representative_event_def)
  ultimately show ?thesis by (cases ?cs) auto
qed

section \<open>A run of it\<close>

definition demo_data :: data_ops where
  "demo_data = \<lparr>do_copy = (\<lambda>schema obj. Some obj), do_valid = (\<lambda>schema. True),
     do_env = \<lparr>env_utf8_valid = (\<lambda>s. True), env_decimal_point = ''.''\<rparr>,
     do_nonfinite = (\<lambda>w. ''nan'')\<rparr>"

definition demo_host :: host_ops where
  "demo_host = \<lparr>ho_stage = (\<lambda>t. True), ho_raise = (\<lambda>e t. True), ho_post = (\<lambda>e t. CFLOW_MAILBOX_OK)\<rparr>"

definition demo_names :: scxml_program_names where
  "demo_names = \<lparr>pn_names = [(''a'', 1), (''a.b'', 2)],
     pn_by_id = (\<lambda>e. if e = 1 then Some ''a'' else if e = 2 then Some ''a.b'' else Some ''*''),
     pn_states = [(7, ''s'')], pn_unmatched = 3, pn_execution_error = 4, pn_communication_error = 5,
     pn_root = Some 9\<rparr>"

definition demo_capacities :: session_capacities where
  "demo_capacities = \<lparr>cap_delayed = 2, cap_prepared = 3, cap_invocations = 2, cap_effects = 3,
     cap_metadata = 2, cap_completion = 1\<rparr>"

definition demo_session :: scxml_session_impl where
  "demo_session = session_init demo_names [] True True ''u1'' demo_capacities"

definition demo_metadata :: scxml_event_metadata where
  "demo_metadata = \<lparr>em_abi_ok = True, em_send_id = CBytes ''s1'', em_origin = CBytes ''o'',
     em_origin_type = CBytes ''t'', em_invoke_id = CNull 0,
     em_data = \<lparr>ec_kind = SCXML_CONTENT_TEXT_UTF8, ec_scalar = SCXML_PAYLOAD_VALUE_INVALID,
       ec_bytes = CBytes ''hi'', ec_schema = None, ec_object = None\<rparr>\<rparr>"

lemmas demo_simps = demo_session_def session_init_def demo_metadata_def demo_capacities_def demo_host_def
  demo_names_def demo_data_def

lemma demo_send:
  "scxml_session_try_send_metadata_impl demo_host demo_data 2 (CBytes ''a.b.c'') demo_metadata demo_session
     = (CFLOW_MAILBOX_OK,
        snd (scxml_session_try_send_metadata_impl demo_host demo_data 2 (CBytes ''a.b.c'') demo_metadata
               demo_session))"
  by (simp add: scxml_session_try_send_metadata_impl_def demo_simps metadata_fields_valid_def
      scxml_runtime_metadata_field_valid_def SCXML_EVENT_METADATA_CAPACITY_def
      scxml_runtime_reserve_event_metadata_def metadata_slot_free_def numeral_2_eq_2
      scxml_analyze_attach_event_content_def post_external_def upd_metadata_def Let_def no_metadata_row_def)

lemma metadata_objects_conserved_witness:
  "let s = meta_run [Meta_Reserve_Completion 7, Meta_Publish_Completion 0,
      Meta_Send demo_host demo_data 2 (CBytes ''a.b.c'') demo_metadata]
      (session_init demo_names [] True True ''u1'' demo_capacities) in
     sn_constructed s = sn_destroyed s + count_if mr_object_live (sn_metadata_rows s) +
       count_if cs_object_live (sn_completion_slots s) + (if sn_current_live s then 1 else 0) \<and>
     inj_on mr_token {r \<in> set (sn_metadata_rows s). mr_in_use r} \<and>
     (\<forall>r\<in>set (sn_metadata_rows s). mr_in_use r \<or> r = no_metadata_row)"
  by (rule metadata_objects_conserved) simp

lemma event_metadata_delivered_witness:
  "\<exists>b t s1. scxml_runtime_observe_event demo_data (external_event 2 (TOKEN_BIT + 1) 0)
       (meta_run [Meta_Send demo_host demo_data 1 (CNull 0) demo_metadata] s1) = (b, t) \<and>
     b \<and> sv_send_id (sn_system t) = ''s1'' \<and> sv_name (sn_system t) = ''a.b.c'' \<and> sv_data (sn_system t) = ''hi''"
proof -
  let ?send = "scxml_session_try_send_metadata_impl demo_host demo_data 2 (CBytes ''a.b.c'') demo_metadata
      demo_session"
  let ?w = "[Meta_Send demo_host demo_data 1 (CNull 0) demo_metadata]"
  obtain b t where obs: "scxml_runtime_observe_event demo_data (external_event 2 (TOKEN_BIT + 1) 0)
       (meta_run ?w (snd ?send)) = (b, t)" by fastforce
  have ok: "session_data_ok demo_session" by (simp add: demo_session_def session_init_data_ok)
  have token: "TOKEN_BIT + 1 = sn_next_metadata_token demo_session"
    by (simp add: demo_session_def session_init_token)
  have room: "unat (TOKEN_BIT + 1) + Suc (length ?w) < 2 ^ 64" by (simp add: token_bit_value)
  have known: "event_known (sn_program demo_session) 2 ''a.b''"
    by (simp add: event_known_def demo_simps)
  have other: "\<forall>op\<in>set ?w. \<not> observes (TOKEN_BIT + 1) op" by simp
  from event_metadata_delivered [OF ok demo_send token other room known obs]
  have "b" "sv_send_id (sn_system t) = ''s1''" "sv_name (sn_system t) = ''a.b.c''"
    "sv_data (sn_system t) = ''hi''"
    by (simp_all add: demo_metadata_def content_seen_def)
  with obs show ?thesis by blast
qed

lemma named_event_longest_prefix_witness:
  "representative_event demo_names ''a.b.c'' = 2"
  using named_event_longest_prefix [where name = "''a.b.c''" and p = demo_names] by (simp add: demo_names_def)

end
