(* ===== verification/Session_Registry.thy ===== *)
theory Session_Registry
  imports Session_Metadata_Inv
begin

text \<open>
  The delayed-send registry of a Session and its prepared effects (\<^verbatim>\<open>src/scxml_runtime.c\<close>,
  \<^verbatim>\<open>src/scxml_session.c\<close>): \<^verbatim>\<open><send>\<close> and \<^verbatim>\<open><cancel>\<close> reserve a row while the transaction runs,
  and the row changes when the transaction commits or discards the effect.

  The values a \<^verbatim>\<open><send>\<close> evaluates come from the expression component, which is not modelled: they
  are the fields of \<open>send_descriptor\<close> and \<open>send_env\<close>. An adapter's answer is its status and its
  ticket, None when one of the ticket's functions is NULL. Diagnostic texts are left out.
\<close>

section \<open>Rows\<close>

definition same_send_id :: "cbytes \<Rightarrow> scxml_delayed_send \<Rightarrow> bool" where
  "same_send_id ident r \<longleftrightarrow> ds_state r \<noteq> SCXML_DELAYED_FREE \<and> ident = CBytes (ds_id r)"

definition upd_delayed ::
  "nat \<Rightarrow> (scxml_delayed_send \<Rightarrow> scxml_delayed_send) \<Rightarrow> scxml_session_impl \<Rightarrow> scxml_session_impl" where
  "upd_delayed i f s = s\<lparr>sn_delayed_sends := (sn_delayed_sends s)[i := f (sn_delayed_sends s ! i)]\<rparr>"

definition upd_prepared ::
  "nat \<Rightarrow> (scxml_prepared_effect \<Rightarrow> scxml_prepared_effect) \<Rightarrow> scxml_session_impl \<Rightarrow> scxml_session_impl" where
  "upd_prepared i f s = s\<lparr>sn_prepared_effects := (sn_prepared_effects s)[i := f (sn_prepared_effects s ! i)]\<rparr>"

definition acquire_prepared_effect_locked :: "scxml_session_impl \<Rightarrow> nat option \<times> scxml_session_impl" where
  "acquire_prepared_effect_locked s =
     (case first_index (\<lambda>e. \<not> pe_in_use e) (sn_prepared_effects s) of
        None \<Rightarrow> (None, s)
      | Some e \<Rightarrow> (Some e, upd_prepared e (\<lambda>_. no_prepared_effect\<lparr>pe_in_use := True\<rparr>) s))"

definition scxml_runtime_find_delayed_send_locked :: "cbytes \<Rightarrow> scxml_session_impl \<Rightarrow> nat option" where
  "scxml_runtime_find_delayed_send_locked ident s = first_index (same_send_id ident) (sn_delayed_sends s)"

datatype reserve_result = Reserved nat | Duplicate | No_Room

definition reserve_delayed_send_locked ::
  "cbytes \<Rightarrow> bool \<Rightarrow> scxml_session_impl \<Rightarrow> reserve_result \<times> scxml_session_impl" where
  "reserve_delayed_send_locked ident copy s =
     (if first_index (same_send_id ident) (sn_delayed_sends s) \<noteq> None then (Duplicate, s)
      else case first_index (\<lambda>r. ds_state r = SCXML_DELAYED_FREE) (sn_delayed_sends s) of
        None \<Rightarrow> (No_Room, s)
      | Some i \<Rightarrow>
          if is_cnull ident \<or> csize ident = 0 \<or> copy \<and> csize ident > SCXML_EVENT_METADATA_CAPACITY
          then (No_Room, s)
          else (Reserved i, upd_delayed i (\<lambda>_. \<lparr>ds_id = cdata ident, ds_owned = copy,
                  ds_state = SCXML_DELAYED_RESERVED, ds_previous = SCXML_DELAYED_FREE\<rparr>) s))"

text \<open>What taking an effect back does to its row, and what carrying it out does.\<close>

definition rollback_row :: "scxml_prepared_kind \<Rightarrow> scxml_delayed_send \<Rightarrow> scxml_delayed_send" where
  "rollback_row kind r =
     (if kind = SCXML_PREPARED_DELAYED_SEND
      then if ds_state r = SCXML_DELAYED_RESERVED then no_delayed_send
           else if ds_state r = SCXML_DELAYED_CANCEL_RESERVED \<and> ds_previous r = SCXML_DELAYED_RESERVED
           then r\<lparr>ds_previous := SCXML_DELAYED_FREE\<rparr>
           else r
      else if kind = SCXML_PREPARED_CANCEL \<and> ds_state r = SCXML_DELAYED_CANCEL_RESERVED
      then if ds_previous r = SCXML_DELAYED_FREE then no_delayed_send
           else r\<lparr>ds_state := ds_previous r, ds_previous := SCXML_DELAYED_FREE\<rparr>
      else r)"

definition commit_row :: "scxml_prepared_kind \<Rightarrow> scxml_delayed_send \<Rightarrow> scxml_delayed_send" where
  "commit_row kind r =
     (if kind = SCXML_PREPARED_DELAYED_SEND \<and> ds_state r = SCXML_DELAYED_RESERVED
      then r\<lparr>ds_state := SCXML_DELAYED_ACTIVE\<rparr>
      else if kind = SCXML_PREPARED_DELAYED_SEND \<and> ds_state r = SCXML_DELAYED_CANCEL_RESERVED \<and>
              ds_previous r = SCXML_DELAYED_RESERVED
      then r\<lparr>ds_previous := SCXML_DELAYED_ACTIVE\<rparr>
      else if kind = SCXML_PREPARED_CANCEL \<and> ds_state r = SCXML_DELAYED_CANCEL_RESERVED
      then no_delayed_send
      else r)"

text \<open>The row of an effect, when its index is one.\<close>

definition effect_row ::
  "(scxml_prepared_kind \<Rightarrow> scxml_delayed_send \<Rightarrow> scxml_delayed_send) \<Rightarrow> nat \<Rightarrow> scxml_session_impl
    \<Rightarrow> scxml_session_impl" where
  "effect_row f e s =
     (case pe_index (sn_prepared_effects s ! e) of
        None \<Rightarrow> s
      | Some i \<Rightarrow>
          if i < length (sn_delayed_sends s)
          then upd_delayed i (f (pe_kind (sn_prepared_effects s ! e))) s else s)"

definition rollback_prepared_effect_locked :: "nat \<Rightarrow> scxml_session_impl \<Rightarrow> scxml_session_impl" where
  "rollback_prepared_effect_locked e s =
     upd_prepared e (\<lambda>p. p\<lparr>pe_in_use := False\<rparr>) (effect_row rollback_row e s)"

definition commit_prepared_effect :: "nat \<Rightarrow> scxml_session_impl \<Rightarrow> scxml_session_impl" where
  "commit_prepared_effect e s =
     (if \<not> pe_in_use (sn_prepared_effects s ! e) then s
      else call_ticket True (pe_ticket (sn_prepared_effects s ! e))
             (upd_prepared e (\<lambda>p. p\<lparr>pe_in_use := False\<rparr>) (effect_row commit_row e s)))"

definition discard_prepared_effect :: "nat \<Rightarrow> scxml_session_impl \<Rightarrow> scxml_session_impl" where
  "discard_prepared_effect e s =
     (if \<not> pe_in_use (sn_prepared_effects s ! e) then s
      else call_ticket False (pe_ticket (sn_prepared_effects s ! e))
             (rollback_prepared_effect_locked e s))"

section \<open>Failures\<close>

datatype scxml_adapter_error_kind =
    SCXML_ADAPTER_ERROR_KIND_EXECUTION | SCXML_ADAPTER_ERROR_KIND_COMMUNICATION

definition adapter_error_event :: "scxml_adapter_error_kind \<Rightarrow> scxml_session_impl \<Rightarrow> event_id" where
  "adapter_error_event kind s =
     (if kind = SCXML_ADAPTER_ERROR_KIND_EXECUTION then pn_execution_error (sn_program s)
      else pn_communication_error (sn_program s))"

definition raise_or_fatal ::
  "host_ops \<Rightarrow> event_id \<Rightarrow> scxml_session_impl \<Rightarrow> scxml_execute_outcome \<times> scxml_session_impl" where
  "raise_or_fatal ops event s =
     (if event = 0 then (SCXML_EXECUTE_FATAL, s)
      else case raise_internal ops event 0 s of
        (False, s1) \<Rightarrow> (SCXML_EXECUTE_FATAL, s1)
      | (True, s1) \<Rightarrow> (SCXML_EXECUTE_BLOCK_ABORTED, s1))"

definition raise_adapter_error ::
  "host_ops \<Rightarrow> scxml_adapter_error_kind \<Rightarrow> scxml_session_impl \<Rightarrow> scxml_execute_outcome \<times> scxml_session_impl"
where
  "raise_adapter_error ops kind s = raise_or_fatal ops (adapter_error_event kind s) s"

definition raise_block_execution_error ::
  "host_ops \<Rightarrow> event_id \<Rightarrow> scxml_session_impl \<Rightarrow> scxml_execute_outcome \<times> scxml_session_impl" where
  "raise_block_execution_error ops block_error s = raise_or_fatal ops block_error s"

fun failure_kind :: "scxml_adapter_status \<Rightarrow> scxml_adapter_error_kind option" where
  "failure_kind SCXML_ADAPTER_ERROR_EXECUTION = Some SCXML_ADAPTER_ERROR_KIND_EXECUTION"
| "failure_kind SCXML_ADAPTER_ERROR_COMMUNICATION = Some SCXML_ADAPTER_ERROR_KIND_COMMUNICATION"
| "failure_kind SCXML_ADAPTER_FULL = Some SCXML_ADAPTER_ERROR_KIND_COMMUNICATION"
| "failure_kind SCXML_ADAPTER_CLOSED = Some SCXML_ADAPTER_ERROR_KIND_COMMUNICATION"
| "failure_kind SCXML_ADAPTER_INVALID_CONTRACT = None"
| "failure_kind SCXML_ADAPTER_ACCEPTED = None"

definition adapter_failure_outcome ::
  "host_ops \<Rightarrow> scxml_adapter_status \<Rightarrow> scxml_session_impl \<Rightarrow> scxml_execute_outcome \<times> scxml_session_impl" where
  "adapter_failure_outcome ops status s =
     (case failure_kind status of
        Some kind \<Rightarrow> raise_adapter_error ops kind s
      | None \<Rightarrow> (SCXML_EXECUTE_FATAL, s))"

definition failed_send_metadata :: "cbytes \<Rightarrow> scxml_event_metadata" where
  "failed_send_metadata ident = \<lparr>em_abi_ok = True, em_send_id = ident, em_origin = CNull 0,
     em_origin_type = CNull 0, em_invoke_id = CNull 0,
     em_data = \<lparr>ec_kind = SCXML_CONTENT_INVALID, ec_scalar = SCXML_PAYLOAD_VALUE_INVALID,
       ec_bytes = CNull 0, ec_schema = None, ec_object = None\<rparr>\<rparr>"

text \<open>Raise an event under a metadata slot and stage the slot's ticket; give the slot back on failure.\<close>

definition raise_with_slot ::
  "host_ops \<Rightarrow> event_id \<Rightarrow> nat \<Rightarrow> u64 \<Rightarrow> scxml_session_impl \<Rightarrow> bool \<times> scxml_session_impl" where
  "raise_with_slot ops event i token s =
     (case raise_internal ops event token s of
        (False, s1) \<Rightarrow> (False, scxml_runtime_release_event_metadata i s1)
      | (True, s1) \<Rightarrow>
          (case stage_effect ops (Staged_Metadata i) s1 of
             (False, s2) \<Rightarrow> (False, scxml_runtime_release_event_metadata i s2)
           | (True, s2) \<Rightarrow> (True, s2)))"

definition send_failure_outcome ::
  "host_ops \<Rightarrow> cbytes \<Rightarrow> bool \<Rightarrow> scxml_adapter_status \<Rightarrow> scxml_session_impl
    \<Rightarrow> scxml_execute_outcome \<times> scxml_session_impl" where
  "send_failure_outcome ops ident has_id_location status s =
     (case failure_kind status of
        None \<Rightarrow> adapter_failure_outcome ops status s
      | Some kind \<Rightarrow>
          if csize ident = 0 then raise_adapter_error ops kind s
          else if is_cnull ident then (SCXML_EXECUTE_FATAL, s)
          else if adapter_error_event kind s = 0 then (SCXML_EXECUTE_FATAL, s)
          else case scxml_runtime_reserve_event_metadata (failed_send_metadata ident) s of
            (None, s1) \<Rightarrow> (SCXML_EXECUTE_FATAL, s1)
          | (Some (i, token), s1) \<Rightarrow>
              (case raise_with_slot ops (adapter_error_event kind s) i token s1 of
                 (False, s2) \<Rightarrow> (SCXML_EXECUTE_FATAL, s2)
               | (True, s2) \<Rightarrow>
                   (SCXML_EXECUTE_BLOCK_ABORTED,
                    if has_id_location then s2\<lparr>sn_failed_send_id := Some (cdata ident)\<rparr> else s2)))"

section \<open>Reports of the adapter\<close>

definition scxml_session_report_send_done :: "cbytes \<Rightarrow> scxml_session_impl \<Rightarrow> bool \<times> scxml_session_impl" where
  "scxml_session_report_send_done ident s =
     (if is_cnull ident \<or> csize ident = 0 then (False, s)
      else case scxml_runtime_find_delayed_send_locked ident s of
        None \<Rightarrow> (False, s)
      | Some i \<Rightarrow>
          let r = sn_delayed_sends s ! i in
          if ds_state r \<noteq> SCXML_DELAYED_ACTIVE \<and>
             (ds_state r \<noteq> SCXML_DELAYED_CANCEL_RESERVED \<or> ds_previous r \<noteq> SCXML_DELAYED_ACTIVE)
          then (False, s)
          else if ds_state r = SCXML_DELAYED_CANCEL_RESERVED
          then (True, upd_delayed i (\<lambda>r. r\<lparr>ds_previous := SCXML_DELAYED_FREE\<rparr>) s)
          else (True, upd_delayed i (\<lambda>_. no_delayed_send) s))"

text \<open>
  The adapter is asked without the lock, so reports of completed sends may be processed
  during the call: \<open>during\<close> lists their ids.
\<close>

definition reports :: "cbytes list \<Rightarrow> scxml_session_impl \<Rightarrow> scxml_session_impl" where
  "reports during s = fold (\<lambda>ident t. snd (scxml_session_report_send_done ident t)) during s"

section \<open>Send\<close>

record send_descriptor =
  sd_block_error :: event_id
  sd_event :: event_id
  sd_id :: cbytes
  sd_delay_ms :: u64
  sd_internal :: bool
  sd_has_id_location :: bool
  sd_content :: event_content
  sd_payload_count :: nat

text \<open>
  Answers of the expression and location components: the id location is bound, the id is stored, and
  the named values of an internal send are written into a copy of the data root.
\<close>

record send_env =
  se_bound :: bool
  se_assign :: "string \<Rightarrow> bool"
  se_payload_ok :: bool
  se_state :: nat
  se_apply :: "nat \<Rightarrow> nat option"
  se_schema :: nat

type_synonym adapter_reply = "scxml_adapter_status \<times> adapter_ticket option"

definition generated_send_id :: "string \<Rightarrow> u64 \<Rightarrow> string" where
  "generated_send_id session token = ''send.'' @ session @ ''.'' @ dec_text (unat token)"

definition materialize_send_id_location ::
  "send_env \<Rightarrow> send_descriptor \<Rightarrow> scxml_session_impl \<Rightarrow> cbytes option \<times> scxml_session_impl" where
  "materialize_send_id_location env sd s =
     (if \<not> sd_has_id_location sd then (Some (sd_id sd), s)
      else if \<not> se_bound env then (None, s)
      else if sn_next_send_token s = 0 then (None, s)
      else let token = sn_next_send_token s; text = generated_send_id (sn_session_id s) token
      in if length text \<ge> SCXML_EVENT_METADATA_CAPACITY + 1 then (None, s)
         else let s1 = s\<lparr>sn_next_send_token := (if token = UINT64_MAX then 0 else token + 1)\<rparr>
         in if \<not> se_assign env text then (None, s1) else (Some (CBytes text), s1))"

text \<open>The named values of an internal send: a copy of the data root, with the assignments applied.\<close>

definition attach_named_payload ::
  "data_ops \<Rightarrow> send_env \<Rightarrow> nat \<Rightarrow> scxml_session_impl \<Rightarrow> bool \<times> scxml_session_impl" where
  "attach_named_payload d env i s =
     (if \<not> se_payload_ok env then (False, s)
      else case pn_root (sn_program s) of
        None \<Rightarrow> (False, s)
      | Some root \<Rightarrow>
          (case do_copy d root (se_state env) of
             None \<Rightarrow> (False, s)
           | Some copy \<Rightarrow>
               let s1 = upd_metadata i
                     (\<lambda>r. r\<lparr>mr_schema := Some root, mr_object_live := True, mr_object := copy\<rparr>)
                     (s\<lparr>sn_constructed := sn_constructed s + 1\<rparr>)
               in (case se_apply env copy of
                     None \<Rightarrow> (False, s1)
                   | Some obj \<Rightarrow>
                       (True, upd_metadata i
                          (\<lambda>r. r\<lparr>mr_object := obj, mr_schema := Some (se_schema env)\<rparr>) s1))))"

definition internal_payload ::
  "data_ops \<Rightarrow> send_env \<Rightarrow> send_descriptor \<Rightarrow> nat \<Rightarrow> scxml_session_impl \<Rightarrow> bool \<times> scxml_session_impl" where
  "internal_payload d env sd i s =
     (case (if ec_kind (sd_content sd) = SCXML_CONTENT_INVALID then (True, s)
            else scxml_analyze_attach_event_content d (sd_content sd) i s) of
        (False, s1) \<Rightarrow> (False, s1)
      | (True, s1) \<Rightarrow>
          if sd_payload_count sd = 0 then (True, s1) else attach_named_payload d env i s1)"

definition execute_internal_send ::
  "host_ops \<Rightarrow> data_ops \<Rightarrow> send_env \<Rightarrow> send_descriptor \<Rightarrow> scxml_session_impl
    \<Rightarrow> scxml_execute_outcome \<times> scxml_session_impl" where
  "execute_internal_send ops d env sd s =
     (if ec_kind (sd_content sd) = SCXML_CONTENT_INVALID \<and> sd_payload_count sd = 0
      then (case raise_internal ops (sd_event sd) 0 s of
              (True, s1) \<Rightarrow> (SCXML_EXECUTE_CONTINUE, s1)
            | (False, s1) \<Rightarrow> (SCXML_EXECUTE_FATAL, s1))
      else case scxml_runtime_reserve_event_metadata
                  ((failed_send_metadata (CNull 0))\<lparr>em_data := sd_content sd\<rparr>) s of
        (None, s1) \<Rightarrow> raise_block_execution_error ops (sd_block_error sd) s1
      | (Some (i, token), s1) \<Rightarrow>
          (case internal_payload d env sd i s1 of
             (False, s2) \<Rightarrow>
               raise_block_execution_error ops (sd_block_error sd) (scxml_runtime_release_event_metadata i s2)
           | (True, s2) \<Rightarrow>
               (case raise_with_slot ops (sd_event sd) i token s2 of
                  (True, s3) \<Rightarrow> (SCXML_EXECUTE_CONTINUE, s3)
                | (False, s3) \<Rightarrow> (SCXML_EXECUTE_FATAL, s3))))"

text \<open>
  The effect slot and, for a delayed send, the registry row, taken together under the lock; on failure
  the slot is given back.
\<close>

definition reserve_send ::
  "cbytes \<Rightarrow> u64 \<Rightarrow> bool \<Rightarrow> scxml_session_impl \<Rightarrow> (nat + scxml_adapter_error_kind) \<times> scxml_session_impl" where
  "reserve_send ident delay copy s =
     (case acquire_prepared_effect_locked s of
        (None, s1) \<Rightarrow> (Inr SCXML_ADAPTER_ERROR_KIND_COMMUNICATION, s1)
      | (Some e, s1) \<Rightarrow>
          if delay = 0 then (Inl e, upd_prepared e (\<lambda>p. p\<lparr>pe_kind := SCXML_PREPARED_SEND\<rparr>) s1)
          else (case reserve_delayed_send_locked ident copy s1 of
            (Reserved i, s2) \<Rightarrow>
              (Inl e, upd_prepared e
                 (\<lambda>p. p\<lparr>pe_kind := SCXML_PREPARED_DELAYED_SEND, pe_index := Some i\<rparr>) s2)
          | (Duplicate, s2) \<Rightarrow>
              (Inr SCXML_ADAPTER_ERROR_KIND_EXECUTION, upd_prepared e (\<lambda>p. p\<lparr>pe_in_use := False\<rparr>) s2)
          | (No_Room, s2) \<Rightarrow>
              (Inr SCXML_ADAPTER_ERROR_KIND_COMMUNICATION, upd_prepared e (\<lambda>p. p\<lparr>pe_in_use := False\<rparr>) s2)))"

text \<open>The adapter accepted the effect: keep its ticket and stage the Session's own.\<close>

definition stage_prepared ::
  "host_ops \<Rightarrow> nat \<Rightarrow> adapter_ticket \<Rightarrow> scxml_session_impl \<Rightarrow> scxml_execute_outcome \<times> scxml_session_impl" where
  "stage_prepared ops e t s =
     (case stage_effect ops (Staged_Prepared e) (upd_prepared e (\<lambda>p. p\<lparr>pe_ticket := Some t\<rparr>) s) of
        (True, s1) \<Rightarrow> (SCXML_EXECUTE_CONTINUE, s1)
      | (False, s1) \<Rightarrow> (SCXML_EXECUTE_FATAL, discard_prepared_effect e s1))"

definition execute_adapter_send ::
  "host_ops \<Rightarrow> cbytes \<Rightarrow> u64 \<Rightarrow> bool \<Rightarrow> cbytes list \<Rightarrow> adapter_reply \<Rightarrow> scxml_session_impl
    \<Rightarrow> scxml_execute_outcome \<times> scxml_session_impl" where
  "execute_adapter_send ops ident delay copy during reply s =
     (case reserve_send ident delay copy s of
        (Inr kind, s0) \<Rightarrow> raise_adapter_error ops kind s0
      | (Inl e, s0) \<Rightarrow>
          let s1 = reports during s0 in
          (case reply of (status, ticket) \<Rightarrow>
             if status \<noteq> SCXML_ADAPTER_ACCEPTED
             then send_failure_outcome ops ident copy status (rollback_prepared_effect_locked e s1)
             else (case ticket of
                     None \<Rightarrow> (SCXML_EXECUTE_FATAL, rollback_prepared_effect_locked e s1)
                   | Some t \<Rightarrow> stage_prepared ops e t s1)))"

definition execute_send ::
  "host_ops \<Rightarrow> data_ops \<Rightarrow> send_env \<Rightarrow> send_descriptor \<Rightarrow> cbytes list \<Rightarrow> adapter_reply
    \<Rightarrow> scxml_session_impl \<Rightarrow> scxml_execute_outcome \<times> scxml_session_impl" where
  "execute_send ops d env sd during reply s =
     (if ec_kind (sd_content sd) \<noteq> SCXML_CONTENT_INVALID \<and> sd_internal sd \<and> sd_delay_ms sd \<noteq> 0
      then raise_block_execution_error ops (sd_block_error sd) s
      else case materialize_send_id_location env sd s of
        (None, s1) \<Rightarrow> raise_block_execution_error ops (sd_block_error sd) s1
      | (Some ident, s1) \<Rightarrow>
          if sd_internal sd \<and> sd_delay_ms sd = 0 then execute_internal_send ops d env sd s1
          else if \<not> sn_has_event_io s1 then (SCXML_EXECUTE_FATAL, s1)
          else execute_adapter_send ops ident (sd_delay_ms sd) (sd_has_id_location sd) during reply s1)"

section \<open>Cancel\<close>

definition execute_cancel ::
  "host_ops \<Rightarrow> cbytes \<Rightarrow> cbytes list \<Rightarrow> adapter_reply \<Rightarrow> scxml_session_impl
    \<Rightarrow> scxml_execute_outcome \<times> scxml_session_impl" where
  "execute_cancel ops ident during reply s =
     (if \<not> sn_has_event_io s then (SCXML_EXECUTE_FATAL, s)
      else case scxml_runtime_find_delayed_send_locked ident s of
        None \<Rightarrow> (SCXML_EXECUTE_CONTINUE, s)
      | Some i \<Rightarrow>
          (case acquire_prepared_effect_locked s of
             (None, s1) \<Rightarrow> raise_adapter_error ops SCXML_ADAPTER_ERROR_KIND_COMMUNICATION s1
           | (Some e, s1) \<Rightarrow>
               let s2 = upd_prepared e (\<lambda>p. p\<lparr>pe_kind := SCXML_PREPARED_CANCEL, pe_index := Some i\<rparr>) s1;
                   s3 = reports during (upd_delayed i
                          (\<lambda>r. r\<lparr>ds_previous := ds_state r, ds_state := SCXML_DELAYED_CANCEL_RESERVED\<rparr>) s2)
               in (case reply of (status, ticket) \<Rightarrow>
                     if status \<noteq> SCXML_ADAPTER_ACCEPTED
                     then adapter_failure_outcome ops status (rollback_prepared_effect_locked e s3)
                     else (case ticket of
                             None \<Rightarrow> (SCXML_EXECUTE_FATAL, rollback_prepared_effect_locked e s3)
                           | Some t \<Rightarrow> stage_prepared ops e t s3))))"

section \<open>A transaction\<close>

text \<open>One call of a transaction that concerns the registry, or a report between two of them.\<close>

datatype registry_op =
    Do_Send cbytes u64 bool "cbytes list" adapter_reply
  | Do_Cancel cbytes "cbytes list" adapter_reply
  | Do_Report cbytes

fun registry_step ::
  "host_ops \<Rightarrow> registry_op \<Rightarrow> scxml_session_impl \<Rightarrow> scxml_execute_outcome \<times> scxml_session_impl" where
  "registry_step ops (Do_Send ident delay copy during reply) s =
     execute_adapter_send ops ident delay copy during reply s"
| "registry_step ops (Do_Cancel ident during reply) s = execute_cancel ops ident during reply s"
| "registry_step ops (Do_Report ident) s =
     (SCXML_EXECUTE_CONTINUE, snd (scxml_session_report_send_done ident s))"

definition registry_run :: "host_ops \<Rightarrow> registry_op list \<Rightarrow> scxml_session_impl \<Rightarrow> scxml_session_impl" where
  "registry_run ops w s = fold (\<lambda>op t. snd (registry_step ops op t)) w s"

text \<open>
  The library resolves the kept tickets of a transaction when its microstep ends: all are committed, or
  all are discarded. Reports may be processed between two of them.
\<close>

definition resolve_ticket :: "bool \<Rightarrow> staged_ticket \<Rightarrow> scxml_session_impl \<Rightarrow> scxml_session_impl" where
  "resolve_ticket c t s =
     (case t of
        Staged_Prepared e \<Rightarrow> if c then commit_prepared_effect e s else discard_prepared_effect e s
      | Staged_Metadata i \<Rightarrow> if c then s else scxml_runtime_release_event_metadata i s
      | _ \<Rightarrow> s)"

definition resolve_all ::
  "bool \<Rightarrow> (staged_ticket \<Rightarrow> cbytes list) \<Rightarrow> scxml_session_impl \<Rightarrow> scxml_session_impl" where
  "resolve_all c during s =
     (fold (\<lambda>t u. resolve_ticket c t (reports (during t) u)) (sn_staged s) s)\<lparr>sn_staged := []\<rparr>"

definition registry_transaction ::
  "host_ops \<Rightarrow> registry_op list \<Rightarrow> bool \<Rightarrow> (staged_ticket \<Rightarrow> cbytes list) \<Rightarrow> scxml_session_impl
    \<Rightarrow> scxml_session_impl" where
  "registry_transaction ops w c during s = resolve_all c during (registry_run ops w s)"

end
