(* ===== verification/Session_Invocation.thy ===== *)
theory Session_Invocation
  imports Session_Registry
begin

text \<open>
  Invoked services of a Session (\<^verbatim>\<open>src/scxml_runtime.c\<close>, \<^verbatim>\<open>src/scxml_session.c\<close>): a row per
  \<^verbatim>\<open><invoke>\<close> of the program, and the effects that enter, start, fail, complete, forward to
  and exit it when a transaction commits.

  \<open>invoke_ops\<close> holds the answers of the invoke adapter and of what is not modelled: whether a state is
  active in the library's configuration, the evaluated type, source and payload of an invocation (None when an
  evaluation fails), the assignment of its id location (stored, and put back after a failure), and the
  success of its \<^verbatim>\<open><finalize>\<close> block. Diagnostic texts are left out, and so are states that the
  library fails to hand out.
\<close>

record invoke_start_request =
  vr_token :: u64
  vr_id :: string
  vr_type :: string
  vr_src :: string
  vr_autoforward :: bool
  vr_payload :: scxml_payload_view

record invoke_ops =
  vo_host :: host_ops
  vo_start :: "invoke_start_request \<Rightarrow> adapter_reply"
  vo_cancel :: "u64 \<Rightarrow> string \<Rightarrow> adapter_reply"
  vo_forward :: "u64 \<Rightarrow> string \<Rightarrow> event_id \<Rightarrow> adapter_reply"
  vo_internal :: "event_id \<Rightarrow> cflow_mailbox_status"
  vo_active :: "state_id \<Rightarrow> bool"
  vo_values :: "nat \<Rightarrow> (string \<times> string \<times> scxml_payload_view) option"
  vo_location :: "nat \<Rightarrow> string \<Rightarrow> bool \<times> bool"
  vo_finalize :: "nat \<Rightarrow> bool"

section \<open>Effects\<close>

definition upd_row ::
  "nat \<Rightarrow> (scxml_invocation_row \<Rightarrow> scxml_invocation_row) \<Rightarrow> scxml_session_impl \<Rightarrow> scxml_session_impl" where
  "upd_row i f s = s\<lparr>sn_invocation_rows := (sn_invocation_rows s)[i := f (sn_invocation_rows s ! i)]\<rparr>"

definition upd_effect ::
  "nat \<Rightarrow> (scxml_invocation_effect \<Rightarrow> scxml_invocation_effect) \<Rightarrow> scxml_session_impl \<Rightarrow> scxml_session_impl" where
  "upd_effect e f s = s\<lparr>sn_invocation_effects := (sn_invocation_effects s)[e := f (sn_invocation_effects s ! e)]\<rparr>"

definition acquire_invocation_effect_locked :: "scxml_session_impl \<Rightarrow> nat option \<times> scxml_session_impl" where
  "acquire_invocation_effect_locked s =
     (case first_index (\<lambda>e. \<not> ie_in_use e) (sn_invocation_effects s) of
        None \<Rightarrow> (None, s)
      | Some e \<Rightarrow> (Some e, upd_effect e (\<lambda>_. no_invocation_effect\<lparr>ie_in_use := True\<rparr>) s))"

definition report_invocation_adapter_error ::
  "invoke_ops \<Rightarrow> scxml_adapter_status \<Rightarrow> scxml_session_impl \<Rightarrow> cflow_mailbox_status \<times> scxml_session_impl" where
  "report_invocation_adapter_error ops status s =
     (let event = (if status = SCXML_ADAPTER_ERROR_EXECUTION \<or> status = SCXML_ADAPTER_INVALID_CONTRACT
                   then pn_execution_error (sn_program s) else pn_communication_error (sn_program s));
          admission = (if event \<noteq> 0 then vo_internal ops event else CFLOW_MAILBOX_INVALID_ARGUMENT)
      in (admission,
          if admission = CFLOW_MAILBOX_OK then s\<lparr>sn_adapter_events := sn_adapter_events s @ [event]\<rparr>
          else upd_stats (\<lambda>st. st\<lparr>is_adapter_error_rejected :=
                 scxml_runtime_increment_u64 (is_adapter_error_rejected st)\<rparr>) s))"

text \<open>One active invocation less; the counter does not pass below 0.\<close>

definition one_inactive :: "scxml_invoke_stats \<Rightarrow> scxml_invoke_stats" where
  "one_inactive st = (if is_active st \<noteq> 0 then st\<lparr>is_active := is_active st - 1\<rparr> else st)"

text \<open>What is left to do after the lock is released.\<close>

datatype invocation_action =
    Nothing_More | Commit_Ticket | Discard_Ticket | Cancel_Service u64 string

definition commit_invocation_locked ::
  "scxml_invocation_effect \<Rightarrow> scxml_session_impl \<Rightarrow> invocation_action \<times> scxml_session_impl" where
  "commit_invocation_locked ef s =
     (let i = ie_invocation ef; row = sn_invocation_rows s ! i in
      if i \<ge> length (sn_invocation_rows s)
      then (if ie_kind ef = SCXML_INVOCATION_EFFECT_START then Discard_Ticket else Nothing_More, s)
      else case ie_kind ef of
        SCXML_INVOCATION_EFFECT_ENTER \<Rightarrow>
          (Nothing_More, upd_row i (\<lambda>_. invocation_row SCXML_INVOCATION_PENDING) s)
      | SCXML_INVOCATION_EFFECT_EXIT \<Rightarrow>
          (if ir_state row = SCXML_INVOCATION_ACTIVE
           then (if ir_token row \<noteq> 0 then Cancel_Service (ir_token row) (ir_id row) else Nothing_More,
                 upd_row i (\<lambda>_. invocation_row SCXML_INVOCATION_INACTIVE) (upd_stats one_inactive s))
           else (Nothing_More, upd_row i (\<lambda>_. invocation_row SCXML_INVOCATION_INACTIVE) s))
      | SCXML_INVOCATION_EFFECT_START \<Rightarrow>
          (if ir_state row = SCXML_INVOCATION_START_RESERVED \<and> ir_token row = ie_token ef
           then (Commit_Ticket,
                 upd_row i (\<lambda>r. r\<lparr>ir_state := SCXML_INVOCATION_ACTIVE\<rparr>)
                   (upd_stats (\<lambda>st. st\<lparr>is_started := scxml_runtime_increment_u64 (is_started st),
                                      is_active := is_active st + 1\<rparr>) s))
           else (Discard_Ticket, s))
      | SCXML_INVOCATION_EFFECT_FAIL \<Rightarrow>
          (Nothing_More,
           if ir_state row = SCXML_INVOCATION_FAIL_RESERVED \<and> ir_token row = ie_token ef
           then upd_row i (\<lambda>r. r\<lparr>ir_state := SCXML_INVOCATION_FAILED\<rparr>)
                  (upd_stats (\<lambda>st. st\<lparr>is_start_failed := scxml_runtime_increment_u64 (is_start_failed st)\<rparr>) s)
           else s)
      | SCXML_INVOCATION_EFFECT_COMPLETE \<Rightarrow>
          (Nothing_More,
           if ir_state row = SCXML_INVOCATION_ACTIVE \<and> ir_token row = ie_token ef
           then upd_row i (\<lambda>_. invocation_row SCXML_INVOCATION_INACTIVE)
                  (upd_stats (\<lambda>st. (one_inactive st)
                     \<lparr>is_completed := scxml_runtime_increment_u64 (is_completed st)\<rparr>) s)
           else s)
      | SCXML_INVOCATION_EFFECT_FORWARD \<Rightarrow>
          (Commit_Ticket,
           upd_stats (\<lambda>st. st\<lparr>is_forwarded := scxml_runtime_increment_u64 (is_forwarded st)\<rparr>) s)
      | SCXML_INVOCATION_EFFECT_NONE \<Rightarrow> (Nothing_More, s))"

definition commit_invocation_lifecycle :: "nat \<Rightarrow> scxml_session_impl \<Rightarrow> scxml_session_impl" where
  "commit_invocation_lifecycle e s =
     (let ef = sn_invocation_effects s ! e in
      if \<not> ie_in_use ef then s
      else if ie_invocation ef \<ge> length (sn_invocations s) then s
      else case commit_invocation_locked ef s of (action, s1) \<Rightarrow>
        let s2 = upd_effect e (\<lambda>x. x\<lparr>ie_in_use := False\<rparr>) s1 in
        case action of
          Commit_Ticket \<Rightarrow> call_ticket True (ie_ticket ef) s2
        | Discard_Ticket \<Rightarrow> call_ticket False (ie_ticket ef) s2
        | Cancel_Service token ident \<Rightarrow> s2\<lparr>sn_unfinished := Some (Prepare_Cancel token ident)\<rparr>
        | Nothing_More \<Rightarrow> s2)"

text \<open>
  The rest of the exit of an active service. The lock was released: the adapter is asked to cancel,
  the answer is counted under the lock again, and a failure is reported after that. Other threads find
  the Session between these sections.
\<close>

definition finish_invocation_exit :: "invoke_ops \<Rightarrow> scxml_session_impl \<Rightarrow> scxml_session_impl" where
  "finish_invocation_exit ops s =
     (case sn_unfinished s of
        None \<Rightarrow> s
      | Some (Prepare_Cancel token ident) \<Rightarrow>
          (case vo_cancel ops token ident of (status, ticket) \<Rightarrow>
             if status \<noteq> SCXML_ADAPTER_ACCEPTED \<or> ticket = None
             then upd_stats (\<lambda>st. st\<lparr>is_cancel_failed := scxml_runtime_increment_u64 (is_cancel_failed st)\<rparr>)
                    (s\<lparr>sn_unfinished := Some (Report_Failure
                        (if status = SCXML_ADAPTER_ACCEPTED then SCXML_ADAPTER_INVALID_CONTRACT else status))\<rparr>)
             else call_ticket True ticket
                    (upd_stats (\<lambda>st. st\<lparr>is_cancelled := scxml_runtime_increment_u64 (is_cancelled st)\<rparr>)
                      (s\<lparr>sn_unfinished := None\<rparr>)))
      | Some (Report_Failure status) \<Rightarrow>
          snd (report_invocation_adapter_error ops status (s\<lparr>sn_unfinished := None\<rparr>)))"

definition discard_invocation_lifecycle :: "nat \<Rightarrow> scxml_session_impl \<Rightarrow> scxml_session_impl" where
  "discard_invocation_lifecycle e s =
     (let ef = sn_invocation_effects s ! e; i = ie_invocation ef in
      if \<not> ie_in_use ef then s
      else
        let bound = (i < length (sn_invocation_rows s) \<and>
              (ie_kind ef = SCXML_INVOCATION_EFFECT_START \<or> ie_kind ef = SCXML_INVOCATION_EFFECT_FAIL));
            reserved = (if ie_kind ef = SCXML_INVOCATION_EFFECT_START
                        then SCXML_INVOCATION_START_RESERVED else SCXML_INVOCATION_FAIL_RESERVED);
            row = sn_invocation_rows s ! i;
            s1 = (if bound \<and> ir_state row = reserved \<and> ir_token row = ie_token ef
                  then upd_row i (\<lambda>_. invocation_row SCXML_INVOCATION_PENDING) s else s);
            s2 = upd_effect e (\<lambda>x. x\<lparr>ie_in_use := False\<rparr>) s1
        in if bound \<and> ie_kind ef = SCXML_INVOCATION_EFFECT_START \<or>
              ie_kind ef = SCXML_INVOCATION_EFFECT_FORWARD
           then call_ticket False (ie_ticket ef) s2 else s2)"

text \<open>Stage the ticket of an effect whose slot has been filled; give the effect up when it is refused.\<close>

definition stage_invocation :: "invoke_ops \<Rightarrow> nat \<Rightarrow> scxml_session_impl \<Rightarrow> bool \<times> scxml_session_impl" where
  "stage_invocation ops e s =
     (case stage_effect (vo_host ops) (Staged_Invocation e) s of
        (True, s1) \<Rightarrow> (True, s1)
      | (False, s1) \<Rightarrow> (False, discard_invocation_lifecycle e s1))"

definition execute_invocation_lifecycle ::
  "invoke_ops \<Rightarrow> bool \<Rightarrow> nat \<Rightarrow> scxml_session_impl \<Rightarrow> scxml_execute_outcome \<times> scxml_session_impl" where
  "execute_invocation_lifecycle ops enter i s =
     (if \<not> sn_has_invoke s \<or> i \<ge> length (sn_invocations s) \<or> i \<ge> length (sn_invocation_rows s)
      then (SCXML_EXECUTE_FATAL, s)
      else case acquire_invocation_effect_locked s of
        (None, s1) \<Rightarrow> (SCXML_EXECUTE_FATAL, s1)
      | (Some e, s1) \<Rightarrow>
          (case stage_invocation ops e
                  (upd_effect e (\<lambda>x. x\<lparr>ie_invocation := i,
                     ie_kind := (if enter then SCXML_INVOCATION_EFFECT_ENTER
                                 else SCXML_INVOCATION_EFFECT_EXIT)\<rparr>) s1) of
             (True, s2) \<Rightarrow> (SCXML_EXECUTE_CONTINUE, s2)
           | (False, s2) \<Rightarrow> (SCXML_EXECUTE_FATAL, s2)))"

definition enqueue_invocation_adapter_error ::
  "invoke_ops \<Rightarrow> scxml_adapter_status \<Rightarrow> scxml_session_impl \<Rightarrow> bool \<times> scxml_session_impl" where
  "enqueue_invocation_adapter_error ops status s =
     (let event = (if status = SCXML_ADAPTER_ERROR_EXECUTION
                   then pn_execution_error (sn_program s) else pn_communication_error (sn_program s));
          rejected = upd_stats (\<lambda>st. st\<lparr>is_adapter_error_rejected :=
                       scxml_runtime_increment_u64 (is_adapter_error_rejected st)\<rparr>)
      in if event = 0 then (False, rejected s)
         else case raise_internal (vo_host ops) event 0 s of
           (True, s1) \<Rightarrow> (True, s1)
         | (False, s1) \<Rightarrow> (False, rejected s1))"

section \<open>Starting\<close>

definition stage_invocation_result ::
  "invoke_ops \<Rightarrow> nat \<Rightarrow> u64 \<Rightarrow> string \<Rightarrow> bool \<Rightarrow> scxml_invocation_effect_kind \<Rightarrow> adapter_ticket option
    \<Rightarrow> scxml_session_impl \<Rightarrow> bool \<times> scxml_session_impl" where
  "stage_invocation_result ops i token ident own kind ticket s =
     (let give_up = (\<lambda>u. (False, if kind = SCXML_INVOCATION_EFFECT_START
                                 then call_ticket False ticket u else u)) in
      if i \<ge> length (sn_invocation_rows s) \<or> token = 0 \<or>
         own \<and> length ident > SCXML_EVENT_METADATA_CAPACITY \<or>
         kind \<noteq> SCXML_INVOCATION_EFFECT_START \<and> kind \<noteq> SCXML_INVOCATION_EFFECT_FAIL
      then give_up s
      else case (if ir_state (sn_invocation_rows s ! i) = SCXML_INVOCATION_PENDING
                 then acquire_invocation_effect_locked s else (None, s)) of
        (None, s1) \<Rightarrow> give_up s1
      | (Some e, s1) \<Rightarrow>
          stage_invocation ops e
            (upd_effect e (\<lambda>x. x\<lparr>ie_invocation := i, ie_token := token, ie_kind := kind, ie_ticket := ticket\<rparr>)
               (upd_row i (\<lambda>_. \<lparr>ir_token = token, ir_id = ident, ir_owns_id = own,
                  ir_state = (if kind = SCXML_INVOCATION_EFFECT_START then SCXML_INVOCATION_START_RESERVED
                              else SCXML_INVOCATION_FAIL_RESERVED)\<rparr>) s1)))"

datatype host_result = CFLOW_STATECHART_HOST_CONTINUE | CFLOW_STATECHART_HOST_DROP | CFLOW_STATECHART_HOST_FATAL

text \<open>The start failed: mark the row and raise the error.\<close>

definition stage_start_failure ::
  "invoke_ops \<Rightarrow> nat \<Rightarrow> u64 \<Rightarrow> string \<Rightarrow> bool \<Rightarrow> scxml_adapter_status \<Rightarrow> scxml_session_impl
    \<Rightarrow> bool \<times> scxml_session_impl" where
  "stage_start_failure ops i token ident own status s =
     (case stage_invocation_result ops i token ident own SCXML_INVOCATION_EFFECT_FAIL None s of
        (False, s1) \<Rightarrow> (False, s1)
      | (True, s1) \<Rightarrow> enqueue_invocation_adapter_error ops status s1)"

definition generated_invoke_id :: "scxml_invocation_descriptor \<Rightarrow> u64 \<Rightarrow> string" where
  "generated_invoke_id iv token = take (iv_owner_id_size iv) (iv_id iv) @ ''.'' @ dec_text (unat token)"

text \<open>The evaluated request is put to the adapter, and its answer staged.\<close>

definition start_with_id ::
  "invoke_ops \<Rightarrow> nat \<Rightarrow> u64 \<Rightarrow> string \<Rightarrow> scxml_session_impl \<Rightarrow> bool \<times> scxml_session_impl" where
  "start_with_id ops i token ident s =
     (let iv = sn_invocations s ! i; own = iv_has_id_location iv in
      case vo_values ops i of
        None \<Rightarrow> stage_start_failure ops i token ident own SCXML_ADAPTER_ERROR_EXECUTION s
      | Some (ty, src, payload) \<Rightarrow>
          (case vo_start ops \<lparr>vr_token = token, vr_id = ident, vr_type = ty, vr_src = src,
                   vr_autoforward = iv_autoforward iv, vr_payload = payload\<rparr> of
             (status, ticket) \<Rightarrow>
               if status = SCXML_ADAPTER_ACCEPTED \<and> ticket \<noteq> None
               then stage_invocation_result ops i token ident own SCXML_INVOCATION_EFFECT_START ticket s
               else if status = SCXML_ADAPTER_INVALID_CONTRACT \<or> status = SCXML_ADAPTER_ACCEPTED
               then (False, s)
               else stage_start_failure ops i token ident own status s))"

definition start_pending_invocation ::
  "invoke_ops \<Rightarrow> nat \<Rightarrow> scxml_session_impl \<Rightarrow> bool \<times> scxml_session_impl" where
  "start_pending_invocation ops i s =
     (if ir_state (sn_invocation_rows s ! i) \<noteq> SCXML_INVOCATION_PENDING then (True, s)
      else if \<not> vo_active ops (iv_owner (sn_invocations s ! i)) then (True, s)
      else
        let token = sn_next_invocation_token s; iv = sn_invocations s ! i;
            s1 = s\<lparr>sn_next_invocation_token :=
                   (if token = 0 then 0 else if token = UINT64_MAX then 0 else token + 1)\<rparr>
        in if token = 0 then (False, s1)
           else if \<not> iv_has_id_location iv then start_with_id ops i token (iv_id iv) s1
           else let ident = generated_invoke_id iv token in
             if length ident \<ge> SCXML_EVENT_METADATA_CAPACITY + 1 \<or> length ident > iv_dynamic_id_max_size iv
             then (False, s1)
             else (case vo_location ops i ident of
                     (True, restored) \<Rightarrow> start_with_id ops i token ident s1
                   | (False, False) \<Rightarrow> (False, s1)
                   | (False, True) \<Rightarrow>
                       stage_start_failure ops i token '''' True SCXML_ADAPTER_ERROR_EXECUTION s1))"

text \<open>A loop over the invocations of the program that stops at the first fatal one.\<close>

fun each_invocation ::
  "(nat \<Rightarrow> scxml_session_impl \<Rightarrow> bool \<times> scxml_session_impl) \<Rightarrow> nat list \<Rightarrow> scxml_session_impl
    \<Rightarrow> bool \<times> scxml_session_impl" where
  "each_invocation body [] s = (True, s)"
| "each_invocation body (i # xs) s =
     (case body i s of (False, s1) \<Rightarrow> (False, s1) | (True, s1) \<Rightarrow> each_invocation body xs s1)"

definition continue_or_fatal :: "bool \<times> scxml_session_impl \<Rightarrow> host_result \<times> scxml_session_impl" where
  "continue_or_fatal r =
     (if fst r then CFLOW_STATECHART_HOST_CONTINUE else CFLOW_STATECHART_HOST_FATAL, snd r)"

definition scxml_runtime_start_pending_invocations ::
  "invoke_ops \<Rightarrow> scxml_session_impl \<Rightarrow> host_result \<times> scxml_session_impl" where
  "scxml_runtime_start_pending_invocations ops s =
     continue_or_fatal (each_invocation (start_pending_invocation ops) [0..<length (sn_invocations s)] s)"

definition has_pending_active_invocation :: "invoke_ops \<Rightarrow> scxml_session_impl \<Rightarrow> bool" where
  "has_pending_active_invocation ops s =
     list_ex (\<lambda>i. ir_state (sn_invocation_rows s ! i) = SCXML_INVOCATION_PENDING \<and>
                  vo_active ops (iv_owner (sn_invocations s ! i))) [0..<length (sn_invocations s)]"

definition prepare_invocation_quiescence ::
  "invoke_ops \<Rightarrow> scxml_session_impl \<Rightarrow> host_result \<times> scxml_session_impl" where
  "prepare_invocation_quiescence ops s =
     (if \<not> has_pending_active_invocation ops s then (CFLOW_STATECHART_HOST_CONTINUE, s)
      else scxml_runtime_start_pending_invocations ops s)"

section \<open>Completion and forwarding\<close>

definition stage_invocation_completion ::
  "invoke_ops \<Rightarrow> nat \<Rightarrow> u64 \<Rightarrow> scxml_session_impl \<Rightarrow> bool \<times> scxml_session_impl" where
  "stage_invocation_completion ops i token s =
     (if i \<ge> length (sn_invocation_rows s) \<or> token = 0 then (False, s)
      else case acquire_invocation_effect_locked s of
        (None, s1) \<Rightarrow> (False, s1)
      | (Some e, s1) \<Rightarrow>
          stage_invocation ops e
            (upd_effect e (\<lambda>x. x\<lparr>ie_invocation := i, ie_token := token,
               ie_kind := SCXML_INVOCATION_EFFECT_COMPLETE\<rparr>) s1))"

definition stage_invocation_forward ::
  "invoke_ops \<Rightarrow> nat \<Rightarrow> adapter_ticket option \<Rightarrow> scxml_session_impl \<Rightarrow> bool \<times> scxml_session_impl" where
  "stage_invocation_forward ops i ticket s =
     (if i \<ge> length (sn_invocation_rows s) \<or> ticket = None then (False, call_ticket False ticket s)
      else case acquire_invocation_effect_locked s of
        (None, s1) \<Rightarrow> (False, call_ticket False ticket s1)
      | (Some e, s1) \<Rightarrow>
          stage_invocation ops e
            (upd_effect e (\<lambda>x. x\<lparr>ie_invocation := i, ie_kind := SCXML_INVOCATION_EFFECT_FORWARD,
               ie_ticket := ticket\<rparr>) s1))"

definition forward_to_invocation ::
  "invoke_ops \<Rightarrow> event_id \<Rightarrow> nat option \<Rightarrow> nat \<Rightarrow> scxml_session_impl \<Rightarrow> bool \<times> scxml_session_impl" where
  "forward_to_invocation ops event skipped i s =
     (let row = sn_invocation_rows s ! i in
      if \<not> iv_autoforward (sn_invocations s ! i) \<or> skipped = Some i then (True, s)
      else if ir_state row \<noteq> SCXML_INVOCATION_ACTIVE \<or> ir_token row = 0 then (True, s)
      else case vo_forward ops (ir_token row) (ir_id row) event of (status, ticket) \<Rightarrow>
        if status = SCXML_ADAPTER_ACCEPTED \<and> ticket \<noteq> None
        then stage_invocation_forward ops i ticket s
        else
          let s1 = upd_stats (\<lambda>st. st\<lparr>is_forward_failed :=
                     scxml_runtime_increment_u64 (is_forward_failed st)\<rparr>) s
          in if status = SCXML_ADAPTER_INVALID_CONTRACT \<or> status = SCXML_ADAPTER_ACCEPTED
             then (False, s1)
             else enqueue_invocation_adapter_error ops status s1)"

definition forward_external_to_invocations ::
  "invoke_ops \<Rightarrow> event_id \<Rightarrow> nat option \<Rightarrow> scxml_session_impl \<Rightarrow> bool \<times> scxml_session_impl" where
  "forward_external_to_invocations ops event skipped s =
     each_invocation (forward_to_invocation ops event skipped) [0..<length (sn_invocations s)] s"

text \<open>The invocation a token belongs to, among those of the program.\<close>

definition active_invocation :: "u64 \<Rightarrow> scxml_session_impl \<Rightarrow> nat option" where
  "active_invocation token s =
     first_index (live_invocation token) (take (length (sn_invocations s)) (sn_invocation_rows s))"

definition preprocess_invocation_external ::
  "invoke_ops \<Rightarrow> event_id \<Rightarrow> u64 \<Rightarrow> scxml_session_impl \<Rightarrow> host_result \<times> scxml_session_impl" where
  "preprocess_invocation_external ops event token s =
     (let forward = (\<lambda>skipped u. continue_or_fatal (forward_external_to_invocations ops event skipped u)) in
      if token = 0 \<or> metadata_token_bit token then forward None s
      else case active_invocation token s of
        None \<Rightarrow>
          (CFLOW_STATECHART_HOST_DROP,
           upd_stats (\<lambda>st. st\<lparr>is_returned_rejected := scxml_runtime_increment_u64 (is_returned_rejected st)\<rparr>) s)
      | Some i \<Rightarrow>
          if \<not> vo_finalize ops i then (CFLOW_STATECHART_HOST_FATAL, s)
          else if event = iv_done_event (sn_invocations s ! i)
          then (case stage_invocation_completion ops i token s of
                  (False, s1) \<Rightarrow> (CFLOW_STATECHART_HOST_FATAL, s1)
                | (True, s1) \<Rightarrow> forward (Some i) s1)
          else forward None s)"

section \<open>The host transaction\<close>

datatype host_phase =
    CFLOW_STATECHART_HOST_PREPARE_TRIGGER "observed_event option"
  | CFLOW_STATECHART_HOST_PREPARE_QUIESCENCE
  | CFLOW_STATECHART_HOST_PHASE_OTHER nat

definition scxml_runtime_host_transaction ::
  "invoke_ops \<Rightarrow> data_ops \<Rightarrow> host_phase \<Rightarrow> scxml_session_impl \<Rightarrow> host_result \<times> scxml_session_impl" where
  "scxml_runtime_host_transaction ops d phase s =
     (case phase of
        CFLOW_STATECHART_HOST_PREPARE_TRIGGER None \<Rightarrow> (CFLOW_STATECHART_HOST_FATAL, s)
      | CFLOW_STATECHART_HOST_PREPARE_TRIGGER (Some ob) \<Rightarrow>
          (case scxml_runtime_observe_event d ob s of
             (False, s1) \<Rightarrow> (CFLOW_STATECHART_HOST_FATAL, s1)
           | (True, s1) \<Rightarrow>
               if sn_has_invoke s1 \<and> ob_kind ob = CFLOW_STATECHART_OBSERVED_EXTERNAL
               then (case ob_event ob of
                       None \<Rightarrow> (CFLOW_STATECHART_HOST_FATAL, s1)
                     | Some event \<Rightarrow> preprocess_invocation_external ops event (ob_token ob) s1)
               else (CFLOW_STATECHART_HOST_CONTINUE, s1))
      | CFLOW_STATECHART_HOST_PREPARE_QUIESCENCE \<Rightarrow>
          (if sn_has_invoke s then prepare_invocation_quiescence ops s
           else (CFLOW_STATECHART_HOST_CONTINUE, s))
      | CFLOW_STATECHART_HOST_PHASE_OTHER n \<Rightarrow> (CFLOW_STATECHART_HOST_FATAL, s))"

section \<open>Reports of invoked services\<close>

definition count_returned ::
  "cflow_mailbox_status \<times> scxml_session_impl \<Rightarrow> cflow_mailbox_status \<times> scxml_session_impl" where
  "count_returned r =
     (fst r,
      upd_stats (\<lambda>st. if fst r = CFLOW_MAILBOX_OK
         then st\<lparr>is_returned_accepted := scxml_runtime_increment_u64 (is_returned_accepted st)\<rparr>
         else st\<lparr>is_returned_rejected := scxml_runtime_increment_u64 (is_returned_rejected st)\<rparr>) (snd r))"

definition scxml_session_report_invoke_event ::
  "host_ops \<Rightarrow> u64 \<Rightarrow> event_id \<Rightarrow> scxml_session_impl \<Rightarrow> cflow_mailbox_status \<times> scxml_session_impl" where
  "scxml_session_report_invoke_event ops token event s =
     (if \<not> sn_has_invoke s \<or> token = 0 then (CFLOW_MAILBOX_INVALID_ARGUMENT, s)
      else if active_invocation token s = None then count_returned (CFLOW_MAILBOX_INVALID_ARGUMENT, s)
      else count_returned (post_external ops event token s))"

definition scxml_session_report_invoke_done ::
  "host_ops \<Rightarrow> u64 \<Rightarrow> scxml_session_impl \<Rightarrow> cflow_mailbox_status \<times> scxml_session_impl" where
  "scxml_session_report_invoke_done ops token s =
     (if \<not> sn_has_invoke s \<or> token = 0 then (CFLOW_MAILBOX_INVALID_ARGUMENT, s)
      else
        let event = (case active_invocation token s of
                       None \<Rightarrow> 0 | Some i \<Rightarrow> iv_done_event (sn_invocations s ! i))
        in if event = 0 then count_returned (CFLOW_MAILBOX_INVALID_ARGUMENT, s)
           else count_returned (post_external ops event token s))"

section \<open>The end of a transaction\<close>

definition resolve_session_ticket ::
  "bool \<Rightarrow> staged_ticket \<Rightarrow> scxml_session_impl \<Rightarrow> scxml_session_impl" where
  "resolve_session_ticket c t s =
     (case t of
        Staged_Invocation e \<Rightarrow>
          if c then commit_invocation_lifecycle e s else discard_invocation_lifecycle e s
      | _ \<Rightarrow> resolve_ticket c t s)"

end
