(* ===== verification/Session_Registry_Inv.thy ===== *)
theory Session_Registry_Inv
  imports Session_Registry
begin

text \<open>
  The invariant of the delayed-send registry: each row agrees with the effects that wait on it, and
  every transaction leaves the rows free or active.
\<close>

section \<open>Rows and the effects waiting on them\<close>

definition waits :: "scxml_prepared_kind \<Rightarrow> nat \<Rightarrow> scxml_prepared_effect \<Rightarrow> bool" where
  "waits k i e \<longleftrightarrow> pe_in_use e \<and> pe_kind e = k \<and> pe_index e = Some i"

definition waiting :: "scxml_prepared_kind \<Rightarrow> nat \<Rightarrow> scxml_session_impl \<Rightarrow> nat" where
  "waiting k i s = count_if (waits k i) (sn_prepared_effects s)"

abbreviation sends_on :: "nat \<Rightarrow> scxml_session_impl \<Rightarrow> nat" where
  "sends_on \<equiv> waiting SCXML_PREPARED_DELAYED_SEND"

abbreviation cancels_on :: "nat \<Rightarrow> scxml_session_impl \<Rightarrow> nat" where
  "cancels_on \<equiv> waiting SCXML_PREPARED_CANCEL"

text \<open>A row with \<open>d\<close> uncommitted sends and \<open>n\<close> uncommitted cancels.\<close>

definition row_fits :: "nat \<Rightarrow> nat \<Rightarrow> scxml_delayed_send \<Rightarrow> bool" where
  "row_fits d n r \<longleftrightarrow>
     (case ds_state r of
        SCXML_DELAYED_FREE \<Rightarrow> r = no_delayed_send
      | SCXML_DELAYED_RESERVED \<Rightarrow> d = 1 \<and> n = 0 \<and> ds_previous r = SCXML_DELAYED_FREE
      | SCXML_DELAYED_ACTIVE \<Rightarrow> d = 0 \<and> n = 0 \<and> ds_previous r = SCXML_DELAYED_FREE
      | SCXML_DELAYED_CANCEL_RESERVED \<Rightarrow>
          (case ds_previous r of
             SCXML_DELAYED_RESERVED \<Rightarrow> d = 1 \<and> n = 1
           | SCXML_DELAYED_ACTIVE \<Rightarrow> d = 0 \<and> n = 1
           | SCXML_DELAYED_CANCEL_RESERVED \<Rightarrow> d \<le> 1 \<and> 2 \<le> n
           | SCXML_DELAYED_FREE \<Rightarrow> d \<le> 1 \<and> 1 \<le> n))"

lemma no_delayed_send_simps [simp]:
  "ds_state no_delayed_send = SCXML_DELAYED_FREE" "ds_previous no_delayed_send = SCXML_DELAYED_FREE"
  by (simp_all add: no_delayed_send_def)

lemma row_fits_free [simp]: "row_fits d n no_delayed_send"
  by (simp add: row_fits_def)

definition live_row :: "scxml_delayed_send \<Rightarrow> bool" where
  "live_row r \<longleftrightarrow> ds_state r \<noteq> SCXML_DELAYED_FREE"

lemma live_row_free [simp]: "\<not> live_row no_delayed_send"
  by (simp add: live_row_def)

text \<open>Carrying an effect out, or taking it back, brings its row in line with one effect less.\<close>

lemma finish_send_fits:
  assumes "row_fits (Suc d) n r"
  shows "row_fits d n (commit_row SCXML_PREPARED_DELAYED_SEND r)"
    "row_fits d n (rollback_row SCXML_PREPARED_DELAYED_SEND r)"
  using assms
  by (auto simp: row_fits_def commit_row_def rollback_row_def split: scxml_delayed_state.splits)

lemma finish_cancel_fits:
  assumes "row_fits d (Suc n) r"
  shows "row_fits d n (commit_row SCXML_PREPARED_CANCEL r)"
    "row_fits d n (rollback_row SCXML_PREPARED_CANCEL r)"
  using assms
  by (auto simp: row_fits_def commit_row_def rollback_row_def split: scxml_delayed_state.splits)

lemma finish_keeps_id:
  "live_row (commit_row k r) \<Longrightarrow> live_row r \<and> ds_id (commit_row k r) = ds_id r"
  "live_row (rollback_row k r) \<Longrightarrow> live_row r \<and> ds_id (rollback_row k r) = ds_id r"
  by (auto simp: live_row_def commit_row_def rollback_row_def split: if_splits)

definition effect_ok :: "nat \<Rightarrow> scxml_prepared_effect \<Rightarrow> bool" where
  "effect_ok n e \<longleftrightarrow>
     pe_kind e = SCXML_PREPARED_SEND \<and> pe_index e = None \<or>
     pe_kind e \<in> {SCXML_PREPARED_DELAYED_SEND, SCXML_PREPARED_CANCEL} \<and> (\<exists>i<n. pe_index e = Some i)"

definition registry_inv :: "scxml_session_impl \<Rightarrow> bool" where
  "registry_inv s \<longleftrightarrow>
     (\<forall>i<length (sn_delayed_sends s). row_fits (sends_on i s) (cancels_on i s) (sn_delayed_sends s ! i)) \<and>
     unique_by live_row ds_id (sn_delayed_sends s) \<and>
     (\<forall>e\<in>set (sn_prepared_effects s). pe_in_use e \<longrightarrow> effect_ok (length (sn_delayed_sends s)) e)"

text \<open>While effects are being staged, nothing waits on a free row, so a new send may take it.\<close>

definition free_rows_idle :: "scxml_session_impl \<Rightarrow> bool" where
  "free_rows_idle s \<longleftrightarrow>
     (\<forall>i<length (sn_delayed_sends s). \<not> live_row (sn_delayed_sends s ! i) \<longrightarrow>
        sends_on i s = 0 \<and> cancels_on i s = 0)"

lemma registry_invD:
  assumes "registry_inv s"
  shows "i < length (sn_delayed_sends s) \<Longrightarrow>
      row_fits (sends_on i s) (cancels_on i s) (sn_delayed_sends s ! i)"
    and "unique_by live_row ds_id (sn_delayed_sends s)"
    and "e < length (sn_prepared_effects s) \<Longrightarrow> pe_in_use (sn_prepared_effects s ! e) \<Longrightarrow>
      effect_ok (length (sn_delayed_sends s)) (sn_prepared_effects s ! e)"
  using assms by (simp_all add: registry_inv_def)

lemma waiting_cong: "sn_prepared_effects t = sn_prepared_effects s \<Longrightarrow> waiting k i t = waiting k i s"
  by (simp add: waiting_def)

text \<open>The count after one effect slot changes.\<close>

lemma waiting_update:
  assumes "e < length (sn_prepared_effects s)" "sn_prepared_effects t = (sn_prepared_effects s)[e := x]"
  shows "waiting k i t + (if waits k i (sn_prepared_effects s ! e) then 1 else 0) =
         waiting k i s + (if waits k i x then 1 else 0)"
  using count_if_update [OF assms(1), of "waits k i" x] by (simp add: waiting_def assms(2))

text \<open>
  An effect that waits on row \<open>i\<close> ends, and the row is brought in line; \<open>f\<close> is \<open>commit_row\<close> or
  \<open>rollback_row\<close>.
\<close>

definition finishes :: "(scxml_prepared_kind \<Rightarrow> scxml_delayed_send \<Rightarrow> scxml_delayed_send) \<Rightarrow> bool" where
  "finishes f \<longleftrightarrow>
     (\<forall>d n r. row_fits (Suc d) n r \<longrightarrow> row_fits d n (f SCXML_PREPARED_DELAYED_SEND r)) \<and>
     (\<forall>d n r. row_fits d (Suc n) r \<longrightarrow> row_fits d n (f SCXML_PREPARED_CANCEL r)) \<and>
     (\<forall>k r. live_row (f k r) \<longrightarrow> live_row r \<and> ds_id (f k r) = ds_id r)"

lemma finishes_both: "finishes commit_row" "finishes rollback_row"
  unfolding finishes_def by (blast intro: finish_send_fits finish_cancel_fits dest: finish_keeps_id)+

lemma effect_finished:
  assumes inv: "registry_inv s" and f: "finishes f"
    and e: "e < length (sn_prepared_effects s)" and used: "pe_in_use (sn_prepared_effects s ! e)"
    and effects: "sn_prepared_effects t = (sn_prepared_effects s)[e := x]" "\<not> pe_in_use x"
    and rows: "sn_delayed_sends t = sn_delayed_sends (effect_row f e s)"
  shows "registry_inv t"
proof -
  let ?p = "sn_prepared_effects s ! e"
  have ok: "effect_ok (length (sn_delayed_sends s)) ?p" using registry_invD(3) [OF inv e used] .
  have idle: "\<not> waits k i x" for k i using effects(2) by (simp add: waits_def)
  have count: "waiting k i t + (if waits k i ?p then 1 else 0) = waiting k i s" for k i
    using waiting_update [OF e effects(1), of k i] idle by simp
  have len: "length (sn_delayed_sends t) = length (sn_delayed_sends s)"
    by (simp add: rows effect_row_def upd_delayed_def split: option.split)
  have eff: "\<forall>y\<in>set (sn_prepared_effects t). pe_in_use y \<longrightarrow> effect_ok (length (sn_delayed_sends t)) y"
    using inv effects(2) unfolding effects(1) len registry_inv_def by (auto dest: set_update_memD)
  show ?thesis
  proof (cases "pe_index ?p")
    case None
    then have "sn_delayed_sends t = sn_delayed_sends s" by (simp add: rows effect_row_def)
    moreover have "waiting k i t = waiting k i s" for k i
      using count [of k i] None by (simp add: waits_def)
    ultimately show ?thesis using inv eff by (simp add: registry_inv_def)
  next
    case (Some i)
    with ok have i: "i < length (sn_delayed_sends s)"
      and k: "pe_kind ?p \<in> {SCXML_PREPARED_DELAYED_SEND, SCXML_PREPARED_CANCEL}"
      by (auto simp: effect_ok_def)
    let ?r = "sn_delayed_sends s ! i"
    have rw: "sn_delayed_sends t = (sn_delayed_sends s)[i := f (pe_kind ?p) ?r]"
      using Some i by (simp add: rows effect_row_def upd_delayed_def)
    have fit: "row_fits (sends_on i t) (cancels_on i t) (f (pe_kind ?p) ?r)"
    proof (cases "pe_kind ?p = SCXML_PREPARED_DELAYED_SEND")
      case True
      then have "sends_on i s = Suc (sends_on i t)" "cancels_on i s = cancels_on i t"
        using count [of SCXML_PREPARED_DELAYED_SEND i] count [of SCXML_PREPARED_CANCEL i] Some used
        by (simp_all add: waits_def)
      then show ?thesis using registry_invD(1) [OF inv i] f True by (simp add: finishes_def)
    next
      case False
      then have kc: "pe_kind ?p = SCXML_PREPARED_CANCEL" using k by simp
      then have "sends_on i s = sends_on i t" "cancels_on i s = Suc (cancels_on i t)"
        using count [of SCXML_PREPARED_DELAYED_SEND i] count [of SCXML_PREPARED_CANCEL i] Some used
        by (simp_all add: waits_def)
      then show ?thesis using registry_invD(1) [OF inv i] f kc by (simp add: finishes_def)
    qed
    have other: "waiting k j t = waiting k j s" if "j \<noteq> i" for k j
      using count [of k j] that Some by (simp add: waits_def)
    have "unique_by live_row ds_id (sn_delayed_sends t)"
      unfolding rw using registry_invD(2) [OF inv] i
      by (rule unique_by_update_same) (use f in \<open>simp add: finishes_def\<close>)
    moreover have "row_fits (sends_on j t) (cancels_on j t) (sn_delayed_sends t ! j)"
      if "j < length (sn_delayed_sends t)" for j
      using that fit other registry_invD(1) [OF inv, of j] len
      by (cases "j = i") (simp_all add: rw)
    ultimately show ?thesis using eff by (simp add: registry_inv_def)
  qed
qed
section \<open>Frames\<close>

definition prepared_staged :: "scxml_session_impl \<Rightarrow> nat set" where
  "prepared_staged s = {e. Staged_Prepared e \<in> set (sn_staged s)}"

definition same_registry :: "scxml_session_impl \<Rightarrow> scxml_session_impl \<Rightarrow> bool" where
  "same_registry s t \<longleftrightarrow> sn_delayed_sends t = sn_delayed_sends s \<and>
     sn_prepared_effects t = sn_prepared_effects s \<and> sn_ticket_log t = sn_ticket_log s \<and>
     prepared_staged t = prepared_staged s"

lemma same_registry_refl [simp]: "same_registry s s"
  by (simp add: same_registry_def)

lemma same_registry_trans: "same_registry s t \<Longrightarrow> same_registry t u \<Longrightarrow> same_registry s u"
  by (simp add: same_registry_def)

lemma same_registry_waiting: "same_registry s t \<Longrightarrow> waiting k i t = waiting k i s"
  by (simp add: same_registry_def waiting_def)

lemma same_registry_inv: "same_registry s t \<Longrightarrow> registry_inv t = registry_inv s"
  by (simp add: registry_inv_def same_registry_waiting) (simp add: same_registry_def)

lemma same_registry_idle: "same_registry s t \<Longrightarrow> free_rows_idle t = free_rows_idle s"
  by (simp add: free_rows_idle_def same_registry_waiting) (simp add: same_registry_def)

lemma same_registry_release: "same_registry s (scxml_runtime_release_event_metadata i s)"
  by (simp add: same_registry_def prepared_staged_def scxml_runtime_release_event_metadata_def
      upd_metadata_def Let_def)

lemma same_registry_raise: "same_registry s (snd (raise_internal ops e t s))"
  by (simp add: raise_internal_def same_registry_def prepared_staged_def)

lemma same_registry_reserve: "same_registry s (snd (scxml_runtime_reserve_event_metadata m s))"
  by (simp add: same_registry_def prepared_staged_def scxml_runtime_reserve_event_metadata_def
      upd_metadata_def Let_def split: option.split)

lemma same_registry_stage_metadata: "same_registry s (snd (stage_effect ops (Staged_Metadata i) s))"
  by (simp add: stage_effect_def same_registry_def prepared_staged_def)

lemma same_registry_raise_with_slot: "same_registry s (snd (raise_with_slot ops e i t s))"
proof -
  obtain b s1 where r: "raise_internal ops e t s = (b, s1)" by fastforce
  obtain c s2 where g: "stage_effect ops (Staged_Metadata i) s1 = (c, s2)" by fastforce
  have "same_registry s s1" using same_registry_raise [of s ops e t] r by simp
  moreover have "same_registry s1 s2" using same_registry_stage_metadata [of s1 ops i] g by simp
  ultimately show ?thesis
    by (auto simp: raise_with_slot_def r g split: bool.split
        intro: same_registry_trans same_registry_release)
qed

lemma same_registry_raise_or_fatal: "same_registry s (snd (raise_or_fatal ops e s))"
  using same_registry_raise [of s ops e 0]
  by (auto simp: raise_or_fatal_def split: prod.split bool.split)

lemma same_registry_adapter_error: "same_registry s (snd (raise_adapter_error ops k s))"
  by (simp add: raise_adapter_error_def same_registry_raise_or_fatal)

lemma same_registry_adapter_failure: "same_registry s (snd (adapter_failure_outcome ops st s))"
  by (simp add: adapter_failure_outcome_def same_registry_adapter_error split: option.split)

lemma same_registry_send_failure: "same_registry s (snd (send_failure_outcome ops ident copy st s))"
proof (cases "failure_kind st")
  case None
  then show ?thesis by (simp add: send_failure_outcome_def same_registry_adapter_failure)
next
  case (Some kind)
  obtain slot s1 where r: "scxml_runtime_reserve_event_metadata (failed_send_metadata ident) s = (slot, s1)"
    by fastforce
  have 1: "same_registry s s1" using same_registry_reserve [of s] r by (metis snd_conv)
  have 2: "same_registry s (snd (raise_with_slot ops e i t s1))" for e i t
    using 1 same_registry_raise_with_slot same_registry_trans by blast
  have 3: "same_registry s (u\<lparr>sn_failed_send_id := x\<rparr>)" if "same_registry s u" for u x
    using that by (simp add: same_registry_def prepared_staged_def)
  show ?thesis
  proof (cases slot)
    case None
    with 1 Some r show ?thesis
      by (simp add: send_failure_outcome_def same_registry_adapter_error)
  next
    case (Some it)
    obtain i t where it: "it = (i, t)" by fastforce
    show ?thesis
      using 2 [of "adapter_error_event kind s" i t] 3 \<open>failure_kind st = Some kind\<close> r Some it
      by (auto simp: send_failure_outcome_def same_registry_adapter_error split: prod.split bool.split)
  qed
qed

section \<open>Reports\<close>

text \<open>A row whose effect is in flight, that is, not yet staged: taking it back leaves nothing waiting.\<close>

definition in_flight :: "nat \<Rightarrow> scxml_session_impl \<Rightarrow> bool" where
  "in_flight i s \<longleftrightarrow>
     ds_state (sn_delayed_sends s ! i) = SCXML_DELAYED_RESERVED \<or>
     ds_state (sn_delayed_sends s ! i) = SCXML_DELAYED_CANCEL_RESERVED \<and>
     (ds_previous (sn_delayed_sends s ! i) = SCXML_DELAYED_FREE \<longrightarrow> sends_on i s = 0 \<and> cancels_on i s = 1)"

lemma find_delayed_SomeD:
  assumes "scxml_runtime_find_delayed_send_locked ident s = Some i"
  shows "i < length (sn_delayed_sends s)" "live_row (sn_delayed_sends s ! i)"
    "ident = CBytes (ds_id (sn_delayed_sends s ! i))"
  using first_index_SomeD [OF assms [unfolded scxml_runtime_find_delayed_send_locked_def]]
  by (auto simp: same_send_id_def live_row_def)

lemma report_cases:
  obtains (nothing) "scxml_session_report_send_done ident s = (False, s)"
  | (active) i where "i < length (sn_delayed_sends s)" "ident = CBytes (ds_id (sn_delayed_sends s ! i))"
      "ds_state (sn_delayed_sends s ! i) = SCXML_DELAYED_ACTIVE"
      "scxml_session_report_send_done ident s = (True, upd_delayed i (\<lambda>_. no_delayed_send) s)"
  | (cancelled) i where "i < length (sn_delayed_sends s)" "ident = CBytes (ds_id (sn_delayed_sends s ! i))"
      "ds_state (sn_delayed_sends s ! i) = SCXML_DELAYED_CANCEL_RESERVED"
      "ds_previous (sn_delayed_sends s ! i) = SCXML_DELAYED_ACTIVE"
      "scxml_session_report_send_done ident s =
         (True, upd_delayed i (\<lambda>r. r\<lparr>ds_previous := SCXML_DELAYED_FREE\<rparr>) s)"
proof (cases "scxml_runtime_find_delayed_send_locked ident s")
  case None
  then have "scxml_session_report_send_done ident s = (False, s)"
    by (simp add: scxml_session_report_send_done_def)
  then show ?thesis by (rule nothing)
next
  case (Some i)
  note F = find_delayed_SomeD [OF Some]
  show ?thesis
  proof (cases "is_cnull ident \<or> csize ident = 0 \<or>
      ds_state (sn_delayed_sends s ! i) \<noteq> SCXML_DELAYED_ACTIVE \<and>
      (ds_state (sn_delayed_sends s ! i) \<noteq> SCXML_DELAYED_CANCEL_RESERVED \<or>
       ds_previous (sn_delayed_sends s ! i) \<noteq> SCXML_DELAYED_ACTIVE)")
    case True
    then have "scxml_session_report_send_done ident s = (False, s)"
      using Some by (auto simp: scxml_session_report_send_done_def Let_def)
    then show ?thesis by (rule nothing)
  next
    case False
    then show ?thesis
      using Some F active [of i] cancelled [of i]
      by (cases "ds_state (sn_delayed_sends s ! i) = SCXML_DELAYED_CANCEL_RESERVED")
        (auto simp: scxml_session_report_send_done_def Let_def)
  qed
qed

definition reported :: "nat \<Rightarrow> scxml_session_impl \<Rightarrow> scxml_session_impl \<Rightarrow> bool" where
  "reported i s t \<longleftrightarrow> sn_prepared_effects t = sn_prepared_effects s \<and> sn_ticket_log t = sn_ticket_log s \<and>
     sn_staged t = sn_staged s \<and> sn_has_event_io t = sn_has_event_io s \<and>
     length (sn_delayed_sends t) = length (sn_delayed_sends s) \<and>
     (registry_inv s \<longrightarrow> registry_inv t \<and> (free_rows_idle s \<longrightarrow> free_rows_idle t) \<and>
        (in_flight i s \<longrightarrow> in_flight i t))"

lemma upd_delayed_simps [simp]:
  "sn_delayed_sends (upd_delayed i f s) = (sn_delayed_sends s)[i := f (sn_delayed_sends s ! i)]"
  "sn_prepared_effects (upd_delayed i f s) = sn_prepared_effects s"
  "sn_ticket_log (upd_delayed i f s) = sn_ticket_log s"
  "sn_staged (upd_delayed i f s) = sn_staged s"
  "sn_has_event_io (upd_delayed i f s) = sn_has_event_io s"
  "waiting k j (upd_delayed i f s) = waiting k j s"
  by (simp_all add: upd_delayed_def waiting_def)

lemma row_changed:
  assumes inv: "registry_inv s" and i: "i < length (sn_delayed_sends s)"
    and fits: "row_fits (sends_on i s) (cancels_on i s) r"
    and keep: "live_row r \<Longrightarrow> live_row (sn_delayed_sends s ! i) \<and> ds_id r = ds_id (sn_delayed_sends s ! i)"
  shows "registry_inv (upd_delayed i (\<lambda>_. r) s)"
proof -
  have "unique_by live_row ds_id ((sn_delayed_sends s)[i := r])"
    using registry_invD(2) [OF inv] i keep by (rule unique_by_update_same)
  moreover have "row_fits (sends_on j s) (cancels_on j s) ((sn_delayed_sends s)[i := r] ! j)"
    if "j < length (sn_delayed_sends s)" for j
    using that fits registry_invD(1) [OF inv, of j] by (cases "j = i") simp_all
  ultimately show ?thesis using inv by (simp add: registry_inv_def)
qed

lemma report_reported: "reported i s (snd (scxml_session_report_send_done ident s))"
proof (cases rule: report_cases [of ident s])
  case nothing
  then show ?thesis by (simp add: reported_def)
next
  case (active j)
  let ?t = "upd_delayed j (\<lambda>_. no_delayed_send) s"
  have "registry_inv ?t \<and> (free_rows_idle s \<longrightarrow> free_rows_idle ?t) \<and> (in_flight i s \<longrightarrow> in_flight i ?t)"
    if inv: "registry_inv s"
  proof -
    have idle: "sends_on j s = 0 \<and> cancels_on j s = 0"
      using registry_invD(1) [OF inv active(1)] active(3) by (simp add: row_fits_def)
    have "registry_inv ?t" by (rule row_changed [OF inv active(1)]) simp_all
    moreover have "free_rows_idle s \<longrightarrow> free_rows_idle ?t"
      using idle active(1) by (auto simp: free_rows_idle_def nth_list_update split: if_splits)
    moreover have "in_flight i s \<longrightarrow> in_flight i ?t"
      using active(3) by (cases "i = j") (auto simp: in_flight_def)
    ultimately show ?thesis by blast
  qed
  then show ?thesis by (simp add: reported_def active(4))
next
  case (cancelled j)
  let ?r = "(sn_delayed_sends s ! j)\<lparr>ds_previous := SCXML_DELAYED_FREE\<rparr>"
  let ?t = "upd_delayed j (\<lambda>_. ?r) s"
  have eq: "upd_delayed j (\<lambda>r. r\<lparr>ds_previous := SCXML_DELAYED_FREE\<rparr>) s = ?t"
    by (simp add: upd_delayed_def)
  have "registry_inv ?t \<and> (free_rows_idle s \<longrightarrow> free_rows_idle ?t) \<and> (in_flight i s \<longrightarrow> in_flight i ?t)"
    if inv: "registry_inv s"
  proof -
    have n: "sends_on j s = 0 \<and> cancels_on j s = 1"
      using registry_invD(1) [OF inv cancelled(1)] cancelled(3,4) by (simp add: row_fits_def)
    have "registry_inv ?t"
      by (rule row_changed [OF inv cancelled(1)])
        (use n cancelled(3) in \<open>simp_all add: row_fits_def live_row_def\<close>)
    moreover have "free_rows_idle s \<longrightarrow> free_rows_idle ?t"
      using cancelled(1,3) by (auto simp: free_rows_idle_def nth_list_update live_row_def split: if_splits)
    moreover have "in_flight i s \<longrightarrow> in_flight i ?t"
      using cancelled(1,3) n by (cases "i = j") (auto simp: in_flight_def)
    ultimately show ?thesis by blast
  qed
  then show ?thesis by (simp add: reported_def cancelled(5) eq)
qed

lemma reported_trans: "reported i s t \<Longrightarrow> reported i t u \<Longrightarrow> reported i s u"
  by (simp add: reported_def)

lemma reports_reported: "reported i s (reports during s)"
proof (induction during arbitrary: s)
  case Nil
  then show ?case by (simp add: reports_def reported_def)
next
  case (Cons ident during)
  have "reports (ident # during) s = reports during (snd (scxml_session_report_send_done ident s))"
    by (simp add: reports_def)
  then show ?case
    using reported_trans [OF report_reported [of i s ident] Cons.IH] by simp
qed

section \<open>Effects in flight\<close>

definition used_slots :: "scxml_session_impl \<Rightarrow> nat set" where
  "used_slots s = {e. e < length (sn_prepared_effects s) \<and> pe_in_use (sn_prepared_effects s ! e)}"

definition staging :: "scxml_session_impl \<Rightarrow> bool" where
  "staging s \<longleftrightarrow> registry_inv s \<and> free_rows_idle s"

definition flight_ready :: "nat \<Rightarrow> scxml_session_impl \<Rightarrow> bool" where
  "flight_ready e s \<longleftrightarrow> staging s \<and> e \<in> used_slots s \<and>
     (\<forall>i. pe_index (sn_prepared_effects s ! e) = Some i \<longrightarrow> in_flight i s)"

lemma upd_prepared_simps [simp]:
  "sn_prepared_effects (upd_prepared e f s) = (sn_prepared_effects s)[e := f (sn_prepared_effects s ! e)]"
  "sn_delayed_sends (upd_prepared e f s) = sn_delayed_sends s"
  "sn_ticket_log (upd_prepared e f s) = sn_ticket_log s"
  "sn_staged (upd_prepared e f s) = sn_staged s"
  "sn_has_event_io (upd_prepared e f s) = sn_has_event_io s"
  by (simp_all add: upd_prepared_def)

lemma effect_row_simps [simp]:
  "sn_prepared_effects (effect_row f e s) = sn_prepared_effects s"
  "sn_ticket_log (effect_row f e s) = sn_ticket_log s"
  "sn_staged (effect_row f e s) = sn_staged s"
  "sn_has_event_io (effect_row f e s) = sn_has_event_io s"
  by (simp_all add: effect_row_def split: option.split)

lemma call_ticket_simps [simp]:
  "sn_prepared_effects (call_ticket c t s) = sn_prepared_effects s"
  "sn_delayed_sends (call_ticket c t s) = sn_delayed_sends s"
  "sn_staged (call_ticket c t s) = sn_staged s"
  "sn_has_event_io (call_ticket c t s) = sn_has_event_io s"
  by (simp_all add: call_ticket_def split: option.split)

lemma registry_inv_cong:
  "sn_delayed_sends t = sn_delayed_sends s \<Longrightarrow> sn_prepared_effects t = sn_prepared_effects s \<Longrightarrow>
     registry_inv t = registry_inv s"
  by (simp add: registry_inv_def waiting_def)

lemma free_rows_idle_cong:
  "sn_delayed_sends t = sn_delayed_sends s \<Longrightarrow> sn_prepared_effects t = sn_prepared_effects s \<Longrightarrow>
     free_rows_idle t = free_rows_idle s"
  by (simp add: free_rows_idle_def waiting_def)

lemma staging_cong:
  "sn_delayed_sends t = sn_delayed_sends s \<Longrightarrow> sn_prepared_effects t = sn_prepared_effects s \<Longrightarrow>
     staging t = staging s"
  unfolding staging_def using registry_inv_cong free_rows_idle_cong by metis

lemma flight_ready_reports:
  assumes "flight_ready e s" shows "flight_ready e (reports during s)"
proof -
  have "reported i s (reports during s)" for i by (rule reports_reported)
  then show ?thesis using assms
    by (auto simp: flight_ready_def reported_def used_slots_def staging_def)
qed

lemma used_slot_update:
  "e < length (sn_prepared_effects s) \<Longrightarrow> sn_prepared_effects t = (sn_prepared_effects s)[e := x] \<Longrightarrow>
     used_slots t = (if pe_in_use x then insert e (used_slots s) else used_slots s - {e})"
  by (auto simp: used_slots_def nth_list_update)

text \<open>Rolling an effect back that is in flight, or discarding it before it is staged.\<close>

lemma rollback_facts:
  assumes ready: "flight_ready e s"
  shows "staging (rollback_prepared_effect_locked e s)"
    "used_slots (rollback_prepared_effect_locked e s) = used_slots s - {e}"
    "sn_ticket_log (rollback_prepared_effect_locked e s) = sn_ticket_log s"
    "sn_staged (rollback_prepared_effect_locked e s) = sn_staged s"
proof -
  let ?p = "sn_prepared_effects s ! e" and ?t = "rollback_prepared_effect_locked e s"
  from ready have e: "e < length (sn_prepared_effects s)" and used: "pe_in_use ?p"
    and inv: "registry_inv s" and idle: "free_rows_idle s"
    by (auto simp: flight_ready_def used_slots_def staging_def)
  have eff: "sn_prepared_effects ?t = (sn_prepared_effects s)[e := ?p\<lparr>pe_in_use := False\<rparr>]"
    by (simp add: rollback_prepared_effect_locked_def)
  have rows: "sn_delayed_sends ?t = sn_delayed_sends (effect_row rollback_row e s)"
    by (simp add: rollback_prepared_effect_locked_def)
  have "registry_inv ?t"
    by (rule effect_finished [OF inv finishes_both(2) e used eff _ rows]) simp
  moreover have count: "waiting k j ?t + (if waits k j ?p then 1 else 0) = waiting k j s" for k j
    using waiting_update [OF e eff, of k j] by (simp add: waits_def)
  have "free_rows_idle ?t"
    unfolding free_rows_idle_def
  proof (intro allI impI)
    fix j
    assume j: "j < length (sn_delayed_sends ?t)" and free: "\<not> live_row (sn_delayed_sends ?t ! j)"
    have js: "j < length (sn_delayed_sends s)"
      using j by (simp add: rows effect_row_def split: option.splits if_splits)
    show "sends_on j ?t = 0 \<and> cancels_on j ?t = 0"
    proof (cases "pe_index ?p = Some j")
      case False
      then have "sn_delayed_sends ?t ! j = sn_delayed_sends s ! j"
        using js by (auto simp: rows effect_row_def nth_list_update split: option.split)
      moreover have "waiting k j ?t = waiting k j s" for k
        using count [of k j] False by (simp add: waits_def)
      ultimately show ?thesis using idle js free by (simp add: free_rows_idle_def)
    next
      case True
      then have fl: "in_flight j s" using ready by (simp add: flight_ready_def)
      have rj: "sn_delayed_sends ?t ! j = rollback_row (pe_kind ?p) (sn_delayed_sends s ! j)"
        using True js by (simp add: rows effect_row_def)
      have fit: "row_fits (sends_on j s) (cancels_on j s) (sn_delayed_sends s ! j)"
        using registry_invD(1) [OF inv js] .
      have kind: "pe_kind ?p = SCXML_PREPARED_DELAYED_SEND \<and> sends_on j s = Suc (sends_on j ?t) \<and>
            cancels_on j s = cancels_on j ?t \<or>
          pe_kind ?p = SCXML_PREPARED_CANCEL \<and> cancels_on j s = Suc (cancels_on j ?t) \<and>
            sends_on j s = sends_on j ?t"
        using registry_invD(3) [OF inv e used] True used
          count [of SCXML_PREPARED_DELAYED_SEND j] count [of SCXML_PREPARED_CANCEL j]
        by (auto simp: effect_ok_def waits_def)
      show ?thesis
        using fl free fit kind unfolding rj in_flight_def
        by (auto simp: rollback_row_def live_row_def row_fits_def split: if_splits)
    qed
  qed
  ultimately show "staging ?t" by (simp add: staging_def)
  show "used_slots ?t = used_slots s - {e}" using used_slot_update [OF e eff] by simp
  show "sn_ticket_log ?t = sn_ticket_log s" "sn_staged ?t = sn_staged s"
    by (simp_all add: rollback_prepared_effect_locked_def)
qed

text \<open>The slots in use are those whose tickets the transaction keeps.\<close>

definition all_staged :: "scxml_session_impl \<Rightarrow> bool" where
  "all_staged s \<longleftrightarrow> staging s \<and> prepared_staged s = used_slots s"

lemma flight_ready_ticket:
  assumes "flight_ready e s"
  shows "flight_ready e (upd_prepared e (\<lambda>p. p\<lparr>pe_ticket := t\<rparr>) s)"
proof -
  let ?u = "upd_prepared e (\<lambda>p. p\<lparr>pe_ticket := t\<rparr>) s"
  have e: "e < length (sn_prepared_effects s)" and used: "pe_in_use (sn_prepared_effects s ! e)"
    and st: "staging s" using assms by (auto simp: flight_ready_def used_slots_def)
  have w: "waiting k i ?u = waiting k i s" for k i
    using waiting_update [OF e upd_prepared_simps(1) [of e "\<lambda>p. p\<lparr>pe_ticket := t\<rparr>" s], of k i]
    by (simp add: waits_def split: if_splits)
  have inv: "registry_inv ?u"
    using st e registry_invD(3) [of s e, OF _ e used]
    by (auto simp: staging_def registry_inv_def w effect_ok_def dest!: set_update_memD)
  have idle: "free_rows_idle ?u" using st by (simp add: staging_def free_rows_idle_def w)
  show ?thesis using assms e inv idle
    by (auto simp: flight_ready_def staging_def used_slots_def in_flight_def w)
qed

lemma discard_in_flight:
  assumes "flight_ready e s"
  shows "discard_prepared_effect e s =
    call_ticket False (pe_ticket (sn_prepared_effects s ! e)) (rollback_prepared_effect_locked e s)"
  using assms by (simp add: flight_ready_def used_slots_def discard_prepared_effect_def)

lemma stage_prepared_facts:
  assumes ready: "flight_ready e s" and staged: "prepared_staged s = used_slots s - {e}"
    and res: "stage_prepared ops e k s = (outcome, t)"
  shows "all_staged t"
    "outcome = SCXML_EXECUTE_CONTINUE \<Longrightarrow> sn_ticket_log t = sn_ticket_log s \<and>
       sn_delayed_sends t = sn_delayed_sends s \<and>
       sn_prepared_effects t = (sn_prepared_effects s)[e := (sn_prepared_effects s ! e)\<lparr>pe_ticket := Some k\<rparr>]"
    "outcome \<noteq> SCXML_EXECUTE_CONTINUE \<Longrightarrow> outcome = SCXML_EXECUTE_FATAL \<and>
       sn_ticket_log t = sn_ticket_log s @ [(k, False)] \<and> used_slots t = used_slots s - {e}"
proof -
  define u where "u = upd_prepared e (\<lambda>p. p\<lparr>pe_ticket := Some k\<rparr>) s"
  have u: "flight_ready e u" unfolding u_def by (rule flight_ready_ticket [OF ready])
  have e: "e < length (sn_prepared_effects s)" "e \<in> used_slots s"
    using ready by (auto simp: flight_ready_def used_slots_def)
  have us: "used_slots u = used_slots s" "prepared_staged u = prepared_staged s"
    using e used_slot_update [OF e(1) upd_prepared_simps(1), of "\<lambda>p. p\<lparr>pe_ticket := Some k\<rparr>"]
    by (auto simp: u_def prepared_staged_def used_slots_def)
  have tick: "pe_ticket (sn_prepared_effects u ! e) = Some k" using e by (simp add: u_def)
  have all: "all_staged t \<and>
    (outcome = SCXML_EXECUTE_CONTINUE \<longrightarrow> sn_ticket_log t = sn_ticket_log s \<and>
       sn_delayed_sends t = sn_delayed_sends s \<and>
       sn_prepared_effects t = (sn_prepared_effects s)[e := (sn_prepared_effects s ! e)\<lparr>pe_ticket := Some k\<rparr>]) \<and>
    (outcome \<noteq> SCXML_EXECUTE_CONTINUE \<longrightarrow> outcome = SCXML_EXECUTE_FATAL \<and>
       sn_ticket_log t = sn_ticket_log s @ [(k, False)] \<and> used_slots t = used_slots s - {e})"
  proof (cases "ho_stage ops (Staged_Prepared e)")
    case True
    then have t: "t = u\<lparr>sn_staged := sn_staged u @ [Staged_Prepared e]\<rparr>" "outcome = SCXML_EXECUTE_CONTINUE"
      using res by (auto simp: stage_prepared_def stage_effect_def u_def)
    have "staging t" using u staging_cong [of t u] by (simp add: t flight_ready_def)
    moreover have "prepared_staged t = insert e (prepared_staged u)" by (auto simp: t prepared_staged_def)
    moreover have "used_slots t = used_slots u" by (simp add: t used_slots_def)
    ultimately have "all_staged t" using us staged e by (auto simp: all_staged_def)
    then show ?thesis using t by (simp add: u_def)
  next
    case False
    note R = rollback_facts [OF u]
    from False have t: "t = call_ticket False (Some k) (rollback_prepared_effect_locked e u)"
      "outcome = SCXML_EXECUTE_FATAL"
      using res tick by (auto simp: stage_prepared_def stage_effect_def u_def [symmetric] discard_in_flight [OF u])
    have eq: "sn_prepared_effects t = sn_prepared_effects (rollback_prepared_effect_locked e u)"
      "sn_delayed_sends t = sn_delayed_sends (rollback_prepared_effect_locked e u)"
      "sn_staged t = sn_staged u" "sn_ticket_log t = sn_ticket_log u @ [(k, False)]"
      using R(3,4) by (simp_all add: t call_ticket_def)
    have "staging t" using R(1) staging_cong [of t "rollback_prepared_effect_locked e u"] eq by simp
    moreover have "used_slots t = used_slots s - {e}"
      using R(2) us eq(1) by (simp add: used_slots_def)
    moreover have "prepared_staged t = prepared_staged s" using us eq by (simp add: prepared_staged_def)
    ultimately show ?thesis using staged eq t(2) by (simp add: all_staged_def u_def)
  qed
  then show "all_staged t"
    "outcome = SCXML_EXECUTE_CONTINUE \<Longrightarrow> sn_ticket_log t = sn_ticket_log s \<and>
       sn_delayed_sends t = sn_delayed_sends s \<and>
       sn_prepared_effects t = (sn_prepared_effects s)[e := (sn_prepared_effects s ! e)\<lparr>pe_ticket := Some k\<rparr>]"
    "outcome \<noteq> SCXML_EXECUTE_CONTINUE \<Longrightarrow> outcome = SCXML_EXECUTE_FATAL \<and>
       sn_ticket_log t = sn_ticket_log s @ [(k, False)] \<and> used_slots t = used_slots s - {e}"
    by blast+
qed

text \<open>Taking a slot, and a row for a delayed send.\<close>

lemma acquire_SomeD:
  assumes "acquire_prepared_effect_locked s = (Some e, t)"
  shows "e < length (sn_prepared_effects s)" "\<not> pe_in_use (sn_prepared_effects s ! e)"
    "t = upd_prepared e (\<lambda>_. no_prepared_effect\<lparr>pe_in_use := True\<rparr>) s"
  using assms first_index_SomeD [of "\<lambda>e. \<not> pe_in_use e" "sn_prepared_effects s"]
  by (auto simp: acquire_prepared_effect_locked_def split: option.splits)

lemma acquire_NoneD: "acquire_prepared_effect_locked s = (None, t) \<Longrightarrow> t = s"
  by (simp add: acquire_prepared_effect_locked_def split: option.splits)

lemma reserve_row_cases:
  obtains (duplicate) "reserve_delayed_send_locked ident copy s = (Duplicate, s)"
  | (no_room) "reserve_delayed_send_locked ident copy s = (No_Room, s)"
  | (row) i where "i < length (sn_delayed_sends s)"
      "ds_state (sn_delayed_sends s ! i) = SCXML_DELAYED_FREE" "csize ident \<noteq> 0" "ident = CBytes (cdata ident)"
      "\<forall>r\<in>set (sn_delayed_sends s). live_row r \<longrightarrow> ds_id r \<noteq> cdata ident"
      "reserve_delayed_send_locked ident copy s =
         (Reserved i, upd_delayed i (\<lambda>_. \<lparr>ds_id = cdata ident, ds_owned = copy,
            ds_state = SCXML_DELAYED_RESERVED, ds_previous = SCXML_DELAYED_FREE\<rparr>) s)"
proof (cases "first_index (same_send_id ident) (sn_delayed_sends s)")
  case (Some j)
  then have "reserve_delayed_send_locked ident copy s = (Duplicate, s)"
    by (simp add: reserve_delayed_send_locked_def)
  then show ?thesis by (rule duplicate)
next
  case None
  show ?thesis
  proof (cases "(\<exists>i. first_index (\<lambda>r. ds_state r = SCXML_DELAYED_FREE) (sn_delayed_sends s) = Some i) \<and>
      \<not> (is_cnull ident \<or> csize ident = 0 \<or> copy \<and> csize ident > SCXML_EVENT_METADATA_CAPACITY)")
    case False
    then have "reserve_delayed_send_locked ident copy s = (No_Room, s)"
      using None by (auto simp: reserve_delayed_send_locked_def split: option.split)
    then show ?thesis by (rule no_room)
  next
    case True
    then obtain i where fi: "first_index (\<lambda>r. ds_state r = SCXML_DELAYED_FREE) (sn_delayed_sends s) = Some i"
      and ok: "\<not> (is_cnull ident \<or> csize ident = 0 \<or> copy \<and> csize ident > SCXML_EVENT_METADATA_CAPACITY)"
      by blast
    have id: "ident = CBytes (cdata ident)" using ok by (cases ident) auto
    have other: "\<forall>r\<in>set (sn_delayed_sends s). live_row r \<longrightarrow> ds_id r \<noteq> cdata ident"
      using None id unfolding first_index_None_iff same_send_id_def live_row_def by metis
    have "reserve_delayed_send_locked ident copy s =
         (Reserved i, upd_delayed i (\<lambda>_. \<lparr>ds_id = cdata ident, ds_owned = copy,
            ds_state = SCXML_DELAYED_RESERVED, ds_previous = SCXML_DELAYED_FREE\<rparr>) s)"
      using None fi ok by (simp add: reserve_delayed_send_locked_def)
    then show ?thesis using row [of i] first_index_SomeD [OF fi] ok id other by simp
  qed
qed

lemma idle_slot_changed:
  assumes st: "staging s" and e: "e < length (sn_prepared_effects s)"
    and idle: "\<not> pe_in_use (sn_prepared_effects s ! e)"
    and effects: "sn_prepared_effects t = (sn_prepared_effects s)[e := x]" and rows: "sn_delayed_sends t = sn_delayed_sends s"
    and x: "\<not> pe_in_use x \<or> pe_kind x = SCXML_PREPARED_SEND \<and> pe_index x = None"
  shows "staging t"
proof -
  have w: "waiting k i t = waiting k i s" for k i
    using waiting_update [OF e effects, of k i] idle x by (auto simp: waits_def split: if_splits)
  have "registry_inv t"
    using st x by (auto simp: staging_def registry_inv_def w effects rows effect_ok_def dest!: set_update_memD)
  moreover have "free_rows_idle t" using st by (simp add: staging_def free_rows_idle_def w rows)
  ultimately show ?thesis by (simp add: staging_def)
qed

text \<open>A slot is taken for an effect that waits on row \<open>i\<close>, whose state changes with it.\<close>

lemma slot_taken:
  assumes st: "staging s" and e: "e < length (sn_prepared_effects s)"
    and idle: "\<not> pe_in_use (sn_prepared_effects s ! e)"
    and i: "i < length (sn_delayed_sends s)"
    and effects: "sn_prepared_effects t = (sn_prepared_effects s)[e := x]"
    and x: "pe_in_use x" "pe_index x = Some i"
      "pe_kind x \<in> {SCXML_PREPARED_DELAYED_SEND, SCXML_PREPARED_CANCEL}"
    and rows: "sn_delayed_sends t = (sn_delayed_sends s)[i := r]" and live: "live_row r"
    and uniq: "unique_by live_row ds_id ((sn_delayed_sends s)[i := r])"
    and fits: "row_fits (sends_on i s + (if pe_kind x = SCXML_PREPARED_DELAYED_SEND then 1 else 0))
                 (cancels_on i s + (if pe_kind x = SCXML_PREPARED_CANCEL then 1 else 0)) r"
  shows "staging t" "e \<in> used_slots t" "used_slots t = insert e (used_slots s)"
    "sends_on i t = sends_on i s + (if pe_kind x = SCXML_PREPARED_DELAYED_SEND then 1 else 0)"
    "cancels_on i t = cancels_on i s + (if pe_kind x = SCXML_PREPARED_CANCEL then 1 else 0)"
proof -
  have count: "waiting k j t = waiting k j s + (if k = pe_kind x \<and> j = i then 1 else 0)" for k j
    using waiting_update [OF e effects, of k j] idle x by (auto simp: waits_def split: if_splits)
  show c: "sends_on i t = sends_on i s + (if pe_kind x = SCXML_PREPARED_DELAYED_SEND then 1 else 0)"
    "cancels_on i t = cancels_on i s + (if pe_kind x = SCXML_PREPARED_CANCEL then 1 else 0)"
    by (simp_all add: count)
  have "row_fits (sends_on j t) (cancels_on j t) (sn_delayed_sends t ! j)"
    if "j < length (sn_delayed_sends t)" for j
    using that st fits i c
    by (cases "j = i") (auto simp: rows staging_def registry_inv_def count)
  moreover have "\<forall>y\<in>set (sn_prepared_effects t). pe_in_use y \<longrightarrow> effect_ok (length (sn_delayed_sends t)) y"
    using st x i by (auto simp: effects rows staging_def registry_inv_def effect_ok_def dest!: set_update_memD)
  ultimately have "registry_inv t" using uniq by (simp add: registry_inv_def rows)
  moreover have "free_rows_idle t"
    using st live i by (auto simp: staging_def free_rows_idle_def rows count nth_list_update split: if_splits)
  ultimately show "staging t" by (simp add: staging_def)
  show "used_slots t = insert e (used_slots s)" using used_slot_update [OF e effects] x by simp
  then show "e \<in> used_slots t" by simp
qed

lemma used_slots_cong: "sn_prepared_effects t = sn_prepared_effects s \<Longrightarrow> used_slots t = used_slots s"
  by (simp add: used_slots_def)

lemma reserve_send_facts:
  assumes st: "staging s" and res: "reserve_send ident delay copy s = (result, t)"
  shows "sn_ticket_log t = sn_ticket_log s \<and> sn_staged t = sn_staged s \<and>
    (case result of
       Inr kind \<Rightarrow> staging t \<and> used_slots t = used_slots s \<and> sn_delayed_sends t = sn_delayed_sends s
     | Inl e \<Rightarrow> flight_ready e t \<and> e \<notin> used_slots s \<and> used_slots t = insert e (used_slots s))"
proof -
  obtain oe s1 where acq: "acquire_prepared_effect_locked s = (oe, s1)" by fastforce
  show ?thesis
  proof (cases oe)
    case None
    then show ?thesis using res acq acquire_NoneD [of s s1] st by (auto simp: reserve_send_def)
  next
    case (Some e)
    note A = acquire_SomeD [OF acq [unfolded Some]]
    have notin: "e \<notin> used_slots s" using A by (simp add: used_slots_def)
    let ?slot = "no_prepared_effect\<lparr>pe_in_use := True\<rparr>"
    show ?thesis
    proof (cases "delay = 0")
      case True
      then have t: "result = Inl e" "t = upd_prepared e (\<lambda>p. p\<lparr>pe_kind := SCXML_PREPARED_SEND\<rparr>) s1"
        using res acq Some by (auto simp: reserve_send_def)
      have eff: "sn_prepared_effects t = (sn_prepared_effects s)[e := ?slot\<lparr>pe_kind := SCXML_PREPARED_SEND\<rparr>]"
        using A by (simp add: t)
      have "staging t"
        using st A(1,2) eff by (rule idle_slot_changed) (simp_all add: t A(3) no_prepared_effect_def)
      moreover have "used_slots t = insert e (used_slots s)"
        using used_slot_update [OF A(1) eff] by simp
      ultimately show ?thesis using t A notin eff
        by (simp add: flight_ready_def no_prepared_effect_def)
    next
      case delay: False
      have s1: "sn_delayed_sends s1 = sn_delayed_sends s" "sn_ticket_log s1 = sn_ticket_log s"
        "sn_staged s1 = sn_staged s" by (simp_all add: A(3))
      have given_up: ?thesis if "t = upd_prepared e (\<lambda>p. p\<lparr>pe_in_use := False\<rparr>) s1" "result = Inr kind" for kind
      proof -
        have eff: "sn_prepared_effects t = (sn_prepared_effects s)[e := ?slot\<lparr>pe_in_use := False\<rparr>]"
          using A that by simp
        have "staging t" using st A(1,2) eff by (rule idle_slot_changed) (simp_all add: that s1)
        moreover have "used_slots t = used_slots s"
          using used_slot_update [OF A(1) eff] notin by simp
        ultimately show ?thesis using that s1 by simp
      qed
      show ?thesis
      proof (cases rule: reserve_row_cases [of ident copy s1])
        case duplicate
        then show ?thesis using res acq Some delay by (intro given_up) (auto simp: reserve_send_def)
      next
        case no_room
        then show ?thesis using res acq Some delay by (intro given_up) (auto simp: reserve_send_def)
      next
        case (row i)
        let ?r = "\<lparr>ds_id = cdata ident, ds_owned = copy,
            ds_state = SCXML_DELAYED_RESERVED, ds_previous = SCXML_DELAYED_FREE\<rparr>"
        let ?x = "?slot\<lparr>pe_kind := SCXML_PREPARED_DELAYED_SEND, pe_index := Some i\<rparr>"
        have t: "result = Inl e" "t = upd_prepared e
              (\<lambda>p. p\<lparr>pe_kind := SCXML_PREPARED_DELAYED_SEND, pe_index := Some i\<rparr>)
              (upd_delayed i (\<lambda>_. ?r) s1)"
          using res acq Some delay row by (auto simp: reserve_send_def)
        have eff: "sn_prepared_effects t = (sn_prepared_effects s)[e := ?x]" using A by (simp add: t)
        have rows: "sn_delayed_sends t = (sn_delayed_sends s)[i := ?r]" by (simp add: t s1)
        have zero: "sends_on i s = 0 \<and> cancels_on i s = 0"
          using st row(1,2) s1 by (simp add: staging_def free_rows_idle_def live_row_def)
        have uniq: "unique_by live_row ds_id ((sn_delayed_sends s)[i := ?r])"
        proof (rule unique_by_update)
          show "unique_by live_row ds_id (sn_delayed_sends s)"
            using st by (simp add: staging_def registry_inv_def)
          show "i < length (sn_delayed_sends s)" using row(1) s1 by simp
          show "\<forall>j<length (sn_delayed_sends s). j \<noteq> i \<longrightarrow> live_row (sn_delayed_sends s ! j) \<longrightarrow>
              ds_id (sn_delayed_sends s ! j) \<noteq> ds_id ?r"
            using row(5) s1 by simp
        qed
        have taken: "staging t" "e \<in> used_slots t" "used_slots t = insert e (used_slots s)"
          using slot_taken [OF st A(1,2) _ eff _ _ _ rows _ uniq] row(1) s1 zero
          by (simp_all add: live_row_def row_fits_def)
        have "in_flight i t" using row(1) s1 by (simp add: in_flight_def rows)
        then show ?thesis using taken t s1 eff A(1) notin
          by (simp add: flight_ready_def)
      qed
    qed
  qed
qed

section \<open>Tickets\<close>

definition holds_ticket :: "adapter_ticket \<Rightarrow> scxml_prepared_effect \<Rightarrow> bool" where
  "holds_ticket k e \<longleftrightarrow> pe_in_use e \<and> pe_ticket e = Some k"

definition held :: "adapter_ticket \<Rightarrow> scxml_session_impl \<Rightarrow> nat" where
  "held k s = count_if (holds_ticket k) (sn_prepared_effects s)"

text \<open>Calls made of a ticket's functions, and calls still to be made.\<close>

definition balance :: "adapter_ticket \<Rightarrow> scxml_session_impl \<Rightarrow> nat" where
  "balance k s = ticket_calls k (sn_ticket_log s) + held k s"

lemma held_update:
  assumes "e < length (sn_prepared_effects s)" "sn_prepared_effects t = (sn_prepared_effects s)[e := x]"
  shows "held k t + (if holds_ticket k (sn_prepared_effects s ! e) then 1 else 0) =
         held k s + (if holds_ticket k x then 1 else 0)"
  using count_if_update [OF assms(1), of "holds_ticket k" x] by (simp add: held_def assms(2))

lemma held_cong: "sn_prepared_effects t = sn_prepared_effects s \<Longrightarrow> held k t = held k s"
  by (simp add: held_def)

lemma same_registry_balance: "same_registry s t \<Longrightarrow> balance k t = balance k s"
  by (simp add: same_registry_def balance_def held_def)

lemma reported_balance: "reported i s t \<Longrightarrow> balance k t = balance k s"
  by (simp add: reported_def balance_def held_def)

lemma reserve_send_balance:
  assumes "reserve_send ident delay copy s = (result, t)"
  shows "balance k t = balance k s \<and>
    (case result of Inr kind \<Rightarrow> True | Inl e \<Rightarrow> pe_ticket (sn_prepared_effects t ! e) = None)"
proof -
  obtain oe s1 where acq: "acquire_prepared_effect_locked s = (oe, s1)" by fastforce
  show ?thesis
  proof (cases oe)
    case None
    then show ?thesis using assms acq acquire_NoneD [of s s1] by (auto simp: reserve_send_def)
  next
    case (Some e)
    note A = acquire_SomeD [OF acq [unfolded Some]]
    obtain rr s2 where r: "reserve_delayed_send_locked ident copy s1 = (rr, s2)" by fastforce
    have s2: "sn_prepared_effects s2 = sn_prepared_effects s1" "sn_ticket_log s2 = sn_ticket_log s1"
      using reserve_row_cases [of ident copy s1] r by (metis prod.inject upd_delayed_simps)+
    have "\<exists>x. sn_prepared_effects t = (sn_prepared_effects s)[e := x] \<and> pe_ticket x = None \<and>
        sn_ticket_log t = sn_ticket_log s"
      using assms acq Some r s2 A
      by (auto simp: reserve_send_def no_prepared_effect_def split: if_splits reserve_result.splits)
    then obtain x where x: "sn_prepared_effects t = (sn_prepared_effects s)[e := x]" "pe_ticket x = None"
      "sn_ticket_log t = sn_ticket_log s" by blast
    have "held k t = held k s" using held_update [OF A(1) x(1), of k] A(2) x(2) by (simp add: holds_ticket_def)
    moreover have "result = Inl e \<or> (\<exists>kind. result = Inr kind)"
      using assms acq Some by (auto simp: reserve_send_def split: if_splits reserve_result.splits prod.splits)
    ultimately show ?thesis using x A(1) by (auto simp: balance_def)
  qed
qed

lemma rollback_balance:
  assumes "e \<in> used_slots s" "pe_ticket (sn_prepared_effects s ! e) = None"
  shows "balance k (rollback_prepared_effect_locked e s) = balance k s"
proof -
  have e: "e < length (sn_prepared_effects s)" using assms by (simp add: used_slots_def)
  have eff: "sn_prepared_effects (rollback_prepared_effect_locked e s) =
      (sn_prepared_effects s)[e := (sn_prepared_effects s ! e)\<lparr>pe_in_use := False\<rparr>]"
    by (simp add: rollback_prepared_effect_locked_def)
  have "sn_ticket_log (rollback_prepared_effect_locked e s) = sn_ticket_log s"
    by (simp add: rollback_prepared_effect_locked_def)
  then show ?thesis
    using held_update [OF e eff, of k] assms(2) by (simp add: balance_def holds_ticket_def)
qed

lemma stage_prepared_balance:
  assumes ready: "flight_ready e s" and none: "pe_ticket (sn_prepared_effects s ! e) = None"
    and res: "stage_prepared ops e j s = (outcome, t)"
  shows "balance k t = balance k s + (if k = j then 1 else 0)"
proof -
  define u where "u = upd_prepared e (\<lambda>p. p\<lparr>pe_ticket := Some j\<rparr>) s"
  have e: "e < length (sn_prepared_effects s)" "pe_in_use (sn_prepared_effects s ! e)"
    using ready by (auto simp: flight_ready_def used_slots_def)
  have eff: "sn_prepared_effects u = (sn_prepared_effects s)[e := (sn_prepared_effects s ! e)\<lparr>pe_ticket := Some j\<rparr>]"
    by (simp add: u_def)
  have u: "balance k u = balance k s + (if k = j then 1 else 0)"
    using held_update [OF e(1) eff, of k] none e by (auto simp: balance_def u_def holds_ticket_def)
  show ?thesis
  proof (cases "ho_stage ops (Staged_Prepared e)")
    case True
    then have "t = u\<lparr>sn_staged := sn_staged u @ [Staged_Prepared e]\<rparr>"
      using res by (auto simp: stage_prepared_def stage_effect_def u_def)
    then show ?thesis using u by (simp add: balance_def held_def)
  next
    case False
    have el: "e < length (sn_prepared_effects u)" and eu: "sn_prepared_effects u ! e =
        (sn_prepared_effects s ! e)\<lparr>pe_ticket := Some j\<rparr>" using e by (simp_all add: eff)
    from False have t: "t = call_ticket False (Some j) (rollback_prepared_effect_locked e u)"
      using res e by (auto simp: stage_prepared_def stage_effect_def u_def [symmetric]
          discard_prepared_effect_def eu)
    have efft: "sn_prepared_effects t = (sn_prepared_effects u)[e := (sn_prepared_effects u ! e)\<lparr>pe_in_use := False\<rparr>]"
      by (simp add: t rollback_prepared_effect_locked_def)
    have log: "sn_ticket_log t = sn_ticket_log u @ [(j, False)]"
      by (simp add: t call_ticket_def rollback_prepared_effect_locked_def)
    have "balance k t = balance k u"
      using held_update [OF el efft, of k] e by (auto simp: balance_def log holds_ticket_def eu)
    then show ?thesis using u by simp
  qed
qed

section \<open>Steps of a transaction\<close>

text \<open>The ticket the adapter hands out in a step, if it is asked and accepts.\<close>

definition accepted_ticket :: "adapter_reply \<Rightarrow> adapter_ticket list" where
  "accepted_ticket reply =
     (case reply of (status, ticket) \<Rightarrow>
        if status \<noteq> SCXML_ADAPTER_ACCEPTED then [] else case ticket of None \<Rightarrow> [] | Some k \<Rightarrow> [k])"

fun answered :: "registry_op \<Rightarrow> scxml_session_impl \<Rightarrow> adapter_ticket list" where
  "answered (Do_Send ident delay copy during reply) s =
     (case fst (reserve_send ident delay copy s) of Inl e \<Rightarrow> accepted_ticket reply | Inr kind \<Rightarrow> [])"
| "answered (Do_Cancel ident during reply) s =
     (if sn_has_event_io s \<and> scxml_runtime_find_delayed_send_locked ident s \<noteq> None \<and>
         fst (acquire_prepared_effect_locked s) \<noteq> None
      then accepted_ticket reply else [])"
| "answered (Do_Report ident) s = []"

lemma all_staged_same: "same_registry s t \<Longrightarrow> all_staged s \<Longrightarrow> all_staged t"
  using same_registry_inv [of s t] same_registry_idle [of s t] used_slots_cong [of t s]
  by (simp add: all_staged_def staging_def same_registry_def)

text \<open>The tail that a send and a cancel share, after the adapter has answered.\<close>

lemma answer_facts:
  assumes ready: "flight_ready e s" and none: "pe_ticket (sn_prepared_effects s ! e) = None"
    and staged: "prepared_staged s = used_slots s - {e}"
    and res: "(if status \<noteq> SCXML_ADAPTER_ACCEPTED then failure (rollback_prepared_effect_locked e s)
          else (case ticket of
                  None \<Rightarrow> (SCXML_EXECUTE_FATAL, rollback_prepared_effect_locked e s)
                | Some k \<Rightarrow> stage_prepared ops e k s)) = (outcome, t)"
    and failure: "\<And>u. same_registry u (snd (failure u))"
  shows "all_staged t \<and> (\<forall>k. balance k t = balance k s + count_list (accepted_ticket (status, ticket)) k)"
proof -
  note R = rollback_facts [OF ready]
  have eu: "e \<in> used_slots s" using ready by (simp add: flight_ready_def)
  let ?b = "rollback_prepared_effect_locked e s"
  have undone: "all_staged ?b" using R staged by (simp add: all_staged_def prepared_staged_def)
  have bal: "balance k ?b = balance k s" for k using rollback_balance [OF eu none] .
  show ?thesis
  proof (cases "status = SCXML_ADAPTER_ACCEPTED")
    case False
    then have "t = snd (failure ?b)" using res by (metis snd_conv)
    then show ?thesis
      using undone bal failure [of ?b] all_staged_same same_registry_balance False
      by (auto simp: accepted_ticket_def)
  next
    case acc: True
    show ?thesis
    proof (cases ticket)
      case None
      then show ?thesis using res acc undone bal by (auto simp: accepted_ticket_def)
    next
      case (Some k)
      then have "stage_prepared ops e k s = (outcome, t)" using res acc by simp
      then show ?thesis
        using stage_prepared_facts(1) [OF ready staged] stage_prepared_balance [OF ready none] acc Some
        by (auto simp: accepted_ticket_def)
    qed
  qed
qed

lemma send_step_facts:
  assumes st: "all_staged s"
    and res: "execute_adapter_send ops ident delay copy during reply s = (outcome, t)"
  shows "all_staged t \<and> (\<forall>k. balance k t = balance k s +
           count_list (answered (Do_Send ident delay copy during reply) s) k)"
proof -
  obtain result s0 where r: "reserve_send ident delay copy s = (result, s0)" by fastforce
  have staging: "staging s" and stg: "prepared_staged s = used_slots s" using st by (simp_all add: all_staged_def)
  note F = reserve_send_facts [OF staging r]
  note B = reserve_send_balance [OF r]
  show ?thesis
  proof (cases result)
    case (Inr kind)
    then have t: "t = snd (raise_adapter_error ops kind s0)"
      using res r by (auto simp: execute_adapter_send_def)
    have "all_staged s0" using F Inr stg by (simp add: all_staged_def prepared_staged_def)
    then show ?thesis
      using t B Inr r same_registry_adapter_error [of s0 ops kind] all_staged_same same_registry_balance
      by auto
  next
    case (Inl e)
    let ?s1 = "reports during s0"
    have rep: "reported i s0 ?s1" for i by (rule reports_reported)
    have ready: "flight_ready e ?s1" using F Inl flight_ready_reports by simp
    have none: "pe_ticket (sn_prepared_effects ?s1 ! e) = None"
      using B Inl rep by (simp add: reported_def)
    have staged: "prepared_staged ?s1 = used_slots ?s1 - {e}"
      using F Inl stg rep [of 0] by (simp add: reported_def prepared_staged_def used_slots_def)
    have "(if fst reply \<noteq> SCXML_ADAPTER_ACCEPTED
          then send_failure_outcome ops ident copy (fst reply) (rollback_prepared_effect_locked e ?s1)
          else (case snd reply of
                  None \<Rightarrow> (SCXML_EXECUTE_FATAL, rollback_prepared_effect_locked e ?s1)
                | Some k \<Rightarrow> stage_prepared ops e k ?s1)) = (outcome, t)"
      using res r Inl by (auto simp: execute_adapter_send_def Let_def split: prod.splits)
    from answer_facts [OF ready none staged this same_registry_send_failure]
    show ?thesis using B r Inl reported_balance [OF rep] by simp
  qed
qed

lemma cancel_row_fits:
  "row_fits d n r \<Longrightarrow> live_row r \<Longrightarrow>
     row_fits d (Suc n) (r\<lparr>ds_previous := ds_state r, ds_state := SCXML_DELAYED_CANCEL_RESERVED\<rparr>)"
  by (auto simp: row_fits_def live_row_def split: scxml_delayed_state.splits)

text \<open>The cancel has its slot, and the row is marked.\<close>

lemma cancel_reserved:
  assumes st: "all_staged s" and f: "scxml_runtime_find_delayed_send_locked ident s = Some i"
    and acq: "acquire_prepared_effect_locked s = (Some e, s1)"
    and u: "u = upd_delayed i
       (\<lambda>r. r\<lparr>ds_previous := ds_state r, ds_state := SCXML_DELAYED_CANCEL_RESERVED\<rparr>)
       (upd_prepared e (\<lambda>p. p\<lparr>pe_kind := SCXML_PREPARED_CANCEL, pe_index := Some i\<rparr>) s1)"
  shows "flight_ready e u" "pe_ticket (sn_prepared_effects u ! e) = None"
    "prepared_staged u = used_slots u - {e}"
    "sn_prepared_effects u ! e =
       no_prepared_effect\<lparr>pe_in_use := True, pe_kind := SCXML_PREPARED_CANCEL, pe_index := Some i\<rparr>"
    "sn_delayed_sends u = (sn_delayed_sends s)[i := (sn_delayed_sends s ! i)
       \<lparr>ds_previous := ds_state (sn_delayed_sends s ! i), ds_state := SCXML_DELAYED_CANCEL_RESERVED\<rparr>]"
    "balance k u = balance k s"
proof -
  note F = find_delayed_SomeD [OF f]
  note A = acquire_SomeD [OF acq]
  let ?r = "(sn_delayed_sends s ! i)\<lparr>ds_previous := ds_state (sn_delayed_sends s ! i),
                 ds_state := SCXML_DELAYED_CANCEL_RESERVED\<rparr>"
  let ?x = "no_prepared_effect\<lparr>pe_in_use := True, pe_kind := SCXML_PREPARED_CANCEL, pe_index := Some i\<rparr>"
  have eff: "sn_prepared_effects u = (sn_prepared_effects s)[e := ?x]" using A by (simp add: u)
  show rows: "sn_delayed_sends u = (sn_delayed_sends s)[i := ?r]" by (simp add: u A(3))
  have log: "sn_ticket_log u = sn_ticket_log s" "sn_staged u = sn_staged s" by (simp_all add: u A(3))
  have staging: "staging s" and inv: "registry_inv s" using st by (simp_all add: all_staged_def staging_def)
  have uniq: "unique_by live_row ds_id ((sn_delayed_sends s)[i := ?r])"
    using registry_invD(2) [OF inv] F(1) by (rule unique_by_update_same) (use F(2) in simp)
  have taken: "staging u" "e \<in> used_slots u" "used_slots u = insert e (used_slots s)"
    using slot_taken [OF staging A(1,2) F(1) eff _ _ _ rows _ uniq]
      cancel_row_fits [OF registry_invD(1) [OF inv F(1)] F(2)]
    by (simp_all add: live_row_def)
  have fl: "in_flight i u" using F(1,2) by (simp add: in_flight_def rows live_row_def)
  show xe: "sn_prepared_effects u ! e = ?x" using A(1) by (simp add: eff)
  show "flight_ready e u" using taken fl by (simp add: flight_ready_def xe)
  show "pe_ticket (sn_prepared_effects u ! e) = None" by (simp add: xe no_prepared_effect_def)
  have "e \<notin> used_slots s" using A(2) by (simp add: used_slots_def)
  then show "prepared_staged u = used_slots u - {e}"
    using st taken(3) log by (auto simp: prepared_staged_def all_staged_def)
  show "balance k u = balance k s"
    using held_update [OF A(1) eff, of k] A(2)
    by (simp add: balance_def log holds_ticket_def no_prepared_effect_def)
qed

lemma cancel_step_facts:
  assumes st: "all_staged s" and res: "execute_cancel ops ident during reply s = (outcome, t)"
  shows "all_staged t \<and> (\<forall>k. balance k t = balance k s +
           count_list (answered (Do_Cancel ident during reply) s) k)"
proof (cases "sn_has_event_io s \<and> scxml_runtime_find_delayed_send_locked ident s \<noteq> None")
  case False
  then have "t = s" using res by (auto simp: execute_cancel_def split: if_splits)
  then show ?thesis using st False by auto
next
  case True
  then obtain i where f: "scxml_runtime_find_delayed_send_locked ident s = Some i" by blast
  obtain oe s1 where acq: "acquire_prepared_effect_locked s = (oe, s1)" by fastforce
  show ?thesis
  proof (cases oe)
    case None
    then have "t = snd (raise_adapter_error ops SCXML_ADAPTER_ERROR_KIND_COMMUNICATION s)"
      using res True f acq acquire_NoneD [of s s1] by (auto simp: execute_cancel_def)
    then have same: "same_registry s t" by (simp add: same_registry_adapter_error)
    show ?thesis
      using all_staged_same [OF same st] same_registry_balance [OF same] acq None by simp
  next
    case (Some e)
    define u where "u = upd_delayed i
       (\<lambda>r. r\<lparr>ds_previous := ds_state r, ds_state := SCXML_DELAYED_CANCEL_RESERVED\<rparr>)
       (upd_prepared e (\<lambda>p. p\<lparr>pe_kind := SCXML_PREPARED_CANCEL, pe_index := Some i\<rparr>) s1)"
    note U = cancel_reserved [OF st f acq [unfolded Some] u_def]
    have ready: "flight_ready e (reports during u)" by (rule flight_ready_reports [OF U(1)])
    have rep: "reported j u (reports during u)" for j by (rule reports_reported)
    have none: "pe_ticket (sn_prepared_effects (reports during u) ! e) = None"
      using rep [of 0] U(2) by (simp add: reported_def)
    have staged: "prepared_staged (reports during u) = used_slots (reports during u) - {e}"
      using rep [of 0] U(3) by (simp add: reported_def prepared_staged_def used_slots_def)
    have "(if fst reply \<noteq> SCXML_ADAPTER_ACCEPTED
          then adapter_failure_outcome ops (fst reply) (rollback_prepared_effect_locked e (reports during u))
          else (case snd reply of
                  None \<Rightarrow> (SCXML_EXECUTE_FATAL, rollback_prepared_effect_locked e (reports during u))
                | Some k \<Rightarrow> stage_prepared ops e k (reports during u))) = (outcome, t)"
      using res True f acq Some unfolding u_def by (auto simp: execute_cancel_def Let_def split: prod.splits)
    from answer_facts [OF ready none staged this same_registry_adapter_failure]
    show ?thesis using U(6) reported_balance [OF rep] True acq Some by simp
  qed
qed

lemma registry_step_facts:
  assumes "all_staged s" "registry_step ops op s = (outcome, t)"
  shows "all_staged t \<and> (\<forall>k. balance k t = balance k s + count_list (answered op s) k)"
proof (cases op)
  case (Do_Report ident)
  then have "t = snd (scxml_session_report_send_done ident s)" using assms by simp
  then have rep: "reported i s t" for i using report_reported by simp
  then have "all_staged t"
    using assms(1) by (auto simp: all_staged_def staging_def reported_def prepared_staged_def used_slots_def)
  then show ?thesis using Do_Report reported_balance [OF rep] by simp
next
  case (Do_Send ident delay copy during reply)
  then show ?thesis using send_step_facts [OF assms(1)] assms(2) by (simp del: answered.simps)
next
  case (Do_Cancel ident during reply)
  then show ?thesis using cancel_step_facts [OF assms(1)] assms(2) by (simp del: answered.simps)
qed

section \<open>Resolving a transaction\<close>

lemma finish_effect_facts:
  assumes inv: "registry_inv s" and f: "finishes f" and e: "e \<in> used_slots s"
    and t: "t = call_ticket c (pe_ticket (sn_prepared_effects s ! e))
               (upd_prepared e (\<lambda>p. p\<lparr>pe_in_use := False\<rparr>) (effect_row f e s))"
  shows "registry_inv t" "used_slots t = used_slots s - {e}" "balance k t = balance k s"
proof -
  have el: "e < length (sn_prepared_effects s)" and used: "pe_in_use (sn_prepared_effects s ! e)"
    using e by (auto simp: used_slots_def)
  have eff: "sn_prepared_effects t = (sn_prepared_effects s)[e := (sn_prepared_effects s ! e)\<lparr>pe_in_use := False\<rparr>]"
    by (simp add: t)
  have rows: "sn_delayed_sends t = sn_delayed_sends (effect_row f e s)" by (simp add: t)
  show "registry_inv t" by (rule effect_finished [OF inv f el used eff _ rows]) simp
  show "used_slots t = used_slots s - {e}" using used_slot_update [OF el eff] by simp
  have log: "sn_ticket_log t = sn_ticket_log s @
      (case pe_ticket (sn_prepared_effects s ! e) of None \<Rightarrow> [] | Some j \<Rightarrow> [(j, c)])"
    by (simp add: t call_ticket_def split: option.split)
  show "balance k t = balance k s"
    using held_update [OF el eff, of k] used
    by (auto simp: balance_def log holds_ticket_def split: option.splits if_splits)
qed

lemma resolve_ticket_facts:
  assumes "registry_inv s" and bound: "\<forall>e. t = Staged_Prepared e \<longrightarrow> e < length (sn_prepared_effects s)"
  shows "registry_inv (resolve_ticket c t s)"
    "used_slots (resolve_ticket c t s) = used_slots s - {e. t = Staged_Prepared e}"
    "balance k (resolve_ticket c t s) = balance k s"
proof -
  have "registry_inv (resolve_ticket c t s) \<and>
    used_slots (resolve_ticket c t s) = used_slots s - {e. t = Staged_Prepared e} \<and>
    balance k (resolve_ticket c t s) = balance k s"
  proof (cases t)
    case (Staged_Prepared e)
    show ?thesis
    proof (cases "e \<in> used_slots s")
      case True
      then have u: "pe_in_use (sn_prepared_effects s ! e)" by (simp add: used_slots_def)
      show ?thesis
      proof (cases c)
        case True
        have "resolve_ticket c t s = call_ticket True (pe_ticket (sn_prepared_effects s ! e))
               (upd_prepared e (\<lambda>p. p\<lparr>pe_in_use := False\<rparr>) (effect_row commit_row e s))"
          using True u by (simp add: resolve_ticket_def Staged_Prepared commit_prepared_effect_def)
        from finish_effect_facts [OF assms(1) finishes_both(1) \<open>e \<in> used_slots s\<close> this]
        show ?thesis by (simp add: Staged_Prepared)
      next
        case False
        have "resolve_ticket c t s = call_ticket False (pe_ticket (sn_prepared_effects s ! e))
               (upd_prepared e (\<lambda>p. p\<lparr>pe_in_use := False\<rparr>) (effect_row rollback_row e s))"
          using False u by (simp add: resolve_ticket_def Staged_Prepared discard_prepared_effect_def
              rollback_prepared_effect_locked_def)
        from finish_effect_facts [OF assms(1) finishes_both(2) \<open>e \<in> used_slots s\<close> this]
        show ?thesis by (simp add: Staged_Prepared)
      qed
    next
      case False
      have "resolve_ticket c t s = s"
        using False bound
        by (simp add: used_slots_def resolve_ticket_def Staged_Prepared commit_prepared_effect_def
            discard_prepared_effect_def)
      then show ?thesis using assms(1) False by (simp add: Staged_Prepared)
    qed
  next
    case (Staged_Metadata i)
    then have "same_registry s (resolve_ticket c t s)"
      using same_registry_release by (simp add: resolve_ticket_def)
    note same = this
    have "used_slots (resolve_ticket c t s) = used_slots s"
      using same by (intro used_slots_cong) (simp add: same_registry_def)
    then show ?thesis
      using assms(1) same_registry_inv [OF same] same_registry_balance [OF same]
      by (simp add: Staged_Metadata)
  next
    case (Staged_Invocation i)
    then show ?thesis using assms(1) by (simp add: resolve_ticket_def)
  qed
  then show "registry_inv (resolve_ticket c t s)"
    "used_slots (resolve_ticket c t s) = used_slots s - {e. t = Staged_Prepared e}"
    "balance k (resolve_ticket c t s) = balance k s" by auto
qed

lemma resolve_ticket_length:
  "length (sn_prepared_effects (resolve_ticket c t s)) = length (sn_prepared_effects s)"
proof (cases t)
  case (Staged_Metadata i)
  then show ?thesis using same_registry_release [of s i]
    by (simp add: resolve_ticket_def same_registry_def)
qed (simp_all add: resolve_ticket_def commit_prepared_effect_def discard_prepared_effect_def
      rollback_prepared_effect_locked_def)

definition resolve_list ::
  "bool \<Rightarrow> (staged_ticket \<Rightarrow> cbytes list) \<Rightarrow> staged_ticket list \<Rightarrow> scxml_session_impl \<Rightarrow> scxml_session_impl"
where
  "resolve_list c during ts s = fold (\<lambda>t u. resolve_ticket c t (reports (during t) u)) ts s"

lemma resolve_list_facts:
  assumes "registry_inv s" "\<forall>e. Staged_Prepared e \<in> set ts \<longrightarrow> e < length (sn_prepared_effects s)"
  shows "registry_inv (resolve_list c during ts s) \<and>
    used_slots (resolve_list c during ts s) = used_slots s - {e. Staged_Prepared e \<in> set ts} \<and>
    balance k (resolve_list c during ts s) = balance k s"
  using assms
proof (induction ts arbitrary: s)
  case Nil
  then show ?case by (simp add: resolve_list_def)
next
  case (Cons t ts)
  let ?r = "reports (during t) s"
  have rep: "reported i s ?r" for i by (rule reports_reported)
  have r: "registry_inv ?r" "used_slots ?r = used_slots s" "balance k ?r = balance k s"
    "length (sn_prepared_effects ?r) = length (sn_prepared_effects s)"
    using rep [of 0] Cons.prems(1) reported_balance [OF rep]
    by (simp_all add: reported_def used_slots_def)
  have bound: "\<forall>e. t = Staged_Prepared e \<longrightarrow> e < length (sn_prepared_effects ?r)"
    unfolding r(4) using Cons.prems(2) by simp
  note R = resolve_ticket_facts [OF r(1) bound, where c = c]
  have "\<forall>e. Staged_Prepared e \<in> set ts \<longrightarrow> e < length (sn_prepared_effects (resolve_ticket c t ?r))"
    using Cons.prems(2) r(4) by (simp add: resolve_ticket_length)
  from Cons.IH [OF R(1) this] show ?case
    using R(2,3) r by (auto simp: resolve_list_def)
qed

text \<open>Between transactions nothing is in flight: every row is free or holds a pending send.\<close>

definition quiet :: "scxml_session_impl \<Rightarrow> bool" where
  "quiet s \<longleftrightarrow> registry_inv s \<and> used_slots s = {} \<and> prepared_staged s = {}"

lemma quiet_waiting: "quiet s \<Longrightarrow> waiting k i s = 0"
  unfolding quiet_def waiting_def count_if_zero_iff
  by (auto simp: used_slots_def waits_def in_set_conv_nth)

lemma quiet_all_staged: assumes "quiet s" shows "all_staged s"
proof -
  have "free_rows_idle s" by (simp add: free_rows_idle_def quiet_waiting [OF assms])
  then show ?thesis using assms by (simp add: all_staged_def staging_def quiet_def)
qed

lemma quiet_rows:
  assumes "quiet s" "r \<in> set (sn_delayed_sends s)"
  shows "r = no_delayed_send \<or> ds_state r = SCXML_DELAYED_ACTIVE"
proof -
  obtain i where i: "i < length (sn_delayed_sends s)" "r = sn_delayed_sends s ! i"
    using assms(2) by (auto simp: in_set_conv_nth)
  have "registry_inv s" using assms(1) by (simp add: quiet_def)
  from registry_invD(1) [OF this i(1)] have "row_fits 0 0 r"
    by (simp only: quiet_waiting [OF assms(1)] i(2))
  then show ?thesis
    by (cases "ds_state r"; cases "ds_previous r") (simp_all add: row_fits_def)
qed

lemma registry_run_facts:
  assumes "all_staged s" shows "all_staged (registry_run ops w s)"
  using assms
proof (induction w arbitrary: s)
  case (Cons op w)
  have "all_staged (snd (registry_step ops op s))"
    using registry_step_facts [OF Cons.prems, of ops op] by (metis prod.collapse)
  from Cons.IH [OF this] show ?case by (simp add: registry_run_def)
qed (simp add: registry_run_def)

lemma resolve_all_facts:
  assumes "all_staged s"
  shows "quiet (resolve_all c during s)" "balance k (resolve_all c during s) = balance k s"
proof -
  have inv: "registry_inv s" and staged: "prepared_staged s = used_slots s"
    using assms by (simp_all add: all_staged_def staging_def)
  have bound: "\<forall>e. Staged_Prepared e \<in> set (sn_staged s) \<longrightarrow> e < length (sn_prepared_effects s)"
    using staged by (auto simp: prepared_staged_def used_slots_def)
  note R = resolve_list_facts [OF inv bound, of c during]
  have eq: "resolve_all c during s = (resolve_list c during (sn_staged s) s)\<lparr>sn_staged := []\<rparr>"
    by (simp add: resolve_all_def resolve_list_def)
  show "quiet (resolve_all c during s)"
    using R staged registry_inv_cong [of "resolve_all c during s" "resolve_list c during (sn_staged s) s"]
      used_slots_cong [of "resolve_all c during s" "resolve_list c during (sn_staged s) s"]
    by (simp add: quiet_def eq prepared_staged_def)
  show "balance k (resolve_all c during s) = balance k s"
    using R [of k] by (simp add: eq balance_def held_def)
qed

end
