(* ===== verification/Session_Registry_Spec.thy ===== *)
theory Session_Registry_Spec
  imports Session_Registry_Inv
begin

text \<open>
  What the delayed-send registry promises: the set of sends that are pending, and what a committed
  and a discarded transaction make of it.
\<close>

section \<open>Pending sends\<close>

definition ids_where :: "(scxml_delayed_send \<Rightarrow> bool) \<Rightarrow> scxml_session_impl \<Rightarrow> string set" where
  "ids_where P s = ds_id ` {r \<in> set (sn_delayed_sends s). P r}"

definition pending_row :: "scxml_delayed_send \<Rightarrow> bool" where
  "pending_row r \<longleftrightarrow> ds_state r = SCXML_DELAYED_ACTIVE"

definition pending :: "scxml_session_impl \<Rightarrow> string set" where
  "pending = ids_where pending_row"

text \<open>Rows that a commit of everything staged leaves pending, and rows that a discard does.\<close>

definition would_commit :: "scxml_delayed_send \<Rightarrow> bool" where
  "would_commit r \<longleftrightarrow> ds_state r = SCXML_DELAYED_RESERVED \<or> ds_state r = SCXML_DELAYED_ACTIVE"

definition would_discard :: "scxml_delayed_send \<Rightarrow> bool" where
  "would_discard r \<longleftrightarrow> ds_state r = SCXML_DELAYED_ACTIVE \<or>
     ds_state r = SCXML_DELAYED_CANCEL_RESERVED \<and> ds_previous r = SCXML_DELAYED_ACTIVE"

lemma would_live: "would_commit r \<Longrightarrow> live_row r" "would_discard r \<Longrightarrow> live_row r"
  by (auto simp: would_commit_def would_discard_def live_row_def)

lemma would_free [simp]: "\<not> would_commit no_delayed_send" "\<not> would_discard no_delayed_send"
  by (auto simp: would_commit_def would_discard_def)

lemma commit_row_keeps:
  "would_commit (commit_row k r) \<longleftrightarrow> would_commit r"
  "would_commit r \<Longrightarrow> ds_id (commit_row k r) = ds_id r"
  by (auto simp: would_commit_def commit_row_def)

lemma rollback_row_keeps:
  "would_discard (rollback_row k r) \<longleftrightarrow> would_discard r"
  "would_discard r \<Longrightarrow> ds_id (rollback_row k r) = ds_id r"
  by (auto simp: would_discard_def rollback_row_def)

lemma ids_where_cong: "sn_delayed_sends t = sn_delayed_sends s \<Longrightarrow> ids_where P t = ids_where P s"
  by (simp add: ids_where_def)

text \<open>The ids after one row changes; ids of live rows are distinct.\<close>

lemma ids_where_update:
  assumes uniq: "unique_by live_row ds_id (sn_delayed_sends s)" and i: "i < length (sn_delayed_sends s)"
    and rows: "sn_delayed_sends t = (sn_delayed_sends s)[i := r]" and P: "\<And>x. P x \<Longrightarrow> live_row x"
    and live: "live_row (sn_delayed_sends s ! i)"
  shows "ids_where P t = (ids_where P s - {ds_id (sn_delayed_sends s ! i)}) \<union> (if P r then {ds_id r} else {})"
proof -
  let ?xs = "sn_delayed_sends s"
  have at: "ds_id (?xs ! j) \<noteq> ds_id (?xs ! i)" if "j < length ?xs" "j \<noteq> i" "P (?xs ! j)" for j
    using unique_byD [OF uniq, of j i] that i live P by blast
  have "{x \<in> set (?xs[i := r]). P x} = {?xs ! j | j. j < length ?xs \<and> j \<noteq> i \<and> P (?xs ! j)} \<union> (if P r then {r} else {})"
    using i by (auto simp: in_set_conv_nth nth_list_update split: if_splits)
  then have "ids_where P t = ds_id ` {?xs ! j | j. j < length ?xs \<and> j \<noteq> i \<and> P (?xs ! j)} \<union>
      (if P r then {ds_id r} else {})"
    by (simp add: ids_where_def rows)
  also have "ds_id ` {?xs ! j | j. j < length ?xs \<and> j \<noteq> i \<and> P (?xs ! j)} =
      ids_where P s - {ds_id (?xs ! i)}"
    unfolding ids_where_def using at by (auto simp: in_set_conv_nth)
  finally show ?thesis .
qed

lemma ids_where_free_row:
  assumes i: "i < length (sn_delayed_sends s)" and free: "\<not> P (sn_delayed_sends s ! i)"
    and rows: "sn_delayed_sends t = (sn_delayed_sends s)[i := r]"
  shows "ids_where P t = ids_where P s \<union> (if P r then {ds_id r} else {})"
proof -
  let ?xs = "sn_delayed_sends s"
  have "{x \<in> set (?xs[i := r]). P x} = {x \<in> set ?xs. P x} \<union> (if P r then {r} else {})"
    using i free by (auto simp: in_set_conv_nth nth_list_update split: if_splits)
  then show ?thesis by (auto simp: ids_where_def rows)
qed

lemma ids_where_row_kept:
  assumes i: "i < length (sn_delayed_sends s)"
    and keep: "P r \<longleftrightarrow> P (sn_delayed_sends s ! i)" "P r \<Longrightarrow> ds_id r = ds_id (sn_delayed_sends s ! i)"
    and rows: "sn_delayed_sends t = (sn_delayed_sends s)[i := r]"
  shows "ids_where P t = ids_where P s"
proof -
  have "map (\<lambda>r. if P r then Some (ds_id r) else None) ((sn_delayed_sends s)[i := r]) =
        map (\<lambda>r. if P r then Some (ds_id r) else None) (sn_delayed_sends s)"
    using i keep by (intro nth_equalityI) (auto simp: nth_list_update)
  then have "set (map (\<lambda>r. if P r then Some (ds_id r) else None) (sn_delayed_sends t)) =
        set (map (\<lambda>r. if P r then Some (ds_id r) else None) (sn_delayed_sends s))"
    by (simp only: rows)
  moreover have "ids_where P u = {x. Some x \<in> set (map (\<lambda>r. if P r then Some (ds_id r) else None) (sn_delayed_sends u))}"
    for u by (auto simp: ids_where_def split: if_splits)
  ultimately show ?thesis by (simp only:)
qed

lemma pending_quiet:
  assumes "quiet s"
  shows "pending s = ids_where would_commit s" "pending s = ids_where would_discard s"
    "pending s = ids_where live_row s"
proof -
  have r: "pending_row r \<longleftrightarrow> would_commit r" "pending_row r \<longleftrightarrow> would_discard r" "pending_row r \<longleftrightarrow> live_row r"
    if "r \<in> set (sn_delayed_sends s)" for r
    using quiet_rows [OF assms that]
    by (auto simp: pending_row_def would_commit_def would_discard_def live_row_def)
  show "pending s = ids_where would_commit s" "pending s = ids_where would_discard s"
    "pending s = ids_where live_row s"
    using r unfolding pending_def ids_where_def by (intro arg_cong [where f = "image ds_id"]; blast)+
qed

section \<open>Resolution\<close>

lemma resolve_ticket_ids:
  assumes "finishes (if c then commit_row else rollback_row)"
    and P: "\<And>k r. P ((if c then commit_row else rollback_row) k r) \<longleftrightarrow> P r"
      "\<And>k r. P r \<Longrightarrow> ds_id ((if c then commit_row else rollback_row) k r) = ds_id r"
  shows "ids_where P (resolve_ticket c t s) = ids_where P s"
proof -
  let ?f = "if c then commit_row else rollback_row"
  have er: "ids_where P (effect_row ?f e s) = ids_where P s" for e
  proof (cases "pe_index (sn_prepared_effects s ! e)")
    case (Some i)
    show ?thesis
    proof (cases "i < length (sn_delayed_sends s)")
      case True
      then show ?thesis using Some P
        by (intro ids_where_row_kept [of i s P "?f (pe_kind (sn_prepared_effects s ! e)) (sn_delayed_sends s ! i)"])
          (simp_all add: effect_row_def)
    next
      case False
      then show ?thesis using Some by (simp add: effect_row_def)
    qed
  qed (simp add: effect_row_def)
  show ?thesis
  proof (cases t)
    case (Staged_Prepared e)
    have "sn_delayed_sends (resolve_ticket c t s) = sn_delayed_sends s \<or>
        sn_delayed_sends (resolve_ticket c t s) = sn_delayed_sends (effect_row ?f e s)"
      by (cases c) (simp_all add: resolve_ticket_def Staged_Prepared commit_prepared_effect_def
          discard_prepared_effect_def rollback_prepared_effect_locked_def)
    then show ?thesis using er ids_where_cong by metis
  next
    case (Staged_Metadata i)
    have "sn_delayed_sends (resolve_ticket c t s) = sn_delayed_sends s"
      using same_registry_release [of s i] by (simp add: resolve_ticket_def Staged_Metadata same_registry_def)
    then show ?thesis by (rule ids_where_cong)
  next
    case (Staged_Invocation i)
    then show ?thesis by (simp add: resolve_ticket_def)
  qed
qed

lemma resolve_all_ids:
  assumes "\<And>k r. P ((if c then commit_row else rollback_row) k r) \<longleftrightarrow> P r"
      "\<And>k r. P r \<Longrightarrow> ds_id ((if c then commit_row else rollback_row) k r) = ds_id r"
  shows "ids_where P (resolve_all c (\<lambda>t. []) s) = ids_where P s"
proof -
  have step: "ids_where P (resolve_ticket c t (reports [] u)) = ids_where P u" for t u
    using resolve_ticket_ids [of c P t u, OF _ assms] finishes_both by (simp add: reports_def)
  have "ids_where P (fold (\<lambda>t u. resolve_ticket c t (reports [] u)) ts u) = ids_where P u" for ts u
    by (induction ts arbitrary: u) (simp_all add: step)
  then show ?thesis by (simp add: resolve_all_def ids_where_def)
qed

section \<open>Steps\<close>

lemma restored_row:
  assumes "row_fits d n r" "ds_state r = SCXML_DELAYED_RESERVED \<or> ds_state r = SCXML_DELAYED_ACTIVE"
  shows "r\<lparr>ds_previous := SCXML_DELAYED_FREE\<rparr> = r"
  using assms by (cases r) (auto simp: row_fits_def)

text \<open>A failure is never a success.\<close>

lemma raise_or_fatal_fails: "fst (raise_or_fatal ops e s) \<noteq> SCXML_EXECUTE_CONTINUE"
  by (cases "raise_internal ops e 0 s"; cases "fst (raise_internal ops e 0 s)")
    (simp_all add: raise_or_fatal_def)

lemma adapter_failure_fails: "fst (adapter_failure_outcome ops st s) \<noteq> SCXML_EXECUTE_CONTINUE"
  by (cases "failure_kind st")
    (simp_all add: adapter_failure_outcome_def raise_adapter_error_def raise_or_fatal_fails)

lemma send_failure_fails: "fst (send_failure_outcome ops ident copy st s) \<noteq> SCXML_EXECUTE_CONTINUE"
proof (cases "failure_kind st")
  case None
  then show ?thesis by (simp add: send_failure_outcome_def adapter_failure_fails)
next
  case (Some kind)
  have pair: "fst (case x of (b, u) \<Rightarrow> if b then (SCXML_EXECUTE_BLOCK_ABORTED, f u) else (SCXML_EXECUTE_FATAL, u))
      \<noteq> SCXML_EXECUTE_CONTINUE" for x and f :: "scxml_session_impl \<Rightarrow> scxml_session_impl"
    by (cases x) simp
  show ?thesis
    by (cases "scxml_runtime_reserve_event_metadata (failed_send_metadata ident) s")
      (auto simp: send_failure_outcome_def Some raise_adapter_error_def raise_or_fatal_fails
        split: option.split prod.split bool.split)
qed

lemma answer_rows:
  assumes ready: "flight_ready e s"
    and staged: "prepared_staged s = used_slots s - {e}"
    and res: "(if status \<noteq> SCXML_ADAPTER_ACCEPTED then failure (rollback_prepared_effect_locked e s)
          else (case ticket of
                  None \<Rightarrow> (SCXML_EXECUTE_FATAL, rollback_prepared_effect_locked e s)
                | Some k \<Rightarrow> stage_prepared ops e k s)) = (outcome, t)"
    and failure: "\<And>u. same_registry u (snd (failure u))" "\<And>u. fst (failure u) \<noteq> SCXML_EXECUTE_CONTINUE"
  shows "sn_delayed_sends t =
    (if outcome = SCXML_EXECUTE_CONTINUE then sn_delayed_sends s
     else sn_delayed_sends (effect_row rollback_row e s))"
proof -
  let ?b = "rollback_prepared_effect_locked e s"
  have b: "sn_delayed_sends ?b = sn_delayed_sends (effect_row rollback_row e s)"
    by (simp add: rollback_prepared_effect_locked_def)
  show ?thesis
  proof (cases "status = SCXML_ADAPTER_ACCEPTED")
    case False
    then have "(outcome, t) = failure ?b" using res by simp
    then show ?thesis using failure [of ?b] b by (metis fst_conv same_registry_def snd_conv)
  next
    case acc: True
    show ?thesis
    proof (cases ticket)
      case None
      then show ?thesis using res acc b by auto
    next
      case (Some k)
      then have sp: "stage_prepared ops e k s = (outcome, t)" using res acc by simp
      show ?thesis
      proof (cases "outcome = SCXML_EXECUTE_CONTINUE")
        case True
        then show ?thesis using stage_prepared_facts(2) [OF ready staged sp] by simp
      next
        case False
        then have "\<not> ho_stage ops (Staged_Prepared e)"
          using sp by (auto simp: stage_prepared_def stage_effect_def)
        then have "t = discard_prepared_effect e (upd_prepared e (\<lambda>p. p\<lparr>pe_ticket := Some k\<rparr>) s)"
          using sp by (auto simp: stage_prepared_def stage_effect_def)
        moreover have "e < length (sn_prepared_effects s)" "pe_in_use (sn_prepared_effects s ! e)"
          using ready by (auto simp: flight_ready_def used_slots_def)
        ultimately show ?thesis using False
          by (simp add: discard_prepared_effect_def rollback_prepared_effect_locked_def effect_row_def
              split: option.split)
      qed
    qed
  qed
qed

lemma reserve_send_rows:
  assumes res: "reserve_send ident delay copy s = (Inl e, t)"
  shows "(delay = 0 \<and> sn_delayed_sends t = sn_delayed_sends s \<and>
      pe_index (sn_prepared_effects t ! e) = None) \<or>
    (delay \<noteq> 0 \<and> (\<exists>i. i < length (sn_delayed_sends s) \<and>
      ds_state (sn_delayed_sends s ! i) = SCXML_DELAYED_FREE \<and>
      pe_index (sn_prepared_effects t ! e) = Some i \<and>
      pe_kind (sn_prepared_effects t ! e) = SCXML_PREPARED_DELAYED_SEND \<and>
      sn_delayed_sends t = (sn_delayed_sends s)[i := \<lparr>ds_id = cdata ident, ds_owned = copy,
            ds_state = SCXML_DELAYED_RESERVED, ds_previous = SCXML_DELAYED_FREE\<rparr>]))"
proof -
  obtain oe s1 where acq: "acquire_prepared_effect_locked s = (oe, s1)" by fastforce
  then have oe: "oe = Some e"
    using res by (auto simp: reserve_send_def split: option.splits if_splits prod.splits reserve_result.splits)
  note A = acquire_SomeD [OF acq [unfolded oe]]
  show ?thesis
  proof (cases "delay = 0")
    case True
    then show ?thesis using res acq oe A by (auto simp: reserve_send_def no_prepared_effect_def)
  next
    case delay: False
    show ?thesis
    proof (cases rule: reserve_row_cases [of ident copy s1])
      case (row i)
      then show ?thesis using res acq oe A delay
        by (auto simp: reserve_send_def intro!: exI [of _ i])
    qed (use res acq oe delay in \<open>auto simp: reserve_send_def\<close>)
  qed
qed

text \<open>A send that succeeds adds its id to the rows a commit leaves pending; nothing else changes them.\<close>

lemma send_step_ids:
  assumes st: "all_staged s"
    and res: "execute_adapter_send ops ident delay copy [] reply s = (outcome, t)"
  shows "ids_where would_commit t = ids_where would_commit s \<union>
      (if outcome = SCXML_EXECUTE_CONTINUE \<and> delay \<noteq> 0 then {cdata ident} else {})"
    "ids_where would_discard t = ids_where would_discard s"
    "\<forall>r\<in>set (sn_delayed_sends t). ds_state r = SCXML_DELAYED_CANCEL_RESERVED \<longrightarrow>
       r \<in> set (sn_delayed_sends s)"
proof -
  have staging: "staging s" and stg: "prepared_staged s = used_slots s" and inv: "registry_inv s"
    using st by (simp_all add: all_staged_def staging_def)
  obtain result s0 where r: "reserve_send ident delay copy s = (result, s0)" by fastforce
  note F = reserve_send_facts [OF staging r]
  have "(sn_delayed_sends t = sn_delayed_sends s \<and> (outcome \<noteq> SCXML_EXECUTE_CONTINUE \<or> delay = 0)) \<or>
    (outcome = SCXML_EXECUTE_CONTINUE \<and> delay \<noteq> 0 \<and> (\<exists>i. i < length (sn_delayed_sends s) \<and>
      ds_state (sn_delayed_sends s ! i) = SCXML_DELAYED_FREE \<and>
      sn_delayed_sends t = (sn_delayed_sends s)[i := \<lparr>ds_id = cdata ident, ds_owned = copy,
            ds_state = SCXML_DELAYED_RESERVED, ds_previous = SCXML_DELAYED_FREE\<rparr>]))"
  proof (cases result)
    case (Inr kind)
    then have t: "(outcome, t) = raise_adapter_error ops kind s0"
      using res r by (simp add: execute_adapter_send_def)
    have "t = snd (raise_adapter_error ops kind s0)" using t by (metis snd_conv)
    then have "sn_delayed_sends t = sn_delayed_sends s"
      using F Inr same_registry_adapter_error [of s0 ops kind] by (simp add: same_registry_def)
    moreover have "outcome \<noteq> SCXML_EXECUTE_CONTINUE"
      using t raise_or_fatal_fails [of ops "adapter_error_event kind s0" s0] unfolding raise_adapter_error_def
      by (metis fst_conv)
    ultimately show ?thesis by simp
  next
    case (Inl e)
    have ready: "flight_ready e s0" using F Inl by simp
    have staged: "prepared_staged s0 = used_slots s0 - {e}"
      using F Inl stg by (simp add: prepared_staged_def)
    have fin: "(if fst reply \<noteq> SCXML_ADAPTER_ACCEPTED
          then send_failure_outcome ops ident copy (fst reply) (rollback_prepared_effect_locked e s0)
          else (case snd reply of
                  None \<Rightarrow> (SCXML_EXECUTE_FATAL, rollback_prepared_effect_locked e s0)
                | Some k \<Rightarrow> stage_prepared ops e k s0)) = (outcome, t)"
      using res r Inl by (auto simp: execute_adapter_send_def Let_def reports_def split: prod.splits)
    note rows = answer_rows [OF ready staged fin same_registry_send_failure send_failure_fails]
    from reserve_send_rows [OF r [unfolded Inl]] show ?thesis
    proof
      assume "delay = 0 \<and> sn_delayed_sends s0 = sn_delayed_sends s \<and> pe_index (sn_prepared_effects s0 ! e) = None"
      then show ?thesis using rows by (simp add: effect_row_def)
    next
      assume d: "delay \<noteq> 0 \<and> (\<exists>i. i < length (sn_delayed_sends s) \<and>
        ds_state (sn_delayed_sends s ! i) = SCXML_DELAYED_FREE \<and>
        pe_index (sn_prepared_effects s0 ! e) = Some i \<and>
        pe_kind (sn_prepared_effects s0 ! e) = SCXML_PREPARED_DELAYED_SEND \<and>
        sn_delayed_sends s0 = (sn_delayed_sends s)[i := \<lparr>ds_id = cdata ident, ds_owned = copy,
            ds_state = SCXML_DELAYED_RESERVED, ds_previous = SCXML_DELAYED_FREE\<rparr>])"
      then obtain i where i: "i < length (sn_delayed_sends s)"
        "ds_state (sn_delayed_sends s ! i) = SCXML_DELAYED_FREE"
        "pe_index (sn_prepared_effects s0 ! e) = Some i"
        "pe_kind (sn_prepared_effects s0 ! e) = SCXML_PREPARED_DELAYED_SEND"
        "sn_delayed_sends s0 = (sn_delayed_sends s)[i := \<lparr>ds_id = cdata ident, ds_owned = copy,
            ds_state = SCXML_DELAYED_RESERVED, ds_previous = SCXML_DELAYED_FREE\<rparr>]" by blast
      have blank: "sn_delayed_sends s ! i = no_delayed_send"
        using registry_invD(1) [OF inv i(1)] i(2) by (simp add: row_fits_def)
      have "sn_delayed_sends (effect_row rollback_row e s0) = sn_delayed_sends s"
        using i(1) blank by (simp add: effect_row_def i(3,4,5) rollback_row_def list_update_same_conv)
      then show ?thesis using rows d i by auto
    qed
  qed
  then have "ids_where would_commit t = ids_where would_commit s \<union>
      (if outcome = SCXML_EXECUTE_CONTINUE \<and> delay \<noteq> 0 then {cdata ident} else {}) \<and>
    ids_where would_discard t = ids_where would_discard s \<and>
    (\<forall>r\<in>set (sn_delayed_sends t). ds_state r = SCXML_DELAYED_CANCEL_RESERVED \<longrightarrow>
       r \<in> set (sn_delayed_sends s))"
  proof (elim disjE conjE exE)
    assume "sn_delayed_sends t = sn_delayed_sends s" "outcome \<noteq> SCXML_EXECUTE_CONTINUE"
    then show ?thesis using ids_where_cong [of t s] by simp
  next
    assume "sn_delayed_sends t = sn_delayed_sends s" "delay = 0"
    then show ?thesis using ids_where_cong [of t s] by simp
  next
    fix i
    let ?r = "\<lparr>ds_id = cdata ident, ds_owned = copy,
            ds_state = SCXML_DELAYED_RESERVED, ds_previous = SCXML_DELAYED_FREE\<rparr>"
    assume i: "i < length (sn_delayed_sends s)" "ds_state (sn_delayed_sends s ! i) = SCXML_DELAYED_FREE"
      and rows: "sn_delayed_sends t = (sn_delayed_sends s)[i := ?r]"
      and ok: "outcome = SCXML_EXECUTE_CONTINUE" "delay \<noteq> 0"
    have "\<not> would_commit (sn_delayed_sends s ! i)" "\<not> would_discard (sn_delayed_sends s ! i)"
      using i(2) by (simp_all add: would_commit_def would_discard_def)
    from ids_where_free_row [of i s would_commit t ?r, OF i(1) this(1) rows]
      ids_where_free_row [of i s would_discard t ?r, OF i(1) this(2) rows]
    show ?thesis using ok rows
      by (auto simp: would_commit_def would_discard_def dest!: set_update_memD)
  qed
  then show "ids_where would_commit t = ids_where would_commit s \<union>
      (if outcome = SCXML_EXECUTE_CONTINUE \<and> delay \<noteq> 0 then {cdata ident} else {})"
    "ids_where would_discard t = ids_where would_discard s"
    "\<forall>r\<in>set (sn_delayed_sends t). ds_state r = SCXML_DELAYED_CANCEL_RESERVED \<longrightarrow>
       r \<in> set (sn_delayed_sends s)" by blast+
qed

text \<open>A cancel: the row it finds, and the row it leaves.\<close>

lemma cancel_step_rows:
  assumes st: "all_staged s" and res: "execute_cancel ops ident [] reply s = (outcome, t)"
  shows "(sn_delayed_sends t = sn_delayed_sends s \<and>
      (outcome = SCXML_EXECUTE_CONTINUE \<longrightarrow> scxml_runtime_find_delayed_send_locked ident s = None)) \<or>
    (\<exists>i. i < length (sn_delayed_sends s) \<and> live_row (sn_delayed_sends s ! i) \<and>
      ident = CBytes (ds_id (sn_delayed_sends s ! i)) \<and>
      sn_delayed_sends t = (sn_delayed_sends s)[i :=
        (if outcome = SCXML_EXECUTE_CONTINUE
         then (sn_delayed_sends s ! i)\<lparr>ds_previous := ds_state (sn_delayed_sends s ! i),
                 ds_state := SCXML_DELAYED_CANCEL_RESERVED\<rparr>
         else (sn_delayed_sends s ! i)\<lparr>ds_previous := SCXML_DELAYED_FREE\<rparr>)])"
proof (cases "sn_has_event_io s \<and> scxml_runtime_find_delayed_send_locked ident s \<noteq> None")
  case False
  then show ?thesis using res by (auto simp: execute_cancel_def split: if_splits)
next
  case True
  then obtain i where f: "scxml_runtime_find_delayed_send_locked ident s = Some i" by blast
  note F = find_delayed_SomeD [OF f]
  obtain oe s1 where acq: "acquire_prepared_effect_locked s = (oe, s1)" by fastforce
  show ?thesis
  proof (cases oe)
    case None
    then have t: "(outcome, t) = raise_adapter_error ops SCXML_ADAPTER_ERROR_KIND_COMMUNICATION s"
      using res True f acq acquire_NoneD [of s s1] by (auto simp: execute_cancel_def)
    have "t = snd (raise_adapter_error ops SCXML_ADAPTER_ERROR_KIND_COMMUNICATION s)"
      using t by (metis snd_conv)
    then have "sn_delayed_sends t = sn_delayed_sends s"
      using same_registry_adapter_error [of s] by (simp add: same_registry_def)
    moreover have "outcome \<noteq> SCXML_EXECUTE_CONTINUE"
      using t raise_or_fatal_fails unfolding raise_adapter_error_def by (metis fst_conv)
    ultimately show ?thesis by simp
  next
    case (Some e)
    note A = acquire_SomeD [OF acq [unfolded Some]]
    let ?r = "(sn_delayed_sends s ! i)\<lparr>ds_previous := ds_state (sn_delayed_sends s ! i),
                 ds_state := SCXML_DELAYED_CANCEL_RESERVED\<rparr>"
    let ?x = "no_prepared_effect\<lparr>pe_in_use := True, pe_kind := SCXML_PREPARED_CANCEL, pe_index := Some i\<rparr>"
    define u where "u = upd_delayed i
       (\<lambda>r. r\<lparr>ds_previous := ds_state r, ds_state := SCXML_DELAYED_CANCEL_RESERVED\<rparr>)
       (upd_prepared e (\<lambda>p. p\<lparr>pe_kind := SCXML_PREPARED_CANCEL, pe_index := Some i\<rparr>) s1)"
    note U = cancel_reserved [OF st f acq [unfolded Some] u_def]
    have fin: "(if fst reply \<noteq> SCXML_ADAPTER_ACCEPTED
          then adapter_failure_outcome ops (fst reply) (rollback_prepared_effect_locked e u)
          else (case snd reply of
                  None \<Rightarrow> (SCXML_EXECUTE_FATAL, rollback_prepared_effect_locked e u)
                | Some k \<Rightarrow> stage_prepared ops e k u)) = (outcome, t)"
      using res True f acq Some unfolding u_def
      by (auto simp: execute_cancel_def Let_def reports_def split: prod.splits)
    note rows = answer_rows [OF U(1,3) fin same_registry_adapter_failure adapter_failure_fails]
    have "sn_delayed_sends (effect_row rollback_row e u) =
        (sn_delayed_sends s)[i := (sn_delayed_sends s ! i)\<lparr>ds_previous := SCXML_DELAYED_FREE\<rparr>]"
      using F(1,2) by (simp add: effect_row_def U(4,5) rollback_row_def live_row_def no_prepared_effect_def)
    then show ?thesis
      using rows F U(5) by (intro disjI2 exI [of _ i]) auto
  qed
qed

lemma cancel_step_ids:
  assumes st: "all_staged s" and res: "execute_cancel ops ident [] reply s = (outcome, t)"
  shows "ids_where would_commit t =
      (if outcome = SCXML_EXECUTE_CONTINUE then ids_where would_commit s - {x. ident = CBytes x}
       else ids_where would_commit s)"
    "(\<forall>r\<in>set (sn_delayed_sends s). ident = CBytes (ds_id r) \<longrightarrow>
        ds_state r \<noteq> SCXML_DELAYED_CANCEL_RESERVED) \<Longrightarrow>
      ids_where would_discard t = ids_where would_discard s"
    "\<forall>r\<in>set (sn_delayed_sends t). ds_state r = SCXML_DELAYED_CANCEL_RESERVED \<longrightarrow>
       (\<exists>r'\<in>set (sn_delayed_sends s). ds_state r' = SCXML_DELAYED_CANCEL_RESERVED \<and> ds_id r' = ds_id r) \<or>
       ident = CBytes (ds_id r)"
    "(\<exists>r\<in>set (sn_delayed_sends s). ident = CBytes (ds_id r) \<and>
        ds_state r = SCXML_DELAYED_CANCEL_RESERVED) \<Longrightarrow> outcome = SCXML_EXECUTE_CONTINUE \<Longrightarrow>
      ids_where would_discard t = ids_where would_discard s - {x. ident = CBytes x}"
proof -
  have inv: "registry_inv s" using st by (simp add: all_staged_def staging_def)
  note uniq = registry_invD(2) [OF inv]
  let ?C = "outcome = SCXML_EXECUTE_CONTINUE"
  have all: "ids_where would_commit t =
      (if ?C then ids_where would_commit s - {x. ident = CBytes x} else ids_where would_commit s) \<and>
    ((\<forall>r\<in>set (sn_delayed_sends s). ident = CBytes (ds_id r) \<longrightarrow>
        ds_state r \<noteq> SCXML_DELAYED_CANCEL_RESERVED) \<longrightarrow>
      ids_where would_discard t = ids_where would_discard s) \<and>
    (\<forall>r\<in>set (sn_delayed_sends t). ds_state r = SCXML_DELAYED_CANCEL_RESERVED \<longrightarrow>
       (\<exists>r'\<in>set (sn_delayed_sends s). ds_state r' = SCXML_DELAYED_CANCEL_RESERVED \<and> ds_id r' = ds_id r) \<or>
       ident = CBytes (ds_id r)) \<and>
    ((\<exists>r\<in>set (sn_delayed_sends s). ident = CBytes (ds_id r) \<and>
        ds_state r = SCXML_DELAYED_CANCEL_RESERVED) \<longrightarrow> ?C \<longrightarrow>
      ids_where would_discard t = ids_where would_discard s - {x. ident = CBytes x})"
    using cancel_step_rows [OF st res]
  proof (elim disjE conjE exE)
    assume rows: "sn_delayed_sends t = sn_delayed_sends s"
      and none: "?C \<longrightarrow> scxml_runtime_find_delayed_send_locked ident s = None"
    have no: "\<forall>r\<in>set (sn_delayed_sends s). live_row r \<longrightarrow> ident \<noteq> CBytes (ds_id r)" if ?C
      using none that unfolding scxml_runtime_find_delayed_send_locked_def first_index_None_iff
        same_send_id_def live_row_def by blast
    have dc: "ids_where P s - {x. ident = CBytes x} = ids_where P s"
      if ?C "\<And>x. P x \<Longrightarrow> live_row x" for P
      using no that by (auto simp: ids_where_def)
    have "\<not> (\<exists>r\<in>set (sn_delayed_sends s). ident = CBytes (ds_id r) \<and>
        ds_state r = SCXML_DELAYED_CANCEL_RESERVED)" if ?C
      using no [OF that] by (auto simp: live_row_def)
    then show ?thesis
      using dc [of would_commit] would_live(1) ids_where_cong [OF rows] rows by auto
  next
    fix i
    let ?o = "sn_delayed_sends s ! i"
    let ?r = "if ?C then ?o\<lparr>ds_previous := ds_state ?o, ds_state := SCXML_DELAYED_CANCEL_RESERVED\<rparr>
              else ?o\<lparr>ds_previous := SCXML_DELAYED_FREE\<rparr>"
    assume i: "i < length (sn_delayed_sends s)" and live: "live_row ?o"
      and id: "ident = CBytes (ds_id ?o)" and rows: "sn_delayed_sends t = (sn_delayed_sends s)[i := ?r]"
    have fit: "row_fits (sends_on i s) (cancels_on i s) ?o" using registry_invD(1) [OF inv i] .
    have ids: "{x. ident = CBytes x} = {ds_id ?o}" using id by auto
    note upd = ids_where_update [OF uniq i rows _ live]
    have mem: "?o \<in> set (sn_delayed_sends s)" using i by simp
    have same: "r = ?o" if "r \<in> set (sn_delayed_sends s)" "live_row r" "ident = CBytes (ds_id r)" for r
      using that id live i unique_byD [OF uniq] by (auto simp: in_set_conv_nth)
    have c: "ids_where would_commit t = (if ?C then ids_where would_commit s - {x. ident = CBytes x}
        else ids_where would_commit s)"
    proof (cases ?C)
      case True
      then show ?thesis using upd [of would_commit] would_live(1) by (simp add: ids would_commit_def)
    next
      case False
      then show ?thesis
        using ids_where_row_kept [of i s would_commit ?r t, OF i _ _ rows] by (simp add: would_commit_def)
    qed
    have d1: "ids_where would_discard t = ids_where would_discard s"
      if "ds_state ?o \<noteq> SCXML_DELAYED_CANCEL_RESERVED"
      using that ids_where_row_kept [of i s would_discard ?r t, OF i _ _ rows]
      by (auto simp: would_discard_def split: if_splits)
    have d2: "ids_where would_discard t = ids_where would_discard s - {x. ident = CBytes x}"
      if "ds_state ?o = SCXML_DELAYED_CANCEL_RESERVED" ?C
      using that upd [of would_discard] would_live(2) by (simp add: ids would_discard_def)
    have m: "\<forall>r\<in>set (sn_delayed_sends t). ds_state r = SCXML_DELAYED_CANCEL_RESERVED \<longrightarrow>
       (\<exists>r'\<in>set (sn_delayed_sends s). ds_state r' = SCXML_DELAYED_CANCEL_RESERVED \<and> ds_id r' = ds_id r) \<or>
       ident = CBytes (ds_id r)"
      using id by (auto simp: rows dest!: set_update_memD)
    have "\<exists>r\<in>set (sn_delayed_sends s). ident = CBytes (ds_id r) \<and>
        ds_state r = SCXML_DELAYED_CANCEL_RESERVED \<Longrightarrow> ds_state ?o = SCXML_DELAYED_CANCEL_RESERVED"
      using same by (auto simp: live_row_def)
    then show ?thesis using c d1 d2 m mem id by blast
  qed
  show "ids_where would_commit t =
      (if ?C then ids_where would_commit s - {x. ident = CBytes x} else ids_where would_commit s)"
    using all by blast
  show "ids_where would_discard t = ids_where would_discard s"
    if "\<forall>r\<in>set (sn_delayed_sends s). ident = CBytes (ds_id r) \<longrightarrow>
        ds_state r \<noteq> SCXML_DELAYED_CANCEL_RESERVED"
    using all that by blast
  show "\<forall>r\<in>set (sn_delayed_sends t). ds_state r = SCXML_DELAYED_CANCEL_RESERVED \<longrightarrow>
       (\<exists>r'\<in>set (sn_delayed_sends s). ds_state r' = SCXML_DELAYED_CANCEL_RESERVED \<and> ds_id r' = ds_id r) \<or>
       ident = CBytes (ds_id r)"
    using all by blast
  show "ids_where would_discard t = ids_where would_discard s - {x. ident = CBytes x}"
    if "\<exists>r\<in>set (sn_delayed_sends s). ident = CBytes (ds_id r) \<and>
        ds_state r = SCXML_DELAYED_CANCEL_RESERVED" ?C
    using all that by blast
qed

section \<open>Refinement\<close>

text \<open>No report arrives during the transaction.\<close>

fun unreported :: "registry_op \<Rightarrow> bool" where
  "unreported (Do_Send ident delay copy during reply) = (during = [])"
| "unreported (Do_Cancel ident during reply) = (during = [])"
| "unreported (Do_Report ident) = False"

text \<open>
  The specification: the set of pending ids. A step that succeeds adds the id of a delayed send or
  removes the id of a cancel; a step that fails changes nothing.
\<close>

fun spec_step :: "registry_op \<times> scxml_execute_outcome \<Rightarrow> string set \<Rightarrow> string set" where
  "spec_step (Do_Send ident delay copy during reply, SCXML_EXECUTE_CONTINUE) P =
     (if delay \<noteq> 0 then insert (cdata ident) P else P)"
| "spec_step (Do_Cancel ident during reply, SCXML_EXECUTE_CONTINUE) P = P - {x. ident = CBytes x}"
| "spec_step _ P = P"

fun outcomes :: "host_ops \<Rightarrow> registry_op list \<Rightarrow> scxml_session_impl \<Rightarrow> scxml_execute_outcome list" where
  "outcomes ops [] s = []"
| "outcomes ops (op # w) s = fst (registry_step ops op s) # outcomes ops w (snd (registry_step ops op s))"

lemma spec_step_failed: "x \<noteq> SCXML_EXECUTE_CONTINUE \<Longrightarrow> spec_step (op, x) P = P"
  by (cases op; cases x) auto

lemma registry_step_staged: "all_staged s \<Longrightarrow> all_staged (snd (registry_step ops op s))"
  using registry_step_facts [of s ops op] by (metis prod.collapse)

lemma step_would_commit:
  assumes "all_staged s" "unreported op"
  shows "ids_where would_commit (snd (registry_step ops op s)) =
    spec_step (op, fst (registry_step ops op s)) (ids_where would_commit s)"
proof (cases op)
  case (Do_Send ident delay copy during reply)
  obtain x t where r: "execute_adapter_send ops ident delay copy [] reply s = (x, t)" by fastforce
  show ?thesis
    using send_step_ids(1) [OF assms(1) r] assms(2) r
    by (cases "x = SCXML_EXECUTE_CONTINUE") (simp_all add: Do_Send spec_step_failed)
next
  case (Do_Cancel ident during reply)
  obtain x t where r: "execute_cancel ops ident [] reply s = (x, t)" by fastforce
  show ?thesis
    using cancel_step_ids(1) [OF assms(1) r] assms(2) r
    by (cases "x = SCXML_EXECUTE_CONTINUE") (simp_all add: Do_Cancel spec_step_failed)
next
  case (Do_Report ident)
  then show ?thesis using assms by simp
qed

lemma run_would_commit:
  assumes "all_staged s" "\<forall>op\<in>set w. unreported op"
  shows "ids_where would_commit (registry_run ops w s) =
    fold spec_step (zip w (outcomes ops w s)) (ids_where would_commit s)"
  using assms
proof (induction w arbitrary: s)
  case (Cons op w)
  have "registry_run ops (op # w) s = registry_run ops w (snd (registry_step ops op s))"
    by (simp add: registry_run_def)
  then show ?case
    using Cons.IH [OF registry_step_staged [OF Cons.prems(1)]] Cons.prems(2)
      step_would_commit [OF Cons.prems(1)] by simp
qed (simp add: registry_run_def)

text \<open>
  (C6)
  A committed transaction does to the pending sends exactly what its successful steps say, in their
  order: each delayed send adds its id, each cancel removes the id it names, and steps that failed
  (no room, a duplicate id, an adapter that refuses) leave no trace.
\<close>

theorem registry_commit_refines:
  assumes "quiet s" "\<forall>op\<in>set w. unreported op"
  shows "pending (registry_transaction ops w True (\<lambda>t. []) s) =
    fold spec_step (zip w (outcomes ops w s)) (pending s)"
proof -
  have st: "all_staged s" using assms(1) by (rule quiet_all_staged)
  let ?r = "registry_run ops w s"
  have "quiet (resolve_all True (\<lambda>t. []) ?r)"
    using registry_run_facts [OF st] by (rule resolve_all_facts)
  then have "pending (resolve_all True (\<lambda>t. []) ?r) = ids_where would_commit (resolve_all True (\<lambda>t. []) ?r)"
    by (rule pending_quiet)
  also have "\<dots> = ids_where would_commit ?r"
    by (rule resolve_all_ids) (simp_all add: commit_row_keeps)
  also have "\<dots> = fold spec_step (zip w (outcomes ops w s)) (pending s)"
    using run_would_commit [OF st assms(2)] pending_quiet(1) [OF assms(1)] by simp
  finally show ?thesis by (simp add: registry_transaction_def)
qed

fun cancelled_id :: "registry_op \<Rightarrow> cbytes option" where
  "cancelled_id (Do_Cancel ident during reply) = Some ident"
| "cancelled_id _ = None"

definition cancel_ids :: "registry_op list \<Rightarrow> cbytes list" where
  "cancel_ids w = List.map_filter cancelled_id w"

text \<open>The ids whose rows wait for a cancel have been named by one.\<close>

definition marked_by :: "cbytes set \<Rightarrow> scxml_session_impl \<Rightarrow> bool" where
  "marked_by C s \<longleftrightarrow> (\<forall>r\<in>set (sn_delayed_sends s).
     ds_state r = SCXML_DELAYED_CANCEL_RESERVED \<longrightarrow> CBytes (ds_id r) \<in> C)"

lemma step_would_discard:
  assumes st: "all_staged s" and un: "unreported op" and marked: "marked_by C s"
    and fresh: "\<forall>c. cancelled_id op = Some c \<longrightarrow> c \<notin> C"
  shows "ids_where would_discard (snd (registry_step ops op s)) = ids_where would_discard s"
    "marked_by (C \<union> {c. cancelled_id op = Some c}) (snd (registry_step ops op s))"
proof -
  have "ids_where would_discard (snd (registry_step ops op s)) = ids_where would_discard s \<and>
    marked_by (C \<union> {c. cancelled_id op = Some c}) (snd (registry_step ops op s))"
  proof (cases op)
    case (Do_Send ident delay copy during reply)
    obtain x t where r: "execute_adapter_send ops ident delay copy [] reply s = (x, t)" by fastforce
    show ?thesis using send_step_ids(2,3) [OF st r] un r marked
      by (auto simp: Do_Send marked_by_def)
  next
    case (Do_Cancel ident during reply)
    obtain x t where r: "execute_cancel ops ident [] reply s = (x, t)" by fastforce
    have "\<forall>r\<in>set (sn_delayed_sends s). ident = CBytes (ds_id r) \<longrightarrow>
        ds_state r \<noteq> SCXML_DELAYED_CANCEL_RESERVED"
      using fresh marked by (auto simp: Do_Cancel marked_by_def)
    from cancel_step_ids(2) [OF st r this] cancel_step_ids(3) [OF st r] un r marked
    show ?thesis by (simp add: Do_Cancel marked_by_def) metis
  next
    case (Do_Report ident)
    then show ?thesis using un by simp
  qed
  then show "ids_where would_discard (snd (registry_step ops op s)) = ids_where would_discard s"
    "marked_by (C \<union> {c. cancelled_id op = Some c}) (snd (registry_step ops op s))" by blast+
qed

lemma run_would_discard:
  assumes "all_staged s" "\<forall>op\<in>set w. unreported op" "marked_by C s"
    "distinct (cancel_ids w)" "set (cancel_ids w) \<inter> C = {}"
  shows "ids_where would_discard (registry_run ops w s) = ids_where would_discard s"
  using assms
proof (induction w arbitrary: s C)
  case (Cons op w)
  have ids: "cancel_ids (op # w) = (case cancelled_id op of None \<Rightarrow> [] | Some c \<Rightarrow> [c]) @ cancel_ids w"
    by (simp add: cancel_ids_def List.map_filter_simps split: option.split)
  have un: "unreported op" using Cons.prems(2) by simp
  have fresh: "\<forall>c. cancelled_id op = Some c \<longrightarrow> c \<notin> C" using Cons.prems(5) ids by auto
  note S = step_would_discard [OF Cons.prems(1) un Cons.prems(3) fresh, of ops]
  have "ids_where would_discard (registry_run ops w (snd (registry_step ops op s))) =
      ids_where would_discard (snd (registry_step ops op s))"
  proof (rule Cons.IH [OF registry_step_staged [OF Cons.prems(1)] _ S(2)])
    show "\<forall>op\<in>set w. unreported op" using Cons.prems(2) by simp
    show "distinct (cancel_ids w)" using Cons.prems(4) ids by simp
    show "set (cancel_ids w) \<inter> (C \<union> {c. cancelled_id op = Some c}) = {}"
      using Cons.prems(4,5) ids by auto
  qed
  then show ?case using S(1) by (simp add: registry_run_def)
qed (simp add: registry_run_def)

text \<open>
  (C38)
  A discarded transaction leaves the pending sends as they were, provided it names no id in two
  cancels: sends it made are gone, and sends it cancelled are pending again.
\<close>

theorem registry_discard_restores:
  assumes "quiet s" "\<forall>op\<in>set w. unreported op" "distinct (cancel_ids w)"
  shows "pending (registry_transaction ops w False (\<lambda>t. []) s) = pending s"
proof -
  have st: "all_staged s" using assms(1) by (rule quiet_all_staged)
  let ?r = "registry_run ops w s"
  have "marked_by {} s" using quiet_rows [OF assms(1)] by (force simp: marked_by_def)
  then have run: "ids_where would_discard ?r = ids_where would_discard s"
    using run_would_discard [OF st assms(2) _ assms(3)] by simp
  have "quiet (resolve_all False (\<lambda>t. []) ?r)"
    using registry_run_facts [OF st] by (rule resolve_all_facts)
  then have "pending (resolve_all False (\<lambda>t. []) ?r) = ids_where would_discard (resolve_all False (\<lambda>t. []) ?r)"
    by (rule pending_quiet)
  also have "\<dots> = ids_where would_discard ?r"
    by (rule resolve_all_ids) (simp_all add: rollback_row_keeps)
  finally show ?thesis using run pending_quiet(2) [OF assms(1)] by (simp add: registry_transaction_def)
qed

section \<open>Two cancels of one send\<close>

lemma find_delayed_None_iff:
  "scxml_runtime_find_delayed_send_locked ident s = None \<longleftrightarrow>
     (\<forall>r\<in>set (sn_delayed_sends s). live_row r \<longrightarrow> ident \<noteq> CBytes (ds_id r))"
  by (auto simp: scxml_runtime_find_delayed_send_locked_def first_index_None_iff same_send_id_def live_row_def)

lemma not_pending_not_found:
  assumes "quiet s" "x \<notin> pending s"
  shows "scxml_runtime_find_delayed_send_locked (CBytes x) s = None"
  using assms pending_quiet(3) [OF assms(1)] by (auto simp: find_delayed_None_iff ids_where_def)

text \<open>
  (C39)
  When one transaction cancels a pending send twice and is then discarded, the send is forgotten: it
  is not pending any more although neither cancel took effect, its completion report is refused, and
  a later cancel of it finds nothing to cancel. The second cancel overwrites the state the first one
  remembered.
\<close>

theorem double_cancel_forgets_send:
  assumes q: "quiet s" and x: "x \<in> pending s"
    and first: "execute_cancel ops (CBytes x) [] r1 s = (SCXML_EXECUTE_CONTINUE, s1)"
    and second: "execute_cancel ops (CBytes x) [] r2 s1 = (SCXML_EXECUTE_CONTINUE, s2)"
    and t: "t = resolve_all False (\<lambda>t. []) s2"
  shows "x \<notin> pending t \<and> scxml_session_report_send_done (CBytes x) t = (False, t) \<and>
    snd (execute_cancel ops (CBytes x) during r3 t) = t"
proof -
  have st: "all_staged s" using q by (rule quiet_all_staged)
  have st1: "all_staged s1" using registry_step_facts [OF st, of ops "Do_Cancel (CBytes x) [] r1"] first by simp
  have st2: "all_staged s2" using registry_step_facts [OF st1, of ops "Do_Cancel (CBytes x) [] r2"] second by simp
  have "scxml_runtime_find_delayed_send_locked (CBytes x) s \<noteq> None"
    using x unfolding pending_quiet(3) [OF q] by (auto simp: find_delayed_None_iff ids_where_def)
  then obtain i where i: "i < length (sn_delayed_sends s)" "x = ds_id (sn_delayed_sends s ! i)"
    "sn_delayed_sends s1 = (sn_delayed_sends s)[i := (sn_delayed_sends s ! i)
       \<lparr>ds_previous := ds_state (sn_delayed_sends s ! i), ds_state := SCXML_DELAYED_CANCEL_RESERVED\<rparr>]"
    using cancel_step_rows [OF st first] by auto
  have mem: "sn_delayed_sends s1 ! i \<in> set (sn_delayed_sends s1)" using i(1,3) by (intro nth_mem) simp
  have "CBytes x = CBytes (ds_id (sn_delayed_sends s1 ! i)) \<and>
      ds_state (sn_delayed_sends s1 ! i) = SCXML_DELAYED_CANCEL_RESERVED"
    using i by simp
  with mem have "ids_where would_discard s2 = ids_where would_discard s1 - {y. CBytes x = CBytes y}"
    using cancel_step_ids(4) [OF st1 second] by blast
  then have "x \<notin> ids_where would_discard s2" by simp
  moreover have "ids_where would_discard t = ids_where would_discard s2"
    unfolding t by (rule resolve_all_ids) (simp_all add: rollback_row_keeps)
  moreover have qt: "quiet t" unfolding t by (rule resolve_all_facts [OF st2])
  ultimately have "x \<notin> pending t" by (simp add: pending_quiet(2))
  moreover from not_pending_not_found [OF qt this]
  have "scxml_session_report_send_done (CBytes x) t = (False, t)"
    "snd (execute_cancel ops (CBytes x) during r3 t) = t"
    by (simp_all add: scxml_session_report_send_done_def execute_cancel_def)
  ultimately show ?thesis by simp
qed

section \<open>Whole lives\<close>

record transaction =
  tr_ops :: host_ops
  tr_steps :: "registry_op list"
  tr_commit :: bool
  tr_during :: "staged_ticket \<Rightarrow> cbytes list"

definition run_transaction :: "transaction \<Rightarrow> scxml_session_impl \<Rightarrow> scxml_session_impl" where
  "run_transaction x = registry_transaction (tr_ops x) (tr_steps x) (tr_commit x) (tr_during x)"

definition registry_life :: "transaction list \<Rightarrow> scxml_session_impl \<Rightarrow> scxml_session_impl" where
  "registry_life = fold run_transaction"

lemma quiet_transaction: "quiet s \<Longrightarrow> quiet (run_transaction x s)"
  unfolding run_transaction_def registry_transaction_def
  by (intro resolve_all_facts(1) registry_run_facts quiet_all_staged)

lemma quiet_life: "quiet s \<Longrightarrow> quiet (registry_life xs s)"
  by (induction xs arbitrary: s) (simp_all add: registry_life_def quiet_transaction)

lemma quiet_init: "quiet (session_init p ivs io invk ident cap)"
proof -
  have "waiting k i (session_init p ivs io invk ident cap) = 0" for k i
    by (simp add: waiting_def session_init_def waits_def no_prepared_effect_def)
  then show ?thesis
    by (auto simp: quiet_def registry_inv_def session_init_def unique_by_def used_slots_def
        prepared_staged_def no_prepared_effect_def)
qed

lemma unique_by_distinct:
  "unique_by P key xs \<Longrightarrow> distinct (map key (filter P xs))"
proof (induction xs)
  case (Cons x xs)
  have "unique_by P key xs"
    unfolding unique_by_def
  proof (intro allI impI)
    fix i j
    assume "i < length xs" "j < length xs" "P (xs ! i)" "P (xs ! j)" "key (xs ! i) = key (xs ! j)"
    then show "i = j" using unique_byD [OF Cons.prems, of "Suc i" "Suc j"] by simp
  qed
  moreover have "key x \<notin> key ` {y \<in> set xs. P y}" if "P x"
  proof
    assume "key x \<in> key ` {y \<in> set xs. P y}"
    then obtain j where "j < length xs" "P (xs ! j)" "key x = key (xs ! j)"
      by (auto simp: in_set_conv_nth)
    then show False using unique_byD [OF Cons.prems, of 0 "Suc j"] that by simp
  qed
  ultimately show ?case using Cons.IH by auto
qed simp

text \<open>
  (C8)
  Whatever transactions a Session runs, with sends and cancels that succeed or fail at any point,
  committed or discarded, and completion reports arriving while adapters are asked and between the
  tickets of a commit: after each of them every registry row is blank or holds one pending send, no
  two rows hold the same id, and every effect slot is free again.
\<close>

theorem registry_settles:
  "let s = registry_life xs (session_init p ivs io invk ident cap) in
    (\<forall>r\<in>set (sn_delayed_sends s). r = no_delayed_send \<or> ds_state r = SCXML_DELAYED_ACTIVE) \<and>
    distinct (map ds_id (filter live_row (sn_delayed_sends s))) \<and>
    (\<forall>e\<in>set (sn_prepared_effects s). \<not> pe_in_use e)"
proof -
  have q: "quiet (registry_life xs (session_init p ivs io invk ident cap))"
    by (rule quiet_life [OF quiet_init])
  then have "\<forall>e\<in>set (sn_prepared_effects (registry_life xs (session_init p ivs io invk ident cap))). \<not> pe_in_use e"
    by (auto simp: quiet_def used_slots_def in_set_conv_nth)
  moreover have "distinct (map ds_id (filter live_row
      (sn_delayed_sends (registry_life xs (session_init p ivs io invk ident cap)))))"
    using q by (intro unique_by_distinct registry_invD) (simp add: quiet_def)
  ultimately show ?thesis using quiet_rows [OF q] by (simp add: Let_def)
qed

text \<open>The tickets the adapter hands out in a transaction, and in a life.\<close>

fun issued :: "host_ops \<Rightarrow> registry_op list \<Rightarrow> scxml_session_impl \<Rightarrow> adapter_ticket list" where
  "issued ops [] s = []"
| "issued ops (op # w) s = answered op s @ issued ops w (snd (registry_step ops op s))"

lemma run_balance:
  "all_staged s \<Longrightarrow> balance k (registry_run ops w s) = balance k s + count_list (issued ops w s) k"
proof (induction w arbitrary: s)
  case (Cons op w)
  have b: "balance k (snd (registry_step ops op s)) = balance k s + count_list (answered op s) k"
    using registry_step_facts [OF Cons.prems, of ops op] by (metis prod.collapse)
  show ?case
    using Cons.IH [OF registry_step_staged [OF Cons.prems]] b
    by (simp add: registry_run_def del: answered.simps)
qed (simp add: registry_run_def)

lemma quiet_held: "quiet s \<Longrightarrow> held k s = 0"
  unfolding quiet_def held_def count_if_zero_iff
  by (auto simp: used_slots_def holds_ticket_def in_set_conv_nth)

fun life_issued :: "transaction list \<Rightarrow> scxml_session_impl \<Rightarrow> adapter_ticket list" where
  "life_issued [] s = []"
| "life_issued (x # xs) s = issued (tr_ops x) (tr_steps x) s @ life_issued xs (run_transaction x s)"

lemma transaction_balance:
  assumes "quiet s"
  shows "balance k (run_transaction x s) = balance k s + count_list (issued (tr_ops x) (tr_steps x) s) k"
  using resolve_all_facts(2) [OF registry_run_facts [OF quiet_all_staged [OF assms]]]
    run_balance [OF quiet_all_staged [OF assms]]
  by (simp add: run_transaction_def registry_transaction_def)

lemma life_balance:
  "quiet s \<Longrightarrow> balance k (registry_life xs s) = balance k s + count_list (life_issued xs s) k"
proof (induction xs arbitrary: s)
  case (Cons x xs)
  show ?case
    using Cons.IH [OF quiet_transaction [OF Cons.prems]] transaction_balance [OF Cons.prems]
    by (simp add: registry_life_def)
qed (simp add: registry_life_def)

text \<open>
  (C40)
  No adapter ticket is lost or resolved twice: over the life of a Session each ticket's commit or
  discard function is called exactly as often as the adapter handed the ticket out, whichever way the
  steps and the transactions end.
\<close>

theorem registry_tickets_once:
  "let s = session_init p ivs io invk ident cap in
    ticket_calls k (sn_ticket_log (registry_life xs s)) = count_list (life_issued xs s) k"
proof -
  let ?s = "session_init p ivs io invk ident cap"
  have q: "quiet ?s" by (rule quiet_init)
  have "ticket_calls k (sn_ticket_log ?s) = 0" by (simp add: session_init_def)
  then show ?thesis
    using life_balance [OF q, of k xs] quiet_held [OF q] quiet_held [OF quiet_life [OF q]]
    by (simp add: balance_def)
qed

section \<open>Generated ids\<close>

lemma digit_char_inj: "m < 10 \<Longrightarrow> n < 10 \<Longrightarrow> digit_char m = digit_char n \<Longrightarrow> m = n"
  unfolding digit_char_def by (drule arg_cong [where f = "of_char :: char \<Rightarrow> nat"]) simp

lemma dec_text_inj: "dec_text m = dec_text n \<Longrightarrow> m = n"
proof (induction m arbitrary: n rule: less_induct)
  case (less m)
  show ?case
  proof (cases "m < 10 \<or> n < 10")
    case True
    then show ?thesis
      using less.prems digit_char_inj dec_text_nonempty dec_text_nonempty [THEN not_sym]
      by (auto simp: dec_text.simps [of m] dec_text.simps [of n] split: if_splits)
  next
    case False
    then have "dec_text (m div 10) = dec_text (n div 10)" "digit_char (m mod 10) = digit_char (n mod 10)"
      using less.prems by (simp_all add: dec_text.simps [of m] dec_text.simps [of n])
    then have "m div 10 = n div 10" "m mod 10 = n mod 10"
      using less.IH [of "m div 10" "n div 10"] False digit_char_inj [of "m mod 10" "n mod 10"] by simp_all
    then show ?thesis by (metis div_mult_mod_eq)
  qed
qed

lemma generated_send_id_inj: "generated_send_id x a = generated_send_id x b \<Longrightarrow> a = b"
  by (simp add: generated_send_id_def) (metis dec_text_inj word_unat_eq_iff)

text \<open>The ids that a sequence of sends generates.\<close>

fun generated :: "(send_env \<times> send_descriptor) list \<Rightarrow> scxml_session_impl \<Rightarrow> string list" where
  "generated [] s = []"
| "generated ((env, sd) # xs) s =
     (case materialize_send_id_location env sd s of
        (Some c, t) \<Rightarrow> (if sd_has_id_location sd then cdata c # generated xs t else generated xs t)
      | (None, t) \<Rightarrow> generated xs t)"

lemma materialize_cases:
  obtains (none) "materialize_send_id_location env sd s = (None, s)"
  | (given) "\<not> sd_has_id_location sd" "materialize_send_id_location env sd s = (Some (sd_id sd), s)"
  | (drawn) c t where "sd_has_id_location sd" "sn_next_send_token s \<noteq> 0"
      "materialize_send_id_location env sd s = (c, t)"
      "c = None \<or> c = Some (CBytes (generated_send_id (sn_session_id s) (sn_next_send_token s)))"
      "sn_session_id t = sn_session_id s"
      "sn_next_send_token t = 0 \<or> sn_next_send_token s < sn_next_send_token t"
proof -
  have lt: "w \<noteq> UINT64_MAX \<Longrightarrow> w < w + 1" for w :: u64 by (rule less_Suc_guard)
  show thesis
  proof (cases "sd_has_id_location sd")
    case False
    then show ?thesis by (intro given) (simp_all add: materialize_send_id_location_def)
  next
    case True
    show ?thesis
    proof (cases "materialize_send_id_location env sd s = (None, s)")
      case True
      then show ?thesis by (rule none)
    next
      case False
      obtain c t where ct: "materialize_send_id_location env sd s = (c, t)" by fastforce
      show ?thesis
        using True False ct lt [of "sn_next_send_token s"]
        by (intro drawn [OF True _ ct])
          (auto simp: materialize_send_id_location_def Let_def split: if_splits)
    qed
  qed
qed

lemma generated_tokens:
  assumes "x \<in> set (generated xs s)"
  shows "\<exists>t. x = generated_send_id (sn_session_id s) t \<and> sn_next_send_token s \<noteq> 0 \<and>
    sn_next_send_token s \<le> t"
  using assms
proof (induction xs arbitrary: s)
  case (Cons p xs)
  obtain env sd where p: "p = (env, sd)" by fastforce
  show ?case
  proof (cases rule: materialize_cases [of env sd s])
    case (drawn c t)
    have "x = generated_send_id (sn_session_id s) (sn_next_send_token s) \<or> x \<in> set (generated xs t)"
      using Cons.prems drawn p by (auto split: if_splits option.splits)
    then show ?thesis
    proof
      assume "x \<in> set (generated xs t)"
      from Cons.IH [OF this] show ?thesis using drawn by (metis less_imp_le order_trans)
    qed (use drawn in auto)
  qed (use Cons p in auto)
qed simp

lemma generated_distinct: "distinct (generated xs s)"
proof (induction xs arbitrary: s)
  case (Cons p xs)
  obtain env sd where p: "p = (env, sd)" by fastforce
  show ?case
  proof (cases rule: materialize_cases [of env sd s])
    case (drawn c t)
    have "generated_send_id (sn_session_id s) (sn_next_send_token s) \<notin> set (generated xs t)"
    proof
      assume "generated_send_id (sn_session_id s) (sn_next_send_token s) \<in> set (generated xs t)"
      from generated_tokens [OF this] obtain k where
        "generated_send_id (sn_session_id s) (sn_next_send_token s) = generated_send_id (sn_session_id s) k"
        "sn_next_send_token t \<noteq> 0" "sn_next_send_token t \<le> k" using drawn(5) by auto
      then show False using generated_send_id_inj drawn(6) by (metis leD)
    qed
    then show ?thesis using Cons.IH [of t] drawn p by (auto split: option.splits)
  qed (use Cons p in auto)
qed simp

text \<open>
  A Session never generates the same send id twice, whatever fails in between: an id is drawn from a token
  that only grows, and when the tokens are used up no id is generated at all.
\<close>

theorem generated_ids_distinct:
  "distinct (generated xs (session_init p ivs io invk ident cap)) \<and>
   (sn_next_send_token s = 0 \<longrightarrow> generated xs s = [])"
proof
  show "distinct (generated xs (session_init p ivs io invk ident cap))" by (rule generated_distinct)
  show "sn_next_send_token s = 0 \<longrightarrow> generated xs s = []"
  proof
    assume z: "sn_next_send_token s = 0"
    show "generated xs s = []"
    proof (rule ccontr)
      assume "generated xs s \<noteq> []"
      then obtain x where "x \<in> set (generated xs s)" by (cases "generated xs s") auto
      from generated_tokens [OF this] z show False by simp
    qed
  qed
qed

section \<open>Runs of it\<close>

definition demo_send :: "string \<Rightarrow> nat \<Rightarrow> registry_op" where
  "demo_send x k = Do_Send (CBytes x) 10 False [] (SCXML_ADAPTER_ACCEPTED, Some k)"

definition demo_cancel :: "string \<Rightarrow> nat \<Rightarrow> registry_op" where
  "demo_cancel x k = Do_Cancel (CBytes x) [] (SCXML_ADAPTER_ACCEPTED, Some k)"

definition demo_refused :: "string \<Rightarrow> registry_op" where
  "demo_refused x = Do_Cancel (CBytes x) [] (SCXML_ADAPTER_FULL, None)"

text \<open>One send is pending.\<close>

definition demo_pending :: scxml_session_impl where
  "demo_pending = registry_life [\<lparr>tr_ops = demo_host, tr_steps = [demo_send ''a'' 1], tr_commit = True,
     tr_during = (\<lambda>t. [])\<rparr>] demo_session"

lemma demo_pending_quiet: "quiet demo_pending"
  unfolding demo_pending_def demo_session_def by (rule quiet_life [OF quiet_init])

lemma demo_pending_a: "pending demo_pending = {''a''}"
  by code_simp

lemma registry_commit_refines_witness:
  "pending (registry_transaction demo_host [demo_send ''b'' 2, demo_refused ''a'', demo_cancel ''a'' 3] True
     (\<lambda>t. []) demo_pending) = {''b''}"
proof -
  let ?w = "[demo_send ''b'' 2, demo_refused ''a'', demo_cancel ''a'' 3]"
  have un: "\<forall>op\<in>set ?w. unreported op" by (simp add: demo_send_def demo_refused_def demo_cancel_def)
  have "outcomes demo_host ?w demo_pending =
      [SCXML_EXECUTE_CONTINUE, SCXML_EXECUTE_BLOCK_ABORTED, SCXML_EXECUTE_CONTINUE]"
    by code_simp
  with registry_commit_refines [OF demo_pending_quiet un, of demo_host] show ?thesis
    by (auto simp: demo_pending_a demo_send_def demo_refused_def demo_cancel_def)
qed

lemma registry_discard_restores_witness:
  "pending (registry_transaction demo_host [demo_send ''b'' 2, demo_cancel ''a'' 3] False
     (\<lambda>t. []) demo_pending) = {''a''}"
proof -
  let ?w = "[demo_send ''b'' 2, demo_cancel ''a'' 3]"
  have un: "\<forall>op\<in>set ?w. unreported op" by (simp add: demo_send_def demo_cancel_def)
  have di: "distinct (cancel_ids ?w)"
    by (simp add: cancel_ids_def demo_send_def demo_cancel_def List.map_filter_simps)
  from registry_discard_restores [OF demo_pending_quiet un di, of demo_host] show ?thesis
    by (simp add: demo_pending_a)
qed

lemma double_cancel_forgets_send_witness:
  "pending demo_pending = {''a''} \<and>
   ''a'' \<notin> pending (registry_transaction demo_host [demo_cancel ''a'' 3, demo_cancel ''a'' 4] False
     (\<lambda>t. []) demo_pending)"
proof -
  define s1 where "s1 = snd (execute_cancel demo_host (CBytes ''a'') [] (SCXML_ADAPTER_ACCEPTED, Some 3) demo_pending)"
  define s2 where "s2 = snd (execute_cancel demo_host (CBytes ''a'') [] (SCXML_ADAPTER_ACCEPTED, Some 4) s1)"
  have "fst (execute_cancel demo_host (CBytes ''a'') [] (SCXML_ADAPTER_ACCEPTED, Some 3) demo_pending)
      = SCXML_EXECUTE_CONTINUE" by code_simp
  then have 1: "execute_cancel demo_host (CBytes ''a'') [] (SCXML_ADAPTER_ACCEPTED, Some 3) demo_pending
      = (SCXML_EXECUTE_CONTINUE, s1)" unfolding s1_def by (metis prod.collapse)
  have "fst (execute_cancel demo_host (CBytes ''a'') [] (SCXML_ADAPTER_ACCEPTED, Some 4) s1)
      = SCXML_EXECUTE_CONTINUE" unfolding s1_def by code_simp
  then have 2: "execute_cancel demo_host (CBytes ''a'') [] (SCXML_ADAPTER_ACCEPTED, Some 4) s1
      = (SCXML_EXECUTE_CONTINUE, s2)" unfolding s2_def by (metis prod.collapse)
  have "''a'' \<in> pending demo_pending" by (simp add: demo_pending_a)
  from double_cancel_forgets_send [OF demo_pending_quiet this 1 2 HOL.refl]
  have "''a'' \<notin> pending (resolve_all False (\<lambda>t. []) s2)" by blast
  moreover have "registry_run demo_host [demo_cancel ''a'' 3, demo_cancel ''a'' 4] demo_pending = s2"
    by (simp add: registry_run_def demo_cancel_def 1 2)
  ultimately show ?thesis by (simp add: demo_pending_a registry_transaction_def)
qed

lemma registry_settles_witness:
  "let s = registry_life [\<lparr>tr_ops = demo_host, tr_steps = [demo_send ''a'' 1, demo_refused ''a'', Do_Report (CBytes ''a'')],
       tr_commit = False, tr_during = (\<lambda>t. [CBytes ''a''])\<rparr>]
      (session_init demo_names [] True True ''u1'' demo_capacities) in
    (\<forall>r\<in>set (sn_delayed_sends s). r = no_delayed_send \<or> ds_state r = SCXML_DELAYED_ACTIVE) \<and>
    distinct (map ds_id (filter live_row (sn_delayed_sends s))) \<and>
    (\<forall>e\<in>set (sn_prepared_effects s). \<not> pe_in_use e)"
  by (rule registry_settles)

lemma generated_ids_distinct_witness:
  "generated [(undefined, undefined)] (demo_session\<lparr>sn_next_send_token := 0\<rparr>) = []"
  using generated_ids_distinct [where s = "demo_session\<lparr>sn_next_send_token := 0\<rparr>"
      and xs = "[(undefined, undefined)]"] by simp

end
