(* ===== verification/Session_Invocation_Inv.thy ===== *)
theory Session_Invocation_Inv
  imports Session_Invocation Session_Registry_Spec
begin

text \<open>
  The invariant of the invocation table: the account of the services started, the life of tokens, and
  what a transaction leaves behind.
\<close>

section \<open>What an invocation operation works on\<close>

definition live_effect :: "scxml_invocation_effect \<Rightarrow> scxml_invocation_effect option" where
  "live_effect x = (if ie_in_use x then Some x else None)"

text \<open>A service that is no longer active and whose cancellation is not counted yet.\<close>

fun pending_cancels :: "unfinished_exit option \<Rightarrow> nat" where
  "pending_cancels (Some (Prepare_Cancel token ident)) = 1"
| "pending_cancels x = 0"

definition inv_part where
  "inv_part s = (sn_invocation_rows s, map live_effect (sn_invocation_effects s), sn_next_invocation_token s,
     sn_invocations s, sn_has_invoke s, pending_cancels (sn_unfinished s))"

definition account where
  "account st = (is_started st, is_completed st, is_cancelled st, is_cancel_failed st, is_active st)"

definition staged_effects :: "staged_ticket list \<Rightarrow> nat list" where
  "staged_effects ts = List.map_filter (\<lambda>t. case t of Staged_Invocation e \<Rightarrow> Some e | _ \<Rightarrow> None) ts"

lemma staged_effects_simps [simp]:
  "staged_effects [] = []"
  "staged_effects (Staged_Invocation e # ts) = e # staged_effects ts"
  "staged_effects (Staged_Prepared e # ts) = staged_effects ts"
  "staged_effects (Staged_Metadata e # ts) = staged_effects ts"
  "staged_effects (xs @ ys) = staged_effects xs @ staged_effects ys"
  by (simp_all add: staged_effects_def List.map_filter_simps List.map_filter_def)

definition same_invocations :: "scxml_session_impl \<Rightarrow> scxml_session_impl \<Rightarrow> bool" where
  "same_invocations s t \<longleftrightarrow> inv_part t = inv_part s \<and>
     account (sn_invoke_stats t) = account (sn_invoke_stats s) \<and>
     staged_effects (sn_staged t) = staged_effects (sn_staged s)"

lemma same_invocations_refl [simp]: "same_invocations s s"
  by (simp add: same_invocations_def)

lemma same_invocations_trans: "same_invocations s t \<Longrightarrow> same_invocations t u \<Longrightarrow> same_invocations s u"
  by (simp add: same_invocations_def)

lemma same_invocationsI:
  "sn_invocation_rows t = sn_invocation_rows s \<Longrightarrow>
   map live_effect (sn_invocation_effects t) = map live_effect (sn_invocation_effects s) \<Longrightarrow>
   sn_next_invocation_token t = sn_next_invocation_token s \<Longrightarrow> sn_invocations t = sn_invocations s \<Longrightarrow>
   sn_has_invoke t = sn_has_invoke s \<Longrightarrow> sn_unfinished t = sn_unfinished s \<Longrightarrow>
   account (sn_invoke_stats t) = account (sn_invoke_stats s) \<Longrightarrow>
   staged_effects (sn_staged t) = staged_effects (sn_staged s) \<Longrightarrow> same_invocations s t"
  by (simp add: same_invocations_def inv_part_def)

lemma same_upd_metadata: "same_invocations s (upd_metadata i f s)"
  by (rule same_invocationsI) (simp_all add: upd_metadata_def)

lemma same_upd_system: "same_invocations s (upd_system f s)"
  by (rule same_invocationsI) (simp_all add: upd_system_def)

lemma same_upd_completion: "same_invocations s (upd_completion i f s)"
  by (rule same_invocationsI) (simp_all add: upd_completion_def)

lemma same_release: "same_invocations s (scxml_runtime_release_event_metadata i s)"
  by (rule same_invocationsI) (simp_all add: scxml_runtime_release_event_metadata_def upd_metadata_def Let_def)

lemma same_clear: "same_invocations s (scxml_runtime_clear_current_event_metadata s)"
  by (rule same_invocationsI)
    (simp_all add: scxml_runtime_clear_current_event_metadata_def upd_system_def Let_def completion_data_release_def
      completion_data_discard_payload_def upd_completion_def split: option.split)

lemma same_bind: "same_invocations s (snd (bind_completion_done_data d c s))"
  by (rule same_invocationsI)
    (simp_all add: bind_completion_done_data_def completion_data_bind_oldest_def Let_def upd_system_def
      upd_completion_def split: option.split)

lemma same_observe_completion: "same_invocations s (snd (observe_completion d c s))"
proof (cases "find_state_program_name_by_id (sn_program s) c")
  case None
  then show ?thesis by (simp add: observe_completion_def same_upd_system)
next
  case (Some st)
  then show ?thesis
    using same_invocations_trans [OF same_upd_system same_bind]
    by (simp add: observe_completion_def)
qed

lemma same_observe_slot: "same_invocations s (snd (observe_slot d k s))"
  by (rule same_invocationsI)
    (simp_all add: observe_slot_def Let_def upd_system_def upd_metadata_def split: option.split)

lemma same_observe_invocation: "same_invocations s (snd (observe_invocation e k s))"
  by (rule same_invocationsI)
    (simp_all add: observe_invocation_def Let_def upd_system_def split: option.split)

lemma same_observe: "same_invocations s (snd (scxml_runtime_observe_event d ob s))"
proof (cases rule: observe_cases [of d ob s])
  case completion
  then show ?thesis using same_clear same_observe_completion same_invocations_trans by metis
next
  case (plain f)
  then show ?thesis using same_clear same_upd_system same_invocations_trans by metis
next
  case (slot f)
  then show ?thesis using same_clear same_upd_system same_observe_slot same_invocations_trans by metis
next
  case (invocation f e)
  then show ?thesis using same_clear same_upd_system same_observe_invocation same_invocations_trans by metis
qed

lemma same_registry_ticket:
  assumes "\<forall>e. t \<noteq> Staged_Invocation e"
  shows "same_invocations s (resolve_ticket c t s)"
proof (cases t)
  case (Staged_Prepared e)
  then show ?thesis
    by (intro same_invocationsI)
      (simp_all add: resolve_ticket_def commit_prepared_effect_def discard_prepared_effect_def
        rollback_prepared_effect_locked_def call_ticket_def upd_prepared_def effect_row_def upd_delayed_def
        split: option.split)
next
  case (Staged_Metadata i)
  then show ?thesis by (simp add: resolve_ticket_def same_release)
qed (use assms in simp)

lemma same_raise: "same_invocations s (snd (raise_internal ops e t s))"
  by (rule same_invocationsI) (simp_all add: raise_internal_def)

lemma same_post: "same_invocations s (snd (post_external ops e t s))"
  by (rule same_invocationsI) (simp_all add: post_external_def)

lemma same_call: "same_invocations s (call_ticket c t s)"
  by (rule same_invocationsI) (simp_all add: call_ticket_def split: option.split)

lemma same_stats: "account (f (sn_invoke_stats s)) = account (sn_invoke_stats s) \<Longrightarrow> same_invocations s (upd_stats f s)"
  by (rule same_invocationsI) (simp_all add: upd_stats_def)

lemma same_rejected: "same_invocations s (upd_stats (\<lambda>st. st\<lparr>is_adapter_error_rejected :=
     scxml_runtime_increment_u64 (is_adapter_error_rejected st)\<rparr>) s)"
  by (rule same_stats) (simp add: account_def)

lemma same_enqueue: "same_invocations s (snd (enqueue_invocation_adapter_error ops st s))"
  using same_rejected [of s]
  by (auto simp: enqueue_invocation_adapter_error_def Let_def raise_internal_def same_invocations_def inv_part_def
      upd_stats_def)

lemma same_report_error: "same_invocations s (snd (report_invocation_adapter_error ops st s))"
proof -
  have r: "same_invocations s (upd_stats (\<lambda>st. st\<lparr>is_adapter_error_rejected :=
      scxml_runtime_increment_u64 (is_adapter_error_rejected st)\<rparr>) s)"
    by (rule same_stats) (simp add: account_def)
  have "same_invocations s (s\<lparr>sn_adapter_events := x\<rparr>)" for x
    by (rule same_invocationsI) simp_all
  then show ?thesis using r by (simp add: report_invocation_adapter_error_def Let_def)
qed

lemma same_count_returned: "same_invocations (snd r) (snd (count_returned r))"
  unfolding count_returned_def snd_conv by (rule same_stats) (simp add: account_def)

lemma same_report_event: "same_invocations s (snd (scxml_session_report_invoke_event ops k e s))"
  using same_count_returned [of "(CFLOW_MAILBOX_INVALID_ARGUMENT, s)"]
    same_invocations_trans [OF same_post same_count_returned, of s ops e k]
  by (simp add: scxml_session_report_invoke_event_def)

lemma same_report_done: "same_invocations s (snd (scxml_session_report_invoke_done ops k s))"
  using same_count_returned [of "(CFLOW_MAILBOX_INVALID_ARGUMENT, s)"]
    same_invocations_trans [OF same_post same_count_returned, of s ops _ k]
  by (simp add: scxml_session_report_invoke_done_def Let_def)

section \<open>The moves of a handler\<close>

text \<open>
  Between two resolutions a handler changes the table by taking an effect's slot, by issuing a token, and
  by reserving a pending row for the token it has just issued.
\<close>

definition token_issued :: "scxml_session_impl \<Rightarrow> scxml_session_impl" where
  "token_issued s = s\<lparr>sn_next_invocation_token :=
     (if sn_next_invocation_token s = UINT64_MAX then 0 else sn_next_invocation_token s + 1)\<rparr>"

definition filled :: "nat \<Rightarrow> scxml_invocation_effect \<Rightarrow> scxml_session_impl \<Rightarrow> scxml_session_impl" where
  "filled e ef s = (upd_effect e (\<lambda>_. ef) s)\<lparr>sn_staged := sn_staged s @ [Staged_Invocation e]\<rparr>"

definition free_slot :: "nat \<Rightarrow> scxml_session_impl \<Rightarrow> bool" where
  "free_slot e s \<longleftrightarrow> e < length (sn_invocation_effects s) \<and> \<not> ie_in_use (sn_invocation_effects s ! e)"

definition pending_invocation :: "nat \<Rightarrow> scxml_session_impl \<Rightarrow> bool" where
  "pending_invocation i s \<longleftrightarrow> i < length (sn_invocation_rows s) \<and>
     ir_state (sn_invocation_rows s ! i) = SCXML_INVOCATION_PENDING"

definition reserves :: "scxml_invocation_effect_kind \<Rightarrow> scxml_invocation_state \<Rightarrow> bool" where
  "reserves k st \<longleftrightarrow> k = SCXML_INVOCATION_EFFECT_START \<and> st = SCXML_INVOCATION_START_RESERVED \<or>
     k = SCXML_INVOCATION_EFFECT_FAIL \<and> st = SCXML_INVOCATION_FAIL_RESERVED"

inductive handler_move :: "scxml_session_impl \<Rightarrow> scxml_session_impl \<Rightarrow> bool" where
  still: "same_invocations s t \<Longrightarrow> handler_move s t"
| fill: "free_slot e s \<Longrightarrow> ie_in_use ef \<Longrightarrow> ie_invocation ef < length (sn_invocations s) \<Longrightarrow>
    same_invocations (filled e ef s) t \<Longrightarrow> handler_move s t"
| issue: "sn_next_invocation_token s \<noteq> 0 \<Longrightarrow> same_invocations (token_issued s) t \<Longrightarrow> handler_move s t"
| reserve: "sn_next_invocation_token s \<noteq> 0 \<Longrightarrow> pending_invocation i s \<Longrightarrow> i < length (sn_invocations s) \<Longrightarrow>
    free_slot e s \<Longrightarrow> ie_in_use ef \<Longrightarrow> ie_invocation ef = i \<Longrightarrow> ie_token ef = sn_next_invocation_token s \<Longrightarrow>
    reserves (ie_kind ef) (ir_state r) \<Longrightarrow> ir_token r = sn_next_invocation_token s \<Longrightarrow>
    same_invocations (filled e ef (upd_row i (\<lambda>_. r) (token_issued s))) t \<Longrightarrow> handler_move s t"
| retract: "sn_next_invocation_token s \<noteq> 0 \<Longrightarrow> pending_invocation i s \<Longrightarrow>
    same_invocations (upd_row i (\<lambda>_. invocation_row SCXML_INVOCATION_PENDING) (token_issued s)) t \<Longrightarrow> handler_move s t"

lemma same_sym: "same_invocations s t \<Longrightarrow> same_invocations t s"
  by (simp add: same_invocations_def)

lemma handler_move_same: "handler_move s t \<Longrightarrow> same_invocations t u \<Longrightarrow> handler_move s u"
  by (erule handler_move.cases) (blast intro: handler_move.intros same_invocations_trans)+

section \<open>Staging\<close>

lemma live_update_free:
  "free_slot e s \<Longrightarrow> \<not> ie_in_use ef \<Longrightarrow>
   map live_effect ((sn_invocation_effects s)[e := ef]) = map live_effect (sn_invocation_effects s)"
  by (simp add: map_update live_effect_def free_slot_def) (metis length_map list_update_id live_effect_def nth_map)

lemma upd_row_effects [simp]: "sn_invocation_effects (upd_row i f s) = sn_invocation_effects s"
  by (simp add: upd_row_def)

lemma acquire_cases:
  obtains (full) "acquire_invocation_effect_locked s = (None, s)"
  | (slot) e where "free_slot e s"
      "acquire_invocation_effect_locked s = (Some e, upd_effect e (\<lambda>_. no_invocation_effect\<lparr>ie_in_use := True\<rparr>) s)"
proof (cases "first_index (\<lambda>e. \<not> ie_in_use e) (sn_invocation_effects s)")
  case None
  then show ?thesis using full by (simp add: acquire_invocation_effect_locked_def)
next
  case (Some e)
  with first_index_SomeD [OF Some] show ?thesis
    by (intro slot [of e]) (simp_all add: acquire_invocation_effect_locked_def free_slot_def)
qed

lemma upd_effect_twice [simp]: "e < length (sn_invocation_effects s) \<Longrightarrow>
   upd_effect e f (upd_effect e (\<lambda>_. ef) s) = upd_effect e (\<lambda>_. f ef) s"
  by (simp add: upd_effect_def)

text \<open>An effect that reserves no row: it is staged, or leaves no trace in the table.\<close>

lemma stage_plain:
  assumes e: "free_slot e s" "ie_in_use ef" "ie_invocation ef < length (sn_invocations s)"
    and k: "ie_kind ef \<noteq> SCXML_INVOCATION_EFFECT_START" "ie_kind ef \<noteq> SCXML_INVOCATION_EFFECT_FAIL"
  shows "handler_move s (snd (stage_invocation ops e (upd_effect e (\<lambda>_. ef) s)))"
proof (cases "ho_stage (vo_host ops) (Staged_Invocation e)")
  case True
  then have "snd (stage_invocation ops e (upd_effect e (\<lambda>_. ef) s)) = filled e ef s"
    by (simp add: stage_invocation_def stage_effect_def filled_def upd_effect_def)
  with fill [OF e same_invocations_refl] show ?thesis by simp
next
  case False
  have len: "e < length (sn_invocation_effects s)" using e by (simp add: free_slot_def)
  have "same_invocations s (discard_invocation_lifecycle e (upd_effect e (\<lambda>_. ef) s))"
    using k e len live_update_free [OF e(1), of "ef\<lparr>ie_in_use := False\<rparr>"]
      same_invocations_trans [OF _ same_call, of s "upd_effect e (\<lambda>_. ef\<lparr>ie_in_use := False\<rparr>) s"]
    by (auto simp: discard_invocation_lifecycle_def Let_def upd_effect_def same_invocations_def inv_part_def)
  with False show ?thesis by (intro still) (simp add: stage_invocation_def stage_effect_def)
qed

lemma execute_lifecycle_move:
  "handler_move s (snd (execute_invocation_lifecycle ops enter i s))"
proof (cases rule: acquire_cases [of s])
  case full
  then show ?thesis by (auto simp: execute_invocation_lifecycle_def intro: still)
next
  case (slot e)
  have len: "e < length (sn_invocation_effects s)" using slot by (simp add: free_slot_def)
  let ?ef = "no_invocation_effect\<lparr>ie_in_use := True, ie_invocation := i, ie_kind := (if enter
      then SCXML_INVOCATION_EFFECT_ENTER else SCXML_INVOCATION_EFFECT_EXIT)\<rparr>"
  have "handler_move s (snd (stage_invocation ops e (upd_effect e (\<lambda>_. ?ef) s)))"
    if "i < length (sn_invocations s)"
    using that slot by (intro stage_plain) simp_all
  then show ?thesis
    using slot len by (auto simp: execute_invocation_lifecycle_def intro: still split: prod.splits bool.splits)
qed

section \<open>Starting, completing and forwarding\<close>

lemma same_upd_row: "same_invocations s t \<Longrightarrow> same_invocations (upd_row i f s) (upd_row i f t)"
  by (auto simp: same_invocations_def inv_part_def upd_row_def)

lemma same_filled:
  "same_invocations s t \<Longrightarrow> free_slot e s \<Longrightarrow> same_invocations (filled e ef s) (filled e ef t)"
  by (auto simp: same_invocations_def inv_part_def filled_def upd_effect_def map_update)

lemma free_slot_live:
  "map live_effect (sn_invocation_effects t) = map live_effect (sn_invocation_effects s) \<Longrightarrow>
   free_slot e t = free_slot e s"
  unfolding free_slot_def
  by (metis length_map live_effect_def nth_map option.distinct(1))

lemma same_free_slot: "same_invocations s t \<Longrightarrow> free_slot e t = free_slot e s"
  by (rule free_slot_live) (simp add: same_invocations_def inv_part_def)

lemma same_fields:
  assumes "same_invocations s t"
  shows "sn_invocation_rows t = sn_invocation_rows s" "sn_invocations t = sn_invocations s"
    "sn_next_invocation_token t = sn_next_invocation_token s" "sn_has_invoke t = sn_has_invoke s"
  using assms by (simp_all add: same_invocations_def inv_part_def)

lemma token_issued_fields [simp]:
  "sn_invocation_rows (token_issued s) = sn_invocation_rows s" "sn_invocations (token_issued s) = sn_invocations s"
  "sn_invocation_effects (token_issued s) = sn_invocation_effects s" "sn_staged (token_issued s) = sn_staged s"
  "sn_invoke_stats (token_issued s) = sn_invoke_stats s" "sn_has_invoke (token_issued s) = sn_has_invoke s"
  by (simp_all add: token_issued_def)

lemma stage_result_move:
  assumes n: "sn_next_invocation_token s \<noteq> 0" and i: "i < length (sn_invocations s)"
    and u: "same_invocations (token_issued s) u"
  shows "handler_move s (snd (stage_invocation_result ops i (sn_next_invocation_token s) ident own kind ticket u))"
proof -
  let ?k = "sn_next_invocation_token s"
  let ?st = "if kind = SCXML_INVOCATION_EFFECT_START then SCXML_INVOCATION_START_RESERVED
     else SCXML_INVOCATION_FAIL_RESERVED"
  let ?r = "\<lparr>ir_token = ?k, ir_id = ident, ir_owns_id = own, ir_state = ?st\<rparr>"
  have give: "handler_move s (snd (False, if kind = SCXML_INVOCATION_EFFECT_START
      then call_ticket False ticket u else u))"
    using issue [OF n u] issue [OF n same_invocations_trans [OF u same_call]] by simp
  note D = stage_invocation_result_def [of ops i ?k ident own kind ticket u, unfolded Let_def]
  show ?thesis
  proof (cases "i \<ge> length (sn_invocation_rows u) \<or> ?k = 0 \<or>
      own \<and> length ident > SCXML_EVENT_METADATA_CAPACITY \<or>
      kind \<noteq> SCXML_INVOCATION_EFFECT_START \<and> kind \<noteq> SCXML_INVOCATION_EFFECT_FAIL \<or>
      ir_state (sn_invocation_rows u ! i) \<noteq> SCXML_INVOCATION_PENDING \<or>
      fst (acquire_invocation_effect_locked u) = None")
    case True
    have "acquire_invocation_effect_locked u = (None, u)" if "fst (acquire_invocation_effect_locked u) = None"
      using that by (cases rule: acquire_cases [of u]) simp_all
    with True give show ?thesis unfolding D by (auto split: if_splits)
  next
    case False
    then obtain e where e: "free_slot e u"
      "acquire_invocation_effect_locked u = (Some e, upd_effect e (\<lambda>_. no_invocation_effect\<lparr>ie_in_use := True\<rparr>) u)"
      by (cases rule: acquire_cases [of u]) auto
    let ?ef = "no_invocation_effect\<lparr>ie_in_use := True, ie_invocation := i, ie_token := ?k, ie_kind := kind,
        ie_ticket := ticket\<rparr>"
    let ?u = "upd_row i (\<lambda>_. ?r) u"
    have len: "e < length (sn_invocation_effects u)" "i < length (sn_invocation_rows u)"
      using e False by (auto simp: free_slot_def)
    have fe: "free_slot e s" "free_slot e (upd_row i (\<lambda>_. ?r) (token_issued s))" "free_slot e ?u"
      using e(1) same_free_slot [OF u] by (simp_all add: free_slot_def upd_row_def)
    have pend: "pending_invocation i s"
      using False len same_fields [OF u] by (simp add: pending_invocation_def)
    have fk: "kind = SCXML_INVOCATION_EFFECT_START \<or> kind = SCXML_INVOCATION_EFFECT_FAIL"
      using False by blast
    have comm: "upd_effect e f (upd_row i g v) = upd_row i g (upd_effect e f v)" for f g v
      by (simp add: upd_effect_def upd_row_def)
    have eq: "stage_invocation_result ops i ?k ident own kind ticket u =
        stage_invocation ops e (upd_effect e (\<lambda>_. ?ef) ?u)"
    proof -
      have c: "\<not> (i \<ge> length (sn_invocation_rows u) \<or> ?k = 0 \<or>
          own \<and> length ident > SCXML_EVENT_METADATA_CAPACITY \<or>
          kind \<noteq> SCXML_INVOCATION_EFFECT_START \<and> kind \<noteq> SCXML_INVOCATION_EFFECT_FAIL)"
        and p: "ir_state (sn_invocation_rows u ! i) = SCXML_INVOCATION_PENDING"
        using False by blast+
      show ?thesis unfolding D if_not_P [OF c] if_P [OF p] e(2) using len(1) by (simp add: comm [symmetric])
    qed
    show ?thesis
    proof (cases "ho_stage (vo_host ops) (Staged_Invocation e)")
      case True
      then have "snd (stage_invocation_result ops i ?k ident own kind ticket u) = filled e ?ef ?u"
        by (simp add: eq stage_invocation_def stage_effect_def filled_def upd_effect_def)
      moreover have "same_invocations (filled e ?ef (upd_row i (\<lambda>_. ?r) (token_issued s))) (filled e ?ef ?u)"
        using u fe by (intro same_filled same_upd_row)
      ultimately show ?thesis
        using False by (intro reserve [OF n pend i fe(1), where r = ?r and ef = ?ef]) (auto simp: reserves_def)
    next
      case False
      have bound: "stage_invocation_result ops i ?k ident own kind ticket u =
          (False, discard_invocation_lifecycle e (upd_effect e (\<lambda>_. ?ef) ?u))"
        using False by (simp add: eq stage_invocation_def stage_effect_def)
      have "same_invocations (upd_row i (\<lambda>_. invocation_row SCXML_INVOCATION_PENDING) (token_issued s))
          (discard_invocation_lifecycle e (upd_effect e (\<lambda>_. ?ef) ?u))" (is "same_invocations ?a ?b")
      proof -
        have k: "kind = SCXML_INVOCATION_EFFECT_START \<or> kind = SCXML_INVOCATION_EFFECT_FAIL" using fk .
        let ?v = "upd_effect e (\<lambda>_. ?ef\<lparr>ie_in_use := False\<rparr>)
            (upd_row i (\<lambda>_. invocation_row SCXML_INVOCATION_PENDING) u)"
        have b: "?b = (if kind = SCXML_INVOCATION_EFFECT_START then call_ticket False ticket ?v else ?v)"
          using k len by (elim disjE) (simp_all add: discard_invocation_lifecycle_def Let_def upd_effect_def upd_row_def)
        have v: "same_invocations ?a ?v"
          using u live_update_free [OF e(1), of "?ef\<lparr>ie_in_use := False\<rparr>"]
          by (simp add: same_invocations_def inv_part_def upd_row_def upd_effect_def)
        show ?thesis unfolding b using v same_invocations_trans [OF v same_call] by (simp only: simp_thms split: if_split)
      qed
      then show ?thesis unfolding bound snd_conv by (rule retract [OF n pend])
    qed
  qed
qed

lemma start_failure_move:
  assumes "sn_next_invocation_token s \<noteq> 0" "i < length (sn_invocations s)" "same_invocations (token_issued s) u"
  shows "handler_move s (snd (stage_start_failure ops i (sn_next_invocation_token s) ident own st u))"
  using stage_result_move [OF assms, of ops ident own SCXML_INVOCATION_EFFECT_FAIL None]
    handler_move_same [OF _ same_enqueue]
  by (auto simp: stage_start_failure_def split: prod.split bool.split)

lemma start_with_id_move:
  assumes "sn_next_invocation_token s \<noteq> 0" "i < length (sn_invocations s)" "same_invocations (token_issued s) u"
  shows "handler_move s (snd (start_with_id ops i (sn_next_invocation_token s) ident u))"
  using stage_result_move [OF assms] start_failure_move [OF assms] issue [OF assms(1,3)]
  by (auto simp: start_with_id_def Let_def split: option.split prod.split)

lemma start_pending_move:
  assumes "i < length (sn_invocations s)"
  shows "handler_move s (snd (start_pending_invocation ops i s))"
proof (cases "sn_next_invocation_token s = 0")
  case True
  have "same_invocations s (s\<lparr>sn_next_invocation_token := 0\<rparr>)"
    using True by (intro same_invocationsI) simp_all
  with True show ?thesis by (auto simp: start_pending_invocation_def intro: still)
next
  case False
  then have b: "s\<lparr>sn_next_invocation_token := (if sn_next_invocation_token s = 0 then 0
      else if sn_next_invocation_token s = UINT64_MAX then 0 else sn_next_invocation_token s + 1)\<rparr> = token_issued s"
    by (simp add: token_issued_def)
  have c: "start_pending_invocation ops i s = (True, s) \<or> snd (start_pending_invocation ops i s) = token_issued s \<or>
      (\<exists>id. snd (start_pending_invocation ops i s) = snd (start_with_id ops i (sn_next_invocation_token s) id (token_issued s))) \<or>
      snd (start_pending_invocation ops i s) =
        snd (stage_start_failure ops i (sn_next_invocation_token s) '''' True SCXML_ADAPTER_ERROR_EXECUTION (token_issued s))"
    unfolding start_pending_invocation_def Let_def b using False by (auto split: prod.split bool.split)
  show ?thesis
    using c start_with_id_move [OF False assms same_invocations_refl]
      start_failure_move [OF False assms same_invocations_refl] issue [OF False same_invocations_refl] still
    by (metis same_invocations_refl snd_conv)
qed

lemma completion_move:
  assumes "i < length (sn_invocations s)"
  shows "handler_move s (snd (stage_invocation_completion ops i k s))"
proof (cases rule: acquire_cases [of s])
  case full
  then show ?thesis by (auto simp: stage_invocation_completion_def intro: still)
next
  case (slot e)
  have len: "e < length (sn_invocation_effects s)" using slot by (simp add: free_slot_def)
  let ?ef = "no_invocation_effect\<lparr>ie_in_use := True, ie_invocation := i, ie_token := k,
      ie_kind := SCXML_INVOCATION_EFFECT_COMPLETE\<rparr>"
  have "handler_move s (snd (stage_invocation ops e (upd_effect e (\<lambda>_. ?ef) s)))"
    using assms slot by (intro stage_plain) simp_all
  then show ?thesis
    using slot len by (auto simp: stage_invocation_completion_def intro: still)
qed

lemma forward_move:
  assumes "i < length (sn_invocations s)"
  shows "handler_move s (snd (stage_invocation_forward ops i t s))"
proof (cases rule: acquire_cases [of s])
  case full
  then show ?thesis by (auto simp: stage_invocation_forward_def intro: still same_call)
next
  case (slot e)
  have len: "e < length (sn_invocation_effects s)" using slot by (simp add: free_slot_def)
  let ?ef = "no_invocation_effect\<lparr>ie_in_use := True, ie_invocation := i,
      ie_kind := SCXML_INVOCATION_EFFECT_FORWARD, ie_ticket := t\<rparr>"
  have "handler_move s (snd (stage_invocation ops e (upd_effect e (\<lambda>_. ?ef) s)))"
    using assms slot by (intro stage_plain) simp_all
  then show ?thesis
    using slot len by (auto simp: stage_invocation_forward_def intro: still same_call)
qed

lemma forward_to_move:
  assumes "i < length (sn_invocations s)"
  shows "handler_move s (snd (forward_to_invocation ops event skipped i s))"
proof -
  have f: "same_invocations s (upd_stats (\<lambda>st. st\<lparr>is_forward_failed :=
      scxml_runtime_increment_u64 (is_forward_failed st)\<rparr>) s)" (is "same_invocations s ?t")
    by (rule same_stats) (simp add: account_def)
  show ?thesis
    using forward_move [OF assms] f same_invocations_trans [OF f same_enqueue]
    by (auto simp: forward_to_invocation_def Let_def intro: still split: prod.split)
qed

section \<open>Handlers\<close>

lemma handler_move_length: "handler_move s t \<Longrightarrow> sn_invocations t = sn_invocations s"
  by (erule handler_move.cases) (auto dest!: same_fields(2) simp: filled_def upd_effect_def upd_row_def)

abbreviation handler_moves :: "scxml_session_impl \<Rightarrow> scxml_session_impl \<Rightarrow> bool" where
  "handler_moves \<equiv> handler_move\<^sup>*\<^sup>*"

lemma each_invocation_moves:
  assumes "\<And>i u. i \<in> set xs \<Longrightarrow> i < length (sn_invocations u) \<Longrightarrow> handler_move u (snd (body i u))"
    and "\<forall>i\<in>set xs. i < length (sn_invocations s)"
  shows "handler_moves s (snd (each_invocation body xs s))"
  using assms
proof (induction body xs s rule: each_invocation.induct)
  case (2 body i xs s)
  have m: "handler_move s (snd (body i s))" using 2 by simp
  obtain b t where t: "body i s = (b, t)" by fastforce
  have "handler_moves t (snd (each_invocation body xs t))" if "b"
    using that t 2 handler_move_length [OF m] by (intro "2.IH") auto
  with m t show ?case by (cases b) (auto intro: converse_rtranclp_into_rtranclp)
qed simp

lemma start_all_moves: "handler_moves s (snd (scxml_runtime_start_pending_invocations ops s))"
  unfolding scxml_runtime_start_pending_invocations_def continue_or_fatal_def snd_conv
  by (rule each_invocation_moves) (auto intro: start_pending_move)

lemma forward_all_moves: "handler_moves s (snd (forward_external_to_invocations ops event skipped s))"
  unfolding forward_external_to_invocations_def
  by (rule each_invocation_moves) (auto intro: forward_to_move)

lemma finalize_moves: "handler_moves s (snd (preprocess_invocation_external ops event k s))"
proof -
  have rej: "same_invocations s (upd_stats (\<lambda>st. st\<lparr>is_returned_rejected :=
      scxml_runtime_increment_u64 (is_returned_rejected st)\<rparr>) s)"
    by (rule same_stats) (simp add: account_def)
  have cont: "handler_moves u (snd (continue_or_fatal (forward_external_to_invocations ops event skipped u)))"
    for skipped u using forward_all_moves by (simp add: continue_or_fatal_def)
  show ?thesis
  proof (cases "k = 0 \<or> metadata_token_bit k")
    case True
    then show ?thesis using cont by (simp add: preprocess_invocation_external_def Let_def)
  next
    case k: False
    show ?thesis
    proof (cases "active_invocation k s")
      case None
      then show ?thesis using k rej by (simp add: preprocess_invocation_external_def Let_def r_into_rtranclp still)
    next
      case (Some i)
      then have i: "i < length (sn_invocations s)"
        using first_index_SomeD [of _ "take (length (sn_invocations s)) (sn_invocation_rows s)" i]
        by (auto simp: active_invocation_def)
      obtain b t where t: "stage_invocation_completion ops i k s = (b, t)" by fastforce
      have m: "handler_move s t" using completion_move [OF i, of ops k] t by simp
      show ?thesis
        using k Some t cont m converse_rtranclp_into_rtranclp [of handler_move, OF m cont]
        by (auto simp: preprocess_invocation_external_def Let_def split: bool.split)
    qed
  qed
qed

lemma host_transaction_moves: "handler_moves s (snd (scxml_runtime_host_transaction ops d phase s))"
proof (cases phase)
  case (CFLOW_STATECHART_HOST_PREPARE_TRIGGER ob)
  show ?thesis
  proof (cases ob)
    case None
    then show ?thesis by (simp add: scxml_runtime_host_transaction_def CFLOW_STATECHART_HOST_PREPARE_TRIGGER)
  next
    case (Some ev)
    obtain b t where t: "scxml_runtime_observe_event d ev s = (b, t)" by fastforce
    have "handler_move s t" using same_observe [of s d ev] t by (intro still) simp
    then show ?thesis
      using t Some converse_rtranclp_into_rtranclp [of handler_move, OF _ finalize_moves, of s t]
      by (auto simp: scxml_runtime_host_transaction_def CFLOW_STATECHART_HOST_PREPARE_TRIGGER
          split: bool.split option.split)
  qed
next
  case CFLOW_STATECHART_HOST_PREPARE_QUIESCENCE
  then show ?thesis using start_all_moves
    by (simp add: scxml_runtime_host_transaction_def prepare_invocation_quiescence_def)
qed (simp add: scxml_runtime_host_transaction_def)

section \<open>The invariant\<close>

definition holds_token :: "scxml_invocation_row \<Rightarrow> bool" where
  "holds_token r \<longleftrightarrow> ir_token r \<noteq> 0"

definition active_service :: "scxml_invocation_row \<Rightarrow> bool" where
  "active_service r \<longleftrightarrow> ir_state r = SCXML_INVOCATION_ACTIVE"

text \<open>A token is held exactly by the rows of a start that is reserved, active or failed.\<close>

definition token_ok :: "u64 \<Rightarrow> scxml_invocation_row \<Rightarrow> bool" where
  "token_ok nxt r \<longleftrightarrow>
     (holds_token r \<longleftrightarrow> ir_state r \<noteq> SCXML_INVOCATION_INACTIVE \<and> ir_state r \<noteq> SCXML_INVOCATION_PENDING) \<and>
     (holds_token r \<longrightarrow> nxt = 0 \<or> ir_token r < nxt)"

text \<open>The effect that a reserved row waits for.\<close>

definition backs :: "nat \<Rightarrow> scxml_invocation_row \<Rightarrow> scxml_invocation_effect \<Rightarrow> bool" where
  "backs i r ef \<longleftrightarrow> ie_in_use ef \<and> ie_invocation ef = i \<and> ie_token ef = ir_token r \<and>
     reserves (ie_kind ef) (ir_state r)"

definition awaiting_row :: "scxml_invocation_row \<Rightarrow> bool" where
  "awaiting_row r \<longleftrightarrow> ir_state r = SCXML_INVOCATION_START_RESERVED \<or> ir_state r = SCXML_INVOCATION_FAIL_RESERVED"

definition used_effects :: "scxml_session_impl \<Rightarrow> nat set" where
  "used_effects s = {e. e < length (sn_invocation_effects s) \<and> ie_in_use (sn_invocation_effects s ! e)}"

text \<open>What has been started has ended in one of three ways or is active, until the counter saturates.\<close>

definition accounted :: "nat \<Rightarrow> scxml_invoke_stats \<Rightarrow> bool" where
  "accounted n st \<longleftrightarrow> is_started st = UINT64_MAX \<or>
     unat (is_started st) =
       unat (is_completed st) + unat (is_cancelled st) + unat (is_cancel_failed st) + is_active st + n"

definition invocation_inv :: "scxml_session_impl \<Rightarrow> bool" where
  "invocation_inv s \<longleftrightarrow>
     length (sn_invocations s) \<le> length (sn_invocation_rows s) \<and>
     (\<forall>r\<in>set (sn_invocation_rows s). token_ok (sn_next_invocation_token s) r) \<and>
     unique_by holds_token ir_token (sn_invocation_rows s) \<and>
     is_active (sn_invoke_stats s) = count_if active_service (sn_invocation_rows s) \<and>
     accounted (pending_cancels (sn_unfinished s)) (sn_invoke_stats s) \<and>
     (\<forall>i<length (sn_invocation_rows s). awaiting_row (sn_invocation_rows s ! i) \<longrightarrow>
        (\<exists>ef\<in>set (sn_invocation_effects s). backs i (sn_invocation_rows s ! i) ef)) \<and>
     (\<forall>ef\<in>set (sn_invocation_effects s). ie_in_use ef \<longrightarrow> ie_invocation ef < length (sn_invocations s)) \<and>
     distinct (staged_effects (sn_staged s)) \<and> set (staged_effects (sn_staged s)) = used_effects s"

section \<open>Moves keep the invariant\<close>

lemma live_mem: "ie_in_use ef \<Longrightarrow> ef \<in> set es \<longleftrightarrow> Some ef \<in> set (map live_effect es)"
  by (auto simp: live_effect_def split: if_splits)

lemma live_mem_cong:
  "map live_effect es = map live_effect fs \<Longrightarrow> ie_in_use ef \<Longrightarrow> ef \<in> set es \<longleftrightarrow> ef \<in> set fs"
  by (simp only: live_mem)

lemma live_used_cong:
  assumes "map live_effect es = map live_effect fs"
  shows "{e. e < length es \<and> ie_in_use (es ! e)} = {e. e < length fs \<and> ie_in_use (fs ! e)}"
proof -
  have "length es = length fs" using assms by (metis length_map)
  moreover have "ie_in_use (es ! e) = ie_in_use (fs ! e)" if "e < length es" for e
    using that assms calculation by (metis live_effect_def nth_map option.distinct(1))
  ultimately show ?thesis by auto
qed

lemma account_cong: "account st = account st' \<Longrightarrow> accounted n st = accounted n st' \<and> is_active st = is_active st'"
  by (simp add: account_def accounted_def)

lemma inv_same:
  assumes "invocation_inv s" "same_invocations s t"
  shows "invocation_inv t"
proof -
  have e: "map live_effect (sn_invocation_effects t) = map live_effect (sn_invocation_effects s)"
    using assms(2) by (simp add: same_invocations_def inv_part_def)
  have "used_effects t = used_effects s" unfolding used_effects_def by (rule live_used_cong [OF e])
  moreover have "(\<exists>ef\<in>set (sn_invocation_effects t). backs i r ef) = (\<exists>ef\<in>set (sn_invocation_effects s). backs i r ef)"
    for i r using live_mem_cong [OF e] by (auto simp: backs_def)
  moreover have "(\<forall>ef\<in>set (sn_invocation_effects t). ie_in_use ef \<longrightarrow> P ef) =
      (\<forall>ef\<in>set (sn_invocation_effects s). ie_in_use ef \<longrightarrow> P ef)" for P
    using live_mem_cong [OF e] by auto
  ultimately show ?thesis
    using assms account_cong [of "sn_invoke_stats t" "sn_invoke_stats s"]
    by (simp add: invocation_inv_def same_invocations_def inv_part_def)
qed

lemma inv_filled:
  assumes inv: "invocation_inv s" and e: "free_slot e s" and ef: "ie_in_use ef" "ie_invocation ef < length (sn_invocations s)"
  shows "invocation_inv (filled e ef s)"
proof -
  have len: "e < length (sn_invocation_effects s)" and u: "\<not> ie_in_use (sn_invocation_effects s ! e)"
    using e by (simp_all add: free_slot_def)
  have used: "used_effects (filled e ef s) = insert e (used_effects s)"
    using len ef by (auto simp: used_effects_def filled_def upd_effect_def nth_list_update split: if_splits)
  have mem: "x \<in> set (sn_invocation_effects (filled e ef s)) \<longleftrightarrow> x = ef \<or> x \<in> set (sn_invocation_effects s)"
    if "ie_in_use x" for x
    using len u that
    by (auto simp: filled_def upd_effect_def in_set_conv_nth nth_list_update split: if_splits)
  have b: "\<exists>x\<in>set (sn_invocation_effects (filled e ef s)). backs i r x"
    if "\<exists>x\<in>set (sn_invocation_effects s). backs i r x" for i r
    using that mem by (auto simp: backs_def)
  have i: "\<forall>x\<in>set (sn_invocation_effects (filled e ef s)). ie_in_use x \<longrightarrow> ie_invocation x < length (sn_invocations s)"
    using mem ef inv by (auto simp: invocation_inv_def)
  have fields: "sn_invocation_rows (filled e ef s) = sn_invocation_rows s" "sn_invocations (filled e ef s) = sn_invocations s"
    "sn_next_invocation_token (filled e ef s) = sn_next_invocation_token s"
    "sn_invoke_stats (filled e ef s) = sn_invoke_stats s" "sn_unfinished (filled e ef s) = sn_unfinished s"
    "staged_effects (sn_staged (filled e ef s)) = staged_effects (sn_staged s) @ [e]"
    by (simp_all add: filled_def upd_effect_def)
  have "e \<notin> used_effects s" using u by (simp add: used_effects_def)
  then show ?thesis using inv i b unfolding invocation_inv_def fields used by auto
qed

lemma token_ok_mono:
  "token_ok nxt r \<Longrightarrow> nxt \<noteq> 0 \<Longrightarrow> token_ok (if nxt = UINT64_MAX then 0 else nxt + 1) r"
  using less_Suc_guard [of nxt] by (auto simp: token_ok_def intro: less_trans)

lemma inv_issued:
  assumes "invocation_inv s" "sn_next_invocation_token s \<noteq> 0"
  shows "invocation_inv (token_issued s)"
proof -
  have "used_effects (token_issued s) = used_effects s" by (simp add: used_effects_def)
  moreover have "\<forall>r\<in>set (sn_invocation_rows s). token_ok (sn_next_invocation_token (token_issued s)) r"
    using assms token_ok_mono by (simp add: invocation_inv_def token_issued_def)
  ultimately show ?thesis using assms by (simp add: invocation_inv_def token_issued_def)
qed

lemma inv_row:
  assumes inv: "invocation_inv s" and i: "i < length (sn_invocation_rows s)"
    and r: "token_ok (sn_next_invocation_token s) r"
      "holds_token r \<Longrightarrow> \<forall>x\<in>set (sn_invocation_rows s). holds_token x \<longrightarrow> ir_token x \<noteq> ir_token r"
      "active_service r = active_service (sn_invocation_rows s ! i)"
      "awaiting_row r \<Longrightarrow> \<exists>ef\<in>set (sn_invocation_effects s). backs i r ef"
  shows "invocation_inv (upd_row i (\<lambda>_. r) s)"
proof -
  have rows: "sn_invocation_rows (upd_row i (\<lambda>_. r) s) = (sn_invocation_rows s)[i := r]" by (simp add: upd_row_def)
  have fields: "sn_invocations (upd_row i (\<lambda>_. r) s) = sn_invocations s"
    "sn_next_invocation_token (upd_row i (\<lambda>_. r) s) = sn_next_invocation_token s"
    "sn_invoke_stats (upd_row i (\<lambda>_. r) s) = sn_invoke_stats s" "sn_unfinished (upd_row i (\<lambda>_. r) s) = sn_unfinished s"
    "sn_staged (upd_row i (\<lambda>_. r) s) = sn_staged s"
    "used_effects (upd_row i (\<lambda>_. r) s) = used_effects s"
    by (simp_all add: upd_row_def used_effects_def)
  have "unique_by holds_token ir_token ((sn_invocation_rows s)[i := r])"
    using inv i r(2) by (intro unique_by_update) (auto simp: invocation_inv_def)
  moreover have "count_if active_service ((sn_invocation_rows s)[i := r]) = count_if active_service (sn_invocation_rows s)"
    using i r(3) by (rule count_if_update_same)
  moreover have "\<forall>x\<in>set ((sn_invocation_rows s)[i := r]). token_ok (sn_next_invocation_token s) x"
    using inv r(1) by (auto simp: invocation_inv_def dest!: set_update_memD)
  moreover have "\<forall>j<length (sn_invocation_rows s). awaiting_row ((sn_invocation_rows s)[i := r] ! j) \<longrightarrow>
      (\<exists>ef\<in>set (sn_invocation_effects s). backs j ((sn_invocation_rows s)[i := r] ! j) ef)"
  proof (intro allI impI)
    fix j
    assume "j < length (sn_invocation_rows s)" "awaiting_row ((sn_invocation_rows s)[i := r] ! j)"
    with inv r(4) i show "\<exists>ef\<in>set (sn_invocation_effects s). backs j ((sn_invocation_rows s)[i := r] ! j) ef"
      by (cases "j = i") (auto simp: invocation_inv_def)
  qed
  ultimately show ?thesis using inv unfolding invocation_inv_def rows fields by simp
qed

lemma inv_issue_row:
  assumes inv: "invocation_inv s" and n: "sn_next_invocation_token s \<noteq> 0" and p: "pending_invocation i s"
  shows "invocation_inv (upd_row i (\<lambda>_. invocation_row SCXML_INVOCATION_PENDING) (token_issued s))"
  using p by (intro inv_row [OF inv_issued [OF inv n]])
    (auto simp: pending_invocation_def token_ok_def holds_token_def invocation_row_def active_service_def awaiting_row_def)

lemma inv_reserve:
  assumes inv: "invocation_inv s" and n: "sn_next_invocation_token s \<noteq> 0" and p: "pending_invocation i s"
    and i: "i < length (sn_invocations s)" and e: "free_slot e s"
    and ef: "ie_in_use ef" "ie_invocation ef = i" "ie_token ef = sn_next_invocation_token s"
      "reserves (ie_kind ef) (ir_state r)" "ir_token r = sn_next_invocation_token s"
  shows "invocation_inv (filled e ef (upd_row i (\<lambda>_. r) (token_issued s)))"
proof -
  let ?s = "filled e ef (token_issued s)"
  have comm: "filled e ef (upd_row i (\<lambda>_. r) (token_issued s)) = upd_row i (\<lambda>_. r) ?s"
    by (simp add: filled_def upd_effect_def upd_row_def)
  have fs: "free_slot e (token_issued s)" using e by (simp add: free_slot_def)
  have s: "invocation_inv ?s" using inv_filled [OF inv_issued [OF inv n] fs] ef i by simp
  have rows: "sn_invocation_rows ?s = sn_invocation_rows s" by (simp add: filled_def upd_effect_def)
  have old: "ir_token x < sn_next_invocation_token s" if "x \<in> set (sn_invocation_rows s)" "holds_token x" for x
    using inv n that by (auto simp: invocation_inv_def token_ok_def)
  have ne: "ir_token x \<noteq> ir_token r" if "x \<in> set (sn_invocation_rows s)" "holds_token x" for x
    using old [OF that] ef(5) by simp
  have st: "ir_state r = SCXML_INVOCATION_START_RESERVED \<or> ir_state r = SCXML_INVOCATION_FAIL_RESERVED"
    using ef(4) by (auto simp: reserves_def)
  have nx: "token_ok (sn_next_invocation_token ?s) r"
    using st ef(5) n less_Suc_guard [of "sn_next_invocation_token s"]
    by (auto simp: token_ok_def holds_token_def token_issued_def filled_def upd_effect_def)
  have mem: "ef \<in> set (sn_invocation_effects ?s)"
    using fs by (simp add: filled_def upd_effect_def free_slot_def set_update_memI)
  have "\<exists>x\<in>set (sn_invocation_effects ?s). backs i r x"
    using mem ef by (intro bexI [of _ ef]) (simp_all add: backs_def)
  then show ?thesis
    unfolding comm using p ne st
    by (intro inv_row [OF s _ nx]) (auto simp: rows pending_invocation_def active_service_def)
qed

lemma inv_handler_move: "handler_move s t \<Longrightarrow> invocation_inv s \<Longrightarrow> invocation_inv t"
proof (induction rule: handler_move.induct)
  case (still s t)
  then show ?case by (blast intro: inv_same)
next
  case (fill e s ef t)
  then show ?case by (blast intro: inv_same inv_filled)
next
  case (issue s t)
  then show ?case by (blast intro: inv_same inv_issued)
next
  case (reserve s i e ef r t)
  then show ?case using inv_same [OF inv_reserve] by blast
next
  case (retract s i t)
  then show ?case using inv_same [OF inv_issue_row] by blast
qed

lemma inv_handler_moves: "handler_moves s t \<Longrightarrow> invocation_inv s \<Longrightarrow> invocation_inv t"
  by (induction rule: rtranclp_induct) (auto intro: inv_handler_move)

section \<open>Resolutions keep the invariant\<close>

text \<open>Freeing the slot of a staged effect, with the row of its invocation and the account it leaves.\<close>

lemma inv_resolved:
  assumes inv: "invocation_inv s" and st: "sn_staged s = Staged_Invocation e # ts"
    and ef: "sn_invocation_effects s ! e = ef" and i: "ie_invocation ef = i" and row: "sn_invocation_rows s ! i = r"
    and t: "sn_invocation_rows t = (sn_invocation_rows s)[i := r']"
      "sn_invocation_effects t = (sn_invocation_effects s)[e := ef\<lparr>ie_in_use := False\<rparr>]"
      "sn_next_invocation_token t = sn_next_invocation_token s" "sn_invocations t = sn_invocations s"
      "sn_staged t = ts"
    and r': "token_ok (sn_next_invocation_token s) r'" "holds_token r' \<Longrightarrow> holds_token r \<and> ir_token r' = ir_token r"
      "awaiting_row r' \<Longrightarrow> r' = r \<and> \<not> backs i r ef"
    and stats: "is_active (sn_invoke_stats t) + (if active_service r then 1 else 0) =
        is_active (sn_invoke_stats s) + (if active_service r' then 1 else 0)"
      "accounted (pending_cancels (sn_unfinished t)) (sn_invoke_stats t)"
  shows "invocation_inv t"
proof -
  have e: "e \<in> used_effects s" and ts: "e \<notin> set (staged_effects ts)"
    using inv st by (auto simp: invocation_inv_def)
  then have len: "e < length (sn_invocation_effects s)" and use: "ie_in_use ef" using ef by (auto simp: used_effects_def)
  have i_len: "i < length (sn_invocation_rows s)"
    using inv len use ef i by (fastforce simp: invocation_inv_def)
  have used: "used_effects t = used_effects s - {e}"
    using len by (auto simp: used_effects_def t nth_list_update split: if_splits)
  have mem: "x \<in> set (sn_invocation_effects t) \<Longrightarrow> ie_in_use x \<Longrightarrow> x \<in> set (sn_invocation_effects s)" for x
    by (auto simp: t dest!: set_update_memD)
  have keep: "\<exists>x\<in>set (sn_invocation_effects t). backs j q x"
    if x: "x \<in> set (sn_invocation_effects s)" "backs j q x" "x \<noteq> ef" for j q x
  proof -
    obtain k where "k < length (sn_invocation_effects s)" "sn_invocation_effects s ! k = x"
      using x(1) by (meson in_set_conv_nth)
    moreover have "k \<noteq> e" using calculation x(3) ef by auto
    ultimately have "x \<in> set (sn_invocation_effects t)"
      unfolding t by (metis length_list_update nth_list_update_neq nth_mem)
    with x(2) show ?thesis by blast
  qed
  have rows: "\<exists>x\<in>set (sn_invocation_effects t). backs j (sn_invocation_rows t ! j) x"
    if a: "j < length (sn_invocation_rows s)" "awaiting_row (sn_invocation_rows t ! j)" for j
  proof (cases "j = i")
    case True
    then have r: "sn_invocation_rows t ! j = r" "\<not> backs i r ef" using a i_len r'(3) by (simp_all add: t)
    then obtain x where "x \<in> set (sn_invocation_effects s)" "backs i r x"
      using inv a i_len row True by (auto simp: invocation_inv_def)
    then show ?thesis using keep [of x j r] r True by auto
  next
    case False
    then have r: "sn_invocation_rows t ! j = sn_invocation_rows s ! j" by (simp add: t)
    then obtain x where "x \<in> set (sn_invocation_effects s)" "backs j (sn_invocation_rows s ! j) x"
      using inv a by (auto simp: invocation_inv_def)
    moreover have "x \<noteq> ef" using calculation False i by (auto simp: backs_def)
    ultimately show ?thesis using keep r by simp
  qed
  have count: "count_if active_service (sn_invocation_rows t) + (if active_service r then 1 else 0) =
      count_if active_service (sn_invocation_rows s) + (if active_service r' then 1 else 0)"
    using count_if_update [OF i_len, of active_service r'] row by (simp add: t)
  have uniq: "unique_by holds_token ir_token (sn_invocation_rows t)"
    unfolding t using inv i_len r'(2) row by (intro unique_by_update_same) (auto simp: invocation_inv_def)
  have tok: "\<forall>x\<in>set (sn_invocation_rows t). token_ok (sn_next_invocation_token s) x"
    using inv r'(1) by (auto simp: invocation_inv_def t dest!: set_update_memD)
  have "is_active (sn_invoke_stats t) = count_if active_service (sn_invocation_rows t)"
    using inv count stats(1) by (simp add: invocation_inv_def)
  moreover have "\<forall>x\<in>set (sn_invocation_effects t). ie_in_use x \<longrightarrow> ie_invocation x < length (sn_invocations s)"
    using inv mem by (auto simp: invocation_inv_def)
  moreover have "distinct (staged_effects ts) \<and> set (staged_effects ts) = used_effects s - {e}"
    using inv st ts by (auto simp: invocation_inv_def)
  ultimately show ?thesis
    using inv rows uniq tok stats(2) unfolding invocation_inv_def by (simp add: t(1,3,4,5) used)
qed

lemma increment_unat: "w \<noteq> UINT64_MAX \<Longrightarrow> unat (scxml_runtime_increment_u64 w) = Suc (unat w)"
  by (simp add: scxml_runtime_increment_u64_def unat_Suc_guard)

lemma below_max: "unat (v :: u64) \<le> unat w \<Longrightarrow> w \<noteq> UINT64_MAX \<Longrightarrow> v \<noteq> UINT64_MAX"
  by (metis order_antisym word_le_nat_alt word_order.extremum)

lemma accounted_start:
  assumes "accounted n st"
  shows "accounted n (st\<lparr>is_started := scxml_runtime_increment_u64 (is_started st), is_active := is_active st + 1\<rparr>)"
  using assms increment_unat [of "is_started st"]
  by (auto simp: accounted_def scxml_runtime_increment_u64_def split: if_splits)

text \<open>
  An active service completes, or its cancellation begins; a cancellation that was begun succeeds or fails.
\<close>

lemma accounted_increment:
  assumes "accounted n st" "is_started st \<noteq> UINT64_MAX"
  shows "unat (scxml_runtime_increment_u64 (is_completed st)) = Suc (unat (is_completed st))"
    "unat (scxml_runtime_increment_u64 (is_cancelled st)) = Suc (unat (is_cancelled st))"
    "unat (scxml_runtime_increment_u64 (is_cancel_failed st)) = Suc (unat (is_cancel_failed st))"
proof -
  have sum: "unat (is_started st) = unat (is_completed st) + unat (is_cancelled st) +
      unat (is_cancel_failed st) + is_active st + n"
    using assms by (simp add: accounted_def)
  have inc: "unat (scxml_runtime_increment_u64 v) = Suc (unat v)" if "unat v \<le> unat (is_started st)" for v
    by (rule increment_unat [OF below_max [OF that assms(2)]])
  show "unat (scxml_runtime_increment_u64 (is_completed st)) = Suc (unat (is_completed st))"
    "unat (scxml_runtime_increment_u64 (is_cancelled st)) = Suc (unat (is_cancelled st))"
    "unat (scxml_runtime_increment_u64 (is_cancel_failed st)) = Suc (unat (is_cancel_failed st))"
    by (rule inc, use sum in linarith)+
qed

lemma accounted_end:
  assumes "accounted n st" "is_active st \<noteq> 0"
  shows "accounted n ((one_inactive st)\<lparr>is_completed := scxml_runtime_increment_u64 (is_completed st)\<rparr>)"
    "accounted (Suc n) (one_inactive st)"
  using assms accounted_increment(1) [OF assms(1)]
  by (cases "is_started st = UINT64_MAX"; simp add: accounted_def one_inactive_def)+

lemma accounted_cancelled:
  assumes "accounted (Suc n) st"
  shows "accounted n (st\<lparr>is_cancelled := scxml_runtime_increment_u64 (is_cancelled st)\<rparr>)"
    "accounted n (st\<lparr>is_cancel_failed := scxml_runtime_increment_u64 (is_cancel_failed st)\<rparr>)"
  using assms accounted_increment(2,3) [OF assms]
  by (cases "is_started st = UINT64_MAX"; simp add: accounted_def)+

lemma same_report_error_state:
  "same_invocations s t \<Longrightarrow> same_invocations s (snd (report_invocation_adapter_error ops st t))"
  using same_report_error same_invocations_trans by blast

lemma inv_recount:
  assumes "invocation_inv s" "is_active (f (sn_invoke_stats s)) = is_active (sn_invoke_stats s)"
    "accounted (pending_cancels u) (f (sn_invoke_stats s))"
  shows "invocation_inv (upd_stats f (s\<lparr>sn_unfinished := u\<rparr>))"
  using assms by (simp add: invocation_inv_def upd_stats_def used_effects_def)

lemma inv_finish_exit:
  assumes inv: "invocation_inv s"
  shows "invocation_inv (finish_invocation_exit ops s)"
proof (cases "sn_unfinished s")
  case None
  then show ?thesis using inv by (simp add: finish_invocation_exit_def)
next
  case (Some u)
  show ?thesis
  proof (cases u)
    case (Prepare_Cancel token ident)
    have "accounted (Suc 0) (sn_invoke_stats s)"
      using inv Some Prepare_Cancel by (simp add: invocation_inv_def)
    note a = accounted_cancelled [OF this]
    show ?thesis
      using Some Prepare_Cancel inv_same [OF inv_recount [OF inv] same_call] inv_recount [OF inv] a
      by (simp add: finish_invocation_exit_def split_beta)
  next
    case (Report_Failure status)
    then have "same_invocations s (s\<lparr>sn_unfinished := None\<rparr>)"
      using Some by (simp add: same_invocations_def inv_part_def)
    from inv_same [OF inv same_report_error_state [OF this]] show ?thesis
      using Some Report_Failure by (simp add: finish_invocation_exit_def)
  qed
qed

section \<open>Committing and discarding\<close>

definition freed :: "nat \<Rightarrow> scxml_session_impl \<Rightarrow> scxml_session_impl" where
  "freed e s = upd_effect e (\<lambda>x. x\<lparr>ie_in_use := False\<rparr>) s"

lemma used_effectD:
  assumes "invocation_inv s" "sn_staged s = Staged_Invocation e # ts"
  shows "e < length (sn_invocation_effects s)" "ie_in_use (sn_invocation_effects s ! e)"
    "ie_invocation (sn_invocation_effects s ! e) < length (sn_invocations s)"
    "ie_invocation (sn_invocation_effects s ! e) < length (sn_invocation_rows s)"
proof -
  have "e \<in> used_effects s" using assms by (auto simp: invocation_inv_def)
  then show e: "e < length (sn_invocation_effects s)" "ie_in_use (sn_invocation_effects s ! e)"
    by (simp_all add: used_effects_def)
  then show i: "ie_invocation (sn_invocation_effects s ! e) < length (sn_invocations s)"
    using assms(1) by (auto simp: invocation_inv_def)
  then show "ie_invocation (sn_invocation_effects s ! e) < length (sn_invocation_rows s)"
    using assms(1) by (auto simp: invocation_inv_def)
qed

text \<open>
  The three shapes of a resolution: nothing changes but the slot; the row changes and the account does not;
  the row and the account change.
\<close>

lemma inv_freed:
  assumes inv: "invocation_inv s" and st: "sn_staged s = Staged_Invocation e # ts"
    and ef: "ef = sn_invocation_effects s ! e" and r: "r = sn_invocation_rows s ! ie_invocation ef"
    and nb: "awaiting_row r \<Longrightarrow> \<not> backs (ie_invocation ef) r ef"
    and same: "same_invocations (upd_stats f (freed e (s\<lparr>sn_staged := ts\<rparr>))) t"
    and f: "account (f (sn_invoke_stats s)) = account (sn_invoke_stats s)"
  shows "invocation_inv t"
proof (rule inv_same [OF _ same], rule inv_resolved [OF inv st ef [symmetric] HOL.refl r [symmetric]])
  show "token_ok (sn_next_invocation_token s) r"
    using inv used_effectD [OF inv st] r ef by (auto simp: invocation_inv_def)
  show "accounted (pending_cancels (sn_unfinished (upd_stats f (freed e (s\<lparr>sn_staged := ts\<rparr>)))))
      (sn_invoke_stats (upd_stats f (freed e (s\<lparr>sn_staged := ts\<rparr>))))"
    "is_active (sn_invoke_stats (upd_stats f (freed e (s\<lparr>sn_staged := ts\<rparr>)))) + (if active_service r then 1 else 0) =
     is_active (sn_invoke_stats s) + (if active_service r then 1 else 0)"
    using inv account_cong [OF f] by (simp_all add: upd_stats_def freed_def upd_effect_def invocation_inv_def)
qed (use nb r ef in \<open>simp_all add: upd_stats_def freed_def upd_effect_def\<close>)

lemma inv_row_freed:
  assumes inv: "invocation_inv s" and st: "sn_staged s = Staged_Invocation e # ts"
    and ef: "ef = sn_invocation_effects s ! e" and r: "r = sn_invocation_rows s ! ie_invocation ef"
    and r': "\<not> awaiting_row r'" "token_ok (sn_next_invocation_token s) r'"
      "holds_token r' \<Longrightarrow> holds_token r \<and> ir_token r' = ir_token r"
    and same: "same_invocations (upd_stats f (freed e (upd_row (ie_invocation ef) (\<lambda>_. r') (s\<lparr>sn_staged := ts\<rparr>)))) t"
    and f: "is_active (f (sn_invoke_stats s)) + (if active_service r then 1 else 0) =
        is_active (sn_invoke_stats s) + (if active_service r' then 1 else 0)" "accounted (pending_cancels (sn_unfinished s)) (f (sn_invoke_stats s))"
  shows "invocation_inv t"
proof (rule inv_same [OF _ same], rule inv_resolved [OF inv st ef [symmetric] HOL.refl r [symmetric]])
qed (use r' f ef in \<open>simp_all add: upd_stats_def freed_def upd_effect_def upd_row_def\<close>)

lemma inactive_row_facts [simp]:
  "\<not> awaiting_row (invocation_row SCXML_INVOCATION_PENDING)" "\<not> awaiting_row (invocation_row SCXML_INVOCATION_INACTIVE)"
  "\<not> holds_token (invocation_row st)" "\<not> active_service (invocation_row SCXML_INVOCATION_PENDING)"
  "\<not> active_service (invocation_row SCXML_INVOCATION_INACTIVE)"
  "token_ok nxt (invocation_row SCXML_INVOCATION_PENDING)" "token_ok nxt (invocation_row SCXML_INVOCATION_INACTIVE)"
  by (auto simp: awaiting_row_def holds_token_def active_service_def token_ok_def invocation_row_def)

lemma upd_stats_id [simp]: "upd_stats (\<lambda>st. st) s = s"
  by (simp add: upd_stats_def)

lemma one_inactive_fields [simp]:
  "is_cancelled (one_inactive st) = is_cancelled st" "is_cancel_failed (one_inactive st) = is_cancel_failed st"
  "is_completed (one_inactive st) = is_completed st"
  by (simp_all add: one_inactive_def)

lemma freed_stats: "freed e (upd_row i g (upd_stats f s)) = upd_stats f (freed e (upd_row i g s))"
  "freed e (upd_stats f s) = upd_stats f (freed e s)"
  by (simp_all add: freed_def upd_effect_def upd_row_def upd_stats_def)

lemma active_positive:
  assumes "invocation_inv s" "i < length (sn_invocation_rows s)" "active_service (sn_invocation_rows s ! i)"
  shows "is_active (sn_invoke_stats s) \<noteq> 0"
  using assms count_if_pos [of i "sn_invocation_rows s" active_service] by (simp add: invocation_inv_def)

text \<open>A state is entered only when its service is not active: the statechart exits it first.\<close>

definition may_enter :: "nat \<Rightarrow> scxml_session_impl \<Rightarrow> bool" where
  "may_enter e s \<longleftrightarrow>
     (ie_kind (sn_invocation_effects s ! e) = SCXML_INVOCATION_EFFECT_ENTER \<longrightarrow>
      \<not> active_service (sn_invocation_rows s ! ie_invocation (sn_invocation_effects s ! e)))"

lemma inv_discard:
  assumes inv: "invocation_inv s" and st: "sn_staged s = Staged_Invocation e # ts"
  shows "invocation_inv (discard_invocation_lifecycle e (s\<lparr>sn_staged := ts\<rparr>))"
proof -
  let ?s = "s\<lparr>sn_staged := ts\<rparr>"
  let ?ef = "sn_invocation_effects s ! e"
  let ?i = "ie_invocation ?ef"
  let ?r = "sn_invocation_rows s ! ?i"
  note u = used_effectD [OF inv st]
  let ?b = "(ie_kind ?ef = SCXML_INVOCATION_EFFECT_START \<or> ie_kind ?ef = SCXML_INVOCATION_EFFECT_FAIL) \<and>
    ir_state ?r = (if ie_kind ?ef = SCXML_INVOCATION_EFFECT_START then SCXML_INVOCATION_START_RESERVED
      else SCXML_INVOCATION_FAIL_RESERVED) \<and> ir_token ?r = ie_token ?ef"
  have b: "backs ?i ?r ?ef \<longleftrightarrow> ?b" using u(2) by (auto simp: backs_def reserves_def)
  have na: "?b \<Longrightarrow> \<not> active_service ?r" by (auto simp: active_service_def split: if_splits)
  have D: "\<exists>v. same_invocations (freed e (if ?b then upd_row ?i (\<lambda>_. invocation_row SCXML_INVOCATION_PENDING) ?s else ?s)) v \<and>
      discard_invocation_lifecycle e ?s = v"
    using u same_call by (auto simp: discard_invocation_lifecycle_def Let_def freed_def)
  then obtain v where v: "discard_invocation_lifecycle e ?s = v"
    "same_invocations (freed e (if ?b then upd_row ?i (\<lambda>_. invocation_row SCXML_INVOCATION_PENDING) ?s else ?s)) v"
    by blast
  show ?thesis
  proof (cases ?b)
    case True
    have a: "accounted (pending_cancels (sn_unfinished s)) (sn_invoke_stats s)" using inv by (simp add: invocation_inv_def)
    show ?thesis unfolding v(1)
      using v(2) na [OF True] a unfolding if_P [OF True]
      by (intro inv_row_freed [OF inv st HOL.refl HOL.refl, where f = "\<lambda>st. st" and
            r' = "invocation_row SCXML_INVOCATION_PENDING"]) simp_all
  next
    case False
    show ?thesis unfolding v(1)
      using v(2) b False unfolding if_not_P [OF False]
      by (intro inv_freed [OF inv st HOL.refl HOL.refl, where f = "\<lambda>st. st"]) simp_all
  qed
qed

lemma staged_row_ok:
  assumes "invocation_inv s" "sn_staged s = Staged_Invocation e # ts"
  shows "accounted (pending_cancels (sn_unfinished s)) (sn_invoke_stats s)"
    "token_ok (sn_next_invocation_token s) (sn_invocation_rows s ! ie_invocation (sn_invocation_effects s ! e))"
  using assms(1) used_effectD [OF assms] by (auto simp: invocation_inv_def)

lemma inv_commit_exit:
  assumes inv: "invocation_inv s" and st: "sn_staged s = Staged_Invocation e # ts" and un: "sn_unfinished s = None"
    and kind: "ie_kind (sn_invocation_effects s ! e) = SCXML_INVOCATION_EFFECT_EXIT"
  shows "invocation_inv (commit_invocation_lifecycle e (s\<lparr>sn_staged := ts\<rparr>))" (is "invocation_inv ?t")
proof -
  let ?s = "s\<lparr>sn_staged := ts\<rparr>"
  let ?ef = "sn_invocation_effects s ! e"
  let ?i = "ie_invocation ?ef"
  let ?r = "sn_invocation_rows s ! ?i"
  note u = used_effectD [OF inv st] and acc = staged_row_ok(1) [OF inv st] and tok = staged_row_ok(2) [OF inv st]
  note D = commit_invocation_lifecycle_def commit_invocation_locked_def Let_def
  show ?thesis
  proof (cases "active_service ?r")
    case True
    then have k: "ir_token ?r \<noteq> 0" using tok by (simp add: token_ok_def active_service_def holds_token_def)
    note act = active_positive [OF inv u(4) True]
    have t: "?t = (freed e (upd_row ?i (\<lambda>_. invocation_row SCXML_INVOCATION_INACTIVE) (upd_stats one_inactive ?s)))
        \<lparr>sn_unfinished := Some (Prepare_Cancel (ir_token ?r) (ir_id ?r))\<rparr>"
      using True kind u k by (simp add: D freed_def active_service_def)
    have a: "accounted (Suc 0) (one_inactive (sn_invoke_stats s))"
      using accounted_end(2) [OF acc act] un by simp
    show ?thesis
      by (rule inv_resolved [OF inv st HOL.refl HOL.refl HOL.refl,
            where r' = "invocation_row SCXML_INVOCATION_INACTIVE"])
        (use True act a in \<open>simp_all add: t freed_def upd_effect_def upd_row_def upd_stats_def one_inactive_def\<close>)
  next
    case False
    then have "?t = freed e (upd_row ?i (\<lambda>_. invocation_row SCXML_INVOCATION_INACTIVE) ?s)"
      using kind u by (simp add: D freed_def active_service_def)
    then show ?thesis using False acc
      by (intro inv_row_freed [OF inv st HOL.refl HOL.refl, where f = "\<lambda>st. st" and r' = "invocation_row SCXML_INVOCATION_INACTIVE"]) simp_all
  qed
qed

lemma inv_commit_start:
  assumes inv: "invocation_inv s" and st: "sn_staged s = Staged_Invocation e # ts"
    and kind: "ie_kind (sn_invocation_effects s ! e) = SCXML_INVOCATION_EFFECT_START"
  shows "invocation_inv (commit_invocation_lifecycle e (s\<lparr>sn_staged := ts\<rparr>))" (is "invocation_inv ?t")
proof -
  let ?s = "s\<lparr>sn_staged := ts\<rparr>"
  let ?ef = "sn_invocation_effects s ! e"
  let ?i = "ie_invocation ?ef"
  let ?r = "sn_invocation_rows s ! ?i"
  note u = used_effectD [OF inv st] and acc = staged_row_ok(1) [OF inv st] and tok = staged_row_ok(2) [OF inv st]
  note D = commit_invocation_lifecycle_def commit_invocation_locked_def Let_def
  have call: "same_invocations v (call_ticket c k v)" for v c k by (rule same_call)
  show ?thesis
  proof (cases "backs ?i ?r ?ef")
    case True
    let ?f = "\<lambda>st. st\<lparr>is_started := scxml_runtime_increment_u64 (is_started st), is_active := is_active st + 1\<rparr>"
    have m: "ir_state ?r = SCXML_INVOCATION_START_RESERVED" "ir_token ?r = ie_token ?ef"
      using True kind by (simp_all add: backs_def reserves_def)
    let ?r' = "?r\<lparr>ir_state := SCXML_INVOCATION_ACTIVE\<rparr>"
    have "?t = call_ticket True (ie_ticket ?ef)
        (freed e (upd_row ?i (\<lambda>r. r\<lparr>ir_state := SCXML_INVOCATION_ACTIVE\<rparr>) (upd_stats ?f ?s)))"
      using kind m u by (simp add: D freed_def)
    moreover have "freed e (upd_row ?i (\<lambda>r. r\<lparr>ir_state := SCXML_INVOCATION_ACTIVE\<rparr>) (upd_stats ?f ?s)) =
        upd_stats ?f (freed e (upd_row ?i (\<lambda>_. ?r') ?s))"
      by (simp add: freed_def upd_stats_def upd_row_def upd_effect_def)
    ultimately have "same_invocations (upd_stats ?f (freed e (upd_row ?i (\<lambda>_. ?r') ?s))) ?t"
      by (simp only: call)
    then show ?thesis using accounted_start [OF acc] m tok
      by (intro inv_row_freed [OF inv st HOL.refl HOL.refl, where f = ?f and r' = ?r'])
        (simp_all add: awaiting_row_def token_ok_def holds_token_def active_service_def)
  next
    case False
    then have "\<not> (ir_state ?r = SCXML_INVOCATION_START_RESERVED \<and> ir_token ?r = ie_token ?ef)"
      using kind u by (auto simp: backs_def reserves_def)
    then have "same_invocations (freed e ?s) ?t"
      using kind u call by (auto simp: D freed_def)
    then show ?thesis using False by (intro inv_freed [OF inv st HOL.refl HOL.refl, where f = "\<lambda>st. st"]) simp_all
  qed
qed

lemma inv_commit_fail:
  assumes inv: "invocation_inv s" and st: "sn_staged s = Staged_Invocation e # ts"
    and kind: "ie_kind (sn_invocation_effects s ! e) = SCXML_INVOCATION_EFFECT_FAIL"
  shows "invocation_inv (commit_invocation_lifecycle e (s\<lparr>sn_staged := ts\<rparr>))" (is "invocation_inv ?t")
proof -
  let ?s = "s\<lparr>sn_staged := ts\<rparr>"
  let ?ef = "sn_invocation_effects s ! e"
  let ?i = "ie_invocation ?ef"
  let ?r = "sn_invocation_rows s ! ?i"
  note u = used_effectD [OF inv st] and acc = staged_row_ok(1) [OF inv st] and tok = staged_row_ok(2) [OF inv st]
  note D = commit_invocation_lifecycle_def commit_invocation_locked_def Let_def
  show ?thesis
  proof (cases "backs ?i ?r ?ef")
    case True
    let ?f = "\<lambda>st. st\<lparr>is_start_failed := scxml_runtime_increment_u64 (is_start_failed st)\<rparr>"
    have m: "ir_state ?r = SCXML_INVOCATION_FAIL_RESERVED" "ir_token ?r = ie_token ?ef"
      using True kind by (simp_all add: backs_def reserves_def)
    let ?r' = "?r\<lparr>ir_state := SCXML_INVOCATION_FAILED\<rparr>"
    have "?t = upd_stats ?f (freed e (upd_row ?i (\<lambda>_. ?r') ?s))"
      using kind m u by (simp add: D freed_def upd_stats_def upd_row_def upd_effect_def)
    then show ?thesis using acc m tok
      by (intro inv_row_freed [OF inv st HOL.refl HOL.refl, where f = ?f and r' = ?r'])
        (simp_all add: awaiting_row_def token_ok_def holds_token_def active_service_def accounted_def)
  next
    case False
    then have "?t = freed e ?s"
      using kind u by (auto simp: D freed_def backs_def reserves_def)
    then show ?thesis using False by (intro inv_freed [OF inv st HOL.refl HOL.refl, where f = "\<lambda>st. st"]) simp_all
  qed
qed

lemma inv_commit_complete:
  assumes inv: "invocation_inv s" and st: "sn_staged s = Staged_Invocation e # ts"
    and kind: "ie_kind (sn_invocation_effects s ! e) = SCXML_INVOCATION_EFFECT_COMPLETE"
  shows "invocation_inv (commit_invocation_lifecycle e (s\<lparr>sn_staged := ts\<rparr>))" (is "invocation_inv ?t")
proof -
  let ?s = "s\<lparr>sn_staged := ts\<rparr>"
  let ?ef = "sn_invocation_effects s ! e"
  let ?i = "ie_invocation ?ef"
  let ?r = "sn_invocation_rows s ! ?i"
  note u = used_effectD [OF inv st] and acc = staged_row_ok(1) [OF inv st] and tok = staged_row_ok(2) [OF inv st]
  note D = commit_invocation_lifecycle_def commit_invocation_locked_def Let_def
  note act = active_positive [OF inv u(4)]
  have one: "is_active (one_inactive (sn_invoke_stats s)) = is_active (sn_invoke_stats s) - 1"
    by (simp add: one_inactive_def)
  show ?thesis
  proof (cases "active_service ?r \<and> ir_token ?r = ie_token ?ef")
    case True
    let ?f = "\<lambda>st. (one_inactive st)\<lparr>is_completed := scxml_runtime_increment_u64 (is_completed st)\<rparr>"
    have "?t = upd_stats ?f (freed e (upd_row ?i (\<lambda>_. invocation_row SCXML_INVOCATION_INACTIVE) ?s))"
      using kind True u
      by (simp add: D freed_def upd_stats_def upd_row_def upd_effect_def active_service_def)
    then show ?thesis using True act acc one accounted_end(1) [OF acc act]
      by (intro inv_row_freed [OF inv st HOL.refl HOL.refl, where f = ?f and r' = "invocation_row SCXML_INVOCATION_INACTIVE"]) simp_all
  next
    case False
    then have "?t = freed e ?s"
      using kind u by (auto simp: D freed_def active_service_def)
    then show ?thesis using kind
      by (intro inv_freed [OF inv st HOL.refl HOL.refl, where f = "\<lambda>st. st"]) (simp_all add: backs_def reserves_def)
  qed
qed

lemma inv_commit:
  assumes inv: "invocation_inv s" and st: "sn_staged s = Staged_Invocation e # ts"
    and un: "sn_unfinished s = None" and en: "may_enter e s"
  shows "invocation_inv (commit_invocation_lifecycle e (s\<lparr>sn_staged := ts\<rparr>))" (is "invocation_inv ?t")
proof -
  let ?s = "s\<lparr>sn_staged := ts\<rparr>"
  let ?ef = "sn_invocation_effects s ! e"
  let ?i = "ie_invocation ?ef"
  let ?r = "sn_invocation_rows s ! ?i"
  note u = used_effectD [OF inv st]
  have acc: "accounted (pending_cancels (sn_unfinished s)) (sn_invoke_stats s)" by (rule staged_row_ok [OF inv st])
  note D = commit_invocation_lifecycle_def commit_invocation_locked_def Let_def
  note plain = inv_freed [OF inv st HOL.refl HOL.refl]
  note moved = inv_row_freed [OF inv st HOL.refl HOL.refl]
  have call: "same_invocations v (call_ticket c k v)" for v c k by (rule same_call)
  show ?thesis
  proof (cases "ie_kind ?ef")
    case SCXML_INVOCATION_EFFECT_NONE
    then have "?t = freed e ?s" using u by (simp add: D freed_def)
    then show ?thesis using SCXML_INVOCATION_EFFECT_NONE
      by (intro plain [where f = "\<lambda>st. st"]) (simp_all add: backs_def reserves_def)
  next
    case SCXML_INVOCATION_EFFECT_ENTER
    then have "?t = freed e (upd_row ?i (\<lambda>_. invocation_row SCXML_INVOCATION_PENDING) ?s)"
      using u by (simp add: D freed_def)
    then show ?thesis using SCXML_INVOCATION_EFFECT_ENTER en acc
      by (intro moved [where f = "\<lambda>st. st" and r' = "invocation_row SCXML_INVOCATION_PENDING"])
        (simp_all add: may_enter_def)
  next
    case SCXML_INVOCATION_EFFECT_EXIT
    then show ?thesis by (rule inv_commit_exit [OF inv st un])
  next
    case SCXML_INVOCATION_EFFECT_START
    then show ?thesis by (rule inv_commit_start [OF inv st])
  next
    case SCXML_INVOCATION_EFFECT_FAIL
    then show ?thesis by (rule inv_commit_fail [OF inv st])
  next
    case SCXML_INVOCATION_EFFECT_COMPLETE
    then show ?thesis by (rule inv_commit_complete [OF inv st])
  next
    case SCXML_INVOCATION_EFFECT_FORWARD
    let ?f = "\<lambda>st. st\<lparr>is_forwarded := scxml_runtime_increment_u64 (is_forwarded st)\<rparr>"
    have "?t = call_ticket True (ie_ticket ?ef) (freed e (upd_stats ?f ?s))"
      using SCXML_INVOCATION_EFFECT_FORWARD u by (simp add: D freed_def)
    then have "same_invocations (upd_stats ?f (freed e ?s)) ?t" by (simp only: freed_stats call)
    then show ?thesis using SCXML_INVOCATION_EFFECT_FORWARD
      by (intro plain [where f = ?f]) (simp_all add: backs_def reserves_def account_def)
  qed
qed

section \<open>What the other parts of a Session leave alone\<close>

lemma same_upd_prepared: "same_invocations s (upd_prepared e f s)"
  by (rule same_invocationsI) (simp_all add: upd_prepared_def)

lemma same_upd_delayed: "same_invocations s (upd_delayed i f s)"
  by (rule same_invocationsI) (simp_all add: upd_delayed_def)

lemma same_effect_row: "same_invocations s (effect_row f e s)"
  using same_upd_delayed by (auto simp: effect_row_def split: option.split)

lemma same_rollback: "same_invocations s (rollback_prepared_effect_locked e s)"
  unfolding rollback_prepared_effect_locked_def
  by (rule same_invocations_trans [OF same_effect_row same_upd_prepared])

lemma same_discard: "same_invocations s (discard_prepared_effect e s)"
  using same_invocations_trans [OF same_rollback same_call] by (simp add: discard_prepared_effect_def)

lemma same_report_send: "same_invocations s (snd (scxml_session_report_send_done ident s))"
  using same_upd_delayed by (auto simp: scxml_session_report_send_done_def Let_def split: option.split)

lemma same_reports: "same_invocations s (reports during s)"
proof (induction during arbitrary: s)
  case (Cons ident during)
  then show ?case
    using same_invocations_trans [OF same_report_send [of s ident]] by (simp add: reports_def)
qed (simp add: reports_def)

lemma same_raise_fatal: "same_invocations s (snd (raise_or_fatal ops e s))"
  by (rule same_invocationsI) (auto simp: raise_or_fatal_def raise_internal_def split: prod.split bool.split)

lemma same_adapter_error: "same_invocations s (snd (raise_adapter_error ops kind s))"
  unfolding raise_adapter_error_def by (rule same_raise_fatal)

lemma same_adapter_failure: "same_invocations s (snd (adapter_failure_outcome ops st s))"
  using same_adapter_error by (simp add: adapter_failure_outcome_def split: option.split)

lemma same_reserve_metadata: "same_invocations s (snd (scxml_runtime_reserve_event_metadata m s))"
  by (rule same_invocationsI)
    (auto simp: scxml_runtime_reserve_event_metadata_def upd_metadata_def Let_def split: option.split)

lemma same_stage:
  assumes "\<forall>e. t \<noteq> Staged_Invocation e"
  shows "same_invocations s (snd (stage_effect ops t s))"
  using assms by (cases t) (auto simp: stage_effect_def intro!: same_invocationsI)

lemma same_raise_slot: "same_invocations s (snd (raise_with_slot ops event i token s))"
proof -
  obtain b u where u: "raise_internal ops event token s = (b, u)" by fastforce
  obtain c v where v: "stage_effect ops (Staged_Metadata i) u = (c, v)" by fastforce
  have su: "same_invocations s u" using same_raise [of s ops event token] u by simp
  have sv: "same_invocations s v"
    using same_invocations_trans [OF su same_stage [of "Staged_Metadata i" u ops]] v by simp
  show ?thesis
    using u v su sv same_invocations_trans [OF su same_release] same_invocations_trans [OF sv same_release]
    by (cases b; cases c) (simp_all add: raise_with_slot_def)
qed

lemma same_send_failure: "same_invocations s (snd (send_failure_outcome ops ident loc st s))"
proof (cases "failure_kind st")
  case None
  then show ?thesis using same_adapter_failure by (simp add: send_failure_outcome_def)
next
  case (Some kind)
  obtain x u where u: "scxml_runtime_reserve_event_metadata (failed_send_metadata ident) s = (x, u)" by fastforce
  have su: "same_invocations s u" using same_reserve_metadata [of s "failed_send_metadata ident"] u by simp
  have f: "same_invocations s (snd (case raise_with_slot ops e i k u of (False, v) \<Rightarrow> (SCXML_EXECUTE_FATAL, v)
      | (True, v) \<Rightarrow> (SCXML_EXECUTE_BLOCK_ABORTED, if loc then v\<lparr>sn_failed_send_id := y\<rparr> else v)))" for e i k y
  proof -
    obtain b v where v: "raise_with_slot ops e i k u = (b, v)" by fastforce
    have "same_invocations s v" using same_invocations_trans [OF su same_raise_slot [of u ops e i k]] v by simp
    moreover have "same_invocations v (v\<lparr>sn_failed_send_id := y\<rparr>)" by (rule same_invocationsI) simp_all
    ultimately show ?thesis using v same_invocations_trans by (cases b) auto
  qed
  show ?thesis
    using Some same_adapter_error su u f by (simp add: send_failure_outcome_def split: option.split prod.split)
qed

lemma same_acquire_prepared: "same_invocations s (snd (acquire_prepared_effect_locked s))"
  using same_upd_prepared by (simp add: acquire_prepared_effect_locked_def split: option.split)

lemma same_stage_prepared: "same_invocations s (snd (stage_prepared ops e t s))"
proof -
  obtain b u where u: "stage_effect ops (Staged_Prepared e) (upd_prepared e (\<lambda>p. p\<lparr>pe_ticket := Some t\<rparr>) s) = (b, u)"
    by fastforce
  have "same_invocations s u"
    using same_invocations_trans [OF same_upd_prepared same_stage [of "Staged_Prepared e" _ ops]] u by (metis snd_conv staged_ticket.distinct(1))
  then show ?thesis
    using u same_invocations_trans [OF _ same_discard] by (cases b) (simp_all add: stage_prepared_def)
qed

lemma same_reserve_send: "same_invocations s (snd (reserve_send ident delay copy s))"
proof -
  obtain e u where u: "acquire_prepared_effect_locked s = (e, u)" by fastforce
  have su: "same_invocations s u" using same_acquire_prepared [of s] u by simp
  have d: "same_invocations u (snd (reserve_delayed_send_locked ident copy u))"
    using same_upd_delayed by (simp add: reserve_delayed_send_locked_def split: option.split)
  show ?thesis
    using u su d same_invocations_trans [OF su same_upd_prepared]
      same_invocations_trans [OF su same_invocations_trans [OF d same_upd_prepared]]
    by (auto simp: reserve_send_def split: option.split prod.split reserve_result.split)
qed

lemma same_adapter_send: "same_invocations s (snd (execute_adapter_send ops ident delay copy during reply s))"
proof -
  obtain x u where u: "reserve_send ident delay copy s = (x, u)" by fastforce
  have su: "same_invocations s u" using same_reserve_send [of s ident delay copy] u by simp
  have r: "same_invocations s (reports during u)" by (rule same_invocations_trans [OF su same_reports])
  note trans = same_invocations_trans
  show ?thesis
    using u trans [OF su same_adapter_error] trans [OF r same_rollback] trans [OF r same_stage_prepared]
      trans [OF trans [OF r same_rollback] same_send_failure]
    by (auto simp: execute_adapter_send_def Let_def split: sum.split prod.split option.split)
qed

lemma same_execute_cancel: "same_invocations s (snd (execute_cancel ops ident during reply s))"
proof -
  obtain x u where u: "acquire_prepared_effect_locked s = (x, u)" by fastforce
  have su: "same_invocations s u" using same_acquire_prepared [of s] u by simp
  note trans = same_invocations_trans
  have r: "same_invocations s (reports during (upd_delayed i f (upd_prepared e g u)))" for i f e g
    by (intro trans [OF su trans [OF same_upd_prepared trans [OF same_upd_delayed same_reports]]])
  show ?thesis
    using u trans [OF su same_adapter_error] trans [OF r same_rollback] trans [OF r same_stage_prepared]
      trans [OF trans [OF r same_rollback] same_adapter_failure]
    by (auto simp: execute_cancel_def Let_def split: prod.split option.split)
qed

lemma same_registry_step: "same_invocations s (snd (registry_step ops op s))"
  by (cases op) (simp_all add: same_adapter_send same_execute_cancel same_report_send)

lemma same_attach: "same_invocations s (snd (scxml_analyze_attach_event_content d c i s))"
proof -
  have "same_invocations s (s\<lparr>sn_constructed := n\<rparr>)" for n by (rule same_invocationsI) simp_all
  then show ?thesis
    using same_upd_metadata same_invocations_trans [OF _ same_upd_metadata]
    by (auto simp: scxml_analyze_attach_event_content_def split: option.split scxml_content_kind.split)
qed

lemma same_send_metadata: "same_invocations s (snd (scxml_session_try_send_metadata_impl ops d event name m s))"
proof -
  obtain x u where u: "scxml_runtime_reserve_event_metadata m s = (x, u)" by fastforce
  have su: "same_invocations s u" using same_reserve_metadata [of s m] u by simp
  note trans = same_invocations_trans
  have a: "same_invocations s (snd (scxml_analyze_attach_event_content d (em_data m) i (upd_metadata i f u)))" for i f
    by (rule trans [OF su trans [OF same_upd_metadata same_attach]])
  have a': "same_invocations s v" if "scxml_analyze_attach_event_content d (em_data m) i (upd_metadata i f u) = (b, v)" for i f b v
    using a [of i f] that by simp
  have p: "same_invocations s w"
    if "scxml_analyze_attach_event_content d (em_data m) i (upd_metadata i f u) = (b, v)"
      "post_external ops event k v = (st, w)" for i f b v st w k
    using trans [OF a' [OF that(1)] same_post [of v ops event k]] that(2) by simp
  show ?thesis
    using u su a' p trans [OF a' same_release] trans [OF p same_release]
    by (auto simp: scxml_session_try_send_metadata_impl_def split: option.split prod.split bool.split)
qed

end
