(* ===== verification/Session_Invocation_Safety.thy ===== *)
theory Session_Invocation_Safety
  imports Session_Invocation_Inv
begin

text \<open>
  A Session as a transition system: executable content, the statechart library's hooks, reports of
  adapters and services, and the resolution of the transaction's tickets follow one another in any order.
  The exit of an active service takes several steps, as many as the code takes the lock; the thread that exits
  resolves no other ticket before it is done, and anything else may happen in between.
  What holds of the invoked services in every reachable state, and a concrete run.
\<close>

section \<open>Steps\<close>

inductive session_step :: "scxml_session_impl \<Rightarrow> scxml_session_impl \<Rightarrow> bool" where
  lifecycle: "session_step s (snd (execute_invocation_lifecycle ops enter i s))"
| hook: "session_step s (snd (scxml_runtime_host_transaction ops d phase s))"
| invoke_event: "session_step s (snd (scxml_session_report_invoke_event hops k e s))"
| invoke_done: "session_step s (snd (scxml_session_report_invoke_done hops k s))"
| registry: "session_step s (snd (registry_step hops op s))"
| external: "session_step s (snd (scxml_session_try_send_metadata_impl hops d e name m s))"
| resolve: "sn_staged s = t # ts \<Longrightarrow> sn_unfinished s = None \<Longrightarrow>
    c \<longrightarrow> (\<forall>e. t = Staged_Invocation e \<longrightarrow> may_enter e s) \<Longrightarrow>
    session_step s (resolve_session_ticket c t (s\<lparr>sn_staged := ts\<rparr>))"
| finish_exit: "session_step s (finish_invocation_exit ops s)"

abbreviation session_steps :: "scxml_session_impl \<Rightarrow> scxml_session_impl \<Rightarrow> bool" where
  "session_steps \<equiv> session_step\<^sup>*\<^sup>*"

inductive session_reachable :: "scxml_session_impl \<Rightarrow> bool" where
  start: "length ivs \<le> cap_invocations cap \<Longrightarrow> session_reachable (session_init p ivs io invk ident cap)"
| step: "session_reachable s \<Longrightarrow> session_step s t \<Longrightarrow> session_reachable t"

lemma session_steps_reachable: "session_steps s t \<Longrightarrow> session_reachable s \<Longrightarrow> session_reachable t"
  by (induction rule: rtranclp_induct) (auto intro: session_reachable.step)

lemma session_step_cases:
  assumes "session_step s t"
  obtains (moves) "handler_moves s t"
  | (commit) e ts where "sn_staged s = Staged_Invocation e # ts" "sn_unfinished s = None" "may_enter e s"
      "t = commit_invocation_lifecycle e (s\<lparr>sn_staged := ts\<rparr>)"
  | (finish) ops where "t = finish_invocation_exit ops s"
  | (discard) e ts where "sn_staged s = Staged_Invocation e # ts"
      "t = discard_invocation_lifecycle e (s\<lparr>sn_staged := ts\<rparr>)"
  using assms
proof (cases rule: session_step.cases)
  case (lifecycle ops enter i)
  show ?thesis by (rule moves, unfold lifecycle(1), rule r_into_rtranclp, rule execute_lifecycle_move)
next
  case (hook ops d phase)
  show ?thesis by (rule moves, unfold hook(1), rule host_transaction_moves)
next
  case (invoke_event hops k e)
  show ?thesis by (rule moves, unfold invoke_event(1), rule r_into_rtranclp, rule still, rule same_report_event)
next
  case (invoke_done hops k)
  show ?thesis by (rule moves, unfold invoke_done(1), rule r_into_rtranclp, rule still, rule same_report_done)
next
  case (registry hops op)
  show ?thesis by (rule moves, unfold registry(1), rule r_into_rtranclp, rule still, rule same_registry_step)
next
  case (external hops d e name m)
  show ?thesis by (rule moves, unfold external(1), rule r_into_rtranclp, rule still, rule same_send_metadata)
next
  case (finish_exit ops)
  then show ?thesis by (rule finish)
next
  case (resolve k ts c)
  show ?thesis
  proof (cases "\<exists>e. k = Staged_Invocation e")
    case True
    then obtain e where "k = Staged_Invocation e" by blast
    with resolve show ?thesis
      by (cases c) (auto simp: resolve_session_ticket_def intro: commit discard)
  next
    case False
    then have k: "resolve_session_ticket c k (s\<lparr>sn_staged := ts\<rparr>) = resolve_ticket c k (s\<lparr>sn_staged := ts\<rparr>)"
      by (auto simp: resolve_session_ticket_def split: staged_ticket.split)
    have "same_invocations s (s\<lparr>sn_staged := ts\<rparr>)"
      using resolve(2) False by (cases k) (auto intro!: same_invocationsI)
    then have "same_invocations s t"
      unfolding resolve(1) k using False by (intro same_invocations_trans [OF _ same_registry_ticket]) auto
    then show ?thesis by (intro moves r_into_rtranclp still)
  qed
qed

lemma session_step_inv: "session_step s t \<Longrightarrow> invocation_inv s \<Longrightarrow> invocation_inv t"
  by (erule session_step_cases) (blast intro: inv_handler_moves inv_commit inv_discard inv_finish_exit)+

lemma invocation_inv_init:
  assumes "length ivs \<le> cap_invocations cap"
  shows "invocation_inv (session_init p ivs io invk ident cap)"
proof -
  have "\<not> ie_in_use no_invocation_effect" by (simp add: no_invocation_effect_def)
  then show ?thesis using assms
    by (auto simp: invocation_inv_def session_init_def unique_by_def accounted_def no_invoke_stats_def used_effects_def
        backs_def invocation_row_def token_ok_def holds_token_def active_service_def awaiting_row_def)
qed

lemma reachable_invocation_inv: "session_reachable s \<Longrightarrow> invocation_inv s"
  by (induction rule: session_reachable.induct) (auto intro: invocation_inv_init session_step_inv)

section \<open>The properties\<close>

text \<open>
  (C9)
  The account of invoked services is exact. In every reachable state of a Session, also between the
  sections of an exit under way, whatever the adapters answer and however handlers, reports, commits and discards
  follow one another: the active counter is the number of active rows, and until the 64-bit counter of starts saturates,
  every service started has completed, been cancelled, failed to cancel, is active, or is the one the
  committing thread is about to cancel, and only one of these.
\<close>

theorem invocation_accounting:
  assumes "session_reachable s"
  shows "is_active (sn_invoke_stats s) = count_if active_service (sn_invocation_rows s) \<and>
    (is_started (sn_invoke_stats s) = UINT64_MAX \<or>
     unat (is_started (sn_invoke_stats s)) =
       unat (is_completed (sn_invoke_stats s)) + unat (is_cancelled (sn_invoke_stats s)) +
       unat (is_cancel_failed (sn_invoke_stats s)) + is_active (sn_invoke_stats s) +
       (case sn_unfinished s of Some (Prepare_Cancel token ident) \<Rightarrow> 1 | _ \<Rightarrow> 0))"
proof -
  have p: "pending_cancels u = (case u of Some (Prepare_Cancel token ident) \<Rightarrow> 1 | _ \<Rightarrow> 0)" for u
    by (simp split: option.split unfinished_exit.split)
  show ?thesis
    using reachable_invocation_inv [OF assms] unfolding invocation_inv_def accounted_def p by blast
qed

text \<open>
  (C36)
  A transaction leaves no invocation half started. When all tickets of a Session are resolved, committed
  or discarded, every effect slot is free and every row is inactive, waiting to be started, active or
  failed; the tokens of the rows that have one are distinct and never issued again.
\<close>

theorem invocation_settles:
  assumes "session_reachable s" "sn_staged s = []"
  shows "(\<forall>ef\<in>set (sn_invocation_effects s). \<not> ie_in_use ef) \<and>
    (\<forall>r\<in>set (sn_invocation_rows s). ir_state r \<in> {SCXML_INVOCATION_INACTIVE, SCXML_INVOCATION_PENDING,
       SCXML_INVOCATION_ACTIVE, SCXML_INVOCATION_FAILED}) \<and>
    inj_on ir_token {r \<in> set (sn_invocation_rows s). ir_token r \<noteq> 0} \<and>
    (\<forall>r\<in>set (sn_invocation_rows s). ir_token r \<noteq> 0 \<longrightarrow>
       sn_next_invocation_token s = 0 \<or> ir_token r < sn_next_invocation_token s)"
proof -
  have inv: "invocation_inv s" by (rule reachable_invocation_inv [OF assms(1)])
  have "used_effects s = {}" using inv assms(2) by (simp add: invocation_inv_def)
  then have free: "\<forall>ef\<in>set (sn_invocation_effects s). \<not> ie_in_use ef"
    by (auto simp: used_effects_def in_set_conv_nth)
  then have "\<not> awaiting_row r" if "r \<in> set (sn_invocation_rows s)" for r
    using inv that by (fastforce simp: invocation_inv_def in_set_conv_nth backs_def)
  then have "ir_state r \<in> {SCXML_INVOCATION_INACTIVE, SCXML_INVOCATION_PENDING, SCXML_INVOCATION_ACTIVE,
      SCXML_INVOCATION_FAILED}" if "r \<in> set (sn_invocation_rows s)" for r
    using that by (cases "ir_state r") (auto simp: awaiting_row_def)
  moreover have "inj_on ir_token {r \<in> set (sn_invocation_rows s). ir_token r \<noteq> 0}"
    using inv by (intro unique_by_inj [where P = holds_token]) (auto simp: invocation_inv_def holds_token_def)
  ultimately show ?thesis using inv free by (auto simp: invocation_inv_def token_ok_def holds_token_def)
qed

section \<open>Tokens of services that are gone\<close>

text \<open>A token that was issued, and the tokens the rows hold.\<close>

definition token_past :: "u64 \<Rightarrow> scxml_session_impl \<Rightarrow> bool" where
  "token_past k s \<longleftrightarrow> sn_next_invocation_token s = 0 \<or> k < sn_next_invocation_token s"

definition row_tokens :: "scxml_session_impl \<Rightarrow> u64 set" where
  "row_tokens s = ir_token ` set (sn_invocation_rows s)"

definition dead_token :: "u64 \<Rightarrow> scxml_session_impl \<Rightarrow> bool" where
  "dead_token k s \<longleftrightarrow> k \<noteq> 0 \<and> token_past k s \<and> k \<notin> row_tokens s"

lemma same_tokens: "same_invocations s t \<Longrightarrow> token_past k t = token_past k s \<and> row_tokens t = row_tokens s"
  by (simp add: token_past_def row_tokens_def same_invocations_def inv_part_def)

lemma token_past_issued: "sn_next_invocation_token s \<noteq> 0 \<Longrightarrow> token_past k s \<Longrightarrow> token_past k (token_issued s)"
  using less_Suc_guard [of "sn_next_invocation_token s"]
  by (auto simp: token_past_def token_issued_def intro: less_trans)

lemma row_tokens_upd: "row_tokens (upd_row i (\<lambda>_. r) s) \<subseteq> insert (ir_token r) (row_tokens s)"
  by (auto simp: row_tokens_def upd_row_def dest!: set_update_memD)

lemma handler_move_tokens:
  assumes "handler_move s t" "k \<noteq> 0" "token_past k s"
  shows "token_past k t \<and> (k \<in> row_tokens t \<longrightarrow> k \<in> row_tokens s)"
  using assms
proof (induction rule: handler_move.induct)
  case (still s t)
  then show ?case using same_tokens by blast
next
  case (fill e s ef t)
  have "token_past k (filled e ef s) = token_past k s \<and> row_tokens (filled e ef s) = row_tokens s"
    by (simp add: token_past_def row_tokens_def filled_def upd_effect_def)
  with fill same_tokens show ?case by blast
next
  case (issue s t)
  have "row_tokens (token_issued s) = row_tokens s" by (simp add: row_tokens_def)
  with issue same_tokens [OF issue(2)] token_past_issued [of s k] show ?case by simp
next
  case (reserve s i e ef r t)
  let ?u = "upd_row i (\<lambda>_. r) (token_issued s)"
  have f: "token_past k (filled e ef ?u) = token_past k (token_issued s)" "row_tokens (filled e ef ?u) = row_tokens ?u"
    by (simp_all add: token_past_def row_tokens_def filled_def upd_effect_def upd_row_def)
  have "k \<noteq> ir_token r" using reserve.prems(2) reserve(1,9) by (auto simp: token_past_def)
  moreover have "row_tokens ?u \<subseteq> insert (ir_token r) (row_tokens s)"
    using row_tokens_upd [of i r "token_issued s"] by (simp add: row_tokens_def)
  ultimately show ?case
    using same_tokens [OF reserve(10)] f token_past_issued [OF reserve(1) reserve.prems(2)] by auto
next
  case (retract s i t)
  let ?r = "invocation_row SCXML_INVOCATION_PENDING"
  have "row_tokens (upd_row i (\<lambda>_. ?r) (token_issued s)) \<subseteq> insert 0 (row_tokens s)"
    using row_tokens_upd [of i ?r "token_issued s"] by (simp add: row_tokens_def invocation_row_def)
  moreover have "token_past k (upd_row i (\<lambda>_. ?r) (token_issued s)) = token_past k (token_issued s)"
    by (simp add: token_past_def upd_row_def)
  ultimately show ?case
    using same_tokens [OF retract(3)] token_past_issued [OF retract(1) retract.prems(2)] retract.prems(1) by auto
qed

lemma handler_moves_tokens:
  assumes "handler_moves s t" "k \<noteq> 0" "token_past k s"
  shows "token_past k t \<and> (k \<in> row_tokens t \<longrightarrow> k \<in> row_tokens s)"
  using assms
proof (induction rule: rtranclp_induct)
  case (step u v)
  then show ?case using handler_move_tokens [of u v k] by blast
qed simp

text \<open>Resolving an effect gives rows no token they did not have.\<close>

definition tokens_fall :: "scxml_session_impl \<Rightarrow> scxml_session_impl \<Rightarrow> bool" where
  "tokens_fall s t \<longleftrightarrow> sn_next_invocation_token t = sn_next_invocation_token s \<and>
     row_tokens t \<subseteq> insert 0 (row_tokens s)"

lemma tokens_fall_same: "tokens_fall s t \<Longrightarrow> same_invocations t u \<Longrightarrow> tokens_fall s u"
  using same_tokens [of t u] by (auto simp: tokens_fall_def same_invocations_def inv_part_def)

lemma tokens_fall_frame:
  "sn_next_invocation_token t = sn_next_invocation_token s \<Longrightarrow> sn_invocation_rows t = sn_invocation_rows s \<Longrightarrow>
   tokens_fall s t"
  by (auto simp: tokens_fall_def row_tokens_def)

lemma tokens_fall_row:
  assumes "sn_next_invocation_token t = sn_next_invocation_token s" "sn_invocation_rows t = (sn_invocation_rows s)[i := r]"
    and "ir_token r = 0 \<or> i < length (sn_invocation_rows s) \<and> ir_token r = ir_token (sn_invocation_rows s ! i)"
  shows "tokens_fall s t"
proof -
  have "ir_token r \<in> insert 0 (row_tokens s)" using assms(3) by (auto simp: row_tokens_def)
  then show ?thesis using assms(1,2) by (auto simp: tokens_fall_def row_tokens_def dest!: set_update_memD)
qed

lemma tokens_fall_locked: "tokens_fall s (snd (commit_invocation_locked ef s))"
proof (cases "ie_invocation ef \<ge> length (sn_invocation_rows s)")
  case True
  then show ?thesis by (intro tokens_fall_frame) (simp_all add: commit_invocation_locked_def Let_def)
next
  case False
  let ?i = "ie_invocation ef"
  let ?t = "snd (commit_invocation_locked ef s)"
  have n: "sn_next_invocation_token ?t = sn_next_invocation_token s"
    using False by (simp add: commit_invocation_locked_def Let_def upd_row_def upd_stats_def
        split: scxml_invocation_effect_kind.split)
  have "sn_invocation_rows ?t = sn_invocation_rows s \<or>
      (\<exists>st. sn_invocation_rows ?t = (sn_invocation_rows s)[?i := invocation_row st]) \<or>
      (\<exists>st. sn_invocation_rows ?t = (sn_invocation_rows s)[?i := (sn_invocation_rows s ! ?i)\<lparr>ir_state := st\<rparr>])"
    using False by (auto simp: commit_invocation_locked_def Let_def upd_row_def upd_stats_def
        split: scxml_invocation_effect_kind.split)
  then show ?thesis
    using tokens_fall_frame [OF n] tokens_fall_row [OF n, of ?i] False by (auto simp: invocation_row_def)
qed

lemma tokens_fall_finish: "tokens_fall s (finish_invocation_exit ops s)"
proof -
  have fall: "tokens_fall s (upd_stats f (s\<lparr>sn_unfinished := u\<rparr>))" "tokens_fall s (s\<lparr>sn_unfinished := u\<rparr>)" for f u
    by (rule tokens_fall_frame; simp add: upd_stats_def)+
  show ?thesis
    using tokens_fall_same [OF fall(1) same_call] tokens_fall_same [OF fall(2) same_report_error] fall(1)
      tokens_fall_frame [of s s]
    by (simp add: finish_invocation_exit_def split_beta split: option.split unfinished_exit.split)
qed

lemma tokens_fall_commit: "tokens_fall s (commit_invocation_lifecycle e s)"
proof -
  obtain a u where u: "commit_invocation_locked (sn_invocation_effects s ! e) s = (a, u)" by fastforce
  let ?v = "upd_effect e (\<lambda>x. x\<lparr>ie_in_use := False\<rparr>) u"
  have v: "tokens_fall s ?v"
    using tokens_fall_locked [of s "sn_invocation_effects s ! e"] u
    by (simp add: tokens_fall_def row_tokens_def upd_effect_def)
  show ?thesis
    using u v tokens_fall_same [OF v same_call] tokens_fall_frame [of s s] v
    by (cases a) (simp_all add: commit_invocation_lifecycle_def Let_def tokens_fall_def row_tokens_def)
qed

lemma tokens_fall_discard: "tokens_fall s (discard_invocation_lifecycle e s)"
proof -
  let ?i = "ie_invocation (sn_invocation_effects s ! e)"
  have a: "tokens_fall s (upd_effect e f s)" "tokens_fall s (upd_effect e f (upd_row ?i (\<lambda>_. invocation_row st) s))" for f st
    using tokens_fall_frame [of "upd_effect e f s" s]
      tokens_fall_row [of "upd_effect e f (upd_row ?i (\<lambda>_. invocation_row st) s)" s ?i "invocation_row st"]
    by (simp_all add: upd_effect_def upd_row_def invocation_row_def)
  show ?thesis
    using a tokens_fall_same [OF a(1) same_call] tokens_fall_same [OF a(2) same_call] tokens_fall_frame [of s s]
    by (auto simp: discard_invocation_lifecycle_def Let_def)
qed

lemma session_step_tokens:
  assumes "session_step s t" "k \<noteq> 0" "token_past k s"
  shows "token_past k t \<and> (k \<in> row_tokens t \<longrightarrow> k \<in> row_tokens s)"
  using assms(1)
proof (cases rule: session_step_cases)
  case moves
  then show ?thesis using handler_moves_tokens assms(2,3) by blast
next
  case (finish ops)
  then show ?thesis
    using tokens_fall_finish [of s ops] assms(2,3) by (auto simp: tokens_fall_def token_past_def)
next
  case (commit e ts)
  then show ?thesis
    using tokens_fall_commit [of "s\<lparr>sn_staged := ts\<rparr>" e] assms(2,3)
    by (auto simp: tokens_fall_def token_past_def row_tokens_def)
next
  case (discard e ts)
  then show ?thesis
    using tokens_fall_discard [of "s\<lparr>sn_staged := ts\<rparr>" e] assms(2,3)
    by (auto simp: tokens_fall_def token_past_def row_tokens_def)
qed

lemma session_steps_tokens:
  assumes "session_steps s t" "k \<noteq> 0" "token_past k s"
  shows "token_past k t \<and> (k \<in> row_tokens t \<longrightarrow> k \<in> row_tokens s)"
  using assms
proof (induction rule: rtranclp_induct)
  case (step u v)
  then show ?case using session_step_tokens [of u v k] by blast
qed simp

lemma no_active_invocation:
  assumes "k \<notin> row_tokens s"
  shows "active_invocation k s = None"
proof -
  have "\<not> live_invocation k r" if "r \<in> set (take n (sn_invocation_rows s))" for r n
    using assms in_set_takeD [OF that] by (auto simp: live_invocation_def row_tokens_def)
  then show ?thesis by (simp add: active_invocation_def first_index_None_iff)
qed

text \<open>
  (C10)
  A service that is gone can never speak again. Once no row holds the token any more, because the service was exited or completed
  or replaced, every event and done report under that token is refused without reaching the
  mailbox, and an event that was already on its way is dropped before any finalize, whatever the
  Session did in between: tokens are never issued twice.
\<close>

theorem stale_invocation_dead:
  assumes "session_reachable s" "k \<in> row_tokens s" "k \<noteq> 0"
    and "session_steps s t" "k \<notin> row_tokens t" "session_steps t u"
  shows "fst (scxml_session_report_invoke_event hops k e u) = CFLOW_MAILBOX_INVALID_ARGUMENT \<and>
    fst (scxml_session_report_invoke_done hops k u) = CFLOW_MAILBOX_INVALID_ARGUMENT \<and>
    sn_external (snd (scxml_session_report_invoke_event hops k e u)) = sn_external u \<and>
    sn_external (snd (scxml_session_report_invoke_done hops k u)) = sn_external u \<and>
    (metadata_token_bit k \<or> fst (preprocess_invocation_external ops e k u) = CFLOW_STATECHART_HOST_DROP)"
proof -
  have "token_past k s"
    using reachable_invocation_inv [OF assms(1)] assms(2,3)
    by (auto simp: invocation_inv_def row_tokens_def token_ok_def holds_token_def token_past_def)
  then have "token_past k t" using session_steps_tokens assms(3,4) by blast
  then have "k \<notin> row_tokens u" using session_steps_tokens [OF assms(6,3)] assms(5) by blast
  then have "active_invocation k u = None" by (rule no_active_invocation)
  then show ?thesis using assms(3)
    by (simp add: scxml_session_report_invoke_event_def scxml_session_report_invoke_done_def count_returned_def
        preprocess_invocation_external_def Let_def upd_stats_def)
qed

section \<open>A concrete run\<close>

text \<open>The service of the first invocation is entered, started and exited.\<close>

definition demo_service :: scxml_invocation_descriptor where
  "demo_service = \<lparr>iv_owner = 7, iv_id = ''svc'', iv_owner_id_size = 0, iv_dynamic_id_max_size = 0,
     iv_done_event = 1, iv_autoforward = True, iv_has_id_location = False, iv_type = ''t'', iv_has_type_expr = False,
     iv_src = '''', iv_has_src_expr = False, iv_has_payload = False, iv_has_finalize = False\<rparr>"

definition demo_invoke :: invoke_ops where
  "demo_invoke = \<lparr>vo_host = demo_host, vo_start = (\<lambda>r. (SCXML_ADAPTER_ACCEPTED, Some 3)),
     vo_cancel = (\<lambda>k ident. (SCXML_ADAPTER_ACCEPTED, Some 4)), vo_forward = (\<lambda>k ident e. (SCXML_ADAPTER_FULL, None)),
     vo_internal = (\<lambda>e. CFLOW_MAILBOX_OK), vo_active = (\<lambda>st. st = 7),
     vo_values = (\<lambda>i. Some (''t'', '''', SCXML_PAYLOAD_NONE)),
     vo_location = (\<lambda>i t. (True, True)), vo_finalize = (\<lambda>i. True)\<rparr>"

definition demo_fresh :: scxml_session_impl where
  "demo_fresh = session_init demo_names [demo_service] True True ''u1'' demo_capacities"

definition demo_resolve :: "scxml_session_impl \<Rightarrow> scxml_session_impl" where
  "demo_resolve s = resolve_session_ticket True (hd (sn_staged s)) (s\<lparr>sn_staged := tl (sn_staged s)\<rparr>)"

definition demo_entering :: scxml_session_impl where
  "demo_entering = snd (execute_invocation_lifecycle demo_invoke True 0 demo_fresh)"

definition demo_starting :: scxml_session_impl where
  "demo_starting = snd (scxml_runtime_host_transaction demo_invoke demo_data CFLOW_STATECHART_HOST_PREPARE_QUIESCENCE
     (demo_resolve demo_entering))"

definition demo_started :: scxml_session_impl where
  "demo_started = demo_resolve demo_starting"

definition demo_exiting :: scxml_session_impl where
  "demo_exiting = snd (execute_invocation_lifecycle demo_invoke False 0 demo_started)"

definition demo_cancelling :: scxml_session_impl where
  "demo_cancelling = demo_resolve demo_exiting"

definition demo_exited :: scxml_session_impl where
  "demo_exited = finish_invocation_exit demo_invoke demo_cancelling"

lemma demo_values:
  "sn_staged demo_entering = [Staged_Invocation 0]" "may_enter 0 demo_entering"
  "sn_staged demo_starting = [Staged_Invocation 0]" "may_enter 0 demo_starting"
  "sn_staged demo_started = []" "row_tokens demo_started = {0, 1}"
  "sn_staged demo_exiting = [Staged_Invocation 0]" "may_enter 0 demo_exiting"
  "row_tokens demo_exited = {0}" "is_cancelled (sn_invoke_stats demo_exited) = 1"
  "sn_unfinished demo_entering = None" "sn_unfinished demo_starting = None" "sn_unfinished demo_exiting = None"
  "sn_unfinished demo_cancelling = Some (Prepare_Cancel 1 ''svc'')" "is_cancelled (sn_invoke_stats demo_cancelling) = 0"
  by code_simp+

lemma demo_resolve_step:
  assumes "sn_staged s = [Staged_Invocation e]" "may_enter e s" "sn_unfinished s = None"
  shows "session_step s (demo_resolve s)"
  using session_step.resolve [of s "Staged_Invocation e" "[]" True] assms by (simp add: demo_resolve_def)

lemma demo_service_steps:
  "session_steps demo_fresh demo_started" "session_steps demo_started demo_cancelling"
  "session_steps demo_started demo_exited"
proof -
  have "session_steps demo_fresh demo_entering"
    unfolding demo_entering_def by (rule r_into_rtranclp, rule session_step.lifecycle)
  also have "session_step demo_entering (demo_resolve demo_entering)"
    by (rule demo_resolve_step [OF demo_values(1,2,11)])
  also have "session_step (demo_resolve demo_entering) demo_starting"
    unfolding demo_starting_def by (rule session_step.hook)
  also have "session_step demo_starting demo_started"
    unfolding demo_started_def by (rule demo_resolve_step [OF demo_values(3,4,12)])
  finally show "session_steps demo_fresh demo_started" by simp
  have "session_steps demo_started demo_exiting"
    unfolding demo_exiting_def by (rule r_into_rtranclp, rule session_step.lifecycle)
  also have "session_step demo_exiting demo_cancelling"
    unfolding demo_cancelling_def by (rule demo_resolve_step [OF demo_values(7,8,13)])
  finally show c: "session_steps demo_started demo_cancelling" by simp
  have "session_step demo_cancelling demo_exited"
    unfolding demo_exited_def by (rule session_step.finish_exit)
  with c show "session_steps demo_started demo_exited" by simp
qed

lemma demo_service_reachable:
  "session_reachable demo_started" "session_reachable demo_cancelling" "session_reachable demo_exited"
proof -
  have "session_reachable demo_fresh"
    unfolding demo_fresh_def by (rule session_reachable.start) (simp add: demo_capacities_def)
  then show started: "session_reachable demo_started" by (rule session_steps_reachable [OF demo_service_steps(1)])
  show "session_reachable demo_cancelling" "session_reachable demo_exited"
    by (rule session_steps_reachable [OF demo_service_steps(2) started] session_steps_reachable [OF demo_service_steps(3) started])+
qed

lemma invocation_accounting_witness:
  "is_active (sn_invoke_stats demo_cancelling) = count_if active_service (sn_invocation_rows demo_cancelling) \<and>
   (is_started (sn_invoke_stats demo_cancelling) = UINT64_MAX \<or>
    unat (is_started (sn_invoke_stats demo_cancelling)) =
      unat (is_completed (sn_invoke_stats demo_cancelling)) + 0 +
      unat (is_cancel_failed (sn_invoke_stats demo_cancelling)) + is_active (sn_invoke_stats demo_cancelling) + 1)"
  using invocation_accounting [OF demo_service_reachable(2)]
  unfolding demo_values option.case unfinished_exit.case unsigned_0 .

lemma invocation_settles_witness:
  "filter ie_in_use (sn_invocation_effects demo_started) = [] \<and>
   inj_on ir_token {r \<in> set (sn_invocation_rows demo_started). ir_token r \<noteq> 0}"
  using invocation_settles [OF demo_service_reachable(1) demo_values(5)] by (simp add: filter_empty_conv)

lemma stale_invocation_dead_witness:
  "fst (scxml_session_report_invoke_done demo_host 1 demo_exited) = CFLOW_MAILBOX_INVALID_ARGUMENT"
  using stale_invocation_dead [OF demo_service_reachable(1) _ _ demo_service_steps(3) _ rtranclp.rtrancl_refl, of 1]
  by (simp add: demo_values)

end
