(* ===== verification/Session_Metadata_Tokens.thy ===== *)
theory Session_Metadata_Tokens
  imports Session_Metadata_Inv
begin

text \<open>
  The tokens that metadata slots are given over a run of a Session, across the wrap-around of the
  counter: they run through a cycle of \<open>2 ^ 63 - 1\<close> values.
\<close>

section \<open>The cycle\<close>

definition token_position :: "u64 \<Rightarrow> nat" where
  "token_position t = unat t - (2 ^ 63 + 1)"

definition token_cycle :: nat where
  "token_cycle = 2 ^ 63 - 1"

lemma token_position_bound:
  assumes "TOKEN_BIT < t"
  shows "unat t = 2 ^ 63 + 1 + token_position t" "token_position t < token_cycle"
proof -
  have "2 ^ 63 < unat t" using assms by (simp add: word_less_nat_alt token_bit_value)
  moreover have "unat t < 2 ^ 64" using unsigned_less [of t] by simp
  ultimately show "unat t = 2 ^ 63 + 1 + token_position t" "token_position t < token_cycle"
    by (simp_all add: token_position_def token_cycle_def)
qed

lemma token_position_next:
  assumes "TOKEN_BIT < t"
  shows "token_position (next_metadata_token t) = (token_position t + 1) mod token_cycle"
proof (cases "t = UINT64_MAX")
  case True
  have "unat UINT64_MAX = 2 ^ 64 - 1" by (simp add: unsigned_minus_1_eq_mask mask_eq_exp_minus_1)
  with True have "token_position t + 1 = token_cycle" by (simp add: token_position_def token_cycle_def)
  moreover have "next_metadata_token t = TOKEN_BIT + 1"
    using assms True by (simp add: next_metadata_token_eq)
  then have "token_position (next_metadata_token t) = 0" by (simp add: token_position_def token_bit_value)
  ultimately show ?thesis by simp
next
  case False
  then have nxt: "next_metadata_token t = t + 1" and u: "unat (t + 1) = unat t + 1"
    using assms unat_Suc_guard [of t] by (simp_all add: next_metadata_token_eq)
  have p: "token_position (t + 1) = token_position t + 1"
    unfolding token_position_def u using token_position_bound(1) [OF assms] by linarith
  have "TOKEN_BIT < t + 1" using assms False less_Suc_guard [of t] by simp
  with token_position_bound(2) [of "t + 1"] have "token_position t + 1 < token_cycle" by (simp add: p)
  then show ?thesis by (simp only: nxt p mod_less)
qed

lemma tokens_cycle:
  assumes "TOKEN_BIT < t"
  shows "TOKEN_BIT < (next_metadata_token ^^ n) t \<and>
    token_position ((next_metadata_token ^^ n) t) = (token_position t + n) mod token_cycle"
proof (induction n)
  case 0
  then show ?case using assms token_position_bound(2) [OF assms] by simp
next
  case (Suc n)
  then show ?case using next_metadata_token_bit token_position_next by (simp add: mod_Suc_eq)
qed

lemma tokens_cycle_distinct:
  assumes "TOKEN_BIT < t" "j < k" "k < token_cycle"
  shows "(next_metadata_token ^^ j) t \<noteq> (next_metadata_token ^^ k) t"
proof
  let ?p = "token_position t"
  assume "(next_metadata_token ^^ j) t = (next_metadata_token ^^ k) t"
  then have "(?p + k) mod token_cycle = (?p + j) mod token_cycle"
    using tokens_cycle [OF assms(1)] by metis
  moreover have "?p + j \<le> ?p + k" using assms(2) by simp
  ultimately have "token_cycle dvd (?p + k) - (?p + j)" by (simp only: mod_eq_dvd_iff_nat)
  then have "token_cycle dvd k - j" by simp
  then have "token_cycle \<le> k - j" using assms(2) by (intro dvd_imp_le) simp_all
  with assms(2,3) show False by linarith
qed

section \<open>Tokens over a run\<close>

text \<open>
  Between two states the counter advanced \<open>n\<close> times, and the events posted carry some of the
  tokens it passed, in order.
\<close>

definition tokens_issued :: "nat \<Rightarrow> scxml_session_impl \<Rightarrow> scxml_session_impl \<Rightarrow> bool" where
  "tokens_issued n s t \<longleftrightarrow>
     sn_next_metadata_token t = (next_metadata_token ^^ n) (sn_next_metadata_token s) \<and>
     (\<exists>ks posted. sorted_wrt (<) ks \<and> (\<forall>k\<in>set ks. k < n) \<and> sn_external t = sn_external s @ posted \<and>
        map snd posted = map (\<lambda>k. (next_metadata_token ^^ k) (sn_next_metadata_token s)) ks)"

lemma tokens_issued_none:
  "sn_next_metadata_token t = sn_next_metadata_token s \<Longrightarrow> sn_external t = sn_external s \<Longrightarrow> tokens_issued 0 s t"
  by (auto simp: tokens_issued_def)

lemma tokens_issued_unused:
  assumes "sn_next_metadata_token t = next_metadata_token (sn_next_metadata_token s)" "sn_external t = sn_external s"
  shows "tokens_issued 1 s t"
  unfolding tokens_issued_def using assms by (intro conjI exI [of _ "[]"]) simp_all

lemma tokens_issued_posted:
  assumes "sn_next_metadata_token t = next_metadata_token (sn_next_metadata_token s)"
    "sn_external t = sn_external s @ [(e, sn_next_metadata_token s)]"
  shows "tokens_issued 1 s t"
  unfolding tokens_issued_def
  using assms by (intro conjI exI [of _ "[0]"] exI [of _ "[(e, sn_next_metadata_token s)]"]) simp_all

lemma tokens_issued_trans:
  assumes "tokens_issued m s t" "tokens_issued n t u"
  shows "tokens_issued (m + n) s u"
proof -
  let ?tok = "\<lambda>k. (next_metadata_token ^^ k) (sn_next_metadata_token s)"
  from assms(1) obtain ks xs where a: "sn_next_metadata_token t = ?tok m" "sorted_wrt (<) ks" "\<forall>k\<in>set ks. k < m"
    "sn_external t = sn_external s @ xs" "map snd xs = map ?tok ks"
    by (auto simp: tokens_issued_def)
  from assms(2) obtain js ys where b: "sn_next_metadata_token u = (next_metadata_token ^^ n) (sn_next_metadata_token t)"
    "sorted_wrt (<) js" "\<forall>k\<in>set js. k < n" "sn_external u = sn_external t @ ys"
    "map snd ys = map (\<lambda>k. (next_metadata_token ^^ k) (sn_next_metadata_token t)) js"
    by (auto simp: tokens_issued_def)
  have shift: "(next_metadata_token ^^ k) (?tok m) = ?tok (m + k)" for k
    by (metis add.commute comp_apply funpow_add)
  have "sorted_wrt (<) (ks @ map ((+) m) js)"
    using a(2,3) b(2) by (auto simp: sorted_wrt_append sorted_wrt_map)
  moreover have "\<forall>k\<in>set (ks @ map ((+) m) js). k < m + n" using a(3) b(3) by auto
  moreover have "map snd (xs @ ys) = map ?tok (ks @ map ((+) m) js)"
    using a(5) b(5) by (simp add: a(1) shift)
  ultimately show ?thesis
    unfolding tokens_issued_def using a(1,4) b(1,4) shift [of n]
    by (intro conjI exI [of _ "ks @ map ((+) m) js"] exI [of _ "xs @ ys"]) simp_all
qed

section \<open>Every operation\<close>

definition tokens_same :: "scxml_session_impl \<Rightarrow> scxml_session_impl \<Rightarrow> bool" where
  "tokens_same s t \<longleftrightarrow> sn_next_metadata_token t = sn_next_metadata_token s \<and> sn_external t = sn_external s"

lemma tokens_same_simps [simp]:
  "tokens_same s s" "tokens_same s (upd_system f t) = tokens_same s t"
  "tokens_same s (upd_metadata i g t) = tokens_same s t" "tokens_same s (upd_completion i h t) = tokens_same s t"
  by (simp_all add: tokens_same_def upd_metadata_def upd_completion_def)

lemma tokens_same_updates [simp]:
  "tokens_same s (t\<lparr>sn_destroyed := n\<rparr>) = tokens_same s t" "tokens_same s (t\<lparr>sn_constructed := n\<rparr>) = tokens_same s t"
  "tokens_same s (t\<lparr>sn_current_schema := x\<rparr>) = tokens_same s t" "tokens_same s (t\<lparr>sn_current_live := b\<rparr>) = tokens_same s t"
  "tokens_same s (t\<lparr>sn_current_object := n\<rparr>) = tokens_same s t"
  "tokens_same s (t\<lparr>sn_current_completion := c\<rparr>) = tokens_same s t"
  "tokens_same s (t\<lparr>sn_next_completion_sequence := q\<rparr>) = tokens_same s t"
  by (simp_all add: tokens_same_def)

lemma tokens_same_release: "tokens_same s t \<Longrightarrow> tokens_same s (scxml_runtime_release_event_metadata i t)"
  by (simp add: scxml_runtime_release_event_metadata_def Let_def)

lemma tokens_same_attach: "tokens_same s t \<Longrightarrow> tokens_same s (snd (scxml_analyze_attach_event_content d c i t))"
  by (simp add: scxml_analyze_attach_event_content_def split: scxml_content_kind.split option.split)

lemma tokens_same_discard: "tokens_same s t \<Longrightarrow> tokens_same s (completion_data_discard_payload i t)"
  by (simp add: completion_data_discard_payload_def)

lemma tokens_same_clear: "tokens_same s t \<Longrightarrow> tokens_same s (scxml_runtime_clear_current_event_metadata t)"
  using tokens_same_discard
  by (simp add: scxml_runtime_clear_current_event_metadata_def completion_data_release_def Let_def split: option.split)

lemma tokens_same_completion: "tokens_same s t \<Longrightarrow> tokens_same s (snd (observe_completion d c t))"
  by (simp add: observe_completion_def bind_completion_done_data_def completion_data_bind_oldest_def Let_def
      split: option.split)

lemma tokens_same_slot: "tokens_same s t \<Longrightarrow> tokens_same s (snd (observe_slot d k t))"
  by (simp add: observe_slot_def Let_def split: option.split)

lemma tokens_same_invocation: "tokens_same s t \<Longrightarrow> tokens_same s (snd (observe_invocation e k t))"
  by (simp add: observe_invocation_def Let_def split: option.split)

lemma tokens_same_observe: "tokens_same s (snd (scxml_runtime_observe_event d ob s))"
  using tokens_same_clear [of s s]
  by (simp add: scxml_runtime_observe_event_def Let_def tokens_same_completion tokens_same_slot tokens_same_invocation
      split: option.split)

lemma send_tokens:
  obtains n where "n \<le> 1" "tokens_issued n s (snd (scxml_session_try_send_metadata_impl ops d e name m s))"
proof -
  let ?t = "snd (scxml_session_try_send_metadata_impl ops d e name m s)"
  let ?bad = "\<not> em_abi_ok m \<or> \<not> metadata_fields_valid m \<or> \<not> scxml_runtime_metadata_field_valid name"
  show thesis
  proof (cases "?bad \<or> first_index metadata_slot_free (sn_metadata_rows s) = None")
    case True
    then have "?t = s"
      by (auto simp: scxml_session_try_send_metadata_impl_def scxml_runtime_reserve_event_metadata_def)
    then have "tokens_issued 0 s ?t" by (intro tokens_issued_none) simp_all
    then show thesis by (intro that [of 0]) simp_all
  next
    case False
    then obtain i where i: "first_index metadata_slot_free (sn_metadata_rows s) = Some i" by auto
    define k where "k = sn_next_metadata_token s"
    define v where "v = upd_metadata i (\<lambda>r. r\<lparr>mr_name := cdata name\<rparr>) (upd_metadata i (\<lambda>r. r\<lparr>mr_session := True,
        mr_token := k, mr_in_use := True, mr_send_id := cdata (em_send_id m), mr_origin := cdata (em_origin m),
        mr_origin_type := cdata (em_origin_type m), mr_invoke_id := cdata (em_invoke_id m)\<rparr>)
        (s\<lparr>sn_next_metadata_token := next_metadata_token k\<rparr>))"
    define w where "w = snd (scxml_analyze_attach_event_content d (em_data m) i v)"
    have t: "?t = (if fst (scxml_analyze_attach_event_content d (em_data m) i v)
        then (let q = snd (post_external ops e k w) in
              if ho_post ops e k \<noteq> CFLOW_MAILBOX_OK then scxml_runtime_release_event_metadata i q else q)
        else scxml_runtime_release_event_metadata i w)"
      using False i
      by (simp add: scxml_session_try_send_metadata_impl_def scxml_runtime_reserve_event_metadata_def Let_def v_def
          w_def k_def split_beta split: prod.split bool.split)
    have "tokens_same (s\<lparr>sn_next_metadata_token := next_metadata_token k\<rparr>) v" by (simp add: v_def)
    then have w: "tokens_same (s\<lparr>sn_next_metadata_token := next_metadata_token k\<rparr>) w"
      unfolding w_def by (rule tokens_same_attach)
    have rel: "sn_next_metadata_token (scxml_runtime_release_event_metadata i q) = sn_next_metadata_token q \<and>
        sn_external (scxml_runtime_release_event_metadata i q) = sn_external q" for q
      using tokens_same_release [of q q i] by (simp add: tokens_same_def)
    have "sn_next_metadata_token ?t = next_metadata_token (sn_next_metadata_token s) \<and>
        (sn_external ?t = sn_external s \<or> sn_external ?t = sn_external s @ [(e, sn_next_metadata_token s)])"
      using w rel unfolding t by (simp add: tokens_same_def post_external_def k_def Let_def)
    then have "tokens_issued 1 s ?t" using tokens_issued_unused tokens_issued_posted by blast
    then show thesis by (intro that [of 1]) simp_all
  qed
qed

lemma meta_step_tokens:
  obtains n where "n \<le> 1" "tokens_issued n s (meta_step op s)"
proof -
  have same: thesis if "tokens_same s (meta_step op s)"
    using that tokens_issued_none [of "meta_step op s" s] \<open>\<And>n. n \<le> 1 \<Longrightarrow> tokens_issued n s (meta_step op s) \<Longrightarrow> thesis\<close> [of 0]
    by (simp add: tokens_same_def)
  show thesis
  proof (cases op)
    case (Meta_Send ops d e name m)
    then show thesis using that send_tokens [of s ops d e name m] by simp blast
  next
    case (Meta_Send_Named ops d name m)
    show thesis
    proof (cases "is_cnull name \<or> csize name = 0 \<or> csize name > SCXML_EVENT_METADATA_CAPACITY")
      case True
      then show thesis
        by (intro same) (simp add: Meta_Send_Named scxml_session_try_send_named_with_metadata_def)
    next
      case False
      then have "meta_step op s = snd (scxml_session_try_send_metadata_impl ops d
          (representative_event (sn_program s) (cdata name)) name m s)"
        by (auto simp: Meta_Send_Named scxml_session_try_send_named_with_metadata_def)
      then show thesis using that send_tokens [of s ops d "representative_event (sn_program s) (cdata name)" name m] by metis
    qed
  next
    case (Meta_Observe d ob)
    then show thesis by (intro same) (simp add: tokens_same_observe)
  next
    case (Meta_Reserve_Completion p)
    then show thesis by (intro same) (simp add: completion_data_reserve_def split: option.split)
  next
    case (Meta_Publish_Completion i)
    then show thesis by (intro same) (simp add: completion_data_publish_empty_def tokens_same_discard)
  qed
qed

lemma meta_run_tokens: "\<exists>n. n \<le> length ops \<and> tokens_issued n s (meta_run ops s)"
proof (induction ops arbitrary: s)
  case Nil
  then show ?case using tokens_issued_none [of s s] by (simp add: meta_run_def)
next
  case (Cons op ops)
  obtain m where m: "m \<le> 1" "tokens_issued m s (meta_step op s)" by (rule meta_step_tokens)
  from Cons obtain n where n: "n \<le> length ops" "tokens_issued n (meta_step op s) (meta_run ops (meta_step op s))" by blast
  from tokens_issued_trans [OF m(2) n(2)] m(1) n(1) show ?case by (auto simp: meta_run_def intro!: exI [of _ "m + n"])
qed

text \<open>
  The tokens of events are never mistaken for one another. Take any run of sends, observations and completions
  of a fresh Session, long enough for the counter to wrap around any number of times, and follow it by at most
  \<open>2 ^ 63 - 1\<close> more calls: the events these calls post carry pairwise different tokens, and every token has the bit
  that tells it from the token of an invocation and is not the bit alone.
\<close>

theorem metadata_tokens_distinct:
  assumes "length ops \<le> 2 ^ 63 - 1"
    and "s = meta_run before (session_init p ivs io invk ident cap)"
  shows "\<exists>posted. sn_external (meta_run ops s) = sn_external s @ posted \<and> distinct (map snd posted) \<and>
    (\<forall>k\<in>set (map snd posted). metadata_token_bit k \<and> k \<noteq> SCXML_EXTERNAL_METADATA_TOKEN_BIT)"
proof -
  let ?s0 = "session_init p ivs io invk ident cap"
  let ?k = "sn_next_metadata_token s"
  have "TOKEN_BIT OR 1 = TOKEN_BIT + 1" by (simp add: token_bit_value)
  then have "TOKEN_BIT < sn_next_metadata_token ?s0" by (simp add: session_init_def token_bit_value)
  then have k: "TOKEN_BIT < ?k"
    using meta_run_tokens [of before ?s0] tokens_cycle unfolding assms(2) tokens_issued_def by metis
  obtain n where n: "n \<le> length ops" "tokens_issued n s (meta_run ops s)" using meta_run_tokens by blast
  then obtain ks posted where ks: "sorted_wrt (<) ks" "\<forall>j\<in>set ks. j < n"
    and post: "sn_external (meta_run ops s) = sn_external s @ posted"
      "map snd posted = map (\<lambda>j. (next_metadata_token ^^ j) ?k) ks"
    unfolding tokens_issued_def by blast
  have "inj_on (\<lambda>j. (next_metadata_token ^^ j) ?k) (set ks)"
  proof (rule linorder_inj_onI')
    fix i j
    assume "i \<in> set ks" "j \<in> set ks" "i < j"
    moreover have "j < token_cycle" using ks(2) n(1) assms(1) \<open>j \<in> set ks\<close> by (fastforce simp: token_cycle_def)
    ultimately show "(next_metadata_token ^^ i) ?k \<noteq> (next_metadata_token ^^ j) ?k"
      using tokens_cycle_distinct [OF k, of i j] by simp
  qed
  moreover have "distinct ks" using ks(1) by (simp add: strict_sorted_iff)
  ultimately have "distinct (map snd posted)" unfolding post(2) by (simp add: distinct_map)
  moreover have "metadata_token_bit x \<and> x \<noteq> TOKEN_BIT" if "x \<in> set (map snd posted)" for x
  proof -
    have "TOKEN_BIT < x" using that tokens_cycle [OF k] unfolding post(2) by auto
    then show ?thesis by (auto simp: metadata_token_bit_iff bit63_iff)
  qed
  ultimately show ?thesis using post(1) by blast
qed

text \<open>Two events sent in a row.\<close>

lemma metadata_tokens_distinct_witness:
  "distinct (map snd (sn_external (meta_run [Meta_Send demo_host demo_data 2 (CBytes ''a.b.c'') demo_metadata,
     Meta_Send demo_host demo_data 1 (CNull 0) demo_metadata] demo_session)))"
proof -
  have "demo_session = meta_run [] (session_init demo_names [] True True ''u1'' demo_capacities)"
    by (simp add: meta_run_def demo_session_def)
  from metadata_tokens_distinct [OF _ this, of "[Meta_Send demo_host demo_data 2 (CBytes ''a.b.c'') demo_metadata,
     Meta_Send demo_host demo_data 1 (CNull 0) demo_metadata]"]
  show ?thesis by (auto simp: demo_session_def session_init_def)
qed

end
