(* ===== verification/Expr_Value.thy ===== *)
theory Expr_Value
  imports Prelude Complex_Main "HOL-Library.Signed_Division" "HOL-Library.Log_Nat"
begin

text \<open>
  The scalar values of CMeta expressions and the operations the query machine
  calls on them (\<^verbatim>\<open>src/src/scxml_expr.c\<close>): 64-bit signed and unsigned integers,
  doubles, strings and Booleans; checked arithmetic, exact mixed comparison and
  the binary and unary callbacks. A double is NaN, an infinity or the rational
  number it denotes, so the two zeros are one value: no operation of this file
  tells them apart.
\<close>

section \<open>Doubles\<close>

datatype c_double = DNan | DInf bool | DFin rat

text \<open>The exponent of the leading bit of a positive rational number.\<close>

definition ilog2 :: "rat \<Rightarrow> int" where
  "ilog2 q = (case quotient_of q of (n, d) \<Rightarrow>
     (let e = bitlen n - bitlen d in if 2 powi e \<le> q then e else e - 1))"

text \<open>Rounding to an integer, ties to even, and to the nearest double.\<close>

definition round_even :: "rat \<Rightarrow> int" where
  "round_even q = (let f = \<lfloor>q\<rfloor>; r = q - of_int f in
     if r < 1 / 2 then f else if r > 1 / 2 then f + 1 else if even f then f else f + 1)"

definition double_ulp :: "rat \<Rightarrow> rat" where
  "double_ulp q = 2 powi (max (ilog2 \<bar>q\<bar> - 52) (- 1074))"

definition round_double :: "rat \<Rightarrow> c_double" where
  "round_double q = (if q = 0 then DFin 0 else
     (let r = of_int (round_even (q / double_ulp q)) * double_ulp q in
      if 2 ^ 1024 \<le> \<bar>r\<bar> then DInf (r < 0) else DFin r))"

fun d_isfinite :: "c_double \<Rightarrow> bool" where
  "d_isfinite (DFin q) = True"
| "d_isfinite _ = False"

fun d_isnan :: "c_double \<Rightarrow> bool" where
  "d_isnan DNan = True"
| "d_isnan _ = False"

fun d_less :: "c_double \<Rightarrow> c_double \<Rightarrow> bool" where
  "d_less DNan _ = False"
| "d_less _ DNan = False"
| "d_less (DFin a) (DFin b) \<longleftrightarrow> a < b"
| "d_less (DInf n) (DFin b) \<longleftrightarrow> n"
| "d_less (DFin a) (DInf n) \<longleftrightarrow> \<not> n"
| "d_less (DInf n) (DInf m) \<longleftrightarrow> n \<and> \<not> m"

fun d_neg :: "c_double \<Rightarrow> c_double" where
  "d_neg DNan = DNan"
| "d_neg (DInf n) = DInf (\<not> n)"
| "d_neg (DFin q) = DFin (- q)"

fun d_add :: "c_double \<Rightarrow> c_double \<Rightarrow> c_double" where
  "d_add DNan _ = DNan"
| "d_add _ DNan = DNan"
| "d_add (DInf n) (DInf m) = (if n = m then DInf n else DNan)"
| "d_add (DInf n) (DFin _) = DInf n"
| "d_add (DFin _) (DInf n) = DInf n"
| "d_add (DFin a) (DFin b) = round_double (a + b)"

definition d_sub :: "c_double \<Rightarrow> c_double \<Rightarrow> c_double" where
  "d_sub a b = d_add a (d_neg b)"

fun d_mul :: "c_double \<Rightarrow> c_double \<Rightarrow> c_double" where
  "d_mul DNan _ = DNan"
| "d_mul _ DNan = DNan"
| "d_mul (DInf n) (DInf m) = DInf (n \<noteq> m)"
| "d_mul (DInf n) (DFin b) = (if b = 0 then DNan else DInf (n \<noteq> (b < 0)))"
| "d_mul (DFin a) (DInf m) = (if a = 0 then DNan else DInf ((a < 0) \<noteq> m))"
| "d_mul (DFin a) (DFin b) = round_double (a * b)"

text \<open>Division by a number that is not zero; the caller has excluded zero.\<close>

fun d_div :: "c_double \<Rightarrow> c_double \<Rightarrow> c_double" where
  "d_div DNan _ = DNan"
| "d_div _ DNan = DNan"
| "d_div (DInf n) (DInf m) = DNan"
| "d_div (DInf n) (DFin b) = DInf (n \<noteq> (b < 0))"
| "d_div (DFin a) (DInf m) = DFin 0"
| "d_div (DFin a) (DFin b) = round_double (a / b)"

section \<open>Values\<close>

datatype expr_value_kind =
    EXPR_VALUE_BOOL | EXPR_VALUE_SINT | EXPR_VALUE_UINT | EXPR_VALUE_FLOAT | EXPR_VALUE_STRING

datatype qvm_value =
    VInvalid | VBool bool | VSint u64 | VUint u64 | VFloat c_double | VString string

fun value_kind :: "qvm_value \<Rightarrow> expr_value_kind option" where
  "value_kind VInvalid = None"
| "value_kind (VBool _) = Some EXPR_VALUE_BOOL"
| "value_kind (VSint _) = Some EXPR_VALUE_SINT"
| "value_kind (VUint _) = Some EXPR_VALUE_UINT"
| "value_kind (VFloat _) = Some EXPR_VALUE_FLOAT"
| "value_kind (VString _) = Some EXPR_VALUE_STRING"

text \<open>The operations of the query machine that the compiler emits.\<close>

datatype qvm_opcode =
    QVM_OP_LOAD_CONST | QVM_OP_LOAD_PATH | QVM_OP_TRUE | QVM_OP_FALSE
  | QVM_OP_NOT | QVM_OP_NEG | QVM_OP_ADD | QVM_OP_SUB | QVM_OP_MUL | QVM_OP_DIV | QVM_OP_MOD
  | QVM_OP_CMP | QVM_OP_BAND | QVM_OP_BOR | QVM_OP_JMP_FALSE | QVM_OP_JMP_TRUE

definition arithmetic_opcode :: "qvm_opcode \<Rightarrow> bool" where
  "arithmetic_opcode op \<longleftrightarrow>
     op = QVM_OP_ADD \<or> op = QVM_OP_SUB \<or> op = QVM_OP_MUL \<or> op = QVM_OP_DIV \<or> op = QVM_OP_MOD"

fun expr_truthy :: "qvm_value \<Rightarrow> bool" where
  "expr_truthy (VBool b) = b"
| "expr_truthy _ = False"

section \<open>Integer arithmetic\<close>

abbreviation INT64_MAX :: u64 where "INT64_MAX \<equiv> 0x7FFFFFFFFFFFFFFF"
abbreviation INT64_MIN :: u64 where "INT64_MIN \<equiv> 0x8000000000000000"

definition sdiv64 :: "u64 \<Rightarrow> u64 \<Rightarrow> u64" where
  "sdiv64 a b = word_of_int (sint a sdiv sint b)"

definition smod64 :: "u64 \<Rightarrow> u64 \<Rightarrow> u64" where
  "smod64 a b = word_of_int (sint a smod sint b)"

definition checked_sint_multiply :: "u64 \<Rightarrow> u64 \<Rightarrow> u64 option" where
  "checked_sint_multiply left right =
     (if 0 <s left \<and> (0 <s right \<and> sdiv64 INT64_MAX right <s left \<or>
                       right <s 0 \<and> right <s sdiv64 INT64_MIN left) then None
      else if left <s 0 \<and> (0 <s right \<and> left <s sdiv64 INT64_MIN right \<or>
                           right <s 0 \<and> right <s sdiv64 INT64_MAX left) then None
      else Some (left * right))"

fun evaluate_sint_arithmetic :: "qvm_opcode \<Rightarrow> u64 \<Rightarrow> u64 \<Rightarrow> u64 option" where
  "evaluate_sint_arithmetic QVM_OP_ADD left right =
     (if 0 <s right \<and> INT64_MAX - right <s left \<or> right <s 0 \<and> left <s INT64_MIN - right
      then None else Some (left + right))"
| "evaluate_sint_arithmetic QVM_OP_SUB left right =
     (if 0 <s right \<and> left <s INT64_MIN + right \<or> right <s 0 \<and> INT64_MAX + right <s left
      then None else Some (left - right))"
| "evaluate_sint_arithmetic QVM_OP_MUL left right = checked_sint_multiply left right"
| "evaluate_sint_arithmetic QVM_OP_DIV left right =
     (if right = 0 \<or> left = INT64_MIN \<and> right = - 1 then None else Some (sdiv64 left right))"
| "evaluate_sint_arithmetic QVM_OP_MOD left right =
     (if right = 0 \<or> left = INT64_MIN \<and> right = - 1 then None else Some (smod64 left right))"
| "evaluate_sint_arithmetic _ left right = None"

fun evaluate_uint_arithmetic :: "qvm_opcode \<Rightarrow> u64 \<Rightarrow> u64 \<Rightarrow> u64 option" where
  "evaluate_uint_arithmetic QVM_OP_ADD left right =
     (if UINT64_MAX - right < left then None else Some (left + right))"
| "evaluate_uint_arithmetic QVM_OP_SUB left right =
     (if left < right then None else Some (left - right))"
| "evaluate_uint_arithmetic QVM_OP_MUL left right =
     (if right \<noteq> 0 \<and> UINT64_MAX div right < left then None else Some (left * right))"
| "evaluate_uint_arithmetic QVM_OP_DIV left right = (if right = 0 then None else Some (left div right))"
| "evaluate_uint_arithmetic QVM_OP_MOD left right = (if right = 0 then None else Some (left mod right))"
| "evaluate_uint_arithmetic _ left right = None"

section \<open>Floating arithmetic\<close>

fun numeric_as_double :: "qvm_value \<Rightarrow> c_double option" where
  "numeric_as_double (VFloat d) = Some d"
| "numeric_as_double (VSint w) = Some (round_double (of_int (sint w)))"
| "numeric_as_double (VUint w) = Some (round_double (of_int (uint w)))"
| "numeric_as_double _ = None"

definition float_op :: "qvm_opcode \<Rightarrow> c_double \<Rightarrow> c_double \<Rightarrow> c_double option" where
  "float_op op a b = (case op of
       QVM_OP_ADD \<Rightarrow> Some (d_add a b) | QVM_OP_SUB \<Rightarrow> Some (d_sub a b)
     | QVM_OP_MUL \<Rightarrow> Some (d_mul a b) | QVM_OP_DIV \<Rightarrow> Some (d_div a b) | _ \<Rightarrow> None)"

definition evaluate_float_arithmetic :: "qvm_opcode \<Rightarrow> qvm_value \<Rightarrow> qvm_value \<Rightarrow> c_double option" where
  "evaluate_float_arithmetic op left right =
     (if op = QVM_OP_MOD then None
      else case numeric_as_double left of None \<Rightarrow> None | Some left_number \<Rightarrow>
        (case numeric_as_double right of None \<Rightarrow> None | Some right_number \<Rightarrow>
           if op = QVM_OP_DIV \<and> right_number = DFin 0 then None
           else case float_op op left_number right_number of None \<Rightarrow> None
             | Some out \<Rightarrow> if d_isfinite out then Some out else None))"

definition expr_arithmetic_binary :: "qvm_opcode \<Rightarrow> qvm_value \<Rightarrow> qvm_value \<Rightarrow> qvm_value option" where
  "expr_arithmetic_binary op left right = (case (left, right) of
       (VSint a, VSint b) \<Rightarrow> map_option VSint (evaluate_sint_arithmetic op a b)
     | (VUint a, VUint b) \<Rightarrow> map_option VUint (evaluate_uint_arithmetic op a b)
     | _ \<Rightarrow> if value_kind left = Some EXPR_VALUE_FLOAT \<or> value_kind right = Some EXPR_VALUE_FLOAT
            then map_option VFloat (evaluate_float_arithmetic op left right)
            else None)"

section \<open>Comparison\<close>

text \<open>The order of two operands as an integer of that sign, or unordered.\<close>

datatype comparison = Unordered | Ordered int

abbreviation SINT64_UPPER :: c_double where "SINT64_UPPER \<equiv> DFin 9223372036854775808"
abbreviation UINT64_UPPER :: c_double where "UINT64_UPPER \<equiv> DFin 18446744073709551616"

definition d_order :: "c_double \<Rightarrow> c_double \<Rightarrow> int" where
  "d_order a b = (if d_less a b then -1 else if d_less b a then 1 else 0)"

text \<open>The conversion of a finite double to an integer drops its fraction.\<close>

definition d_trunc :: "c_double \<Rightarrow> int" where
  "d_trunc d = (case d of DFin q \<Rightarrow> if 0 \<le> q then \<lfloor>q\<rfloor> else \<lceil>q\<rceil> | _ \<Rightarrow> 0)"

definition compare_sint_float :: "u64 \<Rightarrow> c_double \<Rightarrow> comparison" where
  "compare_sint_float integer number =
     (if d_isnan number then Unordered
      else if \<not> d_less number SINT64_UPPER then Ordered (-1)
      else if d_less number (d_neg SINT64_UPPER) then Ordered 1
      else (let truncated = word_of_int (d_trunc number) :: u64 in
        if integer <s truncated then Ordered (-1)
        else if truncated <s integer then Ordered 1
        else Ordered (d_order (round_double (of_int (sint truncated))) number)))"

definition compare_uint_float :: "u64 \<Rightarrow> c_double \<Rightarrow> comparison" where
  "compare_uint_float integer number =
     (if d_isnan number then Unordered
      else if \<not> d_less number UINT64_UPPER then Ordered (-1)
      else if d_less number (DFin 0) then Ordered 1
      else (let truncated = word_of_int (d_trunc number) :: u64 in
        if integer < truncated then Ordered (-1)
        else if truncated < integer then Ordered 1
        else Ordered (d_order (round_double (of_int (uint truncated))) number)))"

fun reverse_order :: "comparison \<Rightarrow> comparison" where
  "reverse_order Unordered = Unordered"
| "reverse_order (Ordered i) = Ordered (- i)"

definition sint_order :: "u64 \<Rightarrow> u64 \<Rightarrow> int" where
  "sint_order a b = (if a <s b then -1 else if b <s a then 1 else 0)"

definition uint_order :: "u64 \<Rightarrow> u64 \<Rightarrow> int" where
  "uint_order a b = (if a < b then -1 else if b < a then 1 else 0)"

fun numeric_compare :: "qvm_value \<Rightarrow> qvm_value \<Rightarrow> comparison option" where
  "numeric_compare (VFloat a) (VFloat b) =
     Some (if d_isnan a \<or> d_isnan b then Unordered else Ordered (d_order a b))"
| "numeric_compare (VSint a) (VFloat b) = Some (compare_sint_float a b)"
| "numeric_compare (VUint a) (VFloat b) = Some (compare_uint_float a b)"
| "numeric_compare (VFloat a) (VSint b) = Some (reverse_order (compare_sint_float b a))"
| "numeric_compare (VFloat a) (VUint b) = Some (reverse_order (compare_uint_float b a))"
| "numeric_compare (VSint a) (VSint b) = Some (Ordered (sint_order a b))"
| "numeric_compare (VUint a) (VUint b) = Some (Ordered (uint_order a b))"
| "numeric_compare (VSint a) (VUint b) =
     Some (Ordered (if a <s 0 then -1 else uint_order a b))"
| "numeric_compare (VUint a) (VSint b) =
     Some (Ordered (if b <s 0 then 1 else uint_order a b))"
| "numeric_compare _ _ = None"

text \<open>\<^verbatim>\<open>memcmp\<close> on the common prefix, then the lengths: the bytes are unsigned.\<close>

fun memcmp :: "string \<Rightarrow> string \<Rightarrow> int" where
  "memcmp (a # as) (b # bs) =
     (if a = b then memcmp as bs else if (of_char a :: nat) < of_char b then -1 else 1)"
| "memcmp _ _ = 0"

definition string_order :: "string \<Rightarrow> string \<Rightarrow> int" where
  "string_order a b = (let common = min (length a) (length b);
       order = (if common \<noteq> 0 then memcmp (take common a) (take common b) else 0) in
     if order = 0 then (if length a < length b then -1 else if length a > length b then 1 else 0)
     else order)"

definition operand_order :: "nat \<Rightarrow> qvm_value \<Rightarrow> qvm_value \<Rightarrow> comparison option" where
  "operand_order arg left right = (case (left, right) of
       (VBool a, VBool b) \<Rightarrow>
         if 1 < arg then None else Some (Ordered (if a = b then 0 else if a then 1 else -1))
     | (VString a, VString b) \<Rightarrow> Some (Ordered (string_order a b))
     | _ \<Rightarrow> numeric_compare left right)"

definition comparison_result :: "nat \<Rightarrow> comparison \<Rightarrow> bool" where
  "comparison_result arg c = (case c of
       Unordered \<Rightarrow> arg = 1
     | Ordered order \<Rightarrow>
         if arg = 0 then order = 0 else if arg = 1 then order \<noteq> 0
         else if arg = 2 then order < 0 else if arg = 3 then order \<le> 0
         else if arg = 4 then order > 0 else order \<ge> 0)"

section \<open>The callbacks of the query machine\<close>

definition expr_binary :: "qvm_opcode \<Rightarrow> nat \<Rightarrow> qvm_value \<Rightarrow> qvm_value \<Rightarrow> qvm_value option" where
  "expr_binary op arg left right =
     (if arithmetic_opcode op then expr_arithmetic_binary op left right
      else if op = QVM_OP_BAND \<or> op = QVM_OP_BOR then
        (case (left, right) of
           (VBool a, VBool b) \<Rightarrow> Some (VBool (if op = QVM_OP_BAND then a \<and> b else a \<or> b))
         | _ \<Rightarrow> None)
      else if op \<noteq> QVM_OP_CMP \<or> 5 < arg then None
      else map_option (VBool \<circ> comparison_result arg) (operand_order arg left right))"

definition expr_unary :: "qvm_opcode \<Rightarrow> qvm_value \<Rightarrow> qvm_value option" where
  "expr_unary op input =
     (if op \<noteq> QVM_OP_NEG then None
      else case input of
        VSint value \<Rightarrow> if value = INT64_MIN then None else Some (VSint (- value))
      | VFloat number \<Rightarrow> if d_isfinite (d_neg number) then Some (VFloat (d_neg number)) else None
      | _ \<Rightarrow> None)"

definition expr_make_invalid :: qvm_value where
  "expr_make_invalid = VInvalid"

definition expr_make_bool :: "int \<Rightarrow> qvm_value" where
  "expr_make_bool value = VBool (value \<noteq> 0)"

definition expr_make_number :: "c_double \<Rightarrow> qvm_value" where
  "expr_make_number value = VFloat value"

definition expr_make_string :: "string \<Rightarrow> qvm_value" where
  "expr_make_string value = VString value"

end
