(* ===== verification/Expr_Schema.thy ===== *)
theory Expr_Schema
  imports Expr_Value
begin

text \<open>
  What the expression compiler reads of the data schema: the descriptors of the
  CMeta reflection library as the rows it looks at, the scalar kind of a
  descriptor, fields by name, dotted paths and the search for an event data path
  (\<^verbatim>\<open>src/src/scxml_expr.c\<close>), and the lookup of a supplemental slot
  (\<^verbatim>\<open>src/src/cmeta_scope.c\<close>).
\<close>

section \<open>Descriptors\<close>

text \<open>
  The reflection library is not part of the repository. A descriptor is a number
  and the schema maps it to the members the code reads, with the verdict of
  \<^verbatim>\<open>cmeta_data_desc_valid\<close> as one of them; the null pointer is a number whose row is
  not valid. Schemas may be cyclic.
\<close>

datatype cmeta_data_kind =
    CMETA_DATA_BOOL | CMETA_DATA_SINT | CMETA_DATA_UINT | CMETA_DATA_FLOAT | CMETA_DATA_ENUM
  | CMETA_DATA_STRING | CMETA_DATA_STRUCT | CMETA_DATA_OTHER

record cmeta_field =
  cf_name :: "string option"
  cf_value :: nat
  cf_offset :: nat

record cmeta_desc =
  cd_valid :: bool
  cd_kind :: cmeta_data_kind
  cd_size :: "nat option"
  cd_fields :: "cmeta_field list option"
  cd_bits :: nat
  cd_enum_ops :: bool
  cd_readable :: bool

type_synonym cmeta_schema = "nat \<Rightarrow> cmeta_desc"

abbreviation SIZE_MAX :: nat where "SIZE_MAX \<equiv> 18446744073709551615"

definition desc_scalar_kind :: "cmeta_desc \<Rightarrow> expr_value_kind option" where
  "desc_scalar_kind desc =
     (if \<not> cd_valid desc then None
      else case cd_size desc of None \<Rightarrow> None | Some n \<Rightarrow>
       (case cd_kind desc of
          CMETA_DATA_BOOL \<Rightarrow> if n \<noteq> 1 then None else Some EXPR_VALUE_BOOL
        | CMETA_DATA_SINT \<Rightarrow> if n \<noteq> cd_bits desc div 8 then None else Some EXPR_VALUE_SINT
        | CMETA_DATA_UINT \<Rightarrow> if n \<noteq> cd_bits desc div 8 then None else Some EXPR_VALUE_UINT
        | CMETA_DATA_FLOAT \<Rightarrow> if n \<noteq> cd_bits desc div 8 then None else Some EXPR_VALUE_FLOAT
        | CMETA_DATA_ENUM \<Rightarrow> if \<not> cd_enum_ops desc then None else Some EXPR_VALUE_SINT
        | CMETA_DATA_STRING \<Rightarrow> if \<not> cd_readable desc then None else Some EXPR_VALUE_STRING
        | _ \<Rightarrow> None))"

fun find_field_view :: "cmeta_field list \<Rightarrow> string \<Rightarrow> cmeta_field option" where
  "find_field_view [] name = None"
| "find_field_view (field # rest) name =
     (if cf_name field = Some name then Some field else find_field_view rest name)"

text \<open>A descriptor whose fields can be walked: a structure with a shape.\<close>

definition struct_fields :: "cmeta_desc \<Rightarrow> cmeta_field list option" where
  "struct_fields desc = (if cd_kind desc = CMETA_DATA_STRUCT then cd_fields desc else None)"

section \<open>Supplemental slots\<close>

record cmeta_slot =
  sl_name :: string
  sl_value :: nat

definition cmeta_scope_find :: "cmeta_slot list option \<Rightarrow> string \<Rightarrow> (nat \<times> cmeta_slot) option" where
  "cmeta_scope_find schema name = (case schema of None \<Rightarrow> None
     | Some slots \<Rightarrow> map_option (\<lambda>index. (index, slots ! index)) (first_index (\<lambda>slot. sl_name slot = name) slots))"

section \<open>Paths\<close>

text \<open>
  A path is resolved segment by segment; every dot and the end of the text closes
  one. \<^theory_text>\<open>depth\<close> is the number of segments that may still be resolved.
\<close>

fun split_dots :: "string \<Rightarrow> string list" where
  "split_dots [] = [[]]"
| "split_dots (c # cs) =
     (if c = CHR ''.'' then [] # split_dots cs
      else case split_dots cs of [] \<Rightarrow> [[c]] | s # ss \<Rightarrow> (c # s) # ss)"

fun resolve_segments :: "cmeta_schema \<Rightarrow> nat \<Rightarrow> string list \<Rightarrow> nat \<Rightarrow> nat option" where
  "resolve_segments schema current [] depth = None"
| "resolve_segments schema current (segment # rest) 0 = None"
| "resolve_segments schema current (segment # rest) (Suc depth) =
     (case struct_fields (schema current) of None \<Rightarrow> None
      | Some fs \<Rightarrow>
          (case find_field_view fs segment of None \<Rightarrow> None
           | Some field \<Rightarrow>
               if \<not> cd_valid (schema (cf_value field)) then None
               else if rest = [] then Some (cf_value field)
               else resolve_segments schema (cf_value field) rest depth))"

definition resolve_data_path :: "cmeta_schema \<Rightarrow> nat \<Rightarrow> string \<Rightarrow> nat \<Rightarrow> nat option" where
  "resolve_data_path schema base path max_depth =
     (if \<not> cd_valid (schema base) \<or> struct_fields (schema base) = None \<or> path = [] then None
      else resolve_segments schema base (split_dots path) max_depth)"

section \<open>The search for an event data path\<close>

record event_path_match =
  em_found :: "(nat \<times> expr_value_kind) option"
  em_visited :: nat
  em_ambiguous :: bool
  em_limit_exceeded :: bool

definition no_match :: event_path_match where
  "no_match = \<lparr>em_found = None, em_visited = 0, em_ambiguous = False, em_limit_exceeded = False\<rparr>"

definition match_over :: "event_path_match \<Rightarrow> bool" where
  "match_over match \<longleftrightarrow> em_ambiguous match \<or> em_limit_exceeded match"

text \<open>The verdict on one candidate: its own resolution of the path.\<close>

definition match_candidate ::
  "cmeta_schema \<Rightarrow> nat \<Rightarrow> string \<Rightarrow> nat \<Rightarrow> event_path_match \<Rightarrow> event_path_match" where
  "match_candidate schema candidate path max_path_depth match =
     (case resolve_data_path schema candidate path max_path_depth of None \<Rightarrow> match
      | Some resolved \<Rightarrow>
          (case desc_scalar_kind (schema resolved) of None \<Rightarrow> match
           | Some kind \<Rightarrow>
               (case em_found match of
                  None \<Rightarrow> match\<lparr>em_found := Some (resolved, kind)\<rparr>
                | Some (_, found_kind) \<Rightarrow>
                    if found_kind \<noteq> kind then match\<lparr>em_ambiguous := True\<rparr> else match)))"

fun match_fields ::
  "cmeta_schema \<Rightarrow> (nat \<Rightarrow> event_path_match \<Rightarrow> event_path_match) \<Rightarrow> cmeta_field list
     \<Rightarrow> event_path_match \<Rightarrow> event_path_match" where
  "match_fields schema visit [] match = match"
| "match_fields schema visit (field # rest) match =
     (let desc = schema (cf_value field);
          match' = (if cd_valid desc \<and> cd_kind desc = CMETA_DATA_STRUCT
                    then visit (cf_value field) match else match) in
      if match_over match' then match' else match_fields schema visit rest match')"

text \<open>
  The recursion stops when the schema depth passes \<^verbatim>\<open>max_path_depth\<close>: the first
  argument is the number of levels that are left.
\<close>

primrec find_event_path_match ::
  "nat \<Rightarrow> cmeta_schema \<Rightarrow> string \<Rightarrow> nat \<Rightarrow> nat \<Rightarrow> nat \<Rightarrow> event_path_match \<Rightarrow> event_path_match" where
  "find_event_path_match 0 schema path max_path_depth visit_limit candidate match = match"
| "find_event_path_match (Suc levels) schema path max_path_depth visit_limit candidate match =
     (let desc = schema candidate in
      if match_over match \<or> \<not> cd_valid desc then match
      else case struct_fields desc of None \<Rightarrow> match
      | Some fs \<Rightarrow>
          if visit_limit \<le> em_visited match then match\<lparr>em_limit_exceeded := True\<rparr>
          else (let match' = match_candidate schema candidate path max_path_depth
                       (match\<lparr>em_visited := em_visited match + 1\<rparr>) in
            if em_ambiguous match' then match'
            else match_fields schema
                   (find_event_path_match levels schema path max_path_depth visit_limit) fs match'))"

end
