(* ===== verification/Expr_Lexer.thy ===== *)
theory Expr_Lexer
  imports Prelude
begin

text \<open>
  The tokens of a CMeta expression (\<^verbatim>\<open>parser_next\<close> of \<^verbatim>\<open>src/src/scxml_expr.c\<close>). The
  source is its list of bytes; a token is its kind with the offset and the size of
  its text in the source.
\<close>

datatype expr_token_kind =
    EXPR_TOKEN_END | EXPR_TOKEN_IDENT | EXPR_TOKEN_NUMBER | EXPR_TOKEN_STRING
  | EXPR_TOKEN_LPAREN | EXPR_TOKEN_RPAREN | EXPR_TOKEN_DOT | EXPR_TOKEN_NOT
  | EXPR_TOKEN_PLUS | EXPR_TOKEN_MINUS | EXPR_TOKEN_STAR | EXPR_TOKEN_SLASH | EXPR_TOKEN_PERCENT
  | EXPR_TOKEN_EQ | EXPR_TOKEN_NE | EXPR_TOKEN_LT | EXPR_TOKEN_LE | EXPR_TOKEN_GT | EXPR_TOKEN_GE
  | EXPR_TOKEN_AND | EXPR_TOKEN_OR | EXPR_TOKEN_INVALID

record expr_token =
  et_kind :: expr_token_kind
  et_offset :: nat
  et_size :: nat

section \<open>Characters\<close>

definition char_between :: "char \<Rightarrow> char \<Rightarrow> char \<Rightarrow> bool" where
  "char_between low high c \<longleftrightarrow> (of_char low :: nat) \<le> of_char c \<and> (of_char c :: nat) \<le> of_char high"

definition expr_space :: "char \<Rightarrow> bool" where
  "expr_space c \<longleftrightarrow> c = CHR '' '' \<or> c = CHR 0x09 \<or> c = CHR 0x0D \<or> c = CHR 0x0A"

definition expr_digit :: "char \<Rightarrow> bool" where
  "expr_digit c \<longleftrightarrow> char_between (CHR ''0'') (CHR ''9'') c"

definition expr_ident_start :: "char \<Rightarrow> bool" where
  "expr_ident_start c \<longleftrightarrow> char_between (CHR ''A'') (CHR ''Z'') c \<or>
     char_between (CHR ''a'') (CHR ''z'') c \<or> c = CHR ''_''"

definition expr_ident_continue :: "char \<Rightarrow> bool" where
  "expr_ident_continue c \<longleftrightarrow> expr_ident_start c \<or> expr_digit c"

section \<open>Scanning\<close>

text \<open>The first position from \<^theory_text>\<open>i\<close> on whose byte is not in the class.\<close>

definition scan_while :: "(char \<Rightarrow> bool) \<Rightarrow> string \<Rightarrow> nat \<Rightarrow> nat" where
  "scan_while P source i = i + length (takeWhile P (drop i source))"

definition char_at :: "string \<Rightarrow> nat \<Rightarrow> char option" where
  "char_at source i = (if i < length source then Some (source ! i) else None)"

text \<open>
  The bytes of a number after its first digit: digits and dots, then one exponent
  mark with an optional sign, then digits.
\<close>

fun number_tail :: "bool \<Rightarrow> string \<Rightarrow> nat" where
  "number_tail exponent [] = 0"
| "number_tail exponent (c # cs) =
     (if expr_digit c then Suc (number_tail exponent cs)
      else if c = CHR ''.'' \<and> \<not> exponent then Suc (number_tail exponent cs)
      else if (c = CHR ''e'' \<or> c = CHR ''E'') \<and> \<not> exponent then
        (case cs of
           [] \<Rightarrow> 1
         | d # ds \<Rightarrow> if d = CHR ''+'' \<or> d = CHR ''-'' then 2 + number_tail True ds
                     else Suc (number_tail True cs))
      else 0)"

definition number_end :: "string \<Rightarrow> nat \<Rightarrow> nat" where
  "number_end source i = (let e = i + number_tail False (drop i source) in
     if char_at source e = Some (CHR ''u'') \<or> char_at source e = Some (CHR ''U'') then e + 1 else e)"

text \<open>Operators of one byte, and of two when the expected second byte follows.\<close>

definition operator_token :: "char \<Rightarrow> char option \<Rightarrow> expr_token_kind \<times> nat" where
  "operator_token c following =
     (if c = CHR ''('' then (EXPR_TOKEN_LPAREN, 1)
      else if c = CHR '')'' then (EXPR_TOKEN_RPAREN, 1)
      else if c = CHR ''.'' then (EXPR_TOKEN_DOT, 1)
      else if c = CHR ''+'' then (EXPR_TOKEN_PLUS, 1)
      else if c = CHR ''-'' then (EXPR_TOKEN_MINUS, 1)
      else if c = CHR ''*'' then (EXPR_TOKEN_STAR, 1)
      else if c = CHR ''/'' then (EXPR_TOKEN_SLASH, 1)
      else if c = CHR ''%'' then (EXPR_TOKEN_PERCENT, 1)
      else if c = CHR ''!'' then
        (if following = Some (CHR ''='') then (EXPR_TOKEN_NE, 2) else (EXPR_TOKEN_NOT, 1))
      else if c = CHR ''='' then
        (if following = Some (CHR ''='') then (EXPR_TOKEN_EQ, 2) else (EXPR_TOKEN_INVALID, 1))
      else if c = CHR ''<'' then
        (if following = Some (CHR ''='') then (EXPR_TOKEN_LE, 2) else (EXPR_TOKEN_LT, 1))
      else if c = CHR ''>'' then
        (if following = Some (CHR ''='') then (EXPR_TOKEN_GE, 2) else (EXPR_TOKEN_GT, 1))
      else if c = CHR ''&'' then
        (if following = Some (CHR ''&'') then (EXPR_TOKEN_AND, 2) else (EXPR_TOKEN_INVALID, 1))
      else if c = CHR ''|'' then
        (if following = Some (CHR ''|'') then (EXPR_TOKEN_OR, 2) else (EXPR_TOKEN_INVALID, 1))
      else (EXPR_TOKEN_INVALID, 1))"

section \<open>The next token\<close>

definition string_token :: "string \<Rightarrow> nat \<Rightarrow> expr_token \<times> nat" where
  "string_token source first =
     (let e = scan_while (\<lambda>c. c \<noteq> CHR 0x22 \<and> c \<noteq> CHR 0x5C) source first in
      if char_at source e \<noteq> Some (CHR 0x22)
      then (\<lparr>et_kind = EXPR_TOKEN_INVALID, et_offset = first - 1, et_size = e - (first - 1)\<rparr>, e)
      else (\<lparr>et_kind = EXPR_TOKEN_STRING, et_offset = first, et_size = e - first\<rparr>, e + 1))"

definition next_token :: "string \<Rightarrow> nat \<Rightarrow> expr_token \<times> nat" where
  "next_token source cursor =
     (let b = scan_while expr_space source cursor in
      case char_at source b of
        None \<Rightarrow> (\<lparr>et_kind = EXPR_TOKEN_END, et_offset = b, et_size = 0\<rparr>, b)
      | Some c \<Rightarrow>
          if expr_ident_start c then
            (let e = scan_while expr_ident_continue source (b + 1) in
             (\<lparr>et_kind = EXPR_TOKEN_IDENT, et_offset = b, et_size = e - b\<rparr>, e))
          else if expr_digit c then
            (let e = number_end source (b + 1) in
             (\<lparr>et_kind = EXPR_TOKEN_NUMBER, et_offset = b, et_size = e - b\<rparr>, e))
          else if c = CHR 0x22 then string_token source (b + 1)
          else (case operator_token c (char_at source (b + 1)) of
             (kind, n) \<Rightarrow> (\<lparr>et_kind = kind, et_offset = b, et_size = n\<rparr>, b + n)))"

definition token_text :: "string \<Rightarrow> expr_token \<Rightarrow> string" where
  "token_text source token = take (et_size token) (drop (et_offset token) source)"

section \<open>Progress\<close>

text \<open>
  Every token but the end consumes at least one byte, and the cursor stays within
  the source.
\<close>

lemma scan_while_ge: "i \<le> scan_while P source i"
  by (simp add: scan_while_def)

lemma scan_while_le: "i \<le> length source \<Longrightarrow> scan_while P source i \<le> length source"
  using length_takeWhile_le [of P "drop i source"] by (simp add: scan_while_def)

lemma number_tail_le: "number_tail b cs \<le> length cs"
  by (induction b cs rule: number_tail.induct) (auto split: list.splits)

lemma char_at_lt: "char_at source i = Some c \<Longrightarrow> i < length source"
  by (simp add: char_at_def split: if_splits)

lemma number_end_bounds:
  assumes "i \<le> length source"
  shows "i \<le> number_end source i" "number_end source i \<le> length source"
  using assms number_tail_le [of False "drop i source"]
  by (auto simp: number_end_def Let_def dest!: char_at_lt)

lemma operator_token_size:
  "operator_token c f = (k, n) \<Longrightarrow> 1 \<le> n \<and> (n = 1 \<or> n = 2 \<and> f \<noteq> None) \<and> k \<noteq> EXPR_TOKEN_END"
  by (auto simp: operator_token_def split: if_splits)

lemma string_token_progress:
  assumes "1 \<le> i" "i \<le> length source" "string_token source i = (token, c)"
  shows "i \<le> c" "c \<le> length source" "et_offset token + et_size token \<le> length source"
    "et_kind token \<noteq> EXPR_TOKEN_END"
proof -
  let ?e = "scan_while (\<lambda>c. c \<noteq> CHR 0x22 \<and> c \<noteq> CHR 0x5C) source i"
  have "i \<le> ?e" "?e \<le> length source" using assms(2) by (simp_all add: scan_while_ge scan_while_le)
  then have "i \<le> c \<and> c \<le> length source \<and> et_offset token + et_size token \<le> length source \<and>
      et_kind token \<noteq> EXPR_TOKEN_END"
    using assms by (auto simp: string_token_def Let_def split: if_splits dest!: char_at_lt)
  then show "i \<le> c" "c \<le> length source" "et_offset token + et_size token \<le> length source"
    "et_kind token \<noteq> EXPR_TOKEN_END" by auto
qed

lemma next_token_progress:
  assumes "cursor \<le> length source" "next_token source cursor = (token, c)"
  shows "cursor \<le> c" "c \<le> length source" "et_offset token + et_size token \<le> length source"
    "et_kind token \<noteq> EXPR_TOKEN_END \<Longrightarrow> cursor < c"
proof -
  define b where "b = scan_while expr_space source cursor"
  have b: "cursor \<le> b" "b \<le> length source"
    using assms(1) by (simp_all add: b_def scan_while_ge scan_while_le)
  have "cursor \<le> c \<and> c \<le> length source \<and> et_offset token + et_size token \<le> length source \<and>
      (et_kind token = EXPR_TOKEN_END \<or> cursor < c)"
  proof (cases "char_at source b")
    case None
    then show ?thesis using assms(2) b by (auto simp: next_token_def b_def [symmetric] Let_def)
  next
    case (Some x)
    note lt = char_at_lt [OF Some]
    show ?thesis
      using assms(2) b Some lt scan_while_ge [of "b + 1" expr_ident_continue source]
        scan_while_le [of "b + 1" source expr_ident_continue] number_end_bounds [of "b + 1" source]
        string_token_progress [of "b + 1" source token c] operator_token_size [of x "char_at source (b + 1)"]
      by (auto simp: next_token_def b_def [symmetric] Let_def split: if_splits prod.splits dest!: char_at_lt)
  qed
  then show "cursor \<le> c" "c \<le> length source" "et_offset token + et_size token \<le> length source"
    "et_kind token \<noteq> EXPR_TOKEN_END \<Longrightarrow> cursor < c" by auto
qed

end
