(* ===== verification/Expr_Parser.thy ===== *)
theory Expr_Parser
  imports Expr_Schema Expr_Lexer Xml_Names
begin

text \<open>
  The compiler of CMeta expressions (\<^verbatim>\<open>src/src/scxml_expr.c\<close>): a recursive-descent
  parser over the tokens of \<^theory_text>\<open>Expr_Lexer\<close> that emits query machine instructions and
  operands. It runs twice on the same source, first to count what the program
  needs and then to fill the arrays that were allocated for exactly those counts.

  A step that fails ends the parse with its status and the offset the diagnostic
  carries; later failures never overwrite the first, because every caller returns
  at once. Writing past an allocated array is an outcome of its own, \<^theory_text>\<open>Wild\<close>, and the
  recursion takes fuel; both are shown not to happen.
\<close>

section \<open>Results, operands and instructions\<close>

datatype scxml_expr_status =
    SCXML_EXPR_OK | SCXML_EXPR_INVALID_ARGUMENT | SCXML_EXPR_SYNTAX_ERROR
  | SCXML_EXPR_UNKNOWN_LOCATION | SCXML_EXPR_TYPE_MISMATCH | SCXML_EXPR_LIMIT_EXCEEDED
  | SCXML_EXPR_ALLOCATION_FAILED | SCXML_EXPR_EVALUATION_ERROR

datatype expr_operand_kind =
    EXPR_OPERAND_LOCATION | EXPR_OPERAND_SUPPLEMENTAL_LOCATION | EXPR_OPERAND_UNRESOLVED_LOCATION
  | EXPR_OPERAND_SINT | EXPR_OPERAND_UINT | EXPR_OPERAND_FLOAT | EXPR_OPERAND_STRING
  | EXPR_OPERAND_STATE
  | EXPR_OPERAND_SYSTEM_EVENT_BOUND | EXPR_OPERAND_SYSTEM_EVENT_FIELD_BOUND
  | EXPR_OPERAND_SYSTEM_NAME_BOUND | EXPR_OPERAND_SYSTEM_SESSION_ID_BOUND
  | EXPR_OPERAND_SYSTEM_IO_PROCESSORS_BOUND
  | EXPR_OPERAND_SYSTEM_NAME | EXPR_OPERAND_SYSTEM_SESSION_ID
  | EXPR_OPERAND_SYSTEM_EVENT_NAME | EXPR_OPERAND_SYSTEM_EVENT_TYPE
  | EXPR_OPERAND_SYSTEM_EVENT_SEND_ID | EXPR_OPERAND_SYSTEM_EVENT_ORIGIN
  | EXPR_OPERAND_SYSTEM_EVENT_ORIGIN_TYPE | EXPR_OPERAND_SYSTEM_EVENT_INVOKE_ID
  | EXPR_OPERAND_SYSTEM_EVENT_DATA | EXPR_OPERAND_SYSTEM_EVENT_DATA_LOCATION
  | EXPR_OPERAND_SYSTEM_IOPROCESSOR_LOCATION

datatype operand_value =
    OV_None | OV_Sint u64 | OV_Uint u64 | OV_Number c_double | OV_String string
  | OV_State nat | OV_Event_Field expr_operand_kind

record expr_operand =
  eo_kind :: expr_operand_kind
  eo_value_kind :: expr_value_kind
  eo_data :: "nat option"
  eo_root_field :: "cmeta_field option"
  eo_offset :: nat
  eo_slot :: nat
  eo_value :: operand_value

definition plain_operand :: "expr_operand_kind \<Rightarrow> expr_value_kind \<Rightarrow> operand_value \<Rightarrow> expr_operand" where
  "plain_operand kind vk v =
     \<lparr>eo_kind = kind, eo_value_kind = vk, eo_data = None, eo_root_field = None,
      eo_offset = 0, eo_slot = 0, eo_value = v\<rparr>"

record qvm_instruction =
  qi_op :: qvm_opcode
  qi_dst :: nat
  qi_arg :: nat
  qi_src1 :: nat
  qi_src2 :: nat

section \<open>Limits, policies and the parser\<close>

record scxml_expr_limits =
  max_source_bytes :: nat
  max_instructions :: nat
  max_operands :: nat
  max_expression_depth :: nat
  max_path_depth :: nat
  max_literal_bytes :: nat
  max_string_bytes :: nat

definition scxml_expr_default_limits :: scxml_expr_limits where
  "scxml_expr_default_limits =
     \<lparr>max_source_bytes = 65536, max_instructions = 4096, max_operands = 2048,
      max_expression_depth = 64, max_path_depth = 32, max_literal_bytes = 65536,
      max_string_bytes = 65536\<rparr>"

abbreviation UINT32_LIMIT :: nat where "UINT32_LIMIT \<equiv> 4294967295"

text \<open>\<^theory_text>\<open>registers\<close> is \<^verbatim>\<open>QVM_MAX_REGISTERS\<close> of the query machine, which is not in the repository.\<close>

definition scxml_expr_limits_valid :: "nat \<Rightarrow> scxml_expr_limits \<Rightarrow> bool" where
  "scxml_expr_limits_valid registers limits \<longleftrightarrow>
     max_source_bytes limits \<noteq> 0 \<and>
     max_instructions limits \<noteq> 0 \<and> max_instructions limits \<le> UINT32_LIMIT \<and>
     max_operands limits \<noteq> 0 \<and> max_operands limits \<le> UINT32_LIMIT \<and>
     max_expression_depth limits \<noteq> 0 \<and> max_expression_depth limits \<le> registers \<and>
     max_path_depth limits \<noteq> 0 \<and> max_literal_bytes limits \<noteq> 0 \<and> max_string_bytes limits \<noteq> 0"

record scxml_expr_compile_policy =
  allowed_system_operands :: u32
  allow_in :: bool
  allow_is_bound :: bool

datatype scxml_expr_path_policy = SCXML_EXPR_PATH_STRICT | SCXML_EXPR_PATH_RUNTIME_MISSING

text \<open>What the parser is given and does not change.\<close>

record expr_env =
  xe_source :: string
  xe_schema :: cmeta_schema
  xe_root :: nat
  xe_supplemental :: "cmeta_slot list option"
  xe_resolve_state :: "string \<Rightarrow> nat option"
  xe_limits :: scxml_expr_limits
  xe_path_policy :: scxml_expr_path_policy
  xe_unresolved_kind :: expr_value_kind
  xe_policy :: scxml_expr_compile_policy
  xe_registers :: nat
  xe_underflow_erange :: bool
  xe_emit :: bool
  xe_literal_capacity :: nat

text \<open>
  What it changes. The arrays have the lengths they were allocated with; the
  literal storage is represented by its fill index, the bytes copied into it are in
  the operand.
\<close>

record expr_parser =
  xp_cursor :: nat
  xp_token :: expr_token
  xp_instructions :: "qvm_instruction list"
  xp_operands :: "expr_operand list"
  xp_instruction_count :: nat
  xp_operand_count :: nat
  xp_literal_bytes :: nat
  xp_retained :: nat
  xp_storage_index :: nat
  xp_depth :: nat
  xp_max_register :: nat

record expr_node =
  en_reg :: nat
  en_kind :: expr_value_kind

datatype 'a parse =
    Done 'a expr_parser | Failed scxml_expr_status nat | Wild | No_Fuel

fun pbind :: "'a parse \<Rightarrow> ('a \<Rightarrow> expr_parser \<Rightarrow> 'b parse) \<Rightarrow> 'b parse" where
  "pbind (Done x p) k = k x p"
| "pbind (Failed status offset) k = Failed status offset"
| "pbind Wild k = Wild"
| "pbind No_Fuel k = No_Fuel"

abbreviation tok :: "expr_parser \<Rightarrow> expr_token_kind" where
  "tok p \<equiv> et_kind (xp_token p)"

text \<open>\<^verbatim>\<open>parser_fail\<close> at the offset of the current token.\<close>

definition fail_here :: "scxml_expr_status \<Rightarrow> expr_parser \<Rightarrow> 'a parse" where
  "fail_here status p = Failed status (et_offset (xp_token p))"

definition parser_next :: "expr_env \<Rightarrow> expr_parser \<Rightarrow> expr_parser" where
  "parser_next env p = (case next_token (xe_source env) (xp_cursor p) of
     (token, cursor) \<Rightarrow> p\<lparr>xp_cursor := cursor, xp_token := token\<rparr>)"

definition current_text :: "expr_env \<Rightarrow> expr_parser \<Rightarrow> string" where
  "current_text env p = token_text (xe_source env) (xp_token p)"

definition source_text :: "expr_env \<Rightarrow> nat \<Rightarrow> nat \<Rightarrow> string" where
  "source_text env offset n = take n (drop offset (xe_source env))"

section \<open>System operands\<close>

definition event_field_kind :: "string \<Rightarrow> expr_operand_kind option" where
  "event_field_kind text =
     (if text = ''name'' then Some EXPR_OPERAND_SYSTEM_EVENT_NAME
      else if text = ''type'' then Some EXPR_OPERAND_SYSTEM_EVENT_TYPE
      else if text = ''sendid'' then Some EXPR_OPERAND_SYSTEM_EVENT_SEND_ID
      else if text = ''origin'' then Some EXPR_OPERAND_SYSTEM_EVENT_ORIGIN
      else if text = ''origintype'' then Some EXPR_OPERAND_SYSTEM_EVENT_ORIGIN_TYPE
      else if text = ''invokeid'' then Some EXPR_OPERAND_SYSTEM_EVENT_INVOKE_ID
      else if text = ''data'' then Some EXPR_OPERAND_SYSTEM_EVENT_DATA
      else None)"

definition parser_event_field_kind :: "expr_env \<Rightarrow> expr_parser \<Rightarrow> expr_operand_kind option" where
  "parser_event_field_kind env p =
     (if tok p \<noteq> EXPR_TOKEN_IDENT then None else event_field_kind (current_text env p))"

definition SCXML_EXPR_SYSTEM_ALL :: u32 where
  "SCXML_EXPR_SYSTEM_ALL = 0x7FF"

fun system_operand_flag :: "expr_operand_kind \<Rightarrow> u32" where
  "system_operand_flag EXPR_OPERAND_SYSTEM_NAME = 0x001"
| "system_operand_flag EXPR_OPERAND_SYSTEM_NAME_BOUND = 0x001"
| "system_operand_flag EXPR_OPERAND_SYSTEM_SESSION_ID = 0x002"
| "system_operand_flag EXPR_OPERAND_SYSTEM_SESSION_ID_BOUND = 0x002"
| "system_operand_flag EXPR_OPERAND_SYSTEM_EVENT_BOUND = 0x004"
| "system_operand_flag EXPR_OPERAND_SYSTEM_EVENT_NAME = 0x008"
| "system_operand_flag EXPR_OPERAND_SYSTEM_EVENT_TYPE = 0x010"
| "system_operand_flag EXPR_OPERAND_SYSTEM_EVENT_SEND_ID = 0x020"
| "system_operand_flag EXPR_OPERAND_SYSTEM_EVENT_ORIGIN = 0x040"
| "system_operand_flag EXPR_OPERAND_SYSTEM_EVENT_ORIGIN_TYPE = 0x080"
| "system_operand_flag EXPR_OPERAND_SYSTEM_EVENT_INVOKE_ID = 0x100"
| "system_operand_flag EXPR_OPERAND_SYSTEM_EVENT_DATA = 0x200"
| "system_operand_flag EXPR_OPERAND_SYSTEM_EVENT_DATA_LOCATION = 0x200"
| "system_operand_flag EXPR_OPERAND_SYSTEM_IOPROCESSOR_LOCATION = 0x400"
| "system_operand_flag EXPR_OPERAND_SYSTEM_IO_PROCESSORS_BOUND = 0x400"
| "system_operand_flag _ = 0"

definition system_operand_allowed :: "expr_env \<Rightarrow> expr_operand_kind \<Rightarrow> bool" where
  "system_operand_allowed env kind \<longleftrightarrow>
     system_operand_flag kind \<noteq> 0 \<and>
     and (allowed_system_operands (xe_policy env)) (system_operand_flag kind) \<noteq> 0"

text \<open>\<^verbatim>\<open>parser_allow_system_operand\<close>\<close>

definition allow_system_operand :: "expr_env \<Rightarrow> expr_operand_kind \<Rightarrow> nat \<Rightarrow> expr_parser \<Rightarrow> unit parse" where
  "allow_system_operand env kind offset p =
     (if system_operand_allowed env kind then Done () p
      else Failed SCXML_EXPR_UNKNOWN_LOCATION offset)"

section \<open>Counting and emitting\<close>

definition add_literal_bytes :: "expr_env \<Rightarrow> nat \<Rightarrow> expr_parser \<Rightarrow> unit parse" where
  "add_literal_bytes env count p =
     (if max_literal_bytes (xe_limits env) - xp_literal_bytes p < count
      then fail_here SCXML_EXPR_LIMIT_EXCEEDED p
      else Done () (p\<lparr>xp_literal_bytes := xp_literal_bytes p + count\<rparr>))"

text \<open>The value is the text retained for the operand.\<close>

definition retain_string :: "expr_env \<Rightarrow> nat \<Rightarrow> nat \<Rightarrow> expr_parser \<Rightarrow> string parse" where
  "retain_string env offset n p =
     pbind (add_literal_bytes env n p) (\<lambda>_ p.
       if SIZE_MAX - xp_retained p < n then Failed SCXML_EXPR_LIMIT_EXCEEDED offset
       else if xe_emit env then
         (if xe_literal_capacity env < xp_storage_index p \<or>
             xe_literal_capacity env - xp_storage_index p < n
          then Failed SCXML_EXPR_EVALUATION_ERROR offset
          else Done (source_text env offset n)
                 (p\<lparr>xp_storage_index := xp_storage_index p + n, xp_retained := xp_retained p + n\<rparr>))
       else Done [] (p\<lparr>xp_retained := xp_retained p + n\<rparr>))"

definition emit_instruction ::
  "expr_env \<Rightarrow> qvm_opcode \<Rightarrow> nat \<Rightarrow> nat \<Rightarrow> nat \<Rightarrow> nat \<Rightarrow> expr_parser \<Rightarrow> unit parse" where
  "emit_instruction env op dst arg src1 src2 p =
     (let count = xp_instruction_count p;
          instruction = \<lparr>qi_op = op, qi_dst = dst, qi_arg = arg, qi_src1 = src1, qi_src2 = src2\<rparr> in
      if max_instructions (xe_limits env) \<le> count then fail_here SCXML_EXPR_LIMIT_EXCEEDED p
      else if xe_emit env \<and> length (xp_instructions p) \<le> count then Wild
      else Done () (p\<lparr>
        xp_instructions := (if xe_emit env then (xp_instructions p)[count := instruction]
                            else xp_instructions p),
        xp_instruction_count := count + 1,
        xp_max_register := max (dst + 1) (xp_max_register p)\<rparr>))"

definition add_operand :: "expr_env \<Rightarrow> expr_operand \<Rightarrow> expr_parser \<Rightarrow> nat parse" where
  "add_operand env operand p =
     (let count = xp_operand_count p in
      if max_operands (xe_limits env) \<le> count \<or> UINT32_LIMIT < count
      then fail_here SCXML_EXPR_LIMIT_EXCEEDED p
      else if xe_emit env \<and> length (xp_operands p) \<le> count then Wild
      else Done count (p\<lparr>
        xp_operands := (if xe_emit env then (xp_operands p)[count := operand] else xp_operands p),
        xp_operand_count := count + 1\<rparr>))"

text \<open>An operand with the instruction that loads it into the target register.\<close>

definition load_operand ::
  "expr_env \<Rightarrow> qvm_opcode \<Rightarrow> nat \<Rightarrow> expr_operand \<Rightarrow> expr_parser \<Rightarrow> expr_node parse" where
  "load_operand env op target operand p =
     pbind (add_operand env operand p) (\<lambda>index p.
     pbind (emit_instruction env op target 0 index 0 p) (\<lambda>_ p.
       Done \<lparr>en_reg = target, en_kind = eo_value_kind operand\<rparr> p))"

section \<open>Names of event I/O processors\<close>

definition ioprocessor_property_follow :: "char \<Rightarrow> bool" where
  "ioprocessor_property_follow c \<longleftrightarrow> expr_space c \<or> c \<in> set '')!+-*/%=<>&|''"

definition ioprocessor_scan_boundary :: "char \<Rightarrow> bool" where
  "ioprocessor_scan_boundary c \<longleftrightarrow> c \<in> set ''()!+*/%=<>&|'' \<or> c = CHR 0x27 \<or> c = CHR 0x22"

text \<open>The end of the property after a dot at \<^theory_text>\<open>scan\<close>, if the property is there.\<close>

definition location_property_end :: "string \<Rightarrow> nat \<Rightarrow> nat option" where
  "location_property_end source scan =
     (let offset = scan_while expr_space source (scan + 1); e = offset + length ''location'' in
      if take (length ''location'') (drop offset source) \<noteq> ''location'' then None
      else if (case char_at source e of None \<Rightarrow> False | Some c \<Rightarrow> \<not> ioprocessor_property_follow c) then None
      else Some e)"

text \<open>The end of a name that starts at \<^theory_text>\<open>first\<close> and may have spaces before \<^theory_text>\<open>scan\<close>.\<close>

fun trim_end :: "string \<Rightarrow> nat \<Rightarrow> nat \<Rightarrow> nat" where
  "trim_end source first 0 = 0"
| "trim_end source first (Suc e) =
     (if first < Suc e \<and> expr_space (source ! e) then trim_end source first e else Suc e)"

text \<open>
  The scan over the bytes from \<^theory_text>\<open>scan\<close> on, of which \<^theory_text>\<open>n\<close> are left; the last dot that is
  followed by the property wins. The selection is the size of the name and the end
  of the property.
\<close>

fun select_ioprocessor :: "string \<Rightarrow> nat \<Rightarrow> nat \<Rightarrow> nat \<Rightarrow> (nat \<times> nat) option \<Rightarrow> (nat \<times> nat) option" where
  "select_ioprocessor source first scan 0 selected = selected"
| "select_ioprocessor source first scan (Suc n) selected =
     (if ioprocessor_scan_boundary (source ! scan) then selected
      else if source ! scan \<noteq> CHR ''.'' then select_ioprocessor source first (scan + 1) n selected
      else (case location_property_end source scan of
              None \<Rightarrow> select_ioprocessor source first (scan + 1) n selected
            | Some e \<Rightarrow> select_ioprocessor source first (scan + 1) n
                          (Some (trim_end source first scan - first, e))))"

definition retain_ioprocessor_name :: "expr_env \<Rightarrow> expr_parser \<Rightarrow> string parse" where
  "retain_ioprocessor_name env p =
     (let source = xe_source env; first = scan_while expr_space source (xp_cursor p) in
      case select_ioprocessor source first first (length source - first) None of
        None \<Rightarrow> Failed SCXML_EXPR_UNKNOWN_LOCATION first
      | Some (n, e) \<Rightarrow>
          if e = 0 \<or> \<not> scxml_analyze_is_xml_ncname (CBytes (source_text env first n))
          then Failed SCXML_EXPR_UNKNOWN_LOCATION first
          else pbind (retain_string env first n p) (\<lambda>text p.
            Done text (parser_next env (p\<lparr>xp_cursor := e\<rparr>))))"

section \<open>Locations\<close>

text \<open>
  The loops over the fields of a path. Their first argument is the number of fields
  that the path may still have, \<^verbatim>\<open>max_path_depth - depth\<close> in the source.
\<close>

fun unresolved_loop :: "nat \<Rightarrow> expr_env \<Rightarrow> nat \<Rightarrow> expr_parser \<Rightarrow> nat parse" where
  "unresolved_loop 0 env path_end p =
     (if tok p \<noteq> EXPR_TOKEN_IDENT then Done path_end p else fail_here SCXML_EXPR_LIMIT_EXCEEDED p)"
| "unresolved_loop (Suc depth) env path_end p =
     (if tok p \<noteq> EXPR_TOKEN_IDENT then Done path_end p
      else (let path_end = et_offset (xp_token p) + et_size (xp_token p); p = parser_next env p in
        if tok p \<noteq> EXPR_TOKEN_DOT then Done path_end p
        else (let p = parser_next env p in
          if tok p \<noteq> EXPR_TOKEN_IDENT then fail_here SCXML_EXPR_SYNTAX_ERROR p
          else unresolved_loop depth env path_end p)))"

definition parse_unresolved_location ::
  "expr_env \<Rightarrow> nat \<Rightarrow> nat \<Rightarrow> nat \<Rightarrow> expr_parser \<Rightarrow> expr_node parse" where
  "parse_unresolved_location env target path_begin depth p =
     pbind (unresolved_loop depth env path_begin p) (\<lambda>path_end p.
       if path_end < path_begin then Failed SCXML_EXPR_LIMIT_EXCEEDED path_begin
       else pbind (retain_string env path_begin (path_end - path_begin) p) (\<lambda>text p.
         load_operand env QVM_OP_LOAD_PATH target
           (plain_operand EXPR_OPERAND_UNRESOLVED_LOCATION (xe_unresolved_kind env) (OV_String text)) p))"

text \<open>
  The bounds of a field within its parent, at \<^theory_text>\<open>offset\<close> of the storage of the whole
  object: the offset of the field within the object, if they hold.
\<close>

definition field_bounds ::
  "cmeta_schema \<Rightarrow> nat \<Rightarrow> nat \<Rightarrow> cmeta_field \<Rightarrow> nat \<Rightarrow> nat option" where
  "field_bounds schema whole parent field offset =
     (let child = schema (cf_value field) in
      case (cd_size (schema whole), cd_size (schema parent), cd_size child) of
        (Some whole_size, Some parent_size, Some child_size) \<Rightarrow>
          if \<not> cd_valid child \<or> parent_size < cf_offset field \<or>
             parent_size - cf_offset field < child_size \<or> SIZE_MAX - cf_offset field < offset \<or>
             whole_size < offset + cf_offset field \<or>
             whole_size - (offset + cf_offset field) < child_size
          then None else Some (offset + cf_offset field)
      | _ \<Rightarrow> None)"

definition readable_desc :: "cmeta_desc \<Rightarrow> bool" where
  "readable_desc desc \<longleftrightarrow> cd_valid desc \<and> cd_size desc \<noteq> None"

definition load_location ::
  "expr_env \<Rightarrow> expr_operand_kind \<Rightarrow> nat \<Rightarrow> nat \<Rightarrow> nat \<Rightarrow> cmeta_field option \<Rightarrow> nat
     \<Rightarrow> expr_parser \<Rightarrow> expr_node parse" where
  "load_location env kind target desc slot root_field offset p =
     (case desc_scalar_kind (xe_schema env desc) of
        None \<Rightarrow> fail_here SCXML_EXPR_TYPE_MISMATCH p
      | Some scalar \<Rightarrow> load_operand env QVM_OP_LOAD_PATH target
          \<lparr>eo_kind = kind, eo_value_kind = scalar, eo_data = Some desc, eo_root_field = root_field,
           eo_offset = offset, eo_slot = slot, eo_value = OV_None\<rparr> p)"

text \<open>A path that cannot be resolved statically: kept for the run time, or refused.\<close>

definition unknown_location ::
  "expr_env \<Rightarrow> bool \<Rightarrow> nat \<Rightarrow> nat \<Rightarrow> nat \<Rightarrow> expr_parser \<Rightarrow> expr_node parse" where
  "unknown_location env may_miss target path_begin depth p =
     (if xe_path_policy env = SCXML_EXPR_PATH_RUNTIME_MISSING \<and> may_miss
      then parse_unresolved_location env target path_begin depth p
      else fail_here SCXML_EXPR_UNKNOWN_LOCATION p)"

fun supplemental_loop ::
  "nat \<Rightarrow> expr_env \<Rightarrow> nat \<Rightarrow> nat \<Rightarrow> nat \<Rightarrow> nat \<Rightarrow> nat \<Rightarrow> nat \<Rightarrow> expr_parser \<Rightarrow> expr_node parse" where
  "supplemental_loop depth env target slot whole path_begin desc offset p =
     (if tok p \<noteq> EXPR_TOKEN_DOT
      then load_location env EXPR_OPERAND_SUPPLEMENTAL_LOCATION target desc slot None offset p
      else case depth of 0 \<Rightarrow> fail_here SCXML_EXPR_LIMIT_EXCEEDED p
      | Suc depth' \<Rightarrow>
         (let p = parser_next env p in
          if tok p \<noteq> EXPR_TOKEN_IDENT then fail_here SCXML_EXPR_SYNTAX_ERROR p
          else if \<not> readable_desc (xe_schema env desc) then fail_here SCXML_EXPR_TYPE_MISMATCH p
          else case struct_fields (xe_schema env desc) of
            None \<Rightarrow> unknown_location env True target path_begin depth p
          | Some fs \<Rightarrow>
              (case find_field_view fs (current_text env p) of
                 None \<Rightarrow> unknown_location env True target path_begin depth p
               | Some field \<Rightarrow>
                   (case field_bounds (xe_schema env) whole desc field offset of
                      None \<Rightarrow> fail_here SCXML_EXPR_TYPE_MISMATCH p
                    | Some offset' \<Rightarrow>
                        supplemental_loop depth' env target slot whole path_begin (cf_value field)
                          offset' (parser_next env p)))))"

declare supplemental_loop.simps [simp del]

text \<open>
  The fields of a location in the root object, \<^theory_text>\<open>first\<close> the root field that was
  matched, \<^theory_text>\<open>None\<close> before the first field.
\<close>

fun location_loop ::
  "nat \<Rightarrow> expr_env \<Rightarrow> expr_operand_kind \<Rightarrow> nat \<Rightarrow> nat \<Rightarrow> nat \<Rightarrow> nat \<Rightarrow> cmeta_field option
     \<Rightarrow> expr_parser \<Rightarrow> expr_node parse" where
  "location_loop 0 env kind target path_begin desc offset first p =
     fail_here SCXML_EXPR_LIMIT_EXCEEDED p"
| "location_loop (Suc depth) env kind target path_begin desc offset first p =
     (let schema = xe_schema env; may_miss = (kind = EXPR_OPERAND_LOCATION) in
      if \<not> readable_desc (schema desc) then fail_here SCXML_EXPR_TYPE_MISMATCH p
      else case struct_fields (schema desc) of
        None \<Rightarrow> unknown_location env may_miss target path_begin (Suc depth) p
      | Some fs \<Rightarrow>
          (case find_field_view fs (current_text env p) of
             None \<Rightarrow>
               (case (if first = None \<and> may_miss
                      then cmeta_scope_find (xe_supplemental env) (current_text env p) else None) of
                  Some (slot, row) \<Rightarrow>
                    supplemental_loop depth env target slot (sl_value row) path_begin (sl_value row) 0
                      (parser_next env p)
                | None \<Rightarrow> unknown_location env may_miss target path_begin (Suc depth) p)
           | Some field \<Rightarrow>
               (case field_bounds schema (xe_root env) desc field offset of
                  None \<Rightarrow> fail_here SCXML_EXPR_TYPE_MISMATCH p
                | Some offset' \<Rightarrow>
                    (let first' = (if first = None then Some field else first);
                         p = parser_next env p in
                     if tok p \<noteq> EXPR_TOKEN_DOT
                     then load_location env kind target (cf_value field) 0 first' offset' p
                     else (let p = parser_next env p in
                       if tok p \<noteq> EXPR_TOKEN_IDENT then fail_here SCXML_EXPR_SYNTAX_ERROR p
                       else location_loop depth env kind target path_begin (cf_value field) offset'
                              first' p)))))"

definition parse_location :: "expr_env \<Rightarrow> nat \<Rightarrow> expr_parser \<Rightarrow> expr_node parse" where
  "parse_location env target p =
     location_loop (max_path_depth (xe_limits env)) env EXPR_OPERAND_LOCATION target
       (et_offset (xp_token p)) (xe_root env) 0 None p"

section \<open>Event data\<close>

text \<open>The extent of the path, with the fields it may still have as first argument.\<close>

fun event_path_loop :: "nat \<Rightarrow> expr_env \<Rightarrow> nat \<Rightarrow> expr_parser \<Rightarrow> nat parse" where
  "event_path_loop depth env path_end p =
     (if tok p \<noteq> EXPR_TOKEN_IDENT then Done path_end p
      else case depth of 0 \<Rightarrow> fail_here SCXML_EXPR_LIMIT_EXCEEDED p
      | Suc depth' \<Rightarrow>
         (let path_end = et_offset (xp_token p) + et_size (xp_token p); p = parser_next env p in
          if tok p \<noteq> EXPR_TOKEN_DOT then Done path_end p
          else (let p = parser_next env p in
            if tok p \<noteq> EXPR_TOKEN_IDENT then fail_here SCXML_EXPR_SYNTAX_ERROR p
            else event_path_loop depth' env path_end p)))"

declare event_path_loop.simps [simp del]

definition event_visit_limit :: "scxml_expr_limits \<Rightarrow> nat" where
  "event_visit_limit limits =
     (if max_operands limits > SIZE_MAX div max_path_depth limits then SIZE_MAX
      else max_operands limits * max_path_depth limits)"

definition parse_event_data_location :: "expr_env \<Rightarrow> nat \<Rightarrow> expr_parser \<Rightarrow> expr_node parse" where
  "parse_event_data_location env target p =
     (let path_begin = et_offset (xp_token p); depth = max_path_depth (xe_limits env) in
      pbind (event_path_loop depth env path_begin p) (\<lambda>path_end p.
        let match = find_event_path_match (depth + 1) (xe_schema env)
              (source_text env path_begin (path_end - path_begin)) depth
              (event_visit_limit (xe_limits env)) (xe_root env) no_match in
        if em_limit_exceeded match then Failed SCXML_EXPR_LIMIT_EXCEEDED path_begin
        else if em_ambiguous match then Failed SCXML_EXPR_TYPE_MISMATCH path_begin
        else case em_found match of
          None \<Rightarrow> Failed SCXML_EXPR_UNKNOWN_LOCATION path_begin
        | Some (desc, scalar) \<Rightarrow>
            pbind (retain_string env path_begin (path_end - path_begin) p) (\<lambda>text p.
              load_operand env QVM_OP_LOAD_PATH target
                ((plain_operand EXPR_OPERAND_SYSTEM_EVENT_DATA_LOCATION scalar (OV_String text))
                   \<lparr>eo_data := Some desc\<rparr>) p)))"

section \<open>Numbers\<close>

definition digit_value :: "char \<Rightarrow> nat" where
  "digit_value c = of_char c - 48"

definition decimal_value :: "string \<Rightarrow> nat" where
  "decimal_value digits = foldl (\<lambda>n c. 10 * n + digit_value c) 0 digits"

text \<open>
  The conversions of the C library on a text that starts with a digit: the value of
  the longest prefix that is a number and the rest of the text. The exponent is read
  only when a digit follows its mark.
\<close>

definition strtoull_digits :: "string \<Rightarrow> nat \<times> string" where
  "strtoull_digits text = (decimal_value (takeWhile expr_digit text), dropWhile expr_digit text)"

definition exponent_part :: "string \<Rightarrow> int \<times> string" where
  "exponent_part text = (case text of
       [] \<Rightarrow> (0, text)
     | mark # rest \<Rightarrow>
         if mark \<noteq> CHR ''e'' \<and> mark \<noteq> CHR ''E'' then (0, text)
         else (let negative = (rest \<noteq> [] \<and> hd rest = CHR ''-'');
                   digits = (if rest \<noteq> [] \<and> (hd rest = CHR ''-'' \<or> hd rest = CHR ''+'') then tl rest else rest);
                   n = int (decimal_value (takeWhile expr_digit digits)) in
               if takeWhile expr_digit digits = [] then (0, text)
               else (if negative then - n else n, dropWhile expr_digit digits)))"

definition strtod_value :: "string \<Rightarrow> rat \<times> string" where
  "strtod_value text =
     (let whole = takeWhile expr_digit text; rest = dropWhile expr_digit text;
          dot = (rest \<noteq> [] \<and> hd rest = CHR ''.'');
          fraction = (if dot then takeWhile expr_digit (tl rest) else []);
          rest' = (if dot then dropWhile expr_digit (tl rest) else rest) in
      case exponent_part rest' of (e, rest'') \<Rightarrow>
        (of_nat (decimal_value (whole @ fraction)) * 10 powi (e - int (length fraction)), rest''))"

text \<open>
  \<^verbatim>\<open>ERANGE\<close>: overflow always; for a result below the normal doubles the C standard
  leaves it to the implementation, which is \<^theory_text>\<open>xe_underflow_erange\<close>.
\<close>

definition strtod_erange :: "bool \<Rightarrow> rat \<Rightarrow> bool" where
  "strtod_erange underflow v \<longleftrightarrow> \<not> d_isfinite (round_double v) \<or>
     underflow \<and> v \<noteq> 0 \<and> \<bar>v\<bar> < 2 powi (- 1022)"

text \<open>The operand of a text without its suffix, whether it is out of range, and what is left unread.\<close>

definition convert_number :: "bool \<Rightarrow> bool \<Rightarrow> bool \<Rightarrow> string \<Rightarrow> expr_operand \<times> bool \<times> string" where
  "convert_number underflow floating unsigned_suffix text =
     (if floating then
        (case strtod_value text of (v, rest) \<Rightarrow>
           (plain_operand EXPR_OPERAND_FLOAT EXPR_VALUE_FLOAT (OV_Number (round_double v)),
            strtod_erange underflow v, rest))
      else (case strtoull_digits text of (v, rest) \<Rightarrow>
        if unsigned_suffix then
          (plain_operand EXPR_OPERAND_UINT EXPR_VALUE_UINT (OV_Uint (word_of_nat v)), 2 ^ 64 \<le> v, rest)
        else
          (plain_operand EXPR_OPERAND_SINT EXPR_VALUE_SINT (OV_Sint (word_of_nat v)), 2 ^ 63 \<le> v, rest)))"

definition floating_text :: "string \<Rightarrow> bool" where
  "floating_text text \<longleftrightarrow> (\<exists>c\<in>set text. c = CHR ''.'' \<or> c = CHR ''e'' \<or> c = CHR ''E'')"

definition parse_number_operand :: "expr_env \<Rightarrow> expr_parser \<Rightarrow> expr_operand parse" where
  "parse_number_operand env p =
     (let token = current_text env p; n = length token in
      if n = 0 \<or> 128 \<le> n then fail_here SCXML_EXPR_LIMIT_EXCEEDED p
      else (let unsigned_suffix = (last token = CHR ''u'' \<or> last token = CHR ''U'');
                text = (if unsigned_suffix then butlast token else token);
                floating = floating_text text in
        if floating \<and> unsigned_suffix then fail_here SCXML_EXPR_SYNTAX_ERROR p
        else if \<not> floating \<and> unsigned_suffix \<and> text \<noteq> [] \<and> hd text = CHR ''-''
        then fail_here SCXML_EXPR_SYNTAX_ERROR p
        else (case convert_number (xe_underflow_erange env) floating unsigned_suffix text of
          (operand, erange, rest) \<Rightarrow>
            if erange \<or> rest = text \<or> rest \<noteq> [] then fail_here SCXML_EXPR_SYNTAX_ERROR p
            else pbind (add_literal_bytes env n p) (\<lambda>_ p. Done operand p))))"

section \<open>Primary expressions\<close>

text \<open>\<^theory_text>\<open>parse_or\<close> is the recursion for an expression in parentheses.\<close>

definition primary_group ::
  "expr_env \<Rightarrow> (nat \<Rightarrow> expr_parser \<Rightarrow> expr_node parse) \<Rightarrow> nat \<Rightarrow> expr_parser \<Rightarrow> expr_node parse" where
  "primary_group env parse_or target p =
     pbind (parse_or target (parser_next env p)) (\<lambda>out p.
       if tok p \<noteq> EXPR_TOKEN_RPAREN then fail_here SCXML_EXPR_SYNTAX_ERROR p
       else Done out (parser_next env p))"

definition primary_number :: "expr_env \<Rightarrow> nat \<Rightarrow> expr_parser \<Rightarrow> expr_node parse" where
  "primary_number env target p =
     pbind (parse_number_operand env p) (\<lambda>operand p.
     pbind (load_operand env QVM_OP_LOAD_CONST target operand p) (\<lambda>out p.
       Done out (parser_next env p)))"

definition primary_string :: "expr_env \<Rightarrow> nat \<Rightarrow> expr_parser \<Rightarrow> expr_node parse" where
  "primary_string env target p =
     pbind (retain_string env (et_offset (xp_token p)) (et_size (xp_token p)) p) (\<lambda>text p.
     pbind (load_operand env QVM_OP_LOAD_CONST target
              (plain_operand EXPR_OPERAND_STRING EXPR_VALUE_STRING (OV_String text)) p) (\<lambda>out p.
       Done out (parser_next env p)))"

definition primary_bool :: "expr_env \<Rightarrow> nat \<Rightarrow> expr_parser \<Rightarrow> expr_node parse" where
  "primary_bool env target p =
     (let v = (current_text env p = ''true''); p = parser_next env p in
      pbind (emit_instruction env (if v then QVM_OP_TRUE else QVM_OP_FALSE) target 0 0 0 p) (\<lambda>_ p.
        Done \<lparr>en_reg = target, en_kind = EXPR_VALUE_BOOL\<rparr> p))"

definition primary_name :: "expr_env \<Rightarrow> nat \<Rightarrow> expr_parser \<Rightarrow> expr_node parse" where
  "primary_name env target p =
     (let kind = (if current_text env p = ''_name'' then EXPR_OPERAND_SYSTEM_NAME
                  else EXPR_OPERAND_SYSTEM_SESSION_ID) in
      pbind (allow_system_operand env kind (et_offset (xp_token p)) p) (\<lambda>_ p.
        load_operand env QVM_OP_LOAD_CONST target
          (plain_operand kind EXPR_VALUE_STRING OV_None) (parser_next env p)))"

text \<open>The system variable whose binding \<^verbatim>\<open>isBound\<close> asks for.\<close>

definition bound_operand_kind :: "string \<Rightarrow> expr_operand_kind option" where
  "bound_operand_kind text =
     (if text = ''_event'' then Some EXPR_OPERAND_SYSTEM_EVENT_BOUND
      else if text = ''_name'' then Some EXPR_OPERAND_SYSTEM_NAME_BOUND
      else if text = ''_sessionid'' then Some EXPR_OPERAND_SYSTEM_SESSION_ID_BOUND
      else if text = ''_ioprocessors'' then Some EXPR_OPERAND_SYSTEM_IO_PROCESSORS_BOUND
      else None)"

text \<open>The operand with the kind that the policy must allow for it.\<close>

definition bound_operand ::
  "expr_env \<Rightarrow> expr_operand_kind \<Rightarrow> expr_parser \<Rightarrow> (expr_operand \<times> expr_operand_kind) parse" where
  "bound_operand env kind p =
     (if kind = EXPR_OPERAND_SYSTEM_EVENT_BOUND \<and> tok p = EXPR_TOKEN_DOT then
        (let p = parser_next env p in
         case parser_event_field_kind env p of
           None \<Rightarrow> fail_here SCXML_EXPR_SYNTAX_ERROR p
         | Some field \<Rightarrow>
             Done (plain_operand EXPR_OPERAND_SYSTEM_EVENT_FIELD_BOUND EXPR_VALUE_BOOL (OV_Event_Field field),
                   field) (parser_next env p))
      else Done (plain_operand kind EXPR_VALUE_BOOL OV_None, kind) p)"

definition primary_is_bound :: "expr_env \<Rightarrow> nat \<Rightarrow> expr_parser \<Rightarrow> expr_node parse" where
  "primary_is_bound env target p =
     (let offset = et_offset (xp_token p) in
      if \<not> allow_is_bound (xe_policy env) then Failed SCXML_EXPR_UNKNOWN_LOCATION offset
      else (let p = parser_next env p in
        if tok p \<noteq> EXPR_TOKEN_LPAREN then fail_here SCXML_EXPR_SYNTAX_ERROR p
        else (let p = parser_next env p in
          if tok p \<noteq> EXPR_TOKEN_IDENT then fail_here SCXML_EXPR_SYNTAX_ERROR p
          else case bound_operand_kind (current_text env p) of
            None \<Rightarrow> fail_here SCXML_EXPR_SYNTAX_ERROR p
          | Some kind \<Rightarrow>
              pbind (bound_operand env kind (parser_next env p)) (\<lambda>(operand, allowed) p.
              pbind (allow_system_operand env allowed offset p) (\<lambda>_ p.
                if tok p \<noteq> EXPR_TOKEN_RPAREN then fail_here SCXML_EXPR_SYNTAX_ERROR p
                else load_operand env QVM_OP_LOAD_CONST target operand (parser_next env p))))))"

definition primary_event :: "expr_env \<Rightarrow> nat \<Rightarrow> expr_parser \<Rightarrow> expr_node parse" where
  "primary_event env target p =
     (let offset = et_offset (xp_token p); p = parser_next env p in
      if tok p \<noteq> EXPR_TOKEN_DOT then Failed SCXML_EXPR_UNKNOWN_LOCATION offset
      else (let p = parser_next env p in
        case parser_event_field_kind env p of
          None \<Rightarrow> fail_here SCXML_EXPR_UNKNOWN_LOCATION p
        | Some kind \<Rightarrow>
            pbind (allow_system_operand env kind offset p) (\<lambda>_ p.
              let p = parser_next env p in
              if kind = EXPR_OPERAND_SYSTEM_EVENT_DATA \<and> tok p = EXPR_TOKEN_DOT then
                (let p = parser_next env p in
                 if tok p \<noteq> EXPR_TOKEN_IDENT then fail_here SCXML_EXPR_SYNTAX_ERROR p
                 else parse_event_data_location env target p)
              else load_operand env QVM_OP_LOAD_CONST target
                     (plain_operand kind EXPR_VALUE_STRING OV_None) p)))"

definition primary_ioprocessors :: "expr_env \<Rightarrow> nat \<Rightarrow> expr_parser \<Rightarrow> expr_node parse" where
  "primary_ioprocessors env target p =
     (let offset = et_offset (xp_token p) in
      pbind (allow_system_operand env EXPR_OPERAND_SYSTEM_IOPROCESSOR_LOCATION offset p) (\<lambda>_ p.
        let p = parser_next env p in
        if tok p \<noteq> EXPR_TOKEN_DOT then Failed SCXML_EXPR_UNKNOWN_LOCATION offset
        else pbind (retain_ioprocessor_name env p) (\<lambda>text p.
          load_operand env QVM_OP_LOAD_CONST target
            (plain_operand EXPR_OPERAND_SYSTEM_IOPROCESSOR_LOCATION EXPR_VALUE_STRING (OV_String text)) p)))"

text \<open>The state named by \<^verbatim>\<open>In\<close> is looked up by the emitting run only.\<close>

definition state_operand :: "expr_env \<Rightarrow> nat \<Rightarrow> nat \<Rightarrow> expr_parser \<Rightarrow> expr_operand parse" where
  "state_operand env offset n p =
     (if \<not> xe_emit env then Done (plain_operand EXPR_OPERAND_STATE EXPR_VALUE_BOOL OV_None) p
      else case xe_resolve_state env (source_text env offset n) of
        None \<Rightarrow> Failed SCXML_EXPR_UNKNOWN_LOCATION offset
      | Some state \<Rightarrow> Done (plain_operand EXPR_OPERAND_STATE EXPR_VALUE_BOOL (OV_State state)) p)"

definition primary_in :: "expr_env \<Rightarrow> nat \<Rightarrow> expr_parser \<Rightarrow> expr_node parse" where
  "primary_in env target p =
     (if \<not> allow_in (xe_policy env) then fail_here SCXML_EXPR_UNKNOWN_LOCATION p
      else (let p = parser_next env p in
        if tok p \<noteq> EXPR_TOKEN_LPAREN then fail_here SCXML_EXPR_SYNTAX_ERROR p
        else (let p = parser_next env p in
          if tok p \<noteq> EXPR_TOKEN_STRING then fail_here SCXML_EXPR_SYNTAX_ERROR p
          else (let offset = et_offset (xp_token p); n = et_size (xp_token p) in
            pbind (add_literal_bytes env n p) (\<lambda>_ p.
            pbind (state_operand env offset n p) (\<lambda>operand p.
              let p = parser_next env p in
              if tok p \<noteq> EXPR_TOKEN_RPAREN then fail_here SCXML_EXPR_SYNTAX_ERROR p
              else load_operand env QVM_OP_LOAD_CONST target operand (parser_next env p)))))))"

definition primary_ident :: "expr_env \<Rightarrow> nat \<Rightarrow> expr_parser \<Rightarrow> expr_node parse" where
  "primary_ident env target p =
     (let text = current_text env p in
      if text = ''true'' \<or> text = ''false'' then primary_bool env target p
      else if text = ''_name'' \<or> text = ''_sessionid'' then primary_name env target p
      else if text = ''isBound'' then primary_is_bound env target p
      else if text = ''_event'' then primary_event env target p
      else if text = ''_ioprocessors'' then primary_ioprocessors env target p
      else if text = ''In'' then primary_in env target p
      else parse_location env target p)"

definition parse_primary ::
  "expr_env \<Rightarrow> (nat \<Rightarrow> expr_parser \<Rightarrow> expr_node parse) \<Rightarrow> nat \<Rightarrow> expr_parser \<Rightarrow> expr_node parse" where
  "parse_primary env parse_or target p =
     (if xe_registers env \<le> target then fail_here SCXML_EXPR_LIMIT_EXCEEDED p
      else if tok p = EXPR_TOKEN_LPAREN then primary_group env parse_or target p
      else if tok p = EXPR_TOKEN_NUMBER then primary_number env target p
      else if tok p = EXPR_TOKEN_STRING then primary_string env target p
      else if tok p \<noteq> EXPR_TOKEN_IDENT then fail_here SCXML_EXPR_SYNTAX_ERROR p
      else primary_ident env target p)"

section \<open>Unary operators\<close>

definition value_is_numeric :: "expr_value_kind \<Rightarrow> bool" where
  "value_is_numeric kind \<longleftrightarrow>
     kind = EXPR_VALUE_SINT \<or> kind = EXPR_VALUE_UINT \<or> kind = EXPR_VALUE_FLOAT"

definition leave_depth :: "expr_parser \<Rightarrow> expr_parser" where
  "leave_depth p = p\<lparr>xp_depth := xp_depth p - 1\<rparr>"

text \<open>The one literal that is only a 64-bit integer together with its sign.\<close>

definition int_min_literal :: "expr_env \<Rightarrow> nat \<Rightarrow> expr_parser \<Rightarrow> expr_node parse" where
  "int_min_literal env target p =
     pbind (add_literal_bytes env (et_size (xp_token p)) p) (\<lambda>_ p.
     pbind (load_operand env QVM_OP_LOAD_CONST target
              (plain_operand EXPR_OPERAND_SINT EXPR_VALUE_SINT (OV_Sint INT64_MIN)) p) (\<lambda>out p.
       Done out (leave_depth (parser_next env p))))"

definition finish_unary :: "expr_env \<Rightarrow> expr_token_kind \<Rightarrow> nat \<Rightarrow> expr_node \<Rightarrow> expr_parser \<Rightarrow> expr_node parse" where
  "finish_unary env operation target out p =
     (if operation = EXPR_TOKEN_NOT then
        (if en_kind out \<noteq> EXPR_VALUE_BOOL then fail_here SCXML_EXPR_TYPE_MISMATCH p
         else pbind (emit_instruction env QVM_OP_NOT target 0 target 0 p) (\<lambda>_ p. Done out p))
      else if operation = EXPR_TOKEN_PLUS then
        (if \<not> value_is_numeric (en_kind out) then fail_here SCXML_EXPR_TYPE_MISMATCH p else Done out p)
      else if operation = EXPR_TOKEN_MINUS then
        (if en_kind out \<noteq> EXPR_VALUE_SINT \<and> en_kind out \<noteq> EXPR_VALUE_FLOAT
         then fail_here SCXML_EXPR_TYPE_MISMATCH p
         else pbind (emit_instruction env QVM_OP_NEG target 0 target 0 p) (\<lambda>_ p. Done out p))
      else Done out p)"

primrec parse_unary ::
  "nat \<Rightarrow> expr_env \<Rightarrow> (nat \<Rightarrow> expr_parser \<Rightarrow> expr_node parse) \<Rightarrow> nat \<Rightarrow> expr_parser \<Rightarrow> expr_node parse" where
  "parse_unary 0 env parse_or target p = No_Fuel"
| "parse_unary (Suc fuel) env parse_or target p =
     (if xe_registers env \<le> target then fail_here SCXML_EXPR_LIMIT_EXCEEDED p
      else if max_expression_depth (xe_limits env) \<le> xp_depth p then fail_here SCXML_EXPR_LIMIT_EXCEEDED p
      else (let operation = tok p; p = p\<lparr>xp_depth := xp_depth p + 1\<rparr> in
        if operation = EXPR_TOKEN_NOT \<or> operation = EXPR_TOKEN_PLUS \<or> operation = EXPR_TOKEN_MINUS then
          (let p = parser_next env p in
           if operation = EXPR_TOKEN_MINUS \<and> tok p = EXPR_TOKEN_NUMBER \<and>
              current_text env p = ''9223372036854775808''
           then int_min_literal env target p
           else pbind (parse_unary fuel env parse_or target p) (\<lambda>out p.
             finish_unary env operation target out (leave_depth p)))
        else pbind (parse_primary env parse_or target p) (\<lambda>out p. Done out (leave_depth p))))"

section \<open>Binary operators\<close>

text \<open>\<^verbatim>\<open>parser_arithmetic_result_kind\<close> with its refusal as \<^theory_text>\<open>None\<close>.\<close>

definition arithmetic_result_kind ::
  "expr_token_kind \<Rightarrow> expr_value_kind \<Rightarrow> expr_value_kind \<Rightarrow> expr_value_kind option" where
  "arithmetic_result_kind operation left right =
     (if \<not> value_is_numeric left \<or> \<not> value_is_numeric right then None
      else if operation = EXPR_TOKEN_PERCENT then
        (if left \<noteq> right \<or> left \<noteq> EXPR_VALUE_SINT \<and> left \<noteq> EXPR_VALUE_UINT then None else Some left)
      else if left = EXPR_VALUE_FLOAT \<or> right = EXPR_VALUE_FLOAT then Some EXPR_VALUE_FLOAT
      else if left \<noteq> right then None
      else Some left)"

text \<open>The register of the right operand; register numbers have 16 bits.\<close>

definition next_register :: "nat \<Rightarrow> nat" where
  "next_register target = (target + 1) mod 65536"

definition multiplicative_opcode :: "expr_token_kind \<Rightarrow> qvm_opcode option" where
  "multiplicative_opcode operation =
     (if operation = EXPR_TOKEN_STAR then Some QVM_OP_MUL
      else if operation = EXPR_TOKEN_SLASH then Some QVM_OP_DIV
      else if operation = EXPR_TOKEN_PERCENT then Some QVM_OP_MOD else None)"

definition additive_opcode :: "expr_token_kind \<Rightarrow> qvm_opcode option" where
  "additive_opcode operation =
     (if operation = EXPR_TOKEN_PLUS then Some QVM_OP_ADD
      else if operation = EXPR_TOKEN_MINUS then Some QVM_OP_SUB else None)"

text \<open>
  The loop both levels of arithmetic share: \<^theory_text>\<open>opcode\<close> tells their operators,
  \<^theory_text>\<open>operand\<close> parses an operand.
\<close>

primrec arithmetic_loop ::
  "nat \<Rightarrow> expr_env \<Rightarrow> (expr_token_kind \<Rightarrow> qvm_opcode option)
     \<Rightarrow> (nat \<Rightarrow> expr_parser \<Rightarrow> expr_node parse) \<Rightarrow> nat \<Rightarrow> expr_node \<Rightarrow> expr_parser \<Rightarrow> expr_node parse" where
  "arithmetic_loop 0 env opcode operand target out p = No_Fuel"
| "arithmetic_loop (Suc fuel) env opcode operand target out p =
     (let operation = tok p in
      case opcode operation of None \<Rightarrow> Done out p
      | Some op \<Rightarrow>
          pbind (operand (next_register target) (parser_next env p)) (\<lambda>right p.
            case arithmetic_result_kind operation (en_kind out) (en_kind right) of
              None \<Rightarrow> fail_here SCXML_EXPR_TYPE_MISMATCH p
            | Some kind \<Rightarrow>
                pbind (emit_instruction env op target 0 target (en_reg right) p) (\<lambda>_ p.
                  arithmetic_loop fuel env opcode operand target (out\<lparr>en_kind := kind\<rparr>) p)))"

definition parse_multiplicative ::
  "nat \<Rightarrow> expr_env \<Rightarrow> (nat \<Rightarrow> expr_parser \<Rightarrow> expr_node parse) \<Rightarrow> nat \<Rightarrow> expr_parser \<Rightarrow> expr_node parse" where
  "parse_multiplicative fuel env parse_or target p =
     pbind (parse_unary fuel env parse_or target p)
       (arithmetic_loop fuel env multiplicative_opcode (parse_unary fuel env parse_or) target)"

definition parse_additive ::
  "nat \<Rightarrow> expr_env \<Rightarrow> (nat \<Rightarrow> expr_parser \<Rightarrow> expr_node parse) \<Rightarrow> nat \<Rightarrow> expr_parser \<Rightarrow> expr_node parse" where
  "parse_additive fuel env parse_or target p =
     pbind (parse_multiplicative fuel env parse_or target p)
       (arithmetic_loop fuel env additive_opcode (parse_multiplicative fuel env parse_or) target)"

definition comparison_code :: "expr_token_kind \<Rightarrow> nat option" where
  "comparison_code operation =
     (if operation = EXPR_TOKEN_EQ then Some 0 else if operation = EXPR_TOKEN_NE then Some 1
      else if operation = EXPR_TOKEN_LT then Some 2 else if operation = EXPR_TOKEN_LE then Some 3
      else if operation = EXPR_TOKEN_GT then Some 4 else if operation = EXPR_TOKEN_GE then Some 5
      else None)"

definition comparable_kinds :: "expr_token_kind \<Rightarrow> expr_value_kind \<Rightarrow> expr_value_kind \<Rightarrow> bool" where
  "comparable_kinds operation left right \<longleftrightarrow>
     (operation = EXPR_TOKEN_EQ \<or> operation = EXPR_TOKEN_NE) \<and>
       left = EXPR_VALUE_BOOL \<and> right = EXPR_VALUE_BOOL \<or>
     left = EXPR_VALUE_STRING \<and> right = EXPR_VALUE_STRING \<or>
     value_is_numeric left \<and> value_is_numeric right"

definition parse_compare ::
  "nat \<Rightarrow> expr_env \<Rightarrow> (nat \<Rightarrow> expr_parser \<Rightarrow> expr_node parse) \<Rightarrow> nat \<Rightarrow> expr_parser \<Rightarrow> expr_node parse" where
  "parse_compare fuel env parse_or target p =
     pbind (parse_additive fuel env parse_or target p) (\<lambda>out p.
       let operation = tok p in
       case comparison_code operation of None \<Rightarrow> Done out p
       | Some code \<Rightarrow>
           pbind (parse_additive fuel env parse_or (next_register target) (parser_next env p)) (\<lambda>right p.
             if \<not> comparable_kinds operation (en_kind out) (en_kind right)
             then fail_here SCXML_EXPR_TYPE_MISMATCH p
             else pbind (emit_instruction env QVM_OP_CMP target code target (en_reg right) p) (\<lambda>_ p.
               Done (out\<lparr>en_kind := EXPR_VALUE_BOOL\<rparr>) p)))"

text \<open>The jump over the right operand, filled in once the operand is there.\<close>

definition patch_jump :: "expr_env \<Rightarrow> nat \<Rightarrow> expr_parser \<Rightarrow> unit parse" where
  "patch_jump env index p =
     (if \<not> xe_emit env then Done () p
      else if length (xp_instructions p) \<le> index then Wild
      else Done () (p\<lparr>xp_instructions := (xp_instructions p)
             [index := (xp_instructions p ! index)\<lparr>qi_arg := xp_instruction_count p\<rparr>]\<rparr>))"

text \<open>The loop that the two logical operators share.\<close>

primrec logical_loop ::
  "nat \<Rightarrow> expr_env \<Rightarrow> expr_token_kind \<Rightarrow> qvm_opcode \<Rightarrow> qvm_opcode
     \<Rightarrow> (nat \<Rightarrow> expr_parser \<Rightarrow> expr_node parse) \<Rightarrow> nat \<Rightarrow> expr_node \<Rightarrow> expr_parser \<Rightarrow> expr_node parse" where
  "logical_loop 0 env operation jump combine operand target out p = No_Fuel"
| "logical_loop (Suc fuel) env operation jump combine operand target out p =
     (if tok p \<noteq> operation then Done out p
      else if en_kind out \<noteq> EXPR_VALUE_BOOL then fail_here SCXML_EXPR_TYPE_MISMATCH p
      else (let index = xp_instruction_count p in
        pbind (emit_instruction env jump 0 0 target 0 p) (\<lambda>_ p.
        pbind (operand (next_register target) (parser_next env p)) (\<lambda>right p.
          if en_kind right \<noteq> EXPR_VALUE_BOOL then fail_here SCXML_EXPR_TYPE_MISMATCH p
          else pbind (emit_instruction env combine target 0 target (en_reg right) p) (\<lambda>_ p.
               pbind (patch_jump env index p) (\<lambda>_ p.
                 logical_loop fuel env operation jump combine operand target
                   (out\<lparr>en_kind := EXPR_VALUE_BOOL\<rparr>) p))))))"

definition parse_and ::
  "nat \<Rightarrow> expr_env \<Rightarrow> (nat \<Rightarrow> expr_parser \<Rightarrow> expr_node parse) \<Rightarrow> nat \<Rightarrow> expr_parser \<Rightarrow> expr_node parse" where
  "parse_and fuel env parse_or target p =
     pbind (parse_compare fuel env parse_or target p)
       (logical_loop fuel env EXPR_TOKEN_AND QVM_OP_JMP_FALSE QVM_OP_BAND
          (parse_compare fuel env parse_or) target)"

primrec parse_or :: "nat \<Rightarrow> expr_env \<Rightarrow> nat \<Rightarrow> expr_parser \<Rightarrow> expr_node parse" where
  "parse_or 0 env target p = No_Fuel"
| "parse_or (Suc fuel) env target p =
     pbind (parse_and (Suc fuel) env (parse_or fuel env) target p)
       (logical_loop (Suc fuel) env EXPR_TOKEN_OR QVM_OP_JMP_TRUE QVM_OP_BOR
          (parse_and (Suc fuel) env (parse_or fuel env)) target)"

section \<open>The two runs and the program\<close>

text \<open>
  \<^verbatim>\<open>parser_run\<close>. The fuel exceeds the number of tokens of the source, each of which
  has at least one byte.
\<close>

definition parser_fuel :: "expr_env \<Rightarrow> nat" where
  "parser_fuel env = length (xe_source env) + 2"

definition parser_run :: "expr_env \<Rightarrow> bool \<Rightarrow> expr_parser \<Rightarrow> expr_value_kind parse" where
  "parser_run env require_boolean p =
     (let p = parser_next env p in
      if tok p = EXPR_TOKEN_INVALID then fail_here SCXML_EXPR_SYNTAX_ERROR p
      else pbind (parse_or (parser_fuel env) env 0 p) (\<lambda>base p.
        if tok p \<noteq> EXPR_TOKEN_END then fail_here SCXML_EXPR_SYNTAX_ERROR p
        else if require_boolean \<and> en_kind base \<noteq> EXPR_VALUE_BOOL
        then Failed SCXML_EXPR_TYPE_MISMATCH (length (xe_source env))
        else Done (en_kind base) p))"

definition zero_instruction :: qvm_instruction where
  "zero_instruction = \<lparr>qi_op = QVM_OP_LOAD_CONST, qi_dst = 0, qi_arg = 0, qi_src1 = 0, qi_src2 = 0\<rparr>"

definition zero_operand :: expr_operand where
  "zero_operand = plain_operand EXPR_OPERAND_LOCATION EXPR_VALUE_BOOL OV_None"

text \<open>A cleared parser, with arrays of the given lengths.\<close>

definition parser_init :: "nat \<Rightarrow> nat \<Rightarrow> expr_parser" where
  "parser_init instructions operands =
     \<lparr>xp_cursor = 0, xp_token = \<lparr>et_kind = EXPR_TOKEN_END, et_offset = 0, et_size = 0\<rparr>,
      xp_instructions = replicate instructions zero_instruction,
      xp_operands = replicate operands zero_operand,
      xp_instruction_count = 0, xp_operand_count = 0, xp_literal_bytes = 0, xp_retained = 0,
      xp_storage_index = 0, xp_depth = 0, xp_max_register = 0\<rparr>"

record scxml_expr_program =
  pr_supplemental :: "cmeta_slot list option"
  pr_instructions :: "qvm_instruction list"
  pr_operands :: "expr_operand list"
  pr_instruction_count :: nat
  pr_operand_count :: nat
  pr_register_count :: nat
  pr_result_kind :: expr_value_kind
  pr_max_path_depth :: nat
  pr_max_string_bytes :: nat

text \<open>
  What the compiler asks of its surroundings: whether each allocation succeeds (the
  program, the instructions, the operands, the literal bytes), how many instructions
  and operands an array can hold, and the verdict of \<^verbatim>\<open>qvm_verify_slice_ex\<close>, the
  offending instruction if it refuses. An allocation of no elements may return the
  null pointer.
\<close>

record compile_host =
  ch_program :: bool
  ch_instructions :: bool
  ch_operands :: bool
  ch_literals :: bool
  ch_max_instructions :: nat
  ch_max_operands :: nat
  ch_verify :: "qvm_instruction list \<Rightarrow> nat \<Rightarrow> nat \<Rightarrow> nat option"

datatype compile_result =
    Compiled scxml_expr_program | Refused scxml_expr_status nat | Crash

definition allocated :: "compile_host \<Rightarrow> nat \<Rightarrow> nat \<Rightarrow> bool" where
  "allocated host operands literals \<longleftrightarrow> ch_program host \<and> ch_instructions host \<and>
     (operands \<noteq> 0 \<longrightarrow> ch_operands host) \<and> (literals \<noteq> 0 \<longrightarrow> ch_literals host)"

definition compile_arguments_ok :: "expr_env \<Rightarrow> bool" where
  "compile_arguments_ok env \<longleftrightarrow> xe_source env \<noteq> [] \<and>
     readable_desc (xe_schema env (xe_root env)) \<and>
     cd_kind (xe_schema env (xe_root env)) = CMETA_DATA_STRUCT \<and>
     and (allowed_system_operands (xe_policy env)) (not SCXML_EXPR_SYSTEM_ALL) = 0 \<and>
     scxml_expr_limits_valid (xe_registers env) (xe_limits env)"

definition build_program :: "expr_env \<Rightarrow> compile_host \<Rightarrow> expr_value_kind \<Rightarrow> expr_parser \<Rightarrow> compile_result" where
  "build_program env host kind p =
     (case ch_verify host (take (xp_instruction_count p) (xp_instructions p)) (xp_max_register p) (xp_operand_count p) of
        Some instruction \<Rightarrow> Refused SCXML_EXPR_EVALUATION_ERROR instruction
      | None \<Rightarrow> Compiled
          \<lparr>pr_supplemental = xe_supplemental env,
           pr_instructions = xp_instructions p, pr_operands = xp_operands p,
           pr_instruction_count = xp_instruction_count p, pr_operand_count = xp_operand_count p,
           pr_register_count = xp_max_register p, pr_result_kind = kind,
           pr_max_path_depth = max_path_depth (xe_limits env),
           pr_max_string_bytes = max_string_bytes (xe_limits env)\<rparr>)"

text \<open>
  \<^verbatim>\<open>expr_compile\<close>; the pointers it is given are not null, the defaults of the policy
  and of the limits are the caller's choice of the environment.
\<close>

definition expr_compile :: "expr_env \<Rightarrow> compile_host \<Rightarrow> bool \<Rightarrow> compile_result" where
  "expr_compile env host require_boolean =
     (if \<not> compile_arguments_ok env then Refused SCXML_EXPR_INVALID_ARGUMENT 0
      else if max_source_bytes (xe_limits env) < length (xe_source env)
      then Refused SCXML_EXPR_LIMIT_EXCEEDED (max_source_bytes (xe_limits env))
      else case parser_run (env\<lparr>xe_emit := False, xe_literal_capacity := 0\<rparr>) require_boolean (parser_init 0 0) of
        Failed status offset \<Rightarrow> Refused status offset
      | Wild \<Rightarrow> Crash
      | No_Fuel \<Rightarrow> Crash
      | Done admitted_kind p \<Rightarrow>
          (let retained = xp_retained p in
           if ch_max_instructions host < xp_instruction_count p \<or> ch_max_operands host < xp_operand_count p
           then Refused SCXML_EXPR_LIMIT_EXCEEDED 0
           else if \<not> allocated host (xp_operand_count p) retained
           then Refused SCXML_EXPR_ALLOCATION_FAILED 0
           else case parser_run (env\<lparr>xe_emit := True, xe_literal_capacity := retained\<rparr>) require_boolean
                       (parser_init (xp_instruction_count p) (xp_operand_count p)) of
               Failed status offset \<Rightarrow> Refused status offset
             | Wild \<Rightarrow> Crash
             | No_Fuel \<Rightarrow> Crash
             | Done emitted_kind q \<Rightarrow>
                 if xp_storage_index q \<noteq> retained \<or> emitted_kind \<noteq> admitted_kind
                 then Refused SCXML_EXPR_EVALUATION_ERROR 0
                 else build_program env host emitted_kind q))"

end
