(* ===== verification/Expr_Parser_Types.thy ===== *)
theory Expr_Parser_Types
  imports Expr_Parser
begin

text \<open>
  The type system of compiled expressions. A fragment of code leaves a value of a
  known kind in its target register, uses registers from the target on and jumps
  forward within itself; every operand it loads agrees with its kind and lies within
  the storage it is read from. The parser emits only such fragments, and the
  operations of \<^theory_text>\<open>Expr_Value\<close> return values of the kinds that the fragments promise.
\<close>

section \<open>Operands\<close>

definition loads_from_path :: "expr_operand_kind \<Rightarrow> bool" where
  "loads_from_path kind \<longleftrightarrow> kind = EXPR_OPERAND_LOCATION \<or> kind = EXPR_OPERAND_SUPPLEMENTAL_LOCATION \<or>
     kind = EXPR_OPERAND_UNRESOLVED_LOCATION \<or> kind = EXPR_OPERAND_SYSTEM_EVENT_DATA_LOCATION"

definition load_opcode :: "expr_operand_kind \<Rightarrow> qvm_opcode" where
  "load_opcode kind = (if loads_from_path kind then QVM_OP_LOAD_PATH else QVM_OP_LOAD_CONST)"

text \<open>A scalar at an offset of an object, inside the storage of the object.\<close>

definition located :: "cmeta_schema \<Rightarrow> nat \<Rightarrow> expr_operand \<Rightarrow> bool" where
  "located schema whole operand \<longleftrightarrow>
     (case eo_data operand of None \<Rightarrow> False
      | Some desc \<Rightarrow> desc_scalar_kind (schema desc) = Some (eo_value_kind operand) \<and>
          (case (cd_size (schema desc), cd_size (schema whole)) of
             (Some n, Some room) \<Rightarrow> eo_offset operand + n \<le> room
           | _ \<Rightarrow> False))"

definition event_field :: "expr_operand_kind \<Rightarrow> bool" where
  "event_field kind \<longleftrightarrow> kind \<in> {EXPR_OPERAND_SYSTEM_EVENT_NAME, EXPR_OPERAND_SYSTEM_EVENT_TYPE,
     EXPR_OPERAND_SYSTEM_EVENT_SEND_ID, EXPR_OPERAND_SYSTEM_EVENT_ORIGIN,
     EXPR_OPERAND_SYSTEM_EVENT_ORIGIN_TYPE, EXPR_OPERAND_SYSTEM_EVENT_INVOKE_ID,
     EXPR_OPERAND_SYSTEM_EVENT_DATA}"

definition operand_typed :: "expr_env \<Rightarrow> expr_operand \<Rightarrow> bool" where
  "operand_typed env operand = (let kind = eo_value_kind operand; v = eo_value operand in
     case eo_kind operand of
       EXPR_OPERAND_LOCATION \<Rightarrow> located (xe_schema env) (xe_root env) operand
     | EXPR_OPERAND_SUPPLEMENTAL_LOCATION \<Rightarrow>
         (case xe_supplemental env of None \<Rightarrow> False
          | Some slots \<Rightarrow> eo_slot operand < length slots \<and>
              located (xe_schema env) (sl_value (slots ! eo_slot operand)) operand)
     | EXPR_OPERAND_UNRESOLVED_LOCATION \<Rightarrow> kind = xe_unresolved_kind env
     | EXPR_OPERAND_SYSTEM_EVENT_DATA_LOCATION \<Rightarrow>
         (case eo_data operand of None \<Rightarrow> False | Some desc \<Rightarrow> desc_scalar_kind (xe_schema env desc) = Some kind)
     | EXPR_OPERAND_SINT \<Rightarrow> kind = EXPR_VALUE_SINT \<and> (case v of OV_Sint _ \<Rightarrow> True | _ \<Rightarrow> False)
     | EXPR_OPERAND_UINT \<Rightarrow> kind = EXPR_VALUE_UINT \<and> (case v of OV_Uint _ \<Rightarrow> True | _ \<Rightarrow> False)
     | EXPR_OPERAND_FLOAT \<Rightarrow>
         kind = EXPR_VALUE_FLOAT \<and> (case v of OV_Number number \<Rightarrow> d_isfinite number | _ \<Rightarrow> False)
     | EXPR_OPERAND_STRING \<Rightarrow> kind = EXPR_VALUE_STRING \<and> (case v of OV_String _ \<Rightarrow> True | _ \<Rightarrow> False)
     | EXPR_OPERAND_STATE \<Rightarrow> kind = EXPR_VALUE_BOOL \<and> (case v of OV_State _ \<Rightarrow> True | _ \<Rightarrow> False)
     | EXPR_OPERAND_SYSTEM_EVENT_FIELD_BOUND \<Rightarrow>
         kind = EXPR_VALUE_BOOL \<and> (case v of OV_Event_Field field \<Rightarrow> event_field field | _ \<Rightarrow> False)
     | EXPR_OPERAND_SYSTEM_EVENT_BOUND \<Rightarrow> kind = EXPR_VALUE_BOOL
     | EXPR_OPERAND_SYSTEM_NAME_BOUND \<Rightarrow> kind = EXPR_VALUE_BOOL
     | EXPR_OPERAND_SYSTEM_SESSION_ID_BOUND \<Rightarrow> kind = EXPR_VALUE_BOOL
     | EXPR_OPERAND_SYSTEM_IO_PROCESSORS_BOUND \<Rightarrow> kind = EXPR_VALUE_BOOL
     | EXPR_OPERAND_SYSTEM_IOPROCESSOR_LOCATION \<Rightarrow>
         kind = EXPR_VALUE_STRING \<and> (case v of OV_String _ \<Rightarrow> True | _ \<Rightarrow> False)
     | _ \<Rightarrow> kind = EXPR_VALUE_STRING)"

section \<open>Fragments\<close>

definition instruction :: "qvm_opcode \<Rightarrow> nat \<Rightarrow> nat \<Rightarrow> nat \<Rightarrow> nat \<Rightarrow> qvm_instruction" where
  "instruction op dst arg src1 src2 =
     \<lparr>qi_op = op, qi_dst = dst, qi_arg = arg, qi_src1 = src1, qi_src2 = src2\<rparr>"

text \<open>
  \<^theory_text>\<open>frag ok ops base t kind code\<close>: the code, placed at \<^theory_text>\<open>base\<close>, leaves a value of the kind
  in register \<^theory_text>\<open>t\<close>; its operands are among \<^theory_text>\<open>ops\<close>.
\<close>

inductive frag ::
  "(expr_operand \<Rightarrow> bool) \<Rightarrow> expr_operand list \<Rightarrow> nat \<Rightarrow> nat \<Rightarrow> expr_value_kind \<Rightarrow> qvm_instruction list \<Rightarrow> bool"
  for ok ops where
  load: "i < length ops \<Longrightarrow> ok (ops ! i) \<Longrightarrow>
    frag ok ops base t (eo_value_kind (ops ! i)) [instruction (load_opcode (eo_kind (ops ! i))) t 0 i 0]"
| bool: "op = QVM_OP_TRUE \<or> op = QVM_OP_FALSE \<Longrightarrow>
    frag ok ops base t EXPR_VALUE_BOOL [instruction op t 0 0 0]"
| not: "frag ok ops base t EXPR_VALUE_BOOL code \<Longrightarrow>
    frag ok ops base t EXPR_VALUE_BOOL (code @ [instruction QVM_OP_NOT t 0 t 0])"
| neg: "frag ok ops base t kind code \<Longrightarrow> kind = EXPR_VALUE_SINT \<or> kind = EXPR_VALUE_FLOAT \<Longrightarrow>
    frag ok ops base t kind (code @ [instruction QVM_OP_NEG t 0 t 0])"
| arithmetic: "frag ok ops base t left code \<Longrightarrow> frag ok ops (base + length code) (Suc t) right code' \<Longrightarrow>
    multiplicative_opcode operation = Some op \<or> additive_opcode operation = Some op \<Longrightarrow>
    arithmetic_result_kind operation left right = Some kind \<Longrightarrow>
    frag ok ops base t kind (code @ code' @ [instruction op t 0 t (Suc t)])"
| comparison: "frag ok ops base t left code \<Longrightarrow> frag ok ops (base + length code) (Suc t) right code' \<Longrightarrow>
    comparison_code operation = Some c \<Longrightarrow> comparable_kinds operation left right \<Longrightarrow>
    frag ok ops base t EXPR_VALUE_BOOL (code @ code' @ [instruction QVM_OP_CMP t c t (Suc t)])"
| logical: "frag ok ops base t EXPR_VALUE_BOOL code \<Longrightarrow>
    frag ok ops (Suc (base + length code)) (Suc t) EXPR_VALUE_BOOL code' \<Longrightarrow>
    jump = QVM_OP_JMP_FALSE \<and> combine = QVM_OP_BAND \<or> jump = QVM_OP_JMP_TRUE \<and> combine = QVM_OP_BOR \<Longrightarrow>
    frag ok ops base t EXPR_VALUE_BOOL
      (code @ instruction jump 0 (Suc (Suc (base + length code + length code'))) t 0 # code' @
       [instruction combine t 0 t (Suc t)])"

lemma frag_more_operands: "frag ok ops base t kind code \<Longrightarrow> frag ok (ops @ ops') base t kind code"
proof (induction rule: frag.induct)
  case (load i base t)
  then have "(ops @ ops') ! i = ops ! i" by (simp add: nth_append)
  then show ?case using frag.load [of i "ops @ ops'" ok base t] load by simp
qed (rule frag.intros; assumption)+

lemma frag_nonempty: "frag ok ops base t kind code \<Longrightarrow> code \<noteq> []"
  by (induction rule: frag.induct) auto

text \<open>Jumps go forward and end within the fragment.\<close>

definition is_jump :: "qvm_instruction \<Rightarrow> bool" where
  "is_jump i \<longleftrightarrow> qi_op i = QVM_OP_JMP_FALSE \<or> qi_op i = QVM_OP_JMP_TRUE"

primrec jumps_in :: "nat \<Rightarrow> nat \<Rightarrow> qvm_instruction list \<Rightarrow> bool" where
  "jumps_in base hi [] \<longleftrightarrow> True"
| "jumps_in base hi (c # code) \<longleftrightarrow>
     (is_jump c \<longrightarrow> base < qi_arg c \<and> qi_arg c \<le> hi) \<and> jumps_in (Suc base) hi code"

lemma jumps_in_append [simp]:
  "jumps_in base hi (code @ code') \<longleftrightarrow> jumps_in base hi code \<and> jumps_in (base + length code) hi code'"
  by (induction code arbitrary: base) auto

lemma jumps_in_mono: "jumps_in base hi code \<Longrightarrow> hi \<le> hi' \<Longrightarrow> jumps_in base hi' code"
  by (induction code arbitrary: base) auto

lemma opcode_no_jump:
  "multiplicative_opcode operation = Some op \<Longrightarrow> op \<noteq> QVM_OP_JMP_FALSE \<and> op \<noteq> QVM_OP_JMP_TRUE"
  "additive_opcode operation = Some op \<Longrightarrow> op \<noteq> QVM_OP_JMP_FALSE \<and> op \<noteq> QVM_OP_JMP_TRUE"
  by (auto simp: multiplicative_opcode_def additive_opcode_def split: if_splits)

lemma frag_jumps: "frag ok ops base t kind code \<Longrightarrow> jumps_in base (base + length code) code"
proof (induction rule: frag.induct)
  case (logical base t code code' jump combine)
  then show ?case
    using jumps_in_mono [OF logical.IH(1)] jumps_in_mono [OF logical.IH(2)]
    by (auto simp: is_jump_def instruction_def ac_simps)
qed (auto simp: is_jump_def instruction_def load_opcode_def ac_simps dest: opcode_no_jump elim!: jumps_in_mono)

section \<open>What the emitting parser has written\<close>

definition gives :: "('a \<Rightarrow> expr_parser \<Rightarrow> bool) \<Rightarrow> 'a parse \<Rightarrow> bool" where
  "gives Q r \<longleftrightarrow> (\<forall>x q. r = Done x q \<longrightarrow> Q x q)"

lemma gives_simps [simp]:
  "gives Q (Done x q) = Q x q" "gives Q (Failed status offset)" "gives Q (fail_here status p)"
  "gives Q Wild" "gives Q No_Fuel"
  by (simp_all add: gives_def fail_here_def)

lemma gives_bind: "gives R r \<Longrightarrow> (\<And>x q. R x q \<Longrightarrow> gives Q (k x q)) \<Longrightarrow> gives Q (pbind r k)"
  by (cases r) (auto simp: gives_def)

lemma gives_mono: "gives R r \<Longrightarrow> (\<And>x q. R x q \<Longrightarrow> Q x q) \<Longrightarrow> gives Q r"
  by (auto simp: gives_def)

definition code_of :: "expr_parser \<Rightarrow> qvm_instruction list" where
  "code_of p = take (xp_instruction_count p) (xp_instructions p)"

definition ops_of :: "expr_parser \<Rightarrow> expr_operand list" where
  "ops_of p = take (xp_operand_count p) (xp_operands p)"

definition output_ok :: "expr_parser \<Rightarrow> bool" where
  "output_ok p \<longleftrightarrow> xp_instruction_count p \<le> length (xp_instructions p) \<and>
     xp_operand_count p \<le> length (xp_operands p)"

definition same_output :: "expr_parser \<Rightarrow> expr_parser \<Rightarrow> bool" where
  "same_output p q \<longleftrightarrow> xp_instructions q = xp_instructions p \<and> xp_operands q = xp_operands p \<and>
     xp_instruction_count q = xp_instruction_count p \<and> xp_operand_count q = xp_operand_count p \<and>
     xp_max_register q = xp_max_register p"

lemma same_output_refl [simp]: "same_output p p"
  by (simp add: same_output_def)

lemma same_output_trans: "same_output p q \<Longrightarrow> same_output q r \<Longrightarrow> same_output p r"
  by (simp add: same_output_def)

lemma same_output_upd [simp]:
  "same_output p (parser_next env q) = same_output p q" "same_output p (leave_depth q) = same_output p q"
  "same_output p (q\<lparr>xp_depth := d\<rparr>) = same_output p q" "same_output p (q\<lparr>xp_cursor := d\<rparr>) = same_output p q"
  "same_output p (q\<lparr>xp_literal_bytes := d\<rparr>) = same_output p q"
  "same_output p (q\<lparr>xp_retained := d\<rparr>) = same_output p q"
  "same_output p (q\<lparr>xp_storage_index := d\<rparr>) = same_output p q"
  by (simp_all add: same_output_def parser_next_def leave_depth_def split: prod.splits)

lemma output_ok_same: "same_output p q \<Longrightarrow> output_ok p \<Longrightarrow> output_ok q"
  by (simp add: same_output_def output_ok_def)

lemma outputs_same: "same_output p q \<Longrightarrow> code_of q = code_of p \<and> ops_of q = ops_of p"
  by (simp add: same_output_def code_of_def ops_of_def)

text \<open>
  A parser that returned the node \<^theory_text>\<open>x\<close> in the state \<^theory_text>\<open>q\<close> has appended, since \<^theory_text>\<open>p\<close>, a
  fragment that leaves a value of the node's kind in the target register.
\<close>

definition node_typed :: "expr_env \<Rightarrow> expr_parser \<Rightarrow> nat \<Rightarrow> expr_node \<Rightarrow> expr_parser \<Rightarrow> bool" where
  "node_typed env p t x q \<longleftrightarrow> output_ok q \<and> en_reg x = t \<and> t < xe_registers env \<and> t < xp_max_register q \<and>
     xp_max_register p \<le> xp_max_register q \<and> xp_max_register q \<le> max (xp_max_register p) (xe_registers env) \<and>
     (\<exists>code ops. code_of q = code_of p @ code \<and> ops_of q = ops_of p @ ops \<and>
        frag (operand_typed env) (ops_of q) (length (code_of p)) t (en_kind x) code \<and>
        (\<forall>c\<in>set code. qi_dst c < xp_max_register q))"

lemma node_typed_same:
  "same_output p q \<Longrightarrow> node_typed env q t x r \<Longrightarrow> node_typed env p t x r"
  "same_output q r \<Longrightarrow> node_typed env p t x q \<Longrightarrow> node_typed env p t x r"
  by (simp_all add: node_typed_def same_output_def code_of_def ops_of_def output_ok_def)

lemma same_output_sym: "same_output p q \<Longrightarrow> same_output q p"
  by (simp add: same_output_def)

lemma node_typed_upd [simp]:
  "node_typed env p t x (parser_next env' q) = node_typed env p t x q"
  "node_typed env p t x (leave_depth q) = node_typed env p t x q"
  by (rule iffI; rule node_typed_same(2) [rotated], assumption, simp add: same_output_sym)+

section \<open>Steps that write nothing\<close>

lemma quiet_add_literal_bytes: "same_output p q \<Longrightarrow> gives (\<lambda>_. same_output p) (add_literal_bytes env n q)"
  by (simp add: add_literal_bytes_def)

lemma quiet_retain_string: "same_output p q \<Longrightarrow> gives (\<lambda>_. same_output p) (retain_string env i n q)"
  by (auto simp: retain_string_def intro!: gives_bind [OF quiet_add_literal_bytes])

lemma quiet_allow: "same_output p q \<Longrightarrow> gives (\<lambda>_. same_output p) (allow_system_operand env k i q)"
  by (simp add: allow_system_operand_def)

lemma quiet_unresolved_loop: "same_output p q \<Longrightarrow> gives (\<lambda>_. same_output p) (unresolved_loop depth env e q)"
  by (induction depth env e q rule: unresolved_loop.induct) (auto simp: Let_def)

lemma quiet_event_path_loop: "same_output p q \<Longrightarrow> gives (\<lambda>_. same_output p) (event_path_loop depth env e q)"
proof (induction depth arbitrary: e q)
  case 0
  then show ?case by (subst event_path_loop.simps) auto
next
  case (Suc depth)
  then show ?case by (subst event_path_loop.simps) (auto simp: Let_def)
qed

lemma quiet_retain_ioprocessor:
  "same_output p q \<Longrightarrow> gives (\<lambda>_. same_output p) (retain_ioprocessor_name env q)"
  by (auto simp: retain_ioprocessor_name_def Let_def split: option.splits
    intro!: gives_bind [OF quiet_retain_string])

section \<open>Loads\<close>

lemma convert_number_typed:
  assumes "convert_number u f s text = (operand, False, rest)"
  shows "operand_typed env operand" "load_opcode (eo_kind operand) = QVM_OP_LOAD_CONST"
  using assms
  by (auto simp: convert_number_def operand_typed_def plain_operand_def load_opcode_def
    loads_from_path_def strtod_erange_def split: if_splits prod.splits)

lemma quiet_parse_number:
  "same_output p q \<Longrightarrow> gives (\<lambda>x r. same_output p r \<and> operand_typed env x \<and>
     load_opcode (eo_kind x) = QVM_OP_LOAD_CONST) (parse_number_operand env q)"
  using convert_number_typed
  by (auto simp: parse_number_operand_def Let_def split: prod.splits
    intro!: gives_bind [OF quiet_add_literal_bytes])

lemma event_field_kinds:
  "event_field_kind text = Some k \<Longrightarrow> event_field k \<and> \<not> loads_from_path k \<and>
     operand_typed env (plain_operand k EXPR_VALUE_STRING OV_None)"
  by (auto simp: event_field_kind_def event_field_def loads_from_path_def operand_typed_def
    plain_operand_def split: if_splits)

lemma quiet_bound_operand:
  assumes "same_output p q" "bound_operand_kind text = Some k"
  shows "gives (\<lambda>(x, _) r. same_output p r \<and> operand_typed env x \<and>
     load_opcode (eo_kind x) = QVM_OP_LOAD_CONST) (bound_operand env k q)"
  using assms event_field_kinds
  by (auto simp: bound_operand_def bound_operand_kind_def Let_def operand_typed_def plain_operand_def
    load_opcode_def loads_from_path_def parser_event_field_kind_def split: option.splits if_splits)

lemma quiet_state_operand:
  assumes "xe_emit env" "same_output p q"
  shows "gives (\<lambda>x r. same_output p r \<and> operand_typed env x \<and>
     load_opcode (eo_kind x) = QVM_OP_LOAD_CONST) (state_operand env i n q)"
  using assms
  by (auto simp: state_operand_def operand_typed_def plain_operand_def load_opcode_def
    loads_from_path_def split: option.splits)

lemma take_update_next: "n < length xs \<Longrightarrow> take (Suc n) (xs[n := x]) = take n xs @ [x]"
  by (simp add: take_Suc_conv_app_nth)

lemma output_ok_length: "output_ok p \<Longrightarrow> length (code_of p) = xp_instruction_count p \<and> length (ops_of p) = xp_operand_count p"
  by (simp add: output_ok_def code_of_def ops_of_def)

text \<open>What an emission and an added operand change.\<close>

definition emitted :: "expr_parser \<Rightarrow> qvm_instruction \<Rightarrow> expr_parser \<Rightarrow> bool" where
  "emitted p i q \<longleftrightarrow> output_ok q \<and> code_of q = code_of p @ [i] \<and> ops_of q = ops_of p \<and>
     xp_max_register q = max (Suc (qi_dst i)) (xp_max_register p)"

lemma gives_emit:
  assumes "xe_emit env" "output_ok p"
  shows "gives (\<lambda>_. emitted p (instruction op d a s1 s2)) (emit_instruction env op d a s1 s2 p)"
  using assms
  by (auto simp: emit_instruction_def Let_def emitted_def output_ok_def code_of_def ops_of_def
    instruction_def take_update_next)

lemma gives_add_operand:
  assumes "xe_emit env" "output_ok p"
  shows "gives (\<lambda>i q. output_ok q \<and> code_of q = code_of p \<and> ops_of q = ops_of p @ [x] \<and>
     xp_max_register q = xp_max_register p \<and> i = length (ops_of p)) (add_operand env x p)"
  using assms
  by (auto simp: add_operand_def Let_def output_ok_def code_of_def ops_of_def take_update_next)

lemma typed_load:
  assumes "xe_emit env" "output_ok p" "same_output p q" "t < xe_registers env" "operand_typed env x"
    and op: "load_opcode (eo_kind x) = op"
  shows "gives (node_typed env p t) (load_operand env op t x q)"
proof (rule node_typed_same(1) [OF assms(3), THEN gives_mono [rotated]])
  have ok: "output_ok q" by (rule output_ok_same [OF assms(3,2)])
  show "gives (node_typed env q t) (load_operand env op t x q)"
    unfolding load_operand_def
  proof (rule gives_bind [OF gives_add_operand [OF assms(1) ok]])
    fix i r
    assume r: "output_ok r \<and> code_of r = code_of q \<and> ops_of r = ops_of q @ [x] \<and>
      xp_max_register r = xp_max_register q \<and> i = length (ops_of q)"
    show "gives (node_typed env q t) (pbind (emit_instruction env op t 0 i 0 r)
        (\<lambda>_ p. Done \<lparr>en_reg = t, en_kind = eo_value_kind x\<rparr> p))"
    proof (rule gives_bind [OF gives_emit [OF assms(1)]])
      show "output_ok r" using r by simp
      fix y s
      assume s: "emitted r (instruction op t 0 i 0) s"
      have "frag (operand_typed env) (ops_of s) (length (code_of q)) t (eo_value_kind x) [instruction op t 0 i 0]"
        using frag.load [of i "ops_of s" "operand_typed env"] r s assms(5) op by (simp add: emitted_def)
      then show "gives (node_typed env q t) (Done \<lparr>en_reg = t, en_kind = eo_value_kind x\<rparr> s)"
        using r s assms(4) by (auto simp: node_typed_def emitted_def instruction_def)
    qed
  qed
qed

section \<open>Locations\<close>

lemma typed_unresolved:
  assumes "xe_emit env" "output_ok p" "t < xe_registers env" "same_output p q"
  shows "gives (node_typed env p t) (parse_unresolved_location env t b depth q)"
  unfolding parse_unresolved_location_def
  by (rule gives_bind [OF quiet_unresolved_loop [OF assms(4)]])
    (auto intro!: gives_bind [OF quiet_retain_string] typed_load [OF assms(1,2) _ assms(3)]
      simp: operand_typed_def plain_operand_def load_opcode_def loads_from_path_def)

lemma typed_unknown:
  assumes "xe_emit env" "output_ok p" "t < xe_registers env" "same_output p q"
  shows "gives (node_typed env p t) (unknown_location env m t b depth q)"
  using typed_unresolved [OF assms] by (simp add: unknown_location_def)

lemma scalar_has_size: "desc_scalar_kind desc = Some k \<Longrightarrow> \<exists>n. cd_size desc = Some n"
  by (auto simp: desc_scalar_kind_def split: if_splits option.splits)

text \<open>An offset at which a descriptor lies within the whole object.\<close>

definition place_ok :: "cmeta_schema \<Rightarrow> nat \<Rightarrow> nat \<Rightarrow> nat \<Rightarrow> bool" where
  "place_ok schema whole desc offset \<longleftrightarrow>
     (\<forall>n. cd_size (schema desc) = Some n \<longrightarrow> (\<exists>room. cd_size (schema whole) = Some room \<and> offset + n \<le> room))"

lemma field_bounds_place:
  "field_bounds schema whole parent field offset = Some i \<Longrightarrow> place_ok schema whole (cf_value field) i"
  by (auto simp: field_bounds_def place_ok_def Let_def split: option.splits if_splits)

lemma typed_load_location:
  assumes "xe_emit env" "output_ok p" "t < xe_registers env" "same_output p q"
    and "kind = EXPR_OPERAND_LOCATION \<and> whole = xe_root env \<or>
      kind = EXPR_OPERAND_SUPPLEMENTAL_LOCATION \<and>
        (\<exists>slots. xe_supplemental env = Some slots \<and> slot < length slots \<and> whole = sl_value (slots ! slot))"
    and "place_ok (xe_schema env) whole desc offset"
  shows "gives (node_typed env p t) (load_location env kind t desc slot rf offset q)"
proof (cases "desc_scalar_kind (xe_schema env desc)")
  case (Some scalar)
  obtain n where "cd_size (xe_schema env desc) = Some n" using scalar_has_size [OF Some] by blast
  then have "located (xe_schema env) whole \<lparr>eo_kind = kind, eo_value_kind = scalar, eo_data = Some desc,
      eo_root_field = rf, eo_offset = offset, eo_slot = slot, eo_value = OV_None\<rparr>"
    using Some assms(6) by (auto simp: located_def place_ok_def)
  then show ?thesis using Some assms(5)
    by (auto simp: load_location_def operand_typed_def load_opcode_def loads_from_path_def
      intro!: typed_load [OF assms(1,2,4,3)])
qed (simp add: load_location_def)

lemma typed_supplemental:
  assumes "xe_emit env" "output_ok p" "t < xe_registers env"
    and slot: "xe_supplemental env = Some slots" "slot < length slots"
  shows "same_output p q \<Longrightarrow> place_ok (xe_schema env) (sl_value (slots ! slot)) desc offset \<Longrightarrow>
    gives (node_typed env p t) (supplemental_loop depth env t slot (sl_value (slots ! slot)) b desc offset q)"
proof (induction depth arbitrary: desc offset q)
  case 0
  then show ?case using slot
    by (subst supplemental_loop.simps) (auto intro!: typed_load_location [OF assms(1-3)])
next
  case (Suc depth)
  show ?case using Suc.prems slot
    by (subst supplemental_loop.simps)
      (auto simp: Let_def split: option.splits
        intro!: typed_load_location [OF assms(1-3)] typed_unknown [OF assms(1-3)] Suc.IH
        elim: field_bounds_place)
qed

lemma first_index_found: "first_index P xs = Some i \<Longrightarrow> i < length xs"
  by (induction xs arbitrary: i) (auto split: if_splits option.splits)

lemma typed_location_loop:
  assumes "xe_emit env" "output_ok p" "t < xe_registers env"
  shows "same_output p q \<Longrightarrow>
    gives (node_typed env p t) (location_loop depth env EXPR_OPERAND_LOCATION t b desc offset first q)"
proof (induction depth arbitrary: desc offset first q)
  case (Suc depth)
  have supplemental: "gives (node_typed env p t)
      (supplemental_loop depth env t slot (sl_value row) b (sl_value row) 0 (parser_next env q))"
    if found: "cmeta_scope_find (xe_supplemental env) nm = Some (slot, row)" for nm slot row
  proof -
    obtain slots where "xe_supplemental env = Some slots" "slot < length slots" "row = slots ! slot"
      using found by (auto simp: cmeta_scope_find_def split: option.splits dest: first_index_found)
    then show ?thesis using Suc.prems
      by (auto simp: place_ok_def intro!: typed_supplemental [OF assms])
  qed
  show ?case using Suc.prems
    by (auto simp: Let_def split: option.splits
      intro!: typed_load_location [OF assms] typed_unknown [OF assms] supplemental Suc.IH
      elim: field_bounds_place)
qed simp

section \<open>Primary expressions\<close>

text \<open>What the search for an event data path has found is a scalar of the reported kind.\<close>

definition match_ok :: "cmeta_schema \<Rightarrow> event_path_match \<Rightarrow> bool" where
  "match_ok schema match \<longleftrightarrow> (\<forall>d k. em_found match = Some (d, k) \<longrightarrow> desc_scalar_kind (schema d) = Some k)"

lemma match_candidate_ok: "match_ok schema match \<Longrightarrow> match_ok schema (match_candidate schema c path n match)"
  by (auto simp: match_candidate_def match_ok_def split: option.splits)

lemma match_fields_ok:
  assumes "\<And>d m. match_ok schema m \<Longrightarrow> match_ok schema (visit d m)"
  shows "match_ok schema match \<Longrightarrow> match_ok schema (match_fields schema visit fs match)"
  by (induction fs arbitrary: match) (auto simp: Let_def assms)

lemma find_event_path_match_ok:
  "match_ok schema match \<Longrightarrow> match_ok schema (find_event_path_match n schema path depth limit c match)"
proof (induction n arbitrary: c match)
  case (Suc n)
  have "match_ok schema (match\<lparr>em_visited := v\<rparr>)" "match_ok schema (match\<lparr>em_limit_exceeded := b\<rparr>)" for v b
    using Suc.prems by (simp_all add: match_ok_def)
  then show ?case using Suc
    by (auto simp: Let_def split: option.splits intro!: match_fields_ok match_candidate_ok)
qed simp

lemma typed_event_data:
  assumes "xe_emit env" "output_ok p" "t < xe_registers env" "same_output p q"
  shows "gives (node_typed env p t) (parse_event_data_location env t q)"
proof -
  have found: "desc_scalar_kind (xe_schema env d) = Some k"
    if "em_found (find_event_path_match n (xe_schema env) path depth limit c no_match) = Some (d, k)"
    for n path depth limit c d k
    using find_event_path_match_ok [of "xe_schema env" no_match] that by (auto simp: match_ok_def no_match_def)
  show ?thesis unfolding parse_event_data_location_def Let_def
    by (rule gives_bind [OF quiet_event_path_loop [OF assms(4)]])
      (auto split: option.splits intro!: gives_bind [OF quiet_retain_string] typed_load [OF assms(1,2) _ assms(3)]
        simp: operand_typed_def plain_operand_def load_opcode_def loads_from_path_def found
        simp del: find_event_path_match.simps)
qed

lemmas operand_simps = operand_typed_def plain_operand_def load_opcode_def loads_from_path_def

lemma typed_primary_ident:
  assumes env: "xe_emit env" "output_ok p" "t < xe_registers env" and q: "same_output p q"
  shows "gives (node_typed env p t) (primary_ident env t q)"
proof -
  note load = typed_load [OF env(1,2) _ env(3)]
  have bool: "gives (node_typed env p t) (primary_bool env t q)"
  proof -
    have "gives (node_typed env (parser_next env q) t) (primary_bool env t q)"
      unfolding primary_bool_def Let_def
      by (rule gives_bind [OF gives_emit [OF env(1) output_ok_same [OF _ env(2)]]])
        (use q env(3) in \<open>auto simp: node_typed_def emitted_def instruction_def [symmetric]
          intro!: frag.bool, simp_all add: instruction_def\<close>)
    then show ?thesis by (rule gives_mono) (use q in \<open>auto intro: node_typed_same(1) [of p "parser_next env q"]\<close>)
  qed
  have name: "gives (node_typed env p t) (primary_name env t q)"
    by (auto simp: primary_name_def Let_def operand_simps q intro!: gives_bind [OF quiet_allow [OF q]] load)
  have bound: "gives (node_typed env p t) (primary_is_bound env t q)"
    using q by (auto simp: primary_is_bound_def Let_def split: option.splits
      intro!: gives_bind [OF quiet_bound_operand] gives_bind [OF quiet_allow] load)
  have event: "gives (node_typed env p t) (primary_event env t q)"
    using q event_field_kinds by (auto simp: primary_event_def Let_def parser_event_field_kind_def load_opcode_def
      plain_operand_def split: option.splits if_splits intro!: gives_bind [OF quiet_allow] typed_event_data [OF env] load)
  have io: "gives (node_typed env p t) (primary_ioprocessors env t q)"
    using q by (auto simp: primary_ioprocessors_def Let_def operand_simps
      intro!: gives_bind [OF quiet_allow] gives_bind [OF quiet_retain_ioprocessor] load)
  have state: "gives (node_typed env p t) (primary_in env t q)"
    using q by (auto simp: primary_in_def Let_def
      intro!: gives_bind [OF quiet_add_literal_bytes] gives_bind [OF quiet_state_operand [OF env(1)]] load)
  show ?thesis using bool name bound event io state q
    by (simp add: primary_ident_def Let_def parse_location_def typed_location_loop [OF env])
qed

section \<open>Operators\<close>

lemma node_typedE:
  assumes "node_typed env p t x q"
  obtains code ops where "output_ok q" "en_reg x = t" "t < xe_registers env" "t < xp_max_register q"
    "xp_max_register p \<le> xp_max_register q" "xp_max_register q \<le> max (xp_max_register p) (xe_registers env)"
    "code_of q = code_of p @ code" "ops_of q = ops_of p @ ops"
    "frag (operand_typed env) (ops_of q) (length (code_of p)) t (en_kind x) code"
    "\<forall>c\<in>set code. qi_dst c < xp_max_register q"
  using assms by (fastforce simp: node_typed_def)

lemma typed_unary_operator:
  assumes "node_typed env p t x q" "emitted q (instruction op t 0 t 0) r"
    and "op = QVM_OP_NOT \<and> en_kind x = EXPR_VALUE_BOOL \<or>
      op = QVM_OP_NEG \<and> (en_kind x = EXPR_VALUE_SINT \<or> en_kind x = EXPR_VALUE_FLOAT)"
  shows "node_typed env p t x r"
proof -
  obtain code ops where q: "output_ok q" "en_reg x = t" "t < xe_registers env" "t < xp_max_register q"
    "xp_max_register p \<le> xp_max_register q" "xp_max_register q \<le> max (xp_max_register p) (xe_registers env)"
    "code_of q = code_of p @ code" "ops_of q = ops_of p @ ops"
    "frag (operand_typed env) (ops_of q) (length (code_of p)) t (en_kind x) code"
    "\<forall>c\<in>set code. qi_dst c < xp_max_register q"
    using assms(1) by (rule node_typedE)
  have "frag (operand_typed env) (ops_of r) (length (code_of p)) t (en_kind x) (code @ [instruction op t 0 t 0])"
    using q(9) assms(2,3) by (auto simp: emitted_def intro: frag.not frag.neg)
  then show ?thesis using q assms(2)
    by (auto simp: node_typed_def emitted_def instruction_def intro!: exI [of _ "code @ [instruction op t 0 t 0]"])
qed

lemma typed_binary_operator:
  assumes "node_typed env p t x q" "node_typed env q (Suc t) y r" "emitted r (instruction op t c t (Suc t)) s"
    and kind: "(multiplicative_opcode operation = Some op \<or> additive_opcode operation = Some op) \<and> c = 0 \<and>
        arithmetic_result_kind operation (en_kind x) (en_kind y) = Some k \<or>
      op = QVM_OP_CMP \<and> comparison_code operation = Some c \<and>
        comparable_kinds operation (en_kind x) (en_kind y) \<and> k = EXPR_VALUE_BOOL"
  shows "node_typed env p t (x\<lparr>en_kind := k\<rparr>) s"
proof -
  obtain code ops where q: "output_ok q" "en_reg x = t" "t < xe_registers env" "t < xp_max_register q"
    "xp_max_register p \<le> xp_max_register q" "xp_max_register q \<le> max (xp_max_register p) (xe_registers env)"
    "code_of q = code_of p @ code" "ops_of q = ops_of p @ ops"
    "frag (operand_typed env) (ops_of q) (length (code_of p)) t (en_kind x) code"
    "\<forall>c\<in>set code. qi_dst c < xp_max_register q"
    using assms(1) by (rule node_typedE)
  obtain code' ops' where r: "output_ok r" "en_reg y = Suc t" "Suc t < xe_registers env" "Suc t < xp_max_register r"
    "xp_max_register q \<le> xp_max_register r" "xp_max_register r \<le> max (xp_max_register q) (xe_registers env)"
    "code_of r = code_of q @ code'" "ops_of r = ops_of q @ ops'"
    "frag (operand_typed env) (ops_of r) (length (code_of q)) (Suc t) (en_kind y) code'"
    "\<forall>c\<in>set code'. qi_dst c < xp_max_register r"
    using assms(2) by (rule node_typedE)
  have left: "frag (operand_typed env) (ops_of r) (length (code_of p)) t (en_kind x) code"
    unfolding r(8) by (rule frag_more_operands [OF q(9)])
  have right: "frag (operand_typed env) (ops_of r) (length (code_of p) + length code) (Suc t) (en_kind y) code'"
    using r(9) q(7) by simp
  let ?code = "code @ code' @ [instruction op t c t (Suc t)]"
  have "frag (operand_typed env) (ops_of s) (length (code_of p)) t k ?code"
    using kind frag.arithmetic [OF left right] frag.comparison [OF left right] assms(3)
    by (auto simp: emitted_def)
  then show ?thesis using q r assms(3)
    by (auto simp: node_typed_def emitted_def instruction_def intro!: exI [of _ ?code])
qed

definition typed_parser :: "expr_env \<Rightarrow> (nat \<Rightarrow> expr_parser \<Rightarrow> expr_node parse) \<Rightarrow> bool" where
  "typed_parser env f \<longleftrightarrow> (\<forall>t p. output_ok p \<longrightarrow> gives (node_typed env p t) (f t p))"

lemma typed_parserD:
  assumes "typed_parser env f" "output_ok p" "same_output p q"
  shows "gives (node_typed env p t) (f t q)"
proof (rule gives_mono)
  show "gives (node_typed env q t) (f t q)"
    using assms output_ok_same [OF assms(3,2)] by (simp add: typed_parser_def)
qed (rule node_typed_same(1) [OF assms(3)])

lemma node_typed_ok: "node_typed env p t x q \<Longrightarrow> output_ok q"
  by (simp add: node_typed_def)

lemma next_register_Suc:
  "node_typed env p t x q \<Longrightarrow> xe_registers env \<le> 65535 \<Longrightarrow> next_register t = Suc t"
  by (simp add: node_typed_def next_register_def)

lemma typed_parse_primary:
  assumes "xe_emit env" "typed_parser env f" "output_ok p" "same_output p q"
  shows "gives (node_typed env p t) (parse_primary env f t q)"
proof (cases "t < xe_registers env")
  case True
  note load = typed_load [OF assms(1,3) _ True]
  have group: "gives (node_typed env p t) (primary_group env f t q)"
    using assms(4) by (auto simp: primary_group_def
      intro!: gives_bind [OF typed_parserD [OF assms(2,3)]])
  have number: "gives (node_typed env p t) (primary_number env t q)"
    using assms(4) by (auto simp: primary_number_def
      intro!: gives_bind [OF quiet_parse_number] gives_bind [OF load])
  have str: "gives (node_typed env p t) (primary_string env t q)"
    using assms(4) by (auto simp: primary_string_def operand_simps
      intro!: gives_bind [OF quiet_retain_string] gives_bind [OF load])
  show ?thesis using group number str typed_primary_ident [OF assms(1,3) True assms(4)]
    by (simp add: parse_primary_def)
qed (simp add: parse_primary_def)

lemma typed_parse_unary:
  assumes "xe_emit env" "typed_parser env f"
  shows "typed_parser env (parse_unary fuel env f)"
  unfolding typed_parser_def
proof (induction fuel)
  case (Suc fuel)
  then have IH: "typed_parser env (parse_unary fuel env f)" by (simp add: typed_parser_def)
  show ?case
  proof (intro allI impI)
    fix t p
    assume ok: "output_ok p"
    show "gives (node_typed env p t) (parse_unary (Suc fuel) env f t p)"
    proof (cases "t < xe_registers env")
      case True
      have int_min: "gives (node_typed env p t) (int_min_literal env t q)" if "same_output p q" for q
        using that by (auto simp: int_min_literal_def operand_simps
          intro!: gives_bind [OF quiet_add_literal_bytes] gives_bind [OF typed_load [OF assms(1) ok _ True]]
         )
      have finish: "gives (node_typed env p t) (finish_unary env operation t x (leave_depth q))"
        if "node_typed env p t x q" for x q operation
      proof -
        have leave: "node_typed env p t x (leave_depth q)" using that by simp
        show ?thesis unfolding finish_unary_def
          using leave by (auto intro!: gives_bind [OF gives_emit [OF assms(1) node_typed_ok [OF leave]]]
            typed_unary_operator [OF leave])
      qed
      show ?thesis
        by (auto simp: Let_def intro!: int_min gives_bind [OF typed_parserD [OF IH ok]] finish
          gives_bind [OF typed_parse_primary [OF assms ok]])
    qed simp
  qed
qed (simp add: gives_def)

lemma node_typed_reg: "node_typed env p t x q \<Longrightarrow> en_reg x = t"
  by (simp add: node_typed_def)

lemma typed_right_operand:
  assumes "typed_parser env f" "xe_registers env \<le> 65535" "node_typed env p t x q" "same_output q r"
  shows "gives (\<lambda>y s. node_typed env q (Suc t) y s \<and> en_reg y = Suc t) (f (next_register t) r)"
  unfolding next_register_Suc [OF assms(3,2)]
  by (rule gives_mono [OF typed_parserD [OF assms(1) node_typed_ok [OF assms(3)] assms(4)]])
    (auto dest: node_typed_reg)

lemma typed_arithmetic_loop:
  assumes env: "xe_emit env" "xe_registers env \<le> 65535" and f: "typed_parser env f"
    and op: "\<And>tk op. opcode tk = Some op \<Longrightarrow> multiplicative_opcode tk = Some op \<or> additive_opcode tk = Some op"
  shows "node_typed env p t x q \<Longrightarrow> gives (node_typed env p t) (arithmetic_loop fuel env opcode f t x q)"
proof (induction fuel arbitrary: x q)
  case (Suc fuel)
  show ?case
  proof (cases "opcode (tok q)")
    case (Some code)
    have step: "gives (node_typed env p t)
        (pbind (emit_instruction env code t 0 t (Suc t) s) (\<lambda>_.
           arithmetic_loop fuel env opcode f t (x\<lparr>en_kind := kind\<rparr>)))"
      if y: "node_typed env q (Suc t) y s \<and> en_reg y = Suc t"
        and kind: "arithmetic_result_kind (tok q) (en_kind x) (en_kind y) = Some kind" for y s kind
    proof (rule gives_bind [OF gives_emit [OF env(1)]])
      show "output_ok s" using y by (auto intro: node_typed_ok)
      fix z r
      assume "emitted s (instruction code t 0 t (Suc t)) r"
      then show "gives (node_typed env p t) (arithmetic_loop fuel env opcode f t (x\<lparr>en_kind := kind\<rparr>) r)"
        using typed_binary_operator [OF Suc.prems conjunct1 [OF y], of code 0 r "tok q" kind] y kind op [OF Some]
        by (intro Suc.IH) auto
    qed
    show ?thesis
      by (auto simp: Some Let_def split: option.splits
        intro!: gives_bind [OF typed_right_operand [OF f env(2) Suc.prems]] step)
  qed (use Suc.prems in simp)
qed (simp add: gives_def)

lemma typed_arithmetic_level:
  assumes "xe_emit env" "xe_registers env \<le> 65535" "typed_parser env f"
    and "\<And>tk op. opcode tk = Some op \<Longrightarrow> multiplicative_opcode tk = Some op \<or> additive_opcode tk = Some op"
  shows "typed_parser env (\<lambda>t p. pbind (f t p) (arithmetic_loop fuel env opcode f t))"
  unfolding typed_parser_def
  by (auto intro!: gives_bind [OF typed_parserD [OF assms(3)]] typed_arithmetic_loop [OF assms])

lemma typed_parse_additive:
  assumes "xe_emit env" "xe_registers env \<le> 65535" "typed_parser env f"
  shows "typed_parser env (parse_additive fuel env f)"
  unfolding parse_additive_def parse_multiplicative_def
  by (intro typed_arithmetic_level typed_parse_unary assms) auto

lemma typed_parse_compare:
  assumes env: "xe_emit env" "xe_registers env \<le> 65535" and "typed_parser env f"
  shows "typed_parser env (parse_compare fuel env f)"
  unfolding typed_parser_def
proof (intro allI impI)
  fix t p
  assume ok: "output_ok p"
  note additive = typed_parse_additive [OF assms, of fuel]
  show "gives (node_typed env p t) (parse_compare fuel env f t p)"
    unfolding parse_compare_def
  proof (rule gives_bind [OF typed_parserD [OF additive ok same_output_refl]])
    fix x q
    assume x: "node_typed env p t x q"
    have step: "gives (node_typed env p t)
        (pbind (emit_instruction env QVM_OP_CMP t c t (Suc t) s) (\<lambda>_. Done (x\<lparr>en_kind := EXPR_VALUE_BOOL\<rparr>)))"
      if y: "node_typed env q (Suc t) y s \<and> en_reg y = Suc t"
        and kind: "comparison_code (tok q) = Some c" "comparable_kinds (tok q) (en_kind x) (en_kind y)" for y s c
    proof (rule gives_bind [OF gives_emit [OF env(1)]])
      show "output_ok s" using y by (auto intro: node_typed_ok)
      fix z r
      assume "emitted s (instruction QVM_OP_CMP t c t (Suc t)) r"
      then show "gives (node_typed env p t) (Done (x\<lparr>en_kind := EXPR_VALUE_BOOL\<rparr>) r)"
        using typed_binary_operator [OF x conjunct1 [OF y], of QVM_OP_CMP c r "tok q" EXPR_VALUE_BOOL] kind by simp
    qed
    show "gives (node_typed env p t) (let operation = tok q in
       case comparison_code operation of None \<Rightarrow> Done x q
       | Some code \<Rightarrow>
           pbind (parse_additive fuel env f (next_register t) (parser_next env q)) (\<lambda>right p.
             if \<not> comparable_kinds operation (en_kind x) (en_kind right)
             then fail_here SCXML_EXPR_TYPE_MISMATCH p
             else pbind (emit_instruction env QVM_OP_CMP t code t (en_reg right) p) (\<lambda>_ p.
               Done (x\<lparr>en_kind := EXPR_VALUE_BOOL\<rparr>) p)))"
      using x by (auto simp: Let_def split: option.splits
        intro!: gives_bind [OF typed_right_operand [OF additive env(2) x]] step)
  qed
qed

text \<open>The jump is emitted before the right operand and patched after it.\<close>

lemma take_update: "i < n \<Longrightarrow> take n (xs[i := x]) = (take n xs)[i := x]"
  by (simp add: take_update_swap)

lemma gives_patch_jump:
  assumes "xe_emit env" "output_ok p" "i < length (code_of p)"
  shows "gives (\<lambda>_ q. output_ok q \<and> code_of q = (code_of p)[i := (code_of p ! i)\<lparr>qi_arg := length (code_of p)\<rparr>] \<and>
      ops_of q = ops_of p \<and> xp_max_register q = xp_max_register p) (patch_jump env i p)"
  using assms by (auto simp: patch_jump_def output_ok_def code_of_def ops_of_def take_update)

lemma length_code_of: "output_ok p \<Longrightarrow> length (code_of p) = xp_instruction_count p"
  by (simp add: output_ok_def code_of_def)

lemma typed_logical_operator:
  assumes "node_typed env p t x q" "en_kind x = EXPR_VALUE_BOOL" "emitted q (instruction jump 0 0 t 0) r"
    and "node_typed env r (Suc t) y s" "en_kind y = EXPR_VALUE_BOOL" "emitted s (instruction combine t 0 t (Suc t)) u"
    and op: "jump = QVM_OP_JMP_FALSE \<and> combine = QVM_OP_BAND \<or> jump = QVM_OP_JMP_TRUE \<and> combine = QVM_OP_BOR"
    and v: "output_ok v" "ops_of v = ops_of u" "xp_max_register v = xp_max_register u"
      "code_of v = (code_of u)[length (code_of q) := (code_of u ! length (code_of q))\<lparr>qi_arg := length (code_of u)\<rparr>]"
  shows "node_typed env p t (x\<lparr>en_kind := EXPR_VALUE_BOOL\<rparr>) v"
proof -
  obtain code ops where q: "output_ok q" "en_reg x = t" "t < xe_registers env" "t < xp_max_register q"
    "xp_max_register p \<le> xp_max_register q" "xp_max_register q \<le> max (xp_max_register p) (xe_registers env)"
    "code_of q = code_of p @ code" "ops_of q = ops_of p @ ops"
    "frag (operand_typed env) (ops_of q) (length (code_of p)) t (en_kind x) code"
    "\<forall>c\<in>set code. qi_dst c < xp_max_register q"
    using assms(1) by (rule node_typedE)
  obtain code' ops' where s: "output_ok s" "en_reg y = Suc t" "Suc t < xe_registers env" "Suc t < xp_max_register s"
    "xp_max_register r \<le> xp_max_register s" "xp_max_register s \<le> max (xp_max_register r) (xe_registers env)"
    "code_of s = code_of r @ code'" "ops_of s = ops_of r @ ops'"
    "frag (operand_typed env) (ops_of s) (length (code_of r)) (Suc t) (en_kind y) code'"
    "\<forall>c\<in>set code'. qi_dst c < xp_max_register s"
    using assms(4) by (rule node_typedE)
  note r = assms(3)[unfolded emitted_def] and u = assms(6)[unfolded emitted_def]
  have left: "frag (operand_typed env) (ops_of v) (length (code_of p)) t EXPR_VALUE_BOOL code"
    using frag_more_operands [OF q(9), of ops'] s(8) r u v(2) assms(2) by simp
  have right: "frag (operand_typed env) (ops_of v) (Suc (length (code_of p) + length code)) (Suc t) EXPR_VALUE_BOOL code'"
    using s(9) r u v(2) q(7) assms(5) by simp
  let ?jump = "instruction jump 0 (Suc (Suc (length (code_of p) + length code + length code'))) t 0"
  let ?code = "code @ ?jump # code' @ [instruction combine t 0 t (Suc t)]"
  have "code_of v = code_of p @ ?code"
    unfolding v(4) using q(7) r s(7) u by (simp add: instruction_def list_update_append nth_append)
  moreover have "frag (operand_typed env) (ops_of v) (length (code_of p)) t EXPR_VALUE_BOOL ?code"
    by (rule frag.logical [OF left right op])
  ultimately show ?thesis using q s r u v
    by (auto simp: node_typed_def instruction_def intro!: exI [of _ ?code])
qed

lemma typed_logical_loop:
  assumes env: "xe_emit env" "xe_registers env \<le> 65535" and f: "typed_parser env f"
    and op: "jump = QVM_OP_JMP_FALSE \<and> combine = QVM_OP_BAND \<or> jump = QVM_OP_JMP_TRUE \<and> combine = QVM_OP_BOR"
  shows "node_typed env p t x q \<Longrightarrow>
    gives (node_typed env p t) (logical_loop fuel env operation jump combine f t x q)"
proof (induction fuel arbitrary: x q)
  case (Suc fuel)
  note ok = node_typed_ok [OF Suc.prems]
  let ?index = "xp_instruction_count q"
  have index: "?index = length (code_of q)" by (rule length_code_of [OF ok, symmetric])
  have finish: "gives (node_typed env p t) (pbind (emit_instruction env combine t 0 t (Suc t) s) (\<lambda>_ p.
      pbind (patch_jump env ?index p) (\<lambda>_ p.
        logical_loop fuel env operation jump combine f t (x\<lparr>en_kind := EXPR_VALUE_BOOL\<rparr>) p)))"
    if x: "en_kind x = EXPR_VALUE_BOOL" and r: "emitted q (instruction jump 0 0 t 0) r"
      and y: "node_typed env r (Suc t) y s" "en_kind y = EXPR_VALUE_BOOL" for r s y
  proof (rule gives_bind [OF gives_emit [OF env(1) node_typed_ok [OF y(1)]]])
    fix z u
    assume u: "emitted s (instruction combine t 0 t (Suc t)) u"
    have "code_of r = code_of q @ [instruction jump 0 0 t 0]" using r by (simp add: emitted_def)
    then have "?index < length (code_of u)"
      using y(1) u by (auto simp: index emitted_def node_typed_def)
    moreover have "output_ok u" using u by (simp add: emitted_def)
    ultimately show "gives (node_typed env p t) (pbind (patch_jump env ?index u) (\<lambda>_ p.
        logical_loop fuel env operation jump combine f t (x\<lparr>en_kind := EXPR_VALUE_BOOL\<rparr>) p))"
      by (intro gives_bind [OF gives_patch_jump [OF env(1)]] Suc.IH typed_logical_operator [OF Suc.prems x r y u op])
        (simp_all add: index)
  qed
  have right: "gives (node_typed env p t) (pbind (f (next_register t) (parser_next env r)) (\<lambda>right s.
      if en_kind right \<noteq> EXPR_VALUE_BOOL then fail_here SCXML_EXPR_TYPE_MISMATCH s
      else pbind (emit_instruction env combine t 0 t (en_reg right) s) (\<lambda>_ p.
        pbind (patch_jump env ?index p) (\<lambda>_ p.
          logical_loop fuel env operation jump combine f t (x\<lparr>en_kind := EXPR_VALUE_BOOL\<rparr>) p))))"
    if x: "en_kind x = EXPR_VALUE_BOOL" and r: "emitted q (instruction jump 0 0 t 0) r" for r
  proof (rule gives_bind)
    show "gives (\<lambda>y s. node_typed env r (Suc t) y s) (f (next_register t) (parser_next env r))"
      unfolding next_register_Suc [OF Suc.prems env(2)]
      using r by (intro typed_parserD [OF f]) (simp_all add: emitted_def)
    fix y s
    assume y: "node_typed env r (Suc t) y s"
    show "gives (node_typed env p t) (if en_kind y \<noteq> EXPR_VALUE_BOOL then fail_here SCXML_EXPR_TYPE_MISMATCH s
      else pbind (emit_instruction env combine t 0 t (en_reg y) s) (\<lambda>_ p.
        pbind (patch_jump env ?index p) (\<lambda>_ p.
          logical_loop fuel env operation jump combine f t (x\<lparr>en_kind := EXPR_VALUE_BOOL\<rparr>) p)))"
      using finish [OF x r y] node_typed_reg [OF y] by simp
  qed
  show ?case
  proof (cases "tok q = operation \<and> en_kind x = EXPR_VALUE_BOOL")
    case True
    have "gives (node_typed env p t) (pbind (emit_instruction env jump 0 0 t 0 q) (\<lambda>_ p.
        pbind (f (next_register t) (parser_next env p)) (\<lambda>right s.
          if en_kind right \<noteq> EXPR_VALUE_BOOL then fail_here SCXML_EXPR_TYPE_MISMATCH s
          else pbind (emit_instruction env combine t 0 t (en_reg right) s) (\<lambda>_ p.
            pbind (patch_jump env ?index p) (\<lambda>_ p.
              logical_loop fuel env operation jump combine f t (x\<lparr>en_kind := EXPR_VALUE_BOOL\<rparr>) p)))))"
      using True by (intro gives_bind [OF gives_emit [OF env(1) ok]] right) simp_all
    with True show ?thesis by (simp add: Let_def)
  qed (use Suc.prems in auto)
qed (simp add: gives_def)

lemma typed_logical_level:
  assumes "xe_emit env" "xe_registers env \<le> 65535" "typed_parser env f"
    and "jump = QVM_OP_JMP_FALSE \<and> combine = QVM_OP_BAND \<or> jump = QVM_OP_JMP_TRUE \<and> combine = QVM_OP_BOR"
  shows "typed_parser env (\<lambda>t p. pbind (f t p) (logical_loop fuel env operation jump combine f t))"
  unfolding typed_parser_def
  by (auto intro!: gives_bind [OF typed_parserD [OF assms(3)]] typed_logical_loop [OF assms])

lemma typed_parse_and:
  assumes "xe_emit env" "xe_registers env \<le> 65535" "typed_parser env f"
  shows "typed_parser env (parse_and fuel env f)"
proof -
  have "parse_and fuel env f = (\<lambda>t p. pbind (parse_compare fuel env f t p)
      (logical_loop fuel env EXPR_TOKEN_AND QVM_OP_JMP_FALSE QVM_OP_BAND (parse_compare fuel env f) t))"
    by (intro ext) (simp add: parse_and_def)
  then show ?thesis by (simp add: typed_logical_level typed_parse_compare assms)
qed

lemma typed_parse_or:
  assumes "xe_emit env" "xe_registers env \<le> 65535"
  shows "typed_parser env (parse_or fuel env)"
proof (induction fuel)
  case (Suc fuel)
  have "parse_or (Suc fuel) env = (\<lambda>t p. pbind (parse_and (Suc fuel) env (parse_or fuel env) t p)
      (logical_loop (Suc fuel) env EXPR_TOKEN_OR QVM_OP_JMP_TRUE QVM_OP_BOR (parse_and (Suc fuel) env (parse_or fuel env)) t))"
    by (intro ext) simp
  then show ?case by (simp add: typed_logical_level typed_parse_and assms Suc)
qed (simp add: typed_parser_def gives_def)

text \<open>A whole run of the emitting parser.\<close>

lemma typed_parser_run:
  assumes "xe_emit env" "xe_registers env \<le> 65535" "parser_run env b (parser_init n m) = Done kind q"
  shows "output_ok q \<and> frag (operand_typed env) (ops_of q) 0 0 kind (code_of q) \<and>
    0 < xp_max_register q \<and> xp_max_register q \<le> xe_registers env \<and> (\<forall>c\<in>set (code_of q). qi_dst c < xp_max_register q)"
proof -
  have ok: "output_ok (parser_init n m)" by (simp add: output_ok_def parser_init_def)
  obtain x where run: "parse_or (parser_fuel env) env 0 (parser_next env (parser_init n m)) = Done x q" "kind = en_kind x"
    using assms(3)
    by (cases "parse_or (parser_fuel env) env 0 (parser_next env (parser_init n m))")
      (auto simp: parser_run_def Let_def fail_here_def split: if_splits)
  have "gives (node_typed env (parser_init n m) 0) (parse_or (parser_fuel env) env 0 (parser_next env (parser_init n m)))"
    by (rule typed_parserD [OF typed_parse_or [OF assms(1,2)] ok]) simp
  then have x: "node_typed env (parser_init n m) 0 x q" by (simp add: gives_def run(1))
  have "code_of (parser_init n m) = []" "ops_of (parser_init n m) = []" "xp_max_register (parser_init n m) = 0"
    by (simp_all add: parser_init_def code_of_def ops_of_def)
  with x run(2) show ?thesis by (auto simp: node_typed_def)
qed

end
