(* ===== verification/Expr_Parser_Ends.thy ===== *)
theory Expr_Parser_Ends
  imports Expr_Parser
begin

text \<open>
  The parser always ends: every step keeps the cursor within the source and no step
  moves it back, each recursion and each iteration of a loop consumes a token, so
  the fuel of \<^theory_text>\<open>parser_run\<close> is never used up. The admitting run writes nothing and
  fails only with the statuses of a bad expression.
\<close>

section \<open>Triples\<close>

text \<open>
  A result that satisfies \<^theory_text>\<open>Q\<close> if it is one, is never out of fuel, and has the
  outcomes of memory and of a broken invariant only when emitting.
\<close>

definition ends :: "expr_env \<Rightarrow> ('a \<Rightarrow> expr_parser \<Rightarrow> bool) \<Rightarrow> 'a parse \<Rightarrow> bool" where
  "ends env Q r = (case r of
       Done x p \<Rightarrow> Q x p
     | Failed status offset \<Rightarrow> xe_emit env \<or> status \<noteq> SCXML_EXPR_EVALUATION_ERROR
     | Wild \<Rightarrow> xe_emit env
     | No_Fuel \<Rightarrow> False)"

lemma ends_simps [simp]:
  "ends env Q (Done x p) = Q x p"
  "ends env Q (Failed status offset) = (xe_emit env \<or> status \<noteq> SCXML_EXPR_EVALUATION_ERROR)"
  "ends env Q Wild = xe_emit env"
  "ends env Q No_Fuel = False"
  "ends env Q (fail_here status p) = (xe_emit env \<or> status \<noteq> SCXML_EXPR_EVALUATION_ERROR)"
  by (simp_all add: ends_def fail_here_def)

lemma ends_bind: "ends env R r \<Longrightarrow> (\<And>x p. R x p \<Longrightarrow> ends env Q (k x p)) \<Longrightarrow> ends env Q (pbind r k)"
  by (cases r) auto

lemma ends_mono: "(\<And>x p. Q x p \<Longrightarrow> R x p) \<Longrightarrow> ends env Q r \<Longrightarrow> ends env R r"
  by (cases r) auto

text \<open>The tokens that are left: none at the end, else the bytes after the cursor and the token.\<close>

definition left_over :: "expr_env \<Rightarrow> expr_parser \<Rightarrow> nat" where
  "left_over env p = (if tok p = EXPR_TOKEN_END then 0 else Suc (length (xe_source env) - xp_cursor p))"

definition below :: "expr_env \<Rightarrow> nat \<Rightarrow> expr_parser \<Rightarrow> bool" where
  "below env n p \<longleftrightarrow> xp_cursor p \<le> length (xe_source env) \<and>
     (tok p = EXPR_TOKEN_END \<longrightarrow> xp_cursor p = length (xe_source env)) \<and> left_over env p \<le> n"

lemma below_mono: "below env m p \<Longrightarrow> m \<le> n \<Longrightarrow> below env n p"
  by (auto simp: below_def)

lemma next_token_end:
  "next_token source cursor = (token, c) \<Longrightarrow> et_kind token = EXPR_TOKEN_END \<Longrightarrow> cursor \<le> length source \<Longrightarrow>
     c = length source"
  using scan_while_le [of cursor source expr_space] operator_token_size
  by (fastforce simp: next_token_def string_token_def char_at_def Let_def split: if_splits prod.splits option.splits)

lemma parser_next_below:
  assumes "below env n p"
  shows "below env n (parser_next env p)"
    and "tok p \<noteq> EXPR_TOKEN_END \<Longrightarrow> below env (n - 1) (parser_next env p)"
    and "tok p \<noteq> EXPR_TOKEN_END \<Longrightarrow> 0 < n"
proof -
  obtain token c where nt: "next_token (xe_source env) (xp_cursor p) = (token, c)" by fastforce
  have le: "xp_cursor p \<le> length (xe_source env)" using assms by (simp add: below_def)
  note progress = next_token_progress [OF le nt]
  have stay: "tok p = EXPR_TOKEN_END \<Longrightarrow> et_kind token = EXPR_TOKEN_END"
    using assms progress(2,4) by (auto simp: below_def)
  show "below env n (parser_next env p)"
    using assms nt progress next_token_end [OF nt _ le] stay
    by (fastforce simp: below_def left_over_def parser_next_def split: if_splits)
  show "below env (n - 1) (parser_next env p)" if "tok p \<noteq> EXPR_TOKEN_END"
    using assms nt progress next_token_end [OF nt _ le] that
    by (fastforce simp: below_def left_over_def parser_next_def split: if_splits)
  show "0 < n" if "tok p \<noteq> EXPR_TOKEN_END" using assms that by (simp add: below_def left_over_def)
qed

lemma below_upd [simp]:
  "below env n (p\<lparr>xp_instructions := a\<rparr>) = below env n p"
  "below env n (p\<lparr>xp_operands := b\<rparr>) = below env n p"
  "below env n (p\<lparr>xp_instruction_count := i\<rparr>) = below env n p"
  "below env n (p\<lparr>xp_operand_count := i\<rparr>) = below env n p"
  "below env n (p\<lparr>xp_literal_bytes := i\<rparr>) = below env n p"
  "below env n (p\<lparr>xp_retained := i\<rparr>) = below env n p"
  "below env n (p\<lparr>xp_storage_index := i\<rparr>) = below env n p"
  "below env n (p\<lparr>xp_depth := i\<rparr>) = below env n p"
  "below env n (p\<lparr>xp_max_register := i\<rparr>) = below env n p"
  "below env n (leave_depth p) = below env n p"
  by (simp_all add: below_def left_over_def leave_depth_def)

section \<open>The steps\<close>

text \<open>Every step, started within \<^theory_text>\<open>n\<close>, ends within \<^theory_text>\<open>n\<close>.\<close>

named_theorems ends_intros

lemma ends_add_literal_bytes [ends_intros]:
  "below env n p \<Longrightarrow> ends env (\<lambda>_. below env n) (add_literal_bytes env c p)"
  by (simp add: add_literal_bytes_def)

lemma ends_retain_string [ends_intros]:
  "below env n p \<Longrightarrow> ends env (\<lambda>_. below env n) (retain_string env offset c p)"
  by (auto simp: retain_string_def intro!: ends_bind [OF ends_add_literal_bytes])

lemma ends_emit_instruction [ends_intros]:
  "below env n p \<Longrightarrow> ends env (\<lambda>_. below env n) (emit_instruction env op d a s1 s2 p)"
  by (simp add: emit_instruction_def Let_def)

lemma ends_add_operand [ends_intros]:
  "below env n p \<Longrightarrow> ends env (\<lambda>_. below env n) (add_operand env operand p)"
  by (simp add: add_operand_def Let_def)

lemma ends_allow [ends_intros]:
  "below env n p \<Longrightarrow> ends env (\<lambda>_. below env n) (allow_system_operand env kind offset p)"
  by (simp add: allow_system_operand_def)

lemma ends_load_operand [ends_intros]:
  "below env n p \<Longrightarrow> ends env (\<lambda>_. below env n) (load_operand env op target operand p)"
  by (auto simp: load_operand_def intro!: ends_bind [OF ends_add_operand] ends_bind [OF ends_emit_instruction])

lemma ends_unresolved_loop [ends_intros]:
  "below env n p \<Longrightarrow> ends env (\<lambda>_. below env n) (unresolved_loop depth env path_end p)"
  by (induction depth env path_end p rule: unresolved_loop.induct) (auto simp: Let_def parser_next_below(1))

lemma ends_parse_unresolved [ends_intros]:
  "below env n p \<Longrightarrow> ends env (\<lambda>_. below env n) (parse_unresolved_location env target path_begin depth p)"
  unfolding parse_unresolved_location_def
  by (intro ends_bind [OF ends_unresolved_loop])
    (auto intro!: ends_bind [OF ends_retain_string] ends_load_operand)

lemma ends_unknown_location [ends_intros]:
  "below env n p \<Longrightarrow> ends env (\<lambda>_. below env n) (unknown_location env m target path_begin depth p)"
  by (simp add: unknown_location_def ends_parse_unresolved)

lemma ends_load_location [ends_intros]:
  "below env n p \<Longrightarrow> ends env (\<lambda>_. below env n) (load_location env kind target desc slot rf offset p)"
  by (auto simp: load_location_def ends_load_operand split: option.splits)

lemma ends_supplemental_loop [ends_intros]:
  "below env n p \<Longrightarrow>
     ends env (\<lambda>_. below env n) (supplemental_loop depth env target slot whole path_begin desc offset p)"
proof (induction depth arbitrary: desc offset p)
  case 0
  then show ?case by (subst supplemental_loop.simps) (auto intro: ends_load_location)
next
  case (Suc depth)
  show ?case
    using Suc.prems
    by (subst supplemental_loop.simps)
      (auto simp: Let_def parser_next_below(1) split: option.splits
         intro!: ends_load_location ends_unknown_location Suc.IH)
qed

lemma ends_location_loop [ends_intros]:
  "below env n p \<Longrightarrow>
     ends env (\<lambda>_. below env n) (location_loop depth env kind target path_begin desc offset first p)"
proof (induction depth arbitrary: desc offset first p)
  case (Suc depth)
  show ?case
    using Suc.prems
    by (auto simp: Let_def parser_next_below(1) split: option.splits
       intro!: ends_load_location ends_unknown_location ends_supplemental_loop Suc.IH)
qed simp

lemma ends_event_path_loop [ends_intros]:
  "below env n p \<Longrightarrow> ends env (\<lambda>_. below env n) (event_path_loop depth env path_end p)"
proof (induction depth arbitrary: path_end p)
  case 0
  then show ?case by (subst event_path_loop.simps) auto
next
  case (Suc depth)
  show ?case
    using Suc.prems
    by (subst event_path_loop.simps) (auto simp: Let_def parser_next_below(1) intro!: Suc.IH)
qed

lemma ends_parse_event_data [ends_intros]:
  "below env n p \<Longrightarrow> ends env (\<lambda>_. below env n) (parse_event_data_location env target p)"
  unfolding parse_event_data_location_def Let_def
  by (intro ends_bind [OF ends_event_path_loop])
    (auto split: option.splits intro!: ends_bind [OF ends_retain_string] ends_load_operand)

lemma ends_parse_number [ends_intros]:
  "below env n p \<Longrightarrow> ends env (\<lambda>_. below env n) (parse_number_operand env p)"
  by (auto simp: parse_number_operand_def Let_def split: prod.splits intro!: ends_bind [OF ends_add_literal_bytes])

lemma location_property_end_bounds:
  assumes "location_property_end source scan = Some e"
  shows "scan < e" and "e \<le> length source"
proof -
  define offset where "offset = scan_while expr_space source (scan + 1)"
  have e: "e = offset + length ''location''"
    and loc: "take (length ''location'') (drop offset source) = ''location''"
    using assms unfolding location_property_end_def offset_def [symmetric] Let_def
    by (auto split: if_splits)
  have "length (take (length ''location'') (drop offset source)) = length ''location''" by (simp only: loc)
  then show "e \<le> length source" using e by simp
  show "scan < e" using e scan_while_ge [of "scan + 1" expr_space source] by (simp add: offset_def)
qed

lemma select_ioprocessor_end:
  "select_ioprocessor source first scan n selected = Some (k, e) \<Longrightarrow>
     selected = Some (k, e) \<or> scan < e \<and> e \<le> length source"
  by (induction source first scan n selected rule: select_ioprocessor.induct)
    (fastforce split: if_splits option.splits dest: location_property_end_bounds)+

lemma ends_retain_ioprocessor [ends_intros]:
  assumes "below env n p" "tok p \<noteq> EXPR_TOKEN_END"
  shows "ends env (\<lambda>_. below env n) (retain_ioprocessor_name env p)"
proof -
  have jump: "below env n (q\<lparr>xp_cursor := e\<rparr>)"
    if "below env n q" "tok q \<noteq> EXPR_TOKEN_END" "xp_cursor q \<le> e" "e \<le> length (xe_source env)" for q e
    using that by (auto simp: below_def left_over_def)
  have keep: "ends env (\<lambda>_ q. below env n q \<and> xp_cursor q = xp_cursor p \<and> xp_token q = xp_token p)
      (retain_string env offset c p)" for offset c
    using assms by (auto simp: retain_string_def add_literal_bytes_def intro!: ends_bind
      [where R = "\<lambda>_ q. below env n q \<and> xp_cursor q = xp_cursor p \<and> xp_token q = xp_token p"])
  define first where "first = scan_while expr_space (xe_source env) (xp_cursor p)"
  have first: "xp_cursor p \<le> first" by (simp add: first_def scan_while_ge)
  show ?thesis
    unfolding retain_ioprocessor_name_def Let_def first_def [symmetric]
    using assms(2) first select_ioprocessor_end [of "xe_source env" first first _ None]
    by (fastforce split: option.splits intro!: ends_bind [OF keep] parser_next_below(1) jump)
qed

lemma ends_bound_operand [ends_intros]:
  "below env n p \<Longrightarrow> ends env (\<lambda>_. below env n) (bound_operand env kind p)"
  by (auto simp: bound_operand_def Let_def parser_next_below(1) split: option.splits)

lemma ends_state_operand [ends_intros]:
  "below env n p \<Longrightarrow> ends env (\<lambda>_. below env n) (state_operand env offset c p)"
  by (auto simp: state_operand_def split: option.splits)

lemma ends_primary_number [ends_intros]:
  "below env n p \<Longrightarrow> ends env (\<lambda>_. below env n) (primary_number env target p)"
  by (auto simp: primary_number_def
    intro!: parser_next_below(1) ends_bind [OF ends_parse_number [where n = n]] ends_bind [OF ends_load_operand [where n = n]])

lemma ends_primary_string [ends_intros]:
  "below env n p \<Longrightarrow> ends env (\<lambda>_. below env n) (primary_string env target p)"
  by (auto simp: primary_string_def
    intro!: parser_next_below(1) ends_bind [OF ends_retain_string [where n = n]] ends_bind [OF ends_load_operand [where n = n]])

lemma ends_primary_bool [ends_intros]:
  "below env n p \<Longrightarrow> ends env (\<lambda>_. below env n) (primary_bool env target p)"
  by (auto simp: primary_bool_def Let_def intro!: parser_next_below(1) ends_bind [OF ends_emit_instruction [where n = n]])

lemma ends_primary_name [ends_intros]:
  "below env n p \<Longrightarrow> ends env (\<lambda>_. below env n) (primary_name env target p)"
  by (auto simp: primary_name_def Let_def
    intro!: parser_next_below(1) ends_bind [OF ends_allow [where n = n]] ends_load_operand)

lemma ends_primary_is_bound [ends_intros]:
  "below env n p \<Longrightarrow> ends env (\<lambda>_. below env n) (primary_is_bound env target p)"
  by (auto simp: primary_is_bound_def Let_def split: option.splits
    intro!: parser_next_below(1) ends_bind [OF ends_bound_operand [where n = n]] ends_bind [OF ends_allow [where n = n]] ends_load_operand)

lemma ends_primary_event [ends_intros]:
  "below env n p \<Longrightarrow> ends env (\<lambda>_. below env n) (primary_event env target p)"
  by (auto simp: primary_event_def Let_def split: option.splits
    intro!: parser_next_below(1) ends_bind [OF ends_allow [where n = n]] ends_load_operand ends_parse_event_data)

lemma ends_primary_ioprocessors [ends_intros]:
  "below env n p \<Longrightarrow> ends env (\<lambda>_. below env n) (primary_ioprocessors env target p)"
  by (auto simp: primary_ioprocessors_def Let_def
    intro!: parser_next_below(1) ends_bind [OF ends_allow [where n = n]] ends_bind [OF ends_retain_ioprocessor [where n = n]] ends_load_operand)

lemma ends_primary_in [ends_intros]:
  "below env n p \<Longrightarrow> ends env (\<lambda>_. below env n) (primary_in env target p)"
  by (auto simp: primary_in_def Let_def
    intro!: parser_next_below(1) ends_bind [OF ends_add_literal_bytes [where n = n]] ends_bind [OF ends_state_operand [where n = n]] ends_load_operand)

lemma ends_primary_ident [ends_intros]:
  "below env n p \<Longrightarrow> ends env (\<lambda>_. below env n) (primary_ident env target p)"
  by (simp add: primary_ident_def Let_def parse_location_def ends_intros)

section \<open>The recursion\<close>

text \<open>A parser that ends from every state within less than \<^theory_text>\<open>n\<close>.\<close>

definition ends_within :: "expr_env \<Rightarrow> nat \<Rightarrow> (nat \<Rightarrow> expr_parser \<Rightarrow> 'a parse) \<Rightarrow> bool" where
  "ends_within env n f \<longleftrightarrow>
     (\<forall>m target p. m < n \<longrightarrow> below env m p \<longrightarrow> ends env (\<lambda>_. below env m) (f target p))"

lemma ends_withinD:
  "ends_within env n f \<Longrightarrow> below env m p \<Longrightarrow> m < n \<Longrightarrow> ends env (\<lambda>_. below env m) (f target p)"
  by (simp add: ends_within_def)

lemma ends_parse_primary:
  assumes "ends_within env n f" "below env n p"
  shows "ends env (\<lambda>_. below env n) (parse_primary env f target p)"
proof -
  have "ends env (\<lambda>_. below env n) (primary_group env f target p)" if "tok p = EXPR_TOKEN_LPAREN"
  proof -
    have "ends env (\<lambda>_. below env (n - 1)) (f target (parser_next env p))"
      using assms that parser_next_below(3) [OF assms(2)] by (intro ends_withinD [OF assms(1)] parser_next_below(2)) auto
    then show ?thesis unfolding primary_group_def
      by (rule ends_bind) (auto intro: parser_next_below(1) below_mono)
  qed
  then show ?thesis using assms(2) by (simp add: parse_primary_def ends_intros)
qed

lemma ends_int_min_literal:
  "below env n p \<Longrightarrow> ends env (\<lambda>_. below env n) (int_min_literal env target p)"
  by (auto simp: int_min_literal_def parser_next_below(1)
    intro!: ends_bind [OF ends_add_literal_bytes] ends_bind [OF ends_load_operand])

lemma ends_finish_unary:
  "below env n p \<Longrightarrow> ends env (\<lambda>_. below env n) (finish_unary env operation target out p)"
  by (auto simp: finish_unary_def intro!: ends_bind [OF ends_emit_instruction])

lemma ends_parse_unary:
  assumes "ends_within env n f" "below env n p" "n < fuel"
  shows "ends env (\<lambda>_. below env n) (parse_unary fuel env f target p)"
  using assms
proof (induction fuel arbitrary: n target p)
  case (Suc fuel)
  have again: "ends env (\<lambda>_. below env n) (parse_unary fuel env f target (parser_next env p))"
    if p: "below env n p" "tok p \<noteq> EXPR_TOKEN_END" for p
  proof -
    have "n - 1 < fuel" using Suc.prems(3) parser_next_below(3) [OF p] by simp
    moreover have "ends_within env (n - 1) f" using Suc.prems(1) by (auto simp: ends_within_def)
    ultimately have "ends env (\<lambda>_. below env (n - 1)) (parse_unary fuel env f target (parser_next env p))"
      using p by (intro Suc.IH parser_next_below(2)) auto
    then show ?thesis by (rule ends_mono [rotated]) (auto intro: below_mono)
  qed
  show ?case
    using Suc.prems by (auto simp: Let_def parser_next_below(1)
      intro!: ends_bind [OF again] ends_bind [OF ends_parse_primary [OF Suc.prems(1)]]
        ends_int_min_literal ends_finish_unary)
qed simp

lemma ends_arithmetic_loop:
  assumes f: "ends_within env n f" and p: "below env n p" and fuel: "n < fuel"
    and op: "opcode EXPR_TOKEN_END = None"
  shows "ends env (\<lambda>_. below env n) (arithmetic_loop fuel env opcode f target out p)"
  using f p fuel
proof (induction fuel arbitrary: n out p)
  case (Suc fuel)
  show ?case
  proof (cases "opcode (tok p)")
    case (Some x)
    then have tok: "tok p \<noteq> EXPR_TOKEN_END" using op by auto
    have first: "ends env (\<lambda>_. below env (n - 1)) (f (next_register target) (parser_next env p))"
      using Suc.prems tok parser_next_below(3) [OF Suc.prems(2)] by (intro ends_withinD [OF Suc.prems(1)] parser_next_below(2)) auto
    have rest: "ends env (\<lambda>_. below env n) (arithmetic_loop fuel env opcode f target out q)"
      if "below env (n - 1) q" for q out
    proof -
      have "n - 1 < fuel" using Suc.prems(3) parser_next_below(3) [OF Suc.prems(2) tok] by simp
      moreover have "ends_within env (n - 1) f" using Suc.prems(1) by (auto simp: ends_within_def)
      ultimately have "ends env (\<lambda>_. below env (n - 1)) (arithmetic_loop fuel env opcode f target out q)"
        using that by (intro Suc.IH) auto
      then show ?thesis by (rule ends_mono [rotated]) (auto intro: below_mono)
    qed
    show ?thesis using Some
      by (auto simp: Let_def split: option.splits intro!: ends_bind [OF first] ends_bind [OF ends_emit_instruction] rest)
  qed (use Suc.prems in simp)
qed simp

lemma opcode_end [simp]:
  "multiplicative_opcode EXPR_TOKEN_END = None" "additive_opcode EXPR_TOKEN_END = None"
  "comparison_code EXPR_TOKEN_END = None"
  by (simp_all add: multiplicative_opcode_def additive_opcode_def comparison_code_def)

lemma ends_within_mono: "ends_within env n f \<Longrightarrow> m \<le> n \<Longrightarrow> ends_within env m f"
  by (auto simp: ends_within_def)

lemma ends_within_unary:
  assumes "ends_within env n f" "n < fuel"
  shows "ends_within env (Suc n) (parse_unary fuel env f)"
  unfolding ends_within_def using assms
  by (auto intro!: ends_parse_unary elim: ends_within_mono)

text \<open>A level of binary operators: its operand, then the loop.\<close>

lemma ends_within_level:
  assumes f: "ends_within env (Suc n) f" and "n < fuel" and op: "opcode EXPR_TOKEN_END = None"
  shows "ends_within env (Suc n) (\<lambda>target p. pbind (f target p) (arithmetic_loop fuel env opcode f target))"
  unfolding ends_within_def
proof (intro allI impI)
  fix m target p
  assume m: "m < Suc n" "below env m p"
  have f': "ends_within env m f" by (rule ends_within_mono [OF f]) (use m(1) in simp)
  show "ends env (\<lambda>_. below env m) (pbind (f target p) (arithmetic_loop fuel env opcode f target))"
    using m assms(2) by (intro ends_bind [OF ends_withinD [OF f m(2,1)]] ends_arithmetic_loop [where n = m and opcode = opcode and f = f, OF f' _ _ op]) auto
qed

lemma ends_within_multiplicative:
  "ends_within env n f \<Longrightarrow> n < fuel \<Longrightarrow> ends_within env (Suc n) (parse_multiplicative fuel env f)"
  unfolding parse_multiplicative_def by (intro ends_within_level ends_within_unary) simp_all

lemma ends_within_additive:
  "ends_within env n f \<Longrightarrow> n < fuel \<Longrightarrow> ends_within env (Suc n) (parse_additive fuel env f)"
  unfolding parse_additive_def by (intro ends_within_level ends_within_multiplicative) simp_all

lemma ends_within_compare:
  assumes "ends_within env n f" "n < fuel"
  shows "ends_within env (Suc n) (parse_compare fuel env f)"
  unfolding ends_within_def
proof (intro allI impI)
  fix m target p
  assume m: "m < Suc n" "below env m p"
  note additive = ends_withinD [OF ends_within_additive [OF assms] _ m(1)]
  show "ends env (\<lambda>_. below env m) (parse_compare fuel env f target p)"
    unfolding parse_compare_def
    by (rule ends_bind [OF additive [OF m(2)]])
      (auto simp: Let_def split: option.splits
        intro!: ends_bind [OF additive] ends_bind [OF ends_emit_instruction [where n = m]] parser_next_below(1))
qed

lemma ends_patch_jump: "below env n p \<Longrightarrow> ends env (\<lambda>_. below env n) (patch_jump env index p)"
  by (simp add: patch_jump_def)

lemma ends_logical_loop:
  assumes f: "ends_within env n f" and p: "below env n p" and fuel: "n < fuel"
    and op: "operation \<noteq> EXPR_TOKEN_END"
  shows "ends env (\<lambda>_. below env n) (logical_loop fuel env operation jump combine f target out p)"
  using f p fuel
proof (induction fuel arbitrary: n out p)
  case (Suc fuel)
  show ?case
  proof (cases "tok p = operation")
    case True
    then have tok: "tok p \<noteq> EXPR_TOKEN_END" using op by auto
    have emitted: "ends env (\<lambda>_ q. below env n q \<and> tok q \<noteq> EXPR_TOKEN_END) (emit_instruction env jump d a s1 s2 p)" for d a s1 s2
      using Suc.prems(2) tok by (simp add: emit_instruction_def Let_def)
    have right: "ends env (\<lambda>_. below env (n - 1)) (f (next_register target) (parser_next env q))"
      if "below env n q" "tok q \<noteq> EXPR_TOKEN_END" for q
      using that parser_next_below(3) [OF that(1)] by (intro ends_withinD [OF Suc.prems(1)] parser_next_below(2)) auto
    have rest: "ends env (\<lambda>_. below env n) (logical_loop fuel env operation jump combine f target out q)"
      if "below env (n - 1) q" for q out
    proof -
      have "n - 1 < fuel" using Suc.prems(3) parser_next_below(3) [OF Suc.prems(2) tok] by simp
      moreover have "ends_within env (n - 1) f" using Suc.prems(1) by (auto simp: ends_within_def)
      ultimately have "ends env (\<lambda>_. below env (n - 1)) (logical_loop fuel env operation jump combine f target out q)"
        using that by (intro Suc.IH) auto
      then show ?thesis by (rule ends_mono [rotated]) (auto intro: below_mono)
    qed
    show ?thesis
      by (auto simp: True Let_def intro!: ends_bind [OF emitted] ends_bind [OF right]
        ends_bind [OF ends_emit_instruction [where n = "n - 1"]] ends_bind [OF ends_patch_jump [where n = "n - 1"]] rest)
  qed (use Suc.prems in simp)
qed simp

lemma ends_within_logical:
  assumes f: "ends_within env (Suc n) f" and "n < fuel" and op: "operation \<noteq> EXPR_TOKEN_END"
  shows "ends_within env (Suc n)
    (\<lambda>target p. pbind (f target p) (logical_loop fuel env operation jump combine f target))"
  unfolding ends_within_def
proof (intro allI impI)
  fix m target p
  assume m: "m < Suc n" "below env m p"
  have f': "ends_within env m f" by (rule ends_within_mono [OF f]) (use m(1) in simp)
  show "ends env (\<lambda>_. below env m) (pbind (f target p) (logical_loop fuel env operation jump combine f target))"
    using m assms(2) by (intro ends_bind [OF ends_withinD [OF f m(2,1)]] ends_logical_loop [OF f' _ _ op]) auto
qed

lemma ends_within_and:
  "ends_within env n f \<Longrightarrow> n < fuel \<Longrightarrow> ends_within env (Suc n) (parse_and fuel env f)"
  unfolding parse_and_def by (intro ends_within_logical ends_within_compare) simp_all

lemma parse_or_eq:
  "parse_or (Suc fuel) env = (\<lambda>target p. pbind (parse_and (Suc fuel) env (parse_or fuel env) target p)
     (logical_loop (Suc fuel) env EXPR_TOKEN_OR QVM_OP_JMP_TRUE QVM_OP_BOR
        (parse_and (Suc fuel) env (parse_or fuel env)) target))"
  by (intro ext) simp

lemma ends_within_or: "n < fuel \<Longrightarrow> ends_within env (Suc n) (parse_or fuel env)"
proof (induction fuel arbitrary: n)
  case (Suc fuel)
  have "ends_within env n (parse_or fuel env)"
    using Suc.IH Suc.prems by (cases n) (auto simp: ends_within_def)
  then show ?case unfolding parse_or_eq using Suc.prems
    by (intro ends_within_logical ends_within_and) simp_all
qed simp

section \<open>A run of the parser ends\<close>

lemma ends_parser_run:
  assumes "xp_cursor p = 0"
  shows "ends env (\<lambda>_ _. True) (parser_run env require_boolean p)"
proof -
  let ?n = "Suc (length (xe_source env))"
  let ?q = "parser_next env p"
  obtain token c where nt: "next_token (xe_source env) (xp_cursor p) = (token, c)" by fastforce
  have start: "below env ?n ?q"
    using next_token_progress [OF _ nt] next_token_end [OF nt] assms nt
    by (auto simp: below_def left_over_def parser_next_def)
  have "ends env (\<lambda>_. below env ?n) (parse_or (parser_fuel env) env 0 ?q)"
    by (rule ends_withinD [OF ends_within_or [where n = ?n] start]) (simp_all add: parser_fuel_def)
  then show ?thesis
    by (auto simp: parser_run_def Let_def intro!: ends_bind [where R = "\<lambda>_. below env ?n"])
qed

end
