(* ===== verification/Expr_Parser_Runs.thy ===== *)
theory Expr_Parser_Runs
  imports Expr_Parser_Ends "HOL-Library.Code_Target_Nat"
begin

text \<open>
  The two runs of the parser agree. Whenever the admitting run succeeds, the
  emitting run on arrays of the sizes that were counted stays within them and takes
  the same steps to the same kind; only a state name that \<^verbatim>\<open>In\<close> cannot resolve stops
  it.
\<close>

section \<open>Two runs side by side\<close>

definition admitting :: "expr_env \<Rightarrow> expr_env" where
  "admitting env = env\<lparr>xe_emit := False, xe_literal_capacity := 0\<rparr>"

definition emitting :: "nat \<Rightarrow> expr_env \<Rightarrow> expr_env" where
  "emitting capacity env = env\<lparr>xe_emit := True, xe_literal_capacity := capacity\<rparr>"

lemma env_simps [simp]:
  "xe_source (admitting env) = xe_source env" "xe_source (emitting c env) = xe_source env"
  "xe_schema (admitting env) = xe_schema env" "xe_schema (emitting c env) = xe_schema env"
  "xe_root (admitting env) = xe_root env" "xe_root (emitting c env) = xe_root env"
  "xe_supplemental (admitting env) = xe_supplemental env" "xe_supplemental (emitting c env) = xe_supplemental env"
  "xe_resolve_state (emitting c env) = xe_resolve_state env"
  "xe_limits (admitting env) = xe_limits env" "xe_limits (emitting c env) = xe_limits env"
  "xe_path_policy (admitting env) = xe_path_policy env" "xe_path_policy (emitting c env) = xe_path_policy env"
  "xe_unresolved_kind (admitting env) = xe_unresolved_kind env"
  "xe_unresolved_kind (emitting c env) = xe_unresolved_kind env"
  "xe_policy (admitting env) = xe_policy env" "xe_policy (emitting c env) = xe_policy env"
  "xe_registers (admitting env) = xe_registers env" "xe_registers (emitting c env) = xe_registers env"
  "xe_underflow_erange (admitting env) = xe_underflow_erange env"
  "xe_underflow_erange (emitting c env) = xe_underflow_erange env"
  "xe_emit (admitting env) = False" "xe_emit (emitting c env) = True"
  "xe_literal_capacity (emitting c env) = c"
  by (simp_all add: admitting_def emitting_def)

text \<open>The state of the emitting run: that of the admitting one with its arrays.\<close>

definition sync :: "qvm_instruction list \<Rightarrow> expr_operand list \<Rightarrow> expr_parser \<Rightarrow> expr_parser" where
  "sync code ops p = p\<lparr>xp_instructions := code, xp_operands := ops, xp_storage_index := xp_retained p\<rparr>"

lemma sync_simps [simp]:
  "xp_cursor (sync code ops p) = xp_cursor p" "xp_token (sync code ops p) = xp_token p"
  "xp_instructions (sync code ops p) = code" "xp_operands (sync code ops p) = ops"
  "xp_instruction_count (sync code ops p) = xp_instruction_count p"
  "xp_operand_count (sync code ops p) = xp_operand_count p"
  "xp_literal_bytes (sync code ops p) = xp_literal_bytes p"
  "xp_retained (sync code ops p) = xp_retained p"
  "xp_storage_index (sync code ops p) = xp_retained p"
  "xp_depth (sync code ops p) = xp_depth p" "xp_max_register (sync code ops p) = xp_max_register p"
  "(sync code ops p)\<lparr>xp_depth := d\<rparr> = sync code ops (p\<lparr>xp_depth := d\<rparr>)"
  "(sync code ops p)\<lparr>xp_cursor := d\<rparr> = sync code ops (p\<lparr>xp_cursor := d\<rparr>)"
  "(sync code ops p)\<lparr>xp_literal_bytes := d\<rparr> = sync code ops (p\<lparr>xp_literal_bytes := d\<rparr>)"
  "leave_depth (sync code ops p) = sync code ops (leave_depth p)"
  by (simp_all add: sync_def leave_depth_def)

lemma parser_next_runs [simp]:
  "parser_next (admitting env) p = parser_next env p"
  "parser_next (emitting c env) p = parser_next env p"
  "parser_next env (sync code ops p) = sync code ops (parser_next env p)"
  by (simp_all add: parser_next_def sync_def split: prod.splits)

lemma text_runs [simp]:
  "current_text (admitting env) p = current_text env p" "current_text (emitting c env) p = current_text env p"
  "current_text env (sync code ops p) = current_text env p"
  "source_text (admitting env) i n = source_text env i n" "source_text (emitting c env) i n = source_text env i n"
  "parser_event_field_kind (admitting env) p = parser_event_field_kind env p"
  "parser_event_field_kind (emitting c env) p = parser_event_field_kind env p"
  "parser_event_field_kind env (sync code ops p) = parser_event_field_kind env p"
  "system_operand_allowed (admitting env) k = system_operand_allowed env k"
  "system_operand_allowed (emitting c env) k = system_operand_allowed env k"
  "parser_fuel (admitting env) = parser_fuel env" "parser_fuel (emitting c env) = parser_fuel env"
  by (simp_all add: current_text_def source_text_def parser_event_field_kind_def
    system_operand_allowed_def parser_fuel_def)

lemma parser_next_fields [simp]:
  "xp_instructions (parser_next env p) = xp_instructions p" "xp_operands (parser_next env p) = xp_operands p"
  "xp_instruction_count (parser_next env p) = xp_instruction_count p"
  "xp_operand_count (parser_next env p) = xp_operand_count p"
  "xp_max_register (parser_next env p) = xp_max_register p"
  by (simp_all add: parser_next_def split: prod.splits)

text \<open>What a run counts, compared by component.\<close>

definition counts :: "expr_parser \<Rightarrow> nat \<times> nat \<times> nat" where
  "counts p = (xp_instruction_count p, xp_operand_count p, xp_retained p)"

definition fits_in :: "nat \<times> nat \<times> nat \<Rightarrow> nat \<times> nat \<times> nat \<Rightarrow> bool" where
  "fits_in a b \<longleftrightarrow> fst a \<le> fst b \<and> fst (snd a) \<le> fst (snd b) \<and> snd (snd a) \<le> snd (snd b)"

lemma fits_in_refl [simp]: "fits_in a a"
  by (simp add: fits_in_def)

lemma fits_in_trans: "fits_in a b \<Longrightarrow> fits_in b c \<Longrightarrow> fits_in a c"
  by (auto simp: fits_in_def)

lemma counts_simps [simp]:
  "counts (parser_next env p) = counts p" "counts (leave_depth p) = counts p"
  "counts (p\<lparr>xp_depth := d\<rparr>) = counts p" "counts (p\<lparr>xp_cursor := d\<rparr>) = counts p"
  "counts (p\<lparr>xp_literal_bytes := d\<rparr>) = counts p"
  by (simp_all add: counts_def parser_next_def leave_depth_def split: prod.splits)

definition arrays_fit :: "nat \<times> nat \<times> nat \<Rightarrow> qvm_instruction list \<Rightarrow> expr_operand list \<Rightarrow> bool" where
  "arrays_fit room code ops \<longleftrightarrow> length code = fst room \<and> length ops = fst (snd room)"

text \<open>
  The admitting result \<^theory_text>\<open>r\<close> from counts \<^theory_text>\<open>c\<close> against the emitting result \<^theory_text>\<open>r'\<close>, with
  \<^theory_text>\<open>room\<close> in the arrays and \<^theory_text>\<open>V\<close> between the values.
\<close>

definition sim ::
  "nat \<times> nat \<times> nat \<Rightarrow> ('a \<Rightarrow> 'a \<Rightarrow> bool) \<Rightarrow> nat \<times> nat \<times> nat \<Rightarrow> 'a parse \<Rightarrow> 'a parse \<Rightarrow> bool" where
  "sim room V c r r' \<longleftrightarrow> (\<forall>x p. r = Done x p \<longrightarrow> fits_in c (counts p) \<and>
     (fits_in (counts p) room \<longrightarrow>
       (case r' of
          Done y q \<Rightarrow> V x y \<and> (\<exists>code ops. q = sync code ops p \<and> arrays_fit room code ops)
        | Failed status offset \<Rightarrow> status = SCXML_EXPR_UNKNOWN_LOCATION
        | _ \<Rightarrow> False)))"

lemma sim_failed [simp]:
  "sim room V c (Failed status offset) r'" "sim room V c (fail_here status p) r'"
  by (simp_all add: sim_def fail_here_def)

lemma sim_done [simp]:
  "sim room V (counts p) (Done x p) (Done y (sync code ops p)) \<longleftrightarrow>
     (fits_in (counts p) room \<longrightarrow> V x y \<and> arrays_fit room code ops)"
proof -
  have "sync code ops p = sync code' ops' p \<Longrightarrow> code = code' \<and> ops = ops'" for code' ops'
    by (metis sync_simps(3,4))
  then show ?thesis by (auto simp: sim_def)
qed

lemma sim_bind_grown:
  assumes "sim room V c r r'" "\<And>x. \<exists>y. V x y" "arrays_fit room code0 ops0"
    and "\<And>x y p code ops. V x y \<Longrightarrow> arrays_fit room code ops \<Longrightarrow> fits_in c (counts p) \<Longrightarrow>
      sim room V' (counts p) (k x p) (k' y (sync code ops p))"
  shows "sim room V' c (pbind r k) (pbind r' k')"
  unfolding sim_def
proof (intro allI impI conjI)
  fix z q
  assume eq: "pbind r k = Done z q"
  then obtain x p where r: "r = Done x p" and k: "k x p = Done z q" by (cases r) auto
  obtain y where y: "V x y" using assms(2) by blast
  have c: "fits_in c (counts p)" using assms(1) r by (simp add: sim_def)
  have grown: "fits_in (counts p) (counts q)"
    using assms(4) [OF y assms(3) c] k by (simp add: sim_def)
  then show "fits_in c (counts q)" using assms(1) r by (auto simp: sim_def intro: fits_in_trans)
  assume "fits_in (counts q) room"
  then have "fits_in (counts p) room" by (rule fits_in_trans [OF grown])
  then show "case pbind r' k' of
      Done y q' \<Rightarrow> V' z y \<and> (\<exists>code ops. q' = sync code ops q \<and> arrays_fit room code ops)
    | Failed status offset \<Rightarrow> status = SCXML_EXPR_UNKNOWN_LOCATION | _ \<Rightarrow> False"
    using assms(1,4) r k c \<open>fits_in (counts q) room\<close>
    by (cases r') (fastforce simp: sim_def)+
qed

lemma sim_bind:
  assumes "sim room V c r r'" "\<And>x. \<exists>y. V x y" "arrays_fit room code0 ops0"
    and "\<And>x y p code ops. V x y \<Longrightarrow> arrays_fit room code ops \<Longrightarrow>
      sim room V' (counts p) (k x p) (k' y (sync code ops p))"
  shows "sim room V' c (pbind r k) (pbind r' k')"
  by (rule sim_bind_grown [OF assms(1-3)]) (rule assms(4))

section \<open>The steps\<close>

text \<open>Values of the two runs: strings only the emitting run has, operands of the same kind.\<close>

abbreviation any_value :: "'a \<Rightarrow> 'a \<Rightarrow> bool" where
  "any_value x y \<equiv> True"

abbreviation same_kind :: "expr_operand \<Rightarrow> expr_operand \<Rightarrow> bool" where
  "same_kind x y \<equiv> eo_value_kind x = eo_value_kind y"

lemma total_values [simp]: "\<exists>y. same_kind x y" "\<exists>y. x = y"
  by auto

lemma arrays_fit_upd [simp]:
  "arrays_fit room (code[i := x]) ops = arrays_fit room code ops"
  "arrays_fit room code (ops[j := y]) = arrays_fit room code ops"
  by (simp_all add: arrays_fit_def)

lemma sim_leaf:
  assumes "fits_in c (counts p)"
    and "fits_in (counts p) room \<Longrightarrow> r' = Done y (sync code ops p) \<and> V x y \<and> arrays_fit room code ops"
  shows "sim room V c (Done x p) r'"
  using assms by (auto simp: sim_def)

named_theorems sims

lemma sim_add_literal_bytes [sims]:
  "arrays_fit room code ops \<Longrightarrow> sim room any_value (counts p)
     (add_literal_bytes (admitting env) n p) (add_literal_bytes (emitting (snd (snd room)) env) n (sync code ops p))"
  by (simp add: add_literal_bytes_def) (metis sim_done counts_simps(5))

lemma sim_retain_string [sims]:
  assumes "arrays_fit room code ops"
  shows "sim room any_value (counts p)
     (retain_string (admitting env) offset n p) (retain_string (emitting (snd (snd room)) env) offset n (sync code ops p))"
  unfolding retain_string_def
proof (rule sim_bind [OF sim_add_literal_bytes [OF assms] _ assms], goal_cases)
  case (2 x y p code ops)
  let ?p = "p\<lparr>xp_retained := xp_retained p + n\<rparr>"
  have "(sync code ops p)\<lparr>xp_storage_index := xp_retained p + n, xp_retained := xp_retained p + n\<rparr> =
      sync code ops ?p" by (simp add: sync_def)
  moreover have "\<not> snd (snd room) < xp_retained p \<and> \<not> snd (snd room) - xp_retained p < n" if "fits_in (counts ?p) room"
    using that by (auto simp: fits_in_def counts_def)
  ultimately show ?case using 2
    by (auto simp: fits_in_def counts_def intro!: sim_leaf [where code = code and ops = ops])
qed simp

lemma sim_emit_instruction [sims]:
  assumes "arrays_fit room code ops"
  shows "sim room any_value (counts p)
     (emit_instruction (admitting env) op d a s1 s2 p) (emit_instruction (emitting (snd (snd room)) env) op d a s1 s2 (sync code ops p))"
proof (cases "max_instructions (xe_limits env) \<le> xp_instruction_count p")
  case False
  let ?i = "xp_instruction_count p"
  let ?p = "p\<lparr>xp_instruction_count := ?i + 1, xp_max_register := max (d + 1) (xp_max_register p)\<rparr>"
  have "(sync code ops p)\<lparr>xp_instructions := code[?i := x], xp_instruction_count := ?i + 1,
      xp_max_register := max (d + 1) (xp_max_register p)\<rparr> = sync (code[?i := x]) ops ?p" for x
    by (simp add: sync_def)
  moreover have "?i < length code" if "fits_in (counts ?p) room"
    using that assms by (auto simp: fits_in_def counts_def arrays_fit_def)
  moreover have "emit_instruction (admitting env) op d a s1 s2 p = Done () ?p"
    using False by (simp add: emit_instruction_def Let_def)
  moreover have "fits_in (counts p) (counts ?p)" by (simp add: fits_in_def counts_def)
  ultimately show ?thesis using assms False
    by (auto simp: emit_instruction_def Let_def simp del: add_0_right add_Suc_right
      intro!: sim_leaf [where code = "code[?i := \<lparr>qi_op = op, qi_dst = d, qi_arg = a, qi_src1 = s1, qi_src2 = s2\<rparr>]"
        and ops = ops])
qed (simp add: emit_instruction_def Let_def)

lemma sim_add_operand [sims]:
  assumes "arrays_fit room code ops"
  shows "sim room (=) (counts p)
     (add_operand (admitting env) x p) (add_operand (emitting (snd (snd room)) env) y (sync code ops p))"
proof (cases "max_operands (xe_limits env) \<le> xp_operand_count p \<or> UINT32_LIMIT < xp_operand_count p")
  case False
  let ?i = "xp_operand_count p" and ?p = "p\<lparr>xp_operand_count := xp_operand_count p + 1\<rparr>"
  have "(sync code ops p)\<lparr>xp_operands := ops[?i := y], xp_operand_count := ?i + 1\<rparr> = sync code (ops[?i := y]) ?p"
    by (simp add: sync_def)
  moreover have "?i < length ops" if "fits_in (counts ?p) room"
    using that assms by (auto simp: fits_in_def counts_def arrays_fit_def)
  moreover have "add_operand (admitting env) x p = Done ?i ?p"
    using False by (simp add: add_operand_def Let_def)
  moreover have "fits_in (counts p) (counts ?p)" by (simp add: fits_in_def counts_def)
  ultimately show ?thesis using assms False
    by (auto simp: add_operand_def Let_def simp del: add_0_right add_Suc_right
      intro!: sim_leaf [where code = code and ops = "ops[?i := y]"])
qed (auto simp: add_operand_def Let_def)

lemma sim_allow [sims]:
  "arrays_fit room code ops \<Longrightarrow> sim room any_value (counts p)
     (allow_system_operand (admitting env) k i p) (allow_system_operand (emitting (snd (snd room)) env) k i (sync code ops p))"
  by (simp add: allow_system_operand_def)

lemma sim_load_operand [sims]:
  assumes "arrays_fit room code ops" "same_kind x y"
  shows "sim room (=) (counts p)
     (load_operand (admitting env) op t x p) (load_operand (emitting (snd (snd room)) env) op t y (sync code ops p))"
  unfolding load_operand_def
  by (rule sim_bind [OF sim_add_operand [OF assms(1)] _ assms(1)], simp,
      rule sim_bind [OF _ _ assms(1)], erule subst, erule sim_emit_instruction)
    (simp_all add: assms(2))

lemma sim_done_counts [simp]:
  "counts p = c \<Longrightarrow> sim room V c (Done x p) (Done y (sync code ops p)) \<longleftrightarrow>
     (fits_in c room \<longrightarrow> V x y \<and> arrays_fit room code ops)"
  using sim_done [of room V p] by blast

text \<open>The same simulation from a state that counts the same.\<close>

lemma sim_next:
  "sim room V (counts (parser_next env p)) r r' \<Longrightarrow> sim room V (counts p) r r'"
  by simp

lemma sim_unresolved_loop:
  "arrays_fit room code ops \<Longrightarrow> sim room (=) (counts p)
     (unresolved_loop depth (admitting env) e p) (unresolved_loop depth (emitting (snd (snd room)) env) e (sync code ops p))"
  by (induction depth "admitting env" e p rule: unresolved_loop.induct) (auto simp: Let_def)

lemma sim_parse_unresolved [sims]:
  assumes "arrays_fit room code ops"
  shows "sim room (=) (counts p)
     (parse_unresolved_location (admitting env) t b depth p)
     (parse_unresolved_location (emitting (snd (snd room)) env) t b depth (sync code ops p))"
  unfolding parse_unresolved_location_def
  by (rule sim_bind [OF sim_unresolved_loop [OF assms] _ assms])
    (auto simp: plain_operand_def intro!: sim_bind [OF sim_retain_string] sim_load_operand)

lemma sim_unknown_location [sims]:
  "arrays_fit room code ops \<Longrightarrow> sim room (=) (counts p)
     (unknown_location (admitting env) m t b depth p) (unknown_location (emitting (snd (snd room)) env) m t b depth (sync code ops p))"
  by (simp add: unknown_location_def sims)

lemma sim_load_location [sims]:
  "arrays_fit room code ops \<Longrightarrow> sim room (=) (counts p)
     (load_location (admitting env) k t d slot rf i p) (load_location (emitting (snd (snd room)) env) k t d slot rf i (sync code ops p))"
  by (auto simp: load_location_def split: option.splits intro!: sim_load_operand)

lemma sim_supplemental_loop [sims]:
  assumes "arrays_fit room code ops"
  shows "sim room (=) (counts p)
     (supplemental_loop depth (admitting env) t slot whole b d i p)
     (supplemental_loop depth (emitting (snd (snd room)) env) t slot whole b d i (sync code ops p))"
proof (induction depth arbitrary: d i p)
  case 0
  then show ?case using assms by (subst (1 2) supplemental_loop.simps) (simp add: sims)
next
  case (Suc depth)
  show ?case using assms
    by (subst (1 2) supplemental_loop.simps)
      (auto simp: Let_def split: option.splits intro!: sim_load_location sim_next [OF sim_unknown_location]
        sim_next [OF sim_next [OF Suc.IH]])
qed

lemma sim_location_loop [sims]:
  assumes "arrays_fit room code ops"
  shows "sim room (=) (counts p)
     (location_loop depth (admitting env) k t b d i first p)
     (location_loop depth (emitting (snd (snd room)) env) k t b d i first (sync code ops p))"
proof (induction depth arbitrary: d i first p)
  case (Suc depth)
  show ?case using assms
    by (auto simp: Let_def split: option.splits intro!: sim_next [OF sim_load_location] sim_unknown_location
        sim_next [OF sim_supplemental_loop] sim_next [OF sim_next [OF Suc.IH]])
qed simp

lemma sim_event_path_loop:
  assumes "arrays_fit room code ops"
  shows "sim room (=) (counts p)
     (event_path_loop depth (admitting env) e p)
     (event_path_loop depth (emitting (snd (snd room)) env) e (sync code ops p))"
proof (induction depth arbitrary: e p)
  case 0
  then show ?case using assms by (subst (1 2) event_path_loop.simps) simp
next
  case (Suc depth)
  show ?case using assms
    by (subst (1 2) event_path_loop.simps) (auto simp: Let_def intro!: sim_next [OF sim_next [OF Suc.IH]])
qed

lemma sim_parse_event_data [sims]:
  assumes "arrays_fit room code ops"
  shows "sim room (=) (counts p)
     (parse_event_data_location (admitting env) t p)
     (parse_event_data_location (emitting (snd (snd room)) env) t (sync code ops p))"
  unfolding parse_event_data_location_def Let_def env_simps sync_simps
  by (rule sim_bind [OF sim_event_path_loop [OF assms] _ assms])
    (auto simp: plain_operand_def split: option.splits intro!: sim_bind [OF sim_retain_string] sim_load_operand)

lemma sim_parse_number:
  assumes "arrays_fit room code ops"
  shows "sim room (=) (counts p)
     (parse_number_operand (admitting env) p)
     (parse_number_operand (emitting (snd (snd room)) env) (sync code ops p))"
  using assms by (auto simp: parse_number_operand_def Let_def split: prod.splits
    intro!: sim_bind [OF sim_add_literal_bytes])

lemma sim_retain_ioprocessor:
  assumes "arrays_fit room code ops"
  shows "sim room any_value (counts p)
     (retain_ioprocessor_name (admitting env) p)
     (retain_ioprocessor_name (emitting (snd (snd room)) env) (sync code ops p))"
proof -
  have moved: "sim room any_value (counts p) (Done x (parser_next env (p\<lparr>xp_cursor := e\<rparr>)))
      (Done y (sync code ops (parser_next env (p\<lparr>xp_cursor := e\<rparr>))))"
    if "arrays_fit room code ops" for code ops p e and x y :: string
    using that by simp
  show ?thesis unfolding retain_ioprocessor_name_def Let_def env_simps sync_simps text_runs
    using assms by (auto split: option.splits intro!: sim_bind [OF sim_retain_string] moved)
qed

lemma sim_bound_operand:
  assumes "arrays_fit room code ops"
  shows "sim room (=) (counts p)
     (bound_operand (admitting env) k p) (bound_operand (emitting (snd (snd room)) env) k (sync code ops p))"
  using assms
  by (auto simp: bound_operand_def Let_def split: option.splits)

lemma sim_state_operand:
  assumes "arrays_fit room code ops"
  shows "sim room same_kind (counts p)
     (state_operand (admitting env) i n p) (state_operand (emitting (snd (snd room)) env) i n (sync code ops p))"
  using assms by (auto simp: state_operand_def plain_operand_def sim_def split: option.splits)

section \<open>Primary expressions\<close>

lemma sim_primary_number [sims]:
  "arrays_fit room code ops \<Longrightarrow> sim room (=) (counts p)
     (primary_number (admitting env) t p) (primary_number (emitting (snd (snd room)) env) t (sync code ops p))"
  by (auto simp: primary_number_def intro!: sim_bind [OF sim_parse_number] sim_bind [OF sim_load_operand])

lemma sim_primary_string [sims]:
  "arrays_fit room code ops \<Longrightarrow> sim room (=) (counts p)
     (primary_string (admitting env) t p) (primary_string (emitting (snd (snd room)) env) t (sync code ops p))"
  by (auto simp: primary_string_def plain_operand_def
    intro!: sim_bind [OF sim_retain_string] sim_bind [OF sim_load_operand])

lemma sim_primary_bool [sims]:
  "arrays_fit room code ops \<Longrightarrow> sim room (=) (counts p)
     (primary_bool (admitting env) t p) (primary_bool (emitting (snd (snd room)) env) t (sync code ops p))"
  by (auto simp: primary_bool_def Let_def intro!: sim_bind [OF sim_next [OF sim_emit_instruction]])

lemma sim_primary_name [sims]:
  "arrays_fit room code ops \<Longrightarrow> sim room (=) (counts p)
     (primary_name (admitting env) t p) (primary_name (emitting (snd (snd room)) env) t (sync code ops p))"
  by (auto simp: primary_name_def Let_def intro!: sim_bind [OF sim_allow] sim_next [OF sim_load_operand])

lemma sim_primary_is_bound [sims]:
  "arrays_fit room code ops \<Longrightarrow> sim room (=) (counts p)
     (primary_is_bound (admitting env) t p) (primary_is_bound (emitting (snd (snd room)) env) t (sync code ops p))"
  by (auto simp: primary_is_bound_def Let_def split: option.splits
    intro!: sim_next [OF sim_next [OF sim_next [OF sim_bind [OF sim_bound_operand]]]]
      sim_bind [OF sim_allow] sim_next [OF sim_load_operand])

lemma sim_primary_event [sims]:
  "arrays_fit room code ops \<Longrightarrow> sim room (=) (counts p)
     (primary_event (admitting env) t p) (primary_event (emitting (snd (snd room)) env) t (sync code ops p))"
  by (auto simp: primary_event_def Let_def split: option.splits
    intro!: sim_next [OF sim_next [OF sim_bind [OF sim_allow]]] sim_next [OF sim_load_operand]
      sim_next [OF sim_next [OF sim_parse_event_data]])

lemma sim_primary_ioprocessors [sims]:
  "arrays_fit room code ops \<Longrightarrow> sim room (=) (counts p)
     (primary_ioprocessors (admitting env) t p)
     (primary_ioprocessors (emitting (snd (snd room)) env) t (sync code ops p))"
  by (auto simp: primary_ioprocessors_def Let_def plain_operand_def
    intro!: sim_bind [OF sim_allow] sim_next [OF sim_bind [OF sim_retain_ioprocessor]] sim_load_operand)

lemma sim_primary_in [sims]:
  "arrays_fit room code ops \<Longrightarrow> sim room (=) (counts p)
     (primary_in (admitting env) t p) (primary_in (emitting (snd (snd room)) env) t (sync code ops p))"
  by (auto simp: primary_in_def Let_def
    intro!: sim_next [OF sim_next [OF sim_bind [OF sim_add_literal_bytes]]] sim_bind [OF sim_state_operand]
      sim_next [OF sim_next [OF sim_load_operand]])

lemma sim_primary_ident [sims]:
  "arrays_fit room code ops \<Longrightarrow> sim room (=) (counts p)
     (primary_ident (admitting env) t p) (primary_ident (emitting (snd (snd room)) env) t (sync code ops p))"
  by (simp add: primary_ident_def parse_location_def Let_def sims)

section \<open>The recursion\<close>

definition sim_parsers ::
  "nat \<times> nat \<times> nat \<Rightarrow> (nat \<Rightarrow> expr_parser \<Rightarrow> expr_node parse) \<Rightarrow> (nat \<Rightarrow> expr_parser \<Rightarrow> expr_node parse) \<Rightarrow> bool" where
  "sim_parsers room f g \<longleftrightarrow> (\<forall>t p code ops. arrays_fit room code ops \<longrightarrow>
     sim room (=) (counts p) (f t p) (g t (sync code ops p)))"

lemma sim_parsersD:
  "sim_parsers room f g \<Longrightarrow> arrays_fit room code ops \<Longrightarrow> sim room (=) (counts p) (f t p) (g t (sync code ops p))"
  by (simp add: sim_parsers_def)

lemma sim_parse_primary:
  assumes f: "sim_parsers room f g" and fit: "arrays_fit room code ops"
  shows "sim room (=) (counts p) (parse_primary (admitting env) f t p)
    (parse_primary (emitting (snd (snd room)) env) g t (sync code ops p))"
proof -
  have "sim room (=) (counts p) (primary_group (admitting env) f t p)
      (primary_group (emitting (snd (snd room)) env) g t (sync code ops p))"
    using fit by (auto simp: primary_group_def intro!: sim_next [OF sim_bind [OF sim_parsersD [OF f]]])
  then show ?thesis using fit by (simp add: parse_primary_def sims)
qed

lemma sim_int_min_literal:
  "arrays_fit room code ops \<Longrightarrow> sim room (=) (counts p)
     (int_min_literal (admitting env) t p) (int_min_literal (emitting (snd (snd room)) env) t (sync code ops p))"
  by (auto simp: int_min_literal_def intro!: sim_bind [OF sim_add_literal_bytes] sim_bind [OF sim_load_operand])

lemma sim_finish_unary:
  "arrays_fit room code ops \<Longrightarrow> sim room (=) (counts p)
     (finish_unary (admitting env) operation t out p)
     (finish_unary (emitting (snd (snd room)) env) operation t out (sync code ops p))"
  by (auto simp: finish_unary_def intro!: sim_bind [OF sim_emit_instruction])

lemma sim_depth:
  "sim room V (counts (p\<lparr>xp_depth := d\<rparr>)) r r' \<Longrightarrow> sim room V (counts p) r r'"
  "sim room V (counts (leave_depth p)) r r' \<Longrightarrow> sim room V (counts p) r r'"
  by simp_all

lemma sim_parse_unary:
  assumes f: "sim_parsers room f g"
  shows "sim_parsers room (parse_unary fuel (admitting env) f) (parse_unary fuel (emitting (snd (snd room)) env) g)"
  unfolding sim_parsers_def
proof (induction fuel)
  case (Suc fuel)
  show ?case
  proof (intro allI impI)
    fix t p code ops
    assume fit: "arrays_fit room code ops"
    have again: "sim room (=) (counts q) (parse_unary fuel (admitting env) f t q)
        (parse_unary fuel (emitting (snd (snd room)) env) g t (sync code ops q))" for q
      using Suc fit by blast
    show "sim room (=) (counts p) (parse_unary (Suc fuel) (admitting env) f t p)
        (parse_unary (Suc fuel) (emitting (snd (snd room)) env) g t (sync code ops p))"
      using fit
      by (auto simp: Let_def intro!: sim_depth(1) [OF sim_next [OF sim_int_min_literal]]
          sim_depth(1) [OF sim_next [OF sim_bind [OF again]]] sim_depth(2) [OF sim_finish_unary]
          sim_depth(1) [OF sim_bind [OF sim_parse_primary [OF f]]])
  qed
qed (simp add: sim_def)

lemma sim_arithmetic_loop:
  assumes f: "sim_parsers room f g" and fit: "arrays_fit room code ops"
  shows "sim room (=) (counts p) (arithmetic_loop fuel (admitting env) opcode f t out p)
    (arithmetic_loop fuel (emitting (snd (snd room)) env) opcode g t out (sync code ops p))"
  using fit
proof (induction fuel arbitrary: out p code ops)
  case (Suc fuel)
  then show ?case
    by (auto simp: Let_def split: option.splits
      intro!: sim_next [OF sim_bind [OF sim_parsersD [OF f]]] sim_bind [OF sim_emit_instruction])
qed (simp add: sim_def)

lemma sim_arithmetic_level:
  assumes "sim_parsers room f g"
  shows "sim_parsers room (\<lambda>t p. pbind (f t p) (arithmetic_loop fuel (admitting env) opcode f t))
    (\<lambda>t p. pbind (g t p) (arithmetic_loop fuel (emitting (snd (snd room)) env) opcode g t))"
  unfolding sim_parsers_def
  by (auto intro!: sim_bind [OF sim_parsersD [OF assms]] sim_arithmetic_loop [OF assms])

lemma sim_parse_additive:
  assumes "sim_parsers room f g"
  shows "sim_parsers room (parse_additive fuel (admitting env) f) (parse_additive fuel (emitting (snd (snd room)) env) g)"
  unfolding parse_additive_def parse_multiplicative_def
  by (intro sim_arithmetic_level sim_parse_unary assms)

lemma sim_parse_compare:
  assumes "sim_parsers room f g"
  shows "sim_parsers room (parse_compare fuel (admitting env) f) (parse_compare fuel (emitting (snd (snd room)) env) g)"
  unfolding sim_parsers_def
  by (auto simp: parse_compare_def Let_def split: option.splits
    intro!: sim_bind [OF sim_parsersD [OF sim_parse_additive [OF assms]]]
      sim_next [OF sim_bind [OF sim_parsersD [OF sim_parse_additive [OF assms]]]]
      sim_bind [OF sim_emit_instruction])

lemma sim_patch_jump:
  assumes "arrays_fit room code ops" "i < xp_instruction_count p"
  shows "sim room any_value (counts p)
    (patch_jump (admitting env) i p) (patch_jump (emitting (snd (snd room)) env) i (sync code ops p))"
proof -
  have "(sync code ops p)\<lparr>xp_instructions := code[i := x]\<rparr> = sync (code[i := x]) ops p" for x
    by (simp add: sync_def)
  then show ?thesis using assms
    by (auto simp: patch_jump_def fits_in_def counts_def arrays_fit_def
      intro!: sim_leaf [where code = "code[i := (code ! i)\<lparr>qi_arg := xp_instruction_count p\<rparr>]" and ops = ops])
qed


lemma sim_emit_counted:
  assumes "arrays_fit room code ops"
  shows "sim room any_value (Suc (xp_instruction_count p), xp_operand_count p, xp_retained p)
     (emit_instruction (admitting env) op d a s1 s2 p)
     (emit_instruction (emitting (snd (snd room)) env) op d a s1 s2 (sync code ops p))"
  using sim_emit_instruction [OF assms, of p env op d a s1 s2]
  by (auto simp: sim_def emit_instruction_def fail_here_def Let_def fits_in_def counts_def split: if_splits)

lemma sim_weaken: "sim room V c r r' \<Longrightarrow> fits_in c' c \<Longrightarrow> sim room V c' r r'"
  by (auto simp: sim_def intro: fits_in_trans)

lemma sim_logical_loop:
  assumes f: "sim_parsers room f g" and fit: "arrays_fit room code ops"
  shows "sim room (=) (counts p) (logical_loop fuel (admitting env) operation jump combine f t out p)
    (logical_loop fuel (emitting (snd (snd room)) env) operation jump combine g t out (sync code ops p))"
  using fit
proof (induction fuel arbitrary: out p code ops)
  case (Suc fuel)
  have combine: "sim room (=) (counts q)
      (pbind (emit_instruction (admitting env) combine t 0 t s q) (\<lambda>_ q.
         pbind (patch_jump (admitting env) i q) (\<lambda>_ q.
           logical_loop fuel (admitting env) operation jump combine f t out' q)))
      (pbind (emit_instruction (emitting (snd (snd room)) env) combine t 0 t s (sync code ops q)) (\<lambda>_ q.
         pbind (patch_jump (emitting (snd (snd room)) env) i q) (\<lambda>_ q.
           logical_loop fuel (emitting (snd (snd room)) env) operation jump combine g t out' q)))"
    if "arrays_fit room code ops" "i \<le> xp_instruction_count q" for code ops q i s out'
  proof (rule sim_weaken)
    have later: "i < xp_instruction_count p" if
      "fits_in (Suc (xp_instruction_count q), xp_operand_count q, xp_retained q) (counts p)" for p
      using that \<open>i \<le> _\<close> by (simp add: fits_in_def counts_def)
    show "sim room (=) (Suc (xp_instruction_count q), xp_operand_count q, xp_retained q)
      (pbind (emit_instruction (admitting env) combine t 0 t s q) (\<lambda>_ q.
         pbind (patch_jump (admitting env) i q) (\<lambda>_ q.
           logical_loop fuel (admitting env) operation jump combine f t out' q)))
      (pbind (emit_instruction (emitting (snd (snd room)) env) combine t 0 t s (sync code ops q)) (\<lambda>_ q.
         pbind (patch_jump (emitting (snd (snd room)) env) i q) (\<lambda>_ q.
           logical_loop fuel (emitting (snd (snd room)) env) operation jump combine g t out' q)))"
      using that(1) by (auto intro!: sim_bind_grown [OF sim_emit_counted] sim_bind [OF sim_patch_jump] later Suc.IH)
  qed (simp add: fits_in_def counts_def)
  show ?case
  proof (cases "tok p = operation")
    case True
    have ahead: "xp_instruction_count q \<le> xp_instruction_count r" if "fits_in (counts q) (counts r)" for q r
      using that by (simp add: fits_in_def counts_def)
    show ?thesis
      using Suc.prems
      by (auto simp: True Let_def intro!: sim_bind_grown [OF sim_emit_instruction [where op = jump]]
        sim_next [OF sim_bind_grown [OF sim_parsersD [OF f]]] combine dest!: ahead)
  qed (use Suc.prems in simp)
qed (simp add: sim_def)


lemma sim_logical_level:
  assumes "sim_parsers room f g"
  shows "sim_parsers room (\<lambda>t p. pbind (f t p) (logical_loop fuel (admitting env) operation jump combine f t))
    (\<lambda>t p. pbind (g t p) (logical_loop fuel (emitting (snd (snd room)) env) operation jump combine g t))"
  unfolding sim_parsers_def
  by (auto intro!: sim_bind [OF sim_parsersD [OF assms]] sim_logical_loop [OF assms])

lemma sim_parse_or:
  "sim_parsers room (parse_or fuel (admitting env)) (parse_or fuel (emitting (snd (snd room)) env))"
proof (induction fuel)
  case 0
  show ?case by (simp add: sim_parsers_def sim_def)
next
  case (Suc fuel)
  then show ?case unfolding parse_or_eq parse_and_def
    by (intro sim_logical_level sim_parse_compare)
qed

lemma sim_parser_run:
  assumes "arrays_fit room code ops"
  shows "sim room (=) (counts p) (parser_run (admitting env) b p)
    (parser_run (emitting (snd (snd room)) env) b (sync code ops p))"
  using assms by (auto simp: parser_run_def Let_def intro!: sim_next [OF sim_bind [OF sim_parsersD [OF sim_parse_or]]])

section \<open>The compiler\<close>

lemma expr_compile_runs:
  "expr_compile env host b =
     (if \<not> compile_arguments_ok env then Refused SCXML_EXPR_INVALID_ARGUMENT 0
      else if max_source_bytes (xe_limits env) < length (xe_source env)
      then Refused SCXML_EXPR_LIMIT_EXCEEDED (max_source_bytes (xe_limits env))
      else case parser_run (admitting env) b (parser_init 0 0) of
        Failed status offset \<Rightarrow> Refused status offset
      | Wild \<Rightarrow> Crash
      | No_Fuel \<Rightarrow> Crash
      | Done admitted_kind p \<Rightarrow>
          (let retained = xp_retained p in
           if ch_max_instructions host < xp_instruction_count p \<or> ch_max_operands host < xp_operand_count p
           then Refused SCXML_EXPR_LIMIT_EXCEEDED 0
           else if \<not> allocated host (xp_operand_count p) retained
           then Refused SCXML_EXPR_ALLOCATION_FAILED 0
           else case parser_run (emitting retained env) b
                       (parser_init (xp_instruction_count p) (xp_operand_count p)) of
               Failed status offset \<Rightarrow> Refused status offset
             | Wild \<Rightarrow> Crash
             | No_Fuel \<Rightarrow> Crash
             | Done emitted_kind q \<Rightarrow>
                 if xp_storage_index q \<noteq> retained \<or> emitted_kind \<noteq> admitted_kind
                 then Refused SCXML_EXPR_EVALUATION_ERROR 0
                 else build_program env host emitted_kind q))"
  unfolding expr_compile_def admitting_def emitting_def by simp

text \<open>The emitting run after a successful admitting one.\<close>

lemma emitting_run:
  assumes run: "parser_run (admitting env) b (parser_init 0 0) = Done kind p"
  obtains (emitted) code ops where
      "parser_run (emitting (xp_retained p) env) b (parser_init (xp_instruction_count p) (xp_operand_count p)) =
         Done kind (sync code ops p)"
      "length code = xp_instruction_count p" "length ops = xp_operand_count p"
  | (unknown) offset where
      "parser_run (emitting (xp_retained p) env) b (parser_init (xp_instruction_count p) (xp_operand_count p)) =
         Failed SCXML_EXPR_UNKNOWN_LOCATION offset"
proof -
  let ?room = "counts p"
  let ?code = "replicate (xp_instruction_count p) zero_instruction"
  let ?ops = "replicate (xp_operand_count p) zero_operand"
  have init: "parser_init (xp_instruction_count p) (xp_operand_count p) = sync ?code ?ops (parser_init 0 0)"
    by (simp add: parser_init_def sync_def)
  have "sim ?room (=) (counts (parser_init 0 0)) (parser_run (admitting env) b (parser_init 0 0))
      (parser_run (emitting (snd (snd ?room)) env) b (sync ?code ?ops (parser_init 0 0)))"
    by (rule sim_parser_run) (simp add: arrays_fit_def counts_def)
  moreover have "snd (snd ?room) = xp_retained p" by (simp add: counts_def)
  ultimately show ?thesis using that unfolding init
    by (cases "parser_run (emitting (xp_retained p) env) b (sync ?code ?ops (parser_init 0 0))")
      (auto simp: run sim_def arrays_fit_def counts_def)
qed

section \<open>A chart with a counter\<close>

definition counter_schema :: cmeta_schema where
  "counter_schema d =
     (if d = 1 then \<lparr>cd_valid = True, cd_kind = CMETA_DATA_STRUCT, cd_size = Some 16,
        cd_fields = Some [\<lparr>cf_name = Some ''n'', cf_value = 2, cf_offset = 8\<rparr>],
        cd_bits = 0, cd_enum_ops = False, cd_readable = False\<rparr>
      else \<lparr>cd_valid = True, cd_kind = CMETA_DATA_SINT, cd_size = Some 8, cd_fields = None,
        cd_bits = 64, cd_enum_ops = False, cd_readable = False\<rparr>)"

definition counter_env :: "string \<Rightarrow> expr_env" where
  "counter_env source = \<lparr>xe_source = source, xe_schema = counter_schema, xe_root = 1,
     xe_supplemental = None, xe_resolve_state = (\<lambda>_. None), xe_limits = scxml_expr_default_limits,
     xe_path_policy = SCXML_EXPR_PATH_STRICT, xe_unresolved_kind = EXPR_VALUE_BOOL,
     xe_policy = \<lparr>allowed_system_operands = SCXML_EXPR_SYSTEM_ALL, allow_in = True, allow_is_bound = True\<rparr>,
     xe_registers = 256, xe_underflow_erange = True, xe_emit = False, xe_literal_capacity = 0\<rparr>"

definition counter_host :: "nat option \<Rightarrow> compile_host" where
  "counter_host verdict = \<lparr>ch_program = True, ch_instructions = True, ch_operands = True, ch_literals = True,
     ch_max_instructions = 1000, ch_max_operands = 1000, ch_verify = (\<lambda>_ _ _. verdict)\<rparr>"

lemma counter_refused:
  "expr_compile (counter_env ''n>1'') (counter_host (Some 2)) True = Refused SCXML_EXPR_EVALUATION_ERROR 2"
  by code_simp

section \<open>The two runs of the compiler agree\<close>

text \<open>
  (C13)
  Compilation always ends, stays within the memory it allocated and never trips over its own
  second pass. Whatever the source text, schema, policy and limits: the parser never runs out of
  fuel, the emitting run never writes past the arrays that the admitting run
  sized, and the check that both runs agree never fails; an evaluation error is
  reported only if the query machine refuses the finished code.
\<close>

theorem compile_two_runs_agree:
  "expr_compile env host b \<noteq> Crash \<and>
   (\<forall>n. expr_compile env host b = Refused SCXML_EXPR_EVALUATION_ERROR n \<longrightarrow>
      (\<exists>code registers operands. ch_verify host code registers operands = Some n))"
proof -
  have start: "xp_cursor (parser_init 0 0) = 0" by (simp add: parser_init_def)
  show ?thesis
  proof (cases "parser_run (admitting env) b (parser_init 0 0)")
    case (Done kind p)
    from emitting_run [OF Done] show ?thesis
      by cases (auto simp: expr_compile_runs Done Let_def build_program_def split: option.splits)
  qed (use ends_parser_run [OF start, of "admitting env" b] in
    \<open>auto simp: expr_compile_runs\<close>)
qed

text \<open>A machine that refuses the third instruction of \<^verbatim>\<open>n>1\<close>.\<close>

theorem compile_two_runs_agree_witness:
  "expr_compile (counter_env ''n>1'') (counter_host (Some 2)) True = Refused SCXML_EXPR_EVALUATION_ERROR 2 \<and>
   (\<exists>code registers operands. ch_verify (counter_host (Some 2)) code registers operands = Some 2)"
  using compile_two_runs_agree [of "counter_env ''n>1''" "counter_host (Some 2)" True] counter_refused
  by blast

end
