(* ===== verification/Expr_Value_Exact.thy ===== *)
theory Expr_Value_Exact
  imports Expr_Value
begin

text \<open>
  What the arithmetic and the comparison of \<^theory_text>\<open>Expr_Value\<close> compute: the integer
  operations return the exact result or refuse, the comparison orders the numbers
  the operands denote, whatever their representations.
\<close>

section \<open>Integer arithmetic is exact\<close>

abbreviation sint64_range :: "int \<Rightarrow> bool" where
  "sint64_range i \<equiv> - (2 ^ 63) \<le> i \<and> i < 2 ^ 63"

abbreviation uint64_range :: "int \<Rightarrow> bool" where
  "uint64_range i \<equiv> 0 \<le> i \<and> i < 2 ^ 64"

lemma sint_of_int: "sint64_range i \<Longrightarrow> sint (word_of_int i :: u64) = i"
  by (simp add: sint_sbintrunc' signed_take_bit_int_eq_self)

lemma uint_of_int: "uint64_range i \<Longrightarrow> uint (word_of_int i :: u64) = i"
  by (simp add: uint_word_of_int take_bit_int_eq_self)

lemma sint_bounds: "sint64_range (sint (a :: u64))"
  using sint_ge [of a] sint_lt [of a] by simp

lemma uint_bounds: "uint64_range (uint (a :: u64))"
  using uint_range_size [of a] by (simp add: word_size)

lemma sint_plus: "sint64_range (sint a + sint b) \<Longrightarrow> sint (a + b :: u64) = sint a + sint b"
  using sint_of_int [of "sint a + sint b"] by simp

lemma sint_minus: "sint64_range (sint a - sint b) \<Longrightarrow> sint (a - b :: u64) = sint a - sint b"
  using sint_of_int [of "sint a - sint b"] by simp

lemma sint_times: "sint64_range (sint a * sint b) \<Longrightarrow> sint (a * b :: u64) = sint a * sint b"
  using sint_of_int [of "sint a * sint b"] by simp

lemma uint_plus: "uint64_range (uint a + uint b) \<Longrightarrow> uint (a + b :: u64) = uint a + uint b"
  using uint_of_int [of "uint a + uint b"] by simp

lemma uint_minus: "uint64_range (uint a - uint b) \<Longrightarrow> uint (a - b :: u64) = uint a - uint b"
  using uint_of_int [of "uint a - uint b"] by simp

lemma uint_times: "uint64_range (uint a * uint b) \<Longrightarrow> uint (a * b :: u64) = uint a * uint b"
  using uint_of_int [of "uint a * uint b"] by simp

lemma sint_limits [simp]:
  "sint INT64_MAX = 2 ^ 63 - 1" "sint INT64_MIN = - (2 ^ 63)"
  by (simp_all add: sint_sbintrunc')

lemma uint_max [simp]: "uint UINT64_MAX = 2 ^ 64 - 1"
  by (simp add: unsigned_minus_1_eq_mask mask_eq_exp_minus_1)

lemma sless_sint: "(a :: u64) <s b \<longleftrightarrow> sint a < sint b"
  by (simp add: word_sless_alt)

lemma eq_sint: "(a :: u64) = b \<longleftrightarrow> sint a = sint b"
  by (auto intro: signed_word_eqI)


text \<open>The result of an arithmetic operation on the integers themselves.\<close>

fun exact_int :: "qvm_opcode \<Rightarrow> int \<Rightarrow> int \<Rightarrow> int option" where
  "exact_int QVM_OP_ADD a b = Some (a + b)"
| "exact_int QVM_OP_SUB a b = Some (a - b)"
| "exact_int QVM_OP_MUL a b = Some (a * b)"
| "exact_int QVM_OP_DIV a b = (if b = 0 then None else Some (a sdiv b))"
| "exact_int QVM_OP_MOD a b = (if b = 0 then None else Some (a smod b))"
| "exact_int _ a b = None"

lemma sint_zero_iff: "sint (a :: u64) = 0 \<longleftrightarrow> a = 0"
  by (simp add: eq_sint)

lemma abs_sdiv: "\<bar>a sdiv b\<bar> = \<bar>a :: int\<bar> div \<bar>b\<bar>"
  by (auto simp: signed_divide_int_def abs_mult sgn_if pos_imp_zdiv_nonneg_iff)

lemma sdiv_small:
  assumes "sint64_range a" "\<not> (a = - (2 ^ 63) \<and> b = - 1)"
  shows "sint64_range (a sdiv b)"
proof (cases "\<bar>b\<bar> \<le> 1")
  case True
  then have "b = 0 \<or> b = 1 \<or> b = - 1" by auto
  then show ?thesis using assms by (auto simp: signed_divide_int_def sgn_if)
next
  case False
  then have "\<bar>a\<bar> div \<bar>b\<bar> < 2 ^ 63"
    using assms(1) by (smt (verit) int_div_less_self zdiv_eq_0_iff)
  then show ?thesis using abs_sdiv [of a b] by linarith
qed

lemma sint_sdiv64:
  assumes "\<not> (a = INT64_MIN \<and> b = - 1)"
  shows "sint (sdiv64 a b) = sint a sdiv sint b"
  using assms sdiv_small [OF sint_bounds, of a "sint b"] by (simp add: sdiv64_def sint_of_int eq_sint)

lemma smod_small:
  assumes "sint64_range a" "sint64_range b"
  shows "sint64_range (a smod b)"
proof (cases "b = 0")
  case True
  then show ?thesis using assms by simp
next
  case False
  have "\<bar>a smod b\<bar> < \<bar>b\<bar>"
    using False smod_int_range [of b a] by auto
  then show ?thesis using assms by linarith
qed

lemma sint_smod64: "sint (smod64 a b) = sint a smod sint b"
  using smod_small [OF sint_bounds sint_bounds, of a b] by (simp add: smod64_def sint_of_int)

text \<open>The overflow test of the multiplication, on integers: the quotient bounds.\<close>

lemma sdiv_pos_pos: "0 < b \<Longrightarrow> 0 \<le> m \<Longrightarrow> m sdiv b = m div (b :: int)"
  by (cases "m = 0") (auto simp: signed_divide_int_def)

lemma product_overflow:
  fixes a b m :: int
  assumes "0 < b"
  shows "m div b < a \<longleftrightarrow> m < a * b"
proof -
  let ?q = "m div b"
  have split: "m = ?q * b + m mod b" "0 \<le> m mod b" "m mod b < b" using assms by simp_all
  have "(?q + 1) * b \<le> a * b" if "?q < a" using that assms by (intro mult_right_mono) auto
  moreover have "a * b \<le> ?q * b" if "a \<le> ?q" using that assms by (intro mult_right_mono) auto
  moreover have "(?q + 1) * b = ?q * b + b" by (simp add: algebra_simps)
  ultimately show ?thesis using split by linarith
qed

lemma checked_sint_multiply_exact:
  "checked_sint_multiply a b = (if sint64_range (sint a * sint b) then Some (a * b) else None)"
proof -
  let ?a = "sint a" and ?b = "sint b" and ?M = "2 ^ 63 - 1 :: int"
  have max: "sint (sdiv64 INT64_MAX b) = ?M sdiv ?b" "sint (sdiv64 INT64_MAX a) = ?M sdiv ?a"
    by (simp_all add: sint_sdiv64)
  have min: "x \<noteq> - 1 \<Longrightarrow> sint (sdiv64 INT64_MIN x) = - (2 ^ 63 sdiv sint x)" for x
    by (simp add: sint_sdiv64)
  obtain p where p: "?a * ?b = p" by simp
  have pos: "0 < ?a \<Longrightarrow> 0 < ?b \<Longrightarrow> 0 < p" "?a < 0 \<Longrightarrow> ?b < 0 \<Longrightarrow> 0 < p"
    "0 < ?a \<Longrightarrow> ?b < 0 \<Longrightarrow> p < 0" "?a < 0 \<Longrightarrow> 0 < ?b \<Longrightarrow> p < 0"
    unfolding p [symmetric] by (simp_all add: mult_pos_pos mult_neg_neg mult_pos_neg mult_neg_pos)
  note defs = checked_sint_multiply_def sless_sint p
  consider "?a = 0" | "0 < ?a" "?b = 0" | "?a < 0" "?b = 0" | "0 < ?a" "0 < ?b" | "0 < ?a" "?b < 0"
    | "?a < 0" "0 < ?b" | "?a < 0" "?b < 0" by linarith
  then show ?thesis
  proof cases
    case 4
    then have "?M sdiv ?b < ?a \<longleftrightarrow> ?M < p"
      using product_overflow [of ?b ?M ?a] p by (simp add: sdiv_pos_pos)
    then show ?thesis using 4 pos(1) by (auto simp: defs max)
  next
    case 5
    then have ne: "a \<noteq> - 1" by auto
    have "2 ^ 63 div ?a < - ?b \<longleftrightarrow> 2 ^ 63 < - p"
      using 5 product_overflow [of ?a "2 ^ 63" "- ?b"] p by (simp add: mult.commute)
    then have "?b < - (2 ^ 63 sdiv ?a) \<longleftrightarrow> p < - (2 ^ 63)"
      using 5 by (subst sdiv_pos_pos) auto
    then show ?thesis using 5 pos(3) by (auto simp: defs min [OF ne])
  next
    case 6
    then have ne: "b \<noteq> - 1" by auto
    have "2 ^ 63 div ?b < - ?a \<longleftrightarrow> 2 ^ 63 < - p"
      using 6 product_overflow [of ?b "2 ^ 63" "- ?a"] p by simp
    then have "?a < - (2 ^ 63 sdiv ?b) \<longleftrightarrow> p < - (2 ^ 63)"
      using 6 by (subst sdiv_pos_pos) auto
    then show ?thesis using 6 pos(4) by (auto simp: defs min [OF ne])
  next
    case 7
    have "?M div - ?a < - ?b \<longleftrightarrow> ?M < p"
      using 7 product_overflow [of "- ?a" ?M "- ?b"] p by (simp add: mult.commute)
    moreover have "?M sdiv ?a = - (?M sdiv - ?a)" by simp
    moreover have "?M sdiv - ?a = ?M div - ?a" using 7 by (intro sdiv_pos_pos) auto
    ultimately have "?b < ?M sdiv ?a \<longleftrightarrow> ?M < p" by linarith
    then show ?thesis using 7 pos(2) by (auto simp: defs max)
  qed (auto simp: checked_sint_multiply_def sless_sint)
qed

lemma evaluate_sint_exact:
  "evaluate_sint_arithmetic op a b = Some w \<longleftrightarrow> exact_int op (sint a) (sint b) = Some (sint w) \<and>
     \<not> (op = QVM_OP_MOD \<and> a = INT64_MIN \<and> b = - 1)"
proof (cases op)
  case QVM_OP_ADD
  have max: "0 < sint b \<Longrightarrow> sint (INT64_MAX - b) = 2 ^ 63 - 1 - sint b"
    and min: "sint b < 0 \<Longrightarrow> sint (INT64_MIN - b) = - (2 ^ 63) - sint b"
    using sint_bounds [of b] by (simp_all add: sint_minus)
  have "evaluate_sint_arithmetic QVM_OP_ADD a b =
      (if sint64_range (sint a + sint b) then Some (a + b) else None)"
    using sint_bounds [of a] sint_bounds [of b] by (auto simp: sless_sint max min)
  then show ?thesis using QVM_OP_ADD sint_plus [of a b] sint_bounds [of w] by (auto simp: eq_sint)
next
  case QVM_OP_SUB
  have max: "sint b < 0 \<Longrightarrow> sint (INT64_MAX + b) = 2 ^ 63 - 1 + sint b"
    and min: "0 < sint b \<Longrightarrow> sint (INT64_MIN + b) = - (2 ^ 63) + sint b"
    using sint_bounds [of b] by (simp_all add: sint_plus)
  have "evaluate_sint_arithmetic QVM_OP_SUB a b =
      (if sint64_range (sint a - sint b) then Some (a - b) else None)"
    using sint_bounds [of a] sint_bounds [of b] by (auto simp: sless_sint max min)
  then show ?thesis using QVM_OP_SUB sint_minus [of a b] sint_bounds [of w] by (auto simp: eq_sint)
next
  case QVM_OP_MUL
  then show ?thesis using sint_times [of a b] sint_bounds [of w]
    by (auto simp: checked_sint_multiply_exact eq_sint)
next
  case QVM_OP_DIV
  have "sint w \<noteq> 2 ^ 63" using sint_bounds [of w] by simp
  then show ?thesis using QVM_OP_DIV sint_sdiv64 [of a b] by (auto simp: eq_sint)
next
  case QVM_OP_MOD
  then show ?thesis by (auto simp: eq_sint sint_smod64)
qed auto

lemma evaluate_uint_exact:
  "evaluate_uint_arithmetic op a b = Some w \<longleftrightarrow> exact_int op (uint a) (uint b) = Some (uint w)"
proof (cases op)
  case QVM_OP_ADD
  have "uint (UINT64_MAX - b) = 2 ^ 64 - 1 - uint b"
    using uint_bounds [of b] uint_minus [of UINT64_MAX b] unfolding uint_max by linarith
  then show ?thesis using QVM_OP_ADD uint_plus [of a b] uint_bounds [of w] uint_bounds [of a] uint_bounds [of b]
    by (auto simp: word_less_def word_uint_eq_iff)
next
  case QVM_OP_SUB
  obtain x y z where "uint a = x" "uint b = y" "uint w = z" "0 \<le> x" "0 \<le> y" "0 \<le> z" by simp
  then show ?thesis using QVM_OP_SUB uint_minus [of a b] uint_bounds [of a]
    by (auto simp: word_less_def word_uint_eq_iff)
next
  case QVM_OP_MUL
  have "uint (UINT64_MAX div b) = (2 ^ 64 - 1) div uint b" by (simp add: uint_div_distrib)
  moreover have "0 < uint b \<or> uint b = 0" using uint_bounds [of b] by linarith
  ultimately show ?thesis
    using QVM_OP_MUL uint_times [of a b] uint_bounds [of w] product_overflow [of "uint b" "2 ^ 64 - 1" "uint a"]
    by (auto simp: word_less_def word_uint_eq_iff)
next
  case QVM_OP_DIV
  have "uint a sdiv uint b = uint a div uint b"
    by (cases "uint b = 0") (use sdiv_pos_pos [of "uint b" "uint a"] in \<open>auto simp: order.strict_iff_order\<close>)
  then show ?thesis using QVM_OP_DIV by (auto simp: word_uint_eq_iff uint_div_distrib)
next
  case QVM_OP_MOD
  have "uint a smod uint b = uint a mod uint b" by (simp add: smod_mod_positive)
  then show ?thesis using QVM_OP_MOD by (auto simp: word_uint_eq_iff uint_mod_distrib)
qed auto

section \<open>Doubles\<close>

text \<open>The rational numbers a double represents: 53 bits, exponent at least -1074.\<close>

definition is_double :: "rat \<Rightarrow> bool" where
  "is_double q \<longleftrightarrow> \<bar>q\<bar> < 2 ^ 1024 \<and>
     (\<exists>m e. q = of_int m * 2 powi e \<and> \<bar>m\<bar> < 2 ^ 53 \<and> - 1074 \<le> e)"

fun double_ok :: "c_double \<Rightarrow> bool" where
  "double_ok (DFin q) = is_double q"
| "double_ok _ = True"

lemma powi_mono: "a \<le> b \<Longrightarrow> (2 :: rat) powi a \<le> 2 powi b"
  by (simp add: power_int_increasing)

lemma powi_less: "(2 :: rat) powi a < 2 powi b \<longleftrightarrow> a < b"
  using powi_mono [of b a] power_int_strict_increasing [of a b "2 :: rat"] by force

lemma bitlen_bounds_rat:
  assumes "0 < n"
  shows "2 powi (bitlen n - 1) \<le> (of_int n :: rat)" "of_int n < (2 powi bitlen n :: rat)"
proof -
  have b: "2 ^ nat (bitlen n - 1) \<le> n" "n < 2 ^ nat (bitlen n)" "0 < bitlen n"
    using bitlen_bounds [OF assms] assms by (simp_all add: bitlen_alt_def)
  then have "(of_int (2 ^ nat (bitlen n - 1)) :: rat) \<le> of_int n" "of_int n < (of_int (2 ^ nat (bitlen n)) :: rat)"
    by (simp_all only: of_int_le_iff of_int_less_iff)
  then show "2 powi (bitlen n - 1) \<le> (of_int n :: rat)" "of_int n < (2 powi bitlen n :: rat)"
    using b(3) by (simp_all add: power_int_def)
qed

lemma ilog2_bounds:
  assumes "0 < q"
  shows "2 powi ilog2 q \<le> q" "q < 2 powi (ilog2 q + 1)"
proof -
  obtain n d where nd: "quotient_of q = (n, d)" by fastforce
  have q: "q = of_int n / of_int d" and d: "0 < d" using quotient_of_div [OF nd] quotient_of_denom_pos [OF nd] by auto
  have n: "0 < n" using assms q d by (simp add: zero_less_divide_iff)
  let ?e = "bitlen n - bitlen d"
  have "2 powi (bitlen n - 1) / 2 powi bitlen d < q"
    unfolding q using bitlen_bounds_rat(1) [OF n] bitlen_bounds_rat(2) [OF d] d n
    by (intro frac_less2) auto
  then have low: "2 powi (?e - 1) < q" by (simp add: power_int_diff power_int_add field_simps)
  have "q < 2 powi bitlen n / 2 powi (bitlen d - 1)"
    unfolding q using bitlen_bounds_rat(2) [OF n] bitlen_bounds_rat(1) [OF d] d n
    by (intro frac_less) auto
  then have high: "q < 2 powi (?e + 1)" by (simp add: power_int_diff power_int_add field_simps)
  show "2 powi ilog2 q \<le> q" "q < 2 powi (ilog2 q + 1)"
    using low high by (auto simp: ilog2_def nd Let_def)
qed

lemma round_even_int [simp]: "round_even (of_int i) = i"
  by (simp add: round_even_def Let_def)

lemma powi_scale:
  assumes "u \<le> e"
  shows "of_int m * 2 powi e = (of_int (m * 2 ^ nat (e - u)) * 2 powi u :: rat)"
proof -
  have "(2 :: rat) powi e = 2 powi (e - u) * 2 powi u" by (simp flip: power_int_add)
  then show ?thesis using assms by (simp add: power_int_def [of _ "e - u"])
qed

lemma round_double_exact:
  assumes "is_double q"
  shows "round_double q = DFin q"
proof (cases "q = 0")
  case False
  obtain m e where q: "q = of_int m * 2 powi e" and m: "\<bar>m\<bar> < 2 ^ 53" and e: "- 1074 \<le> e"
    using assms by (auto simp: is_double_def)
  define u where "u = max (ilog2 \<bar>q\<bar> - 52) (- 1074)"
  have "2 powi ilog2 \<bar>q\<bar> \<le> \<bar>q\<bar>" using ilog2_bounds(1) [of "\<bar>q\<bar>"] False by simp
  also have "\<bar>q\<bar> = of_int \<bar>m\<bar> * 2 powi e" by (simp add: q abs_mult)
  also have "\<dots> < (of_int (2 ^ 53) :: rat) * 2 powi e"
    using m by (intro mult_strict_right_mono) (simp_all only: of_int_less_iff, simp)
  also have "(of_int (2 ^ 53) :: rat) * 2 powi e = 2 powi (53 + e)" by (simp add: power_int_add)
  finally have "ilog2 \<bar>q\<bar> < 53 + e" by (simp add: powi_less)
  then have "u \<le> e" using e by (simp add: u_def)
  then obtain k where k: "q = of_int k * 2 powi u" using powi_scale q by metis
  have ulp: "double_ulp q = 2 powi u" by (simp add: double_ulp_def u_def)
  have "q / double_ulp q = of_int k" unfolding ulp by (subst k) simp
  then have "of_int (round_even (q / double_ulp q)) * double_ulp q = q" by (simp add: ulp k [symmetric])
  then show ?thesis using assms False by (simp add: round_double_def is_double_def Let_def)
qed (simp add: round_double_def)

lemma trunc_is_double:
  assumes "is_double q"
  shows "round_double (of_int (d_trunc (DFin q))) = DFin (of_int (d_trunc (DFin q)))"
proof (rule round_double_exact)
  obtain m e where q: "q = of_int m * 2 powi e" and m: "\<bar>m\<bar> < 2 ^ 53" and e: "- 1074 \<le> e"
    using assms by (auto simp: is_double_def)
  let ?t = "d_trunc (DFin q)"
  show "is_double (of_int ?t)"
  proof (cases "0 \<le> e")
    case True
    then have "q = of_int (m * 2 ^ nat e)" by (simp add: q power_int_def)
    then have "of_int ?t = q" by (simp add: d_trunc_def del: of_int_mult)
    then show ?thesis using assms by simp
  next
    case False
    have "(2 :: rat) powi e \<le> 1" using powi_mono [of e 0] False by simp
    then have "\<bar>q\<bar> \<le> of_int \<bar>m\<bar>" by (simp add: q abs_mult mult_left_le)
    then have "\<bar>?t\<bar> \<le> \<bar>m\<bar>" by (auto simp: d_trunc_def) linarith+
    then have t: "\<bar>?t\<bar> < 2 ^ 53" using m by linarith
    then have "\<bar>of_int ?t :: rat\<bar> < of_int (2 ^ 53)" by (simp only: of_int_less_iff flip: of_int_abs)
    then have "\<bar>of_int ?t :: rat\<bar> < 2 ^ 1024" by simp
    then show ?thesis using t unfolding is_double_def by (intro conjI exI [of _ ?t] exI [of _ 0]) auto
  qed
qed

section \<open>Comparison is exact\<close>

text \<open>The number an operand denotes.\<close>

fun number_of :: "qvm_value \<Rightarrow> c_double option" where
  "number_of (VSint w) = Some (DFin (of_int (sint w)))"
| "number_of (VUint w) = Some (DFin (of_int (uint w)))"
| "number_of (VFloat d) = Some d"
| "number_of _ = None"

text \<open>A value whose double, if it is one, is representable.\<close>

fun value_ok :: "qvm_value \<Rightarrow> bool" where
  "value_ok (VFloat d) = double_ok d"
| "value_ok _ = True"

definition exact_compare :: "c_double \<Rightarrow> c_double \<Rightarrow> comparison" where
  "exact_compare a b = (if d_isnan a \<or> d_isnan b then Unordered else Ordered (d_order a b))"

lemma d_order_int [simp]:
  "d_order (DFin (of_int a)) (DFin (of_int b)) = (if a < b then -1 else if b < a then 1 else 0)"
  by (simp add: d_order_def)

lemma trunc_order:
  "a < d_trunc (DFin q) \<Longrightarrow> of_int a < q" "d_trunc (DFin q) < a \<Longrightarrow> q < of_int a"
  by (auto simp: d_trunc_def split: if_splits) linarith+

lemma compare_sint_float_exact:
  assumes "double_ok d"
  shows "compare_sint_float a d = exact_compare (DFin (of_int (sint a))) d"
proof (cases d)
  case (DFin q)
  obtain x where x: "sint a = x" by simp
  then have bounds: "of_int x < (9223372036854775808 :: rat)" "(- 9223372036854775808 :: rat) \<le> of_int x"
    using sint_bounds [of a] of_int_less_iff [of x "2 ^ 63", where 'a = rat]
      of_int_le_iff [of "- (2 ^ 63)" x, where 'a = rat] by simp_all
  show ?thesis
  proof (cases "q < 9223372036854775808 \<and> - 9223372036854775808 \<le> q")
    case True
    then have "sint64_range (d_trunc d)" by (auto simp: DFin d_trunc_def le_floor_iff floor_less_iff le_ceiling_iff ceiling_less_iff)
    then show ?thesis using True trunc_is_double [of q] assms trunc_order [where a = x and q = q]
      by (auto simp: compare_sint_float_def exact_compare_def DFin sless_sint sint_of_int x d_order_def Let_def)
  next
    case False
    then show ?thesis using bounds
      by (auto simp: compare_sint_float_def exact_compare_def DFin x d_order_def)
  qed
qed (auto simp: compare_sint_float_def exact_compare_def d_order_def)

lemma compare_uint_float_exact:
  assumes "double_ok d"
  shows "compare_uint_float a d = exact_compare (DFin (of_int (uint a))) d"
proof (cases d)
  case (DFin q)
  obtain x where x: "uint a = x" "0 \<le> x" by simp
  then have bounds: "of_int x < (18446744073709551616 :: rat)" "(0 :: rat) \<le> of_int x"
    using uint_bounds [of a] of_int_less_iff [of x "2 ^ 64", where 'a = rat] by simp_all
  show ?thesis
  proof (cases "q < 18446744073709551616 \<and> 0 \<le> q")
    case True
    then have "uint64_range (d_trunc d)" by (auto simp: DFin d_trunc_def le_floor_iff floor_less_iff)
    then show ?thesis using True trunc_is_double [of q] assms trunc_order [where a = x and q = q]
      by (auto simp: compare_uint_float_def exact_compare_def DFin word_less_def uint_of_int x d_order_def Let_def)
  next
    case False
    then have "18446744073709551616 \<le> q \<and> of_int x < q \<or> q < 0 \<and> q < of_int x" using bounds by linarith
    then show ?thesis
      by (auto simp: compare_uint_float_def exact_compare_def DFin x d_order_def)
  qed
qed (auto simp: compare_uint_float_def exact_compare_def d_order_def)

lemma is_doubleI:
  "\<bar>q\<bar> < 2 ^ 1024 \<Longrightarrow> q = of_int m * 2 powi e \<Longrightarrow> \<bar>m\<bar> < 2 ^ 53 \<Longrightarrow> - 1074 \<le> e \<Longrightarrow> is_double q"
  unfolding is_double_def by blast

text \<open>Rounding gives a double, so the callbacks never leave the doubles.\<close>

lemma round_even_near: "\<bar>of_int (round_even q) - q\<bar> \<le> 1 / 2"
proof -
  have "of_int \<lfloor>q\<rfloor> \<le> q" "q < of_int \<lfloor>q\<rfloor> + 1" by linarith+
  then show ?thesis unfolding round_even_def Let_def abs_le_iff by (simp split: if_split) linarith
qed

lemma round_double_ok: "double_ok (round_double q)"
proof (cases "q = 0")
  case False
  define u where "u = max (ilog2 \<bar>q\<bar> - 52) (- 1074)"
  define k where "k = round_even (q / double_ulp q)"
  have ulp: "double_ulp q = 2 powi u" by (simp add: double_ulp_def u_def)
  have "\<bar>q\<bar> < 2 powi (ilog2 \<bar>q\<bar> + 1)" using ilog2_bounds(2) [of "\<bar>q\<bar>"] False by simp
  also have "\<dots> \<le> 2 powi (53 + u)" by (rule powi_mono) (simp add: u_def)
  also have "\<dots> = 2 ^ 53 * 2 powi u" by (simp add: power_int_add)
  finally have "\<bar>q / double_ulp q\<bar> < 2 ^ 53" by (simp add: ulp abs_divide pos_divide_less_eq)
  then have "\<bar>of_int k :: rat\<bar> < 2 ^ 53 + 1" using round_even_near [of "q / double_ulp q"] unfolding k_def by linarith
  then have "of_int \<bar>k\<bar> < (of_int (2 ^ 53 + 1) :: rat)" by simp
  then have k: "\<bar>k\<bar> \<le> 2 ^ 53" by (simp only: of_int_less_iff)
  have "is_double (of_int k * 2 powi u)" if "\<bar>of_int k * 2 powi u :: rat\<bar> < 2 ^ 1024"
  proof (cases "\<bar>k\<bar> = 2 ^ 53")
    case True
    then have "of_int k = (of_int (sgn k * 2 ^ 53) :: rat)" by (metis mult_sgn_abs mult.commute)
    then have "of_int k * 2 powi u = (of_int (sgn k * 2 ^ 52) * 2 powi (u + 1) :: rat)"
      by (simp add: power_int_add)
    moreover have "\<bar>sgn k * 2 ^ 52\<bar> < (2 ^ 53 :: int)" by (simp add: abs_mult abs_sgn_eq)
    ultimately show ?thesis by (rule is_doubleI [OF that]) (simp add: u_def)
  next
    case False
    then have "\<bar>k\<bar> < 2 ^ 53" using k by linarith
    then show ?thesis by (rule is_doubleI [OF that refl]) (simp add: u_def)
  qed
  then show ?thesis using False by (auto simp: round_double_def Let_def ulp k_def)
qed (auto simp: round_double_def is_double_def intro: exI [of _ 0])

lemma d_order_swap: "d_order b a = - d_order a b"
  by (cases a; cases b) (auto simp: d_order_def)

lemma reverse_exact_compare: "reverse_order (exact_compare a b) = exact_compare b a"
  using d_order_swap [of a b] by (simp add: exact_compare_def)

lemma uint_word_order:
  "0 \<le> sint a \<Longrightarrow> uint a = sint (a :: u64)"
  using uint_of_int [of "sint a"] sint_bounds [of a] by simp

lemma numeric_compare_exact:
  assumes "number_of l = Some a" "number_of r = Some b" "value_ok l" "value_ok r"
  shows "numeric_compare l r = Some (exact_compare a b)"
proof -
  have mixed: "numeric_compare (VSint x) (VUint y) =
      Some (exact_compare (DFin (of_int (sint x))) (DFin (of_int (uint y))))" for x y
  proof (cases "sint x < 0")
    case True
    then have "sint x < uint y" using uint_bounds [of y] by linarith
    then show ?thesis using True unfolding exact_compare_def d_order_int
      by (simp add: word_sless_alt)
  next
    case False
    then show ?thesis unfolding exact_compare_def d_order_int
      by (simp add: word_sless_alt uint_order_def word_less_def uint_word_order)
  qed
  have "numeric_compare (VUint y) (VSint x) = map_option reverse_order (numeric_compare (VSint x) (VUint y))" for x y
    by (auto simp: uint_order_def)
  then have mixed': "numeric_compare (VUint y) (VSint x) =
      Some (exact_compare (DFin (of_int (uint y))) (DFin (of_int (sint x))))" for x y
    unfolding mixed by (simp only: option.map reverse_exact_compare)
  have same: "numeric_compare (VSint x) (VSint z) =
        Some (exact_compare (DFin (of_int (sint x))) (DFin (of_int (sint z))))"
      "numeric_compare (VUint x) (VUint z) =
        Some (exact_compare (DFin (of_int (uint x))) (DFin (of_int (uint z))))" for x z
    unfolding exact_compare_def d_order_int
    by (simp_all add: sint_order_def uint_order_def word_sless_alt word_less_def)
  show ?thesis using assms mixed mixed' same
    by (cases l; cases r)
      (simp_all add: compare_sint_float_exact compare_uint_float_exact reverse_exact_compare,
       simp_all add: exact_compare_def)
qed

section \<open>What the integer operations and the comparison compute\<close>

text \<open>
  (C15)
  Checked integer arithmetic is exact. An addition, subtraction, multiplication, division or remainder of
  two 64-bit operands, signed or unsigned, returns a word exactly when the result over the
  integers exists and is representable, and that word is the result: no operation wraps, none
  divides by zero. The only representable result that is refused is the remainder of the
  smallest signed integer by minus one, which the C language leaves undefined.
\<close>

theorem checked_arithmetic_exact:
  "(evaluate_sint_arithmetic op a b = Some w \<longleftrightarrow>
      exact_int op (sint a) (sint b) = Some (sint w) \<and>
      \<not> (op = QVM_OP_MOD \<and> a = INT64_MIN \<and> b = - 1)) \<and>
   (evaluate_uint_arithmetic op c d = Some w \<longleftrightarrow> exact_int op (uint c) (uint d) = Some (uint w))"
  by (intro conjI evaluate_sint_exact evaluate_uint_exact)

text \<open>
  (C14)
  A comparison orders the numbers themselves. For any two numeric operands, whatever their
  kinds, a comparison instruction yields the truth value of the relation between the exact
  numbers that the operands denote; no operand is rounded to a double, a negative integer is
  below every unsigned one, infinities are extreme, and NaN is unequal to everything.
\<close>

theorem mixed_comparison_exact:
  assumes "number_of l = Some a" "number_of r = Some b" "value_ok l" "value_ok r" "arg \<le> 5"
  shows "expr_binary QVM_OP_CMP arg l r = Some (VBool (comparison_result arg (exact_compare a b)))"
proof -
  have "operand_order arg l r = numeric_compare l r"
    using assms(1,2) by (cases l; cases r) (simp_all add: operand_order_def)
  then show ?thesis
    using numeric_compare_exact [OF assms(1-4)] assms(5)
    by (simp add: expr_binary_def arithmetic_opcode_def)
qed

text \<open>An integer that no double represents, above the double it would round to.\<close>

theorem mixed_comparison_exact_witness:
  "expr_binary QVM_OP_CMP 4 (VSint 9007199254740993) (VFloat (DFin 9007199254740992)) = Some (VBool True)"
proof -
  have "is_double 9007199254740992"
    by (rule is_doubleI [where m = 4503599627370496 and e = 1]) simp_all
  then have "value_ok (VFloat (DFin 9007199254740992))" by simp
  moreover have "number_of (VSint 9007199254740993) = Some (DFin 9007199254740993)"
    by (simp add: sint_sbintrunc')
  ultimately show ?thesis
    using mixed_comparison_exact [of "VSint 9007199254740993" _ "VFloat (DFin 9007199254740992)" _ 4]
    by (simp add: exact_compare_def d_order_def comparison_result_def)
qed

end
