(* ===== verification/Expr_Program.thy ===== *)
theory Expr_Program
  imports Expr_Parser_Types Expr_Parser_Runs Expr_Value_Exact
begin

text \<open>
  What a compiled CMeta expression is, and how it meets the callbacks that the query machine
  calls while it runs it. The two halves are joined here: the program that
  \<^theory_text>\<open>expr_compile\<close> returns is one well-typed fragment over the operands it lists, and
  the operators that such fragments use return values of the kinds they promise.
\<close>

section \<open>Operators\<close>

lemmas operator_defs = arithmetic_result_kind_def multiplicative_opcode_def additive_opcode_def
  comparison_code_def comparable_kinds_def

lemma binary_opcode_arithmetic:
  "multiplicative_opcode operation = Some op \<or> additive_opcode operation = Some op \<Longrightarrow> arithmetic_opcode op"
  by (auto simp: operator_defs arithmetic_opcode_def split: if_splits)

lemma mod_needs_integers:
  assumes "arithmetic_result_kind operation left right = Some kind"
    "multiplicative_opcode operation = Some QVM_OP_MOD \<or> additive_opcode operation = Some QVM_OP_MOD"
  shows "left = right \<and> (left = EXPR_VALUE_SINT \<or> left = EXPR_VALUE_UINT)"
  using assms by (auto simp: operator_defs split: if_splits)

lemma arithmetic_kind:
  assumes "value_kind l = Some left" "value_kind r = Some right"
    "arithmetic_result_kind operation left right = Some kind"
    "expr_arithmetic_binary op l r = Some v"
  shows "value_kind v = Some kind"
  using assms
  by (cases l; cases r)
    (auto simp: arithmetic_result_kind_def expr_arithmetic_binary_def value_is_numeric_def split: if_splits)

lemma comparison_total:
  assumes "value_kind l = Some left" "value_kind r = Some right"
    "comparison_code operation = Some arg" "comparable_kinds operation left right"
  shows "\<exists>b. expr_binary QVM_OP_CMP arg l r = Some (VBool b)"
  using assms
  by (cases l; cases r)
    (auto simp: operator_defs expr_binary_def arithmetic_opcode_def operand_order_def value_is_numeric_def
      split: if_splits)

text \<open>
  The kinds that the compiler computes are the kinds of the values. For two operands of the kinds
  the compiler has for them: an arithmetic instruction that it emits for an operator yields a
  value of the kind it notes for the result or refuses, a comparison it
  emits always yields a truth value, as do the conjunction and disjunction of truth values,
  and a negation keeps the kind of a number.
\<close>

theorem operators_keep_kinds:
  assumes kinds: "value_kind l = Some left" "value_kind r = Some right"
  shows
    "(multiplicative_opcode operation = Some op \<or> additive_opcode operation = Some op) \<Longrightarrow>
       arithmetic_result_kind operation left right = Some kind \<Longrightarrow>
       expr_binary op arg l r = None \<or> (\<exists>v. expr_binary op arg l r = Some v \<and> value_kind v = Some kind)"
    "comparison_code operation = Some code \<Longrightarrow> comparable_kinds operation left right \<Longrightarrow>
       \<exists>b. expr_binary QVM_OP_CMP code l r = Some (VBool b)"
    "left = EXPR_VALUE_BOOL \<Longrightarrow> right = EXPR_VALUE_BOOL \<Longrightarrow>
       expr_binary QVM_OP_BAND arg l r = Some (VBool (expr_truthy l \<and> expr_truthy r)) \<and>
       expr_binary QVM_OP_BOR arg l r = Some (VBool (expr_truthy l \<or> expr_truthy r))"
    "expr_unary QVM_OP_NEG l = Some v \<Longrightarrow> value_kind v = Some left"
proof -
  show "expr_binary op arg l r = None \<or> (\<exists>v. expr_binary op arg l r = Some v \<and> value_kind v = Some kind)"
    if "multiplicative_opcode operation = Some op \<or> additive_opcode operation = Some op"
      "arithmetic_result_kind operation left right = Some kind"
    using arithmetic_kind [OF kinds that(2)] binary_opcode_arithmetic [OF that(1)]
    by (cases "expr_binary op arg l r") (auto simp: expr_binary_def)
  show "\<exists>b. expr_binary QVM_OP_CMP code l r = Some (VBool b)"
    if "comparison_code operation = Some code" "comparable_kinds operation left right"
    using comparison_total [OF kinds that] .
  show "expr_binary QVM_OP_BAND arg l r = Some (VBool (expr_truthy l \<and> expr_truthy r)) \<and>
       expr_binary QVM_OP_BOR arg l r = Some (VBool (expr_truthy l \<or> expr_truthy r))"
    if "left = EXPR_VALUE_BOOL" "right = EXPR_VALUE_BOOL"
    using kinds that by (cases l; cases r) (auto simp: expr_binary_def arithmetic_opcode_def)
  show "value_kind v = Some left" if "expr_unary QVM_OP_NEG l = Some v"
    using kinds(1) that by (cases l) (auto simp: expr_unary_def split: if_splits)
qed

theorem operators_keep_kinds_witness:
  "expr_binary QVM_OP_CMP 2 (VSint 3) (VUint 4) = Some (VBool True) \<or>
   expr_binary QVM_OP_CMP 2 (VSint 3) (VUint 4) = Some (VBool False)"
  using operators_keep_kinds(2) [of "VSint 3" EXPR_VALUE_SINT "VUint 4" EXPR_VALUE_UINT EXPR_TOKEN_LT 2]
  by (auto simp: operator_defs value_is_numeric_def)

section \<open>Programs\<close>

lemma operand_typed_emitting [simp]: "operand_typed (emitting n env) = operand_typed env"
  unfolding operand_typed_def env_simps ..

text \<open>A compiled program is the output of the emitting run.\<close>

lemma compiled_output:
  assumes "expr_compile env host b = Compiled prog"
  obtains n q where
    "parser_run (emitting n env) b (parser_init (pr_instruction_count prog) (pr_operand_count prog)) =
       Done (pr_result_kind prog) q"
    "pr_instructions prog = xp_instructions q" "length (xp_instructions q) = xp_instruction_count q"
    "pr_operands prog = xp_operands q" "length (xp_operands q) = xp_operand_count q"
    "pr_instruction_count prog = xp_instruction_count q" "pr_operand_count prog = xp_operand_count q"
    "pr_register_count prog = xp_max_register q"
proof (cases "parser_run (admitting env) b (parser_init 0 0)")
  case (Done kind p)
  consider (emitted) code ops where
      "parser_run (emitting (xp_retained p) env) b (parser_init (xp_instruction_count p) (xp_operand_count p)) =
         Done kind (sync code ops p)" "length code = xp_instruction_count p" "length ops = xp_operand_count p"
    | (unknown) offset where
      "parser_run (emitting (xp_retained p) env) b (parser_init (xp_instruction_count p) (xp_operand_count p)) =
         Failed SCXML_EXPR_UNKNOWN_LOCATION offset"
    by (rule emitting_run [OF Done])
  then show ?thesis
  proof cases
    case (emitted code ops)
    then have "build_program env host kind (sync code ops p) = Compiled prog"
      using assms by (auto simp: expr_compile_runs Done Let_def split: if_splits)
    then show ?thesis using that [of "xp_retained p" "sync code ops p"] emitted
      by (simp add: build_program_def split: option.splits) auto
  next
    case unknown
    then show ?thesis using assms by (simp add: expr_compile_runs Done Let_def split: if_splits)
  qed
qed (use assms in \<open>auto simp: expr_compile_runs split: if_splits\<close>)

lemma boolean_run: "parser_run env True p = Done kind q \<Longrightarrow> kind = EXPR_VALUE_BOOL"
  by (cases "parse_or (parser_fuel env) env 0 (parser_next env p)")
    (auto simp: parser_run_def Let_def fail_here_def split: if_splits)

text \<open>
  (C12)
  Compiled expressions are well typed. The instructions of a compiled program form one
  fragment that leaves a value of the program's result kind in register 0: every load names
  an operand of the program that holds what its kind says (a location lies within the object
  it is read from), arithmetic and comparisons combine only kinds that the source allows, logical
  operators and their jumps see only truth values. The arrays are exactly filled, every jump
  goes forward and stays within the program, every register written is below the reported
  count, which the machine's registers cover, and a guard yields a truth value.
\<close>

theorem compiled_program_typed:
  assumes "expr_compile env host b = Compiled prog" "xe_registers env \<le> 65535"
  shows "frag (operand_typed env) (pr_operands prog) 0 0 (pr_result_kind prog) (pr_instructions prog) \<and>
    length (pr_instructions prog) = pr_instruction_count prog \<and>
    length (pr_operands prog) = pr_operand_count prog \<and>
    jumps_in 0 (pr_instruction_count prog) (pr_instructions prog) \<and>
    0 < pr_register_count prog \<and> pr_register_count prog \<le> xe_registers env \<and>
    list_all (\<lambda>i. qi_dst i < pr_register_count prog) (pr_instructions prog) \<and>
    (b \<longrightarrow> pr_result_kind prog = EXPR_VALUE_BOOL)"
proof -
  obtain n q where q:
    "parser_run (emitting n env) b (parser_init (pr_instruction_count prog) (pr_operand_count prog)) =
       Done (pr_result_kind prog) q"
    "pr_instructions prog = xp_instructions q" "length (xp_instructions q) = xp_instruction_count q"
    "pr_operands prog = xp_operands q" "length (xp_operands q) = xp_operand_count q"
    "pr_instruction_count prog = xp_instruction_count q" "pr_operand_count prog = xp_operand_count q"
    "pr_register_count prog = xp_max_register q"
    by (rule compiled_output [OF assms(1)])
  have all: "code_of q = xp_instructions q" "ops_of q = xp_operands q"
    using q(3,5) by (simp_all add: code_of_def ops_of_def)
  have typed: "frag (operand_typed env) (xp_operands q) 0 0 (pr_result_kind prog) (xp_instructions q)"
      "0 < xp_max_register q" "xp_max_register q \<le> xe_registers env"
      "\<forall>c\<in>set (xp_instructions q). qi_dst c < xp_max_register q"
    using typed_parser_run [OF _ _ q(1)] assms(2) by (simp_all add: all)
  have "b \<longrightarrow> pr_result_kind prog = EXPR_VALUE_BOOL"
    using boolean_run q(1) by (cases b) auto
  with typed frag_jumps [OF typed(1)] show ?thesis by (simp add: q list_all_iff)
qed

section \<open>A compiled guard\<close>

definition compiled_program :: "compile_result \<Rightarrow> scxml_expr_program option" where
  "compiled_program result = (case result of Compiled prog \<Rightarrow> Some prog | _ \<Rightarrow> None)"

lemma counter_compiles:
  "map_option (\<lambda>prog. (pr_instructions prog, pr_register_count prog, pr_result_kind prog))
     (compiled_program (expr_compile (counter_env ''n>1'') (counter_host None) True)) =
   Some ([instruction QVM_OP_LOAD_PATH 0 0 0 0, instruction QVM_OP_LOAD_CONST 1 0 1 0,
          instruction QVM_OP_CMP 0 4 0 1], 2, EXPR_VALUE_BOOL)"
  by code_simp

definition counter_program :: scxml_expr_program where
  "counter_program = the (compiled_program (expr_compile (counter_env ''n>1'') (counter_host None) True))"

lemma counter_program_compiled:
  "expr_compile (counter_env ''n>1'') (counter_host None) True = Compiled counter_program"
  "pr_register_count counter_program = 2" "pr_result_kind counter_program = EXPR_VALUE_BOOL"
  using counter_compiles
  by (auto simp: counter_program_def compiled_program_def split: compile_result.splits)

theorem compiled_program_typed_witness:
  "frag (operand_typed (counter_env ''n>1'')) (pr_operands counter_program) 0 0 EXPR_VALUE_BOOL
     (pr_instructions counter_program) \<and>
   list_all (\<lambda>i. qi_dst i < 2) (pr_instructions counter_program)"
  using compiled_program_typed [OF counter_program_compiled(1)] counter_program_compiled(2,3)
  by (simp add: counter_env_def)

end
