(* ===== verification/Spec2Isabelle.thy ===== *)
theory Spec2Isabelle
  imports Host_Router_Identity Host_Router_Topology Cnet_Domain_Fence Cnet_Frame_Ingress
    Http_Codec_Roundtrip Host_Event_IO Cnet_Egress_Pump Http_Demo Http_Lifecycle
    Session_Invocation_Safety Session_Metadata_Tokens Expr_Program
begin

text \<open>
  A verification of the host delivery boundary of TurboSCXML, the C code that carries events
  between SCXML Sessions, and between Sessions and the network, and of its compiler for
  CMeta expressions.

  \<^bold>\<open>The program.\<close> A Session runs a statechart on a serial executor. An executable \<^verbatim>\<open>send\<close> is
  \<^emph>\<open>prepared\<close> during a microstep by an Event I/O adapter, which reserves bounded storage and returns a
  ticket; the executor later \<^emph>\<open>commits\<close> or \<^emph>\<open>discards\<close> the ticket. The adapters are the host
  binding, which routes to other Sessions of the process through the host router, the CNet
  egress, which writes to one connection, and the BasicHTTP processor. In the other direction
  the CNet ingress and the CNet frame ingress turn received bytes into events, and the domain
  fence decides which generation of a CNet domain may submit operations. Every part has
  fixed capacities, a mutex, counters, and an explicit close, quiescence and destroy protocol.
  The guards and values of a chart with the CMeta data model are expressions over typed C
  structures, which are compiled once to instructions of the query machine QVM.

  \<^bold>\<open>Theories and sources\<close> (paths below \<^verbatim>\<open>src/\<close>).
  \<^item> \<open>Prelude\<close>: words, status codes, byte views (pointer and size), the request and event types
    of \<^verbatim>\<open>include/scxml/scxml.h\<close>, scans over tables and counting lemmas; the locale \<open>row_order\<close>.
  \<^item> \<open>Row_Queue\<close>: the locale \<open>keyed_rows\<close>, a table of rows with unique keys seen as a queue, and
    the locale \<open>fifo_drain\<close>, a pass that delivers from the head and stops at the first refusal.
  \<^item> \<open>Host_Router\<close>: \<^verbatim>\<open>src/scxml_host_router.c\<close>. \<open>Host_Router_Inv\<close> has the invariant and its
    preservation, \<open>Host_Router_Safety\<close> the transition system and what holds in all reachable
    states, \<open>Host_Router_Queue\<close> the delivery and timer loops as refinements of list programs
    (interpretations \<open>by_sequence\<close>, \<open>by_deadline\<close>, \<open>router_fifo\<close>), \<open>Host_Router_Identity\<close> row
    identities and cancellation, \<open>Host_Router_Topology\<close> parents, addresses, close and destroy.
  \<^item> \<open>Host_Event_IO\<close>: \<^verbatim>\<open>src/scxml_host_event_io.c\<close>, the adapter over the router.
  \<^item> \<open>Cnet_Domain_Fence\<close>: \<^verbatim>\<open>src/scxml_cnet_domain_fence.c\<close>, with callbacks that re-enter the fence.
  \<^item> \<open>Cnet_Ingress\<close>: \<^verbatim>\<open>src/scxml_cnet_ingress.c\<close>, a ring buffer (interpretation \<open>ingress_fifo\<close>).
  \<^item> \<open>Cnet_Frame_Ingress\<close>: \<^verbatim>\<open>src/scxml_cnet_frame_ingress.c\<close>; the locale \<open>frame_sink\<close> is what it
    needs of its target and is interpreted on the router (\<open>router_sink\<close>).
  \<^item> \<open>Cnet_Egress\<close>, \<open>Cnet_Egress_Inv\<close>, \<open>Cnet_Egress_Pump\<close>: \<^verbatim>\<open>src/scxml_cnet_egress.c\<close>, its
    invariant (interpretation \<open>egress_order\<close>), and its transition system and pump.
  \<^item> \<open>Http_Codec\<close>, \<open>Http_Codec_Roundtrip\<close>: \<^verbatim>\<open>src/chttp_event_io_codec.c\<close>.
  \<^item> \<open>Xml_Names\<close>: the name tests of \<^verbatim>\<open>src/scxml_analyze.c\<close>, which the HTTP ingress uses.
  \<^item> \<open>Http_Egress\<close>: \<^verbatim>\<open>src/chttp_event_io_egress.c\<close>. \<open>Http_Binding\<close>: the composite adapter and the
    bindings of \<^verbatim>\<open>src/chttp_event_io.c\<close>. \<open>Http_Ingress\<close>: \<^verbatim>\<open>src/chttp_event_io_ingress.c\<close>. \<open>Http_Inv\<close>
    has the invariant of the processor and its preservation (interpretation \<open>due_index\<close>),
    \<open>Http_Safety\<close> the transition system and the properties, \<open>Http_Demo\<close> a concrete run.
    \<open>Http_Config\<close>: the configuration check, storage layout and initialisation of \<^verbatim>\<open>src/chttp_event_io.c\<close>;
    \<open>Http_Lifecycle\<close>: its worker thread, start, stop and destroy.
  \<^item> \<open>Session_State\<close>: the tables of a Session (\<^verbatim>\<open>src/scxml_impl.h\<close>). \<open>Session_Metadata\<close>: events with
    metadata, done data and event observation (\<^verbatim>\<open>src/scxml_runtime.c\<close>, \<^verbatim>\<open>src/scxml_session.c\<close>),
    with its invariant in \<open>Session_Metadata_Inv\<close> and the wrap-around of its tokens in
    \<open>Session_Metadata_Tokens\<close>. \<open>Session_Registry\<close>: the delayed-send registry
    with its prepared effects, and the execution of \<^verbatim>\<open><send>\<close> and \<^verbatim>\<open><cancel>\<close>; \<open>Session_Registry_Inv\<close> has
    the invariant and \<open>Session_Registry_Spec\<close> the abstract set of pending sends it implements.
    \<open>Session_Invocation\<close>: invoked services, from entering their state to completion, forwarding and
    cancellation, and the host hooks of the statechart library; \<open>Session_Invocation_Inv\<close> has the
    invariant, \<open>Session_Invocation_Safety\<close> the Session as a transition system (\<open>session_step\<close>).
    Resolving an exit ticket is two sections, as in the code: \<open>commit_invocation_lifecycle\<close> removes the
    invocation and notes in \<open>sn_unfinished\<close> what is left, \<open>finish_invocation_exit\<close> asks the service
    to cancel and counts the answer; other threads run in between and see the counters there.
  \<^item> CMeta expressions, \<^verbatim>\<open>src/scxml_expr.c\<close>: \<open>Expr_Value\<close> the operators that QVM calls back,
    \<open>Expr_Value_Exact\<close> their exactness; \<open>Expr_Schema\<close> the data descriptors, \<open>Expr_Lexer\<close> the
    tokens, \<open>Expr_Parser\<close> the recursive descent parser, which is run once to measure and once to
    emit, and the compiler around it; \<open>Expr_Parser_Ends\<close> shows that the parser ends,
    \<open>Expr_Parser_Runs\<close> that its two runs agree, \<open>Expr_Parser_Types\<close> that the code is a well-typed
    fragment (\<open>frag\<close>), \<open>Expr_Program\<close> what holds of a compiled program.

  \<^bold>\<open>State and concurrency.\<close> A struct is a record, a table allocated at initialisation is a list of
  fixed length, a pointer into a table is an index, and a ticket is the index it carries. A
  section of code under the mutex is one function on the record. A function that releases the
  mutex in between (drain, timer pass, pump) is composed of its sections, and the step
  relations \<open>router_step\<close>, \<open>egress_step\<close>, \<open>ingress_step\<close>, \<open>frame_step\<close>, \<open>fence_step\<close>, \<open>http_step\<close>, \<open>life_step\<close> and \<open>session_step\<close> let any other
  operation run between them, so a property of the reachable states holds for every
  interleaving of the threads. Counters and generations are 32 or 64 bit words and wrap as in
  C; sizes are natural numbers with the checks the code makes. Errors are the status values
  of the sources. Where a 64-bit sequence number must not wrap, this is a visible
  hypothesis or a guard of the step relation. The condition variable of the HTTP processor is the
  set of the threads asleep on it (\<open>sy_asleep\<close>): a thread whose wait predicate is false joins it
  when it gives up the mutex, a broadcast empties it, and a thread may also wake without one; a
  sleeping thread takes no step.

  \<^bold>\<open>What is shown.\<close> Counters equal what they count and stay within capacity; every event is held,
  delivered, discarded or cancelled exactly once; no stale reference survives a detach; the
  drains deliver in commit order and the timer in deadline order; a cancellation never reaches
  a reused row; parents form a forest and addresses resolve only to visible endpoints; a
  closed router publishes nothing and can be destroyed; frames and forms are recovered exactly
  from their encodings; decoders stay within their storage; the host adapter publishes a send
  exactly when its ticket commits; the pump terminates and writes in commit order; HTTP requests
  of one Session leave one at a time in commit order, and closing its binding touches no other
  Session. One theorem, \<open>http_close_race_strands_row\<close>, shows a defect: a close that meets a
  submission refused by a full HTTP client leaves a row that nothing removes. Stopping the HTTP
  processor ends with everything torn down, and no thread is left asleep once what it waits
  for has happened (\<open>http_no_lost_wakeup\<close>), but a start that fails in
  the HTTP server leaves a processor that cannot be released (\<open>http_failed_start_leaks\<close>). Inside
  a Session, an event arrives with exactly the metadata its sender attached, event data are neither
  leaked nor destroyed twice, a committed transaction changes the pending delayed sends as its steps
  say and a discarded one restores them, unless it cancelled one send twice
  (\<open>double_cancel_forgets_send\<close>), and each adapter ticket is resolved once. Every invoked service that was started is active or
  ended in exactly one way, none is left half started, and a service that is gone is never heard again.
  The expression compiler always ends, stays within the arrays it allocates, and produces only
  well-typed programs; integer arithmetic is exact or refused, and comparisons across kinds are
  those of the exact numbers.

  \<^bold>\<open>Loops.\<close> All loops but one are structural or have a termination proof. The pump of the egress
  counts only accepted writes, so it is a partial function with value \<^term>\<open>None\<close> for not
  returning, and its totality is a theorem (\<open>egress_pump_returns\<close>) for every memory pool and
  every CNet that reach the egress only through its operations and callbacks. The
  expression parser recurses mutually on the source; its fuel is two more than the length of the
  source, and \<open>compile_two_runs_agree\<close> shows that it is never used up.

  \<^bold>\<open>Parameters.\<close> Code outside the repository is an argument of the definitions: the monotonic
  clock, the outcome of allocations, the Session admission, CNet calls, the memory pool, the
  UTF-8 test of the string library, and the decimal point of the C locale; for expressions,
  the data descriptors of CMeta, the state resolver, the register count and the verdict of the QVM
  verifier, and whether \<^verbatim>\<open>strtod\<close> reports underflow. A double is NaN, an infinity or a rational
  that a double represents; the two zeros are one value.

  \<^bold>\<open>Not modelled.\<close> The statistics functions, which copy counters. The
  test hooks of the HTTP processor. Of \<^verbatim>\<open>src/scxml_runtime.c\<close> and \<^verbatim>\<open>src/scxml_session.c\<close>: opening and closing of
  a Session, data initialisation and data resources, executable blocks other than send and cancel. The
  statechart interpreter itself belongs to the CFlow library, which is not in the repository. The
  compiler front end for documents. Of \<^verbatim>\<open>src/scxml_expr.c\<close>: the loading of operands at run time and the
  locations of assignments, which read and write C memory through CMeta; QVM itself is an external
  library. The QuickJS bridge, the plugin loader and the document
  fetchers are glue around external libraries. The CCXML and VoiceXML interpreters are
  separate programs of the repository.
\<close>

end
